(* ===== verification/Minus_Prelude.thy ===== *)
theory Minus_Prelude
  imports Main "HOL-Library.Word"
begin

text \<open>
  Shared ground of the library: the machine types of \<open>include/base/types.h\<close>, the error
  numbers of \<open>include/uapi/errno.h\<close>, the alignment macros, the bitmap and rounding helpers of
  \<open>include/base/bitops.h\<close> and \<open>lib/bitops.c\<close>, byte memory with checked accesses, and the
  generic lemmas on lists, options and words that the component theories use.

  Conventions used everywhere. \<open>size_t\<close> is \<open>unsigned int\<close> in this kernel, so it is a 32-bit
  word. An access outside the object it is made on is undefined behaviour in C; a model of such
  code returns \<open>None\<close> there, so that a theorem with the value \<open>Some\<close> also says that no such
  access happens. A negative \<open>errno\<close> result is \<open>Inl\<close> of the error, a successful one is \<open>Inr\<close>.
\<close>

unbundle bit_operations_syntax

section \<open>Machine types\<close>

type_synonym u8 = "8 word"
type_synonym u16 = "16 word"
type_synonym u32 = "32 word"
type_synonym u64 = "64 word"
type_synonym bytes = "u8 list"

named_theorems mem_simps \<open>evaluation of checked memory accesses\<close>
named_theorems align_simps \<open>alignment macros as arithmetic\<close>

section \<open>Signed arithmetic\<close>

text \<open>A result of arithmetic on \<open>int\<close> that does not fit 32 bits is undefined behaviour.\<close>

definition ck :: "int \<Rightarrow> int option" where
  "ck v = (if - (2 ^ 31) \<le> v \<and> v < 2 ^ 31 then Some v else None)"

lemma sint_small:
  assumes "unat (w :: u32) < 2 ^ 31"
  shows "sint w = int (unat w)"
proof -
  have "sint (of_nat k :: u32) = int k" if "k < 2 ^ 31" for k
    using that by (simp add: sint_uint uint_nat unat_of_nat signed_take_bit_int_eq_self)
  from this [OF assms] show ?thesis by simp
qed

section \<open>Error numbers\<close>

datatype errno =
    EPERM | ENOENT | ESRCH | EINTR | EIO | ENXIO | E2BIG | ENOEXEC | EBADF | ECHILD | EAGAIN
  | ENOMEM | EACCES | EFAULT | ENOTBLK | EBUSY | EEXIST | EXDEV | ENODEV | ENOTDIR | EISDIR
  | EINVAL | ENFILE | EMFILE | ENOTTY | ETXTBSY | EFBIG | ENOSPC | ESPIPE | EROFS | EMLINK
  | EPIPE | ENOSYS | ENOTEMPTY | ETIMEDOUT | ENOTSUP

fun errno_val :: "errno \<Rightarrow> int" where
  "errno_val EPERM = 1" | "errno_val ENOENT = 2" | "errno_val ESRCH = 3"
| "errno_val EINTR = 4" | "errno_val EIO = 5" | "errno_val ENXIO = 6"
| "errno_val E2BIG = 7" | "errno_val ENOEXEC = 8" | "errno_val EBADF = 9"
| "errno_val ECHILD = 10" | "errno_val EAGAIN = 11" | "errno_val ENOMEM = 12"
| "errno_val EACCES = 13" | "errno_val EFAULT = 14" | "errno_val ENOTBLK = 15"
| "errno_val EBUSY = 16" | "errno_val EEXIST = 17" | "errno_val EXDEV = 18"
| "errno_val ENODEV = 19" | "errno_val ENOTDIR = 20" | "errno_val EISDIR = 21"
| "errno_val EINVAL = 22" | "errno_val ENFILE = 23" | "errno_val EMFILE = 24"
| "errno_val ENOTTY = 25" | "errno_val ETXTBSY = 26" | "errno_val EFBIG = 27"
| "errno_val ENOSPC = 28" | "errno_val ESPIPE = 29" | "errno_val EROFS = 30"
| "errno_val EMLINK = 31" | "errno_val EPIPE = 32" | "errno_val ENOSYS = 38"
| "errno_val ENOTEMPTY = 39" | "errno_val ETIMEDOUT = 110" | "errno_val ENOTSUP = 95"

lemma errno_val_pos: "0 < errno_val e"
  by (cases e) simp_all

lemma errno_val_inj: "errno_val e = errno_val f \<Longrightarrow> e = f"
  by (cases e; cases f; simp)

section \<open>Alignment and rounding\<close>

definition ALIGN_UP :: "u64 \<Rightarrow> u64 \<Rightarrow> u64" where
  "ALIGN_UP x a = (x + (a - 1)) AND NOT (a - 1)"

definition ALIGN_DOWN :: "u64 \<Rightarrow> u64 \<Rightarrow> u64" where
  "ALIGN_DOWN x a = x AND NOT (a - 1)"

definition div_round_up :: "u64 \<Rightarrow> u64 \<Rightarrow> u64" where
  "div_round_up n d = (n + d - 1) div d"

definition round_up :: "u64 \<Rightarrow> u64 \<Rightarrow> u64" where
  "round_up x y = div_round_up x y * y"

definition round_down :: "u64 \<Rightarrow> u64 \<Rightarrow> u64" where
  "round_down x y = (x div y) * y"

text \<open>
  For a power of two the mask form of \<open>ALIGN_DOWN\<close> clears the low bits, that is, it subtracts
  the remainder.
\<close>

lemma word_split_mask: "(x :: 'a::len word) = (x AND NOT (mask n)) + (x AND mask n)"
  by (metis (no_types, lifting) ext and.idem and_eq_not_not_or and_zero_eq
    bit.conj_disj_distrib disjunctive_add_eq_or word_and_not word_ao_absorbs(2))

lemma unat_take_bit: "unat (take_bit n (x :: 'a::len word)) = unat x mod 2 ^ n"
  by (subst unsigned_take_bit_eq) (simp add: take_bit_eq_mod)

lemma unat_and_mask: "unat ((x :: 'a::len word) AND mask n) = unat x mod 2 ^ n"
  using unat_take_bit [of n x] by (simp add: take_bit_eq_mask)

lemma and_not_mask_unat: "unat ((x :: 'a::len word) AND NOT (mask n)) = unat x div 2 ^ n * 2 ^ n"
proof -
  have e: "x AND NOT (mask n) = x - take_bit n x"
    by (metis word_split_mask add_diff_cancel_right' take_bit_eq_mask)
  have "take_bit n x \<le> x"
    by (simp add: word_le_nat_alt unat_take_bit)
  then have "unat (x - take_bit n x) = unat x - unat (take_bit n x)"
    by (rule unat_sub)
  then show ?thesis
    by (simp add: e unat_take_bit minus_mod_eq_div_mult)
qed

lemma unat_mult_power_no_overflow:
  "unat (x :: 'a::len word) * 2 ^ n < 2 ^ LENGTH('a) \<Longrightarrow> unat (push_bit n x) = unat x * 2 ^ n"
  by (subst unsigned_push_bit_eq) (simp add: push_bit_eq_mult take_bit_eq_mod)

lemma unat_drop_bit: "unat (drop_bit n (x :: 'a::len word)) = unat x div 2 ^ n"
  by (subst unsigned_drop_bit_eq) (simp add: drop_bit_eq_div take_bit_eq_mod)

lemma unat_power_two: "n < LENGTH('a) \<Longrightarrow> unat (2 ^ n :: 'a::len word) = 2 ^ n"
proof -
  assume n: "n < LENGTH('a)"
  have "(2 ^ n :: 'a word) = word_of_nat (2 ^ n)"
    by simp
  then have "unat (2 ^ n :: 'a word) = 2 ^ n mod 2 ^ LENGTH('a)"
    by (simp only: unat_of_nat)
  then show ?thesis
    using n by simp
qed

lemma unat_mask_u64: "n < 64 \<Longrightarrow> unat (mask n :: u64) = 2 ^ n - 1"
  by (simp add: mask_eq_exp_minus_1 unat_sub word_le_nat_alt unat_power_two)

lemma ALIGN_DOWN_unat [align_simps]: "unat (ALIGN_DOWN x (2 ^ n)) = unat x div 2 ^ n * 2 ^ n"
  by (simp add: ALIGN_DOWN_def and_not_mask_unat flip: mask_eq_exp_minus_1)

lemma ALIGN_UP_unat [align_simps]:
  assumes "n < 64" and "unat x + (2 ^ n - 1) < 2 ^ 64"
  shows "unat (ALIGN_UP x (2 ^ n)) = (unat x + (2 ^ n - 1)) div 2 ^ n * 2 ^ n"
proof -
  have m: "unat (mask n :: u64) = 2 ^ n - 1"
    using assms(1) by (simp add: unat_mask_u64)
  have "unat (x + mask n) = unat x + unat (mask n :: u64)"
    using assms(2) by (subst unat_add_lem [symmetric]) (simp add: m)
  then show ?thesis
    by (simp add: ALIGN_UP_def and_not_mask_unat m flip: mask_eq_exp_minus_1)
qed

text \<open>What rounding up to a multiple promises: the least multiple that is not below.\<close>

lemma round_up_nat_bounds:
  fixes x d :: nat
  assumes "0 < d"
  shows "x \<le> (x + (d - 1)) div d * d" and "(x + (d - 1)) div d * d < x + d"
proof -
  have "(x + (d - 1)) mod d < d"
    using assms by simp
  moreover have "(x + (d - 1)) div d * d = x + (d - 1) - (x + (d - 1)) mod d"
    by (simp add: minus_mod_eq_div_mult)
  ultimately show "x \<le> (x + (d - 1)) div d * d" and "(x + (d - 1)) div d * d < x + d"
    using assms by linarith+
qed

section \<open>Byte memory with checked accesses\<close>

definition rd :: "'a list \<Rightarrow> nat \<Rightarrow> 'a option" where
  "rd m i = (if i < length m then Some (m ! i) else None)"

definition wr :: "'a list \<Rightarrow> nat \<Rightarrow> 'a \<Rightarrow> 'a list option" where
  "wr m i v = (if i < length m then Some (m[i := v]) else None)"

lemma rd_Some_iff [mem_simps]: "rd m i = Some v \<longleftrightarrow> i < length m \<and> m ! i = v"
  by (auto simp: rd_def)

lemma Some_rd_iff [mem_simps]: "Some v = rd m i \<longleftrightarrow> i < length m \<and> m ! i = v"
  by (auto simp: rd_def)

lemma rd_None_iff [mem_simps]: "rd m i = None \<longleftrightarrow> length m \<le> i"
  by (auto simp: rd_def)

lemma wr_Some_iff [mem_simps]: "wr m i v = Some m' \<longleftrightarrow> i < length m \<and> m' = m[i := v]"
  by (auto simp: wr_def)

lemma rd_in_range [simp]: "i < length m \<Longrightarrow> rd m i = Some (m ! i)"
  by (simp add: rd_def)

lemma wr_in_range [simp]: "i < length m \<Longrightarrow> wr m i v = Some (m[i := v])"
  by (simp add: wr_def)

section \<open>Bitmaps\<close>

text \<open>The bitmap is an array of 64-bit words; bit \<open>nr\<close> is bit \<open>nr mod 64\<close> of word \<open>nr div 64\<close>.\<close>

definition test_bit :: "nat \<Rightarrow> u64 list \<Rightarrow> bool option" where
  "test_bit nr a = map_option (\<lambda>w. 1 AND drop_bit (nr mod 64) w \<noteq> 0) (rd a (nr div 64))"

definition set_bit :: "nat \<Rightarrow> u64 list \<Rightarrow> u64 list option" where
  "set_bit nr a = Option.bind (rd a (nr div 64))
     (\<lambda>w. wr a (nr div 64) (w OR push_bit (nr mod 64) 1))"

definition clear_bit :: "nat \<Rightarrow> u64 list \<Rightarrow> u64 list option" where
  "clear_bit nr a = Option.bind (rd a (nr div 64))
     (\<lambda>w. wr a (nr div 64) (w AND NOT (push_bit (nr mod 64) 1)))"

text \<open>
  \<open>find_first_zero_bit\<close>: the outer loop runs over the words, skipping the full ones; the inner
  loop over the bits of one word returns early at \<open>size\<close>. The inner loop gives \<open>Some\<close> of the
  returned value, or \<open>None\<close> when it runs to its end.
\<close>

function ffz_bits :: "u64 \<Rightarrow> nat \<Rightarrow> nat \<Rightarrow> nat \<Rightarrow> nat option" where
  "ffz_bits w i b nbits =
     (if b < 64 then
        (let pos = i * 64 + b in
         if nbits \<le> pos then Some nbits
         else if w AND push_bit b 1 = 0 then Some pos
         else ffz_bits w i (Suc b) nbits)
      else None)"
  by pat_completeness auto
termination
  by (relation "measure (\<lambda>(w, i, b, nbits). 64 - b)") auto

function ffz_words :: "u64 list \<Rightarrow> nat \<Rightarrow> nat \<Rightarrow> nat \<Rightarrow> nat option" where
  "ffz_words a i words nbits =
     (if i < words then
        (case rd a i of
           None \<Rightarrow> None
         | Some w \<Rightarrow>
             if w = NOT 0 then ffz_words a (Suc i) words nbits
             else (case ffz_bits w i 0 nbits of
                     Some r \<Rightarrow> Some r
                   | None \<Rightarrow> ffz_words a (Suc i) words nbits))
      else Some nbits)"
  by pat_completeness auto
termination
  by (relation "measure (\<lambda>(a, i, words, nbits). words - i)") auto

declare ffz_bits.simps [simp del] ffz_words.simps [simp del]

definition find_first_zero_bit :: "u64 list \<Rightarrow> u32 \<Rightarrow> nat option" where
  "find_first_zero_bit a nbits =
     ffz_words a 0 (unat ((ucast nbits + 64 - 1 :: u64) div 64)) (unat nbits)"

text \<open>The bit the bitmap holds at an index, and what the two loops establish.\<close>

definition bitmap_get :: "u64 list \<Rightarrow> nat \<Rightarrow> bool" where
  "bitmap_get a i = bit (a ! (i div 64)) (i mod 64)"

lemma test_bit_get: "nr div 64 < length a \<Longrightarrow> test_bit nr a = Some (bitmap_get a nr)"
  by (simp add: test_bit_def bitmap_get_def bit_iff_odd_drop_bit one_and_eq odd_iff_mod_2_eq_one)

lemma ffz_bits_Some:
  "ffz_bits w i b n = Some r \<Longrightarrow>
     r \<le> n \<and> r < i * 64 + 64 \<and> (\<forall>k. b \<le> k \<and> i * 64 + k < r \<longrightarrow> bit w k) \<and>
     (r < n \<longrightarrow> i * 64 + b \<le> r \<and> \<not> bit w (r - i * 64))"
proof (induction w i b n rule: ffz_bits.induct)
  case (1 w i b n)
  show ?case
  proof (cases "b < 64 \<and> i * 64 + b < n \<and> bit w b")
    case True
    then have step: "ffz_bits w i b n = ffz_bits w i (Suc b) n"
      by (subst ffz_bits.simps) (simp add: Let_def bit_iff_and_push_bit_not_eq_0)
    with True 1 have "r \<le> n \<and> r < i * 64 + 64 \<and>
        (\<forall>k. Suc b \<le> k \<and> i * 64 + k < r \<longrightarrow> bit w k) \<and>
        (r < n \<longrightarrow> i * 64 + Suc b \<le> r \<and> \<not> bit w (r - i * 64))"
      by (simp add: Let_def bit_iff_and_push_bit_not_eq_0)
    with True show ?thesis
      by (metis Suc_leI add_Suc_right le_eq_less_or_eq Suc_leD)
  next
    case False
    with "1.prems" show ?thesis
      by (subst (asm) ffz_bits.simps)
        (auto simp: Let_def bit_iff_and_push_bit_not_eq_0 split: if_splits)
  qed
qed

lemma ffz_bits_None: "ffz_bits w i b n = None \<Longrightarrow> b \<le> k \<Longrightarrow> k < 64 \<Longrightarrow> bit w k"
proof (induction w i b n rule: ffz_bits.induct)
  case (1 w i b n)
  then show ?case
    using "1.prems"(1) [unfolded ffz_bits.simps [of w i b n]]
    by (cases "k = b") (auto simp: Let_def bit_iff_and_push_bit_not_eq_0 split: if_splits)
qed

lemma ffz_words_spec:
  assumes "\<forall>j < i * 64. bitmap_get a j" and "words \<le> length a" and "i \<le> words"
    and "n \<le> words * 64"
  shows "\<exists>r. ffz_words a i words n = Some r \<and> r \<le> n \<and> (\<forall>j < r. bitmap_get a j) \<and>
           (r < n \<longrightarrow> \<not> bitmap_get a r)"
  using assms
proof (induction a i words n rule: ffz_words.induct)
  case (1 a i words n)
  have word_i: "bitmap_get a j"
    if "\<forall>k. i * 64 + k < r \<longrightarrow> bit (a ! i) k" "r \<le> i * 64 + 64" "j < r" for j r
  proof (cases "j < i * 64")
    case False
    then have "j div 64 = i"
      using that(2,3) by auto
    moreover from this have "i * 64 + j mod 64 = j"
      using div_mult_mod_eq [of j 64] by simp
    ultimately show ?thesis using that(1,3) by (simp add: bitmap_get_def)
  qed (use "1.prems"(1) in simp)
  show ?case
  proof (cases "i < words")
    case False
    then have "i = words" using "1.prems"(3) by simp
    then show ?thesis using "1.prems" by (auto simp: ffz_words.simps [of a words words n])
  next
    case True
    then have rdi: "rd a i = Some (a ! i)" using "1.prems"(2) by simp
    show ?thesis
    proof (cases "a ! i = NOT 0 \<or> ffz_bits (a ! i) i 0 n = None")
      case full: True
      then have "\<forall>k < 64. bit (a ! i) k"
        by (auto simp: bit_not_iff intro: ffz_bits_None)
      then have "\<forall>j < Suc i * 64. bitmap_get a j"
        using word_i [of "Suc i * 64"] by auto
      then have "\<exists>r. ffz_words a (Suc i) words n = Some r \<and> r \<le> n \<and>
          (\<forall>j < r. bitmap_get a j) \<and> (r < n \<longrightarrow> \<not> bitmap_get a r)"
        using "1.IH" rdi True full "1.prems" by (cases "a ! i = NOT 0") auto
      moreover have "ffz_words a i words n = ffz_words a (Suc i) words n"
        using True full rdi by (subst ffz_words.simps) auto
      ultimately show ?thesis by simp
    next
      case False
      then obtain r where r: "ffz_bits (a ! i) i 0 n = Some r" by auto
      then have "ffz_words a i words n = Some r"
        using True False rdi by (subst ffz_words.simps) auto
      moreover have "\<forall>j < r. bitmap_get a j"
        using word_i [of r] ffz_bits_Some [OF r] by auto
      moreover have "\<not> bitmap_get a r" if "r < n"
      proof -
        from ffz_bits_Some [OF r] that have "r div 64 = i"
          by auto
        moreover from this have "r mod 64 = r - i * 64"
          by (metis minus_div_mult_eq_mod)
        ultimately have "r div 64 = i" and "r mod 64 = r - i * 64"
          by simp_all
        then show ?thesis using ffz_bits_Some [OF r] that by (simp add: bitmap_get_def)
      qed
      ultimately show ?thesis using ffz_bits_Some [OF r] by auto
    qed
  qed
qed

lemma unat_u32_lt: "unat (n :: u32) < 2 ^ 32"
  using unsigned_less [of n, where ?'a = nat] by simp

lemma unat_u64_lt: "unat (n :: u64) < 2 ^ 64"
  using unsigned_less [of n, where ?'a = nat] by simp

lemma unat_u8_lt: "unat (n :: u8) < 2 ^ 8"
  using unsigned_less [of n, where ?'a = nat] by simp

lemma unat_ucast_u32_u64: "unat (ucast (n :: u32) :: u64) = unat n"
proof -
  have "unat n < 2 ^ 32"
    by (rule unat_u32_lt)
  then show ?thesis
    by (subst unsigned_ucast_eq) (simp add: take_bit_eq_mod)
qed

lemma bitmap_words: "unat ((ucast (n :: u32) + 64 - 1 :: u64) div 64) = (unat n + 63) div 64"
proof -
  have n: "unat n < 2 ^ 32"
    by (rule unat_u32_lt)
  then have "unat (63 + ucast n :: u64) = 63 + unat n"
    by (subst unat_add_lem [THEN iffD1]) (simp_all add: unat_ucast_u32_u64)
  then show ?thesis
    by (simp add: unat_div)
qed

text \<open>
  \<open>find_first_zero_bit\<close> is total on a bitmap with enough words, never reads outside it, and
  returns the index of the first clear bit below \<open>size\<close>, or \<open>size\<close> when every bit is set.
\<close>

theorem find_first_zero_bit_correct:
  assumes "unat nbits \<le> 64 * length a"
  shows "\<exists>r. find_first_zero_bit a nbits = Some r \<and> r \<le> unat nbits \<and>
           (\<forall>j < r. test_bit j a = Some True) \<and>
           (r < unat nbits \<longrightarrow> test_bit r a = Some False)"
proof -
  have "\<exists>r. ffz_words a 0 ((unat nbits + 63) div 64) (unat nbits) = Some r \<and> r \<le> unat nbits \<and>
      (\<forall>j < r. bitmap_get a j) \<and> (r < unat nbits \<longrightarrow> \<not> bitmap_get a r)"
    by (rule ffz_words_spec) (use assms in auto)
  moreover have "j div 64 < length a" if "j < unat nbits" for j
    using that assms by auto
  ultimately show ?thesis
    unfolding find_first_zero_bit_def bitmap_words
    by (metis (full_types) order_less_le_trans test_bit_get)
qed

theorem find_first_zero_bit_witness:
  "unat (70 :: u32) \<le> 64 * length [NOT 0, 3 :: u64] \<and>
   (\<exists>r. find_first_zero_bit [NOT 0, 3] 70 = Some r \<and> r \<le> unat (70 :: u32) \<and>
      (\<forall>j < r. test_bit j [NOT 0, 3] = Some True) \<and>
      (r < unat (70 :: u32) \<longrightarrow> test_bit r [NOT 0, 3] = Some False))"
proof -
  have h: "unat (70 :: u32) \<le> 64 * length [NOT 0, 3 :: u64]" by simp
  show ?thesis using h find_first_zero_bit_correct [OF h] by simp
qed

end
