(* ===== verification/CString.thy ===== *)
theory CString
  imports Minus_Prelude
begin

text \<open>
  The string and memory routines of \<open>lib/string.c\<close>. Memory is one byte array; a pointer is an
  index into it and \<open>None\<close> is the null pointer where the code tests for it. Every read and write
  is checked: an access outside the array makes the whole call \<open>None\<close>. A \<open>size_t\<close> argument is a
  32-bit word; the loop counters run below it and do not wrap.
\<close>

section \<open>Comparison and length\<close>

function strcmp :: "bytes \<Rightarrow> nat \<Rightarrow> nat \<Rightarrow> int option" where
  "strcmp m s t =
     (case (rd m s, rd m t) of
        (Some a, Some b) \<Rightarrow>
          if a \<noteq> 0 \<and> b \<noteq> 0 \<and> a = b then strcmp m (Suc s) (Suc t)
          else Some (if a \<noteq> b then 1 else 0)
      | _ \<Rightarrow> None)"
  by pat_completeness auto
termination
  by (relation "measure (\<lambda>(m, s, t). length m - s)") (auto simp: mem_simps)

function strncmp_loop :: "bytes \<Rightarrow> nat \<Rightarrow> nat \<Rightarrow> nat \<Rightarrow> nat \<Rightarrow> int option" where
  "strncmp_loop m s t i n =
     (if i < n then
        (case (rd m (s + i), rd m (t + i)) of
           (Some a, Some b) \<Rightarrow> if a \<noteq> b then Some 1 else strncmp_loop m s t (Suc i) n
         | _ \<Rightarrow> None)
      else Some 0)"
  by pat_completeness auto
termination
  by (relation "measure (\<lambda>(m, s, t, i, n). n - i)") auto

definition strncmp :: "bytes \<Rightarrow> nat \<Rightarrow> nat \<Rightarrow> u32 \<Rightarrow> int option" where
  "strncmp m s t n = (if n = 0 then Some 0 else strncmp_loop m s t 0 (unat n))"

function strlen_loop :: "bytes \<Rightarrow> nat \<Rightarrow> nat \<Rightarrow> nat option" where
  "strlen_loop m p len =
     (case rd m p of
        None \<Rightarrow> None
      | Some c \<Rightarrow> if c \<noteq> 0 then strlen_loop m (Suc p) (Suc len) else Some len)"
  by pat_completeness auto
termination
  by (relation "measure (\<lambda>(m, p, len). length m - p)") (auto simp: mem_simps)

definition strlen :: "bytes \<Rightarrow> nat option \<Rightarrow> nat option" where
  "strlen m str = (case str of None \<Rightarrow> Some 0 | Some p \<Rightarrow> strlen_loop m p 0)"

function strnlen_loop :: "bytes \<Rightarrow> nat \<Rightarrow> nat \<Rightarrow> nat \<Rightarrow> nat option" where
  "strnlen_loop m s len maxlen =
     (if len < maxlen then
        (case rd m (s + len) of
           None \<Rightarrow> None
         | Some c \<Rightarrow> if c \<noteq> 0 then strnlen_loop m s (Suc len) maxlen else Some len)
      else Some len)"
  by pat_completeness auto
termination
  by (relation "measure (\<lambda>(m, s, len, maxlen). maxlen - len)") auto

definition strnlen :: "bytes \<Rightarrow> nat \<Rightarrow> u32 \<Rightarrow> nat option" where
  "strnlen m s maxlen = strnlen_loop m s 0 (unat maxlen)"

section \<open>Copying and filling\<close>

text \<open>Each copying function gives the returned pointer and the memory.\<close>

function strcpy_loop :: "bytes \<Rightarrow> nat \<Rightarrow> nat \<Rightarrow> bytes option" where
  "strcpy_loop m dst src =
     (case rd m src of
        None \<Rightarrow> None
      | Some c \<Rightarrow>
          if c \<noteq> 0 then
            (case wr m dst c of None \<Rightarrow> None | Some m' \<Rightarrow> strcpy_loop m' (Suc dst) (Suc src))
          else Some m)"
  by pat_completeness auto
termination
  by (relation "measure (\<lambda>(m, dst, src). length m - src)") (auto simp: mem_simps)

definition strcpy :: "bytes \<Rightarrow> nat \<Rightarrow> nat option \<Rightarrow> (nat \<times> bytes) option" where
  "strcpy m dst src =
     (case src of None \<Rightarrow> Some (dst, m) | Some p \<Rightarrow> map_option (Pair dst) (strcpy_loop m dst p))"

function strncpy_pad :: "bytes \<Rightarrow> nat \<Rightarrow> nat \<Rightarrow> nat \<Rightarrow> bytes option" where
  "strncpy_pad m dst i n =
     (if i < n then
        (case wr m dst 0 of None \<Rightarrow> None | Some m' \<Rightarrow> strncpy_pad m' (Suc dst) (Suc i) n)
      else Some m)"
  by pat_completeness auto
termination
  by (relation "measure (\<lambda>(m, dst, i, n). n - i)") auto

function strncpy_copy :: "bytes \<Rightarrow> nat \<Rightarrow> nat option \<Rightarrow> nat \<Rightarrow> nat \<Rightarrow> bytes option" where
  "strncpy_copy m dst src i n =
     (if i < n then
        (case src of
           None \<Rightarrow> strncpy_pad m dst i n
         | Some p \<Rightarrow>
             (case rd m p of
                None \<Rightarrow> None
              | Some c \<Rightarrow>
                  if c \<noteq> 0 then
                    (case wr m dst c of
                       None \<Rightarrow> None
                     | Some m' \<Rightarrow> strncpy_copy m' (Suc dst) (Some (Suc p)) (Suc i) n)
                  else strncpy_pad m dst i n))
      else strncpy_pad m dst i n)"
  by pat_completeness auto
termination
  by (relation "measure (\<lambda>(m, dst, src, i, n). n - i)") auto

definition strncpy :: "bytes \<Rightarrow> nat \<Rightarrow> nat option \<Rightarrow> u32 \<Rightarrow> (nat \<times> bytes) option" where
  "strncpy m dst src n = map_option (Pair dst) (strncpy_copy m dst src 0 (unat n))"

function copy_fwd :: "bytes \<Rightarrow> nat \<Rightarrow> nat \<Rightarrow> nat \<Rightarrow> nat \<Rightarrow> bytes option" where
  "copy_fwd m dst src i n =
     (if i < n then
        (case rd m (src + i) of
           None \<Rightarrow> None
         | Some c \<Rightarrow>
             (case wr m (dst + i) c of
                None \<Rightarrow> None
              | Some m' \<Rightarrow> copy_fwd m' dst src (Suc i) n))
      else Some m)"
  by pat_completeness auto
termination
  by (relation "measure (\<lambda>(m, dst, src, i, n). n - i)") auto

definition memcpy :: "bytes \<Rightarrow> nat option \<Rightarrow> nat \<Rightarrow> u32 \<Rightarrow> (nat option \<times> bytes) option" where
  "memcpy m dst src n =
     (case dst of
        None \<Rightarrow> Some (None, m)
      | Some d \<Rightarrow> map_option (Pair (Some d)) (copy_fwd m d src 0 (unat n)))"

function memset_loop :: "bytes \<Rightarrow> nat \<Rightarrow> u8 \<Rightarrow> nat \<Rightarrow> nat \<Rightarrow> bytes option" where
  "memset_loop m str c i n =
     (if i < n then
        (case wr m (str + i) c of None \<Rightarrow> None | Some m' \<Rightarrow> memset_loop m' str c (Suc i) n)
      else Some m)"
  by pat_completeness auto
termination
  by (relation "measure (\<lambda>(m, str, c, i, n). n - i)") auto

definition memset :: "bytes \<Rightarrow> nat option \<Rightarrow> u32 \<Rightarrow> u32 \<Rightarrow> (nat option \<times> bytes) option" where
  "memset m str c n =
     (case str of
        None \<Rightarrow> Some (None, m)
      | Some p \<Rightarrow> map_option (Pair (Some p)) (memset_loop m p (ucast c) 0 (unat n)))"

text \<open>
  \<open>memmove\<close>: forward when the destination lies before the source, backward otherwise. The
  backward loop decrements both pointers and then copies, \<open>n\<close> times.
\<close>

fun copy_bwd :: "bytes \<Rightarrow> nat \<Rightarrow> nat \<Rightarrow> nat \<Rightarrow> bytes option" where
  "copy_bwd m d s 0 = Some m"
| "copy_bwd m d s (Suc n) =
     (case rd m (s + n) of
        None \<Rightarrow> None
      | Some c \<Rightarrow>
          (case wr m (d + n) c of None \<Rightarrow> None | Some m' \<Rightarrow> copy_bwd m' d s n))"

definition memmove :: "bytes \<Rightarrow> nat \<Rightarrow> nat \<Rightarrow> u32 \<Rightarrow> (nat \<times> bytes) option" where
  "memmove m dest src n =
     (if n = 0 \<or> dest = src then Some (dest, m)
      else if dest < src then map_option (Pair dest) (copy_fwd m dest src 0 (unat n))
      else map_option (Pair dest) (copy_bwd m dest src (unat n)))"

definition memcmp :: "bytes \<Rightarrow> nat \<Rightarrow> nat \<Rightarrow> u32 \<Rightarrow> int option" where
  "memcmp m s t n = strncmp m s t n"

section \<open>Searching\<close>

text \<open>A search returns \<open>Some None\<close> for the null pointer and \<open>Some (Some p)\<close> for a match.\<close>

function memchr_loop :: "bytes \<Rightarrow> nat \<Rightarrow> u8 \<Rightarrow> nat \<Rightarrow> nat option option" where
  "memchr_loop m p ch n =
     (if n = 0 then Some None
      else (case rd m p of
              None \<Rightarrow> None
            | Some c \<Rightarrow> if c = ch then Some (Some p) else memchr_loop m (Suc p) ch (n - 1)))"
  by pat_completeness auto
termination
  by (relation "measure (\<lambda>(m, p, ch, n). n)") auto

definition memchr :: "bytes \<Rightarrow> nat \<Rightarrow> u32 \<Rightarrow> u32 \<Rightarrow> nat option option" where
  "memchr m s c n = memchr_loop m s (ucast c) (unat n)"

function strchr_loop :: "bytes \<Rightarrow> nat \<Rightarrow> u8 \<Rightarrow> nat option option" where
  "strchr_loop m s ch =
     (case rd m s of
        None \<Rightarrow> None
      | Some c \<Rightarrow>
          if c \<noteq> 0 then (if c = ch then Some (Some s) else strchr_loop m (Suc s) ch)
          else if ch = 0 then Some (Some s) else Some None)"
  by pat_completeness auto
termination
  by (relation "measure (\<lambda>(m, s, ch). length m - s)") (auto simp: mem_simps)

definition strchr :: "bytes \<Rightarrow> nat \<Rightarrow> u32 \<Rightarrow> nat option option" where
  "strchr m s c = strchr_loop m s (ucast c)"

function strrchr_loop :: "bytes \<Rightarrow> nat \<Rightarrow> u8 \<Rightarrow> nat option \<Rightarrow> nat option option" where
  "strrchr_loop m s ch lastp =
     (case rd m s of
        None \<Rightarrow> None
      | Some c \<Rightarrow>
          if c \<noteq> 0 then strrchr_loop m (Suc s) ch (if c = ch then Some s else lastp)
          else if ch = 0 then Some (Some s) else Some lastp)"
  by pat_completeness auto
termination
  by (relation "measure (\<lambda>(m, s, ch, lastp). length m - s)") (auto simp: mem_simps)

definition strrchr :: "bytes \<Rightarrow> nat \<Rightarrow> u32 \<Rightarrow> nat option option" where
  "strrchr m s c = strrchr_loop m s (ucast c) None"

text \<open>
  \<open>strstr\<close>: the comparison loop at one position stops at the first difference (\<open>Some (Inl i)\<close>,
  with the index it stopped at), or returns null from the middle (\<open>Some (Inr ())\<close>) when the two
  agree on a terminator.
\<close>

function strstr_cmp :: "bytes \<Rightarrow> nat \<Rightarrow> nat \<Rightarrow> nat \<Rightarrow> nat \<Rightarrow> (nat + unit) option" where
  "strstr_cmp m h n i needle_len =
     (if i < needle_len then
        (case (rd m (h + i), rd m (n + i)) of
           (Some a, Some b) \<Rightarrow>
             if a \<noteq> b then Some (Inl i)
             else if a = 0 then Some (Inr ())
             else strstr_cmp m h n (Suc i) needle_len
         | _ \<Rightarrow> None)
      else Some (Inl i))"
  by pat_completeness auto
termination
  by (relation "measure (\<lambda>(m, h, n, i, needle_len). needle_len - i)") auto

function strstr_loop :: "bytes \<Rightarrow> nat \<Rightarrow> nat \<Rightarrow> nat \<Rightarrow> nat option option" where
  "strstr_loop m haystack needle needle_len =
     (case rd m haystack of
        None \<Rightarrow> None
      | Some c \<Rightarrow>
          if c = 0 then Some None
          else (case strstr_cmp m haystack needle 0 needle_len of
                  None \<Rightarrow> None
                | Some (Inr _) \<Rightarrow> Some None
                | Some (Inl i) \<Rightarrow>
                    if i = needle_len then Some (Some haystack)
                    else strstr_loop m (Suc haystack) needle needle_len))"
  by pat_completeness auto
termination
  by (relation "measure (\<lambda>(m, h, n, l). length m - h)") (auto simp: mem_simps)

definition strstr :: "bytes \<Rightarrow> nat \<Rightarrow> nat option \<Rightarrow> nat option option" where
  "strstr m haystack needle =
     (case needle of
        None \<Rightarrow> Some (Some haystack)
      | Some n \<Rightarrow>
          (case rd m n of
             None \<Rightarrow> None
           | Some c \<Rightarrow>
               if c = 0 then Some (Some haystack)
               else (case strlen_loop m n 0 of
                       None \<Rightarrow> None
                     | Some l \<Rightarrow> strstr_loop m haystack n l)))"

section \<open>Number formatting and parsing\<close>

text \<open>
  The formatting helpers work on a local buffer of their own. \<open>reverse_buf\<close> is the static
  function \<open>swap\<close>, which reverses the first \<open>n\<close> bytes of the buffer.
\<close>

function reverse_loop :: "bytes \<Rightarrow> nat \<Rightarrow> nat \<Rightarrow> bytes option" where
  "reverse_loop buf i n =
     (if i < n div 2 then
        (case (rd buf i, rd buf (n - 1 - i)) of
           (Some c, Some d) \<Rightarrow>
             (case wr buf i d of
                None \<Rightarrow> None
              | Some buf' \<Rightarrow>
                  (case wr buf' (n - 1 - i) c of
                     None \<Rightarrow> None
                   | Some buf'' \<Rightarrow> reverse_loop buf'' (Suc i) n))
         | _ \<Rightarrow> None)
      else Some buf)"
  by pat_completeness auto
termination
  by (relation "measure (\<lambda>(buf, i, n). n div 2 - i)") auto

definition reverse_buf :: "bytes \<Rightarrow> nat \<Rightarrow> bytes option" where
  "reverse_buf buf n = reverse_loop buf 0 n"

definition hex_digit :: "u64 \<Rightarrow> u8" where
  "hex_digit c = (if 10 \<le> c then ucast c - 10 + 65 else ucast c + 48)"

function to_hex_loop :: "bytes \<Rightarrow> u64 \<Rightarrow> nat \<Rightarrow> (bytes \<times> nat) option" where
  "to_hex_loop buf n cnt =
     (case wr buf cnt (hex_digit (n AND 15)) of
        None \<Rightarrow> None
      | Some buf' \<Rightarrow>
          if drop_bit 4 n \<noteq> 0 then to_hex_loop buf' (drop_bit 4 n) (Suc cnt)
          else Some (buf', Suc cnt))"
  by pat_completeness auto
termination
  by (relation "measure (\<lambda>(buf, n, cnt). length buf - cnt)") (auto simp: mem_simps)

definition to_hex :: "bytes \<Rightarrow> u64 \<Rightarrow> bytes option" where
  "to_hex buf n =
     Option.bind (to_hex_loop buf n 0) (\<lambda>(b1, cnt).
     Option.bind (wr b1 cnt 120) (\<lambda>b2.
     Option.bind (wr b2 (cnt + 1) 48) (\<lambda>b3.
     Option.bind (reverse_buf b3 (cnt + 2)) (\<lambda>b4.
     wr b4 (cnt + 2) 0))))"

function to_decimal_loop :: "bytes \<Rightarrow> u64 \<Rightarrow> nat \<Rightarrow> (bytes \<times> nat) option" where
  "to_decimal_loop buf n cnt =
     (case wr buf cnt (ucast (n mod 10) + 48) of
        None \<Rightarrow> None
      | Some buf' \<Rightarrow>
          if n div 10 \<noteq> 0 then to_decimal_loop buf' (n div 10) (Suc cnt)
          else Some (buf', Suc cnt))"
  by pat_completeness auto
termination
  by (relation "measure (\<lambda>(buf, n, cnt). length buf - cnt)") (auto simp: mem_simps)

definition to_decimal :: "bytes \<Rightarrow> u64 \<Rightarrow> bytes option" where
  "to_decimal buf n =
     Option.bind (to_decimal_loop buf n 0) (\<lambda>(b1, cnt).
     Option.bind (reverse_buf b1 cnt) (\<lambda>b2. wr b2 cnt 0))"

definition tostr :: "bytes \<Rightarrow> u64 \<Rightarrow> nat \<Rightarrow> bytes option" where
  "tostr buf n base = (if base = 16 then to_hex buf n else to_decimal buf n)"

function skip_blank :: "bytes \<Rightarrow> nat \<Rightarrow> nat option" where
  "skip_blank m s =
     (case rd m s of
        None \<Rightarrow> None
      | Some c \<Rightarrow> if c = 32 \<or> c = 9 then skip_blank m (Suc s) else Some s)"
  by pat_completeness auto
termination
  by (relation "measure (\<lambda>(m, s). length m - s)") (auto simp: mem_simps)

function strtoul_digits :: "bytes \<Rightarrow> nat \<Rightarrow> u64 \<Rightarrow> (u64 \<times> nat) option" where
  "strtoul_digits m s result =
     (case rd m s of
        None \<Rightarrow> None
      | Some c \<Rightarrow>
          if 48 \<le> c \<and> c \<le> 57 then strtoul_digits m (Suc s) (result * 10 + ucast (c - 48))
          else Some (result, s))"
  by pat_completeness auto
termination
  by (relation "measure (\<lambda>(m, s, result). length m - s)") (auto simp: mem_simps)

text \<open>The value and the end pointer; the sign is applied to the unsigned result.\<close>

definition strtoul :: "bytes \<Rightarrow> nat \<Rightarrow> (u64 \<times> nat) option" where
  "strtoul m nptr =
     Option.bind (skip_blank m nptr) (\<lambda>s.
     Option.bind (rd m s) (\<lambda>c.
       let s' = (if c = 45 \<or> c = 43 then Suc s else s) in
       Option.bind (strtoul_digits m s' 0) (\<lambda>(result, e).
         Some (if c = 45 then - result else result, e))))"

section \<open>Formatted output\<close>

text \<open>
  The variadic arguments are a list of tagged values; taking one at the wrong type, or one that
  is not there, is undefined in C and \<open>None\<close> here. \<open>tmp\<close> points into memory (a \<open>%s\<close> argument)
  or to the local buffer.
\<close>

datatype vararg = VStr "nat option" | VLong u64 | VInt u32

datatype tmp_ptr = TMem "nat option" | TBuf

definition va_uint :: "vararg list \<Rightarrow> (u32 \<times> vararg list) option" where
  "va_uint args = (case args of VInt v # rest \<Rightarrow> Some (v, rest) | _ \<Rightarrow> None)"

definition vsprintf_conv ::
  "bytes \<Rightarrow> bytes \<Rightarrow> nat \<Rightarrow> u8 \<Rightarrow> vararg list \<Rightarrow> (bytes \<times> bytes \<times> nat \<times> tmp_ptr \<times> vararg list) option"
where
  "vsprintf_conv m buf str c args =
     (if c = 115 then
        (case args of VStr q # rest \<Rightarrow> Some (m, buf, str, TMem q, rest) | _ \<Rightarrow> None)
      else if c = 112 then
        (case args of
           VLong v # rest \<Rightarrow> map_option (\<lambda>b. (m, b, str, TBuf, rest)) (tostr buf v 16)
         | _ \<Rightarrow> None)
      else if c = 120 \<or> c = 88 then
        Option.bind (va_uint args) (\<lambda>(v, rest).
          map_option (\<lambda>b. (m, b, str, TBuf, rest)) (tostr buf (ucast v) 16))
      else if c = 100 \<or> c = 105 then
        Option.bind (va_uint args) (\<lambda>(v, rest).
          let val = sint v in
          if val < 0 then
            Option.bind (wr m str 45) (\<lambda>m'.
              map_option (\<lambda>b. (m', b, Suc str, TBuf, rest)) (tostr buf (word_of_int (- val)) 10))
          else map_option (\<lambda>b. (m, b, str, TBuf, rest)) (tostr buf (word_of_int val) 10))
      else
        Option.bind (va_uint args) (\<lambda>(v, rest).
          map_option (\<lambda>b. (m, b, str, TBuf, rest)) (tostr buf (ucast v) 10)))"

function put_mem :: "bytes \<Rightarrow> nat \<Rightarrow> nat \<Rightarrow> (bytes \<times> nat) option" where
  "put_mem m str q =
     (case rd m q of
        None \<Rightarrow> None
      | Some c \<Rightarrow>
          if c \<noteq> 0 then
            (case wr m str c of None \<Rightarrow> None | Some m' \<Rightarrow> put_mem m' (Suc str) (Suc q))
          else Some (m, str))"
  by pat_completeness auto
termination
  by (relation "measure (\<lambda>(m, str, q). length m - q)") (auto simp: mem_simps)

declare put_mem.simps [simp del]

fun put_buf :: "bytes \<Rightarrow> nat \<Rightarrow> bytes \<Rightarrow> (bytes \<times> nat) option" where
  "put_buf m str [] = None"
| "put_buf m str (c # cs) =
     (if c \<noteq> 0 then (case wr m str c of None \<Rightarrow> None | Some m' \<Rightarrow> put_buf m' (Suc str) cs)
      else Some (m, str))"

definition put_tmp :: "bytes \<Rightarrow> bytes \<Rightarrow> nat \<Rightarrow> tmp_ptr \<Rightarrow> (bytes \<times> nat) option" where
  "put_tmp m buf str t =
     (case t of
        TMem None \<Rightarrow> Some (m, str)
      | TMem (Some q) \<Rightarrow> put_mem m str q
      | TBuf \<Rightarrow> put_buf m str buf)"

lemma put_mem_length: "put_mem m str q = Some (m', str') \<Longrightarrow> length m' = length m"
proof (induction m str q rule: put_mem.induct)
  case (1 m str q)
  show ?case
    using "1.prems" "1.IH"
    by (subst (asm) put_mem.simps) (auto simp: mem_simps split: option.splits if_splits)
qed

lemma put_buf_length: "put_buf m str cs = Some (m', str') \<Longrightarrow> length m' = length m"
  by (induction m str cs rule: put_buf.induct)
    (auto simp: mem_simps split: option.splits if_splits)

lemma put_tmp_length: "put_tmp m buf str t = Some (m', str') \<Longrightarrow> length m' = length m"
  by (auto simp: put_tmp_def dest: put_mem_length put_buf_length
      split: tmp_ptr.splits option.splits)

lemma vsprintf_conv_length:
  "vsprintf_conv m buf str c args = Some (m', buf', str', t, args') \<Longrightarrow> length m' = length m"
  by (auto simp: vsprintf_conv_def mem_simps bind_eq_Some_conv Let_def
      split: if_split_asm list.split_asm vararg.split_asm)

text \<open>
  The main loop. A conversion character is read at \<open>p + 1\<close> whatever it is, the terminator
  included, and the pointer then moves past it.
\<close>

function vsprintf_loop ::
  "bytes \<Rightarrow> bytes \<Rightarrow> nat \<Rightarrow> nat \<Rightarrow> vararg list \<Rightarrow> (bytes \<times> nat) option"
where
  "vsprintf_loop m buf str p args =
     (case rd m p of
        None \<Rightarrow> None
      | Some c \<Rightarrow>
          if c = 0 then Some (m, str)
          else if c \<noteq> 37 then
            (case (if c = 10 then map_option (\<lambda>m'. (m', Suc str)) (wr m str 13)
                   else Some (m, str)) of
               None \<Rightarrow> None
             | Some (m1, str1) \<Rightarrow>
                 (case wr m1 str1 (m1 ! p) of
                    None \<Rightarrow> None
                  | Some m2 \<Rightarrow> vsprintf_loop m2 buf (Suc str1) (Suc p) args))
          else
            (case rd m (Suc p) of
               None \<Rightarrow> None
             | Some c \<Rightarrow>
                 (case vsprintf_conv m buf str c args of
                    None \<Rightarrow> None
                  | Some (m1, buf1, str1, t, args1) \<Rightarrow>
                      (case put_tmp m1 buf1 str1 t of
                         None \<Rightarrow> None
                       | Some (m2, str2) \<Rightarrow>
                           vsprintf_loop m2 buf1 str2 (Suc (Suc p)) args1))))"
  by pat_completeness auto
termination
proof (relation "measure (\<lambda>(m, buf, str, p, args). length m - p)", goal_cases)
  case 1 show ?case by simp
next
  case (2 m buf str p args c x y m2)
  then show ?case by (auto simp: mem_simps split: if_splits)
next
  case (3 m buf str p args c ca z m1 z1 buf1 z2 str1 z3 t args1 w m2 str2)
  then show ?case by (auto simp: mem_simps dest!: vsprintf_conv_length put_tmp_length)
qed

definition vsprintf :: "bytes \<Rightarrow> nat \<Rightarrow> nat option \<Rightarrow> vararg list \<Rightarrow> bytes option" where
  "vsprintf m str fmt args =
     (case fmt of
        None \<Rightarrow> wr m str 0
      | Some p \<Rightarrow>
          Option.bind (vsprintf_loop m (replicate 128 0) str p args) (\<lambda>(m', e). wr m' e 0))"

declare strcmp.simps [simp del] strncmp_loop.simps [simp del] strlen_loop.simps [simp del]
  strnlen_loop.simps [simp del] strcpy_loop.simps [simp del] strncpy_pad.simps [simp del]
  strncpy_copy.simps [simp del] copy_fwd.simps [simp del] memset_loop.simps [simp del]
  memchr_loop.simps [simp del] strchr_loop.simps [simp del] strrchr_loop.simps [simp del]
  strstr_cmp.simps [simp del] strstr_loop.simps [simp del] reverse_loop.simps [simp del]
  to_hex_loop.simps [simp del] to_decimal_loop.simps [simp del] skip_blank.simps [simp del]
  strtoul_digits.simps [simp del] vsprintf_loop.simps [simp del]

section \<open>Strings in memory\<close>

text \<open>\<open>cstr m p s\<close>: the bytes at \<open>p\<close> are the string \<open>s\<close>, without a zero in it, and a terminator.\<close>

fun cstr :: "bytes \<Rightarrow> nat \<Rightarrow> bytes \<Rightarrow> bool" where
  "cstr m p [] = (rd m p = Some 0)"
| "cstr m p (c # cs) = (c \<noteq> 0 \<and> rd m p = Some c \<and> cstr m (Suc p) cs)"

lemma cstr_unique: "cstr m p xs \<Longrightarrow> cstr m p ys \<Longrightarrow> xs = ys"
proof (induction xs arbitrary: p ys)
  case Nil
  then show ?case by (cases ys) auto
next
  case (Cons x xs)
  then show ?case by (cases ys) auto
qed

lemma cstr_in_range: "cstr m p xs \<Longrightarrow> p + length xs < length m"
  by (induction xs arbitrary: p) (fastforce simp: mem_simps)+

lemma strlen_loop_cstr: "cstr m p xs \<Longrightarrow> strlen_loop m p l = Some (l + length xs)"
  by (induction xs arbitrary: p l) (auto simp: strlen_loop.simps)

lemma strlen_cstr: "cstr m p xs \<Longrightarrow> strlen m (Some p) = Some (length xs)"
  by (simp add: strlen_def strlen_loop_cstr)

text \<open>
  On two terminated strings \<open>strcmp\<close> returns without leaving the memory, and its result is
  zero exactly when the strings are equal.
\<close>

theorem strcmp_correct:
  assumes "cstr m s xs" and "cstr m t ys"
  shows "strcmp m s t = Some (if xs = ys then 0 else 1)"
  using assms
proof (induction xs arbitrary: s t ys)
  case Nil
  then show ?case by (cases ys) (auto simp: strcmp.simps)
next
  case (Cons x xs)
  then show ?case
  proof (cases ys)
    case Nil
    with Cons.prems show ?thesis by (subst strcmp.simps) auto
  next
    case ys: (Cons y zs)
    show ?thesis
    proof (cases "x = y")
      case True
      with Cons.prems ys have "strcmp m s t = strcmp m (Suc s) (Suc t)"
        by (subst strcmp.simps) auto
      with Cons.IH [of "Suc s" "Suc t" zs] Cons.prems ys True show ?thesis
        by auto
    next
      case False
      with Cons.prems ys show ?thesis by (subst strcmp.simps) auto
    qed
  qed
qed

theorem strcmp_correct_witness:
  "cstr [97, 98, 0, 97, 99, 0] 0 [97, 98] \<and> cstr [97, 98, 0, 97, 99, 0] 3 [97, 99] \<and>
   strcmp [97, 98, 0, 97, 99, 0] 0 3 = Some (if [97, 98 :: u8] = [97, 99] then 0 else 1)"
proof -
  have h: "cstr [97, 98, 0, 97, 99, 0] 0 [97, 98]" "cstr [97, 98, 0, 97, 99, 0] 3 [97, 99]"
    by (simp_all add: rd_def)
  show ?thesis using h strcmp_correct [OF h] by blast
qed

section \<open>Copying between overlapping regions\<close>

lemma copy_fwd_nth:
  assumes "d \<le> s \<or> s + n \<le> d" and "s + n \<le> length m" and "d + n \<le> length m" and "i \<le> n"
  shows "\<exists>m'. copy_fwd m d s i n = Some m' \<and> length m' = length m \<and>
    (\<forall>k < length m. m' ! k = (if d + i \<le> k \<and> k < d + n then m ! (s + (k - d)) else m ! k))"
  using assms
proof (induction m d s i n rule: copy_fwd.induct)
  case (1 m d s i n)
  show ?case
  proof (cases "i < n")
    case False
    then have "copy_fwd m d s i n = Some m" and "i = n"
      using "1.prems" by (subst copy_fwd.simps, simp_all)
    then show ?thesis by auto
  next
    case True
    define m1 where "m1 = m[d + i := m ! (s + i)]"
    have step: "copy_fwd m d s i n = copy_fwd m1 d s (Suc i) n"
      using True "1.prems" by (subst copy_fwd.simps) (simp add: m1_def)
    have "\<exists>m'. copy_fwd m1 d s (Suc i) n = Some m' \<and> length m' = length m1 \<and>
      (\<forall>k < length m1. m' ! k =
         (if d + Suc i \<le> k \<and> k < d + n then m1 ! (s + (k - d)) else m1 ! k))"
      using "1.IH" [of "m ! (s + i)" m1] True "1.prems" by (simp add: m1_def)
    then obtain m' where m': "copy_fwd m1 d s (Suc i) n = Some m'" "length m' = length m"
      and nth: "\<forall>k < length m. m' ! k =
         (if d + Suc i \<le> k \<and> k < d + n then m1 ! (s + (k - d)) else m1 ! k)"
      by (auto simp: m1_def)
    have "m' ! k = (if d + i \<le> k \<and> k < d + n then m ! (s + (k - d)) else m ! k)"
      if "k < length m" for k
    proof -
      have "s + (k - d) \<noteq> d + i" if "d + Suc i \<le> k" "k < d + n"
        using that "1.prems"(1) by linarith
      then show ?thesis
        using nth \<open>k < length m\<close> True "1.prems" by (auto simp: m1_def nth_list_update)
    qed
    with m' step show ?thesis by auto
  qed
qed

lemma copy_bwd_nth:
  assumes "s < d" and "s + n \<le> length m" and "d + n \<le> length m"
  shows "\<exists>m'. copy_bwd m d s n = Some m' \<and> length m' = length m \<and>
    (\<forall>k < length m. m' ! k = (if d \<le> k \<and> k < d + n then m ! (s + (k - d)) else m ! k))"
  using assms
proof (induction n arbitrary: m)
  case 0
  then show ?case by auto
next
  case (Suc n)
  define m1 where "m1 = m[d + n := m ! (s + n)]"
  obtain m' where m': "copy_bwd m1 d s n = Some m'" "length m' = length m"
    and nth: "\<forall>k < length m. m' ! k =
       (if d \<le> k \<and> k < d + n then m1 ! (s + (k - d)) else m1 ! k)"
    using Suc.IH [of m1] Suc.prems by (auto simp: m1_def)
  have "m' ! k = (if d \<le> k \<and> k < d + Suc n then m ! (s + (k - d)) else m ! k)"
    if "k < length m" for k
    using nth that Suc.prems by (auto simp: m1_def nth_list_update less_Suc_eq)
  with m' show ?case using Suc.prems by (auto simp: m1_def)
qed

text \<open>The region of \<open>n\<close> bytes at \<open>d\<close> replaced by the bytes that were at \<open>s\<close> before.\<close>

definition blit :: "bytes \<Rightarrow> nat \<Rightarrow> nat \<Rightarrow> nat \<Rightarrow> bytes" where
  "blit m d s n = take d m @ take n (drop s m) @ drop (d + n) m"

lemma blit_eqI:
  assumes "s + n \<le> length m" and "d + n \<le> length m" and "length m' = length m"
    and "\<forall>k < length m. m' ! k = (if d \<le> k \<and> k < d + n then m ! (s + (k - d)) else m ! k)"
  shows "m' = blit m d s n"
proof (rule nth_equalityI)
  show len: "length m' = length (blit m d s n)"
    using assms by (simp add: blit_def)
  fix k assume "k < length m'"
  then show "m' ! k = blit m d s n ! k"
    using assms by (auto simp: blit_def nth_append)
qed

lemma copy_fwd_blit:
  assumes "d \<le> s \<or> s + n \<le> d" and "s + n \<le> length m" and "d + n \<le> length m"
  shows "copy_fwd m d s 0 n = Some (blit m d s n)"
proof -
  from copy_fwd_nth [OF assms, of 0] obtain m' where "copy_fwd m d s 0 n = Some m'"
    "length m' = length m"
    "\<forall>k < length m. m' ! k = (if d \<le> k \<and> k < d + n then m ! (s + (k - d)) else m ! k)"
    by auto
  with blit_eqI [OF assms(2,3)] show ?thesis by simp
qed

lemma copy_bwd_blit:
  assumes "s < d" and "s + n \<le> length m" and "d + n \<le> length m"
  shows "copy_bwd m d s n = Some (blit m d s n)"
  using copy_bwd_nth [OF assms] blit_eqI [OF assms(2,3)] by auto

text \<open>
  \<open>memmove\<close> is total on regions inside the memory and, however they overlap, leaves exactly
  the old source bytes in the destination and every other byte unchanged.
\<close>

theorem memmove_correct:
  assumes "src + unat n \<le> length m" and "dest + unat n \<le> length m"
  shows "memmove m dest src n = Some (dest, blit m dest src (unat n))"
proof -
  consider (same) "n = 0 \<or> dest = src" | (fwd) "n \<noteq> 0" "dest < src" | (bwd) "n \<noteq> 0" "src < dest"
    by linarith
  then show ?thesis
  proof cases
    case same
    then have "m = blit m dest src (unat n)"
      using assms by (intro blit_eqI) auto
    with same show ?thesis by (auto simp: memmove_def)
  next
    case fwd
    with assms show ?thesis by (simp add: memmove_def copy_fwd_blit)
  next
    case bwd
    with assms show ?thesis by (simp add: memmove_def copy_bwd_blit)
  qed
qed

theorem memmove_correct_witness:
  "memmove [1, 2, 3, 4, 5] 1 0 3 = Some (1, blit [1, 2, 3, 4, 5] 1 0 (unat (3 :: u32)))"
  by (rule memmove_correct) simp_all

lemma memcpy_disjoint:
  assumes "src + unat n \<le> length m" and "d + unat n \<le> length m"
    and "d \<le> src \<or> src + unat n \<le> d"
  shows "memcpy m (Some d) src n = Some (Some d, blit m d src (unat n))"
  using assms by (simp add: memcpy_def copy_fwd_blit)

section \<open>Decimal round trip\<close>

text \<open>The decimal digits of a number, least significant first, as \<open>to_decimal\<close> produces them.\<close>

fun dec_digits :: "nat \<Rightarrow> nat list" where
  "dec_digits n = n mod 10 # (if n div 10 \<noteq> 0 then dec_digits (n div 10) else [])"

declare dec_digits.simps [simp del]

definition digit_char :: "nat \<Rightarrow> u8" where
  "digit_char d = of_nat d + 48"

fun dec_value :: "nat list \<Rightarrow> nat" where
  "dec_value [] = 0"
| "dec_value (d # ds) = d + 10 * dec_value ds"

lemma dec_value_digits: "dec_value (dec_digits n) = n"
proof (induction n rule: dec_digits.induct)
  case (1 n)
  then show ?case
    by (subst dec_digits.simps) (cases "n div 10 \<noteq> 0"; simp)
qed

lemma dec_digits_lt: "d \<in> set (dec_digits n) \<Longrightarrow> d < 10"
proof (induction n rule: dec_digits.induct)
  case (1 n)
  then show ?case
    by (subst (asm) (2) dec_digits.simps) (auto split: if_splits)
qed

lemma dec_digits_length: "n < 10 ^ k \<Longrightarrow> 0 < k \<Longrightarrow> length (dec_digits n) \<le> k"
proof (induction k arbitrary: n)
  case 0
  then show ?case by simp
next
  case (Suc k)
  show ?case
  proof (cases "n div 10 = 0")
    case True
    then show ?thesis by (subst dec_digits.simps) simp
  next
    case False
    then have "0 < k" and "n div 10 < 10 ^ k"
      using Suc.prems by (auto intro!: gr0I simp: less_mult_imp_div_less mult.commute)
    with Suc.IH False show ?thesis by (subst dec_digits.simps) simp
  qed
qed

lemma dec_digits_u64: "length (dec_digits (unat (n :: u64))) \<le> 20"
proof (rule dec_digits_length)
  have "(2 :: nat) ^ 64 < 10 ^ 20" by simp
  then show "unat n < 10 ^ 20" using unat_u64_lt [of n] by linarith
qed simp

lemma unat_div10: "unat (n div 10 :: u64) = unat n div 10" "unat (n mod 10 :: u64) = unat n mod 10"
  by (simp_all add: unat_div unat_mod)

lemma ucast_digit: "ucast (n mod 10 :: u64) + 48 = digit_char (unat n mod 10)"
proof -
  have "(ucast (n mod 10 :: u64) :: u8) = word_of_nat (unat (n mod 10))"
    by simp
  then show ?thesis by (simp add: digit_char_def unat_div10)
qed

lemma to_decimal_loop_eq:
  assumes "cnt + length (dec_digits (unat n)) \<le> length buf"
  shows "to_decimal_loop buf n cnt =
    Some (take cnt buf @ map digit_char (dec_digits (unat n)) @
            drop (cnt + length (dec_digits (unat n))) buf,
          cnt + length (dec_digits (unat n)))"
  using assms
proof (induction buf n cnt rule: to_decimal_loop.induct)
  case (1 buf n cnt)
  define b1 where "b1 = buf[cnt := digit_char (unat n mod 10)]"
  have cnt: "cnt < length buf"
    using "1.prems" by (subst (asm) dec_digits.simps) simp
  have tk: "take (Suc cnt) b1 = take cnt buf @ [digit_char (unat n mod 10)]"
    using cnt by (simp add: b1_def take_Suc_conv_app_nth)
  have nz: "n div 10 \<noteq> 0 \<longleftrightarrow> unat n div 10 \<noteq> 0"
    by (metis unat_div10(1) unsigned_eq_0_iff)
  have dr: "drop (Suc cnt + k) b1 = drop (Suc cnt + k) buf" for k
    by (simp add: b1_def)
  show ?case
  proof (cases "n div 10 = 0")
    case True
    then have dd: "dec_digits (unat n) = [unat n mod 10]"
      using nz by (subst dec_digits.simps) simp
    have "to_decimal_loop buf n cnt = Some (b1, Suc cnt)"
      using cnt True by (subst to_decimal_loop.simps) (simp add: ucast_digit b1_def)
    also have "b1 = take (Suc cnt) b1 @ drop (Suc cnt) b1"
      by simp
    finally show ?thesis
      using dr [of 0] by (simp add: tk dd)
  next
    case False
    then have dd: "dec_digits (unat n) = unat n mod 10 # dec_digits (unat (n div 10))"
      using nz by (subst dec_digits.simps) (simp add: unat_div10)
    have "to_decimal_loop buf n cnt = to_decimal_loop b1 (n div 10) (Suc cnt)"
      using cnt False by (subst to_decimal_loop.simps) (simp add: ucast_digit b1_def)
    also have "\<dots> = Some (take (Suc cnt) b1 @ map digit_char (dec_digits (unat (n div 10))) @
            drop (Suc cnt + length (dec_digits (unat (n div 10)))) b1,
          Suc cnt + length (dec_digits (unat (n div 10))))"
      using "1.IH" [of b1] cnt False "1.prems" by (simp add: ucast_digit b1_def dd)
    finally show ?thesis
      using dr [of "length (dec_digits (unat (n div 10)))"] by (simp add: tk dd)
  qed
qed

lemma reverse_loop_nth:
  assumes "n \<le> length buf" and "i \<le> n div 2"
  shows "\<exists>b. reverse_loop buf i n = Some b \<and> length b = length buf \<and>
    (\<forall>k < length buf. b ! k = (if i \<le> k \<and> k < n - i then buf ! (n - 1 - k) else buf ! k))"
  using assms
proof (induction buf i n rule: reverse_loop.induct)
  case (1 buf i n)
  show ?case
  proof (cases "i < n div 2")
    case False
    then have "reverse_loop buf i n = Some buf" and "i = n div 2"
      using "1.prems" by (subst reverse_loop.simps, simp_all)
    moreover have "n - 1 - k = k" if "n div 2 \<le> k" "k < n - n div 2" for k
      using that by linarith
    ultimately show ?thesis by auto
  next
    case True
    define b1 where "b1 = buf[i := buf ! (n - 1 - i), n - 1 - i := buf ! i]"
    have le: "i < length buf" "n - 1 - i < length buf" "Suc i \<le> n div 2" "i < n - 1 - i"
      using True "1.prems" by auto
    have "reverse_loop buf i n = reverse_loop b1 (Suc i) n"
      using True le by (subst reverse_loop.simps) (simp add: b1_def)
    moreover obtain b where b: "reverse_loop b1 (Suc i) n = Some b" "length b = length buf"
      "\<forall>k < length buf. b ! k =
        (if Suc i \<le> k \<and> k < n - Suc i then b1 ! (n - 1 - k) else b1 ! k)"
      using "1.IH" [OF True refl rd_in_range [OF le(1)] rd_in_range [OF le(2)]
          wr_in_range [OF le(1)], of b1] le "1.prems" by (auto simp: b1_def)
    moreover have "b ! k = (if i \<le> k \<and> k < n - i then buf ! (n - 1 - k) else buf ! k)"
      if k: "k < length buf" for k
    proof -
      consider "k = i" | "k = n - 1 - i" | "Suc i \<le> k \<and> k < n - Suc i" | "k < i" | "n - i \<le> k"
        using le by linarith
      then show ?thesis
        by cases (use b(3) k le in \<open>auto simp: b1_def nth_list_update\<close>)
    qed
    ultimately show ?thesis by auto
  qed
qed

lemma reverse_buf_eq: "n \<le> length buf \<Longrightarrow> reverse_buf buf n = Some (rev (take n buf) @ drop n buf)"
proof -
  assume n: "n \<le> length buf"
  from reverse_loop_nth [OF this, of 0] obtain b where b: "reverse_loop buf 0 n = Some b"
    "length b = length buf"
    "\<forall>k < length buf. b ! k = (if k < n then buf ! (n - 1 - k) else buf ! k)"
    by auto
  have "b = rev (take n buf) @ drop n buf"
  proof (rule nth_equalityI)
    fix k assume "k < length b"
    then show "b ! k = (rev (take n buf) @ drop n buf) ! k"
      using b(2,3) n by (auto simp: nth_append rev_nth min_def)
  qed (use b n in simp)
  with b show ?thesis by (simp add: reverse_buf_def)
qed

lemma to_decimal_eq:
  assumes "20 < length buf"
  shows "\<exists>rest. to_decimal buf n =
    Some (map digit_char (rev (dec_digits (unat n))) @ 0 # rest)"
proof -
  let ?ds = "map digit_char (dec_digits (unat n))"
  have len: "length ?ds < length buf"
    using dec_digits_u64 [of n] assms by simp
  then have 1: "to_decimal_loop buf n 0 = Some (?ds @ drop (length ?ds) buf, length ?ds)"
    by (subst to_decimal_loop_eq) auto
  have 2: "reverse_buf (?ds @ drop (length ?ds) buf) (length ?ds) =
      Some (rev ?ds @ drop (length ?ds) buf)"
    by (subst reverse_buf_eq) auto
  obtain x xs where "drop (length ?ds) buf = x # xs"
    using len by (metis drop_eq_Nil leD list.exhaust)
  then show ?thesis
    using len 2 by (auto simp: to_decimal_def 1 rev_map list_update_append)
qed

lemma digit_char_range: "d < 10 \<Longrightarrow> 48 \<le> digit_char d \<and> digit_char d \<le> 57"
  by (auto simp: digit_char_def word_le_nat_alt unat_word_ariths unat_of_nat)

lemma digit_char_value: "d < 10 \<Longrightarrow> ucast (digit_char d - 48) = (of_nat d :: u64)"
proof -
  assume "d < 10"
  then have "unat (digit_char d - 48) = d"
    by (simp add: digit_char_def unat_of_nat)
  then show ?thesis
    by (metis of_nat_unat)
qed

lemma strtoul_digits_eq:
  assumes "\<forall>d \<in> set ds. d < 10" and "p + length ds < length m"
    and "\<forall>i < length ds. m ! (p + i) = digit_char (ds ! i)" and "m ! (p + length ds) = 0"
  shows "strtoul_digits m p r =
    Some (foldl (\<lambda>a d. a * 10 + of_nat d) r ds, p + length ds)"
  using assms
proof (induction ds arbitrary: p r)
  case Nil
  then show ?case by (simp add: strtoul_digits.simps)
next
  case (Cons d ds)
  have hd: "m ! p = digit_char d" and d: "d < 10"
    using Cons.prems(1) Cons.prems(3) by fastforce+
  have tl: "\<forall>i < length ds. m ! (Suc p + i) = digit_char (ds ! i)"
    using Cons.prems(3) by fastforce
  have "strtoul_digits m p r = strtoul_digits m (Suc p) (r * 10 + of_nat d)"
    using Cons.prems hd digit_char_range [OF d]
    by (subst strtoul_digits.simps) (simp add: digit_char_value d)
  also have "\<dots> = Some (foldl (\<lambda>a d. a * 10 + of_nat d) (r * 10 + of_nat d) ds, Suc p + length ds)"
    using Cons.prems tl by (intro Cons.IH) auto
  finally show ?case by simp
qed

lemma foldl_dec_value:
  "foldl (\<lambda>a d. a * 10 + of_nat d) (0 :: u64) (rev ds) = of_nat (dec_value ds)"
  by (induction ds) (simp_all add: algebra_simps)

text \<open>
  Printing and parsing agree: on any buffer of more than 20 bytes \<open>to_decimal\<close> writes a
  terminated digit string without leaving the buffer, and \<open>strtoul\<close> reads the same number back,
  for every 64-bit value.
\<close>

theorem to_decimal_strtoul:
  assumes "20 < length buf"
  shows "\<exists>b e. to_decimal buf n = Some b \<and> strtoul b 0 = Some (n, e)"
proof -
  let ?ds = "rev (dec_digits (unat n))"
  obtain rest where b: "to_decimal buf n = Some (map digit_char ?ds @ 0 # rest)"
    using to_decimal_eq [OF assms] by blast
  define b where "b = map digit_char ?ds @ 0 # rest"
  have nth: "\<forall>i < length ?ds. b ! (0 + i) = digit_char (?ds ! i)"
    by (simp add: b_def nth_append)
  have lt: "\<forall>d \<in> set ?ds. d < 10"
    using dec_digits_lt by auto
  have ne: "0 < length ?ds"
    by (subst dec_digits.simps) simp
  then have "b ! 0 = digit_char (?ds ! 0)" and "?ds ! 0 < 10"
    using nth lt by (auto simp del: length_rev set_rev)
  then have c: "48 \<le> b ! 0" "0 < length b"
    using digit_char_range by (auto simp: b_def)
  have "strtoul_digits b 0 0 = Some (foldl (\<lambda>a d. a * 10 + of_nat d) 0 ?ds, 0 + length ?ds)"
    by (rule strtoul_digits_eq) (use lt nth in \<open>auto simp: b_def nth_append\<close>)
  then have "strtoul_digits b 0 0 = Some (n, length ?ds)"
    by (simp add: foldl_dec_value dec_value_digits)
  moreover have "b ! 0 \<noteq> 32" "b ! 0 \<noteq> 9" "b ! 0 \<noteq> 45" "b ! 0 \<noteq> 43"
    using c(1) by auto
  ultimately have "strtoul b 0 = Some (n, length ?ds)"
    using c(2) by (simp add: strtoul_def skip_blank.simps)
  with b show ?thesis by (auto simp: b_def)
qed

theorem to_decimal_strtoul_witness:
  "20 < length (replicate 128 (0 :: u8)) \<and>
   (\<exists>b e. to_decimal (replicate 128 0) 1234 = Some b \<and> strtoul b 0 = Some (1234, e))"
proof -
  have h: "20 < length (replicate 128 (0 :: u8))" by simp
  show ?thesis using h to_decimal_strtoul [OF h] by simp
qed

end
