(* ===== verification/Minus_Dlist.thy ===== *)
theory Minus_Dlist
  imports Minus_Prelude
begin

text \<open>
  The circular doubly linked list of \<open>lib/dlist.c\<close> and \<open>include/base/dlist.h\<close>, on an explicit
  pointer store: two maps from node addresses to node addresses. The kernel's free lists, slab
  lists, run queues, region lists and directory children are all such lists. The locale
  \<open>dlist_iface\<close> states what they rely on: several lists that live in one store behave like
  Isabelle lists, one per head.
\<close>

section \<open>Operations\<close>

record 'a dstore =
  dprev :: "'a \<Rightarrow> 'a"
  dnext :: "'a \<Rightarrow> 'a"

definition set_prev :: "'a dstore \<Rightarrow> 'a \<Rightarrow> 'a \<Rightarrow> 'a dstore" where
  "set_prev d n v = d\<lparr>dprev := (dprev d)(n := v)\<rparr>"

definition set_next :: "'a dstore \<Rightarrow> 'a \<Rightarrow> 'a \<Rightarrow> 'a dstore" where
  "set_next d n v = d\<lparr>dnext := (dnext d)(n := v)\<rparr>"

definition dlist_add :: "'a dstore \<Rightarrow> 'a \<Rightarrow> 'a \<Rightarrow> 'a dstore" where
  "dlist_add d head node =
     (let d1 = set_prev d node head;
          d2 = set_next d1 node (dnext d1 head);
          d3 = set_prev d2 (dnext d2 head) node
      in set_next d3 head node)"

definition dlist_add_tail :: "'a dstore \<Rightarrow> 'a \<Rightarrow> 'a \<Rightarrow> 'a dstore" where
  "dlist_add_tail d head node =
     (let d1 = set_next d node head;
          d2 = set_prev d1 node (dprev d1 head);
          d3 = set_next d2 (dprev d2 head) node
      in set_prev d3 head node)"

definition dlist_del :: "'a dstore \<Rightarrow> 'a \<Rightarrow> 'a dstore" where
  "dlist_del d node =
     (let d1 = set_prev d (dnext d node) (dprev d node);
          d2 = set_next d1 (dprev d1 node) (dnext d1 node);
          d3 = set_next d2 node node
      in set_prev d3 node node)"

definition dlist_init :: "'a dstore \<Rightarrow> 'a \<Rightarrow> 'a dstore" where
  "dlist_init d node = set_prev (set_next d node node) node node"

definition dlist_empty :: "'a dstore \<Rightarrow> 'a \<Rightarrow> bool" where
  "dlist_empty d head \<longleftrightarrow> dnext d head = head"

definition dlist_first :: "'a dstore \<Rightarrow> 'a \<Rightarrow> 'a" where
  "dlist_first d head = dnext d head"

lemmas dlist_defs = dlist_add_def dlist_add_tail_def dlist_del_def dlist_init_def
  dlist_empty_def dlist_first_def set_prev_def set_next_def

section \<open>Lists in the store\<close>

text \<open>\<open>dpath d a xs b\<close>: from \<open>a\<close> through the nodes \<open>xs\<close> to \<open>b\<close>, linked in both directions.\<close>

fun dpath :: "'a dstore \<Rightarrow> 'a \<Rightarrow> 'a list \<Rightarrow> 'a \<Rightarrow> bool" where
  "dpath d a [] b = (dnext d a = b \<and> dprev d b = a)"
| "dpath d a (x # xs) b = (dnext d a = x \<and> dprev d x = a \<and> dpath d x xs b)"

lemma dpath_append: "dpath d a (xs @ y # ys) b \<longleftrightarrow> dpath d a xs y \<and> dpath d y ys b"
  by (induction xs arbitrary: a) auto

lemma dpath_frame:
  assumes "\<forall>n \<in> set (a # xs). dnext d' n = dnext d n"
    and "\<forall>n \<in> set (xs @ [b]). dprev d' n = dprev d n"
  shows "dpath d' a xs b = dpath d a xs b"
  using assms by (induction xs arbitrary: a) auto

lemma dpath_next: "dpath d a xs b \<Longrightarrow> dnext d a = hd (xs @ [b])"
  by (cases xs) auto

lemma dpath_prev: "dpath d a xs b \<Longrightarrow> dprev d b = last (a # xs)"
  by (induction xs arbitrary: a) auto

definition ring :: "'a dstore \<Rightarrow> 'a \<Rightarrow> 'a list \<Rightarrow> bool" where
  "ring d h xs \<longleftrightarrow> dpath d h xs h \<and> distinct (h # xs)"

lemma ring_unique: "ring d h xs \<Longrightarrow> ring d h ys \<Longrightarrow> xs = ys"
proof -
  have "dpath d a xs h \<Longrightarrow> dpath d a ys h \<Longrightarrow> h \<notin> set xs \<Longrightarrow> h \<notin> set ys \<Longrightarrow> xs = ys" for a
  proof (induction xs arbitrary: a ys)
    case Nil
    then show ?case by (cases ys) auto
  next
    case (Cons x xs)
    then show ?case by (cases ys) auto
  qed
  then show "ring d h xs \<Longrightarrow> ring d h ys \<Longrightarrow> xs = ys"
    by (auto simp: ring_def)
qed

lemma ring_add:
  assumes "ring d h xs" and "x \<notin> set (h # xs)"
  shows "ring (dlist_add d h x) h (x # xs)"
proof (cases xs)
  case Nil
  with assms show ?thesis by (auto simp: ring_def dlist_defs Let_def)
next
  case (Cons y ys)
  have "dpath (dlist_add d h x) y ys h = dpath d y ys h"
    using assms Cons by (intro dpath_frame) (auto simp: ring_def dlist_defs Let_def)
  with assms Cons show ?thesis by (auto simp: ring_def dlist_defs Let_def)
qed

lemma ring_add_tail:
  assumes "ring d h xs" and "x \<notin> set (h # xs)"
  shows "ring (dlist_add_tail d h x) h (xs @ [x])"
proof (cases xs rule: rev_cases)
  case Nil
  with assms show ?thesis by (auto simp: ring_def dlist_defs Let_def)
next
  case (snoc ys y)
  have p: "dpath d h ys y" "dnext d y = h" "dprev d h = y"
    using assms(1) snoc by (auto simp: ring_def dpath_append)
  have "dpath (dlist_add_tail d h x) h ys y = dpath d h ys y"
    using assms snoc p by (intro dpath_frame) (auto simp: ring_def dlist_defs Let_def)
  with assms snoc p show ?thesis
    by (auto simp: ring_def dpath_append dlist_defs Let_def)
qed

lemma ring_del:
  assumes "ring d h (us @ x # vs)"
  shows "ring (dlist_del d x) h (us @ vs)"
proof -
  have u: "dpath d h us x" and v: "dpath d x vs h" and dist: "distinct (h # us @ x # vs)"
    using assms by (auto simp: ring_def dpath_append)
  have nx: "dnext d x = hd (vs @ [h])" and pv: "dprev d x = last (h # us)"
    using dpath_next [OF v] dpath_prev [OF u] by auto
  have "dpath (dlist_del d x) h (us @ vs) h"
  proof (cases vs)
    case Nil
    show ?thesis
    proof (cases us rule: rev_cases)
      case Nil
      then show ?thesis using u v \<open>vs = []\<close> by (auto simp: dlist_defs Let_def)
    next
      case (snoc ws w)
      have "dpath (dlist_del d x) h ws w = dpath d h ws w"
        using snoc Nil dist nx pv by (intro dpath_frame) (auto simp: dlist_defs Let_def)
      then show ?thesis
        using u snoc Nil dist nx pv by (auto simp: dpath_append dlist_defs Let_def)
    qed
  next
    case (Cons y ys)
    have "last (h # us) \<in> set (h # us)" by (rule last_in_set) simp
    then have "last (h # us) \<notin> set vs" using dist by auto
    then have ys: "dpath (dlist_del d x) y ys h = dpath d y ys h"
      using Cons dist nx pv by (intro dpath_frame) (auto simp: dlist_defs Let_def)
    have "dpath (dlist_del d x) h us y"
    proof (cases us rule: rev_cases)
      case Nil
      then show ?thesis using u v Cons dist by (auto simp: dlist_defs Let_def)
    next
      case (snoc ws w)
      have "dpath (dlist_del d x) h ws w = dpath d h ws w"
        using snoc Cons dist nx pv by (intro dpath_frame) (auto simp: dlist_defs Let_def)
      then show ?thesis
        using u snoc Cons dist nx pv by (auto simp: dpath_append dlist_defs Let_def)
    qed
    with ys v Cons show ?thesis by (auto simp: dpath_append)
  qed
  with dist show ?thesis by (auto simp: ring_def)
qed

lemma ring_frame:
  assumes "ring d h xs" and "\<forall>n \<in> set (h # xs). dnext d' n = dnext d n \<and> dprev d' n = dprev d n"
  shows "ring d' h xs"
  using assms dpath_frame [of h xs d' d h] by (auto simp: ring_def)

section \<open>Several lists in one store\<close>

text \<open>
  \<open>dl_rep d H L\<close>: every head in \<open>H\<close> heads the list \<open>L h\<close>, and no node is on two lists.
\<close>

definition dl_rep :: "'a dstore \<Rightarrow> 'a set \<Rightarrow> ('a \<Rightarrow> 'a list) \<Rightarrow> bool" where
  "dl_rep d H L \<longleftrightarrow>
     (\<forall>h \<in> H. ring d h (L h)) \<and>
     (\<forall>h \<in> H. \<forall>k \<in> H. h \<noteq> k \<longrightarrow> set (h # L h) \<inter> set (k # L k) = {})"

definition dl_nodes :: "'a set \<Rightarrow> ('a \<Rightarrow> 'a list) \<Rightarrow> 'a set" where
  "dl_nodes H L = (\<Union>h \<in> H. set (h # L h))"

text \<open>The interface the kernel's components use.\<close>

locale dlist_iface =
  fixes add :: "'s \<Rightarrow> 'a \<Rightarrow> 'a \<Rightarrow> 's"
    and add_tail :: "'s \<Rightarrow> 'a \<Rightarrow> 'a \<Rightarrow> 's"
    and del :: "'s \<Rightarrow> 'a \<Rightarrow> 's"
    and empty :: "'s \<Rightarrow> 'a \<Rightarrow> bool"
    and first :: "'s \<Rightarrow> 'a \<Rightarrow> 'a"
    and rep :: "'s \<Rightarrow> 'a set \<Rightarrow> ('a \<Rightarrow> 'a list) \<Rightarrow> bool"
  assumes rep_add: "rep s H L \<Longrightarrow> h \<in> H \<Longrightarrow> x \<notin> dl_nodes H L \<Longrightarrow> rep (add s h x) H (L(h := x # L h))"
    and rep_add_tail:
      "rep s H L \<Longrightarrow> h \<in> H \<Longrightarrow> x \<notin> dl_nodes H L \<Longrightarrow> rep (add_tail s h x) H (L(h := L h @ [x]))"
    and rep_del: "rep s H L \<Longrightarrow> h \<in> H \<Longrightarrow> x \<in> set (L h) \<Longrightarrow> rep (del s x) H (L(h := remove1 x (L h)))"
    and rep_empty: "rep s H L \<Longrightarrow> h \<in> H \<Longrightarrow> empty s h \<longleftrightarrow> L h = []"
    and rep_first: "rep s H L \<Longrightarrow> h \<in> H \<Longrightarrow> L h \<noteq> [] \<Longrightarrow> first s h = hd (L h)"
    and rep_distinct: "rep s H L \<Longrightarrow> h \<in> H \<Longrightarrow> distinct (h # L h)"
    and rep_disjoint:
      "rep s H L \<Longrightarrow> h \<in> H \<Longrightarrow> k \<in> H \<Longrightarrow> h \<noteq> k \<Longrightarrow> set (h # L h) \<inter> set (k # L k) = {}"
begin

lemma rep_not_head: "rep s H L \<Longrightarrow> h \<in> H \<Longrightarrow> x \<in> set (L h) \<Longrightarrow> x \<notin> H"
  using rep_disjoint [of s H L h x] rep_distinct [of s H L h] by auto

lemma rep_owner_unique:
  "rep s H L \<Longrightarrow> h \<in> H \<Longrightarrow> k \<in> H \<Longrightarrow> x \<in> set (L h) \<Longrightarrow> x \<in> set (L k) \<Longrightarrow> h = k"
  using rep_disjoint [of s H L h k] by auto

lemma del_not_node:
  assumes "rep s H L" and "h \<in> H" and "x \<in> set (L h)"
  shows "x \<notin> dl_nodes H (L(h := remove1 x (L h)))"
proof -
  have "x \<notin> set (remove1 x (L h))"
    using rep_distinct [OF assms(1,2)] by auto
  moreover have "x \<notin> set (k # L k)" if "k \<in> H" "k \<noteq> h" for k
    using rep_disjoint [OF assms(1,2) that(1)] that(2) assms(3) by auto
  moreover have "x \<noteq> h"
    using rep_distinct [OF assms(1,2)] assms(3) by auto
  ultimately show ?thesis by (auto simp: dl_nodes_def)
qed

text \<open>Moving a node from one list to the front of another, or to the back of a list.\<close>

lemma rep_move:
  assumes "rep s H L" and "h \<in> H" and "k \<in> H" and "x \<in> set (L h)"
  shows "rep (add (del s x) k x) H ((L(h := remove1 x (L h)))(k := x # (L(h := remove1 x (L h))) k))"
  by (rule rep_add [OF rep_del [OF assms(1,2,4)] assms(3) del_not_node [OF assms(1,2,4)]])

lemma rep_rotate:
  assumes "rep s H L" and "h \<in> H" and "L h = x # xs"
  shows "rep (add_tail (del s (first s h)) h (first s h)) H (L(h := xs @ [x]))"
proof -
  have f: "first s h = x" using rep_first [OF assms(1,2)] assms(3) by simp
  have x: "x \<in> set (L h)" using assms(3) by simp
  from rep_add_tail [OF rep_del [OF assms(1,2) x] assms(2) del_not_node [OF assms(1,2) x]]
  show ?thesis by (simp add: f assms(3))
qed

lemma rep_pop:
  assumes "rep s H L" and "h \<in> H" and "L h = x # xs"
  shows "first s h = x" and "rep (del s x) H (L(h := xs))"
  using rep_first [OF assms(1,2)] rep_del [OF assms(1,2), of x] assms(3) by simp_all

end

lemma dl_rep_other:
  assumes "dl_rep d H L" and "h \<in> H" and "ring d' h xs'" and "set xs' \<subseteq> insert x (set (L h))"
    and "x \<notin> dl_nodes H L \<or> x \<in> set (L h)"
    and "\<forall>n. n \<notin> set (h # x # L h) \<longrightarrow> dnext d' n = dnext d n \<and> dprev d' n = dprev d n"
  shows "dl_rep d' H (L(h := xs'))"
proof -
  have dj: "set (h # L h) \<inter> set (k # L k) = {}" if "k \<in> H" "k \<noteq> h" for k
    using assms(1,2) that by (auto simp: dl_rep_def)
  have xk: "x \<notin> set (k # L k)" if "k \<in> H" "k \<noteq> h" for k
    using assms(5) dj [OF that] that(1) by (auto simp: dl_nodes_def)
  have "ring d' k (L k)" if k: "k \<in> H" "k \<noteq> h" for k
  proof (rule ring_frame)
    show "ring d k (L k)" using assms(1) k by (simp add: dl_rep_def)
    show "\<forall>n \<in> set (k # L k). dnext d' n = dnext d n \<and> dprev d' n = dprev d n"
    proof
      fix n assume "n \<in> set (k # L k)"
      then have "n \<notin> set (h # x # L h)" using dj [OF k] xk [OF k] by auto
      then show "dnext d' n = dnext d n \<and> dprev d' n = dprev d n" using assms(6) by blast
    qed
  qed
  moreover have "set (h # xs') \<inter> set (k # L k) = {}" if "k \<in> H" "k \<noteq> h" for k
    using dj [OF that] xk [OF that] assms(4) by auto
  moreover have "set (j # L j) \<inter> set (k # L k) = {}" if "j \<in> H" "k \<in> H" "j \<noteq> k" for j k
    using assms(1) that unfolding dl_rep_def by blast
  ultimately show ?thesis
    using assms(3) unfolding dl_rep_def by (simp add: Int_commute)
qed

lemma ring_neighbours:
  assumes "ring d h xs" and "n \<in> set (h # xs)"
  shows "dnext d n \<in> set (h # xs)" and "dprev d n \<in> set (h # xs)"
proof -
  have p: "dpath d h xs h" using assms(1) by (simp add: ring_def)
  have gen: "dpath d a ys b \<Longrightarrow> n \<in> set (a # ys) \<Longrightarrow> dnext d n \<in> set (ys @ [b])"
    "dpath d a ys b \<Longrightarrow> n \<in> set (ys @ [b]) \<Longrightarrow> dprev d n \<in> set (a # ys)" for a ys b
    by (induction ys arbitrary: a) auto
  from gen [OF p] assms(2) show "dnext d n \<in> set (h # xs)" and "dprev d n \<in> set (h # xs)"
    by auto
qed

lemma dlist_add_touches:
  "n \<notin> {h, x, dnext d h} \<Longrightarrow> dnext (dlist_add d h x) n = dnext d n \<and> dprev (dlist_add d h x) n = dprev d n"
  by (auto simp: dlist_defs Let_def)

lemma dlist_add_tail_touches:
  "n \<notin> {h, x, dprev d h} \<Longrightarrow>
     dnext (dlist_add_tail d h x) n = dnext d n \<and> dprev (dlist_add_tail d h x) n = dprev d n"
  by (auto simp: dlist_defs Let_def)

lemma dlist_del_touches:
  "n \<notin> {x, dprev d x, dnext d x} \<Longrightarrow>
     dnext (dlist_del d x) n = dnext d n \<and> dprev (dlist_del d x) n = dprev d n"
  by (auto simp: dlist_defs Let_def)

lemma dlist_del_self: "dnext (dlist_del d x) x = x" "dprev (dlist_del d x) x = x"
  by (simp_all add: dlist_defs Let_def)

lemma dl_rep_add:
  assumes "dl_rep d H L" and "h \<in> H" and "x \<notin> dl_nodes H L"
  shows "dl_rep (dlist_add d h x) H (L(h := x # L h))"
proof (rule dl_rep_other [OF assms(1,2)])
  have r: "ring d h (L h)" and x: "x \<notin> set (h # L h)"
    using assms by (auto simp: dl_rep_def dl_nodes_def)
  show "ring (dlist_add d h x) h (x # L h)" by (rule ring_add [OF r x])
  show "\<forall>n. n \<notin> set (h # x # L h) \<longrightarrow>
      dnext (dlist_add d h x) n = dnext d n \<and> dprev (dlist_add d h x) n = dprev d n"
    using ring_neighbours [OF r, of h] by (auto intro!: dlist_add_touches)
qed (use assms in auto)

lemma dl_rep_add_tail:
  assumes "dl_rep d H L" and "h \<in> H" and "x \<notin> dl_nodes H L"
  shows "dl_rep (dlist_add_tail d h x) H (L(h := L h @ [x]))"
proof (rule dl_rep_other [OF assms(1,2)])
  have r: "ring d h (L h)" and x: "x \<notin> set (h # L h)"
    using assms by (auto simp: dl_rep_def dl_nodes_def)
  show "ring (dlist_add_tail d h x) h (L h @ [x])" by (rule ring_add_tail [OF r x])
  show "\<forall>n. n \<notin> set (h # x # L h) \<longrightarrow>
      dnext (dlist_add_tail d h x) n = dnext d n \<and> dprev (dlist_add_tail d h x) n = dprev d n"
    using ring_neighbours [OF r, of h] by (auto intro!: dlist_add_tail_touches)
qed (use assms in auto)

lemma dl_rep_del:
  assumes "dl_rep d H L" and "h \<in> H" and "x \<in> set (L h)"
  shows "dl_rep (dlist_del d x) H (L(h := remove1 x (L h)))"
proof (rule dl_rep_other [OF assms(1,2)])
  have r: "ring d h (L h)" using assms by (simp add: dl_rep_def)
  obtain us vs where s: "L h = us @ x # vs" "x \<notin> set us"
    using split_list_first [OF assms(3)] by blast
  then show "ring (dlist_del d x) h (remove1 x (L h))"
    using ring_del [of d h us x vs] r by (simp add: remove1_append)
  show "\<forall>n. n \<notin> set (h # x # L h) \<longrightarrow>
      dnext (dlist_del d x) n = dnext d n \<and> dprev (dlist_del d x) n = dprev d n"
    using ring_neighbours [OF r, of x] assms(3) by (auto intro!: dlist_del_touches)
qed (use assms set_remove1_subset in auto)

lemma ring_Nil_iff: "ring d h xs \<Longrightarrow> dnext d h = h \<longleftrightarrow> xs = []"
  by (cases xs) (auto simp: ring_def)

interpretation dl: dlist_iface dlist_add dlist_add_tail dlist_del dlist_empty dlist_first dl_rep
proof (unfold_locales, goal_cases)
  case (1 s H L h x) then show ?case by (rule dl_rep_add)
next
  case (2 s H L h x) then show ?case by (rule dl_rep_add_tail)
next
  case (3 s H L h x) then show ?case by (rule dl_rep_del)
next
  case (4 s H L h) then show ?case
    using ring_Nil_iff [of s h "L h"] by (auto simp: dl_rep_def dlist_empty_def)
next
  case (5 s H L h) then show ?case
    by (cases "L h") (auto simp: dl_rep_def ring_def dlist_first_def)
next
  case (6 s H L h) then show ?case by (auto simp: dl_rep_def ring_def)
next
  case (7 s H L h k) then show ?case unfolding dl_rep_def by blast
qed

text \<open>Initialising fresh heads gives empty lists.\<close>

lemma dl_rep_init_all:
  assumes "\<forall>h \<in> H. dnext d h = h \<and> dprev d h = h"
  shows "dl_rep d H (\<lambda>_. [])"
  using assms by (auto simp: dl_rep_def ring_def)

text \<open>A node is off every list of the store or on one: linking fields of an unlinked node may be
  reset without harm.\<close>

lemma dl_rep_init_node:
  assumes "dl_rep d H L" and "x \<notin> dl_nodes H L"
  shows "dl_rep (dlist_init d x) H L"
proof -
  have "ring (dlist_init d x) h (L h)" if "h \<in> H" for h
  proof (rule ring_frame)
    show "ring d h (L h)" using assms(1) that by (simp add: dl_rep_def)
    have "x \<notin> set (h # L h)" using assms(2) that by (auto simp: dl_nodes_def)
    then show "\<forall>n \<in> set (h # L h).
        dnext (dlist_init d x) n = dnext d n \<and> dprev (dlist_init d x) n = dprev d n"
      by (auto simp: dlist_defs)
  qed
  then show ?thesis using assms(1) unfolding dl_rep_def by blast
qed

text \<open>
  (C40) The pointer list refines Isabelle lists: with several lists in one store, empty ones
  included, \<open>dlist_add\<close> on an unlinked node conses it to the list of that head, \<open>dlist_add_tail\<close>
  appends it, \<open>dlist_del\<close> of a node of the list removes it and leaves it linked to itself, and every
  other list is unchanged; \<open>dlist_empty\<close> tells whether the list is empty and \<open>dlist_first\<close> is the
  head of a list that is not.
\<close>

theorem dlist_refines_lists:
  assumes "dl_rep d H L" and "h \<in> H"
  shows "(x \<notin> dl_nodes H L \<longrightarrow>
      dl_rep (dlist_add d h x) H (L(h := x # L h)) \<and>
      dl_rep (dlist_add_tail d h x) H (L(h := L h @ [x]))) \<and>
    (y \<in> set (L h) \<longrightarrow>
      dl_rep (dlist_del d y) H (L(h := remove1 y (L h))) \<and> dlist_empty (dlist_del d y) y) \<and>
    (dlist_empty d h \<longleftrightarrow> L h = []) \<and> (L h \<noteq> [] \<longrightarrow> dlist_first d h = hd (L h))"
  using dl.rep_add [OF assms] dl.rep_add_tail [OF assms] dl.rep_del [OF assms]
    dl.rep_first [OF assms] dl.rep_empty [OF assms]
  by (simp add: dlist_del_self dlist_empty_def)

theorem dlist_refines_lists_witness:
  "let d = \<lparr>dprev = (\<lambda>n. n)(0 := 1, 1 := 0), dnext = (\<lambda>n. n)(0 := 1, 1 := 0 :: nat)\<rparr>;
       L = (\<lambda>n. if n = 0 then [1] else [])
   in dl_rep d {0, 5} L \<and> dl_rep (dlist_add_tail d 0 2) {0, 5} (L(0 := [1, 2])) \<and>
      dl_rep (dlist_del d 1) {0, 5} (L(0 := [])) \<and> dl_rep (dlist_add d 5 2) {0, 5} (L(5 := [2]))"
proof -
  define d :: "nat dstore" where
    "d = \<lparr>dprev = (\<lambda>n. n)(0 := 1, 1 := 0), dnext = (\<lambda>n. n)(0 := 1, 1 := 0)\<rparr>"
  define L :: "nat \<Rightarrow> nat list" where "L = (\<lambda>n. if n = 0 then [1] else [])"
  have h: "dl_rep d {0, 5} L" "2 \<notin> dl_nodes {0, 5} L" "L 0 = [1]" "L 5 = []"
    by (auto simp: d_def L_def dl_rep_def ring_def dl_nodes_def)
  have "dl_rep d {0, 5} L \<and> dl_rep (dlist_add_tail d 0 2) {0, 5} (L(0 := [1, 2])) \<and>
      dl_rep (dlist_del d 1) {0, 5} (L(0 := [])) \<and> dl_rep (dlist_add d 5 2) {0, 5} (L(5 := [2]))"
    using h dlist_refines_lists [OF h(1), of 0 2 1] dlist_refines_lists [OF h(1), of 5 2 1] by simp
  then show ?thesis unfolding Let_def d_def [symmetric] L_def [symmetric] .
qed

end
