(* ===== verification/Rbtree.thy ===== *)
theory Rbtree
  imports Minus_Prelude "HOL-Library.Monad_Syntax" "HOL-Library.Multiset"
begin

text \<open>
  The red-black tree of \<open>lib/rbtree.c\<close>, on an explicit pointer store: the links and the colour of
  every node by address, and the root pointer. The nodes are embedded in the objects of the user,
  who passes the comparison. Following a null pointer is undefined behaviour and gives \<open>None\<close>, as
  does a loop that does not end. The descent and the repair of an insertion are verified by
  splitting the tree at the node in focus into a subtree and a path to the root.
\<close>

section \<open>Operations\<close>

text \<open>A node cleared by \<open>memset\<close> has colour 0, which is red.\<close>

datatype rb_colour = RB_COLOR_RED | RB_COLOR_BLACK

record 'a rb_node =
  rb_left :: "'a option"
  rb_right :: "'a option"
  rb_parent :: "'a option"
  rb_col :: rb_colour

record 'a rb_tree =
  rb_root :: "'a option"
  rb_nd :: "'a \<Rightarrow> 'a rb_node"

definition upd_node :: "'a rb_tree \<Rightarrow> 'a \<Rightarrow> ('a rb_node \<Rightarrow> 'a rb_node) \<Rightarrow> 'a rb_tree" where
  "upd_node t a f = t\<lparr>rb_nd := (rb_nd t)(a := f (rb_nd t a))\<rparr>"

definition set_left :: "'a rb_tree \<Rightarrow> 'a \<Rightarrow> 'a option \<Rightarrow> 'a rb_tree" where
  "set_left t a v = upd_node t a (\<lambda>n. n\<lparr>rb_left := v\<rparr>)"

definition set_right :: "'a rb_tree \<Rightarrow> 'a \<Rightarrow> 'a option \<Rightarrow> 'a rb_tree" where
  "set_right t a v = upd_node t a (\<lambda>n. n\<lparr>rb_right := v\<rparr>)"

definition set_parent :: "'a rb_tree \<Rightarrow> 'a \<Rightarrow> 'a option \<Rightarrow> 'a rb_tree" where
  "set_parent t a v = upd_node t a (\<lambda>n. n\<lparr>rb_parent := v\<rparr>)"

definition set_col :: "'a rb_tree \<Rightarrow> 'a \<Rightarrow> rb_colour \<Rightarrow> 'a rb_tree" where
  "set_col t a v = upd_node t a (\<lambda>n. n\<lparr>rb_col := v\<rparr>)"

definition zero_node :: "'a rb_node" where
  "zero_node = \<lparr>rb_left = None, rb_right = None, rb_parent = None, rb_col = RB_COLOR_RED\<rparr>"

definition rb_color :: "'a rb_tree \<Rightarrow> 'a option \<Rightarrow> rb_colour" where
  "rb_color t p = (case p of Some a \<Rightarrow> rb_col (rb_nd t a) | None \<Rightarrow> RB_COLOR_BLACK)"

definition rb_brother :: "'a rb_tree \<Rightarrow> 'a \<Rightarrow> 'a option option" where
  "rb_brother t a = do {
     p \<leftarrow> rb_parent (rb_nd t a);
     Some (if rb_left (rb_nd t p) = Some a then rb_right (rb_nd t p) else rb_left (rb_nd t p)) }"

text \<open>The pointer to \<open>x\<close> in its parent, or in the tree, is redirected to \<open>y\<close>.\<close>

definition relink :: "'a rb_tree \<Rightarrow> 'a \<Rightarrow> 'a option \<Rightarrow> 'a option \<Rightarrow> 'a rb_tree" where
  "relink t x p y =
     (case p of
        None \<Rightarrow> t\<lparr>rb_root := y\<rparr>
      | Some q \<Rightarrow> if rb_left (rb_nd t q) = Some x then set_left t q y else set_right t q y)"

definition adopt :: "'a rb_tree \<Rightarrow> 'a option \<Rightarrow> 'a option \<Rightarrow> 'a rb_tree" where
  "adopt t c p = (case c of None \<Rightarrow> t | Some b \<Rightarrow> set_parent t b p)"

definition rb_left_rot :: "'a rb_tree \<Rightarrow> 'a \<Rightarrow> 'a rb_tree option" where
  "rb_left_rot t x = do {
     y \<leftarrow> rb_right (rb_nd t x);
     let t1 = set_right t x (rb_left (rb_nd t y));
     let t2 = adopt t1 (rb_left (rb_nd t1 y)) (Some x);
     let t3 = set_parent t2 y (rb_parent (rb_nd t2 x));
     let t4 = relink t3 x (rb_parent (rb_nd t3 x)) (Some y);
     let t5 = set_left t4 y (Some x);
     Some (set_parent t5 x (Some y)) }"

definition rb_right_rot :: "'a rb_tree \<Rightarrow> 'a \<Rightarrow> 'a rb_tree option" where
  "rb_right_rot t y = do {
     x \<leftarrow> rb_left (rb_nd t y);
     let t1 = set_left t y (rb_right (rb_nd t x));
     let t2 = adopt t1 (rb_right (rb_nd t1 x)) (Some y);
     let t3 = set_parent t2 x (rb_parent (rb_nd t2 y));
     let t4 = relink t3 y (rb_parent (rb_nd t3 y)) (Some x);
     let t5 = set_right t4 x (Some y);
     Some (set_parent t5 y (Some x)) }"

definition rb_rot :: "'a rb_tree \<Rightarrow> 'a \<Rightarrow> 'a \<Rightarrow> 'a \<Rightarrow> ('a option \<times> 'a rb_tree) option" where
  "rb_rot t pp p node = do {
     t2 \<leftarrow> (if rb_left (rb_nd t pp) = Some p
            then do {
              t1 \<leftarrow> (if rb_right (rb_nd t p) = Some node then rb_left_rot t p else Some t);
              rb_right_rot t1 pp }
            else do {
              t1 \<leftarrow> (if rb_left (rb_nd t p) = Some node then rb_right_rot t p else Some t);
              rb_left_rot t1 pp });
     Some (rb_parent (rb_nd t2 pp), t2) }"

definition rb_rot_branch :: "'a rb_tree \<Rightarrow> 'a \<Rightarrow> bool \<Rightarrow> 'a rb_tree option" where
  "rb_rot_branch t a left_rot = (if left_rot then rb_left_rot t a else rb_right_rot t a)"

definition blacken_root :: "'a rb_tree \<Rightarrow> 'a rb_tree option" where
  "blacken_root t = do { r \<leftarrow> rb_root t; Some (set_col t r RB_COLOR_BLACK) }"

partial_function (option) rb_insert_fixup :: "'a rb_tree \<Rightarrow> 'a \<Rightarrow> 'a rb_tree option" where
  "rb_insert_fixup t node =
     (case rb_parent (rb_nd t node) of
        None \<Rightarrow> blacken_root t
      | Some p \<Rightarrow>
          if rb_col (rb_nd t p) \<noteq> RB_COLOR_RED then blacken_root t
          else
            (case rb_parent (rb_nd t p) of
               None \<Rightarrow> None
             | Some g \<Rightarrow>
                 (let t1 = set_col t g RB_COLOR_RED;
                      u = (if rb_left (rb_nd t1 g) = Some p then rb_right (rb_nd t1 g) else rb_left (rb_nd t1 g))
                  in if u \<noteq> None \<and> rb_color t1 u = RB_COLOR_RED
                     then rb_insert_fixup (set_col (set_col t1 (the u) RB_COLOR_BLACK) p RB_COLOR_BLACK) g
                     else
                       (case rb_rot t1 g p node of
                          None \<Rightarrow> None
                        | Some (r, t2) \<Rightarrow>
                            (case r of None \<Rightarrow> None | Some q \<Rightarrow> blacken_root (set_col t2 q RB_COLOR_BLACK))))))"

partial_function (option) rb_descend :: "('a \<Rightarrow> 'a \<Rightarrow> int) \<Rightarrow> 'a rb_tree \<Rightarrow> 'a \<Rightarrow> 'a \<Rightarrow> 'a option" where
  "rb_descend cmp t node p =
     (case (if cmp node p < 0 then rb_left (rb_nd t p) else rb_right (rb_nd t p)) of
        None \<Rightarrow> Some p
      | Some q \<Rightarrow> rb_descend cmp t node q)"

definition rb_insert :: "('a \<Rightarrow> 'a \<Rightarrow> int) \<Rightarrow> 'a rb_tree \<Rightarrow> 'a \<Rightarrow> 'a rb_tree option" where
  "rb_insert cmp t0 node = (let t = upd_node t0 node (\<lambda>_. zero_node) in
     (case rb_root t of
        None \<Rightarrow> Some ((set_col t node RB_COLOR_BLACK)\<lparr>rb_root := Some node\<rparr>)
      | Some r \<Rightarrow> do {
          parent \<leftarrow> rb_descend cmp t node r;
          let t1 = set_parent t node (Some parent);
          let t2 = (if cmp node parent < 0 then set_left t1 parent (Some node) else set_right t1 parent (Some node));
          rb_insert_fixup t2 node }))"

partial_function (option) rb_leftmost :: "'a rb_tree \<Rightarrow> 'a \<Rightarrow> 'a option" where
  "rb_leftmost t p = (case rb_left (rb_nd t p) of None \<Rightarrow> Some p | Some q \<Rightarrow> rb_leftmost t q)"

partial_function (option) rb_rightmost :: "'a rb_tree \<Rightarrow> 'a \<Rightarrow> 'a option" where
  "rb_rightmost t p = (case rb_right (rb_nd t p) of None \<Rightarrow> Some p | Some q \<Rightarrow> rb_rightmost t q)"

definition rb_min_node :: "'a rb_tree \<Rightarrow> 'a option option" where
  "rb_min_node t = (case rb_root t of None \<Rightarrow> Some None | Some r \<Rightarrow> map_option Some (rb_leftmost t r))"

definition rb_max_node :: "'a rb_tree \<Rightarrow> 'a option option" where
  "rb_max_node t = (case rb_root t of None \<Rightarrow> Some None | Some r \<Rightarrow> map_option Some (rb_rightmost t r))"

definition rb_make_orphan :: "'a rb_tree \<Rightarrow> 'a option \<Rightarrow> 'a rb_tree" where
  "rb_make_orphan t node =
     (case node of
        None \<Rightarrow> t
      | Some a \<Rightarrow>
          (case rb_parent (rb_nd t a) of
             None \<Rightarrow> t
           | Some p \<Rightarrow>
               let t1 = (if rb_left (rb_nd t p) = Some a then set_left t p None else set_right t p None)
               in upd_node t1 a (\<lambda>_. zero_node)))"

definition rb_substitue :: "'a rb_tree \<Rightarrow> 'a \<Rightarrow> 'a option \<Rightarrow> 'a rb_tree" where
  "rb_substitue t0 node sub =
     (let t = rb_make_orphan t0 sub;
          n = rb_nd t node;
          t1 = (case sub of Some s \<Rightarrow> upd_node t s (\<lambda>_. n) | None \<Rightarrow> t);
          t2 = adopt t1 (rb_left n) sub;
          t3 = adopt t2 (rb_right n) sub;
          t4 = relink t3 node (rb_parent n) sub
      in upd_node t4 node (\<lambda>_. zero_node))"

definition rb_successor :: "'a rb_tree \<Rightarrow> 'a \<Rightarrow> 'a option" where
  "rb_successor t node = do { r \<leftarrow> rb_right (rb_nd t node); rb_leftmost t r }"

text \<open>One round of the repair before a deletion: the node the loop goes on with, and the tree.\<close>

definition delete_round :: "'a rb_tree \<Rightarrow> 'a \<Rightarrow> ('a option \<times> 'a rb_tree) option" where
  "delete_round t node = do {
     p0 \<leftarrow> rb_parent (rb_nd t node);
     let branch = (rb_left (rb_nd t p0) = Some node);
     bro0 \<leftarrow> rb_brother t node;
     (p, bro1, t1) \<leftarrow>
       (if rb_color t bro0 = RB_COLOR_RED
        then do {
          b \<leftarrow> bro0;
          t' \<leftarrow> rb_rot_branch (set_col (set_col t b RB_COLOR_BLACK) p0 RB_COLOR_RED) p0 branch;
          p' \<leftarrow> rb_parent (rb_nd t' node);
          b' \<leftarrow> rb_brother t' node;
          Some (p', b', t') }
        else Some (p0, bro0, t));
     bro \<leftarrow> bro1;
     let bl = rb_left (rb_nd t1 bro);
     let br = rb_right (rb_nd t1 bro);
     (if rb_color t1 bl = RB_COLOR_BLACK \<and> rb_color t1 br = RB_COLOR_BLACK
      then Some (Some p, set_col t1 bro RB_COLOR_RED)
      else do {
        (p', bro2, t2) \<leftarrow>
          (if rb_color t1 br = RB_COLOR_BLACK
           then do {
             l \<leftarrow> bl;
             t' \<leftarrow> rb_rot_branch (set_col (set_col t1 l RB_COLOR_BLACK) bro RB_COLOR_RED) bro (\<not> branch);
             q \<leftarrow> rb_parent (rb_nd t' node);
             b' \<leftarrow> rb_brother t' node;
             b'' \<leftarrow> b';
             Some (q, b'', t') }
           else Some (p, bro, t1));
        r \<leftarrow> rb_right (rb_nd t2 bro2);
        let t3 = set_col t2 bro2 (rb_col (rb_nd t2 p'));
        let t4 = set_col (set_col t3 p' RB_COLOR_BLACK) r RB_COLOR_BLACK;
        t5 \<leftarrow> rb_rot_branch t4 p' branch;
        Some (rb_root t5, t5) }) }"

partial_function (option) rb_delete_fixup :: "'a rb_tree \<Rightarrow> 'a option \<Rightarrow> 'a rb_tree option" where
  "rb_delete_fixup t node =
     (if node \<noteq> rb_root t \<and> rb_color t node = RB_COLOR_BLACK
      then (case node of
              None \<Rightarrow> None
            | Some a \<Rightarrow> (case delete_round t a of None \<Rightarrow> None | Some (n, t') \<Rightarrow> rb_delete_fixup t' n))
      else (case node of None \<Rightarrow> None | Some a \<Rightarrow> Some (set_col t a RB_COLOR_BLACK)))"

definition rb_delete :: "'a rb_tree \<Rightarrow> 'a \<Rightarrow> 'a rb_tree option" where
  "rb_delete t node = do {
     sub \<leftarrow> (if rb_left (rb_nd t node) = None \<or> rb_right (rb_nd t node) = None then Some node else rb_successor t node);
     let child = (if rb_left (rb_nd t sub) \<noteq> None then rb_left (rb_nd t sub) else rb_right (rb_nd t sub));
     t1 \<leftarrow> (if child = None \<and> rb_color t (Some sub) = RB_COLOR_BLACK then rb_delete_fixup t (Some sub) else Some t);
     let t2 = rb_substitue t1 sub child;
     Some (if sub \<noteq> node then rb_substitue t2 node (Some sub) else t2) }"

definition rb_update :: "('a \<Rightarrow> 'a \<Rightarrow> int) \<Rightarrow> 'a rb_tree \<Rightarrow> 'a \<Rightarrow> 'a rb_tree option" where
  "rb_update cmp t node = do { t1 \<leftarrow> rb_delete t node; rb_insert cmp t1 node }"


section \<open>Trees in the store\<close>

datatype 'a ptree = Lf | Nd rb_colour "'a ptree" 'a "'a ptree"

fun nodes :: "'a ptree \<Rightarrow> 'a list" where
  "nodes Lf = []"
| "nodes (Nd c l a r) = nodes l @ a # nodes r"

fun root_of :: "'a ptree \<Rightarrow> 'a option" where
  "root_of Lf = None"
| "root_of (Nd c l a r) = Some a"

fun colour :: "'a ptree \<Rightarrow> rb_colour" where
  "colour Lf = RB_COLOR_BLACK"
| "colour (Nd c l a r) = c"

text \<open>\<open>rep n p T\<close>: the store \<open>n\<close> holds the tree \<open>T\<close>, whose root has the parent \<open>p\<close>.\<close>

fun rep :: "('a \<Rightarrow> 'a rb_node) \<Rightarrow> 'a option \<Rightarrow> 'a ptree \<Rightarrow> bool" where
  "rep n p Lf \<longleftrightarrow> True"
| "rep n p (Nd c l a r) \<longleftrightarrow>
     n a = \<lparr>rb_left = root_of l, rb_right = root_of r, rb_parent = p, rb_col = c\<rparr> \<and>
     rep n (Some a) l \<and> rep n (Some a) r"

text \<open>The path from a subtree to the root, innermost step first.\<close>

datatype 'a pstep = InL rb_colour 'a "'a ptree" | InR "'a ptree" rb_colour 'a

fun fill :: "'a ptree \<Rightarrow> 'a pstep \<Rightarrow> 'a ptree" where
  "fill T (InL c a r) = Nd c T a r"
| "fill T (InR l c a) = Nd c l a T"

fun plug :: "'a ptree \<Rightarrow> 'a pstep list \<Rightarrow> 'a ptree" where
  "plug T [] = T"
| "plug T (s # k) = plug (fill T s) k"

fun saddr :: "'a pstep \<Rightarrow> 'a" where
  "saddr (InL c a r) = a"
| "saddr (InR l c a) = a"

fun scol :: "'a pstep \<Rightarrow> rb_colour" where
  "scol (InL c a r) = c"
| "scol (InR l c a) = c"

fun stree :: "'a pstep \<Rightarrow> 'a ptree" where
  "stree (InL c a r) = r"
| "stree (InR l c a) = l"

fun ktop :: "'a pstep list \<Rightarrow> 'a option" where
  "ktop [] = None"
| "ktop (s # k) = Some (saddr s)"

fun snode :: "'a option \<Rightarrow> 'a option \<Rightarrow> 'a pstep \<Rightarrow> 'a rb_node" where
  "snode h p (InL c a r) = \<lparr>rb_left = h, rb_right = root_of r, rb_parent = p, rb_col = c\<rparr>"
| "snode h p (InR l c a) = \<lparr>rb_left = root_of l, rb_right = h, rb_parent = p, rb_col = c\<rparr>"

fun repk :: "('a \<Rightarrow> 'a rb_node) \<Rightarrow> 'a option \<Rightarrow> 'a pstep list \<Rightarrow> bool" where
  "repk n h [] \<longleftrightarrow> True"
| "repk n h (s # k) \<longleftrightarrow> n (saddr s) = snode h (ktop k) s \<and> rep n (Some (saddr s)) (stree s) \<and> repk n (Some (saddr s)) k"

fun knodes :: "'a pstep list \<Rightarrow> 'a list" where
  "knodes [] = []"
| "knodes (s # k) = saddr s # nodes (stree s) @ knodes k"

fun rootk :: "'a option \<Rightarrow> 'a pstep list \<Rightarrow> 'a option" where
  "rootk h [] = h"
| "rootk h (s # k) = rootk (Some (saddr s)) k"

definition holds :: "'a rb_tree \<Rightarrow> 'a ptree \<Rightarrow> bool" where
  "holds t T \<longleftrightarrow> rb_root t = root_of T \<and> rep (rb_nd t) None T \<and> distinct (nodes T)"

text \<open>The store with a subtree in focus.\<close>

definition focus :: "'a rb_tree \<Rightarrow> 'a ptree \<Rightarrow> 'a pstep list \<Rightarrow> bool" where
  "focus t T k \<longleftrightarrow> rb_root t = rootk (root_of T) k \<and> rep (rb_nd t) (ktop k) T \<and> repk (rb_nd t) (root_of T) k \<and>
     distinct (nodes T @ knodes k)"

lemma rep_fill: "rep n p (fill T s) \<longleftrightarrow>
    n (saddr s) = snode (root_of T) p s \<and> rep n (Some (saddr s)) (stree s) \<and> rep n (Some (saddr s)) T"
  by (cases s) auto

lemma root_fill [simp]: "root_of (fill T s) = Some (saddr s)"
  by (cases s) auto

lemma rep_plug: "rep n None (plug T k) \<longleftrightarrow> rep n (ktop k) T \<and> repk n (root_of T) k"
  by (induction k arbitrary: T) (auto simp: rep_fill)

lemma root_plug: "root_of (plug T k) = rootk (root_of T) k"
  by (induction k arbitrary: T) auto

lemma mset_fill: "mset (nodes (fill T s)) = add_mset (saddr s) (mset (nodes (stree s)) + mset (nodes T))"
  by (cases s) auto

lemma mset_plug: "mset (nodes (plug T k)) = mset (nodes T) + mset (knodes k)"
  by (induction k arbitrary: T) (auto simp: mset_fill)

lemma distinct_plug: "distinct (nodes (plug T k)) \<longleftrightarrow> distinct (nodes T @ knodes k)"
  by (rule mset_eq_imp_distinct_iff) (simp add: mset_plug)

lemma focus_holds: "focus t T k \<longleftrightarrow> holds t (plug T k)"
  unfolding focus_def holds_def rep_plug root_plug distinct_plug by auto

lemma rep_upd [simp]: "a \<notin> set (nodes T) \<Longrightarrow> rep (n(a := v)) p T = rep n p T"
  by (induction T arbitrary: p) auto

lemma repk_upd [simp]: "a \<notin> set (knodes k) \<Longrightarrow> repk (n(a := v)) h k = repk n h k"
  by (induction k arbitrary: h) auto

lemma root_in: "root_of T = Some a \<Longrightarrow> a \<in> set (nodes T)"
  by (cases T) auto


section \<open>Rotations\<close>

lemmas upd_defs = upd_node_def set_left_def set_right_def set_parent_def set_col_def

definition reparent :: "('a \<Rightarrow> 'a rb_node) \<Rightarrow> 'a option \<Rightarrow> 'a option \<Rightarrow> 'a \<Rightarrow> 'a rb_node" where
  "reparent n c q = (case c of None \<Rightarrow> n | Some z \<Rightarrow> n(z := (n z)\<lparr>rb_parent := q\<rparr>))"

lemma adopt_nd: "adopt t c q = t\<lparr>rb_nd := reparent (rb_nd t) c q\<rparr>"
  by (simp add: adopt_def reparent_def upd_defs split: option.split)

lemma rep_reparent: "rep n p T \<Longrightarrow> distinct (nodes T) \<Longrightarrow> rep (reparent n (root_of T) q) q T"
  by (cases T) (auto simp: reparent_def)

lemma reparent_other [simp]:
  "a \<notin> set (nodes T) \<Longrightarrow> reparent n (root_of T) q a = n a"
  "set (nodes T) \<inter> set (nodes S) = {} \<Longrightarrow> rep (reparent n (root_of T) q) p S = rep n p S"
  "set (nodes T) \<inter> set (knodes k) = {} \<Longrightarrow> repk (reparent n (root_of T) q) h k = repk n h k"
  by (cases T; auto simp: reparent_def)+

text \<open>The parent of the focus points to the new root of the subtree.\<close>

definition rehang :: "('a \<Rightarrow> 'a rb_node) \<Rightarrow> 'a option \<Rightarrow> 'a pstep list \<Rightarrow> 'a \<Rightarrow> 'a rb_node" where
  "rehang n h k = (case k of [] \<Rightarrow> n | s # k' \<Rightarrow> n(saddr s := snode h (ktop k') s))"

lemma relink_nd:
  assumes "repk (rb_nd t) (Some x) k" and "distinct (x # knodes k)"
  shows "relink t x (ktop k) h =
    t\<lparr>rb_root := (if k = [] then h else rb_root t), rb_nd := rehang (rb_nd t) h k\<rparr>"
proof (cases k)
  case Nil
  then show ?thesis by (simp add: relink_def rehang_def)
next
  case (Cons s k')
  have "root_of (stree s) \<noteq> Some x"
    using assms(2) Cons by (auto dest: root_in)
  with assms(1) Cons show ?thesis
    by (cases s) (auto simp: relink_def rehang_def upd_defs)
qed

lemma repk_rehang:
  assumes "repk n g k" and "distinct (knodes k)"
  shows "repk (rehang n h k) h k"
  using assms by (cases k) (auto simp: rehang_def)

lemma rehang_other [simp]: "a \<notin> set (knodes k) \<Longrightarrow> rehang n h k a = n a"
  by (cases k) (auto simp: rehang_def)

lemma rep_rehang [simp]: "set (nodes T) \<inter> set (knodes k) = {} \<Longrightarrow> rep (rehang n h k) p T = rep n p T"
  by (cases k) (auto simp: rehang_def)

lemma rootk_some: "k \<noteq> [] \<Longrightarrow> rootk h k = rootk h' k"
  by (cases k) auto


lemma left_rot_focus:
  assumes f: "focus t (Nd c l x (Nd d b y r)) k"
  obtains t' where "rb_left_rot t x = Some t'" and "focus t' (Nd d (Nd c l x b) y r) k"
proof -
  define n where "n = rb_nd t"
  define n2 where "n2 = reparent (n(x := (n x)\<lparr>rb_right := root_of b\<rparr>)) (root_of b) (Some x)"
  have dist: "distinct (nodes l @ x # nodes b @ y # nodes r @ knodes k)"
    and nx: "n x = \<lparr>rb_left = root_of l, rb_right = Some y, rb_parent = ktop k, rb_col = c\<rparr>"
    and ny: "n y = \<lparr>rb_left = root_of b, rb_right = root_of r, rb_parent = Some x, rb_col = d\<rparr>"
    and reps: "rep n (Some x) l" "rep n (Some y) b" "rep n (Some y) r" "repk n (Some x) k"
    and root: "rb_root t = rootk (Some x) k"
    using f by (auto simp: focus_def n_def)
  have dj: "set (nodes b) \<inter> set (nodes l) = {}" "set (nodes b) \<inter> set (nodes r) = {}"
    "set (nodes b) \<inter> set (knodes k) = {}" "set (nodes r) \<inter> set (knodes k) = {}" "set (nodes l) \<inter> set (knodes k) = {}"
    "x \<noteq> y" "y \<noteq> x"
    using dist by auto
  have n2: "n2 x = \<lparr>rb_left = root_of l, rb_right = root_of b, rb_parent = ktop k, rb_col = c\<rparr>" "n2 y = n y"
    "rep n2 (Some x) l" "rep n2 (Some x) b" "rep n2 (Some y) r" "repk n2 (Some x) k"
    using dist dj nx reps unfolding n2_def
    by (simp_all add: rep_reparent [where p = "Some y"])
  define n3 where "n3 = n2(y := (n2 y)\<lparr>rb_parent := ktop k\<rparr>)"
  define n4 where "n4 = rehang n3 (Some y) k"
  define n5 where "n5 = n4(y := (n4 y)\<lparr>rb_left := Some x\<rparr>, x := (n4 x)\<lparr>rb_parent := Some y\<rparr>)"
  define t' where "t' = t\<lparr>rb_root := (if k = [] then Some y else rb_root t), rb_nd := n5\<rparr>"
  have k3: "repk n3 (Some x) k"
    using n2 dist by (simp add: n3_def)
  have rl: "relink (t\<lparr>rb_nd := n3\<rparr>) x (ktop k) (Some y) =
      t\<lparr>rb_root := (if k = [] then Some y else rb_root t), rb_nd := n4\<rparr>"
    unfolding n4_def using relink_nd [of "t\<lparr>rb_nd := n3\<rparr>" x k] k3 dist by simp
  have t1: "set_right t x (root_of b) = t\<lparr>rb_nd := n(x := (n x)\<lparr>rb_right := root_of b\<rparr>)\<rparr>"
    and t3: "set_parent (t\<lparr>rb_nd := n2\<rparr>) y (ktop k) = t\<lparr>rb_nd := n3\<rparr>"
    and t5: "set_parent (set_left (t\<lparr>rb_root := (if k = [] then Some y else rb_root t), rb_nd := n4\<rparr>) y (Some x)) x (Some y) = t'"
    using dj by (simp_all add: upd_defs n3_def n5_def t'_def n_def)
  have t2: "adopt (t\<lparr>rb_nd := n(x := \<lparr>rb_left = root_of l, rb_right = root_of b, rb_parent = ktop k, rb_col = c\<rparr>)\<rparr>)
      (root_of b) (Some x) = t\<lparr>rb_nd := n2\<rparr>" and n3x: "n3 x = n2 x"
    using dj by (simp_all add: adopt_nd n2_def n3_def nx)
  have "rb_left_rot t x = Some t'"
    using dj by (simp add: rb_left_rot_def nx ny t1 t2 n2 t3 n3x rl t5 flip: n_def)
  moreover have "focus t' (Nd d (Nd c l x b) y r) k"
    using dist dj n2 ny reps repk_rehang [OF k3, of "Some y"] root rootk_some [of k "Some x" "Some y"]
    by (simp add: focus_def t'_def n5_def n4_def) (simp add: n3_def)
  ultimately show ?thesis by (rule that)
qed

lemma right_rot_focus:
  assumes f: "focus t (Nd d (Nd c l x b) y r) k"
  obtains t' where "rb_right_rot t y = Some t'" and "focus t' (Nd c l x (Nd d b y r)) k"
proof -
  define n where "n = rb_nd t"
  define n2 where "n2 = reparent (n(y := (n y)\<lparr>rb_left := root_of b\<rparr>)) (root_of b) (Some y)"
  have dist: "distinct (nodes l @ x # nodes b @ y # nodes r @ knodes k)"
    and nx: "n x = \<lparr>rb_left = root_of l, rb_right = root_of b, rb_parent = Some y, rb_col = c\<rparr>"
    and ny: "n y = \<lparr>rb_left = Some x, rb_right = root_of r, rb_parent = ktop k, rb_col = d\<rparr>"
    and reps: "rep n (Some x) l" "rep n (Some x) b" "rep n (Some y) r" "repk n (Some y) k"
    and root: "rb_root t = rootk (Some y) k"
    using f by (auto simp: focus_def n_def)
  have dj: "set (nodes b) \<inter> set (nodes l) = {}" "set (nodes b) \<inter> set (nodes r) = {}"
    "set (nodes b) \<inter> set (knodes k) = {}" "set (nodes r) \<inter> set (knodes k) = {}" "set (nodes l) \<inter> set (knodes k) = {}"
    "x \<noteq> y" "y \<noteq> x"
    using dist by auto
  have n2: "n2 y = \<lparr>rb_left = root_of b, rb_right = root_of r, rb_parent = ktop k, rb_col = d\<rparr>" "n2 x = n x"
    "rep n2 (Some x) l" "rep n2 (Some y) b" "rep n2 (Some y) r" "repk n2 (Some y) k"
    using dist dj ny reps unfolding n2_def
    by (simp_all add: rep_reparent [where p = "Some x"])
  define n3 where "n3 = n2(x := (n2 x)\<lparr>rb_parent := ktop k\<rparr>)"
  define n4 where "n4 = rehang n3 (Some x) k"
  define n5 where "n5 = n4(x := (n4 x)\<lparr>rb_right := Some y\<rparr>, y := (n4 y)\<lparr>rb_parent := Some x\<rparr>)"
  define t' where "t' = t\<lparr>rb_root := (if k = [] then Some x else rb_root t), rb_nd := n5\<rparr>"
  have k3: "repk n3 (Some y) k"
    using n2 dist by (simp add: n3_def)
  have rl: "relink (t\<lparr>rb_nd := n3\<rparr>) y (ktop k) (Some x) =
      t\<lparr>rb_root := (if k = [] then Some x else rb_root t), rb_nd := n4\<rparr>"
    unfolding n4_def using relink_nd [of "t\<lparr>rb_nd := n3\<rparr>" y k] k3 dist by simp
  have t1: "set_left t y (root_of b) = t\<lparr>rb_nd := n(y := (n y)\<lparr>rb_left := root_of b\<rparr>)\<rparr>"
    and t3: "set_parent (t\<lparr>rb_nd := n2\<rparr>) x (ktop k) = t\<lparr>rb_nd := n3\<rparr>"
    and t5: "set_parent (set_right (t\<lparr>rb_root := (if k = [] then Some x else rb_root t), rb_nd := n4\<rparr>) x (Some y)) y (Some x) = t'"
    using dj by (simp_all add: upd_defs n3_def n5_def t'_def n_def)
  have t2: "adopt (t\<lparr>rb_nd := n(y := \<lparr>rb_left = root_of b, rb_right = root_of r, rb_parent = ktop k, rb_col = d\<rparr>)\<rparr>)
      (root_of b) (Some y) = t\<lparr>rb_nd := n2\<rparr>" and n3y: "n3 y = n2 y"
    using dj by (simp_all add: adopt_nd n2_def n3_def ny)
  have "rb_right_rot t y = Some t'"
    using dj by (simp add: rb_right_rot_def nx ny t1 t2 n2 t3 n3y rl t5 flip: n_def)
  moreover have "focus t' (Nd c l x (Nd d b y r)) k"
    using dist dj n2 nx reps repk_rehang [OF k3, of "Some x"] root rootk_some [of k "Some y" "Some x"]
    by (simp add: focus_def t'_def n5_def n4_def) (simp add: n3_def)
  ultimately show ?thesis by (rule that)
qed

section \<open>Insertion\<close>

text \<open>The red-black invariants: no red node has a red child, and all paths have the same number of black nodes.\<close>

fun bheight :: "'a ptree \<Rightarrow> nat" where
  "bheight Lf = 0"
| "bheight (Nd c l a r) = bheight l + (if c = RB_COLOR_BLACK then 1 else 0)"

fun invc :: "'a ptree \<Rightarrow> bool" where
  "invc Lf \<longleftrightarrow> True"
| "invc (Nd c l a r) \<longleftrightarrow>
     (c = RB_COLOR_RED \<longrightarrow> colour l = RB_COLOR_BLACK \<and> colour r = RB_COLOR_BLACK) \<and> invc l \<and> invc r"

fun invh :: "'a ptree \<Rightarrow> bool" where
  "invh Lf \<longleftrightarrow> True"
| "invh (Nd c l a r) \<longleftrightarrow> bheight l = bheight r \<and> invh l \<and> invh r"

definition rb_valid :: "'a ptree \<Rightarrow> bool" where
  "rb_valid T \<longleftrightarrow> invc T \<and> invh T \<and> colour T = RB_COLOR_BLACK"

text \<open>A path whose hole takes a black tree of black height \<open>h\<close>.\<close>

fun path_ok :: "nat \<Rightarrow> 'a pstep list \<Rightarrow> bool" where
  "path_ok h [] \<longleftrightarrow> True"
| "path_ok h (s # k) \<longleftrightarrow>
     invc (stree s) \<and> invh (stree s) \<and> bheight (stree s) = h \<and>
     (scol s = RB_COLOR_RED \<longrightarrow> colour (stree s) = RB_COLOR_BLACK \<and> k \<noteq> [] \<and> scol (hd k) = RB_COLOR_BLACK) \<and>
     path_ok (h + (if scol s = RB_COLOR_BLACK then 1 else 0)) k"

lemma not_red [simp]: "c \<noteq> RB_COLOR_RED \<longleftrightarrow> c = RB_COLOR_BLACK"
  by (cases c) auto

lemma plug_valid:
  "path_ok (bheight T) k \<Longrightarrow> invc T \<Longrightarrow> invh T \<Longrightarrow>
   (colour T = RB_COLOR_RED \<Longrightarrow> k \<noteq> [] \<and> scol (hd k) = RB_COLOR_BLACK) \<Longrightarrow> rb_valid (plug T k)"
proof (induction k arbitrary: T)
  case Nil
  then show ?case by (cases "colour T") (auto simp: rb_valid_def)
next
  case (Cons s k)
  then have "rb_valid (plug (fill T s) k)"
    by (intro Cons.IH; cases s; cases "colour T"; cases "scol s") auto
  then show ?case by simp
qed

lemma valid_plug:
  "rb_valid (plug T k) \<Longrightarrow> path_ok (bheight T) k \<and> invc T \<and> invh T \<and>
     (k = [] \<longrightarrow> colour T = RB_COLOR_BLACK) \<and> (colour T = RB_COLOR_RED \<longrightarrow> k \<noteq> [] \<longrightarrow> scol (hd k) = RB_COLOR_BLACK)"
proof (induction k arbitrary: T)
  case Nil
  then show ?case by (auto simp: rb_valid_def)
next
  case (Cons s k)
  then have "rb_valid (plug (fill T s) k)" by simp
  note IH = Cons.IH [OF this]
  show ?case
    using IH by (cases s; cases k; cases "scol s") auto
qed

lemma focus_fill: "focus t (fill T s) k \<longleftrightarrow> focus t T (s # k)"
  by (simp add: focus_holds)

lemma focus_in:
  "focus t (Nd c l a r) k \<longleftrightarrow> focus t l (InL c a r # k)"
  "focus t (Nd c l a r) k \<longleftrightarrow> focus t r (InR l c a # k)"
  by (simp_all flip: focus_fill)

lemma set_col_focus: "focus t (Nd c l a r) k \<Longrightarrow> focus (set_col t a d) (Nd d l a r) k"
  by (auto simp: focus_def upd_defs)

lemma blacken_holds:
  assumes "holds t T" and "rb_valid (case T of Lf \<Rightarrow> Lf | Nd c l a r \<Rightarrow> Nd RB_COLOR_BLACK l a r)" and "T \<noteq> Lf"
  obtains t' T' where "blacken_root t = Some t'" "holds t' T'" "nodes T' = nodes T" "rb_valid T'"
proof -
  obtain c l a r where T: "T = Nd c l a r" using assms(3) by (cases T) auto
  have "focus t (Nd c l a r) []" using assms(1) T by (simp add: focus_holds)
  from set_col_focus [OF this, of RB_COLOR_BLACK]
  have "holds (set_col t a RB_COLOR_BLACK) (Nd RB_COLOR_BLACK l a r)" by (simp add: focus_holds)
  moreover have "blacken_root t = Some (set_col t a RB_COLOR_BLACK)"
    using assms(1) T by (simp add: blacken_root_def holds_def)
  ultimately show ?thesis using that assms(2) T by simp
qed

lemma blacken_valid:
  assumes "holds t T" and "rb_valid T" and "T \<noteq> Lf"
  obtains t' T' where "blacken_root t = Some t'" "holds t' T'" "nodes T' = nodes T" "rb_valid T'"
proof (rule blacken_holds [OF assms(1) _ assms(3)])
  show "rb_valid (case T of Lf \<Rightarrow> Lf | Nd c l a r \<Rightarrow> Nd RB_COLOR_BLACK l a r)"
    using assms(2) by (auto simp: rb_valid_def split: ptree.splits)
qed (rule that)

text \<open>The rotation around the grandparent, in its four cases.\<close>

lemma rot_focus:
  assumes f: "focus t (fill (fill (Nd RB_COLOR_RED a n b) s) g) k" and red: "scol s = RB_COLOR_RED" "scol g = RB_COLOR_RED"
  obtains t' q A x B C y D where "rb_rot t (saddr g) (saddr s) n = Some (Some q, t')"
    and "focus t' (Nd RB_COLOR_RED (Nd RB_COLOR_RED A x B) q (Nd RB_COLOR_RED C y D)) k"
    and "nodes (Nd RB_COLOR_RED (Nd RB_COLOR_RED A x B) q (Nd RB_COLOR_RED C y D)) = nodes (fill (fill (Nd RB_COLOR_RED a n b) s) g)"
    and "{A, B, C, D} = {a, b, stree s, stree g}"
proof (cases g)
  case g: (InL cg ga u)
  show ?thesis
  proof (cases s)
    case s: (InL cp p c)
    have "focus t (Nd RB_COLOR_RED (Nd RB_COLOR_RED (Nd RB_COLOR_RED a n b) p c) ga u) k" using f red g s by simp
    note F = this
    obtain t' where t': "rb_right_rot t ga = Some t'"
      "focus t' (Nd RB_COLOR_RED (Nd RB_COLOR_RED a n b) p (Nd RB_COLOR_RED c ga u)) k"
      by (rule right_rot_focus [OF F])
    have "rb_rot t ga p n = Some (Some p, t')"
      using F t' by (auto simp: rb_rot_def focus_def dest: root_in)
    then show ?thesis by (intro that [OF _ t'(2)]) (use g s in auto)
  next
    case s: (InR c cp p)
    have "focus t (Nd RB_COLOR_RED (Nd RB_COLOR_RED c p (Nd RB_COLOR_RED a n b)) ga u) k" using f red g s by simp
    note F = this
    obtain t1 where t1: "rb_left_rot t p = Some t1"
      "focus t1 (Nd RB_COLOR_RED (Nd RB_COLOR_RED c p a) n b) (InL RB_COLOR_RED ga u # k)"
      by (rule left_rot_focus [OF F [unfolded focus_in(1) [of t _ "Nd RB_COLOR_RED c p (Nd RB_COLOR_RED a n b)"]]])
    obtain t' where t': "rb_right_rot t1 ga = Some t'"
      "focus t' (Nd RB_COLOR_RED (Nd RB_COLOR_RED c p a) n (Nd RB_COLOR_RED b ga u)) k"
      by (rule right_rot_focus [OF t1(2) [folded focus_in]])
    have "rb_rot t ga p n = Some (Some n, t')"
      using F t1(1) t' by (auto simp: rb_rot_def focus_def)
    then show ?thesis by (intro that [OF _ t'(2)]) (use g s in auto)
  qed
next
  case g: (InR u cg ga)
  show ?thesis
  proof (cases s)
    case s: (InR c cp p)
    have "focus t (Nd RB_COLOR_RED u ga (Nd RB_COLOR_RED c p (Nd RB_COLOR_RED a n b))) k" using f red g s by simp
    note F = this
    obtain t' where t': "rb_left_rot t ga = Some t'"
      "focus t' (Nd RB_COLOR_RED (Nd RB_COLOR_RED u ga c) p (Nd RB_COLOR_RED a n b)) k"
      by (rule left_rot_focus [OF F])
    have "rb_rot t ga p n = Some (Some p, t')"
      using F t' by (auto simp: rb_rot_def focus_def dest: root_in)
    then show ?thesis by (intro that [OF _ t'(2)]) (use g s in auto)
  next
    case s: (InL cp p c)
    have "focus t (Nd RB_COLOR_RED u ga (Nd RB_COLOR_RED (Nd RB_COLOR_RED a n b) p c)) k" using f red g s by simp
    note F = this
    obtain t1 where t1: "rb_right_rot t p = Some t1"
      "focus t1 (Nd RB_COLOR_RED a n (Nd RB_COLOR_RED b p c)) (InR u RB_COLOR_RED ga # k)"
      by (rule right_rot_focus [OF F [unfolded focus_in(2) [of t _ u]]])
    obtain t' where t': "rb_left_rot t1 ga = Some t'"
      "focus t' (Nd RB_COLOR_RED (Nd RB_COLOR_RED u ga a) n (Nd RB_COLOR_RED b p c)) k"
      by (rule left_rot_focus [OF t1(2) [folded focus_in]])
    have "rb_rot t ga p n = Some (Some n, t')"
      using F t1(1) t' by (auto simp: rb_rot_def focus_def dest: root_in)
    then show ?thesis by (intro that [OF _ t'(2)]) (use g s in auto)
  qed
qed

text \<open>Setting colours at the grandparent and at the uncle.\<close>

lemma set_col_above:
  assumes "focus t T (s # k)"
  shows "\<exists>s'. focus (set_col t (saddr s) d) T (s' # k) \<and> saddr s' = saddr s \<and>
    stree s' = stree s \<and> scol s' = d \<and> (\<forall>T. nodes (fill T s') = nodes (fill T s))"
proof (cases s)
  case (InL c a r)
  with assms show ?thesis
    by (intro exI [of _ "InL d a r"]) (simp add: set_col_focus flip: focus_in)
next
  case (InR l c a)
  with assms show ?thesis
    by (intro exI [of _ "InR l d a"]) (simp add: set_col_focus flip: focus_in)
qed

lemma set_col_side:
  assumes "focus t T (s # k)" and "stree s = Nd c l u r"
  shows "\<exists>s'. focus (set_col t u d) T (s' # k) \<and> saddr s' = saddr s \<and> scol s' = scol s \<and>
    stree s' = Nd d l u r \<and> (\<forall>T. nodes (fill T s') = nodes (fill T s))"
proof (cases s)
  case s: (InL c' a r')
  then have "focus t (Nd c l u r) (InR T c' a # k)" using assms by (simp flip: focus_in)
  from set_col_focus [OF this, of d] show ?thesis
    using s assms(2) by (intro exI [of _ "InL c' a (Nd d l u r)"]) (simp flip: focus_in)
next
  case s: (InR l' c' a)
  then have "focus t (Nd c l u r) (InL c' a T # k)" using assms by (simp flip: focus_in)
  from set_col_focus [OF this, of d] show ?thesis
    using s assms(2) by (intro exI [of _ "InR (Nd d l u r) c' a"]) (simp flip: focus_in)
qed

lemma focus_reads:
  assumes "focus t T (s # k)" and "root_of T = Some a"
  shows "rb_parent (rb_nd t a) = Some (saddr s)" and "rb_col (rb_nd t (saddr s)) = scol s"
    and "rb_parent (rb_nd t (saddr s)) = ktop k"
    and "(if rb_left (rb_nd t (saddr s)) = Some a then rb_right (rb_nd t (saddr s)) else rb_left (rb_nd t (saddr s))) = root_of (stree s)"
    and "rb_color t (root_of (stree s)) = colour (stree s)"
proof -
  obtain c l r where T: "T = Nd c l a r" using assms(2) by (cases T) auto
  have ns: "root_of (stree s) \<noteq> Some a" using assms(1) T by (auto simp: focus_def dest!: root_in)
  show "rb_parent (rb_nd t a) = Some (saddr s)" using assms(1) T by (auto simp: focus_def)
  show "rb_col (rb_nd t (saddr s)) = scol s" "rb_parent (rb_nd t (saddr s)) = ktop k"
    using assms(1) by (cases s; auto simp: focus_def)+
  show "(if rb_left (rb_nd t (saddr s)) = Some a then rb_right (rb_nd t (saddr s)) else rb_left (rb_nd t (saddr s))) = root_of (stree s)"
    using assms(1) T ns by (cases s) (auto simp: focus_def)
  show "rb_color t (root_of (stree s)) = colour (stree s)"
    using assms(1) by (cases "stree s") (auto simp: focus_def rb_color_def)
qed

lemma plug_Lf: "plug T k = Lf \<longleftrightarrow> T = Lf \<and> k = []"
proof (induction k arbitrary: T)
  case (Cons s k)
  then show ?case by (cases s) auto
qed simp

lemma nodes_plug: "nodes T = nodes S \<Longrightarrow> nodes (plug T k) = nodes (plug S k)"
proof (induction k arbitrary: T S)
  case (Cons s k)
  then show ?case by (cases s) (auto intro!: Cons.IH)
qed simp

text \<open>One round at a red parent: what the code does next depends on the colour of the uncle.\<close>

lemma fixup_round:
  assumes f: "focus t (Nd RB_COLOR_RED l a r) (s # g # k)" and red: "scol s = RB_COLOR_RED"
    and f1: "focus (set_col t (saddr g) RB_COLOR_RED) (fill (Nd RB_COLOR_RED l a r) s) (g' # k)"
    and g': "saddr g' = saddr g" "stree g' = stree g"
  shows "rb_insert_fixup t a =
     (let t1 = set_col t (saddr g) RB_COLOR_RED in
      if colour (stree g) = RB_COLOR_RED
      then rb_insert_fixup (set_col (set_col t1 (the (root_of (stree g))) RB_COLOR_BLACK) (saddr s) RB_COLOR_BLACK) (saddr g)
      else (case rb_rot t1 (saddr g) (saddr s) a of None \<Rightarrow> None
        | Some (r, t2) \<Rightarrow> (case r of None \<Rightarrow> None | Some q \<Rightarrow> blacken_root (set_col t2 q RB_COLOR_BLACK))))"
proof -
  note rd = focus_reads [OF f root_of.simps(2)]
  note rd1 = focus_reads [OF f1 root_fill]
  have u: "root_of (stree g) \<noteq> None \<and> colour (stree g) = RB_COLOR_RED \<longleftrightarrow> colour (stree g) = RB_COLOR_RED"
    by (cases "stree g") auto
  show ?thesis
    by (subst rb_insert_fixup.simps)
      (simp add: Let_def rd(1-3) red rd1(4,5) [unfolded g'] u [simplified] split del: if_split cong: if_cong)
qed

lemma fixup_recolour:
  assumes f: "focus t1 (fill (Nd RB_COLOR_RED l a r) s) (g # k)" and red: "scol g = RB_COLOR_RED"
    and u: "stree g = Nd RB_COLOR_RED ul u ur"
  obtains s' g' where
    "focus (set_col (set_col t1 u RB_COLOR_BLACK) (saddr s) RB_COLOR_BLACK) (fill (fill (Nd RB_COLOR_RED l a r) s') g') k"
    "saddr g' = saddr g" "scol g' = RB_COLOR_RED" "stree g' = Nd RB_COLOR_BLACK ul u ur"
    "stree s' = stree s" "scol s' = RB_COLOR_BLACK"
    "nodes (fill (fill (Nd RB_COLOR_RED l a r) s') g') = nodes (fill (fill (Nd RB_COLOR_RED l a r) s) g)"
proof -
  let ?F = "Nd RB_COLOR_RED l a r"
  obtain g' where g': "focus (set_col t1 u RB_COLOR_BLACK) (fill ?F s) (g' # k)" "saddr g' = saddr g"
    "scol g' = RB_COLOR_RED" "stree g' = Nd RB_COLOR_BLACK ul u ur" "\<And>T. nodes (fill T g') = nodes (fill T g)"
    using set_col_side [OF f u, of RB_COLOR_BLACK] red by auto
  obtain s' where s': "focus (set_col (set_col t1 u RB_COLOR_BLACK) (saddr s) RB_COLOR_BLACK) ?F (s' # g' # k)"
    "stree s' = stree s" "scol s' = RB_COLOR_BLACK" "\<And>T. nodes (fill T s') = nodes (fill T s)"
    using set_col_above [OF g'(1) [unfolded focus_fill], of RB_COLOR_BLACK] by blast
  have "nodes (fill (fill ?F s') g') = nodes (fill (fill ?F s) g)"
    unfolding g'(5) using s'(4) [of ?F] by (cases g) auto
  with g' s' show ?thesis
    by (intro that [of s' g']) (simp_all add: focus_fill)
qed

lemma fixup_rotate:
  assumes f: "focus t1 (fill (fill (Nd RB_COLOR_RED l a r) s) g) k" and red: "scol s = RB_COLOR_RED" "scol g = RB_COLOR_RED"
    and ok: "\<forall>Z\<in>{l, r, stree s, stree g}. invc Z \<and> invh Z \<and> bheight Z = h \<and> colour Z = RB_COLOR_BLACK"
    and path: "path_ok (h + 1) k"
  obtains t2 q t' T' where "rb_rot t1 (saddr g) (saddr s) a = Some (Some q, t2)"
    and "blacken_root (set_col t2 q RB_COLOR_BLACK) = Some t'" and "holds t' T'" and "rb_valid T'"
    and "nodes T' = nodes (plug (fill (fill (Nd RB_COLOR_RED l a r) s) g) k)"
proof -
  obtain t2 q A x B C y D where rot: "rb_rot t1 (saddr g) (saddr s) a = Some (Some q, t2)"
    and F2: "focus t2 (Nd RB_COLOR_RED (Nd RB_COLOR_RED A x B) q (Nd RB_COLOR_RED C y D)) k"
    and N2: "nodes (Nd RB_COLOR_RED (Nd RB_COLOR_RED A x B) q (Nd RB_COLOR_RED C y D)) = nodes (fill (fill (Nd RB_COLOR_RED l a r) s) g)"
    and S2: "{A, B, C, D} = {l, r, stree s, stree g}"
    by (rule rot_focus [OF f red])
  let ?T = "Nd RB_COLOR_BLACK (Nd RB_COLOR_RED A x B) q (Nd RB_COLOR_RED C y D)"
  have v: "rb_valid (plug ?T k)"
    using ok path unfolding S2 [symmetric] by (intro plug_valid) auto
  have H: "holds (set_col t2 q RB_COLOR_BLACK) (plug ?T k)"
    using set_col_focus [OF F2, of RB_COLOR_BLACK] by (simp add: focus_holds)
  have "plug ?T k \<noteq> Lf" by (simp add: plug_Lf)
  then obtain t' T' where "blacken_root (set_col t2 q RB_COLOR_BLACK) = Some t'" "holds t' T'"
      "nodes T' = nodes (plug ?T k)" "rb_valid T'"
    by (rule blacken_valid [OF H v])
  with rot nodes_plug [of ?T _ k] N2 show ?thesis by (intro that [of q t2 t' T']) auto
qed

lemma insert_fixup:
  assumes "focus t (Nd RB_COLOR_RED l a r) k" and "path_ok h k"
    and "\<forall>Z\<in>{l, r}. invc Z \<and> invh Z \<and> bheight Z = h \<and> colour Z = RB_COLOR_BLACK"
  shows "\<exists>t' T'. rb_insert_fixup t a = Some t' \<and> holds t' T' \<and> nodes T' = nodes (plug (Nd RB_COLOR_RED l a r) k) \<and> rb_valid T'"
  using assms
proof (induction "length k" arbitrary: t l a r h k rule: less_induct)
  case less
  let ?F = "Nd RB_COLOR_RED l a r"
  note f = less.prems(1)
  have H: "holds t (plug ?F k)" using f by (simp add: focus_holds)
  consider (root) "k = []" | (black) s k1 where "k = s # k1" "scol s = RB_COLOR_BLACK"
    | (red) s g k2 where "k = s # g # k2" "scol s = RB_COLOR_RED"
    using less.prems(2) by (cases k; cases "tl k"; cases "scol (hd k)") auto
  then show ?case
  proof cases
    case root
    have "rb_parent (rb_nd t a) = None" using f root by (simp add: focus_def)
    moreover obtain t' T' where "blacken_root t = Some t'" "holds t' T'" "nodes T' = nodes ?F" "rb_valid T'"
      using blacken_holds [of t ?F] H less.prems root by (auto simp: rb_valid_def)
    ultimately show ?thesis using root by (subst rb_insert_fixup.simps) auto
  next
    case black
    note rd = focus_reads [OF f [unfolded black(1)] root_of.simps(2)]
    have "rb_valid (plug ?F k)"
      using less.prems black by (intro plug_valid) auto
    moreover have "plug ?F k \<noteq> Lf" by (simp add: plug_Lf)
    ultimately obtain t' T' where "blacken_root t = Some t'" "holds t' T'" "nodes T' = nodes (plug ?F k)" "rb_valid T'"
      by (rule blacken_valid [OF H])
    then show ?thesis using rd black by (subst rb_insert_fixup.simps) auto
  next
    case red
    then have gb: "scol g = RB_COLOR_BLACK" and path: "path_ok (h + 1) k2"
      and sides: "\<forall>Z\<in>{l, r, stree s}. invc Z \<and> invh Z \<and> bheight Z = h \<and> colour Z = RB_COLOR_BLACK"
        "invc (stree g)" "invh (stree g)" "bheight (stree g) = h"
      using less.prems by auto
    have "focus t (fill ?F s) (g # k2)" using f red by (simp add: focus_fill)
    from set_col_above [OF this, of RB_COLOR_RED] obtain g' where
      g': "focus (set_col t (saddr g) RB_COLOR_RED) (fill ?F s) (g' # k2)" "saddr g' = saddr g"
        "stree g' = stree g" "scol g' = RB_COLOR_RED" "\<And>T. nodes (fill T g') = nodes (fill T g)"
      by blast
    note round = fixup_round [OF f [unfolded red(1)] red(2) g'(1-3)]
    have N: "nodes (plug (fill (fill ?F s) g') k2) = nodes (plug ?F k)"
      using nodes_plug [OF g'(5) [of "fill ?F s"], of k2] red by simp
    show ?thesis
    proof (cases "colour (stree g)")
      case RB_COLOR_RED
      then obtain ul u ur where u: "stree g = Nd RB_COLOR_RED ul u ur" by (cases "stree g") auto
      obtain s2 g2 where g2: "focus (set_col (set_col (set_col t (saddr g) RB_COLOR_RED) u RB_COLOR_BLACK) (saddr s) RB_COLOR_BLACK)
          (fill (fill ?F s2) g2) k2" "saddr g2 = saddr g'" "scol g2 = RB_COLOR_RED" "stree g2 = Nd RB_COLOR_BLACK ul u ur"
          "stree s2 = stree s" "scol s2 = RB_COLOR_BLACK"
          "nodes (fill (fill ?F s2) g2) = nodes (fill (fill ?F s) g')"
        by (rule fixup_recolour [OF g'(1) g'(4) u [folded g'(3)]])
      have ok: "\<forall>Z\<in>{fill ?F s2, stree g2}. invc Z \<and> invh Z \<and> bheight Z = h + 1 \<and> colour Z = RB_COLOR_BLACK"
        using g2(4,5,6) sides u by (cases s2) auto
      obtain L R where LR: "fill (fill ?F s2) g2 = Nd RB_COLOR_RED L (saddr g) R" "{L, R} = {fill ?F s2, stree g2}"
        using g2(2,3) g'(2) by (cases g2) auto
      from less.hyps [OF _ g2(1) [unfolded LR(1)] path ok [folded LR(2)]] red
      show ?thesis
        unfolding round using u g2(7) N nodes_plug [OF g2(7), of k2] LR(1) by simp
    next
      case RB_COLOR_BLACK
      then have ok: "\<forall>Z\<in>{l, r, stree s, stree g'}. invc Z \<and> invh Z \<and> bheight Z = h \<and> colour Z = RB_COLOR_BLACK"
        using sides g'(3) by auto
      show ?thesis
        by (rule fixup_rotate [OF g'(1) [folded focus_fill] red(2) g'(4) ok path])
          (use round N RB_COLOR_BLACK g'(2) in auto)
    qed
  qed
qed

text \<open>The nodes before and after the hole of a path.\<close>

fun before :: "'a pstep list \<Rightarrow> 'a list" where
  "before [] = []"
| "before (InL c a r # k) = before k"
| "before (InR l c a # k) = before k @ nodes l @ [a]"

fun after :: "'a pstep list \<Rightarrow> 'a list" where
  "after [] = []"
| "after (InL c a r # k) = a # nodes r @ after k"
| "after (InR l c a # k) = after k"

lemma nodes_plug_eq: "nodes (plug T k) = before k @ nodes T @ after k"
proof (induction k arbitrary: T)
  case (Cons s k)
  then show ?case by (cases s) auto
qed simp

text \<open>The comparison a user passes orders the nodes by a key.\<close>

locale rb_order =
  fixes cmp :: "'a \<Rightarrow> 'a \<Rightarrow> int" and key :: "'a \<Rightarrow> 'k::linorder"
  assumes cmp_less: "cmp a b < 0 \<longleftrightarrow> key a < key b"
begin

lemma descend_focus:
  assumes "focus t (Nd c l p r) k" and "sorted (map key (nodes (plug (Nd c l p r) k)))"
    and "\<forall>x\<in>set (before k). key x \<le> key a" and "\<forall>x\<in>set (after k). key a < key x"
  shows "\<exists>s k'. rb_descend cmp t a p = Some (saddr s) \<and> plug Lf (s # k') = plug (Nd c l p r) k \<and>
     (cmp a (saddr s) < 0 \<longleftrightarrow> (\<exists>c b r. s = InL c b r)) \<and>
     (\<forall>x\<in>set (before (s # k')). key x \<le> key a) \<and> (\<forall>x\<in>set (after (s # k')). key a < key x)"
  using assms
proof (induction "Nd c l p r" arbitrary: c l p r k)
  case (Nd c l p r)
  have srt: "\<forall>x\<in>set (nodes l). key x \<le> key p" "\<forall>x\<in>set (nodes r). key p \<le> key x"
    using Nd.prems(2) by (auto simp: nodes_plug_eq sorted_append)
  have ptr: "rb_left (rb_nd t p) = root_of l" "rb_right (rb_nd t p) = root_of r"
    using Nd.prems(1) by (auto simp: focus_def)
  show ?case
  proof (cases "key a < key p")
    case True
    let ?k = "InL c p r # k"
    have k: "\<forall>x\<in>set (before ?k). key x \<le> key a" "\<forall>x\<in>set (after ?k). key a < key x"
      using Nd.prems(3,4) True srt by auto
    show ?thesis
    proof (cases l)
      case Lf
      then show ?thesis using True ptr k
        by (intro exI [of _ "InL c p r"] exI [of _ k]) (simp add: rb_descend.simps cmp_less)
    next
      case l: (Nd c' l' p' r')
      have "rb_descend cmp t a p = rb_descend cmp t a p'"
        using True ptr l by (simp add: rb_descend.simps [of _ _ _ p] cmp_less)
      with Nd.hyps(1) [of c' l' p' r' ?k] l Nd.prems(1,2) k show ?thesis
        by (simp flip: focus_in(1) [of t c _ p r])
    qed
  next
    case False
    let ?k = "InR l c p # k"
    have k: "\<forall>x\<in>set (before ?k). key x \<le> key a" "\<forall>x\<in>set (after ?k). key a < key x"
      using Nd.prems(3,4) False srt by auto
    show ?thesis
    proof (cases r)
      case Lf
      then show ?thesis using False ptr k
        by (intro exI [of _ "InR l c p"] exI [of _ k]) (simp add: rb_descend.simps cmp_less)
    next
      case r: (Nd c' l' p' r')
      have "rb_descend cmp t a p = rb_descend cmp t a p'"
        using False ptr r by (simp add: rb_descend.simps [of _ _ _ p] cmp_less)
      with Nd.hyps(2) [of c' l' p' r' ?k] r Nd.prems(1,2) k show ?thesis
        by (simp flip: focus_in(2) [of t c l p])
    qed
  qed
qed

text \<open>The new node is attached to the hole as a red leaf.\<close>

lemma attach:
  assumes f: "focus t Lf (s # k)" and fresh: "a \<notin> set (knodes (s # k))"
    and z: "rb_nd t a = zero_node" and dir: "cmp a (saddr s) < 0 \<longleftrightarrow> (\<exists>c b r. s = InL c b r)"
  shows "focus (let t1 = set_parent t a (Some (saddr s)) in
           if cmp a (saddr s) < 0 then set_left t1 (saddr s) (Some a) else set_right t1 (saddr s) (Some a))
         (Nd RB_COLOR_RED Lf a Lf) (s # k)"
  using f fresh z dir by (cases s) (auto simp: focus_def upd_defs zero_node_def)

lemma insert_holds:
  assumes h: "holds t T" and v: "rb_valid T" and srt: "sorted (map key (nodes T))" and fresh: "a \<notin> set (nodes T)"
  shows "\<exists>t' T' xs ys. rb_insert cmp t a = Some t' \<and> holds t' T' \<and> rb_valid T' \<and>
     nodes T = xs @ ys \<and> nodes T' = xs @ a # ys \<and> (\<forall>x\<in>set xs. key x \<le> key a) \<and> (\<forall>y\<in>set ys. key a < key y)"
proof (cases T)
  case Lf
  let ?t = "(set_col (upd_node t a (\<lambda>_. zero_node)) a RB_COLOR_BLACK)\<lparr>rb_root := Some a\<rparr>"
  have "rb_insert cmp t a = Some ?t"
    using h Lf by (simp add: rb_insert_def holds_def upd_defs)
  moreover have "holds ?t (Nd RB_COLOR_BLACK Lf a Lf)" "rb_valid (Nd RB_COLOR_BLACK Lf a Lf)"
    by (simp_all add: holds_def upd_defs zero_node_def rb_valid_def)
  ultimately show ?thesis
    using Lf by (intro exI [of _ ?t] exI [of _ "Nd RB_COLOR_BLACK Lf a Lf"] exI [of _ "[]"]) simp
next
  case T: (Nd c l p r)
  let ?t = "upd_node t a (\<lambda>_. zero_node)"
  have F0: "focus ?t (Nd c l p r) []"
    using h T fresh by (auto simp: focus_def holds_def upd_defs)
  have srt0: "sorted (map key (nodes (plug (Nd c l p r) [])))" using srt T by simp
  obtain s k where
    d: "rb_descend cmp ?t a p = Some (saddr s)" and pl: "plug Lf (s # k) = T"
    and dir: "cmp a (saddr s) < 0 \<longleftrightarrow> (\<exists>c b r. s = InL c b r)"
    and lo: "\<forall>x\<in>set (before (s # k)). key x \<le> key a" and hi: "\<forall>x\<in>set (after (s # k)). key a < key x"
    using descend_focus [OF F0 srt0, of a] unfolding before.simps(1) after.simps(1) plug.simps(1) T list.set(1) ball_empty by blast
  have N: "nodes T = before (s # k) @ after (s # k)"
    using nodes_plug_eq [of Lf "s # k"] pl by simp
  have "holds ?t T" using F0 T by (simp add: focus_holds)
  then have f: "focus ?t Lf (s # k)" unfolding focus_holds pl .
  moreover have "a \<notin> set (knodes (s # k))"
    using fresh mset_plug [of Lf "s # k"] unfolding pl by (metis add_0 mset.simps(1) nodes.simps(1) set_mset_mset)
  ultimately have F: "focus (let t1 = set_parent ?t a (Some (saddr s)) in
      if cmp a (saddr s) < 0 then set_left t1 (saddr s) (Some a) else set_right t1 (saddr s) (Some a))
      (Nd RB_COLOR_RED Lf a Lf) (s # k)"
    by (rule attach) (use dir in \<open>simp_all add: upd_defs\<close>)
  have "path_ok 0 (s # k)" using valid_plug [of Lf "s # k"] v pl by simp
  from insert_fixup [OF F this] obtain t' T' where
    "rb_insert_fixup (let t1 = set_parent ?t a (Some (saddr s)) in
      if cmp a (saddr s) < 0 then set_left t1 (saddr s) (Some a) else set_right t1 (saddr s) (Some a)) a = Some t'"
    "holds t' T'" "rb_valid T'" "nodes T' = before (s # k) @ a # after (s # k)"
    by (auto simp: nodes_plug_eq simp del: plug.simps)
  moreover have "rb_root ?t = Some p" using h T by (simp add: holds_def upd_node_def)
  ultimately show ?thesis using N lo hi d
    by (intro exI [of _ t'] exI [of _ T'] exI [of _ "before (s # k)"] exI [of _ "after (s # k)"]) (simp add: rb_insert_def Let_def)
qed

end

section \<open>Correctness of insertion\<close>

text \<open>
  (C13) \<open>rb_insert\<close> on a store that holds a red-black tree whose nodes are in key order always
  returns; it never follows a null pointer. The result is a red-black tree again, with the
  pointers, parent pointers and colours all in place, and its nodes in order are the old ones with
  the new node after all nodes of a smaller or equal key.
\<close>

theorem rb_insert_correct:
  fixes key :: "'a \<Rightarrow> 'k::linorder"
  assumes "\<And>a b. cmp a b < 0 \<longleftrightarrow> key a < key b"
    and "holds t T" and "rb_valid T" and "sorted (map key (nodes T))" and "a \<notin> set (nodes T)"
  shows "\<exists>t' T' xs ys. rb_insert cmp t a = Some t' \<and> holds t' T' \<and> rb_valid T' \<and>
     nodes T = xs @ ys \<and> nodes T' = xs @ a # ys \<and> (\<forall>x\<in>set xs. key x \<le> key a) \<and> (\<forall>y\<in>set ys. key a < key y)"
  using rb_order.insert_holds [OF rb_order.intro, of cmp key t T a] assms by blast

definition small_rbt :: "nat rb_tree" where
  "small_rbt = \<lparr>rb_root = Some 4, rb_nd = (\<lambda>_. zero_node)(
     4 := \<lparr>rb_left = Some 2, rb_right = Some 6, rb_parent = None, rb_col = RB_COLOR_BLACK\<rparr>,
     2 := \<lparr>rb_left = Some 1, rb_right = None, rb_parent = Some 4, rb_col = RB_COLOR_BLACK\<rparr>,
     1 := \<lparr>rb_left = None, rb_right = None, rb_parent = Some 2, rb_col = RB_COLOR_RED\<rparr>,
     6 := \<lparr>rb_left = None, rb_right = None, rb_parent = Some 4, rb_col = RB_COLOR_BLACK\<rparr>)\<rparr>"

definition small_ptree :: "nat ptree" where
  "small_ptree = Nd RB_COLOR_BLACK (Nd RB_COLOR_BLACK (Nd RB_COLOR_RED Lf 1 Lf) 2 Lf) 4 (Nd RB_COLOR_BLACK Lf 6 Lf)"

lemma small_rbt_ok: "holds small_rbt small_ptree" "rb_valid small_ptree"
  by (simp_all add: holds_def small_rbt_def small_ptree_def rb_valid_def)

text \<open>Inserting 0 below the red node 1 rotates; the result holds 0, 1, 2, 4, 6.\<close>

theorem rb_insert_witness:
  "\<exists>t' T' xs ys. rb_insert (\<lambda>a b. int a - int b) small_rbt 0 = Some t' \<and> holds t' T' \<and> rb_valid T' \<and>
     nodes small_ptree = xs @ ys \<and> nodes T' = xs @ 0 # ys \<and>
     (\<forall>x\<in>set xs. id x \<le> id (0 :: nat)) \<and> (\<forall>y\<in>set ys. id (0 :: nat) < id y)"
  by (rule rb_insert_correct)
    (use small_rbt_ok in \<open>simp_all add: small_ptree_def\<close>)

text \<open>
  The repair before a deletion handles a left child; for a right child it rotates the brother the
  same way although that one has no right child, and follows a null pointer.
\<close>

lemma rb_delete_right_child: "rb_delete small_rbt 6 = None"
  by (simp add: rb_delete_def rb_delete_fixup.simps delete_round_def small_rbt_def rb_color_def rb_brother_def
      rb_rot_branch_def rb_left_rot_def upd_defs)

end
