(* ===== verification/Memblock.thy ===== *)
theory Memblock
  imports Minus_Prelude
begin

text \<open>
  The boot-time physical memory map of \<open>kernel/mm/memblock.c\<close>: two arrays of 16 regions with
  their counts, and the lowest and highest address seen. Regions are added from the device tree,
  reserved ranges are carved out of them, and a bump allocator takes blocks from their fronts.
  Addresses are 64-bit words and every sum wraps as in the code.
\<close>

section \<open>State\<close>

record region =
  rbase :: u64
  rsize :: u64
  rflags :: u32

record memblock =
  memory :: "region list"
  memory_cnt :: nat
  reserved :: "region list"
  reserved_cnt :: nat
  memory_start :: u64
  memory_end :: u64

definition MEMBLOCK_MAX_MEMORY :: nat where "MEMBLOCK_MAX_MEMORY = 16"
definition MEMBLOCK_MAX_RESERVED :: nat where "MEMBLOCK_MAX_RESERVED = 16"
definition MEMBLOCK_KERNEL :: u32 where "MEMBLOCK_KERNEL = 1"
definition MEMBLOCK_DTB :: u32 where "MEMBLOCK_DTB = 2"

lemmas memblock_consts = MEMBLOCK_MAX_MEMORY_def MEMBLOCK_MAX_RESERVED_def
  MEMBLOCK_KERNEL_def MEMBLOCK_DTB_def

definition region0 :: region where
  "region0 = \<lparr>rbase = 0, rsize = 0, rflags = 0\<rparr>"

definition memblock0 :: memblock where
  "memblock0 = \<lparr>memory = replicate 16 region0, memory_cnt = 0, reserved = replicate 16 region0,
     reserved_cnt = 0, memory_start = NOT 0, memory_end = 0\<rparr>"

section \<open>Operations\<close>

definition memblock_add_memory :: "memblock \<Rightarrow> u64 \<Rightarrow> u64 \<Rightarrow> memblock" where
  "memblock_add_memory mb base sz =
     (if MEMBLOCK_MAX_MEMORY \<le> memory_cnt mb \<or> sz = 0 then mb
      else
        let mb1 = mb\<lparr>memory := (memory mb)[memory_cnt mb :=
                      \<lparr>rbase = base, rsize = sz, rflags = 0\<rparr>],
                    memory_cnt := memory_cnt mb + 1\<rparr>;
            mb2 = (if base < memory_start mb1 then mb1\<lparr>memory_start := base\<rparr> else mb1)
        in if memory_end mb2 < base + sz then mb2\<lparr>memory_end := base + sz\<rparr> else mb2)"

definition memblock_add_reserved :: "memblock \<Rightarrow> u64 \<Rightarrow> u64 \<Rightarrow> u32 \<Rightarrow> memblock" where
  "memblock_add_reserved mb base sz fl =
     (if MEMBLOCK_MAX_RESERVED \<le> reserved_cnt mb \<or> sz = 0 then mb
      else mb\<lparr>reserved := (reserved mb)[reserved_cnt mb :=
                 \<lparr>rbase = base, rsize = sz, rflags = fl\<rparr>],
              reserved_cnt := reserved_cnt mb + 1\<rparr>)"

text \<open>
  One pass of the carving loop at index \<open>i\<close>: the new state and whether the index stays (the code's
  \<open>i--\<close> after the last region was moved into this slot).
\<close>

definition carve_step :: "memblock \<Rightarrow> u64 \<Rightarrow> u64 \<Rightarrow> nat \<Rightarrow> memblock \<times> bool" where
  "carve_step mb rb re i =
     (let m = memory mb ! i; mbase = rbase m; mend = mbase + rsize m in
      if re \<le> mbase \<or> mend \<le> rb then (mb, False)
      else if rb \<le> mbase \<and> mend \<le> re then
        (mb\<lparr>memory := (memory mb)[i := memory mb ! (memory_cnt mb - 1)],
            memory_cnt := memory_cnt mb - 1\<rparr>, True)
      else if rb \<le> mbase \<and> re < mend then
        (mb\<lparr>memory := (memory mb)[i := m\<lparr>rbase := re, rsize := mend - re\<rparr>]\<rparr>, False)
      else if mbase < rb \<and> mend \<le> re then
        (mb\<lparr>memory := (memory mb)[i := m\<lparr>rsize := rb - mbase\<rparr>]\<rparr>, False)
      else
        let left_size = rb - mbase; right_size = mend - re;
            mb1 = mb\<lparr>memory := (memory mb)[i := m\<lparr>rsize := left_size\<rparr>]\<rparr>
        in if 0 < right_size \<and> memory_cnt mb1 < MEMBLOCK_MAX_MEMORY then
             (mb1\<lparr>memory := (memory mb1)[memory_cnt mb1 :=
                       (memory mb1 ! memory_cnt mb1)\<lparr>rbase := re, rsize := right_size\<rparr>],
                  memory_cnt := memory_cnt mb1 + 1\<rparr>, False)
           else (mb1, False))"

lemma carve_step_cnt:
  "carve_step mb rb re i = (mb', stay) \<Longrightarrow>
     (stay \<and> memory_cnt mb' = memory_cnt mb - 1) \<or>
     (\<not> stay \<and> (memory_cnt mb' = memory_cnt mb \<or>
                 memory_cnt mb' = memory_cnt mb + 1 \<and> memory_cnt mb < 16))"
  by (auto simp: carve_step_def Let_def memblock_consts split: if_splits)

function carve_loop :: "memblock \<Rightarrow> u64 \<Rightarrow> u64 \<Rightarrow> nat \<Rightarrow> memblock" where
  "carve_loop mb rb re i =
     (if i < memory_cnt mb then
        (case carve_step mb rb re i of
           (mb', stay) \<Rightarrow> carve_loop mb' rb re (if stay then i else Suc i))
      else mb)"
  by pat_completeness auto
termination
proof (relation "measure (\<lambda>(mb, rb, re, i). 2 * (max 16 (memory_cnt mb) - i) + memory_cnt mb)",
    goal_cases)
  case 1
  show ?case by simp
next
  case (2 mb rb re i mb' stay)
  then show ?case
    using carve_step_cnt [of mb rb re i mb' stay] by (auto simp: max_def)
qed

declare carve_loop.simps [simp del]

definition memblock_carve :: "memblock \<Rightarrow> u64 \<Rightarrow> u64 \<Rightarrow> memblock" where
  "memblock_carve mb rb re = (if re \<le> rb then mb else carve_loop mb rb re 0)"

definition memblock_carve_reserved :: "memblock \<Rightarrow> memblock" where
  "memblock_carve_reserved mb =
     fold (\<lambda>r s. memblock_carve s (rbase r) (rbase r + rsize r))
       (take (reserved_cnt mb) (reserved mb)) mb"

text \<open>
  The \<open>reg\<close> property is an array of big-endian 32-bit cells; \<open>fdt32_to_cpu\<close> swaps the bytes. With
  zero address and size cells the code's loop does not advance and never ends: \<open>None\<close>.
\<close>

definition fdt32_to_cpu :: "u32 \<Rightarrow> u32" where
  "fdt32_to_cpu x =
     push_bit 24 (x AND 255) OR push_bit 16 (drop_bit 8 x AND 255) OR
     push_bit 8 (drop_bit 16 x AND 255) OR (drop_bit 24 x AND 255)"

fun read_cells :: "u32 list \<Rightarrow> nat \<Rightarrow> nat \<Rightarrow> u64 \<Rightarrow> u64 option" where
  "read_cells reg i 0 acc = Some acc"
| "read_cells reg i (Suc n) acc =
     (case rd reg i of
        None \<Rightarrow> None
      | Some c \<Rightarrow> read_cells reg (Suc i) n (push_bit 32 acc + ucast (fdt32_to_cpu c)))"

function fdt_register_loop ::
  "memblock \<Rightarrow> u32 list \<Rightarrow> nat \<Rightarrow> nat \<Rightarrow> nat \<Rightarrow> nat \<Rightarrow> memblock option"
where
  "fdt_register_loop mb reg len ac sc i =
     (if i * 4 < len then
        if ac + sc = 0 then None
        else (case read_cells reg i ac 0 of
                None \<Rightarrow> None
              | Some addr \<Rightarrow>
                  (case read_cells reg (i + ac) sc 0 of
                     None \<Rightarrow> None
                   | Some sz \<Rightarrow>
                       fdt_register_loop (memblock_add_memory mb addr sz) reg len ac sc (i + ac + sc)))
      else Some mb)"
  by pat_completeness auto
termination
  by (relation "measure (\<lambda>(mb, reg, len, ac, sc, i). len - i)") auto

declare fdt_register_loop.simps [simp del]

definition memblock_fdt_register_one :: "memblock \<Rightarrow> u32 list \<Rightarrow> nat \<Rightarrow> nat \<Rightarrow> nat \<Rightarrow> memblock option" where
  "memblock_fdt_register_one mb reg len ac sc = fdt_register_loop mb reg len ac sc 0"

text \<open>
  The walk over the device tree sees, per node, its \<open>device_type\<close> string and its \<open>reg\<close> property
  with the property length, each possibly absent. Only nodes whose type starts with the letter m
  (109) are registered.
\<close>

type_synonym fdt_node = "bytes option \<times> (u32 list \<times> nat) option"

definition memblock_fdt_register_all :: "memblock \<Rightarrow> fdt_node list \<Rightarrow> nat \<Rightarrow> nat \<Rightarrow> memblock option" where
  "memblock_fdt_register_all mb nodes ac sc =
     fold (\<lambda>(ty, reg) acc. Option.bind acc (\<lambda>s.
        case ty of
          None \<Rightarrow> Some s
        | Some t \<Rightarrow>
            Option.bind (rd t 0) (\<lambda>c.
              if c \<noteq> 109 then Some s
              else (case reg of
                      None \<Rightarrow> Some s
                    | Some (cells, len) \<Rightarrow> memblock_fdt_register_one s cells len ac sc))))
       nodes (Some mb)"

text \<open>The statistics line: the sizes are summed in a 32-bit \<open>int\<close>, so the sum wraps.\<close>

definition memblock_stat :: "memblock \<Rightarrow> u32" where
  "memblock_stat mb = fold (\<lambda>r acc. acc + ucast (rsize r)) (take (memory_cnt mb) (memory mb)) 0"

definition memblock_init ::
  "u64 \<Rightarrow> u64 \<Rightarrow> u64 \<Rightarrow> fdt_node list \<Rightarrow> nat \<Rightarrow> nat \<Rightarrow> memblock \<Rightarrow> memblock option"
where
  "memblock_init image_end_pa dtb_base dtb_size nodes ac sc mb =
     map_option memblock_carve_reserved
       (memblock_fdt_register_all
          (memblock_add_reserved (memblock_add_reserved mb 0 image_end_pa MEMBLOCK_KERNEL)
             dtb_base dtb_size MEMBLOCK_DTB) nodes ac sc)"

text \<open>The bump allocator: the physical address, \<open>0\<close> for the null pointer, and the new state.\<close>

function alloc_loop :: "memblock \<Rightarrow> u64 \<Rightarrow> u64 \<Rightarrow> nat \<Rightarrow> u64 \<times> memblock" where
  "alloc_loop mb alloc_size align i =
     (if i < memory_cnt mb then
        let m = memory mb ! i;
            base0 = ALIGN_UP (rbase m) align;
            mend = rbase m + rsize m;
            base = (if base0 = 0 then align else base0)
        in if mend < base + alloc_size then alloc_loop mb alloc_size align (Suc i)
           else
             let mb1 = memblock_add_reserved mb base alloc_size 0;
                 nb = base + alloc_size
             in (base, mb1\<lparr>memory := (memory mb1)[i := m\<lparr>rbase := nb, rsize := mend - nb\<rparr>]\<rparr>)
      else (0, mb))"
  by pat_completeness auto
termination
  by (relation "measure (\<lambda>(mb, sz, al, i). memory_cnt mb - i)") auto

declare alloc_loop.simps [simp del]

definition memblock_alloc_aligned :: "memblock \<Rightarrow> u64 \<Rightarrow> u64 \<Rightarrow> u64 \<times> memblock" where
  "memblock_alloc_aligned mb sz align =
     (if sz = 0 then (0, mb) else alloc_loop mb (ALIGN_UP sz align) align 0)"

definition memblock_mem_start :: "memblock \<Rightarrow> u64" where
  "memblock_mem_start mb = memory_start mb"

definition memblock_mem_end :: "memblock \<Rightarrow> u64" where
  "memblock_mem_end mb = memory_end mb"

text \<open>
  \<open>memblock_map_all\<close>: the page-table mappings it asks for, in order, as (physical base, size); the
  virtual address of each is the physical one minus the load offset.
\<close>

definition memblock_map_all :: "memblock \<Rightarrow> u64 \<Rightarrow> (u64 \<times> u64 \<times> u64) list" where
  "memblock_map_all mb load_offset =
     map (\<lambda>r. (rbase r - load_offset, rbase r, rsize r)) (take (memory_cnt mb) (memory mb)) @
     map (\<lambda>r. (rbase r - load_offset, rbase r, rsize r))
       (filter (\<lambda>r. rflags r AND MEMBLOCK_KERNEL = 0) (take (reserved_cnt mb) (reserved mb)))"

section \<open>The memory a map describes\<close>

definition region_set :: "region \<Rightarrow> nat set" where
  "region_set r = {unat (rbase r) ..< unat (rbase r) + unat (rsize r)}"

definition live :: "memblock \<Rightarrow> region list" where
  "live mb = take (memory_cnt mb) (memory mb)"

definition mem_set :: "memblock \<Rightarrow> nat set" where
  "mem_set mb = (\<Union>r \<in> set (live mb). region_set r)"

text \<open>Well-formed: the arrays have 16 slots, the counts fit, no region runs past the address space.\<close>

definition region_ok :: "region \<Rightarrow> bool" where
  "region_ok r \<longleftrightarrow> unat (rbase r) + unat (rsize r) < 2 ^ 64"

definition memblock_wf :: "memblock \<Rightarrow> bool" where
  "memblock_wf mb \<longleftrightarrow>
     length (memory mb) = 16 \<and> memory_cnt mb \<le> 16 \<and>
     length (reserved mb) = 16 \<and> reserved_cnt mb \<le> 16 \<and> list_all region_ok (live mb)"

lemma region_end: "region_ok r \<Longrightarrow> unat (rbase r + rsize r) = unat (rbase r) + unat (rsize r)"
  by (simp add: region_ok_def unat_add_lem [THEN iffD1])

lemma wf_live: "memblock_wf mb \<Longrightarrow> length (live mb) = memory_cnt mb"
  by (simp add: memblock_wf_def live_def)

lemma live_nth: "memblock_wf mb \<Longrightarrow> i < memory_cnt mb \<Longrightarrow> live mb ! i = memory mb ! i"
  by (simp add: live_def)

lemma wf_region_ok: "memblock_wf mb \<Longrightarrow> i < memory_cnt mb \<Longrightarrow> region_ok (memory mb ! i)"
  by (metis live_nth list_all_length memblock_wf_def wf_live)

section \<open>Carving\<close>

text \<open>What one step does to the live regions.\<close>

definition contains_strictly :: "u64 \<Rightarrow> u64 \<Rightarrow> region \<Rightarrow> bool" where
  "contains_strictly rb re r \<longleftrightarrow> unat (rbase r) < unat rb \<and> unat re < unat (rbase r) + unat (rsize r)"

definition carve_range :: "u64 \<Rightarrow> u64 \<Rightarrow> nat set" where
  "carve_range rb re = {unat rb ..< unat re}"

text \<open>
  The live regions before and after one step, split at the region the step looks at. The last rule
  is the code's silent loss: the right part of a split is dropped when the array is full.
\<close>

inductive carved :: "u64 \<Rightarrow> u64 \<Rightarrow> region list \<Rightarrow> nat \<Rightarrow> region list \<Rightarrow> bool \<Rightarrow> bool" for rb re where
  keep: "region_set x \<inter> carve_range rb re = {} \<Longrightarrow>
     carved rb re (us @ x # vs) (length us) (us @ x # vs) False"
| drop_last: "region_set x \<subseteq> carve_range rb re \<Longrightarrow> carved rb re (us @ [x]) (length us) us True"
| drop_mid: "region_set x \<subseteq> carve_range rb re \<Longrightarrow>
     carved rb re (us @ x # vs @ [z]) (length us) (us @ z # vs) True"
| trim: "region_ok r \<Longrightarrow> region_set r = region_set x - carve_range rb re \<Longrightarrow>
     carved rb re (us @ x # vs) (length us) (us @ r # vs) False"
| split: "region_ok r \<Longrightarrow> region_ok q \<Longrightarrow> \<not> contains_strictly rb re q \<Longrightarrow>
     contains_strictly rb re x \<Longrightarrow> length (us @ x # vs) < 16 \<Longrightarrow>
     region_set r \<union> region_set q = region_set x - carve_range rb re \<Longrightarrow>
     carved rb re (us @ x # vs) (length us) (us @ r # vs @ [q]) False"
| lose: "region_ok r \<Longrightarrow> contains_strictly rb re x \<Longrightarrow> 16 \<le> length (us @ x # vs) \<Longrightarrow>
     region_set r \<subseteq> region_set x - carve_range rb re \<Longrightarrow>
     carved rb re (us @ x # vs) (length us) (us @ r # vs) False"

definition regions_set :: "region list \<Rightarrow> nat set" where
  "regions_set ls = (\<Union>r \<in> set ls. region_set r)"

lemma regions_set_simps [simp]:
  "regions_set [] = {}" "regions_set (x # xs) = region_set x \<union> regions_set xs"
  "regions_set (xs @ ys) = regions_set xs \<union> regions_set ys"
  by (auto simp: regions_set_def)

definition carve_pot :: "u64 \<Rightarrow> u64 \<Rightarrow> region list \<Rightarrow> nat \<Rightarrow> nat" where
  "carve_pot rb re ls i = length ls + length (filter (contains_strictly rb re) (drop i ls))"

lemma carved_regions: "carved rb re ls i ls' stay \<Longrightarrow> regions_set ls' \<subseteq> regions_set ls"
  by (induction rule: carved.induct) auto

lemma carved_ok: "carved rb re ls i ls' stay \<Longrightarrow> list_all region_ok ls \<Longrightarrow> list_all region_ok ls'"
  by (induction rule: carved.induct) auto

lemma carved_done:
  "carved rb re ls i ls' stay \<Longrightarrow> regions_set (take i ls) \<inter> carve_range rb re = {} \<Longrightarrow>
   regions_set (take (if stay then i else Suc i) ls') \<inter> carve_range rb re = {}"
  by (induction rule: carved.induct) auto

lemma carved_exact:
  "carved rb re ls i ls' stay \<Longrightarrow> carve_pot rb re ls i \<le> 16 \<Longrightarrow>
   regions_set ls - carve_range rb re \<subseteq> regions_set ls' \<and>
   carve_pot rb re ls' (if stay then i else Suc i) \<le> 16"
  by (induction rule: carved.induct) (auto simp: carve_pot_def split: if_splits)

lemma live_split:
  assumes "memblock_wf mb" and "i < memory_cnt mb"
  obtains us x vs rest where "memory mb = us @ x # vs @ rest" and "live mb = us @ x # vs"
    and "length us = i" and "memory_cnt mb = Suc (length us + length vs)" and "region_ok x"
proof -
  let ?m = "memory mb" and ?n = "memory_cnt mb"
  have l: "length (live mb) = ?n" using assms(1) by (rule wf_live)
  have e: "live mb = take i (live mb) @ live mb ! i # drop (Suc i) (live mb)"
    using assms(2) l by (simp add: id_take_nth_drop)
  have m: "?m = take i (live mb) @ live mb ! i # drop (Suc i) (live mb) @ drop ?n ?m"
    using e by (metis append_Cons append_assoc append_take_drop_id live_def)
  show thesis
    by (rule that [OF m e]) (use assms l wf_region_ok live_nth in auto)
qed

lemma carve_step_carved:
  assumes wf: "memblock_wf mb" and i: "i < memory_cnt mb" and lt: "unat rb < unat re"
    and st: "carve_step mb rb re i = (mb', stay)"
  shows "carved rb re (live mb) i (live mb') stay \<and> length (memory mb') = 16 \<and> memory_cnt mb' \<le> 16 \<and>
    reserved mb' = reserved mb \<and> reserved_cnt mb' = reserved_cnt mb \<and> memory_start mb' = memory_start mb \<and>
    memory_end mb' = memory_end mb"
proof -
  obtain us x vs rest where m: "memory mb = us @ x # vs @ rest" and l: "live mb = us @ x # vs"
    and u: "length us = i" and n: "memory_cnt mb = Suc (length us + length vs)" and ok: "region_ok x"
    using live_split [OF wf i] .
  have e: "unat (rbase x + rsize x) = unat (rbase x) + unat (rsize x)"
    by (rule region_end [OF ok])
  let ?stop = "rbase x + rsize x"
  have nth: "memory mb ! i = x" using m u by (simp add: nth_append)
  have len: "length (us @ x # vs @ rest) = 16" and c16: "memory_cnt mb \<le> 16"
    using wf m by (simp_all add: memblock_wf_def)
  have emax: "unat (rbase x) + unat (rsize x) < 2 ^ 64" using ok by (simp add: region_ok_def)
  note w = word_le_nat_alt word_less_nat_alt e
  note unf = carve_step_def Let_def nth
  note sets = region_set_def carve_range_def region_ok_def contains_strictly_def
  consider (out) "re \<le> rbase x \<or> ?stop \<le> rb"
    | (cover) "rb \<le> rbase x" "?stop \<le> re" "\<not> (re \<le> rbase x \<or> ?stop \<le> rb)"
    | (left) "rb \<le> rbase x" "re < ?stop" "\<not> (re \<le> rbase x \<or> ?stop \<le> rb)"
    | (right) "rbase x < rb" "?stop \<le> re" "\<not> (re \<le> rbase x \<or> ?stop \<le> rb)"
    | (mid) "rbase x < rb" "re < ?stop" "\<not> (re \<le> rbase x \<or> ?stop \<le> rb)"
    by fastforce
  then show ?thesis
  proof cases
    case out
    then have "region_set x \<inter> carve_range rb re = {}" by (auto simp: sets w)
    moreover have "mb' = mb" "\<not> stay" using st out by (auto simp: unf)
    ultimately show ?thesis
      using carved.keep [of x rb re us vs] l u len c16 m by simp
  next
    case cover
    have sub: "region_set x \<subseteq> carve_range rb re" using cover by (auto simp: sets w)
    have mb': "mb' = mb\<lparr>memory := (memory mb)[i := memory mb ! (memory_cnt mb - 1)],
       memory_cnt := memory_cnt mb - 1\<rparr>" "stay"
      using st cover by (auto simp: unf)
    show ?thesis
    proof (cases vs rule: rev_cases)
      case Nil
      then have "live mb' = us" using m u n mb' by (simp add: live_def)
      then show ?thesis
        using carved.drop_last [OF sub, of us] l u mb' Nil len c16 m by simp
    next
      case (snoc vs' z)
      then have "live mb' = us @ z # vs'"
        using m u n mb' by (simp add: live_def nth_append list_update_append)
      then show ?thesis
        using carved.drop_mid [OF sub, of us vs' z] l u mb' snoc len c16 m by simp
    qed
  next
    case left
    let ?r = "x\<lparr>rbase := re, rsize := ?stop - re\<rparr>"
    have "unat (?stop - re) = unat ?stop - unat re" using left by (simp add: unat_sub)
    then have r: "region_ok ?r" "region_set ?r = region_set x - carve_range rb re"
      using left emax by (auto simp: sets w)
    have mb': "mb' = mb\<lparr>memory := (memory mb)[i := ?r]\<rparr>" "\<not> stay"
      using st left left(2) [folded not_le] by (auto simp: unf)
    then have "live mb' = us @ ?r # vs" using m u n by (simp add: live_def list_update_append)
    then show ?thesis using carved.trim [OF r, of us vs] l u mb' len c16 m by simp
  next
    case right
    let ?r = "x\<lparr>rsize := rb - rbase x\<rparr>"
    have "unat (rb - rbase x) = unat rb - unat (rbase x)" using right by (simp add: unat_sub)
    then have r: "region_ok ?r" "region_set ?r = region_set x - carve_range rb re"
      using right emax by (auto simp: sets w)
    have mb': "mb' = mb\<lparr>memory := (memory mb)[i := ?r]\<rparr>" "\<not> stay"
      using st right right(1) [folded not_le] by (auto simp: unf)
    then have "live mb' = us @ ?r # vs" using m u n by (simp add: live_def list_update_append)
    then show ?thesis using carved.trim [OF r, of us vs] l u mb' len c16 m by simp
  next
    case mid
    let ?r = "x\<lparr>rsize := rb - rbase x\<rparr>"
    have d: "unat (rb - rbase x) = unat rb - unat (rbase x)" "unat (?stop - re) = unat ?stop - unat re"
      using mid by (simp_all add: unat_sub)
    then have r: "region_ok ?r" "region_set ?r \<subseteq> region_set x - carve_range rb re"
      using mid emax lt by (auto simp: sets w)
    have cs: "contains_strictly rb re x" using mid by (auto simp: sets w)
    have pos: "0 < ?stop - re" using d(2) mid by (simp add: w word_less_nat_alt)
    show ?thesis
    proof (cases "memory_cnt mb < 16")
      case True
      let ?q = "(rest ! 0)\<lparr>rbase := re, rsize := ?stop - re\<rparr>"
      have rest: "rest \<noteq> []" using True len n by auto
      then obtain y ys where y: "rest = y # ys" by (cases rest) auto
      have q: "region_ok ?q" "\<not> contains_strictly rb re ?q"
        "region_set ?r \<union> region_set ?q = region_set x - carve_range rb re"
        using d mid emax lt by (auto simp: sets w)
      have mb': "mb' = mb\<lparr>memory := (us @ ?r # vs @ ?q # ys), memory_cnt := memory_cnt mb + 1\<rparr>" "\<not> stay"
        using st mid mid(1) [folded not_le] mid(2) [folded not_le] pos True m u n y
        by (auto simp: unf memblock_consts list_update_append nth_append)
      then have "live mb' = us @ ?r # vs @ [?q]" using n by (simp add: live_def)
      then show ?thesis
        using carved.split [OF r(1) q(1,2) cs _ q(3), of us vs] l u mb' len c16 m n True y by simp
    next
      case False
      have mb': "mb' = mb\<lparr>memory := (memory mb)[i := ?r]\<rparr>" "\<not> stay"
        using st mid mid(1) [folded not_le] mid(2) [folded not_le] False by (auto simp: unf memblock_consts)
      then have "live mb' = us @ ?r # vs" using m u n by (simp add: live_def list_update_append)
      then show ?thesis
        using carved.lose [OF r(1) cs _ r(2), of us vs] l u mb' len c16 m n False by simp
    qed
  qed
qed

lemma mem_set_regions: "mem_set mb = regions_set (live mb)"
  by (simp add: mem_set_def regions_set_def)

lemma carve_loop_spec:
  "memblock_wf mb \<Longrightarrow> unat rb < unat re \<Longrightarrow> i \<le> memory_cnt mb \<Longrightarrow>
   regions_set (take i (live mb)) \<inter> carve_range rb re = {} \<Longrightarrow>
   memblock_wf (carve_loop mb rb re i) \<and>
   mem_set (carve_loop mb rb re i) \<subseteq> mem_set mb - carve_range rb re \<and>
   (carve_pot rb re (live mb) i \<le> 16 \<longrightarrow>
      mem_set mb - carve_range rb re \<subseteq> mem_set (carve_loop mb rb re i))"
proof (induction mb rb re i rule: carve_loop.induct)
  case (1 mb rb re i)
  show ?case
  proof (cases "i < memory_cnt mb")
    case False
    then have "take i (live mb) = live mb" using 1(2,4) by (simp add: wf_live)
    then show ?thesis
      using 1(2,5) False by (subst (1 2 3) carve_loop.simps) (auto simp: mem_set_regions)
  next
    case True
    obtain mb' stay where st: "carve_step mb rb re i = (mb', stay)" by fastforce
    note c = carve_step_carved [OF 1(2) True 1(3) st]
    then have cv: "carved rb re (live mb) i (live mb') stay" by blast
    have wf': "memblock_wf mb'"
      using c carved_ok [OF cv] 1(2) by (simp add: memblock_wf_def)
    let ?i = "if stay then i else Suc i"
    have le: "?i \<le> memory_cnt mb'" using carve_step_cnt [OF st] True by auto
    note IH = 1(1) [OF True st [symmetric] wf' 1(3) le carved_done [OF cv 1(5)]]
    have eq: "carve_loop mb rb re i = carve_loop mb' rb re ?i"
      using True st by (subst carve_loop.simps) simp
    show ?thesis
      unfolding eq using IH carved_regions [OF cv] carved_exact [OF cv]
      by (simp only: mem_set_regions) blast
  qed
qed

definition alloc_base :: "memblock \<Rightarrow> u64 \<Rightarrow> nat \<Rightarrow> u64" where
  "alloc_base mb align j =
     (let b = ALIGN_UP (rbase (memory mb ! j)) align in if b = 0 then align else b)"

definition region_stop :: "memblock \<Rightarrow> nat \<Rightarrow> u64" where
  "region_stop mb j = rbase (memory mb ! j) + rsize (memory mb ! j)"

definition alloc_take :: "memblock \<Rightarrow> u64 \<Rightarrow> u64 \<Rightarrow> nat \<Rightarrow> memblock" where
  "alloc_take mb asz p j =
     (memblock_add_reserved mb p asz 0)\<lparr>memory := (memory mb)[j :=
        (memory mb ! j)\<lparr>rbase := p + asz, rsize := region_stop mb j - (p + asz)\<rparr>]\<rparr>"

lemma alloc_loop_unfold:
  "alloc_loop mb asz align i =
     (if i < memory_cnt mb then
        if region_stop mb i < alloc_base mb align i + asz then alloc_loop mb asz align (Suc i)
        else (alloc_base mb align i, alloc_take mb asz (alloc_base mb align i) i)
      else (0, mb))"
proof -
  have "memory (memblock_add_reserved mb b z 0) = memory mb" for b z
    by (simp add: memblock_add_reserved_def)
  then show ?thesis
    by (subst alloc_loop.simps) (simp add: Let_def alloc_base_def region_stop_def alloc_take_def)
qed

lemma alloc_loop_spec:
  "alloc_loop mb asz align i = (p, mb') \<Longrightarrow>
     (p = 0 \<and> mb' = mb \<and>
        (\<forall>j. i \<le> j \<and> j < memory_cnt mb \<longrightarrow> region_stop mb j < alloc_base mb align j + asz)) \<or>
     (\<exists>j. i \<le> j \<and> j < memory_cnt mb \<and> p = alloc_base mb align j \<and>
        p + asz \<le> region_stop mb j \<and> mb' = alloc_take mb asz p j)"
proof (induction "memory_cnt mb - i" arbitrary: i)
  case 0
  then show ?case by (auto simp: alloc_loop_unfold [of mb asz align i])
next
  case (Suc k)
  have lt: "i < memory_cnt mb" using Suc.hyps(2) by simp
  note unf = Suc.prems [unfolded alloc_loop_unfold [of mb asz align i] if_P [OF lt]]
  show ?case
  proof (cases "region_stop mb i < alloc_base mb align i + asz")
    case True
    from Suc.hyps(2) have "k = memory_cnt mb - Suc i" by simp
    note IH = Suc.hyps(1) [OF this unf [unfolded if_P [OF True]]]
    then show ?thesis
    proof
      assume "p = 0 \<and> mb' = mb \<and>
        (\<forall>j. Suc i \<le> j \<and> j < memory_cnt mb \<longrightarrow> region_stop mb j < alloc_base mb align j + asz)"
      moreover have "i = j \<or> Suc i \<le> j" if "i \<le> j" for j using that by auto
      ultimately show ?thesis using True by metis
    next
      assume "\<exists>j. Suc i \<le> j \<and> j < memory_cnt mb \<and> p = alloc_base mb align j \<and>
        p + asz \<le> region_stop mb j \<and> mb' = alloc_take mb asz p j"
      then obtain j where "Suc i \<le> j \<and> j < memory_cnt mb \<and> p = alloc_base mb align j \<and>
        p + asz \<le> region_stop mb j \<and> mb' = alloc_take mb asz p j" by blast
      then show ?thesis by (intro disjI2 exI [of _ j] conjI) (elim conjE; simp only: Suc_leD)+
    qed
  next
    case False
    with unf have "p = alloc_base mb align i" "mb' = alloc_take mb asz p i" by auto
    moreover from this(1) False have "p + asz \<le> region_stop mb i" by (simp only: not_less)
    ultimately show ?thesis using lt by (intro disjI2 exI [of _ i]) simp
  qed
qed

section \<open>Properties\<close>

text \<open>
  Carving a reserved range removes it from the memory map and nothing but it: afterwards no
  region of the map meets the range and no memory is invented. Nothing outside the range is lost
  either, as long as the 16-entry array has room for the pieces of the regions that are split;
  without room the code drops the right piece.
\<close>

theorem memblock_carve_correct:
  assumes "memblock_wf mb"
  shows "memblock_wf (memblock_carve mb rb re) \<and>
     mem_set (memblock_carve mb rb re) \<subseteq> mem_set mb - {unat rb ..< unat re} \<and>
     (memory_cnt mb + length (filter (contains_strictly rb re) (live mb)) \<le> 16 \<longrightarrow>
        mem_set (memblock_carve mb rb re) = mem_set mb - {unat rb ..< unat re})"
proof (cases "re \<le> rb")
  case True
  then have "{unat rb ..< unat re} = {}" by (simp add: word_le_nat_alt)
  with True assms show ?thesis by (simp add: memblock_carve_def)
next
  case False
  then have "unat rb < unat re" by (simp add: word_le_nat_alt)
  from carve_loop_spec [OF assms this, of 0] False show ?thesis
    by (auto simp: memblock_carve_def carve_range_def carve_pot_def wf_live [OF assms])
qed

theorem memblock_carve_correct_witness:
  "let mb = memblock_add_memory memblock0 0x1000 0x9000 in
   memblock_wf mb \<and> mem_set (memblock_carve mb 0x3000 0x5000) = mem_set mb - {0x3000 ..< 0x5000}"
proof -
  let ?mb = "memblock_add_memory memblock0 0x1000 0x9000"
  have l: "live ?mb = [\<lparr>rbase = 0x1000, rsize = 0x9000, rflags = 0\<rparr>]" and c: "memory_cnt ?mb = 1"
    by (simp_all add: live_def memblock_add_memory_def memblock0_def memblock_consts Let_def
        take_update_swap take_Suc_conv_app_nth)
  have wf: "memblock_wf ?mb"
    using l by (simp add: memblock_wf_def memblock_add_memory_def memblock0_def memblock_consts
        region_ok_def Let_def)
  show ?thesis
    using memblock_carve_correct [OF wf, of "0x3000" "0x5000"] wf l c by (simp add: Let_def)
qed

text \<open>The live regions of a map do not overlap.\<close>

definition memblock_disjoint :: "memblock \<Rightarrow> bool" where
  "memblock_disjoint mb \<longleftrightarrow>
     (\<forall>i < memory_cnt mb. \<forall>j < memory_cnt mb. i \<noteq> j \<longrightarrow>
        region_set (memory mb ! i) \<inter> region_set (memory mb ! j) = {})"

lemma mem_set_nth: "memblock_wf mb \<Longrightarrow> mem_set mb = (\<Union>j < memory_cnt mb. region_set (memory mb ! j))"
  unfolding mem_set_def by (auto simp: set_conv_nth wf_live live_nth)

text \<open>What taking a block from the front part of one region does to the map.\<close>

lemma alloc_take_map:
  assumes wf: "memblock_wf mb" and dj: "memblock_disjoint mb" and j: "j < memory_cnt mb"
    and lo: "unat (rbase (memory mb ! j)) \<le> unat p"
    and sum: "unat (p + asz) = unat p + unat asz"
    and hi: "p + asz \<le> region_stop mb j"
  shows "{unat p ..< unat p + unat asz} \<subseteq> mem_set mb \<and> memblock_wf (alloc_take mb asz p j) \<and>
    memblock_disjoint (alloc_take mb asz p j) \<and>
    mem_set (alloc_take mb asz p j) \<subseteq> mem_set mb - {unat p ..< unat p + unat asz}"
proof -
  let ?m = "memory mb ! j" and ?t = "alloc_take mb asz p j"
  let ?r = "?m\<lparr>rbase := p + asz, rsize := region_stop mb j - (p + asz)\<rparr>"
  have stop: "unat (region_stop mb j) = unat (rbase ?m) + unat (rsize ?m)"
    unfolding region_stop_def by (rule region_end [OF wf_region_ok [OF wf j]])
  have rsz: "unat (rsize ?r) = unat (region_stop mb j) - unat (p + asz)"
    using hi by (simp add: unat_sub)
  have hi': "unat p + unat asz \<le> unat (rbase ?m) + unat (rsize ?m)"
    using hi by (simp add: word_le_nat_alt stop sum)
  have sub: "region_set ?r \<subseteq> region_set ?m - {unat p ..< unat p + unat asz}"
    using lo hi' rsz by (auto simp: region_set_def stop sum)
  have blk: "{unat p ..< unat p + unat asz} \<subseteq> region_set ?m"
    using lo hi' by (auto simp: region_set_def)
  have okr: "region_ok ?r"
    using wf_region_ok [OF wf j] rsz hi' by (simp add: region_ok_def stop sum)
  have t: "memory ?t = (memory mb)[j := ?r]" "memory_cnt ?t = memory_cnt mb"
    "length (reserved ?t) = length (reserved mb)" "reserved_cnt ?t \<le> 16"
    using wf by (auto simp: alloc_take_def memblock_add_reserved_def memblock_wf_def memblock_consts)
  have len: "length (memory mb) = 16" using wf by (simp add: memblock_wf_def)
  have jl: "j < length (memory mb)" using wf j by (simp add: memblock_wf_def)
  have nth: "memory ?t ! k = (if k = j then ?r else memory mb ! k)" for k
    using jl by (simp add: t nth_list_update)
  have "live ?t = (live mb)[j := ?r]" by (simp add: live_def t take_update_swap)
  then have wf': "memblock_wf ?t"
    using wf t okr len set_update_subset_insert [of "live mb" j ?r]
    by (auto simp: memblock_wf_def list_all_iff)
  have dj': "memblock_disjoint ?t"
    using dj sub unfolding memblock_disjoint_def t(2) nth by (auto 4 3)
  have "region_set (memory ?t ! k) \<subseteq> mem_set mb - {unat p ..< unat p + unat asz}" if "k < memory_cnt mb" for k
  proof (cases "k = j")
    case True
    with sub j show ?thesis by (auto simp: nth mem_set_nth [OF wf])
  next
    case False
    with dj that j have "region_set (memory mb ! k) \<inter> region_set ?m = {}"
      by (simp add: memblock_disjoint_def)
    with False blk that show ?thesis by (auto simp: nth mem_set_nth [OF wf])
  qed
  then have "mem_set ?t \<subseteq> mem_set mb - {unat p ..< unat p + unat asz}"
    by (auto simp: mem_set_nth [OF wf'] t)
  with wf' dj' blk j show ?thesis by (auto simp: mem_set_nth [OF wf])
qed

text \<open>Without wrap-around the chosen base is aligned and inside or above the region's start.\<close>

lemma alloc_base_aligned:
  assumes "n < 64" and "unat (rbase (memory mb ! j)) + 2 ^ n \<le> 2 ^ 64"
  shows "2 ^ n dvd unat (alloc_base mb (2 ^ n) j) \<and>
    unat (rbase (memory mb ! j)) \<le> unat (alloc_base mb (2 ^ n) j) \<and>
    unat (alloc_base mb (2 ^ n) j) \<le> unat (rbase (memory mb ! j)) + 2 ^ n \<and> alloc_base mb (2 ^ n) j \<noteq> 0"
proof -
  let ?x = "rbase (memory mb ! j)"
  have "(0::nat) < 2 ^ n" by simp
  then have "unat ?x + (2 ^ n - 1) < 2 ^ 64" using assms(2) by linarith
  then have up: "unat (ALIGN_UP ?x (2 ^ n)) = (unat ?x + (2 ^ n - 1)) div 2 ^ n * 2 ^ n"
    using assms(1) by (rule ALIGN_UP_unat [rotated])
  note b = round_up_nat_bounds [of "2 ^ n" "unat ?x"]
  have p: "unat (2 ^ n :: u64) = 2 ^ n" by (rule unat_power_two) (simp add: assms(1))
  have nz: "(2 ^ n :: u64) \<noteq> 0"
  proof
    assume "(2 ^ n :: u64) = 0"
    then have "unat (2 ^ n :: u64) = 0" by (simp only: unat_0)
    with p show False by simp
  qed
  show ?thesis
  proof (cases "ALIGN_UP ?x (2 ^ n) = 0")
    case True
    then have "unat ?x = 0" using up b(1) by simp
    then show ?thesis using True p nz by (simp add: alloc_base_def)
  next
    case False
    then show ?thesis
      using up b by (simp add: alloc_base_def Let_def)
  qed
qed

text \<open>
  The boot allocator returns a block of usable memory and takes it away: for a power-of-two
  alignment and regions far enough from the top of the address space, a non-null result is aligned,
  its \<open>size\<close> bytes (rounded up to the alignment) all lay in the memory map before the call, none of
  them does afterwards, no other memory is added, and the map stays well formed with disjoint
  regions. A null result means that no region had room for an aligned block, and changes nothing.
\<close>

theorem memblock_alloc_aligned_sound:
  assumes "memblock_wf mb" and "memblock_disjoint mb" and "n < 64" and "sz \<noteq> 0"
    and room: "\<forall>r \<in> set (live mb). unat (rbase r) + unat (rsize r) + unat sz + 2 ^ n + 2 ^ n \<le> 2 ^ 64"
    and small: "unat sz + 2 ^ n \<le> 2 ^ 64"
    and "memblock_alloc_aligned mb sz (2 ^ n) = (p, mb')"
  shows "if p = 0
     then mb' = mb \<and> (\<forall>j < memory_cnt mb. region_stop mb j < alloc_base mb (2 ^ n) j + ALIGN_UP sz (2 ^ n))
     else 2 ^ n dvd unat p \<and> unat sz \<le> unat (ALIGN_UP sz (2 ^ n)) \<and>
       {unat p ..< unat p + unat (ALIGN_UP sz (2 ^ n))} \<subseteq> mem_set mb \<and>
       mem_set mb' \<subseteq> mem_set mb - {unat p ..< unat p + unat (ALIGN_UP sz (2 ^ n))} \<and>
       memblock_wf mb' \<and> memblock_disjoint mb'"
proof -
  let ?a = "ALIGN_UP sz (2 ^ n)"
  have "(0::nat) < 2 ^ n" by simp
  then have "unat sz + (2 ^ n - 1) < 2 ^ 64" using small by linarith
  then have a: "unat ?a = (unat sz + (2 ^ n - 1)) div 2 ^ n * 2 ^ n"
    using assms(3) by (rule ALIGN_UP_unat [rotated])
  note asz = round_up_nat_bounds [of "2 ^ n" "unat sz", folded a]
  have loop: "alloc_loop mb ?a (2 ^ n) 0 = (p, mb')"
    using assms(4,7) by (simp add: memblock_alloc_aligned_def)
  have base: "unat (rbase (memory mb ! j)) + 2 ^ n + (unat sz + 2 ^ n) \<le> 2 ^ 64" if "j < memory_cnt mb" for j
  proof -
    have "memory mb ! j \<in> set (live mb)"
      using that wf_live [OF assms(1)] live_nth [OF assms(1)] by (metis nth_mem)
    with room show ?thesis by fastforce
  qed
  show ?thesis
  proof (cases "p = 0")
    case True
    have "alloc_base mb (2 ^ n) j \<noteq> 0" if "j < memory_cnt mb" for j
      using alloc_base_aligned [OF assms(3), of mb j] base [OF that] by auto
    with True alloc_loop_spec [OF loop] show ?thesis by auto
  next
    case False
    then obtain j where j: "j < memory_cnt mb" and p: "p = alloc_base mb (2 ^ n) j"
      and hi: "p + ?a \<le> region_stop mb j" and mb': "mb' = alloc_take mb ?a p j"
      using alloc_loop_spec [OF loop] by auto
    have al: "2 ^ n dvd unat p" "unat (rbase (memory mb ! j)) \<le> unat p"
      "unat p \<le> unat (rbase (memory mb ! j)) + 2 ^ n"
      using alloc_base_aligned [OF assms(3), of mb j] base [OF j] by (auto simp: p)
    have "unat p + unat ?a < 2 ^ 64" using al(3) base [OF j] asz(2) by simp
    then have sum: "unat (p + ?a) = unat p + unat ?a" by (simp add: unat_add_lem [THEN iffD1])
    from alloc_take_map [OF assms(1,2) j al(2) sum hi] al(1) asz(1) False mb' show ?thesis by simp
  qed
qed

theorem memblock_alloc_aligned_witness:
  "\<exists>p mb'. memblock_alloc_aligned (memblock_add_memory memblock0 0x1800 0x9000) 0x100 (2 ^ 12) = (p, mb') \<and>
     p = 0x2000 \<and> 0x2000 \<notin> mem_set mb' \<and> 0x2000 \<in> mem_set (memblock_add_memory memblock0 0x1800 0x9000)"
proof -
  let ?mb = "memblock_add_memory memblock0 0x1800 0x9000"
  have l: "live ?mb = [\<lparr>rbase = 0x1800, rsize = 0x9000, rflags = 0\<rparr>]" and c: "memory_cnt ?mb = 1"
    by (simp_all add: live_def memblock_add_memory_def memblock0_def memblock_consts Let_def
        take_update_swap take_Suc_conv_app_nth)
  have m0: "memory ?mb ! 0 = \<lparr>rbase = 0x1800, rsize = 0x9000, rflags = 0\<rparr>"
    by (simp add: memblock_add_memory_def memblock0_def memblock_consts Let_def)
  have wf: "memblock_wf ?mb" and dj: "memblock_disjoint ?mb"
    using l c by (simp_all add: memblock_wf_def memblock_disjoint_def memblock_add_memory_def
        memblock0_def memblock_consts region_ok_def Let_def)
  have f: "fst (memblock_alloc_aligned ?mb 0x100 (2 ^ 12)) = 0x2000"
    by (simp add: memblock_alloc_aligned_def alloc_loop_unfold c alloc_base_def region_stop_def m0
        ALIGN_UP_def Let_def)
  obtain p mb' where r: "memblock_alloc_aligned ?mb 0x100 (2 ^ 12) = (p, mb')" by fastforce
  with f have p: "p = 0x2000" by simp
  have "\<forall>r \<in> set (live ?mb). unat (rbase r) + unat (rsize r) + unat (0x100 :: u64) + 2 ^ 12 + 2 ^ 12 \<le> 2 ^ 64"
    by (simp add: l)
  from memblock_alloc_aligned_sound [OF wf dj _ _ this _ r] p
  have "{0x2000 ..< 0x2000 + unat (ALIGN_UP 0x100 (2 ^ 12))} \<subseteq> mem_set ?mb \<and>
    mem_set mb' \<subseteq> mem_set ?mb - {0x2000 ..< 0x2000 + unat (ALIGN_UP 0x100 (2 ^ 12))}" by simp
  moreover have "unat (ALIGN_UP 0x100 (2 ^ 12)) = 0x1000" by (simp add: ALIGN_UP_def)
  ultimately have "0x2000 \<notin> mem_set mb' \<and> 0x2000 \<in> mem_set ?mb" by auto
  with r p show ?thesis by blast
qed

end
