(* ===== verification/Cap.thy ===== *)
theory Cap
  imports Minus_Prelude
begin

text \<open>
  The capability table of \<open>kernel/core/service/cap.c\<close>: 4096 slots, slot 0 never used, the free
  slots chained through \<open>next_free\<close> and built lazily on the first allocation. A token is the slot
  index in the low word and a generation number in the high word. The locale \<open>cap_space\<close> is the
  contract the other subsystems rely on: the table is a finite map from tokens to objects with
  rights. Objects are \<open>'o option\<close>, with \<open>None\<close> for the null pointer.
\<close>

section \<open>State\<close>

type_synonym cap_t = u64

record 'o cap_entry =
  ce_obj :: "'o option"
  ce_rights :: u64
  ce_generation :: u32
  ce_next_free :: nat
  ce_used :: bool

record 'o cap_state =
  cap_table :: "nat \<Rightarrow> 'o cap_entry"
  cap_next_generation :: u32
  cap_free_head :: nat
  cap_free_inited :: bool

definition CAP_TABLE_SIZE :: nat where "CAP_TABLE_SIZE = 4096"
definition CAP_NULL :: cap_t where "CAP_NULL = 0"

definition CAP_R_READ :: u64 where "CAP_R_READ = 1"
definition CAP_R_WRITE :: u64 where "CAP_R_WRITE = 2"
definition CAP_R_EXEC :: u64 where "CAP_R_EXEC = 4"
definition CAP_R_MAP :: u64 where "CAP_R_MAP = 8"
definition CAP_R_CTL :: u64 where "CAP_R_CTL = 16"

lemmas cap_consts = CAP_TABLE_SIZE_def CAP_NULL_def
lemmas cap_right_defs = CAP_R_READ_def CAP_R_WRITE_def CAP_R_EXEC_def CAP_R_MAP_def CAP_R_CTL_def

definition cap_entry0 :: "'o cap_entry" where
  "cap_entry0 = \<lparr>ce_obj = None, ce_rights = 0, ce_generation = 0, ce_next_free = 0, ce_used = False\<rparr>"

definition cap_state0 :: "'o cap_state" where
  "cap_state0 = \<lparr>cap_table = (\<lambda>_. cap_entry0), cap_next_generation = 1, cap_free_head = 0,
     cap_free_inited = False\<rparr>"

section \<open>Operations\<close>

definition cap_free_list_init :: "'o cap_state \<Rightarrow> 'o cap_state" where
  "cap_free_list_init s =
     (let t1 = fold (\<lambda>i t. t(i := (t i)\<lparr>ce_next_free := i + 1\<rparr>)) [1 ..< CAP_TABLE_SIZE - 1] (cap_table s);
          t2 = t1(CAP_TABLE_SIZE - 1 := (t1 (CAP_TABLE_SIZE - 1))\<lparr>ce_next_free := 0\<rparr>)
      in s\<lparr>cap_table := t2, cap_free_head := 1, cap_free_inited := True\<rparr>)"

definition cap_index :: "cap_t \<Rightarrow> u32" where
  "cap_index c = ucast (c AND 0xffffffff)"

definition cap_generation :: "cap_t \<Rightarrow> u32" where
  "cap_generation c = ucast (drop_bit 32 c)"

definition cap_make :: "u32 \<Rightarrow> u32 \<Rightarrow> cap_t" where
  "cap_make idx gen = push_bit 32 (ucast gen) OR ucast idx"

definition cap_alloc :: "'o cap_state \<Rightarrow> 'o option \<Rightarrow> u64 \<Rightarrow> cap_t \<times> 'o cap_state" where
  "cap_alloc s obj rights =
     (if obj = None then (CAP_NULL, s)
      else
        let s1 = (if \<not> cap_free_inited s then cap_free_list_init s else s);
            idx = cap_free_head s1
        in if idx = 0 then (CAP_NULL, s1)
           else
             let e = cap_table s1 idx;
                 s2 = s1\<lparr>cap_free_head := ce_next_free e\<rparr>;
                 gen0 = cap_next_generation s2;
                 s3 = s2\<lparr>cap_next_generation := cap_next_generation s2 + 1\<rparr>;
                 gen = (if gen0 = 0 then cap_next_generation s3 else gen0);
                 s4 = (if gen0 = 0 then s3\<lparr>cap_next_generation := cap_next_generation s3 + 1\<rparr> else s3);
                 e' = e\<lparr>ce_obj := obj, ce_rights := rights, ce_generation := gen, ce_used := True\<rparr>
             in (cap_make (of_nat idx) gen, s4\<lparr>cap_table := (cap_table s4)(idx := e')\<rparr>))"

definition cap_resolve :: "'o cap_state \<Rightarrow> cap_t \<Rightarrow> u64 \<Rightarrow> 'o option" where
  "cap_resolve s c required =
     (let idx = unat (cap_index c); gen = cap_generation c in
      if c = CAP_NULL \<or> idx = 0 \<or> CAP_TABLE_SIZE \<le> idx then None
      else
        let e = cap_table s idx in
        if \<not> ce_used e \<or> ce_generation e \<noteq> gen then None
        else if ce_rights e AND required \<noteq> required then None
        else ce_obj e)"

definition cap_free :: "'o cap_state \<Rightarrow> cap_t \<Rightarrow> 'o cap_state" where
  "cap_free s c =
     (let idx = unat (cap_index c); gen = cap_generation c in
      if c = CAP_NULL \<or> idx = 0 \<or> CAP_TABLE_SIZE \<le> idx then s
      else
        let e = cap_table s idx in
        if \<not> ce_used e \<or> ce_generation e \<noteq> gen then s
        else s\<lparr>cap_table := (cap_table s)(idx :=
                  e\<lparr>ce_used := False, ce_obj := None, ce_rights := 0,
                    ce_next_free := cap_free_head s\<rparr>),
               cap_free_head := idx\<rparr>)"

section \<open>The free chain and the invariant\<close>

text \<open>\<open>chain t h xs\<close>: following \<open>next_free\<close> from \<open>h\<close> visits exactly \<open>xs\<close> and ends in 0.\<close>

fun chain :: "(nat \<Rightarrow> 'o cap_entry) \<Rightarrow> nat \<Rightarrow> nat list \<Rightarrow> bool" where
  "chain t h [] = (h = 0)"
| "chain t h (x # xs) = (h = x \<and> x \<noteq> 0 \<and> chain t (ce_next_free (t x)) xs)"

definition cap_inv :: "'o cap_state \<Rightarrow> bool" where
  "cap_inv s \<longleftrightarrow>
     (\<forall>i. ce_used (cap_table s i) \<longrightarrow>
        0 < i \<and> i < CAP_TABLE_SIZE \<and> ce_obj (cap_table s i) \<noteq> None \<and>
        ce_generation (cap_table s i) \<noteq> 0) \<and>
     (if cap_free_inited s then
        (\<exists>xs. chain (cap_table s) (cap_free_head s) xs \<and> distinct xs \<and>
           set xs = {i. 0 < i \<and> i < CAP_TABLE_SIZE \<and> \<not> ce_used (cap_table s i)})
      else (\<forall>i. \<not> ce_used (cap_table s i)))"

lemma cap_inv_init: "cap_inv cap_state0"
  by (simp add: cap_inv_def cap_state0_def cap_entry0_def)

lemma chain_frame:
  "\<forall>i \<in> set xs. ce_next_free (t' i) = ce_next_free (t i) \<Longrightarrow> chain t' h xs = chain t h xs"
  by (induction xs arbitrary: h) auto

lemma fold_next_free:
  "fold (\<lambda>i t. t(i := (t i)\<lparr>ce_next_free := i + 1\<rparr>)) [a ..< b] t =
     (\<lambda>i. if a \<le> i \<and> i < b then (t i)\<lparr>ce_next_free := i + 1\<rparr> else t i)"
  by (induction b) (auto simp: fun_eq_iff less_Suc_eq)

lemma chain_upto:
  assumes "\<forall>i. a \<le> i \<and> i < n \<longrightarrow> ce_next_free (t i) = (if i = n - 1 then 0 else i + 1)"
    and "a < n" and "0 < a"
  shows "chain t a [a ..< n]"
  using assms
proof (induction "n - a" arbitrary: a)
  case 0
  then show ?case by simp
next
  case (Suc k)
  show ?case
  proof (cases "a = n - 1")
    case True
    with Suc.prems show ?thesis by (simp add: upt_conv_Cons)
  next
    case False
    with Suc have "chain t (a + 1) [a + 1 ..< n]" by auto
    with Suc.prems False show ?thesis by (simp add: upt_conv_Cons)
  qed
qed

lemma free_list_init_table:
  "cap_table (cap_free_list_init s) i =
     (if 1 \<le> i \<and> i < 4096
      then (cap_table s i)\<lparr>ce_next_free := (if i = 4095 then 0 else i + 1)\<rparr> else cap_table s i)"
  unfolding cap_free_list_init_def fold_next_free Let_def by (auto simp: cap_consts)

lemma free_list_init_fields:
  "cap_free_head (cap_free_list_init s) = 1" "cap_free_inited (cap_free_list_init s)"
  "cap_next_generation (cap_free_list_init s) = cap_next_generation s"
  by (simp_all add: cap_free_list_init_def Let_def)

lemma cap_inv_free_list_init:
  assumes "cap_inv s" and "\<not> cap_free_inited s"
  shows "cap_inv (cap_free_list_init s)" and "cap_free_inited (cap_free_list_init s)"
proof -
  have u: "\<not> ce_used (cap_table s i)" for i
    using assms by (simp add: cap_inv_def)
  have h: "cap_free_head (cap_free_list_init s) = 1" "cap_free_inited (cap_free_list_init s)"
    by (simp_all add: free_list_init_fields)
  have "chain (cap_table (cap_free_list_init s)) 1 [1 ..< 4096]"
    by (rule chain_upto) (simp_all add: free_list_init_table)
  moreover have "\<not> ce_used (cap_table (cap_free_list_init s) i)" for i
    using u by (simp add: free_list_init_table)
  moreover have "set [1 ..< 4096] = {i. 0 < i \<and> i < (4096 :: nat)}" by auto
  ultimately show "cap_inv (cap_free_list_init s)"
    unfolding cap_inv_def cap_consts h by (simp only: if_True) (metis distinct_upt)
  show "cap_free_inited (cap_free_list_init s)" by (rule h)
qed

section \<open>The map a table stands for\<close>

text \<open>\<open>cap_view s c\<close>: the object and rights token \<open>c\<close> names, if it is valid.\<close>

definition cap_view :: "'o cap_state \<Rightarrow> cap_t \<Rightarrow> ('o \<times> u64) option" where
  "cap_view s c =
     (let idx = unat (cap_index c); e = cap_table s idx in
      if 0 < idx \<and> idx < CAP_TABLE_SIZE \<and> ce_used e \<and> ce_generation e = cap_generation c
      then map_option (\<lambda>obj. (obj, ce_rights e)) (ce_obj e) else None)"

definition cap_pending :: "'o cap_state \<Rightarrow> 'o cap_state" where
  "cap_pending s = (if \<not> cap_free_inited s then cap_free_list_init s else s)"

lemma cap_pending_inv: "cap_inv s \<Longrightarrow> cap_inv (cap_pending s) \<and> cap_free_inited (cap_pending s)"
  by (simp add: cap_pending_def cap_inv_free_list_init)

lemma cap_pending_view: "cap_view (cap_pending s) = cap_view s"
  by (auto simp: cap_pending_def cap_view_def free_list_init_table Let_def fun_eq_iff cap_consts)

lemma mask32: "(0xffffffff :: u64) = mask 32"
  by (simp add: mask_eq_exp_minus_1)

lemma bit_u32: "bit (w :: u32) n \<Longrightarrow> n < 32"
  using bit_imp_le_length [of w n] by simp

lemma ucast_u32_u64_u32 [simp]: "ucast (ucast (w :: u32) :: u64) = w"
  by (rule bit_eqI) (auto simp: bit_simps dest: bit_u32)

lemma cap_index_make: "cap_index (cap_make idx gen) = idx"
proof -
  have "(push_bit 32 (ucast gen) OR ucast idx :: u64) AND mask 32 = ucast idx"
    by (rule bit_eqI) (auto simp: bit_simps dest: bit_u32)
  then show ?thesis
    unfolding cap_index_def cap_make_def mask32 by (simp only: ucast_u32_u64_u32)
qed

lemma cap_generation_make: "cap_generation (cap_make idx gen) = gen"
proof -
  have "drop_bit 32 (push_bit 32 (ucast gen) OR ucast idx :: u64) = ucast gen"
    by (rule bit_eqI) (auto simp: bit_simps dest: bit_u32)
  then show ?thesis
    unfolding cap_generation_def cap_make_def by (simp only: ucast_u32_u64_u32)
qed

lemma cap_make_split: "cap_make (cap_index c) (cap_generation c) = c"
  by (rule bit_eqI) (auto simp: bit_simps cap_make_def cap_index_def cap_generation_def mask32
      dest: bit_imp_le_length)

lemma cap_eqI: "cap_index c = cap_index d \<Longrightarrow> cap_generation c = cap_generation d \<Longrightarrow> c = d"
  by (metis cap_make_split)

lemma cap_resolve_view:
  assumes "cap_inv s"
  shows "cap_resolve s c req =
    (case cap_view s c of None \<Rightarrow> None | Some (obj, rights) \<Rightarrow>
       if rights AND req = req then Some obj else None)"
proof -
  have "cap_index CAP_NULL = 0"
    by (simp add: cap_index_def cap_consts)
  then show ?thesis
    using assms by (auto simp: cap_resolve_def cap_view_def cap_inv_def Let_def split: option.splits)
qed

text \<open>The generation an allocation uses skips 0.\<close>

definition next_gen :: "u32 \<Rightarrow> u32" where
  "next_gen g = (if g = 0 then 1 else g)"

lemma cap_alloc_None [simp]: "cap_alloc s None rights = (CAP_NULL, s)"
  by (simp add: cap_alloc_def)

lemma cap_alloc_eq:
  "cap_alloc s (Some obj) rights =
     (let s1 = cap_pending s; idx = cap_free_head s1; gen = next_gen (cap_next_generation s1);
          e = cap_table s1 idx in
      if idx = 0 then (CAP_NULL, s1)
      else (cap_make (of_nat idx) gen,
            s1\<lparr>cap_free_head := ce_next_free e, cap_next_generation := gen + 1,
               cap_table := (cap_table s1)(idx := e\<lparr>ce_obj := Some obj, ce_rights := rights,
                 ce_generation := gen, ce_used := True\<rparr>)\<rparr>))"
  by (auto simp: cap_alloc_def cap_pending_def next_gen_def Let_def)

lemma unat_index: "idx < CAP_TABLE_SIZE \<Longrightarrow> unat (of_nat idx :: u32) = idx"
  by (simp add: unat_of_nat cap_consts)

lemma cap_inv_head:
  assumes "cap_inv s" and "cap_free_inited s" and "cap_free_head s \<noteq> 0"
  obtains xs where "chain (cap_table s) (cap_free_head s) (cap_free_head s # xs)"
    and "distinct (cap_free_head s # xs)" and "cap_free_head s < CAP_TABLE_SIZE"
    and "\<not> ce_used (cap_table s (cap_free_head s))"
    and "set (cap_free_head s # xs) = {i. 0 < i \<and> i < CAP_TABLE_SIZE \<and> \<not> ce_used (cap_table s i)}"
proof -
  from assms obtain ys where c: "chain (cap_table s) (cap_free_head s) ys" and d: "distinct ys"
    and set: "set ys = {i. 0 < i \<and> i < CAP_TABLE_SIZE \<and> \<not> ce_used (cap_table s i)}"
    by (auto simp: cap_inv_def)
  with assms(3) obtain xs where y: "ys = cap_free_head s # xs" by (cases ys) auto
  then have "cap_free_head s \<in> set ys" by simp
  with set have "cap_free_head s < CAP_TABLE_SIZE" "\<not> ce_used (cap_table s (cap_free_head s))"
    by auto
  with that c d set y show thesis by blast
qed

lemma cap_alloc_inv:
  assumes "cap_inv s"
  shows "cap_inv (snd (cap_alloc s obj rights))"
proof (cases obj)
  case None
  then show ?thesis using assms by (simp add: cap_alloc_def)
next
  case (Some ob)
  let ?s1 = "cap_pending s"
  have inv: "cap_inv ?s1" and ini: "cap_free_inited ?s1"
    using cap_pending_inv [OF assms] by auto
  show ?thesis
  proof (cases "cap_free_head ?s1 = 0")
    case True
    with Some inv show ?thesis by (simp add: cap_alloc_eq Let_def)
  next
    case False
    let ?h = "cap_free_head ?s1" and ?g = "next_gen (cap_next_generation ?s1)"
    obtain xs where c: "chain (cap_table ?s1) ?h (?h # xs)" and d: "distinct (?h # xs)"
      and lt: "?h < CAP_TABLE_SIZE" and un: "\<not> ce_used (cap_table ?s1 ?h)"
      and set: "set (?h # xs) = {i. 0 < i \<and> i < CAP_TABLE_SIZE \<and> \<not> ce_used (cap_table ?s1 i)}"
      using cap_inv_head [OF inv ini False] by blast
    let ?t = "(cap_table ?s1)(?h := (cap_table ?s1 ?h)\<lparr>ce_obj := Some ob, ce_rights := rights,
                 ce_generation := ?g, ce_used := True\<rparr>)"
    have "chain ?t (ce_next_free (cap_table ?s1 ?h)) xs"
      using c d chain_frame [of xs ?t "cap_table ?s1"] by auto
    moreover have "set xs = {i. 0 < i \<and> i < CAP_TABLE_SIZE \<and> \<not> ce_used (?t i)}"
      using set d by (auto simp: set_eq_iff split: if_splits)
    moreover have "?g \<noteq> 0" by (simp add: next_gen_def)
    ultimately show ?thesis
      using Some False inv d lt ini by (auto simp: cap_alloc_eq Let_def cap_inv_def)
  qed
qed

lemma cap_free_inv:
  assumes "cap_inv s"
  shows "cap_inv (cap_free s c)"
proof -
  let ?i = "unat (cap_index c)" and ?e = "cap_table s (unat (cap_index c))"
  show ?thesis
  proof (cases "c = CAP_NULL \<or> ?i = 0 \<or> CAP_TABLE_SIZE \<le> ?i \<or> \<not> ce_used ?e \<or>
      ce_generation ?e \<noteq> cap_generation c")
    case True
    then show ?thesis using assms by (auto simp: cap_free_def Let_def)
  next
    case False
    then have ini: "cap_free_inited s" using assms by (auto simp: cap_inv_def split: if_splits)
    then obtain xs where xs: "chain (cap_table s) (cap_free_head s) xs" "distinct xs"
      "set xs = {i. 0 < i \<and> i < CAP_TABLE_SIZE \<and> \<not> ce_used (cap_table s i)}"
      using assms by (auto simp: cap_inv_def)
    let ?t = "(cap_table s)(?i := ?e\<lparr>ce_used := False, ce_obj := None, ce_rights := 0,
                    ce_next_free := cap_free_head s\<rparr>)"
    have "?i \<notin> set xs" using xs(3) False by auto
    then have "chain ?t ?i (?i # xs)"
      using False xs(1) chain_frame [of xs ?t "cap_table s"] by auto
    moreover have "distinct (?i # xs)" using \<open>?i \<notin> set xs\<close> xs(2) by simp
    moreover have "set (?i # xs) = {i. 0 < i \<and> i < CAP_TABLE_SIZE \<and> \<not> ce_used (?t i)}"
      using xs(3) False by auto
    moreover have "cap_free s c = s\<lparr>cap_table := ?t, cap_free_head := ?i\<rparr>"
      using False by (simp add: cap_free_def Let_def)
    moreover have "ce_used (?t j) \<longrightarrow> 0 < j \<and> j < CAP_TABLE_SIZE \<and> ce_obj (?t j) \<noteq> None \<and>
        ce_generation (?t j) \<noteq> 0" for j
      using assms by (auto simp: cap_inv_def)
    ultimately show ?thesis
      using ini unfolding cap_inv_def by (auto simp del: chain.simps distinct.simps set_simps
          intro!: exI [of _ "?i # xs"])
  qed
qed

text \<open>Allocation adds one entry to the map, freeing removes one.\<close>

lemma cap_alloc_view:
  assumes "cap_inv s" and "cap_alloc s obj rights = (c, s')"
  shows "c = CAP_NULL \<Longrightarrow> cap_view s' = cap_view s"
    and "c \<noteq> CAP_NULL \<Longrightarrow> \<exists>ob. obj = Some ob \<and> cap_view s c = None \<and>
           cap_view s' = (cap_view s)(c \<mapsto> (ob, rights))"
proof -
  let ?s1 = "cap_pending s"
  let ?h = "cap_free_head ?s1" and ?g = "next_gen (cap_next_generation ?s1)"
  have inv: "cap_inv ?s1" and ini: "cap_free_inited ?s1"
    using cap_pending_inv [OF assms(1)] by auto
  have null: "cap_generation CAP_NULL = 0"
    by (simp add: cap_generation_def cap_consts)
  have gen: "?g \<noteq> 0" by (simp add: next_gen_def)
  then have ne: "cap_make (of_nat ?h) ?g \<noteq> CAP_NULL"
    using null cap_generation_make [of "of_nat ?h" ?g] by auto
  show "cap_view s' = cap_view s" if "c = CAP_NULL"
    using assms(2) that ne cap_pending_view [of s]
    by (cases obj) (auto simp: cap_alloc_eq Let_def split: if_splits)
  show "\<exists>ob. obj = Some ob \<and> cap_view s c = None \<and> cap_view s' = (cap_view s)(c \<mapsto> (ob, rights))"
    if "c \<noteq> CAP_NULL"
  proof -
    have "obj \<noteq> None"
      using assms(2) \<open>c \<noteq> CAP_NULL\<close> by (cases obj) auto
    then obtain ob where ob: "obj = Some ob" by blast
    have h: "?h \<noteq> 0"
      using assms(2) \<open>c \<noteq> CAP_NULL\<close> ob by (auto simp: cap_alloc_eq Let_def split: if_splits)
    have c: "c = cap_make (of_nat ?h) ?g"
      and s': "cap_table s' = (cap_table ?s1)(?h := (cap_table ?s1 ?h)\<lparr>ce_obj := Some ob,
         ce_rights := rights, ce_generation := ?g, ce_used := True\<rparr>)"
      using assms(2) ob h by (auto simp: cap_alloc_eq Let_def)
    have lt: "?h < CAP_TABLE_SIZE" and un: "\<not> ce_used (cap_table ?s1 ?h)"
      using cap_inv_head [OF inv ini h] by metis+
    have ix: "unat (cap_index c) = ?h" and cg: "cap_generation c = ?g"
      using lt by (simp_all add: c cap_index_make cap_generation_make unat_index)
    have "cap_view ?s1 c = None"
      using un ix by (simp add: cap_view_def Let_def)
    moreover have "cap_view s' d = ((cap_view ?s1)(c \<mapsto> (ob, rights))) d" for d
    proof (cases "unat (cap_index d) = ?h")
      case True
      then have "d = c \<longleftrightarrow> cap_generation d = ?g"
        using cap_eqI [of d c] ix cg by (metis unsigned_word_eqI)
      then show ?thesis
        using True lt h un by (auto simp: cap_view_def s' Let_def)
    next
      case False
      then have "d \<noteq> c" using ix by auto
      with False show ?thesis by (simp add: cap_view_def s' Let_def)
    qed
    ultimately show ?thesis
      using ob by (simp add: cap_pending_view fun_eq_iff)
  qed
qed

lemma cap_free_view:
  assumes "cap_inv s"
  shows "cap_view (cap_free s c) = (cap_view s)(c := None)"
proof
  fix d
  show "cap_view (cap_free s c) d = ((cap_view s)(c := None)) d"
  proof (cases "cap_index d = cap_index c")
    case True
    then have "d = c \<longleftrightarrow> cap_generation d = cap_generation c"
      using cap_eqI by auto
    with True show ?thesis
      by (auto simp: cap_view_def cap_free_def Let_def cap_index_def cap_consts)
  next
    case False
    then have "unat (cap_index d) \<noteq> unat (cap_index c)" "d \<noteq> c"
      by (auto simp: unsigned_word_eqI)
    then show ?thesis by (auto simp: cap_view_def cap_free_def Let_def)
  qed
qed

section \<open>The contract\<close>

locale cap_space =
  fixes alloc :: "'s \<Rightarrow> 'o option \<Rightarrow> u64 \<Rightarrow> cap_t \<times> 's"
    and resolve :: "'s \<Rightarrow> cap_t \<Rightarrow> u64 \<Rightarrow> 'o option"
    and free :: "'s \<Rightarrow> cap_t \<Rightarrow> 's"
    and view :: "'s \<Rightarrow> cap_t \<Rightarrow> ('o \<times> u64) option"
    and inv :: "'s \<Rightarrow> bool"
  assumes inv_alloc: "inv s \<Longrightarrow> inv (snd (alloc s obj r))"
    and inv_free: "inv s \<Longrightarrow> inv (free s c)"
    and view_alloc_fail: "inv s \<Longrightarrow> alloc s obj r = (CAP_NULL, s') \<Longrightarrow> view s' = view s"
    and view_alloc: "inv s \<Longrightarrow> alloc s obj r = (c, s') \<Longrightarrow> c \<noteq> CAP_NULL \<Longrightarrow>
      \<exists>ob. obj = Some ob \<and> view s c = None \<and> view s' = (view s)(c \<mapsto> (ob, r))"
    and view_free: "inv s \<Longrightarrow> view (free s c) = (view s)(c := None)"
    and resolve_view: "inv s \<Longrightarrow> resolve s c req =
      (case view s c of None \<Rightarrow> None | Some (ob, r) \<Rightarrow> if r AND req = req then Some ob else None)"
begin

lemma resolve_alloc:
  assumes "inv s" and "alloc s (Some ob) r = (c, s')" and "c \<noteq> CAP_NULL"
  shows "resolve s' c req = (if r AND req = req then Some ob else None)"
    and "d \<noteq> c \<Longrightarrow> resolve s' d req = resolve s d req"
proof -
  have i: "inv s'" using inv_alloc [OF assms(1), of "Some ob" r] assms(2) by simp
  note v = view_alloc [OF assms]
  show "resolve s' c req = (if r AND req = req then Some ob else None)"
    using v by (auto simp: resolve_view [OF i])
  show "resolve s' d req = resolve s d req" if "d \<noteq> c"
    using v that by (auto simp: resolve_view [OF i] resolve_view [OF assms(1)])
qed

lemma resolve_free:
  assumes "inv s"
  shows "resolve (free s c) c req = None" and "d \<noteq> c \<Longrightarrow> resolve (free s c) d req = resolve s d req"
  using view_free [OF assms, of c]
  by (simp_all add: resolve_view [OF inv_free [OF assms]] resolve_view [OF assms])

lemma alloc_fresh: "inv s \<Longrightarrow> alloc s obj r = (c, s') \<Longrightarrow> c \<noteq> CAP_NULL \<Longrightarrow> resolve s c req = None"
  using view_alloc by (fastforce simp: resolve_view)

end

interpretation caps: cap_space cap_alloc cap_resolve cap_free cap_view cap_inv
proof (unfold_locales, goal_cases)
  case (1 s obj r) then show ?case by (rule cap_alloc_inv)
next
  case (2 s c) then show ?case by (rule cap_free_inv)
next
  case (3 s obj r s') then show ?case using cap_alloc_view(1) by blast
next
  case (4 s obj r c s') then show ?case by (rule cap_alloc_view(2))
next
  case (5 s c) then show ?case by (rule cap_free_view)
next
  case (6 s c req) then show ?case by (rule cap_resolve_view)
qed

text \<open>An allocation of a real object fails exactly when all 4095 slots are taken.\<close>

lemma cap_alloc_full:
  assumes "cap_inv s"
  shows "fst (cap_alloc s (Some ob) r) = CAP_NULL \<longleftrightarrow>
    (\<forall>i. 0 < i \<and> i < CAP_TABLE_SIZE \<longrightarrow> ce_used (cap_table s i))"
proof -
  let ?s1 = "cap_pending s"
  have inv: "cap_inv ?s1" and ini: "cap_free_inited ?s1"
    using cap_pending_inv [OF assms] by auto
  have used: "ce_used (cap_table ?s1 i) = ce_used (cap_table s i)" for i
    by (simp add: cap_pending_def free_list_init_table)
  obtain xs where xs: "chain (cap_table ?s1) (cap_free_head ?s1) xs"
    "set xs = {i. 0 < i \<and> i < CAP_TABLE_SIZE \<and> \<not> ce_used (cap_table ?s1 i)}"
    using inv ini by (auto simp: cap_inv_def)
  have "cap_free_head ?s1 = 0 \<longleftrightarrow> xs = []"
    using xs(1) by (cases xs) auto
  moreover have "xs = [] \<longleftrightarrow> (\<forall>i. 0 < i \<and> i < CAP_TABLE_SIZE \<longrightarrow> ce_used (cap_table s i))"
    using xs(2) used by (auto simp flip: set_empty)
  moreover have "cap_make (of_nat k) (next_gen g) \<noteq> CAP_NULL" for k g
    using cap_generation_make [of "of_nat k" "next_gen g"]
    by (auto simp: next_gen_def cap_generation_def cap_consts split: if_splits)
  ultimately show ?thesis
    by (simp add: cap_alloc_eq Let_def)
qed

section \<open>Properties\<close>

text \<open>
  (C38) The capability table implements a finite map from tokens to objects with rights: an
  allocation that succeeds returns a token that was not valid before, and afterwards exactly that
  token is added with the given object and rights; it fails only for a null object or a full table
  and then changes no token; freeing removes exactly the given token; resolving looks the token up
  and grants the object only if every required right is present; and each operation keeps the
  invariant of the free chain.
\<close>

theorem cap_refines_map:
  assumes "cap_inv s"
  shows "(\<forall>c s'. cap_alloc s obj rights = (c, s') \<longrightarrow> cap_inv s' \<and>
           (if c = CAP_NULL
            then cap_view s' = cap_view s \<and>
                 (obj = None \<or> (\<forall>i. 0 < i \<and> i < CAP_TABLE_SIZE \<longrightarrow> ce_used (cap_table s i)))
            else \<exists>ob. obj = Some ob \<and> cap_view s c = None \<and>
                   cap_view s' = (cap_view s)(c \<mapsto> (ob, rights)))) \<and>
         cap_inv (cap_free s d) \<and> cap_view (cap_free s d) = (cap_view s)(d := None) \<and>
         cap_resolve s d req = (case cap_view s d of None \<Rightarrow> None
           | Some (ob, r) \<Rightarrow> if r AND req = req then Some ob else None)"
proof (intro conjI allI impI)
  fix c s'
  assume a: "cap_alloc s obj rights = (c, s')"
  then show "cap_inv s'" using caps.inv_alloc [OF assms, of obj rights] by simp
  show "if c = CAP_NULL
        then cap_view s' = cap_view s \<and>
             (obj = None \<or> (\<forall>i. 0 < i \<and> i < CAP_TABLE_SIZE \<longrightarrow> ce_used (cap_table s i)))
        else \<exists>ob. obj = Some ob \<and> cap_view s c = None \<and> cap_view s' = (cap_view s)(c \<mapsto> (ob, rights))"
  proof (cases "c = CAP_NULL")
    case True
    with a have "obj = None \<or> (\<forall>i. 0 < i \<and> i < CAP_TABLE_SIZE \<longrightarrow> ce_used (cap_table s i))"
      using cap_alloc_full [OF assms] by (cases obj) (metis, metis fst_conv)
    with True a show ?thesis using caps.view_alloc_fail [OF assms] by auto
  next
    case False
    with caps.view_alloc [OF assms a] show ?thesis by auto
  qed
qed (simp_all add: caps.inv_free caps.view_free caps.resolve_view assms)

theorem cap_refines_map_witness:
  "cap_inv (cap_state0 :: nat cap_state) \<and>
   cap_view (cap_free (cap_state0 :: nat cap_state) 5) = (cap_view cap_state0)(5 := None)"
  using cap_refines_map [OF cap_inv_init] cap_inv_init by blast

text \<open>The operations as data, to speak of runs.\<close>

datatype 'o cap_op = Alloc "'o option" u64 | Free cap_t

fun cap_step :: "'o cap_op \<Rightarrow> 'o cap_state \<Rightarrow> 'o cap_state" where
  "cap_step (Alloc obj r) s = snd (cap_alloc s obj r)"
| "cap_step (Free c) s = cap_free s c"

definition cap_gens_below :: "'o cap_state \<Rightarrow> bool" where
  "cap_gens_below s \<longleftrightarrow> 0 < cap_next_generation s \<and>
     (\<forall>i. ce_used (cap_table s i) \<longrightarrow> ce_generation (cap_table s i) < cap_next_generation s)"

lemma unat_Suc_u32: "unat (g :: u32) + 1 < 2 ^ 32 \<Longrightarrow> unat (g + 1) = unat g + 1"
  using unat_add_lem [of g 1] by simp

lemma cap_alloc_gens:
  assumes "cap_gens_below s" and "unat (cap_next_generation s) + 1 < 2 ^ 32"
  shows "cap_gens_below (snd (cap_alloc s obj r)) \<and>
    cap_next_generation s \<le> cap_next_generation (snd (cap_alloc s obj r)) \<and>
    unat (cap_next_generation (snd (cap_alloc s obj r))) \<le> unat (cap_next_generation s) + 1"
proof (cases obj)
  case None
  with assms(1) show ?thesis by simp
next
  case (Some ob)
  let ?g = "cap_next_generation s"
  have p: "cap_next_generation (cap_pending s) = ?g"
    "ce_used (cap_table (cap_pending s) i) = ce_used (cap_table s i)"
    "ce_generation (cap_table (cap_pending s) i) = ce_generation (cap_table s i)" for i
    by (auto simp: cap_pending_def free_list_init_table) (simp add: cap_free_list_init_def Let_def)
  have pos: "0 < ?g" using assms(1) by (simp add: cap_gens_below_def)
  then have g: "next_gen ?g = ?g" by (auto simp: next_gen_def)
  have s: "unat (?g + 1) = unat ?g + 1" by (rule unat_Suc_u32 [OF assms(2)])
  then have lt: "?g < ?g + 1" by (simp add: word_less_nat_alt)
  have "x < ?g + 1" if "x < ?g" for x using that lt by order
  with assms(1) lt pos s show ?thesis
    by (auto simp: Some cap_alloc_eq p g Let_def cap_gens_below_def word_le_nat_alt)
qed

lemma cap_alloc_old_token:
  assumes "cap_inv s" and "cap_gens_below s" and "cap_generation c < cap_next_generation s"
    and "cap_view s c = None"
  shows "cap_view (snd (cap_alloc s obj r)) c = None"
proof -
  obtain d s' where a: "cap_alloc s obj r = (d, s')" by fastforce
  show ?thesis
  proof (cases "d = CAP_NULL")
    case True
    with a assms(4) show ?thesis using caps.view_alloc_fail [OF assms(1)] by simp
  next
    case False
    note v = caps.view_alloc [OF assms(1) a False]
    then have "cap_generation d = next_gen (cap_next_generation (cap_pending s))"
      using a False by (auto simp: cap_alloc_eq Let_def cap_generation_make split: if_splits)
    moreover have "cap_next_generation (cap_pending s) = cap_next_generation s"
      by (simp add: cap_pending_def cap_free_list_init_def Let_def)
    moreover have "next_gen (cap_next_generation s) = cap_next_generation s"
      using assms(2) by (auto simp: cap_gens_below_def next_gen_def)
    ultimately have "c \<noteq> d" using assms(3) by auto
    with v a assms(4) show ?thesis by auto
  qed
qed

lemma cap_free_gens: "cap_gens_below s \<Longrightarrow> cap_gens_below (cap_free s c)"
  "cap_next_generation (cap_free s c) = cap_next_generation s"
  by (auto simp: cap_gens_below_def cap_free_def Let_def)

lemma cap_step_inv: "cap_inv s \<Longrightarrow> cap_inv (cap_step opr s)"
  by (cases opr) (simp_all add: caps.inv_alloc caps.inv_free)

lemma cap_step_gens:
  assumes "cap_gens_below s" and "unat (cap_next_generation s) + 1 < 2 ^ 32"
  shows "cap_gens_below (cap_step opr s) \<and>
    cap_next_generation s \<le> cap_next_generation (cap_step opr s) \<and>
    unat (cap_next_generation (cap_step opr s)) \<le> unat (cap_next_generation s) + 1"
  using cap_alloc_gens [OF assms] assms(1) by (cases opr) (auto simp: cap_free_gens)

lemma cap_run_gens:
  "cap_inv s \<Longrightarrow> cap_gens_below s \<Longrightarrow> unat (cap_next_generation s) + length ops < 2 ^ 32 \<Longrightarrow>
   cap_inv (fold cap_step ops s) \<and> cap_gens_below (fold cap_step ops s) \<and>
   unat (cap_next_generation (fold cap_step ops s)) \<le> unat (cap_next_generation s) + length ops"
proof (induction ops arbitrary: s)
  case Nil
  then show ?case by simp
next
  case (Cons opr ops)
  have "unat (cap_next_generation s) + 1 < 2 ^ 32" using Cons.prems(3) by simp
  note st = cap_step_gens [OF Cons.prems(2) this, of opr]
  then show ?case
    using Cons.IH [OF cap_step_inv [OF Cons.prems(1)], of opr] Cons.prems(3) by simp
qed

lemma cap_dead_run:
  "cap_inv s \<Longrightarrow> cap_gens_below s \<Longrightarrow> unat (cap_next_generation s) + length ops < 2 ^ 32 \<Longrightarrow>
   cap_generation c < cap_next_generation s \<Longrightarrow> cap_view s c = None \<Longrightarrow>
   cap_view (fold cap_step ops s) c = None"
proof (induction ops arbitrary: s)
  case Nil
  then show ?case by simp
next
  case (Cons opr ops)
  have "unat (cap_next_generation s) + 1 < 2 ^ 32" using Cons.prems(3) by simp
  note st = cap_step_gens [OF Cons.prems(2) this, of opr]
  have "cap_view (cap_step opr s) c = None"
    using Cons.prems cap_alloc_old_token by (cases opr) (auto simp: caps.view_free)
  moreover have "cap_generation c < cap_next_generation (cap_step opr s)"
    using st Cons.prems(4) by (meson less_le_trans)
  ultimately show ?case
    using Cons.IH [OF cap_step_inv [OF Cons.prems(1)], of opr] Cons.prems(3) st by simp
qed

lemma cap_gens_init: "cap_gens_below cap_state0" "cap_next_generation cap_state0 = 1"
  by (simp_all add: cap_gens_below_def cap_state0_def cap_entry0_def)

text \<open>
  (C39) No use after free: a token that was valid at some point of a run and was then freed resolves
  to nothing after every further sequence of allocations and frees, whatever slot is reused, as
  long as fewer than \<open>2\<^sup>3\<^sup>2\<close> operations are made in all (the generation counter is 32 bits wide).
\<close>

theorem cap_freed_token_dead:
  assumes "length ops + length ops' + 1 < 2 ^ 32"
    and "s = fold cap_step ops cap_state0" and "cap_view s c \<noteq> None"
  shows "cap_resolve (fold cap_step ops' (cap_free s c)) c req = None"
proof -
  have s: "cap_inv s \<and> cap_gens_below s \<and> unat (cap_next_generation s) \<le> 1 + length ops"
    using cap_run_gens [OF cap_inv_init cap_gens_init(1), of ops] assms(1,2)
    by (simp add: cap_gens_init)
  have lt: "cap_generation c < cap_next_generation s"
    using assms(3) s by (auto simp: cap_view_def cap_gens_below_def Let_def split: if_splits)
  let ?f = "cap_free s c"
  have f: "cap_inv ?f" "cap_gens_below ?f" "cap_next_generation ?f = cap_next_generation s"
    "cap_view ?f c = None"
    using s by (simp_all add: caps.inv_free cap_free_gens caps.view_free)
  have n: "unat (cap_next_generation ?f) + length ops' < 2 ^ 32"
    using s assms(1) by (simp add: f(3))
  have "cap_view (fold cap_step ops' ?f) c = None"
    by (rule cap_dead_run [OF f(1,2) n _ f(4)]) (simp add: f(3) lt)
  moreover have "cap_inv (fold cap_step ops' ?f)"
    using cap_run_gens [OF f(1,2) n] by blast
  ultimately show ?thesis
    by (simp add: caps.resolve_view)
qed

theorem cap_freed_token_dead_witness:
  "cap_view (fold cap_step [Alloc (Some (7 :: nat)) 3] cap_state0) (cap_make 1 1) = Some (7, 3) \<and>
   cap_resolve (fold cap_step [Alloc (Some 8) 3]
      (cap_free (fold cap_step [Alloc (Some (7 :: nat)) 3] cap_state0) (cap_make 1 1))) (cap_make 1 1) 1 = None"
proof -
  have v: "cap_view (fold cap_step [Alloc (Some (7 :: nat)) 3] cap_state0) (cap_make 1 1) = Some (7, 3)"
    by (simp add: cap_state0_def cap_alloc_eq cap_pending_def free_list_init_table Let_def free_list_init_fields
        cap_view_def cap_index_make cap_generation_make next_gen_def cap_consts cap_entry0_def)
  then show ?thesis
    using cap_freed_token_dead [where ops = "[Alloc (Some (7 :: nat)) 3]"
        and ops' = "[Alloc (Some 8) 3]" and c = "cap_make 1 1", OF _ refl] by simp
qed

end
