(* ===== verification/Buddy.thy ===== *)
theory Buddy
  imports Minus_Dlist
begin

text \<open>
  The page allocator of \<open>kernel/mm/buddy.c\<close>: per order a free list of blocks of \<open>2\<^sup>o\<close> pages,
  threaded through the page descriptors of \<open>g_mem_pages\<close>. The list heads and the page nodes live in
  one \<open>dstore\<close>. The free lists are abstracted to a partial function from page indices to orders; the
  list layer is shown to implement updates of that function, and the coalescing and splitting loops
  are then verified on it. A page index outside \<open>g_mem_pages\<close> gives \<open>None\<close>, as does an order with no
  free list.
\<close>

section \<open>State\<close>

datatype bnode = Area nat | Pg nat

record page =
  porder :: nat
  in_buddy :: bool
  in_slab :: bool

record buddy =
  g_mem_pages :: "nat \<Rightarrow> page"
  g_nr_pages :: nat
  g_pfn_offset :: u32
  g_links :: "bnode dstore"
  g_nr_free :: "nat \<Rightarrow> u32"

definition BUDDY_MAX_ORDER :: nat where "BUDDY_MAX_ORDER = 11"
definition PAGE_SHIFT :: nat where "PAGE_SHIFT = 12"
definition PAGE_SIZE :: u64 where "PAGE_SIZE = 4096"

lemmas page_consts = BUDDY_MAX_ORDER_def PAGE_SHIFT_def PAGE_SIZE_def

definition PAGE_ALIGN :: "u64 \<Rightarrow> u64" where
  "PAGE_ALIGN x = (x + PAGE_SIZE - 1) AND NOT (PAGE_SIZE - 1)"

definition pfn_to_page :: "buddy \<Rightarrow> u32 \<Rightarrow> nat" where
  "pfn_to_page b pfn = unat (pfn - g_pfn_offset b)"

definition page_to_pfn :: "buddy \<Rightarrow> nat \<Rightarrow> u32" where
  "page_to_pfn b i = of_nat i + g_pfn_offset b"

section \<open>Operations\<close>

function get_order_loop :: "u32 \<Rightarrow> nat \<Rightarrow> nat" where
  "get_order_loop n order =
     (if push_bit order 1 < n \<and> order < BUDDY_MAX_ORDER then get_order_loop n (Suc order) else order)"
  by pat_completeness auto
termination by (relation "measure (\<lambda>(n, order). BUDDY_MAX_ORDER - order)") auto

declare get_order_loop.simps [simp del]

definition get_order :: "u32 \<Rightarrow> nat" where
  "get_order sz = get_order_loop (ucast (drop_bit PAGE_SHIFT (PAGE_ALIGN (ucast sz)))) 0"

definition buddy_add_to_list :: "buddy \<Rightarrow> nat \<Rightarrow> nat \<Rightarrow> buddy option" where
  "buddy_add_to_list b i order =
     (if i < g_nr_pages b \<and> order < BUDDY_MAX_ORDER then
        Some (b\<lparr>g_nr_free := (g_nr_free b)(order := g_nr_free b order + 1),
                g_mem_pages := (g_mem_pages b)(i :=
                  (g_mem_pages b i)\<lparr>porder := order mod 16, in_buddy := True\<rparr>),
                g_links := dlist_add (g_links b) (Area order) (Pg i)\<rparr>)
      else None)"

definition buddy_del_from_list :: "buddy \<Rightarrow> nat \<Rightarrow> buddy option" where
  "buddy_del_from_list b i =
     (if i < g_nr_pages b \<and> porder (g_mem_pages b i) < BUDDY_MAX_ORDER then
        let o' = porder (g_mem_pages b i) in
        Some (b\<lparr>g_nr_free := (g_nr_free b)(o' := g_nr_free b o' - 1),
                g_mem_pages := (g_mem_pages b)(i :=
                  (g_mem_pages b i)\<lparr>porder := 0, in_buddy := False\<rparr>),
                g_links := dlist_del (g_links b) (Pg i)\<rparr>)
      else None)"

definition buddy_exist :: "buddy \<Rightarrow> nat \<Rightarrow> nat \<Rightarrow> bool option" where
  "buddy_exist b i order =
     (if i < g_nr_pages b
      then Some (in_buddy (g_mem_pages b i) \<and> porder (g_mem_pages b i) = order) else None)"

function buddy_add_page :: "buddy \<Rightarrow> u32 \<Rightarrow> nat \<Rightarrow> buddy option" where
  "buddy_add_page b pfn order =
     (if order < BUDDY_MAX_ORDER - 1 then
        let buddy_pfn = push_bit order 1 XOR pfn; bi = pfn_to_page b buddy_pfn in
        (case buddy_exist b bi order of
           None \<Rightarrow> None
         | Some False \<Rightarrow> buddy_add_to_list b (pfn_to_page b pfn) order
         | Some True \<Rightarrow>
             (case buddy_del_from_list b bi of
                None \<Rightarrow> None
              | Some b' \<Rightarrow> buddy_add_page b' (pfn AND buddy_pfn) (Suc order)))
      else buddy_add_to_list b (pfn_to_page b pfn) order)"
  by pat_completeness auto
termination by (relation "measure (\<lambda>(b, pfn, order). BUDDY_MAX_ORDER - order)") auto

declare buddy_add_page.simps [simp del]

function pfn_order_align_loop :: "u32 \<Rightarrow> nat \<Rightarrow> nat" where
  "pfn_order_align_loop pfn order =
     (if drop_bit order pfn AND 1 = 0 \<and> order < BUDDY_MAX_ORDER - 1
      then pfn_order_align_loop pfn (Suc order) else order)"
  by pat_completeness auto
termination by (relation "measure (\<lambda>(pfn, order). BUDDY_MAX_ORDER - order)") auto

declare pfn_order_align_loop.simps [simp del]

definition pfn_order_align :: "u32 \<Rightarrow> nat" where
  "pfn_order_align pfn = pfn_order_align_loop pfn 0"

text \<open>Called with at least one page, so the loop stops at order 0 at the latest.\<close>

fun order_max_pages_loop :: "u32 \<Rightarrow> nat \<Rightarrow> nat" where
  "order_max_pages_loop nr 0 = 0"
| "order_max_pages_loop nr (Suc order) =
     (if ucast nr < (push_bit (Suc order) 1 :: u64) then order_max_pages_loop nr order else Suc order)"

definition order_max_pages :: "u32 \<Rightarrow> nat" where
  "order_max_pages nr = order_max_pages_loop nr (BUDDY_MAX_ORDER - 1)"

lemma order_max_pages_loop_le: "unat nr \<noteq> 0 \<Longrightarrow> o0 < 32 \<Longrightarrow> 2 ^ order_max_pages_loop nr o0 \<le> unat nr"
proof (induction nr o0 rule: order_max_pages_loop.induct)
  case (1 nr)
  then show ?case by simp
next
  case (2 nr order)
  have "unat (push_bit (Suc order) 1 :: u64) = 2 ^ Suc order"
    using unat_power_two [of "Suc order", where 'a = 64] 2(3) by (simp add: push_bit_eq_mult)
  then show ?case
    using 2 by (auto simp: word_less_nat_alt unat_ucast_u32_u64)
qed

lemma order_max_pages_le: "nr \<noteq> 0 \<Longrightarrow> 2 ^ order_max_pages nr \<le> unat nr"
  unfolding order_max_pages_def
  by (rule order_max_pages_loop_le) (auto simp: page_consts unat_eq_0)

lemma order_max_pages_loop_bound: "order_max_pages_loop nr o0 \<le> o0"
  by (induction nr o0 rule: order_max_pages_loop.induct) auto

lemma order_max_pages_bound: "order_max_pages nr \<le> 10"
  using order_max_pages_loop_bound [of nr 10] by (simp add: order_max_pages_def page_consts)

lemma unat_push_bit_1: "n < 32 \<Longrightarrow> unat (push_bit n 1 :: u32) = 2 ^ n"
  using unat_power_two [of n, where 'a = 32] by (simp add: push_bit_eq_mult)

lemma range_loop_decr:
  assumes "nr \<noteq> 0" and "k \<le> order_max_pages nr"
  shows "unat (nr - push_bit k 1) = unat nr - 2 ^ k" and "2 ^ k \<le> unat nr"
proof -
  have k: "unat (push_bit k 1 :: u32) = 2 ^ k"
    using order_max_pages_bound [of nr] assms(2) by (intro unat_push_bit_1) simp
  have "(2::nat) ^ k \<le> 2 ^ order_max_pages nr" using assms(2) by simp
  then show le: "2 ^ k \<le> unat nr" using order_max_pages_le [OF assms(1)] by linarith
  then show "unat (nr - push_bit k 1) = unat nr - 2 ^ k"
    using k by (subst unat_sub) (simp_all add: word_le_nat_alt)
qed

function free_range_loop :: "buddy \<Rightarrow> u32 \<Rightarrow> u32 \<Rightarrow> buddy option" where
  "free_range_loop b pfn nr =
     (if nr \<noteq> 0 then
        let order0 = pfn_order_align pfn; max_order = order_max_pages nr;
            order = (if max_order < order0 then max_order else order0)
        in (case buddy_add_page b pfn order of
              None \<Rightarrow> None
            | Some b' \<Rightarrow> free_range_loop b' (pfn + push_bit order 1) (nr - push_bit order 1))
      else Some b)"
  by pat_completeness auto
termination
proof (relation "measure (\<lambda>(b, pfn, nr). unat nr)", goal_cases)
  case 1
  show ?case by simp
next
  case (2 b pfn nr order0 max_order order b')
  then have "order \<le> order_max_pages nr" by auto
  note d = range_loop_decr [OF 2(1) this]
  have "0 < unat nr" using d(2) by (rule order.strict_trans2 [rotated]) simp
  then have "unat nr - 2 ^ order < unat nr" by (rule diff_less [rotated]) simp
  with d(1) show ?case by simp
qed

declare free_range_loop.simps [simp del]

definition buddy_free_pages_range :: "buddy \<Rightarrow> u64 \<Rightarrow> u64 \<Rightarrow> buddy option" where
  "buddy_free_pages_range b base sz =
     (let start = ALIGN_UP base PAGE_SIZE; stop = ALIGN_DOWN (base + sz) PAGE_SIZE in
      if stop \<le> start then Some b
      else free_range_loop b (ucast (drop_bit PAGE_SHIFT start)) (ucast (drop_bit PAGE_SHIFT (stop - start))))"

fun buddy_split :: "buddy \<Rightarrow> nat \<Rightarrow> nat \<Rightarrow> nat \<Rightarrow> buddy option" where
  "buddy_split b i l_order 0 = Some b"
| "buddy_split b i l_order (Suc h) =
     (if l_order < Suc h then
        (case buddy_add_to_list b (i + 2 ^ h) h of
           None \<Rightarrow> None
         | Some b' \<Rightarrow> buddy_split b' i l_order h)
      else Some b)"

function find_order :: "buddy \<Rightarrow> nat \<Rightarrow> nat" where
  "find_order b h =
     (if h < BUDDY_MAX_ORDER \<and> g_nr_free b h = 0 then find_order b (Suc h) else h)"
  by pat_completeness auto
termination by (relation "measure (\<lambda>(b, h). BUDDY_MAX_ORDER - h)") auto

declare find_order.simps [simp del]

text \<open>
  \<open>container_of\<close> on the first node of a list: the list head itself is no page, so taking the page
  of an empty list would be wrong and gives \<open>None\<close>.
\<close>

definition page_of_node :: "bnode \<Rightarrow> nat option" where
  "page_of_node n = (case n of Pg i \<Rightarrow> Some i | Area _ \<Rightarrow> None)"

definition buddy_alloc_pages :: "buddy \<Rightarrow> u32 \<Rightarrow> (nat option \<times> buddy) option" where
  "buddy_alloc_pages b sz =
     (let order = get_order sz; h_order = find_order b order in
      if h_order < BUDDY_MAX_ORDER then
        (case page_of_node (dlist_first (g_links b) (Area h_order)) of
           None \<Rightarrow> None
         | Some i \<Rightarrow>
             (case buddy_del_from_list b i of
                None \<Rightarrow> None
              | Some b1 \<Rightarrow>
                  (case buddy_split b1 i order h_order of
                     None \<Rightarrow> None
                   | Some b2 \<Rightarrow>
                       Some (Some i, b2\<lparr>g_mem_pages := (g_mem_pages b2)(i :=
                         (g_mem_pages b2 i)\<lparr>porder := order mod 16\<rparr>)\<rparr>))))
      else Some (None, b))"

definition buddy_free_pages :: "buddy \<Rightarrow> nat \<Rightarrow> buddy option" where
  "buddy_free_pages b i =
     (if i < g_nr_pages b
      then buddy_add_page b (page_to_pfn b i) (porder (g_mem_pages b i)) else None)"

definition buddy_stat :: "buddy \<Rightarrow> u32" where
  "buddy_stat b = fold (\<lambda>i acc. acc + push_bit i 1 * g_nr_free b i) [0 ..< BUDDY_MAX_ORDER] 0"

definition buddy_init :: "buddy \<Rightarrow> buddy" where
  "buddy_init b = b\<lparr>g_nr_free := (\<lambda>i. if i < BUDDY_MAX_ORDER then 0 else g_nr_free b i),
     g_links := fold (\<lambda>i d. dlist_init d (Area i)) [0 ..< BUDDY_MAX_ORDER] (g_links b)\<rparr>"

section \<open>The free map\<close>

text \<open>\<open>fmap b i = Some o\<close>: page \<open>i\<close> heads a free block of order \<open>o\<close>.\<close>

definition fmap :: "buddy \<Rightarrow> nat \<Rightarrow> nat option" where
  "fmap b i = (if i < g_nr_pages b \<and> in_buddy (g_mem_pages b i) then Some (porder (g_mem_pages b i)) else None)"

definition areas :: "bnode set" where
  "areas = Area ` {..< 11}"

definition area_lists :: "(nat \<Rightarrow> nat list) \<Rightarrow> bnode \<Rightarrow> bnode list" where
  "area_lists L n = (case n of Area k \<Rightarrow> map Pg (L k) | Pg _ \<Rightarrow> [])"

text \<open>The list layer agrees with the page flags and the counters.\<close>

definition lists_ok :: "buddy \<Rightarrow> (nat \<Rightarrow> nat list) \<Rightarrow> bool" where
  "lists_ok b L \<longleftrightarrow>
     dl_rep (g_links b) areas (area_lists L) \<and>
     (\<forall>k < 11. unat (g_nr_free b k) = length (L k)) \<and>
     (\<forall>k < 11. \<forall>i. i \<in> set (L k) \<longleftrightarrow> fmap b i = Some k) \<and>
     (\<forall>i k. fmap b i = Some k \<longrightarrow> k < 11) \<and> g_nr_pages b < 2 ^ 32"

lemma area_nodes: "Pg i \<in> dl_nodes areas (area_lists L) \<longleftrightarrow> (\<exists>k < 11. i \<in> set (L k))"
  by (auto simp: dl_nodes_def areas_def area_lists_def)

lemma area_lists_upd: "(area_lists L)(Area k := map Pg xs) = area_lists (L(k := xs))"
  by (auto simp: area_lists_def fun_eq_iff split: bnode.splits)

lemma in_areas [simp]: "Area k \<in> areas \<longleftrightarrow> k < 11"
  by (auto simp: areas_def)

lemma area_lists_Area [simp]: "area_lists L (Area k) = map Pg (L k)"
  by (simp add: area_lists_def)

lemma lists_distinct: "lists_ok b L \<Longrightarrow> k < 11 \<Longrightarrow> distinct (L k)"
  using dl.rep_distinct [of "g_links b" areas "area_lists L" "Area k"]
  by (auto simp: lists_ok_def distinct_map)

lemma lists_length:
  assumes "lists_ok b L" and "k < 11" and "i < g_nr_pages b" and "fmap b i \<noteq> Some k"
  shows "length (L k) < g_nr_pages b"
proof -
  have "set (L k) \<subseteq> {..< g_nr_pages b} - {i}"
    using assms by (auto simp: lists_ok_def fmap_def split: if_splits)
  then have "card (set (L k)) \<le> card ({..< g_nr_pages b} - {i})" by (intro card_mono) auto
  then show ?thesis
    using assms(3) distinct_card [OF lists_distinct [OF assms(1,2)]] by simp
qed

lemma add_to_list_ok:
  assumes ok: "lists_ok b L" and k: "k < 11" and i: "i < g_nr_pages b" and n: "fmap b i = None"
  shows "\<exists>b'. buddy_add_to_list b i k = Some b' \<and> lists_ok b' (L(k := i # L k)) \<and>
    fmap b' = (fmap b)(i \<mapsto> k) \<and> g_nr_pages b' = g_nr_pages b \<and> g_pfn_offset b' = g_pfn_offset b \<and>
    (\<forall>j. j \<noteq> i \<longrightarrow> g_mem_pages b' j = g_mem_pages b j)"
proof -
  obtain b' where b': "buddy_add_to_list b i k = Some b'"
    using k i by (simp add: buddy_add_to_list_def page_consts)
  have f: "fmap b' = (fmap b)(i \<mapsto> k)"
    using b' k i by (auto simp: buddy_add_to_list_def page_consts fmap_def fun_eq_iff split: if_splits)
  have "Pg i \<notin> dl_nodes areas (area_lists L)"
    using ok n by (auto simp: area_nodes lists_ok_def)
  then have d: "dl_rep (g_links b') areas (area_lists (L(k := i # L k)))"
    using dl.rep_add [of "g_links b" areas "area_lists L" "Area k" "Pg i"] ok k i b'
      area_lists_upd [of L k "i # L k"]
    by (auto simp: lists_ok_def buddy_add_to_list_def page_consts)
  have "length (L k) < g_nr_pages b" using lists_length [OF ok k i] n by simp
  then have "unat (g_nr_free b k) + 1 < 2 ^ 32" using ok k by (simp add: lists_ok_def)
  then have "unat (g_nr_free b k + 1) = length (L k) + 1"
    using ok k unat_add_lem [of "g_nr_free b k" 1] by (simp add: lists_ok_def)
  then have c: "\<forall>q < 11. unat (g_nr_free b' q) = length ((L(k := i # L k)) q)"
    using ok k i b' by (auto simp: lists_ok_def buddy_add_to_list_def page_consts)
  have "lists_ok b' (L(k := i # L k))"
    unfolding lists_ok_def using d c ok k n i b'
    by (auto simp: f lists_ok_def buddy_add_to_list_def page_consts split: if_splits)
  with b' f i k show ?thesis by (auto simp: buddy_add_to_list_def page_consts)
qed

lemma remove1_map_inj: "inj g \<Longrightarrow> remove1 (g x) (map g xs) = map g (remove1 x xs)"
  by (induction xs) (auto simp: inj_eq)

lemma del_from_list_ok:
  assumes ok: "lists_ok b L" and f: "fmap b i = Some k"
  shows "\<exists>b'. buddy_del_from_list b i = Some b' \<and> lists_ok b' (L(k := remove1 i (L k))) \<and>
    fmap b' = (fmap b)(i := None) \<and> g_nr_pages b' = g_nr_pages b \<and> g_pfn_offset b' = g_pfn_offset b"
proof -
  have k: "k < 11" using ok f by (auto simp: lists_ok_def)
  have i: "i < g_nr_pages b" "in_buddy (g_mem_pages b i)" "porder (g_mem_pages b i) = k"
    using f by (auto simp: fmap_def split: if_splits)
  have mem: "i \<in> set (L k)" using ok f k by (auto simp: lists_ok_def)
  obtain b' where b': "buddy_del_from_list b i = Some b'"
    using k i by (simp add: buddy_del_from_list_def page_consts Let_def)
  have f': "fmap b' = (fmap b)(i := None)"
    using b' k i by (auto simp: buddy_del_from_list_def page_consts fmap_def fun_eq_iff Let_def split: if_splits)
  have rm: "remove1 (Pg i) (map Pg (L k)) = map Pg (remove1 i (L k))"
    by (rule remove1_map_inj) (simp add: inj_on_def)
  have d: "dl_rep (g_links b') areas (area_lists (L(k := remove1 i (L k))))"
    using dl.rep_del [of "g_links b" areas "area_lists L" "Area k" "Pg i"] ok k i b' mem rm
      area_lists_upd [of L k "remove1 i (L k)"]
    by (auto simp: lists_ok_def buddy_del_from_list_def page_consts Let_def)
  have pos: "0 < length (L k)" using mem by (auto simp: length_pos_if_in_set)
  then have "unat (g_nr_free b k - 1) = length (L k) - 1"
    using ok k by (subst unat_sub) (simp_all add: lists_ok_def word_le_nat_alt Suc_le_eq)
  then have c: "\<forall>q < 11. unat (g_nr_free b' q) = length ((L(k := remove1 i (L k))) q)"
    using ok k i b' mem
    by (auto simp: lists_ok_def buddy_del_from_list_def page_consts Let_def length_remove1)
  have "lists_ok b' (L(k := remove1 i (L k)))"
    unfolding lists_ok_def using d c ok k i b' lists_distinct [OF ok k] f
    by (auto simp: f' lists_ok_def buddy_del_from_list_def page_consts Let_def split: if_splits)
  with b' f' i k show ?thesis by (auto simp: buddy_del_from_list_def page_consts Let_def)
qed

section \<open>Blocks and buddies\<close>

definition blk :: "nat \<Rightarrow> nat \<Rightarrow> nat set" where
  "blk i k = {i ..< i + 2 ^ k}"

definition bud :: "nat \<Rightarrow> nat \<Rightarrow> nat" where
  "bud i k = (if even (i div 2 ^ k) then i + 2 ^ k else i - 2 ^ k)"

definition free_of :: "(nat \<Rightarrow> nat option) \<Rightarrow> nat set" where
  "free_of f = {x. \<exists>i k. f i = Some k \<and> x \<in> blk i k}"

text \<open>
  Free blocks are aligned, inside the page array and disjoint, and no block below the top order
  lies beside its free buddy: coalescing is complete.
\<close>

definition blocks_ok :: "nat \<Rightarrow> (nat \<Rightarrow> nat option) \<Rightarrow> bool" where
  "blocks_ok n f \<longleftrightarrow>
     (\<forall>i k. f i = Some k \<longrightarrow> k < 11 \<and> 2 ^ k dvd i \<and> i + 2 ^ k \<le> n) \<and>
     (\<forall>i k j l. f i = Some k \<longrightarrow> f j = Some l \<longrightarrow> i \<noteq> j \<longrightarrow> blk i k \<inter> blk j l = {})"

definition merged :: "(nat \<Rightarrow> nat option) \<Rightarrow> bool" where
  "merged f \<longleftrightarrow> (\<forall>i k. f i = Some k \<longrightarrow> k < 10 \<longrightarrow> f (bud i k) \<noteq> Some k)"

lemma blk_self [simp]: "i \<in> blk i k"
  by (simp add: blk_def)

lemma free_of_upd: "f i = None \<Longrightarrow> free_of (f(i \<mapsto> k)) = free_of f \<union> blk i k"
  unfolding free_of_def by (auto split: if_splits) (metis option.distinct(1))

lemma blk_free: "f i = Some k \<Longrightarrow> blk i k \<subseteq> free_of f"
  by (auto simp: free_of_def)

lemma not_free_None: "blk i k \<inter> free_of f = {} \<Longrightarrow> f i = None"
  using blk_self [of i] unfolding free_of_def by (cases "f i") blast+

lemma free_of_del:
  assumes "blocks_ok n f" and "f i = Some k"
  shows "free_of (f(i := None)) = free_of f - blk i k"
proof -
  have "blk j l \<inter> blk i k = {}" if "f j = Some l" "j \<noteq> i" for j l
    using assms that unfolding blocks_ok_def by blast
  then show ?thesis
    using assms(2) unfolding free_of_def
    by (auto split: if_splits) (metis option.inject)
qed

lemma blocks_ok_del: "blocks_ok n f \<Longrightarrow> blocks_ok n (f(i := None))"
  unfolding blocks_ok_def by (auto split: if_splits)

lemma merged_del: "merged f \<Longrightarrow> merged (f(i := None))"
  unfolding merged_def by (auto split: if_splits)

lemma blocks_ok_add:
  assumes "blocks_ok n f" and "k < 11" and "2 ^ k dvd i" and "i + 2 ^ k \<le> n"
    and "blk i k \<inter> free_of f = {}"
  shows "blocks_ok n (f(i \<mapsto> k))"
proof -
  have "blk j l \<inter> blk i k = {}" if "f j = Some l" for j l
    using assms(5) blk_free [of f j l] that by blast
  then show ?thesis
    using assms unfolding blocks_ok_def by (auto simp: Int_commute)
qed

lemma bud_cases:
  assumes "2 ^ k dvd i"
  shows "(2 ^ Suc k dvd i \<and> bud i k = i + 2 ^ k) \<or>
    (\<exists>m. i = 2 ^ Suc k * m + 2 ^ k \<and> bud i k = 2 ^ Suc k * m)"
proof -
  obtain q where q: "i = 2 ^ k * q" using assms by (auto elim: dvdE)
  show ?thesis
  proof (cases "even q")
    case True
    then obtain m where "q = 2 * m" by (auto elim: evenE)
    with q show ?thesis by (simp add: bud_def)
  next
    case False
    then obtain m where "q = 2 * m + 1" by (auto elim: oddE)
    with q show ?thesis by (auto simp: bud_def algebra_simps)
  qed
qed

lemma bud_bud: "2 ^ k dvd i \<Longrightarrow> bud (bud i k) k = i"
proof -
  assume d: "2 ^ k dvd i"
  then obtain q where q: "i = 2 ^ k * q" by (auto elim: dvdE)
  have "bud i k = 2 ^ k * (if even q then q + 1 else q - 1)"
    by (auto simp: q bud_def algebra_simps)
  then show ?thesis
    by (auto simp: q bud_def elim: oddE)
qed

lemma bud_dvd: "2 ^ k dvd i \<Longrightarrow> 2 ^ k dvd bud i k"
  by (auto simp: bud_def)

text \<open>A block and its buddy make up the block of the next order.\<close>

lemma bud_join:
  assumes "2 ^ k dvd i"
  shows "2 ^ Suc k dvd min i (bud i k)" and "blk (min i (bud i k)) (Suc k) = blk i k \<union> blk (bud i k) k"
    and "blk i k \<inter> blk (bud i k) k = {}" and "bud i k \<noteq> i"
  using bud_cases [OF assms] by (auto simp: blk_def)

lemma bud_range:
  assumes "2 ^ k dvd i" and "i + 2 ^ k \<le> n" and "2 ^ Suc k dvd n"
  shows "bud i k + 2 ^ k \<le> n"
  using bud_cases [OF assms(1)]
proof
  assume b: "2 ^ Suc k dvd i \<and> bud i k = i + 2 ^ k"
  obtain a c where "i = 2 ^ Suc k * a" "n = 2 ^ Suc k * c" using b assms(3) by (auto elim!: dvdE)
  moreover have "a < c"
  proof (rule ccontr)
    assume "\<not> a < c"
    then have "2 ^ Suc k * c \<le> 2 ^ Suc k * a" by (intro mult_left_mono) auto
    with calculation assms(2) have "(2 :: nat) ^ k \<le> 0" by linarith
    then show False by simp
  qed
  then have "2 ^ Suc k * (a + 1) \<le> 2 ^ Suc k * c" by (intro mult_left_mono) auto
  ultimately show ?thesis using b by simp
qed (use assms(2) in auto)

lemma merged_add:
  assumes "merged f" and "2 ^ k dvd i" and "f i = None"
    and "\<forall>j l. f j = Some l \<longrightarrow> 2 ^ l dvd j" and "k < 10 \<Longrightarrow> f (bud i k) \<noteq> Some k"
  shows "merged (f(i \<mapsto> k))"
  unfolding merged_def
proof (intro allI impI)
  fix j l
  assume j: "(f(i \<mapsto> k)) j = Some l" and l: "l < 10"
  show "(f(i \<mapsto> k)) (bud j l) \<noteq> Some l"
  proof (cases "j = i")
    case True
    then show ?thesis using j l assms(5) bud_join(4) [OF assms(2)] by auto
  next
    case False
    with j have fj: "f j = Some l" by simp
    then have "2 ^ l dvd j" using assms(4) by blast
    then have "bud j l = i \<Longrightarrow> k = l \<Longrightarrow> bud i k = j" using bud_bud by blast
    with fj assms(1,5) l show ?thesis unfolding merged_def by auto
  qed
qed

section \<open>Page frame numbers\<close>

lemma nat_and_even_odd: "(2 * m) AND (2 * m + 1) = 2 * (m :: nat)"
  by (simp add: and_rec [of "2 * m"])

lemma bud_xor:
  fixes p :: nat
  assumes "2 ^ k dvd p"
  shows "2 ^ k XOR p = bud p k" and "p AND bud p k = min p (bud p k)"
proof -
  obtain q where q: "p = 2 ^ k * q" using assms by (auto elim: dvdE)
  have p: "p = push_bit k q" "2 ^ k = push_bit k (1 :: nat)" by (simp_all add: q push_bit_eq_mult)
  have b: "bud p k = push_bit k (if even q then q + 1 else q - 1)"
    by (auto simp: q bud_def push_bit_eq_mult algebra_simps)
  have x: "1 XOR q = (if even q then q + 1 else q - 1)"
    using Suc_0_xor_eq [of q] by simp
  show "2 ^ k XOR p = bud p k"
    unfolding p(2) by (subst p(1), subst push_bit_xor [symmetric]) (simp only: b x)
  have a: "q AND (if even q then q + 1 else q - 1) = min q (if even q then q + 1 else q - 1)"
    using nat_and_even_odd by (auto elim!: evenE oddE simp: and.commute)
  have "p AND bud p k = push_bit k (min q (if even q then q + 1 else q - 1))"
    unfolding b by (subst p(1), subst push_bit_and [symmetric]) (simp only: a)
  also have "\<dots> = min p (bud p k)"
    unfolding b by (subst p(1)) (simp only: push_bit_eq_mult nat_mult_min_left)
  finally show "p AND bud p k = min p (bud p k)" .
qed

lemma bud_offset:
  assumes "2 ^ Suc k dvd c" and "2 ^ k dvd i"
  shows "bud (c + i) k = c + bud i k"
proof -
  obtain a q where a: "c = 2 ^ Suc k * a" "i = 2 ^ k * q" using assms by (auto elim!: dvdE)
  then have "(c + i) div 2 ^ k = 2 * a + q" by (simp add: algebra_simps flip: distrib_left)
  then show ?thesis
    using a by (cases "even q") (auto simp: bud_def elim!: oddE)
qed

text \<open>
  The page array covers whole blocks of the top order: its first frame number and its length are
  multiples of 1024, and all frame numbers fit in 32 bits.
\<close>

definition frames_ok :: "buddy \<Rightarrow> bool" where
  "frames_ok b \<longleftrightarrow> 1024 dvd unat (g_pfn_offset b) \<and> 1024 dvd g_nr_pages b \<and>
     unat (g_pfn_offset b) + g_nr_pages b < 2 ^ 32"

lemma pow_dvd_1024: "k \<le> 10 \<Longrightarrow> 2 ^ k dvd (1024 :: nat)"
  using le_imp_power_dvd [of k 10 "2 :: nat"] by simp

lemma frames_dvd: "frames_ok b \<Longrightarrow> k \<le> 10 \<Longrightarrow> 2 ^ k dvd unat (g_pfn_offset b) \<and> 2 ^ k dvd g_nr_pages b"
  unfolding frames_ok_def using pow_dvd_1024 [of k] by (auto intro: dvd_trans)

lemma page_to_pfn_unat: "frames_ok b \<Longrightarrow> i < g_nr_pages b \<Longrightarrow> unat (page_to_pfn b i) = unat (g_pfn_offset b) + i"
proof -
  assume f: "frames_ok b" and i: "i < g_nr_pages b"
  then have u: "unat (of_nat i :: u32) = i" by (simp add: frames_ok_def unat_of_nat)
  then have "unat (of_nat i :: u32) + unat (g_pfn_offset b) < 2 ^ 32" using f i by (simp add: frames_ok_def)
  then show ?thesis using u by (simp add: page_to_pfn_def unat_add_lem [THEN iffD1])
qed

lemma pfn_page_inverse: "frames_ok b \<Longrightarrow> i < g_nr_pages b \<Longrightarrow> pfn_to_page b (page_to_pfn b i) = i"
  by (simp add: pfn_to_page_def page_to_pfn_def unat_of_nat frames_ok_def)

lemma buddy_pfn:
  assumes "frames_ok b" and "2 ^ k dvd i" and "i + 2 ^ k \<le> g_nr_pages b" and "k < 10"
  shows "push_bit k 1 XOR page_to_pfn b i = page_to_pfn b (bud i k)"
    and "page_to_pfn b i AND page_to_pfn b (bud i k) = page_to_pfn b (min i (bud i k))"
    and "bud i k + 2 ^ k \<le> g_nr_pages b"
proof -
  let ?c = "unat (g_pfn_offset b)"
  have dv: "2 ^ Suc k dvd ?c" "2 ^ Suc k dvd g_nr_pages b"
    using frames_dvd [OF assms(1), of "Suc k"] assms(4) by auto
  show le: "bud i k + 2 ^ k \<le> g_nr_pages b" by (rule bud_range [OF assms(2,3) dv(2)])
  have pos: "(0 :: nat) < 2 ^ k" by simp
  have lt: "i < g_nr_pages b" "bud i k < g_nr_pages b" using assms(3) le pos by linarith+
  have "2 ^ k dvd ?c" using dv(1) by (auto elim!: dvdE)
  then have dvp: "2 ^ k dvd ?c + i" using assms(2) by simp
  have u: "unat (page_to_pfn b i) = ?c + i" "unat (page_to_pfn b (bud i k)) = ?c + bud i k"
    using page_to_pfn_unat [OF assms(1)] lt by auto
  have "unat (push_bit k 1 XOR page_to_pfn b i) = 2 ^ k XOR (?c + i)"
    using assms(4) by (simp add: unsigned_xor_eq u unat_push_bit_1 del: push_bit_of_1)
  also have "\<dots> = unat (page_to_pfn b (bud i k))"
    by (simp add: bud_xor(1) [OF dvp] bud_offset [OF dv(1) assms(2)] u)
  finally show "push_bit k 1 XOR page_to_pfn b i = page_to_pfn b (bud i k)"
    by (rule unsigned_word_eqI)
  have "unat (page_to_pfn b i AND page_to_pfn b (bud i k)) = (?c + i) AND bud (?c + i) k"
    by (simp add: unsigned_and_eq u bud_offset [OF dv(1) assms(2)])
  also have "\<dots> = ?c + min i (bud i k)"
    by (subst bud_xor(2) [OF dvp]) (simp add: bud_offset [OF dv(1) assms(2)] min_def)
  also have "\<dots> = unat (page_to_pfn b (min i (bud i k)))"
    using lt page_to_pfn_unat [OF assms(1), of "min i (bud i k)"] by simp
  finally show "page_to_pfn b i AND page_to_pfn b (bud i k) = page_to_pfn b (min i (bud i k))"
    by (rule unsigned_word_eqI)
qed

section \<open>Coalescing\<close>

text \<open>The invariant of the allocator.\<close>

definition buddy_inv :: "buddy \<Rightarrow> bool" where
  "buddy_inv b \<longleftrightarrow> (\<exists>L. lists_ok b L) \<and> blocks_ok (g_nr_pages b) (fmap b) \<and> merged (fmap b) \<and> frames_ok b"

definition free_pages :: "buddy \<Rightarrow> nat set" where
  "free_pages b = free_of (fmap b)"

text \<open>The frame of an operation: sizes and offset stay, and so do the other descriptors' slab flags.\<close>

definition same_array :: "buddy \<Rightarrow> buddy \<Rightarrow> bool" where
  "same_array b b' \<longleftrightarrow> g_nr_pages b' = g_nr_pages b \<and> g_pfn_offset b' = g_pfn_offset b \<and>
     (\<forall>i. in_slab (g_mem_pages b' i) = in_slab (g_mem_pages b i))"

lemma same_array_refl [simp]: "same_array b b"
  by (simp add: same_array_def)

lemma same_array_trans: "same_array b c \<Longrightarrow> same_array c d \<Longrightarrow> same_array b d"
  by (simp add: same_array_def)

lemma add_to_list_same: "buddy_add_to_list b i k = Some b' \<Longrightarrow> same_array b b'"
  by (auto simp: buddy_add_to_list_def same_array_def split: if_splits)

lemma del_from_list_same: "buddy_del_from_list b i = Some b' \<Longrightarrow> same_array b b'"
  by (auto simp: buddy_del_from_list_def same_array_def Let_def split: if_splits)

lemma frames_ok_same: "same_array b b' \<Longrightarrow> frames_ok b' = frames_ok b"
  by (simp add: same_array_def frames_ok_def)

lemma page_to_pfn_same: "same_array b b' \<Longrightarrow> page_to_pfn b' i = page_to_pfn b i"
  by (simp add: same_array_def page_to_pfn_def)

lemma buddy_inv_fmap: "buddy_inv b \<Longrightarrow> fmap b i = Some k \<Longrightarrow> k < 11 \<and> 2 ^ k dvd i \<and> i + 2 ^ k \<le> g_nr_pages b"
  unfolding buddy_inv_def blocks_ok_def by blast

lemma buddy_inv_del:
  assumes "buddy_inv b" and "fmap b i = Some k"
  shows "\<exists>b'. buddy_del_from_list b i = Some b' \<and> buddy_inv b' \<and> same_array b b' \<and>
    fmap b' = (fmap b)(i := None) \<and> free_pages b' = free_pages b - blk i k"
proof -
  obtain L where L: "lists_ok b L" and bo: "blocks_ok (g_nr_pages b) (fmap b)" and m: "merged (fmap b)"
    and f: "frames_ok b" using assms(1) by (auto simp: buddy_inv_def)
  obtain b' where b': "buddy_del_from_list b i = Some b'" "lists_ok b' (L(k := remove1 i (L k)))"
    "fmap b' = (fmap b)(i := None)" "g_nr_pages b' = g_nr_pages b"
    using del_from_list_ok [OF L assms(2)] by blast
  have s: "same_array b b'" by (rule del_from_list_same [OF b'(1)])
  have "buddy_inv b'"
    unfolding buddy_inv_def using b'(2,3,4) blocks_ok_del [OF bo] merged_del [OF m] f frames_ok_same [OF s]
    by auto
  moreover have "free_pages b' = free_pages b - blk i k"
    using free_of_del [OF bo assms(2)] b'(3) by (simp add: free_pages_def)
  ultimately show ?thesis using b' s by blast
qed

lemma buddy_inv_add:
  assumes inv: "buddy_inv b" and k: "k < 11" and d: "2 ^ k dvd i" and r: "i + 2 ^ k \<le> g_nr_pages b"
    and dj: "blk i k \<inter> free_pages b = {}" and nb: "k < 10 \<Longrightarrow> fmap b (bud i k) \<noteq> Some k"
  shows "\<exists>b'. buddy_add_to_list b i k = Some b' \<and> buddy_inv b' \<and> same_array b b' \<and>
    fmap b' = (fmap b)(i \<mapsto> k) \<and> free_pages b' = free_pages b \<union> blk i k"
proof -
  obtain L where L: "lists_ok b L" and bo: "blocks_ok (g_nr_pages b) (fmap b)" and m: "merged (fmap b)"
    and f: "frames_ok b" using inv by (auto simp: buddy_inv_def)
  have none: "fmap b i = None" using dj by (auto simp: free_pages_def intro: not_free_None)
  have pos: "(0 :: nat) < 2 ^ k" by simp
  then have lt: "i < g_nr_pages b" using r by linarith
  obtain b' where b': "buddy_add_to_list b i k = Some b'" "lists_ok b' (L(k := i # L k))"
    "fmap b' = (fmap b)(i \<mapsto> k)" "g_nr_pages b' = g_nr_pages b"
    using add_to_list_ok [OF L k lt none] by blast
  have s: "same_array b b'" by (rule add_to_list_same [OF b'(1)])
  have al: "\<forall>j l. fmap b j = Some l \<longrightarrow> 2 ^ l dvd j" using buddy_inv_fmap [OF inv] by blast
  have "blocks_ok (g_nr_pages b) ((fmap b)(i \<mapsto> k))"
    by (rule blocks_ok_add [OF bo k d r dj [unfolded free_pages_def]])
  moreover have "merged ((fmap b)(i \<mapsto> k))"
    by (rule merged_add [OF m d none al nb])
  ultimately have "buddy_inv b'"
    unfolding buddy_inv_def using b' f frames_ok_same [OF s] by auto
  moreover have "free_pages b' = free_pages b \<union> blk i k"
    using b'(3) free_of_upd [of "fmap b" i k, OF none] by (simp add: free_pages_def)
  ultimately show ?thesis using b' s by blast
qed

text \<open>Giving a block back makes exactly its pages free, whatever merging happens.\<close>

lemma buddy_add_page_ok:
  assumes "buddy_inv b" and "k < 11" and "2 ^ k dvd i" and "i + 2 ^ k \<le> g_nr_pages b"
    and "blk i k \<inter> free_pages b = {}"
  shows "\<exists>b'. buddy_add_page b (page_to_pfn b i) k = Some b' \<and> buddy_inv b' \<and> same_array b b' \<and>
    free_pages b' = free_pages b \<union> blk i k"
  using assms
proof (induction "10 - k" arbitrary: b k i)
  case 0
  then have k: "k = 10" by simp
  have f: "frames_ok b" using 0(2) by (simp add: buddy_inv_def)
  have "(0 :: nat) < 2 ^ k" by simp
  then have lt: "i < g_nr_pages b" using 0(5) by linarith
  have "buddy_add_page b (page_to_pfn b i) k = buddy_add_to_list b i k"
    by (subst buddy_add_page.simps) (simp add: k page_consts pfn_page_inverse [OF f lt])
  with buddy_inv_add [OF 0(2-6)] k show ?case by auto
next
  case (Suc n)
  have k: "k < 10" using Suc(2) by simp
  have f: "frames_ok b" using Suc(3) by (simp add: buddy_inv_def)
  have pos: "(0 :: nat) < 2 ^ k" by simp
  then have lt: "i < g_nr_pages b" using Suc(6) by linarith
  let ?j = "bud i k"
  note bp = buddy_pfn [OF f Suc(5,6) k]
  have jlt: "?j < g_nr_pages b" using bp(3) pos by linarith
  have ex: "buddy_exist b ?j k = Some (fmap b ?j = Some k)"
    using jlt by (auto simp: buddy_exist_def fmap_def)
  show ?case
  proof (cases "fmap b ?j = Some k")
    case False
    then have "buddy_add_page b (page_to_pfn b i) k = buddy_add_to_list b i k"
      using k by (subst buddy_add_page.simps)
        (simp add: page_consts Let_def bp(1) ex pfn_page_inverse [OF f] lt jlt del: push_bit_of_1)
    with buddy_inv_add [OF Suc(3-7)] False show ?thesis by auto
  next
    case True
    obtain b1 where b1: "buddy_del_from_list b ?j = Some b1" "buddy_inv b1" "same_array b b1"
      "free_pages b1 = free_pages b - blk ?j k"
      using buddy_inv_del [OF Suc(3) True] by blast
    let ?m = "min i ?j"
    have step: "buddy_add_page b (page_to_pfn b i) k = buddy_add_page b1 (page_to_pfn b1 ?m) (Suc k)"
      using k True b1(1) by (subst buddy_add_page.simps)
        (simp add: page_consts Let_def bp(1,2) ex pfn_page_inverse [OF f] lt jlt
          page_to_pfn_same [OF b1(3)] del: push_bit_of_1)
    note j = bud_join [OF Suc(5)]
    have n: "g_nr_pages b1 = g_nr_pages b" using b1(3) by (simp add: same_array_def)
    have sub: "blk ?j k \<subseteq> free_pages b" unfolding free_pages_def by (rule blk_free) (rule True)
    have "?m + 2 ^ Suc k \<le> g_nr_pages b1"
      using bud_cases [OF Suc(5)] Suc(6) bp(3) n by (auto simp: min_def)
    moreover have "blk ?m (Suc k) \<inter> free_pages b1 = {}"
      using j(2) b1(4) Suc(7) by blast
    moreover have "n = 10 - Suc k" "Suc k < 11" using Suc(2) k by auto
    ultimately obtain b' where "buddy_add_page b1 (page_to_pfn b1 ?m) (Suc k) = Some b'" "buddy_inv b'"
      "same_array b1 b'" "free_pages b' = free_pages b1 \<union> blk ?m (Suc k)"
      using Suc(1) [OF _ b1(2) _ j(1)] by blast
    moreover from this(4) have "free_pages b' = free_pages b \<union> blk i k"
      using j(2) b1(4) sub by blast
    ultimately show ?thesis using step same_array_trans [OF b1(3)] by auto
  qed
qed

section \<open>Splitting and allocation\<close>

lemma buddy_split_ok:
  assumes "buddy_inv b" and "l \<le> h" and "h < 11" and "2 ^ h dvd i" and "i + 2 ^ h \<le> g_nr_pages b"
    and "blk i h \<inter> free_pages b = {}"
  shows "\<exists>b'. buddy_split b i l h = Some b' \<and> buddy_inv b' \<and> same_array b b' \<and>
    free_pages b' = free_pages b \<union> (blk i h - blk i l)"
  using assms
proof (induction b i l h rule: buddy_split.induct)
  case (1 b i l)
  then show ?case by auto
next
  case (2 b i l h)
  show ?case
  proof (cases "l < Suc h")
    case False
    with 2(3) have "l = Suc h" by simp
    with 2(2) show ?thesis by auto
  next
    case True
    have d: "2 ^ h dvd i" using 2(5) by (auto elim!: dvdE)
    let ?j = "i + 2 ^ h"
    have dj: "2 ^ h dvd ?j" using d by simp
    have b: "bud i h = ?j" using 2(5) by (auto simp: bud_def elim!: dvdE)
    have bj: "bud ?j h = i" using bud_bud [OF d] b by simp
    have un: "blk i (Suc h) = blk i h \<union> blk ?j h" "blk i h \<inter> blk ?j h = {}"
      by (auto simp: blk_def)
    have none: "fmap b i = None"
      using 2(7) unfolding free_pages_def by (rule not_free_None)
    have r: "?j + 2 ^ h \<le> g_nr_pages b" using 2(6) by simp
    have dis: "blk ?j h \<inter> free_pages b = {}" using un 2(7) by blast
    have h: "h < 11" "h < 10" using 2(4) by auto
    obtain b1 where b1: "buddy_add_to_list b ?j h = Some b1" "buddy_inv b1" "same_array b b1"
      "free_pages b1 = free_pages b \<union> blk ?j h"
      using buddy_inv_add [OF 2(2) h(1) dj r dis] bj none by auto
    have n: "i + 2 ^ h \<le> g_nr_pages b1" using 2(6) b1(3) by (simp add: same_array_def)
    have dis1: "blk i h \<inter> free_pages b1 = {}" using b1(4) un 2(7) by blast
    obtain b' where b': "buddy_split b1 i l h = Some b'" "buddy_inv b'" "same_array b1 b'"
      "free_pages b' = free_pages b1 \<union> (blk i h - blk i l)"
      using 2(1) [OF True b1(1) b1(2) _ h(1) d n dis1] True by auto
    have "blk i l \<subseteq> blk i h" using True by (auto simp: blk_def intro: less_le_trans)
    then have "free_pages b' = free_pages b \<union> (blk i (Suc h) - blk i l)"
      using b'(4) b1(4) un by blast
    with b' b1 True show ?thesis using same_array_trans by auto
  qed
qed

lemma find_order_props:
  "h \<le> 11 \<Longrightarrow> h \<le> find_order b h \<and> find_order b h \<le> 11 \<and>
     (find_order b h < 11 \<longrightarrow> g_nr_free b (find_order b h) \<noteq> 0) \<and>
     (\<forall>k. h \<le> k \<and> k < find_order b h \<longrightarrow> g_nr_free b k = 0)"
proof (induction b h rule: find_order.induct)
  case (1 b h)
  show ?case
  proof (cases "h < 11 \<and> g_nr_free b h = 0")
    case True
    then have "find_order b h = find_order b (Suc h)"
      by (subst find_order.simps) (simp add: page_consts)
    with 1 True show ?thesis
      by (auto simp: page_consts) (metis Suc_leI le_neq_implies_less)+
  next
    case False
    then have "find_order b h = h" by (subst find_order.simps) (auto simp: page_consts)
    with False 1(2) show ?thesis by auto
  qed
qed

lemma get_order_loop_props:
  "k \<le> 11 \<Longrightarrow> k \<le> get_order_loop n k \<and> get_order_loop n k \<le> 11 \<and>
     (get_order_loop n k < 11 \<longrightarrow> unat n \<le> 2 ^ get_order_loop n k) \<and>
     (\<forall>j. k \<le> j \<and> j < get_order_loop n k \<longrightarrow> 2 ^ j < unat n)"
proof (induction n k rule: get_order_loop.induct)
  case (1 n k)
  have p: "unat (push_bit k 1 :: u32) = 2 ^ k" using 1(2) by (intro unat_push_bit_1) simp
  show ?case
  proof (cases "push_bit k 1 < n \<and> k < 11")
    case True
    then have "get_order_loop n k = get_order_loop n (Suc k)"
      by (subst get_order_loop.simps) (simp add: page_consts)
    with 1(1) True p show ?thesis
      by (auto simp: page_consts word_less_nat_alt) (metis Suc_leI le_neq_implies_less)+
  next
    case False
    then have "get_order_loop n k = k" by (subst get_order_loop.simps) (auto simp: page_consts)
    with False 1(2) p show ?thesis by (auto simp: word_less_nat_alt)
  qed
qed

text \<open>The number of pages a request needs.\<close>

definition pages_needed :: "u32 \<Rightarrow> nat" where
  "pages_needed sz = (unat sz + 4095) div 4096"

lemma page_count: "unat (ucast (drop_bit PAGE_SHIFT (PAGE_ALIGN (ucast sz))) :: u32) = pages_needed sz"
proof -
  have u: "unat (ucast sz :: u64) = unat sz" by (rule unat_ucast_u32_u64)
  have "unat sz < 2 ^ 32" by (rule unat_u32_lt)
  then have lt: "unat sz + (2 ^ 12 - 1) < 2 ^ 64" by simp
  have "PAGE_ALIGN (ucast sz) = ALIGN_UP (ucast sz) (2 ^ 12)"
    by (simp add: PAGE_ALIGN_def ALIGN_UP_def page_consts add.commute)
  then have "unat (PAGE_ALIGN (ucast sz)) = (unat sz + (2 ^ 12 - 1)) div 2 ^ 12 * 2 ^ 12"
    using ALIGN_UP_unat [of 12 "ucast sz"] lt u by simp
  then have "unat (drop_bit PAGE_SHIFT (PAGE_ALIGN (ucast sz))) = pages_needed sz"
    by (simp add: unat_drop_bit page_consts pages_needed_def)
  moreover have "pages_needed sz < 2 ^ 32" using unat_u32_lt [of sz] by (simp add: pages_needed_def)
  ultimately show ?thesis by (simp add: unsigned_ucast_eq take_bit_eq_mod)
qed

lemma get_order_props:
  "get_order sz \<le> 11 \<and> (get_order sz < 11 \<longrightarrow> pages_needed sz \<le> 2 ^ get_order sz) \<and>
     (\<forall>j < get_order sz. 2 ^ j < pages_needed sz)"
  using get_order_loop_props [of 0 "ucast (drop_bit PAGE_SHIFT (PAGE_ALIGN (ucast sz)))"]
  unfolding get_order_def page_count by auto

lemma first_page:
  assumes "buddy_inv b" and "h < 11" and "g_nr_free b h \<noteq> 0"
  shows "\<exists>i. page_of_node (dlist_first (g_links b) (Area h)) = Some i \<and> fmap b i = Some h"
proof -
  obtain L where L: "lists_ok b L" using assms(1) by (auto simp: buddy_inv_def)
  have "unat (g_nr_free b h) \<noteq> 0" using assms(3) by (simp add: unat_eq_0)
  then have "L h \<noteq> []" using L assms(2) by (auto simp: lists_ok_def)
  then obtain i xs where x: "L h = i # xs" by (cases "L h") auto
  have "dlist_first (g_links b) (Area h) = Pg i"
    using dl.rep_first [of "g_links b" areas "area_lists L" "Area h"] L assms(2) x
    by (simp add: lists_ok_def)
  moreover have "i \<in> set (L h)" using x by simp
  then have "fmap b i = Some h" using L assms(2) unfolding lists_ok_def by blast
  ultimately show ?thesis by (simp add: page_of_node_def)
qed

lemma no_area:
  assumes "buddy_inv b" and "k < 11" and "g_nr_free b k = 0"
  shows "fmap b i \<noteq> Some k"
proof -
  obtain L where L: "lists_ok b L" using assms(1) by (auto simp: buddy_inv_def)
  have "L k = []" using L assms(2,3) by (auto simp: lists_ok_def)
  then show ?thesis using L assms(2) by (auto simp: lists_ok_def)
qed

lemma set_order_inv:
  assumes "buddy_inv b" and "fmap b i = None"
  shows "let b' = b\<lparr>g_mem_pages := (g_mem_pages b)(i := (g_mem_pages b i)\<lparr>porder := k\<rparr>)\<rparr>
    in buddy_inv b' \<and> same_array b b' \<and> fmap b' = fmap b"
proof -
  let ?b = "b\<lparr>g_mem_pages := (g_mem_pages b)(i := (g_mem_pages b i)\<lparr>porder := k\<rparr>)\<rparr>"
  have f: "fmap ?b = fmap b" using assms(2) by (auto simp: fmap_def fun_eq_iff split: if_splits)
  have "lists_ok ?b L = lists_ok b L" for L by (simp add: lists_ok_def f)
  moreover have "frames_ok ?b = frames_ok b" by (simp add: frames_ok_def)
  ultimately have "buddy_inv ?b" using assms(1) f by (simp add: buddy_inv_def)
  then show ?thesis using f by (simp add: Let_def same_array_def)
qed

text \<open>The allocator on every branch.\<close>

lemma buddy_alloc_ok:
  assumes inv: "buddy_inv b"
  shows "\<exists>r b'. buddy_alloc_pages b sz = Some (r, b') \<and> buddy_inv b' \<and> same_array b b' \<and>
    (case r of
       None \<Rightarrow> b' = b \<and> (\<forall>i k. fmap b i = Some k \<longrightarrow> k < get_order sz)
     | Some i \<Rightarrow> get_order sz < 11 \<and> blk i (get_order sz) \<subseteq> free_pages b \<and>
         free_pages b' = free_pages b - blk i (get_order sz) \<and>
         2 ^ get_order sz dvd i \<and> i + 2 ^ get_order sz \<le> g_nr_pages b \<and>
         porder (g_mem_pages b' i) = get_order sz \<and> \<not> in_buddy (g_mem_pages b' i))"
proof -
  let ?o = "get_order sz" and ?h = "find_order b (get_order sz)"
  have go: "?o \<le> 11" using get_order_props by blast
  note fo = find_order_props [OF go, of b]
  show ?thesis
  proof (cases "?h < 11")
    case False
    then have "buddy_alloc_pages b sz = Some (None, b)"
      by (simp add: buddy_alloc_pages_def page_consts Let_def)
    moreover have "k < ?o" if "fmap b i = Some k" for i k
    proof (rule ccontr)
      assume "\<not> k < ?o"
      moreover have "k < 11" using buddy_inv_fmap [OF inv that] by blast
      ultimately have "g_nr_free b k = 0" using fo False by auto
      with no_area [OF inv \<open>k < 11\<close>] that show False by blast
    qed
    ultimately show ?thesis using inv by auto
  next
    case True
    then obtain i where i: "page_of_node (dlist_first (g_links b) (Area ?h)) = Some i" "fmap b i = Some ?h"
      using first_page [OF inv True] fo by blast
    note fi = buddy_inv_fmap [OF inv i(2)]
    obtain b1 where b1: "buddy_del_from_list b i = Some b1" "buddy_inv b1" "same_array b b1"
      "fmap b1 = (fmap b)(i := None)" "free_pages b1 = free_pages b - blk i ?h"
      using buddy_inv_del [OF inv i(2)] by blast
    have r: "i + 2 ^ ?h \<le> g_nr_pages b1" using fi b1(3) by (simp add: same_array_def)
    have dj: "blk i ?h \<inter> free_pages b1 = {}" using b1(5) by blast
    have lo: "?o \<le> ?h" using fo by blast
    have d: "2 ^ ?h dvd i" using fi by blast
    obtain b2 where b2: "buddy_split b1 i ?o ?h = Some b2" "buddy_inv b2" "same_array b1 b2"
      "free_pages b2 = free_pages b1 \<union> (blk i ?h - blk i ?o)"
      using buddy_split_ok [OF b1(2) lo True d r dj] by blast
    let ?b3 = "b2\<lparr>g_mem_pages := (g_mem_pages b2)(i := (g_mem_pages b2 i)\<lparr>porder := ?o\<rparr>)\<rparr>"
    have sub: "blk i ?o \<subseteq> blk i ?h" "blk i ?h \<subseteq> free_pages b"
      using lo power_increasing [OF lo, of "2 :: nat"] blk_free [of "fmap b" i ?h] i(2)
      by (auto simp: blk_def free_pages_def)
    have fp: "free_pages b2 = free_pages b - blk i ?o" using b2(4) b1(5) sub by blast
    have none: "fmap b2 i = None"
      using fp by (intro not_free_None [of i ?o]) (auto simp: free_pages_def)
    have o: "?o < 11" using lo True by simp
    have res: "buddy_alloc_pages b sz = Some (Some i, ?b3)"
      using True i(1) b1(1) b2(1) o by (simp add: buddy_alloc_pages_def page_consts Let_def)
    note so = set_order_inv [OF b2(2) none, of ?o, unfolded Let_def]
    have n2: "g_nr_pages b2 = g_nr_pages b" using b1(3) b2(3) by (simp add: same_array_def)
    have "(0 :: nat) < 2 ^ ?h" by simp
    then have ilt: "i < g_nr_pages b2" using fi n2 by linarith
    have nb: "\<not> in_buddy (g_mem_pages b2 i)" using none ilt by (simp add: fmap_def split: if_splits)
    have fb: "free_pages ?b3 = free_pages b - blk i ?o" using so fp by (simp add: free_pages_def)
    have al: "2 ^ ?o dvd i" using d lo by (metis dvd_trans le_imp_power_dvd)
    have "(2 :: nat) ^ ?o \<le> 2 ^ ?h" using lo by simp
    then have rg: "i + 2 ^ ?o \<le> g_nr_pages b" using fi by linarith
    have sa: "same_array b ?b3"
      using so same_array_trans [OF b1(3) same_array_trans [OF b2(3)]] by blast
    show ?thesis
      using res so sa o sub fb al rg nb by (intro exI [of _ "Some i"] exI [of _ ?b3]) auto
  qed
qed

section \<open>Ranges\<close>

lemma pfn_order_align_loop_props:
  "k \<le> 10 \<Longrightarrow> 2 ^ k dvd unat pfn \<Longrightarrow>
     pfn_order_align_loop pfn k \<le> 10 \<and> 2 ^ pfn_order_align_loop pfn k dvd unat pfn"
proof (induction pfn k rule: pfn_order_align_loop.induct)
  case (1 pfn k)
  show ?case
  proof (cases "drop_bit k pfn AND 1 = 0 \<and> k < 10")
    case True
    then have "even (drop_bit k pfn)" unfolding and_one_eq even_iff_mod_2_eq_zero by blast
    then have "\<not> bit (unat pfn) k" unfolding bit_unsigned_iff by (simp add: bit_iff_odd_drop_bit)
    then have "even (unat pfn div 2 ^ k)" by (simp add: bit_iff_odd)
    then have "2 ^ Suc k dvd unat pfn" using 1(3) by (auto elim!: dvdE evenE)
    moreover have "pfn_order_align_loop pfn k = pfn_order_align_loop pfn (Suc k)"
      using True by (subst pfn_order_align_loop.simps) (simp add: page_consts)
    ultimately show ?thesis using 1(1) True by (simp add: page_consts)
  next
    case False
    then have "pfn_order_align_loop pfn k = k"
      by (subst pfn_order_align_loop.simps) (auto simp: page_consts)
    with 1 show ?thesis by simp
  qed
qed

lemma pfn_order_align_props: "pfn_order_align pfn \<le> 10 \<and> 2 ^ pfn_order_align pfn dvd unat pfn"
  using pfn_order_align_loop_props [of 0 pfn] by (simp add: pfn_order_align_def)

lemma page_to_pfn_add: "page_to_pfn b i + push_bit k 1 = page_to_pfn b (i + 2 ^ k)"
  by (simp add: page_to_pfn_def)

lemma free_range_loop_ok:
  assumes "buddy_inv b" and "i + unat nr \<le> g_nr_pages b" and "{i ..< i + unat nr} \<inter> free_pages b = {}"
  shows "\<exists>b'. free_range_loop b (page_to_pfn b i) nr = Some b' \<and> buddy_inv b' \<and> same_array b b' \<and>
    free_pages b' = free_pages b \<union> {i ..< i + unat nr}"
  using assms
proof (induction "unat nr" arbitrary: b i nr rule: less_induct)
  case less
  show ?case
  proof (cases "nr = 0")
    case True
    then show ?thesis using less(2) by (subst free_range_loop.simps) simp
  next
    case False
    let ?k = "if order_max_pages nr < pfn_order_align (page_to_pfn b i) then order_max_pages nr
              else pfn_order_align (page_to_pfn b i)"
    obtain k where k: "k = ?k" by blast
    have km: "k \<le> order_max_pages nr" "k \<le> pfn_order_align (page_to_pfn b i)" by (auto simp: k)
    have k11: "k < 11" "k \<le> 10" using km(1) order_max_pages_bound [of nr] by auto
    note d = range_loop_decr [OF False km(1)]
    have pos: "(0 :: nat) < 2 ^ k" by simp
    have nz: "0 < unat nr" using False by (simp add: unat_gt_0)
    have f: "frames_ok b" using less(2) by (simp add: buddy_inv_def)
    have lt: "i < g_nr_pages b" using less(3) nz by simp
    have "2 ^ k dvd unat (page_to_pfn b i)"
      using pfn_order_align_props km(2) by (metis dvd_trans le_imp_power_dvd)
    then have al: "2 ^ k dvd i"
      using page_to_pfn_unat [OF f lt] frames_dvd [OF f k11(2)] by (metis dvd_add_right_iff)
    have r: "i + 2 ^ k \<le> g_nr_pages b" using d(2) less(3) by linarith
    have sub: "blk i k \<subseteq> {i ..< i + unat nr}" using d(2) by (auto simp: blk_def)
    then have "blk i k \<inter> free_pages b = {}" using less(4) by blast
    then obtain b1 where b1: "buddy_add_page b (page_to_pfn b i) k = Some b1" "buddy_inv b1"
      "same_array b b1" "free_pages b1 = free_pages b \<union> blk i k"
      using buddy_add_page_ok [OF less(2) k11(1) al r] by blast
    let ?nr = "nr - push_bit k 1"
    have n: "unat ?nr < unat nr" "i + 2 ^ k + unat ?nr = i + unat nr"
      using d pos nz by (simp_all del: push_bit_of_1)
    have r1: "i + 2 ^ k + unat ?nr \<le> g_nr_pages b1"
      unfolding n(2) using less(3) b1(3) by (simp add: same_array_def)
    have sp: "{i ..< i + unat nr} = blk i k \<union> {i + 2 ^ k ..< i + 2 ^ k + unat ?nr}"
      unfolding n(2) using d(2) by (auto simp: blk_def)
    have "{i + 2 ^ k ..< i + 2 ^ k + unat ?nr} \<inter> blk i k = {}" by (auto simp: blk_def)
    then have dj1: "{i + 2 ^ k ..< i + 2 ^ k + unat ?nr} \<inter> free_pages b1 = {}"
      using b1(4) less(4) sp by blast
    obtain b' where b': "free_range_loop b1 (page_to_pfn b1 (i + 2 ^ k)) ?nr = Some b'" "buddy_inv b'"
      "same_array b1 b'" "free_pages b' = free_pages b1 \<union> {i + 2 ^ k ..< i + 2 ^ k + unat ?nr}"
      using less(1) [OF n(1) b1(2) r1 dj1] by blast
    have "free_range_loop b (page_to_pfn b i) nr =
        free_range_loop b1 (page_to_pfn b i + push_bit k 1) ?nr"
      using False b1(1) by (subst free_range_loop.simps) (simp add: Let_def k [symmetric])
    then have "free_range_loop b (page_to_pfn b i) nr = Some b'"
      using b'(1) page_to_pfn_same [OF b1(3)] by (simp only: page_to_pfn_add)
    moreover have "free_pages b' = free_pages b \<union> {i ..< i + unat nr}"
      unfolding sp using b'(4) b1(4) by blast
    ultimately show ?thesis using b'(2) same_array_trans [OF b1(3) b'(3)] by blast
  qed
qed

section \<open>Properties\<close>

text \<open>
  (C35) The page allocator is sound and complete on every branch: with the invariant (linked lists
  consistent with counters and page flags, blocks aligned, inside the array, disjoint, coalescing
  complete), an allocation never accesses a page outside the array, and either returns a page whose
  block of the requested order was entirely free, is aligned, big enough for the request and exactly
  the part removed from the free pages, or returns the null page and changes nothing, and then no
  free block is large enough.
\<close>

theorem buddy_alloc_pages_correct:
  assumes "buddy_inv b"
  shows "\<exists>r b'. buddy_alloc_pages b sz = Some (r, b') \<and> buddy_inv b' \<and>
    (case r of
       None \<Rightarrow> b' = b \<and> (\<forall>i k. fmap b i = Some k \<longrightarrow> 2 ^ k < pages_needed sz \<or> 2 ^ 10 < pages_needed sz)
     | Some i \<Rightarrow> let k = porder (g_mem_pages b' i) in
         pages_needed sz \<le> 2 ^ k \<and> 2 ^ k dvd i \<and> {i ..< i + 2 ^ k} \<subseteq> free_pages b \<and>
         free_pages b' = free_pages b - {i ..< i + 2 ^ k} \<and> \<not> in_buddy (g_mem_pages b' i))"
proof -
  obtain r b' where a: "buddy_alloc_pages b sz = Some (r, b')" "buddy_inv b'"
    "case r of
       None \<Rightarrow> b' = b \<and> (\<forall>i k. fmap b i = Some k \<longrightarrow> k < get_order sz)
     | Some i \<Rightarrow> get_order sz < 11 \<and> blk i (get_order sz) \<subseteq> free_pages b \<and>
         free_pages b' = free_pages b - blk i (get_order sz) \<and>
         2 ^ get_order sz dvd i \<and> i + 2 ^ get_order sz \<le> g_nr_pages b \<and>
         porder (g_mem_pages b' i) = get_order sz \<and> \<not> in_buddy (g_mem_pages b' i)"
    using buddy_alloc_ok [OF assms, of sz] by blast
  show ?thesis
  proof (cases r)
    case None
    with a get_order_props [of sz] show ?thesis by (intro exI [of _ None] exI [of _ b']) auto
  next
    case (Some i)
    with a get_order_props [of sz] show ?thesis
      by (intro exI [of _ "Some i"] exI [of _ b']) (auto simp: blk_def Let_def)
  qed
qed

text \<open>
  (C36) Freeing is the exact inverse on the set of free pages: a block that an allocated page
  describes, aligned and disjoint from the free pages, becomes free and nothing else changes; the
  merging loop reads only pages of the array and leaves no two free buddies behind.
\<close>

theorem buddy_free_pages_correct:
  assumes "buddy_inv b" and "k = porder (g_mem_pages b i)" and "k < 11" and "2 ^ k dvd i"
    and "i + 2 ^ k \<le> g_nr_pages b" and "{i ..< i + 2 ^ k} \<inter> free_pages b = {}"
  shows "\<exists>b'. buddy_free_pages b i = Some b' \<and> buddy_inv b' \<and>
    free_pages b' = free_pages b \<union> {i ..< i + 2 ^ k} \<and>
    (\<forall>j q. fmap b' j = Some q \<and> q < 10 \<longrightarrow> fmap b' (bud j q) \<noteq> Some q)"
proof -
  have "(0 :: nat) < 2 ^ k" by simp
  then have "i < g_nr_pages b" using assms(5) by linarith
  then have "buddy_free_pages b i = buddy_add_page b (page_to_pfn b i) k"
    using assms(2) by (simp add: buddy_free_pages_def)
  with buddy_add_page_ok [OF assms(1,3,4,5)] assms(6) show ?thesis
    by (auto simp: blk_def buddy_inv_def merged_def)
qed

text \<open>
  Handing a physical range to the allocator frees exactly the pages that lie wholly inside
  the range, whatever its alignment: the greedy loop that picks the largest aligned blocks ends and
  covers each of these pages once.
\<close>

theorem buddy_free_pages_range_correct:
  assumes inv: "buddy_inv b" and "c = unat (g_pfn_offset b)"
    and lo: "c * 4096 \<le> unat base" and hi: "unat base + unat sz \<le> (c + g_nr_pages b) * 4096"
    and "P = {i. unat base \<le> (c + i) * 4096 \<and> (c + i + 1) * 4096 \<le> unat base + unat sz}"
    and "P \<inter> free_pages b = {}"
  shows "\<exists>b'. buddy_free_pages_range b base sz = Some b' \<and> buddy_inv b' \<and> free_pages b' = free_pages b \<union> P"
proof -
  have fr: "frames_ok b" using inv by (simp add: buddy_inv_def)
  then have "c + g_nr_pages b < 2 ^ 32" using assms(2) by (simp add: frames_ok_def)
  then have big: "unat base + unat sz < 2 ^ 44" using hi by simp
  let ?s = "ALIGN_UP base PAGE_SIZE" and ?e = "ALIGN_DOWN (base + sz) PAGE_SIZE"
  define s where "s = (unat base + 4095) div 4096"
  define e where "e = (unat base + unat sz) div 4096"
  have us: "unat ?s = s * 4096"
    using ALIGN_UP_unat [of 12 base] big by (simp add: page_consts s_def)
  have "unat (base + sz) = unat base + unat sz" using big by (simp add: unat_add_lem [THEN iffD1])
  then have ue: "unat ?e = e * 4096"
    using ALIGN_DOWN_unat [of "base + sz" 12] by (simp add: page_consts e_def)
  have P: "P = {i. s \<le> c + i \<and> c + i < e}"
    unfolding assms(5) s_def e_def by (auto simp: less_eq_div_iff_mult_less_eq Suc_le_eq [symmetric])
  show ?thesis
  proof (cases "e \<le> s")
    case True
    then have "buddy_free_pages_range b base sz = Some b"
      by (simp add: buddy_free_pages_range_def Let_def word_le_nat_alt us ue)
    moreover have "P = {}" using P True by auto
    ultimately show ?thesis using inv by auto
  next
    case False
    have cs: "c \<le> s" using lo by (simp add: s_def less_eq_div_iff_mult_less_eq)
    have en: "e \<le> c + g_nr_pages b" using div_le_mono [OF hi, of 4096] by (simp add: e_def)
    let ?i = "s - c" and ?n = "e - s"
    have "unat (?e - ?s) = ?n * 4096"
      using False us ue by (subst unat_sub) (auto simp: word_le_nat_alt diff_mult_distrib)
    then have nr: "unat (ucast (drop_bit PAGE_SHIFT (?e - ?s)) :: u32) = ?n"
      using en \<open>c + g_nr_pages b < 2 ^ 32\<close>
      by (simp add: unsigned_ucast_eq take_bit_eq_mod unat_drop_bit PAGE_SHIFT_def)
    have "unat (drop_bit PAGE_SHIFT ?s) = s" by (simp add: unat_drop_bit us PAGE_SHIFT_def)
    then have "unat (ucast (drop_bit PAGE_SHIFT ?s) :: u32) = s"
      using False en \<open>c + g_nr_pages b < 2 ^ 32\<close> by (simp add: unsigned_ucast_eq take_bit_eq_mod)
    moreover have "unat (page_to_pfn b ?i) = s"
      using page_to_pfn_unat [OF fr, of ?i] False cs en assms(2) by simp
    ultimately have "unat (ucast (drop_bit PAGE_SHIFT ?s) :: u32) = unat (page_to_pfn b ?i)" by simp
    then have pfn: "ucast (drop_bit PAGE_SHIFT ?s) = page_to_pfn b ?i" by (rule unsigned_word_eqI)
    have eq: "buddy_free_pages_range b base sz =
        free_range_loop b (page_to_pfn b ?i) (ucast (drop_bit PAGE_SHIFT (?e - ?s)))"
      using False by (simp add: buddy_free_pages_range_def Let_def word_le_nat_alt us ue pfn)
    have PP: "P = {?i ..< ?i + ?n}" using P cs False by auto
    have "?i + unat (ucast (drop_bit PAGE_SHIFT (?e - ?s)) :: u32) \<le> g_nr_pages b"
      unfolding nr using en cs False by simp
    from free_range_loop_ok [OF inv this] show ?thesis
      using assms(6) unfolding eq nr PP by blast
  qed
qed

lemma buddy_stat_sum:
  assumes "lists_ok b L"
  shows "buddy_stat b = of_nat (\<Sum>k < 11. 2 ^ k * length (L k))"
proof -
  have "fold (\<lambda>i acc. acc + push_bit i 1 * g_nr_free b i) [0 ..< n] 0 =
      (of_nat (\<Sum>k < n. 2 ^ k * length (L k)) :: u32)" if "n \<le> 11" for n
    using that
  proof (induction n)
    case 0
    then show ?case by simp
  next
    case (Suc n)
    have "unat (g_nr_free b n) = length (L n)" using assms Suc.prems by (simp add: lists_ok_def)
    moreover have "g_nr_free b n = of_nat (unat (g_nr_free b n))" by simp
    ultimately have "g_nr_free b n = of_nat (length (L n))" by metis
    with Suc show ?case by simp
  qed
  then show ?thesis by (simp add: buddy_stat_def page_consts)
qed

lemma card_free_pages:
  assumes "buddy_inv b" and L: "lists_ok b L"
  shows "card (free_pages b) = (\<Sum>k < 11. 2 ^ k * length (L k))" and "card (free_pages b) \<le> g_nr_pages b"
proof -
  have bo: "blocks_ok (g_nr_pages b) (fmap b)" using assms(1) by (simp add: buddy_inv_def)
  have mem: "i \<in> set (L k) \<longleftrightarrow> fmap b i = Some k" if "k < 11" for i k
    using L that by (auto simp: lists_ok_def)
  have dj: "blk i k \<inter> blk j l = {}" if "fmap b i = Some k" "fmap b j = Some l" "i \<noteq> j" for i j k l
    using bo that unfolding blocks_ok_def by blast
  let ?U = "\<lambda>k. \<Union>i \<in> set (L k). blk i k"
  have "free_pages b = (\<Union>k \<in> {..< 11}. ?U k)"
  proof (intro set_eqI iffI)
    fix x assume "x \<in> free_pages b"
    then obtain i k where x: "fmap b i = Some k" "x \<in> blk i k" by (auto simp: free_pages_def free_of_def)
    moreover from x have "k < 11" using buddy_inv_fmap [OF assms(1)] by blast
    ultimately show "x \<in> (\<Union>k \<in> {..< 11}. ?U k)" using mem by blast
  next
    fix x assume "x \<in> (\<Union>k \<in> {..< 11}. ?U k)"
    then show "x \<in> free_pages b" using mem by (auto simp: free_pages_def free_of_def)
  qed
  moreover have "card (\<Union>k \<in> {..< 11}. ?U k) = (\<Sum>k < 11. card (?U k))"
  proof (rule card_UN_disjoint)
    show "\<forall>k \<in> {..< 11}. \<forall>l \<in> {..< 11}. k \<noteq> l \<longrightarrow> ?U k \<inter> ?U l = {}"
    proof (intro ballI impI)
      fix k l :: nat
      assume k: "k \<in> {..< 11}" "l \<in> {..< 11}" "k \<noteq> l"
      have "blk i k \<inter> blk j l = {}" if "i \<in> set (L k)" "j \<in> set (L l)" for i j
        using that k dj [of i k j l] mem by (cases "i = j") auto
      then show "?U k \<inter> ?U l = {}" by blast
    qed
  qed (simp_all add: blk_def)
  moreover have "card (?U k) = 2 ^ k * length (L k)" if "k < 11" for k
  proof -
    have "card (?U k) = (\<Sum>i \<in> set (L k). card (blk i k))"
      using that dj mem by (intro card_UN_disjoint) (auto simp: blk_def)
    then show ?thesis
      using distinct_card [OF lists_distinct [OF L that]] by (simp add: blk_def)
  qed
  ultimately show "card (free_pages b) = (\<Sum>k < 11. 2 ^ k * length (L k))" by simp
  have "free_pages b \<subseteq> {..< g_nr_pages b}"
  proof
    fix x assume "x \<in> free_pages b"
    then obtain i k where x: "fmap b i = Some k" "x \<in> blk i k" by (auto simp: free_pages_def free_of_def)
    then have "i + 2 ^ k \<le> g_nr_pages b" using buddy_inv_fmap [OF assms(1)] by blast
    with x(2) show "x \<in> {..< g_nr_pages b}" by (simp add: blk_def)
  qed
  then show "card (free_pages b) \<le> g_nr_pages b" using card_mono [of "{..< g_nr_pages b}"] by simp
qed

text \<open>
  The statistics count the free pages exactly: the 32-bit sum of the list counters weighted by
  the block sizes does not overflow and equals the number of free pages.
\<close>

theorem buddy_stat_correct:
  assumes "buddy_inv b"
  shows "unat (buddy_stat b) = card (free_pages b)"
proof -
  obtain L where L: "lists_ok b L" using assms by (auto simp: buddy_inv_def)
  have "g_nr_pages b < 2 ^ 32" using L by (simp add: lists_ok_def)
  then have "card (free_pages b) < 2 ^ 32" using card_free_pages(2) [OF assms L] by linarith
  then show ?thesis
    using card_free_pages(1) [OF assms L] by (simp add: buddy_stat_sum [OF L] unat_of_nat del: of_nat_sum)
qed

section \<open>Initial state and witnesses\<close>

lemma fold_dlist_init:
  "dnext (fold (\<lambda>i d. dlist_init d (Area i)) [0 ..< n] d) m = (if \<exists>i < n. m = Area i then m else dnext d m) \<and>
   dprev (fold (\<lambda>i d. dlist_init d (Area i)) [0 ..< n] d) m = (if \<exists>i < n. m = Area i then m else dprev d m)"
  by (induction n) (auto simp: dlist_defs less_Suc_eq)

lemma buddy_init_inv:
  assumes "frames_ok b" and "\<forall>i < g_nr_pages b. \<not> in_buddy (g_mem_pages b i)"
  shows "buddy_inv (buddy_init b) \<and> free_pages (buddy_init b) = {}"
proof -
  let ?b = "buddy_init b"
  have f: "fmap ?b = (\<lambda>_. None)" using assms(2) by (auto simp: fmap_def buddy_init_def fun_eq_iff)
  have "dl_rep (g_links ?b) areas (\<lambda>_. [])"
    by (rule dl_rep_init_all) (auto simp: buddy_init_def areas_def fold_dlist_init page_consts)
  moreover have "area_lists (\<lambda>_. []) = (\<lambda>_. [])"
    by (auto simp: area_lists_def fun_eq_iff split: bnode.splits)
  ultimately have "lists_ok ?b (\<lambda>_. [])"
    using assms(1) f by (simp add: lists_ok_def buddy_init_def page_consts frames_ok_def)
  moreover have "blocks_ok (g_nr_pages ?b) (fmap ?b)" "merged (fmap ?b)"
    by (simp_all add: f blocks_ok_def merged_def)
  moreover have "frames_ok ?b" using assms(1) by (simp add: frames_ok_def buddy_init_def)
  ultimately show ?thesis by (auto simp: buddy_inv_def free_pages_def f free_of_def)
qed

text \<open>A machine with 1024 pages from frame 0.\<close>

definition demo_buddy :: buddy where
  "demo_buddy = \<lparr>g_mem_pages = (\<lambda>_. \<lparr>porder = 0, in_buddy = False, in_slab = False\<rparr>),
     g_nr_pages = 1024, g_pfn_offset = 0, g_links = \<lparr>dprev = (\<lambda>n. n), dnext = (\<lambda>n. n)\<rparr>,
     g_nr_free = (\<lambda>_. 0)\<rparr>"

lemma demo_init: "buddy_inv (buddy_init demo_buddy)" "free_pages (buddy_init demo_buddy) = {}"
  "g_nr_pages (buddy_init demo_buddy) = 1024" "g_pfn_offset (buddy_init demo_buddy) = 0"
  "g_mem_pages (buddy_init demo_buddy) = (\<lambda>_. \<lparr>porder = 0, in_buddy = False, in_slab = False\<rparr>)"
  using buddy_init_inv [of demo_buddy] by (auto simp: frames_ok_def demo_buddy_def buddy_init_def)

theorem buddy_alloc_pages_witness:
  "\<exists>b'. buddy_alloc_pages (buddy_init demo_buddy) 5000 = Some (None, b') \<and> buddy_inv b'"
proof -
  obtain r b' where a: "buddy_alloc_pages (buddy_init demo_buddy) 5000 = Some (r, b')" "buddy_inv b'"
    "case r of None \<Rightarrow> True | Some i \<Rightarrow>
       {i ..< i + 2 ^ porder (g_mem_pages b' i)} \<subseteq> free_pages (buddy_init demo_buddy)"
    using buddy_alloc_pages_correct [OF demo_init(1), of 5000] by (auto simp: Let_def split: option.splits)
  then have "r = None" using demo_init(2) by (cases r) auto
  with a show ?thesis by blast
qed

theorem buddy_free_pages_witness:
  "\<exists>b'. buddy_free_pages (buddy_init demo_buddy) 6 = Some b' \<and> buddy_inv b' \<and> free_pages b' = {6}"
  using buddy_free_pages_correct [OF demo_init(1), of 0 6] demo_init by auto

theorem buddy_free_pages_range_witness:
  "\<exists>b'. buddy_free_pages_range (buddy_init demo_buddy) 5000 20000 = Some b' \<and> free_pages b' = {2, 3, 4, 5}"
proof -
  let ?P = "{i. unat (5000 :: u64) \<le> (0 + i) * 4096 \<and> (0 + i + 1) * 4096 \<le> unat (5000 :: u64) + unat (20000 :: u64)}"
  have P: "?P = {2, 3, 4, 5}" by auto
  show ?thesis
    using buddy_free_pages_range_correct [OF demo_init(1), of 0 5000 20000 ?P] demo_init P by auto
qed

theorem buddy_stat_witness: "unat (buddy_stat (buddy_init demo_buddy)) = 0"
  using buddy_stat_correct [OF demo_init(1)] demo_init(2) by simp

text \<open>
  The invariant asks for an array of whole top-order blocks. Without that the merging loop reads a
  page descriptor outside the array: freeing the last page of a three-page machine looks at page 3.
\<close>

lemma buddy_free_outside_array:
  "buddy_free_pages (buddy_init (demo_buddy\<lparr>g_nr_pages := 3\<rparr>)) 2 = None"
  by (simp add: buddy_free_pages_def buddy_add_page.simps buddy_exist_def buddy_init_def demo_buddy_def
      page_to_pfn_def pfn_to_page_def page_consts Let_def)

section \<open>The contract\<close>

text \<open>
  What the slab allocator and the page tables rely on, for any history of allocations and releases.
  The pages of an allocation of \<open>n\<close> bytes that returned page \<open>i\<close>: the least power of two that is enough.
\<close>

definition alloc_span :: "nat \<Rightarrow> u32 \<Rightarrow> nat set" where
  "alloc_span i n = {i ..< i + 2 ^ (LEAST k. pages_needed n \<le> 2 ^ k)}"

text \<open>
  \<open>live\<close> are the allocations not yet released, each page with the size asked for. Their blocks and the free
  pages divide the pages \<open>F\<close> there were, and the descriptor of each still gives its block.
\<close>

definition live_pages :: "(nat \<rightharpoonup> u32) \<Rightarrow> nat set" where
  "live_pages live = {x. \<exists>i n. live i = Some n \<and> x \<in> alloc_span i n}"

definition live_disjoint :: "(nat \<rightharpoonup> u32) \<Rightarrow> bool" where
  "live_disjoint live \<longleftrightarrow>
     (\<forall>i j n m. i \<noteq> j \<and> live i = Some n \<and> live j = Some m \<longrightarrow> alloc_span i n \<inter> alloc_span j m = {})"

definition live_ok ::
    "('s \<Rightarrow> nat set) \<Rightarrow> ('s \<Rightarrow> nat \<Rightarrow> nat set option) \<Rightarrow> nat set \<Rightarrow> (nat \<rightharpoonup> u32) \<Rightarrow> 's \<Rightarrow> bool" where
  "live_ok avail block F live s \<longleftrightarrow>
     (\<forall>i n. live i = Some n \<longrightarrow> block s i = Some (alloc_span i n)) \<and> live_disjoint live \<and>
     live_pages live \<inter> avail s = {} \<and> avail s \<union> live_pages live = F"

lemma span_head: "i \<in> alloc_span i n"
  by (simp add: alloc_span_def)

lemma live_span: "live i = Some n \<Longrightarrow> alloc_span i n \<subseteq> live_pages live"
  by (auto simp: live_pages_def)

lemma live_pages_add: "live i = None \<Longrightarrow> live_pages (live(i \<mapsto> n)) = live_pages live \<union> alloc_span i n"
  unfolding live_pages_def by (auto simp: fun_upd_def) (metis option.distinct(1))

lemma live_disjoint_add:
  assumes "live_disjoint live" and "alloc_span i n \<inter> live_pages live = {}"
  shows "live_disjoint (live(i \<mapsto> n))"
  using assms live_span [of live] unfolding live_disjoint_def by (auto simp: fun_upd_def) blast+

lemma live_pages_del:
  assumes "live_disjoint live" and "live i = Some n"
  shows "live_pages (live(i := None)) = live_pages live - alloc_span i n"
proof (intro set_eqI iffI)
  fix x assume "x \<in> live_pages (live(i := None))"
  then obtain j m where "j \<noteq> i" "live j = Some m" "x \<in> alloc_span j m" by (auto simp: live_pages_def split: if_splits)
  then show "x \<in> live_pages live - alloc_span i n" using assms unfolding live_disjoint_def live_pages_def by blast
next
  fix x assume "x \<in> live_pages live - alloc_span i n"
  then obtain j m where "live j = Some m" "x \<in> alloc_span j m" "x \<notin> alloc_span i n" by (auto simp: live_pages_def)
  moreover from this have "j \<noteq> i" using assms(2) by auto
  ultimately show "x \<in> live_pages (live(i := None))" by (auto simp: live_pages_def)
qed

lemma live_disjoint_del: "live_disjoint live \<Longrightarrow> live_disjoint (live(i := None))"
  unfolding live_disjoint_def by (simp add: fun_upd_def)

text \<open>\<open>avail s\<close> is the set of free pages and \<open>block s i\<close> the block that the descriptor of page \<open>i\<close> stands for.\<close>

locale page_allocator =
  fixes alloc :: "'s \<Rightarrow> u32 \<Rightarrow> (nat option \<times> 's) option"
    and free :: "'s \<Rightarrow> nat \<Rightarrow> 's option"
    and avail :: "'s \<Rightarrow> nat set"
    and block :: "'s \<Rightarrow> nat \<Rightarrow> nat set option"
    and inv :: "'s \<Rightarrow> bool"
  assumes alloc_total: "inv s \<Longrightarrow> \<exists>r s'. alloc s n = Some (r, s') \<and> inv s'"
    and alloc_None: "inv s \<Longrightarrow> alloc s n = Some (None, s') \<Longrightarrow> s' = s"
    and alloc_Some: "inv s \<Longrightarrow> alloc s n = Some (Some i, s') \<Longrightarrow>
       block s' i = Some (alloc_span i n) \<and> alloc_span i n \<subseteq> avail s \<and> avail s' = avail s - alloc_span i n"
    and alloc_keeps: "inv s \<Longrightarrow> alloc s n = Some (Some i, s') \<Longrightarrow> j \<notin> avail s \<Longrightarrow> block s' j = block s j"
    and free_block: "inv s \<Longrightarrow> block s i = Some X \<Longrightarrow> X \<inter> avail s = {} \<Longrightarrow>
       \<exists>s'. free s i = Some s' \<and> inv s' \<and> avail s' = avail s \<union> X"
    and free_keeps: "inv s \<Longrightarrow> free s i = Some s' \<Longrightarrow> j \<notin> avail s \<Longrightarrow> j \<noteq> i \<Longrightarrow> block s' j = block s j"
begin

lemma live_head: "live_ok avail block F live s \<Longrightarrow> live j = Some m \<Longrightarrow> j \<notin> avail s"
  using span_head [of j m] live_span [of live j m] unfolding live_ok_def by blast

lemma live_alloc:
  assumes "inv s" and l: "live_ok avail block F live s" and "alloc s n = Some (Some i, s')"
  shows "live_ok avail block F (live(i \<mapsto> n)) s'"
proof -
  note a = alloc_Some [OF assms(1,3)]
  have b: "block s' j = Some (alloc_span j m)" if "live j = Some m" for j m
    using alloc_keeps [OF assms(1,3)] live_head [OF l that] l that by (simp add: live_ok_def)
  have i: "live i = None" using live_head [OF l, of i] a span_head [of i n] by (cases "live i") auto
  have d: "alloc_span i n \<inter> live_pages live = {}" using a l by (auto simp: live_ok_def)
  have "live_disjoint (live(i \<mapsto> n))" using live_disjoint_add d l by (simp add: live_ok_def)
  moreover have "live_pages (live(i \<mapsto> n)) \<inter> avail s' = {}" "avail s' \<union> live_pages (live(i \<mapsto> n)) = F"
    unfolding live_pages_add [of live i, OF i] using a l unfolding live_ok_def by blast+
  ultimately show ?thesis using a b by (simp add: live_ok_def)
qed

lemma live_free:
  assumes "inv s" and l: "live_ok avail block F live s" and i: "live i = Some n"
  shows "\<exists>s'. free s i = Some s' \<and> inv s' \<and> avail s' = avail s \<union> alloc_span i n \<and> live_ok avail block F (live(i := None)) s'"
proof -
  have sp: "alloc_span i n \<subseteq> live_pages live" using live_span i by blast
  have "alloc_span i n \<inter> avail s = {}" using sp l unfolding live_ok_def by blast
  then obtain s' where s': "free s i = Some s'" "inv s'" "avail s' = avail s \<union> alloc_span i n"
    using free_block [OF assms(1), of i "alloc_span i n"] l i by (auto simp: live_ok_def)
  have b: "block s' j = Some (alloc_span j m)" if "live j = Some m" "j \<noteq> i" for j m
    using free_keeps [OF assms(1) s'(1)] live_head [OF l that(1)] that l by (simp add: live_ok_def)
  have d: "live_disjoint live" using l by (simp add: live_ok_def)
  have "live_pages (live(i := None)) \<inter> avail s' = {}" "avail s' \<union> live_pages (live(i := None)) = F"
    unfolding live_pages_del [OF d i] s'(3) using sp l unfolding live_ok_def by blast+
  then have "live_ok avail block F (live(i := None)) s'" using b live_disjoint_del [OF d] by (simp add: live_ok_def)
  then show ?thesis using s' by blast
qed

end

text \<open>The block a descriptor stands for, if it is one.\<close>

definition page_block :: "buddy \<Rightarrow> nat \<Rightarrow> nat set option" where
  "page_block b i =
     (let k = porder (g_mem_pages b i) in
      if k < 11 \<and> 2 ^ k dvd i \<and> i + 2 ^ k \<le> g_nr_pages b then Some {i ..< i + 2 ^ k} else None)"

lemma order_span: "get_order n < 11 \<Longrightarrow> alloc_span i n = blk i (get_order n)"
proof -
  assume "get_order n < 11"
  then have "(LEAST k. pages_needed n \<le> 2 ^ k) = get_order n"
    using get_order_props [of n] by (intro Least_equality) (auto simp: not_le [symmetric])
  then show ?thesis by (simp add: alloc_span_def blk_def)
qed

text \<open>The descriptors that an operation leaves alone.\<close>

lemma del_from_list_frame: "buddy_del_from_list b i = Some b' \<Longrightarrow> j \<noteq> i \<Longrightarrow> g_mem_pages b' j = g_mem_pages b j"
  by (auto simp: buddy_del_from_list_def Let_def split: if_splits)

lemma add_to_list_frame: "buddy_add_to_list b i k = Some b' \<Longrightarrow> j \<noteq> i \<Longrightarrow> g_mem_pages b' j = g_mem_pages b j"
  by (auto simp: buddy_add_to_list_def split: if_splits)

lemma split_frame:
  "buddy_split b i l h = Some b' \<Longrightarrow> j \<notin> blk i h \<Longrightarrow> g_mem_pages b' j = g_mem_pages b j"
proof (induction b i l h rule: buddy_split.induct)
  case (2 b i l h)
  show ?case
  proof (cases "l < Suc h")
    case True
    then obtain b1 where b1: "buddy_add_to_list b (i + 2 ^ h) h = Some b1" "buddy_split b1 i l h = Some b'"
      using 2(2) by (auto split: option.splits)
    have "j \<notin> blk i h" "j \<noteq> i + 2 ^ h" using 2(3) by (auto simp: blk_def)
    then show ?thesis using 2(1) [OF True b1(1,2)] add_to_list_frame [OF b1(1)] by simp
  qed (use 2 in simp)
qed simp

lemma alloc_frame:
  assumes inv: "buddy_inv b" and "buddy_alloc_pages b n = Some (Some i, b')" and "j \<notin> free_pages b"
  shows "g_mem_pages b' j = g_mem_pages b j"
proof -
  let ?h = "find_order b (get_order n)"
  have h: "?h < 11" using assms(2) by (auto simp: buddy_alloc_pages_def Let_def page_consts split: if_splits)
  then have "g_nr_free b ?h \<noteq> 0" using find_order_props [of "get_order n" b] get_order_props [of n] by blast
  then obtain q where q: "page_of_node (dlist_first (g_links b) (Area ?h)) = Some q" "fmap b q = Some ?h"
    using first_page [OF inv h] by blast
  obtain b1 b2 where r: "i = q" "buddy_del_from_list b q = Some b1" "buddy_split b1 q (get_order n) ?h = Some b2"
    "\<forall>j. j \<noteq> q \<longrightarrow> g_mem_pages b' j = g_mem_pages b2 j"
    using assms(2) h q(1) by (auto simp: buddy_alloc_pages_def Let_def page_consts split: option.splits)
  have j: "j \<notin> blk q ?h" using blk_free [of "fmap b" q ?h] q(2) assms(3) by (auto simp: free_pages_def)
  then have "j \<noteq> q" using blk_self by metis
  then show ?thesis using r(4) split_frame [OF r(3) j] del_from_list_frame [OF r(2)] by simp
qed

lemma buddy_head: "pfn AND (push_bit k 1 XOR pfn) = pfn \<or> pfn AND (push_bit k 1 XOR pfn) = push_bit k 1 XOR (pfn :: u32)"
proof (cases "bit pfn k")
  case True
  then have "pfn AND (push_bit k 1 XOR pfn) = push_bit k 1 XOR pfn"
    by (intro bit_eqI) (auto simp: bit_simps)
  then show ?thesis by simp
next
  case False
  then have "pfn AND (push_bit k 1 XOR pfn) = pfn"
    by (intro bit_eqI) (auto simp: bit_simps)
  then show ?thesis by simp
qed

lemma add_page_frame:
  "buddy_add_page b pfn k = Some b' \<Longrightarrow> fmap b j = None \<Longrightarrow> j \<noteq> pfn_to_page b pfn \<Longrightarrow> j < g_nr_pages b \<Longrightarrow>
   g_mem_pages b' j = g_mem_pages b j"
proof (induction b pfn k rule: buddy_add_page.induct)
  case (1 b pfn k)
  let ?bp = "push_bit k 1 XOR pfn"
  let ?bi = "pfn_to_page b ?bp"
  show ?case
  proof (cases "k < BUDDY_MAX_ORDER - 1 \<and> buddy_exist b ?bi k = Some True")
    case False
    then have "buddy_add_to_list b (pfn_to_page b pfn) k = Some b'"
      using 1(2) by (subst (asm) buddy_add_page.simps) (auto simp: Let_def split: option.splits bool.splits if_splits)
    then show ?thesis using add_to_list_frame 1(4) by blast
  next
    case True
    then obtain b1 where b1: "buddy_del_from_list b ?bi = Some b1" "buddy_add_page b1 (pfn AND ?bp) (Suc k) = Some b'"
      using 1(2) by (subst (asm) buddy_add_page.simps) (auto simp: Let_def split: option.splits)
    have s: "same_array b b1" by (rule del_from_list_same [OF b1(1)])
    have ne: "j \<noteq> ?bi" using True 1(3,5) by (auto simp: buddy_exist_def fmap_def split: if_splits)
    then have e: "g_mem_pages b1 j = g_mem_pages b j" using del_from_list_frame [OF b1(1)] by simp
    have "pfn_to_page b1 x = pfn_to_page b x" for x using s by (simp add: same_array_def pfn_to_page_def)
    then have "j \<noteq> pfn_to_page b1 (pfn AND ?bp)" using ne 1(4) buddy_head [of pfn k] by metis
    moreover have "fmap b1 j = None" "j < g_nr_pages b1" using e s 1(3,5) by (auto simp: fmap_def same_array_def split: if_splits)
    ultimately show ?thesis using 1(1) [of ?bp ?bi True b1] True b1 e by simp
  qed
qed

lemma free_frame:
  assumes "buddy_inv b" and "buddy_free_pages b i = Some b'" and "j \<notin> free_pages b" and "j \<noteq> i" and "j < g_nr_pages b"
  shows "g_mem_pages b' j = g_mem_pages b j"
proof -
  have f: "frames_ok b" using assms(1) by (simp add: buddy_inv_def)
  have "fmap b j = None"
  proof (rule ccontr)
    assume "fmap b j \<noteq> None"
    then obtain k where "fmap b j = Some k" by blast
    then show False using assms(3) blk_free [of "fmap b" j k] blk_self [of j k] unfolding free_pages_def by blast
  qed
  moreover have "buddy_add_page b (page_to_pfn b i) (porder (g_mem_pages b i)) = Some b'" "i < g_nr_pages b"
    using assms(2) by (auto simp: buddy_free_pages_def split: if_splits)
  ultimately show ?thesis using add_page_frame assms(4,5) pfn_page_inverse [OF f] by metis
qed

lemma buddy_free_block:
  assumes "buddy_inv b" and "page_block b i = Some X" and "X \<inter> free_pages b = {}"
  shows "\<exists>b'. buddy_free_pages b i = Some b' \<and> buddy_inv b' \<and> free_pages b' = free_pages b \<union> X"
proof -
  let ?k = "porder (g_mem_pages b i)"
  have k: "?k < 11" "2 ^ ?k dvd i" "i + 2 ^ ?k \<le> g_nr_pages b" "X = blk i ?k"
    using assms(2) by (auto simp: page_block_def blk_def Let_def split: if_splits)
  have "(0 :: nat) < 2 ^ ?k" by simp
  then have "i < g_nr_pages b" using k(3) by linarith
  then have "buddy_free_pages b i = buddy_add_page b (page_to_pfn b i) ?k" by (simp add: buddy_free_pages_def)
  then show ?thesis using buddy_add_page_ok [OF assms(1) k(1-3)] assms(3) k(4) by auto
qed

lemma add_page_same: "buddy_add_page b pfn k = Some b' \<Longrightarrow> same_array b b'"
proof (induction b pfn k rule: buddy_add_page.induct)
  case (1 b pfn k)
  then show ?case
    by (subst (asm) (2) buddy_add_page.simps)
      (auto simp: Let_def split: option.splits bool.splits if_splits dest: add_to_list_same del_from_list_same intro: same_array_trans)
qed

lemma buddy_free_same: "buddy_free_pages b i = Some b' \<Longrightarrow> g_nr_pages b' = g_nr_pages b"
  using add_page_same by (auto simp: buddy_free_pages_def same_array_def split: if_splits)

interpretation pages: page_allocator buddy_alloc_pages buddy_free_pages free_pages page_block buddy_inv
proof (unfold_locales, goal_cases)
  case (1 s n) then show ?case using buddy_alloc_ok [of s n] by blast
next
  case (2 s n s') then show ?case using buddy_alloc_ok [of s n] by auto
next
  case (3 s n i s')
  have a: "get_order n < 11" "blk i (get_order n) \<subseteq> free_pages s" "free_pages s' = free_pages s - blk i (get_order n)"
    "2 ^ get_order n dvd i" "i + 2 ^ get_order n \<le> g_nr_pages s" "porder (g_mem_pages s' i) = get_order n" "same_array s s'"
    using buddy_alloc_ok [OF 3(1), of n] 3(2) by auto
  then have "page_block s' i = Some (blk i (get_order n))" by (simp add: page_block_def blk_def same_array_def)
  then show ?case using a order_span [OF a(1)] by simp
next
  case (4 s n i s' j)
  have "same_array s s'" using buddy_alloc_ok [OF 4(1), of n] 4(2) by auto
  then show ?case using alloc_frame [OF 4] by (simp add: page_block_def same_array_def)
next
  case (5 s i X)
  then show ?case using buddy_free_block by blast
next
  case (6 s i s' j)
  have g: "g_nr_pages s' = g_nr_pages s" using 6(2) by (simp add: buddy_free_same)
  show ?case
  proof (cases "j < g_nr_pages s")
    case True
    then show ?thesis using free_frame [OF 6] g by (simp add: page_block_def)
  next
    case False
    have "\<not> j + 2 ^ k \<le> g_nr_pages s" for k using False zero_less_power [of "2 :: nat" k] by linarith
    then show ?thesis using g by (simp add: page_block_def Let_def)
  qed
qed

text \<open>Any history: requests that are granted become live, and only what is live is given back.\<close>

datatype page_op = AllocPages u32 | FreePages nat

fun page_run :: "page_op list \<Rightarrow> (nat \<rightharpoonup> u32) \<Rightarrow> buddy \<Rightarrow> ((nat \<rightharpoonup> u32) \<times> buddy) option" where
  "page_run [] live b = Some (live, b)"
| "page_run (AllocPages n # ops) live b =
     (case buddy_alloc_pages b n of
        None \<Rightarrow> None
      | Some (None, b') \<Rightarrow> page_run ops live b'
      | Some (Some i, b') \<Rightarrow> page_run ops (live(i \<mapsto> n)) b')"
| "page_run (FreePages i # ops) live b =
     (case live i of
        None \<Rightarrow> page_run ops live b
      | Some n \<Rightarrow> (case buddy_free_pages b i of None \<Rightarrow> None | Some b' \<Rightarrow> page_run ops (live(i := None)) b'))"

lemma page_run_ok:
  "buddy_inv b \<Longrightarrow> live_ok free_pages page_block F live b \<Longrightarrow>
   \<exists>live' b'. page_run ops live b = Some (live', b') \<and> buddy_inv b' \<and> live_ok free_pages page_block F live' b'"
proof (induction ops arbitrary: live b)
  case (Cons x ops)
  show ?case
  proof (cases x)
    case (AllocPages n)
    obtain r b1 where a: "buddy_alloc_pages b n = Some (r, b1)" "buddy_inv b1" using pages.alloc_total [OF Cons.prems(1)] by blast
    show ?thesis
    proof (cases r)
      case None
      then have "b1 = b" using pages.alloc_None Cons.prems(1) a(1) by blast
      then show ?thesis using Cons.IH [OF Cons.prems] a None AllocPages by simp
    next
      case (Some i)
      then have "live_ok free_pages page_block F (live(i \<mapsto> n)) b1" using pages.live_alloc [OF Cons.prems] a(1) by blast
      then show ?thesis using Cons.IH [OF a(2)] a(1) Some AllocPages by simp
    qed
  next
    case (FreePages i)
    show ?thesis
    proof (cases "live i")
      case None
      then show ?thesis using Cons.IH [OF Cons.prems] FreePages by simp
    next
      case (Some n)
      then obtain b1 where b1: "buddy_free_pages b i = Some b1" "buddy_inv b1" "live_ok free_pages page_block F (live(i := None)) b1"
        using pages.live_free [OF Cons.prems] by blast
      then show ?thesis using Cons.IH [OF b1(2,3)] Some FreePages by (simp del: fun_upd_apply)
    qed
  qed
qed simp

text \<open>
  (C37) After any history of allocations and releases, in any order and with requests of any size, no operation
  has failed; the allocations that are still live occupy disjoint blocks, each the least power of two of pages that
  holds the request; together with the free pages they are exactly the pages that were free at the start; and giving
  any one of them back returns exactly its own block.
\<close>

theorem buddy_alloc_free_roundtrip:
  assumes "buddy_inv b0"
  shows "\<exists>live b. page_run ops Map.empty b0 = Some (live, b) \<and> buddy_inv b \<and>
    live_disjoint live \<and> live_pages live \<inter> free_pages b = {} \<and> free_pages b \<union> live_pages live = free_pages b0 \<and>
    (\<forall>i n. live i = Some n \<longrightarrow>
       (\<exists>b'. buddy_free_pages b i = Some b' \<and> buddy_inv b' \<and> free_pages b' = free_pages b \<union> alloc_span i n))"
proof -
  have "live_ok free_pages page_block (free_pages b0) Map.empty b0" by (simp add: live_ok_def live_disjoint_def live_pages_def)
  then obtain live b where r: "page_run ops Map.empty b0 = Some (live, b)" "buddy_inv b"
    "live_ok free_pages page_block (free_pages b0) live b"
    using page_run_ok [OF assms] by blast
  have "\<exists>b'. buddy_free_pages b i = Some b' \<and> buddy_inv b' \<and> free_pages b' = free_pages b \<union> alloc_span i n"
    if "live i = Some n" for i n
    using pages.live_free [OF r(2,3) that] by blast
  then show ?thesis using r by (intro exI [of _ live] exI [of _ b]) (simp add: live_ok_def)
qed

text \<open>Two requests out of 1024 free pages, the first given back while the second is live.\<close>

theorem buddy_alloc_free_roundtrip_witness:
  "\<exists>b live b'. buddy_inv b \<and> free_pages b = {0 ..< 1024} \<and>
     page_run [AllocPages 4096, AllocPages 20000, FreePages 0] Map.empty b = Some (live, b') \<and>
     live_disjoint live \<and> free_pages b' \<union> live_pages live = {0 ..< 1024}"
proof -
  have r: "{0 ..< 0 + unat (1024 :: u32)} \<inter> free_pages (buddy_init demo_buddy) = {}"
    "0 + unat (1024 :: u32) \<le> g_nr_pages (buddy_init demo_buddy)"
    using demo_init by auto
  obtain b where b: "buddy_inv b" "free_pages b = {0 ..< 1024}"
    using free_range_loop_ok [OF demo_init(1) r(2,1)] demo_init(2) by auto
  then show ?thesis
    using buddy_alloc_free_roundtrip [OF b(1), of "[AllocPages 4096, AllocPages 20000, FreePages 0]"] by auto
qed

end
