(* ===== verification/Slab.thy ===== *)
theory Slab
  imports Buddy
begin

text \<open>
  The object allocator of \<open>kernel/mm/slab.c\<close> on top of the page allocator, and the address
  conversions of \<open>include/mm/page.h\<close>. A slab is one page: a descriptor of 40 bytes, then objects of
  equal size. Free objects are chained through their first 32-bit word; \<open>sl_word\<close> is the memory of
  those words, by virtual address. Slabs hang on the partial, full or free list of their cache.
\<close>

section \<open>Addresses of pages\<close>

text \<open>
  \<open>page_to_phy\<close> shifts a \<open>size_t\<close>, which has 32 bits, so the physical address is truncated to 32
  bits before it is widened.
\<close>

definition page_to_phy :: "buddy \<Rightarrow> nat \<Rightarrow> u32" where
  "page_to_phy b i = push_bit PAGE_SHIFT (page_to_pfn b i)"

definition page_to_virt :: "buddy \<Rightarrow> u64 \<Rightarrow> nat \<Rightarrow> u64" where
  "page_to_virt b load_offset i = ucast (page_to_phy b i) - load_offset"

definition phy_to_page :: "buddy \<Rightarrow> u64 \<Rightarrow> nat" where
  "phy_to_page b pa = pfn_to_page b (ucast (drop_bit PAGE_SHIFT pa))"

definition virt_to_page :: "buddy \<Rightarrow> u64 \<Rightarrow> u64 \<Rightarrow> nat" where
  "virt_to_page b load_offset va = phy_to_page b (va + load_offset)"

section \<open>State\<close>

datatype cache_id = Kmalloc nat | CachePage nat

datatype snode = Partial cache_id | Full cache_id | FreeSlabs cache_id | SlabNode nat

record kmem_cache =
  kc_name :: bytes
  kc_obj_size :: u32
  kc_align :: u32
  kc_num :: u32

record slab =
  sl_cachep :: cache_id
  sl_free :: u32
  sl_inuse :: u32
  sl_s_mem :: u64

record slab_state =
  sl_buddy :: buddy
  sl_load_offset :: u64
  sl_cache :: "cache_id \<Rightarrow> kmem_cache"
  sl_slab :: "nat \<Rightarrow> slab"
  sl_links :: "snode dstore"
  sl_word :: "u64 \<Rightarrow> u32"

definition SLAB_MAGIC_END :: u32 where "SLAB_MAGIC_END = 0xffffffff"
definition KMALLOC_MIN_SHIFT :: nat where "KMALLOC_MIN_SHIFT = 3"
definition KMALLOC_MAX_SHIFT :: nat where "KMALLOC_MAX_SHIFT = 11"
definition KMALLOC_MAX_SIZE :: u64 where "KMALLOC_MAX_SIZE = push_bit KMALLOC_MAX_SHIFT 1"
definition KMALLOC_CACHES_NUM :: nat where "KMALLOC_CACHES_NUM = KMALLOC_MAX_SHIFT - KMALLOC_MIN_SHIFT + 1"

lemmas slab_consts = SLAB_MAGIC_END_def KMALLOC_MIN_SHIFT_def KMALLOC_MAX_SHIFT_def
  KMALLOC_MAX_SIZE_def KMALLOC_CACHES_NUM_def

text \<open>\<open>sizeof(struct slab)\<close>: two links, a pointer, two words, a pointer.\<close>

definition sizeof_slab :: u64 where "sizeof_slab = 40"

section \<open>Operations\<close>

text \<open>An object size that wraps to zero makes the code divide by zero: \<open>None\<close>.\<close>

definition kmem_cache_init :: "slab_state \<Rightarrow> cache_id \<Rightarrow> bytes \<Rightarrow> u32 \<Rightarrow> u32 \<Rightarrow> slab_state option" where
  "kmem_cache_init s c name sz align =
     (let links = dlist_init (dlist_init (dlist_init (sl_links s) (Partial c)) (Full c)) (FreeSlabs c);
          al = (if align \<noteq> 0 then align else 8);
          obj = (ucast (ALIGN_UP (ucast sz) (ucast al)) :: u32);
          desc = (ucast (ALIGN_UP sizeof_slab (ucast al)) :: u32);
          k = (\<lambda>num. s\<lparr>sl_links := links,
                 sl_cache := (sl_cache s)(c := \<lparr>kc_name = name, kc_obj_size = obj, kc_align = al, kc_num = num\<rparr>)\<rparr>)
      in if PAGE_SIZE < ucast (desc + obj) then Some (k 0)
         else if obj = 0 then None
         else Some (k (ucast ((PAGE_SIZE - ucast desc) div ucast obj))))"

definition obj_addr :: "u64 \<Rightarrow> u32 \<Rightarrow> u32 \<Rightarrow> u64" where
  "obj_addr s_mem obj_size i = s_mem + ucast (i * obj_size)"

definition kmem_cache_grow :: "slab_state \<Rightarrow> cache_id \<Rightarrow> (nat option \<times> slab_state) option" where
  "kmem_cache_grow s c =
     (let k = sl_cache s c in
      if kc_num k = 0 then Some (None, s)
      else (case buddy_alloc_pages (sl_buddy s) (ucast PAGE_SIZE) of
              None \<Rightarrow> None
            | Some (None, b) \<Rightarrow> Some (None, s\<lparr>sl_buddy := b\<rparr>)
            | Some (Some p, b) \<Rightarrow>
                let b' = b\<lparr>g_mem_pages := (g_mem_pages b)(p := (g_mem_pages b p)\<lparr>in_slab := True\<rparr>)\<rparr>;
                    s_mem = ALIGN_UP (page_to_virt b' (sl_load_offset s) p + sizeof_slab) (ucast (kc_align k));
                    w1 = fold (\<lambda>i w. w(obj_addr s_mem (kc_obj_size k) (of_nat i) := of_nat i + 1))
                           [0 ..< unat (kc_num k)] (sl_word s);
                    w2 = w1(obj_addr s_mem (kc_obj_size k) (kc_num k - 1) := SLAB_MAGIC_END)
                in Some (Some p, s\<lparr>sl_buddy := b',
                     sl_slab := (sl_slab s)(p := \<lparr>sl_cachep = c, sl_free = 0, sl_inuse = 0, sl_s_mem = s_mem\<rparr>),
                     sl_word := w2,
                     sl_links := dlist_add (sl_links s) (FreeSlabs c) (SlabNode p)\<rparr>)))"

definition kmem_cache_create :: "slab_state \<Rightarrow> bytes \<Rightarrow> u32 \<Rightarrow> u32 \<Rightarrow> (cache_id option \<times> slab_state) option" where
  "kmem_cache_create s name sz align =
     (if sz = 0 then Some (None, s)
      else (case buddy_alloc_pages (sl_buddy s) (ucast PAGE_SIZE) of
              None \<Rightarrow> None
            | Some (None, b) \<Rightarrow> Some (None, s\<lparr>sl_buddy := b\<rparr>)
            | Some (Some p, b) \<Rightarrow>
                Option.bind (kmem_cache_init (s\<lparr>sl_buddy := b\<rparr>) (CachePage p) name sz align) (\<lambda>s1.
                  if kc_num (sl_cache s1 (CachePage p)) = 0 then
                    map_option (\<lambda>b'. (None, s1\<lparr>sl_buddy := b'\<rparr>)) (buddy_free_pages (sl_buddy s1) p)
                  else Some (Some (CachePage p), s1))))"

definition slab_of_node :: "snode \<Rightarrow> nat option" where
  "slab_of_node n = (case n of SlabNode p \<Rightarrow> Some p | _ \<Rightarrow> None)"

text \<open>Clearing \<open>in_slab\<close> and returning the page of a slab.\<close>

definition put_slab_page :: "slab_state \<Rightarrow> nat \<Rightarrow> slab_state option" where
  "put_slab_page s p =
     (let b = sl_buddy s;
          b1 = b\<lparr>g_mem_pages := (g_mem_pages b)(p := (g_mem_pages b p)\<lparr>in_slab := False\<rparr>)\<rparr>
      in map_option (\<lambda>b'. s\<lparr>sl_buddy := b'\<rparr>) (buddy_free_pages b1 p))"

text \<open>The loop over one list of slabs; the fuel bounds the number of slabs on it.\<close>

fun free_slabs_loop :: "nat \<Rightarrow> slab_state \<Rightarrow> snode \<Rightarrow> snode \<Rightarrow> slab_state option" where
  "free_slabs_loop fuel s head dnode =
     (if dnode = head then Some s
      else (case fuel of
              0 \<Rightarrow> None
            | Suc fuel' \<Rightarrow>
                let nxt = dnext (sl_links s) dnode in
                (case slab_of_node dnode of
                   None \<Rightarrow> None
                 | Some p \<Rightarrow>
                     (case put_slab_page (s\<lparr>sl_links := dlist_del (sl_links s) dnode\<rparr>)
                             (virt_to_page (sl_buddy s) (sl_load_offset s)
                               (page_to_virt (sl_buddy s) (sl_load_offset s) p)) of
                        None \<Rightarrow> None
                      | Some s' \<Rightarrow> free_slabs_loop fuel' s' head nxt))))"

definition kmem_cache_free_slabs :: "slab_state \<Rightarrow> snode \<Rightarrow> slab_state option" where
  "kmem_cache_free_slabs s head = free_slabs_loop (g_nr_pages (sl_buddy s)) s head (dnext (sl_links s) head)"

definition kmem_cache_destroy :: "slab_state \<Rightarrow> cache_id option \<Rightarrow> slab_state option" where
  "kmem_cache_destroy s cachep =
     (case cachep of
        None \<Rightarrow> Some s
      | Some c \<Rightarrow>
          Option.bind (kmem_cache_free_slabs s (Partial c)) (\<lambda>s1.
          Option.bind (kmem_cache_free_slabs s1 (Full c)) (\<lambda>s2.
          Option.bind (kmem_cache_free_slabs s2 (FreeSlabs c)) (\<lambda>s3.
            case c of
              CachePage p \<Rightarrow> map_option (\<lambda>b. s3\<lparr>sl_buddy := b\<rparr>) (buddy_free_pages (sl_buddy s3) p)
            | Kmalloc _ \<Rightarrow> None))))"

text \<open>Taking the first free object of a chosen slab.\<close>

definition take_object :: "slab_state \<Rightarrow> cache_id \<Rightarrow> nat \<Rightarrow> u64 \<times> slab_state" where
  "take_object s c p =
     (let k = sl_cache s c; sl = sl_slab s p; idx = sl_free sl;
          a = obj_addr (sl_s_mem sl) (kc_obj_size k) idx;
          sl' = sl\<lparr>sl_free := sl_word s a, sl_inuse := sl_inuse sl + 1\<rparr>;
          s1 = s\<lparr>sl_slab := (sl_slab s)(p := sl')\<rparr>;
          s2 = (if sl_free sl' = SLAB_MAGIC_END
                then s1\<lparr>sl_links := dlist_add (dlist_del (sl_links s1) (SlabNode p)) (Full c) (SlabNode p)\<rparr>
                else s1)
      in (a, s2))"

definition kmem_cache_alloc :: "slab_state \<Rightarrow> cache_id option \<Rightarrow> (u64 option \<times> slab_state) option" where
  "kmem_cache_alloc s cachep =
     (case cachep of
        None \<Rightarrow> Some (None, s)
      | Some c \<Rightarrow>
          if kc_num (sl_cache s c) = 0 then Some (None, s)
          else if dlist_empty (sl_links s) (Partial c) then
            (case (if dlist_empty (sl_links s) (FreeSlabs c) then kmem_cache_grow s c
                   else map_option (\<lambda>p. (Some p, s)) (slab_of_node (dnext (sl_links s) (FreeSlabs c)))) of
               None \<Rightarrow> None
             | Some (None, s1) \<Rightarrow> Some (None, s1)
             | Some (Some p, s1) \<Rightarrow>
                 let s2 = s1\<lparr>sl_links := dlist_add (dlist_del (sl_links s1) (SlabNode p)) (Partial c) (SlabNode p)\<rparr>;
                     (a, s3) = take_object s2 c p
                 in Some (Some a, s3))
          else
            (case slab_of_node (dnext (sl_links s) (Partial c)) of
               None \<Rightarrow> None
             | Some p \<Rightarrow> let (a, s1) = take_object s c p in Some (Some a, s1)))"

definition kmem_cache_free :: "slab_state \<Rightarrow> cache_id \<Rightarrow> u64 option \<Rightarrow> slab_state option" where
  "kmem_cache_free s c objp =
     (case objp of
        None \<Rightarrow> Some s
      | Some a \<Rightarrow>
          let p = virt_to_page (sl_buddy s) (sl_load_offset s) a;
              k = sl_cache s c; sl = sl_slab s p;
              idx = (ucast ((a - sl_s_mem sl) div ucast (kc_obj_size k)) :: u32);
              sl' = sl\<lparr>sl_free := idx, sl_inuse := sl_inuse sl - 1\<rparr>;
              s1 = s\<lparr>sl_word := (sl_word s)(a := sl_free sl), sl_slab := (sl_slab s)(p := sl')\<rparr>
          in if \<not> p < g_nr_pages (sl_buddy s) then None
             else if sl_inuse sl' = 0 then
               put_slab_page (s1\<lparr>sl_links := dlist_del (sl_links s1) (SlabNode p)\<rparr>) p
             else if sl_inuse sl' + 1 = kc_num k then
               Some (s1\<lparr>sl_links := dlist_add (dlist_del (sl_links s1) (SlabNode p)) (Partial c) (SlabNode p)\<rparr>)
             else Some s1)"

fun kmalloc_index_loop :: "nat \<Rightarrow> u32 \<Rightarrow> nat" where
  "kmalloc_index_loop fuel v =
     (if v = 0 then 0 else case fuel of 0 \<Rightarrow> 0 | Suc f \<Rightarrow> Suc (kmalloc_index_loop f (drop_bit 1 v)))"

definition kmalloc_index :: "u32 \<Rightarrow> nat" where
  "kmalloc_index sz = kmalloc_index_loop 32 (drop_bit KMALLOC_MIN_SHIFT (sz - 1))"

definition kmalloc :: "slab_state \<Rightarrow> u32 \<Rightarrow> (u64 option \<times> slab_state) option" where
  "kmalloc s sz =
     (if sz = 0 then Some (None, s)
      else if KMALLOC_MAX_SIZE < ucast sz then
        (case buddy_alloc_pages (sl_buddy s) sz of
           None \<Rightarrow> None
         | Some (None, b) \<Rightarrow> Some (None, s\<lparr>sl_buddy := b\<rparr>)
         | Some (Some p, b) \<Rightarrow> Some (Some (page_to_virt b (sl_load_offset s) p), s\<lparr>sl_buddy := b\<rparr>))
      else kmem_cache_alloc s (Some (Kmalloc (kmalloc_index sz))))"

text \<open>\<open>memset\<close> clears the words inside the block, and the low bytes of one that sticks out.\<close>

definition kzalloc :: "slab_state \<Rightarrow> u32 \<Rightarrow> (u64 option \<times> slab_state) option" where
  "kzalloc s sz =
     (case kmalloc s sz of
        None \<Rightarrow> None
      | Some (None, s1) \<Rightarrow> Some (None, s1)
      | Some (Some a, s1) \<Rightarrow>
          Some (Some a, s1\<lparr>sl_word := (\<lambda>x. if unat (x - a) + 4 \<le> unat sz then 0
              else if unat (x - a) < unat sz then sl_word s1 x AND NOT (mask (8 * (unat sz - unat (x - a))))
              else sl_word s1 x)\<rparr>))"

definition kfree :: "slab_state \<Rightarrow> u64 option \<Rightarrow> slab_state option" where
  "kfree s objp =
     (case objp of
        None \<Rightarrow> Some s
      | Some a \<Rightarrow>
          let p = virt_to_page (sl_buddy s) (sl_load_offset s) a in
          if \<not> p < g_nr_pages (sl_buddy s) then None
          else if in_slab (g_mem_pages (sl_buddy s) p) then kmem_cache_free s (sl_cachep (sl_slab s p)) (Some a)
          else map_option (\<lambda>b. s\<lparr>sl_buddy := b\<rparr>) (buddy_free_pages (sl_buddy s) p))"

definition kmalloc_name :: "nat \<Rightarrow> bytes" where
  "kmalloc_name i = [107, 109, 97, 108, 108, 111, 99, 45] @
     [[56], [49, 54], [51, 50], [54, 52], [49, 50, 56], [50, 53, 54], [53, 49, 50], [49, 48, 50, 52],
      [50, 48, 52, 56]] ! i"

definition slab_init :: "slab_state \<Rightarrow> slab_state option" where
  "slab_init s =
     fold (\<lambda>i acc. Option.bind acc (\<lambda>s.
         kmem_cache_init s (Kmalloc i) (kmalloc_name i) (push_bit (i + KMALLOC_MIN_SHIFT) 1) 8))
       [0 ..< KMALLOC_CACHES_NUM] (Some s)"

section \<open>Address conversions\<close>

lemma page_to_phy_unat:
  assumes "frames_ok b" and "(unat (g_pfn_offset b) + g_nr_pages b) * 4096 \<le> 2 ^ 32" and "i < g_nr_pages b"
  shows "unat (page_to_phy b i) = (unat (g_pfn_offset b) + i) * 4096"
proof -
  have "(unat (g_pfn_offset b) + i) * 4096 < (unat (g_pfn_offset b) + g_nr_pages b) * 4096"
    using assms(3) by simp
  then have "unat (page_to_pfn b i) * 2 ^ 12 < 2 ^ LENGTH(32)"
    using assms(2) by (simp add: page_to_pfn_unat [OF assms(1,3)])
  then show ?thesis
    unfolding page_to_phy_def PAGE_SHIFT_def
    by (subst unat_mult_power_no_overflow) (simp_all add: page_to_pfn_unat [OF assms(1,3)])
qed

lemma virt_page_inverse:
  assumes "frames_ok b" and "(unat (g_pfn_offset b) + g_nr_pages b) * 4096 \<le> 2 ^ 32"
    and "i < g_nr_pages b" and "unat d < 4096"
  shows "virt_to_page b lo (page_to_virt b lo i + d) = i"
proof -
  let ?n = "unat (g_pfn_offset b) + i"
  have pa: "page_to_virt b lo i + d + lo = ucast (page_to_phy b i) + d"
    by (simp add: page_to_virt_def)
  have up: "unat (ucast (page_to_phy b i) :: u64) = ?n * 4096"
    by (simp add: unat_ucast_u32_u64 page_to_phy_unat [OF assms(1-3)])
  have "?n < 2 ^ 20" using assms(2,3) by simp
  then have "unat (ucast (page_to_phy b i) + d :: u64) = ?n * 4096 + unat d"
    using up assms(4) by (subst unat_add_lem [THEN iffD1]) simp_all
  then have "unat (drop_bit 12 (ucast (page_to_phy b i) + d :: u64)) = ?n"
    using assms(4) by (simp add: unat_drop_bit)
  then have "unat (ucast (drop_bit 12 (ucast (page_to_phy b i) + d :: u64)) :: u32) = ?n"
    using \<open>?n < 2 ^ 20\<close> by (simp add: unsigned_ucast_eq take_bit_eq_mod)
  then have "unat (ucast (drop_bit 12 (ucast (page_to_phy b i) + d :: u64)) :: u32) = unat (page_to_pfn b i)"
    by (simp add: page_to_pfn_unat [OF assms(1,3)])
  then have "ucast (drop_bit 12 (ucast (page_to_phy b i) + d :: u64)) = page_to_pfn b i"
    by (rule unsigned_word_eqI)
  then show ?thesis
    unfolding virt_to_page_def phy_to_page_def PAGE_SHIFT_def pa
    by (simp add: pfn_page_inverse [OF assms(1,3)])
qed

text \<open>
  The conversion between page descriptors and virtual addresses is faithful while physical
  memory ends below 4 GiB: every address inside a page's mapping leads back to that page, and two
  pages have different addresses. The bound is needed because \<open>page_to_phy\<close> shifts a 32-bit value.
\<close>

theorem virt_to_page_inverse:
  assumes "frames_ok b" and "(unat (g_pfn_offset b) + g_nr_pages b) * 4096 \<le> 2 ^ 32"
    and "i < g_nr_pages b" and "unat d < 4096"
  shows "virt_to_page b lo (page_to_virt b lo i + d) = i"
  by (rule virt_page_inverse [OF assms])

theorem virt_to_page_inverse_witness:
  "virt_to_page demo_buddy 0x1000 (page_to_virt demo_buddy 0x1000 5 + 17) = 5"
proof -
  have f: "frames_ok demo_buddy" by (simp add: frames_ok_def demo_buddy_def)
  show ?thesis
    by (rule virt_to_page_inverse [OF f]) (simp_all add: demo_buddy_def)
qed

text \<open>
  Without the bound the conversion is wrong: two descriptors \<open>2\<^sup>2\<^sup>0\<close> pages apart, which stand for
  physical pages 4 GiB apart, get the same address.
\<close>

lemma page_to_virt_aliases: "page_to_virt b lo (i + 2 ^ 20) = page_to_virt b lo i"
proof -
  have z: "(2 :: u32) ^ 20 * 2 ^ 12 = 0"
    unfolding power_add [symmetric] by (subst exp_eq_zero_iff) simp
  have "push_bit 12 (of_nat (i + 2 ^ 20) + g_pfn_offset b :: u32) = push_bit 12 (of_nat i + g_pfn_offset b)"
    unfolding push_bit_eq_mult of_nat_add of_nat_power of_nat_numeral distrib_right z by simp
  then show ?thesis by (simp add: page_to_virt_def page_to_phy_def page_to_pfn_def PAGE_SHIFT_def)
qed

section \<open>Size classes\<close>

lemma kmalloc_index_loop_spec:
  "unat v < 2 ^ fuel \<Longrightarrow> unat v < 2 ^ kmalloc_index_loop fuel v \<and>
     (v \<noteq> 0 \<longrightarrow> 2 ^ (kmalloc_index_loop fuel v - 1) \<le> unat v)"
proof (induction fuel arbitrary: v)
  case 0
  then show ?case by (simp add: unat_eq_0)
next
  case (Suc n)
  show ?case
  proof (cases "v = 0")
    case True
    then show ?thesis by simp
  next
    case False
    let ?w = "drop_bit 1 v"
    have w: "unat ?w = unat v div 2" by (simp add: unat_drop_bit)
    then have IH: "unat ?w < 2 ^ kmalloc_index_loop n ?w"
      "?w \<noteq> 0 \<longrightarrow> 2 ^ (kmalloc_index_loop n ?w - 1) \<le> unat ?w"
      using Suc.IH [of ?w] Suc.prems by auto
    have e: "kmalloc_index_loop (Suc n) v = Suc (kmalloc_index_loop n ?w)" using False by simp
    have "2 ^ kmalloc_index_loop n ?w \<le> unat v"
    proof (cases "?w = 0")
      case True
      then show ?thesis using False by (simp add: unat_gt_0 Suc_le_eq)
    next
      case w0: False
      then have "kmalloc_index_loop n ?w \<noteq> 0" by (cases n) (use IH(1) in \<open>auto dest: unat_eq_0 [THEN iffD1]\<close>)
      then have "(2 :: nat) ^ kmalloc_index_loop n ?w = 2 * 2 ^ (kmalloc_index_loop n ?w - 1)"
        by (cases "kmalloc_index_loop n ?w") auto
      with IH(2) w0 w show ?thesis by simp
    qed
    with IH(1) w e show ?thesis by auto
  qed
qed

declare kmalloc_index_loop.simps [simp del]

text \<open>
  \<open>kmalloc\<close> picks the right size class: for every request of 1 to 2048 bytes the index names one
  of the nine caches, objects of that cache are large enough, and no smaller class would do.
\<close>

theorem kmalloc_index_correct:
  assumes "sz \<noteq> 0" and "unat sz \<le> 2048"
  shows "kmalloc_index sz < KMALLOC_CACHES_NUM \<and> unat sz \<le> 2 ^ (kmalloc_index sz + KMALLOC_MIN_SHIFT) \<and>
    (0 < kmalloc_index sz \<longrightarrow> 2 ^ (kmalloc_index sz - 1 + KMALLOC_MIN_SHIFT) < unat sz)"
proof -
  let ?v = "drop_bit 3 (sz - 1)" and ?k = "kmalloc_index sz"
  have pos: "1 \<le> unat sz" using assms(1) by (simp add: unat_gt_0 Suc_le_eq)
  then have "unat (sz - 1) = unat sz - 1" by (subst unat_sub) (simp_all add: word_le_nat_alt)
  then have v: "unat ?v = (unat sz - 1) div 8" by (simp add: unat_drop_bit)
  have k: "unat ?v < 2 ^ ?k" "?v \<noteq> 0 \<longrightarrow> 2 ^ (?k - 1) \<le> unat ?v"
    using kmalloc_index_loop_spec [of ?v 32] unat_u32_lt [of ?v]
    by (simp_all add: kmalloc_index_def slab_consts)
  have k0: "?k \<noteq> 0 \<Longrightarrow> ?v \<noteq> 0"
    by (auto simp: kmalloc_index_def slab_consts kmalloc_index_loop.simps)
  have up: "unat sz \<le> 2 ^ ?k * 8" using k(1) v pos by auto
  have lo: "2 ^ (?k - 1) * 8 < unat sz" if "?k \<noteq> 0" using k(2) k0 [OF that] v pos by auto
  have "?k < 9"
  proof (rule ccontr)
    assume "\<not> ?k < 9"
    then have "(2 :: nat) ^ 8 \<le> 2 ^ (?k - 1)" by (intro power_increasing) auto
    with lo \<open>\<not> ?k < 9\<close> assms(2) show False by auto
  qed
  then show ?thesis using up lo by (cases ?k) (simp_all add: slab_consts power_add)
qed

theorem kmalloc_index_witness: "kmalloc_index 100 < 9 \<and> 100 \<le> (2 :: nat) ^ (kmalloc_index 100 + 3)"
  using kmalloc_index_correct [of 100] by (simp add: slab_consts)

end
