(* ===== verification/Mmu.thy ===== *)
theory Mmu
  imports Slab Memblock
begin

text \<open>
  Translation tables: \<open>kernel/core/arch/mmu.c\<close> (runtime mappings, tables from the page allocator)
  and \<open>kernel/core/arch/early_mmu.c\<close> (boot mappings, tables from the early pool or the boot memory
  map, reached through fixmap slots once the MMU is on). Table memory is a map from the address of
  a table to its 512 entries. A failed \<open>MMU_BUGON\<close> check spins forever: \<open>None\<close>;
  so is a level beyond the last, where the level arrays end. Cache and TLB
  maintenance has no counterpart in the model.
\<close>

section \<open>Descriptors\<close>

definition PTE_TYPE_MASK :: u64 where "PTE_TYPE_MASK = 3"
definition PTE_TYPE_INVALID :: u64 where "PTE_TYPE_INVALID = 0"
definition PTE_TYPE_BLOCK :: u64 where "PTE_TYPE_BLOCK = 1"
definition PTE_TYPE_TABLE :: u64 where "PTE_TYPE_TABLE = 3"
definition PTE_TYPE_PAGE :: u64 where "PTE_TYPE_PAGE = 3"
definition PTE_PHYS_MASK :: u64 where "PTE_PHYS_MASK = 0xFFFFFFFFF000"

definition PTE_ATTR_NORMAL :: u64 where "PTE_ATTR_NORMAL = push_bit 2 0"
definition PTE_ATTR_DEVICE :: u64 where "PTE_ATTR_DEVICE = push_bit 2 1"
definition PTE_AP_RW_EL1 :: u64 where "PTE_AP_RW_EL1 = push_bit 6 0"
definition PTE_AP_RW_ANY :: u64 where "PTE_AP_RW_ANY = push_bit 6 1"
definition PTE_AP_RO_EL1 :: u64 where "PTE_AP_RO_EL1 = push_bit 6 2"
definition PTE_AP_RO_ANY :: u64 where "PTE_AP_RO_ANY = push_bit 6 3"
definition PTE_SH_INNER :: u64 where "PTE_SH_INNER = push_bit 8 3"
definition PTE_AF :: u64 where "PTE_AF = push_bit 10 1"
definition PTE_PXN :: u64 where "PTE_PXN = push_bit 53 1"
definition PTE_UXN :: u64 where "PTE_UXN = push_bit 54 1"

lemmas pte_defs = PTE_TYPE_MASK_def PTE_TYPE_INVALID_def PTE_TYPE_BLOCK_def PTE_TYPE_TABLE_def
  PTE_TYPE_PAGE_def PTE_PHYS_MASK_def
lemmas pte_attr_defs = PTE_ATTR_NORMAL_def PTE_ATTR_DEVICE_def PTE_AP_RW_EL1_def PTE_AP_RW_ANY_def
  PTE_AP_RO_EL1_def PTE_AP_RO_ANY_def PTE_SH_INNER_def PTE_AF_def PTE_PXN_def PTE_UXN_def

definition PTE_TABLE :: "u64 \<Rightarrow> u64" where
  "PTE_TABLE pa = (pa AND PTE_PHYS_MASK) OR PTE_TYPE_TABLE"

definition PTE_BLOCK :: "u64 \<Rightarrow> u64 \<Rightarrow> u64" where
  "PTE_BLOCK pa attr = (pa AND PTE_PHYS_MASK) OR PTE_TYPE_BLOCK OR attr OR PTE_AF"

definition PTE_PAGE :: "u64 \<Rightarrow> u64 \<Rightarrow> u64" where
  "PTE_PAGE pa attr = (pa AND PTE_PHYS_MASK) OR PTE_TYPE_PAGE OR attr OR PTE_AF"

definition MMU_REGION_NORMAL :: u64 where
  "MMU_REGION_NORMAL = PTE_ATTR_NORMAL OR PTE_SH_INNER OR PTE_AP_RW_EL1"
definition MMU_REGION_DEVICE :: u64 where
  "MMU_REGION_DEVICE = PTE_ATTR_DEVICE OR PTE_AP_RW_EL1 OR PTE_PXN OR PTE_UXN"
definition MMU_REGION_NORMAL_RO :: u64 where
  "MMU_REGION_NORMAL_RO = PTE_ATTR_NORMAL OR PTE_SH_INNER OR PTE_AP_RO_EL1"
definition MMU_REGION_NORMAL_XN :: u64 where
  "MMU_REGION_NORMAL_XN = PTE_ATTR_NORMAL OR PTE_SH_INNER OR PTE_AP_RW_EL1 OR PTE_PXN"
definition MMU_REGION_USER_CODE :: u64 where
  "MMU_REGION_USER_CODE = PTE_ATTR_NORMAL OR PTE_SH_INNER OR PTE_AP_RO_ANY OR PTE_PXN"
definition MMU_REGION_USER_STACK :: u64 where
  "MMU_REGION_USER_STACK = PTE_ATTR_NORMAL OR PTE_SH_INNER OR PTE_AP_RW_ANY OR PTE_PXN OR PTE_UXN"
definition MMU_REGION_USER_RO :: u64 where
  "MMU_REGION_USER_RO = PTE_ATTR_NORMAL OR PTE_SH_INNER OR PTE_AP_RO_ANY OR PTE_PXN OR PTE_UXN"
definition MMU_REGION_USER_DEVICE :: u64 where
  "MMU_REGION_USER_DEVICE = PTE_ATTR_DEVICE OR PTE_AP_RW_ANY OR PTE_PXN OR PTE_UXN"

definition mmu_entry_populated :: "u64 \<Rightarrow> bool" where
  "mmu_entry_populated e \<longleftrightarrow> e AND PTE_TYPE_MASK \<noteq> PTE_TYPE_INVALID"

definition PTE_ENTRIES :: nat where "PTE_ENTRIES = 512"
definition PTE_LEVEL :: nat where "PTE_LEVEL = 3"

definition g_level_shift :: "nat \<Rightarrow> nat" where
  "g_level_shift level = (if level = 0 then 39 else if level = 1 then 30 else if level = 2 then 21 else 12)"

definition g_level_size :: "nat \<Rightarrow> u64" where
  "g_level_size level = push_bit (g_level_shift level) 1"

definition table_idx :: "nat \<Rightarrow> u64 \<Rightarrow> nat" where
  "table_idx level va = unat (drop_bit (g_level_shift level) va AND (of_nat PTE_ENTRIES - 1))"

section \<open>Runtime mappings\<close>

record mmu_state =
  mu_buddy :: buddy
  mu_load_offset :: u64
  mu_tbl :: "u64 \<Rightarrow> nat \<Rightarrow> u64"

definition mmu_populate :: "mmu_state \<Rightarrow> u64 \<Rightarrow> nat \<Rightarrow> u64 \<Rightarrow> mmu_state" where
  "mmu_populate m table idx val = m\<lparr>mu_tbl := (mu_tbl m)(table := (mu_tbl m table)(idx := val))\<rparr>"

text \<open>\<open>kzalloc_pages\<close> of one page: a zeroed table at its virtual address.\<close>

definition kzalloc_table :: "mmu_state \<Rightarrow> (u64 option \<times> mmu_state) option" where
  "kzalloc_table m =
     (case buddy_alloc_pages (mu_buddy m) (ucast PAGE_SIZE) of
        None \<Rightarrow> None
      | Some (None, b) \<Rightarrow> Some (None, m\<lparr>mu_buddy := b\<rparr>)
      | Some (Some p, b) \<Rightarrow>
          let va = page_to_virt b (mu_load_offset m) p in
          Some (Some va, m\<lparr>mu_buddy := b, mu_tbl := (mu_tbl m)(va := (\<lambda>_. 0))\<rparr>))"

definition mmu_get_ntable :: "mmu_state \<Rightarrow> u64 \<Rightarrow> nat \<Rightarrow> (u64 \<times> mmu_state) option" where
  "mmu_get_ntable m table idx =
     (if \<not> mmu_entry_populated (mu_tbl m table idx) then
        (case kzalloc_table m of
           None \<Rightarrow> None
         | Some (None, m1) \<Rightarrow> None
         | Some (Some va, m1) \<Rightarrow>
             Some (va, mmu_populate m1 table idx (PTE_TABLE (va + mu_load_offset m1))))
      else Some ((mu_tbl m table idx AND PTE_PHYS_MASK) - mu_load_offset m, m))"

definition map_chunk :: "nat \<Rightarrow> u64 \<Rightarrow> u64 \<Rightarrow> u64" where
  "map_chunk level va vend =
     (let sz = g_level_size level; chunk = sz - (va AND (sz - 1))
      in if vend - va < chunk then vend - va else chunk)"

lemma map_chunk_bounds:
  assumes "va < vend"
  shows "unat (va + map_chunk level va vend) = unat va + unat (map_chunk level va vend)"
    and "unat va + unat (map_chunk level va vend) \<le> unat vend" and "0 < unat (map_chunk level va vend)"
proof -
  let ?n = "g_level_shift level"
  have n: "?n < 64" by (simp add: g_level_shift_def)
  have sz: "g_level_size level = 2 ^ ?n" by (simp add: g_level_size_def push_bit_eq_mult)
  have usz: "unat (g_level_size level) = 2 ^ ?n" unfolding sz by (rule unat_power_two) (use n in simp)
  have off: "unat (va AND (g_level_size level - 1)) = unat va mod 2 ^ ?n"
    unfolding sz by (simp add: unat_and_mask flip: mask_eq_exp_minus_1)
  then have lt: "unat (va AND (g_level_size level - 1)) < unat (g_level_size level)" using usz by simp
  then have "unat (g_level_size level - (va AND (g_level_size level - 1))) =
      unat (g_level_size level) - unat (va AND (g_level_size level - 1))"
    by (intro unat_sub) (simp add: word_le_nat_alt)
  then have c: "0 < unat (g_level_size level - (va AND (g_level_size level - 1)))" using lt by simp
  have d: "unat (vend - va) = unat vend - unat va" "unat va < unat vend"
    using assms by (simp_all add: unat_sub order_less_imp_le word_less_nat_alt)
  show p: "0 < unat (map_chunk level va vend)"
    using c d by (simp add: map_chunk_def Let_def)
  show le: "unat va + unat (map_chunk level va vend) \<le> unat vend"
    using d by (auto simp: map_chunk_def Let_def word_less_nat_alt)
  then show "unat (va + map_chunk level va vend) = unat va + unat (map_chunk level va vend)"
    using unat_u64_lt [of vend] by (subst unat_add_lem [THEN iffD1]) simp_all
qed

text \<open>
  The loop of \<open>mmu_map_range\<close> and of its boot-time twin: \<open>body\<close> maps one chunk; the index advances
  by the chunk, which never passes the end of the range.
\<close>

function chunk_loop ::
  "nat \<Rightarrow> ('s \<Rightarrow> u64 \<Rightarrow> u64 \<Rightarrow> u64 \<Rightarrow> 's option) \<Rightarrow> 's \<Rightarrow> u64 \<Rightarrow> u64 \<Rightarrow> u64 \<Rightarrow> 's option"
where
  "chunk_loop level body m va vend pa =
     (if va < vend then
        let chunk = map_chunk level va vend in
        (case body m va chunk pa of
           None \<Rightarrow> None
         | Some m' \<Rightarrow> chunk_loop level body m' (va + chunk) vend (pa + chunk))
      else Some m)"
  by pat_completeness auto
termination
proof (relation "measure (\<lambda>(level, body, m, va, vend, pa). unat vend - unat va)", goal_cases)
  case 1
  show ?case by simp
next
  case (2 level body m va vend pa chunk m')
  then show ?case using map_chunk_bounds [of va vend level] by auto
qed

declare chunk_loop.simps [simp del]

text \<open>
  The recursion goes down the levels, so it is structural in the number \<open>d\<close> of levels below; the
  level of the code is \<open>3 - d\<close>.
\<close>

fun mmu_map_levels ::
  "nat \<Rightarrow> u64 \<Rightarrow> u64 \<Rightarrow> mmu_state \<Rightarrow> u64 \<Rightarrow> u64 \<Rightarrow> u64 \<Rightarrow> mmu_state option"
where
  "mmu_map_levels 0 table attr =
     chunk_loop PTE_LEVEL (\<lambda>m va chunk pa.
       if chunk \<noteq> g_level_size PTE_LEVEL then None
       else Some (mmu_populate m table (table_idx PTE_LEVEL va) (PTE_PAGE pa attr)))"
| "mmu_map_levels (Suc d) table attr =
     (let level = PTE_LEVEL - Suc d; sz = g_level_size level in
      chunk_loop level (\<lambda>m va chunk pa.
        let idx = table_idx level va in
        if chunk = sz \<and> pa AND (sz - 1) = 0
        then Some (mmu_populate m table idx (PTE_BLOCK pa attr))
        else (case mmu_get_ntable m table idx of
                None \<Rightarrow> None
              | Some (ntable, m1) \<Rightarrow> mmu_map_levels d ntable attr m1 va (va + chunk) pa)))"

definition mmu_map_range ::
  "mmu_state \<Rightarrow> u64 \<Rightarrow> u64 \<Rightarrow> u64 \<Rightarrow> u64 \<Rightarrow> nat \<Rightarrow> u64 \<Rightarrow> mmu_state option"
where
  "mmu_map_range m table vstart vend pa level attr =
     (if PTE_LEVEL < level then None else mmu_map_levels (PTE_LEVEL - level) table attr m vstart vend pa)"

definition mmu_map :: "mmu_state \<Rightarrow> u64 \<Rightarrow> u64 \<Rightarrow> u64 \<Rightarrow> u64 \<Rightarrow> u64 \<Rightarrow> mmu_state option" where
  "mmu_map m pgd va pa sz attr =
     (let vstart = ALIGN_DOWN va PAGE_SIZE; vend = ALIGN_UP (va + sz) PAGE_SIZE;
          pstart = pa - (va - vstart)
      in if pstart AND (PAGE_SIZE - 1) \<noteq> 0 then None
         else mmu_map_range m pgd vstart vend pstart 0 attr)"

definition mmu_ioremap :: "mmu_state \<Rightarrow> u64 \<Rightarrow> u64 \<Rightarrow> u64 \<Rightarrow> (u64 \<times> mmu_state) option" where
  "mmu_ioremap m init_pgd pa sz =
     (let va = pa - mu_load_offset m
      in map_option (\<lambda>m'. (pa - mu_load_offset m, m')) (mmu_map m init_pgd va pa sz MMU_REGION_DEVICE))"

definition mmu_memremap :: "mmu_state \<Rightarrow> u64 \<Rightarrow> u64 \<Rightarrow> u64 \<Rightarrow> (u64 \<times> mmu_state) option" where
  "mmu_memremap m init_pgd pa sz =
     (let va = pa - mu_load_offset m
      in map_option (\<lambda>m'. (va, m')) (mmu_map m init_pgd va pa sz MMU_REGION_NORMAL))"

section \<open>Boot mappings\<close>

text \<open>
  Before the MMU is on a table pointer is a physical address; afterwards the next-level tables are
  reached through fixmap slots, one per level, each showing the physical page its fixmap entry names.
\<close>

datatype tptr = Phys u64 | Fixmap nat

record early_state =
  ea_tbl :: "u64 \<Rightarrow> nat \<Rightarrow> u64"
  ea_fix :: "nat \<Rightarrow> u64"
  ea_start :: u64
  ea_curr :: u64
  ea_end :: u64
  ea_on :: bool
  ea_mb :: memblock

definition tptr_page :: "early_state \<Rightarrow> tptr \<Rightarrow> u64" where
  "tptr_page e t = (case t of Phys a \<Rightarrow> a | Fixmap slot \<Rightarrow> ea_fix e slot)"

definition early_mmu_reserve_ator :: "early_state \<Rightarrow> u64 \<Rightarrow> u64 \<Rightarrow> early_state" where
  "early_mmu_reserve_ator e pool_start pool_end = e\<lparr>ea_start := pool_start, ea_end := pool_end, ea_curr := pool_start\<rparr>"

definition early_mmu_reserve_alloc :: "early_state \<Rightarrow> u64 \<Rightarrow> (u64 \<times> early_state) option" where
  "early_mmu_reserve_alloc e sz =
     (let aligned = ALIGN_UP (ea_curr e) sz in
      if aligned < ea_curr e then None
      else if ea_end e < aligned + sz then None
      else Some (aligned, e\<lparr>ea_curr := aligned + sz\<rparr>))"

definition early_mmu_alloc_page :: "early_state \<Rightarrow> (u64 \<times> early_state) option" where
  "early_mmu_alloc_page e =
     (if ea_on e
      then (case memblock_alloc_aligned (ea_mb e) PAGE_SIZE PAGE_SIZE of
              (pa, mb) \<Rightarrow> Some (pa, e\<lparr>ea_mb := mb\<rparr>))
      else early_mmu_reserve_alloc e PAGE_SIZE)"

text \<open>The walker used before the MMU is on: the table and the entry index for an address.\<close>

definition early_mmu_get_pte :: "early_state \<Rightarrow> u64 \<Rightarrow> u64 \<Rightarrow> u64 \<times> nat" where
  "early_mmu_get_pte e early_init_pgd va =
     (fold (\<lambda>level table. ea_tbl e table (table_idx level va) AND PTE_PHYS_MASK) [0 ..< PTE_LEVEL] early_init_pgd,
      table_idx PTE_LEVEL va)"

definition early_mmu_populate :: "early_state \<Rightarrow> tptr \<Rightarrow> nat \<Rightarrow> u64 \<Rightarrow> early_state" where
  "early_mmu_populate e table idx val =
     (let t = tptr_page e table in e\<lparr>ea_tbl := (ea_tbl e)(t := (ea_tbl e t)(idx := val))\<rparr>)"

definition early_mmu_set_fixmap :: "early_state \<Rightarrow> u64 \<Rightarrow> u64 \<Rightarrow> u64 \<Rightarrow> u64 \<Rightarrow> early_state" where
  "early_mmu_set_fixmap e early_init_pgd va pa attr =
     (let (t, i) = early_mmu_get_pte e early_init_pgd va
      in e\<lparr>ea_tbl := (ea_tbl e)(t := (ea_tbl e t)(i := PTE_PAGE pa attr))\<rparr>)"

text \<open>
  Slot 0 shows the level-3 table of the fixmap area itself, so entry \<open>slot\<close> of that table decides
  what slot \<open>slot\<close> shows.
\<close>

definition early_mmu_fixmap_set :: "early_state \<Rightarrow> u64 \<Rightarrow> nat \<Rightarrow> tptr \<times> early_state" where
  "early_mmu_fixmap_set e pa level =
     (let slot = 0 + level; t = ea_fix e 0 in
      (Fixmap slot,
       e\<lparr>ea_tbl := (ea_tbl e)(t := (ea_tbl e t)(slot := PTE_PAGE pa MMU_REGION_NORMAL)),
         ea_fix := (ea_fix e)(slot := pa AND PTE_PHYS_MASK)\<rparr>))"

definition early_mmu_get_ntable :: "early_state \<Rightarrow> tptr \<Rightarrow> nat \<Rightarrow> nat \<Rightarrow> (tptr \<times> early_state) option" where
  "early_mmu_get_ntable e table idx level =
     (let entry = ea_tbl e (tptr_page e table) idx;
          r = (if \<not> mmu_entry_populated entry
               then map_option (\<lambda>(phys, e1). (phys, early_mmu_populate e1 table idx (PTE_TABLE phys), True))
                      (early_mmu_alloc_page e)
               else Some (entry AND PTE_PHYS_MASK, e, False))
      in case r of
           None \<Rightarrow> None
         | Some (phys, e1, allocated) \<Rightarrow>
             let (v, e2) = (if ea_on e1 then early_mmu_fixmap_set e1 phys level else (Phys phys, e1));
                 e3 = (if allocated then e2\<lparr>ea_tbl := (ea_tbl e2)(tptr_page e2 v := (\<lambda>_. 0))\<rparr> else e2)
             in Some (v, e3))"

fun early_mmu_map_levels ::
  "nat \<Rightarrow> tptr \<Rightarrow> u64 \<Rightarrow> early_state \<Rightarrow> u64 \<Rightarrow> u64 \<Rightarrow> u64 \<Rightarrow> early_state option"
where
  "early_mmu_map_levels 0 table attr =
     chunk_loop PTE_LEVEL (\<lambda>e va chunk pa.
       if chunk \<noteq> g_level_size PTE_LEVEL then None
       else Some (early_mmu_populate e table (table_idx PTE_LEVEL va) (PTE_PAGE pa attr)))"
| "early_mmu_map_levels (Suc d) table attr =
     (let level = PTE_LEVEL - Suc d; sz = g_level_size level in
      chunk_loop level (\<lambda>e va chunk pa.
        let idx = table_idx level va in
        if chunk = sz \<and> pa AND (sz - 1) = 0
        then Some (early_mmu_populate e table idx (PTE_BLOCK pa attr))
        else (case early_mmu_get_ntable e table idx (level + 1) of
                None \<Rightarrow> None
              | Some (ntable, e1) \<Rightarrow> early_mmu_map_levels d ntable attr e1 va (va + chunk) pa)))"

definition early_mmu_map_range ::
  "early_state \<Rightarrow> tptr \<Rightarrow> u64 \<Rightarrow> u64 \<Rightarrow> u64 \<Rightarrow> nat \<Rightarrow> u64 \<Rightarrow> early_state option"
where
  "early_mmu_map_range e table vstart vend pa level attr =
     (if PTE_LEVEL < level then None else early_mmu_map_levels (PTE_LEVEL - level) table attr e vstart vend pa)"

definition early_mmu_map :: "early_state \<Rightarrow> tptr \<Rightarrow> u64 \<Rightarrow> u64 \<Rightarrow> u64 \<Rightarrow> u64 \<Rightarrow> early_state option" where
  "early_mmu_map e table va pa sz attr =
     (let vstart = ALIGN_DOWN va PAGE_SIZE; vend = ALIGN_UP (va + sz) PAGE_SIZE;
          pstart = pa - (va - vstart)
      in if pstart AND (PAGE_SIZE - 1) \<noteq> 0 then None
         else early_mmu_map_range e table vstart vend pstart 0 attr)"

text \<open>The device tree blob: its header words \<open>magic\<close> and \<open>totalsize\<close> as found in memory.\<close>

definition FDT_MAGIC :: u32 where "FDT_MAGIC = 0xd00dfeed"

definition early_mmu_map_dtb ::
  "early_state \<Rightarrow> u64 \<Rightarrow> u64 \<Rightarrow> u64 \<Rightarrow> u32 \<Rightarrow> u32 \<Rightarrow> (early_state \<times> (u64 \<times> u32) option) option"
where
  "early_mmu_map_dtb e early_init_pgd load_offset dtb_base magic totalsize =
     (if dtb_base = 0 then Some (e, None)
      else if fdt32_to_cpu magic \<noteq> FDT_MAGIC then Some (e, None)
      else let virt = dtb_base - load_offset; sz = fdt32_to_cpu totalsize in
           map_option (\<lambda>e'. (e', Some (virt, sz)))
             (early_mmu_map e (Phys early_init_pgd) virt dtb_base (ucast sz) MMU_REGION_NORMAL))"

definition FIXMAP_ADDR :: u64 where "FIXMAP_ADDR = (NOT 0) - push_bit 30 1 + 1"
definition FIXMAP_SIZE :: u64 where "FIXMAP_SIZE = push_bit 16 1"

text \<open>
  \<open>early_mmu_init\<close> up to the system registers: both boot tables are cleared, the image is mapped at
  its physical and at its linked address, the debug UART and the fixmap area are mapped, the fixmap
  slot for the tables is made to show its own table, and the device tree is mapped.
\<close>

record boot_params =
  bp_init_pgd :: u64
  bp_idmap_pgd :: u64
  bp_image_start :: u64
  bp_image_size :: u64
  bp_load_offset :: u64
  bp_pool_start :: u64
  bp_pool_end :: u64
  bp_uart :: u64
  bp_dtb_base :: u64
  bp_dtb_magic :: u32
  bp_dtb_totalsize :: u32

definition early_mmu_debug :: "early_state \<Rightarrow> boot_params \<Rightarrow> early_state option" where
  "early_mmu_debug e bp =
     early_mmu_map e (Phys (bp_idmap_pgd bp)) (bp_uart bp) (bp_uart bp) PAGE_SIZE MMU_REGION_DEVICE"

definition early_mmu_init :: "early_state \<Rightarrow> boot_params \<Rightarrow> early_state option" where
  "early_mmu_init e bp =
     (let e0 = e\<lparr>ea_tbl := (ea_tbl e)(bp_init_pgd bp := (\<lambda>_. 0), bp_idmap_pgd bp := (\<lambda>_. 0))\<rparr>;
          e1 = early_mmu_reserve_ator e0 (bp_pool_start bp) (bp_pool_end bp) in
      Option.bind (early_mmu_map e1 (Phys (bp_idmap_pgd bp)) (bp_image_start bp) (bp_image_start bp)
                     (bp_image_size bp) MMU_REGION_NORMAL) (\<lambda>e2.
      Option.bind (early_mmu_debug e2 bp) (\<lambda>e3.
      Option.bind (early_mmu_map e3 (Phys (bp_init_pgd bp)) (bp_image_start bp - bp_load_offset bp)
                     (bp_image_start bp) (bp_image_size bp) MMU_REGION_NORMAL) (\<lambda>e4.
      Option.bind (early_mmu_map e4 (Phys (bp_init_pgd bp)) FIXMAP_ADDR 0 FIXMAP_SIZE MMU_REGION_NORMAL) (\<lambda>e5.
        let fixmap_pte_page = fst (early_mmu_get_pte e5 (bp_init_pgd bp) FIXMAP_ADDR);
            e6 = early_mmu_set_fixmap e5 (bp_init_pgd bp) FIXMAP_ADDR fixmap_pte_page MMU_REGION_NORMAL
        in map_option (\<lambda>(e7, _). e7\<lparr>ea_on := True, ea_fix := (ea_fix e7)(0 := fixmap_pte_page)\<rparr>)
             (early_mmu_map_dtb e6 (bp_init_pgd bp) (bp_load_offset bp) (bp_dtb_base bp)
                (bp_dtb_magic bp) (bp_dtb_totalsize bp)))))))"

end
