(* ===== verification/Vspace.thy ===== *)
theory Vspace
  imports Mmu Cap
begin

text \<open>
  User address spaces and user memory access: \<open>kernel/mm/vspace.c\<close>, \<open>kernel/mm/uaccess.c\<close> and the
  service glue of \<open>kernel/mm/mm.c\<close>. The regions of a vspace are kept as a list in the order of the
  kernel's linked list (\<open>Minus_Dlist\<close> justifies that view). \<open>mm_bytes\<close> is byte memory at kernel
  virtual addresses; user data is reached through the pages the regions name, as the code does.
\<close>

section \<open>State\<close>

record vregion =
  vr_self :: u64
  vr_start :: u64
  vr_end :: u64
  vr_flags :: u32
  vr_page :: nat

record vspace =
  vs_pgd :: u64
  vs_ustack_top :: u64
  vs_mmap_base :: u64
  vs_regions :: "vregion list"

record switch_envelope =
  env_thread_cap :: cap_t
  env_owner_cap :: cap_t
  env_files_cap :: cap_t
  env_vspace_cap :: cap_t

record mm_state =
  mm_slab :: slab_state
  mm_tbl :: "u64 \<Rightarrow> nat \<Rightarrow> u64"
  mm_bytes :: "u64 \<Rightarrow> u8"
  mm_vs :: "u64 \<Rightarrow> vspace"
  mm_caps :: "u64 cap_state"
  mm_ttbr0 :: u64
  cur_vspace :: "u64 option"
  cur_vspace_cap :: cap_t

definition VM_READ :: u32 where "VM_READ = 1"
definition VM_WRITE :: u32 where "VM_WRITE = 2"
definition VM_EXEC :: u32 where "VM_EXEC = 4"
definition VM_DEVICE :: u32 where "VM_DEVICE = 8"
definition USER_MMAP_BASE :: u64 where "USER_MMAP_BASE = 0x1000000000"

lemmas vm_consts = VM_READ_def VM_WRITE_def VM_EXEC_def VM_DEVICE_def USER_MMAP_BASE_def

definition sizeof_vspace :: u32 where "sizeof_vspace = 40"
definition sizeof_vregion :: u32 where "sizeof_vregion = 48"

definition mm_buddy :: "mm_state \<Rightarrow> buddy" where
  "mm_buddy m = sl_buddy (mm_slab m)"

definition mm_load_offset :: "mm_state \<Rightarrow> u64" where
  "mm_load_offset m = sl_load_offset (mm_slab m)"

definition set_buddy :: "mm_state \<Rightarrow> buddy \<Rightarrow> mm_state" where
  "set_buddy m b = m\<lparr>mm_slab := (mm_slab m)\<lparr>sl_buddy := b\<rparr>\<rparr>"

text \<open>Virtual address of a page of the machine, and clearing a block of bytes.\<close>

definition page_va :: "mm_state \<Rightarrow> nat \<Rightarrow> u64" where
  "page_va m p = page_to_virt (mm_buddy m) (mm_load_offset m) p"

definition zero_bytes :: "mm_state \<Rightarrow> u64 \<Rightarrow> nat \<Rightarrow> mm_state" where
  "zero_bytes m a n = m\<lparr>mm_bytes := (\<lambda>x. if unat (x - a) < n then 0 else mm_bytes m x)\<rparr>"

section \<open>Page-sized allocations\<close>

definition kzalloc_pages :: "mm_state \<Rightarrow> u32 \<Rightarrow> (u64 option \<times> mm_state) option" where
  "kzalloc_pages m sz =
     (case buddy_alloc_pages (mm_buddy m) sz of
        None \<Rightarrow> None
      | Some (None, b) \<Rightarrow> Some (None, set_buddy m b)
      | Some (Some p, b) \<Rightarrow>
          let m1 = set_buddy m b; va = page_va m1 p; m2 = zero_bytes m1 va (unat sz)
          in Some (Some va, m2\<lparr>mm_tbl := (mm_tbl m2)(va := (\<lambda>_. 0))\<rparr>))"

definition kfree_pages :: "mm_state \<Rightarrow> u64 option \<Rightarrow> mm_state option" where
  "kfree_pages m va =
     (case va of
        None \<Rightarrow> Some m
      | Some a \<Rightarrow> map_option (set_buddy m) (buddy_free_pages (mm_buddy m) (virt_to_page (mm_buddy m) (mm_load_offset m) a)))"

text \<open>\<open>mmu_map\<close> on the tables and the page allocator of this state.\<close>

definition mm_map :: "mm_state \<Rightarrow> u64 \<Rightarrow> u64 \<Rightarrow> u64 \<Rightarrow> u64 \<Rightarrow> u64 \<Rightarrow> mm_state option" where
  "mm_map m pgd va pa sz attr =
     (case mmu_map \<lparr>mu_buddy = mm_buddy m, mu_load_offset = mm_load_offset m, mu_tbl = mm_tbl m\<rparr> pgd va pa sz attr of
        None \<Rightarrow> None
      | Some u \<Rightarrow> Some ((set_buddy m (mu_buddy u))\<lparr>mm_tbl := mu_tbl u\<rparr>))"

definition lift_slab :: "mm_state \<Rightarrow> (slab_state \<Rightarrow> ('a \<times> slab_state) option) \<Rightarrow> ('a \<times> mm_state) option" where
  "lift_slab m f = map_option (\<lambda>(r, s). (r, m\<lparr>mm_slab := s\<rparr>)) (f (mm_slab m))"

definition mm_kfree :: "mm_state \<Rightarrow> u64 option \<Rightarrow> mm_state option" where
  "mm_kfree m a = map_option (\<lambda>s. m\<lparr>mm_slab := s\<rparr>) (kfree (mm_slab m) a)"

section \<open>Address spaces\<close>

definition vspace_alloc :: "mm_state \<Rightarrow> (u64 option \<times> mm_state) option" where
  "vspace_alloc m =
     (case lift_slab m (\<lambda>s. kzalloc s sizeof_vspace) of
        None \<Rightarrow> None
      | Some (None, m1) \<Rightarrow> Some (None, m1)
      | Some (Some vs, m1) \<Rightarrow>
          let m2 = m1\<lparr>mm_vs := (mm_vs m1)(vs := \<lparr>vs_pgd = 0, vs_ustack_top = 0,
                     vs_mmap_base = USER_MMAP_BASE, vs_regions = []\<rparr>)\<rparr> in
          (case kzalloc_pages m2 (ucast PAGE_SIZE) of
             None \<Rightarrow> None
           | Some (None, m3) \<Rightarrow> map_option (\<lambda>m4. (None, m4)) (mm_kfree m3 (Some vs))
           | Some (Some pgd, m3) \<Rightarrow>
               Some (Some vs, m3\<lparr>mm_vs := (mm_vs m3)(vs := (mm_vs m3 vs)\<lparr>vs_pgd := pgd\<rparr>)\<rparr>)))"

fun free_regions :: "mm_state \<Rightarrow> vregion list \<Rightarrow> mm_state option" where
  "free_regions m [] = Some m"
| "free_regions m (vr # vrs) =
     (case buddy_free_pages (mm_buddy m) (vr_page vr) of
        None \<Rightarrow> None
      | Some b \<Rightarrow>
          (case mm_kfree (set_buddy m b) (Some (vr_self vr)) of
             None \<Rightarrow> None
           | Some m1 \<Rightarrow> free_regions m1 vrs))"

definition vspace_free :: "mm_state \<Rightarrow> u64 option \<Rightarrow> mm_state option" where
  "vspace_free m vs =
     (case vs of
        None \<Rightarrow> Some m
      | Some a \<Rightarrow>
          Option.bind (free_regions m (vs_regions (mm_vs m a))) (\<lambda>m1.
          Option.bind (if vs_pgd (mm_vs m a) \<noteq> 0 then kfree_pages m1 (Some (vs_pgd (mm_vs m a))) else Some m1) (\<lambda>m2.
            mm_kfree m2 (Some a))))"

text \<open>One region of a contiguous mapping: allocate its descriptor, map the page, append.\<close>

definition add_region :: "mm_state \<Rightarrow> u64 \<Rightarrow> u64 \<Rightarrow> u32 \<Rightarrow> nat \<Rightarrow> u64 \<Rightarrow> mm_state" where
  "add_region m vs uva flags page vr =
     m\<lparr>mm_vs := (mm_vs m)(vs := (mm_vs m vs)\<lparr>vs_regions := vs_regions (mm_vs m vs) @
         [\<lparr>vr_self = vr, vr_start = uva, vr_end = uva + PAGE_SIZE, vr_flags = flags, vr_page = page\<rparr>]\<rparr>)\<rparr>"

definition contig_attr :: "u32 \<Rightarrow> u64" where
  "contig_attr flags =
     (if flags AND VM_DEVICE \<noteq> 0 then MMU_REGION_USER_DEVICE
      else if flags AND VM_WRITE \<noteq> 0 then MMU_REGION_USER_STACK
      else if flags AND VM_EXEC \<noteq> 0 then MMU_REGION_USER_CODE
      else MMU_REGION_USER_RO)"

fun contig_loop ::
  "mm_state \<Rightarrow> u64 \<Rightarrow> u64 \<Rightarrow> u64 \<Rightarrow> u32 \<Rightarrow> u64 \<Rightarrow> nat list \<Rightarrow> (errno option \<times> mm_state) option"
where
  "contig_loop m vs phys va flags attr [] = Some (None, m)"
| "contig_loop m vs phys va flags attr (i # is) =
     (let off = ucast (push_bit PAGE_SHIFT (of_nat i :: u32));
          paddr = phys + off; vaddr = va + off;
          page = pfn_to_page (mm_buddy m) (ucast (drop_bit PAGE_SHIFT paddr)) in
      case lift_slab m (\<lambda>s. kmalloc s sizeof_vregion) of
        None \<Rightarrow> None
      | Some (None, m1) \<Rightarrow> Some (Some ENOMEM, m1)
      | Some (Some vr, m1) \<Rightarrow>
          (case mm_map m1 (vs_pgd (mm_vs m1 vs)) vaddr paddr PAGE_SIZE attr of
             None \<Rightarrow> None
           | Some m2 \<Rightarrow> contig_loop (add_region m2 vs vaddr flags page vr) vs phys va flags attr is))"

definition vspace_map_contig_phys ::
  "mm_state \<Rightarrow> u64 option \<Rightarrow> u64 \<Rightarrow> u32 \<Rightarrow> u32 \<Rightarrow> ((errno + u64) \<times> mm_state) option"
where
  "vspace_map_contig_phys m vs phys sz flags =
     (case vs of
        None \<Rightarrow> Some (Inl EINVAL, m)
      | Some a \<Rightarrow>
          if vs_pgd (mm_vs m a) = 0 then Some (Inl EINVAL, m)
          else if phys AND (PAGE_SIZE - 1) \<noteq> 0 then Some (Inl EINVAL, m)
          else
            let sz' = (ucast (PAGE_ALIGN (ucast sz)) :: u32); nr_pages = drop_bit PAGE_SHIFT sz' in
            if nr_pages = 0 then Some (Inl EINVAL, m)
            else
              let va = vs_mmap_base (mm_vs m a);
                  m1 = m\<lparr>mm_vs := (mm_vs m)(a := (mm_vs m a)\<lparr>vs_mmap_base := va + ucast sz'\<rparr>)\<rparr>
              in (case contig_loop m1 a phys va flags (contig_attr flags) [0 ..< unat nr_pages] of
                    None \<Rightarrow> None
                  | Some (Some e, m2) \<Rightarrow> Some (Inl e, m2)
                  | Some (None, m2) \<Rightarrow> Some (Inr va, m2)))"

definition user_prot_to_attr :: "u32 \<Rightarrow> u64" where
  "user_prot_to_attr flags =
     (if flags AND VM_WRITE \<noteq> 0 then
        if flags AND VM_EXEC \<noteq> 0
        then PTE_ATTR_NORMAL OR PTE_SH_INNER OR PTE_AP_RW_ANY OR PTE_AF OR PTE_PXN
        else MMU_REGION_USER_STACK
      else if flags AND VM_EXEC \<noteq> 0 then MMU_REGION_USER_CODE
      else MMU_REGION_USER_RO)"

definition vspace_map_page :: "mm_state \<Rightarrow> u64 option \<Rightarrow> u64 \<Rightarrow> u32 \<Rightarrow> ((errno + u64) \<times> mm_state) option" where
  "vspace_map_page m vs uva flags =
     (case vs of
        None \<Rightarrow> Some (Inl EINVAL, m)
      | Some a \<Rightarrow>
          if vs_pgd (mm_vs m a) = 0 then Some (Inl EINVAL, m)
          else if uva AND (PAGE_SIZE - 1) \<noteq> 0 then Some (Inl EINVAL, m)
          else
            (case buddy_alloc_pages (mm_buddy m) (ucast PAGE_SIZE) of
               None \<Rightarrow> None
             | Some (None, b) \<Rightarrow> Some (Inl ENOMEM, set_buddy m b)
             | Some (Some page, b) \<Rightarrow>
                 (case lift_slab (set_buddy m b) (\<lambda>s. kmalloc s sizeof_vregion) of
                    None \<Rightarrow> None
                  | Some (None, m1) \<Rightarrow>
                      map_option (\<lambda>b'. (Inl ENOMEM, set_buddy m1 b')) (buddy_free_pages (mm_buddy m1) page)
                  | Some (Some vr, m1) \<Rightarrow>
                      (case mm_map m1 (vs_pgd (mm_vs m1 a)) uva (ucast (page_to_phy (mm_buddy m1) page)) PAGE_SIZE
                              (user_prot_to_attr flags) of
                         None \<Rightarrow> None
                       | Some m2 \<Rightarrow>
                           let m3 = add_region m2 a uva flags page vr; kva = page_va m3 page
                           in Some (Inr kva, zero_bytes m3 kva (unat PAGE_SIZE))))))"

definition switch_vspace :: "mm_state \<Rightarrow> u64 \<Rightarrow> u64 option \<Rightarrow> u64 option \<Rightarrow> mm_state" where
  "switch_vspace m zero_pgd_pa prev nxt =
     (if nxt = prev then m
      else m\<lparr>mm_ttbr0 := (case nxt of
               Some a \<Rightarrow> vs_pgd (mm_vs m a) + mm_load_offset m | None \<Rightarrow> zero_pgd_pa)\<rparr>)"

text \<open>The first region that contains the address: its page and the offset (a 32-bit value).\<close>

fun find_region :: "vregion list \<Rightarrow> u64 \<Rightarrow> (nat \<times> u32) option" where
  "find_region [] addr = None"
| "find_region (vr # vrs) addr =
     (if vr_start vr \<le> addr \<and> addr < vr_end vr
      then Some (vr_page vr, ucast (addr - vr_start vr)) else find_region vrs addr)"

definition vspace_find_page :: "mm_state \<Rightarrow> u64 option \<Rightarrow> u64 \<Rightarrow> (nat \<times> u32) option" where
  "vspace_find_page m vs addr =
     (case vs of None \<Rightarrow> None | Some a \<Rightarrow> find_region (vs_regions (mm_vs m a)) addr)"

section \<open>Access to user memory\<close>

definition uaccess_switch_notify :: "mm_state \<Rightarrow> u64 \<Rightarrow> switch_envelope option \<Rightarrow> mm_state" where
  "uaccess_switch_notify m zero_pgd_pa nxt =
     (let cap = (case nxt of Some e \<Rightarrow> env_vspace_cap e | None \<Rightarrow> CAP_NULL);
          next_vs = (if cap \<noteq> CAP_NULL then cap_resolve (mm_caps m) cap CAP_R_MAP else None);
          m1 = m\<lparr>cur_vspace_cap := cap\<rparr>;
          m2 = (if next_vs \<noteq> cur_vspace m1 then switch_vspace m1 zero_pgd_pa (cur_vspace m1) next_vs else m1)
      in m2\<lparr>cur_vspace := next_vs\<rparr>)"

definition user_chunk :: "u32 \<Rightarrow> u32 \<Rightarrow> u32" where
  "user_chunk offset left = (let c = (ucast (PAGE_SIZE - ucast offset) :: u32) in if left < c then left else c)"

lemma user_chunk_le: "unat (user_chunk offset left) \<le> unat left"
  by (auto simp: user_chunk_def Let_def word_less_nat_alt)

lemma chunk_decr: "user_chunk offset left \<noteq> 0 \<Longrightarrow>
    unat (left - user_chunk offset left) = unat left - unat (user_chunk offset left) \<and>
    0 < unat (user_chunk offset left)"
  using user_chunk_le [of offset left] by (simp add: unat_sub word_le_nat_alt unat_gt_0)

lemma chunk_less: "user_chunk offset left \<noteq> 0 \<Longrightarrow> unat (left - user_chunk offset left) < unat left"
  using chunk_decr [of offset left] user_chunk_le [of offset left] by simp

text \<open>
  The copy loops: the number of bytes left and the bytes read so far, or the state written so far.
  A chunk of zero bytes would make the code loop forever: \<open>None\<close>.
\<close>

function copy_from_loop :: "mm_state \<Rightarrow> u64 option \<Rightarrow> u64 \<Rightarrow> u32 \<Rightarrow> bytes \<Rightarrow> (u32 \<times> bytes) option" where
  "copy_from_loop m vs addr left acc =
     (if 0 < left then
        (case vspace_find_page m vs addr of
           None \<Rightarrow> Some (left, acc)
         | Some (page, offset) \<Rightarrow>
             let chunk = user_chunk offset left; a = page_va m page + ucast offset in
             if chunk = 0 then None
             else copy_from_loop m vs (addr + ucast chunk) (left - chunk)
                    (acc @ map (\<lambda>i. mm_bytes m (a + of_nat i)) [0 ..< unat chunk]))
      else Some (0, acc))"
  by pat_completeness auto
termination
  by (relation "measure (\<lambda>(m, vs, addr, left, acc). unat left)") (auto simp: chunk_less)

declare copy_from_loop.simps [simp del]

definition copy_from_user :: "mm_state \<Rightarrow> u64 \<Rightarrow> u32 \<Rightarrow> (u32 \<times> bytes) option" where
  "copy_from_user m from n =
     (case cur_vspace m of None \<Rightarrow> Some (n, []) | Some vs \<Rightarrow> copy_from_loop m (Some vs) from n [])"

definition write_bytes :: "mm_state \<Rightarrow> u64 \<Rightarrow> bytes \<Rightarrow> mm_state" where
  "write_bytes m a bs =
     m\<lparr>mm_bytes := (\<lambda>x. if unat (x - a) < length bs then bs ! unat (x - a) else mm_bytes m x)\<rparr>"

function copy_to_loop :: "mm_state \<Rightarrow> u64 option \<Rightarrow> u64 \<Rightarrow> u32 \<Rightarrow> bytes \<Rightarrow> (u32 \<times> mm_state) option" where
  "copy_to_loop m vs addr left src =
     (if 0 < left then
        (case vspace_find_page m vs addr of
           None \<Rightarrow> Some (left, m)
         | Some (page, offset) \<Rightarrow>
             let chunk = user_chunk offset left; a = page_va m page + ucast offset in
             if chunk = 0 \<or> length src < unat chunk then None
             else copy_to_loop (write_bytes m a (take (unat chunk) src)) vs (addr + ucast chunk) (left - chunk)
                    (drop (unat chunk) src))
      else Some (0, m))"
  by pat_completeness auto
termination
  by (relation "measure (\<lambda>(m, vs, addr, left, src). unat left)") (auto simp: chunk_less)

declare copy_to_loop.simps [simp del]

definition copy_to_user :: "mm_state \<Rightarrow> u64 \<Rightarrow> bytes \<Rightarrow> u32 \<Rightarrow> (u32 \<times> mm_state) option" where
  "copy_to_user m to src n =
     (case cur_vspace m of None \<Rightarrow> Some (n, m) | Some vs \<Rightarrow> copy_to_loop m (Some vs) to n src)"

lemma strncpy_chunk_decr:
  assumes "1 < left" and "user_chunk offset (left - 1) \<noteq> 0"
  shows "unat (left - user_chunk offset (left - 1)) = unat left - unat (user_chunk offset (left - 1))"
    and "unat (user_chunk offset (left - 1)) < unat left" and "0 < unat (user_chunk offset (left - 1))"
proof -
  have l: "unat (left - 1) = unat left - 1" "1 < unat left"
    using assms(1) by (simp_all add: unat_sub word_less_nat_alt word_le_nat_alt)
  then show lt: "unat (user_chunk offset (left - 1)) < unat left"
    using user_chunk_le [of offset "left - 1"] by linarith
  then show "unat (left - user_chunk offset (left - 1)) = unat left - unat (user_chunk offset (left - 1))"
    by (simp add: unat_sub word_le_nat_alt)
  show "0 < unat (user_chunk offset (left - 1))" using assms(2) by (simp add: unat_gt_0)
qed

lemma strncpy_chunk_less:
  "1 < left \<Longrightarrow> user_chunk offset (left - 1) \<noteq> 0 \<Longrightarrow> unat (left - user_chunk offset (left - 1)) < unat left"
  using strncpy_chunk_decr [of left offset] by simp

text \<open>
  \<open>strncpy_from_user\<close>: the return value and the bytes stored at the destination. The inner loop over
  a chunk stops at a zero byte.
\<close>

function strncpy_user_loop :: "mm_state \<Rightarrow> u64 option \<Rightarrow> u64 \<Rightarrow> u32 \<Rightarrow> bytes \<Rightarrow> (u32 \<times> bytes) option" where
  "strncpy_user_loop m vs addr left acc =
     (if 1 < left then
        (case vspace_find_page m vs addr of
           None \<Rightarrow> Some (left, acc @ [0])
         | Some (page, offset) \<Rightarrow>
             let chunk = user_chunk offset (left - 1); a = page_va m page + ucast offset;
                 bs = map (\<lambda>i. mm_bytes m (a + of_nat i)) [0 ..< unat chunk] in
             if chunk = 0 then None
             else if 0 \<in> set bs then Some (0, acc @ takeWhile (\<lambda>c. c \<noteq> 0) bs @ [0])
             else strncpy_user_loop m vs (addr + ucast chunk) (left - chunk) (acc @ bs))
      else Some (left, acc @ [0]))"
  by pat_completeness auto
termination
  by (relation "measure (\<lambda>(m, vs, addr, left, acc). unat left)") (auto simp: strncpy_chunk_less)

declare strncpy_user_loop.simps [simp del]

definition strncpy_from_user :: "mm_state \<Rightarrow> u64 \<Rightarrow> u32 \<Rightarrow> (u32 \<times> bytes) option" where
  "strncpy_from_user m src n =
     (case cur_vspace m of
        None \<Rightarrow> Some (n, [])
      | Some vs \<Rightarrow> if n = 0 then Some (n, []) else strncpy_user_loop m (Some vs) src n [])"

section \<open>The service operations of mm.c\<close>

definition mm_map_user_pages :: "mm_state \<Rightarrow> cap_t \<Rightarrow> u64 \<Rightarrow> u32 \<Rightarrow> u32 \<Rightarrow> ((errno + u64) \<times> mm_state) option" where
  "mm_map_user_pages m c phys sz flags =
     (case cap_resolve (mm_caps m) c CAP_R_MAP of
        None \<Rightarrow> Some (Inl EINVAL, m)
      | Some vs \<Rightarrow> vspace_map_contig_phys m (Some vs) phys sz flags)"

definition mm_vspace_map_page :: "mm_state \<Rightarrow> cap_t \<Rightarrow> u64 \<Rightarrow> u32 \<Rightarrow> ((errno + u64) \<times> mm_state) option" where
  "mm_vspace_map_page m c uva flags =
     (case cap_resolve (mm_caps m) c CAP_R_MAP of
        None \<Rightarrow> Some (Inl EINVAL, m)
      | Some vs \<Rightarrow> vspace_map_page m (Some vs) uva flags)"

definition mm_vspace_create :: "mm_state \<Rightarrow> (cap_t \<times> mm_state) option" where
  "mm_vspace_create m =
     (case vspace_alloc m of
        None \<Rightarrow> None
      | Some (None, m1) \<Rightarrow> Some (CAP_NULL, m1)
      | Some (Some vs, m1) \<Rightarrow>
          let (c, cs) = cap_alloc (mm_caps m1) (Some vs) (CAP_R_MAP OR CAP_R_CTL)
          in Some (c, m1\<lparr>mm_caps := cs\<rparr>))"

definition mm_vspace_destroy :: "mm_state \<Rightarrow> cap_t \<Rightarrow> mm_state option" where
  "mm_vspace_destroy m c =
     (case cap_resolve (mm_caps m) c CAP_R_CTL of
        None \<Rightarrow> Some m
      | Some vs \<Rightarrow> vspace_free (m\<lparr>mm_caps := cap_free (mm_caps m) c\<rparr>) (Some vs))"

section \<open>User memory as the loops see it\<close>

definition user_byte :: "mm_state \<Rightarrow> u64 option \<Rightarrow> u64 \<Rightarrow> u8 option" where
  "user_byte m vs addr =
     map_option (\<lambda>(p, off). mm_bytes m (page_va m p + ucast off)) (vspace_find_page m vs addr)"

text \<open>Every region is one page, as the mapping functions create them.\<close>

definition page_region :: "vregion \<Rightarrow> bool" where
  "page_region vr \<longleftrightarrow> 4096 dvd unat (vr_start vr) \<and> unat (vr_start vr) + 4096 < 2 ^ 64 \<and>
     vr_end vr = vr_start vr + PAGE_SIZE"

definition regions_ok :: "mm_state \<Rightarrow> u64 option \<Rightarrow> bool" where
  "regions_ok m vs \<longleftrightarrow> (case vs of None \<Rightarrow> True | Some a \<Rightarrow> list_all page_region (vs_regions (mm_vs m a)))"

lemma page_region_mem:
  assumes "page_region vr"
  shows "vr_start vr \<le> addr \<and> addr < vr_end vr \<longleftrightarrow> unat (vr_start vr) = unat addr div 4096 * 4096"
proof -
  have e: "unat (vr_end vr) = unat (vr_start vr) + 4096"
    using assms unat_add_lem [of "vr_start vr" "4096 :: u64"] by (simp add: page_region_def page_consts)
  obtain k where k: "unat (vr_start vr) = 4096 * k" using assms by (auto simp: page_region_def elim: dvdE)
  have "4096 * k \<le> unat addr \<and> unat addr < 4096 * k + 4096 \<longleftrightarrow> k = unat addr div 4096" by auto
  then show ?thesis by (auto simp: word_le_nat_alt word_less_nat_alt e k)
qed

lemma find_region_page:
  assumes "list_all page_region vrs"
  shows "find_region vrs addr =
    map_option (\<lambda>vr. (vr_page vr, of_nat (unat addr mod 4096)))
      (find (\<lambda>vr. unat (vr_start vr) = unat addr div 4096 * 4096) vrs)"
  using assms
proof (induction vrs)
  case Nil
  then show ?case by simp
next
  case (Cons vr vrs)
  show ?case
  proof (cases "unat (vr_start vr) = unat addr div 4096 * 4096")
    case True
    have "vr_start vr \<le> addr" using True by (simp add: word_le_nat_alt)
    then have "unat (addr - vr_start vr) = unat addr mod 4096"
      using True by (simp add: unat_sub minus_div_mult_eq_mod)
    then have "ucast (addr - vr_start vr) = (of_nat (unat addr mod 4096) :: u32)"
      by (metis of_nat_unat)
    then show ?thesis using True Cons.prems page_region_mem [of vr addr] by simp
  next
    case False
    then show ?thesis using Cons page_region_mem [of vr addr] by auto
  qed
qed

lemma page_split:
  fixes a i :: nat
  assumes "a mod 4096 + i < 4096"
  shows "(a + i) div 4096 = a div 4096" and "(a + i) mod 4096 = a mod 4096 + i"
proof -
  have a: "a = 4096 * (a div 4096) + a mod 4096" by simp
  show d: "(a + i) div 4096 = a div 4096"
  proof (rule div_nat_eqI)
    show "4096 * (a div 4096) \<le> a + i" using a by linarith
    have "4096 * Suc (a div 4096) = 4096 * (a div 4096) + 4096" by simp
    then show "a + i < 4096 * Suc (a div 4096)" using assms a by linarith
  qed
  show "(a + i) mod 4096 = a mod 4096 + i"
    unfolding minus_div_mult_eq_mod [of "a + i" 4096, symmetric] d using a by linarith
qed

text \<open>Inside one page the lookup moves along with the address.\<close>

lemma find_page_region:
  assumes "regions_ok m vs" and "vspace_find_page m vs addr = Some (p, off)"
  obtains a vr where "vs = Some a" and "list_all page_region (vs_regions (mm_vs m a))"
    and "find (\<lambda>vr. unat (vr_start vr) = unat addr div 4096 * 4096) (vs_regions (mm_vs m a)) = Some vr"
    and "p = vr_page vr" and "off = of_nat (unat addr mod 4096)"
proof -
  obtain a where a: "vs = Some a" using assms(2) by (cases vs) (auto simp: vspace_find_page_def)
  have ok: "list_all page_region (vs_regions (mm_vs m a))" using assms(1) a by (simp add: regions_ok_def)
  show thesis
    using that [OF a ok] assms(2) by (auto simp: vspace_find_page_def a find_region_page [OF ok])
qed

lemma find_page_off: "regions_ok m vs \<Longrightarrow> vspace_find_page m vs addr = Some (p, off) \<Longrightarrow> unat off = unat addr mod 4096"
  by (erule (1) find_page_region) (simp add: unat_of_nat)

lemma find_page_step:
  assumes "regions_ok m vs" and "vspace_find_page m vs addr = Some (p, off)"
    and "i < 4096 - unat off"
  shows "unat (addr + of_nat i) = unat addr + i"
    and "vspace_find_page m vs (addr + of_nat i) = Some (p, of_nat (unat off + i))"
proof -
  obtain a vr where a: "vs = Some a" and ok: "list_all page_region (vs_regions (mm_vs m a))"
    and vr: "find (\<lambda>vr. unat (vr_start vr) = unat addr div 4096 * 4096) (vs_regions (mm_vs m a)) = Some vr"
    "p = vr_page vr"
    by (rule find_page_region [OF assms(1,2)])
  let ?vrs = "vs_regions (mm_vs m a)"
  note off = find_page_off [OF assms(1,2)]
  from vr(1) have "vr \<in> set ?vrs" "unat (vr_start vr) = unat addr div 4096 * 4096"
    by (auto simp: find_Some_iff)
  then have "unat addr div 4096 * 4096 + 4096 < 2 ^ 64"
    using ok by (auto simp: list_all_iff page_region_def)
  moreover have lt: "unat addr mod 4096 + i < 4096" using assms(3) off by linarith
  moreover have sum: "unat addr + i = unat addr div 4096 * 4096 + (unat addr mod 4096 + i)"
    by (simp add: div_mult_mod_eq flip: add.assoc)
  ultimately have no: "unat addr + i < 2 ^ 64" by linarith
  then have "i < 2 ^ 64" by simp
  then have "unat (of_nat i :: u64) = i" by (simp add: unat_of_nat)
  then show u: "unat (addr + of_nat i) = unat addr + i"
    using no by (subst unat_add_lem [THEN iffD1]) simp_all
  have "(unat addr + i) div 4096 = unat addr div 4096" "(unat addr + i) mod 4096 = unat addr mod 4096 + i"
    by (rule page_split [OF lt])+
  then show "vspace_find_page m vs (addr + of_nat i) = Some (p, of_nat (unat off + i))"
    using vr by (simp add: vspace_find_page_def a find_region_page [OF ok] u off)
qed

lemma user_chunk_page:
  assumes "unat off < 4096"
  shows "unat (user_chunk off left) = min (unat left) (4096 - unat off)"
proof -
  have "unat (PAGE_SIZE - ucast off) = 4096 - unat off"
    using assms by (subst unat_sub) (simp_all add: page_consts word_le_nat_alt unat_ucast_u32_u64)
  then have "unat (ucast (PAGE_SIZE - ucast off) :: u32) = 4096 - unat off"
    by (simp add: unsigned_ucast_eq take_bit_eq_mod)
  then show ?thesis by (simp add: user_chunk_def Let_def word_less_nat_alt)
qed

lemma ucast_as_nat: "(ucast (w :: u32) :: u64) = of_nat (unat w)"
  by simp

text \<open>One step of a loop: the chunk is not empty, stays in the page, and what it covers.\<close>

lemma user_chunk_step:
  assumes "regions_ok m vs" and "vspace_find_page m vs addr = Some (p, off)" and "0 < left"
  shows "user_chunk off left \<noteq> 0" and "unat (user_chunk off left) \<le> unat left"
    and "unat (user_chunk off left) \<le> 4096 - unat off" and "unat off < 4096"
    and "\<forall>i < unat (user_chunk off left). user_byte m vs (addr + of_nat i) =
      Some (mm_bytes m (page_va m p + ucast off + of_nat i))"
proof -
  show off: "unat off < 4096" by (simp add: find_page_off [OF assms(1,2)])
  note c = user_chunk_page [OF off, of left]
  have "0 < unat left" using assms(3) by (simp add: word_less_nat_alt)
  then have "0 < unat (user_chunk off left)" using c off by simp
  then show "user_chunk off left \<noteq> 0" by (simp add: unat_gt_0)
  show "unat (user_chunk off left) \<le> unat left" "unat (user_chunk off left) \<le> 4096 - unat off"
    using c by auto
  show "\<forall>i < unat (user_chunk off left). user_byte m vs (addr + of_nat i) =
      Some (mm_bytes m (page_va m p + ucast off + of_nat i))"
  proof (intro allI impI)
    fix i assume "i < unat (user_chunk off left)"
    then have i: "i < 4096 - unat off" using c by simp
    have "unat (of_nat (unat off + i) :: u32) = unat off + i" unfolding unat_of_nat using i by simp
    then show "user_byte m vs (addr + of_nat i) = Some (mm_bytes m (page_va m p + ucast off + of_nat i))"
      using find_page_step(2) [OF assms(1,2) i]
      by (simp only: user_byte_def option.map prod.case ucast_as_nat of_nat_add add.assoc)
  qed
qed

lemma copy_from_loop_spec:
  assumes "regions_ok m vs"
  shows "\<exists>l bs. copy_from_loop m vs addr left acc = Some (l, acc @ bs) \<and> unat l + length bs = unat left \<and>
    (\<forall>i < length bs. user_byte m vs (addr + of_nat i) = Some (bs ! i)) \<and>
    (l \<noteq> 0 \<longrightarrow> user_byte m vs (addr + of_nat (length bs)) = None)"
proof (induction "unat left" arbitrary: addr left acc rule: less_induct)
  case less
  show ?case
  proof (cases "0 < left")
    case False
    then have "left = 0" by (simp add: word_less_nat_alt unat_eq_0)
    then show ?thesis by (subst copy_from_loop.simps) simp
  next
    case True
    show ?thesis
    proof (cases "vspace_find_page m vs addr")
      case None
      then show ?thesis using True by (subst copy_from_loop.simps) (simp add: user_byte_def)
    next
      case (Some po)
      then obtain p off where f: "vspace_find_page m vs addr = Some (p, off)" by (cases po) auto
      let ?c = "user_chunk off left"
      let ?bs = "map (\<lambda>i. mm_bytes m (page_va m p + ucast off + of_nat i)) [0 ..< unat ?c]"
      note st = user_chunk_step [OF assms f True]
      note d = chunk_decr [OF st(1)]
      have lt: "unat (left - ?c) < unat left" by (rule chunk_less [OF st(1)])
      obtain l bs where IH: "copy_from_loop m vs (addr + ucast ?c) (left - ?c) (acc @ ?bs) = Some (l, (acc @ ?bs) @ bs)"
        "unat l + length bs = unat (left - ?c)"
        "\<forall>i < length bs. user_byte m vs (addr + ucast ?c + of_nat i) = Some (bs ! i)"
        "l \<noteq> 0 \<longrightarrow> user_byte m vs (addr + ucast ?c + of_nat (length bs)) = None"
        using less [OF lt] by blast
      have "copy_from_loop m vs addr left acc = copy_from_loop m vs (addr + ucast ?c) (left - ?c) (acc @ ?bs)"
        using True f st(1) by (subst copy_from_loop.simps) (simp add: Let_def)
      then have A: "copy_from_loop m vs addr left acc = Some (l, acc @ (?bs @ bs))"
        using IH(1) by (simp only: append_assoc)
      have B: "unat l + length (?bs @ bs) = unat left" using IH(2) d st(2) by simp
      have C: "user_byte m vs (addr + of_nat i) = Some ((?bs @ bs) ! i)" if "i < length (?bs @ bs)" for i
      proof (cases "i < unat ?c")
        case True
        then show ?thesis using st(5) by (simp add: nth_append)
      next
        case False
        then obtain j where j: "i = unat ?c + j" by (metis le_add_diff_inverse not_less)
        then have "addr + of_nat i = addr + ucast ?c + of_nat j" by (simp add: add.assoc)
        then show ?thesis using IH(3) that j by (simp add: nth_append add.assoc)
      qed
      have "addr + of_nat (length (?bs @ bs)) = addr + ucast ?c + of_nat (length bs)"
        by (simp add: add.assoc)
      then have D: "l \<noteq> 0 \<longrightarrow> user_byte m vs (addr + of_nat (length (?bs @ bs))) = None"
        using IH(4) by (simp only:)
      show ?thesis using A B C D by (intro exI [of _ l] exI [of _ "?bs @ bs"]) blast
    qed
  qed
qed

text \<open>
  Distinct regions of a vspace lie on distinct pages of the machine, and distinct user addresses
  reach distinct bytes.
\<close>

definition pages_ok :: "mm_state \<Rightarrow> u64 option \<Rightarrow> bool" where
  "pages_ok m vs \<longleftrightarrow> (case vs of None \<Rightarrow> True | Some a \<Rightarrow>
     inj_on vr_page (set (vs_regions (mm_vs m a))) \<and>
     (\<forall>vr \<in> set (vs_regions (mm_vs m a)). vr_page vr < g_nr_pages (mm_buddy m))) \<and>
     frames_ok (mm_buddy m) \<and> (unat (g_pfn_offset (mm_buddy m)) + g_nr_pages (mm_buddy m)) * 4096 \<le> 2 ^ 32"

definition user_addr :: "mm_state \<Rightarrow> u64 option \<Rightarrow> u64 \<Rightarrow> u64 option" where
  "user_addr m vs addr = map_option (\<lambda>(p, off). page_va m p + ucast off) (vspace_find_page m vs addr)"

lemma user_byte_addr: "user_byte m vs addr = map_option (mm_bytes m) (user_addr m vs addr)"
  by (simp add: user_byte_def user_addr_def option.map_comp comp_def case_prod_unfold)

lemma user_addr_inj:
  assumes "regions_ok m vs" and "pages_ok m vs" and "user_addr m vs x = Some a" and "user_addr m vs y = Some a"
  shows "x = y"
proof -
  obtain p off where x: "vspace_find_page m vs x = Some (p, off)" "a = page_va m p + ucast off"
    using assms(3) by (auto simp: user_addr_def)
  obtain q off' where y: "vspace_find_page m vs y = Some (q, off')" "a = page_va m q + ucast off'"
    using assms(4) by (auto simp: user_addr_def)
  obtain v vr where vr: "vs = Some v" "find (\<lambda>vr. unat (vr_start vr) = unat x div 4096 * 4096) (vs_regions (mm_vs m v)) = Some vr"
    "p = vr_page vr" by (rule find_page_region [OF assms(1) x(1)])
  obtain wr where wr: "find (\<lambda>vr. unat (vr_start vr) = unat y div 4096 * 4096) (vs_regions (mm_vs m v)) = Some wr"
    "q = vr_page wr" by (rule find_page_region [OF assms(1) y(1)]) (use vr(1) in auto)
  have mem: "vr \<in> set (vs_regions (mm_vs m v))" "unat (vr_start vr) = unat x div 4096 * 4096"
    "wr \<in> set (vs_regions (mm_vs m v))" "unat (vr_start wr) = unat y div 4096 * 4096"
    using vr(2) wr(1) by (auto simp: find_Some_iff)
  have ok: "frames_ok (mm_buddy m)" "(unat (g_pfn_offset (mm_buddy m)) + g_nr_pages (mm_buddy m)) * 4096 \<le> 2 ^ 32"
    "p < g_nr_pages (mm_buddy m)" "q < g_nr_pages (mm_buddy m)" "inj_on vr_page (set (vs_regions (mm_vs m v)))"
    using assms(2) vr(1,3) wr(2) mem by (auto simp: pages_ok_def)
  note o = find_page_off [OF assms(1) x(1)] find_page_off [OF assms(1) y(1)]
  have l: "unat (ucast off :: u64) < 4096" "unat (ucast off' :: u64) < 4096"
    unfolding unat_ucast_u32_u64 o by simp_all
  have "p = virt_to_page (mm_buddy m) (mm_load_offset m) a"
    using virt_page_inverse [OF ok(1,2,3) l(1)] x(2) by (simp add: page_va_def)
  moreover have "q = virt_to_page (mm_buddy m) (mm_load_offset m) a"
    using virt_page_inverse [OF ok(1,2,4) l(2)] y(2) by (simp add: page_va_def)
  ultimately have pq: "p = q" by simp
  then have "(ucast off :: u64) = ucast off'" using x(2) y(2) by simp
  then have "unat x mod 4096 = unat y mod 4096" using o by (metis unat_ucast_u32_u64)
  moreover have "vr = wr" using pq vr(3) wr(2) mem(1,3) ok(5) by (auto simp: inj_on_def)
  then have "unat x div 4096 * 4096 = unat y div 4096 * 4096" using mem(2,4) by simp
  ultimately have "unat x = unat y" by (metis div_mult_mod_eq)
  then show ?thesis by (rule unsigned_word_eqI)
qed

text \<open>Writing bytes changes no mapping.\<close>

lemma write_bytes_base [simp]:
  "mm_buddy (write_bytes m a bs) = mm_buddy m" "mm_load_offset (write_bytes m a bs) = mm_load_offset m"
  "mm_vs (write_bytes m a bs) = mm_vs m" "cur_vspace (write_bytes m a bs) = cur_vspace m"
  "mm_bytes (write_bytes m a bs) x = (if unat (x - a) < length bs then bs ! unat (x - a) else mm_bytes m x)"
  by (simp_all add: write_bytes_def mm_buddy_def mm_load_offset_def)

lemma write_bytes_frame [simp]:
  "page_va (write_bytes m a bs) = page_va m"
  "vspace_find_page (write_bytes m a bs) = vspace_find_page m"
  "user_addr (write_bytes m a bs) = user_addr m"
  "regions_ok (write_bytes m a bs) = regions_ok m" "pages_ok (write_bytes m a bs) = pages_ok m"
  by (intro ext, simp add: page_va_def vspace_find_page_def user_addr_def regions_ok_def pages_ok_def
      split: option.splits)+

lemma user_addr_chunk:
  assumes "regions_ok m vs" and "vspace_find_page m vs addr = Some (p, off)" and "i < 4096 - unat off"
  shows "user_addr m vs (addr + of_nat i) = Some (page_va m p + ucast off + of_nat i)"
proof -
  have "unat (of_nat (unat off + i) :: u32) = unat off + i" unfolding unat_of_nat using assms(3) by simp
  then show ?thesis
    using find_page_step(2) [OF assms]
    by (simp only: user_addr_def option.map prod.case ucast_as_nat of_nat_add add.assoc)
qed

text \<open>What one chunk of a write does, seen through the user's addresses.\<close>

lemma write_chunk_user:
  assumes ok: "regions_ok m vs" "pages_ok m vs" and f: "vspace_find_page m vs addr = Some (p, off)"
    and len: "length bs \<le> 4096 - unat off"
  shows "user_byte (write_bytes m (page_va m p + ucast off) bs) vs x =
    (if \<exists>i < length bs. x = addr + of_nat i then Some (bs ! unat (x - addr)) else user_byte m vs x)"
proof -
  let ?a = "page_va m p + ucast off :: u64"
  have small: "i < length bs \<Longrightarrow> unat (of_nat i :: u64) = i" for i
    using len by (simp add: unat_of_nat)
  show ?thesis
  proof (cases "\<exists>i < length bs. x = addr + of_nat i")
    case True
    then obtain i where i: "i < length bs" "x = addr + of_nat i" by blast
    then have "user_addr m vs x = Some (?a + of_nat i)"
      using user_addr_chunk [OF ok(1) f, of i] len by simp
    then show ?thesis
      using i small [OF i(1)] by (auto simp: user_byte_addr)
  next
    case False
    have "unat (b - ?a) < length bs \<Longrightarrow> user_addr m vs x = Some b \<Longrightarrow> False" for b
    proof -
      assume b: "unat (b - ?a) < length bs" "user_addr m vs x = Some b"
      let ?i = "unat (b - ?a)"
      have e: "b = ?a + of_nat ?i" by simp
      have "user_addr m vs (addr + of_nat ?i) = Some b"
        using user_addr_chunk [OF ok(1) f, of ?i] b(1) len e by simp
      then have "x = addr + of_nat ?i" using user_addr_inj [OF ok b(2)] by blast
      with False b(1) show False by blast
    qed
    then show ?thesis
      using False by (cases "user_addr m vs x") (auto simp: user_byte_addr)
  qed
qed

lemma copy_to_loop_spec:
  assumes "regions_ok m vs" and "pages_ok m vs" and "length src = unat left"
    and "unat addr + unat left < 2 ^ 64"
  shows "\<exists>l m'. copy_to_loop m vs addr left src = Some (l, m') \<and> unat l \<le> unat left \<and>
    cur_vspace m' = cur_vspace m \<and> regions_ok m' vs \<and> pages_ok m' vs \<and> user_addr m' = user_addr m \<and>
    (\<forall>x. user_byte m' vs x = (if \<exists>i < unat left - unat l. x = addr + of_nat i
       then Some (src ! unat (x - addr)) else user_byte m vs x)) \<and>
    (\<forall>i < unat left - unat l. user_addr m vs (addr + of_nat i) \<noteq> None) \<and>
    (l \<noteq> 0 \<longrightarrow> user_addr m vs (addr + of_nat (unat left - unat l)) = None)"
  using assms
proof (induction "unat left" arbitrary: m addr left src rule: less_induct)
  case less
  show ?case
  proof (cases "0 < left \<and> vspace_find_page m vs addr \<noteq> None")
    case False
    show ?thesis
    proof (cases "left = 0")
      case True
      then show ?thesis using less(2,3) by (subst copy_to_loop.simps) simp
    next
      case nz: False
      then have "0 < left" by (simp add: word_gt_0)
      moreover have "vspace_find_page m vs addr = None" using False \<open>0 < left\<close> by blast
      ultimately show ?thesis using less(2,3) by (subst copy_to_loop.simps) (simp add: user_addr_def)
    qed
  next
    case True
    then obtain p off where f: "vspace_find_page m vs addr = Some (p, off)" and pos: "0 < left" by auto
    let ?c = "user_chunk off left" and ?a = "page_va m p + ucast off :: u64"
    let ?m = "write_bytes m ?a (take (unat ?c) src)"
    note st = user_chunk_step [OF less(2) f pos]
    note d = chunk_decr [OF st(1)]
    have c: "unat ?c \<le> unat left" "unat ?c \<le> 4096 - unat off" by (fact st(2), fact st(3))
    have ua: "unat (addr + ucast ?c) = unat addr + unat ?c"
      using less(5) c(1) by (subst unat_add_lem [THEN iffD1]) (simp_all add: unat_ucast_u32_u64)
    have pre: "unat (left - ?c) < unat left" "regions_ok ?m vs" "pages_ok ?m vs"
      "length (drop (unat ?c) src) = unat (left - ?c)" "unat (addr + ucast ?c) + unat (left - ?c) < 2 ^ 64"
      using less(2-5) d chunk_less [OF st(1)] c(1) ua by auto
    obtain l m' where IH: "copy_to_loop ?m vs (addr + ucast ?c) (left - ?c) (drop (unat ?c) src) = Some (l, m')"
      "unat l \<le> unat (left - ?c)" "cur_vspace m' = cur_vspace ?m" "regions_ok m' vs" "pages_ok m' vs" "user_addr m' = user_addr ?m"
      "\<And>x. user_byte m' vs x = (if \<exists>i < unat (left - ?c) - unat l. x = addr + ucast ?c + of_nat i
         then Some (drop (unat ?c) src ! unat (x - (addr + ucast ?c))) else user_byte ?m vs x)"
      "\<And>i. i < unat (left - ?c) - unat l \<Longrightarrow> user_addr ?m vs (addr + ucast ?c + of_nat i) \<noteq> None"
      "l \<noteq> 0 \<longrightarrow> user_addr ?m vs (addr + ucast ?c + of_nat (unat (left - ?c) - unat l)) = None"
      using less(1) [OF pre] by blast
    let ?n = "unat left - unat l"
    have n: "?n = unat ?c + (unat (left - ?c) - unat l)" using d c(1) IH(2) by linarith
    have step: "copy_to_loop m vs addr left src = Some (l, m')"
      using pos f st(1) IH(1) less(4) c(1) by (subst copy_to_loop.simps) (simp add: Let_def)
    have le: "unat l \<le> unat left" using IH(2) d by linarith
    have "length (take (unat ?c) src) \<le> 4096 - unat off" using c(2) by simp
    note wc = write_chunk_user [OF less(2,3) f this]
    have wide: "i < 2 ^ 64" if "i < ?n" for i using that less(5) by simp
    have sub: "unat (addr + of_nat i - addr) = i" if "i < ?n" for i
      using wide [OF that] by (simp add: unat_of_nat)
    have byte: "user_byte m' vs x = (if \<exists>i < ?n. x = addr + of_nat i then Some (src ! unat (x - addr)) else user_byte m vs x)" for x
    proof (cases "\<exists>i < ?n. x = addr + of_nat i")
      case True
      then obtain i where i: "i < ?n" "x = addr + of_nat i" by blast
      show ?thesis
      proof (cases "i < unat ?c")
        case True
        have "\<not> (\<exists>j < unat (left - ?c) - unat l. x = addr + ucast ?c + of_nat j)"
        proof
          assume "\<exists>j < unat (left - ?c) - unat l. x = addr + ucast ?c + of_nat j"
          then obtain j where j: "unat ?c + j < ?n" "x = addr + of_nat (unat ?c + j)"
            using n by (auto simp: add.assoc)
          then have "i = unat ?c + j" using i sub by metis
          with True show False by simp
        qed
        then have "user_byte m' vs x = user_byte ?m vs x" unfolding IH(7) [of x] by (rule if_not_P)
        moreover have "\<exists>k < length (take (unat ?c) src). x = addr + of_nat k"
          using i(2) True less(4) c(1) by auto
        ultimately show ?thesis
          using i sub [OF i(1)] True by (auto simp: wc)
      next
        case False
        then obtain j where j: "i = unat ?c + j" by (metis le_add_diff_inverse not_less)
        then have x: "x = addr + ucast ?c + of_nat j" "j < unat (left - ?c) - unat l"
          using i n by (auto simp: add.assoc)
        then have "unat (x - (addr + ucast ?c)) = j" using wide [of j] n by (simp add: unat_of_nat)
        moreover have "user_byte m' vs x = Some (drop (unat ?c) src ! unat (x - (addr + ucast ?c)))"
          using IH(7) [of x] x by auto
        ultimately show ?thesis using i sub [OF i(1)] j less(4) c(1) by auto
      qed
    next
      case False
      have "\<not> (\<exists>j < unat (left - ?c) - unat l. x = addr + ucast ?c + of_nat j)"
      proof
        assume "\<exists>j < unat (left - ?c) - unat l. x = addr + ucast ?c + of_nat j"
        then obtain j where "unat ?c + j < ?n" "x = addr + of_nat (unat ?c + j)"
          using n by (auto simp: add.assoc)
        with False show False by blast
      qed
      moreover have "\<not> (\<exists>k < length (take (unat ?c) src). x = addr + of_nat k)" using False n by auto
      ultimately show ?thesis unfolding IH(7) [of x] wc if_not_P [OF False] by (simp only: if_False)
    qed
    have mapped: "user_addr m vs (addr + of_nat i) \<noteq> None" if "i < ?n" for i
    proof (cases "i < unat ?c")
      case True
      then show ?thesis using user_addr_chunk [OF less(2) f, of i] c(2) by simp
    next
      case False
      then obtain j where j: "i = unat ?c + j" by (metis le_add_diff_inverse not_less)
      then show ?thesis using IH(8) [of j] that n by (simp add: add.assoc)
    qed
    have "l \<noteq> 0 \<longrightarrow> user_addr m vs (addr + of_nat ?n) = None"
      using IH(9) n by (simp add: add.assoc)
    then show ?thesis using step le IH(3-6) byte mapped by auto
  qed
qed

section \<open>Properties\<close>

lemma copy_from_user_spec:
  assumes "regions_ok m (cur_vspace m)"
  shows "\<exists>l bs. copy_from_user m a n = Some (l, bs) \<and> unat l + length bs = unat n \<and>
    (\<forall>i < length bs. user_byte m (cur_vspace m) (a + of_nat i) = Some (bs ! i)) \<and>
    (l \<noteq> 0 \<longrightarrow> user_byte m (cur_vspace m) (a + of_nat (length bs)) = None)"
proof (cases "cur_vspace m")
  case None
  then show ?thesis by (simp add: copy_from_user_def user_byte_def vspace_find_page_def)
next
  case (Some v)
  then show ?thesis
    using copy_from_loop_spec [of m "Some v" a n "[]"] assms by (simp add: copy_from_user_def)
qed

text \<open>
  (C34) \<open>copy_from_user\<close> returns for every request and reads exactly the user's bytes: it delivers the
  longest mapped prefix of the range, byte for byte what the regions map, across page boundaries,
  and returns the number of bytes it could not copy.
\<close>

theorem copy_from_user_correct:
  assumes "regions_ok m (cur_vspace m)"
  shows "\<exists>l bs. copy_from_user m from n = Some (l, bs) \<and> unat l + length bs = unat n \<and>
    (\<forall>i < length bs. user_byte m (cur_vspace m) (from + of_nat i) = Some (bs ! i)) \<and>
    (l \<noteq> 0 \<longrightarrow> user_byte m (cur_vspace m) (from + of_nat (length bs)) = None)"
  by (rule copy_from_user_spec [OF assms])

text \<open>
  (C33) \<open>copy_to_user\<close> writes exactly the given bytes to the mapped prefix of the user's range and no
  other user byte changes, as long as distinct regions lie on distinct pages; the count it returns
  is the length of the part that is not mapped.
\<close>

theorem copy_to_user_correct:
  assumes "regions_ok m (cur_vspace m)" and "pages_ok m (cur_vspace m)"
    and "length src = unat n" and "unat to + unat n < 2 ^ 64"
  shows "\<exists>l m'. copy_to_user m to src n = Some (l, m') \<and> unat l \<le> unat n \<and>
    (\<forall>x. user_byte m' (cur_vspace m) x =
       (if \<exists>i < unat n - unat l. x = to + of_nat i then Some (src ! unat (x - to))
        else user_byte m (cur_vspace m) x)) \<and>
    (l \<noteq> 0 \<longrightarrow> user_byte m (cur_vspace m) (to + of_nat (unat n - unat l)) = None)"
proof (cases "cur_vspace m")
  case None
  then show ?thesis by (simp add: copy_to_user_def user_byte_def vspace_find_page_def)
next
  case (Some v)
  have eq: "copy_to_user m to src n = copy_to_loop m (cur_vspace m) to n src"
    using Some by (simp add: copy_to_user_def)
  have none: "user_addr m (cur_vspace m) x = None \<Longrightarrow> user_byte m (cur_vspace m) x = None" for x
    by (simp add: user_byte_addr)
  show ?thesis unfolding eq using copy_to_loop_spec [OF assms] none by blast
qed

text \<open>
  What is written can be read back: after \<open>copy_to_user\<close> has stored a whole buffer,
  \<open>copy_from_user\<close> on the same range returns the same bytes and reports nothing left.
\<close>

theorem copy_user_roundtrip:
  assumes "regions_ok m (cur_vspace m)" and "pages_ok m (cur_vspace m)"
    and "length src = unat n" and "unat to + unat n < 2 ^ 64"
    and "copy_to_user m to src n = Some (0, m')"
  shows "copy_from_user m' to n = Some (0, src)"
proof (cases "cur_vspace m")
  case None
  then show ?thesis using assms(3,5) by (auto simp: copy_to_user_def copy_from_user_def)
next
  case (Some v)
  obtain l2 m2 where r: "copy_to_loop m (cur_vspace m) to n src = Some (l2, m2)" "unat l2 \<le> unat n"
    "cur_vspace m2 = cur_vspace m" "regions_ok m2 (cur_vspace m)" "user_addr m2 = user_addr m"
    "\<forall>x. user_byte m2 (cur_vspace m) x = (if \<exists>i < unat n - unat l2. x = to + of_nat i
       then Some (src ! unat (x - to)) else user_byte m (cur_vspace m) x)"
    "\<forall>i < unat n - unat l2. user_addr m (cur_vspace m) (to + of_nat i) \<noteq> None"
    using copy_to_loop_spec [OF assms(1-4)] by blast
  have eq: "l2 = 0" "m2 = m'" using r(1) assms(5) Some by (auto simp: copy_to_user_def)
  obtain l bs where c: "copy_from_user m' to n = Some (l, bs)" "unat l + length bs = unat n"
    "\<forall>i < length bs. user_byte m' (cur_vspace m') (to + of_nat i) = Some (bs ! i)"
    "l \<noteq> 0 \<longrightarrow> user_byte m' (cur_vspace m') (to + of_nat (length bs)) = None"
    using copy_from_user_spec [of m' to n] r(3,4) eq by metis
  have sub: "unat (to + of_nat i - to) = i" if "i < unat n" for i
    using that assms(4) by (simp add: unat_of_nat)
  have b: "user_byte m' (cur_vspace m') (to + of_nat i) = Some (src ! i)" if "i < unat n" for i
    using r(3,6) eq that sub [OF that] by auto
  have "l = 0"
  proof (rule ccontr)
    assume "l \<noteq> 0"
    then have "length bs < unat n" using c(2) by (metis add_cancel_right_left le_add2 le_neq_implies_less unat_eq_0)
    with b c(4) \<open>l \<noteq> 0\<close> show False by simp
  qed
  moreover have "bs = src"
    using c(2,3) b calculation assms(3) by (intro nth_equalityI) auto
  ultimately show ?thesis using c(1) by simp
qed

text \<open>A vspace with two regions whose user addresses are adjacent and whose pages are not.\<close>

definition demo_mm :: mm_state where
  "demo_mm = \<lparr>
     mm_slab = \<lparr>sl_buddy = demo_buddy, sl_load_offset = 0,
       sl_cache = (\<lambda>_. \<lparr>kc_name = [], kc_obj_size = 0, kc_align = 0, kc_num = 0\<rparr>),
       sl_slab = (\<lambda>_. \<lparr>sl_cachep = Kmalloc 0, sl_free = 0, sl_inuse = 0, sl_s_mem = 0\<rparr>),
       sl_links = \<lparr>dprev = (\<lambda>n. n), dnext = (\<lambda>n. n)\<rparr>, sl_word = (\<lambda>_. 0)\<rparr>,
     mm_tbl = (\<lambda>_ _. 0), mm_bytes = (\<lambda>_. 0),
     mm_vs = (\<lambda>_. \<lparr>vs_pgd = 0x1000, vs_ustack_top = 0, vs_mmap_base = USER_MMAP_BASE,
       vs_regions = [\<lparr>vr_self = 1, vr_start = 0x40000, vr_end = 0x41000, vr_flags = 3, vr_page = 9\<rparr>,
                     \<lparr>vr_self = 2, vr_start = 0x41000, vr_end = 0x42000, vr_flags = 3, vr_page = 5\<rparr>]\<rparr>),
     mm_caps = cap_state0, mm_ttbr0 = 0, cur_vspace = Some 0, cur_vspace_cap = CAP_NULL\<rparr>"

lemma demo_mm_ok: "regions_ok demo_mm (cur_vspace demo_mm)" "pages_ok demo_mm (cur_vspace demo_mm)"
  by (auto simp: regions_ok_def pages_ok_def page_region_def demo_mm_def page_consts mm_buddy_def
      demo_buddy_def frames_ok_def)

lemma demo_find: "vspace_find_page demo_mm (cur_vspace demo_mm) 0x40fff = Some (9, 0xfff)"
  "vspace_find_page demo_mm (cur_vspace demo_mm) 0x41000 = Some (5, 0)"
  by (simp_all add: vspace_find_page_def demo_mm_def)

theorem copy_from_user_witness:
  "\<exists>l bs. copy_from_user demo_mm 0x40fff 2 = Some (l, bs) \<and> unat l + length bs = 2"
  using copy_from_user_correct [OF demo_mm_ok(1), of "0x40fff" 2] by fastforce

lemma demo_write: "\<exists>m'. copy_to_user demo_mm 0x40fff [7, 8] 2 = Some (0, m')"
proof -
  have c: "user_chunk 0xfff 2 = 1" "user_chunk 0 1 = 1"
    by (simp_all add: user_chunk_def page_consts Let_def)
  have v: "cur_vspace demo_mm = Some 0" by (simp add: demo_mm_def)
  show ?thesis
    unfolding copy_to_user_def v
    using demo_find v c by (subst copy_to_loop.simps) (simp add: copy_to_loop.simps Let_def)
qed

theorem copy_to_user_witness:
  "\<exists>l m'. copy_to_user demo_mm 0x40fff [7, 8] 2 = Some (l, m') \<and> unat l \<le> 2"
  using copy_to_user_correct [OF demo_mm_ok, of "[7, 8]" 2 "0x40fff"] by fastforce

theorem copy_user_roundtrip_witness:
  "\<exists>m'. copy_to_user demo_mm 0x40fff [7, 8] 2 = Some (0, m') \<and> copy_from_user m' 0x40fff 2 = Some (0, [7, 8])"
proof -
  obtain m' where m: "copy_to_user demo_mm 0x40fff [7, 8] 2 = Some (0, m')" using demo_write by blast
  with copy_user_roundtrip [OF demo_mm_ok, of "[7, 8]" 2 "0x40fff" m'] show ?thesis by simp
qed

end
