(* ===== verification/Sched.thy ===== *)
theory Sched
  imports Minus_Dlist Cap
begin

text \<open>
  The run queues of \<open>kernel/core/thread/sched.c\<close>: 32 priority FIFO lists of threads, the
  scheduling state of every thread and the reschedule flag. A thread is named by the address of
  its \<open>struct kthread\<close>; the lists are the pointer lists of \<open>Minus_Dlist\<close>, with one node per queue
  head and one per thread. A queue index outside the array and the dereference of a null result
  of \<open>pick_highest\<close> are undefined in C, so the operations that may do either return \<open>None\<close> there.
  The locale \<open>run_queues\<close> is the contract \<open>thread.c\<close> relies on.
\<close>

section \<open>State\<close>

datatype sched_state = SCHED_READY | SCHED_RUNNING | SCHED_BLOCKED | SCHED_DEAD

record sched_entity =
  se_prio :: int
  se_slice :: u32
  se_state :: sched_state

type_synonym tid = u64

datatype rnode = RunQ nat | Thr tid

record sched =
  run_queue :: "rnode dstore"
  se_of :: "tid \<Rightarrow> sched_entity"
  need_resched_flag :: bool
  idle_thread :: "tid option"
  current_thread :: "tid option"

definition SCHED_SLICE_TICKS :: u32 where "SCHED_SLICE_TICKS = 10"
definition SCHED_PRIO_MAX :: nat where "SCHED_PRIO_MAX = 32"
definition SCHED_PRIO_IDLE :: int where "SCHED_PRIO_IDLE = int SCHED_PRIO_MAX - 1"

lemmas sched_consts = SCHED_SLICE_TICKS_def SCHED_PRIO_MAX_def SCHED_PRIO_IDLE_def

definition upd_se :: "sched \<Rightarrow> tid \<Rightarrow> (sched_entity \<Rightarrow> sched_entity) \<Rightarrow> sched" where
  "upd_se s t f = s\<lparr>se_of := (se_of s)(t := f (se_of s t))\<rparr>"

section \<open>Operations\<close>

definition sched_init :: "sched \<Rightarrow> sched" where
  "sched_init s = s\<lparr>run_queue := fold (\<lambda>p d. dlist_init d (RunQ p)) [0 ..< SCHED_PRIO_MAX] (run_queue s),
     need_resched_flag := False, idle_thread := None\<rparr>"

definition sched_entity_init :: "sched \<Rightarrow> tid \<Rightarrow> int \<Rightarrow> sched" where
  "sched_entity_init s t prio =
     (let s1 = upd_se s t (\<lambda>_. \<lparr>se_prio = prio, se_slice = SCHED_SLICE_TICKS, se_state = SCHED_BLOCKED\<rparr>)
      in s1\<lparr>run_queue := dlist_init (run_queue s1) (Thr t)\<rparr>)"

definition queued :: "sched \<Rightarrow> tid \<Rightarrow> bool" where
  "queued s t \<longleftrightarrow> dnext (run_queue s) (Thr t) \<noteq> Thr t"

definition sched_enqueue_ready :: "sched \<Rightarrow> tid \<Rightarrow> sched option" where
  "sched_enqueue_ready s t =
     (if queued s t then Some s
      else
        let s1 = upd_se s t (\<lambda>e. e\<lparr>se_state := SCHED_READY\<rparr>); p = se_prio (se_of s1 t) in
        if 0 \<le> p \<and> p < int SCHED_PRIO_MAX
        then Some (s1\<lparr>run_queue := dlist_add_tail (run_queue s1) (RunQ (nat p)) (Thr t)\<rparr>)
        else None)"

definition sched_set_idle :: "sched \<Rightarrow> tid \<Rightarrow> sched option" where
  "sched_set_idle s idle =
     (let s1 = sched_entity_init (s\<lparr>idle_thread := Some idle\<rparr>) idle SCHED_PRIO_IDLE;
          s2 = upd_se s1 idle (\<lambda>e. e\<lparr>se_state := SCHED_READY\<rparr>)
      in sched_enqueue_ready s2 idle)"

definition sched_wake :: "sched \<Rightarrow> tid \<Rightarrow> sched option" where
  "sched_wake s t =
     (if current_thread s = Some t \<or> se_state (se_of s t) \<noteq> SCHED_BLOCKED then Some s
      else sched_enqueue_ready s t)"

definition sched_mark_dead :: "sched \<Rightarrow> tid \<Rightarrow> sched" where
  "sched_mark_dead s t =
     (let s1 = (if queued s t
                then s\<lparr>run_queue := dlist_init (dlist_del (run_queue s) (Thr t)) (Thr t)\<rparr>
                else s)
      in upd_se s1 t (\<lambda>e. e\<lparr>se_state := SCHED_DEAD\<rparr>))"

definition thr_entry :: "rnode \<Rightarrow> tid option" where
  "thr_entry n = (case n of Thr t \<Rightarrow> Some t | RunQ _ \<Rightarrow> None)"

fun pick_from :: "rnode dstore \<Rightarrow> nat list \<Rightarrow> tid option" where
  "pick_from d [] = None"
| "pick_from d (p # ps) =
     (if \<not> dlist_empty d (RunQ p) then thr_entry (dlist_first d (RunQ p)) else pick_from d ps)"

definition pick_highest :: "sched \<Rightarrow> tid option" where
  "pick_highest s = pick_from (run_queue s) [0 ..< SCHED_PRIO_MAX]"

definition sched_pick_next :: "sched \<Rightarrow> (tid \<times> sched) option" where
  "sched_pick_next s0 =
     (let s = s0\<lparr>need_resched_flag := False\<rparr> in
      case (case current_thread s of
              Some cur \<Rightarrow>
                if se_state (se_of s cur) = SCHED_RUNNING then sched_enqueue_ready s cur else Some s
            | None \<Rightarrow> Some s) of
        None \<Rightarrow> None
      | Some s1 \<Rightarrow>
          (case pick_highest s1 of
             None \<Rightarrow> None
           | Some nxt \<Rightarrow>
               let s2 = s1\<lparr>run_queue := dlist_init (dlist_del (run_queue s1) (Thr nxt)) (Thr nxt)\<rparr>;
                   s3 = upd_se s2 nxt (\<lambda>e. e\<lparr>se_slice := SCHED_SLICE_TICKS\<rparr>);
                   s4 = upd_se s3 nxt (\<lambda>e. e\<lparr>se_state := SCHED_RUNNING\<rparr>)
               in Some (nxt, s4)))"

definition sched_need_resched :: "sched \<Rightarrow> bool" where
  "sched_need_resched s = need_resched_flag s"

definition sched_tick :: "sched \<Rightarrow> sched" where
  "sched_tick s =
     (case current_thread s of
        None \<Rightarrow> s
      | Some cur \<Rightarrow>
          if idle_thread s = Some cur then s
          else
            (case pick_highest s of
               None \<Rightarrow> s
             | Some head \<Rightarrow>
                 if head = cur then s
                 else
                   let s1 = (if 0 < se_slice (se_of s cur)
                             then upd_se s cur (\<lambda>e. e\<lparr>se_slice := se_slice e - 1\<rparr>) else s)
                   in if se_slice (se_of s1 cur) = 0 then s1\<lparr>need_resched_flag := True\<rparr> else s1))"

section \<open>The queues as lists\<close>

text \<open>
  \<open>rq_lists Q\<close> reads a family of thread lists as the lists of the pointer store; \<open>queue_rep T s Q\<close>
  says that the store holds exactly these lists, that a live thread (one in \<open>T\<close>) is on the list of
  its priority if and only if it is \<open>SCHED_READY\<close>, and that every other live thread is self-linked.
\<close>

definition RQ :: "rnode set" where "RQ = RunQ ` {..<32}"

definition rq_lists :: "(nat \<Rightarrow> tid list) \<Rightarrow> rnode \<Rightarrow> rnode list" where
  "rq_lists Q n = (case n of RunQ p \<Rightarrow> map Thr (Q p) | Thr _ \<Rightarrow> [])"

definition queue_rep :: "tid set \<Rightarrow> sched \<Rightarrow> (nat \<Rightarrow> tid list) \<Rightarrow> bool" where
  "queue_rep T s Q \<longleftrightarrow>
     dl_rep (run_queue s) RQ (rq_lists Q) \<and>
     (\<forall>t \<in> T. 0 \<le> se_prio (se_of s t) \<and> se_prio (se_of s t) < 32) \<and>
     (\<forall>t p. p < 32 \<longrightarrow> t \<in> set (Q p) \<longleftrightarrow>
        t \<in> T \<and> se_state (se_of s t) = SCHED_READY \<and> se_prio (se_of s t) = int p) \<and>
     (\<forall>t \<in> T. se_state (se_of s t) \<noteq> SCHED_READY \<longrightarrow> dnext (run_queue s) (Thr t) = Thr t)"

lemma rq_lists_upd:
  "(rq_lists Q)(RunQ p := map Thr xs) = rq_lists (Q(p := xs))"
  by (auto simp: rq_lists_def fun_eq_iff split: rnode.splits)

lemma rq_lists_RunQ [simp]: "rq_lists Q (RunQ p) = map Thr (Q p)"
  by (simp add: rq_lists_def)

lemma RunQ_in_RQ [simp]: "RunQ p \<in> RQ \<longleftrightarrow> p < 32" "Thr t \<notin> RQ"
  by (auto simp: RQ_def)

lemma Thr_nodes: "Thr t \<in> dl_nodes RQ (rq_lists Q) \<longleftrightarrow> (\<exists>p < 32. t \<in> set (Q p))"
  by (auto simp: dl_nodes_def RQ_def)

lemma queue_repD:
  assumes "queue_rep T s Q"
  shows "dl_rep (run_queue s) RQ (rq_lists Q)"
    and "t \<in> T \<Longrightarrow> 0 \<le> se_prio (se_of s t) \<and> se_prio (se_of s t) < 32"
    and "p < 32 \<Longrightarrow> t \<in> set (Q p) \<longleftrightarrow>
        t \<in> T \<and> se_state (se_of s t) = SCHED_READY \<and> se_prio (se_of s t) = int p"
    and "t \<in> T \<Longrightarrow> se_state (se_of s t) \<noteq> SCHED_READY \<Longrightarrow> dnext (run_queue s) (Thr t) = Thr t"
  using assms unfolding queue_rep_def by blast+

lemma ring_linked:
  assumes "ring d h xs" and "x \<in> set xs"
  shows "dnext d x \<noteq> x"
proof -
  obtain us vs where e: "xs = us @ x # vs" using assms(2) by (meson split_list)
  have "dpath d x vs h" and "distinct (h # us @ x # vs)"
    using assms(1) e by (auto simp: ring_def dpath_append)
  then show ?thesis by (cases vs) auto
qed

lemma queued_iff:
  assumes "queue_rep T s Q" and "t \<in> T"
  shows "queued s t \<longleftrightarrow> se_state (se_of s t) = SCHED_READY"
proof
  assume "se_state (se_of s t) = SCHED_READY"
  define p where "p = nat (se_prio (se_of s t))"
  have p: "p < 32" "int p = se_prio (se_of s t)"
    using queue_repD(2) [OF assms(1,2)] by (auto simp: p_def)
  with \<open>se_state (se_of s t) = SCHED_READY\<close> have "t \<in> set (Q p)"
    using queue_repD(3) [OF assms(1) p(1), of t] assms(2) by simp
  moreover have "ring (run_queue s) (RunQ p) (map Thr (Q p))"
    using queue_repD(1) [OF assms(1)] p(1) by (auto simp: dl_rep_def dest: bspec [where x = "RunQ p"])
  ultimately show "queued s t"
    using ring_linked [of "run_queue s" "RunQ p" "map Thr (Q p)" "Thr t"] by (simp add: queued_def)
next
  assume "queued s t"
  then show "se_state (se_of s t) = SCHED_READY"
    using queue_repD(4) [OF assms] by (auto simp: queued_def)
qed

text \<open>Changing the state of a thread, with its list membership adjusted, keeps the representation.\<close>

lemma upd_se_simps [simp]:
  "run_queue (upd_se s t f) = run_queue s" "need_resched_flag (upd_se s t f) = need_resched_flag s"
  "idle_thread (upd_se s t f) = idle_thread s" "current_thread (upd_se s t f) = current_thread s"
  "se_of (upd_se s t f) u = (if u = t then f (se_of s t) else se_of s u)"
  by (simp_all add: upd_se_def)

lemma queue_rep_cong:
  assumes "queue_rep T s Q" and "run_queue s' = run_queue s"
    and "\<forall>u. se_prio (se_of s' u) = se_prio (se_of s u) \<and> se_state (se_of s' u) = se_state (se_of s u)"
  shows "queue_rep T s' Q"
  using assms by (simp add: queue_rep_def)

lemma dlist_init_links [simp]:
  "dnext (dlist_init d n) m = (if m = n then n else dnext d m)"
  "dprev (dlist_init d n) m = (if m = n then n else dprev d m)"
  by (simp_all add: dlist_defs)

lemma dlist_add_tail_next:
  "h \<noteq> x \<Longrightarrow> dnext (dlist_add_tail d h x) n =
     (if n = dprev d h then x else if n = x then h else dnext d n)"
  by (auto simp: dlist_defs Let_def)

lemma queue_prev_head:
  assumes "queue_rep T s Q" and "p < 32"
  shows "dprev (run_queue s) (RunQ p) = last (RunQ p # map Thr (Q p))"
proof -
  have "ring (run_queue s) (RunQ p) (map Thr (Q p))"
    using queue_repD(1) [OF assms(1)] assms(2) by (auto simp: dl_rep_def dest: bspec [where x = "RunQ p"])
  then show ?thesis by (auto simp: ring_def dest: dpath_prev)
qed

definition enqueued :: "sched \<Rightarrow> tid \<Rightarrow> sched" where
  "enqueued s t = (upd_se s t (\<lambda>e. e\<lparr>se_state := SCHED_READY\<rparr>))\<lparr>run_queue :=
     dlist_add_tail (run_queue s) (RunQ (nat (se_prio (se_of s t)))) (Thr t)\<rparr>"

lemma enqueued_fields [simp]:
  "need_resched_flag (enqueued s t) = need_resched_flag s" "idle_thread (enqueued s t) = idle_thread s"
  "current_thread (enqueued s t) = current_thread s"
  "se_of (enqueued s t) u = (if u = t then (se_of s t)\<lparr>se_state := SCHED_READY\<rparr> else se_of s u)"
  by (simp_all add: enqueued_def)

lemma enqueue_some:
  assumes "queue_rep T s Q" and "t \<in> T" and "se_state (se_of s t) \<noteq> SCHED_READY"
  shows "sched_enqueue_ready s t = Some (enqueued s t)"
  using queued_iff [OF assms(1,2)] queue_repD(2) [OF assms(1,2)] assms(3)
  by (simp add: sched_enqueue_ready_def Let_def enqueued_def sched_consts)

lemma enqueue_noop:
  assumes "queue_rep T s Q" and "t \<in> T" and "se_state (se_of s t) = SCHED_READY"
  shows "sched_enqueue_ready s t = Some s"
  using queued_iff [OF assms(1,2)] assms(3) by (simp add: sched_enqueue_ready_def)

lemma enqueued_rep:
  assumes "queue_rep T s Q" and "t \<in> T" and "se_state (se_of s t) \<noteq> SCHED_READY"
    and p: "p = nat (se_prio (se_of s t))"
  shows "queue_rep T (enqueued s t) (Q(p := Q p @ [t]))"
proof -
  have pr: "p < 32" "int p = se_prio (se_of s t)"
    using queue_repD(2) [OF assms(1,2)] by (auto simp: p)
  have nq: "\<not> (\<exists>q < 32. t \<in> set (Q q))"
    using queue_repD(3) [OF assms(1), of _ t] assms(3) by auto
  have rep: "dl_rep (run_queue (enqueued s t)) RQ (rq_lists (Q(p := Q p @ [t])))"
    using dl.rep_add_tail [OF queue_repD(1) [OF assms(1)], of "RunQ p" "Thr t"] nq pr
    by (simp add: Thr_nodes enqueued_def p flip: rq_lists_upd)
  have lp: "dprev (run_queue s) (RunQ p) \<noteq> Thr u" if "u \<in> T" "se_state (se_of s u) \<noteq> SCHED_READY" for u
    using queue_prev_head [OF assms(1) pr(1)] queue_repD(3) [OF assms(1) pr(1), of u] that
    by (cases "Q p" rule: rev_cases) auto
  show ?thesis
    unfolding queue_rep_def
  proof (intro conjI)
    show "\<forall>u q. q < 32 \<longrightarrow> u \<in> set ((Q(p := Q p @ [t])) q) \<longleftrightarrow> u \<in> T \<and>
        se_state (se_of (enqueued s t) u) = SCHED_READY \<and> se_prio (se_of (enqueued s t) u) = int q"
      using queue_repD(3) [OF assms(1)] nq assms(2) pr by auto
    show "\<forall>u \<in> T. se_state (se_of (enqueued s t) u) \<noteq> SCHED_READY \<longrightarrow>
        dnext (run_queue (enqueued s t)) (Thr u) = Thr u"
      using queue_repD(4) [OF assms(1)] lp
      by (auto simp: enqueued_def dlist_add_tail_next p dest: sym)
  qed (use rep queue_repD(2) [OF assms(1)] in auto)
qed

text \<open>Taking a thread off its queue, in whatever state it then is put.\<close>

definition dequeued :: "sched \<Rightarrow> tid \<Rightarrow> sched" where
  "dequeued s t = s\<lparr>run_queue := dlist_init (dlist_del (run_queue s) (Thr t)) (Thr t)\<rparr>"

lemma dlist_del_next:
  "dnext (dlist_del d x) n = (if n = x then x else
     if n = dprev d x then dnext d x else dnext d n)"
  by (auto simp: dlist_defs Let_def)

lemma remove1_map_Thr: "map Thr (remove1 t xs) = remove1 (Thr t) (map Thr xs)"
  by (induction xs) auto

lemma queue_prev_mem:
  assumes "queue_rep T s Q" and "p < 32" and "t \<in> set (Q p)"
  shows "dprev (run_queue s) (Thr t) \<in> insert (RunQ p) (Thr ` set (Q p))"
proof -
  have "ring (run_queue s) (RunQ p) (map Thr (Q p))"
    using queue_repD(1) [OF assms(1)] assms(2) by (auto simp: dl_rep_def dest: bspec [where x = "RunQ p"])
  from ring_neighbours(2) [OF this, of "Thr t"] assms(3) show ?thesis by auto
qed

lemma dequeued_rep:
  assumes "queue_rep T s Q" and "p < 32" and "t \<in> set (Q p)"
    and "\<And>e. se_state (f e) \<noteq> SCHED_READY" and "\<And>e. se_prio (f e) = se_prio e"
  shows "queue_rep T (upd_se (dequeued s t) t f) (Q(p := remove1 t (Q p)))"
proof -
  have dist: "distinct (Q p)"
    using dl.rep_distinct [OF queue_repD(1) [OF assms(1)], of "RunQ p"] assms(2)
    by (simp add: distinct_map)
  have tT: "t \<in> T" "se_prio (se_of s t) = int p" "se_state (se_of s t) = SCHED_READY"
    using queue_repD(3) [OF assms(1,2), of t] assms(3) by auto
  have other: "u \<notin> set (Q q)" if "q < 32" "q \<noteq> p" "u = t" for q u
    using queue_repD(3) [OF assms(1) that(1), of t] tT that by auto
  have m: "map Thr (remove1 t (Q p)) = remove1 (Thr t) (map Thr (Q p))"
    by (rule remove1_map_Thr)
  have del: "dl_rep (dlist_del (run_queue s) (Thr t)) RQ (rq_lists (Q(p := remove1 t (Q p))))"
    using dl.rep_del [OF queue_repD(1) [OF assms(1)], of "RunQ p" "Thr t"] assms(2,3)
    by (simp add: m flip: rq_lists_upd)
  moreover have "Thr t \<notin> dl_nodes RQ (rq_lists (Q(p := remove1 t (Q p))))"
    using dist other by (auto simp: Thr_nodes)
  ultimately have rep: "dl_rep (run_queue (dequeued s t)) RQ (rq_lists (Q(p := remove1 t (Q p))))"
    by (simp add: dequeued_def dl_rep_init_node)
  have pm: "dprev (run_queue s) (Thr t) \<noteq> Thr u" if "u \<in> T" "se_state (se_of s u) \<noteq> SCHED_READY" for u
    using queue_prev_mem [OF assms(1-3)] queue_repD(3) [OF assms(1,2), of u] that by auto
  show ?thesis
    unfolding queue_rep_def
  proof (intro conjI)
    show "\<forall>u q. q < 32 \<longrightarrow> u \<in> set ((Q(p := remove1 t (Q p))) q) \<longleftrightarrow> u \<in> T \<and>
        se_state (se_of (upd_se (dequeued s t) t f) u) = SCHED_READY \<and>
        se_prio (se_of (upd_se (dequeued s t) t f) u) = int q"
      using queue_repD(3) [OF assms(1)] dist other assms(4,5) by (auto simp: dequeued_def)
    show "\<forall>u \<in> T. se_state (se_of (upd_se (dequeued s t) t f) u) \<noteq> SCHED_READY \<longrightarrow>
        dnext (run_queue (upd_se (dequeued s t) t f)) (Thr u) = Thr u"
      using queue_repD(4) [OF assms(1)] pm
      by (auto simp: dequeued_def dlist_del_next dest: sym)
  qed (use rep queue_repD(2) [OF assms(1)] assms(5) in \<open>auto simp: dequeued_def\<close>)
qed

text \<open>The scan over the priorities finds the head of the first non-empty queue.\<close>

lemma pick_from_none:
  assumes "dl_rep d RQ (rq_lists Q)" and "\<forall>p \<in> set ps. p < 32 \<and> Q p = []"
  shows "pick_from d ps = None"
  using assms(2) by (induction ps) (auto simp: dl.rep_empty [OF assms(1)])

lemma pick_from_some:
  assumes "dl_rep d RQ (rq_lists Q)" and "\<forall>p \<in> set ps. p < 32 \<and> Q p = []" and "p < 32" and "Q p = t # ts"
  shows "pick_from d (ps @ p # rs) = Some t"
  using assms(2)
proof (induction ps)
  case Nil
  show ?case
    using dl.rep_empty [OF assms(1), of "RunQ p"] dl.rep_first [OF assms(1), of "RunQ p"] assms(3,4)
    by (simp add: thr_entry_def)
qed (auto simp: dl.rep_empty [OF assms(1)])

lemma upt_split: "p < n \<Longrightarrow> [0 ..< n] = [0 ..< p] @ p # [Suc p ..< n]"
  using upt_add_eq_append [of 0 p "n - p"] by (simp add: upt_conv_Cons)

lemma pick_highest_some:
  assumes "queue_rep T s Q" and "p < 32" and "Q p = t # ts" and "\<forall>q < p. Q q = []"
  shows "pick_highest s = Some t"
  unfolding pick_highest_def sched_consts upt_split [OF assms(2)]
  by (rule pick_from_some [where ts = ts, OF queue_repD(1) [OF assms(1)]]) (use assms in auto)

lemma first_nonempty:
  assumes "q < (32 :: nat)" and "Q q \<noteq> []"
  obtains p t ts where "p < 32" and "Q p = t # ts" and "\<forall>r < p. Q r = []"
proof -
  define p where "p = (LEAST p. Q p \<noteq> [])"
  have "Q p \<noteq> []" unfolding p_def by (rule LeastI [of "\<lambda>p. Q p \<noteq> []", OF assms(2)])
  moreover have "p \<le> q" unfolding p_def by (rule Least_le) (rule assms(2))
  moreover have "\<forall>r < p. Q r = []" unfolding p_def using not_less_Least by blast
  ultimately have "Q p \<noteq> []" and "p \<le> q" and "\<forall>r < p. Q r = []" by blast+
  moreover from this(2) assms(1) have "p < 32" by simp
  ultimately show thesis using that [of p "hd (Q p)" "tl (Q p)"] by simp
qed

section \<open>The scheduler invariant\<close>

text \<open>
  The comment at the top of \<open>sched.c\<close>: a running thread is current and on no queue, a ready one is
  on the queue of its priority, and the idle thread is queued at the lowest priority unless it
  runs.
\<close>

definition sched_inv :: "tid set \<Rightarrow> sched \<Rightarrow> (nat \<Rightarrow> tid list) \<Rightarrow> bool" where
  "sched_inv T s Q \<longleftrightarrow>
     queue_rep T s Q \<and>
     (\<exists>c \<in> T. current_thread s = Some c) \<and>
     (\<forall>t \<in> T. se_state (se_of s t) = SCHED_RUNNING \<longrightarrow> current_thread s = Some t) \<and>
     (\<exists>i \<in> T. idle_thread s = Some i \<and> se_prio (se_of s i) = SCHED_PRIO_IDLE \<and>
        se_state (se_of s i) \<in> {SCHED_READY, SCHED_RUNNING}) \<and>
     (\<forall>c. current_thread s = Some c \<and> se_state (se_of s c) = SCHED_READY \<longrightarrow> idle_thread s = Some c) \<and>
     (\<forall>t \<in> T. se_slice (se_of s t) \<le> SCHED_SLICE_TICKS)"

lemma sched_invE:
  assumes "sched_inv T s Q"
  obtains c i where "c \<in> T" and "current_thread s = Some c" and "i \<in> T" and "idle_thread s = Some i"
    and "se_prio (se_of s i) = SCHED_PRIO_IDLE" and "se_state (se_of s i) \<in> {SCHED_READY, SCHED_RUNNING}"
    and "queue_rep T s Q" and "\<And>t. t \<in> T \<Longrightarrow> se_slice (se_of s t) \<le> SCHED_SLICE_TICKS"
    and "se_state (se_of s c) = SCHED_READY \<Longrightarrow> c = i"
proof -
  obtain c i where a: "c \<in> T" "current_thread s = Some c" "i \<in> T" "idle_thread s = Some i"
    "se_prio (se_of s i) = SCHED_PRIO_IDLE" "se_state (se_of s i) \<in> {SCHED_READY, SCHED_RUNNING}"
    using assms unfolding sched_inv_def by blast
  have "se_state (se_of s c) = SCHED_READY \<Longrightarrow> c = i"
    using assms a(2,4) unfolding sched_inv_def by (metis option.inject)
  with a show thesis using assms that unfolding sched_inv_def by blast
qed

lemma sched_inv_queue: "sched_inv T s Q \<Longrightarrow> queue_rep T s Q"
  by (simp add: sched_inv_def)

lemma sched_inv_running:
  "sched_inv T s Q \<Longrightarrow> t \<in> T \<Longrightarrow> se_state (se_of s t) = SCHED_RUNNING \<Longrightarrow> current_thread s = Some t"
  unfolding sched_inv_def by blast

lemma sched_invI:
  assumes "queue_rep T s Q" and "c \<in> T" and "current_thread s = Some c"
    and "\<And>t. t \<in> T \<Longrightarrow> se_state (se_of s t) = SCHED_RUNNING \<Longrightarrow> t = c"
    and "i \<in> T" and "idle_thread s = Some i" and "se_prio (se_of s i) = SCHED_PRIO_IDLE"
    and "se_state (se_of s i) \<in> {SCHED_READY, SCHED_RUNNING}"
    and "se_state (se_of s c) = SCHED_READY \<Longrightarrow> c = i"
    and "\<And>t. t \<in> T \<Longrightarrow> se_slice (se_of s t) \<le> SCHED_SLICE_TICKS"
  shows "sched_inv T s Q"
  unfolding sched_inv_def
proof (intro conjI)
  show "\<forall>d. current_thread s = Some d \<and> se_state (se_of s d) = SCHED_READY \<longrightarrow> idle_thread s = Some d"
    using assms(3,6,9) by simp
  show "\<forall>t \<in> T. se_state (se_of s t) = SCHED_RUNNING \<longrightarrow> current_thread s = Some t"
    using assms(3,4) by simp
qed (use assms in blast)+

text \<open>The part of \<open>switch_away\<close> that concerns the scheduler, and \<open>thread_block_current\<close>.\<close>

definition sched_switch :: "sched \<Rightarrow> sched option" where
  "sched_switch s = map_option (\<lambda>(n, s1). s1\<lparr>current_thread := Some n\<rparr>) (sched_pick_next s)"

definition sched_block_current :: "sched \<Rightarrow> sched" where
  "sched_block_current s =
     (case current_thread s of Some c \<Rightarrow> upd_se s c (\<lambda>e. e\<lparr>se_state := SCHED_BLOCKED\<rparr>) | None \<Rightarrow> s)"

text \<open>The queues after the running thread has been put back, and whom the scheduler then takes.\<close>

definition requeue :: "sched \<Rightarrow> (nat \<Rightarrow> tid list) \<Rightarrow> nat \<Rightarrow> tid list" where
  "requeue s Q =
     (case current_thread s of
        Some c \<Rightarrow>
          if se_state (se_of s c) = SCHED_RUNNING
          then let p = nat (se_prio (se_of s c)) in Q(p := Q p @ [c]) else Q
      | None \<Rightarrow> Q)"

definition highest :: "(nat \<Rightarrow> tid list) \<Rightarrow> nat" where
  "highest Q = (LEAST p. Q p \<noteq> [])"

definition prepared :: "sched \<Rightarrow> sched" where
  "prepared s = (let s1 = s\<lparr>need_resched_flag := False\<rparr> in
     case current_thread s of
       Some c \<Rightarrow> if se_state (se_of s c) = SCHED_RUNNING then enqueued s1 c else s1
     | None \<Rightarrow> s1)"

definition running :: "sched_entity \<Rightarrow> sched_entity" where
  "running e = e\<lparr>se_slice := SCHED_SLICE_TICKS, se_state := SCHED_RUNNING\<rparr>"

lemma prepared_fields [simp]:
  "need_resched_flag (prepared s) = False" "idle_thread (prepared s) = idle_thread s"
  "current_thread (prepared s) = current_thread s"
  "se_prio (se_of (prepared s) t) = se_prio (se_of s t)"
  "se_slice (se_of (prepared s) t) = se_slice (se_of s t)"
  by (simp_all add: prepared_def Let_def split: option.split)

lemma prepared_state:
  "se_state (se_of (prepared s) t) =
     (if current_thread s = Some t \<and> se_state (se_of s t) = SCHED_RUNNING then SCHED_READY
      else se_state (se_of s t))"
  by (auto simp: prepared_def Let_def split: option.split)

lemma prepared_rep:
  assumes "sched_inv T s Q"
  shows "queue_rep T (prepared s) (requeue s Q)"
proof -
  obtain c where c: "c \<in> T" "current_thread s = Some c" and r: "queue_rep T s Q"
    using assms by (auto simp: sched_inv_def)
  have r1: "queue_rep T (s\<lparr>need_resched_flag := False\<rparr>) Q"
    by (rule queue_rep_cong [OF r]) simp_all
  show ?thesis
    using enqueued_rep [OF r1 c(1)] r1 c(2) by (simp add: prepared_def requeue_def Let_def)
qed

lemma pick_next_eq:
  assumes "sched_inv T s Q"
  shows "sched_pick_next s =
    (case pick_highest (prepared s) of None \<Rightarrow> None
     | Some n \<Rightarrow> Some (n, upd_se (dequeued (prepared s) n) n running))"
proof -
  obtain c where c: "c \<in> T" "current_thread s = Some c" and r: "queue_rep T s Q"
    using assms by (auto simp: sched_inv_def)
  have r1: "queue_rep T (s\<lparr>need_resched_flag := False\<rparr>) Q"
    by (rule queue_rep_cong [OF r]) simp_all
  have u: "upd_se (upd_se x n (\<lambda>e. e\<lparr>se_slice := SCHED_SLICE_TICKS\<rparr>)) n (\<lambda>e. e\<lparr>se_state := SCHED_RUNNING\<rparr>)
      = upd_se x n running" for x n
    by (simp add: upd_se_def running_def)
  show ?thesis
    using enqueue_some [OF r1 c(1)] c(2)
    by (simp add: sched_pick_next_def prepared_def Let_def u dequeued_def split: option.split)
qed

text \<open>
  The queues after a re-queue are never all empty: the idle thread is on one of them.
\<close>

lemma requeue_nonempty:
  assumes "sched_inv T s Q"
  shows "requeue s Q 31 \<noteq> []"
proof -
  obtain i where i: "i \<in> T" "se_prio (se_of s i) = 31" "se_state (se_of s i) \<in> {SCHED_READY, SCHED_RUNNING}"
    and run: "\<forall>t \<in> T. se_state (se_of s t) = SCHED_RUNNING \<longrightarrow> current_thread s = Some t"
    using assms by (auto simp: sched_inv_def sched_consts)
  have "se_state (se_of (prepared s) i) = SCHED_READY"
    using i run by (auto simp: prepared_state)
  then have "i \<in> set (requeue s Q 31)"
    using queue_repD(3) [OF prepared_rep [OF assms], of 31 i] i by simp
  then show ?thesis by auto
qed

lemma pick_next_step:
  assumes "sched_inv T s Q" and "p < 32" and "requeue s Q p = n # rest" and "\<forall>q < p. requeue s Q q = []"
  shows "sched_pick_next s = Some (n, upd_se (dequeued (prepared s) n) n running)"
    and "sched_inv T ((upd_se (dequeued (prepared s) n) n running)\<lparr>current_thread := Some n\<rparr>)
          ((requeue s Q)(p := rest))"
proof -
  let ?s = "upd_se (dequeued (prepared s) n) n running" and ?R = "requeue s Q"
  have r: "queue_rep T (prepared s) ?R" by (rule prepared_rep [OF assms(1)])
  show "sched_pick_next s = Some (n, ?s)"
    unfolding pick_next_eq [OF assms(1)] using pick_highest_some [OF r assms(2-4)] by simp
  have "queue_rep T ?s (?R(p := remove1 n (?R p)))"
    by (rule dequeued_rep [OF r assms(2)]) (simp_all add: assms(3) running_def)
  then have q: "queue_rep T (?s\<lparr>current_thread := Some n\<rparr>) (?R(p := rest))"
    using queue_rep_cong [of T ?s "?R(p := rest)" "?s\<lparr>current_thread := Some n\<rparr>"] assms(3) by simp
  have nT: "n \<in> T" using queue_repD(3) [OF r assms(2), of n] assms(3) by simp
  have st: "se_state (se_of (?s\<lparr>current_thread := Some n\<rparr>) t) =
      (if t = n then SCHED_RUNNING else se_state (se_of (prepared s) t))"
    "se_prio (se_of (?s\<lparr>current_thread := Some n\<rparr>) t) = se_prio (se_of s t)"
    "se_slice (se_of (?s\<lparr>current_thread := Some n\<rparr>) t) =
      (if t = n then SCHED_SLICE_TICKS else se_slice (se_of s t))" for t
    by (simp_all add: dequeued_def running_def)
  have nr: "se_state (se_of (prepared s) t) \<noteq> SCHED_RUNNING" if "t \<in> T" for t
    using sched_inv_running [OF assms(1) that] by (auto simp: prepared_state)
  obtain i where i: "i \<in> T" "idle_thread s = Some i" "se_prio (se_of s i) = SCHED_PRIO_IDLE"
    "se_state (se_of s i) \<in> {SCHED_READY, SCHED_RUNNING}"
    and sl: "\<And>t. t \<in> T \<Longrightarrow> se_slice (se_of s t) \<le> SCHED_SLICE_TICKS"
    using sched_invE [OF assms(1)] by metis
  from i have i': "se_state (se_of (prepared s) i) \<in> {SCHED_READY, SCHED_RUNNING}"
    by (simp add: prepared_state)
  show "sched_inv T (?s\<lparr>current_thread := Some n\<rparr>) (?R(p := rest))"
  proof (rule sched_invI [OF q nT _ _ i(1)])
    show "t = n" if "t \<in> T" "se_state (se_of (?s\<lparr>current_thread := Some n\<rparr>) t) = SCHED_RUNNING" for t
      using that nr [OF that(1)] unfolding st by (simp split: if_splits)
  qed (use i i' sl in \<open>simp_all only: st\<close>, simp_all add: dequeued_def)
qed

section \<open>Every operation keeps the invariant\<close>

lemma sched_wake_blocked:
  assumes "sched_inv T s Q" and "t \<in> T" and "se_state (se_of s t) = SCHED_BLOCKED" and "current_thread s \<noteq> Some t"
    and p: "p = nat (se_prio (se_of s t))"
  shows "sched_wake s t = Some (enqueued s t)" and "sched_inv T (enqueued s t) (Q(p := Q p @ [t]))"
proof -
  have q: "queue_rep T s Q" by (rule sched_inv_queue [OF assms(1)])
  show "sched_wake s t = Some (enqueued s t)"
    using assms(3,4) enqueue_some [OF q assms(2)] by (simp add: sched_wake_def)
  from assms(1) show "sched_inv T (enqueued s t) (Q(p := Q p @ [t]))"
  proof (rule sched_invE)
    fix c i
    assume a: "c \<in> T" "current_thread s = Some c" "i \<in> T" "idle_thread s = Some i"
      "se_prio (se_of s i) = SCHED_PRIO_IDLE" "se_state (se_of s i) \<in> {SCHED_READY, SCHED_RUNNING}"
      "\<And>t. t \<in> T \<Longrightarrow> se_slice (se_of s t) \<le> SCHED_SLICE_TICKS"
      "se_state (se_of s c) = SCHED_READY \<Longrightarrow> c = i"
    show ?thesis
    proof (rule sched_invI [OF enqueued_rep [OF q assms(2) _ p] a(1) _ _ a(3)])
      show "u = c" if "u \<in> T" "se_state (se_of (enqueued s t) u) = SCHED_RUNNING" for u
        using that sched_inv_running [OF assms(1) that(1)] a(2) by (simp split: if_splits)
    qed (use a assms(3,4) in auto)
  qed
qed

lemma sched_wake_inv:
  assumes "sched_inv T s Q" and "t \<in> T"
  shows "\<exists>s' Q'. sched_wake s t = Some s' \<and> sched_inv T s' Q'"
proof (cases "current_thread s = Some t \<or> se_state (se_of s t) \<noteq> SCHED_BLOCKED")
  case True
  with assms(1) show ?thesis by (auto simp: sched_wake_def)
next
  case False
  with sched_wake_blocked [OF assms _ _ refl] show ?thesis by blast
qed

text \<open>An operation that leaves the queues alone and only touches unqueued threads.\<close>

lemma sched_inv_upd:
  assumes "sched_inv T s Q" and "t \<in> T" and "se_state (se_of s t) \<noteq> SCHED_READY"
    and "se_state (f (se_of s t)) \<noteq> SCHED_READY" and "se_prio (f (se_of s t)) = se_prio (se_of s t)"
    and "se_slice (f (se_of s t)) \<le> SCHED_SLICE_TICKS"
    and "se_state (f (se_of s t)) = SCHED_RUNNING \<Longrightarrow> current_thread s = Some t"
    and "idle_thread s = Some t \<Longrightarrow> se_state (f (se_of s t)) = SCHED_RUNNING"
  shows "sched_inv T (upd_se s t f) Q"
proof -
  have q: "queue_rep T (upd_se s t f) Q"
    using sched_inv_queue [OF assms(1)] assms(2-6) unfolding queue_rep_def by simp
  from assms(1) show ?thesis
  proof (rule sched_invE)
    fix c i
    assume a: "c \<in> T" "current_thread s = Some c" "i \<in> T" "idle_thread s = Some i"
      "se_prio (se_of s i) = SCHED_PRIO_IDLE" "se_state (se_of s i) \<in> {SCHED_READY, SCHED_RUNNING}"
      "queue_rep T s Q" "\<And>t. t \<in> T \<Longrightarrow> se_slice (se_of s t) \<le> SCHED_SLICE_TICKS"
      "se_state (se_of s c) = SCHED_READY \<Longrightarrow> c = i"
    show ?thesis
    proof (rule sched_invI [OF q a(1) _ _ a(3)])
      show "u = c" if "u \<in> T" "se_state (se_of (upd_se s t f) u) = SCHED_RUNNING" for u
        using that sched_inv_running [OF assms(1) that(1)] a(2) assms(7) by (simp split: if_splits)
      show "current_thread (upd_se s t f) = Some c" "idle_thread (upd_se s t f) = Some i"
        by (simp_all add: a)
      show "se_prio (se_of (upd_se s t f) i) = SCHED_PRIO_IDLE" using a(5) assms(5) by auto
      show "se_state (se_of (upd_se s t f) i) \<in> {SCHED_READY, SCHED_RUNNING}"
        using a(4,6) assms(8) by auto
      show "c = i" if "se_state (se_of (upd_se s t f) c) = SCHED_READY"
        using that a(9) assms(4) by (simp split: if_splits)
      show "se_slice (se_of (upd_se s t f) u) \<le> SCHED_SLICE_TICKS" if "u \<in> T" for u
        using a(8) [OF that] assms(6) by simp
    qed
  qed
qed

lemma sched_inv_flag: "sched_inv T s Q \<Longrightarrow> sched_inv T (s\<lparr>need_resched_flag := b\<rparr>) Q"
  by (simp add: sched_inv_def queue_rep_def)

lemma current_not_idle:
  assumes "sched_inv T s Q" and "current_thread s = Some c" and "idle_thread s \<noteq> Some c"
  shows "c \<in> T" and "se_state (se_of s c) \<noteq> SCHED_READY" and "se_slice (se_of s c) \<le> SCHED_SLICE_TICKS"
  using assms by (auto simp: sched_inv_def)

lemma sched_block_inv:
  assumes "sched_inv T s Q" and "current_thread s \<noteq> idle_thread s"
  shows "sched_inv T (sched_block_current s) Q"
proof -
  obtain c where c: "current_thread s = Some c" using assms(1) by (rule sched_invE)
  with assms show ?thesis
    using current_not_idle [OF assms(1) c]
    by (auto simp: sched_block_current_def intro!: sched_inv_upd)
qed

lemma sched_mark_dead_inv:
  assumes "sched_inv T s Q" and "current_thread s = Some c" and "idle_thread s \<noteq> Some c"
  shows "sched_inv T (sched_mark_dead s c) Q"
proof -
  have q: "queue_rep T s Q" using assms(1) by (simp add: sched_inv_def)
  have "\<not> queued s c"
    using queued_iff [OF q] current_not_idle [OF assms] by simp
  then show ?thesis
    using current_not_idle [OF assms] assms
    by (auto simp: sched_mark_dead_def intro!: sched_inv_upd)
qed

text \<open>Somebody is always queued when the idle thread is not the running one.\<close>

lemma pick_highest_other:
  assumes "sched_inv T s Q" and "current_thread s = Some c" and "idle_thread s \<noteq> Some c"
  obtains n where "pick_highest s = Some n" and "n \<noteq> c"
proof -
  have q: "queue_rep T s Q" using assms(1) by (simp add: sched_inv_def)
  obtain i where i: "i \<in> T" "idle_thread s = Some i" "se_prio (se_of s i) = 31" "se_state (se_of s i) = SCHED_READY"
    using assms by (auto simp: sched_inv_def sched_consts)
  then have "i \<in> set (Q 31)" using queue_repD(3) [OF q, of 31 i] by simp
  then have "Q 31 \<noteq> []" by auto
  then obtain p n ns where p: "p < 32" "Q p = n # ns" "\<forall>r < p. Q r = []"
    by (rule first_nonempty [of 31 Q, rotated]) simp_all
  have "se_state (se_of s n) = SCHED_READY" using queue_repD(3) [OF q p(1), of n] p(2) by simp
  then have "n \<noteq> c" using current_not_idle [OF assms] by auto
  with that pick_highest_some [OF q p] show thesis by blast
qed

lemma sched_tick_eq:
  assumes "sched_inv T s Q" and "current_thread s = Some c" and "idle_thread s \<noteq> Some c"
  shows "sched_tick s =
    (let s1 = (if 0 < se_slice (se_of s c) then upd_se s c (\<lambda>e. e\<lparr>se_slice := se_slice e - 1\<rparr>) else s)
     in if se_slice (se_of s1 c) = 0 then s1\<lparr>need_resched_flag := True\<rparr> else s1)"
proof -
  obtain n where "pick_highest s = Some n" "n \<noteq> c" by (rule pick_highest_other [OF assms])
  with assms show ?thesis by (simp add: sched_tick_def)
qed

lemma sched_tick_inv:
  assumes "sched_inv T s Q"
  shows "sched_inv T (sched_tick s) Q"
proof -
  obtain c where c: "current_thread s = Some c" using assms by (rule sched_invE)
  show ?thesis
  proof (cases "idle_thread s = Some c")
    case True
    with c assms show ?thesis by (simp add: sched_tick_def)
  next
    case False
    note d = current_not_idle [OF assms c False]
    have "se_slice (se_of s c) - 1 \<le> SCHED_SLICE_TICKS" if "0 < se_slice (se_of s c)"
      using d(3) that word_le_nat_alt [of "se_slice (se_of s c)" SCHED_SLICE_TICKS]
      by (simp add: word_le_nat_alt unat_minus_one word_gt_0)
    then have "sched_inv T (if 0 < se_slice (se_of s c)
        then upd_se s c (\<lambda>e. e\<lparr>se_slice := se_slice e - 1\<rparr>) else s) Q"
      using assms c False d by (auto intro!: sched_inv_upd simp: sched_inv_running)
    then show ?thesis
      unfolding sched_tick_eq [OF assms c False] Let_def by (simp add: sched_inv_flag)
  qed
qed

lemma sched_switch_step:
  assumes "sched_inv T s Q"
  obtains p n rest s' where "p < 32" and "requeue s Q p = n # rest" and "\<forall>q < p. requeue s Q q = []"
    and "sched_switch s = Some s'" and "sched_inv T s' ((requeue s Q)(p := rest))"
    and "current_thread s' = Some n" and "se_state (se_of s' n) = SCHED_RUNNING"
    and "se_slice (se_of s' n) = SCHED_SLICE_TICKS" and "\<not> sched_need_resched s'"
    and "idle_thread s' = idle_thread s" and "\<forall>t. se_prio (se_of s' t) = se_prio (se_of s t)"
proof -
  obtain p n rest where p: "p < 32" "requeue s Q p = n # rest" "\<forall>q < p. requeue s Q q = []"
    by (rule first_nonempty [of 31 "requeue s Q"]) (simp_all add: requeue_nonempty [OF assms])
  note st = pick_next_step [OF assms p]
  show thesis
    by (rule that [OF p _ st(2)])
      (simp_all add: sched_switch_def st(1) sched_need_resched_def dequeued_def running_def)
qed

lemma sched_entity_init_inv:
  assumes "sched_inv T s Q" and "t \<notin> T" and "0 \<le> prio" and "prio < 32"
  shows "sched_inv (insert t T) (sched_entity_init s t prio) Q"
proof -
  let ?s = "sched_entity_init s t prio"
  have q: "queue_rep T s Q" by (rule sched_inv_queue [OF assms(1)])
  have nq: "t \<notin> set (Q p)" if "p < 32" for p
    using queue_repD(3) [OF q that, of t] assms(2) by simp
  have f: "se_of ?s u = (if u = t then \<lparr>se_prio = prio, se_slice = SCHED_SLICE_TICKS, se_state = SCHED_BLOCKED\<rparr>
      else se_of s u)" "current_thread ?s = current_thread s" "idle_thread ?s = idle_thread s"
    "run_queue ?s = dlist_init (run_queue s) (Thr t)" for u
    by (simp_all add: sched_entity_init_def Let_def)
  have "dl_rep (run_queue ?s) RQ (rq_lists Q)"
    using dl_rep_init_node [OF queue_repD(1) [OF q]] nq by (auto simp: f Thr_nodes)
  then have "queue_rep (insert t T) ?s Q"
    using q assms(2-4) nq unfolding queue_rep_def f by auto
  from assms(1) show ?thesis
  proof (rule sched_invE)
    fix c i
    assume a: "c \<in> T" "current_thread s = Some c" "i \<in> T" "idle_thread s = Some i"
      "se_prio (se_of s i) = SCHED_PRIO_IDLE" "se_state (se_of s i) \<in> {SCHED_READY, SCHED_RUNNING}"
      "\<And>t. t \<in> T \<Longrightarrow> se_slice (se_of s t) \<le> SCHED_SLICE_TICKS"
      "se_state (se_of s c) = SCHED_READY \<Longrightarrow> c = i"
    have ne: "c \<noteq> t" "i \<noteq> t" using a(1,3) assms(2) by auto
    show ?thesis
    proof (rule sched_invI [OF \<open>queue_rep (insert t T) ?s Q\<close>, of c i])
      show "u = c" if "u \<in> insert t T" "se_state (se_of ?s u) = SCHED_RUNNING" for u
        using that sched_inv_running [OF assms(1), of u] a(2) by (auto simp: f split: if_splits)
      show "se_slice (se_of ?s u) \<le> SCHED_SLICE_TICKS" if "u \<in> insert t T" for u
        using that a(7) by (auto simp: f)
    qed (use a ne in \<open>auto simp: f\<close>)
  qed
qed

lemma sched_reap_inv:
  assumes "sched_inv T s Q" and "t \<in> T" and "se_state (se_of s t) = SCHED_DEAD" and "current_thread s \<noteq> Some t"
  shows "sched_inv (T - {t}) s Q"
proof -
  have q: "queue_rep T s Q" by (rule sched_inv_queue [OF assms(1)])
  then have "queue_rep (T - {t}) s Q"
    using assms(3) unfolding queue_rep_def by auto
  moreover have "idle_thread s \<noteq> Some t"
    using assms(1,3) by (auto simp: sched_inv_def)
  ultimately show ?thesis
    using sched_inv_running [OF assms(1)] assms(1,4) unfolding sched_inv_def by auto
qed

section \<open>Boot\<close>

definition sched_boot :: "sched \<Rightarrow> tid \<Rightarrow> sched option" where
  "sched_boot s idle = sched_set_idle ((sched_init s)\<lparr>current_thread := Some idle\<rparr>) idle"

lemma run_queue_init_links:
  "dnext (fold (\<lambda>p d. dlist_init d (RunQ p)) ps d) n = (if n \<in> RunQ ` set ps then n else dnext d n)"
  "dprev (fold (\<lambda>p d. dlist_init d (RunQ p)) ps d) n = (if n \<in> RunQ ` set ps then n else dprev d n)"
  by (induction ps arbitrary: d) (auto simp: dlist_defs)

lemma sched_boot_inv:
  "\<exists>s'. sched_boot s idle = Some s' \<and> sched_inv {idle} s' (\<lambda>p. if p = 31 then [idle] else []) \<and>
     current_thread s' = Some idle \<and> idle_thread s' = Some idle \<and>
     se_of s' idle = \<lparr>se_prio = 31, se_slice = SCHED_SLICE_TICKS, se_state = SCHED_READY\<rparr>"
proof -
  define s1 where "s1 = sched_entity_init ((sched_init s)\<lparr>current_thread := Some idle, idle_thread := Some idle\<rparr>) idle 31"
  have f: "se_of s1 idle = \<lparr>se_prio = 31, se_slice = SCHED_SLICE_TICKS, se_state = SCHED_BLOCKED\<rparr>"
    "current_thread s1 = Some idle" "idle_thread s1 = Some idle"
    "run_queue s1 = dlist_init (run_queue (sched_init s)) (Thr idle)"
    by (simp_all add: s1_def sched_entity_init_def Let_def)
  have "dl_rep (run_queue s1) RQ (\<lambda>_. [])"
  proof (rule dl_rep_init_all)
    show "\<forall>h \<in> RQ. dnext (run_queue s1) h = h \<and> dprev (run_queue s1) h = h"
      by (auto simp: f RQ_def sched_init_def run_queue_init_links sched_consts)
  qed
  moreover have "rq_lists (\<lambda>_. []) = (\<lambda>_. [])"
    by (auto simp: rq_lists_def split: rnode.split)
  ultimately have q: "queue_rep {idle} s1 (\<lambda>_. [])"
    by (simp add: queue_rep_def f)
  have b: "sched_boot s idle = Some (enqueued s1 idle)"
    by (simp add: sched_boot_def sched_set_idle_def sched_enqueue_ready_def enqueued_def s1_def Let_def
        queued_def sched_entity_init_def sched_consts upd_se_def)
  have "queue_rep {idle} (enqueued s1 idle) (\<lambda>p. if p = 31 then [idle] else [])"
    using enqueued_rep [OF q, of idle 31] by (simp add: f fun_upd_def cong: if_cong)
  then have "sched_inv {idle} (enqueued s1 idle) (\<lambda>p. if p = 31 then [idle] else [])"
    by (rule sched_invI [where c = idle and i = idle]) (simp_all add: f sched_consts)
  with b show ?thesis by (simp add: f)
qed

section \<open>Scheduling as a step relation\<close>

text \<open>
  What \<open>thread.c\<close> does to the scheduler, with the conditions under which it does it: a thread is
  created at an address that names no live thread; a live thread is woken; the timer ticks; the
  current thread yields, blocks and switches, or dies and switches, the idle thread only yields; a
  dead thread that is no longer current is freed.
\<close>

inductive sched_step :: "tid set \<times> sched \<Rightarrow> tid set \<times> sched \<Rightarrow> bool" where
  create: "t \<notin> T \<Longrightarrow> 0 \<le> prio \<Longrightarrow> prio < 32 \<Longrightarrow> sched_step (T, s) (insert t T, sched_entity_init s t prio)"
| wake: "t \<in> T \<Longrightarrow> sched_wake s t = Some s' \<Longrightarrow> sched_step (T, s) (T, s')"
| tick: "sched_step (T, s) (T, sched_tick s)"
| yield: "sched_switch s = Some s' \<Longrightarrow> sched_step (T, s) (T, s')"
| block: "current_thread s \<noteq> idle_thread s \<Longrightarrow> sched_switch (sched_block_current s) = Some s' \<Longrightarrow>
    sched_step (T, s) (T, s')"
| exit: "current_thread s = Some c \<Longrightarrow> idle_thread s \<noteq> Some c \<Longrightarrow>
    sched_switch (sched_mark_dead s c) = Some s' \<Longrightarrow> sched_step (T, s) (T, s')"
| reap: "t \<in> T \<Longrightarrow> se_state (se_of s t) = SCHED_DEAD \<Longrightarrow> current_thread s \<noteq> Some t \<Longrightarrow>
    sched_step (T, s) (T - {t}, s)"

inductive sched_reach :: "tid set \<Rightarrow> sched \<Rightarrow> bool" where
  boot: "sched_boot s0 idle = Some s \<Longrightarrow> sched_reach {idle} s"
| step: "sched_reach T s \<Longrightarrow> sched_step (T, s) (T', s') \<Longrightarrow> sched_reach T' s'"

inductive_cases sched_stepE: "sched_step (T, s) (T', s')"

lemmas sched_step_cases =
  sched_stepE [consumes 1, case_names create wake tick yield block exit reap]

lemma sched_switch_inv: "sched_inv T s Q \<Longrightarrow> \<exists>s' Q'. sched_switch s = Some s' \<and> sched_inv T s' Q'"
  by (erule sched_switch_step) blast

lemma sched_step_inv:
  assumes "sched_step (T, s) (T', s')" and "sched_inv T s Q"
  shows "\<exists>Q'. sched_inv T' s' Q'"
  using assms(1)
proof (cases rule: sched_step_cases)
  case create
  then show ?thesis using sched_entity_init_inv assms(2) by blast
next
  case wake
  then show ?thesis using sched_wake_inv [OF assms(2)] by fastforce
next
  case tick
  then show ?thesis using sched_tick_inv [OF assms(2)] by blast
next
  case yield
  then show ?thesis using sched_switch_inv [OF assms(2)] by auto
next
  case block
  then show ?thesis using sched_switch_inv [OF sched_block_inv [OF assms(2)]] by auto
next
  case exit
  then show ?thesis using sched_switch_inv [OF sched_mark_dead_inv [OF assms(2)]] by auto
next
  case reap
  then show ?thesis using sched_reap_inv [OF assms(2)] by blast
qed

lemma sched_reach_inv:
  assumes "sched_reach T s"
  shows "\<exists>Q. sched_inv T s Q"
  using assms
proof (induction rule: sched_reach.induct)
  case (boot s0 idle s)
  then show ?case using sched_boot_inv [of s0 idle] by auto
next
  case (step T s T' s')
  then show ?case using sched_step_inv by blast
qed

section \<open>Round robin\<close>

fun opt_iter :: "('s \<Rightarrow> 's option) \<Rightarrow> nat \<Rightarrow> 's \<Rightarrow> 's option" where
  "opt_iter f 0 s = Some s"
| "opt_iter f (Suc n) s = Option.bind (f s) (opt_iter f n)"

text \<open>
  The contract of a switch: the running thread goes to the back of the queue of its priority and
  the head of the first non-empty queue runs next. Every client of it is served in turn.
\<close>

locale run_queues =
  fixes inv :: "'s \<Rightarrow> (nat \<Rightarrow> 't list) \<Rightarrow> bool"
    and prio :: "'s \<Rightarrow> 't \<Rightarrow> nat"
    and cur :: "'s \<Rightarrow> 't"
    and runs :: "'s \<Rightarrow> bool"
    and switch :: "'s \<Rightarrow> 's option"
    and levels :: nat
  assumes member_prio: "inv s Q \<Longrightarrow> p < levels \<Longrightarrow> t \<in> set (Q p) \<Longrightarrow> prio s t = p"
    and switch_step: "inv s Q \<Longrightarrow> runs s \<Longrightarrow>
      \<exists>p n rest s'. p < levels \<and> (Q(prio s (cur s) := Q (prio s (cur s)) @ [cur s])) p = n # rest \<and>
        (\<forall>q < p. (Q(prio s (cur s) := Q (prio s (cur s)) @ [cur s])) q = []) \<and> switch s = Some s' \<and>
        inv s' ((Q(prio s (cur s) := Q (prio s (cur s)) @ [cur s]))(p := rest)) \<and>
        cur s' = n \<and> runs s' \<and> prio s' = prio s"
begin

lemma switch_head:
  assumes "inv s Q" and "runs s" and "p < levels" and "Q p = x # xs" and "\<forall>q < p. Q q = []"
    and "p \<le> prio s (cur s)"
  obtains s' Q' zs where "switch s = Some s'" and "inv s' Q'" and "cur s' = x" and "runs s'"
    and "prio s' x = p" and "Q' p = xs @ zs" and "\<forall>q < p. Q' q = []"
proof -
  let ?Q = "Q(prio s (cur s) := Q (prio s (cur s)) @ [cur s])"
  obtain q n rest s' where h: "q < levels" "?Q q = n # rest" "\<forall>r < q. ?Q r = []" "switch s = Some s'"
    "inv s' (?Q(q := rest))" "cur s' = n" "runs s'" "prio s' = prio s"
    using switch_step [OF assms(1,2)] by blast
  have p: "?Q p = x # xs @ (if prio s (cur s) = p then [cur s] else [])" "\<forall>r < p. ?Q r = []"
    using assms(4-6) by auto
  have "q = p"
    using h(2,3) p by (metis linorder_neqE_nat list.distinct(1))
  moreover have "prio s x = p" using member_prio [OF assms(1,3)] assms(4) by simp
  ultimately show thesis
    using that [OF h(4,5)] h p by simp
qed

theorem served_in_turn:
  assumes "inv s Q" and "runs s" and "p < levels" and "Q p = xs @ t # ys" and "\<forall>q < p. Q q = []"
    and "p \<le> prio s (cur s)"
  shows "\<exists>s'. opt_iter switch (Suc (length xs)) s = Some s' \<and> cur s' = t"
  using assms
proof (induction xs arbitrary: s Q ys)
  case Nil
  obtain s' Q' zs where "switch s = Some s'" "cur s' = t"
    by (rule switch_head [OF Nil(1-3) Nil(4) [simplified] Nil(5,6)])
  then show ?case by simp
next
  case (Cons x xs)
  obtain s' Q' zs where h: "switch s = Some s'" "inv s' Q'" "cur s' = x" "runs s'" "prio s' x = p"
    "Q' p = (xs @ t # ys) @ zs" "\<forall>q < p. Q' q = []"
    using switch_head [OF Cons.prems(1-3) _ Cons.prems(5,6)] Cons.prems(4) by (metis append_Cons)
  have "\<exists>s''. opt_iter switch (Suc (length xs)) s' = Some s'' \<and> cur s'' = t"
    using Cons.IH [OF h(2,4) Cons.prems(3), of "ys @ zs"] h by simp
  then show ?case using h(1) by auto
qed

end

interpretation rq: run_queues "sched_inv T" "\<lambda>s t. nat (se_prio (se_of s t))" "\<lambda>s. the (current_thread s)"
  "\<lambda>s. se_state (se_of s (the (current_thread s))) = SCHED_RUNNING" sched_switch 32 for T
proof (unfold_locales, goal_cases)
  case (1 s Q p t)
  then show ?case using queue_repD(3) [OF sched_inv_queue [OF 1(1)] 1(2), of t] by simp
next
  case (2 s Q)
  obtain c where c: "current_thread s = Some c" by (rule sched_invE [OF 2(1)])
  have r: "requeue s Q = Q(nat (se_prio (se_of s c)) := Q (nat (se_prio (se_of s c))) @ [c])"
    using 2(2) c by (simp add: requeue_def Let_def)
  obtain p n rest s' where h: "p < 32" "requeue s Q p = n # rest" "\<forall>q < p. requeue s Q q = []"
    "sched_switch s = Some s'" "sched_inv T s' ((requeue s Q)(p := rest))" "current_thread s' = Some n"
    "se_state (se_of s' n) = SCHED_RUNNING" "\<forall>t. se_prio (se_of s' t) = se_prio (se_of s t)"
    by (rule sched_switch_step [OF 2(1)]) blast
  have "(\<lambda>t. nat (se_prio (se_of s' t))) = (\<lambda>t. nat (se_prio (se_of s t)))"
    by (simp add: h(8))
  with h show ?case unfolding c option.sel r
    by (intro exI [of _ p] exI [of _ n] exI [of _ rest] exI [of _ s']) simp
qed

lemma sched_reach_finite: "sched_reach T s \<Longrightarrow> finite T"
proof (induction rule: sched_reach.induct)
  case (step T s T' s')
  from step(2) step(3) show ?case by (cases rule: sched_step_cases) auto
qed simp

text \<open>A thread is runnable when it is ready or running.\<close>

definition runnable :: "sched \<Rightarrow> tid \<Rightarrow> bool" where
  "runnable s t \<longleftrightarrow> se_state (se_of s t) = SCHED_READY \<or> se_state (se_of s t) = SCHED_RUNNING"

text \<open>The run queues hold the lists \<open>Q\<close>, first to last; a store holds at most one such family.\<close>

definition holds_queues :: "sched \<Rightarrow> (nat \<Rightarrow> tid list) \<Rightarrow> bool" where
  "holds_queues s Q \<longleftrightarrow> (\<forall>p < 32. ring (run_queue s) (RunQ p) (map Thr (Q p)))"

lemma queue_rep_holds: "queue_rep T s Q \<Longrightarrow> holds_queues s Q"
  using queue_repD(1) [of T s Q] by (auto simp: holds_queues_def dl_rep_def RQ_def)

lemma holds_unique: "holds_queues s Q \<Longrightarrow> holds_queues s R \<Longrightarrow> p < 32 \<Longrightarrow> Q p = R p"
  using ring_unique [of "run_queue s" "RunQ p" "map Thr (Q p)" "map Thr (R p)"]
  by (auto simp: holds_queues_def inj_map_eq_map inj_def)

lemma requeue_cong: "(\<And>p. p < 32 \<Longrightarrow> Q p = R p) \<Longrightarrow> p < 32 \<Longrightarrow> requeue s Q p = requeue s R p"
  by (simp add: requeue_def Let_def split: option.split)

lemma runnable_requeued:
  assumes "sched_inv T s Q" and "t \<in> T"
  shows "runnable s t \<longleftrightarrow> t \<in> set (requeue s Q (nat (se_prio (se_of s t))))"
proof -
  have q: "queue_rep T (prepared s) (requeue s Q)" by (rule prepared_rep [OF assms(1)])
  have p: "nat (se_prio (se_of s t)) < 32" "int (nat (se_prio (se_of s t))) = se_prio (se_of s t)"
    using queue_repD(2) [OF sched_inv_queue [OF assms(1)] assms(2)] by auto
  show ?thesis
    using queue_repD(3) [OF q p(1), of t] p(2) sched_inv_running [OF assms] assms(2)
    by (auto simp: prepared_state runnable_def)
qed

lemma pick_next_best:
  assumes "sched_inv T s Q"
  shows "\<exists>p n rest s'. sched_pick_next s = Some (n, s') \<and> p < 32 \<and> requeue s Q p = n # rest \<and>
    (\<forall>q < p. requeue s Q q = []) \<and> holds_queues s' ((requeue s Q)(p := rest)) \<and>
    n \<in> T \<and> runnable s n \<and> se_prio (se_of s n) = int p \<and>
    (\<forall>t \<in> T. runnable s t \<longrightarrow> se_prio (se_of s n) \<le> se_prio (se_of s t)) \<and>
    se_of s' n = (se_of s n)\<lparr>se_slice := SCHED_SLICE_TICKS, se_state := SCHED_RUNNING\<rparr> \<and>
    \<not> queued s' n \<and> \<not> sched_need_resched s'"
proof -
  obtain p n rest where p: "p < 32" "requeue s Q p = n # rest" "\<forall>q < p. requeue s Q q = []"
    by (rule first_nonempty [of 31 "requeue s Q"]) (simp_all add: requeue_nonempty [OF assms])
  have q: "queue_rep T (prepared s) (requeue s Q)" by (rule prepared_rep [OF assms])
  have n: "n \<in> T" "se_prio (se_of s n) = int p"
    using queue_repD(3) [OF q p(1), of n] p(2) by auto
  moreover have "runnable s n"
    using runnable_requeued [OF assms n(1)] n(2) p(2) by simp
  moreover have "int p \<le> se_prio (se_of s t)" if "t \<in> T" "runnable s t" for t
    using runnable_requeued [OF assms that(1)] that(2) p(3)
      queue_repD(2) [OF sched_inv_queue [OF assms] that(1)] by (cases "nat (se_prio (se_of s t)) < p") auto
  moreover have "se_of (upd_se (dequeued (prepared s) n) n running) n =
      (se_of s n)\<lparr>se_slice := SCHED_SLICE_TICKS, se_state := SCHED_RUNNING\<rparr>"
    by (simp add: dequeued_def running_def prepared_def Let_def split: option.split)
  moreover have "holds_queues (upd_se (dequeued (prepared s) n) n running) ((requeue s Q)(p := rest))"
    using queue_rep_holds [OF sched_inv_queue [OF pick_next_step(2) [OF assms p]]]
    by (simp add: holds_queues_def)
  ultimately show ?thesis
    using pick_next_step(1) [OF assms p] p
    by (intro exI [of _ p] exI [of _ n] exI [of _ rest])
      (simp add: queued_def dequeued_def sched_need_resched_def)
qed

lemma tick_slice:
  assumes "sched_inv T s Q" and "current_thread s = Some c" and "idle_thread s \<noteq> Some c"
  shows "current_thread (sched_tick s) = Some c" and "idle_thread (sched_tick s) = idle_thread s"
    and "unat (se_slice (se_of (sched_tick s) c)) = unat (se_slice (se_of s c)) - 1"
    and "unat (se_slice (se_of s c)) \<le> 1 \<or> need_resched_flag s \<Longrightarrow> need_resched_flag (sched_tick s)"
proof -
  let ?w = "se_slice (se_of s c)"
  show "current_thread (sched_tick s) = Some c" "idle_thread (sched_tick s) = idle_thread s"
    using assms(2) by (simp_all add: sched_tick_eq [OF assms] Let_def)
  show "unat (se_slice (se_of (sched_tick s) c)) = unat ?w - 1"
    by (simp add: sched_tick_eq [OF assms] Let_def unat_minus_one word_gt_0)
  have "?w = 0 \<or> ?w = 1" if "unat ?w \<le> 1"
  proof (cases "unat ?w = 0")
    case True
    then show ?thesis by (simp add: unat_eq_0)
  next
    case False
    with that have "unat ?w = unat (1 :: u32)" by simp
    then have "?w = 1" by (rule word_unat_eq_iff [THEN iffD2])
    then show ?thesis ..
  qed
  then show "need_resched_flag (sched_tick s)" if "unat ?w \<le> 1 \<or> need_resched_flag s"
    using that by (auto simp: sched_tick_eq [OF assms] Let_def)
qed

lemma ticks_expire:
  assumes "sched_inv T s Q" and "current_thread s = Some c" and "idle_thread s \<noteq> Some c"
    and "unat (se_slice (se_of s c)) \<le> Suc n"
  shows "need_resched_flag ((sched_tick ^^ Suc n) s)"
  using assms
proof (induction n arbitrary: s)
  case 0
  then show ?case using tick_slice(4) [OF 0(1-3)] by simp
next
  case (Suc n)
  have "need_resched_flag ((sched_tick ^^ Suc n) (sched_tick s))"
    using Suc.IH [OF sched_tick_inv [OF Suc.prems(1)]] tick_slice [OF Suc.prems(1-3)] Suc.prems by simp
  then show ?case by (simp only: funpow_Suc_right o_apply)
qed

section \<open>Properties\<close>

text \<open>Three threads on a machine that has just booted: the idle thread and two others, of which the
  first runs.\<close>

definition demo_boot :: sched where
  "demo_boot = the (sched_boot \<lparr>run_queue = \<lparr>dprev = \<lambda>n. n, dnext = \<lambda>n. n\<rparr>,
     se_of = (\<lambda>_. \<lparr>se_prio = 0, se_slice = 0, se_state = SCHED_BLOCKED\<rparr>),
     need_resched_flag = False, idle_thread = None, current_thread = None\<rparr> 1)"

definition demo_woken :: sched where
  "demo_woken = the (sched_wake (sched_entity_init demo_boot 2 20) 2)"

definition demo_ready :: sched where
  "demo_ready = the (sched_wake (sched_entity_init demo_woken 3 20) 3)"

definition demo_sched :: sched where
  "demo_sched = the (sched_switch demo_ready)"

abbreviation demo_queue :: "nat \<Rightarrow> tid list" where
  "demo_queue p \<equiv> if p = 31 then [1] else []"

lemma demo_boot_facts:
  "sched_reach {1} demo_boot" "sched_inv {1} demo_boot demo_queue" "current_thread demo_boot = Some 1"
  "se_of demo_boot 1 = \<lparr>se_prio = 31, se_slice = 10, se_state = SCHED_READY\<rparr>" "idle_thread demo_boot = Some 1"
proof -
  let ?s0 = "\<lparr>run_queue = \<lparr>dprev = \<lambda>n. n, dnext = \<lambda>n. n\<rparr>,
     se_of = (\<lambda>_. \<lparr>se_prio = 0, se_slice = 0, se_state = SCHED_BLOCKED\<rparr>),
     need_resched_flag = False, idle_thread = None, current_thread = None\<rparr>"
  from sched_boot_inv [of ?s0 1] obtain s where s: "sched_boot ?s0 1 = Some s"
    "sched_inv {1} s demo_queue" "current_thread s = Some 1" "idle_thread s = Some 1"
    "se_of s 1 = \<lparr>se_prio = 31, se_slice = SCHED_SLICE_TICKS, se_state = SCHED_READY\<rparr>"
    by blast
  then show "sched_reach {1} demo_boot" "sched_inv {1} demo_boot demo_queue" "current_thread demo_boot = Some 1"
    "se_of demo_boot 1 = \<lparr>se_prio = 31, se_slice = 10, se_state = SCHED_READY\<rparr>"
    "idle_thread demo_boot = Some 1"
    using sched_reach.boot [OF s(1)] by (simp_all add: demo_boot_def sched_consts)
qed

lemma entity_init_fields [simp]:
  "current_thread (sched_entity_init s t p) = current_thread s"
  "idle_thread (sched_entity_init s t p) = idle_thread s"
  "se_of (sched_entity_init s t p) u =
     (if u = t then \<lparr>se_prio = p, se_slice = SCHED_SLICE_TICKS, se_state = SCHED_BLOCKED\<rparr> else se_of s u)"
  by (simp_all add: sched_entity_init_def Let_def)

text \<open>Creating and waking a thread, as one step of the demonstration.\<close>

lemma create_wake:
  assumes "sched_reach T s" and "sched_inv T s Q" and "t \<notin> T" and "current_thread s \<noteq> Some t"
  defines "s1 \<equiv> sched_entity_init s t 20"
  shows "sched_reach (insert t T) (the (sched_wake s1 t))"
    and "the (sched_wake s1 t) = enqueued s1 t"
    and "sched_inv (insert t T) (the (sched_wake s1 t)) (Q(20 := Q 20 @ [t]))"
proof -
  have r: "sched_reach (insert t T) s1"
    using sched_reach.step [OF assms(1) sched_step.create [OF assms(3)]] by (simp add: s1_def)
  have i: "sched_inv (insert t T) s1 Q"
    unfolding s1_def by (rule sched_entity_init_inv [OF assms(2,3)]) simp_all
  have w: "sched_wake s1 t = Some (enqueued s1 t)" "sched_inv (insert t T) (enqueued s1 t) (Q(20 := Q 20 @ [t]))"
    using sched_wake_blocked [OF i, of t 20] assms(4) by (simp_all add: s1_def)
  then show "sched_reach (insert t T) (the (sched_wake s1 t))" "the (sched_wake s1 t) = enqueued s1 t"
    "sched_inv (insert t T) (the (sched_wake s1 t)) (Q(20 := Q 20 @ [t]))"
    using sched_reach.step [OF r sched_step.wake [of t _ s1]] by simp_all
qed

lemma demo_woken_facts:
  "sched_reach {2, 1} demo_woken" "sched_inv {2, 1} demo_woken (demo_queue(20 := [2]))"
  "current_thread demo_woken = Some 1" "idle_thread demo_woken = Some 1"
  "se_of demo_woken 1 = \<lparr>se_prio = 31, se_slice = 10, se_state = SCHED_READY\<rparr>"
  "se_of demo_woken 2 = \<lparr>se_prio = 20, se_slice = 10, se_state = SCHED_READY\<rparr>"
  using create_wake [OF demo_boot_facts(1,2), of 2] demo_boot_facts(3-)
  by (simp_all add: demo_woken_def sched_consts)

lemma demo_ready_facts:
  "sched_reach {3, 2, 1} demo_ready" "sched_inv {3, 2, 1} demo_ready (demo_queue(20 := [2, 3]))"
  "current_thread demo_ready = Some 1" "idle_thread demo_ready = Some 1"
  "se_of demo_ready 1 = \<lparr>se_prio = 31, se_slice = 10, se_state = SCHED_READY\<rparr>"
  "se_of demo_ready 2 = \<lparr>se_prio = 20, se_slice = 10, se_state = SCHED_READY\<rparr>"
  "se_of demo_ready 3 = \<lparr>se_prio = 20, se_slice = 10, se_state = SCHED_READY\<rparr>"
  using create_wake [OF demo_woken_facts(1,2), of 3] demo_woken_facts(3-)
  by (simp_all add: demo_ready_def sched_consts)

lemma demo_sched_facts:
  "sched_reach {3, 2, 1} demo_sched" "current_thread demo_sched = Some 2" "idle_thread demo_sched = Some 1"
  "se_of demo_sched 1 = \<lparr>se_prio = 31, se_slice = 10, se_state = SCHED_READY\<rparr>"
  "se_of demo_sched 2 = \<lparr>se_prio = 20, se_slice = 10, se_state = SCHED_RUNNING\<rparr>"
  "se_of demo_sched 3 = \<lparr>se_prio = 20, se_slice = 10, se_state = SCHED_READY\<rparr>"
proof -
  let ?n = "upd_se (dequeued (prepared demo_ready) 2) 2 running"
  have rq: "requeue demo_ready (demo_queue(20 := [2, 3])) = demo_queue(20 := [2, 3])"
    by (simp add: requeue_def demo_ready_facts)
  have pr: "prepared demo_ready = demo_ready\<lparr>need_resched_flag := False\<rparr>"
    by (simp add: prepared_def demo_ready_facts)
  have "sched_pick_next demo_ready = Some (2, ?n)"
    by (rule pick_next_step(1) [OF demo_ready_facts(2), of 20 2 "[3]", unfolded rq]) simp_all
  then have sw: "sched_switch demo_ready = Some (?n\<lparr>current_thread := Some 2\<rparr>)"
    by (simp add: sched_switch_def)
  then show "sched_reach {3, 2, 1} demo_sched"
    using sched_reach.step [OF demo_ready_facts(1) sched_step.yield] by (simp add: demo_sched_def)
  show "current_thread demo_sched = Some 2" "idle_thread demo_sched = Some 1"
    "se_of demo_sched 1 = \<lparr>se_prio = 31, se_slice = 10, se_state = SCHED_READY\<rparr>"
    "se_of demo_sched 2 = \<lparr>se_prio = 20, se_slice = 10, se_state = SCHED_RUNNING\<rparr>"
    "se_of demo_sched 3 = \<lparr>se_prio = 20, se_slice = 10, se_state = SCHED_READY\<rparr>"
    by (simp_all add: demo_sched_def sw pr dequeued_def running_def demo_ready_facts sched_consts)
qed

lemma demo_sched_queues: "holds_queues demo_sched (demo_queue(20 := [3]))"
proof -
  have "requeue demo_ready (demo_queue(20 := [2, 3])) = demo_queue(20 := [2, 3])"
    by (simp add: requeue_def demo_ready_facts)
  note st = pick_next_step [OF demo_ready_facts(2), of 20 2 "[3]", unfolded this]
  have "sched_inv {3, 2, 1} demo_sched (demo_queue(20 := [3]))"
    using st by (simp add: demo_sched_def sched_switch_def fun_upd_def cong: if_cong)
  then show ?thesis by (rule queue_rep_holds [OF sched_inv_queue])
qed

lemma switches_current: "opt_iter sched_switch (Suc n) s = Some s' \<Longrightarrow> current_thread s' \<noteq> None"
  by (induction n arbitrary: s) (auto simp: sched_switch_def split: bind_splits)

text \<open>A thread is served in its turn whatever the state of the current thread is: a blocked or dead
  one only leaves the CPU, a running one goes behind the waiting threads.\<close>

lemma served_in_order:
  assumes inv: "sched_inv T s Q" and p: "p < 32" "Q p = xs @ t # ys" "\<forall>q < p. Q q = []"
    and c: "current_thread s = Some c" "se_state (se_of s c) = SCHED_RUNNING \<Longrightarrow> int p \<le> se_prio (se_of s c)"
  shows "\<exists>s'. opt_iter sched_switch (Suc (length xs)) s = Some s' \<and> current_thread s' = Some t"
proof -
  have "\<exists>s'. opt_iter sched_switch (Suc (length xs)) s = Some s' \<and> the (current_thread s') = t"
  proof (cases "se_state (se_of s c) = SCHED_RUNNING")
    case True
    then show ?thesis using rq.served_in_turn [OF inv _ p] c by simp
  next
    case False
    then have rq: "requeue s Q = Q" using c(1) by (simp add: requeue_def)
    obtain q n rest s' where h: "q < 32" "Q q = n # rest" "\<forall>r < q. Q r = []" "sched_switch s = Some s'"
      "sched_inv T s' (Q(q := rest))" "current_thread s' = Some n" "se_state (se_of s' n) = SCHED_RUNNING"
      "\<forall>u. se_prio (se_of s' u) = se_prio (se_of s u)"
      by (rule sched_switch_step [OF inv, unfolded rq])
    have "q = p" using h(2,3) p(2,3) by (metis linorder_neqE_nat list.distinct(1) append_is_Nil_conv)
    show ?thesis
    proof (cases xs)
      case Nil
      with h p \<open>q = p\<close> show ?thesis by simp
    next
      case (Cons x zs)
      with h p \<open>q = p\<close> have r: "n = x" "rest = zs @ t # ys" by simp_all
      have "se_prio (se_of s' n) = int p"
        using queue_repD(3) [OF sched_inv_queue [OF inv] p(1), of n] p(2) Cons r h(8) by auto
      then have "\<exists>s''. opt_iter sched_switch (Suc (length zs)) s' = Some s'' \<and> the (current_thread s'') = t"
        using rq.served_in_turn [OF h(5) _ p(1), of zs t ys] h(6,7) r p(3) \<open>q = p\<close> by simp
      then show ?thesis using h(4) Cons by simp
    qed
  qed
  then show ?thesis by (metis switches_current option.collapse)
qed

text \<open>
  (C1) The invariant that \<open>sched.c\<close> states, in every state that any sequence of creations, wake-ups,
  ticks, yields, blocks, exits and frees can reach: the 32 run queues are well-formed lists, the
  queue of priority \<open>p\<close> holds exactly the ready threads of priority \<open>p\<close> (each of them once) and no
  thread is linked otherwise, some live thread is current, only the current thread is running, and
  the idle thread is ready or running at the lowest priority. No operation gets stuck: waking any
  live thread and switching succeed.
\<close>

theorem sched_invariant:
  assumes "sched_reach T s"
  shows "(\<exists>Q. holds_queues s Q \<and>
      (\<forall>p < 32. distinct (Q p) \<and>
         set (Q p) = {t \<in> T. se_state (se_of s t) = SCHED_READY \<and> se_prio (se_of s t) = int p})) \<and>
    (\<exists>c \<in> T. current_thread s = Some c) \<and>
    (\<forall>t \<in> T. (queued s t \<longleftrightarrow> se_state (se_of s t) = SCHED_READY) \<and>
       0 \<le> se_prio (se_of s t) \<and> se_prio (se_of s t) < 32 \<and>
       (se_state (se_of s t) = SCHED_RUNNING \<longrightarrow> current_thread s = Some t) \<and>
       (\<exists>s'. sched_wake s t = Some s')) \<and>
    (\<exists>i \<in> T. idle_thread s = Some i \<and> se_prio (se_of s i) = SCHED_PRIO_IDLE \<and> runnable s i) \<and>
    (\<exists>s'. sched_switch s = Some s')"
proof -
  obtain Q where inv: "sched_inv T s Q" using sched_reach_inv [OF assms] by blast
  note q = sched_inv_queue [OF inv]
  have "\<exists>s'. sched_switch s = Some s'" using sched_switch_inv [OF inv] by blast
  moreover have "\<exists>s'. sched_wake s t = Some s'" if "t \<in> T" for t using sched_wake_inv [OF inv that] by blast
  moreover have "\<exists>i \<in> T. idle_thread s = Some i \<and> se_prio (se_of s i) = SCHED_PRIO_IDLE \<and> runnable s i"
    using inv by (auto simp: sched_inv_def runnable_def)
  moreover have "\<exists>c \<in> T. current_thread s = Some c" using inv by (auto simp: sched_inv_def)
  moreover have "distinct (Q p)" if "p < 32" for p
    using dl.rep_distinct [OF queue_repD(1) [OF q], of "RunQ p"] that by (simp add: distinct_map)
  moreover have "set (Q p) = {t \<in> T. se_state (se_of s t) = SCHED_READY \<and> se_prio (se_of s t) = int p}"
    if "p < 32" for p using queue_repD(3) [OF q that] by blast
  ultimately show ?thesis
    using queue_rep_holds [OF q] queue_repD(2) [OF q] queued_iff [OF q] sched_inv_running [OF inv] by blast
qed

theorem sched_invariant_witness:
  "sched_reach {3, 2, 1} demo_sched \<and> queued demo_sched 3 \<and> \<not> queued demo_sched 2 \<and>
   (\<exists>Q. holds_queues demo_sched Q \<and> set (Q 20) = {3} \<and> set (Q 31) = {1})"
proof -
  note inv = sched_invariant [OF demo_sched_facts(1)]
  obtain Q where Q: "holds_queues demo_sched Q" "\<forall>p < 32. set (Q p) =
      {t \<in> {3, 2, 1}. se_state (se_of demo_sched t) = SCHED_READY \<and> se_prio (se_of demo_sched t) = int p}"
    using inv by blast
  have "set (Q 20) = {3}" "set (Q 31) = {1}"
    using Q(2) by (auto simp: demo_sched_facts)
  with Q(1) inv show ?thesis by (auto simp: demo_sched_facts)
qed

text \<open>
  (C2) \<open>sched_pick_next\<close> always finds a thread, in FIFO order: in every reachable state, with \<open>Q\<close> the
  contents of the run queues, it puts the running thread behind the others of its priority
  (\<open>requeue\<close>) and then takes the head, the longest waiting thread, of the first non-empty queue; all
  other waiting threads keep their places. The thread it returns is live and runnable, and no
  runnable thread has a better priority; it is marked running with a full slice and is on no queue,
  and the reschedule request is cleared.
\<close>

theorem sched_pick_next_correct:
  assumes "sched_reach T s" and "holds_queues s Q"
  shows "\<exists>p n rest s'. sched_pick_next s = Some (n, s') \<and> p < 32 \<and> requeue s Q p = n # rest \<and>
    (\<forall>q < p. requeue s Q q = []) \<and> holds_queues s' ((requeue s Q)(p := rest)) \<and>
    n \<in> T \<and> runnable s n \<and> se_prio (se_of s n) = int p \<and>
    (\<forall>t \<in> T. runnable s t \<longrightarrow> se_prio (se_of s n) \<le> se_prio (se_of s t)) \<and>
    se_of s' n = (se_of s n)\<lparr>se_slice := SCHED_SLICE_TICKS, se_state := SCHED_RUNNING\<rparr> \<and>
    \<not> queued s' n \<and> \<not> sched_need_resched s'"
proof -
  obtain R where inv: "sched_inv T s R" using sched_reach_inv [OF assms(1)] by blast
  have eq: "requeue s R q = requeue s Q q" if "q < 32" for q
    using requeue_cong [of R Q] holds_unique [OF queue_rep_holds [OF sched_inv_queue [OF inv]] assms(2)] that
    by blast
  have "holds_queues s' ((requeue s R)(p := rest)) = holds_queues s' ((requeue s Q)(p := rest))" for s' p rest
    unfolding holds_queues_def using eq by (metis fun_upd_apply)
  moreover obtain p n rest s' where h: "sched_pick_next s = Some (n, s')" "p < 32"
    "requeue s R p = n # rest" "\<forall>q < p. requeue s R q = []" "holds_queues s' ((requeue s R)(p := rest))"
    "n \<in> T" "runnable s n" "se_prio (se_of s n) = int p"
    "\<forall>t \<in> T. runnable s t \<longrightarrow> se_prio (se_of s n) \<le> se_prio (se_of s t)"
    "se_of s' n = (se_of s n)\<lparr>se_slice := SCHED_SLICE_TICKS, se_state := SCHED_RUNNING\<rparr>"
    "\<not> queued s' n" "\<not> sched_need_resched s'"
    using pick_next_best [OF inv] by blast
  moreover have "\<forall>q < p. requeue s Q q = []" using h(2,4) eq by simp
  ultimately show ?thesis using eq [OF h(2)] by (intro exI [of _ p] exI [of _ n] exI [of _ rest]) simp
qed

theorem sched_pick_next_witness:
  "\<exists>s'. sched_pick_next demo_sched = Some (3, s') \<and> holds_queues s' (demo_queue(20 := [2]))"
proof -
  have rq: "requeue demo_sched (demo_queue(20 := [3])) = demo_queue(20 := [3, 2])"
    by (auto simp: requeue_def demo_sched_facts Let_def)
  obtain p n rest s' where h: "sched_pick_next demo_sched = Some (n, s')" "p < 32"
    "(demo_queue(20 := [3, 2])) p = n # rest" "\<forall>q < p. (demo_queue(20 := [3, 2])) q = []"
    "holds_queues s' ((demo_queue(20 := [3, 2]))(p := rest))"
    using sched_pick_next_correct [OF demo_sched_facts(1) demo_sched_queues] unfolding rq by blast
  have "p = 20" using h(3,4) by (cases "p = 20"; cases "p = 31"; auto split: if_splits)
  with h show ?thesis by auto
qed

text \<open>
  (C20) Round robin: let \<open>t\<close> wait in the queue of priority \<open>p\<close> behind the threads \<open>xs\<close>, and let no
  runnable thread have a better priority than \<open>p\<close>. Then \<open>t\<close> is current after \<open>length xs + 1\<close>
  switches: it waits only for the threads before it in its queue, never for the running thread or
  for those that come later.
\<close>

theorem sched_round_robin:
  assumes "sched_reach T s" and "holds_queues s Q" and "p < 32" and "Q p = xs @ t # ys"
    and "\<forall>u \<in> T. runnable s u \<longrightarrow> int p \<le> se_prio (se_of s u)"
  shows "\<exists>s'. opt_iter sched_switch (Suc (length xs)) s = Some s' \<and> current_thread s' = Some t"
proof -
  obtain R where inv: "sched_inv T s R" using sched_reach_inv [OF assms(1)] by blast
  note q = sched_inv_queue [OF inv]
  have eq: "R r = Q r" if "r < 32" for r
    by (rule holds_unique [OF queue_rep_holds [OF q] assms(2) that])
  have lower: "R r = []" if "r < p" for r
  proof (rule ccontr)
    assume "R r \<noteq> []"
    then have "hd (R r) \<in> set (R r)" by simp
    then have "hd (R r) \<in> T" "runnable s (hd (R r))" "se_prio (se_of s (hd (R r))) = int r"
      using queue_repD(3) [OF q, of r "hd (R r)"] that assms(3) by (auto simp: runnable_def)
    with assms(5) that show False by fastforce
  qed
  obtain c where c: "c \<in> T" "current_thread s = Some c" by (rule sched_invE [OF inv])
  show ?thesis
    by (rule served_in_order [OF inv assms(3), of xs t ys c])
      (use assms(3-5) eq lower c in \<open>auto simp: runnable_def\<close>)
qed

theorem sched_round_robin_witness:
  "\<exists>s'. opt_iter sched_switch 1 demo_sched = Some s' \<and> current_thread s' = Some 3"
  using sched_round_robin [OF demo_sched_facts(1) demo_sched_queues, of 20 "[]" 3 "[]"]
  by (simp add: demo_sched_facts runnable_def)

text \<open>
  A thread other than the idle one keeps the CPU for at most \<open>SCHED_SLICE_TICKS\<close> timer ticks
  before a reschedule is requested, and ticks change neither who is current nor whether anybody is
  queued.
\<close>

theorem sched_tick_preempts:
  assumes "sched_reach T s" and "current_thread s = Some c" and "idle_thread s \<noteq> Some c"
  shows "sched_need_resched ((sched_tick ^^ unat SCHED_SLICE_TICKS) s) \<and>
    current_thread (sched_tick s) = Some c \<and> (\<forall>t. queued (sched_tick s) t = queued s t)"
proof -
  obtain Q where inv: "sched_inv T s Q" using sched_reach_inv [OF assms(1)] by blast
  have "unat (se_slice (se_of s c)) \<le> Suc 9"
    using current_not_idle(3) [OF inv assms(2,3)] by (simp add: sched_consts word_le_nat_alt)
  then have "need_resched_flag ((sched_tick ^^ 10) s)"
    using ticks_expire [OF inv assms(2,3), of 9] by simp
  moreover have "run_queue (sched_tick s) = run_queue s"
    by (simp add: sched_tick_eq [OF inv assms(2,3)] Let_def)
  ultimately show ?thesis
    using tick_slice(1) [OF inv assms(2,3)] by (simp add: sched_need_resched_def sched_consts queued_def)
qed

theorem sched_tick_preempts_witness: "sched_need_resched ((sched_tick ^^ unat SCHED_SLICE_TICKS) demo_sched)"
  using sched_tick_preempts [OF demo_sched_facts(1,2)] by (simp add: demo_sched_facts)

end
