(* ===== verification/Services.thy ===== *)
theory Services
  imports Minus_Prelude "HOL-Library.Multiset"
begin

text \<open>
  The registries of the core: the service table of \<open>kernel/core/service/svc.c\<close>, the switch
  notification bus of \<open>switch_notify.c\<close>, the IPC stub, the ordered start-up of the subsystems
  (\<open>kernel/core/subsys/subsys.c\<close>), the system call table (\<open>syscall_dispatch.c\<close>) and the boot
  arguments (\<open>kernel/core/boot/cmdline.c\<close>). A C string is the list of its bytes before the
  terminator, so \<open>strcmp\<close> returning 0 is equality. A function pointer is a function on a state
  that the caller passes.
\<close>

type_synonym cstr = "u8 list"

section \<open>The service table\<close>

record 'o svc_entry =
  svc_eid :: u32
  svc_name :: cstr
  svc_ops :: 'o

record 'o svc_state =
  svc_table :: "'o svc_entry list"
  next_svc_id :: u32

definition SVC_MAX :: nat where "SVC_MAX = 16"
definition SVC_ID_INVALID :: u32 where "SVC_ID_INVALID = 0"

definition svc_state0 :: "'o svc_state" where
  "svc_state0 = \<lparr>svc_table = [], next_svc_id = 1\<rparr>"

fun svc_find :: "'o svc_entry list \<Rightarrow> cstr \<Rightarrow> 'o svc_entry option" where
  "svc_find [] name = None"
| "svc_find (e # es) name = (if svc_name e = name then Some e else svc_find es name)"

definition svc_lookup :: "'o svc_state \<Rightarrow> cstr option \<Rightarrow> 'o option" where
  "svc_lookup s name =
     (case name of None \<Rightarrow> None | Some n \<Rightarrow> map_option svc_ops (svc_find (svc_table s) n))"

definition svc_id :: "'o svc_state \<Rightarrow> cstr option \<Rightarrow> u32" where
  "svc_id s name =
     (case name of
        None \<Rightarrow> SVC_ID_INVALID
      | Some n \<Rightarrow> (case svc_find (svc_table s) n of None \<Rightarrow> SVC_ID_INVALID | Some e \<Rightarrow> svc_eid e))"

definition svc_register :: "'o svc_state \<Rightarrow> cstr option \<Rightarrow> 'o option \<Rightarrow> 'o svc_state" where
  "svc_register s name ops =
     (case (name, ops) of
        (Some n, Some op) \<Rightarrow>
          if SVC_MAX \<le> length (svc_table s) then s
          else if svc_lookup s name \<noteq> None then s
          else \<lparr>svc_table = svc_table s @ [\<lparr>svc_eid = next_svc_id s, svc_name = n, svc_ops = op\<rparr>],
                next_svc_id = next_svc_id s + 1\<rparr>
      | _ \<Rightarrow> s)"

definition ipc_call :: "'m \<Rightarrow> errno + u64" where
  "ipc_call msg = Inl ENOSYS"

definition svc_inv :: "'o svc_state \<Rightarrow> bool" where
  "svc_inv s \<longleftrightarrow> length (svc_table s) \<le> SVC_MAX \<and> unat (next_svc_id s) = Suc (length (svc_table s)) \<and>
     distinct (map svc_name (svc_table s)) \<and>
     map (unat \<circ> svc_eid) (svc_table s) = [1 ..< Suc (length (svc_table s))]"

lemma svc_find_append:
  "svc_find (es @ [e]) n = (case svc_find es n of Some x \<Rightarrow> Some x | None \<Rightarrow> if svc_name e = n then Some e else None)"
  by (induction es) auto

lemma svc_find_None: "svc_find es n = None \<longleftrightarrow> n \<notin> svc_name ` set es"
  by (induction es) auto

lemma svc_find_Some: "svc_find es n = Some e \<Longrightarrow> e \<in> set es \<and> svc_name e = n"
  by (induction es) (auto split: if_splits)

lemma svc_register_inv:
  assumes "svc_inv s"
  shows "svc_inv (svc_register s name ops)"
proof -
  have "unat (next_svc_id s + 1) = Suc (unat (next_svc_id s))" if "length (svc_table s) < SVC_MAX"
    using assms that unat_add_lem [of "next_svc_id s" 1] by (simp add: svc_inv_def SVC_MAX_def)
  then show ?thesis
    using assms by (auto simp: svc_inv_def svc_register_def svc_lookup_def svc_find_None not_le split: option.split)
qed

lemma svc_inv_init: "svc_inv svc_state0"
  by (simp add: svc_inv_def svc_state0_def SVC_MAX_def)

lemma svc_ids_inj:
  assumes "svc_inv s" and "svc_find (svc_table s) n = Some e" and "svc_find (svc_table s) m = Some f"
    and "svc_eid e = svc_eid f"
  shows "n = m"
proof -
  have "distinct (map (unat \<circ> svc_eid) (svc_table s))" using assms(1) by (simp add: svc_inv_def del: upt_Suc)
  then have "inj_on (unat \<circ> svc_eid) (set (svc_table s))" by (simp add: distinct_map)
  then have "e = f"
    by (rule inj_onD) (use svc_find_Some [OF assms(2)] svc_find_Some [OF assms(3)] assms(4) in auto)
  with svc_find_Some [OF assms(2)] svc_find_Some [OF assms(3)] show ?thesis by simp
qed

text \<open>
  The service table is a map that only grows: a registration with a name and a table binds the
  name if it is new and fewer than 16 services exist, and changes no other binding; a name keeps
  its first table; and two names have equal identifiers only if they are the same name.
\<close>

theorem svc_register_lookup:
  assumes "svc_inv s"
  shows "svc_inv (svc_register s (Some n) (Some op)) \<and>
    svc_lookup (svc_register s (Some n) (Some op)) (Some m) =
      (if m = n \<and> svc_lookup s (Some n) = None \<and> length (svc_table s) < SVC_MAX then Some op
       else svc_lookup s (Some m)) \<and>
    (svc_lookup s (Some n) \<noteq> None \<and> svc_lookup s (Some m) \<noteq> None \<longrightarrow>
       svc_id s (Some n) \<noteq> SVC_ID_INVALID \<and> (svc_id s (Some n) = svc_id s (Some m) \<longrightarrow> n = m))"
proof -
  have "svc_eid e \<noteq> 0" if "e \<in> set (svc_table s)" for e
  proof -
    have "unat (svc_eid e) \<in> set (map (unat \<circ> svc_eid) (svc_table s))" using that by auto
    moreover have "map (unat \<circ> svc_eid) (svc_table s) = [1 ..< Suc (length (svc_table s))]"
      using assms by (simp only: svc_inv_def)
    ultimately have "0 < unat (svc_eid e)" by (simp only: set_upt) simp
    then show ?thesis by auto
  qed
  then have nz: "svc_eid e \<noteq> 0" if "svc_find (svc_table s) n = Some e" for e
    using svc_find_Some [OF that] by blast
  have "svc_lookup (svc_register s (Some n) (Some op)) (Some m) =
      (if m = n \<and> svc_lookup s (Some n) = None \<and> length (svc_table s) < SVC_MAX then Some op
       else svc_lookup s (Some m))"
    by (auto simp: svc_lookup_def svc_register_def svc_find_append split: option.splits)
  moreover have "svc_id s (Some n) \<noteq> SVC_ID_INVALID \<and> (svc_id s (Some n) = svc_id s (Some m) \<longrightarrow> n = m)"
    if "svc_lookup s (Some n) \<noteq> None" "svc_lookup s (Some m) \<noteq> None"
    using that nz svc_ids_inj [OF assms, of n _ m]
    by (auto simp: svc_lookup_def svc_id_def SVC_ID_INVALID_def)
  ultimately show ?thesis using svc_register_inv [OF assms] by blast
qed

theorem svc_register_lookup_witness:
  "let s = svc_register svc_state0 (Some [109, 109]) (Some (7 :: nat))
   in svc_lookup (svc_register s (Some [102, 115]) (Some 9)) (Some [102, 115]) = Some 9 \<and>
      svc_lookup (svc_register s (Some [102, 115]) (Some 9)) (Some [109, 109]) = Some 7"
proof -
  let ?s = "svc_register svc_state0 (Some [109, 109]) (Some (7 :: nat))"
  note w = svc_register_lookup [OF svc_register_inv [OF svc_inv_init], of "Some [109, 109]" "Some (7 :: nat)" "[102, 115]" 9]
  show ?thesis
    using w [of "[102, 115]"] w [of "[109, 109]"]
    by (simp add: svc_state0_def svc_register_def svc_lookup_def SVC_MAX_def)
qed

section \<open>The switch notification bus\<close>

definition SWITCH_NOTIFY_MAX :: nat where "SWITCH_NOTIFY_MAX = 8"

type_synonym ('e, 's) switch_notify_fn = "'e option \<Rightarrow> 'e option \<Rightarrow> 's \<Rightarrow> 's"

definition switch_notifier_register ::
  "('e, 's) switch_notify_fn list \<Rightarrow> ('e, 's) switch_notify_fn option \<Rightarrow> 's \<Rightarrow>
     (errno + unit) \<times> ('e, 's) switch_notify_fn list \<times> 's" where
  "switch_notifier_register fns fn s =
     (case fn of
        None \<Rightarrow> (Inl ENOMEM, fns, s)
      | Some f \<Rightarrow>
          if SWITCH_NOTIFY_MAX \<le> length fns then (Inl ENOMEM, fns, s)
          else (Inr (), fns @ [f], f None None s))"

fun switch_notify :: "('e, 's) switch_notify_fn list \<Rightarrow> 'e option \<Rightarrow> 'e option \<Rightarrow> 's \<Rightarrow> 's" where
  "switch_notify [] prev nxt s = s"
| "switch_notify (f # fs) prev nxt s = switch_notify fs prev nxt (f prev nxt s)"

definition switch_finish :: "('e, 's) switch_notify_fn list \<Rightarrow> 'e option \<Rightarrow> 'e option \<Rightarrow> 's \<Rightarrow> 's" where
  "switch_finish = switch_notify"

text \<open>Registration seeds the mirror of the new subscriber, and a switch reaches every subscriber
  once, in the order of registration.\<close>

lemma switch_notify_fold: "switch_notify fs prev nxt s = fold (\<lambda>f. f prev nxt) fs s"
  by (induction fs arbitrary: s) auto

section \<open>Subsystem start-up\<close>

record 's subsys_ops =
  so_name :: "cstr option"
  so_level :: int
  so_init :: "('s \<Rightarrow> int \<times> 's) option"

definition SUBSYS_MAX :: nat where "SUBSYS_MAX = 16"

text \<open>
  The inner loop of the insertion sort: the hole at \<open>h\<close> moves down while the element below has a
  greater level; then the key is stored in it.
\<close>

fun sort_inner :: "'s subsys_ops list \<Rightarrow> 's subsys_ops \<Rightarrow> nat \<Rightarrow> 's subsys_ops list" where
  "sort_inner ops key 0 = ops[0 := key]"
| "sort_inner ops key (Suc j) =
     (if so_level (ops ! j) > so_level key then sort_inner (ops[Suc j := ops ! j]) key j
      else ops[Suc j := key])"

fun sort_outer :: "'s subsys_ops list \<Rightarrow> nat list \<Rightarrow> 's subsys_ops list" where
  "sort_outer ops [] = ops"
| "sort_outer ops (i # is) = sort_outer (sort_inner ops (ops ! i) i) is"

definition subsys_sort :: "'s subsys_ops list \<Rightarrow> nat \<Rightarrow> 's subsys_ops list" where
  "subsys_sort ops n = sort_outer ops [1 ..< n]"

fun subsys_collect :: "'s subsys_ops list \<Rightarrow> 's subsys_ops list \<Rightarrow> (errno + 's subsys_ops list)" where
  "subsys_collect [] ops = Inr ops"
| "subsys_collect (p # ps) ops =
     (if so_name p = None \<or> so_init p = None then subsys_collect ps ops
      else if SUBSYS_MAX \<le> length ops then Inl EINVAL
      else subsys_collect ps (ops @ [p]))"

text \<open>The start-up loop, with the names it prints as initialised.\<close>

fun subsys_run :: "'s subsys_ops list \<Rightarrow> int \<Rightarrow> 's \<Rightarrow> int \<times> cstr option list \<times> 's" where
  "subsys_run [] prev s = (0, [], s)"
| "subsys_run (p # ps) prev s =
     (if so_level p < prev then (- errno_val EINVAL, [], s)
      else
        let (ret, s1) = the (so_init p) s in
        if ret < 0 then (ret, [], s1)
        else let (r, names, s2) = subsys_run ps (so_level p) s1 in (r, so_name p # names, s2))"

definition subsys_init_all :: "'s subsys_ops list \<Rightarrow> 's \<Rightarrow> int \<times> cstr option list \<times> 's" where
  "subsys_init_all table s =
     (case subsys_collect table [] of
        Inl e \<Rightarrow> (- errno_val e, [], s)
      | Inr ops \<Rightarrow> subsys_run (subsys_sort ops (length ops)) (- 1) s)"

text \<open>What the inner loop inserts into the sorted prefix.\<close>

fun place :: "'s subsys_ops \<Rightarrow> 's subsys_ops list \<Rightarrow> 's subsys_ops list" where
  "place key [] = [key]"
| "place key (y # ys) = (if so_level y > so_level key then y # place key ys else key # y # ys)"

lemma sort_inner_place:
  "sort_inner (rev ys @ x # zs) key (length ys) = rev (place key ys) @ zs"
proof (induction ys arbitrary: x zs)
  case (Cons y ys)
  have "(rev (y # ys) @ x # zs) ! length ys = y" by (simp add: nth_append)
  moreover have "(rev (y # ys) @ x # zs)[Suc (length ys) := w] = rev ys @ y # w # zs" for w
    by (simp add: list_update_append)
  ultimately show ?case using Cons [of y "y # zs"] by simp
qed simp

lemma place_facts:
  "mset (place key ys) = add_mset key (mset ys)" "length (place key ys) = Suc (length ys)"
  "sorted_wrt (\<lambda>a b. so_level b \<le> so_level a) ys \<Longrightarrow> sorted_wrt (\<lambda>a b. so_level b \<le> so_level a) (place key ys)"
  "sorted_wrt (\<lambda>a b. so_level b \<le> so_level a) ys \<Longrightarrow>
     filter (\<lambda>x. so_level x = k) (place key ys) = filter (\<lambda>x. so_level x = k) (key # ys)"
proof (induction ys)
  case (Cons y ys)
  have set: "set (place key ys) = insert key (set ys)"
    using Cons.IH(1) by (metis set_mset_add_mset_insert set_mset_mset)
  {
    case 1 then show ?case using Cons by simp
  next
    case 2 then show ?case using Cons by simp
  next
    case 3 then show ?case using Cons set by auto
  next
    case 4 then show ?case using Cons by (auto simp: filter_empty_conv)
  }
qed auto

definition level_sorted :: "'s subsys_ops list \<Rightarrow> bool" where
  "level_sorted xs \<longleftrightarrow> sorted (map so_level xs)"

lemma sort_prefix:
  assumes "i < length xs" and "level_sorted (take i xs)"
  defines "ys \<equiv> sort_inner xs (xs ! i) i"
  shows "mset ys = mset xs" and "level_sorted (take (Suc i) ys)" and "length ys = length xs"
    and "filter (\<lambda>x. so_level x = k) ys = filter (\<lambda>x. so_level x = k) xs"
proof -
  define us where "us = rev (take i xs)"
  have xs: "xs = rev us @ xs ! i # drop (Suc i) xs" and l: "length us = i"
    using assms(1) by (simp_all add: us_def id_take_nth_drop)
  have ys: "ys = rev (place (xs ! i) us) @ drop (Suc i) xs"
    unfolding ys_def using sort_inner_place [of us "xs ! i" "drop (Suc i) xs" "xs ! i"] xs l by metis
  have srt: "sorted_wrt (\<lambda>a b. so_level b \<le> so_level a) us"
    using assms(2) by (simp add: us_def level_sorted_def sorted_wrt_rev sorted_wrt_map)
  show "length ys = length xs" unfolding ys using assms(1) l by (simp add: place_facts)
  show "mset ys = mset xs" unfolding ys by (subst (3) xs) (simp add: place_facts)
  show "level_sorted (take (Suc i) ys)"
    unfolding ys level_sorted_def using place_facts(3) [OF srt, of "xs ! i"] l
    by (simp add: place_facts sorted_wrt_map rev_map [symmetric] sorted_wrt_rev)
  show "filter (\<lambda>x. so_level x = k) ys = filter (\<lambda>x. so_level x = k) xs"
    unfolding ys by (subst (2) xs) (simp add: place_facts(4) [OF srt] rev_filter [symmetric] l flip: rev_filter)
qed

lemma sort_outer_facts:
  assumes "level_sorted (take i xs)" and "i \<le> length xs"
  defines "ys \<equiv> sort_outer xs [i ..< length xs]"
  shows "mset ys = mset xs \<and> level_sorted ys \<and>
    (\<forall>k. filter (\<lambda>x. so_level x = k) ys = filter (\<lambda>x. so_level x = k) xs)"
  using assms(1,2) unfolding ys_def
proof (induction "length xs - i" arbitrary: i xs)
  case 0
  then show ?case by simp
next
  case (Suc d)
  have i: "i < length xs" using Suc.hyps(2) by simp
  note st = sort_prefix [OF i Suc.prems(1)]
  have "mset (sort_outer (sort_inner xs (xs ! i) i) [Suc i ..< length xs]) = mset (sort_inner xs (xs ! i) i) \<and>
    level_sorted (sort_outer (sort_inner xs (xs ! i) i) [Suc i ..< length xs]) \<and>
    (\<forall>k. filter (\<lambda>x. so_level x = k) (sort_outer (sort_inner xs (xs ! i) i) [Suc i ..< length xs]) =
      filter (\<lambda>x. so_level x = k) (sort_inner xs (xs ! i) i))"
    using Suc.hyps(1) [OF _ st(2)] Suc.hyps(2) st(3) i by simp
  then show ?case using st i by (simp add: upt_conv_Cons)
qed

lemma subsys_sort_eq: "subsys_sort ops (length ops) = sort_key so_level ops"
proof (cases "ops = []")
  case True
  then show ?thesis by (simp add: subsys_sort_def)
next
  case False
  then have "level_sorted (take 1 ops)" "1 \<le> length ops"
    by (cases ops; simp add: level_sorted_def)+
  note f = sort_outer_facts [OF this, folded subsys_sort_def]
  have e: "(\<lambda>x. so_level k = so_level x) = (\<lambda>x :: 'a subsys_ops. so_level x = so_level k)" for k
    by auto
  show ?thesis
  proof (rule properties_for_sort_key [symmetric])
    show "mset (subsys_sort ops (length ops)) = mset ops" using f by blast
    show "sorted (map so_level (subsys_sort ops (length ops)))" using f by (simp add: level_sorted_def)
    show "filter (\<lambda>x. so_level k = so_level x) (subsys_sort ops (length ops)) =
        filter (\<lambda>x. so_level k = so_level x) ops" for k
      unfolding e using f by blast
  qed
qed

definition subsys_valid :: "'s subsys_ops \<Rightarrow> bool" where
  "subsys_valid p \<longleftrightarrow> so_name p \<noteq> None \<and> so_init p \<noteq> None"

lemma subsys_collect_eq:
  assumes "length ops \<le> SUBSYS_MAX"
  shows "subsys_collect ps ops =
    (if length ops + length (filter subsys_valid ps) \<le> SUBSYS_MAX then Inr (ops @ filter subsys_valid ps)
     else Inl EINVAL)"
  using assms by (induction ps arbitrary: ops) (auto simp: subsys_valid_def)

text \<open>Running the initialisers of a list in the order of the list, up to the first failure.\<close>

fun start_in_order :: "'s subsys_ops list \<Rightarrow> 's \<Rightarrow> int \<times> cstr option list \<times> 's" where
  "start_in_order [] s = (0, [], s)"
| "start_in_order (p # ps) s =
     (case the (so_init p) s of (ret, s1) \<Rightarrow>
        if ret < 0 then (ret, [], s1)
        else case start_in_order ps s1 of (r, names, s2) \<Rightarrow> (r, so_name p # names, s2))"

lemma subsys_run_eq:
  assumes "sorted (map so_level ps)" and "\<forall>p \<in> set ps. prev \<le> so_level p"
  shows "subsys_run ps prev s = start_in_order ps s"
  using assms by (induction ps arbitrary: prev s) (auto simp: Let_def split: prod.splits)

text \<open>
  Start-up order: the in-place insertion sort equals the stable sort by level, so
  \<open>subsys_init_all\<close> runs the initialisers of the valid descriptors in ascending level order and,
  within a level, in link order, stopping at the first that fails; the internal ordering check
  never fires. With more than 16 descriptors it fails with \<open>EINVAL\<close> before running any of them.
\<close>

theorem subsys_init_all_ordered:
  assumes "\<forall>p \<in> set table. 0 \<le> so_level p"
  shows "subsys_sort table (length table) = sort_key so_level table \<and>
    subsys_init_all table s =
      (if length (filter subsys_valid table) \<le> SUBSYS_MAX
       then start_in_order (sort_key so_level (filter subsys_valid table)) s
       else (- errno_val EINVAL, [], s))"
proof -
  have "subsys_run (sort_key so_level (filter subsys_valid table)) (- 1) s =
      start_in_order (sort_key so_level (filter subsys_valid table)) s"
  proof (rule subsys_run_eq)
    show "\<forall>p \<in> set (sort_key so_level (filter subsys_valid table)). - 1 \<le> so_level p"
      using assms by force
  qed simp
  then show ?thesis
    by (simp add: subsys_init_all_def subsys_collect_eq SUBSYS_MAX_def subsys_sort_eq)
qed

theorem subsys_init_all_witness:
  "let mk = (\<lambda>n l r. \<lparr>so_name = Some [n], so_level = l, so_init = Some (\<lambda>s. (r, s @ [l]))\<rparr>);
       table = [mk 1 30 0, mk 2 10 0, mk 3 20 (- 5), mk 4 10 0]
   in subsys_init_all table [] = (- 5, [Some [2], Some [4]], [10, 10, 20])"
proof -
  let ?mk = "\<lambda>n l r. \<lparr>so_name = Some [n], so_level = l, so_init = Some (\<lambda>s. (r, s @ [l]))\<rparr>"
  let ?t = "[?mk 1 30 0, ?mk 2 10 0, ?mk 3 20 (- 5), ?mk 4 10 0]"
  have "\<forall>p \<in> set ?t. 0 \<le> so_level p" by simp
  from subsys_init_all_ordered [OF this, of "[]"] show ?thesis
    by (simp add: subsys_valid_def SUBSYS_MAX_def)
qed

section \<open>System call dispatch\<close>

definition SC_TABLE_SIZE :: nat where "SC_TABLE_SIZE = 256"

record 'f syscall_entry =
  sc_nr :: u64
  sc_fn :: 'f

record pt_regs =
  pt_x :: "u64 list"
  pt_elr :: u64
  pt_spsr :: u64
  pt_esr :: u64
  pt_sp_el0 :: u64

text \<open>The loop over the linker section; it stops at the first bad entry and leaves the table as
  filled so far.\<close>

fun syscall_fill :: "'f syscall_entry list \<Rightarrow> 'f option list \<Rightarrow> (errno + unit) \<times> 'f option list" where
  "syscall_fill [] tbl = (Inr (), tbl)"
| "syscall_fill (e # es) tbl =
     (if SC_TABLE_SIZE \<le> unat (sc_nr e) then (Inl EINVAL, tbl)
      else if tbl ! unat (sc_nr e) \<noteq> None then (Inl EINVAL, tbl)
      else syscall_fill es (tbl[unat (sc_nr e) := Some (sc_fn e)]))"

definition syscall_dispatch_subsys_init :: "'f syscall_entry list \<Rightarrow> (errno + unit) \<times> 'f option list" where
  "syscall_dispatch_subsys_init entries = syscall_fill entries (replicate SC_TABLE_SIZE None)"

type_synonym 's syscall_fn = "u64 \<Rightarrow> u64 \<Rightarrow> u64 \<Rightarrow> u64 \<Rightarrow> u64 \<Rightarrow> u64 \<Rightarrow> 's \<Rightarrow> u64 \<times> 's"

definition do_syscall :: "'s syscall_fn option list \<Rightarrow> pt_regs \<Rightarrow> 's \<Rightarrow> pt_regs \<times> 's" where
  "do_syscall tbl regs s =
     (let nr = pt_x regs ! 8; x = pt_x regs in
      if SC_TABLE_SIZE \<le> unat nr \<or> tbl ! unat nr = None
      then (regs\<lparr>pt_x := x[0 := of_int (- errno_val ENOSYS)]\<rparr>, s)
      else
        let (r, s1) = the (tbl ! unat nr) (x ! 0) (x ! 1) (x ! 2) (x ! 3) (x ! 4) (x ! 5) s
        in (regs\<lparr>pt_x := x[0 := r]\<rparr>, s1))"

text \<open>The handler a list of entries gives for a number.\<close>

definition handler :: "'f syscall_entry list \<Rightarrow> nat \<Rightarrow> 'f option" where
  "handler es n = map_option sc_fn (find (\<lambda>e. unat (sc_nr e) = n) es)"

lemma syscall_fill_ok:
  assumes "length tbl = SC_TABLE_SIZE"
    and "\<forall>e \<in> set es. unat (sc_nr e) < SC_TABLE_SIZE \<and> tbl ! unat (sc_nr e) = None"
    and "distinct (map sc_nr es)"
  shows "\<exists>tbl'. syscall_fill es tbl = (Inr (), tbl') \<and> length tbl' = SC_TABLE_SIZE \<and>
    (\<forall>n < SC_TABLE_SIZE. tbl' ! n = (case handler es n of Some f \<Rightarrow> Some f | None \<Rightarrow> tbl ! n))"
  using assms
proof (induction es arbitrary: tbl)
  case Nil
  then show ?case by (simp add: handler_def)
next
  case (Cons e es)
  let ?n = "unat (sc_nr e)"
  let ?t = "tbl[?n := Some (sc_fn e)]"
  have "\<exists>tbl'. syscall_fill es ?t = (Inr (), tbl') \<and> length tbl' = SC_TABLE_SIZE \<and>
    (\<forall>n < SC_TABLE_SIZE. tbl' ! n = (case handler es n of Some f \<Rightarrow> Some f | None \<Rightarrow> ?t ! n))"
  proof (rule Cons.IH)
    show "\<forall>x \<in> set es. unat (sc_nr x) < SC_TABLE_SIZE \<and> ?t ! unat (sc_nr x) = None"
    proof
      fix x assume x: "x \<in> set es"
      then have "?n \<noteq> unat (sc_nr x)" using Cons.prems(3) by (auto simp: word_unat_eq_iff)
      then show "unat (sc_nr x) < SC_TABLE_SIZE \<and> ?t ! unat (sc_nr x) = None"
        using Cons.prems(2) x by simp
    qed
  qed (use Cons.prems in auto)
  moreover have "handler es ?n = None"
    using Cons.prems(3) by (force simp: handler_def find_None_iff word_unat_eq_iff image_iff)
  ultimately show ?case
    using Cons.prems(1,2) by (auto simp: handler_def split: option.splits)
qed

lemma syscall_fill_success:
  assumes "length tbl = SC_TABLE_SIZE"
  shows "fst (syscall_fill es tbl) = Inr () \<longleftrightarrow>
    (\<forall>e \<in> set es. unat (sc_nr e) < SC_TABLE_SIZE \<and> tbl ! unat (sc_nr e) = None) \<and> distinct (map sc_nr es)"
  using assms
proof (induction es arbitrary: tbl)
  case (Cons e es)
  let ?t = "tbl[unat (sc_nr e) := Some (sc_fn e)]"
  have "(\<forall>x \<in> set es. unat (sc_nr x) < SC_TABLE_SIZE \<and> ?t ! unat (sc_nr x) = None) \<longleftrightarrow>
      (\<forall>x \<in> set es. unat (sc_nr x) < SC_TABLE_SIZE \<and> tbl ! unat (sc_nr x) = None) \<and> sc_nr e \<notin> sc_nr ` set es"
    if "unat (sc_nr e) < SC_TABLE_SIZE"
    using that Cons.prems by (auto simp: nth_list_update word_unat_eq_iff split: if_splits)
  with Cons show ?case by auto
qed simp

text \<open>
  (C4) System call dispatch: building the table succeeds exactly when every number is below 256 and
  no number occurs twice, and fails with \<open>EINVAL\<close> otherwise; with the table built, a system call
  runs exactly the handler registered for the number in \<open>x8\<close> on the first six registers and puts
  its result into \<open>x0\<close>, and every number without a handler, however large, gets \<open>-ENOSYS\<close> and
  changes no other state.
\<close>

theorem syscall_dispatch_correct:
  assumes "length (pt_x regs) = 31"
  shows "fst (syscall_dispatch_subsys_init es) =
      (if (\<forall>e \<in> set es. unat (sc_nr e) < SC_TABLE_SIZE) \<and> distinct (map sc_nr es) then Inr () else Inl EINVAL) \<and>
    (fst (syscall_dispatch_subsys_init es) = Inr () \<longrightarrow>
      do_syscall (snd (syscall_dispatch_subsys_init es)) regs s =
        (let x = pt_x regs in
         case handler es (unat (x ! 8)) of
           None \<Rightarrow> (regs\<lparr>pt_x := x[0 := of_int (- 38)]\<rparr>, s)
         | Some f \<Rightarrow> (case f (x ! 0) (x ! 1) (x ! 2) (x ! 3) (x ! 4) (x ! 5) s of
                       (r, s') \<Rightarrow> (regs\<lparr>pt_x := x[0 := r]\<rparr>, s'))))"
proof (intro conjI impI)
  have err: "fst (syscall_fill es tbl) \<in> {Inr (), Inl EINVAL}" for tbl
    by (induction es arbitrary: tbl) auto
  have ok: "fst (syscall_dispatch_subsys_init es) = Inr () \<longleftrightarrow>
      (\<forall>e \<in> set es. unat (sc_nr e) < SC_TABLE_SIZE) \<and> distinct (map sc_nr es)"
    unfolding syscall_dispatch_subsys_init_def by (subst syscall_fill_success) auto
  with err [of "replicate SC_TABLE_SIZE None"]
  show "fst (syscall_dispatch_subsys_init es) =
      (if (\<forall>e \<in> set es. unat (sc_nr e) < SC_TABLE_SIZE) \<and> distinct (map sc_nr es) then Inr () else Inl EINVAL)"
    by (auto simp: syscall_dispatch_subsys_init_def)
  assume "fst (syscall_dispatch_subsys_init es) = Inr ()"
  then have g: "\<forall>e \<in> set es. unat (sc_nr e) < SC_TABLE_SIZE" "distinct (map sc_nr es)" using ok by auto
  obtain t where t: "syscall_dispatch_subsys_init es = (Inr (), t)"
    "\<forall>n < SC_TABLE_SIZE. t ! n = (case handler es n of Some f \<Rightarrow> Some f | None \<Rightarrow> replicate SC_TABLE_SIZE None ! n)"
    using syscall_fill_ok [of "replicate SC_TABLE_SIZE None" es] g
    by (auto simp: syscall_dispatch_subsys_init_def)
  have "t ! n = handler es n" if "n < SC_TABLE_SIZE" for n
    using t(2) that by (auto split: option.splits)
  moreover have "handler es n = None" if "SC_TABLE_SIZE \<le> n" for n
    using g(1) that by (force simp: handler_def find_None_iff)
  ultimately show "do_syscall (snd (syscall_dispatch_subsys_init es)) regs s =
        (let x = pt_x regs in
         case handler es (unat (x ! 8)) of
           None \<Rightarrow> (regs\<lparr>pt_x := x[0 := of_int (- 38)]\<rparr>, s)
         | Some f \<Rightarrow> (case f (x ! 0) (x ! 1) (x ! 2) (x ! 3) (x ! 4) (x ! 5) s of
                       (r, s') \<Rightarrow> (regs\<lparr>pt_x := x[0 := r]\<rparr>, s')))"
    by (cases "unat (pt_x regs ! 8) < SC_TABLE_SIZE")
      (auto simp: t(1) do_syscall_def Let_def split: option.split)
qed

theorem syscall_dispatch_witness:
  "let es = [\<lparr>sc_nr = 172, sc_fn = \<lambda>a b c d e f s. (s, s + 1)\<rparr>, \<lparr>sc_nr = 64, sc_fn = \<lambda>a b c d e f s. (a + c, s)\<rparr>];
       regs = \<lparr>pt_x = (replicate 31 1)[8 := 64], pt_elr = 0, pt_spsr = 0, pt_esr = 0, pt_sp_el0 = 0\<rparr>
   in do_syscall (snd (syscall_dispatch_subsys_init es)) regs (5 :: u64) =
      (regs\<lparr>pt_x := (replicate 31 1)[8 := 64, 0 := 2]\<rparr>, 5)"
proof -
  let ?es = "[\<lparr>sc_nr = 172, sc_fn = \<lambda>a b c d e f s. (s, s + 1)\<rparr>, \<lparr>sc_nr = 64, sc_fn = \<lambda>a b c d e f s :: u64. (a + c, s)\<rparr>]"
  let ?r = "\<lparr>pt_x = (replicate 31 1)[8 := 64], pt_elr = 0, pt_spsr = 0, pt_esr = 0, pt_sp_el0 = 0\<rparr>"
  have "length (pt_x ?r) = 31" by simp
  from syscall_dispatch_correct [OF this, of ?es 5] show ?thesis
    by (simp add: handler_def SC_TABLE_SIZE_def)
qed

section \<open>Boot arguments\<close>

record bootargs =
  root_device :: cstr
  root_fstype :: cstr
  root_ro :: bool

definition cstr_of :: "string \<Rightarrow> cstr" where
  "cstr_of = map (\<lambda>c. of_nat (of_char c))"

definition has_prefix :: "cstr \<Rightarrow> cstr \<Rightarrow> bool" where
  "has_prefix p s \<longleftrightarrow> take (length p) s = p"

definition bootargs_token :: "cstr \<Rightarrow> bootargs \<Rightarrow> bootargs" where
  "bootargs_token tok args =
     (if has_prefix (cstr_of ''root='') tok then args\<lparr>root_device := take 31 (drop 5 tok)\<rparr>
      else if has_prefix (cstr_of ''rootfstype='') tok then args\<lparr>root_fstype := take 15 (drop 11 tok)\<rparr>
      else if tok = cstr_of ''ro'' then args\<lparr>root_ro := True\<rparr>
      else if tok = cstr_of ''rw'' then args\<lparr>root_ro := False\<rparr>
      else args)"

function bootargs_loop :: "cstr \<Rightarrow> bootargs \<Rightarrow> bootargs" where
  "bootargs_loop p args =
     (let q = dropWhile (\<lambda>c. c = 32) p in
      if p = [] \<or> q = [] then args
      else
        let w = takeWhile (\<lambda>c. c \<noteq> 32) q; tok = take 63 w
        in bootargs_loop (drop (length w) q) (bootargs_token tok args))"
  by pat_completeness auto

termination
proof (relation "measure (\<lambda>(p, args). length p)", goal_cases)
  case (2 p args q w tok)
  then have "q \<noteq> []" by simp
  moreover from this have "w \<noteq> []"
    using 2 hd_dropWhile [of "\<lambda>c. c = 32" p] by (cases "dropWhile (\<lambda>c. c = 32) p") auto
  moreover have "length q \<le> length p" using 2(1) length_dropWhile_le by blast
  ultimately have "length q - length w < length p"
    by (simp add: diff_less less_le_trans [of _ "length q"])
  then show ?case by simp
qed simp

declare bootargs_loop.simps [simp del]

text \<open>\<open>chosen\<close> is the offset of the \<open>/chosen\<close> node and \<open>prop\<close> its \<open>bootargs\<close> property, both
  delivered by the device tree library.\<close>

definition bootargs0 :: bootargs where
  "bootargs0 = \<lparr>root_device = [], root_fstype = [], root_ro = False\<rparr>"

definition parse_bootargs :: "bootargs option \<Rightarrow> int \<Rightarrow> bytes option \<Rightarrow> (errno + unit) \<times> bootargs option" where
  "parse_bootargs args chosen prop =
     (case args of
        None \<Rightarrow> (Inl EINVAL, None)
      | Some _ \<Rightarrow>
          if chosen < 0 then (Inl ENOENT, Some bootargs0)
          else
            (case prop of
               None \<Rightarrow> (Inl ENOENT, Some bootargs0)
             | Some bs \<Rightarrow>
                 if bs = [] then (Inl ENOENT, Some bootargs0)
                 else (Inr (), Some (bootargs_loop (takeWhile (\<lambda>c. c \<noteq> 0) (take 255 bs)) bootargs0))))"

text \<open>A command line written out from its words.\<close>

fun join_words :: "cstr list \<Rightarrow> cstr" where
  "join_words [] = []"
| "join_words [w] = w"
| "join_words (w # ws) = w @ 32 # join_words ws"

definition boot_word :: "cstr \<Rightarrow> bool" where
  "boot_word w \<longleftrightarrow> w \<noteq> [] \<and> length w \<le> 63 \<and> 0 \<notin> set w \<and> 32 \<notin> set w"

lemma takeWhile_word: "32 \<notin> set w \<Longrightarrow> takeWhile (\<lambda>c. c \<noteq> 32) (w @ 32 # r) = w"
  "32 \<notin> set w \<Longrightarrow> takeWhile (\<lambda>c. c \<noteq> (32 :: u8)) w = w"
  by (induction w) auto

lemma dropWhile_word: "boot_word w \<Longrightarrow> dropWhile (\<lambda>c. c = 32) (w @ r) = w @ r"
  by (cases w) (auto simp: boot_word_def)

lemma bootargs_loop_space: "bootargs_loop (32 # p) args = bootargs_loop p args"
  by (subst (1 2) bootargs_loop.simps) (simp add: Let_def)

lemma bootargs_loop_words:
  assumes "\<forall>w \<in> set ws. boot_word w"
  shows "bootargs_loop (join_words ws) args = fold bootargs_token ws args"
  using assms
proof (induction ws arbitrary: args rule: join_words.induct)
  case 1
  show ?case by (subst bootargs_loop.simps) simp
next
  case (2 w)
  have n: "bootargs_loop [] a = a" for a by (subst bootargs_loop.simps) simp
  from 2 dropWhile_word [of w "[]"] show ?case
    by (subst bootargs_loop.simps) (simp add: boot_word_def takeWhile_word n)
next
  case (3 w v vs)
  have "bootargs_loop (join_words (w # v # vs)) args = bootargs_loop (32 # join_words (v # vs)) (bootargs_token w args)"
    using 3(2) dropWhile_word [of w "32 # join_words (v # vs)"]
    by (subst bootargs_loop.simps) (simp add: boot_word_def takeWhile_word)
  with 3 show ?case by (simp add: bootargs_loop_space)
qed

lemma bootargs_loop_bounds:
  assumes "length (root_device args) < 32" and "length (root_fstype args) < 16"
  shows "length (root_device (bootargs_loop p args)) < 32 \<and> length (root_fstype (bootargs_loop p args)) < 16"
  using assms
proof (induction p args rule: bootargs_loop.induct)
  case (1 p args)
  have "length (root_device (bootargs_token t a)) < 32 \<and> length (root_fstype (bootargs_token t a)) < 16"
    if "length (root_device a) < 32" "length (root_fstype a) < 16" for t a
    using that by (auto simp: bootargs_token_def min_less_iff_disj)
  with 1 show ?case by (subst (1 2) bootargs_loop.simps) (simp add: Let_def)
qed

lemma join_words_nonzero: "\<forall>w \<in> set ws. boot_word w \<Longrightarrow> 0 \<notin> set (join_words ws)"
  by (induction ws rule: join_words.induct) (auto simp: boot_word_def)

text \<open>
  Boot arguments: a command line of words that fit the token buffer, within the 255 bytes the
  parser looks at, is read back as the words in order, the later of two settings winning; and
  whatever the device tree holds, the device and type names fit their buffers with a terminator,
  and a missing node or property gives \<open>ENOENT\<close> with every field reset.
\<close>

theorem parse_bootargs_correct:
  assumes "\<forall>w \<in> set ws. boot_word w" and "ws \<noteq> []" and "length (join_words ws) \<le> 255" and "0 \<le> chosen"
  shows "parse_bootargs (Some a) chosen (Some (join_words ws)) = (Inr (), Some (fold bootargs_token ws bootargs0)) \<and>
    parse_bootargs (Some a) chosen None = (Inl ENOENT, Some bootargs0) \<and>
    (\<forall>bs b. snd (parse_bootargs (Some a) chosen (Some bs)) = Some b \<longrightarrow>
       length (root_device b) < 32 \<and> length (root_fstype b) < 16)"
proof -
  have ne: "join_words ws \<noteq> []" using assms(1,2) by (cases ws rule: join_words.cases) (auto simp: boot_word_def)
  have "takeWhile (\<lambda>c. c \<noteq> 0) (take 255 (join_words ws)) = join_words ws"
    using join_words_nonzero [OF assms(1)] assms(3) by (auto simp: takeWhile_eq_all_conv)
  with ne assms(1,4) have "parse_bootargs (Some a) chosen (Some (join_words ws)) =
      (Inr (), Some (fold bootargs_token ws bootargs0))"
    by (simp add: parse_bootargs_def bootargs_loop_words)
  moreover have "length (root_device b) < 32 \<and> length (root_fstype b) < 16"
    if "snd (parse_bootargs (Some a) chosen (Some bs)) = Some b" for bs b
    using that assms(4) bootargs_loop_bounds [of bootargs0]
    by (auto simp: parse_bootargs_def bootargs0_def split: if_splits)
  ultimately show ?thesis using assms(4) by (simp add: parse_bootargs_def)
qed

theorem parse_bootargs_witness:
  "parse_bootargs (Some bootargs0) 4 (Some (cstr_of ''console=x root=/dev/vda ro rootfstype=ext4 root=/dev/vdb'')) =
     (Inr (), Some \<lparr>root_device = cstr_of ''/dev/vdb'', root_fstype = cstr_of ''ext4'', root_ro = True\<rparr>)"
proof -
  let ?ws = "[cstr_of ''console=x'', cstr_of ''root=/dev/vda'', cstr_of ''ro'', cstr_of ''rootfstype=ext4'', cstr_of ''root=/dev/vdb'']"
  have "\<forall>w \<in> set ?ws. boot_word w" by (simp add: boot_word_def cstr_of_def)
  moreover have "length (join_words ?ws) \<le> 255" by (simp add: cstr_of_def)
  ultimately show ?thesis
    using parse_bootargs_correct [of ?ws 4 bootargs0]
    by (simp add: cstr_of_def bootargs_token_def has_prefix_def bootargs0_def)
qed

end
