(* ===== verification/Thread.thy ===== *)
theory Thread
  imports Sched Services Vspace
begin

text \<open>
  Threads and the context switch: \<open>kernel/core/thread/thread.c\<close> on top of the run queues, the
  memory management of \<open>Vspace\<close> and the notification bus of \<open>Services\<close>; the wait queues of
  \<open>include/core/wait.h\<close>, the interrupt mask of \<open>include/arch/irqflags.h\<close> and the exception entry
  points of \<open>kernel/core/arch/entry.c\<close>.

  The switch itself (\<open>core/arch/switch.S\<close>) is modelled by where the resumed thread continues: a
  thread that has never run resumes at \<open>ret_to_user\<close>, every other one inside its own earlier
  call of \<open>switch_away\<close>. The subscribers of the bus and the exit notifier are function pointers in
  the code; they are arguments here, and the record of the state is extensible so that later
  theories add the state of the servers.
\<close>

section \<open>State\<close>

datatype resume = Ret_to_user | In_switch_away

record kthread =
  kt_sp :: u64
  kt_lr :: resume
  kt_cap :: cap_t
  kt_env :: switch_envelope
  kt_kstack :: "u64 option"
  kt_name :: cstr

record core_state =
  co_mm :: mm_state
  co_sched :: sched
  co_thread :: "tid \<Rightarrow> kthread"
  co_frame :: "u64 \<Rightarrow> pt_regs"
  co_last_switched :: "tid option"
  co_irq_on :: bool

type_synonym 'x notifiers = "(switch_envelope, 'x core_state_scheme) switch_notify_fn list"
type_synonym 'x exit_fn = "cap_t \<Rightarrow> 'x core_state_scheme \<Rightarrow> 'x core_state_scheme option"

record thread_create_args =
  ta_name :: "cstr option"
  ta_prio :: int
  ta_entry :: u64
  ta_sp :: u64
  ta_vspace_cap :: cap_t
  ta_files_cap :: cap_t
  ta_owner_cap :: cap_t

definition SCHED_PRIO_DEFAULT :: int where "SCHED_PRIO_DEFAULT = 20"
definition sizeof_kthread :: u32 where "sizeof_kthread = 736"
definition sizeof_pt_regs :: u64 where "sizeof_pt_regs = 280"

definition null_env :: switch_envelope where
  "null_env = \<lparr>env_thread_cap = CAP_NULL, env_owner_cap = CAP_NULL, env_files_cap = CAP_NULL,
     env_vspace_cap = CAP_NULL\<rparr>"

definition idle_kthread :: kthread where
  "idle_kthread = \<lparr>kt_sp = 0, kt_lr = In_switch_away, kt_cap = CAP_NULL, kt_env = null_env,
     kt_kstack = None, kt_name = cstr_of ''idle''\<rparr>"

abbreviation co_caps :: "'x core_state_scheme \<Rightarrow> u64 cap_state" where
  "co_caps k \<equiv> mm_caps (co_mm k)"

definition set_caps :: "'x core_state_scheme \<Rightarrow> u64 cap_state \<Rightarrow> 'x core_state_scheme" where
  "set_caps k cs = k\<lparr>co_mm := (co_mm k)\<lparr>mm_caps := cs\<rparr>\<rparr>"

definition lift_mm :: "'x core_state_scheme \<Rightarrow> (mm_state \<Rightarrow> ('a \<times> mm_state) option) \<Rightarrow> ('a \<times> 'x core_state_scheme) option" where
  "lift_mm k f = map_option (\<lambda>(r, m). (r, k\<lparr>co_mm := m\<rparr>)) (f (co_mm k))"

definition lift_mm_proc :: "'x core_state_scheme \<Rightarrow> (mm_state \<Rightarrow> mm_state option) \<Rightarrow> 'x core_state_scheme option" where
  "lift_mm_proc k f = map_option (\<lambda>m. k\<lparr>co_mm := m\<rparr>) (f (co_mm k))"

definition upd_thread :: "'x core_state_scheme \<Rightarrow> tid \<Rightarrow> (kthread \<Rightarrow> kthread) \<Rightarrow> 'x core_state_scheme" where
  "upd_thread k t f = k\<lparr>co_thread := (co_thread k)(t := f (co_thread k t))\<rparr>"

section \<open>The interrupt mask\<close>

definition local_irq_disable :: "'x core_state_scheme \<Rightarrow> 'x core_state_scheme" where
  "local_irq_disable k = k\<lparr>co_irq_on := False\<rparr>"

definition local_irq_enable :: "'x core_state_scheme \<Rightarrow> 'x core_state_scheme" where
  "local_irq_enable k = k\<lparr>co_irq_on := True\<rparr>"

definition local_irq_save :: "'x core_state_scheme \<Rightarrow> bool \<times> 'x core_state_scheme" where
  "local_irq_save k = (co_irq_on k, local_irq_disable k)"

definition local_irq_restore :: "bool \<Rightarrow> 'x core_state_scheme \<Rightarrow> 'x core_state_scheme" where
  "local_irq_restore flags k = k\<lparr>co_irq_on := flags\<rparr>"

section \<open>Lifecycle\<close>

definition thread_free :: "'x core_state_scheme \<Rightarrow> tid \<Rightarrow> 'x core_state_scheme option" where
  "thread_free k t =
     (let k1 = (if kt_cap (co_thread k t) \<noteq> CAP_NULL
                then set_caps k (cap_free (co_caps k) (kt_cap (co_thread k t))) else k) in
      Option.bind (lift_mm_proc k1 (\<lambda>m. kfree_pages m (kt_kstack (co_thread k1 t)))) (\<lambda>k2.
        lift_mm_proc k2 (\<lambda>m. mm_kfree m (Some t))))"

text \<open>\<open>strncpy\<close> of \<open>n\<close> bytes into a zeroed array of more than \<open>n\<close>: the string in the array.\<close>

definition strncpy_field :: "nat \<Rightarrow> cstr \<Rightarrow> cstr" where
  "strncpy_field n s = take n (takeWhile (\<lambda>c. c \<noteq> 0) s)"

definition thread_create :: "'x core_state_scheme \<Rightarrow> thread_create_args \<Rightarrow> (cap_t \<times> 'x core_state_scheme) option" where
  "thread_create k args =
     (case lift_mm k (\<lambda>m. lift_slab m (\<lambda>s. kzalloc s sizeof_kthread)) of
        None \<Rightarrow> None
      | Some (None, k1) \<Rightarrow> Some (CAP_NULL, k1)
      | Some (Some t, k1) \<Rightarrow>
          (case lift_mm k1 (\<lambda>m. kzalloc_pages m (ucast PAGE_SIZE)) of
             None \<Rightarrow> None
           | Some (None, k2) \<Rightarrow> map_option (\<lambda>k3. (CAP_NULL, k3)) (lift_mm_proc k2 (\<lambda>m. mm_kfree m (Some t)))
           | Some (Some stack, k2) \<Rightarrow>
               let (c, cs) = cap_alloc (co_caps k2) (Some t) (CAP_R_CTL OR CAP_R_READ); k3 = set_caps k2 cs in
               if c = CAP_NULL
               then Option.bind (lift_mm_proc k3 (\<lambda>m. kfree_pages m (Some stack))) (\<lambda>k4.
                      map_option (\<lambda>k5. (CAP_NULL, k5)) (lift_mm_proc k4 (\<lambda>m. mm_kfree m (Some t))))
               else
                 let regs = stack + PAGE_SIZE - sizeof_pt_regs;
                     k4 = k3\<lparr>co_frame := (co_frame k3)(regs := \<lparr>pt_x = replicate 31 0, pt_elr = ta_entry args,
                            pt_spsr = 0, pt_esr = 0, pt_sp_el0 = ta_sp args\<rparr>)\<rparr>;
                     k5 = upd_thread k4 t (\<lambda>_. \<lparr>kt_sp = regs, kt_lr = Ret_to_user, kt_cap = c,
                            kt_env = \<lparr>env_thread_cap = c, env_owner_cap = ta_owner_cap args,
                              env_files_cap = ta_files_cap args, env_vspace_cap = ta_vspace_cap args\<rparr>,
                            kt_kstack = Some stack,
                            kt_name = strncpy_field 15 (case ta_name args of Some n \<Rightarrow> n | None \<Rightarrow> cstr_of ''?'')\<rparr>)
                 in Some (c, k5\<lparr>co_sched := sched_entity_init (co_sched k5) t (ta_prio args)\<rparr>)))"

section \<open>The switch\<close>

definition finish_switch :: "'x exit_fn option \<Rightarrow> 'x core_state_scheme \<Rightarrow> tid option \<Rightarrow> 'x core_state_scheme option" where
  "finish_switch ex k prev =
     (case prev of
        None \<Rightarrow> Some k
      | Some p \<Rightarrow>
          if se_state (se_of (co_sched k) p) = SCHED_DEAD
          then
            Option.bind
              (case ex of
                 Some f \<Rightarrow>
                   if env_owner_cap (kt_env (co_thread k p)) \<noteq> CAP_NULL
                   then f (env_owner_cap (kt_env (co_thread k p))) k else Some k
               | None \<Rightarrow> Some k)
              (\<lambda>k1. thread_free k1 p)
          else Some k)"

text \<open>
  \<open>arch_context_switch\<close>: the context of the old thread is saved inside its \<open>switch_away\<close>, the
  switch is published, and the result says where the new thread continues.
\<close>

definition arch_context_switch ::
  "'x notifiers \<Rightarrow> 'x core_state_scheme \<Rightarrow> tid \<Rightarrow> tid \<Rightarrow> resume \<times> 'x core_state_scheme" where
  "arch_context_switch nf k prev nxt =
     (let k1 = upd_thread k prev (\<lambda>t. t\<lparr>kt_lr := In_switch_away\<rparr>);
          k2 = switch_finish nf (Some (kt_env (co_thread k1 prev))) (Some (kt_env (co_thread k1 nxt))) k1
      in (kt_lr (co_thread k2 nxt), k2))"

definition switch_away ::
  "'x notifiers \<Rightarrow> 'x exit_fn option \<Rightarrow> 'x core_state_scheme \<Rightarrow> (resume \<times> 'x core_state_scheme) option" where
  "switch_away nf ex k =
     (case sched_pick_next (co_sched k) of
        None \<Rightarrow> None
      | Some (nxt, s1) \<Rightarrow>
          let prev = current_thread (co_sched k); k1 = k\<lparr>co_sched := s1\<rparr> in
          if Some nxt = prev then Some (In_switch_away, k1)
          else
            (case prev of
               None \<Rightarrow> None
             | Some p \<Rightarrow>
                 let k2 = k1\<lparr>co_last_switched := Some p, co_sched := s1\<lparr>current_thread := Some nxt\<rparr>\<rparr>;
                     (r, k3) = arch_context_switch nf k2 p nxt
                 in case r of
                      Ret_to_user \<Rightarrow> Some (Ret_to_user, k3)
                    | In_switch_away \<Rightarrow>
                        map_option (\<lambda>k4. (In_switch_away, k4)) (finish_switch ex k3 (co_last_switched k3))))"

text \<open>
  \<open>schedule\<close> returns with interrupts enabled in the resumed thread; a fresh thread leaves through
  \<open>ret_to_user\<close> with its saved status word 0, which enables them too.
\<close>

definition schedule ::
  "'x notifiers \<Rightarrow> 'x exit_fn option \<Rightarrow> 'x core_state_scheme \<Rightarrow> 'x core_state_scheme option" where
  "schedule nf ex k =
     map_option (\<lambda>(r, k1). local_irq_enable k1) (switch_away nf ex (local_irq_disable k))"

definition schedule_if_needed ::
  "'x notifiers \<Rightarrow> 'x exit_fn option \<Rightarrow> 'x core_state_scheme \<Rightarrow> 'x core_state_scheme option" where
  "schedule_if_needed nf ex k = (if sched_need_resched (co_sched k) then schedule nf ex k else Some k)"

definition thread_wake :: "'x core_state_scheme \<Rightarrow> cap_t \<Rightarrow> 'x core_state_scheme option" where
  "thread_wake k c =
     (case cap_resolve (co_caps k) c CAP_R_CTL of
        None \<Rightarrow> Some k
      | Some t \<Rightarrow> map_option (\<lambda>s. k\<lparr>co_sched := s\<rparr>) (sched_wake (co_sched k) t))"

definition thread_block_current :: "'x core_state_scheme \<Rightarrow> 'x core_state_scheme" where
  "thread_block_current k = k\<lparr>co_sched := sched_block_current (co_sched k)\<rparr>"

definition thread_replace_current ::
  "'x notifiers \<Rightarrow> 'x exit_fn option \<Rightarrow> 'x core_state_scheme \<Rightarrow> cap_t \<Rightarrow> (resume \<times> 'x core_state_scheme) option" where
  "thread_replace_current nf ex k0 replacement =
     (let k = local_irq_disable k0 in
      Option.bind
        (case (if replacement \<noteq> CAP_NULL then cap_resolve (co_caps k) replacement CAP_R_CTL else None) of
           Some rep \<Rightarrow> map_option (\<lambda>s. k\<lparr>co_sched := s\<rparr>) (sched_enqueue_ready (co_sched k) rep)
         | None \<Rightarrow> Some k)
        (\<lambda>k1. case current_thread (co_sched k1) of
                None \<Rightarrow> None
              | Some c \<Rightarrow> switch_away nf ex (k1\<lparr>co_sched := sched_mark_dead (co_sched k1) c\<rparr>)))"

definition thread_exit_current ::
  "'x notifiers \<Rightarrow> 'x exit_fn option \<Rightarrow> 'x core_state_scheme \<Rightarrow> (resume \<times> 'x core_state_scheme) option" where
  "thread_exit_current nf ex k = thread_replace_current nf ex k CAP_NULL"

definition thread_current_cap :: "'x core_state_scheme \<Rightarrow> cap_t option" where
  "thread_current_cap k = map_option (\<lambda>t. kt_cap (co_thread k t)) (current_thread (co_sched k))"

definition thread_tick :: "'x core_state_scheme \<Rightarrow> 'x core_state_scheme" where
  "thread_tick k =
     (let (flags, k1) = local_irq_save k
      in local_irq_restore flags (k1\<lparr>co_sched := sched_tick (co_sched k1)\<rparr>))"

definition thread_subsys_init :: "'x core_state_scheme \<Rightarrow> tid \<Rightarrow> 'x core_state_scheme option" where
  "thread_subsys_init k idle =
     map_option (\<lambda>s. k\<lparr>co_sched := s, co_thread := (co_thread k)(idle := idle_kthread)\<rparr>)
       (sched_set_idle ((sched_init (co_sched k))\<lparr>current_thread := Some idle\<rparr>) idle)"

section \<open>Wait queues\<close>

text \<open>A wait queue holds the token of its single waiter. \<open>wait_event_step\<close> is one turn of the loop
  of \<open>wait_event\<close> up to the call of \<open>schedule\<close>: \<open>True\<close> says that the wait is over.\<close>

definition wait_event_step :: "('x core_state_scheme \<Rightarrow> bool) \<Rightarrow> 'x core_state_scheme \<Rightarrow> (bool \<times> cap_t \<times> 'x core_state_scheme) option" where
  "wait_event_step cond k0 =
     (let k = local_irq_disable k0 in
      if cond k then Some (True, CAP_NULL, local_irq_enable k)
      else map_option (\<lambda>c. (False, c, thread_block_current k)) (thread_current_cap k))"

definition wake_up :: "cap_t \<Rightarrow> 'x core_state_scheme \<Rightarrow> (cap_t \<times> 'x core_state_scheme) option" where
  "wake_up waiter k =
     (let (flags, k1) = local_irq_save k in
      map_option (\<lambda>k2. (CAP_NULL, local_irq_restore flags k2))
        (if waiter \<noteq> CAP_NULL then thread_wake k1 waiter else Some k1))"

section \<open>Exception entry\<close>

definition esr_ec :: "u64 \<Rightarrow> u64" where
  "esr_ec esr = drop_bit 26 esr AND 0x3f"

text \<open>\<open>el0_sync\<close> returns for a system call only; any other exception stops the machine in an endless
  loop, which is \<open>None\<close>.\<close>

definition el0_sync ::
  "'x notifiers \<Rightarrow> 'x exit_fn option \<Rightarrow> (pt_regs \<Rightarrow> 'x core_state_scheme \<Rightarrow> pt_regs \<times> 'x core_state_scheme) \<Rightarrow>
     pt_regs \<Rightarrow> 'x core_state_scheme \<Rightarrow> (pt_regs \<times> 'x core_state_scheme) option" where
  "el0_sync nf ex syscall regs k =
     (if esr_ec (pt_esr regs) = 0x15
      then let (regs1, k1) = syscall regs k in map_option (\<lambda>k2. (regs1, k2)) (schedule_if_needed nf ex k1)
      else None)"

definition el0_irq ::
  "'x notifiers \<Rightarrow> 'x exit_fn option \<Rightarrow> ('x core_state_scheme \<Rightarrow> 'x core_state_scheme) \<Rightarrow> 'x core_state_scheme \<Rightarrow>
     'x core_state_scheme option" where
  "el0_irq nf ex gic_handle_irq k = schedule_if_needed nf ex (gic_handle_irq k)"

definition el1_irq :: "('x core_state_scheme \<Rightarrow> 'x core_state_scheme) \<Rightarrow> 'x core_state_scheme \<Rightarrow> 'x core_state_scheme" where
  "el1_irq gic_handle_irq k = gic_handle_irq k"

end
