(* ===== verification/Endian.thy ===== *)
theory Endian
  imports Minus_Prelude
begin

text \<open>
  Multi-byte values in byte arrays. AArch64 is little-endian, so the \<open>le*_to_cpu\<close> functions of
  \<open>include/base/endian.h\<close> are identities and a field of an on-disk structure is a little-endian
  read of the bytes at its offset; \<open>get_le\<close> and \<open>put_le\<close> are such accesses, \<open>None\<close> outside the
  array. The \<open>be*_to_cpu\<close> functions swap bytes.
\<close>

section \<open>Little-endian fields\<close>

definition le_nat :: "bytes \<Rightarrow> nat" where
  "le_nat bs = foldr (\<lambda>b acc. unat b + 256 * acc) bs 0"

fun le_bytes :: "nat \<Rightarrow> nat \<Rightarrow> bytes" where
  "le_bytes 0 v = []"
| "le_bytes (Suc n) v = of_nat (v mod 256) # le_bytes n (v div 256)"

definition get_le :: "nat \<Rightarrow> bytes \<Rightarrow> nat \<Rightarrow> 'a::len word option" where
  "get_le n bs off = (if off + n \<le> length bs then Some (of_nat (le_nat (take n (drop off bs)))) else None)"

definition put_bytes :: "bytes \<Rightarrow> nat \<Rightarrow> bytes \<Rightarrow> bytes option" where
  "put_bytes bs off xs =
     (if off + length xs \<le> length bs then Some (take off bs @ xs @ drop (off + length xs) bs) else None)"

definition put_le :: "nat \<Rightarrow> bytes \<Rightarrow> nat \<Rightarrow> 'a::len word \<Rightarrow> bytes option" where
  "put_le n bs off v = put_bytes bs off (le_bytes n (unat v))"

lemma length_le_bytes [simp]: "length (le_bytes n v) = n"
  by (induction n arbitrary: v) auto

lemma le_nat_bytes: "le_nat (le_bytes n v) = v mod 256 ^ n"
proof (induction n arbitrary: v)
  case (Suc n)
  have "v mod 256 ^ Suc n = v mod 256 + 256 * (v div 256 mod 256 ^ n)"
    by (simp add: mod_mult2_eq)
  then show ?case
    using Suc [of "v div 256"] by (simp add: le_nat_def unat_of_nat)
qed (simp add: le_nat_def)

lemma put_bytes_Some:
  "put_bytes bs off xs = Some bs' \<longleftrightarrow>
     off + length xs \<le> length bs \<and> bs' = take off bs @ xs @ drop (off + length xs) bs"
  by (auto simp: put_bytes_def)

lemma length_put_bytes: "put_bytes bs off xs = Some bs' \<Longrightarrow> length bs' = length bs"
  by (auto simp: put_bytes_Some)

lemma take_drop_put_same:
  "put_bytes bs off xs = Some bs' \<Longrightarrow> take (length xs) (drop off bs') = xs"
  by (auto simp: put_bytes_Some)

lemma take_drop_put_other:
  assumes "put_bytes bs off xs = Some bs'" and "o2 + n \<le> off \<or> off + length xs \<le> o2"
  shows "take n (drop o2 bs') = take n (drop o2 bs)"
proof -
  have b: "off + length xs \<le> length bs" "bs' = take off bs @ xs @ drop (off + length xs) bs"
    using assms(1) by (auto simp: put_bytes_Some)
  have "length bs' = length bs" using b by simp
  show ?thesis
  proof (rule nth_equalityI)
    show "length (take n (drop o2 bs')) = length (take n (drop o2 bs))" using \<open>length bs' = length bs\<close> by simp
    fix i assume "i < length (take n (drop o2 bs'))"
    then have i: "i < n" "o2 + i < length bs" using \<open>length bs' = length bs\<close> by auto
    then have "bs' ! (o2 + i) = bs ! (o2 + i)"
      using assms(2) b by (auto simp: nth_append)
    then show "take n (drop o2 bs') ! i = take n (drop o2 bs) ! i" using i \<open>length bs' = length bs\<close> by simp
  qed
qed

lemma get_le_put_same:
  assumes "put_le n bs off (v :: 'a::len word) = Some bs'" and "LENGTH('a) \<le> 8 * n"
  shows "get_le n bs' off = Some v"
proof -
  have p: "put_bytes bs off (le_bytes n (unat v)) = Some bs'" using assms(1) by (simp add: put_le_def)
  have "unat v < 2 ^ LENGTH('a)" by simp
  also have "(2 :: nat) ^ LENGTH('a) \<le> 2 ^ (8 * n)" using assms(2) by (intro power_increasing) auto
  finally have "unat v mod 256 ^ n = unat v" by (simp add: power_mult)
  then show ?thesis
    using take_drop_put_same [OF p] length_put_bytes [OF p] p
    by (auto simp: get_le_def le_nat_bytes put_bytes_Some)
qed

lemma get_le_put_other:
  assumes "put_bytes bs off xs = Some bs'" and "o2 + n \<le> off \<or> off + length xs \<le> o2"
  shows "get_le n bs' o2 = get_le n bs o2"
  using take_drop_put_other [OF assms] length_put_bytes [OF assms(1)] by (simp add: get_le_def)

lemma put_le_bytes: "put_le n bs off v = Some bs' \<Longrightarrow> put_bytes bs off (le_bytes n (unat v)) = Some bs'"
  by (simp add: put_le_def)

lemma length_put_le: "put_le n bs off v = Some bs' \<Longrightarrow> length bs' = length bs"
  by (simp add: put_le_def length_put_bytes)

lemma put_le_defined: "off + n \<le> length bs \<Longrightarrow> \<exists>bs'. put_le n bs off v = Some bs'"
  by (simp add: put_le_def put_bytes_def)

section \<open>Big-endian values\<close>

definition be16_to_cpu :: "u16 \<Rightarrow> u16" where
  "be16_to_cpu x = push_bit 8 (x AND 0xff) OR (drop_bit 8 x AND 0xff)"

definition be32_to_cpu :: "u32 \<Rightarrow> u32" where
  "be32_to_cpu x =
     push_bit 16 (ucast (be16_to_cpu (ucast (x AND 0xffff)))) OR ucast (be16_to_cpu (ucast (drop_bit 16 x)))"

definition be64_to_cpu :: "u64 \<Rightarrow> u64" where
  "be64_to_cpu x =
     push_bit 32 (ucast (be32_to_cpu (ucast (x AND 0xffffffff)))) OR ucast (be32_to_cpu (ucast (drop_bit 32 x)))"

lemma masks: "(0xff :: u16) = mask 8" "(0xffff :: u32) = mask 16" "(0xffffffff :: u64) = mask 32"
  by (simp_all add: mask_eq_exp_minus_1)

text \<open>Bit \<open>n\<close> of the swapped value is the bit at the same place of the mirrored byte.\<close>

lemma be16_bit: "bit (be16_to_cpu x) n \<longleftrightarrow> n < 16 \<and> bit x (if n < 8 then n + 8 else n - 8)"
  by (auto simp: be16_to_cpu_def masks bit_simps add.commute [of 8] dest: bit_imp_le_length)

lemma be32_bit: "bit (be32_to_cpu x) n \<longleftrightarrow> n < 32 \<and> bit x (24 - 8 * (n div 8) + n mod 8)"
proof -
  consider "n < 8" | "8 \<le> n" "n < 16" | "16 \<le> n" "n < 24" | "24 \<le> n" "n < 32" | "32 \<le> n" by linarith
  then show ?thesis
  proof cases
    case 1
    then show ?thesis by (auto simp: be32_to_cpu_def masks bit_simps be16_bit)
  next
    case 2
    then have "n div 8 = 1" "n mod 8 = n - 8" by (simp_all add: mod_nat_eqI div_nat_eqI le_mod_geq)
    with 2 show ?thesis by (auto simp: be32_to_cpu_def masks bit_simps be16_bit)
  next
    case 3
    then have "n div 8 = 2" "n mod 8 = n - 16" by (simp_all add: div_nat_eqI le_mod_geq)
    with 3 show ?thesis by (auto simp: be32_to_cpu_def masks bit_simps be16_bit)
  next
    case 4
    then have "n div 8 = 3" "n mod 8 = n - 24" by (simp_all add: div_nat_eqI le_mod_geq)
    with 4 show ?thesis by (auto simp: be32_to_cpu_def masks bit_simps be16_bit)
  next
    case 5
    then show ?thesis by (auto dest: bit_imp_le_length)
  qed
qed

text \<open>
  \<open>be32_to_cpu\<close> reverses the four bytes: it is its own inverse, and the value whose
  little-endian bytes are \<open>a, b, c, d\<close> becomes the one whose bytes are \<open>d, c, b, a\<close>, which is how a
  big-endian cell of the device tree is read.
\<close>

theorem be32_to_cpu_correct:
  "be32_to_cpu (be32_to_cpu x) = x \<and>
   be32_to_cpu (of_nat (le_nat [a, b, c, d])) = of_nat (le_nat [d, c, b, a])"
proof
  have "24 - 8 * ((24 - 8 * (n div 8) + n mod 8) div 8) + (24 - 8 * (n div 8) + n mod 8) mod 8 = n"
    if "n < 32" for n :: nat
  proof -
    have "n div 8 \<le> 3" using that by simp
    then have "24 - 8 * (n div 8) + n mod 8 = 8 * (3 - n div 8) + n mod 8" by simp
    moreover have "(8 * (3 - n div 8) + n mod 8) div 8 = 3 - n div 8"
      "(8 * (3 - n div 8) + n mod 8) mod 8 = n mod 8" by simp_all
    ultimately show ?thesis using \<open>n div 8 \<le> 3\<close> by (simp add: diff_mult_distrib2)
  qed
  then show "be32_to_cpu (be32_to_cpu x) = x"
    by (intro bit_eqI) (auto simp: be32_bit dest: bit_imp_le_length)
  have w: "of_nat (le_nat [a, b, c, d]) = (ucast a OR push_bit 8 (ucast b) OR push_bit 16 (ucast c) OR push_bit 24 (ucast d) :: u32)"
    for a b c d :: u8
  proof -
    have "ucast a + 256 * (ucast b + 256 * (ucast c + 256 * ucast d)) =
        (ucast a + push_bit 8 (ucast b) + push_bit 16 (ucast c) + push_bit 24 (ucast d) :: u32)"
      by (simp add: push_bit_eq_mult algebra_simps)
    also have "\<dots> = (ucast a OR push_bit 8 (ucast b) OR push_bit 16 (ucast c) OR push_bit 24 (ucast d))"
      by ((subst disjunctive_add, auto simp: bit_simps dest: bit_imp_le_length)+) (simp add: or.assoc)
    finally show ?thesis by (simp add: le_nat_def)
  qed
  show "be32_to_cpu (of_nat (le_nat [a, b, c, d])) = of_nat (le_nat [d, c, b, a])"
  proof (rule bit_word_eqI)
    fix n :: nat
    assume "n < LENGTH(32)"
    then consider "n < 8" | "8 \<le> n" "n < 16" | "16 \<le> n" "n < 24" | "24 \<le> n" "n < 32" by force
    then show "bit (be32_to_cpu (of_nat (le_nat [a, b, c, d]))) n = bit (of_nat (le_nat [d, c, b, a]) :: u32) n"
    proof cases
      case 1
      then show ?thesis by (auto simp: w be32_bit bit_simps dest: bit_imp_le_length)
    next
      case 2
      then have "n div 8 = 1" "n mod 8 = n - 8" by (simp_all add: div_nat_eqI le_mod_geq)
      with 2 show ?thesis by (auto simp: w be32_bit bit_simps dest: bit_imp_le_length)
    next
      case 3
      then have "n div 8 = 2" "n mod 8 = n - 16" by (simp_all add: div_nat_eqI le_mod_geq)
      with 3 show ?thesis by (auto simp: w be32_bit bit_simps dest: bit_imp_le_length)
    next
      case 4
      then have "n div 8 = 3" "n mod 8 = n - 24" by (simp_all add: div_nat_eqI le_mod_geq)
      with 4 show ?thesis by (auto simp: w be32_bit bit_simps dest: bit_imp_le_length)
    qed
  qed
qed

end
