(* ===== verification/Process.thy ===== *)
theory Process
  imports Thread Endian
begin

text \<open>
  The process server: the program loader (\<open>kernel/proc/loader.c\<close>, \<open>elf.h\<close>), process objects
  (\<open>process.c\<close>), image activation (\<open>proc_execve.c\<close>) and its system calls
  (\<open>sysif/sysif_proc.c\<close>). The file system is reached only through its service table, as in the
  code: \<open>fs_service\<close> is a record of functions and an argument of the operations that call it.
\<close>

section \<open>The file system service table\<close>

record 'k fs_service =
  fss_files_create :: "'k \<Rightarrow> (cap_t \<times> 'k) option"
  fss_files_destroy :: "cap_t \<Rightarrow> 'k \<Rightarrow> 'k option"
  fss_setup_std_fds :: "cap_t \<Rightarrow> 'k \<Rightarrow> ((errno + unit) \<times> 'k) option"
  fss_mount_root :: "cstr \<Rightarrow> cstr \<Rightarrow> 'k \<Rightarrow> ((errno + unit) \<times> 'k) option"
  fss_load_file :: "cstr \<Rightarrow> 'k \<Rightarrow> ((errno + u64 \<times> u32) \<times> 'k) option"

section \<open>The loader\<close>

definition bytes_at :: "mm_state \<Rightarrow> u64 \<Rightarrow> nat \<Rightarrow> bytes" where
  "bytes_at m a n = map (\<lambda>i. mm_bytes m (a + of_nat i)) [0 ..< n]"

definition rd_le :: "mm_state \<Rightarrow> u64 \<Rightarrow> nat \<Rightarrow> 'a::len word" where
  "rd_le m a n = of_nat (le_nat (bytes_at m a n))"

record elf64_ehdr =
  e_ident :: bytes
  e_type :: u16
  e_machine :: u16
  e_version :: u32
  e_entry :: u64
  e_phoff :: u64
  e_phentsize :: u16
  e_phnum :: u16

record elf64_phdr =
  p_type :: u32
  p_flags :: u32
  p_offset :: u64
  p_vaddr :: u64
  p_filesz :: u64
  p_memsz :: u64

definition rd_ehdr :: "mm_state \<Rightarrow> u64 \<Rightarrow> elf64_ehdr" where
  "rd_ehdr m a = \<lparr>e_ident = bytes_at m a 16, e_type = rd_le m (a + 16) 2, e_machine = rd_le m (a + 18) 2,
     e_version = rd_le m (a + 20) 4, e_entry = rd_le m (a + 24) 8, e_phoff = rd_le m (a + 32) 8,
     e_phentsize = rd_le m (a + 54) 2, e_phnum = rd_le m (a + 56) 2\<rparr>"

definition rd_phdr :: "mm_state \<Rightarrow> u64 \<Rightarrow> elf64_phdr" where
  "rd_phdr m a = \<lparr>p_type = rd_le m a 4, p_flags = rd_le m (a + 4) 4, p_offset = rd_le m (a + 8) 8,
     p_vaddr = rd_le m (a + 16) 8, p_filesz = rd_le m (a + 32) 8, p_memsz = rd_le m (a + 40) 8\<rparr>"

definition sizeof_ehdr :: u64 where "sizeof_ehdr = 64"
definition sizeof_phdr :: u64 where "sizeof_phdr = 56"
definition USER_STACK_TOP :: u64 where "USER_STACK_TOP = 0x80000000"
definition ELFMAG :: bytes where "ELFMAG = [0x7f, 0x45, 0x4c, 0x46]"
definition ET_EXEC :: u16 where "ET_EXEC = 2"
definition EM_AARCH64 :: u16 where "EM_AARCH64 = 183"
definition PT_LOAD :: u32 where "PT_LOAD = 1"
definition PF_X :: u32 where "PF_X = 1"
definition PF_W :: u32 where "PF_W = 2"

lemmas elf_consts = sizeof_ehdr_def sizeof_phdr_def USER_STACK_TOP_def ELFMAG_def ET_EXEC_def
  EM_AARCH64_def PT_LOAD_def PF_X_def PF_W_def

definition seg_flags :: "elf64_phdr \<Rightarrow> u32" where
  "seg_flags ph =
     (let f = VM_READ; f1 = (if p_flags ph AND PF_W \<noteq> 0 then f OR VM_WRITE else f)
      in if p_flags ph AND PF_X \<noteq> 0 then f1 OR VM_EXEC else f1)"

text \<open>One page of a segment: map it, then copy the part of the file that falls into it.\<close>

definition load_page :: "mm_state \<Rightarrow> cap_t \<Rightarrow> elf64_phdr \<Rightarrow> u64 \<Rightarrow> u64 \<Rightarrow> (bool \<times> mm_state) option" where
  "load_page m c ph elf_buf uva =
     (case mm_vspace_map_page m c uva (seg_flags ph) of
        None \<Rightarrow> None
      | Some (Inl _, m1) \<Rightarrow> Some (False, m1)
      | Some (Inr kva, m1) \<Rightarrow>
          let seg_file_start = p_vaddr ph; seg_file_end = p_vaddr ph + p_filesz ph;
              copy_start = (if uva > seg_file_start then uva else seg_file_start);
              copy_end = (if uva + PAGE_SIZE < seg_file_end then uva + PAGE_SIZE else seg_file_end)
          in if copy_end > copy_start
             then
               let dst_off = ucast (copy_start - uva) :: u32;
                   src_off = ucast (copy_start - seg_file_start + p_offset ph) :: u32;
                   len = ucast (copy_end - copy_start) :: u32
               in Some (True, write_bytes m1 (kva + ucast dst_off) (bytes_at m1 (elf_buf + ucast src_off) (unat len)))
             else Some (True, m1))"

fun load_pages :: "mm_state \<Rightarrow> cap_t \<Rightarrow> elf64_phdr \<Rightarrow> u64 \<Rightarrow> u64 list \<Rightarrow> ((errno + unit) \<times> mm_state) option" where
  "load_pages m c ph elf_buf [] = Some (Inr (), m)"
| "load_pages m c ph elf_buf (uva # uvas) =
     (case load_page m c ph elf_buf uva of
        None \<Rightarrow> None
      | Some (False, m1) \<Rightarrow> Some (Inl ENOMEM, m1)
      | Some (True, m1) \<Rightarrow> load_pages m1 c ph elf_buf uvas)"

text \<open>The page addresses the loop of \<open>load_segment\<close> visits; its bounds are page aligned and below
  the stack top, so the counter does not wrap.\<close>

definition seg_pages :: "u64 \<Rightarrow> u64 \<Rightarrow> u64 list" where
  "seg_pages vstart vend = map (\<lambda>i. vstart + of_nat i * PAGE_SIZE) [0 ..< (unat vend - unat vstart) div 4096]"

definition load_segment :: "mm_state \<Rightarrow> cap_t \<Rightarrow> elf64_phdr \<Rightarrow> u64 \<Rightarrow> u32 \<Rightarrow> ((errno + unit) \<times> mm_state) option" where
  "load_segment m c ph elf_buf elf_size =
     (let vstart = ALIGN_DOWN (p_vaddr ph) PAGE_SIZE; vend = ALIGN_UP (p_vaddr ph + p_memsz ph) PAGE_SIZE in
      if p_filesz ph > p_memsz ph then Some (Inl ENOEXEC, m)
      else if p_offset ph + p_filesz ph < p_offset ph \<or> p_offset ph + p_filesz ph > ucast elf_size
      then Some (Inl ENOEXEC, m)
      else if vend < vstart \<or> vend > USER_STACK_TOP then Some (Inl ENOEXEC, m)
      else load_pages m c ph elf_buf (seg_pages vstart vend))"

definition alloc_user_stack :: "mm_state \<Rightarrow> cap_t \<Rightarrow> ((errno + u64) \<times> mm_state) option" where
  "alloc_user_stack m c = mm_vspace_map_page m c (USER_STACK_TOP - PAGE_SIZE) (VM_READ OR VM_WRITE)"

definition verify_elf :: "elf64_ehdr \<Rightarrow> u32 \<Rightarrow> errno + unit" where
  "verify_elf ehdr elf_size =
     (if take 4 (e_ident ehdr) \<noteq> ELFMAG then Inl ENOEXEC
      else if e_ident ehdr ! 4 \<noteq> 2 \<or> e_ident ehdr ! 5 \<noteq> 1 \<or> e_ident ehdr ! 6 \<noteq> 1 then Inl ENOEXEC
      else if e_type ehdr \<noteq> ET_EXEC \<or> e_machine ehdr \<noteq> EM_AARCH64 then Inl ENOEXEC
      else if e_phentsize ehdr \<noteq> ucast sizeof_phdr then Inl ENOEXEC
      else if e_phnum ehdr = 0 \<or> e_phnum ehdr > 128 then Inl ENOEXEC
      else if e_phoff ehdr < sizeof_ehdr \<or>
        e_phoff ehdr + ucast (e_phnum ehdr) * sizeof_phdr < e_phoff ehdr \<or>
        e_phoff ehdr + ucast (e_phnum ehdr) * sizeof_phdr > ucast elf_size then Inl ENOEXEC
      else Inr ())"

text \<open>The program header table is read from the buffer as the loop reaches each entry.\<close>

fun load_segments :: "mm_state \<Rightarrow> cap_t \<Rightarrow> u64 \<Rightarrow> u64 \<Rightarrow> u32 \<Rightarrow> nat list \<Rightarrow> ((errno + unit) \<times> mm_state) option" where
  "load_segments m c phdrs elf_buf elf_size [] = Some (Inr (), m)"
| "load_segments m c phdrs elf_buf elf_size (i # is) =
     (let ph = rd_phdr m (phdrs + of_nat i * sizeof_phdr) in
      if p_type ph = PT_LOAD
      then (case load_segment m c ph elf_buf elf_size of
              None \<Rightarrow> None
            | Some (Inl e, m1) \<Rightarrow> Some (Inl e, m1)
            | Some (Inr _, m1) \<Rightarrow> load_segments m1 c phdrs elf_buf elf_size is)
      else load_segments m c phdrs elf_buf elf_size is)"

definition proc_load_elf ::
  "'x core_state_scheme fs_service \<Rightarrow> 'x core_state_scheme \<Rightarrow> cstr option \<Rightarrow> cap_t \<Rightarrow>
     ((errno + u64 \<times> u64) \<times> 'x core_state_scheme) option" where
  "proc_load_elf fs k path c =
     (case path of
        None \<Rightarrow> Some (Inl EINVAL, k)
      | Some p \<Rightarrow>
          if c = CAP_NULL then Some (Inl EINVAL, k)
          else
            (case fss_load_file fs p k of
               None \<Rightarrow> None
             | Some (Inl e, k1) \<Rightarrow> Some (Inl e, k1)
             | Some (Inr (elf_buf, elf_size), k1) \<Rightarrow>
                 let ehdr = rd_ehdr (co_mm k1) elf_buf;
                     done = (\<lambda>r k. map_option (\<lambda>k2. (r, k2)) (lift_mm_proc k (\<lambda>m. mm_kfree m (Some elf_buf)))) in
                 (case verify_elf ehdr elf_size of
                    Inl e \<Rightarrow> done (Inl e) k1
                  | Inr _ \<Rightarrow>
                      (case lift_mm k1 (\<lambda>m. load_segments m c (elf_buf + e_phoff ehdr) elf_buf elf_size
                                              [0 ..< unat (e_phnum ehdr)]) of
                         None \<Rightarrow> None
                       | Some (Inl e, k2) \<Rightarrow> done (Inl e) k2
                       | Some (Inr _, k2) \<Rightarrow>
                           (case lift_mm k2 (\<lambda>m. alloc_user_stack m c) of
                              None \<Rightarrow> None
                            | Some (Inl _, k3) \<Rightarrow> done (Inl ENOMEM) k3
                            | Some (Inr _, k3) \<Rightarrow> done (Inr (e_entry ehdr, USER_STACK_TOP)) k3)))))"

section \<open>Processes\<close>

record process =
  pr_pid :: int
  pr_name :: cstr
  pr_self :: cap_t
  pr_thread :: cap_t
  pr_vspace :: cap_t
  pr_files :: cap_t

record proc_state = core_state +
  pr_of :: "u64 \<Rightarrow> process"
  current_process :: "u64 option"
  next_pid :: int

definition sizeof_process :: u32 where "sizeof_process = 72"

definition upd_process :: "'x proc_state_scheme \<Rightarrow> u64 \<Rightarrow> (process \<Rightarrow> process) \<Rightarrow> 'x proc_state_scheme" where
  "upd_process k p f = k\<lparr>pr_of := (pr_of k)(p := f (pr_of k p))\<rparr>"

definition process_from_cap :: "'x proc_state_scheme \<Rightarrow> cap_t \<Rightarrow> u64 option" where
  "process_from_cap k owner = (if owner = CAP_NULL then None else cap_resolve (co_caps k) owner CAP_R_READ)"

definition proc_switch_notify ::
  "switch_envelope option \<Rightarrow> switch_envelope option \<Rightarrow> 'x proc_state_scheme \<Rightarrow> 'x proc_state_scheme" where
  "proc_switch_notify prev nxt k =
     k\<lparr>current_process := process_from_cap k (case nxt of Some e \<Rightarrow> env_owner_cap e | None \<Rightarrow> CAP_NULL)\<rparr>"

definition proc_current_process :: "'x proc_state_scheme \<Rightarrow> u64 option" where
  "proc_current_process k = current_process k"

definition process_alloc :: "'x proc_state_scheme \<Rightarrow> cstr option \<Rightarrow> ((errno + u64) \<times> 'x proc_state_scheme) option" where
  "process_alloc k name =
     (case lift_mm k (\<lambda>m. lift_slab m (\<lambda>s. kzalloc s sizeof_process)) of
        None \<Rightarrow> None
      | Some (None, k1) \<Rightarrow> Some (Inl ENOMEM, k1)
      | Some (Some p, k1) \<Rightarrow>
          let (c, cs) = cap_alloc (co_caps k1) (Some p) (CAP_R_CTL OR CAP_R_READ); k2 = set_caps k1 cs in
          if c = CAP_NULL
          then map_option (\<lambda>k3. (Inl ENOMEM, k3)) (lift_mm_proc k2 (\<lambda>m. mm_kfree m (Some p)))
          else
            let k3 = upd_process k2 p (\<lambda>_. \<lparr>pr_pid = next_pid k2,
                       pr_name = strncpy_field 31 (case name of Some n \<Rightarrow> n | None \<Rightarrow> cstr_of ''?''),
                       pr_self = c, pr_thread = CAP_NULL, pr_vspace = CAP_NULL, pr_files = CAP_NULL\<rparr>)
            in Some (Inr p, k3\<lparr>next_pid := next_pid k3 + 1\<rparr>))"

definition process_free ::
  "'x proc_state_scheme fs_service \<Rightarrow> 'x proc_state_scheme \<Rightarrow> u64 option \<Rightarrow> 'x proc_state_scheme option" where
  "process_free fs k proc =
     (case proc of
        None \<Rightarrow> Some k
      | Some p \<Rightarrow>
          Option.bind (if pr_files (pr_of k p) \<noteq> CAP_NULL
                       then fss_files_destroy fs (pr_files (pr_of k p)) k else Some k) (\<lambda>k1.
          Option.bind (if pr_vspace (pr_of k1 p) \<noteq> CAP_NULL
                       then lift_mm_proc k1 (\<lambda>m. mm_vspace_destroy m (pr_vspace (pr_of k1 p))) else Some k1) (\<lambda>k2.
          let k3 = (if pr_self (pr_of k2 p) \<noteq> CAP_NULL
                    then set_caps k2 (cap_free (co_caps k2) (pr_self (pr_of k2 p))) else k2)
          in lift_mm_proc k3 (\<lambda>m. mm_kfree m (Some p)))))"

definition proc_thread_exit ::
  "'x proc_state_scheme fs_service \<Rightarrow> cap_t \<Rightarrow> 'x proc_state_scheme \<Rightarrow> 'x proc_state_scheme option" where
  "proc_thread_exit fs owner k = process_free fs k (process_from_cap k owner)"

section \<open>Image activation\<close>

definition proc_setup_process ::
  "'x proc_state_scheme fs_service \<Rightarrow> 'x proc_state_scheme \<Rightarrow> u64 \<Rightarrow> cstr option \<Rightarrow>
     ((errno + u64 \<times> u64) \<times> 'x proc_state_scheme) option" where
  "proc_setup_process fs k p filename =
     (if filename = None then Some (Inl EINVAL, k)
      else
        (case lift_mm k mm_vspace_create of
           None \<Rightarrow> None
         | Some (vs, k0) \<Rightarrow>
             let k1 = upd_process k0 p (\<lambda>r. r\<lparr>pr_vspace := vs\<rparr>) in
             if vs = CAP_NULL then Some (Inl ENOMEM, k1)
             else
               (case fss_files_create fs k1 of
                  None \<Rightarrow> None
                | Some (files, k2) \<Rightarrow>
                    let k3 = upd_process k2 p (\<lambda>r. r\<lparr>pr_files := files\<rparr>) in
                    if files = CAP_NULL
                    then map_option (\<lambda>k4. (Inl ENOMEM, upd_process k4 p (\<lambda>r. r\<lparr>pr_vspace := CAP_NULL\<rparr>)))
                           (lift_mm_proc k3 (\<lambda>m. mm_vspace_destroy m vs))
                    else
                      (case proc_load_elf fs k3 filename vs of
                         None \<Rightarrow> None
                       | Some (Inl e, k4) \<Rightarrow> Some (Inl e, k4)
                       | Some (Inr im, k4) \<Rightarrow>
                           (case fss_setup_std_fds fs files k4 of
                              None \<Rightarrow> None
                            | Some (Inl e, k5) \<Rightarrow> Some (Inl e, k5)
                            | Some (Inr _, k5) \<Rightarrow> Some (Inr im, k5))))))"

definition process_start_thread ::
  "'x proc_state_scheme \<Rightarrow> u64 \<Rightarrow> u64 \<Rightarrow> u64 \<Rightarrow> ((errno + unit) \<times> 'x proc_state_scheme) option" where
  "process_start_thread k p entry usp =
     (let r = pr_of k p in
      case thread_create k \<lparr>ta_name = Some (pr_name r), ta_prio = SCHED_PRIO_DEFAULT, ta_entry = entry,
             ta_sp = usp, ta_vspace_cap = pr_vspace r, ta_files_cap = pr_files r, ta_owner_cap = pr_self r\<rparr> of
        None \<Rightarrow> None
      | Some (c, k1) \<Rightarrow>
          let k2 = upd_process k1 p (\<lambda>r. r\<lparr>pr_thread := c\<rparr>) in
          if c = CAP_NULL then Some (Inl ENOMEM, k2)
          else map_option (\<lambda>k3. (Inr (), k3)) (thread_wake k2 c))"

definition proc_spawn ::
  "'x proc_state_scheme fs_service \<Rightarrow> 'x proc_state_scheme \<Rightarrow> cstr option \<Rightarrow>
     ((errno + unit) \<times> 'x proc_state_scheme) option" where
  "proc_spawn fs k filename =
     (case process_alloc k filename of
        None \<Rightarrow> None
      | Some (Inl e, k1) \<Rightarrow> Some (Inl e, k1)
      | Some (Inr p, k1) \<Rightarrow>
          let failed = (\<lambda>e k. map_option (\<lambda>k'. (Inl e, k')) (process_free fs k (Some p))) in
          (case proc_setup_process fs k1 p filename of
             None \<Rightarrow> None
           | Some (Inl e, k2) \<Rightarrow> failed e k2
           | Some (Inr (entry, usp), k2) \<Rightarrow>
               (case process_start_thread k2 p entry usp of
                  None \<Rightarrow> None
                | Some (Inl e, k3) \<Rightarrow> failed e k3
                | Some (Inr _, k3) \<Rightarrow> Some (Inr (), k3))))"

text \<open>\<open>execve\<close> comes back with an error only when the new image could not be built; otherwise the
  result is the state in which the next thread continues.\<close>

definition proc_execve ::
  "'x proc_state_scheme fs_service \<Rightarrow> (switch_envelope, 'x proc_state_scheme) switch_notify_fn list \<Rightarrow>
     (cap_t \<Rightarrow> 'x proc_state_scheme \<Rightarrow> 'x proc_state_scheme option) option \<Rightarrow> 'x proc_state_scheme \<Rightarrow> cstr option \<Rightarrow>
     ((errno + resume) \<times> 'x proc_state_scheme) option" where
  "proc_execve fs nf ex k filename =
     (let old = proc_current_process k in
      case process_alloc k filename of
        None \<Rightarrow> None
      | Some (Inl e, k1) \<Rightarrow> Some (Inl e, k1)
      | Some (Inr new, k1) \<Rightarrow>
          let failed = (\<lambda>e k. map_option (\<lambda>k'. (Inl e, k')) (process_free fs k (Some new))) in
          (case proc_setup_process fs k1 new filename of
             None \<Rightarrow> None
           | Some (Inl e, k2) \<Rightarrow> failed e k2
           | Some (Inr (entry, usp), k2) \<Rightarrow>
               let k3 = upd_process k2 new (\<lambda>r. r\<lparr>pr_pid := (case old of Some o' \<Rightarrow> pr_pid (pr_of k2 o') | None \<Rightarrow> pr_pid r)\<rparr>) in
               (case process_start_thread k3 new entry usp of
                  None \<Rightarrow> None
                | Some (Inl e, k4) \<Rightarrow> failed e k4
                | Some (Inr _, k4) \<Rightarrow>
                    map_option (\<lambda>(r, k5). (Inr r, k5)) (thread_replace_current nf ex k4 (pr_thread (pr_of k4 new))))))"

section \<open>System calls\<close>

definition sys_execve where
  "sys_execve fs nf ex k filename =
     (case strncpy_from_user (co_mm k) filename 256 of
        None \<Rightarrow> None
      | Some (ret, path) \<Rightarrow>
          if ret \<noteq> 0 then Some (Inl EFAULT, k)
          else proc_execve fs nf ex k (Some (takeWhile (\<lambda>c. c \<noteq> 0) (take 255 path))))"

definition sys_getpid :: "'x proc_state_scheme \<Rightarrow> int" where
  "sys_getpid k = (case proc_current_process k of Some p \<Rightarrow> pr_pid (pr_of k p) | None \<Rightarrow> 0)"

definition sys_exit ::
  "'x notifiers \<Rightarrow> 'x exit_fn option \<Rightarrow> 'x core_state_scheme \<Rightarrow> (resume \<times> 'x core_state_scheme) option" where
  "sys_exit nf ex k = thread_exit_current nf ex k"

definition sys_yield ::
  "'x notifiers \<Rightarrow> 'x exit_fn option \<Rightarrow> 'x core_state_scheme \<Rightarrow> (u64 \<times> 'x core_state_scheme) option" where
  "sys_yield nf ex k = map_option (\<lambda>k1. (0, k1)) (schedule nf ex k)"

end
