(* ===== verification/Block.thy ===== *)
theory Block
  imports Vspace Services Rbtree "HOL-Library.Monad_Syntax" "HOL-Library.Product_Lexorder"
begin

text \<open>
  Block devices (\<open>kernel/driver/block/blk-core.c\<close>, \<open>include/driver/blkdev.h\<close>) and the buffer cache
  (\<open>kernel/fs/backend/bcache/bcache.c\<close>, \<open>sbread.h\<close>). The operation tables of the drivers are
  arguments: \<open>ops\<close> maps the address of a table to the functions in it. The device list and the list
  of buffers are kept in list order; the cache tree is the pointer tree of \<open>Rbtree\<close>. A buffer head
  is named by its device and block number, which are set when it is allocated and never change, and
  carries its data bytes. \<open>None\<close> is undefined behaviour.
\<close>

section \<open>Block devices\<close>

record block_device =
  bd_dev :: u32
  bd_block_size :: u32
  bd_block_size_bits :: u8
  bd_ops :: "u64 option"
  bd_ref_count :: int
  bd_private :: "u64 option"
  bd_start_lba :: u64
  bd_nr_blocks :: u64

record buffer_head =
  b_self :: u64
  b_blocknr :: u64
  b_size :: u32
  b_ref_count :: int
  b_dirty :: bool
  b_addr :: u64
  b_data :: bytes
  b_bdev :: u64

type_synonym bkey = "u64 \<times> u64"

record 'd blk_state =
  bk_mm :: mm_state
  g_blkdevs :: "nat \<Rightarrow> u64 option"
  g_bdev_list :: "u64 list"
  bk_bdev :: "u64 \<Rightarrow> block_device"
  bk_bufs :: "bkey \<Rightarrow> buffer_head option"
  g_bcache_tree :: "bkey rb_tree"
  g_bcache_lru :: "bkey list"
  bk_hw :: 'd

text \<open>The direction of a request is the block data to write, or \<open>None\<close> for a read.\<close>

record 'd block_device_operations =
  bo_open :: "(u64 \<Rightarrow> 'd blk_state \<Rightarrow> (int \<times> 'd blk_state) option) option"
  bo_release :: "(u64 \<Rightarrow> 'd blk_state \<Rightarrow> 'd blk_state option) option"
  bo_request :: "(u64 \<Rightarrow> u64 \<Rightarrow> u32 \<Rightarrow> bytes option \<Rightarrow> 'd \<Rightarrow> (errno + bytes) \<times> 'd) option"

type_synonym 'd ops_table = "u64 \<Rightarrow> 'd block_device_operations"

definition MAX_BLKDEVS :: nat where "MAX_BLKDEVS = 256"
definition VIRTBLK_MAJOR :: u32 where "VIRTBLK_MAJOR = 8"
definition MMCBLK_MAJOR :: u32 where "MMCBLK_MAJOR = 179"
definition MMC_PARTS_PER_DEV :: u32 where "MMC_PARTS_PER_DEV = 8"
definition sizeof_block_device :: u32 where "sizeof_block_device = 72"
definition sizeof_buffer_head :: u32 where "sizeof_buffer_head = 88"

definition MAJOR :: "u32 \<Rightarrow> u32" where "MAJOR dev = drop_bit 20 dev"
definition MINOR :: "u32 \<Rightarrow> u32" where "MINOR dev = dev AND 0xfffff"
definition MKDEV :: "u32 \<Rightarrow> u32 \<Rightarrow> u32" where "MKDEV maj mnr = push_bit 20 maj OR mnr"
definition MMC_PART_MINOR :: "u32 \<Rightarrow> u32 \<Rightarrow> u32" where
  "MMC_PART_MINOR devno partno = devno * MMC_PARTS_PER_DEV + partno"

definition upd_bdev :: "'d blk_state \<Rightarrow> u64 \<Rightarrow> (block_device \<Rightarrow> block_device) \<Rightarrow> 'd blk_state" where
  "upd_bdev s b f = s\<lparr>bk_bdev := (bk_bdev s)(b := f (bk_bdev s b))\<rparr>"

definition blkdev_init :: "'d blk_state \<Rightarrow> 'd blk_state" where
  "blkdev_init s = s\<lparr>g_bdev_list := []\<rparr>"

definition blkdev_major_to_index :: "u32 \<Rightarrow> errno + nat" where
  "blkdev_major_to_index major = (if major = 0 \<or> MAX_BLKDEVS \<le> unat major then Inl EINVAL else Inr (unat major))"

definition register_blkdev :: "'d blk_state \<Rightarrow> u32 \<Rightarrow> u64 option \<Rightarrow> (errno + unit) \<times> 'd blk_state" where
  "register_blkdev s major ops =
     (case blkdev_major_to_index major of
        Inl e \<Rightarrow> (Inl e, s)
      | Inr idx \<Rightarrow>
          if g_blkdevs s idx \<noteq> None then (Inl EEXIST, s)
          else (Inr (), s\<lparr>g_blkdevs := (g_blkdevs s)(idx := ops), g_bdev_list := []\<rparr>))"

definition unregister_blkdev :: "'d blk_state \<Rightarrow> u32 \<Rightarrow> (errno + unit) \<times> 'd blk_state" where
  "unregister_blkdev s major =
     (case blkdev_major_to_index major of
        Inl e \<Rightarrow> (Inl e, s)
      | Inr idx \<Rightarrow> (Inr (), s\<lparr>g_blkdevs := (g_blkdevs s)(idx := None)\<rparr>))"

definition add_block_device :: "'d ops_table \<Rightarrow> 'd blk_state \<Rightarrow> u64 option \<Rightarrow> (int \<times> 'd blk_state) option" where
  "add_block_device ops s bdev =
     (case bdev of
        None \<Rightarrow> Some (- errno_val EINVAL, s)
      | Some b \<Rightarrow>
          (case blkdev_major_to_index (MAJOR (bd_dev (bk_bdev s b))) of
             Inl e \<Rightarrow> Some (- errno_val e, s)
           | Inr idx \<Rightarrow>
               (case g_blkdevs s idx of
                  None \<Rightarrow> Some (- errno_val ENODEV, s)
                | Some t \<Rightarrow>
                    let s1 = (upd_bdev s b (\<lambda>d. d\<lparr>bd_ops := Some t, bd_ref_count := 1\<rparr>))\<lparr>g_bdev_list := b # g_bdev_list s\<rparr> in
                    (case bo_open (ops t) of
                       None \<Rightarrow> Some (0, s1)
                     | Some f \<Rightarrow> f b s1))))"

fun find_bdev :: "'d blk_state \<Rightarrow> u64 list \<Rightarrow> u32 \<Rightarrow> u64 option" where
  "find_bdev s [] dev = None"
| "find_bdev s (b # bs) dev = (if bd_dev (bk_bdev s b) = dev then Some b else find_bdev s bs dev)"

definition bdev_get_by_dev :: "'d ops_table \<Rightarrow> 'd blk_state \<Rightarrow> u32 \<Rightarrow> (u64 option \<times> 'd blk_state) option" where
  "bdev_get_by_dev ops s dev =
     (case find_bdev s (g_bdev_list s) dev of
        Some b \<Rightarrow> Some (Some b, upd_bdev s b (\<lambda>d. d\<lparr>bd_ref_count := bd_ref_count d + 1\<rparr>))
      | None \<Rightarrow>
          (case blkdev_major_to_index (MAJOR dev) of
             Inl _ \<Rightarrow> Some (None, s)
           | Inr idx \<Rightarrow>
               (case g_blkdevs s idx of
                  None \<Rightarrow> Some (None, s)
                | Some t \<Rightarrow>
                    (case bo_open (ops t) of
                       None \<Rightarrow> Some (None, s)
                     | Some op \<Rightarrow> do {
                         (p, m) \<leftarrow> lift_slab (bk_mm s) (\<lambda>x. kmalloc x sizeof_block_device);
                         let s1 = s\<lparr>bk_mm := m\<rparr>;
                         (case p of
                            None \<Rightarrow> Some (None, s1)
                          | Some b \<Rightarrow> do {
                              (ret, s3) \<leftarrow> op b (upd_bdev s1 b (\<lambda>_. \<lparr>bd_dev = dev, bd_block_size = 512,
                                 bd_block_size_bits = 9, bd_ops = Some t, bd_ref_count = 1,
                                 bd_private = None, bd_start_lba = 0, bd_nr_blocks = 0\<rparr>));
                              (if ret \<noteq> 0
                               then do { m' \<leftarrow> mm_kfree (bk_mm s3) (Some b); Some (None, s3\<lparr>bk_mm := m'\<rparr>) }
                               else Some (Some b, s3\<lparr>g_bdev_list := b # g_bdev_list s3\<rparr>)) }) }))))"

text \<open>Reading a run of decimal digits from a device name, in 32-bit arithmetic.\<close>

fun scan_digits :: "cstr \<Rightarrow> u32 \<Rightarrow> u32 \<times> cstr" where
  "scan_digits [] n = (n, [])"
| "scan_digits (c # cs) n = (if 48 \<le> c \<and> c \<le> 57 then scan_digits cs (n * 10 + (ucast c - 48)) else (n, c # cs))"

definition bdev_name_to_dev :: "cstr \<Rightarrow> u32" where
  "bdev_name_to_dev name =
     (if name = cstr_of ''/dev/vda'' then MKDEV VIRTBLK_MAJOR 0
      else if has_prefix (cstr_of ''/dev/mmcblk'') name
      then
        let (hostno, p) = scan_digits (drop 11 name) 0;
            partno = (case p of c # cs \<Rightarrow> if c = 112 then fst (scan_digits cs 0) else 0 | [] \<Rightarrow> 0)
        in if hostno < 32 \<and> partno < MMC_PARTS_PER_DEV
           then MKDEV MMCBLK_MAJOR (MMC_PART_MINOR hostno partno) else - 1
      else - 1)"

definition bdev_get_by_name :: "'d ops_table \<Rightarrow> 'd blk_state \<Rightarrow> cstr \<Rightarrow> (u64 option \<times> 'd blk_state) option" where
  "bdev_get_by_name ops s name = bdev_get_by_dev ops s (bdev_name_to_dev name)"

definition bdev_put :: "'d ops_table \<Rightarrow> 'd blk_state \<Rightarrow> u64 option \<Rightarrow> 'd blk_state option" where
  "bdev_put ops s bdev =
     (case bdev of
        None \<Rightarrow> Some s
      | Some b \<Rightarrow>
          let s1 = upd_bdev s b (\<lambda>d. d\<lparr>bd_ref_count := bd_ref_count d - 1\<rparr>) in
          if bd_ref_count (bk_bdev s1 b) \<le> 0
          then do {
            s2 \<leftarrow> (case bd_ops (bk_bdev s1 b) of
                     Some t \<Rightarrow> (case bo_release (ops t) of Some f \<Rightarrow> f b s1 | None \<Rightarrow> Some s1)
                   | None \<Rightarrow> Some s1);
            let s3 = s2\<lparr>g_bdev_list := remove1 b (g_bdev_list s2)\<rparr>;
            m \<leftarrow> mm_kfree (bk_mm s3) (Some b);
            Some (s3\<lparr>bk_mm := m\<rparr>) }
          else Some s1)"

definition bdev_request :: "'d ops_table \<Rightarrow> 'd blk_state \<Rightarrow> u64 option \<Rightarrow> u64 \<Rightarrow> u32 \<Rightarrow> bytes option \<Rightarrow> (errno + bytes) \<times> 'd blk_state" where
  "bdev_request ops s bdev lba n data =
     (case bdev of
        None \<Rightarrow> (Inl EINVAL, s)
      | Some b \<Rightarrow>
          (case bd_ops (bk_bdev s b) of
             None \<Rightarrow> (Inl EINVAL, s)
           | Some t \<Rightarrow>
               (case bo_request (ops t) of
                  None \<Rightarrow> (Inl EINVAL, s)
                | Some f \<Rightarrow> (case f b lba n data (bk_hw s) of (r, h) \<Rightarrow> (r, s\<lparr>bk_hw := h\<rparr>)))))"

definition bdev_read_blocks :: "'d ops_table \<Rightarrow> 'd blk_state \<Rightarrow> u64 option \<Rightarrow> u64 \<Rightarrow> u32 \<Rightarrow> (errno + bytes) \<times> 'd blk_state" where
  "bdev_read_blocks ops s bdev lba n = bdev_request ops s bdev lba n None"

definition bdev_write_blocks :: "'d ops_table \<Rightarrow> 'd blk_state \<Rightarrow> u64 option \<Rightarrow> u64 \<Rightarrow> u32 \<Rightarrow> bytes \<Rightarrow> (errno + unit) \<times> 'd blk_state" where
  "bdev_write_blocks ops s bdev lba n data =
     (case bdev_request ops s bdev lba n (Some data) of (r, s1) \<Rightarrow> (map_sum id (\<lambda>_. ()) r, s1))"

section \<open>The buffer cache\<close>

definition bcache_cmp :: "buffer_head \<Rightarrow> buffer_head \<Rightarrow> int" where
  "bcache_cmp bh1 bh2 =
     (let bdev1 = b_bdev bh1; bdev2 = b_bdev bh2 in
      if bdev1 \<noteq> bdev2 then (if bdev1 < bdev2 then - 1 else 1)
      else if b_blocknr bh1 = b_blocknr bh2 then 0
      else if b_blocknr bh1 < b_blocknr bh2 then - 1 else 1)"

text \<open>The comparison as the tree calls it, on two nodes embedded in buffer heads.\<close>

definition bcache_node_cmp :: "'d blk_state \<Rightarrow> bkey \<Rightarrow> bkey \<Rightarrow> int" where
  "bcache_node_cmp s n1 n2 = bcache_cmp (the (bk_bufs s n1)) (the (bk_bufs s n2))"

definition bcache_subsys_init :: "'d blk_state \<Rightarrow> 'd blk_state" where
  "bcache_subsys_init s = s\<lparr>g_bcache_tree := (g_bcache_tree s)\<lparr>rb_root := None\<rparr>, g_bcache_lru := []\<rparr>"

definition key_bh :: "u64 \<Rightarrow> u64 \<Rightarrow> buffer_head" where
  "key_bh bdev block = \<lparr>b_self = 0, b_blocknr = block, b_size = 0, b_ref_count = 0, b_dirty = False, b_addr = 0,
     b_data = [], b_bdev = bdev\<rparr>"

partial_function (option) bcache_find_loop :: "'d blk_state \<Rightarrow> buffer_head \<Rightarrow> bkey option \<Rightarrow> bkey option option" where
  "bcache_find_loop s kb node =
     (case node of
        None \<Rightarrow> Some None
      | Some a \<Rightarrow> do {
          bh \<leftarrow> bk_bufs s a;
          (let cmp = bcache_cmp kb bh in
           if cmp = 0 then Some (Some a)
           else bcache_find_loop s kb
                  (if cmp < 0 then rb_left (rb_nd (g_bcache_tree s) a) else rb_right (rb_nd (g_bcache_tree s) a))) })"

definition bcache_find :: "'d blk_state \<Rightarrow> u64 \<Rightarrow> u64 \<Rightarrow> bkey option option" where
  "bcache_find s bdev block = bcache_find_loop s (key_bh bdev block) (rb_root (g_bcache_tree s))"

definition alloc_buffer :: "'d blk_state \<Rightarrow> u64 \<Rightarrow> u64 \<Rightarrow> u32 \<Rightarrow> (buffer_head option \<times> 'd blk_state) option" where
  "alloc_buffer s bdev block sz = do {
     (p, m1) \<leftarrow> lift_slab (bk_mm s) (\<lambda>x. kmalloc x sizeof_buffer_head);
     (case p of
        None \<Rightarrow> Some (None, s\<lparr>bk_mm := m1\<rparr>)
      | Some bh \<Rightarrow> do {
          (d, m2) \<leftarrow> kzalloc_pages m1 sz;
          (case d of
             None \<Rightarrow> do { m3 \<leftarrow> mm_kfree m2 (Some bh); Some (None, s\<lparr>bk_mm := m3\<rparr>) }
           | Some a \<Rightarrow> Some (Some \<lparr>b_self = bh, b_blocknr = block, b_size = sz, b_ref_count = 1, b_dirty = False,
                              b_addr = a, b_data = replicate (unat sz) 0, b_bdev = bdev\<rparr>, s\<lparr>bk_mm := m2\<rparr>)) }) }"

definition free_buffer :: "'d blk_state \<Rightarrow> buffer_head \<Rightarrow> 'd blk_state option" where
  "free_buffer s bh = do {
     m1 \<leftarrow> kfree_pages (bk_mm s) (Some (b_addr bh));
     m2 \<leftarrow> mm_kfree m1 (Some (b_self bh));
     Some (s\<lparr>bk_mm := m2\<rparr>) }"

text \<open>\<open>None\<close> inside the result is the null pointer.\<close>

definition upd_buffer :: "'d blk_state \<Rightarrow> bkey \<Rightarrow> (buffer_head \<Rightarrow> buffer_head) \<Rightarrow> 'd blk_state" where
  "upd_buffer s k f = s\<lparr>bk_bufs := (bk_bufs s)(k := map_option f (bk_bufs s k))\<rparr>"

definition bread :: "'d ops_table \<Rightarrow> 'd blk_state \<Rightarrow> u64 \<Rightarrow> u64 \<Rightarrow> (bkey option \<times> 'd blk_state) option" where
  "bread ops s bdev block = do {
     r \<leftarrow> bcache_find s bdev block;
     (case r of
        Some k \<Rightarrow> Some (Some k, upd_buffer s k (\<lambda>b. b\<lparr>b_ref_count := b_ref_count b + 1\<rparr>))
      | None \<Rightarrow> do {
          (p, s1) \<leftarrow> alloc_buffer s bdev block (bd_block_size (bk_bdev s bdev));
          (case p of
             None \<Rightarrow> Some (None, s1)
           | Some bh \<Rightarrow>
               (case bdev_read_blocks ops s1 (Some bdev) block 1 of
                  (Inl _, s2) \<Rightarrow> do { s3 \<leftarrow> free_buffer s2 bh; Some (None, s3) }
                | (Inr data, s2) \<Rightarrow> do {
                    let s3 = s2\<lparr>bk_bufs := (bk_bufs s2)((bdev, block) \<mapsto> bh\<lparr>b_data := data\<rparr>)\<rparr>;
                    t \<leftarrow> rb_insert (bcache_node_cmp s3) (g_bcache_tree s3) (bdev, block);
                    Some (Some (bdev, block), s3\<lparr>g_bcache_tree := t, g_bcache_lru := g_bcache_lru s3 @ [(bdev, block)]\<rparr>) })) }) }"

definition brelse :: "'d blk_state \<Rightarrow> bkey option \<Rightarrow> 'd blk_state" where
  "brelse s bh =
     (case bh of
        None \<Rightarrow> s
      | Some k \<Rightarrow> upd_buffer s k (\<lambda>b. b\<lparr>b_ref_count := (if b_ref_count b - 1 < 0 then 0 else b_ref_count b - 1)\<rparr>))"

definition mark_buffer_dirty :: "'d blk_state \<Rightarrow> bkey option \<Rightarrow> 'd blk_state" where
  "mark_buffer_dirty s bh = (case bh of None \<Rightarrow> s | Some k \<Rightarrow> upd_buffer s k (\<lambda>b. b\<lparr>b_dirty := True\<rparr>))"

fun sync_loop :: "'d ops_table \<Rightarrow> 'd blk_state \<Rightarrow> u64 option \<Rightarrow> bkey list \<Rightarrow> errno option \<Rightarrow> (errno option \<times> 'd blk_state) option" where
  "sync_loop ops s bdev [] err = Some (err, s)"
| "sync_loop ops s bdev (k # ks) err =
     (case bk_bufs s k of
        None \<Rightarrow> None
      | Some bh \<Rightarrow>
          if (case bdev of Some d \<Rightarrow> b_bdev bh \<noteq> d | None \<Rightarrow> False) then sync_loop ops s bdev ks err
          else if b_dirty bh
          then (case bdev_write_blocks ops s (Some (b_bdev bh)) (b_blocknr bh) 1 (b_data bh) of
                  (Inl e, s1) \<Rightarrow> sync_loop ops s1 bdev ks (Some e)
                | (Inr _, s1) \<Rightarrow> sync_loop ops (upd_buffer s1 k (\<lambda>b. b\<lparr>b_dirty := False\<rparr>)) bdev ks err)
          else sync_loop ops s bdev ks err)"

definition sync_dirty_buffers :: "'d ops_table \<Rightarrow> 'd blk_state \<Rightarrow> u64 option \<Rightarrow> (errno option \<times> 'd blk_state) option" where
  "sync_dirty_buffers ops s bdev = sync_loop ops s bdev (g_bcache_lru s) None"

definition sb_bread :: "'d ops_table \<Rightarrow> 'd blk_state \<Rightarrow> u64 option \<Rightarrow> u64 \<Rightarrow> (bkey option \<times> 'd blk_state) option" where
  "sb_bread ops s s_bdev block = (case s_bdev of None \<Rightarrow> Some (None, s) | Some b \<Rightarrow> bread ops s b block)"

section \<open>The cache is transparent\<close>

declare split_paired_All [simp del] split_paired_Ex [simp del]

text \<open>
  What the cache relies on: \<open>disk h (b, n)\<close> is block \<open>n\<close> of device \<open>b\<close> in hardware state \<open>h\<close>; a
  read delivers it and changes nothing, a successful write replaces exactly it, and a failed write
  may damage only it.
\<close>

definition disk_ok :: "'d ops_table \<Rightarrow> ('d \<Rightarrow> bkey \<Rightarrow> bytes) \<Rightarrow> bool" where
  "disk_ok ops disk \<longleftrightarrow>
     (\<forall>t f b n h r h'. bo_request (ops t) = Some f \<and> f b n 1 None h = (r, h') \<longrightarrow>
        disk h' = disk h \<and> (\<forall>bs. r = Inr bs \<longrightarrow> bs = disk h (b, n))) \<and>
     (\<forall>t f b n bs h r h'. bo_request (ops t) = Some f \<and> f b n 1 (Some bs) h = (r, h') \<longrightarrow>
        (\<forall>k. k \<noteq> (b, n) \<longrightarrow> disk h' k = disk h k) \<and> (\<forall>x. r = Inr x \<longrightarrow> disk h' (b, n) = bs))"

text \<open>The tree is a red-black tree over exactly the buffers of the cache, in key order.\<close>

definition bcache_tree_ok :: "bkey rb_tree \<Rightarrow> bkey set \<Rightarrow> bool" where
  "bcache_tree_ok t K \<longleftrightarrow> (\<exists>T. holds t T \<and> rb_valid T \<and> sorted_wrt (<) (nodes T) \<and> set (nodes T) = K)"

definition bcache_inv :: "('d \<Rightarrow> bkey \<Rightarrow> bytes) \<Rightarrow> 'd blk_state \<Rightarrow> bool" where
  "bcache_inv disk s \<longleftrightarrow>
     bcache_tree_ok (g_bcache_tree s) (dom (bk_bufs s)) \<and>
     distinct (g_bcache_lru s) \<and> set (g_bcache_lru s) = dom (bk_bufs s) \<and>
     (\<forall>k bh. bk_bufs s k = Some bh \<longrightarrow> k = (b_bdev bh, b_blocknr bh) \<and>
        (\<not> b_dirty bh \<longrightarrow> b_data bh = disk (bk_hw s) k))"

text \<open>The contents a user of the cache sees: the cached bytes, or those on the device.\<close>

definition bcontent :: "('d \<Rightarrow> bkey \<Rightarrow> bytes) \<Rightarrow> 'd blk_state \<Rightarrow> bkey \<Rightarrow> bytes" where
  "bcontent disk s k = (case bk_bufs s k of Some bh \<Rightarrow> b_data bh | None \<Rightarrow> disk (bk_hw s) k)"

lemma bcache_cong:
  assumes "bk_bufs s' = bk_bufs s" and "g_bcache_lru s' = g_bcache_lru s"
    and "disk (bk_hw s') = disk (bk_hw s)" and "g_bcache_tree s' = g_bcache_tree s"
  shows "bcache_inv disk s' = bcache_inv disk s" and "bcontent disk s' = bcontent disk s"
proof -
  show "bcache_inv disk s' = bcache_inv disk s"
    unfolding bcache_inv_def assms ..
  show "bcontent disk s' = bcontent disk s"
    by (rule ext) (simp add: bcontent_def assms split: option.split)
qed

lemma bcache_invD:
  assumes "bcache_inv disk s" and "bk_bufs s k = Some bh"
  shows "k = (b_bdev bh, b_blocknr bh)" and "\<not> b_dirty bh \<Longrightarrow> b_data bh = disk (bk_hw s) k"
  using assms unfolding bcache_inv_def by blast+

lemma bdev_read_disk:
  assumes "disk_ok ops disk" and "bdev_read_blocks ops s (Some b) n 1 = (r, s')"
  shows "disk (bk_hw s') = disk (bk_hw s)" and "r = Inr bs \<Longrightarrow> bs = disk (bk_hw s) (b, n)"
    and "bk_bufs s' = bk_bufs s" and "g_bcache_lru s' = g_bcache_lru s" and "g_bcache_tree s' = g_bcache_tree s"
  using assms
  by (auto simp: bdev_read_blocks_def bdev_request_def disk_ok_def split: option.splits prod.splits)

lemma disk_ok_write:
  assumes "disk_ok ops disk" and "bo_request (ops t) = Some f" and "f b n 1 (Some bs) h = (r, h')"
  shows "k \<noteq> (b, n) \<Longrightarrow> disk h' k = disk h k" and "r = Inr x \<Longrightarrow> disk h' (b, n) = bs"
  using assms unfolding disk_ok_def by blast+

lemma bdev_write_disk:
  assumes "disk_ok ops disk" and "bdev_write_blocks ops s (Some b) n 1 bs = (r, s')"
  shows "k \<noteq> (b, n) \<Longrightarrow> disk (bk_hw s') k = disk (bk_hw s) k"
    and "r = Inr () \<Longrightarrow> disk (bk_hw s') (b, n) = bs"
    and "bk_bufs s' = bk_bufs s" and "g_bcache_lru s' = g_bcache_lru s" and "g_bcache_tree s' = g_bcache_tree s"
proof -
  obtain q where q: "bdev_request ops s (Some b) n 1 (Some bs) = (q, s')" "r = map_sum id (\<lambda>_. ()) q"
    using assms(2) by (auto simp: bdev_write_blocks_def split: prod.splits)
  from q(1) have "s' = s \<or> (\<exists>t f h. bo_request (ops t) = Some f \<and> f b n 1 (Some bs) (bk_hw s) = (q, h) \<and>
      s' = s\<lparr>bk_hw := h\<rparr>)" and nq: "q = Inr x \<Longrightarrow> \<exists>t f h. bo_request (ops t) = Some f \<and>
      f b n 1 (Some bs) (bk_hw s) = (q, h) \<and> s' = s\<lparr>bk_hw := h\<rparr>" for x
    by (auto simp: bdev_request_def split: option.splits prod.splits)
  note c = this(1)
  show "k \<noteq> (b, n) \<Longrightarrow> disk (bk_hw s') k = disk (bk_hw s) k"
    using c disk_ok_write(1) [OF assms(1), of _ _ b n bs "bk_hw s" q _ k] by auto
  show "bk_bufs s' = bk_bufs s" "g_bcache_lru s' = g_bcache_lru s" "g_bcache_tree s' = g_bcache_tree s" using c by auto
  assume "r = Inr ()"
  then obtain x where "q = Inr x" using q(2) by (cases q) auto
  with nq show "disk (bk_hw s') (b, n) = bs"
    using disk_ok_write(2) [OF assms(1)] by fastforce
qed

lemma alloc_buffer_frame:
  assumes "alloc_buffer s b n sz = Some (r, s')"
  shows "bk_bufs s' = bk_bufs s" and "g_bcache_lru s' = g_bcache_lru s" and "bk_hw s' = bk_hw s"
    and "g_bcache_tree s' = g_bcache_tree s"
    and "r = Some bh \<Longrightarrow> b_bdev bh = b \<and> b_blocknr bh = n \<and> \<not> b_dirty bh"
  using assms by (auto simp: alloc_buffer_def split: bind_splits option.splits)

lemma free_buffer_frame:
  assumes "free_buffer s bh = Some s'"
  shows "bk_bufs s' = bk_bufs s" and "g_bcache_lru s' = g_bcache_lru s" and "bk_hw s' = bk_hw s"
    and "g_bcache_tree s' = g_bcache_tree s"
  using assms by (auto simp: free_buffer_def split: bind_splits)

text \<open>The comparison orders buffers by device and block number, so the walk through the tree finds
  the buffer of a block if it is there.\<close>

definition buf_key :: "buffer_head \<Rightarrow> bkey" where
  "buf_key bh = (b_bdev bh, b_blocknr bh)"

lemma bcache_cmp_key:
  "bcache_cmp a b < 0 \<longleftrightarrow> buf_key a < buf_key b" "bcache_cmp a b = 0 \<longleftrightarrow> buf_key a = buf_key b"
  by (auto simp: bcache_cmp_def buf_key_def Let_def)

interpretation btree: rb_order "bcache_node_cmp s" "\<lambda>k. buf_key (the (bk_bufs s k))" for s
  by unfold_locales (simp add: bcache_node_cmp_def bcache_cmp_key)

lemma bcache_find_nodes:
  assumes "rep (rb_nd (g_bcache_tree s)) p T" and "sorted_wrt (<) (nodes T)"
    and "\<forall>k \<in> set (nodes T). \<exists>bh. bk_bufs s k = Some bh \<and> k = buf_key bh"
  shows "bcache_find_loop s (key_bh b n) (root_of T) = Some (if (b, n) \<in> set (nodes T) then Some (b, n) else None)"
  using assms
proof (induction T arbitrary: p)
  case Lf
  then show ?case by (simp add: bcache_find_loop.simps)
next
  case (Nd c l a r)
  obtain bh where bh: "bk_bufs s a = Some bh" "a = buf_key bh" using Nd.prems(3) by auto
  have ord: "\<forall>x \<in> set (nodes l). x < a" "\<forall>x \<in> set (nodes r). a < x" "sorted_wrt (<) (nodes l)" "sorted_wrt (<) (nodes r)"
    using Nd.prems(2) by (auto simp: sorted_wrt_append)
  have IH: "bcache_find_loop s (key_bh b n) (root_of l) = Some (if (b, n) \<in> set (nodes l) then Some (b, n) else None)"
    "bcache_find_loop s (key_bh b n) (root_of r) = Some (if (b, n) \<in> set (nodes r) then Some (b, n) else None)"
    using Nd.IH(1) [of "Some a"] Nd.IH(2) [of "Some a"] Nd.prems ord by auto
  have ptr: "rb_left (rb_nd (g_bcache_tree s) a) = root_of l" "rb_right (rb_nd (g_bcache_tree s) a) = root_of r"
    using Nd.prems(1) by simp_all
  have k: "buf_key (key_bh b n) = (b, n)" by (simp add: buf_key_def key_bh_def)
  note step = bcache_find_loop.simps [of s "key_bh b n" "Some a"]
  consider "(b, n) = a" | "(b, n) < a" | "a < (b, n)" using linorder_less_linear by blast
  then show ?case
  proof cases
    case 1
    then have "bcache_cmp (key_bh b n) bh = 0" using bh(2) k by (simp add: bcache_cmp_key)
    then show ?thesis using 1 bh(1) by (simp add: step Let_def)
  next
    case 2
    then have "(b, n) \<notin> set (nodes r)" "(b, n) \<noteq> a" using ord(2) by auto
    moreover have "bcache_cmp (key_bh b n) bh \<noteq> 0" "bcache_cmp (key_bh b n) bh < 0"
      using 2 bh(2) k calculation by (auto simp: bcache_cmp_key)
    ultimately show ?thesis using bh(1) ptr IH(1) by (simp add: step Let_def)
  next
    case 3
    then have "(b, n) \<notin> set (nodes l)" "(b, n) \<noteq> a" "\<not> (b, n) < a" using ord(1) by auto
    moreover have "bcache_cmp (key_bh b n) bh \<noteq> 0" "\<not> bcache_cmp (key_bh b n) bh < 0"
      using bh(2) k calculation by (auto simp: bcache_cmp_key)
    ultimately show ?thesis using bh(1) ptr IH(2) by (simp add: step Let_def)
  qed
qed

lemma bcache_find_eq:
  assumes "bcache_inv disk s"
  shows "bcache_find s b n = Some (if bk_bufs s (b, n) = None then None else Some (b, n))"
proof -
  obtain T where T: "holds (g_bcache_tree s) T" "sorted_wrt (<) (nodes T)" "set (nodes T) = dom (bk_bufs s)"
    using assms by (auto simp: bcache_inv_def bcache_tree_ok_def)
  have "\<forall>k \<in> set (nodes T). \<exists>bh. bk_bufs s k = Some bh \<and> k = buf_key bh"
    using T(3) bcache_invD(1) [OF assms] by (auto simp: buf_key_def)
  from bcache_find_nodes [OF _ T(2) this, of None b n] show ?thesis
    using T(1,3) by (auto simp: bcache_find_def holds_def domIff)
qed

text \<open>Entering a new buffer into the tree.\<close>

lemma bcache_insert_ok:
  assumes tree: "bcache_tree_ok (g_bcache_tree s) (dom (bk_bufs s))"
    and key: "\<forall>k bh. bk_bufs s k = Some bh \<longrightarrow> k = buf_key bh"
    and new: "bk_bufs s k = None" and bh: "buf_key bh = k" and s3: "bk_bufs s3 = (bk_bufs s)(k \<mapsto> bh)" "g_bcache_tree s3 = g_bcache_tree s"
  shows "\<exists>t. rb_insert (bcache_node_cmp s3) (g_bcache_tree s3) k = Some t \<and> bcache_tree_ok t (dom (bk_bufs s3))"
proof -
  obtain T where T: "holds (g_bcache_tree s) T" "rb_valid T" "sorted_wrt (<) (nodes T)" "set (nodes T) = dom (bk_bufs s)"
    using tree by (auto simp: bcache_tree_ok_def)
  have k: "buf_key (the (bk_bufs s3 j)) = j" if "j \<in> dom (bk_bufs s3)" for j
    using that key bh by (auto simp: s3 split: if_splits)
  have "map (\<lambda>j. buf_key (the (bk_bufs s3 j))) (nodes T) = nodes T"
    by (rule map_idI) (use T(4) s3 k in auto)
  moreover have "sorted (nodes T)" using T(3) by (rule sorted_wrt_mono_rel [rotated]) simp
  moreover have knew: "k \<notin> set (nodes T)" using T(4) new by auto
  ultimately obtain t T' xs ys where i: "rb_insert (bcache_node_cmp s3) (g_bcache_tree s3) k = Some t" "holds t T'" "rb_valid T'"
    "nodes T = xs @ ys" "nodes T' = xs @ k # ys"
    "\<forall>x \<in> set xs. buf_key (the (bk_bufs s3 x)) \<le> buf_key (the (bk_bufs s3 k))"
    "\<forall>y \<in> set ys. buf_key (the (bk_bufs s3 k)) < buf_key (the (bk_bufs s3 y))"
    using btree.insert_holds [of "g_bcache_tree s3" T s3 k] T(1,2) knew unfolding s3(2) by metis
  have kd: "k \<in> dom (bk_bufs s3)" "\<And>x. x \<in> set (xs @ ys) \<Longrightarrow> x \<in> dom (bk_bufs s3)" "k \<notin> set (xs @ ys)"
    using T(4) i(4) s3(1) new by (auto simp: domIff)
  have "\<forall>x \<in> set xs. x < k" "\<forall>y \<in> set ys. k < y"
    using i(6,7) k kd by (auto simp: order_le_less)
  then have "sorted_wrt (<) (nodes T')" using T(3) i(4,5) by (auto simp: sorted_wrt_append)
  moreover have "set (nodes T') = dom (bk_bufs s3)" using T(4) i(4,5) by (auto simp: s3(1))
  ultimately show ?thesis using i(1-3) by (auto simp: bcache_tree_ok_def)
qed

lemma bread_hit:
  assumes "bcache_inv disk s" and "bk_bufs s (b, n) \<noteq> None"
  shows "bread ops s b n = Some (Some (b, n), upd_buffer s (b, n) (\<lambda>b. b\<lparr>b_ref_count := b_ref_count b + 1\<rparr>))"
  using assms by (auto simp: bread_def bcache_find_eq [OF assms(1)])

lemma bread_miss:
  assumes "bcache_inv disk s" and "bk_bufs s (b, n) = None"
  shows "bread ops s b n = do {
    (p, s1) \<leftarrow> alloc_buffer s b n (bd_block_size (bk_bdev s b));
    (case p of
       None \<Rightarrow> Some (None, s1)
     | Some bh \<Rightarrow>
         (case bdev_read_blocks ops s1 (Some b) n 1 of
            (Inl _, s2) \<Rightarrow> do { s3 \<leftarrow> free_buffer s2 bh; Some (None, s3) }
          | (Inr data, s2) \<Rightarrow> do {
              let s3 = s2\<lparr>bk_bufs := (bk_bufs s2)((b, n) \<mapsto> bh\<lparr>b_data := data\<rparr>)\<rparr>;
              t \<leftarrow> rb_insert (bcache_node_cmp s3) (g_bcache_tree s3) (b, n);
              Some (Some (b, n), s3\<lparr>g_bcache_tree := t, g_bcache_lru := g_bcache_lru s3 @ [(b, n)]\<rparr>) })) }"
  using assms by (simp add: bread_def bcache_find_eq)

lemma upd_buffer_inv:
  assumes "bcache_inv disk s" and "\<And>b. b_bdev (f b) = b_bdev b \<and> b_blocknr (f b) = b_blocknr b"
    and "\<And>b. bk_bufs s k = Some b \<Longrightarrow> \<not> b_dirty (f b) \<Longrightarrow> b_data (f b) = disk (bk_hw s) k"
  shows "bcache_inv disk (upd_buffer s k f)"
proof -
  have "dom (bk_bufs (upd_buffer s k f)) = dom (bk_bufs s)"
    by (auto simp: upd_buffer_def split: if_splits)
  then show ?thesis
    using assms by (auto simp: bcache_inv_def upd_buffer_def split: if_splits)
qed

text \<open>Changing the data of a cached block and marking it dirty changes the contents of that block.\<close>

lemma upd_buffer_content:
  "bcontent disk (upd_buffer s k f) j =
     (if j = k \<and> bk_bufs s k \<noteq> None then b_data (f (the (bk_bufs s k))) else bcontent disk s j)"
  by (auto simp: bcontent_def upd_buffer_def split: option.splits)

lemma upd_buffer_same:
  assumes "\<And>b. b_data (f b) = b_data b"
  shows "bcontent disk (upd_buffer s k f) = bcontent disk s"
proof (rule ext)
  fix j
  show "bcontent disk (upd_buffer s k f) j = bcontent disk s j"
    unfolding upd_buffer_content by (cases "bk_bufs s k") (simp_all add: assms bcontent_def)
qed

lemma bread_transparent:
  assumes "disk_ok ops disk" and "bcache_inv disk s" and "bread ops s b n = Some (r, s')"
  shows "bcache_inv disk s'" and "bcontent disk s' = bcontent disk s"
    and "r = Some k \<Longrightarrow> k = (b, n) \<and> (\<exists>bh. bk_bufs s' (b, n) = Some bh \<and> b_data bh = bcontent disk s (b, n))"
proof -
  have *: "bcache_inv disk s' \<and> bcontent disk s' = bcontent disk s \<and>
    (\<forall>k. r = Some k \<longrightarrow> k = (b, n) \<and> (\<exists>bh. bk_bufs s' (b, n) = Some bh \<and> b_data bh = bcontent disk s (b, n)))"
  proof (cases "bk_bufs s (b, n)")
    case (Some bh)
    then have r: "r = Some (b, n)" "s' = upd_buffer s (b, n) (\<lambda>b. b\<lparr>b_ref_count := b_ref_count b + 1\<rparr>)"
      using assms(3) bread_hit [OF assms(2), of b n ops] by simp_all
    have "bcache_inv disk s'" unfolding r(2)
      by (rule upd_buffer_inv [OF assms(2)]) (use bcache_invD(2) [OF assms(2)] in auto)
    moreover have "bcontent disk s' = bcontent disk s" unfolding r(2) by (simp add: upd_buffer_same)
    ultimately show ?thesis using r Some by (simp add: upd_buffer_def bcontent_def)
  next
    case None
    note miss = bread_miss [OF assms(2) None, of ops]
    obtain p s1 where p: "alloc_buffer s b n (bd_block_size (bk_bdev s b)) = Some (p, s1)"
      using assms(3) miss by (auto split: bind_splits)
    note f = alloc_buffer_frame [OF p]
    show ?thesis
    proof (cases p)
      case None
      with assms(3) p miss have "r = None" "s' = s1" by simp_all
      then show ?thesis using assms(2) bcache_cong [of s' s disk] f by simp
    next
      case (Some bh)
      obtain q s2 where q: "bdev_read_blocks ops s1 (Some b) n 1 = (q, s2)" by (cases "bdev_read_blocks ops s1 (Some b) n 1")
      note g = bdev_read_disk [OF assms(1) q]
      show ?thesis
      proof (cases q)
        case (Inl e)
        then obtain s3 where "free_buffer s2 bh = Some s3" "r = None" "s' = s3"
          using assms(3) p Some q miss by (auto split: bind_splits)
        moreover from this(1) have "bk_bufs s3 = bk_bufs s" "g_bcache_lru s3 = g_bcache_lru s"
          "disk (bk_hw s3) = disk (bk_hw s)" "g_bcache_tree s3 = g_bcache_tree s"
          using free_buffer_frame [of s2 bh s3] f(1-4) g(1,3-5) by simp_all
        ultimately show ?thesis using assms(2) bcache_cong [of s3 s disk] by simp
      next
        case (Inr data)
        define s3 where "s3 = s2\<lparr>bk_bufs := (bk_bufs s2)((b, n) \<mapsto> bh\<lparr>b_data := data\<rparr>)\<rparr>"
        have s3: "bk_bufs s3 = (bk_bufs s)((b, n) \<mapsto> bh\<lparr>b_data := data\<rparr>)" "g_bcache_tree s3 = g_bcache_tree s"
          "g_bcache_lru s3 = g_bcache_lru s" "bk_hw s3 = bk_hw s2"
          using f(1,2,4) g(3-5) by (simp_all add: s3_def)
        have bh: "buf_key (bh\<lparr>b_data := data\<rparr>) = (b, n)" "\<not> b_dirty bh" using f(5) [OF Some] by (simp_all add: buf_key_def)
        have "bcache_tree_ok (g_bcache_tree s) (dom (bk_bufs s))" "\<forall>k bh. bk_bufs s k = Some bh \<longrightarrow> k = buf_key bh"
          using assms(2) unfolding bcache_inv_def buf_key_def by blast+
        from bcache_insert_ok [OF this \<open>bk_bufs s (b, n) = None\<close> bh(1) s3(1,2)]
        obtain t where t: "rb_insert (bcache_node_cmp s3) (g_bcache_tree s3) (b, n) = Some t" "bcache_tree_ok t (dom (bk_bufs s3))"
          by blast
        have r: "r = Some (b, n)" "s' = s3\<lparr>g_bcache_tree := t, g_bcache_lru := g_bcache_lru s3 @ [(b, n)]\<rparr>"
          using assms(3) p Some q Inr miss t(1) by (simp_all add: s3_def Let_def)
        have d: "data = disk (bk_hw s) (b, n)" "disk (bk_hw s2) = disk (bk_hw s)"
          using g(1) g(2) [OF Inr] f(3) by simp_all
        have l: "distinct (g_bcache_lru s)" "set (g_bcache_lru s) = dom (bk_bufs s)" "(b, n) \<notin> set (g_bcache_lru s)"
          using assms(2) \<open>bk_bufs s (b, n) = None\<close> by (auto simp: bcache_inv_def)
        have "bcache_inv disk s'"
          using assms(2) t(2) bh l d unfolding r bcache_inv_def
          by (auto simp: s3 buf_key_def split: if_splits)
        moreover have "bcontent disk s' = bcontent disk s"
          using d \<open>bk_bufs s (b, n) = None\<close> unfolding r bcontent_def by (auto simp: s3 fun_eq_iff split: option.split)
        ultimately show ?thesis
          using d \<open>bk_bufs s (b, n) = None\<close> unfolding r by (simp add: s3 bcontent_def)
      qed
    qed
  qed
  then show "bcache_inv disk s'" "bcontent disk s' = bcontent disk s"
    "r = Some k \<Longrightarrow> k = (b, n) \<and> (\<exists>bh. bk_bufs s' (b, n) = Some bh \<and> b_data bh = bcontent disk s (b, n))"
    by blast+
qed

lemma brelse_transparent:
  assumes "bcache_inv disk s"
  shows "bcache_inv disk (brelse s r)" and "bcontent disk (brelse s r) = bcontent disk s"
proof -
  show "bcache_inv disk (brelse s r)"
  proof (cases r)
    case (Some k)
    show ?thesis
      unfolding brelse_def Some option.case
      by (rule upd_buffer_inv [OF assms]) (use bcache_invD(2) [OF assms] in auto)
  qed (simp add: brelse_def assms)
  show "bcontent disk (brelse s r) = bcontent disk s"
    by (cases r) (simp_all add: brelse_def upd_buffer_same)
qed

definition clean :: "'d blk_state \<Rightarrow> bkey \<Rightarrow> bool" where
  "clean s k \<longleftrightarrow> (\<exists>bh. bk_bufs s k = Some bh \<and> \<not> b_dirty bh)"

lemma sync_one:
  assumes "disk_ok ops disk" and "bcache_inv disk s" and bh: "bk_bufs s k = Some bh" and "b_dirty bh"
    and w: "bdev_write_blocks ops s (Some (b_bdev bh)) (b_blocknr bh) 1 (b_data bh) = (r, s1)"
  shows "bcache_inv disk s1" and "bcontent disk s1 = bcontent disk s"
    and "r = Inr () \<Longrightarrow> bcache_inv disk (upd_buffer s1 k (\<lambda>b. b\<lparr>b_dirty := False\<rparr>))"
proof -
  note d = bdev_write_disk [OF assms(1) w]
  have key: "k = (b_bdev bh, b_blocknr bh)" by (rule bcache_invD [OF assms(2) bh])
  have "b_data b = disk (bk_hw s1) j" if "bk_bufs s j = Some b" "\<not> b_dirty b" for j b
  proof -
    have "j \<noteq> k" using that assms(4) bh by auto
    with bcache_invD(2) [OF assms(2) that(1)] that(2) d(1) [of j] key show ?thesis by simp
  qed
  then show inv: "bcache_inv disk s1"
    using assms(2) unfolding bcache_inv_def d(3-5) by blast
  show "bcontent disk s1 = bcontent disk s"
  proof (rule ext)
    fix j
    show "bcontent disk s1 j = bcontent disk s j"
    proof (cases "bk_bufs s j")
      case None
      then have "j \<noteq> (b_bdev bh, b_blocknr bh)" using bh key by auto
      then show ?thesis using None d(1) by (simp add: bcontent_def d(3))
    qed (simp add: bcontent_def d(3))
  qed
  show "bcache_inv disk (upd_buffer s1 k (\<lambda>b. b\<lparr>b_dirty := False\<rparr>))" if "r = Inr ()"
    using upd_buffer_inv [OF inv, of "\<lambda>b. b\<lparr>b_dirty := False\<rparr>" k] d(2) [OF that] bh d(3) key by simp
qed

lemma sync_loop_spec:
  assumes "disk_ok ops disk" and "bcache_inv disk s" and "set ks \<subseteq> dom (bk_bufs s)"
  shows "\<exists>err' s'. sync_loop ops s dev ks err = Some (err', s') \<and> bcache_inv disk s' \<and>
    bcontent disk s' = bcontent disk s \<and> dom (bk_bufs s') = dom (bk_bufs s) \<and>
    (\<forall>k. clean s k \<longrightarrow> clean s' k) \<and>
    (err' = None \<longrightarrow> err = None \<and> (\<forall>k \<in> set ks. dev = None \<or> dev = Some (fst k) \<longrightarrow> clean s' k))"
  using assms(2,3)
proof (induction ks arbitrary: s err)
  case Nil
  then show ?case by simp
next
  case (Cons k ks)
  obtain bh where bh: "bk_bufs s k = Some bh" using Cons.prems(2) by auto
  have ks: "set ks \<subseteq> dom (bk_bufs s)" using Cons.prems(2) by simp
  let ?skip = "case dev of Some d \<Rightarrow> b_bdev bh \<noteq> d | None \<Rightarrow> False"
  have sk: "?skip \<longleftrightarrow> \<not> (dev = None \<or> dev = Some (fst k))"
    using bcache_invD(1) [OF Cons.prems(1) bh] by (cases k) (auto split: option.split)
  consider (skip) "?skip" | (clean) "\<not> ?skip" "\<not> b_dirty bh" | (dirty) "\<not> ?skip" "b_dirty bh" by blast
  then show ?case
  proof cases
    case skip
    then have "sync_loop ops s dev (k # ks) err = sync_loop ops s dev ks err" using bh by simp
    then show ?thesis using Cons.IH [OF Cons.prems(1) ks, of err] skip sk by auto
  next
    case clean
    then have e: "sync_loop ops s dev (k # ks) err = sync_loop ops s dev ks err" using bh by simp
    have "clean s k" using bh clean(2) by (simp add: clean_def)
    with e show ?thesis using Cons.IH [OF Cons.prems(1) ks, of err] by auto
  next
    case dirty
    obtain r s1 where w: "bdev_write_blocks ops s (Some (b_bdev bh)) (b_blocknr bh) 1 (b_data bh) = (r, s1)"
      by (cases "bdev_write_blocks ops s (Some (b_bdev bh)) (b_blocknr bh) 1 (b_data bh)")
    note t = bdev_write_disk(3) [OF assms(1) w]
    note o = sync_one [OF assms(1) Cons.prems(1) bh dirty(2) w]
    show ?thesis
    proof (cases r)
      case (Inl e)
      have e: "sync_loop ops s dev (k # ks) err = sync_loop ops s1 dev ks (Some e)" using bh dirty w Inl by simp
      show ?thesis unfolding e using Cons.IH [OF o(1), of "Some e"] ks t o(2) by (auto simp: clean_def)
    next
      case (Inr u)
      define s2 where "s2 = upd_buffer s1 k (\<lambda>b. b\<lparr>b_dirty := False\<rparr>)"
      have e: "sync_loop ops s dev (k # ks) err = sync_loop ops s2 dev ks err" using bh dirty w Inr by (simp add: s2_def)
      have c: "bcontent disk s2 = bcontent disk s"
        by (simp add: s2_def upd_buffer_same o(2))
      have d: "dom (bk_bufs s2) = dom (bk_bufs s)" "clean s2 k" "\<And>j. clean s j \<Longrightarrow> clean s2 j"
        using bh t by (auto simp: s2_def upd_buffer_def clean_def)
      have "bcache_inv disk s2" using o(3) Inr by (simp add: s2_def)
      from Cons.IH [OF this, of err] ks show ?thesis
        unfolding e using c d by auto
    qed
  qed
qed

text \<open>A user reads and writes the bytes of a buffer in place; the cache learns of a write by
  \<open>mark_buffer_dirty\<close>.\<close>

definition buf_data :: "'d blk_state \<Rightarrow> bkey \<Rightarrow> bytes option" where
  "buf_data s k = map_option b_data (bk_bufs s k)"

definition set_data :: "'d blk_state \<Rightarrow> bkey \<Rightarrow> bytes \<Rightarrow> 'd blk_state" where
  "set_data s k d = upd_buffer s k (\<lambda>b. b\<lparr>b_data := d\<rparr>)"

definition write_buf :: "'d blk_state \<Rightarrow> bkey \<Rightarrow> bytes \<Rightarrow> 'd blk_state" where
  "write_buf s k d = mark_buffer_dirty (set_data s k d) (Some k)"

lemma write_buf_eq: "write_buf s k d = upd_buffer s k (\<lambda>b. b\<lparr>b_data := d, b_dirty := True\<rparr>)"
  by (auto simp: write_buf_def set_data_def mark_buffer_dirty_def upd_buffer_def option.map_comp comp_def)

lemma buf_data_upd: "buf_data (upd_buffer s k f) j = (if j = k then map_option (\<lambda>b. b_data (f b)) (bk_bufs s k) else buf_data s j)"
  by (simp add: buf_data_def upd_buffer_def option.map_comp comp_def)

lemma write_buf_inv: "bcache_inv disk s \<Longrightarrow> bcache_inv disk (write_buf s k d)"
  unfolding write_buf_eq by (rule upd_buffer_inv) simp_all

lemma write_buf_content: "buf_data s k \<noteq> None \<Longrightarrow> bcontent disk (write_buf s k d) = (bcontent disk s)(k := d)"
  unfolding write_buf_eq by (auto simp: upd_buffer_content buf_data_def fun_eq_iff)

text \<open>A block that is not in the cache is brought in whenever there is memory for the buffer and the
  device delivers the block.\<close>

lemma bread_brings_in:
  assumes "bcache_inv disk s" and "bk_bufs s (b, n) = None"
    and p: "alloc_buffer s b n (bd_block_size (bk_bdev s b)) = Some (Some bh, s1)"
    and q: "bdev_read_blocks ops s1 (Some b) n 1 = (Inr data, s2)"
  shows "\<exists>s'. bread ops s b n = Some (Some (b, n), s')"
proof -
  have "s2 = s1 \<or> (\<exists>h. s2 = s1\<lparr>bk_hw := h\<rparr>)"
    using q by (auto simp: bdev_read_blocks_def bdev_request_def split: option.splits prod.splits)
  then have s2: "bk_bufs s2 = bk_bufs s" "g_bcache_tree s2 = g_bcache_tree s"
    using alloc_buffer_frame(1,4) [OF p] by auto
  have "buf_key (bh\<lparr>b_data := data\<rparr>) = (b, n)" using alloc_buffer_frame(5) [OF p refl] by (simp add: buf_key_def)
  moreover have "bcache_tree_ok (g_bcache_tree s) (dom (bk_bufs s))" "\<forall>k bh. bk_bufs s k = Some bh \<longrightarrow> k = buf_key bh"
    using assms(1) unfolding bcache_inv_def buf_key_def by blast+
  ultimately obtain t where "rb_insert (bcache_node_cmp (s2\<lparr>bk_bufs := (bk_bufs s2)((b, n) \<mapsto> bh\<lparr>b_data := data\<rparr>)\<rparr>))
      (g_bcache_tree s2) (b, n) = Some t"
    using bcache_insert_ok [of s "(b, n)" "bh\<lparr>b_data := data\<rparr>" "s2\<lparr>bk_bufs := (bk_bufs s2)((b, n) \<mapsto> bh\<lparr>b_data := data\<rparr>)\<rparr>"]
      assms(2) s2 by auto
  then show ?thesis using p q by (simp add: bread_miss [OF assms(1,2)] Let_def)
qed

lemma sync_flushes:
  assumes "disk_ok ops disk" and "bcache_inv disk s"
  shows "\<exists>err s'. sync_dirty_buffers ops s dev = Some (err, s') \<and> bcache_inv disk s' \<and>
       bcontent disk s' = bcontent disk s \<and>
       (err = None \<longrightarrow> (\<forall>k. dev = None \<or> dev = Some (fst k) \<longrightarrow> disk (bk_hw s') k = bcontent disk s k))"
proof -
  have l: "set (g_bcache_lru s) = dom (bk_bufs s)" using assms(2) by (simp add: bcache_inv_def)
  obtain err s' where s': "sync_dirty_buffers ops s dev = Some (err, s')" "bcache_inv disk s'"
    "bcontent disk s' = bcontent disk s" "dom (bk_bufs s') = dom (bk_bufs s)"
    "err = None \<longrightarrow> (\<forall>k \<in> set (g_bcache_lru s). dev = None \<or> dev = Some (fst k) \<longrightarrow> clean s' k)"
    using sync_loop_spec [OF assms, of "g_bcache_lru s" dev None] l by (auto simp: sync_dirty_buffers_def)
  have "disk (bk_hw s') k = bcontent disk s k" if "err = None" "dev = None \<or> dev = Some (fst k)" for k
  proof (cases "bk_bufs s' k")
    case None
    then show ?thesis unfolding s'(3) [symmetric] by (simp add: bcontent_def)
  next
    case (Some bh)
    then have "k \<in> set (g_bcache_lru s)" using l s'(4) by auto
    then have "\<not> b_dirty bh" using s'(5) that Some by (auto simp: clean_def)
    then show ?thesis
      unfolding s'(3) [symmetric] using bcache_invD(2) [OF s'(2) Some] Some by (simp add: bcontent_def)
  qed
  then have "err = None \<longrightarrow> (\<forall>k. dev = None \<or> dev = Some (fst k) \<longrightarrow> disk (bk_hw s') k = bcontent disk s k)"
    by blast
  with s'(1-3) show ?thesis by blast
qed

lemma bcache_init_inv: "bk_bufs s = Map.empty \<Longrightarrow> bcache_inv disk (bcache_subsys_init s)"
  by (auto simp: bcache_inv_def bcache_subsys_init_def bcache_tree_ok_def holds_def rb_valid_def intro!: exI [of _ Lf])

text \<open>
  (C3) The buffer cache is transparent. Reading a block hands out the cached buffer of that block,
  which holds exactly its contents, and changes no contents; it succeeds if the block is cached, and
  if there is memory for a buffer and the device delivers the block. Storing bytes into a buffer and
  calling \<open>mark_buffer_dirty\<close> makes them the contents of that block and of no other, and leaves the device alone;
  releasing a buffer changes nothing. Flushing changes no contents, always returns, and when it
  reports no error the device holds the contents, that is, the bytes last written, of every block of
  the flushed devices, cached or not.
\<close>

theorem bcache_transparent:
  assumes "disk_ok ops disk" and "bcache_inv disk s"
  shows "(\<forall>b n r s'. bread ops s b n = Some (r, s') \<longrightarrow>
       bcache_inv disk s' \<and> bcontent disk s' = bcontent disk s \<and>
       (\<forall>k. r = Some k \<longrightarrow> k = (b, n) \<and> buf_data s' k = Some (bcontent disk s k))) \<and>
    (\<forall>b n. buf_data s (b, n) \<noteq> None \<or>
       (\<exists>bh s1 data s2. alloc_buffer s b n (bd_block_size (bk_bdev s b)) = Some (Some bh, s1) \<and>
          bdev_read_blocks ops s1 (Some b) n 1 = (Inr data, s2)) \<longrightarrow>
       (\<exists>s'. bread ops s b n = Some (Some (b, n), s'))) \<and>
    (\<forall>k d s1. buf_data s k \<noteq> None \<and> s1 = mark_buffer_dirty (set_data s k d) (Some k) \<longrightarrow>
       bcache_inv disk s1 \<and> bcontent disk s1 = (bcontent disk s)(k := d) \<and> bk_hw s1 = bk_hw s) \<and>
    bcache_inv disk (brelse s key) \<and> bcontent disk (brelse s key) = bcontent disk s \<and>
    (\<exists>err s'. sync_dirty_buffers ops s dev = Some (err, s') \<and> bcache_inv disk s' \<and>
       bcontent disk s' = bcontent disk s \<and>
       (err = None \<longrightarrow> (\<forall>k. dev = None \<or> dev = Some (fst k) \<longrightarrow> disk (bk_hw s') k = bcontent disk s k)))"
proof (intro conjI)
  show "\<forall>b n r s'. bread ops s b n = Some (r, s') \<longrightarrow>
       bcache_inv disk s' \<and> bcontent disk s' = bcontent disk s \<and>
       (\<forall>k. r = Some k \<longrightarrow> k = (b, n) \<and> buf_data s' k = Some (bcontent disk s k))"
  proof (intro allI impI)
    fix b n r s' assume "bread ops s b n = Some (r, s')"
    from bread_transparent [OF assms this]
    show "bcache_inv disk s' \<and> bcontent disk s' = bcontent disk s \<and>
       (\<forall>k. r = Some k \<longrightarrow> k = (b, n) \<and> buf_data s' k = Some (bcontent disk s k))"
      by (auto simp: buf_data_def)
  qed
  show "\<forall>b n. buf_data s (b, n) \<noteq> None \<or>
       (\<exists>bh s1 data s2. alloc_buffer s b n (bd_block_size (bk_bdev s b)) = Some (Some bh, s1) \<and>
          bdev_read_blocks ops s1 (Some b) n 1 = (Inr data, s2)) \<longrightarrow>
       (\<exists>s'. bread ops s b n = Some (Some (b, n), s'))"
  proof (intro allI impI)
    fix b n assume h: "buf_data s (b, n) \<noteq> None \<or>
       (\<exists>bh s1 data s2. alloc_buffer s b n (bd_block_size (bk_bdev s b)) = Some (Some bh, s1) \<and>
          bdev_read_blocks ops s1 (Some b) n 1 = (Inr data, s2))"
    show "\<exists>s'. bread ops s b n = Some (Some (b, n), s')"
    proof (cases "bk_bufs s (b, n)")
      case None
      with h show ?thesis using bread_brings_in [OF assms(2) None] by (auto simp: buf_data_def)
    next
      case (Some bh)
      then show ?thesis using bread_hit [OF assms(2), of b n ops] by simp
    qed
  qed
  show "\<forall>k d s1. buf_data s k \<noteq> None \<and> s1 = mark_buffer_dirty (set_data s k d) (Some k) \<longrightarrow>
       bcache_inv disk s1 \<and> bcontent disk s1 = (bcontent disk s)(k := d) \<and> bk_hw s1 = bk_hw s"
  proof (intro allI impI)
    fix k d s1 assume h: "buf_data s k \<noteq> None \<and> s1 = mark_buffer_dirty (set_data s k d) (Some k)"
    then have "s1 = write_buf s k d" by (simp add: write_buf_def)
    then show "bcache_inv disk s1 \<and> bcontent disk s1 = (bcontent disk s)(k := d) \<and> bk_hw s1 = bk_hw s"
      using write_buf_inv [OF assms(2), of k d] write_buf_content [of s k disk d] h by (simp add: write_buf_eq upd_buffer_def)
  qed
  show "\<exists>err s'. sync_dirty_buffers ops s dev = Some (err, s') \<and> bcache_inv disk s' \<and>
       bcontent disk s' = bcontent disk s \<and>
       (err = None \<longrightarrow> (\<forall>k. dev = None \<or> dev = Some (fst k) \<longrightarrow> disk (bk_hw s') k = bcontent disk s k))"
    by (rule sync_flushes [OF assms])
qed (rule brelse_transparent [OF assms(2)])+

text \<open>A device that keeps its blocks in memory, and a cache with one dirty block of it.\<close>

definition ram_ops :: "(bkey \<Rightarrow> bytes) ops_table" where
  "ram_ops t = \<lparr>bo_open = None, bo_release = None, bo_request = Some (\<lambda>b n c w h.
     case w of None \<Rightarrow> (Inr (h (b, n)), h) | Some bs \<Rightarrow> (Inr [], h((b, n) := bs)))\<rparr>"

definition ram_cache :: "(bkey \<Rightarrow> bytes) blk_state" where
  "ram_cache = \<lparr>bk_mm = demo_mm, g_blkdevs = (\<lambda>_. None), g_bdev_list = [5],
     bk_bdev = (\<lambda>_. \<lparr>bd_dev = 0, bd_block_size = 2, bd_block_size_bits = 1, bd_ops = Some 1, bd_ref_count = 1,
                                 bd_private = None, bd_start_lba = 0, bd_nr_blocks = 0\<rparr>),
     bk_bufs = [(5, 7) \<mapsto> \<lparr>b_self = 0, b_blocknr = 7, b_size = 2, b_ref_count = 0, b_dirty = True,
       b_addr = 0, b_data = [1, 2], b_bdev = 5\<rparr>],
     g_bcache_tree = \<lparr>rb_root = Some (5, 7), rb_nd = (\<lambda>_. zero_node\<lparr>rb_col := RB_COLOR_BLACK\<rparr>)\<rparr>,
     g_bcache_lru = [(5, 7)], bk_hw = (\<lambda>_. [0, 0])\<rparr>"

lemma ram_disk_ok: "disk_ok ram_ops (\<lambda>h. h)"
  by (auto simp: disk_ok_def ram_ops_def)

lemma ram_cache_inv: "bcache_inv (\<lambda>h. h) ram_cache"
  by (auto simp: bcache_inv_def ram_cache_def bcache_tree_ok_def holds_def rb_valid_def zero_node_def
      intro!: exI [of _ "Nd RB_COLOR_BLACK Lf (5, 7) Lf"])

theorem bcache_transparent_witness:
  "\<exists>s1 s2 s3. bread ram_ops ram_cache 5 7 = Some (Some (5, 7), s1) \<and> buf_data s1 (5, 7) = Some [1, 2] \<and>
     s2 = mark_buffer_dirty (set_data s1 (5, 7) [8, 9]) (Some (5, 7)) \<and> bk_hw s2 (5, 7) = [0, 0] \<and>
     sync_dirty_buffers ram_ops s2 None = Some (None, s3) \<and> bk_hw s3 (5, 7) = [8, 9] \<and> bk_hw s3 (5, 8) = [0, 0]"
proof -
  have c: "bcontent (\<lambda>h. h) ram_cache (5, 7) = [1, 2]" "bcontent (\<lambda>h. h) ram_cache (5, 8) = [0, 0]"
    by (simp_all add: bcontent_def ram_cache_def)
  note t0 = bcache_transparent [OF ram_disk_ok ram_cache_inv, of None None]
  have "buf_data ram_cache (5, 7) \<noteq> None" by (simp add: buf_data_def ram_cache_def)
  then obtain s1 where s1: "bread ram_ops ram_cache 5 7 = Some (Some (5, 7), s1)"
    using conjunct1 [OF conjunct2 [OF t0], rule_format, of 5 7] by auto
  then have i1: "bcache_inv (\<lambda>h. h) s1" "bcontent (\<lambda>h. h) s1 = bcontent (\<lambda>h. h) ram_cache" "buf_data s1 (5, 7) = Some [1, 2]"
    using conjunct1 [OF t0, rule_format, OF s1] c by simp_all
  note t1 = bcache_transparent [OF ram_disk_ok i1(1), of None None]
  define s2 where "s2 = mark_buffer_dirty (set_data s1 (5, 7) [8, 9]) (Some (5, 7))"
  have i2: "bcache_inv (\<lambda>h. h) s2" "bcontent (\<lambda>h. h) s2 = (bcontent (\<lambda>h. h) s1)((5, 7) := [8, 9])" "bk_hw s2 = bk_hw s1"
    using conjunct1 [OF conjunct2 [OF conjunct2 [OF t1]], rule_format, of "(5, 7)" s2 "[8, 9]"] i1(3) by (simp_all add: s2_def)
  have e1: "s1 = upd_buffer ram_cache (5, 7) (\<lambda>b. b\<lparr>b_ref_count := b_ref_count b + 1\<rparr>)"
    using s1 bread_hit [OF ram_cache_inv, of 5 7 ram_ops] by (simp add: ram_cache_def)
  have "\<exists>s3. sync_dirty_buffers ram_ops s2 None = Some (None, s3)" unfolding s2_def e1
    by (simp add: sync_dirty_buffers_def ram_cache_def ram_ops_def bdev_write_blocks_def bdev_request_def
        mark_buffer_dirty_def set_data_def upd_buffer_def)
  then obtain s3 where s3: "sync_dirty_buffers ram_ops s2 None = Some (None, s3)" ..
  obtain err s' where "sync_dirty_buffers ram_ops s2 None = Some (err, s')"
    "err = None \<longrightarrow> (\<forall>k. bk_hw s' k = bcontent (\<lambda>h. h) s2 k)"
    using bcache_transparent [OF ram_disk_ok i2(1), of None None] by auto
  with s3 have "\<forall>k. bk_hw s3 k = bcontent (\<lambda>h. h) s2 k" by simp
  then have "bk_hw s3 (5, 7) = [8, 9]" "bk_hw s3 (5, 8) = [0, 0]" by (simp_all add: i1(2) i2(2) c)
  moreover have "bk_hw s2 (5, 7) = [0, 0]" by (simp add: i2(3) e1 upd_buffer_def ram_cache_def)
  ultimately show ?thesis using s1 i1(3) s2_def s3 by blast
qed

section \<open>The cache as an interface\<close>

text \<open>
  What a file system relies on: a block that was fetched can be looked at and overwritten until it is
  released, and through these operations the device is an array of blocks. A block in the cache can
  always be fetched; another one can fail for want of memory or because of the device.
\<close>

locale block_store =
  fixes fetch :: "'s \<Rightarrow> bkey \<Rightarrow> (bkey option \<times> 's) option"
    and peek :: "'s \<Rightarrow> bkey \<Rightarrow> bytes option"
    and poke :: "'s \<Rightarrow> bkey \<Rightarrow> bytes \<Rightarrow> 's"
    and release :: "'s \<Rightarrow> bkey \<Rightarrow> 's"
    and inv :: "'s \<Rightarrow> bool"
    and content :: "'s \<Rightarrow> bkey \<Rightarrow> bytes"
  assumes fetch_inv: "inv s \<Longrightarrow> fetch s k = Some (r, s') \<Longrightarrow> inv s'"
    and fetch_content: "inv s \<Longrightarrow> fetch s k = Some (r, s') \<Longrightarrow> content s' = content s"
    and fetch_peek: "inv s \<Longrightarrow> fetch s k = Some (Some j, s') \<Longrightarrow> j = k \<and> peek s' k = Some (content s k)"
    and fetch_cached: "inv s \<Longrightarrow> peek s k \<noteq> None \<Longrightarrow> \<exists>s'. fetch s k = Some (Some k, s') \<and> (\<forall>j. peek s' j = peek s j)"
    and poke_inv: "inv s \<Longrightarrow> peek s k \<noteq> None \<Longrightarrow> inv (poke s k d)"
    and poke_content: "peek s k \<noteq> None \<Longrightarrow> content (poke s k d) = (content s)(k := d)"
    and poke_peek: "peek s k \<noteq> None \<Longrightarrow> peek (poke s k d) j = (if j = k then Some d else peek s j)"
    and release_inv: "inv s \<Longrightarrow> inv (release s k)"
    and release_content: "inv s \<Longrightarrow> content (release s k) = content s"
    and release_peek: "peek (release s k) j = peek s j"
begin

text \<open>Fetching a block, looking at it and releasing it.\<close>

lemma look:
  assumes "inv s" and "fetch s k = Some (Some j, s')"
  shows "peek s' j = Some (content s k)" and "inv (release s' j)" and "content (release s' j) = content s"
  using assms by (auto simp: fetch_inv fetch_content fetch_peek release_inv release_content dest: fetch_peek)

text \<open>Fetching a block, replacing its contents and releasing it.\<close>

lemma replace:
  assumes "inv s" and "fetch s k = Some (Some j, s')"
  shows "peek s' j = Some (content s k)" and "inv (release (poke s' j d) j)"
    and "content (release (poke s' j d) j) = (content s)(k := d)"
proof -
  have j: "j = k" "peek s' k = Some (content s k)" using fetch_peek [OF assms] by auto
  have i: "inv s'" "content s' = content s" using fetch_inv fetch_content assms by auto
  have p: "peek s' j \<noteq> None" using j by simp
  show "peek s' j = Some (content s k)" using j by simp
  show "inv (release (poke s' j d) j)" by (intro release_inv poke_inv i p)
  show "content (release (poke s' j d) j) = (content s)(k := d)"
    using release_content [OF poke_inv [OF i(1) p, of d], of j] poke_content [OF p, of d] i(2) j(1) by simp
qed

lemma look_cached:
  assumes "inv s" and "peek s k \<noteq> None"
  shows "\<exists>s'. fetch s k = Some (Some k, s') \<and> (\<forall>j. peek (release s' k) j = peek s j)"
  using fetch_cached [OF assms] by (auto simp: release_peek)

lemma replace_cached:
  assumes "inv s" and "peek s k \<noteq> None"
  shows "\<exists>s'. fetch s k = Some (Some k, s') \<and>
    (\<forall>j. peek s j \<noteq> None \<longrightarrow> peek (release (poke s' k d) k) j \<noteq> None)"
proof -
  obtain s' where s': "fetch s k = Some (Some k, s')" "\<forall>j. peek s' j = peek s j"
    using fetch_cached [OF assms] by blast
  then have "peek s' k \<noteq> None" using assms(2) by simp
  with s' show ?thesis by (auto simp: release_peek poke_peek)
qed

end

interpretation bc: block_store "\<lambda>s k. bread ops s (fst k) (snd k)" buf_data write_buf "\<lambda>s k. brelse s (Some k)"
  "\<lambda>s. disk_ok ops disk \<and> bcache_inv disk s" "bcontent disk" for ops :: "'d ops_table" and disk
proof (unfold_locales, goal_cases)
  case (1 s k r s')
  then show ?case using bread_transparent(1) by blast
next
  case (2 s k r s')
  then show ?case using bread_transparent(2) by blast
next
  case (3 s k j s')
  then show ?case using bread_transparent(3) [of ops disk s "fst k" "snd k" "Some j" s' j] by (auto simp: buf_data_def)
next
  case (4 s k)
  then have "bk_bufs s (fst k, snd k) \<noteq> None" by (simp add: buf_data_def)
  with 4(1) show ?case using bread_hit [of disk s "fst k" "snd k" ops] by (simp add: buf_data_upd) (simp add: buf_data_def)
next
  case (5 s k d)
  then show ?case by (simp add: write_buf_inv)
next
  case (6 s k d)
  then show ?case by (rule write_buf_content)
next
  case (7 s k d j)
  then show ?case unfolding write_buf_eq buf_data_upd by (auto simp: buf_data_def)
next
  case (8 s k)
  then show ?case using brelse_transparent(1) by blast
next
  case (9 s k)
  then show ?case using brelse_transparent(2) by blast
next
  case (10 s k j)
  then show ?case by (simp add: brelse_def buf_data_upd) (simp add: buf_data_def)
qed

text \<open>Reading a block leaves the bytes of the buffers that are in the cache alone.\<close>

lemma bread_keeps:
  assumes "bcache_inv disk s" and "bread ops s b n = Some (r, s')" and "buf_data s k \<noteq> None"
  shows "buf_data s' k = buf_data s k"
proof (cases "bk_bufs s (b, n)")
  case (Some bh)
  then show ?thesis using assms(2) bread_hit [OF assms(1), of b n ops] by (auto simp: buf_data_upd) (auto simp: buf_data_def)
next
  case None
  then have k: "k \<noteq> (b, n)" using assms(3) by (auto simp: buf_data_def)
  have rd: "bk_bufs s2 = bk_bufs s1" if "bdev_read_blocks ops s1 (Some b) n 1 = (q, s2)" for s1 s2 q
    using that by (auto simp: bdev_read_blocks_def bdev_request_def split: option.splits prod.splits)
  show ?thesis
    using assms(2) k unfolding bread_miss [OF assms(1) None] buf_data_def
    by (auto simp: Let_def split: bind_splits option.splits prod.splits sum.splits
        dest!: alloc_buffer_frame(1) rd free_buffer_frame(1))
qed

section \<open>Fetching a sequence of blocks\<close>

text \<open>
  \<open>fetchable ops s b ns\<close>: the blocks \<open>ns\<close> of device \<open>b\<close> can be read one after the other, each released
  before the next; cached ones always can, the others when there is memory and the device delivers
  them.
\<close>

fun fetchable :: "'d ops_table \<Rightarrow> 'd blk_state \<Rightarrow> u64 \<Rightarrow> u64 list \<Rightarrow> bool" where
  "fetchable ops s b [] \<longleftrightarrow> True"
| "fetchable ops s b (n # ns) \<longleftrightarrow>
     (case bread ops s b n of Some (Some k, s1) \<Rightarrow> fetchable ops (brelse s1 (Some k)) b ns | _ \<Rightarrow> False)"

lemma fetchable_cached:
  assumes "disk_ok ops disk \<and> bcache_inv disk s" and "\<forall>n \<in> set ns. buf_data s (b, n) \<noteq> None"
  shows "fetchable ops s b ns"
  using assms
proof (induction ns arbitrary: s)
  case (Cons n ns)
  obtain s1 where s1: "bread ops s b n = Some (Some (b, n), s1)" "\<forall>j. buf_data (brelse s1 (Some (b, n))) j = buf_data s j"
    using bc.look_cached [OF Cons.prems(1), of "(b, n)"] Cons.prems(2) by auto
  have "disk_ok ops disk \<and> bcache_inv disk (brelse s1 (Some (b, n)))"
    using bc.look(2) [OF Cons.prems(1), of "(b, n)" "(b, n)" s1] s1(1) by simp
  with Cons.IH Cons.prems(2) s1 show ?case by simp
qed simp

text \<open>What the bytes in the buffers are makes no difference to that.\<close>

definition strip :: "buffer_head \<Rightarrow> buffer_head" where
  "strip b = b\<lparr>b_data := [], b_dirty := False\<rparr>"

definition same_shape :: "'d blk_state \<Rightarrow> 'd blk_state \<Rightarrow> bool" where
  "same_shape s s' \<longleftrightarrow> (\<exists>B. s' = s\<lparr>bk_bufs := B\<rparr> \<and> (\<forall>k. map_option strip (B k) = map_option strip (bk_bufs s k)))"

lemma same_shape_refl: "same_shape s s"
  unfolding same_shape_def by (rule exI [of _ "bk_bufs s"]) simp

lemma same_shape_trans: "same_shape s s' \<Longrightarrow> same_shape s' s'' \<Longrightarrow> same_shape s s''"
  by (auto simp: same_shape_def)

lemma same_shape_upd:
  assumes "same_shape s s'" and "\<And>b. strip (f b) = strip (g (strip b))" and "\<And>b. strip (h b) = strip (g (strip b))"
  shows "same_shape (upd_buffer s k f) (upd_buffer s' k h)"
proof -
  obtain B where B: "s' = s\<lparr>bk_bufs := B\<rparr>" "\<forall>k. map_option strip (B k) = map_option strip (bk_bufs s k)"
    using assms(1) by (auto simp: same_shape_def)
  have "map_option strip (map_option h (B k)) = map_option strip (map_option f (bk_bufs s k))"
    using B(2) [rule_format, of k] assms(2,3) by (cases "B k"; cases "bk_bufs s k") auto
  then show ?thesis
    unfolding same_shape_def by (intro exI [of _ "B(k := map_option h (B k))"]) (use B in \<open>auto simp: upd_buffer_def\<close>)
qed

lemma alloc_buffer_shape:
  "alloc_buffer (s\<lparr>bk_bufs := B\<rparr>) b n z = map_option (\<lambda>(r, s1). (r, s1\<lparr>bk_bufs := B\<rparr>)) (alloc_buffer s b n z)"
  by (auto simp: alloc_buffer_def map_conv_bind_option split: option.split intro!: bind_option_cong)

lemma bdev_read_shape:
  "bdev_read_blocks ops (s\<lparr>bk_bufs := B\<rparr>) b n c = (case bdev_read_blocks ops s b n c of (r, s1) \<Rightarrow> (r, s1\<lparr>bk_bufs := B\<rparr>))"
  by (auto simp: bdev_read_blocks_def bdev_request_def split: option.split prod.split)

lemma free_buffer_shape: "free_buffer (s\<lparr>bk_bufs := B\<rparr>) bh = map_option (\<lambda>s1. s1\<lparr>bk_bufs := B\<rparr>) (free_buffer s bh)"
  by (auto simp: free_buffer_def map_conv_bind_option intro!: bind_option_cong)

lemma strip_key: "strip x = strip y \<Longrightarrow> b_bdev x = b_bdev y \<and> b_blocknr x = b_blocknr y"
proof -
  have "b_bdev (strip b) = b_bdev b" "b_blocknr (strip b) = b_blocknr b" for b by (simp_all add: strip_def)
  then show "strip x = strip y \<Longrightarrow> b_bdev x = b_bdev y \<and> b_blocknr x = b_blocknr y" by metis
qed

lemma node_cmp_shape:
  assumes "\<forall>k. map_option strip (B k) = map_option strip (C k)"
  shows "bcache_node_cmp (s\<lparr>bk_bufs := B\<rparr>) = bcache_node_cmp (s\<lparr>bk_bufs := C\<rparr>)"
proof -
  have "b_bdev (the (B k)) = b_bdev (the (C k)) \<and> b_blocknr (the (B k)) = b_blocknr (the (C k))" for k
    using assms [rule_format, of k] by (cases "B k"; cases "C k") (auto dest: strip_key)
  then show ?thesis by (simp add: fun_eq_iff bcache_node_cmp_def bcache_cmp_def)
qed

lemma bread_shape:
  assumes "bcache_inv disk s" and "bcache_inv disk s'" and "same_shape s s'" and "bread ops s b n = Some (r, s1)"
  shows "\<exists>s1'. bread ops s' b n = Some (r, s1') \<and> same_shape s1 s1'"
proof -
  obtain B where B: "s' = s\<lparr>bk_bufs := B\<rparr>" "\<forall>k. map_option strip (B k) = map_option strip (bk_bufs s k)"
    using assms(3) by (auto simp: same_shape_def)
  have dom: "B (b, n) = None \<longleftrightarrow> bk_bufs s (b, n) = None" using B(2) [rule_format, of "(b, n)"] by auto
  show ?thesis
  proof (cases "bk_bufs s (b, n)")
    case (Some bh)
    then have "bread ops s' b n = Some (r, upd_buffer s' (b, n) (\<lambda>b. b\<lparr>b_ref_count := b_ref_count b + 1\<rparr>))"
      "s1 = upd_buffer s (b, n) (\<lambda>b. b\<lparr>b_ref_count := b_ref_count b + 1\<rparr>)"
      using bread_hit [OF assms(1), of b n ops] bread_hit [OF assms(2), of b n ops] assms(4) dom B(1) by simp_all
    then show ?thesis
      using same_shape_upd [OF assms(3), of "\<lambda>b. b\<lparr>b_ref_count := b_ref_count b + 1\<rparr>"
        "\<lambda>b. b\<lparr>b_ref_count := b_ref_count b + 1\<rparr>" "\<lambda>b. b\<lparr>b_ref_count := b_ref_count b + 1\<rparr>"] by (simp add: strip_def)
  next
    case None
    note miss = bread_miss [OF assms(1) None, of ops]
    have "bk_bufs s' (b, n) = None" using None dom B(1) by simp
    note miss' = bread_miss [OF assms(2) this, of ops]
    obtain p t1 where p: "alloc_buffer s b n (bd_block_size (bk_bdev s b)) = Some (p, t1)"
      using assms(4) miss by (auto split: bind_splits)
    note f = alloc_buffer_frame(1) [OF p]
    have p': "alloc_buffer s' b n (bd_block_size (bk_bdev s' b)) = Some (p, t1\<lparr>bk_bufs := B\<rparr>)"
      by (simp add: B(1) alloc_buffer_shape p)
    have sh: "same_shape x (x\<lparr>bk_bufs := B\<rparr>)" if "bk_bufs x = bk_bufs s" for x
      unfolding same_shape_def using that B(2) by (intro exI [of _ B]) simp
    show ?thesis
    proof (cases p)
      case None
      then show ?thesis using assms(4) p p' miss miss' sh [OF f] by simp
    next
      case (Some bh)
      obtain q t2 where q: "bdev_read_blocks ops t1 (Some b) n 1 = (q, t2)" by (cases "bdev_read_blocks ops t1 (Some b) n 1")
      have t2: "bk_bufs t2 = bk_bufs s"
        using q f by (auto simp: bdev_read_blocks_def bdev_request_def split: option.splits prod.splits)
      have q': "bdev_read_blocks ops (t1\<lparr>bk_bufs := B\<rparr>) (Some b) n 1 = (q, t2\<lparr>bk_bufs := B\<rparr>)"
        by (simp add: bdev_read_shape q)
      show ?thesis
      proof (cases q)
        case (Inl e)
        then obtain t3 where t3: "free_buffer t2 bh = Some t3" "r = None" "s1 = t3"
          using assms(4) p Some q miss by (auto split: bind_splits)
        then have "bread ops s' b n = Some (None, t3\<lparr>bk_bufs := B\<rparr>)"
          using p' Some q' Inl miss' by (simp add: free_buffer_shape)
        then show ?thesis using t3 sh [of t3] free_buffer_frame(1) [OF t3(1)] t2 by simp
      next
        case (Inr data)
        let ?x = "bh\<lparr>b_data := data\<rparr>"
        let ?C = "(bk_bufs s)((b, n) \<mapsto> ?x)" and ?D = "B((b, n) \<mapsto> ?x)"
        have cd: "\<forall>k. map_option strip (?D k) = map_option strip (?C k)" using B(2) by simp
        have m: "bread ops s b n = do {
            t \<leftarrow> rb_insert (bcache_node_cmp (t2\<lparr>bk_bufs := ?C\<rparr>)) (g_bcache_tree t2) (b, n);
            Some (Some (b, n), t2\<lparr>bk_bufs := ?C, g_bcache_tree := t, g_bcache_lru := g_bcache_lru t2 @ [(b, n)]\<rparr>) }"
          using p Some q Inr miss t2 by (simp add: Let_def)
        have m': "bread ops s' b n = do {
            t \<leftarrow> rb_insert (bcache_node_cmp (t2\<lparr>bk_bufs := ?D\<rparr>)) (g_bcache_tree t2) (b, n);
            Some (Some (b, n), t2\<lparr>bk_bufs := ?D, g_bcache_tree := t, g_bcache_lru := g_bcache_lru t2 @ [(b, n)]\<rparr>) }"
          using p' Some q' Inr miss' by (simp add: Let_def)
        obtain t where t: "rb_insert (bcache_node_cmp (t2\<lparr>bk_bufs := ?C\<rparr>)) (g_bcache_tree t2) (b, n) = Some t" "r = Some (b, n)"
          "s1 = t2\<lparr>bk_bufs := ?C, g_bcache_tree := t, g_bcache_lru := g_bcache_lru t2 @ [(b, n)]\<rparr>"
          using assms(4) m by (auto split: bind_splits)
        have "bread ops s' b n = Some (r, s1\<lparr>bk_bufs := ?D\<rparr>)"
          unfolding m' node_cmp_shape [OF cd] t(1) by (simp add: t(2,3))
        moreover have "same_shape s1 (s1\<lparr>bk_bufs := ?D\<rparr>)"
          unfolding same_shape_def by (intro exI [of _ ?D]) (use cd t(3) in simp)
        ultimately show ?thesis by blast
      qed
    qed
  qed
qed

lemma brelse_shape: "same_shape s s' \<Longrightarrow> same_shape (brelse s r) (brelse s' r)"
proof (cases r)
  case (Some k)
  let ?f = "\<lambda>b. b\<lparr>b_ref_count := (if b_ref_count b - 1 < 0 then 0 else b_ref_count b - 1)\<rparr>"
  assume "same_shape s s'"
  then show ?thesis unfolding brelse_def Some option.case by (rule same_shape_upd [of s s' ?f ?f]) (simp_all add: strip_def)
qed (simp add: brelse_def)

lemma fetchable_shape:
  assumes "disk_ok ops disk" and "bcache_inv disk s" and "bcache_inv disk s'" and "same_shape s s'" and "fetchable ops s b ns"
  shows "fetchable ops s' b ns"
  using assms(2-5)
proof (induction ns arbitrary: s s')
  case (Cons n ns)
  obtain k s1 where s1: "bread ops s b n = Some (Some k, s1)" "fetchable ops (brelse s1 (Some k)) b ns"
    using Cons.prems(4) by (auto split: option.splits)
  obtain s1' where s1': "bread ops s' b n = Some (Some k, s1')" "same_shape s1 s1'"
    using bread_shape [OF Cons.prems(1-3) s1(1)] by blast
  have "bcache_inv disk (brelse s1 (Some k))" "bcache_inv disk (brelse s1' (Some k))"
    using bread_transparent(1) [OF assms(1) Cons.prems(1) s1(1)] bread_transparent(1) [OF assms(1) Cons.prems(2) s1'(1)]
    by (simp_all add: brelse_transparent(1))
  moreover have "same_shape (brelse s1 (Some k)) (brelse s1' (Some k))"
    by (rule brelse_shape [OF s1'(2)])
  ultimately show ?case using Cons.IH s1(2) s1'(1) by simp
qed simp

lemma write_buf_shape: "same_shape s (write_buf s k d)"
proof -
  have "same_shape (upd_buffer s k (\<lambda>b. b)) (upd_buffer s k (\<lambda>b. b\<lparr>b_data := d, b_dirty := True\<rparr>))"
    by (rule same_shape_upd [OF same_shape_refl, of _ "\<lambda>b. b"]) (simp_all add: strip_def)
  moreover have "upd_buffer s k (\<lambda>b. b) = s" by (simp add: upd_buffer_def option.map_ident)
  ultimately show ?thesis by (simp add: write_buf_eq)
qed

end
