(* ===== verification/Ext4.thy ===== *)
theory Ext4
  imports Block Endian
begin

text \<open>
  The ext4 backend, \<open>kernel/fs/backend/ext4fs\<close>: extent maps in the inode (\<open>extent.c\<close>), block and
  inode bitmaps, directory blocks (\<open>dir.c\<close>), conversion of inodes from and to disk (\<open>inode.c\<close>) and
  file data (\<open>file.c\<close>), on the buffer cache of \<open>Block\<close>. \<open>ext4_node\<close> holds the fields of
  \<open>struct inode\<close> and \<open>struct ext4_inode_info\<close> that the backend uses. A loop over directory entries
  that meets a record of length zero never ends in C, and an access outside a buffer is undefined;
  both are \<open>None\<close>.
\<close>

section \<open>State\<close>

record ext4_node =
  en_ino :: u64
  en_mode :: u16
  en_nlink :: u32
  en_uid :: u32
  en_gid :: u32
  en_size :: u64
  en_blocks :: u64
  en_info :: "bytes option"
  en_dirty :: bool
  i_op :: "u64 option"
  i_fop :: "u64 option"

record ext4_sb =
  es_bdev :: "u64 option"
  es_blocksize :: u32
  es_group_desc :: "bkey list"
  es_inodes_per_group :: u32
  es_blocks_per_group :: u32
  es_groups_count :: u32
  es_first_data_block :: u32
  es_log_block_size :: u32
  es_inode_size :: u32

definition EXT4_EXTENT_HEADER_MAGIC :: u16 where "EXT4_EXTENT_HEADER_MAGIC = 0xF30A"
definition EXT4_FT_DIR :: u8 where "EXT4_FT_DIR = 2"
definition EXT4_FT_REG_FILE :: u8 where "EXT4_FT_REG_FILE = 1"
definition sizeof_i_data :: nat where "sizeof_i_data = 60"

definition mark_inode_dirty :: "'n ext4_node_scheme \<Rightarrow> 'n ext4_node_scheme" where
  "mark_inode_dirty n = n\<lparr>en_dirty := True\<rparr>"

definition get_bytes :: "bytes \<Rightarrow> nat \<Rightarrow> nat \<Rightarrow> bytes option" where
  "get_bytes d off n = (if off + n \<le> length d then Some (take n (drop off d)) else None)"

section \<open>Extents\<close>

record ext4_extent =
  ee_block :: u32
  ee_len :: u16
  ee_start_hi :: u16
  ee_start_lo :: u32

definition extent_off :: "nat \<Rightarrow> nat" where
  "extent_off i = 12 + 12 * i"

definition rd_extent :: "bytes \<Rightarrow> nat \<Rightarrow> ext4_extent option" where
  "rd_extent d i = do {
     b \<leftarrow> get_le 4 d (extent_off i);
     l \<leftarrow> get_le 2 d (extent_off i + 4);
     hi \<leftarrow> get_le 2 d (extent_off i + 6);
     lo \<leftarrow> get_le 4 d (extent_off i + 8);
     Some \<lparr>ee_block = b, ee_len = l, ee_start_hi = hi, ee_start_lo = lo\<rparr> }"

definition extent_phys :: "ext4_extent \<Rightarrow> u64" where
  "extent_phys e = push_bit 32 (ucast (ee_start_hi e)) OR ucast (ee_start_lo e)"

fun get_block_loop :: "bytes \<Rightarrow> u32 \<Rightarrow> nat list \<Rightarrow> (errno + u64) option" where
  "get_block_loop d iblock [] = Some (Inl ENOSPC)"
| "get_block_loop d iblock (i # is) = do {
     e \<leftarrow> rd_extent d i;
     (if ee_block e \<le> iblock \<and> iblock < ee_block e + ucast (ee_len e)
      then Some (Inr (extent_phys e + ucast (iblock - ee_block e)))
      else get_block_loop d iblock is) }"

definition ext4_get_block :: "'n ext4_node_scheme \<Rightarrow> u32 \<Rightarrow> (errno + u64) option" where
  "ext4_get_block n iblock =
     (case en_info n of
        None \<Rightarrow> Some (Inl EINVAL)
      | Some d \<Rightarrow> do {
          magic \<leftarrow> get_le 2 d 0;
          (if magic \<noteq> EXT4_EXTENT_HEADER_MAGIC then Some (Inl EIO)
           else do {
             c \<leftarrow> get_le 2 d 2;
             get_block_loop d iblock [0 ..< unat (c :: u16)] }) })"

text \<open>An extent header that is not there yet is written first.\<close>

definition extent_header :: "bytes \<Rightarrow> bytes option" where
  "extent_header d = do {
     magic \<leftarrow> get_le 2 d 0;
     (if magic \<noteq> EXT4_EXTENT_HEADER_MAGIC
      then do {
        d1 \<leftarrow> put_le 2 d 0 EXT4_EXTENT_HEADER_MAGIC;
        d2 \<leftarrow> put_le 2 d1 2 (0 :: u16);
        d3 \<leftarrow> put_le 2 d2 4 (of_nat ((sizeof_i_data - 12) div 12) :: u16);
        put_le 2 d3 6 (0 :: u16) }
      else Some d) }"

definition try_append :: "bytes \<Rightarrow> nat \<Rightarrow> u32 \<Rightarrow> u64 \<Rightarrow> bytes option option" where
  "try_append d n iblock pblock =
     (if n = 0 then Some None
      else do {
        e \<leftarrow> rd_extent d (n - 1);
        (if iblock = ee_block e + ucast (ee_len e) \<and> pblock = extent_phys e + ucast (ee_len e) \<and> ee_len e < 32768
         then do { d1 \<leftarrow> put_le 2 d (extent_off (n - 1) + 4) (ee_len e + 1); Some (Some d1) }
         else Some None) })"

definition add_extent :: "bytes \<Rightarrow> nat \<Rightarrow> u32 \<Rightarrow> u64 \<Rightarrow> bytes option" where
  "add_extent d k iblock pblock = do {
     d1 \<leftarrow> put_le 4 d (extent_off k) iblock;
     d2 \<leftarrow> put_le 2 d1 (extent_off k + 4) (1 :: u16);
     d3 \<leftarrow> put_le 4 d2 (extent_off k + 8) (ucast (pblock AND 0xffffffff) :: u32);
     d4 \<leftarrow> put_le 2 d3 (extent_off k + 6) (ucast (drop_bit 16 pblock) :: u16);
     put_le 2 d4 2 (of_nat (k + 1) :: u16) }"

definition ext4_set_block :: "ext4_sb \<Rightarrow> 'n ext4_node_scheme \<Rightarrow> u32 \<Rightarrow> u64 \<Rightarrow> ((errno + unit) \<times> 'n ext4_node_scheme) option" where
  "ext4_set_block sb n iblock pblock =
     (case en_info n of
        None \<Rightarrow> Some (Inl EINVAL, n)
      | Some d0 \<Rightarrow> do {
          d \<leftarrow> extent_header d0;
          c \<leftarrow> get_le 2 d 2;
          mx \<leftarrow> get_le 2 d 4;
          let k = unat (c :: u16);
          let out = (\<lambda>d'. (Inr (), mark_inode_dirty (n\<lparr>en_info := Some d',
                       en_blocks := en_blocks n + ucast (es_blocksize sb div 512)\<rparr>)));
          a \<leftarrow> try_append d k iblock pblock;
          (case a of
             Some d1 \<Rightarrow> Some (out d1)
           | None \<Rightarrow>
               if c \<ge> (mx :: u16) then Some (Inl ENOSPC, n\<lparr>en_info := Some d\<rparr>)
               else map_option out (add_extent d k iblock pblock)) })"

definition ext4_truncate_blocks :: "'n ext4_node_scheme \<Rightarrow> (errno + unit) \<times> 'n ext4_node_scheme" where
  "ext4_truncate_blocks n =
     (case en_info n of
        None \<Rightarrow> (Inl EINVAL, n)
      | Some d \<Rightarrow> (Inr (), mark_inode_dirty (n\<lparr>en_info := Some (replicate sizeof_i_data 0), en_size := 0, en_blocks := 0\<rparr>)))"

section \<open>Bitmaps\<close>

text \<open>The bytes of a buffer as the 64-bit words of a bitmap.\<close>

fun words_of :: "bytes \<Rightarrow> u64 list" where
  "words_of (a # b # c # d # e # f # g # h # bs) = of_nat (le_nat [a, b, c, d, e, f, g, h]) # words_of bs"
| "words_of _ = []"

definition bytes_of :: "u64 list \<Rightarrow> bytes" where
  "bytes_of ws = concat (map (\<lambda>w. le_bytes 8 (unat w)) ws)"

definition ext4_read_bitmap :: "'d ops_table \<Rightarrow> 'd blk_state \<Rightarrow> ext4_sb \<Rightarrow> u32 \<Rightarrow> bool \<Rightarrow> (bkey option \<times> 'd blk_state) option" where
  "ext4_read_bitmap ops s sb grp inode_bitmap = do {
     k \<leftarrow> rd (es_group_desc sb) (unat grp);
     gd \<leftarrow> buf_data s k;
     block \<leftarrow> get_le 4 gd (if inode_bitmap then 4 else 0);
     sb_bread ops s (es_bdev sb) (ucast (block :: u32)) }"

text \<open>One group: take the first clear bit below \<open>size\<close>, if there is one.\<close>

definition take_bit_in :: "'d blk_state \<Rightarrow> bkey \<Rightarrow> u32 \<Rightarrow> (nat option \<times> 'd blk_state) option" where
  "take_bit_in s k limit = do {
     d \<leftarrow> buf_data s k;
     idx \<leftarrow> find_first_zero_bit (words_of d) limit;
     (if idx < unat limit
      then do {
        ws \<leftarrow> set_bit idx (words_of d);
        let s1 = write_buf s k (bytes_of ws @ drop (8 * length ws) d);
        Some (Some idx, brelse s1 (Some k)) }
      else Some (None, brelse s (Some k))) }"

fun find_free_loop :: "'d ops_table \<Rightarrow> 'd blk_state \<Rightarrow> ext4_sb \<Rightarrow> bool \<Rightarrow> u32 \<Rightarrow> nat list \<Rightarrow> ((u32 \<times> u32) option \<times> 'd blk_state) option" where
  "find_free_loop ops s sb ino limit [] = Some (None, s)"
| "find_free_loop ops s sb ino limit (g # gs) = do {
     (bh, s1) \<leftarrow> ext4_read_bitmap ops s sb (of_nat g) ino;
     (case bh of
        None \<Rightarrow> find_free_loop ops s1 sb ino limit gs
      | Some k \<Rightarrow> do {
          (r, s2) \<leftarrow> take_bit_in s1 k limit;
          (case r of
             Some idx \<Rightarrow> Some (Some (of_nat g, of_nat idx), s2)
           | None \<Rightarrow> find_free_loop ops s2 sb ino limit gs) }) }"

definition ext4_find_free_block :: "'d ops_table \<Rightarrow> 'd blk_state \<Rightarrow> ext4_sb \<Rightarrow> ((errno + u64) \<times> 'd blk_state) option" where
  "ext4_find_free_block ops s sb = do {
     (r, s1) \<leftarrow> find_free_loop ops s sb False (es_blocks_per_group sb) [0 ..< unat (es_groups_count sb)];
     Some (case r of
             None \<Rightarrow> Inl ENOSPC
           | Some (g, idx) \<Rightarrow>
               Inr (ucast g * ucast (es_blocks_per_group sb) + ucast idx + ucast (es_first_data_block sb)), s1) }"

definition ext4_new_block :: "'d ops_table \<Rightarrow> 'd blk_state \<Rightarrow> ext4_sb \<Rightarrow> ((errno + u64) \<times> 'd blk_state) option" where
  "ext4_new_block ops s sb = ext4_find_free_block ops s sb"

definition ext4_find_free_inode :: "'d ops_table \<Rightarrow> 'd blk_state \<Rightarrow> ext4_sb \<Rightarrow> ((errno + u32) \<times> 'd blk_state) option" where
  "ext4_find_free_inode ops s sb = do {
     (r, s1) \<leftarrow> find_free_loop ops s sb True (es_inodes_per_group sb) [0 ..< unat (es_groups_count sb)];
     Some (case r of
             None \<Rightarrow> Inl ENOSPC
           | Some (g, idx) \<Rightarrow> Inr (g * es_inodes_per_group sb + idx + 1), s1) }"

section \<open>The extent map\<close>

text \<open>
  The abstract view of the 60 bytes of extent data: a header with the magic number, at most four
  extents, and what they say about a block.
\<close>

definition extents_ok :: "bytes \<Rightarrow> bool" where
  "extents_ok d \<longleftrightarrow> length d = sizeof_i_data \<and> get_le 2 d 0 = Some EXT4_EXTENT_HEADER_MAGIC \<and>
     get_le 2 d 4 = Some (4 :: u16) \<and> (\<exists>c :: u16. get_le 2 d 2 = Some c \<and> c \<le> 4)"

definition extent_count :: "bytes \<Rightarrow> nat" where
  "extent_count d = unat (the (get_le 2 d 2 :: u16 option))"

definition extents :: "bytes \<Rightarrow> ext4_extent list" where
  "extents d = map (\<lambda>i. the (rd_extent d i)) [0 ..< extent_count d]"

definition covers :: "ext4_extent \<Rightarrow> u32 \<Rightarrow> bool" where
  "covers e iblock \<longleftrightarrow> ee_block e \<le> iblock \<and> iblock < ee_block e + ucast (ee_len e)"

fun map_block :: "ext4_extent list \<Rightarrow> u32 \<Rightarrow> u64 option" where
  "map_block [] iblock = None"
| "map_block (e # es) iblock =
     (if covers e iblock then Some (extent_phys e + ucast (iblock - ee_block e)) else map_block es iblock)"

lemma rd_extent_defined: "length d = 60 \<Longrightarrow> i < 4 \<Longrightarrow> \<exists>e. rd_extent d i = Some e"
  by (simp add: rd_extent_def get_le_def extent_off_def)

lemma extents_okD:
  assumes "extents_ok d"
  shows "length d = 60" and "get_le 2 d 0 = Some EXT4_EXTENT_HEADER_MAGIC" and "get_le 2 d 4 = Some (4 :: u16)"
    and "get_le 2 d 2 = Some (of_nat (extent_count d) :: u16)" and "extent_count d \<le> 4"
  using assms by (auto simp: extents_ok_def sizeof_i_data_def extent_count_def word_le_nat_alt)

lemma get_block_loop_map:
  assumes "length d = 60" and "\<forall>i \<in> set is. i < 4"
  shows "get_block_loop d iblock is =
    Some (case map_block (map (\<lambda>i. the (rd_extent d i)) is) iblock of Some p \<Rightarrow> Inr p | None \<Rightarrow> Inl ENOSPC)"
  using assms(2)
proof (induction "is")
  case (Cons i "is")
  obtain e where "rd_extent d i = Some e" using rd_extent_defined [OF assms(1)] Cons.prems by auto
  with Cons show ?case by (auto simp: covers_def)
qed simp

lemma ext4_get_block_map:
  assumes "en_info n = Some d" and "extents_ok d"
  shows "ext4_get_block n iblock =
    Some (case map_block (extents d) iblock of Some p \<Rightarrow> Inr p | None \<Rightarrow> Inl ENOSPC)"
proof -
  note h = extents_okD [OF assms(2)]
  have "unat (of_nat (extent_count d) :: u16) = extent_count d" using h(5) by (simp add: unat_of_nat)
  then show ?thesis
    using assms(1) h get_block_loop_map [OF h(1), of "[0 ..< extent_count d]"]
    by (simp add: ext4_get_block_def extents_def)
qed

lemma map_block_append:
  "map_block (es @ fs) b = (case map_block es b of Some p \<Rightarrow> Some p | None \<Rightarrow> map_block fs b)"
  by (induction es) auto

text \<open>The low 16 bits of \<open>pblock >> 16\<close> stand where the bits from 32 on belong; below 65536 both
  are zero.\<close>

lemma phys_small:
  assumes "unat pblock < 65536" and "lo = ucast (pblock AND 0xffffffff)" and "hi = ucast (drop_bit 16 pblock)"
  shows "extent_phys \<lparr>ee_block = b, ee_len = l, ee_start_hi = hi, ee_start_lo = lo\<rparr> = pblock"
proof -
  have "drop_bit 16 pblock = 0"
    using assms(1) by (simp add: word_unat_eq_iff unat_drop_bit)
  moreover have "(ucast (ucast (pblock AND 0xffffffff) :: u32) :: u64) = pblock"
  proof -
    have m: "(0xffffffff :: u64) = mask 32" by (simp add: mask_eq_exp_minus_1)
    have "unat (pblock AND mask 32) = unat pblock" using assms(1) by (simp add: unat_and_mask)
    then have p: "pblock AND mask 32 = pblock" by (simp only: word_unat_eq_iff)
    have "unat (ucast (ucast pblock :: u32) :: u64) = unat pblock"
      using assms(1) by (simp add: unsigned_ucast_eq unat_take_bit)
    then show ?thesis unfolding m p by (simp only: word_unat_eq_iff)
  qed
  ultimately show ?thesis by (simp add: extent_phys_def assms)
qed

text \<open>What appending a block to the last extent, or a new extent, does to the list.\<close>

lemma rd_extent_frame:
  assumes "put_bytes d off xs = Some d'" and "extent_off i + 12 \<le> off \<or> off + length xs \<le> extent_off i"
  shows "rd_extent d' i = rd_extent d i"
proof -
  have "(get_le 4 d' (extent_off i) :: u32 option) = get_le 4 d (extent_off i)"
    "(get_le 2 d' (extent_off i + 4) :: u16 option) = get_le 2 d (extent_off i + 4)"
    "(get_le 2 d' (extent_off i + 6) :: u16 option) = get_le 2 d (extent_off i + 6)"
    "(get_le 4 d' (extent_off i + 8) :: u32 option) = get_le 4 d (extent_off i + 8)"
    using assms(2) by (intro get_le_put_other [OF assms(1)]; linarith)+
  then show ?thesis by (simp add: rd_extent_def)
qed

lemma header_frame:
  assumes "put_bytes d off xs = Some d'" and "12 \<le> off" and "o2 + n \<le> 12"
  shows "get_le n d' o2 = get_le n d o2"
  by (rule get_le_put_other [OF assms(1)]) (use assms(2,3) in linarith)

lemma rd_extent_put:
  assumes "length d = 60" and "i < 4"
    and "put_le 4 d (extent_off i) (b :: u32) = Some d1" and "put_le 2 d1 (extent_off i + 4) (l :: u16) = Some d2"
    and "put_le 4 d2 (extent_off i + 8) (lo :: u32) = Some d3" and "put_le 2 d3 (extent_off i + 6) (hi :: u16) = Some d4"
  shows "rd_extent d4 i = Some \<lparr>ee_block = b, ee_len = l, ee_start_hi = hi, ee_start_lo = lo\<rparr>"
proof -
  note p = assms(3-6) [THEN put_le_bytes]
  have "get_le 4 d4 (extent_off i) = Some b"
    by (simp add: get_le_put_other [OF p(4)] get_le_put_other [OF p(3)] get_le_put_other [OF p(2)]
        get_le_put_same [OF assms(3)])
  moreover have "get_le 2 d4 (extent_off i + 4) = Some l"
    by (simp add: get_le_put_other [OF p(4)] get_le_put_other [OF p(3)] get_le_put_same [OF assms(4)])
  moreover have "get_le 4 d4 (extent_off i + 8) = Some lo"
    by (simp add: get_le_put_other [OF p(4)] get_le_put_same [OF assms(5)])
  moreover have "get_le 2 d4 (extent_off i + 6) = Some hi"
    by (simp add: get_le_put_same [OF assms(6)])
  ultimately show ?thesis by (simp add: rd_extent_def)
qed

lemma try_append_some:
  assumes "extents_ok d" and "try_append d (extent_count d) iblock pblock = Some (Some d1)"
  obtains es e where "extents d = es @ [e]" and "extents_ok d1"
    and "extents d1 = es @ [e\<lparr>ee_len := ee_len e + 1\<rparr>]"
    and "iblock = ee_block e + ucast (ee_len e)" and "pblock = extent_phys e + ucast (ee_len e)" and "ee_len e < 32768"
proof -
  note h = extents_okD [OF assms(1)]
  let ?n = "extent_count d - 1"
  have n: "extent_count d \<noteq> 0" using assms(2) by (cases "extent_count d = 0") (simp_all add: try_append_def)
  obtain e where e: "rd_extent d ?n = Some e" "iblock = ee_block e + ucast (ee_len e)"
    "pblock = extent_phys e + ucast (ee_len e)" "ee_len e < 32768"
    and d1: "put_le 2 d (extent_off ?n + 4) (ee_len e + 1) = Some d1"
    using assms(2) n by (auto simp: try_append_def split: bind_splits if_splits)
  note p = put_le_bytes [OF d1]
  have l1: "length d1 = 60" using length_put_le [OF d1] h(1) by simp
  have o: "12 \<le> extent_off ?n + 4" by (simp add: extent_off_def)
  have hd1: "get_le 2 d1 0 = (get_le 2 d 0 :: u16 option)" "get_le 2 d1 2 = (get_le 2 d 2 :: u16 option)" "get_le 2 d1 4 = (get_le 2 d 4 :: u16 option)"
    using header_frame [OF p o, of 0 2] header_frame [OF p o, of 2 2] header_frame [OF p o, of 4 2] by simp_all
  have c1: "extent_count d1 = extent_count d" by (simp add: extent_count_def hd1)
  have ok1: "extents_ok d1" using assms(1) l1 hd1 by (simp add: extents_ok_def sizeof_i_data_def)
  have f: "(get_le 4 d1 (extent_off ?n) :: u32 option) = get_le 4 d (extent_off ?n)"
    "(get_le 2 d1 (extent_off ?n + 6) :: u16 option) = get_le 2 d (extent_off ?n + 6)"
    "(get_le 4 d1 (extent_off ?n + 8) :: u32 option) = get_le 4 d (extent_off ?n + 8)"
    by (rule get_le_put_other [OF p]; simp)+
  have last: "rd_extent d1 ?n = Some (e\<lparr>ee_len := ee_len e + 1\<rparr>)"
    using e(1) get_le_put_same [OF d1] f by (auto simp: rd_extent_def split: bind_splits)
  have same: "rd_extent d1 i = rd_extent d i" if "i < ?n" for i
    by (rule rd_extent_frame [OF p]) (use that in \<open>simp add: extent_off_def\<close>)
  have cnt: "[0 ..< extent_count d] = [0 ..< ?n] @ [?n]" using n by (metis Suc_pred' neq0_conv upt_Suc_append le0)
  show thesis
  proof (rule that [OF _ ok1 _ e(2-4)])
    show "extents d = map (\<lambda>i. the (rd_extent d i)) [0 ..< ?n] @ [e]"
      unfolding extents_def cnt using e(1) by simp
    show "extents d1 = map (\<lambda>i. the (rd_extent d i)) [0 ..< ?n] @ [e\<lparr>ee_len := ee_len e + 1\<rparr>]"
      unfolding extents_def c1 cnt using last same by simp
  qed
qed

definition extents_wf :: "bytes \<Rightarrow> bool" where
  "extents_wf d \<longleftrightarrow> extents_ok d \<and> (\<forall>e \<in> set (extents d). unat (ee_block e) + unat (ee_len e) < 2 ^ 32)"

definition node_ok :: "'n ext4_node_scheme \<Rightarrow> bool" where
  "node_ok n \<longleftrightarrow> (\<exists>d. en_info n = Some d \<and> length d = sizeof_i_data \<and>
     (get_le 2 d 0 = Some EXT4_EXTENT_HEADER_MAGIC \<longrightarrow> extents_wf d))"

definition block_map :: "'n ext4_node_scheme \<Rightarrow> u32 \<rightharpoonup> u64" where
  "block_map n b = (case ext4_get_block n b of Some (Inr p) \<Rightarrow> Some p | _ \<Rightarrow> None)"

lemma unat_extent_end:
  assumes "unat b + unat (l :: u16) < 2 ^ 32"
  shows "unat (b + ucast l :: u32) = unat b + unat l"
proof -
  have "unat l < 2 ^ 16" using unsigned_less [of l] by simp
  then have "unat (ucast l :: u32) = unat l" by (simp add: unsigned_ucast_eq take_bit_eq_mod)
  then show ?thesis using assms by (simp add: unat_word_ariths)
qed

lemma covers_unat:
  assumes "unat (ee_block e) + unat (ee_len e) < 2 ^ 32"
  shows "covers e b \<longleftrightarrow> unat (ee_block e) \<le> unat b \<and> unat b < unat (ee_block e) + unat (ee_len e)"
  using unat_extent_end [OF assms] by (simp add: covers_def word_le_nat_alt word_less_nat_alt)

lemma grown_extent:
  assumes "unat (ee_block e) + unat (ee_len e) < 2 ^ 32" and "iblock = ee_block e + ucast (ee_len e)"
    and "unat iblock < 2 ^ 32 - 1" and "ee_len e < 32768"
  shows "map_block [e\<lparr>ee_len := ee_len e + 1\<rparr>] =
      (map_block [e])(iblock \<mapsto> extent_phys e + ucast (ee_len e))"
    and "unat (ee_block e) + unat (ee_len e + 1) < 2 ^ 32"
proof -
  have i: "unat iblock = unat (ee_block e) + unat (ee_len e)" using unat_extent_end [OF assms(1)] assms(2) by simp
  then have i2: "unat (ee_block e) + unat (ee_len e) < 2 ^ 32 - 1" using assms(3) by simp
  have l: "unat (ee_len e + 1) = unat (ee_len e) + 1"
    using assms(4) by (simp add: unat_word_ariths word_less_nat_alt)
  show n: "unat (ee_block e) + unat (ee_len e + 1) < 2 ^ 32" using i2 l by simp
  have c: "covers (e\<lparr>ee_len := ee_len e + 1\<rparr>) b \<longleftrightarrow> covers e b \<or> b = iblock" for b
    using covers_unat [OF assms(1), of b] covers_unat [of "e\<lparr>ee_len := ee_len e + 1\<rparr>" b] n l i
    by (auto simp: word_unat_eq_iff)
  have d: "iblock - ee_block e = ucast (ee_len e)" using assms(2) by simp
  have u: "(ucast (ucast (ee_len e) :: u32) :: u64) = ucast (ee_len e)"
    by (rule bit_word_eqI) (auto simp: bit_simps dest: bit_imp_le_length)
  have p: "extent_phys (e\<lparr>ee_len := ee_len e + 1\<rparr>) = extent_phys e" by (simp add: extent_phys_def)
  have nc: "\<not> covers e iblock" using covers_unat [OF assms(1), of iblock] i by simp
  show "map_block [e\<lparr>ee_len := ee_len e + 1\<rparr>] = (map_block [e])(iblock \<mapsto> extent_phys e + ucast (ee_len e))"
    by (rule ext) (use c d u p nc in auto)
qed

lemma map_block_snoc_upd:
  assumes "map_block (es @ [e]) b = None" and "map_block [e'] = (map_block [e])(b \<mapsto> p)"
  shows "map_block (es @ [e']) = (map_block (es @ [e]))(b \<mapsto> p)"
proof (rule ext)
  fix x
  have "map_block es b = None" using assms(1) by (simp add: map_block_append split: option.splits)
  then show "map_block (es @ [e']) x = ((map_block (es @ [e]))(b \<mapsto> p)) x"
    by (simp add: map_block_append assms(2) del: map_block.simps split: option.splits)
qed

lemma try_append_cases:
  assumes "extents_ok d"
  shows "try_append d (extent_count d) iblock pblock = Some None \<or>
    (\<exists>d1. try_append d (extent_count d) iblock pblock = Some (Some d1))"
proof (cases "extent_count d = 0")
  case False
  note h = extents_okD [OF assms]
  have "extent_count d - 1 < 4" using h(5) False by simp
  then obtain e where "rd_extent d (extent_count d - 1) = Some e" using rd_extent_defined [OF h(1)] by blast
  moreover have "\<exists>d1. put_le 2 d (extent_off (extent_count d - 1) + 4) (ee_len e + 1) = Some d1"
    using h(1,5) False by (intro put_le_defined) (simp add: extent_off_def)
  ultimately show ?thesis using False by (auto simp: try_append_def)
qed (simp add: try_append_def)

lemma append_extent:
  assumes "extents_ok d" and "extent_count d < 4"
    and "put_le 4 d (extent_off (extent_count d)) (b :: u32) = Some d1"
    and "put_le 2 d1 (extent_off (extent_count d) + 4) (l :: u16) = Some d2"
    and "put_le 4 d2 (extent_off (extent_count d) + 8) (lo :: u32) = Some d3"
    and "put_le 2 d3 (extent_off (extent_count d) + 6) (hi :: u16) = Some d4"
    and "put_le 2 d4 2 (of_nat (extent_count d) + 1 :: u16) = Some d5"
  shows "extents_ok d5" and "extents d5 = extents d @ [\<lparr>ee_block = b, ee_len = l, ee_start_hi = hi, ee_start_lo = lo\<rparr>]"
proof -
  note h = extents_okD [OF assms(1)]
  note p = assms(3-7) [THEN put_le_bytes]
  note fr = get_le_put_other [OF p(5)] get_le_put_other [OF p(4)] get_le_put_other [OF p(3)]
    get_le_put_other [OF p(2)] get_le_put_other [OF p(1)]
  have l5: "length d5 = 60" using assms(3-7) [THEN length_put_le] h(1) by simp
  have c: "(of_nat (extent_count d) + 1 :: u16) = of_nat (Suc (extent_count d))" by simp
  have u: "unat (of_nat (Suc (extent_count d)) :: u16) = Suc (extent_count d)"
    using assms(2) by (simp add: unat_of_nat del: of_nat_Suc)
  have g2: "get_le 2 d5 2 = Some (of_nat (Suc (extent_count d)) :: u16)"
    using get_le_put_same [OF assms(7)] c by simp
  have g0: "get_le 2 d5 0 = Some EXT4_EXTENT_HEADER_MAGIC" "get_le 2 d5 4 = Some (4 :: u16)"
    using h(2,3) by (simp_all add: fr extent_off_def)
  show "extents_ok d5"
    using l5 g0 g2 u assms(2) by (simp add: extents_ok_def sizeof_i_data_def word_le_nat_alt del: of_nat_Suc)
  have c5: "extent_count d5 = Suc (extent_count d)" using g2 u by (simp add: extent_count_def del: of_nat_Suc)
  have same: "rd_extent d5 i = rd_extent d i" if "i < extent_count d" for i
  proof -
    have "rd_extent d5 i = rd_extent d4 i" by (rule rd_extent_frame [OF p(5)]) (simp add: extent_off_def)
    also have "\<dots> = rd_extent d3 i" by (rule rd_extent_frame [OF p(4)]) (use that in \<open>simp add: extent_off_def\<close>)
    also have "\<dots> = rd_extent d2 i" by (rule rd_extent_frame [OF p(3)]) (use that in \<open>simp add: extent_off_def\<close>)
    also have "\<dots> = rd_extent d1 i" by (rule rd_extent_frame [OF p(2)]) (use that in \<open>simp add: extent_off_def\<close>)
    also have "\<dots> = rd_extent d i" by (rule rd_extent_frame [OF p(1)]) (use that in \<open>simp add: extent_off_def\<close>)
    finally show ?thesis .
  qed
  have "rd_extent d5 (extent_count d) = rd_extent d4 (extent_count d)"
    by (rule rd_extent_frame [OF p(5)]) (simp add: extent_off_def)
  also have "\<dots> = Some \<lparr>ee_block = b, ee_len = l, ee_start_hi = hi, ee_start_lo = lo\<rparr>"
    by (rule rd_extent_put [OF h(1) assms(2-6)])
  finally show "extents d5 = extents d @ [\<lparr>ee_block = b, ee_len = l, ee_start_hi = hi, ee_start_lo = lo\<rparr>]"
    using same by (simp add: extents_def c5)
qed

text \<open>The header that a first block writes describes no extents.\<close>

lemma extent_header_ok:
  assumes "length d = 60" and "get_le 2 d 0 = Some EXT4_EXTENT_HEADER_MAGIC \<longrightarrow> extents_wf d"
  obtains d' where "extent_header d = Some d'" and "extents_wf d'"
    and "extents d' = (if get_le 2 d 0 = Some EXT4_EXTENT_HEADER_MAGIC then extents d else [])"
proof (cases "get_le 2 d 0 = Some EXT4_EXTENT_HEADER_MAGIC")
  case True
  then show thesis using that [of d] assms by (simp add: extent_header_def)
next
  case False
  obtain m :: u16 where m: "get_le 2 d 0 = Some m" using assms(1) by (simp add: get_le_def)
  obtain d1 where d1: "put_le 2 d 0 EXT4_EXTENT_HEADER_MAGIC = Some d1" using put_le_defined [of 0 2 d] assms(1) by fastforce
  have l1: "length d1 = 60" using length_put_le [OF d1] assms(1) by simp
  obtain d2 where d2: "put_le 2 d1 2 (0 :: u16) = Some d2" using put_le_defined [of 2 2 d1] l1 by fastforce
  have l2: "length d2 = 60" using length_put_le [OF d2] l1 by simp
  obtain d3 where d3: "put_le 2 d2 4 (4 :: u16) = Some d3" using put_le_defined [of 4 2 d2] l2 by fastforce
  have l3: "length d3 = 60" using length_put_le [OF d3] l2 by simp
  obtain d4 where d4: "put_le 2 d3 6 (0 :: u16) = Some d4" using put_le_defined [of 6 2 d3] l3 by fastforce
  have l4: "length d4 = 60" using length_put_le [OF d4] l3 by simp
  note p = put_le_bytes [OF d1] put_le_bytes [OF d2] put_le_bytes [OF d3] put_le_bytes [OF d4]
  note fr = get_le_put_other [OF p(4)] get_le_put_other [OF p(3)] get_le_put_other [OF p(2)]
  have g: "get_le 2 d4 0 = Some EXT4_EXTENT_HEADER_MAGIC" "get_le 2 d4 2 = Some (0 :: u16)" "get_le 2 d4 4 = Some (4 :: u16)"
    by (simp_all add: fr get_le_put_same [OF d1] get_le_put_same [OF d2] get_le_put_same [OF d3])
  have "extent_header d = Some d4"
    using m False d1 d2 d3 d4 by (simp add: extent_header_def sizeof_i_data_def)
  moreover have "extents d4 = []" using g by (simp add: extents_def extent_count_def)
  moreover have "extents_ok d4" using g l4 by (auto simp: extents_ok_def sizeof_i_data_def)
  ultimately show thesis using that [of d4] False by (simp add: extents_wf_def)
qed

lemma block_map_extents:
  assumes "en_info n = Some d" and "length d = 60" and "get_le 2 d 0 = Some EXT4_EXTENT_HEADER_MAGIC \<longrightarrow> extents_wf d"
  shows "block_map n = map_block (if get_le 2 d 0 = Some EXT4_EXTENT_HEADER_MAGIC then extents d else [])"
proof (rule ext)
  fix b
  obtain m :: u16 where m: "get_le 2 d 0 = Some m" using assms(2) by (simp add: get_le_def)
  show "block_map n b = map_block (if get_le 2 d 0 = Some EXT4_EXTENT_HEADER_MAGIC then extents d else []) b"
  proof (cases "get_le 2 d 0 = Some EXT4_EXTENT_HEADER_MAGIC")
    case True
    then have "extents_ok d" using assms(3) by (simp add: extents_wf_def)
    with True show ?thesis using ext4_get_block_map [OF assms(1)] by (simp add: block_map_def split: option.splits)
  next
    case False
    then show ?thesis using m assms(1) by (simp add: block_map_def ext4_get_block_def)
  qed
qed

lemma node_of_extents:
  assumes "en_info n = Some d" and "extents_wf d"
  shows "node_ok n" and "block_map n = map_block (extents d)"
proof -
  have ok: "extents_ok d" using assms(2) by (simp add: extents_wf_def)
  note h = extents_okD [OF ok]
  show "node_ok n" unfolding node_ok_def using assms h(1) by (intro exI [of _ d]) (simp add: sizeof_i_data_def)
  show "block_map n = map_block (extents d)" using block_map_extents [OF assms(1) h(1)] assms(2) h(2) by simp
qed

text \<open>Extending the last extent, or adding one, adds the block to what the extents map.\<close>

lemma set_block_append:
  assumes "extents_wf d" and "try_append d (extent_count d) iblock pblock = Some (Some d1)"
    and "map_block (extents d) iblock = None" and "unat iblock < 2 ^ 32 - 1"
  shows "extents_wf d1" and "map_block (extents d1) = (map_block (extents d))(iblock \<mapsto> pblock)"
proof -
  have ok: "extents_ok d" using assms(1) by (simp add: extents_wf_def)
  obtain es e where e: "extents d = es @ [e]" "extents_ok d1" "extents d1 = es @ [e\<lparr>ee_len := ee_len e + 1\<rparr>]"
    "iblock = ee_block e + ucast (ee_len e)" "pblock = extent_phys e + ucast (ee_len e)" "ee_len e < 32768"
    by (rule try_append_some [OF ok assms(2)]) blast
  have w: "\<forall>x \<in> set es. unat (ee_block x) + unat (ee_len x) < 2 ^ 32" "unat (ee_block e) + unat (ee_len e) < 2 ^ 32"
    using assms(1) e(1) by (simp_all add: extents_wf_def)
  note g = grown_extent [OF w(2) e(4) assms(4) e(6)]
  show "extents_wf d1" using w g(2) e(2,3) by (simp add: extents_wf_def)
  show "map_block (extents d1) = (map_block (extents d))(iblock \<mapsto> pblock)"
    unfolding e(1,3) by (rule map_block_snoc_upd) (use assms(3) e(1,5) g(1) in \<open>simp_all del: map_block.simps\<close>)
qed

lemma map_block_new_extent:
  assumes "map_block es iblock = None" and "extent_phys \<lparr>ee_block = iblock, ee_len = 1, ee_start_hi = hi, ee_start_lo = lo\<rparr> = pblock"
    and "unat iblock < 2 ^ 32 - 1"
  shows "map_block (es @ [\<lparr>ee_block = iblock, ee_len = 1, ee_start_hi = hi, ee_start_lo = lo\<rparr>]) = (map_block es)(iblock \<mapsto> pblock)"
proof (rule ext)
  fix b
  have "covers \<lparr>ee_block = iblock, ee_len = 1, ee_start_hi = hi, ee_start_lo = lo\<rparr> b \<longleftrightarrow> b = iblock"
    using assms(3) covers_unat [of "\<lparr>ee_block = iblock, ee_len = 1, ee_start_hi = hi, ee_start_lo = lo\<rparr>" b]
    by (auto simp: word_unat_eq_iff)
  then show "map_block (es @ [\<lparr>ee_block = iblock, ee_len = 1, ee_start_hi = hi, ee_start_lo = lo\<rparr>]) b = ((map_block es)(iblock \<mapsto> pblock)) b"
    using assms(1,2) by (auto simp: map_block_append split: option.splits)
qed

lemma add_extent_extents:
  assumes ok: "extents_ok d" and lt: "extent_count d < 4"
  obtains d5 where "add_extent d (extent_count d) iblock pblock = Some d5" and "extents_ok d5"
    and "extents d5 = extents d @ [\<lparr>ee_block = iblock, ee_len = 1,
      ee_start_hi = ucast (drop_bit 16 pblock), ee_start_lo = ucast (pblock AND 0xffffffff)\<rparr>]"
proof -
  let ?o = "extent_off (extent_count d)"
  have l: "length d = 60" "?o + 12 \<le> 60" using extents_okD(1) [OF ok] lt by (simp_all add: extent_off_def)
  obtain d1 where d1: "put_le 4 d ?o iblock = Some d1" using put_le_defined [of ?o 4 d] l by fastforce
  have l1: "length d1 = 60" using length_put_le [OF d1] l by simp
  obtain d2 where d2: "put_le 2 d1 (?o + 4) (1 :: u16) = Some d2" using put_le_defined [of "?o + 4" 2 d1] l l1 by fastforce
  have l2: "length d2 = 60" using length_put_le [OF d2] l1 by simp
  obtain d3 where d3: "put_le 4 d2 (?o + 8) (ucast (pblock AND 0xffffffff) :: u32) = Some d3"
    using put_le_defined [of "?o + 8" 4 d2] l l2 by fastforce
  have l3: "length d3 = 60" using length_put_le [OF d3] l2 by simp
  obtain d4 where d4: "put_le 2 d3 (?o + 6) (ucast (drop_bit 16 pblock) :: u16) = Some d4"
    using put_le_defined [of "?o + 6" 2 d3] l l3 by fastforce
  have l4: "length d4 = 60" using length_put_le [OF d4] l3 by simp
  obtain d5 where d5: "put_le 2 d4 2 (of_nat (extent_count d) + 1 :: u16) = Some d5"
    using put_le_defined [of 2 2 d4] l4 by fastforce
  show thesis
    by (rule that [OF _ append_extent [OF ok lt d1 d2 d3 d4 d5]])
      (use d1 d2 d3 d4 d5 in \<open>simp add: add_extent_def add.commute\<close>)
qed

lemma add_extent_ok:
  assumes "extents_wf d" and "map_block (extents d) iblock = None" and "unat iblock < 2 ^ 32 - 1"
    and "unat pblock < 65536" and "extent_count d < 4"
  obtains d5 where "add_extent d (extent_count d) iblock pblock = Some d5" and "extents_wf d5"
    and "map_block (extents d5) = (map_block (extents d))(iblock \<mapsto> pblock)"
proof -
  have ok: "extents_ok d" using assms(1) by (simp add: extents_wf_def)
  obtain d5 where a0: "add_extent d (extent_count d) iblock pblock = Some d5" and a: "extents_ok d5"
    "extents d5 = extents d @ [\<lparr>ee_block = iblock, ee_len = 1,
      ee_start_hi = ucast (drop_bit 16 pblock), ee_start_lo = ucast (pblock AND 0xffffffff)\<rparr>]"
    by (rule add_extent_extents [OF ok assms(5)])
  show thesis
  proof (rule that [OF a0])
    have "\<forall>e \<in> set (extents d5). unat (ee_block e) + unat (ee_len e) < 2 ^ 32"
      using assms(1,3) by (simp add: a(2) extents_wf_def)
    then show "extents_wf d5" using a(1) by (simp add: extents_wf_def)
    show "map_block (extents d5) = (map_block (extents d))(iblock \<mapsto> pblock)"
      unfolding a(2) by (rule map_block_new_extent [OF assms(2) phys_small [OF assms(4) refl refl] assms(3)])
  qed
qed

definition blocks_added :: "ext4_sb \<Rightarrow> 'n ext4_node_scheme \<Rightarrow> bytes \<Rightarrow> 'n ext4_node_scheme" where
  "blocks_added sb n d = mark_inode_dirty (n\<lparr>en_info := Some d, en_blocks := en_blocks n + ucast (es_blocksize sb div 512)\<rparr>)"

lemma blocks_added_simps [simp]:
  "en_info (blocks_added sb n d) = Some d" "en_dirty (blocks_added sb n d)" "en_size (blocks_added sb n d) = en_size n"
  by (simp_all add: blocks_added_def mark_inode_dirty_def)

lemma ext4_set_block_eq:
  assumes "en_info n = Some d0" and "extent_header d0 = Some d" and "extents_ok d"
  shows "ext4_set_block sb n iblock pblock =
    do { a \<leftarrow> try_append d (extent_count d) iblock pblock;
      (case a of
         Some d1 \<Rightarrow> Some (Inr (), blocks_added sb n d1)
       | None \<Rightarrow>
           if 4 \<le> extent_count d then Some (Inl ENOSPC, n\<lparr>en_info := Some d\<rparr>)
           else map_option (\<lambda>d'. (Inr (), blocks_added sb n d')) (add_extent d (extent_count d) iblock pblock)) }"
proof -
  note h = extents_okD [OF assms(3)]
  have c: "unat (of_nat (extent_count d) :: u16) = extent_count d" using h(5) by (simp add: unat_of_nat)
  have m: "(4 :: u16) \<le> of_nat (extent_count d) \<longleftrightarrow> 4 \<le> extent_count d" by (simp add: word_le_nat_alt c)
  show ?thesis
    unfolding ext4_set_block_def blocks_added_def by (simp add: assms(1,2) h(3,4) c m Let_def)
qed

lemma ext4_set_block_map:
  assumes "node_ok n" and "block_map n iblock = None" and "unat iblock < 2 ^ 32 - 1" and "unat pblock < 65536"
  shows "(\<exists>n'. ext4_set_block sb n iblock pblock = Some (Inr (), n') \<and> node_ok n' \<and> en_dirty n' \<and>
       en_size n' = en_size n \<and> block_map n' = (block_map n)(iblock \<mapsto> pblock)) \<or>
     ext4_set_block sb n iblock pblock = Some (Inl ENOSPC, n) \<and> 4 \<le> extent_count (the (en_info n))"
proof -
  obtain d0 where d0: "en_info n = Some d0" "length d0 = 60" "get_le 2 d0 0 = Some EXT4_EXTENT_HEADER_MAGIC \<longrightarrow> extents_wf d0"
    using assms(1) by (auto simp: node_ok_def sizeof_i_data_def)
  obtain d where d: "extent_header d0 = Some d" "extents_wf d"
    "extents d = (if get_le 2 d0 0 = Some EXT4_EXTENT_HEADER_MAGIC then extents d0 else [])"
    by (rule extent_header_ok [OF d0(2,3)])
  have ok: "extents_ok d" using d(2) by (simp add: extents_wf_def)
  have bm: "block_map n = map_block (extents d)" using block_map_extents [OF d0] d(3) by simp
  then have none: "map_block (extents d) iblock = None" using assms(2) by simp
  note eq = ext4_set_block_eq [OF d0(1) d(1) ok, of sb iblock pblock]
  have fin: ?thesis if "ext4_set_block sb n iblock pblock = Some (Inr (), blocks_added sb n d')" "extents_wf d'"
    "map_block (extents d') = (map_block (extents d))(iblock \<mapsto> pblock)" for d'
    using that node_of_extents [OF _ that(2), of "blocks_added sb n d'"] bm by (intro disjI1 exI [of _ "blocks_added sb n d'"]) simp
  consider d1 where "try_append d (extent_count d) iblock pblock = Some (Some d1)"
    | "try_append d (extent_count d) iblock pblock = Some None" "4 \<le> extent_count d"
    | "try_append d (extent_count d) iblock pblock = Some None" "extent_count d < 4"
    using try_append_cases [OF ok, of iblock pblock] not_le by blast
  then show ?thesis
  proof cases
    case (1 d1)
    show ?thesis by (rule fin [OF _ set_block_append [OF d(2) 1 none assms(3)]]) (simp add: eq 1)
  next
    case 2
    then have "extents d \<noteq> []" by (auto simp: extents_def)
    then have "get_le 2 d0 0 = Some EXT4_EXTENT_HEADER_MAGIC" using d(3) by (simp split: if_splits)
    then have "d = d0" using d(1) by (simp add: extent_header_def)
    then show ?thesis using 2 d0(1) by (simp add: eq)
  next
    case 3
    obtain d5 where "add_extent d (extent_count d) iblock pblock = Some d5" "extents_wf d5"
      "map_block (extents d5) = (map_block (extents d))(iblock \<mapsto> pblock)"
      by (rule add_extent_ok [OF d(2) none assms(3,4) 3(2)])
    then show ?thesis using 3 by (intro fin [of d5]) (simp_all add: eq)
  qed
qed


definition demo_node :: ext4_node where
  "demo_node = \<lparr>en_ino = 12, en_mode = 0x81a4, en_nlink = 1, en_uid = 0, en_gid = 0, en_size = 0, en_blocks = 0,
     en_info = Some (replicate sizeof_i_data 0), en_dirty = False, i_op = None, i_fop = None\<rparr>"

definition demo_sb :: ext4_sb where
  "demo_sb = \<lparr>es_bdev = None, es_blocksize = 4096, es_group_desc = [], es_inodes_per_group = 1024, es_blocks_per_group = 8192,
     es_groups_count = 1, es_first_data_block = 0, es_log_block_size = 2, es_inode_size = 256\<rparr>"

lemma demo_node_ok: "node_ok demo_node" "block_map demo_node b = None"
proof -
  have z: "get_le 2 (replicate sizeof_i_data 0) 0 = Some (0 :: u16)" by code_simp
  then show "node_ok demo_node" by (simp add: node_ok_def demo_node_def EXT4_EXTENT_HEADER_MAGIC_def)
  from z show "block_map demo_node b = None"
    by (simp add: demo_node_def block_map_def ext4_get_block_def EXT4_EXTENT_HEADER_MAGIC_def)
qed


text \<open>
  The bound on the device block is needed: the upper half of the block number is stored shifted by 16
  and read back shifted by 32, so a file block put at device block 65536 is looked for at block
  4295032832.
\<close>

lemma ext4_set_block_high:
  "\<exists>n'. ext4_set_block sb demo_node 0 65536 = Some (Inr (), n') \<and> ext4_get_block n' 0 = Some (Inr 0x100010000)"
proof -
  let ?d0 = "replicate sizeof_i_data 0 :: bytes"
  have z: "get_le 2 ?d0 0 = Some (0 :: u16)" by code_simp
  obtain d where d: "extent_header ?d0 = Some d" "extents_wf d" "extents d = []"
    by (rule extent_header_ok [of ?d0]) (use z in \<open>simp_all add: sizeof_i_data_def EXT4_EXTENT_HEADER_MAGIC_def\<close>)
  have ok: "extents_ok d" and c: "extent_count d = 0" using d(2,3) by (simp_all add: extents_wf_def extents_def)
  obtain d5 where d5: "add_extent d 0 0 65536 = Some d5" "extents_ok d5"
    "extents d5 = [\<lparr>ee_block = 0, ee_len = 1, ee_start_hi = ucast (drop_bit 16 (65536 :: u64)), ee_start_lo = ucast ((65536 :: u64) AND 0xffffffff)\<rparr>]"
    using add_extent_extents [OF ok, of 0 65536] c d(3) by (metis append_Nil zero_less_numeral)
  have i: "en_info demo_node = Some ?d0" by (simp add: demo_node_def)
  have "ext4_set_block sb demo_node 0 65536 = Some (Inr (), blocks_added sb demo_node d5)"
    using d5(1) by (simp add: ext4_set_block_eq [OF i d(1) ok] c try_append_def)
  moreover have "ext4_get_block (blocks_added sb demo_node d5) 0 = Some (Inr 0x100010000)"
    unfolding ext4_get_block_map [OF blocks_added_simps(1) d5(2)] d5(3) by code_simp
  ultimately show ?thesis by blast
qed

end
