(* ===== verification/Ext4_File.thy ===== *)
theory Ext4_File
  imports Ext4 "HOL-Library.Signed_Division"
begin

text \<open>
  Reading and writing file data, \<open>kernel/fs/backend/ext4fs/file.c\<close>, on the extent map of \<open>Ext4\<close>
  and the buffer cache of \<open>Block\<close>. File positions are signed 64-bit numbers kept as words, lengths
  and totals are 32 bits wide as \<open>size_t\<close> and \<open>ssize_t\<close> are in this kernel. The memory a read
  fills is returned as the bytes written to it from its start. A division by a block size of zero,
  an access outside a buffer and a loop that makes no progress are \<open>None\<close>.
\<close>

section \<open>Reading and writing\<close>

definition loff_div :: "u64 \<Rightarrow> u32 \<Rightarrow> u32" where
  "loff_div off bs = word_of_int (sint off sdiv uint bs)"

definition loff_mod :: "u64 \<Rightarrow> u32 \<Rightarrow> u32" where
  "loff_mod off bs = word_of_int (sint off smod uint bs)"

definition chunk_len :: "u64 \<Rightarrow> u32 \<Rightarrow> u32 \<Rightarrow> u32" where
  "chunk_len off bs len = (if bs - loff_mod off bs > len then len else bs - loff_mod off bs)"

lemma chunk_len_decr:
  "len \<noteq> 0 \<Longrightarrow> chunk_len off bs len \<noteq> 0 \<Longrightarrow> unat (len - chunk_len off bs len) < unat len"
proof -
  assume a: "len \<noteq> 0" "chunk_len off bs len \<noteq> 0"
  have "chunk_len off bs len \<le> len" by (simp add: chunk_len_def not_less)
  moreover have "0 < unat (chunk_len off bs len)" "0 < unat len" using a by (simp_all add: unat_gt_0)
  ultimately show ?thesis by (simp add: unat_sub)
qed

function read_loop :: "'d ops_table \<Rightarrow> 'd blk_state \<Rightarrow> ext4_sb \<Rightarrow> 'n ext4_node_scheme \<Rightarrow> u64 \<Rightarrow> u32 \<Rightarrow> int \<Rightarrow> bytes \<Rightarrow>
    (int \<times> bytes \<times> u64 \<times> 'd blk_state) option" where
  "read_loop ops s sb n off len ret acc =
     (if len = 0 then Some (ret, acc, off, s)
      else if es_blocksize sb = 0 \<or> chunk_len off (es_blocksize sb) len = 0 then None
      else
        let c = chunk_len off (es_blocksize sb) len in
        do {
          b \<leftarrow> ext4_get_block n (loff_div off (es_blocksize sb));
          (case b of
             Inl e \<Rightarrow>
               if e = ENOSPC
               then read_loop ops s sb n (off + ucast c) (len - c) (- errno_val ENOSPC) (acc @ replicate (unat c) 0)
               else Some (- errno_val EIO, acc, off, s)
           | Inr pblock \<Rightarrow> do {
               (bh, s1) \<leftarrow> sb_bread ops s (es_bdev sb) pblock;
               (case bh of
                  None \<Rightarrow> Some (- errno_val EIO, acc, off, s1)
                | Some k \<Rightarrow> do {
                    d \<leftarrow> buf_data s1 k;
                    xs \<leftarrow> get_bytes d (unat (loff_mod off (es_blocksize sb))) (unat c);
                    read_loop ops (brelse s1 (Some k)) sb n (off + ucast c) (len - c) 0 (acc @ xs) }) }) })"
  by pat_completeness auto
termination
  by (relation "measure (\<lambda>(_, _, _, _, _, len, _, _). unat len)") (simp_all add: chunk_len_decr)

definition ext4_file_read :: "'d ops_table \<Rightarrow> 'd blk_state \<Rightarrow> ext4_sb \<Rightarrow> 'n ext4_node_scheme \<Rightarrow> u64 \<Rightarrow> u32 \<Rightarrow>
    (int \<times> bytes \<times> u64 \<times> 'd blk_state) option" where
  "ext4_file_read ops s sb n pos len =
     (if en_size n \<le> pos then Some (0, [], pos, s)
      else
        let len1 = (if en_size n < pos + ucast len then ucast (en_size n - pos) else len) in
        do {
          (ret, data, off, s1) \<leftarrow> read_loop ops s sb n pos len1 0 [];
          let tot = (of_nat (length data) :: u32);
          Some (if tot \<noteq> 0 then sint tot else ret, data, if 0 < sint tot then off else pos, s1) })"

text \<open>A block for writing: the mapped one, or a new one that is entered into the extent map.\<close>

definition write_block :: "'d ops_table \<Rightarrow> 'd blk_state \<Rightarrow> ext4_sb \<Rightarrow> 'n ext4_node_scheme \<Rightarrow> u32 \<Rightarrow>
    (u64 option \<times> 'd blk_state \<times> 'n ext4_node_scheme) option" where
  "write_block ops s sb n iblock = do {
     b \<leftarrow> ext4_get_block n iblock;
     (case b of
        Inr p \<Rightarrow> Some (Some p, s, n)
      | Inl _ \<Rightarrow> do {
          (r, s1) \<leftarrow> ext4_new_block ops s sb;
          (case r of
             Inl _ \<Rightarrow> Some (None, s1, n)
           | Inr p \<Rightarrow> do {
               (q, n1) \<leftarrow> ext4_set_block sb n iblock p;
               Some (case q of Inl _ \<Rightarrow> (None, s1, n1) | Inr _ \<Rightarrow> (Some p, s1, n1)) }) }) }"

function write_loop :: "'d ops_table \<Rightarrow> 'd blk_state \<Rightarrow> ext4_sb \<Rightarrow> 'n ext4_node_scheme \<Rightarrow> u64 \<Rightarrow> u32 \<Rightarrow> bytes \<Rightarrow> nat \<Rightarrow>
    (int \<times> nat \<times> u64 \<times> 'd blk_state \<times> 'n ext4_node_scheme) option" where
  "write_loop ops s sb n off len data tot =
     (if len = 0 then Some (0, tot, off, s, n)
      else if es_blocksize sb = 0 then None
      else do {
        (b, s1, n1) \<leftarrow> write_block ops s sb n (loff_div off (es_blocksize sb));
        (case b of
           None \<Rightarrow> Some (- errno_val ENOSPC, tot, off, s1, n1)
         | Some pblock \<Rightarrow> do {
             (bh, s2) \<leftarrow> sb_bread ops s1 (es_bdev sb) pblock;
             (case bh of
                None \<Rightarrow> Some (- errno_val EIO, tot, off, s2, n1)
              | Some k \<Rightarrow>
                  let c = chunk_len off (es_blocksize sb) len in
                  if c = 0 then None
                  else do {
                    d \<leftarrow> buf_data s2 k;
                    xs \<leftarrow> get_bytes data tot (unat c);
                    d' \<leftarrow> put_bytes d (unat (loff_mod off (es_blocksize sb))) xs;
                    write_loop ops (brelse (write_buf s2 k d') (Some k)) sb n1
                      (off + ucast c) (len - c) data (tot + unat c) }) }) })"
  by pat_completeness auto
termination
  by (relation "measure (\<lambda>(_, _, _, _, _, len, _, _). unat len)") (simp_all add: chunk_len_decr)

definition ext4_file_write :: "'d ops_table \<Rightarrow> 'd blk_state \<Rightarrow> ext4_sb \<Rightarrow> 'n ext4_node_scheme \<Rightarrow> u64 \<Rightarrow> bytes \<Rightarrow> u32 \<Rightarrow>
    (int \<times> u64 \<times> 'd blk_state \<times> 'n ext4_node_scheme) option" where
  "ext4_file_write ops s sb n pos data len = do {
     (ret, wrote, off, s1, n1) \<leftarrow> write_loop ops s sb n pos len data 0;
     let tot = (of_nat wrote :: u32);
     let n2 = (if 0 < sint tot \<and> en_size n1 < off then mark_inode_dirty (n1\<lparr>en_size := off\<rparr>) else n1);
     Some (if tot \<noteq> 0 then sint tot else ret, if 0 < sint tot then off else pos, s1, n2) }"

declare read_loop.simps [simp del] write_loop.simps [simp del]

section \<open>File contents\<close>

text \<open>The byte of a file at position \<open>i\<close>: the byte of the mapped device block, or zero in a hole.\<close>

definition file_byte :: "('d \<Rightarrow> bkey \<Rightarrow> bytes) \<Rightarrow> 'd blk_state \<Rightarrow> u64 \<Rightarrow> ext4_sb \<Rightarrow> 'n ext4_node_scheme \<Rightarrow> nat \<Rightarrow> u8" where
  "file_byte disk s dev sb n i =
     (case block_map n (of_nat (i div unat (es_blocksize sb))) of
        Some p \<Rightarrow> bcontent disk s (dev, p) ! (i mod unat (es_blocksize sb))
      | None \<Rightarrow> 0)"

definition file_ok :: "('d \<Rightarrow> bkey \<Rightarrow> bytes) \<Rightarrow> 'd blk_state \<Rightarrow> u64 \<Rightarrow> ext4_sb \<Rightarrow> 'n ext4_node_scheme \<Rightarrow> bool" where
  "file_ok disk s dev sb n \<longleftrightarrow> es_bdev sb = Some dev \<and> es_blocksize sb \<noteq> 0 \<and>
     (\<forall>p. length (bcontent disk s (dev, p)) = unat (es_blocksize sb)) \<and>
     (\<exists>d. en_info n = Some d \<and> extents_wf d)"

lemma sdiv_nat: "int a sdiv int b = int (a div b)" "int a smod int b = int (a mod b)"
  by (cases "a = 0"; cases "b = 0"; simp add: signed_divide_int_def signed_modulo_int_def zdiv_int zmod_int)+

lemma loff_div_mod:
  assumes "unat off < 2 ^ 63" and "bs \<noteq> 0"
  shows "loff_div off bs = of_nat (unat off div unat bs)" and "unat (loff_mod off bs) = unat off mod unat bs"
proof -
  have "int (unat off) < int (2 ^ 63)" using assms(1) by (simp only: of_nat_less_iff)
  moreover have "- (2 ^ 63) \<le> uint off" by (rule order_trans [OF _ uint_ge_0]) simp
  ultimately have o: "sint off = int (unat off)"
    by (simp add: sint_uint signed_take_bit_int_eq_self [of 63])
  have b: "uint bs = int (unat bs)" by simp
  have bs: "0 < unat bs" using assms(2) by (simp add: unat_gt_0)
  show "loff_div off bs = of_nat (unat off div unat bs)"
    unfolding loff_div_def o b sdiv_nat by (rule of_int_of_nat_eq)
  have "unat off mod unat bs < unat bs" using bs by simp
  also have "unat bs < 2 ^ 32" using unsigned_less [of bs] by simp
  finally have "unat (of_nat (unat off mod unat bs) :: u32) = unat off mod unat bs" by (simp add: unat_of_nat)
  then show "unat (loff_mod off bs) = unat off mod unat bs"
    unfolding loff_mod_def o b sdiv_nat of_int_of_nat_eq .
qed

lemma unat_chunk:
  assumes "unat off < 2 ^ 63" and "bs \<noteq> 0"
  shows "unat (chunk_len off bs len) = min (unat len) (unat bs - unat off mod unat bs)"
proof -
  have "0 < unat bs" using assms(2) by (simp add: unat_gt_0)
  then have "unat (loff_mod off bs) \<le> unat bs" using loff_div_mod(2) [OF assms] by (simp add: less_imp_le)
  then have "unat (bs - loff_mod off bs) = unat bs - unat off mod unat bs"
    using loff_div_mod(2) [OF assms] by (simp add: unat_sub word_le_nat_alt)
  then show ?thesis by (auto simp: chunk_len_def word_less_nat_alt)
qed

lemma file_get_block:
  assumes "file_ok disk s dev sb n"
  shows "ext4_get_block n b = Some (case block_map n b of Some p \<Rightarrow> Inr p | None \<Rightarrow> Inl ENOSPC)"
proof -
  obtain d where d: "en_info n = Some d" "extents_wf d" using assms by (auto simp: file_ok_def)
  then have "extents_ok d" by (simp add: extents_wf_def)
  with d(1) node_of_extents(2) [OF d] ext4_get_block_map show ?thesis by metis
qed

lemma file_ok_content:
  assumes "file_ok disk s dev sb n" and "bcontent disk s' = bcontent disk s"
  shows "file_ok disk s' dev sb n" and "file_byte disk s' dev sb n = file_byte disk s dev sb n"
  using assms(1) by (simp_all add: file_ok_def file_byte_def fun_eq_iff assms(2) cong: option.case_cong)

text \<open>The bytes of a run inside one block.\<close>

lemma file_run:
  assumes "file_ok disk s dev sb n" and "o' mod unat (es_blocksize sb) + c \<le> unat (es_blocksize sb)"
  shows "map (file_byte disk s dev sb n) [o' ..< o' + c] =
    (case block_map n (of_nat (o' div unat (es_blocksize sb))) of
       Some p \<Rightarrow> take c (drop (o' mod unat (es_blocksize sb)) (bcontent disk s (dev, p)))
     | None \<Rightarrow> replicate c 0)" (is "?l = ?r")
proof -
  let ?b = "unat (es_blocksize sb)"
  have b: "\<forall>p. length (bcontent disk s (dev, p)) = ?b" using assms(1) by (simp add: file_ok_def)
  have in_block: "(o' + i) div ?b = o' div ?b \<and> (o' + i) mod ?b = o' mod ?b + i" if "i < c" for i
  proof -
    have lt: "o' mod ?b + i < ?b" using that assms(2) by simp
    have "o' + i = (o' mod ?b + i) + o' div ?b * ?b" by simp
    moreover have "((o' mod ?b + i) + o' div ?b * ?b) div ?b = o' div ?b"
      using lt by (subst div_mult_self1) auto
    moreover have "((o' mod ?b + i) + o' div ?b * ?b) mod ?b = o' mod ?b + i"
      using lt by (subst mod_mult_self1) auto
    ultimately show ?thesis by simp
  qed
  show ?thesis
  proof (rule nth_equalityI)
    show "length ?l = length ?r" using b assms(2) by (auto split: option.splits)
    fix i assume "i < length ?l"
    then have i: "i < c" by simp
    then show "?l ! i = ?r ! i"
      using in_block [OF i] b assms(2) by (auto simp: file_byte_def split: option.splits)
  qed
qed

text \<open>One round of the loop advances inside one block.\<close>

lemma chunk_facts:
  assumes "unat off + unat len < 2 ^ 63" and "bs \<noteq> 0" and "len \<noteq> 0" and "c = chunk_len off bs len"
  shows "c \<noteq> 0" and "unat c \<le> unat len" and "unat off mod unat bs + unat c \<le> unat bs"
    and "unat (off + ucast c) = unat off + unat c" and "unat (len - c) = unat len - unat c"
proof -
  have o: "unat off < 2 ^ 63" using assms(1) by simp
  have b: "0 < unat bs" "0 < unat len" using assms(2,3) by (simp_all add: unat_gt_0)
  have m: "unat off mod unat bs < unat bs" using b by simp
  have c: "unat c = min (unat len) (unat bs - unat off mod unat bs)" unfolding assms(4) by (rule unat_chunk [OF o assms(2)])
  have "0 < unat c" using c b m by simp
  then show "c \<noteq> 0" by auto
  show le: "unat c \<le> unat len" and "unat off mod unat bs + unat c \<le> unat bs" using c m by simp_all
  have "unat (ucast c :: u64) = unat c"
    by (rule unat_ucast_u32_u64)
  then show "unat (off + ucast c) = unat off + unat c" using assms(1) le by (simp add: unat_word_ariths)
  show "unat (len - c) = unat len - unat c" using le by (simp add: unat_sub word_le_nat_alt)
qed

section \<open>Reading\<close>

text \<open>One round: a hole, a block that is read, or a block that cannot be read.\<close>

lemma read_round:
  assumes inv: "disk_ok ops disk \<and> bcache_inv disk s" and ok: "file_ok disk s dev sb n"
    and bound: "unat off + unat len < 2 ^ 63" and len: "len \<noteq> 0"
    and c: "c = chunk_len off (es_blocksize sb) len"
    and run: "run = map (file_byte disk s dev sb n) [unat off ..< unat off + unat c]"
  obtains
    (hole) "read_loop ops s sb n off len ret acc = read_loop ops s sb n (off + ucast c) (len - c) (- errno_val ENOSPC) (acc @ run)"
      and "block_map n (of_nat (unat off div unat (es_blocksize sb))) = None"
  | (undef) p where "block_map n (of_nat (unat off div unat (es_blocksize sb))) = Some p"
      and "bread ops s dev p = None" and "read_loop ops s sb n off len ret acc = None"
  | (fail) p s1 where "block_map n (of_nat (unat off div unat (es_blocksize sb))) = Some p"
      and "bread ops s dev p = Some (None, s1)" and "read_loop ops s sb n off len ret acc = Some (- errno_val EIO, acc, off, s1)"
  | (hit) p s1 k where "block_map n (of_nat (unat off div unat (es_blocksize sb))) = Some p"
      and "bread ops s dev p = Some (Some k, s1)"
      and "read_loop ops s sb n off len ret acc = read_loop ops (brelse s1 (Some k)) sb n (off + ucast c) (len - c) 0 (acc @ run)"
proof -
  have sb: "es_bdev sb = Some dev" "es_blocksize sb \<noteq> 0" using ok by (simp_all add: file_ok_def)
  let ?b = "unat (es_blocksize sb)"
  have o: "unat off < 2 ^ 63" using bound by simp
  note cf = chunk_facts [OF bound sb(2) len c]
  note dm = loff_div_mod [OF o sb(2)]
  note gb = file_get_block [OF ok, of "of_nat (unat off div ?b)"]
  note fr = file_run [OF ok cf(3)]
  note unf = read_loop.simps [of ops s sb n off len ret acc]
  show thesis
  proof (cases "block_map n (of_nat (unat off div ?b))")
    case None
    then have "run = replicate (unat c) 0" using fr run by simp
    then show thesis
      by (intro hole [OF _ None], subst unf) (use None sb len cf(1) c gb dm in \<open>simp add: Let_def\<close>)
  next
    case (Some p)
    note mp = Some
    note base = sb len cf(1) c [symmetric] gb dm mp
    show thesis
    proof (cases "bread ops s dev p")
      case None
      then show thesis by (intro undef [OF Some None], subst unf) (use base in \<open>simp add: Let_def sb_bread_def\<close>)
    next
      case (Some x)
      then obtain r s1 where r: "bread ops s dev p = Some (r, s1)" by (cases x) auto
      show thesis
      proof (cases r)
        case None
        with r have "bread ops s dev p = Some (None, s1)" by simp
        then show thesis
          by (intro fail [OF mp], assumption, subst unf) (use base in \<open>simp add: Let_def sb_bread_def\<close>)
      next
        case (Some k)
        with r have h: "bread ops s dev p = Some (Some k, s1)" by simp
        have d: "buf_data s1 k = Some (bcontent disk s (dev, p))"
          using bc.look(1) [of ops disk s "(dev, p)" k s1] inv h by simp
        have x: "get_bytes (bcontent disk s (dev, p)) (unat off mod ?b) (unat c) = Some run"
          using fr run mp cf(3) ok by (simp add: get_bytes_def file_ok_def)
        show thesis
          by (intro hit [OF mp h], subst unf) (use base h d x in \<open>simp add: Let_def sb_bread_def\<close>)
      qed
    qed
  qed
qed

text \<open>The loop up to the first block that cannot be read.\<close>

lemma upt_chunks: "m \<le> k \<Longrightarrow> [a ..< a + m] @ [a + m ..< a + k] = [a ..< a + k]" for a m k :: nat
  using upt_add_eq_append [of a "a + m" "k - m"] by simp

lemma read_loop_sound:
  assumes "disk_ok ops disk" and "bcache_inv disk s" and "file_ok disk s dev sb n"
    and "unat off + unat len < 2 ^ 63"
    and "read_loop ops s sb n off len ret acc = Some (r, out, off', s')"
  shows "\<exists>m \<le> unat len. out = acc @ map (file_byte disk s dev sb n) [unat off ..< unat off + m] \<and>
    unat off' = unat off + m \<and> bcache_inv disk s' \<and> bcontent disk s' = bcontent disk s \<and>
    (m < unat len \<longrightarrow> r = - errno_val EIO)"
  using assms(2-5)
proof (induction "unat len" arbitrary: s off len ret acc rule: less_induct)
  case less
  show ?case
  proof (cases "len = 0")
    case True
    then show ?thesis using less.prems by (simp add: read_loop.simps)
  next
    case False
    define c where "c = chunk_len off (es_blocksize sb) len"
    define run where "run = map (file_byte disk s dev sb n) [unat off ..< unat off + unat c]"
    have inv: "disk_ok ops disk \<and> bcache_inv disk s" using assms(1) less.prems(1) by simp
    have bs: "es_blocksize sb \<noteq> 0" using less.prems(2) by (simp add: file_ok_def)
    note cf = chunk_facts [OF less.prems(3) bs False c_def]
    have c0: "0 < unat c" using cf(1) by (simp add: unat_gt_0)
    have smaller: "unat (len - c) < unat len" and bound': "unat (off + ucast c) + unat (len - c) < 2 ^ 63"
      using cf c0 less.prems(3) by simp_all
    have go: ?thesis if s1: "bcache_inv disk s1" "bcontent disk s1 = bcontent disk s"
      and eq: "read_loop ops s sb n off len ret acc = read_loop ops s1 sb n (off + ucast c) (len - c) q (acc @ run)" for s1 q
    proof -
      note f = file_ok_content [OF less.prems(2) s1(2)]
      obtain m where m: "m \<le> unat (len - c)"
        "out = (acc @ run) @ map (file_byte disk s1 dev sb n) [unat (off + ucast c) ..< unat (off + ucast c) + m]"
        "unat off' = unat (off + ucast c) + m" "bcache_inv disk s'" "bcontent disk s' = bcontent disk s1"
        "m < unat (len - c) \<longrightarrow> r = - errno_val EIO"
        using less.hyps [OF smaller s1(1) f(1) bound' less.prems(4) [unfolded eq]] by blast
      show ?thesis
        by (rule exI [of _ "unat c + m"])
          (use m cf s1 f upt_chunks [of "unat c" "unat c + m" "unat off"] in
            \<open>simp add: run_def add.assoc [symmetric] flip: map_append\<close>)
    qed
    show ?thesis
    proof (rule read_round [OF inv less.prems(2,3) False c_def run_def, of ret acc])
      assume "read_loop ops s sb n off len ret acc = read_loop ops s sb n (off + ucast c) (len - c) (- errno_val ENOSPC) (acc @ run)"
      then show ?thesis by (rule go [OF less.prems(1) refl])
    next
      fix p s1 assume "bread ops s dev p = Some (None, s1)" "read_loop ops s sb n off len ret acc = Some (- errno_val EIO, acc, off, s1)"
      then show ?thesis using bread_transparent [OF assms(1) less.prems(1)] less.prems(4) by fastforce
    next
      fix p s1 k assume h: "bread ops s dev p = Some (Some k, s1)"
        "read_loop ops s sb n off len ret acc = read_loop ops (brelse s1 (Some k)) sb n (off + ucast c) (len - c) 0 (acc @ run)"
      have "bcache_inv disk (brelse s1 (Some k))" "bcontent disk (brelse s1 (Some k)) = bcontent disk s"
        using bc.look(2,3) [of ops disk s "(dev, p)" k s1] inv h(1) by simp_all
      then show ?thesis by (rule go [OF _ _ h(2)])
    qed (use less.prems(4) in simp)
  qed
qed

text \<open>The device blocks behind a range of a file, in order; the loop reads everything when they can be
  fetched one after the other.\<close>

definition range_blocks :: "ext4_sb \<Rightarrow> 'n ext4_node_scheme \<Rightarrow> nat \<Rightarrow> nat \<Rightarrow> u64 list" where
  "range_blocks sb n a e =
     (if e \<le> a then []
      else List.map_filter (\<lambda>j. block_map n (of_nat j)) [a div unat (es_blocksize sb) ..< Suc ((e - 1) div unat (es_blocksize sb))])"

lemma range_blocks_step:
  assumes "0 < b" and b: "b = unat (es_blocksize sb)" and "0 < c" and "a + c \<le> e" and "a mod b + c \<le> b"
    and full: "a + c < e \<longrightarrow> a mod b + c = b"
  shows "range_blocks sb n a e = (case block_map n (of_nat (a div b)) of Some p \<Rightarrow> [p] | None \<Rightarrow> []) @ range_blocks sb n (a + c) e"
proof -
  have ad: "a = a div b * b + a mod b" by simp
  show ?thesis
  proof (cases "a + c < e")
    case True
    have "a + c = a div b * b + (a mod b + c)" using ad by linarith
    then have ac: "a + c = b * Suc (a div b)" using full True by simp
    have d: "(a + c) div b = Suc (a div b)" unfolding ac using assms(1) by simp
    have "Suc (a div b) \<le> (e - 1) div b" unfolding d [symmetric] by (rule div_le_mono) (use True in simp)
    then have "[a div b ..< Suc ((e - 1) div b)] = a div b # [Suc (a div b) ..< Suc ((e - 1) div b)]"
      by (simp add: upt_conv_Cons)
    then show ?thesis using True d assms(3) by (simp add: range_blocks_def b map_filter_simps split: option.split)
  next
    case False
    then have e: "e = a + c" using assms(4) by simp
    have "a + c - 1 = b * (a div b) + (a mod b + (c - 1))" using assms(3) by simp
    moreover have "a mod b + (c - 1) < b" using assms(3,5) by simp
    ultimately have "(a + c - 1) div b = a div b" by (intro div_nat_eqI) (simp_all only: mult_Suc_right)
    then show ?thesis using assms(3) by (simp add: range_blocks_def e b map_filter_simps split: option.split)
  qed
qed

text \<open>One round of a loop takes the first of these blocks.\<close>

lemma range_blocks_round:
  assumes bound: "unat off + unat len < 2 ^ 63" and bs: "es_blocksize sb \<noteq> 0" and len: "len \<noteq> 0"
    and c: "c = chunk_len off (es_blocksize sb) len"
  shows "range_blocks sb n (unat off) (unat off + unat len) =
    (case block_map n (of_nat (unat off div unat (es_blocksize sb))) of Some p \<Rightarrow> [p] | None \<Rightarrow> []) @
    range_blocks sb n (unat (off + ucast c)) (unat (off + ucast c) + unat (len - c))"
proof -
  note cf = chunk_facts [OF bound bs len c]
  have o: "unat off < 2 ^ 63" using bound by simp
  have b: "0 < unat (es_blocksize sb)" "0 < unat c" using bs cf(1) by (simp_all add: unat_gt_0)
  have sum: "unat (off + ucast c) + unat (len - c) = unat off + unat len" using cf by simp
  have "unat off + unat c < unat off + unat len \<longrightarrow> unat off mod unat (es_blocksize sb) + unat c = unat (es_blocksize sb)"
    using unat_chunk [OF o bs, of len] cf(3) by (simp add: c [symmetric])
  from range_blocks_step [OF b(1) refl b(2) _ cf(3) this, of n] show ?thesis
    unfolding sum using cf(2,4) by simp
qed

lemma read_loop_total:
  assumes "disk_ok ops disk" and "bcache_inv disk s" and "file_ok disk s dev sb n"
    and "unat off + unat len < 2 ^ 63" and "fetchable ops s dev (range_blocks sb n (unat off) (unat off + unat len))"
  shows "\<exists>r out off' s'. read_loop ops s sb n off len ret acc = Some (r, out, off', s') \<and> length out = length acc + unat len"
  using assms(2-5)
proof (induction "unat len" arbitrary: s off len ret acc rule: less_induct)
  case less
  show ?case
  proof (cases "len = 0")
    case True
    then show ?thesis by (simp add: read_loop.simps)
  next
    case False
    define c where "c = chunk_len off (es_blocksize sb) len"
    define run where "run = map (file_byte disk s dev sb n) [unat off ..< unat off + unat c]"
    define rest where "rest = range_blocks sb n (unat (off + ucast c)) (unat (off + ucast c) + unat (len - c))"
    have inv: "disk_ok ops disk \<and> bcache_inv disk s" using assms(1) less.prems(1) by simp
    have bs: "es_blocksize sb \<noteq> 0" using less.prems(2) by (simp add: file_ok_def)
    note cf = chunk_facts [OF less.prems(3) bs False c_def]
    have c0: "0 < unat c" "0 < unat len" using cf(1) False by (simp_all add: unat_gt_0)
    have smaller: "unat (len - c) < unat len" and bound': "unat (off + ucast c) + unat (len - c) < 2 ^ 63"
      using cf c0 less.prems(3) by simp_all
    have fe: "fetchable ops s dev ((case block_map n (of_nat (unat off div unat (es_blocksize sb))) of Some p \<Rightarrow> [p] | None \<Rightarrow> []) @ rest)"
      using less.prems(4) unfolding range_blocks_round [OF less.prems(3) bs False c_def] rest_def .
    have go: ?thesis if s1: "bcache_inv disk s1" "bcontent disk s1 = bcontent disk s" "fetchable ops s1 dev rest"
      and eq: "read_loop ops s sb n off len ret acc = read_loop ops s1 sb n (off + ucast c) (len - c) q (acc @ run)" for s1 q
    proof -
      note f = file_ok_content [OF less.prems(2) s1(2)]
      show ?thesis
        using less.hyps [OF smaller s1(1) f(1) bound' s1(3) [unfolded rest_def], of q "acc @ run"] cf(2,5)
        unfolding eq by (auto simp: run_def)
    qed
    have hit: "\<exists>k s1. bread ops s dev p = Some (Some k, s1) \<and> fetchable ops (brelse s1 (Some k)) dev rest"
      if "block_map n (of_nat (unat off div unat (es_blocksize sb))) = Some p" for p
      using fe that by (auto split: option.splits)
    show ?thesis
    proof (rule read_round [OF inv less.prems(2,3) False c_def run_def, of ret acc])
      assume h: "read_loop ops s sb n off len ret acc = read_loop ops s sb n (off + ucast c) (len - c) (- errno_val ENOSPC) (acc @ run)"
        "block_map n (of_nat (unat off div unat (es_blocksize sb))) = None"
      then show ?thesis using go [OF less.prems(1) refl _ h(1)] fe by simp
    next
      fix p s1 k assume h: "block_map n (of_nat (unat off div unat (es_blocksize sb))) = Some p" "bread ops s dev p = Some (Some k, s1)"
        "read_loop ops s sb n off len ret acc = read_loop ops (brelse s1 (Some k)) sb n (off + ucast c) (len - c) 0 (acc @ run)"
      have "bcache_inv disk (brelse s1 (Some k))" "bcontent disk (brelse s1 (Some k)) = bcontent disk s"
        using bc.look(2,3) [of ops disk s "(dev, p)" k s1] inv h(2) by simp_all
      then show ?thesis by (rule go [OF _ _ _ h(3)]) (use hit [OF h(1)] h(2) in auto)
    qed (use hit in fastforce)+
  qed
qed

lemma sint_of_nat_u32: "k < 2 ^ 31 \<Longrightarrow> sint (of_nat k :: u32) = int k"
  by (simp add: sint_uint uint_nat unat_of_nat signed_take_bit_int_eq_self)

lemma total_read:
  assumes "k < 2 ^ 31"
  shows "(if (of_nat k :: u32) \<noteq> 0 then sint (of_nat k :: u32) else ret) = (if k = 0 then ret else int k)"
    and "0 < sint (of_nat k :: u32) \<longleftrightarrow> 0 < k"
proof -
  have "(of_nat k :: u32) = 0 \<longleftrightarrow> k = 0" using assms by (auto simp: word_unat_eq_iff unat_of_nat)
  then show "(if (of_nat k :: u32) \<noteq> 0 then sint (of_nat k :: u32) else ret) = (if k = 0 then ret else int k)"
    "0 < sint (of_nat k :: u32) \<longleftrightarrow> 0 < k" using sint_of_nat_u32 [OF assms] by auto
qed

lemma read_len:
  assumes "unat (en_size n) < 2 ^ 63" and "unat pos < unat (en_size n)"
  shows "unat (if en_size n < pos + ucast (len :: u32) then ucast (en_size n - pos) else len) =
    min (unat len) (unat (en_size n) - unat pos)"
proof -
  have l: "unat len < 2 ^ 32" using unsigned_less [of len] by simp
  have a: "unat (pos + ucast len) = unat pos + unat len"
    using assms l by (simp add: unat_word_ariths unat_ucast_u32_u64)
  have d: "unat (en_size n - pos) = unat (en_size n) - unat pos" using assms by (simp add: unat_sub word_le_nat_alt)
  have "unat (ucast (en_size n - pos) :: u32) = (unat (en_size n) - unat pos) mod 2 ^ 32"
    by (simp add: unsigned_ucast_eq take_bit_eq_mod d)
  then show ?thesis using a l by (auto simp: word_less_nat_alt min_def)
qed

lemma ext4_file_read_eq:
  assumes "pos < en_size n" and "len1 = (if en_size n < pos + ucast len then ucast (en_size n - pos) else len)"
  shows "ext4_file_read ops s sb n pos len = do {
     (ret, data, off, s1) \<leftarrow> read_loop ops s sb n pos len1 0 [];
     Some (if (of_nat (length data) :: u32) \<noteq> 0 then sint (of_nat (length data) :: u32) else ret, data,
       if 0 < sint (of_nat (length data) :: u32) then off else pos, s1) }"
proof -
  have "\<not> en_size n \<le> pos" using assms(1) by simp
  then show ?thesis unfolding ext4_file_read_def assms(2) [symmetric] by (simp add: Let_def)
qed

text \<open>
  (C6) Reading from a file delivers its bytes: what is put into the buffer are the bytes of the file
  from the position on, zeros in holes, never more than asked for or than the file holds; the result
  is their number and the position moves past them; only a block that cannot be read makes it
  shorter, and \<open>-EIO\<close> when there is nothing to deliver at all. The contents of the device as seen
  through the cache do not change. If the blocks behind the range can be fetched one after the other,
  be it from the cache or from the device, the read returns, and in full.
\<close>

theorem ext4_file_read_correct:
  assumes "disk_ok ops disk" and "bcache_inv disk s" and "file_ok disk s dev sb n"
    and "unat (en_size n) < 2 ^ 63" and "unat pos < 2 ^ 63" and "unat len < 2 ^ 31"
    and "want = min (unat len) (unat (en_size n) - unat pos)"
  shows "(\<forall>r data pos' s'. ext4_file_read ops s sb n pos len = Some (r, data, pos', s') \<longrightarrow>
      data = map (file_byte disk s dev sb n) [unat pos ..< unat pos + length data] \<and> length data \<le> want \<and>
      unat pos' = unat pos + length data \<and>
      r = (if data = [] \<and> 0 < want then - errno_val EIO else int (length data)) \<and>
      bcache_inv disk s' \<and> bcontent disk s' = bcontent disk s) \<and>
    (fetchable ops s dev (range_blocks sb n (unat pos) (unat pos + want)) \<longrightarrow>
      (\<exists>data pos' s'. ext4_file_read ops s sb n pos len = Some (int want, data, pos', s') \<and> length data = want))"
proof (cases "pos < en_size n")
  case False
  then have "ext4_file_read ops s sb n pos len = Some (0, [], pos, s)" "want = 0"
    using assms(7) by (simp_all add: ext4_file_read_def not_less word_le_nat_alt)
  then show ?thesis using assms(2) by simp
next
  case True
  define len1 where "len1 = (if en_size n < pos + ucast len then ucast (en_size n - pos) else len)"
  have w: "unat len1 = want" "want < 2 ^ 31" "0 < unat (en_size n) - unat pos"
    using read_len [OF assms(4), of pos len] True assms(6,7) by (simp_all add: len1_def word_less_nat_alt)
  have b: "unat pos + unat len1 < 2 ^ 63" using w(1) assms(4,7) True by (simp add: word_less_nat_alt)
  note eq = ext4_file_read_eq [OF True len1_def, of ops s sb]
  have sound: "data = map (file_byte disk s dev sb n) [unat pos ..< unat pos + length data] \<and> length data \<le> want \<and>
      unat pos' = unat pos + length data \<and>
      r = (if data = [] \<and> 0 < want then - errno_val EIO else int (length data)) \<and>
      bcache_inv disk s' \<and> bcontent disk s' = bcontent disk s"
    if h: "ext4_file_read ops s sb n pos len = Some (r, data, pos', s')" for r data pos' s'
  proof -
    obtain q off where l: "read_loop ops s sb n pos len1 0 [] = Some (q, data, off, s')"
      and r: "r = (if (of_nat (length data) :: u32) \<noteq> 0 then sint (of_nat (length data) :: u32) else q)"
      "pos' = (if 0 < sint (of_nat (length data) :: u32) then off else pos)"
      using h unfolding eq by (auto split: bind_splits)
    obtain m where m: "m \<le> want" "data = map (file_byte disk s dev sb n) [unat pos ..< unat pos + m]" "unat off = unat pos + m"
      "bcache_inv disk s'" "bcontent disk s' = bcontent disk s" "m < want \<longrightarrow> q = - errno_val EIO"
      using read_loop_sound [OF assms(1-3) b l] w(1) by auto
    have ld: "length data = m" using m(2) by simp
    have "want = 0 \<longrightarrow> q = 0" using l w(1) by (auto simp: read_loop.simps unat_eq_0)
    then show ?thesis
      using r m w(2) total_read(1) [of m q] total_read(2) [of m] unfolding ld by (auto simp: ld)
  qed
  moreover have "\<exists>data pos' s'. ext4_file_read ops s sb n pos len = Some (int want, data, pos', s') \<and> length data = want"
    if "fetchable ops s dev (range_blocks sb n (unat pos) (unat pos + want))"
  proof -
    have c: "fetchable ops s dev (range_blocks sb n (unat pos) (unat pos + unat len1))" using that w(1) by simp
    obtain q data off s' where l: "read_loop ops s sb n pos len1 0 [] = Some (q, data, off, s')" "length data = want"
      using read_loop_total [OF assms(1-3) b c, of 0 "[]"] w(1) by auto
    then obtain r pos' where "ext4_file_read ops s sb n pos len = Some (r, data, pos', s')" unfolding eq by auto
    with sound [OF this] l(2) show ?thesis by auto
  qed
  ultimately show ?thesis by blast
qed

section \<open>Writing\<close>

text \<open>Overwriting part of one block changes the bytes of the file there and nowhere else.\<close>

definition one_to_one :: "'n ext4_node_scheme \<Rightarrow> bool" where
  "one_to_one n \<longleftrightarrow> (\<forall>a b p. block_map n a = Some p \<longrightarrow> block_map n b = Some p \<longrightarrow> a = b)"

lemma same_block_index:
  assumes "(of_nat a :: u32) = of_nat b" and "a < 2 ^ 32" and "b < 2 ^ 32"
  shows "a = b"
  using arg_cong [OF assms(1), of unat] assms(2,3) by (simp add: unat_of_nat)

lemma overwrite_block:
  assumes ok: "file_ok disk s dev sb n" and inj: "one_to_one n"
    and p: "block_map n (of_nat (o' div unat (es_blocksize sb))) = Some p"
    and d: "put_bytes (bcontent disk s (dev, p)) (o' mod unat (es_blocksize sb)) xs = Some d'"
    and s': "bcontent disk s' = (bcontent disk s)((dev, p) := d')"
    and fit: "o' mod unat (es_blocksize sb) + length xs \<le> unat (es_blocksize sb)"
    and o': "o' div unat (es_blocksize sb) < 2 ^ 32" and i: "i div unat (es_blocksize sb) < 2 ^ 32"
  shows "file_byte disk s' dev sb n i = (if o' \<le> i \<and> i < o' + length xs then xs ! (i - o') else file_byte disk s dev sb n i)"
proof -
  let ?b = "unat (es_blocksize sb)"
  have b: "0 < ?b" "length (bcontent disk s (dev, p)) = ?b" using ok by (simp_all add: file_ok_def unat_gt_0)
  have d': "d' = take (o' mod ?b) (bcontent disk s (dev, p)) @ xs @ drop (o' mod ?b + length xs) (bcontent disk s (dev, p))"
    using d by (simp add: put_bytes_Some)
  show ?thesis
  proof (cases "i div ?b = o' div ?b")
    case True
    have oi: "o' = o' div ?b * ?b + o' mod ?b" "i = o' div ?b * ?b + i mod ?b" using True div_mult_mod_eq [of i ?b] by simp_all
    have im: "i mod ?b < ?b" using b by simp
    have "file_byte disk s' dev sb n i = d' ! (i mod ?b)" using p True by (simp add: file_byte_def s')
    moreover have "file_byte disk s dev sb n i = bcontent disk s (dev, p) ! (i mod ?b)" using p True by (simp add: file_byte_def)
    moreover have "o' \<le> i \<and> i < o' + length xs \<longleftrightarrow> o' mod ?b \<le> i mod ?b \<and> i mod ?b < o' mod ?b + length xs"
      using oi by linarith
    moreover have "i - o' = i mod ?b - o' mod ?b" using oi by linarith
    moreover have "d' ! (i mod ?b) = (if o' mod ?b \<le> i mod ?b \<and> i mod ?b < o' mod ?b + length xs
        then xs ! (i mod ?b - o' mod ?b) else bcontent disk s (dev, p) ! (i mod ?b))"
      unfolding d' using im b fit by (auto simp: nth_append min_def)
    ultimately show ?thesis by simp
  next
    case False
    have "\<not> (o' \<le> i \<and> i < o' + length xs)"
    proof
      assume "o' \<le> i \<and> i < o' + length xs"
      moreover have "o' = o' div ?b * ?b + o' mod ?b" by simp
      then have "o' + length xs \<le> o' div ?b * ?b + ?b" using fit by linarith
      then have "o' + length xs \<le> (o' div ?b + 1) * ?b" by simp
      ultimately have "i div ?b < o' div ?b + 1" "o' div ?b \<le> i div ?b"
        using div_le_mono less_mult_imp_div_less by (meson order_less_le_trans, blast)
      then show False using False by simp
    qed
    moreover have "block_map n (of_nat (i div ?b)) \<noteq> Some p"
      using inj p same_block_index [OF _ i o'] False unfolding one_to_one_def by metis
    ultimately show ?thesis by (auto simp: file_byte_def s' split: option.splits)
  qed
qed

definition range_mapped :: "ext4_sb \<Rightarrow> 'n ext4_node_scheme \<Rightarrow> nat \<Rightarrow> nat \<Rightarrow> bool" where
  "range_mapped sb n a b \<longleftrightarrow> (\<forall>i. a \<le> i \<longrightarrow> i < b \<longrightarrow> block_map n (of_nat (i div unat (es_blocksize sb))) \<noteq> None)"

text \<open>One round on a mapped block: it cannot be fetched, or it is overwritten.\<close>

lemma write_round:
  assumes inv: "disk_ok ops disk \<and> bcache_inv disk s" and ok: "file_ok disk s dev sb n" and inj: "one_to_one n"
    and bound: "unat off + unat len < 2 ^ 63" and len: "len \<noteq> 0"
    and c: "c = chunk_len off (es_blocksize sb) len"
    and p: "block_map n (of_nat (unat off div unat (es_blocksize sb))) = Some p"
    and data: "tot + unat len \<le> length data" and wide: "unat off div unat (es_blocksize sb) < 2 ^ 32"
  obtains
    (undef) "bread ops s dev p = None" and "write_loop ops s sb n off len data tot = None"
  | (fail) s2 where "bread ops s dev p = Some (None, s2)" and "write_loop ops s sb n off len data tot = Some (- errno_val EIO, tot, off, s2, n)"
  | (hit) k s2 s1 where "bread ops s dev p = Some (Some k, s2)"
    and "write_loop ops s sb n off len data tot = write_loop ops s1 sb n (off + ucast c) (len - c) data (tot + unat c)"
    and "bcache_inv disk s1" and "file_ok disk s1 dev sb n" and "same_shape (brelse s2 (Some k)) s1"
    and "\<And>i. i div unat (es_blocksize sb) < 2 ^ 32 \<Longrightarrow> file_byte disk s1 dev sb n i =
      (if unat off \<le> i \<and> i < unat off + unat c then data ! (tot + (i - unat off)) else file_byte disk s dev sb n i)"
    and "\<And>j. j \<noteq> (dev, p) \<Longrightarrow> bcontent disk s1 j = bcontent disk s j"
proof -
  let ?b = "unat (es_blocksize sb)"
  have sb: "es_bdev sb = Some dev" "es_blocksize sb \<noteq> 0" "length (bcontent disk s (dev, p)) = ?b"
    using ok by (simp_all add: file_ok_def)
  have o: "unat off < 2 ^ 63" using bound by simp
  note cf = chunk_facts [OF bound sb(2) len c]
  note dm = loff_div_mod [OF o sb(2)]
  have wb: "write_block ops s sb n (of_nat (unat off div ?b)) = Some (Some p, s, n)"
    using file_get_block [OF ok] p by (simp add: write_block_def)
  note base = len sb wb dm
  consider "bread ops s dev p = None" | s2 where "bread ops s dev p = Some (None, s2)"
    | k s2 where "bread ops s dev p = Some (Some k, s2)" by (metis old.prod.exhaust option.exhaust)
  then show thesis
  proof cases
    case 1
    then show thesis by (intro undef, simp, subst write_loop.simps) (use base in \<open>simp add: sb_bread_def\<close>)
  next
    case 2
    then show thesis by (intro fail [of s2], simp, subst write_loop.simps) (use base in \<open>simp add: sb_bread_def\<close>)
  next
    case (3 k s2)
    define xs where "xs = take (unat c) (drop tot data)"
    have xs: "length xs = unat c" "get_bytes data tot (unat c) = Some xs" using data cf(2) by (simp_all add: xs_def get_bytes_def)
    obtain d' where d': "put_bytes (bcontent disk s (dev, p)) (unat off mod ?b) xs = Some d'"
      using cf(3) xs(1) sb(3) by (simp add: put_bytes_def)
    define s1 where "s1 = brelse (write_buf s2 k d') (Some k)"
    have k: "k = (dev, p)" using bc.fetch_peek [of ops disk s "(dev, p)" k s2] inv 3 by simp
    have r: "buf_data s2 k = Some (bcontent disk s (dev, p))" "bcache_inv disk s1"
      "bcontent disk s1 = (bcontent disk s)((dev, p) := d')"
      using bc.replace(1) [of ops disk s "(dev, p)" k s2] bc.replace(2,3) [of ops disk s "(dev, p)" k s2 d']
        inv 3 by (simp_all add: s1_def)
    show thesis
    proof (rule hit [OF 3 _ r(2)])
      show "write_loop ops s sb n off len data tot = write_loop ops s1 sb n (off + ucast c) (len - c) data (tot + unat c)"
        by (subst write_loop.simps) (use base 3 cf(1) r(1) xs(2) d' c in \<open>simp add: Let_def sb_bread_def s1_def\<close>)
      show "file_ok disk s1 dev sb n" using ok length_put_bytes [OF d'] by (simp add: file_ok_def r(3))
      show "same_shape (brelse s2 (Some k)) s1" unfolding s1_def by (rule brelse_shape [OF write_buf_shape])
      show "bcontent disk s1 j = bcontent disk s j" if "j \<noteq> (dev, p)" for j using that by (simp add: r(3))
      show "file_byte disk s1 dev sb n i =
        (if unat off \<le> i \<and> i < unat off + unat c then data ! (tot + (i - unat off)) else file_byte disk s dev sb n i)"
        if "i div ?b < 2 ^ 32" for i
      proof -
        have "xs ! (i - unat off) = data ! (tot + (i - unat off))" if "unat off \<le> i" "i < unat off + unat c"
          using that data cf(2) by (simp add: xs_def)
        then show ?thesis
          using overwrite_block [OF ok inj p d' r(3) _ wide that] cf(3) xs(1) by simp
      qed
    qed
  qed
qed

text \<open>The state after \<open>m\<close> bytes have been written from position \<open>a\<close> on.\<close>

definition overwritten :: "('d \<Rightarrow> bkey \<Rightarrow> bytes) \<Rightarrow> 'd blk_state \<Rightarrow> u64 \<Rightarrow> ext4_sb \<Rightarrow> 'n ext4_node_scheme \<Rightarrow> nat \<Rightarrow> bytes \<Rightarrow> 'd blk_state \<Rightarrow> bool" where
  "overwritten disk s dev sb n a xs s' \<longleftrightarrow> bcache_inv disk s' \<and> file_ok disk s' dev sb n \<and>
     (\<forall>i < 2 ^ 32 * unat (es_blocksize sb). file_byte disk s' dev sb n i =
       (if a \<le> i \<and> i < a + length xs then xs ! (i - a) else file_byte disk s dev sb n i)) \<and>
     (\<forall>k. (\<forall>b. block_map n b = Some (snd k) \<longrightarrow> fst k \<noteq> dev) \<longrightarrow> bcontent disk s' k = bcontent disk s k)"

lemma overwritten_trans:
  assumes "overwritten disk s dev sb n a xs s1" and "overwritten disk s1 dev sb n (a + length xs) ys s2"
  shows "overwritten disk s dev sb n a (xs @ ys) s2"
  using assms unfolding overwritten_def by (auto simp: nth_append)

lemma overwritten_Nil:
  "bcache_inv disk s' \<Longrightarrow> file_ok disk s dev sb n \<Longrightarrow> bcontent disk s' = bcontent disk s \<Longrightarrow> overwritten disk s dev sb n a [] s'"
  using file_ok_content [of disk s dev sb n s'] by (auto simp: overwritten_def)

lemma write_loop_mapped:
  assumes "disk_ok ops disk" and "one_to_one n"
    and "bcache_inv disk s" and "file_ok disk s dev sb n"
    and "unat off + unat len < 2 ^ 63" and "unat off + unat len \<le> 2 ^ 32 * unat (es_blocksize sb)"
    and "range_mapped sb n (unat off) (unat off + unat len)" and "tot + unat len \<le> length data"
  shows "(\<forall>q tot' off' s' n'. write_loop ops s sb n off len data tot = Some (q, tot', off', s', n') \<longrightarrow>
      (\<exists>m \<le> unat len. tot' = tot + m \<and> n' = n \<and> unat off' = unat off + m \<and>
         overwritten disk s dev sb n (unat off) (take m (drop tot data)) s' \<and> q = (if m < unat len then - errno_val EIO else 0) \<and>
         (fetchable ops s dev (range_blocks sb n (unat off) (unat off + unat len)) \<longrightarrow> m = unat len))) \<and>
    (fetchable ops s dev (range_blocks sb n (unat off) (unat off + unat len)) \<longrightarrow> write_loop ops s sb n off len data tot \<noteq> None)"
  using assms(3-)
proof (induction "unat len" arbitrary: s off len tot rule: less_induct)
  case less
  let ?b = "unat (es_blocksize sb)"
  show ?case
  proof (cases "len = 0")
    case True
    then show ?thesis using less.prems(1,2) by (auto simp: write_loop.simps intro!: overwritten_Nil)
  next
    case False
    define c where "c = chunk_len off (es_blocksize sb) len"
    define rest where "rest = range_blocks sb n (unat (off + ucast c)) (unat (off + ucast c) + unat (len - c))"
    have inv: "disk_ok ops disk \<and> bcache_inv disk s" using assms(1) less.prems(1) by simp
    have bs: "es_blocksize sb \<noteq> 0" "0 < ?b" using less.prems(2) by (simp_all add: file_ok_def unat_gt_0)
    note cf = chunk_facts [OF less.prems(3) bs(1) False c_def]
    have c0: "0 < unat c" "0 < unat len" using cf(1) False by (simp_all add: unat_gt_0)
    obtain p where p: "block_map n (of_nat (unat off div ?b)) = Some p"
      using less.prems(5) c0(2) unfolding range_mapped_def by fastforce
    have wide: "unat off div ?b < 2 ^ 32" using less.prems(4) c0(2) bs(2) by (simp add: div_less_iff_less_mult)
    have rb: "range_blocks sb n (unat off) (unat off + unat len) = p # rest"
      using range_blocks_round [OF less.prems(3) bs(1) False c_def, of n] p by (simp add: rest_def)
    show ?thesis
    proof (rule write_round [OF inv less.prems(2) assms(2) less.prems(3) False c_def p less.prems(6) wide], goal_cases)
      case 1
      then show ?thesis by (simp add: rb)
    next
      case (2 s2)
      have "overwritten disk s dev sb n (unat off) [] s2"
        using bread_transparent(1,2) [OF assms(1) less.prems(1) 2(1)] less.prems(2) by (intro overwritten_Nil)
      then show ?thesis using 2 c0 by (simp add: rb)
    next
      case (3 k s2 s1)
      have sum: "unat (off + ucast c) + unat (len - c) = unat off + unat len" "tot + unat c + unat (len - c) = tot + unat len"
        using cf by simp_all
      have mp': "range_mapped sb n (unat (off + ucast c)) (unat (off + ucast c) + unat (len - c))"
        using less.prems(5) cf(4) unfolding sum range_mapped_def by simp
      have step: "overwritten disk s dev sb n (unat off) (take (unat c) (drop tot data)) s1"
      proof -
        have "length (take (unat c) (drop tot data)) = unat c" using less.prems(6) cf(2) by simp
        moreover have "i div ?b < 2 ^ 32" if "i < 2 ^ 32 * ?b" for i using that bs(2) by (simp add: div_less_iff_less_mult)
        moreover have "bcontent disk s1 j = bcontent disk s j" if "\<forall>b. block_map n b = Some (snd j) \<longrightarrow> fst j \<noteq> dev" for j
          using that p 3(7) [of j] by (metis fst_conv snd_conv)
        ultimately show ?thesis unfolding overwritten_def using 3(3,4,6) less.prems(6) by auto
      qed
      have "fetchable ops s1 dev rest" if "fetchable ops s dev (p # rest)"
      proof (rule fetchable_shape [OF assms(1) _ 3(3,5)])
        show "bcache_inv disk (brelse s2 (Some k))"
          using brelse_transparent(1) [OF bread_transparent(1) [OF assms(1) less.prems(1) 3(1)]] .
        show "fetchable ops (brelse s2 (Some k)) dev rest" using that 3(1) by simp
      qed
      note fe = this
      have "unat (len - c) < unat len" using cf c0 by simp
      note IH = less.hyps [OF this 3(3,4) less.prems(3) [folded sum(1)] less.prems(4) [folded sum(1)] mp'
        less.prems(6) [folded sum(2)], folded rest_def]
      show ?thesis unfolding rb 3(2)
      proof (intro conjI allI impI)
        fix q tot' off' s' n'
        assume "write_loop ops s1 sb n (off + ucast c) (len - c) data (tot + unat c) = Some (q, tot', off', s', n')"
        then obtain m where m: "m \<le> unat (len - c)" "tot' = tot + unat c + m" "n' = n" "unat off' = unat (off + ucast c) + m"
          "overwritten disk s1 dev sb n (unat (off + ucast c)) (take m (drop (tot + unat c) data)) s'"
          "q = (if m < unat (len - c) then - errno_val EIO else 0)" "fetchable ops s1 dev rest \<longrightarrow> m = unat (len - c)"
          using IH by blast
        have "take (unat c + m) (drop tot data) = take (unat c) (drop tot data) @ take m (drop (tot + unat c) data)"
          by (simp only: take_add drop_drop add.commute [of "unat c" tot])
        moreover have "length (take (unat c) (drop tot data)) = unat c" using less.prems(6) cf(2) by simp
        ultimately have "overwritten disk s dev sb n (unat off) (take (unat c + m) (drop tot data)) s'"
          using overwritten_trans [OF step] m(5) cf(4) by simp
        then show "\<exists>m \<le> unat len. tot' = tot + m \<and> n' = n \<and> unat off' = unat off + m \<and>
          overwritten disk s dev sb n (unat off) (take m (drop tot data)) s' \<and> q = (if m < unat len then - errno_val EIO else 0) \<and>
          (fetchable ops s dev (p # rest) \<longrightarrow> m = unat len)"
          using m cf fe by (intro exI [of _ "unat c + m"]) auto
      next
        assume "fetchable ops s dev (p # rest)"
        then show "write_loop ops s1 sb n (off + ucast c) (len - c) data (tot + unat c) \<noteq> None" using IH fe by blast
      qed
    qed
  qed
qed

text \<open>
  (C5) Writing over mapped blocks of a file no two blocks of which share a device block: a write that
  returns has written some number \<open>m\<close> of the bytes, the result, and moved the position by it, and
  afterwards the file holds these bytes there and its old bytes everywhere else; blocks of the device
  that do not belong to the file keep their contents. If nothing could be written of a non-empty
  request the result is \<open>-EIO\<close>. The size grows to the position reached and never shrinks, and the
  inode is marked for writing back when it grew. If the blocks behind the range can be fetched one
  after the other, from the cache or from the device, the write returns and has written everything.
\<close>

theorem ext4_file_write_correct:
  assumes "disk_ok ops disk" and "one_to_one n" and "bcache_inv disk s" and "file_ok disk s dev sb n"
    and "unat len < 2 ^ 31" and "length data = unat len"
    and "unat pos + unat len < 2 ^ 63" and "unat pos + unat len \<le> 2 ^ 32 * unat (es_blocksize sb)"
    and "range_mapped sb n (unat pos) (unat pos + unat len)"
  shows "(\<forall>r pos' s' n'. ext4_file_write ops s sb n pos data len = Some (r, pos', s', n') \<longrightarrow>
      (\<exists>m \<le> unat len. r = (if m = 0 \<and> 0 < unat len then - errno_val EIO else int m) \<and> unat pos' = unat pos + m \<and>
        bcache_inv disk s' \<and> file_ok disk s' dev sb n' \<and>
        (\<forall>i < 2 ^ 32 * unat (es_blocksize sb). file_byte disk s' dev sb n' i =
           (if unat pos \<le> i \<and> i < unat pos + m then data ! (i - unat pos) else file_byte disk s dev sb n i)) \<and>
        (\<forall>k. (\<forall>b. block_map n b = Some (snd k) \<longrightarrow> fst k \<noteq> dev) \<longrightarrow> bcontent disk s' k = bcontent disk s k) \<and>
        unat (en_size n') = (if m = 0 then unat (en_size n) else max (unat (en_size n)) (unat pos + m)) \<and>
        en_dirty n' = (en_dirty n \<or> en_size n' \<noteq> en_size n) \<and>
        (fetchable ops s dev (range_blocks sb n (unat pos) (unat pos + unat len)) \<longrightarrow> m = unat len))) \<and>
    (fetchable ops s dev (range_blocks sb n (unat pos) (unat pos + unat len)) \<longrightarrow>
      (\<exists>r pos' s' n'. ext4_file_write ops s sb n pos data len = Some (r, pos', s', n')))"
proof (intro conjI allI impI)
  note loop = write_loop_mapped [OF assms(1-4) assms(7-9), of 0 data, simplified assms(6), simplified]
  let ?fe = "fetchable ops s dev (range_blocks sb n (unat pos) (unat pos + unat len))"
  fix r pos' s' n' assume h: "ext4_file_write ops s sb n pos data len = Some (r, pos', s', n')"
  then obtain q tot off' n1 where w: "write_loop ops s sb n pos len data 0 = Some (q, tot, off', s', n1)"
    by (auto simp: ext4_file_write_def Let_def split: bind_splits)
  then obtain m where m: "m \<le> unat len" "tot = m" "n1 = n" "unat off' = unat pos + m"
    "overwritten disk s dev sb n (unat pos) (take m data) s'" "q = (if m < unat len then - errno_val EIO else 0)" "?fe \<longrightarrow> m = unat len"
    using loop by blast
  have m31: "m < 2 ^ 31" using m(1) assms(5) by simp
  define n2 where "n2 = (if 0 < m \<and> en_size n < off' then mark_inode_dirty (n\<lparr>en_size := off'\<rparr>) else n)"
  have res: "r = (if m = 0 then q else int m)" "pos' = (if 0 < m then off' else pos)" "n' = n2"
    using h w m(2,3) total_read [OF m31] by (simp_all add: ext4_file_write_def n2_def)
  have info: "en_info n' = en_info n" by (simp add: res n2_def mark_inode_dirty_def)
  then have same: "block_map n' = block_map n" by (simp add: fun_eq_iff block_map_def ext4_get_block_def)
  have len: "length (take m data) = m" using m(1) assms(6) by simp
  have "r = (if m = 0 \<and> 0 < unat len then - errno_val EIO else int m)" using res(1) m(1,6) by auto
  moreover have "unat pos' = unat pos + m" using res(2) m(4) by simp
  moreover have "bcache_inv disk s'" "file_ok disk s' dev sb n'"
    using m(5) info by (simp_all add: overwritten_def file_ok_def)
  moreover have "\<forall>i < 2 ^ 32 * unat (es_blocksize sb). file_byte disk s' dev sb n' i =
      (if unat pos \<le> i \<and> i < unat pos + m then data ! (i - unat pos) else file_byte disk s dev sb n i)"
    using m(5) len by (auto simp: overwritten_def file_byte_def same)
  moreover have "\<forall>k. (\<forall>b. block_map n b = Some (snd k) \<longrightarrow> fst k \<noteq> dev) \<longrightarrow> bcontent disk s' k = bcontent disk s k"
    using m(5) unfolding overwritten_def by blast
  moreover have "unat (en_size n') = (if m = 0 then unat (en_size n) else max (unat (en_size n)) (unat pos + m))"
    using m(4) by (auto simp: res n2_def mark_inode_dirty_def word_less_nat_alt)
  moreover have "en_dirty n' = (en_dirty n \<or> en_size n' \<noteq> en_size n)" by (auto simp: res n2_def mark_inode_dirty_def)
  ultimately show "\<exists>m \<le> unat len. r = (if m = 0 \<and> 0 < unat len then - errno_val EIO else int m) \<and> unat pos' = unat pos + m \<and>
      bcache_inv disk s' \<and> file_ok disk s' dev sb n' \<and>
      (\<forall>i < 2 ^ 32 * unat (es_blocksize sb). file_byte disk s' dev sb n' i =
         (if unat pos \<le> i \<and> i < unat pos + m then data ! (i - unat pos) else file_byte disk s dev sb n i)) \<and>
      (\<forall>k. (\<forall>b. block_map n b = Some (snd k) \<longrightarrow> fst k \<noteq> dev) \<longrightarrow> bcontent disk s' k = bcontent disk s k) \<and>
      unat (en_size n') = (if m = 0 then unat (en_size n) else max (unat (en_size n)) (unat pos + m)) \<and>
      en_dirty n' = (en_dirty n \<or> en_size n' \<noteq> en_size n) \<and> (?fe \<longrightarrow> m = unat len)"
    using m(1,7) by (intro exI [of _ m]) simp
next
  assume "fetchable ops s dev (range_blocks sb n (unat pos) (unat pos + unat len))"
  then have "write_loop ops s sb n pos len data 0 \<noteq> None"
    using write_loop_mapped [OF assms(1-4) assms(7-9), of 0 data] assms(6) by simp
  then show "\<exists>r pos' s' n'. ext4_file_write ops s sb n pos data len = Some (r, pos', s', n')"
    by (auto simp: ext4_file_write_def Let_def)
qed

section \<open>An example\<close>

text \<open>A file of two bytes in block 7 of the cached memory disk.\<close>

definition small_info :: bytes where
  "small_info = [0x0A, 0xF3, 1, 0, 4, 0, 0, 0, 0, 0, 0, 0, 0, 0, 0, 0, 1, 0, 0, 0, 7, 0, 0, 0] @ replicate 36 0"

definition small_file :: ext4_node where
  "small_file = demo_node\<lparr>en_size := 2, en_info := Some small_info\<rparr>"

definition small_sb :: ext4_sb where
  "small_sb = demo_sb\<lparr>es_bdev := Some 5, es_blocksize := 2\<rparr>"

lemma small_ok: "disk_ok ram_ops (\<lambda>h. h)" "bcache_inv (\<lambda>h. h) ram_cache"
  by (rule ram_disk_ok ram_cache_inv)+

lemma small_extents: "extents_wf small_info" "extents small_info = [\<lparr>ee_block = 0, ee_len = 1, ee_start_hi = 0, ee_start_lo = 7\<rparr>]"
proof -
  have g: "get_le 2 small_info 0 = Some EXT4_EXTENT_HEADER_MAGIC" "get_le 2 small_info 4 = Some (4 :: u16)"
    "get_le 2 small_info 2 = Some (1 :: u16)" "length small_info = sizeof_i_data"
    by (simp_all add: small_info_def get_le_def le_nat_def EXT4_EXTENT_HEADER_MAGIC_def sizeof_i_data_def)
  show e: "extents small_info = [\<lparr>ee_block = 0, ee_len = 1, ee_start_hi = 0, ee_start_lo = 7\<rparr>]"
    by (simp add: extents_def extent_count_def g(3) rd_extent_def extent_off_def)
      (simp add: small_info_def get_le_def le_nat_def)
  show "extents_wf small_info" using g by (simp add: extents_wf_def extents_ok_def e)
qed

lemma small_map: "block_map small_file b = (if b = 0 then Some 7 else None)"
proof -
  have "block_map small_file = map_block (extents small_info)"
    by (rule node_of_extents(2) [OF _ small_extents(1)]) (simp add: small_file_def)
  moreover have "extent_phys \<lparr>ee_block = 0, ee_len = 1, ee_start_hi = 0, ee_start_lo = 7\<rparr> = 7" by code_simp
  moreover have "b < 1 \<longleftrightarrow> b = 0" for b :: u32 by (simp add: word_less_nat_alt unat_eq_0)
  ultimately show ?thesis by (simp add: small_extents(2) covers_def)
qed

lemma small_file_ok: "file_ok (\<lambda>h. h) ram_cache 5 small_sb small_file"
  using small_extents(1)
  by (auto simp: file_ok_def small_sb_def small_file_def bcontent_def ram_cache_def)

lemma small_fetchable: "fetchable ram_ops ram_cache 5 (range_blocks small_sb small_file a b)"
proof (rule fetchable_cached)
  show "disk_ok ram_ops (\<lambda>h. h) \<and> bcache_inv (\<lambda>h. h) ram_cache" using small_ok by simp
  have "set (range_blocks small_sb small_file a b) \<subseteq> {7}"
    by (auto simp: range_blocks_def List.map_filter_def small_map split: if_splits)
  then show "\<forall>n \<in> set (range_blocks small_sb small_file a b). buf_data ram_cache (5, n) \<noteq> None"
    by (auto simp: buf_data_def ram_cache_def)
qed

lemma small_byte: "file_byte (\<lambda>h. h) ram_cache 5 small_sb small_file 0 = 1" "file_byte (\<lambda>h. h) ram_cache 5 small_sb small_file 1 = 2"
  by (simp_all add: file_byte_def small_map small_sb_def bcontent_def ram_cache_def)

theorem ext4_file_read_witness:
  "\<exists>pos' s'. ext4_file_read ram_ops ram_cache small_sb small_file 0 100 = Some (2, [1, 2], pos', s')"
proof -
  have h: "unat (en_size small_file) < 2 ^ 63" "unat (0 :: u64) < 2 ^ 63" "unat (100 :: u32) < 2 ^ 31"
    "(2 :: nat) = min (unat (100 :: u32)) (unat (en_size small_file) - unat (0 :: u64))" by (simp_all add: small_file_def)
  obtain data pos' s' where r: "ext4_file_read ram_ops ram_cache small_sb small_file 0 100 = Some (int 2, data, pos', s')" "length data = 2"
    using ext4_file_read_correct [OF small_ok small_file_ok h] small_fetchable by blast
  then have "data = map (file_byte (\<lambda>h. h) ram_cache 5 small_sb small_file) [unat (0 :: u64) ..< unat (0 :: u64) + length data]"
    using ext4_file_read_correct [OF small_ok small_file_ok h] by blast
  then have "data = [1, 2]" using r(2) small_byte by (simp add: upt_rec)
  then show ?thesis using r by auto
qed

theorem ext4_file_write_witness:
  "\<exists>pos' s' n'. ext4_file_write ram_ops ram_cache small_sb small_file 1 [9] 1 = Some (1, pos', s', n') \<and>
     file_byte (\<lambda>h. h) s' 5 small_sb n' 0 = 1 \<and> file_byte (\<lambda>h. h) s' 5 small_sb n' 1 = 9"
proof -
  have m: "one_to_one small_file" by (simp add: one_to_one_def small_map)
  have rm: "range_mapped small_sb small_file (unat (1 :: u64)) (unat (1 :: u64) + unat (1 :: u32))"
    by (simp add: range_mapped_def small_map small_sb_def)
  have h: "unat (1 :: u32) < 2 ^ 31" "length [9 :: u8] = unat (1 :: u32)" "unat (1 :: u64) + unat (1 :: u32) < 2 ^ 63"
    "unat (1 :: u64) + unat (1 :: u32) \<le> 2 ^ 32 * unat (es_blocksize small_sb)" by (simp_all add: small_sb_def)
  note w = ext4_file_write_correct [OF small_ok(1) m small_ok(2) small_file_ok h rm]
  obtain r pos' s' n' where w1: "ext4_file_write ram_ops ram_cache small_sb small_file 1 [9] 1 = Some (r, pos', s', n')"
    using conjunct2 [OF w] small_fetchable by blast
  obtain m where "m = unat (1 :: u32)" "r = (if m = 0 \<and> 0 < unat (1 :: u32) then - errno_val EIO else int m)"
    and f: "\<forall>i < 2 ^ 32 * unat (es_blocksize small_sb). file_byte (\<lambda>h. h) s' 5 small_sb n' i =
       (if unat (1 :: u64) \<le> i \<and> i < unat (1 :: u64) + m then [9] ! (i - unat (1 :: u64))
        else file_byte (\<lambda>h. h) ram_cache 5 small_sb small_file i)"
    using conjunct1 [OF w, rule_format, OF w1] small_fetchable by blast
  moreover have "file_byte (\<lambda>h. h) s' 5 small_sb n' 0 = 1" "file_byte (\<lambda>h. h) s' 5 small_sb n' 1 = 9"
    using calculation f [rule_format, of 0] f [rule_format, of 1] small_byte by (simp_all add: small_sb_def)
  ultimately show ?thesis using w1 by auto
qed

end
