(* ===== verification/Ext4_Inode.thy ===== *)
theory Ext4_Inode
  imports Ext4
begin

text \<open>
  Inodes on disk, \<open>kernel/fs/backend/ext4fs/inode.c\<close>: where an inode lies in the inode table, the
  conversion between \<open>struct ext4_inode\<close> and the inode in memory, and reading and writing it through
  the buffer cache. \<open>struct ext4_inode\<close> as the header declares it is 140 bytes long.
\<close>

section \<open>Definitions\<close>

definition sizeof_ext4_inode :: nat where "sizeof_ext4_inode = 140"

text \<open>File types in the mode of an inode (\<open>include/uapi/stat.h\<close>), and the addresses of the operation
  tables of directories and files, which are fixed numbers, all different.\<close>

definition S_IFMT :: u16 where "S_IFMT = 0xF000"
definition S_IFDIR :: u16 where "S_IFDIR = 0x4000"
definition S_IFREG :: u16 where "S_IFREG = 0x8000"
definition S_IFCHR :: u16 where "S_IFCHR = 0x2000"

lemmas mode_defs = S_IFMT_def S_IFDIR_def S_IFREG_def S_IFCHR_def

definition S_ISDIR :: "u16 \<Rightarrow> bool" where "S_ISDIR m \<longleftrightarrow> m AND S_IFMT = S_IFDIR"
definition S_ISREG :: "u16 \<Rightarrow> bool" where "S_ISREG m \<longleftrightarrow> m AND S_IFMT = S_IFREG"

definition S_IFLNK :: u16 where "S_IFLNK = 0xA000"

definition S_ISLNK :: "u16 \<Rightarrow> bool" where "S_ISLNK m \<longleftrightarrow> m AND S_IFMT = S_IFLNK"

definition ext4_dir_iop_addr :: u64 where "ext4_dir_iop_addr = 0x20"
definition ext4_file_iop_addr :: u64 where "ext4_file_iop_addr = 0x21"
definition ext4_dir_fop_addr :: u64 where "ext4_dir_fop_addr = 0x30"
definition ext4_file_fop_addr :: u64 where "ext4_file_fop_addr = 0x31"

text \<open>Group and index of an inode number, in 64-bit arithmetic cut to 32 bits.\<close>

definition ino_group :: "ext4_sb \<Rightarrow> u64 \<Rightarrow> u32" where
  "ino_group sb ino = ucast ((ino - 1) div ucast (es_inodes_per_group sb))"

definition ino_index :: "ext4_sb \<Rightarrow> u64 \<Rightarrow> u32" where
  "ino_index sb ino = ucast ((ino - 1) mod ucast (es_inodes_per_group sb))"

definition ext4_inode_block :: "'d blk_state \<Rightarrow> ext4_sb \<Rightarrow> u32 \<Rightarrow> u32 \<Rightarrow> (u32 \<times> u32) option" where
  "ext4_inode_block s sb grp idx = do {
     k \<leftarrow> rd (es_group_desc sb) (unat grp);
     gd \<leftarrow> buf_data s k;
     inode_table \<leftarrow> get_le 4 gd 8;
     let block_size = push_bit (unat (es_log_block_size sb)) (1024 :: u32);
     let raw_off = idx * es_inode_size sb;
     (if block_size = 0 then None
      else Some ((inode_table :: u32) + raw_off div block_size, raw_off mod block_size)) }"

definition set_ext4_ops :: "'n ext4_node_scheme \<Rightarrow> 'n ext4_node_scheme" where
  "set_ext4_ops i =
     (if S_ISDIR (en_mode i) \<or> S_ISLNK (en_mode i)
      then i\<lparr>i_op := Some ext4_dir_iop_addr, i_fop := Some ext4_dir_fop_addr\<rparr>
      else i\<lparr>i_op := Some ext4_file_iop_addr, i_fop := Some ext4_file_fop_addr\<rparr>)"

text \<open>
  The fields are read from the buffer, and the whole structure is copied, so all of it has to lie
  inside the buffer.
\<close>

definition ext4_raw_inode_to_inode :: "'n ext4_node_scheme \<Rightarrow> bytes \<Rightarrow> nat \<Rightarrow> 'n ext4_node_scheme option" where
  "ext4_raw_inode_to_inode n d off =
     (if length d < off + sizeof_ext4_inode then None
      else do {
        mode \<leftarrow> get_le 2 d off;
        nlink \<leftarrow> get_le 2 d (off + 26);
        uid \<leftarrow> get_le 2 d (off + 2);
        gid \<leftarrow> get_le 2 d (off + 24);
        hi \<leftarrow> get_le 4 d (off + 108);
        lo \<leftarrow> get_le 4 d (off + 4);
        blocks \<leftarrow> get_le 4 d (off + 28);
        (case en_info n of
           None \<Rightarrow> None
         | Some _ \<Rightarrow> Some (set_ext4_ops (n\<lparr>en_mode := mode, en_nlink := ucast (nlink :: u16), en_uid := ucast (uid :: u16),
             en_gid := ucast (gid :: u16), en_size := push_bit 32 (ucast (hi :: u32)) OR ucast (lo :: u32),
             en_blocks := ucast (blocks :: u32), en_info := Some (take sizeof_i_data (drop (off + 40) d))\<rparr>))) })"

definition ext4_inode_to_raw_inode :: "'n ext4_node_scheme \<Rightarrow> bytes \<Rightarrow> nat \<Rightarrow> bytes option" where
  "ext4_inode_to_raw_inode n d off = do {
     d0 \<leftarrow> put_bytes d off (replicate sizeof_ext4_inode 0);
     d1 \<leftarrow> put_le 2 d0 off (en_mode n);
     d2 \<leftarrow> put_le 2 d1 (off + 2) (ucast (en_uid n) :: u16);
     d3 \<leftarrow> put_le 2 d2 (off + 24) (ucast (en_gid n) :: u16);
     d4 \<leftarrow> put_le 4 d3 (off + 4) (ucast (en_size n AND 0xffffffff) :: u32);
     d5 \<leftarrow> put_le 4 d4 (off + 108) (ucast (drop_bit 32 (en_size n)) :: u32);
     d6 \<leftarrow> put_le 2 d5 (off + 26) (ucast (en_nlink n) :: u16);
     d7 \<leftarrow> put_le 4 d6 (off + 28) (ucast (en_blocks n) :: u32);
     i \<leftarrow> en_info n;
     put_bytes d7 (off + 40) i }"

text \<open>The part of \<open>ext4_iget\<close> that fills a new inode from disk.\<close>

definition ext4_iget_fill :: "'d ops_table \<Rightarrow> 'd blk_state \<Rightarrow> ext4_sb \<Rightarrow> 'n ext4_node_scheme \<Rightarrow>
    ('n ext4_node_scheme option \<times> 'd blk_state) option" where
  "ext4_iget_fill ops s sb n =
     (if es_inodes_per_group sb = 0 then None
      else do {
        (block, off) \<leftarrow> ext4_inode_block s sb (ino_group sb (en_ino n)) (ino_index sb (en_ino n));
        (bh, s1) \<leftarrow> sb_bread ops s (es_bdev sb) (ucast block);
        (case bh of
           None \<Rightarrow> Some (None, s1)
         | Some k \<Rightarrow> do {
             d \<leftarrow> buf_data s1 k;
             n1 \<leftarrow> ext4_raw_inode_to_inode n d (unat off);
             Some (Some n1, brelse s1 (Some k)) }) })"

definition ext4_write_inode :: "'d ops_table \<Rightarrow> 'd blk_state \<Rightarrow> ext4_sb \<Rightarrow> 'n ext4_node_scheme \<Rightarrow> ((errno + unit) \<times> 'd blk_state) option" where
  "ext4_write_inode ops s sb n =
     (if es_inodes_per_group sb = 0 then None
      else do {
        (block, off) \<leftarrow> ext4_inode_block s sb (ino_group sb (en_ino n)) (ino_index sb (en_ino n));
        (bh, s1) \<leftarrow> sb_bread ops s (es_bdev sb) (ucast block);
        (case bh of
           None \<Rightarrow> Some (Inl EIO, s1)
         | Some k \<Rightarrow> do {
             d \<leftarrow> buf_data s1 k;
             d' \<leftarrow> ext4_inode_to_raw_inode n d (unat off);
             Some (Inr (), brelse (write_buf s1 k d') (Some k)) }) })"

section \<open>Round trip\<close>

text \<open>The fields as they come back: the link count and the owners keep 16 bits, the blocks 32; the
  operation tables are those of the mode.\<close>

definition stored :: "'n ext4_node_scheme \<Rightarrow> 'n ext4_node_scheme \<Rightarrow> bool" where
  "stored n m \<longleftrightarrow> set_ext4_ops m = m \<and> en_mode m = en_mode n \<and> en_size m = en_size n \<and> en_info m = en_info n \<and>
     unat (en_nlink m) = unat (en_nlink n) mod 2 ^ 16 \<and> unat (en_uid m) = unat (en_uid n) mod 2 ^ 16 \<and>
     unat (en_gid m) = unat (en_gid n) mod 2 ^ 16 \<and> unat (en_blocks m) = unat (en_blocks n) mod 2 ^ 32"

lemma set_ext4_ops_fields [simp]:
  "en_ino (set_ext4_ops n) = en_ino n" "en_mode (set_ext4_ops n) = en_mode n" "en_size (set_ext4_ops n) = en_size n"
  "en_info (set_ext4_ops n) = en_info n" "en_nlink (set_ext4_ops n) = en_nlink n" "en_uid (set_ext4_ops n) = en_uid n"
  "en_gid (set_ext4_ops n) = en_gid n" "en_blocks (set_ext4_ops n) = en_blocks n"
  "set_ext4_ops (set_ext4_ops n) = set_ext4_ops n"
  by (simp_all add: set_ext4_ops_def)

lemma size_halves: "push_bit 32 (ucast (ucast (drop_bit 32 x) :: u32)) OR ucast (ucast ((x :: u64) AND 0xffffffff) :: u32) = x"
proof (rule bit_word_eqI)
  fix i assume "i < LENGTH(64)"
  then show "bit (push_bit 32 (ucast (ucast (drop_bit 32 x) :: u32)) OR ucast (ucast (x AND 0xffffffff) :: u32) :: u64) i = bit x i"
    unfolding masks by (cases "i < 32") (auto simp: bit_simps)
qed

lemma unat_narrow:
  "unat (ucast (ucast (x :: u32) :: u16) :: u32) = unat x mod 2 ^ 16" "unat (ucast (ucast (y :: u64) :: u32) :: u64) = unat y mod 2 ^ 32"
  by (simp_all add: unsigned_ucast_eq unat_take_bit)

lemma put_step:
  "off + length xs \<le> length d \<Longrightarrow> \<exists>d'. put_bytes d off xs = Some d' \<and> length d' = length d"
  by (simp add: put_bytes_def)

lemma put_bytes_nth:
  assumes "put_bytes d off xs = Some d'" and "q < off \<or> off + length xs \<le> q" and "q < length d"
  shows "d' ! q = d ! q"
  using assms by (auto simp: put_bytes_Some nth_append)

text \<open>All the stores into the structure, in order.\<close>

lemma raw_inode_stores:
  assumes "en_info n = Some i" and "length i = sizeof_i_data" and "off + sizeof_ext4_inode \<le> length d"
  obtains d0 d1 d2 d3 d4 d5 d6 d7 d8 where
    "put_bytes d off (replicate sizeof_ext4_inode 0) = Some d0"
    and "put_le 2 d0 off (en_mode n) = Some d1"
    and "put_le 2 d1 (off + 2) (ucast (en_uid n) :: u16) = Some d2"
    and "put_le 2 d2 (off + 24) (ucast (en_gid n) :: u16) = Some d3"
    and "put_le 4 d3 (off + 4) (ucast (en_size n AND 0xffffffff) :: u32) = Some d4"
    and "put_le 4 d4 (off + 108) (ucast (drop_bit 32 (en_size n)) :: u32) = Some d5"
    and "put_le 2 d5 (off + 26) (ucast (en_nlink n) :: u16) = Some d6"
    and "put_le 4 d6 (off + 28) (ucast (en_blocks n) :: u32) = Some d7"
    and "put_bytes d7 (off + 40) i = Some d8"
    and "ext4_inode_to_raw_inode n d off = Some d8" and "length d8 = length d"
proof -
  have L: "off + 140 \<le> length d" "length i = 60" using assms by (simp_all add: sizeof_ext4_inode_def sizeof_i_data_def)
  obtain d0 where d0: "put_bytes d off (replicate sizeof_ext4_inode 0) = Some d0" "length d0 = length d"
    using put_step [of off "replicate sizeof_ext4_inode 0" d] assms(3) by auto
  obtain d1 where d1: "put_le 2 d0 off (en_mode n) = Some d1" "length d1 = length d"
    using put_step [of off "le_bytes 2 (unat (en_mode n))" d0] d0(2) L by (auto simp: put_le_def)
  obtain d2 where d2: "put_le 2 d1 (off + 2) (ucast (en_uid n) :: u16) = Some d2" "length d2 = length d"
    using put_step [of "off + 2" "le_bytes 2 (unat (ucast (en_uid n) :: u16))" d1] d1(2) L by (auto simp: put_le_def)
  obtain d3 where d3: "put_le 2 d2 (off + 24) (ucast (en_gid n) :: u16) = Some d3" "length d3 = length d"
    using put_step [of "off + 24" "le_bytes 2 (unat (ucast (en_gid n) :: u16))" d2] d2(2) L by (auto simp: put_le_def)
  obtain d4 where d4: "put_le 4 d3 (off + 4) (ucast (en_size n AND 0xffffffff) :: u32) = Some d4" "length d4 = length d"
    using put_step [of "off + 4" "le_bytes 4 (unat (ucast (en_size n AND 0xffffffff) :: u32))" d3] d3(2) L by (auto simp: put_le_def)
  obtain d5 where d5: "put_le 4 d4 (off + 108) (ucast (drop_bit 32 (en_size n)) :: u32) = Some d5" "length d5 = length d"
    using put_step [of "off + 108" "le_bytes 4 (unat (ucast (drop_bit 32 (en_size n)) :: u32))" d4] d4(2) L by (auto simp: put_le_def)
  obtain d6 where d6: "put_le 2 d5 (off + 26) (ucast (en_nlink n) :: u16) = Some d6" "length d6 = length d"
    using put_step [of "off + 26" "le_bytes 2 (unat (ucast (en_nlink n) :: u16))" d5] d5(2) L by (auto simp: put_le_def)
  obtain d7 where d7: "put_le 4 d6 (off + 28) (ucast (en_blocks n) :: u32) = Some d7" "length d7 = length d"
    using put_step [of "off + 28" "le_bytes 4 (unat (ucast (en_blocks n) :: u32))" d6] d6(2) L by (auto simp: put_le_def)
  obtain d8 where d8: "put_bytes d7 (off + 40) i = Some d8" "length d8 = length d"
    using put_step [of "off + 40" i d7] d7(2) L by auto
  have "ext4_inode_to_raw_inode n d off = Some d8"
    using d0(1) d1(1) d2(1) d3(1) d4(1) d5(1) d6(1) d7(1) d8(1) assms(1) by (simp add: ext4_inode_to_raw_inode_def)
  then show thesis using that d0(1) d1(1) d2(1) d3(1) d4(1) d5(1) d6(1) d7(1) d8 by blast
qed

lemma raw_inode_roundtrip:
  assumes "en_info n = Some i" and "length i = sizeof_i_data" and "off + sizeof_ext4_inode \<le> length d"
    and "en_info m = Some j"
  obtains d' n' where "ext4_inode_to_raw_inode n d off = Some d'" and "length d' = length d"
    and "\<And>q. q < off \<or> off + sizeof_ext4_inode \<le> q \<Longrightarrow> q < length d \<Longrightarrow> d' ! q = d ! q"
    and "ext4_raw_inode_to_inode m d' off = Some n'" and "stored n n'" and "en_ino n' = en_ino m"
proof (rule raw_inode_stores [OF assms(1-3)], goal_cases)
  case (1 d0 d1 d2 d3 d4 d5 d6 d7 d8)
  have L: "length i = 60" using assms(2) by (simp add: sizeof_i_data_def)
  note p = 1(2) 1(3-9) [THEN put_le_bytes] 1(10)
  note len = length_put_bytes [OF p(1)] length_put_bytes [OF p(2)] length_put_bytes [OF p(3)] length_put_bytes [OF p(4)]
    length_put_bytes [OF p(5)] length_put_bytes [OF p(6)] length_put_bytes [OF p(7)] length_put_bytes [OF p(8)] length_put_bytes [OF p(9)]
  note fr = get_le_put_other [OF p(9)] get_le_put_other [OF p(8)] get_le_put_other [OF p(7)] get_le_put_other [OF p(6)]
    get_le_put_other [OF p(5)] get_le_put_other [OF p(4)] get_le_put_other [OF p(3)]
  note same = get_le_put_same [OF 1(3)] get_le_put_same [OF 1(4)] get_le_put_same [OF 1(5)] get_le_put_same [OF 1(6)]
    get_le_put_same [OF 1(7)] get_le_put_same [OF 1(8)] get_le_put_same [OF 1(9)]
  have f: "get_le 2 d8 off = Some (en_mode n)" "get_le 2 d8 (off + 26) = Some (ucast (en_nlink n) :: u16)"
    "get_le 2 d8 (off + 2) = Some (ucast (en_uid n) :: u16)" "get_le 2 d8 (off + 24) = Some (ucast (en_gid n) :: u16)"
    "get_le 4 d8 (off + 108) = Some (ucast (drop_bit 32 (en_size n)) :: u32)"
    "get_le 4 d8 (off + 4) = Some (ucast (en_size n AND 0xffffffff) :: u32)"
    "get_le 4 d8 (off + 28) = Some (ucast (en_blocks n) :: u32)"
    using L same by (simp_all add: fr)
  have t: "take sizeof_i_data (drop (off + 40) d8) = i" using take_drop_put_same [OF p(9)] assms(2) by simp
  define n' where "n' = set_ext4_ops (m\<lparr>en_mode := en_mode n, en_nlink := ucast (ucast (en_nlink n) :: u16), en_uid := ucast (ucast (en_uid n) :: u16),
    en_gid := ucast (ucast (en_gid n) :: u16),
    en_size := push_bit 32 (ucast (ucast (drop_bit 32 (en_size n)) :: u32)) OR ucast (ucast (en_size n AND 0xffffffff) :: u32),
    en_blocks := ucast (ucast (en_blocks n) :: u32), en_info := Some i\<rparr>)"
  show thesis
  proof (rule that [OF 1(11,12)])
    show "d8 ! q = d ! q" if "q < off \<or> off + sizeof_ext4_inode \<le> q" "q < length d" for q
    proof -
      have q: "q < off \<or> off + 140 \<le> q" using that(1) by (simp add: sizeof_ext4_inode_def)
      have "d8 ! q = d7 ! q" by (rule put_bytes_nth [OF p(9)]) (use q L len that(2) in auto)
      also have "\<dots> = d6 ! q" by (rule put_bytes_nth [OF p(8)]) (use q len that(2) in auto)
      also have "\<dots> = d5 ! q" by (rule put_bytes_nth [OF p(7)]) (use q len that(2) in auto)
      also have "\<dots> = d4 ! q" by (rule put_bytes_nth [OF p(6)]) (use q len that(2) in auto)
      also have "\<dots> = d3 ! q" by (rule put_bytes_nth [OF p(5)]) (use q len that(2) in auto)
      also have "\<dots> = d2 ! q" by (rule put_bytes_nth [OF p(4)]) (use q len that(2) in auto)
      also have "\<dots> = d1 ! q" by (rule put_bytes_nth [OF p(3)]) (use q len that(2) in auto)
      also have "\<dots> = d0 ! q" by (rule put_bytes_nth [OF p(2)]) (use q len that(2) in auto)
      also have "\<dots> = d ! q" by (rule put_bytes_nth [OF p(1)]) (use that in auto)
      finally show ?thesis .
    qed
    show "ext4_raw_inode_to_inode m d8 off = Some n'"
      using f t assms(3,4) 1(12) by (simp add: ext4_raw_inode_to_inode_def n'_def)
    show "stored n n'" using assms(1) by (simp add: stored_def n'_def size_halves unat_narrow)
    show "en_ino n' = en_ino m" by (simp add: n'_def)
  qed
qed

lemma ext4_inode_block_cong:
  "\<forall>k \<in> set (es_group_desc sb). buf_data s' k = buf_data s k \<Longrightarrow> ext4_inode_block s' sb g i = ext4_inode_block s sb g i"
  by (cases "unat g < length (es_group_desc sb)") (simp_all add: ext4_inode_block_def rd_def)


text \<open>
  The structure is longer than the 128 bytes of the smallest inode on disk, so writing such an inode
  clears the mode of the inode behind it, whatever that was.
\<close>

lemma inode_write_clears_next:
  assumes "en_info n = Some i" and "length i = sizeof_i_data" and "off + sizeof_ext4_inode \<le> length d"
    and "ext4_inode_to_raw_inode n d off = Some d'"
  shows "get_le 2 d' (off + 128) = Some (0 :: u16)"
proof (rule raw_inode_stores [OF assms(1-3)], goal_cases)
  case (1 d0 d1 d2 d3 d4 d5 d6 d7 d8)
  have L: "length i = 60" using assms(2) by (simp add: sizeof_i_data_def)
  note p = 1(1) 1(2-8) [THEN put_le_bytes] 1(9)
  note fr = get_le_put_other [OF p(9)] get_le_put_other [OF p(8)] get_le_put_other [OF p(7)] get_le_put_other [OF p(6)]
    get_le_put_other [OF p(5)] get_le_put_other [OF p(4)] get_le_put_other [OF p(3)] get_le_put_other [OF p(2)]
  have "(get_le 2 d8 (off + 128) :: u16 option) = get_le 2 d0 (off + 128)" using L by (simp add: fr)
  moreover have "take 2 (drop (off + 128) d0) = [0, 0]"
    using 1(1) by (simp add: put_bytes_Some sizeof_ext4_inode_def numeral_2_eq_2)
  then have "get_le 2 d0 (off + 128) = Some (0 :: u16)"
    using length_put_bytes [OF 1(1)] assms(3) by (simp add: get_le_def le_nat_def sizeof_ext4_inode_def)
  ultimately show ?case using 1(10) assms(4) by simp
qed

text \<open>An inode table that starts at block 7 of the memory disk, its group descriptor in block 1.\<close>

definition table_cache :: "(bkey \<Rightarrow> bytes) blk_state" where
  "table_cache = ram_cache\<lparr>g_bcache_lru := [(5, 9), (5, 1)], bk_hw := (\<lambda>_. []),
     bk_bufs := [(5, 9) \<mapsto> \<lparr>b_self = 0, b_blocknr = 9, b_size = 1024, b_ref_count = 0, b_dirty = True,
         b_addr = 0, b_data = replicate 1024 0, b_bdev = 5\<rparr>,
       (5, 1) \<mapsto> \<lparr>b_self = 0, b_blocknr = 1, b_size = 1024, b_ref_count = 0, b_dirty = True,
         b_addr = 0, b_data = [0, 0, 0, 0, 0, 0, 0, 0, 7, 0, 0, 0], b_bdev = 5\<rparr>],
     g_bcache_tree := \<lparr>rb_root = Some (5, 9), rb_nd = (\<lambda>_. zero_node)(
       (5, 9) := \<lparr>rb_left = Some (5, 1), rb_right = None, rb_parent = None, rb_col = RB_COLOR_BLACK\<rparr>,
       (5, 1) := \<lparr>rb_left = None, rb_right = None, rb_parent = Some (5, 9), rb_col = RB_COLOR_RED\<rparr>)\<rparr>\<rparr>"

definition table_sb :: ext4_sb where
  "table_sb = demo_sb\<lparr>es_bdev := Some 5, es_group_desc := [(5, 1)], es_log_block_size := 0\<rparr>"

lemma table_cache_inv: "bcache_inv (\<lambda>h. h) table_cache"
proof -
  have "bcache_tree_ok (g_bcache_tree table_cache) (dom (bk_bufs table_cache))"
    unfolding bcache_tree_ok_def
    by (rule exI [of _ "Nd RB_COLOR_BLACK (Nd RB_COLOR_RED Lf (5, 1) Lf) (5, 9) Lf"])
      (auto simp: table_cache_def holds_def rb_valid_def)
  then show ?thesis by (auto simp: bcache_inv_def table_cache_def split: if_splits)
qed


end
