(* ===== verification/Ext4_Dir.thy ===== *)
theory Ext4_Dir
  imports Ext4
begin

text \<open>
  Directories, \<open>kernel/fs/backend/ext4fs/dir.c\<close>: the records of a directory block, and the
  operations that search, list, add and delete entries over all blocks of a directory. The loops
  inside a block work on its bytes; a record of length zero makes them run for ever and an access
  outside the block is undefined, both are \<open>None\<close>. Fetching the inode of an entry that was found
  belongs to the inode cache; \<open>ext4_lookup\<close> ends here with the inode number.
\<close>

section \<open>Records of a block\<close>

definition de_inode :: "bytes \<Rightarrow> nat \<Rightarrow> u32 option" where "de_inode d off = get_le 4 d off"
definition de_rec_len :: "bytes \<Rightarrow> nat \<Rightarrow> u16 option" where "de_rec_len d off = get_le 2 d (off + 4)"
definition de_name_len :: "bytes \<Rightarrow> nat \<Rightarrow> u8 option" where "de_name_len d off = get_le 1 d (off + 6)"
definition de_file_type :: "bytes \<Rightarrow> nat \<Rightarrow> u8 option" where "de_file_type d off = get_le 1 d (off + 7)"
definition sizeof_dirent :: nat where "sizeof_dirent = 8"

fun name_cmp :: "bytes \<Rightarrow> nat \<Rightarrow> cstr \<Rightarrow> bool option" where
  "name_cmp d off [] = Some True"
| "name_cmp d off (c # cs) = do { x \<leftarrow> rd d off; (if x = c then name_cmp d (off + 1) cs else Some False) }"

text \<open>The next record, if the length of this one leads to it.\<close>

definition ext4_next_entry :: "bytes \<Rightarrow> nat \<Rightarrow> nat option" where
  "ext4_next_entry d off = do { rl \<leftarrow> de_rec_len d off; (if rl = 0 then None else Some (off + unat rl)) }"

lemma next_entry_less: "ext4_next_entry d off = Some off' \<Longrightarrow> off < off'"
  by (auto simp: ext4_next_entry_def unat_gt_0 split: bind_splits if_splits)

definition entry_named :: "bytes \<Rightarrow> nat \<Rightarrow> cstr \<Rightarrow> bool option" where
  "entry_named d off name = do {
     ino \<leftarrow> de_inode d off;
     (if ino \<noteq> 0
      then do { l \<leftarrow> de_name_len d off; (if length name = unat l then name_cmp d (off + sizeof_dirent) name else Some False) }
      else Some False) }"

function dir_find :: "bytes \<Rightarrow> nat \<Rightarrow> cstr \<Rightarrow> nat \<Rightarrow> u32 option option" where
  "dir_find d bs name off =
     (if bs \<le> off then Some None
      else do {
        hit \<leftarrow> entry_named d off name;
        (if hit then do { ino \<leftarrow> de_inode d off; Some (Some ino) }
         else (case ext4_next_entry d off of None \<Rightarrow> None | Some off' \<Rightarrow> dir_find d bs name off')) })"
  by pat_completeness auto
termination
  by (relation "measure (\<lambda>(_, bs, _, off). bs - off)") (auto dest: next_entry_less)

function dir_count :: "bytes \<Rightarrow> nat \<Rightarrow> nat \<Rightarrow> nat \<Rightarrow> nat option" where
  "dir_count d bs off n =
     (if bs \<le> off then Some n
      else do {
        ino \<leftarrow> de_inode d off;
        (case ext4_next_entry d off of None \<Rightarrow> None | Some off' \<Rightarrow> dir_count d bs off' (if ino \<noteq> 0 then n + 1 else n)) })"
  by pat_completeness auto
termination
  by (relation "measure (\<lambda>(_, bs, off, _). bs - off)") (auto dest: next_entry_less)

definition round4 :: "nat \<Rightarrow> nat" where
  "round4 n = (n + 3) div 4 * 4"

text \<open>Where a new entry goes: the unused first record, or the slack behind a used one, which is split off.\<close>

function add_scan :: "bytes \<Rightarrow> nat \<Rightarrow> u16 \<Rightarrow> bool \<Rightarrow> nat \<Rightarrow> (bytes \<times> nat) option option" where
  "add_scan d bs needed first off =
     (if bs \<le> off then Some None
      else do {
        rl \<leftarrow> de_rec_len d off;
        ino \<leftarrow> de_inode d off;
        let next = (case ext4_next_entry d off of None \<Rightarrow> None | Some off' \<Rightarrow> add_scan d bs needed False off');
        (if ino = 0 \<and> first then (if needed \<le> rl then Some (Some (d, off)) else next)
         else if ino = 0 then next
         else do {
           nl \<leftarrow> de_name_len d off;
           let actual = (of_nat (sizeof_dirent + round4 (unat nl)) :: u16);
           (if needed \<le> rl - actual
            then do {
              d1 \<leftarrow> put_le 2 d (off + unat actual + 4) (rl - actual);
              d2 \<leftarrow> put_le 2 d1 (off + 4) actual;
              Some (Some (d2, off + unat actual)) }
            else next) }) })"
  by pat_completeness auto
termination
  by (relation "measure (\<lambda>(_, bs, _, _, off). bs - off)") (auto dest: next_entry_less)

definition insert_entry :: "bytes \<Rightarrow> nat \<Rightarrow> u32 \<Rightarrow> cstr \<Rightarrow> u8 \<Rightarrow> bytes option" where
  "insert_entry d off ino name ty = do {
     d1 \<leftarrow> put_le 4 d off ino;
     d2 \<leftarrow> put_le 1 d1 (off + 6) (of_nat (length name) :: u8);
     d3 \<leftarrow> put_le 1 d2 (off + 7) ty;
     put_bytes d3 (off + sizeof_dirent) name }"

definition dir_add :: "bytes \<Rightarrow> nat \<Rightarrow> cstr \<Rightarrow> u32 \<Rightarrow> u8 \<Rightarrow> bytes option option" where
  "dir_add d bs name ino ty = do {
     r \<leftarrow> add_scan d bs (of_nat (sizeof_dirent + round4 (length name))) True 0;
     (case r of
        None \<Rightarrow> Some None
      | Some (d1, off) \<Rightarrow> do { d2 \<leftarrow> insert_entry d1 off ino name ty; Some (Some d2) }) }"

text \<open>Deleting an entry gives its space to the record before it, or leaves the first record unused.\<close>

function dir_delete :: "bytes \<Rightarrow> nat \<Rightarrow> cstr \<Rightarrow> nat option \<Rightarrow> nat \<Rightarrow> bytes option option" where
  "dir_delete d bs name prev off =
     (if bs \<le> off then Some None
      else do {
        hit \<leftarrow> entry_named d off name;
        (if hit
         then (case prev of
                 Some p \<Rightarrow> do {
                   a \<leftarrow> de_rec_len d p;
                   b \<leftarrow> de_rec_len d off;
                   d1 \<leftarrow> put_le 2 d (p + 4) (a + b);
                   Some (Some d1) }
               | None \<Rightarrow> do { d1 \<leftarrow> put_le 4 d off (0 :: u32); Some (Some d1) })
         else (case ext4_next_entry d off of None \<Rightarrow> None | Some off' \<Rightarrow> dir_delete d bs name (Some off) off')) })"
  by pat_completeness auto
termination
  by (relation "measure (\<lambda>(_, bs, _, _, off). bs - off)") (auto dest: next_entry_less)

declare dir_find.simps [simp del] dir_count.simps [simp del] add_scan.simps [simp del] dir_delete.simps [simp del]

section \<open>Directories of several blocks\<close>

lemma bidx_step: "unat bidx \<noteq> 2 ^ 32 - 1 \<Longrightarrow> 2 ^ 32 - unat (bidx + 1 :: u32) < 2 ^ 32 - unat bidx"
  using unat_u32_lt [of bidx] by (simp add: unat_word_ariths)

definition nr_dir_blocks :: "ext4_sb \<Rightarrow> 'n ext4_node_scheme \<Rightarrow> u32" where
  "nr_dir_blocks sb dir = ucast ((en_size dir + ucast (es_blocksize sb) - 1) div ucast (es_blocksize sb))"

fun lookup_blocks :: "'d ops_table \<Rightarrow> 'd blk_state \<Rightarrow> ext4_sb \<Rightarrow> 'n ext4_node_scheme \<Rightarrow> cstr \<Rightarrow> nat list \<Rightarrow>
    ((errno + u32 option) \<times> 'd blk_state) option" where
  "lookup_blocks ops s sb dir name [] = Some (Inr None, s)"
| "lookup_blocks ops s sb dir name (b # bs) = do {
     r \<leftarrow> ext4_get_block dir (of_nat b);
     (case r of
        Inl _ \<Rightarrow> Some (Inl EIO, s)
      | Inr block \<Rightarrow> do {
          (bh, s1) \<leftarrow> sb_bread ops s (es_bdev sb) block;
          (case bh of
             None \<Rightarrow> Some (Inl EIO, s1)
           | Some k \<Rightarrow> do {
               d \<leftarrow> buf_data s1 k;
               f \<leftarrow> dir_find d (unat (es_blocksize sb)) name 0;
               (case f of
                  Some ino \<Rightarrow> Some (Inr (Some ino), brelse s1 (Some k))
                | None \<Rightarrow> lookup_blocks ops (brelse s1 (Some k)) sb dir name bs) }) }) }"

definition ext4_lookup :: "'d ops_table \<Rightarrow> 'd blk_state \<Rightarrow> ext4_sb \<Rightarrow> 'n ext4_node_scheme \<Rightarrow> cstr \<Rightarrow>
    ((errno + u32 option) \<times> 'd blk_state) option" where
  "ext4_lookup ops s sb dir name =
     (if es_blocksize sb = 0 then None
      else lookup_blocks ops s sb dir name [0 ..< unat (nr_dir_blocks sb dir)])"

definition ext4_dir_is_empty :: "'d ops_table \<Rightarrow> 'd blk_state \<Rightarrow> ext4_sb \<Rightarrow> 'n ext4_node_scheme \<Rightarrow> ((errno + bool) \<times> 'd blk_state) option" where
  "ext4_dir_is_empty ops s sb dir = do {
     r \<leftarrow> ext4_get_block dir 0;
     (case r of
        Inl _ \<Rightarrow> Some (Inl EIO, s)
      | Inr block \<Rightarrow> do {
          (bh, s1) \<leftarrow> sb_bread ops s (es_bdev sb) block;
          (case bh of
             None \<Rightarrow> Some (Inl EIO, s1)
           | Some k \<Rightarrow> do {
               d \<leftarrow> buf_data s1 k;
               c \<leftarrow> dir_count d (unat (es_blocksize sb)) 0 0;
               Some (Inr (c \<le> 2), brelse s1 (Some k)) }) }) }"

definition ext4_file_type_to_dt :: "u8 \<Rightarrow> u32" where
  "ext4_file_type_to_dt t =
     (if t = 1 then 8 else if t = 2 then 4 else if t = 3 then 2 else if t = 4 then 6
      else if t = 5 then 1 else if t = 6 then 12 else if t = 7 then 10 else 0)"

text \<open>
  Listing: the callback gets name, position, inode number and type, and a result other than zero stops
  the walk. The walk keeps the position of the next record and the position in the context.
\<close>

type_synonym 'c dir_actor = "'c \<Rightarrow> bytes \<Rightarrow> u64 \<Rightarrow> u32 \<Rightarrow> u32 \<Rightarrow> int \<times> 'c"

datatype 'c walk = Stop int u64 'c | Go u64 u64 'c

function iterate_block :: "'c dir_actor \<Rightarrow> bytes \<Rightarrow> nat \<Rightarrow> u64 \<Rightarrow> u64 \<Rightarrow> 'c \<Rightarrow> nat \<Rightarrow> 'c walk option" where
  "iterate_block actor d bs pos cpos c off =
     (if bs \<le> off then Some (Go pos cpos c)
      else do {
        rl \<leftarrow> de_rec_len d off;
        (if unat rl < sizeof_dirent \<or> bs < off + unat rl then Some (Stop (- errno_val EIO) cpos c)
         else do {
           ino \<leftarrow> de_inode d off;
           (if ino \<noteq> 0 \<and> sint cpos \<le> sint pos
            then do {
              ty \<leftarrow> de_file_type d off;
              nl \<leftarrow> de_name_len d off;
              name \<leftarrow> get_bytes d (off + sizeof_dirent) (unat nl);
              (case actor c name pos ino (ext4_file_type_to_dt ty) of
                 (ret, c') \<Rightarrow>
                   if ret \<noteq> 0 then Some (Stop (if ret > 0 then 0 else ret) cpos c')
                   else iterate_block actor d bs (pos + ucast rl) (pos + ucast rl) c' (off + unat rl)) }
            else iterate_block actor d bs (pos + ucast rl) cpos c (off + unat rl)) }) })"
  by pat_completeness auto
termination
  by (relation "measure (\<lambda>(_, _, bs, _, _, _, off). bs - off)") (auto simp: sizeof_dirent_def)

fun iterate_blocks :: "'d ops_table \<Rightarrow> 'd blk_state \<Rightarrow> ext4_sb \<Rightarrow> 'n ext4_node_scheme \<Rightarrow> 'c dir_actor \<Rightarrow> u64 \<Rightarrow> u64 \<Rightarrow> 'c \<Rightarrow> nat list \<Rightarrow>
    (int \<times> u64 \<times> 'c \<times> 'd blk_state) option" where
  "iterate_blocks ops s sb dir actor pos cpos c [] = Some (0, cpos, c, s)"
| "iterate_blocks ops s sb dir actor pos cpos c (b # bs) = do {
     r \<leftarrow> ext4_get_block dir (of_nat b);
     (case r of
        Inl _ \<Rightarrow> Some (- errno_val EIO, cpos, c, s)
      | Inr block \<Rightarrow> do {
          (bh, s1) \<leftarrow> sb_bread ops s (es_bdev sb) block;
          (case bh of
             None \<Rightarrow> Some (- errno_val EIO, cpos, c, s1)
           | Some k \<Rightarrow> do {
               d \<leftarrow> buf_data s1 k;
               w \<leftarrow> iterate_block actor d (unat (es_blocksize sb)) pos cpos c 0;
               (case w of
                  Stop ret cpos' c' \<Rightarrow> Some (ret, cpos', c', brelse s1 (Some k))
                | Go pos' cpos' c' \<Rightarrow> iterate_blocks ops (brelse s1 (Some k)) sb dir actor pos' cpos' c' bs) }) }) }"

definition ext4_iterate :: "'d ops_table \<Rightarrow> 'd blk_state \<Rightarrow> ext4_sb \<Rightarrow> 'n ext4_node_scheme \<Rightarrow> 'c dir_actor \<Rightarrow> u64 \<Rightarrow> 'c \<Rightarrow>
    (int \<times> u64 \<times> 'c \<times> 'd blk_state) option" where
  "ext4_iterate ops s sb dir actor cpos c =
     (if es_blocksize sb = 0 then None
      else iterate_blocks ops s sb dir actor 0 cpos c [0 ..< unat (nr_dir_blocks sb dir)])"

text \<open>The new block of a directory that is full: one unused record that fills it.\<close>

definition fresh_dir_block :: "u32 \<Rightarrow> bytes option" where
  "fresh_dir_block bs = put_le 2 (replicate (unat bs) 0) 4 (ucast bs :: u16)"

definition add_block :: "'d ops_table \<Rightarrow> 'd blk_state \<Rightarrow> ext4_sb \<Rightarrow> 'n ext4_node_scheme \<Rightarrow> u32 \<Rightarrow> cstr \<Rightarrow> u32 \<Rightarrow> u8 \<Rightarrow>
    ((errno + unit) \<times> 'd blk_state \<times> 'n ext4_node_scheme) option" where
  "add_block ops s sb dir bidx name ino ty = do {
     (p, s1) \<leftarrow> ext4_new_block ops s sb;
     (case p of
        Inl _ \<Rightarrow> Some (Inl ENOSPC, s1, dir)
      | Inr pblock \<Rightarrow> do {
          (q, dir1) \<leftarrow> ext4_set_block sb dir bidx pblock;
          (case q of
             Inl _ \<Rightarrow> Some (Inl ENOSPC, s1, dir1)
           | Inr _ \<Rightarrow> do {
               (bh, s2) \<leftarrow> sb_bread ops s1 (es_bdev sb) pblock;
               (case bh of
                  None \<Rightarrow> Some (Inl EIO, s2, dir1)
                | Some k \<Rightarrow> do {
                    d0 \<leftarrow> buf_data s2 k;
                    z \<leftarrow> fresh_dir_block (es_blocksize sb);
                    d1 \<leftarrow> put_bytes d0 0 z;
                    d2 \<leftarrow> insert_entry d1 0 ino name ty;
                    let dir2 = mark_inode_dirty (dir1\<lparr>en_size :=
                      (if en_size dir1 = 0 then ucast (es_blocksize sb) else en_size dir1 + ucast (es_blocksize sb))\<rparr>);
                    Some (Inr (), brelse (write_buf s2 k d2) (Some k), dir2) }) }) }) }"

text \<open>
  The loop over the blocks multiplies in 32 bits and compares with the size. The index cannot count
  past its largest value and start again.
\<close>

function add_blocks :: "'d ops_table \<Rightarrow> 'd blk_state \<Rightarrow> ext4_sb \<Rightarrow> 'n ext4_node_scheme \<Rightarrow> u32 \<Rightarrow> cstr \<Rightarrow> u32 \<Rightarrow> u8 \<Rightarrow>
    ((errno + unit) \<times> 'd blk_state \<times> 'n ext4_node_scheme) option" where
  "add_blocks ops s sb dir bidx name ino ty =
     (if ucast (bidx * es_blocksize sb) < en_size dir
      then do {
        r \<leftarrow> ext4_get_block dir bidx;
        (case r of
           Inl _ \<Rightarrow> Some (Inl EIO, s, dir)
         | Inr block \<Rightarrow> do {
             (bh, s1) \<leftarrow> sb_bread ops s (es_bdev sb) block;
             (case bh of
                None \<Rightarrow> Some (Inl EIO, s1, dir)
              | Some k \<Rightarrow> do {
                  d \<leftarrow> buf_data s1 k;
                  a \<leftarrow> dir_add d (unat (es_blocksize sb)) name ino ty;
                  (case a of
                     Some d1 \<Rightarrow> Some (Inr (), brelse (write_buf s1 k d1) (Some k), dir)
                   | None \<Rightarrow>
                       if unat bidx = 2 ^ 32 - 1 then None
                       else add_blocks ops (brelse s1 (Some k)) sb dir (bidx + 1) name ino ty) }) }) }
      else add_block ops s sb dir bidx name ino ty)"
  by pat_completeness auto
termination
proof (relation "measure (\<lambda>(_, _, _, _, bidx, _). 2 ^ 32 - unat bidx)", goal_cases)
  case (2 ops s sb dir bidx)
  then show ?case using bidx_step [of bidx] by simp
qed simp

definition ext4_add_entry :: "'d ops_table \<Rightarrow> 'd blk_state \<Rightarrow> ext4_sb \<Rightarrow> 'n ext4_node_scheme \<Rightarrow> cstr \<Rightarrow> u32 \<Rightarrow> u8 \<Rightarrow>
    ((errno + unit) \<times> 'd blk_state \<times> 'n ext4_node_scheme) option" where
  "ext4_add_entry ops s sb dir name ino ty = add_blocks ops s sb dir 0 name ino ty"

function ext4_delete_blocks :: "'d ops_table \<Rightarrow> 'd blk_state \<Rightarrow> ext4_sb \<Rightarrow> 'n ext4_node_scheme \<Rightarrow> u32 \<Rightarrow> cstr \<Rightarrow>
    ((errno + unit) \<times> 'd blk_state) option" where
  "ext4_delete_blocks ops s sb dir bidx name =
     (if ucast (bidx * es_blocksize sb) < en_size dir
      then do {
        r \<leftarrow> ext4_get_block dir bidx;
        (case r of
           Inl _ \<Rightarrow> Some (Inl EIO, s)
         | Inr block \<Rightarrow> do {
             (bh, s1) \<leftarrow> sb_bread ops s (es_bdev sb) block;
             (case bh of
                None \<Rightarrow> Some (Inl EIO, s1)
              | Some k \<Rightarrow> do {
                  d \<leftarrow> buf_data s1 k;
                  a \<leftarrow> dir_delete d (unat (es_blocksize sb)) name None 0;
                  (case a of
                     Some d1 \<Rightarrow> Some (Inr (), brelse (write_buf s1 k d1) (Some k))
                   | None \<Rightarrow>
                       if unat bidx = 2 ^ 32 - 1 then None
                       else ext4_delete_blocks ops (brelse s1 (Some k)) sb dir (bidx + 1) name) }) }) }
      else Some (Inl ENOENT, s))"
  by pat_completeness auto
termination
proof (relation "measure (\<lambda>(_, _, _, _, bidx, _). 2 ^ 32 - unat bidx)", goal_cases)
  case (2 ops s sb dir bidx)
  then show ?case using bidx_step [of bidx] by simp
qed simp

definition ext4_delete_entry :: "'d ops_table \<Rightarrow> 'd blk_state \<Rightarrow> ext4_sb \<Rightarrow> 'n ext4_node_scheme \<Rightarrow> cstr \<Rightarrow>
    ((errno + unit) \<times> 'd blk_state) option" where
  "ext4_delete_entry ops s sb dir name = ext4_delete_blocks ops s sb dir 0 name"

text \<open>The entries for a directory itself and its parent.\<close>

definition empty_dir_block :: "u32 \<Rightarrow> u32 \<Rightarrow> u32 \<Rightarrow> bytes option" where
  "empty_dir_block bs self parent = do {
     d1 \<leftarrow> insert_entry (replicate (unat bs) 0) 0 self [46] EXT4_FT_DIR;
     d2 \<leftarrow> put_le 2 d1 4 (12 :: u16);
     d3 \<leftarrow> insert_entry d2 12 parent [46, 46] EXT4_FT_DIR;
     put_le 2 d3 16 (ucast (bs - 12) :: u16) }"

definition ext4_make_empty :: "'d ops_table \<Rightarrow> 'd blk_state \<Rightarrow> ext4_sb \<Rightarrow> 'n ext4_node_scheme \<Rightarrow> u64 \<Rightarrow>
    ((errno + unit) \<times> 'd blk_state \<times> 'n ext4_node_scheme) option" where
  "ext4_make_empty ops s sb dir parent_ino = do {
     (p, s1) \<leftarrow> ext4_new_block ops s sb;
     (case p of
        Inl _ \<Rightarrow> Some (Inl ENOSPC, s1, dir)
      | Inr block \<Rightarrow> do {
          (q, dir1) \<leftarrow> ext4_set_block sb dir 0 block;
          (case q of
             Inl _ \<Rightarrow> Some (Inl ENOSPC, s1, dir1)
           | Inr _ \<Rightarrow> do {
               (bh, s2) \<leftarrow> sb_bread ops s1 (es_bdev sb) block;
               (case bh of
                  None \<Rightarrow> Some (Inl EIO, s2, dir1)
                | Some k \<Rightarrow> do {
                    d0 \<leftarrow> buf_data s2 k;
                    z \<leftarrow> empty_dir_block (es_blocksize sb) (ucast (en_ino dir1)) (ucast parent_ino);
                    d1 \<leftarrow> put_bytes d0 0 z;
                    Some (Inr (), brelse (write_buf s2 k d1) (Some k),
                      mark_inode_dirty (dir1\<lparr>en_size := ucast (es_blocksize sb)\<rparr>)) }) }) }) }"

declare iterate_block.simps [simp del] add_blocks.simps [simp del] ext4_delete_blocks.simps [simp del]

section \<open>Blocks as lists of records\<close>

text \<open>
  A well-formed block is a chain of records that ends at its end. A record in use is long enough for
  its name.
\<close>

record dent =
  dn_ino :: u32
  dn_rec :: nat
  dn_name :: cstr
  dn_type :: u8

definition dent_at :: "bytes \<Rightarrow> nat \<Rightarrow> dent \<Rightarrow> bool" where
  "dent_at d off e \<longleftrightarrow>
     sizeof_dirent \<le> dn_rec e \<and> dn_rec e < 2 ^ 16 \<and> off + dn_rec e \<le> length d \<and>
     de_inode d off = Some (dn_ino e) \<and> de_rec_len d off = Some (of_nat (dn_rec e)) \<and>
     (dn_ino e \<noteq> 0 \<longrightarrow>
        sizeof_dirent + round4 (length (dn_name e)) \<le> dn_rec e \<and> length (dn_name e) < 256 \<and>
        de_name_len d off = Some (of_nat (length (dn_name e))) \<and> de_file_type d off = Some (dn_type e) \<and>
        get_bytes d (off + sizeof_dirent) (length (dn_name e)) = Some (dn_name e))"

fun dir_rep :: "bytes \<Rightarrow> nat \<Rightarrow> dent list \<Rightarrow> bool" where
  "dir_rep d off [] \<longleftrightarrow> off = length d"
| "dir_rep d off (e # es) \<longleftrightarrow> dent_at d off e \<and> dir_rep d (off + dn_rec e) es"

definition in_use :: "dent list \<Rightarrow> (cstr \<times> u32 \<times> u8) list" where
  "in_use es = map (\<lambda>e. (dn_name e, dn_ino e, dn_type e)) (filter (\<lambda>e. dn_ino e \<noteq> 0) es)"

lemma round4_bounds: "n \<le> round4 n" "round4 n < n + 4"
  unfolding round4_def by presburger+

lemma name_cmp_eq: "off + length name \<le> length d \<Longrightarrow> name_cmp d off name = Some (take (length name) (drop off d) = name)"
proof (induction name arbitrary: off)
  case (Cons c cs)
  then have o: "off < length d" by simp
  then have "drop off d = d ! off # drop (off + 1) d" by (simp add: Cons_nth_drop_Suc)
  with Cons o show ?case by (simp add: rd_def)
qed simp

lemma entry_named_eq:
  assumes "dent_at d off e" and "length name < 256"
  shows "entry_named d off name = Some (dn_ino e \<noteq> 0 \<and> dn_name e = name)"
proof (cases "dn_ino e = 0")
  case False
  then have h: "de_name_len d off = Some (of_nat (length (dn_name e)))" "length (dn_name e) < 256"
    "off + sizeof_dirent + length (dn_name e) \<le> length d"
    "take (length (dn_name e)) (drop (off + sizeof_dirent) d) = dn_name e"
    using assms(1) by (auto simp: dent_at_def get_bytes_def split: if_splits)
  then have "unat (of_nat (length (dn_name e)) :: u8) = length (dn_name e)" by (simp add: unat_of_nat)
  with False h assms(1) show ?thesis
    by (auto simp: entry_named_def dent_at_def name_cmp_eq)
qed (use assms in \<open>simp add: entry_named_def dent_at_def\<close>)

lemma next_entry_eq: "dent_at d off e \<Longrightarrow> ext4_next_entry d off = Some (off + dn_rec e)"
proof -
  assume a: "dent_at d off e"
  then have r: "dn_rec e < 2 ^ 16" "0 < dn_rec e" by (auto simp: dent_at_def sizeof_dirent_def)
  then have u: "unat (of_nat (dn_rec e) :: u16) = dn_rec e" by (simp add: unat_of_nat)
  then have "(of_nat (dn_rec e) :: u16) \<noteq> 0" using r(2) by (auto simp: word_unat_eq_iff)
  with a u show ?thesis by (simp add: ext4_next_entry_def dent_at_def)
qed

lemma dir_rep_less: "dir_rep d off (e # es) \<Longrightarrow> off < length d \<and> dn_rec e \<noteq> 0"
  by (auto simp: dent_at_def sizeof_dirent_def)

lemma dir_find_in_use:
  assumes "dir_rep d off es" and "length name < 256"
  shows "dir_find d (length d) name off = Some (map_option fst (map_of (in_use es) name))"
  using assms(1)
proof (induction es arbitrary: off)
  case Nil
  then show ?case by (simp add: dir_find.simps in_use_def)
next
  case (Cons e es)
  then have e: "dent_at d off e" and less: "off < length d" using dir_rep_less by auto
  have i: "de_inode d off = Some (dn_ino e)" using e by (simp add: dent_at_def)
  show ?case
    using Cons less i
    by (subst dir_find.simps) (auto simp: entry_named_eq [OF e assms(2)] next_entry_eq [OF e] in_use_def)
qed

text \<open>A record depends only on its header and its name.\<close>

lemma dent_at_frame:
  assumes "dent_at d off e" and "put_bytes d o' xs = Some d'"
    and "o' + length xs \<le> off \<or> off + sizeof_dirent + (if dn_ino e = 0 then 0 else length (dn_name e)) \<le> o'"
  shows "dent_at d' off e"
proof -
  note fr = get_le_put_other [OF assms(2)]
  have l: "length d' = length d" by (rule length_put_bytes [OF assms(2)])
  have h: "off + 8 \<le> o' \<or> o' + length xs \<le> off" using assms(3) by (auto simp: sizeof_dirent_def)
  have f: "de_inode d' off = de_inode d off" "de_rec_len d' off = de_rec_len d off" "de_name_len d' off = de_name_len d off"
    "de_file_type d' off = de_file_type d off"
    using h unfolding de_inode_def de_rec_len_def de_name_len_def de_file_type_def by (intro fr; linarith)+
  have "get_bytes d' (off + sizeof_dirent) (length (dn_name e)) = get_bytes d (off + sizeof_dirent) (length (dn_name e))" if "dn_ino e \<noteq> 0"
    using take_drop_put_other [OF assms(2), of "off + sizeof_dirent" "length (dn_name e)"] assms(3) that l
    by (auto simp: get_bytes_def)
  then show ?thesis using assms(1) unfolding dent_at_def l f by auto
qed

lemma dir_rep_frame:
  "dir_rep d off es \<Longrightarrow> put_bytes d o' xs = Some d' \<Longrightarrow> o' + length xs \<le> off \<Longrightarrow> dir_rep d' off es"
proof (induction es arbitrary: off)
  case Nil
  then show ?case using length_put_bytes [OF Nil(2)] by simp
next
  case (Cons e es)
  then show ?case using dent_at_frame [of d off e o' xs d'] by simp
qed

text \<open>The chain in front of a record, as a run from one offset to another.\<close>

fun dir_run :: "bytes \<Rightarrow> nat \<Rightarrow> dent list \<Rightarrow> nat \<Rightarrow> bool" where
  "dir_run d off [] off' \<longleftrightarrow> off = off'"
| "dir_run d off (e # es) off' \<longleftrightarrow> dent_at d off e \<and> dir_run d (off + dn_rec e) es off'"

lemma dir_rep_append: "dir_rep d off (es @ fs) \<longleftrightarrow> (\<exists>m. dir_run d off es m \<and> dir_rep d m fs)"
  by (induction es arbitrary: off) auto

lemma dir_run_snoc: "dir_run d off (es @ [e]) m \<longleftrightarrow> (\<exists>k. dir_run d off es k \<and> dent_at d k e \<and> m = k + dn_rec e)"
  by (induction es arbitrary: off) auto

lemma dir_run_le: "dir_run d off es m \<Longrightarrow> off \<le> m"
  by (induction es arbitrary: off) fastforce+

lemma dent_used:
  "dent_at d off e \<Longrightarrow> off + sizeof_dirent + (if dn_ino e = 0 then 0 else length (dn_name e)) \<le> off + dn_rec e"
  using round4_bounds(1) [of "length (dn_name e)"] by (auto simp: dent_at_def)

lemma dir_run_frame:
  assumes "put_bytes d o' xs = Some d'"
  shows "dir_run d off es m \<Longrightarrow> m \<le> o' \<Longrightarrow> dir_run d' off es m"
proof (induction es arbitrary: off)
  case (Cons e es)
  then have "dent_at d off e" "off + dn_rec e \<le> o'" using dir_run_le by fastforce+
  then have "dent_at d' off e" using dent_used [of d off e] by (intro dent_at_frame [OF _ assms]) auto
  then show ?case using Cons by simp
qed simp

lemma unat_rec: "r < 2 ^ 16 \<Longrightarrow> unat (of_nat r :: u16) = r"
  by (simp add: unat_of_nat)

text \<open>Changing the length of a record.\<close>

lemma dent_at_set_rec:
  assumes e: "dent_at d off e" and p: "put_le 2 d (off + 4) (of_nat r :: u16) = Some d'"
    and r: "sizeof_dirent + (if dn_ino e = 0 then 0 else round4 (length (dn_name e))) \<le> r" "r < 2 ^ 16" "off + r \<le> length d"
  shows "dent_at d' off (e\<lparr>dn_rec := r\<rparr>)"
proof -
  note q = put_le_bytes [OF p]
  note fr = get_le_put_other [OF q]
  have l: "length d' = length d" by (rule length_put_le [OF p])
  have f: "de_inode d' off = de_inode d off" "de_name_len d' off = de_name_len d off" "de_file_type d' off = de_file_type d off"
    unfolding de_inode_def de_name_len_def de_file_type_def by (intro fr; simp)+
  have g: "de_rec_len d' off = Some (of_nat r)" unfolding de_rec_len_def using get_le_put_same [OF p] by simp
  have "take (length (dn_name e)) (drop (off + sizeof_dirent) d') = take (length (dn_name e)) (drop (off + sizeof_dirent) d)"
    by (rule take_drop_put_other [OF q]) (simp add: sizeof_dirent_def)
  then have "get_bytes d' (off + sizeof_dirent) (length (dn_name e)) = get_bytes d (off + sizeof_dirent) (length (dn_name e))"
    by (simp add: get_bytes_def l)
  then show ?thesis using e r g unfolding dent_at_def f l by (auto split: if_splits)
qed

text \<open>Filling a slot of sufficient length.\<close>

lemma insert_entry_ok:
  assumes slot: "de_rec_len d off = Some (of_nat r)" "sizeof_dirent + round4 (length name) \<le> r" "r < 2 ^ 16" "off + r \<le> length d"
    and name: "length name < 256"
  obtains d' where "insert_entry d off ino name ty = Some d'" and "length d' = length d"
    and "dent_at d' off \<lparr>dn_ino = ino, dn_rec = r, dn_name = name, dn_type = ty\<rparr>"
    and "\<And>es m. dir_run d 0 es m \<Longrightarrow> m \<le> off \<Longrightarrow> dir_run d' 0 es m"
    and "\<And>es m. dir_rep d m es \<Longrightarrow> off + r \<le> m \<Longrightarrow> dir_rep d' m es"
proof -
  have n: "8 + length name \<le> r" using slot(2) round4_bounds(1) [of "length name"] by (simp add: sizeof_dirent_def)
  obtain d1 where d1: "put_le 4 d off ino = Some d1" using put_le_defined [of off 4 d] slot(4) n by fastforce
  have l1: "length d1 = length d" by (rule length_put_le [OF d1])
  obtain d2 where d2: "put_le 1 d1 (off + 6) (of_nat (length name) :: u8) = Some d2"
    using put_le_defined [of "off + 6" 1 d1] slot(4) n l1 by fastforce
  have l2: "length d2 = length d" using length_put_le [OF d2] l1 by simp
  obtain d3 where d3: "put_le 1 d2 (off + 7) ty = Some d3" using put_le_defined [of "off + 7" 1 d2] slot(4) n l2 by fastforce
  have l3: "length d3 = length d" using length_put_le [OF d3] l2 by simp
  obtain d4 where d4: "put_bytes d3 (off + 8) name = Some d4" using slot(4) n l3 by (simp add: put_bytes_def)
  have l4: "length d4 = length d" using length_put_bytes [OF d4] l3 by simp
  note p = put_le_bytes [OF d1] put_le_bytes [OF d2] put_le_bytes [OF d3] d4
  note fr = get_le_put_other [OF p(4)] get_le_put_other [OF p(3)] get_le_put_other [OF p(2)] get_le_put_other [OF p(1)]
  note same = get_le_put_same [OF d1] get_le_put_same [OF d2] get_le_put_same [OF d3]
  have h: "de_inode d4 off = Some ino" "de_rec_len d4 off = Some (of_nat r)" "de_name_len d4 off = Some (of_nat (length name))"
    "de_file_type d4 off = Some ty"
    using same slot(1) by (simp_all add: de_inode_def de_rec_len_def de_name_len_def de_file_type_def fr)
  have nm: "get_bytes d4 (off + sizeof_dirent) (length name) = Some name"
    using take_drop_put_same [OF d4] slot(4) n l4 by (simp add: get_bytes_def sizeof_dirent_def)
  show thesis
  proof (rule that [OF _ l4])
    show "insert_entry d off ino name ty = Some d4" using d1 d2 d3 d4 by (simp add: insert_entry_def sizeof_dirent_def)
    show "dent_at d4 off \<lparr>dn_ino = ino, dn_rec = r, dn_name = name, dn_type = ty\<rparr>"
      using h nm slot name n l4 by (simp add: dent_at_def sizeof_dirent_def)
    show "dir_run d4 0 es m" if "dir_run d 0 es m" "m \<le> off" for es m
      using dir_run_frame [OF p(1) that] that(2)
      by (intro dir_run_frame [OF p(4)] dir_run_frame [OF p(3)] dir_run_frame [OF p(2)]) auto
    show "dir_rep d4 m es" if "dir_rep d m es" "off + r \<le> m" for es m
      using that n by (intro dir_rep_frame [OF _ p(4)] dir_rep_frame [OF _ p(3)] dir_rep_frame [OF _ p(2)] dir_rep_frame [OF _ p(1)]) auto
  qed
qed

text \<open>A slot of length \<open>k\<close> in a block whose other records have the entries \<open>xs\<close> in use.\<close>

definition slot_in :: "bytes \<Rightarrow> nat \<Rightarrow> nat \<Rightarrow> (cstr \<times> u32 \<times> u8) list \<Rightarrow> (cstr \<times> u32 \<times> u8) list \<Rightarrow> bool" where
  "slot_in d off k xs ys \<longleftrightarrow> (\<exists>A B. dir_run d 0 A off \<and> de_rec_len d off = Some (of_nat k) \<and> k < 2 ^ 16 \<and>
     off + k \<le> length d \<and> dir_rep d (off + k) B \<and> in_use A = xs \<and> in_use B = ys)"

lemma in_use_Nil [simp]: "in_use [] = []"
  by (simp add: in_use_def)

lemma in_use_append: "in_use (es @ fs) = in_use es @ in_use fs"
  by (simp add: in_use_def)

lemma in_use_Cons: "in_use (e # es) = (if dn_ino e \<noteq> 0 then [(dn_name e, dn_ino e, dn_type e)] else []) @ in_use es"
  by (simp add: in_use_def)

lemma split_record:
  assumes run: "dir_run d 0 ps off" and e: "dent_at d off e" and rest: "dir_rep d (off + dn_rec e) es" and ino: "dn_ino e \<noteq> 0"
    and a: "a = sizeof_dirent + round4 (length (dn_name e))" and k: "sizeof_dirent \<le> dn_rec e - a"
  obtains d1 d2 where "put_le 2 d (off + a + 4) (of_nat (dn_rec e - a) :: u16) = Some d1"
    and "put_le 2 d1 (off + 4) (of_nat a :: u16) = Some d2" and "length d2 = length d"
    and "slot_in d2 (off + a) (dn_rec e - a) (in_use (ps @ [e])) (in_use es)"
proof -
  have ea: "a \<le> dn_rec e" "dn_rec e < 2 ^ 16" "off + dn_rec e \<le> length d" using e ino a by (auto simp: dent_at_def)
  have a8: "8 \<le> a" "8 + length (dn_name e) \<le> a" using a round4_bounds(1) [of "length (dn_name e)"] by (simp_all add: sizeof_dirent_def)
  have k8: "8 \<le> dn_rec e - a" "dn_rec e - a < 2 ^ 16" using k ea(2) by (simp_all add: sizeof_dirent_def less_imp_diff_less)
  obtain d1 where d1: "put_le 2 d (off + a + 4) (of_nat (dn_rec e - a) :: u16) = Some d1"
    using put_le_defined [of "off + a + 4" 2 d] ea k8 by fastforce
  have l1: "length d1 = length d" by (rule length_put_le [OF d1])
  obtain d2 where d2: "put_le 2 d1 (off + 4) (of_nat a :: u16) = Some d2"
    using put_le_defined [of "off + 4" 2 d1] ea k8 l1 by fastforce
  have l2: "length d2 = length d" using length_put_le [OF d2] l1 by simp
  note p = put_le_bytes [OF d1] put_le_bytes [OF d2]
  have "dent_at d1 off e" using a8(2) by (intro dent_at_frame [OF e p(1)]) (simp add: sizeof_dirent_def)
  then have e2: "dent_at d2 off (e\<lparr>dn_rec := a\<rparr>)" by (rule dent_at_set_rec [OF _ d2]) (use a ea l1 ino in simp_all)
  have "dir_run d1 0 ps off" by (rule dir_run_frame [OF p(1) run]) simp
  then have "dir_run d2 0 ps off" by (rule dir_run_frame [OF p(2)]) simp
  then have r2: "dir_run d2 0 (ps @ [e\<lparr>dn_rec := a\<rparr>]) (off + a)" using e2 by (auto simp: dir_run_snoc)
  have "dir_rep d1 (off + dn_rec e) es" by (rule dir_rep_frame [OF rest p(1)]) (use ea k8 in simp)
  then have "dir_rep d2 (off + dn_rec e) es" by (rule dir_rep_frame [OF _ p(2)]) (use ea a8 in simp)
  then have s2: "dir_rep d2 (off + a + (dn_rec e - a)) es" using ea by simp
  have rl: "de_rec_len d2 (off + a) = Some (of_nat (dn_rec e - a))"
    unfolding de_rec_len_def using get_le_put_same [OF d1] get_le_put_other [OF p(2), of "off + a + 4" 2, where 'a = 16] a8
    by simp
  have "slot_in d2 (off + a) (dn_rec e - a) (in_use (ps @ [e])) (in_use es)"
    unfolding slot_in_def
    by (rule exI [of _ "ps @ [e\<lparr>dn_rec := a\<rparr>]"], rule exI [of _ es]) (use r2 s2 rl ea k8 l2 in \<open>simp add: in_use_append in_use_Cons\<close>)
  then show thesis by (rule that [OF d1 d2 l2])
qed

lemma add_scan_ok:
  assumes "dir_run d 0 ps off" and "dir_rep d off es" and "first = (ps = [])" and "sizeof_dirent \<le> N" and "N < 2 ^ 16"
  shows "(add_scan d (length d) (of_nat N) first off = Some None \<and>
      (\<forall>e \<in> set es. dn_ino e \<noteq> 0 \<longrightarrow> dn_rec e < sizeof_dirent + round4 (length (dn_name e)) + N)) \<or>
    (\<exists>d1 off1 k xs ys. add_scan d (length d) (of_nat N) first off = Some (Some (d1, off1)) \<and> length d1 = length d \<and>
      N \<le> k \<and> slot_in d1 off1 k xs ys \<and> in_use (ps @ es) = xs @ ys)"
  using assms(1-3)
proof (induction es arbitrary: ps off first)
  case Nil
  then show ?case by (simp add: add_scan.simps)
next
  case (Cons e es)
  then have e: "dent_at d off e" and rest: "dir_rep d (off + dn_rec e) es" and less: "off < length d" using dir_rep_less by auto
  have f: "de_rec_len d off = Some (of_nat (dn_rec e))" "de_inode d off = Some (dn_ino e)" "dn_rec e < 2 ^ 16" "off + dn_rec e \<le> length d"
    using e by (simp_all add: dent_at_def)
  have cmp: "of_nat N \<le> (of_nat m :: u16) \<longleftrightarrow> N \<le> m" if "m < 2 ^ 16" for m
    using that assms(5) by (simp add: word_le_nat_alt unat_of_nat)
  have run': "dir_run d 0 (ps @ [e]) (off + dn_rec e)" using Cons.prems(1) e by (auto simp: dir_run_snoc)
  note IH = Cons.IH [OF run' rest refl, simplified]
  let ?next = "case ext4_next_entry d off of None \<Rightarrow> None | Some off' \<Rightarrow> add_scan d (length d) (of_nat N) False off'"
  have nxt: "?next = add_scan d (length d) (of_nat N) False (off + dn_rec e)" by (simp add: next_entry_eq [OF e])
  note unf = add_scan.simps [of d "length d" "of_nat N" first off]
  show ?case
  proof (cases "dn_ino e = 0")
    case True
    show ?thesis
    proof (cases "first \<and> N \<le> dn_rec e")
      case first: True
      then have "ps = []" using Cons.prems(3) by simp
      have "slot_in d off (dn_rec e) [] (in_use es)"
        unfolding slot_in_def
        by (rule exI [of _ "[]"], rule exI [of _ es]) (use Cons.prems(1) rest f \<open>ps = []\<close> in simp)
      moreover have "add_scan d (length d) (of_nat N) first off = Some (Some (d, off))"
        using first True less f cmp [OF f(3)] by (subst unf) (simp add: Let_def)
      ultimately show ?thesis using first True \<open>ps = []\<close> by (intro disjI2) (auto simp: in_use_Cons)
    next
      case False
      then have "add_scan d (length d) (of_nat N) first off = add_scan d (length d) (of_nat N) False (off + dn_rec e)"
        using True less f cmp [OF f(3)] nxt by (subst unf) (auto simp: Let_def)
      then show ?thesis using IH True by auto
    qed
  next
    case False
    define a where "a = sizeof_dirent + round4 (length (dn_name e))"
    have nl: "de_name_len d off = Some (of_nat (length (dn_name e)))" "length (dn_name e) < 256" "a \<le> dn_rec e"
      using e False by (simp_all add: dent_at_def a_def)
    have un: "unat (of_nat (length (dn_name e)) :: u8) = length (dn_name e)" using nl(2) by (simp add: unat_of_nat)
    have act: "(of_nat (sizeof_dirent + round4 (unat (of_nat (length (dn_name e)) :: u8))) :: u16) = of_nat a"
      by (simp only: un a_def)
    have sub: "(of_nat (dn_rec e) - of_nat a :: u16) = of_nat (dn_rec e - a)" using nl(3) by (simp add: of_nat_diff)
    have ua: "unat (of_nat a :: u16) = a" using nl(3) f(3) by (simp add: unat_of_nat)
    show ?thesis
    proof (cases "N \<le> dn_rec e - a")
      case fits: True
      then have k: "sizeof_dirent \<le> dn_rec e - a" using assms(4) by simp
      obtain d1 d2 where p: "put_le 2 d (off + a + 4) (of_nat (dn_rec e - a) :: u16) = Some d1"
        "put_le 2 d1 (off + 4) (of_nat a :: u16) = Some d2" "length d2 = length d"
        "slot_in d2 (off + a) (dn_rec e - a) (in_use (ps @ [e])) (in_use es)"
        by (rule split_record [OF Cons.prems(1) e rest False a_def k])
      have "add_scan d (length d) (of_nat N) first off = Some (Some (d2, off + a))"
        using fits cmp [of "dn_rec e - a"] f(3) False less
        by (subst unf) (simp add: f(1,2) nl(1) act sub ua p(1,2) Let_def del: of_nat_add of_nat_diff)
      moreover have "in_use (ps @ e # es) = in_use (ps @ [e]) @ in_use es" by (simp add: in_use_append in_use_Cons)
      ultimately show ?thesis using p(3,4) fits by blast
    next
      case full: False
      then have "add_scan d (length d) (of_nat N) first off = add_scan d (length d) (of_nat N) False (off + dn_rec e)"
        using full cmp [of "dn_rec e - a"] f(3) False less
        by (subst unf) (simp add: f(1,2) nl(1) act sub nxt Let_def del: of_nat_add of_nat_diff)
      then show ?thesis using IH full nl(3) by (auto simp: a_def)
    qed
  qed
qed

text \<open>
  (C8) Adding an entry to a well-formed directory block either reports that no record has room for it
  and changes nothing, or gives a well-formed block with the same entries in the same order and the
  new one among them. A search for the new name then finds the new inode, and every other name what
  it found before.
\<close>

theorem dir_add_correct:
  assumes "dir_rep d 0 es" and "length name < 256" and "ino \<noteq> 0"
  shows "(dir_add d (length d) name ino ty = Some None \<and>
      (\<forall>e \<in> set es. dn_ino e \<noteq> 0 \<longrightarrow>
         dn_rec e < sizeof_dirent + round4 (length (dn_name e)) + (sizeof_dirent + round4 (length name)))) \<or>
    (\<exists>d' es' xs ys. dir_add d (length d) name ino ty = Some (Some d') \<and> dir_rep d' 0 es' \<and> length d' = length d \<and>
      in_use es = xs @ ys \<and> in_use es' = xs @ (name, ino, ty) # ys \<and>
      (name \<notin> fst ` set (in_use es) \<longrightarrow> dir_find d' (length d') name 0 = Some (Some ino)) \<and>
      (\<forall>nm. nm \<noteq> name \<longrightarrow> length nm < 256 \<longrightarrow> dir_find d' (length d') nm 0 = dir_find d (length d) nm 0))"
proof -
  define N where "N = sizeof_dirent + round4 (length name)"
  have N: "sizeof_dirent \<le> N" "N < 2 ^ 16" using assms(2) round4_bounds(2) [of "length name"] by (simp_all add: N_def sizeof_dirent_def)
  consider "add_scan d (length d) (of_nat N) True 0 = Some None"
      "\<forall>e \<in> set es. dn_ino e \<noteq> 0 \<longrightarrow> dn_rec e < sizeof_dirent + round4 (length (dn_name e)) + N"
    | d1 off k xs ys where "add_scan d (length d) (of_nat N) True 0 = Some (Some (d1, off))" "length d1 = length d"
      "N \<le> k" "slot_in d1 off k xs ys" "in_use es = xs @ ys"
    using add_scan_ok [of d "[]" 0 es True N] assms(1) N by auto
  then show ?thesis
  proof cases
    case 1
    then show ?thesis by (simp add: dir_add_def N_def)
  next
    case (2 d1 off k xs ys)
    obtain A B where s: "dir_run d1 0 A off" "de_rec_len d1 off = Some (of_nat k)" "k < 2 ^ 16" "off + k \<le> length d1"
      "dir_rep d1 (off + k) B" "in_use A = xs" "in_use B = ys" using 2(4) unfolding slot_in_def by blast
    obtain d' where d': "insert_entry d1 off ino name ty = Some d'" "length d' = length d1"
      "dent_at d' off \<lparr>dn_ino = ino, dn_rec = k, dn_name = name, dn_type = ty\<rparr>" "dir_run d' 0 A off" "dir_rep d' (off + k) B"
      using insert_entry_ok [OF s(2) 2(3) [unfolded N_def] s(3,4) assms(2)] s(1,5) by (metis order_refl)
    let ?es = "A @ \<lparr>dn_ino = ino, dn_rec = k, dn_name = name, dn_type = ty\<rparr> # B"
    have rep: "dir_rep d' 0 ?es" using d'(3-5) by (auto simp: dir_rep_append)
    have use: "in_use ?es = xs @ (name, ino, ty) # ys" using s(6,7) assms(3) by (simp add: in_use_append in_use_Cons)
    have "dir_add d (length d) name ino ty = Some (Some d')" using 2(1) d'(1) by (simp add: dir_add_def N_def)
    moreover have "dir_find d' (length d') name 0 = Some (Some ino)" if "name \<notin> fst ` set (in_use es)"
    proof -
      have "map_of xs name = None" using that 2(5) by (auto simp: map_of_eq_None_iff)
      then show ?thesis by (simp add: dir_find_in_use [OF rep assms(2)] use map_add_def)
    qed
    moreover have "dir_find d' (length d') nm 0 = dir_find d (length d) nm 0" if "nm \<noteq> name" "length nm < 256" for nm
      using that by (simp add: dir_find_in_use [OF rep that(2)] dir_find_in_use [OF assms(1) that(2)] use 2(5) map_add_def split: option.splits)
    ultimately show ?thesis using rep d'(2) 2(2,5) use by (intro disjI2) metis
  qed
qed

section \<open>Deleting\<close>

lemma dent_at_clear:
  assumes "dent_at d off e" and p: "put_le 4 d off (0 :: u32) = Some d'"
  shows "dent_at d' off (e\<lparr>dn_ino := 0\<rparr>)"
proof -
  note q = put_le_bytes [OF p]
  have "de_rec_len d' off = de_rec_len d off" unfolding de_rec_len_def by (intro get_le_put_other [OF q]) simp
  moreover have "de_inode d' off = Some 0" unfolding de_inode_def using get_le_put_same [OF p] by simp
  ultimately show ?thesis using assms(1) length_put_le [OF p] by (simp add: dent_at_def)
qed

text \<open>The record before an offset.\<close>

definition prev_of :: "bytes \<Rightarrow> dent list \<Rightarrow> nat \<Rightarrow> nat option \<Rightarrow> bool" where
  "prev_of d ps off prev \<longleftrightarrow>
     (case prev of None \<Rightarrow> ps = [] | Some p \<Rightarrow> \<exists>qs q. ps = qs @ [q] \<and> dir_run d 0 qs p \<and> dent_at d p q \<and> off = p + dn_rec q)"

lemma delete_first:
  assumes e: "dent_at d 0 e" and rest: "dir_rep d (dn_rec e) es"
  obtains d' where "put_le 4 d 0 (0 :: u32) = Some d'" and "dir_rep d' 0 (e\<lparr>dn_ino := 0\<rparr> # es)" and "length d' = length d"
proof -
  have r: "8 \<le> dn_rec e" "dn_rec e \<le> length d" using e by (simp_all add: dent_at_def sizeof_dirent_def)
  obtain d' where d': "put_le 4 d 0 (0 :: u32) = Some d'" using put_le_defined [of 0 4 d] r by fastforce
  have "dir_rep d' (dn_rec e) es" by (rule dir_rep_frame [OF rest put_le_bytes [OF d']]) (use r in simp)
  then show thesis using that [OF d'] dent_at_clear [OF e d'] length_put_le [OF d'] by simp
qed

lemma delete_merge:
  assumes run: "dir_run d 0 qs p" and q: "dent_at d p q" and e: "dent_at d (p + dn_rec q) e"
    and rest: "dir_rep d (p + dn_rec q + dn_rec e) es" and len: "length d < 2 ^ 16"
  obtains d' where "put_le 2 d (p + 4) (of_nat (dn_rec q) + of_nat (dn_rec e) :: u16) = Some d'"
    and "dir_rep d' 0 (qs @ q\<lparr>dn_rec := dn_rec q + dn_rec e\<rparr> # es)" and "length d' = length d"
proof -
  have r: "8 \<le> dn_rec q" "p + dn_rec q + dn_rec e \<le> length d"
    "sizeof_dirent + (if dn_ino q = 0 then 0 else round4 (length (dn_name q))) \<le> dn_rec q"
    using q e by (auto simp: dent_at_def sizeof_dirent_def)
  obtain d' where d': "put_le 2 d (p + 4) (of_nat (dn_rec q + dn_rec e) :: u16) = Some d'"
    using put_le_defined [of "p + 4" 2 d] r by fastforce
  note b = put_le_bytes [OF d']
  have "dent_at d' p (q\<lparr>dn_rec := dn_rec q + dn_rec e\<rparr>)" by (rule dent_at_set_rec [OF q d']) (use r len in auto)
  moreover have "dir_run d' 0 qs p" by (rule dir_run_frame [OF b run]) simp
  moreover have "dir_rep d' (p + dn_rec q + dn_rec e) es" by (rule dir_rep_frame [OF rest b]) (use r in simp)
  ultimately have "dir_rep d' 0 (qs @ q\<lparr>dn_rec := dn_rec q + dn_rec e\<rparr> # es)"
    unfolding dir_rep_append by (intro exI [of _ p]) (simp add: add.assoc)
  then show thesis using that d' length_put_le [OF d'] by simp
qed

lemma dir_delete_ok:
  assumes "dir_run d 0 ps off" and "prev_of d ps off prev" and "dir_rep d off es" and "length name < 256" and "length d < 2 ^ 16"
  shows "(dir_delete d (length d) name prev off = Some None \<and> name \<notin> fst ` set (in_use es)) \<or>
    (\<exists>d' es' xs i t ys. dir_delete d (length d) name prev off = Some (Some d') \<and> dir_rep d' 0 es' \<and> length d' = length d \<and>
      in_use es = xs @ (name, i, t) # ys \<and> name \<notin> fst ` set xs \<and> in_use es' = in_use ps @ xs @ ys)"
  using assms(1-3)
proof (induction es arbitrary: ps off prev)
  case Nil
  then show ?case by (simp add: dir_delete.simps)
next
  case (Cons e es)
  then have e: "dent_at d off e" and rest: "dir_rep d (off + dn_rec e) es" and less: "off < length d" using dir_rep_less by auto
  have f: "de_rec_len d off = Some (of_nat (dn_rec e))" using e by (simp add: dent_at_def)
  note unf = dir_delete.simps [of d "length d" name prev off] and named = entry_named_eq [OF e assms(4)]
  show ?case
  proof (cases "dn_ino e \<noteq> 0 \<and> dn_name e = name")
    case True
    then have use: "in_use (e # es) = [] @ (name, dn_ino e, dn_type e) # in_use es" by (simp add: in_use_Cons)
    have fin: ?thesis if "dir_delete d (length d) name prev off = Some (Some d')" "dir_rep d' 0 es'" "length d' = length d"
      "in_use es' = in_use ps @ in_use es" for d' es'
      by (rule disjI2, rule exI [of _ d'], rule exI [of _ es'], rule exI [of _ "[]"], rule exI [of _ "dn_ino e"],
          rule exI [of _ "dn_type e"], rule exI [of _ "in_use es"]) (use that use in simp)
    show ?thesis
    proof (cases prev)
      case None
      then have ps: "ps = []" "off = 0" using Cons.prems(1,2) by (auto simp: prev_of_def)
      obtain d' where d': "put_le 4 d 0 (0 :: u32) = Some d'" "dir_rep d' 0 (e\<lparr>dn_ino := 0\<rparr> # es)" "length d' = length d"
        using delete_first [of d e es] e rest ps(2) by auto
      have del: "dir_delete d (length d) name prev off = Some (Some d')"
        using True None less named d'(1) ps(2) by (subst unf) simp
      show ?thesis by (rule fin [OF del d'(2,3)]) (simp add: in_use_Cons ps)
    next
      case (Some p)
      then obtain qs q where q: "ps = qs @ [q]" "dir_run d 0 qs p" "dent_at d p q" "off = p + dn_rec q"
        using Cons.prems(2) by (auto simp: prev_of_def)
      obtain d' where d': "put_le 2 d (p + 4) (of_nat (dn_rec q) + of_nat (dn_rec e) :: u16) = Some d'"
        "dir_rep d' 0 (qs @ q\<lparr>dn_rec := dn_rec q + dn_rec e\<rparr> # es)" "length d' = length d"
        by (rule delete_merge [OF q(2,3) e [unfolded q(4)] rest [unfolded q(4)] assms(5)])
      have "de_rec_len d p = Some (of_nat (dn_rec q))" using q(3) by (simp add: dent_at_def)
      then have del: "dir_delete d (length d) name prev off = Some (Some d')"
        using True Some less named f d'(1) by (subst unf) simp
      show ?thesis by (rule fin [OF del d'(2,3)]) (simp add: in_use_append in_use_Cons q(1))
    qed
  next
    case False
    have run': "dir_run d 0 (ps @ [e]) (off + dn_rec e)" using Cons.prems(1) e by (auto simp: dir_run_snoc)
    have prev': "prev_of d (ps @ [e]) (off + dn_rec e) (Some off)" using Cons.prems(1) e by (auto simp: prev_of_def)
    have del: "dir_delete d (length d) name prev off = dir_delete d (length d) name (Some off) (off + dn_rec e)"
      using False less named next_entry_eq [OF e] by (subst unf) auto
    define h where "h = (if dn_ino e \<noteq> 0 then [(dn_name e, dn_ino e, dn_type e)] else [])"
    have hn: "name \<notin> fst ` set h" "in_use (e # es) = h @ in_use es" "in_use (ps @ [e]) = in_use ps @ h"
      using False by (auto simp: h_def in_use_Cons in_use_append)
    show ?thesis
      using Cons.IH [OF run' prev' rest]
    proof (elim disjE exE conjE)
      fix d' es' xs i t ys
      assume r: "dir_delete d (length d) name (Some off) (off + dn_rec e) = Some (Some d')" "dir_rep d' 0 es'" "length d' = length d"
        "in_use es = xs @ (name, i, t) # ys" "name \<notin> fst ` set xs" "in_use es' = in_use (ps @ [e]) @ xs @ ys"
      then have "in_use (e # es) = (h @ xs) @ (name, i, t) # ys" "name \<notin> fst ` set (h @ xs)" "in_use es' = in_use ps @ (h @ xs) @ ys"
        using hn by auto
      then show ?thesis using r(1-3) del by (intro disjI2) metis
    qed (use hn del in auto)
  qed
qed

text \<open>
  (C9) Deleting a name from a well-formed directory block removes exactly its first entry and leaves
  the block well formed and the others in order, or reports that the name does not occur. Where
  names are distinct a search for the name finds nothing afterwards and every other name is found
  as before.
\<close>

theorem dir_delete_correct:
  assumes "dir_rep d 0 es" and "length name < 256" and "length d < 2 ^ 16" and "distinct (map fst (in_use es))"
  shows "(dir_delete d (length d) name None 0 = Some None \<and> dir_find d (length d) name 0 = Some None) \<or>
    (\<exists>d' es' xs i t ys. dir_delete d (length d) name None 0 = Some (Some d') \<and> dir_rep d' 0 es' \<and> length d' = length d \<and>
      in_use es = xs @ (name, i, t) # ys \<and> in_use es' = xs @ ys \<and> distinct (map fst (in_use es')) \<and>
      dir_find d (length d) name 0 = Some (Some i) \<and> dir_find d' (length d') name 0 = Some None \<and>
      (\<forall>nm. nm \<noteq> name \<longrightarrow> length nm < 256 \<longrightarrow> dir_find d' (length d') nm 0 = dir_find d (length d) nm 0))"
proof -
  note find = dir_find_in_use [OF assms(1)]
  consider "dir_delete d (length d) name None 0 = Some None" "name \<notin> fst ` set (in_use es)"
    | d' es' xs i t ys where "dir_delete d (length d) name None 0 = Some (Some d')" "dir_rep d' 0 es'" "length d' = length d"
      "in_use es = xs @ (name, i, t) # ys" "name \<notin> fst ` set xs" "in_use es' = xs @ ys"
    using dir_delete_ok [of d "[]" 0 None es name] assms(1-3) by (fastforce simp: prev_of_def)
  then show ?thesis
  proof cases
    case 1
    then show ?thesis using find [OF assms(2)] map_of_eq_None_iff [of "in_use es" name] by simp
  next
    case (2 d' es' xs i t ys)
    note find' = dir_find_in_use [OF 2(2)]
    have n: "name \<notin> fst ` set xs" "name \<notin> fst ` set ys" "distinct (map fst (in_use es'))"
      using 2(5,6) assms(4) by (simp_all add: 2(4))
    have x: "map_of xs name = None" "map_of ys name = None" using n by (simp_all add: map_of_eq_None_iff)
    have "dir_find d (length d) name 0 = Some (Some i)" "dir_find d' (length d') name 0 = Some None"
      using x by (simp_all add: find [OF assms(2)] find' [OF assms(2)] 2(4,6) map_add_def)
    moreover have "dir_find d' (length d') nm 0 = dir_find d (length d) nm 0" if "nm \<noteq> name" "length nm < 256" for nm
      using that by (simp add: find' [OF that(2)] find [OF that(2)] 2(4,6) map_add_def split: option.splits)
    ultimately show ?thesis using 2(1-4,6) n(3) by (intro disjI2) metis
  qed
qed

section \<open>Listing a block\<close>

text \<open>The used records with their positions, when the first record is at position \<open>p\<close>.\<close>

fun listed :: "nat \<Rightarrow> dent list \<Rightarrow> (nat \<times> dent) list" where
  "listed p [] = []"
| "listed p (e # es) = (if dn_ino e \<noteq> 0 then [(p, e)] else []) @ listed (p + dn_rec e) es"

definition not_before :: "nat \<Rightarrow> (nat \<times> dent) list \<Rightarrow> (nat \<times> dent) list" where
  "not_before q = filter (\<lambda>(p, _). q \<le> p)"

text \<open>What a callback sees, one entry after the other, until it refuses one.\<close>

fun feed :: "'c dir_actor \<Rightarrow> u64 \<Rightarrow> 'c \<Rightarrow> (nat \<times> dent) list \<Rightarrow> int option \<times> u64 \<times> 'c" where
  "feed actor q c [] = (None, q, c)"
| "feed actor q c ((p, e) # xs) =
     (case actor c (dn_name e) (of_nat p) (dn_ino e) (ext4_file_type_to_dt (dn_type e)) of
        (ret, c') \<Rightarrow>
          if ret \<noteq> 0 then (Some (if ret > 0 then 0 else ret), q, c')
          else feed actor (of_nat (p + dn_rec e)) c' xs)"

definition walk_of :: "u64 \<Rightarrow> int option \<times> u64 \<times> 'c \<Rightarrow> 'c walk" where
  "walk_of pos r = (case r of (Some ret, q, c) \<Rightarrow> Stop ret q c | (None, q, c) \<Rightarrow> Go pos q c)"

lemma listed_ge: "(x, e) \<in> set (listed p es) \<Longrightarrow> p \<le> x"
  by (induction es arbitrary: p) (fastforce split: if_splits)+

lemma not_before_all: "q \<le> p \<Longrightarrow> not_before q (listed p es) = listed p es"
  unfolding not_before_def by (rule filter_True) (auto dest: listed_ge)

lemma not_before_Cons:
  "not_before q (listed p (e # es)) =
     (if dn_ino e \<noteq> 0 \<and> q \<le> p then (p, e) # listed (p + dn_rec e) es else not_before q (listed (p + dn_rec e) es))"
  using not_before_all [of q "p + dn_rec e" es] by (auto simp: not_before_def)

lemma sint_of_nat_u64: "n < 2 ^ 63 \<Longrightarrow> sint (of_nat n :: u64) = int n"
  by (simp add: sint_uint uint_nat unat_of_nat signed_take_bit_int_eq_self)

lemma iterate_record:
  assumes "dent_at d off e"
  shows "iterate_block actor d (length d) pos q c off =
    (if dn_ino e \<noteq> 0 \<and> sint q \<le> sint pos
     then (case actor c (dn_name e) pos (dn_ino e) (ext4_file_type_to_dt (dn_type e)) of
             (ret, c') \<Rightarrow>
               if ret \<noteq> 0 then Some (Stop (if ret > 0 then 0 else ret) q c')
               else iterate_block actor d (length d) (pos + of_nat (dn_rec e)) (pos + of_nat (dn_rec e)) c' (off + dn_rec e))
     else iterate_block actor d (length d) (pos + of_nat (dn_rec e)) q c (off + dn_rec e))"
proof -
  have r: "unat (of_nat (dn_rec e) :: u16) = dn_rec e" using assms by (simp add: dent_at_def unat_rec)
  then have u: "(ucast (of_nat (dn_rec e) :: u16) :: u64) = of_nat (dn_rec e)"
    by (simp add: unsigned_of_nat take_bit_nat_eq_self assms [unfolded dent_at_def])
  have l: "off < length d" "\<not> dn_rec e < sizeof_dirent" "\<not> length d < off + dn_rec e"
    using assms by (auto simp: dent_at_def sizeof_dirent_def)
  have n: "unat (of_nat (length (dn_name e)) :: u8) = length (dn_name e)" if "dn_ino e \<noteq> 0"
    using assms that by (simp add: dent_at_def unat_of_nat)
  show ?thesis
    using assms l by (subst iterate_block.simps) (auto simp: dent_at_def r u n split: prod.split)
qed

lemma iterate_block_listed:
  assumes "dir_rep d off es" and "p + (length d - off) < 2 ^ 63" and "q < 2 ^ 63"
  shows "iterate_block actor d (length d) (of_nat p) (of_nat q) c off =
    Some (walk_of (of_nat (p + (length d - off))) (feed actor (of_nat q) c (not_before q (listed p es))))"
  using assms
proof (induction es arbitrary: off p q c)
  case Nil
  then show ?case by (simp add: iterate_block.simps [of _ d] not_before_def walk_of_def)
next
  case (Cons e es)
  have e: "dent_at d off e" and es: "dir_rep d (off + dn_rec e) es" using Cons.prems(1) by auto
  have l: "off + dn_rec e \<le> length d" using e by (simp add: dent_at_def)
  then have p: "p + dn_rec e + (length d - (off + dn_rec e)) = p + (length d - off)" by simp
  have s: "sint (of_nat q :: u64) \<le> sint (of_nat p :: u64) \<longleftrightarrow> q \<le> p"
    using Cons.prems(2,3) by (simp add: sint_of_nat_u64)
  have add: "(of_nat p + of_nat (dn_rec e) :: u64) = of_nat (p + dn_rec e)" by simp
  note IH = Cons.IH [OF es, of "p + dn_rec e", unfolded p, OF Cons.prems(2)]
  show ?case
    unfolding iterate_record [OF e] s add not_before_Cons
    using IH [of q c] IH [of "p + dn_rec e"] Cons.prems(2,3) l not_before_all [of "p + dn_rec e" "p + dn_rec e" es]
    by (auto simp: walk_of_def split: prod.split)
qed

text \<open>
  Every round of the listing either stops or goes on at least one record header, whatever the block
  holds; behind the block the code may look at the header and the name of one more record.
\<close>

lemma get_le_defined: "off + n \<le> length d \<Longrightarrow> \<exists>v. get_le n d off = Some v"
  by (simp add: get_le_def)

lemma iterate_block_defined:
  assumes "bs + 263 \<le> length d"
  shows "\<exists>w. iterate_block actor d bs pos q c off = Some w"
proof (induction "bs - off" arbitrary: off pos q c rule: less_induct)
  case less
  show ?case
  proof (cases "bs \<le> off")
    case True
    then show ?thesis by (simp add: iterate_block.simps)
  next
    case False
    then have b: "off + 263 \<le> length d" using assms by simp
    obtain rl ino ty nl where f: "de_rec_len d off = Some rl" "de_inode d off = Some ino" "de_file_type d off = Some ty"
      "de_name_len d off = Some nl"
      using b get_le_defined [of "off + 4" 2 d] get_le_defined [of off 4 d] get_le_defined [of "off + 7" 1 d]
        get_le_defined [of "off + 6" 1 d]
      unfolding de_rec_len_def de_inode_def de_file_type_def de_name_len_def by auto
    have nm: "\<exists>nm. get_bytes d (off + sizeof_dirent) (unat nl) = Some nm"
      using b unsigned_less [of nl, where ?'a = nat] by (simp add: get_bytes_def sizeof_dirent_def)
    have IH: "\<not> unat rl < sizeof_dirent \<Longrightarrow> \<exists>w. iterate_block actor d bs p' q' c' (off + unat rl) = Some w" for p' q' c'
      using False less [of "off + unat rl"] by (simp add: sizeof_dirent_def)
    show ?thesis
      using False f nm IH by (subst iterate_block.simps) (auto split: prod.split)
  qed
qed


lemma dir_find_stuck:
  assumes "off < bs" and "de_rec_len d off = Some 0" and "entry_named d off name = Some False"
  shows "dir_find d bs name off = None"
  using assms by (subst dir_find.simps) (simp add: ext4_next_entry_def)

text \<open>
  Listing a directory block ends whatever the block holds: the record lengths are checked, so every
  round stops or moves on by at least a record header. The header and the name of the last record may
  reach behind the block, so the memory there (at most 263 bytes) is assumed to be readable. The loops
  that search, insert and delete have no such check (\<open>dir_find_stuck\<close>).
\<close>

theorem dir_listing_terminates:
  assumes "bs + 263 \<le> length d"
  shows "\<exists>w. iterate_block actor d bs pos cpos c off = Some w"
  by (rule iterate_block_defined [OF assms])

theorem dir_listing_terminates_witness:
  "\<exists>w. iterate_block (\<lambda>c name pos ino ty. (0, c)) (replicate 400 0) 100 0 0 () 0 = Some w"
  using dir_listing_terminates [of 100 "replicate 400 0"] by simp

section \<open>An example\<close>

text \<open>A block with the two entries of an empty directory.\<close>

definition small_dir :: bytes where
  "small_dir = [2, 0, 0, 0, 12, 0, 1, 2, 46, 0, 0, 0, 2, 0, 0, 0, 28, 0, 2, 2, 46, 46] @ replicate 18 0"

definition small_dents :: "dent list" where
  "small_dents = [\<lparr>dn_ino = 2, dn_rec = 12, dn_name = [46], dn_type = 2\<rparr>, \<lparr>dn_ino = 2, dn_rec = 28, dn_name = [46, 46], dn_type = 2\<rparr>]"

lemma small_dir_rep: "dir_rep small_dir 0 small_dents" "length small_dir = 40"
  by (simp_all add: small_dents_def small_dir_def dent_at_def sizeof_dirent_def round4_def de_inode_def de_rec_len_def
      de_name_len_def de_file_type_def get_bytes_def get_le_def le_nat_def)

lemma small_dir_use: "in_use small_dents = [([46], 2, 2), ([46, 46], 2, 2)]"
  by (simp add: in_use_def small_dents_def)

theorem dir_add_witness:
  "\<exists>d'. dir_add small_dir 40 [97] 7 1 = Some (Some d') \<and> dir_find d' 40 [97] 0 = Some (Some 7) \<and>
     dir_find d' 40 [46] 0 = dir_find small_dir 40 [46] 0"
proof -
  have "length [97 :: u8] < 256" "(7 :: u32) \<noteq> 0" by simp_all
  note t = dir_add_correct [OF small_dir_rep(1) this, of 1, unfolded small_dir_rep(2)]
  have "\<not> (\<forall>e \<in> set small_dents. dn_ino e \<noteq> 0 \<longrightarrow>
      dn_rec e < sizeof_dirent + round4 (length (dn_name e)) + (sizeof_dirent + round4 (length [97 :: u8])))"
    by (simp add: small_dents_def sizeof_dirent_def round4_def)
  with t obtain d' where "dir_add small_dir 40 [97] 7 1 = Some (Some d')" "length d' = 40"
    "[97] \<notin> fst ` set (in_use small_dents) \<longrightarrow> dir_find d' (length d') [97] 0 = Some (Some 7)"
    "\<forall>nm. nm \<noteq> [97] \<longrightarrow> length nm < 256 \<longrightarrow> dir_find d' (length d') nm 0 = dir_find small_dir 40 nm 0" by blast
  then show ?thesis by (auto simp: small_dir_use)
qed

theorem dir_delete_witness:
  "\<exists>d'. dir_delete small_dir 40 [46] None 0 = Some (Some d') \<and> dir_find d' 40 [46] 0 = Some None"
proof -
  have h: "length [46 :: u8] < 256" "length small_dir < 2 ^ 16" "distinct (map fst (in_use small_dents))"
    by (simp_all add: small_dir_rep(2) small_dir_use)
  have "dir_find small_dir 40 [46] 0 = Some (Some 2)"
    using dir_find_in_use [OF small_dir_rep(1) h(1)] by (simp add: small_dir_use small_dir_rep(2))
  then show ?thesis using dir_delete_correct [OF small_dir_rep(1) h] by (auto simp: small_dir_rep(2))
qed

end
