(* ===== verification/Vfs.thy ===== *)
theory Vfs
  imports Ext4_Inode Rbtree "HOL-Library.Product_Lexorder"
begin

text \<open>
  The objects of the virtual file system and their caches: \<open>kernel/fs/service/inode.c\<close>,
  \<open>dcache.c\<close>, \<open>fs_type.c\<close> and the super blocks of \<open>vfs.c\<close>. Every kind of object lives in a partial
  map by address; a freed object is not in its map, so that every use of one is undefined behaviour
  and gives \<open>None\<close>. The operation tables of the file systems are arguments, by the address of the
  table, as they are function pointers in the code. The children of a directory entry, the dirty
  inodes, the mounts and the super blocks are lists in the order of the kernel's linked lists.
  Reference counts are C integers that stay far from their bounds; they are integers here.
\<close>

section \<open>State\<close>

text \<open>
  \<open>struct inode\<close>: the fields a backend reads and writes are those of \<open>ext4_node\<close>, of which
  \<open>en_info\<close> holds the extents in the object \<open>i_private\<close> points to.
\<close>

record inode = ext4_node +
  i_sb :: u64
  i_count :: int
  i_private :: "u64 option"

record dentry =
  d_parent :: u64
  d_subdirs :: "u64 list"
  d_inode :: "u64 option"
  d_sb :: "u64 option"
  d_mounted :: "u64 option"
  d_name :: cstr
  d_count :: int

record super_block =
  s_dev :: u32
  s_type :: u64
  s_root :: "u64 option"
  s_bdev :: "u64 option"
  s_blocksize :: u64
  s_blocksize_bits :: u8
  s_op :: "u64 option"
  s_fs_info :: "ext4_sb option"
  s_count :: int

record vfsmount =
  mnt_root :: "u64 option"
  mnt_sb :: u64
  mnt_mountpoint :: "u64 option"
  mnt_parent :: "u64 option"
  mnt_devname :: cstr

record vfs_file =
  f_dentry :: u64
  f_vfsmnt :: "u64 option"
  f_op :: "u64 option"
  f_pos :: u64
  f_flags :: u32
  f_count :: int
  f_private :: "u64 option"

record fs_context =
  cwd_dentry :: "u64 option"
  cwd_mnt :: "u64 option"

record files_struct =
  fd_array :: "u64 option list"
  fl_count :: int
  fs_ctx :: "u64 option"

record 'd fs_state =
  fs_blk :: "'d blk_state"
  fs_inode :: "u64 \<rightharpoonup> inode"
  fs_dentry :: "u64 \<rightharpoonup> dentry"
  fs_sb :: "u64 \<rightharpoonup> super_block"
  fs_mnt :: "u64 \<rightharpoonup> vfsmount"
  fs_file :: "u64 \<rightharpoonup> vfs_file"
  fs_files :: "u64 \<rightharpoonup> files_struct"
  fs_context_of :: "u64 \<rightharpoonup> fs_context"
  g_inode_cache :: "cache_id option"
  g_dentry_cache :: "cache_id option"
  g_ext4_inode_cache :: "cache_id option"
  g_inode_tree :: "u64 rb_tree"
  g_dirty_inodes :: "u64 list"
  g_superblocks :: "u64 list"
  g_mounts :: "u64 list"
  g_fs_types :: "u64 list"
  root_dentry :: "u64 option"
  root_mnt :: "u64 option"
  cur_files :: "u64 option"

text \<open>The record a directory listing is collected in (\<open>struct getdents_ctx\<close>).\<close>

record getdents_ctx =
  gd_buf :: bytes
  gd_count :: u32
  gd_pos :: u32

section \<open>Operation tables\<close>

type_synonym ('d, 'a) op = "'d fs_state \<Rightarrow> ('a \<times> 'd fs_state) option"

record 'd inode_operations =
  io_lookup :: "(u64 \<Rightarrow> u64 \<Rightarrow> ('d, errno + u64 option) op) option"
  io_create :: "(u64 \<Rightarrow> u64 \<Rightarrow> u16 \<Rightarrow> ('d, errno + unit) op) option"
  io_mkdir :: "(u64 \<Rightarrow> u64 \<Rightarrow> u16 \<Rightarrow> ('d, errno + unit) op) option"
  io_unlink :: "(u64 \<Rightarrow> u64 \<Rightarrow> ('d, errno + unit) op) option"
  io_rmdir :: "(u64 \<Rightarrow> u64 \<Rightarrow> ('d, errno + unit) op) option"

text \<open>
  \<open>read\<close> and \<open>write\<close> get the position and return the new one, as the code passes a pointer to it;
  \<open>read\<close> returns the bytes it stores at the start of the buffer.
\<close>

record 'd file_operations =
  fo_open :: "(u64 \<Rightarrow> u64 \<Rightarrow> ('d, errno + unit) op) option"
  fo_release :: "(u64 option \<Rightarrow> u64 \<Rightarrow> ('d, unit) op) option"
  fo_read :: "(u64 \<Rightarrow> u32 \<Rightarrow> u64 \<Rightarrow> ('d, int \<times> bytes \<times> u64) op) option"
  fo_write :: "(u64 \<Rightarrow> bytes \<Rightarrow> u32 \<Rightarrow> u64 \<Rightarrow> ('d, int \<times> u64) op) option"
  fo_llseek :: "(u64 \<Rightarrow> u64 \<Rightarrow> int \<Rightarrow> ('d, int) op) option"
  fo_iterate :: "(u64 \<Rightarrow> u64 \<Rightarrow> getdents_ctx \<Rightarrow> ('d, int \<times> u64 \<times> getdents_ctx) op) option"
  fo_ioctl :: "(u64 \<Rightarrow> u32 \<Rightarrow> u64 \<Rightarrow> ('d, int) op) option"
  fo_mmap :: "(u64 \<Rightarrow> u32 \<Rightarrow> u64 \<Rightarrow> ('d, errno + u64) op) option"

record 'd super_operations =
  so_alloc_inode :: "(u64 \<Rightarrow> ('d, u64 option) op) option"
  so_destroy_inode :: "(u64 \<Rightarrow> ('d, unit) op) option"
  so_write_inode :: "(u64 \<Rightarrow> ('d, errno + unit) op) option"

record 'd file_system_type =
  ft_name :: "cstr option"
  ft_mount :: "(u64 \<Rightarrow> cstr \<Rightarrow> ('d, u64 option) op) option"
  ft_kill_sb :: "(u64 \<Rightarrow> ('d, unit) op) option"

record 'd vfs_env =
  ve_iop :: "u64 \<Rightarrow> 'd inode_operations"
  ve_fop :: "u64 \<Rightarrow> 'd file_operations"
  ve_sop :: "u64 \<Rightarrow> 'd super_operations"
  ve_fst :: "u64 \<Rightarrow> 'd file_system_type"

section \<open>Memory\<close>

definition sizeof_inode :: u32 where "sizeof_inode = 184"
definition sizeof_dentry :: u32 where "sizeof_dentry = 136"
definition sizeof_super_block :: u32 where "sizeof_super_block = 88"
definition sizeof_vfsmount :: u32 where "sizeof_vfsmount = 112"
definition sizeof_file :: u32 where "sizeof_file = 48"
definition sizeof_files_struct :: u32 where "sizeof_files_struct = 144"
definition sizeof_fs_context :: u32 where "sizeof_fs_context = 16"

definition set_mm :: "'d fs_state \<Rightarrow> mm_state \<Rightarrow> 'd fs_state" where
  "set_mm s m = s\<lparr>fs_blk := (fs_blk s)\<lparr>bk_mm := m\<rparr>\<rparr>"

definition fs_slab :: "(slab_state \<Rightarrow> ('a \<times> slab_state) option) \<Rightarrow> ('d, 'a) op" where
  "fs_slab f s = map_option (\<lambda>(r, m). (r, set_mm s m)) (lift_slab (bk_mm (fs_blk s)) f)"

definition fs_kmalloc :: "u32 \<Rightarrow> ('d, u64 option) op" where
  "fs_kmalloc n = fs_slab (\<lambda>m. kmalloc m n)"

definition fs_cache_alloc :: "cache_id option \<Rightarrow> ('d, u64 option) op" where
  "fs_cache_alloc c = fs_slab (\<lambda>m. kmem_cache_alloc m c)"

definition fs_kfree :: "u64 \<Rightarrow> 'd fs_state \<Rightarrow> 'd fs_state option" where
  "fs_kfree a s = map_option (set_mm s) (mm_kfree (bk_mm (fs_blk s)) (Some a))"

text \<open>A null cache pointer is followed by \<open>kmem_cache_free\<close>.\<close>

definition fs_cache_free :: "cache_id option \<Rightarrow> u64 \<Rightarrow> 'd fs_state \<Rightarrow> 'd fs_state option" where
  "fs_cache_free c a s = do {
     k \<leftarrow> c;
     map_option (\<lambda>(_, s1). s1) (fs_slab (\<lambda>m. map_option (Pair ()) (kmem_cache_free m k (Some a))) s) }"

section \<open>Inodes\<close>

text \<open>Changing a live inode, or a live directory entry.\<close>

definition upd_inode :: "u64 \<Rightarrow> (inode \<Rightarrow> inode) \<Rightarrow> 'd fs_state \<Rightarrow> 'd fs_state option" where
  "upd_inode a f s = map_option (\<lambda>i. s\<lparr>fs_inode := (fs_inode s)(a \<mapsto> f i)\<rparr>) (fs_inode s a)"

definition upd_dentry :: "u64 \<Rightarrow> (dentry \<Rightarrow> dentry) \<Rightarrow> 'd fs_state \<Rightarrow> 'd fs_state option" where
  "upd_dentry a f s = map_option (\<lambda>d. s\<lparr>fs_dentry := (fs_dentry s)(a \<mapsto> f d)\<rparr>) (fs_dentry s a)"

definition key_cmp :: "u64 \<times> u64 \<Rightarrow> u64 \<times> u64 \<Rightarrow> int" where
  "key_cmp k1 k2 =
     (if fst k1 \<noteq> fst k2 then (if fst k2 < fst k1 then 1 else - 1)
      else if snd k1 = snd k2 then 0
      else if snd k2 < snd k1 then 1 else - 1)"

definition inode_key :: "'d fs_state \<Rightarrow> u64 \<Rightarrow> u64 \<times> u64" where
  "inode_key s a = (case fs_inode s a of Some i \<Rightarrow> (i_sb i, en_ino i) | None \<Rightarrow> (0, 0))"

definition inode_cmp :: "'d fs_state \<Rightarrow> u64 \<Rightarrow> u64 \<Rightarrow> int" where
  "inode_cmp s n1 n2 = key_cmp (inode_key s n1) (inode_key s n2)"

definition inode_cache_init :: "'d fs_state \<Rightarrow> 'd fs_state option" where
  "inode_cache_init s = do {
     (c, s1) \<leftarrow> fs_slab (\<lambda>m. kmem_cache_create m (cstr_of ''inode'') sizeof_inode 8) s;
     Some (s1\<lparr>g_inode_cache := c, g_inode_tree := (g_inode_tree s1)\<lparr>rb_root := None\<rparr>, g_dirty_inodes := []\<rparr>) }"

partial_function (option) inode_find_loop :: "'d fs_state \<Rightarrow> u64 \<times> u64 \<Rightarrow> u64 option \<Rightarrow> u64 option option" where
  "inode_find_loop s k node =
     (case node of
        None \<Rightarrow> Some None
      | Some a \<Rightarrow>
          let c = key_cmp k (inode_key s a) in
          if c = 0 then Some (Some a)
          else inode_find_loop s k (if c < 0 then rb_left (rb_nd (g_inode_tree s) a) else rb_right (rb_nd (g_inode_tree s) a)))"

definition inode_find :: "'d fs_state \<Rightarrow> u64 \<Rightarrow> u64 \<Rightarrow> u64 option option" where
  "inode_find s sb ino = inode_find_loop s (sb, ino) (rb_root (g_inode_tree s))"

definition zero_inode :: inode where
  "zero_inode = \<lparr>en_ino = 0, en_mode = 0, en_nlink = 0, en_uid = 0, en_gid = 0, en_size = 0, en_blocks = 0,
     en_info = None, en_dirty = False, i_op = None, i_fop = None, i_sb = 0, i_count = 0, i_private = None\<rparr>"

definition inode_memory :: "'d vfs_env \<Rightarrow> super_block \<Rightarrow> u64 \<Rightarrow> ('d, u64 option) op" where
  "inode_memory env b sb s =
     (case Option.bind (s_op b) (\<lambda>o'. so_alloc_inode (ve_sop env o')) of
        Some f \<Rightarrow> f sb s
      | None \<Rightarrow> fs_cache_alloc (g_inode_cache s) s)"

text \<open>\<open>memset\<close> also clears what \<open>alloc_inode\<close> put into the inode, and the tree node in it.\<close>

definition new_inode :: "'d vfs_env \<Rightarrow> u64 \<Rightarrow> ('d, u64 option) op" where
  "new_inode env sb s = do {
     b \<leftarrow> fs_sb s sb;
     (p, s1) \<leftarrow> inode_memory env b sb s;
     (case p of
        None \<Rightarrow> Some (None, s1)
      | Some a \<Rightarrow> Some (Some a, s1\<lparr>fs_inode := (fs_inode s1)(a \<mapsto> zero_inode\<lparr>i_sb := sb, i_count := 1\<rparr>),
                     g_inode_tree := upd_node (g_inode_tree s1) a (\<lambda>_. zero_node)\<rparr>)) }"

definition insert_inode_hash :: "u64 option \<Rightarrow> 'd fs_state \<Rightarrow> 'd fs_state option" where
  "insert_inode_hash p s =
     (case p of
        None \<Rightarrow> Some s
      | Some a \<Rightarrow> map_option (\<lambda>t. s\<lparr>g_inode_tree := t\<rparr>) (rb_insert (inode_cmp s) (g_inode_tree s) a))"

definition iget :: "'d vfs_env \<Rightarrow> u64 \<Rightarrow> u64 \<Rightarrow> ('d, u64 option) op" where
  "iget env sb ino s = do {
     r \<leftarrow> inode_find s sb ino;
     (case r of
        Some a \<Rightarrow> map_option (Pair (Some a)) (upd_inode a (\<lambda>i. i\<lparr>i_count := i_count i + 1\<rparr>) s)
      | None \<Rightarrow> do {
          (p, s1) \<leftarrow> new_inode env sb s;
          (case p of
             None \<Rightarrow> Some (None, s1)
           | Some a \<Rightarrow> do {
               s2 \<leftarrow> upd_inode a (\<lambda>i. i\<lparr>en_ino := ino\<rparr>) s1;
               s3 \<leftarrow> insert_inode_hash (Some a) s2;
               Some (Some a, s3) }) }) }"

definition write_inode_now :: "'d vfs_env \<Rightarrow> u64 option \<Rightarrow> ('d, errno + unit) op" where
  "write_inode_now env p s =
     (case p of
        None \<Rightarrow> Some (Inl EINVAL, s)
      | Some a \<Rightarrow> do {
          i \<leftarrow> fs_inode s a;
          b \<leftarrow> fs_sb s (i_sb i);
          (r, s1) \<leftarrow>
            (case Option.bind (s_op b) (\<lambda>o'. so_write_inode (ve_sop env o')) of
               Some f \<Rightarrow> f a s
             | None \<Rightarrow> Some (Inr (), s));
          (case r of
             Inl e \<Rightarrow> Some (Inl e, s1)
           | Inr _ \<Rightarrow> do {
               s2 \<leftarrow> upd_inode a (\<lambda>i. i\<lparr>en_dirty := False\<rparr>) s1;
               Some (Inr (), s2\<lparr>g_dirty_inodes := remove1 a (g_dirty_inodes s2)\<rparr>) }) })"

definition forget_inode :: "u64 \<Rightarrow> 'd fs_state \<Rightarrow> 'd fs_state" where
  "forget_inode a s = s\<lparr>fs_inode := (fs_inode s)(a := None)\<rparr>"

definition iput :: "'d vfs_env \<Rightarrow> u64 option \<Rightarrow> 'd fs_state \<Rightarrow> 'd fs_state option" where
  "iput env p s =
     (case p of
        None \<Rightarrow> Some s
      | Some a \<Rightarrow> do {
          s1 \<leftarrow> upd_inode a (\<lambda>i. i\<lparr>i_count := i_count i - 1\<rparr>) s;
          i \<leftarrow> fs_inode s1 a;
          (if i_count i \<le> 0
           then do {
             (_, s2) \<leftarrow> (if en_dirty i then write_inode_now env (Some a) s1 else Some (Inr (), s1));
             t \<leftarrow> rb_delete (g_inode_tree s2) a;
             let s3 = s2\<lparr>g_inode_tree := t\<rparr>;
             b \<leftarrow> fs_sb s3 (i_sb i);
             (case Option.bind (s_op b) (\<lambda>o'. so_destroy_inode (ve_sop env o')) of
                Some f \<Rightarrow> map_option (\<lambda>(_, s4). s4) (f a s3)
              | None \<Rightarrow> map_option (forget_inode a) (fs_cache_free (g_inode_cache s3) a s3)) }
           else Some s1) })"

text \<open>
  The flag of the inode is that of \<open>Ext4.mark_inode_dirty\<close>; an inode that was clean enters the list.
\<close>

definition mark_dirty :: "u64 \<Rightarrow> 'd fs_state \<Rightarrow> 'd fs_state option" where
  "mark_dirty a s = do {
     i \<leftarrow> fs_inode s a;
     (if en_dirty i then Some s
      else Some (s\<lparr>fs_inode := (fs_inode s)(a \<mapsto> mark_inode_dirty i), g_dirty_inodes := a # g_dirty_inodes s\<rparr>)) }"

fun sync_inodes_loop :: "'d vfs_env \<Rightarrow> u64 list \<Rightarrow> 'd fs_state \<Rightarrow> 'd fs_state option" where
  "sync_inodes_loop env [] s = Some s"
| "sync_inodes_loop env (a # as) s = do { (_, s1) \<leftarrow> write_inode_now env (Some a) s; sync_inodes_loop env as s1 }"

definition sync_inodes :: "'d vfs_env \<Rightarrow> 'd fs_state \<Rightarrow> 'd fs_state option" where
  "sync_inodes env s = sync_inodes_loop env (g_dirty_inodes s) s"

section \<open>Directory entries\<close>

definition dentry_cache_init :: "'d fs_state \<Rightarrow> 'd fs_state option" where
  "dentry_cache_init s = do {
     (c, s1) \<leftarrow> fs_slab (\<lambda>m. kmem_cache_create m (cstr_of ''dentry'') sizeof_dentry 8) s;
     Some (s1\<lparr>g_dentry_cache := c\<rparr>) }"

definition NAME_FIELD :: nat where "NAME_FIELD = 64"

definition d_alloc :: "u64 option \<Rightarrow> cstr option \<Rightarrow> ('d, u64 option) op" where
  "d_alloc parent name s = do {
     (p, s1) \<leftarrow> fs_cache_alloc (g_dentry_cache s) s;
     (case p of
        None \<Rightarrow> Some (None, s1)
      | Some a \<Rightarrow> do {
          let d = \<lparr>d_parent = (case parent of Some q \<Rightarrow> q | None \<Rightarrow> a), d_subdirs = [], d_inode = None, d_sb = None,
                   d_mounted = None, d_name = (case name of Some n \<Rightarrow> take (NAME_FIELD - 1) n | None \<Rightarrow> []), d_count = 1\<rparr>;
          let s2 = s1\<lparr>fs_dentry := (fs_dentry s1)(a \<mapsto> d)\<rparr>;
          (case parent of
             None \<Rightarrow> Some (Some a, s2)
           | Some q \<Rightarrow> map_option (Pair (Some a)) (upd_dentry q (\<lambda>d. d\<lparr>d_subdirs := a # d_subdirs d\<rparr>) s2)) }) }"

definition d_instantiate :: "u64 option \<Rightarrow> u64 option \<Rightarrow> 'd fs_state \<Rightarrow> 'd fs_state option" where
  "d_instantiate dentry inode s =
     (case (dentry, inode) of
        (Some d, Some a) \<Rightarrow> do {
          i \<leftarrow> fs_inode s a;
          s1 \<leftarrow> upd_dentry d (\<lambda>x. x\<lparr>d_inode := Some a, d_sb := Some (i_sb i)\<rparr>) s;
          upd_inode a (\<lambda>i. i\<lparr>i_count := i_count i + 1\<rparr>) s1 }
      | _ \<Rightarrow> Some s)"

fun find_child :: "'d fs_state \<Rightarrow> u64 list \<Rightarrow> cstr \<Rightarrow> u64 option option" where
  "find_child s [] name = Some None"
| "find_child s (c # cs) name = do {
     d \<leftarrow> fs_dentry s c;
     (if d_name d = name then Some (Some c) else find_child s cs name) }"

definition d_lookup :: "u64 option \<Rightarrow> cstr option \<Rightarrow> ('d, u64 option) op" where
  "d_lookup parent name s =
     (case (parent, name) of
        (Some q, Some n) \<Rightarrow> do {
          p \<leftarrow> fs_dentry s q;
          r \<leftarrow> find_child s (d_subdirs p) n;
          (case r of
             None \<Rightarrow> Some (None, s)
           | Some c \<Rightarrow> map_option (Pair (Some c)) (upd_dentry c (\<lambda>d. d\<lparr>d_count := d_count d + 1\<rparr>) s)) }
      | _ \<Rightarrow> Some (None, s))"

definition dget :: "u64 option \<Rightarrow> 'd fs_state \<Rightarrow> 'd fs_state option" where
  "dget dentry s =
     (case dentry of None \<Rightarrow> Some s | Some a \<Rightarrow> upd_dentry a (\<lambda>d. d\<lparr>d_count := d_count d + 1\<rparr>) s)"

text \<open>
  Unlinking a child touches the list head inside its parent, which must be alive; an entry that is
  its own parent is on no list.
\<close>

definition d_unlink :: "u64 \<Rightarrow> u64 \<Rightarrow> 'd fs_state \<Rightarrow> 'd fs_state option" where
  "d_unlink a parent s =
     (if parent = a then Some s else upd_dentry parent (\<lambda>d. d\<lparr>d_subdirs := remove1 a (d_subdirs d)\<rparr>) s)"

definition dput :: "'d vfs_env \<Rightarrow> u64 option \<Rightarrow> 'd fs_state \<Rightarrow> 'd fs_state option" where
  "dput env dentry s =
     (case dentry of
        None \<Rightarrow> Some s
      | Some a \<Rightarrow> do {
          s1 \<leftarrow> upd_dentry a (\<lambda>d. d\<lparr>d_count := d_count d - 1\<rparr>) s;
          d \<leftarrow> fs_dentry s1 a;
          (if d_count d \<le> 0
           then do {
             s2 \<leftarrow> iput env (d_inode d) s1;
             s3 \<leftarrow> d_unlink a (d_parent d) s2;
             s4 \<leftarrow> fs_cache_free (g_dentry_cache s3) a s3;
             Some (s4\<lparr>fs_dentry := (fs_dentry s4)(a := None)\<rparr>) }
           else Some s1) })"

section \<open>File system types and super blocks\<close>

fun type_known :: "'d vfs_env \<Rightarrow> u64 list \<Rightarrow> cstr \<Rightarrow> u64 option" where
  "type_known env [] name = None"
| "type_known env (f # fs) name = (if ft_name (ve_fst env f) = Some name then Some f else type_known env fs name)"

definition register_filesystem :: "'d vfs_env \<Rightarrow> u64 option \<Rightarrow> 'd fs_state \<Rightarrow> (errno + unit) \<times> 'd fs_state" where
  "register_filesystem env fs s =
     (case fs of
        None \<Rightarrow> (Inl EINVAL, s)
      | Some f \<Rightarrow>
          (case (ft_name (ve_fst env f), ft_mount (ve_fst env f)) of
             (Some name, Some _) \<Rightarrow>
               if type_known env (g_fs_types s) name \<noteq> None then (Inl EEXIST, s)
               else (Inr (), s\<lparr>g_fs_types := g_fs_types s @ [f]\<rparr>)
           | _ \<Rightarrow> (Inl EINVAL, s)))"

definition get_fs_type :: "'d vfs_env \<Rightarrow> 'd fs_state \<Rightarrow> cstr \<Rightarrow> u64 option" where
  "get_fs_type env s name = type_known env (g_fs_types s) name"

definition sb_add :: "u64 \<Rightarrow> 'd fs_state \<Rightarrow> 'd fs_state" where
  "sb_add a s = s\<lparr>g_superblocks := a # g_superblocks s\<rparr>"

definition sb_alloc :: "u64 \<Rightarrow> ('d, u64 option) op" where
  "sb_alloc type s = do {
     (p, s1) \<leftarrow> fs_kmalloc sizeof_super_block s;
     (case p of
        None \<Rightarrow> Some (None, s1)
      | Some a \<Rightarrow> Some (Some a, s1\<lparr>fs_sb := (fs_sb s1)(a \<mapsto> \<lparr>s_dev = 0, s_type = type, s_root = None, s_bdev = None,
                     s_blocksize = 0, s_blocksize_bits = 0, s_op = None, s_fs_info = None, s_count = 1\<rparr>)\<rparr>)) }"

definition vfs_mount_init :: "'d fs_state \<Rightarrow> 'd fs_state" where
  "vfs_mount_init s = s\<lparr>g_mounts := []\<rparr>"

definition vfs_init :: "'d fs_state \<Rightarrow> 'd fs_state option" where
  "vfs_init s = do {
     s1 \<leftarrow> inode_cache_init (vfs_mount_init (s\<lparr>g_superblocks := []\<rparr>));
     dentry_cache_init s1 }"

section \<open>The inode cache is a finite map\<close>

lemma key_cmp_less: "key_cmp k1 k2 < 0 \<longleftrightarrow> k1 < k2" and key_cmp_zero: "key_cmp k1 k2 = 0 \<longleftrightarrow> k1 = k2"
  by (cases k1; cases k2; auto simp: key_cmp_def)+

interpretation itree: rb_order "inode_cmp s" "inode_key s" for s
  by unfold_locales (simp add: inode_cmp_def key_cmp_less)

definition icache_inv :: "'d fs_state \<Rightarrow> u64 ptree \<Rightarrow> bool" where
  "icache_inv s T \<longleftrightarrow> holds (g_inode_tree s) T \<and> rb_valid T \<and> sorted_wrt (<) (map (inode_key s) (nodes T)) \<and>
     set (nodes T) \<subseteq> dom (fs_inode s)"

lemma find_none: "(\<And>x. x \<in> set xs \<Longrightarrow> \<not> P x) \<Longrightarrow> find P xs = None"
  by (simp add: find_None_iff)

lemma find_append: "find P (xs @ ys) = (case find P xs of Some x \<Rightarrow> Some x | None \<Rightarrow> find P ys)"
  by (induction xs) auto

lemma find_loop_nodes:
  assumes "rep (rb_nd (g_inode_tree s)) p T" and "sorted_wrt (<) (map (inode_key s) (nodes T))"
  shows "inode_find_loop s k (root_of T) = Some (find (\<lambda>a. inode_key s a = k) (nodes T))"
  using assms
proof (induction T arbitrary: p)
  case Lf
  then show ?case by (simp add: inode_find_loop.simps)
next
  case (Nd c l a r)
  have l: "\<forall>x\<in>set (nodes l). inode_key s x < inode_key s a" and r: "\<forall>x\<in>set (nodes r). inode_key s a < inode_key s x"
    and srt: "sorted_wrt (<) (map (inode_key s) (nodes l))" "sorted_wrt (<) (map (inode_key s) (nodes r))"
    using Nd.prems(2) by (auto simp: sorted_wrt_append)
  have ptr: "rb_left (rb_nd (g_inode_tree s) a) = root_of l" "rb_right (rb_nd (g_inode_tree s) a) = root_of r"
    using Nd.prems(1) by auto
  have IH: "inode_find_loop s k (root_of l) = Some (find (\<lambda>a. inode_key s a = k) (nodes l))"
    "inode_find_loop s k (root_of r) = Some (find (\<lambda>a. inode_key s a = k) (nodes r))"
    using Nd.IH srt Nd.prems(1) by auto
  consider "k = inode_key s a" | "k < inode_key s a" | "inode_key s a < k" by (rule linorder_cases) auto
  then show ?case
  proof cases
    case 1
    then have "find (\<lambda>x. inode_key s x = k) (nodes l) = None" using l by (intro find_none) auto
    with 1 show ?thesis by (subst inode_find_loop.simps) (simp add: key_cmp_zero find_append)
  next
    case 2
    then have "find (\<lambda>x. inode_key s x = k) (nodes r) = None" using r by (intro find_none) auto
    with 2 ptr IH(1) show ?thesis
      by (subst inode_find_loop.simps) (auto simp: key_cmp_zero key_cmp_less find_append split: option.split)
  next
    case 3
    then have "find (\<lambda>x. inode_key s x = k) (nodes l) = None" using l by (intro find_none) auto
    with 3 ptr IH(2) show ?thesis
      by (subst inode_find_loop.simps) (auto simp: key_cmp_zero key_cmp_less find_append)
  qed
qed

lemma inode_find_nodes:
  assumes "icache_inv s T"
  shows "inode_find s sb ino = Some (find (\<lambda>a. inode_key s a = (sb, ino)) (nodes T))"
  using assms find_loop_nodes [of s None T] by (auto simp: icache_inv_def holds_def inode_find_def)

lemma icache_key_inj:
  assumes "icache_inv s T" and "a \<in> set (nodes T)" and "b \<in> set (nodes T)" and "inode_key s a = inode_key s b"
  shows "a = b"
proof -
  have "distinct (map (inode_key s) (nodes T))"
    using assms(1) unfolding icache_inv_def by (simp add: strict_sorted_iff)
  then show ?thesis using assms(2-) by (auto simp: distinct_map dest: inj_onD)
qed

lemma inode_find_iff:
  assumes "icache_inv s T"
  shows "inode_find s sb ino = Some (Some a) \<longleftrightarrow> a \<in> set (nodes T) \<and> inode_key s a = (sb, ino)"
proof -
  have *: "find (\<lambda>a. inode_key s a = (sb, ino)) (nodes T) = Some a \<Longrightarrow> a \<in> set (nodes T) \<and> inode_key s a = (sb, ino)" for a
    by (auto simp: find_Some_iff)
  have "find (\<lambda>a. inode_key s a = (sb, ino)) (nodes T) = Some a" if "a \<in> set (nodes T)" "inode_key s a = (sb, ino)"
  proof (cases "find (\<lambda>a. inode_key s a = (sb, ino)) (nodes T)")
    case None
    then show ?thesis using that by (simp add: find_None_iff)
  next
    case (Some b)
    note b = * [OF this]
    have "a = b"
      using that b by (intro icache_key_inj [OF assms]) simp_all
    then show ?thesis using Some by simp
  qed
  with * show ?thesis unfolding inode_find_nodes [OF assms] by blast
qed

text \<open>What an allocator of inodes has to keep: it returns memory that no inode of the cache uses.\<close>

definition fresh_inode :: "'d fs_state \<Rightarrow> u64 ptree \<Rightarrow> u64 \<Rightarrow> 'd fs_state \<Rightarrow> bool" where
  "fresh_inode s T a s1 \<longleftrightarrow> a \<notin> set (nodes T) \<and> g_inode_tree s1 = g_inode_tree s \<and>
     (\<forall>x. x \<noteq> a \<longrightarrow> fs_inode s1 x = fs_inode s x)"

lemma iget_hit:
  assumes inv: "icache_inv s T" and a: "a \<in> set (nodes T)" "inode_key s a = (sb, ino)"
  obtains i where "fs_inode s a = Some i"
    and "iget env sb ino s = Some (Some a, s\<lparr>fs_inode := (fs_inode s)(a \<mapsto> i\<lparr>i_count := i_count i + 1\<rparr>)\<rparr>)"
    and "icache_inv (s\<lparr>fs_inode := (fs_inode s)(a \<mapsto> i\<lparr>i_count := i_count i + 1\<rparr>)\<rparr>) T"
    and "inode_key (s\<lparr>fs_inode := (fs_inode s)(a \<mapsto> i\<lparr>i_count := i_count i + 1\<rparr>)\<rparr>) = inode_key s"
proof -
  obtain i where i: "fs_inode s a = Some i" using inv a(1) by (auto simp: icache_inv_def)
  let ?s = "s\<lparr>fs_inode := (fs_inode s)(a \<mapsto> i\<lparr>i_count := i_count i + 1\<rparr>)\<rparr>"
  have k: "inode_key ?s = inode_key s" using i by (auto simp: inode_key_def)
  have "inode_find s sb ino = Some (Some a)" using inode_find_iff [OF inv] a by simp
  then have "iget env sb ino s = Some (Some a, ?s)" using i by (simp add: iget_def upd_inode_def)
  moreover have "icache_inv ?s T" using inv unfolding icache_inv_def k by auto
  ultimately show ?thesis using that i k by blast
qed

lemma iget_miss:
  assumes inv: "icache_inv s T" and new: "\<forall>x\<in>set (nodes T). inode_key s x \<noteq> (sb, ino)"
    and b: "fs_sb s sb = Some b" and al: "inode_memory env b sb s = Some (Some a, s1)" and fr: "fresh_inode s T a s1"
  obtains s' T' where "iget env sb ino s = Some (Some a, s')" and "icache_inv s' T'"
    and "set (nodes T') = insert a (set (nodes T))" and "\<forall>x. x \<noteq> a \<longrightarrow> fs_inode s' x = fs_inode s x"
    and "fs_inode s' a = Some (zero_inode\<lparr>i_sb := sb, i_count := 1, en_ino := ino\<rparr>)"
proof -
  let ?i = "zero_inode\<lparr>i_sb := sb, i_count := 1, en_ino := ino\<rparr>"
  define s2 where "s2 = s1\<lparr>fs_inode := (fs_inode s1)(a \<mapsto> ?i), g_inode_tree := upd_node (g_inode_tree s) a (\<lambda>_. zero_node)\<rparr>"
  have a: "a \<notin> set (nodes T)" and t1: "g_inode_tree s1 = g_inode_tree s" and oth: "\<And>x. x \<noteq> a \<Longrightarrow> fs_inode s1 x = fs_inode s x"
    using fr by (auto simp: fresh_inode_def)
  have keys: "inode_key s2 a = (sb, ino)" "x \<noteq> a \<Longrightarrow> inode_key s2 x = inode_key s x" for x
    using oth by (simp_all add: s2_def inode_key_def zero_inode_def)
  have km: "map (inode_key s2) (nodes T) = map (inode_key s) (nodes T)"
    by (rule map_cong [OF refl]) (metis a keys(2))
  have "holds (g_inode_tree s2) T"
    using inv a by (simp add: icache_inv_def holds_def s2_def upd_node_def)
  moreover have "sorted (map (inode_key s2) (nodes T))"
    unfolding km using inv strict_sorted_imp_sorted by (auto simp: icache_inv_def)
  ultimately obtain t' T' xs ys where ins: "rb_insert (inode_cmp s2) (g_inode_tree s2) a = Some t'" "holds t' T'" "rb_valid T'"
    "nodes T = xs @ ys" "nodes T' = xs @ a # ys"
    and lo: "\<forall>x\<in>set xs. inode_key s2 x \<le> inode_key s2 a" and hi: "\<forall>y\<in>set ys. inode_key s2 a < inode_key s2 y"
    using itree.insert_holds [of "g_inode_tree s2" T s2 a] inv a by (auto simp: icache_inv_def)
  have "inode_find s sb ino = Some None"
    using inode_find_nodes [OF inv] new by (simp add: find_None_iff)
  moreover have up: "upd_inode a (\<lambda>i. i\<lparr>en_ino := ino\<rparr>) (s1\<lparr>fs_inode := (fs_inode s1)(a \<mapsto> zero_inode\<lparr>i_sb := sb, i_count := 1\<rparr>),
      g_inode_tree := upd_node (g_inode_tree s1) a (\<lambda>_. zero_node)\<rparr>) = Some s2"
    by (simp add: upd_inode_def s2_def t1 zero_inode_def)
  ultimately have ig: "iget env sb ino s = Some (Some a, s2\<lparr>g_inode_tree := t'\<rparr>)"
    using b al ins(1) up by (simp add: iget_def new_inode_def insert_inode_hash_def)
  have lo': "\<forall>x\<in>set xs. inode_key s2 x < inode_key s2 a"
    using lo new keys a ins(4) by (metis Un_iff order_le_less set_append)
  have ks: "inode_key (s2\<lparr>g_inode_tree := t'\<rparr>) = inode_key s2" by (simp add: inode_key_def fun_eq_iff)
  have "sorted_wrt (<) (map (inode_key s2) (nodes T))" unfolding km using inv by (simp add: icache_inv_def)
  then have "sorted_wrt (<) (map (inode_key s2) (nodes T'))"
    using lo' hi unfolding ins(4,5) by (auto simp: sorted_wrt_append)
  moreover have "set (nodes T') \<subseteq> dom (fs_inode s2)"
    using inv ins(4,5) oth a by (auto simp: icache_inv_def s2_def)
  ultimately have "icache_inv (s2\<lparr>g_inode_tree := t'\<rparr>) T'"
    using ins(2,3) unfolding icache_inv_def ks by simp
  then show ?thesis
    using ig ins(4,5) oth by (intro that [of "s2\<lparr>g_inode_tree := t'\<rparr>" T']) (simp_all add: s2_def)
qed

lemma inode_find_eqI:
  assumes "icache_inv s T" and "icache_inv s' T'"
    and "\<And>a. a \<in> set (nodes T') \<and> inode_key s' a = (sb, ino) \<longleftrightarrow> a \<in> set (nodes T) \<and> inode_key s a = (sb, ino)"
  shows "inode_find s' sb ino = inode_find s sb ino"
proof -
  obtain r r' where "inode_find s sb ino = Some r" "inode_find s' sb ino = Some r'"
    using inode_find_nodes [OF assms(1)] inode_find_nodes [OF assms(2)] by simp
  moreover have "inode_find s' sb ino = Some (Some a) \<longleftrightarrow> inode_find s sb ino = Some (Some a)" for a
    by (simp only: inode_find_iff [OF assms(1)] inode_find_iff [OF assms(2)] assms(3))
  then have "r' = Some a \<longleftrightarrow> r = Some a" for a
    using calculation by simp
  then have "r' = r" by (cases r; cases r') auto
  ultimately show ?thesis by simp
qed

text \<open>
  (C12) The inode cache is a finite map from super block and inode number to inodes. \<open>iget\<close> always
  returns: an inode that is cached is returned with one more reference; otherwise a cleared inode with
  these numbers and one reference is entered, unless there is no memory. Afterwards the inode is found
  under its numbers, every other lookup is as before, and the tree is a red-black tree in order. The
  allocator of inodes is that of the file system; all that is used of it is that the memory it returns
  is not an inode of the cache.
\<close>

theorem iget_correct:
  assumes inv: "icache_inv s T" and b: "fs_sb s sb = Some b" and al: "inode_memory env b sb s = Some (p, s1)"
    and fresh: "\<And>a. p = Some a \<Longrightarrow> fresh_inode s T a s1"
  shows "case inode_find s sb ino of
      Some (Some a) \<Rightarrow> \<exists>i s'. fs_inode s a = Some i \<and> iget env sb ino s = Some (Some a, s') \<and>
        icache_inv s' T \<and> fs_inode s' = (fs_inode s)(a \<mapsto> i\<lparr>i_count := i_count i + 1\<rparr>) \<and>
        inode_find s' = inode_find s
    | Some None \<Rightarrow>
        if p = None then iget env sb ino s = Some (None, s1)
        else \<exists>a s' T'. p = Some a \<and> iget env sb ino s = Some (Some a, s') \<and> icache_inv s' T' \<and>
          fs_inode s' = (fs_inode s)(a \<mapsto> zero_inode\<lparr>i_sb := sb, i_count := 1, en_ino := ino\<rparr>) \<and>
          inode_find s' sb ino = Some (Some a) \<and>
          (\<forall>sb' ino'. (sb', ino') \<noteq> (sb, ino) \<longrightarrow> inode_find s' sb' ino' = inode_find s sb' ino')
    | None \<Rightarrow> False"
proof -
  obtain r where r: "inode_find s sb ino = Some r" using inode_find_nodes [OF inv] by simp
  show ?thesis
  proof (cases r)
    case (Some a)
    then have a: "a \<in> set (nodes T)" "inode_key s a = (sb, ino)" using inode_find_iff [OF inv] r by auto
    obtain i where i: "fs_inode s a = Some i" "iget env sb ino s = Some (Some a, s\<lparr>fs_inode := (fs_inode s)(a \<mapsto> i\<lparr>i_count := i_count i + 1\<rparr>)\<rparr>)"
      and inv': "icache_inv (s\<lparr>fs_inode := (fs_inode s)(a \<mapsto> i\<lparr>i_count := i_count i + 1\<rparr>)\<rparr>) T"
      and k: "inode_key (s\<lparr>fs_inode := (fs_inode s)(a \<mapsto> i\<lparr>i_count := i_count i + 1\<rparr>)\<rparr>) = inode_key s"
      by (rule iget_hit [OF inv a])
    have "inode_find (s\<lparr>fs_inode := (fs_inode s)(a \<mapsto> i\<lparr>i_count := i_count i + 1\<rparr>)\<rparr>) = inode_find s"
      by (intro ext inode_find_eqI [OF inv inv']) (simp add: k)
    with i inv' show ?thesis unfolding r Some by auto
  next
    case None
    then have new: "\<forall>x\<in>set (nodes T). inode_key s x \<noteq> (sb, ino)"
      using r inode_find_nodes [OF inv] by (simp add: find_None_iff)
    show ?thesis
    proof (cases p)
      case None
      then show ?thesis using r \<open>r = None\<close> al b by (simp add: iget_def new_inode_def)
    next
      case p: (Some a)
      obtain s' T' where ig: "iget env sb ino s = Some (Some a, s')" "icache_inv s' T'"
        "set (nodes T') = insert a (set (nodes T))" "\<forall>x. x \<noteq> a \<longrightarrow> fs_inode s' x = fs_inode s x"
        "fs_inode s' a = Some (zero_inode\<lparr>i_sb := sb, i_count := 1, en_ino := ino\<rparr>)"
        using al p by (auto intro: iget_miss [OF inv new b _ fresh])
      have k: "inode_key s' a = (sb, ino)" "x \<noteq> a \<Longrightarrow> inode_key s' x = inode_key s x" for x
        using ig(4,5) by (simp_all add: inode_key_def zero_inode_def)
      have na: "a \<notin> set (nodes T)" using fresh p by (simp add: fresh_inode_def)
      have "inode_find s' sb' ino' = inode_find s sb' ino'" if "(sb', ino') \<noteq> (sb, ino)" for sb' ino'
        by (rule inode_find_eqI [OF inv ig(2)]) (metis ig(3) insert_iff k na that)
      moreover have "inode_find s' sb ino = Some (Some a)"
        using inode_find_iff [OF ig(2)] ig(3) k(1) by simp
      moreover have "fs_inode s' = (fs_inode s)(a \<mapsto> zero_inode\<lparr>i_sb := sb, i_count := 1, en_ino := ino\<rparr>)"
        using ig(4,5) by auto
      ultimately show ?thesis using r \<open>r = None\<close> ig(1,2) p by auto
    qed
  qed
qed

text \<open>An empty cache, whose file system has its own allocator.\<close>

definition bump_env :: "'d vfs_env" where
  "bump_env = \<lparr>ve_iop = (\<lambda>_. \<lparr>io_lookup = None, io_create = None, io_mkdir = None, io_unlink = None, io_rmdir = None\<rparr>),
     ve_fop = (\<lambda>_. \<lparr>fo_open = None, fo_release = None, fo_read = None, fo_write = None, fo_llseek = None,
       fo_iterate = None, fo_ioctl = None, fo_mmap = None\<rparr>),
     ve_sop = (\<lambda>_. \<lparr>so_alloc_inode = Some (\<lambda>_ s. Some (Some (if fs_inode s 64 = None then 64 else 128), s)),
       so_destroy_inode = None, so_write_inode = None\<rparr>),
     ve_fst = (\<lambda>_. \<lparr>ft_name = None, ft_mount = None, ft_kill_sb = None\<rparr>)\<rparr>"

definition empty_icache :: "(bkey \<Rightarrow> bytes) fs_state" where
  "empty_icache = \<lparr>fs_blk = table_cache, fs_inode = Map.empty, fs_dentry = Map.empty,
     fs_sb = [1 \<mapsto> \<lparr>s_dev = 0, s_type = 0, s_root = None, s_bdev = None, s_blocksize = 0, s_blocksize_bits = 0,
       s_op = Some 0, s_fs_info = None, s_count = 1\<rparr>],
     fs_mnt = Map.empty, fs_file = Map.empty, fs_files = Map.empty, fs_context_of = Map.empty,
     g_inode_cache = None, g_dentry_cache = None, g_ext4_inode_cache = None,
     g_inode_tree = \<lparr>rb_root = None, rb_nd = (\<lambda>_. zero_node)\<rparr>, g_dirty_inodes = [], g_superblocks = [], g_mounts = [],
     g_fs_types = [], root_dentry = None, root_mnt = None, cur_files = None\<rparr>"

lemma empty_icache_ok: "icache_inv empty_icache Lf"
  by (simp add: icache_inv_def holds_def rb_valid_def empty_icache_def)

theorem iget_witness:
  "\<exists>s' T'. iget bump_env 1 7 empty_icache = Some (Some 64, s') \<and> icache_inv s' T' \<and>
     fs_inode s' = [64 \<mapsto> zero_inode\<lparr>i_sb := 1, i_count := 1, en_ino := 7\<rparr>] \<and> inode_find s' 1 7 = Some (Some 64)"
proof -
  let ?b = "\<lparr>s_dev = 0, s_type = 0, s_root = None, s_bdev = None, s_blocksize = 0, s_blocksize_bits = 0,
       s_op = Some 0, s_fs_info = None, s_count = 1\<rparr>"
  have "inode_memory bump_env ?b 1 empty_icache = Some (Some 64, empty_icache)"
    by (simp add: inode_memory_def bump_env_def empty_icache_def)
  moreover have "fresh_inode empty_icache Lf 64 empty_icache" by (simp add: fresh_inode_def)
  moreover have "fs_sb empty_icache 1 = Some ?b" by (simp add: empty_icache_def)
  moreover have "inode_find empty_icache 1 7 = Some None"
    using inode_find_nodes [OF empty_icache_ok] by simp
  moreover have "fs_inode empty_icache = Map.empty" by (simp add: empty_icache_def)
  ultimately show ?thesis
    using iget_correct [OF empty_icache_ok, of 1 ?b bump_env "Some 64" empty_icache 7] by auto
qed

end
