(* ===== verification/Namei.thy ===== *)
theory Namei
  imports Vfs
begin

text \<open>
  Path resolution (\<open>kernel/fs/service/namei.c\<close>) and mounts (\<open>mount.c\<close>). A walk holds one
  reference to the directory entry it has reached and passes it on. The results that the code stores
  through out pointers are returned; the callers always pass the address of a variable for them.
\<close>

section \<open>Lookup\<close>

text \<open>The inode of an entry; a negative entry has none, and following its null pointer is undefined.\<close>

definition inode_of :: "'d fs_state \<Rightarrow> u64 \<Rightarrow> (u64 \<times> inode) option" where
  "inode_of s dentry = do {
     d \<leftarrow> fs_dentry s dentry;
     a \<leftarrow> d_inode d;
     i \<leftarrow> fs_inode s a;
     Some (a, i) }"

definition lookup_one_len :: "'d vfs_env \<Rightarrow> cstr option \<Rightarrow> u64 option \<Rightarrow> nat \<Rightarrow> ('d, errno + u64 option) op" where
  "lookup_one_len env name base len s =
     (case (name, base) of
        (Some n, Some b) \<Rightarrow> do {
          let tmp = take (if NAME_FIELD \<le> len then NAME_FIELD - 1 else len) n;
          (r, s1) \<leftarrow> d_lookup (Some b) (Some tmp) s;
          (case r of
             Some d \<Rightarrow> Some (Inr (Some d), s1)
           | None \<Rightarrow> do {
               (p, s2) \<leftarrow> d_alloc (Some b) (Some tmp) s1;
               (case p of
                  None \<Rightarrow> Some (Inl ENOMEM, s2)
                | Some d \<Rightarrow> do {
                    bd \<leftarrow> fs_dentry s2 b;
                    (case d_inode bd of
                       None \<Rightarrow> Some (Inr (Some d), s2)
                     | Some ia \<Rightarrow> do {
                         i \<leftarrow> fs_inode s2 ia;
                         (case Option.bind (i_op i) (\<lambda>o'. io_lookup (ve_iop env o')) of
                            None \<Rightarrow> Some (Inr (Some d), s2)
                          | Some f \<Rightarrow> do {
                              (q, s3) \<leftarrow> f ia d s2;
                              (case q of
                                 Inl e \<Rightarrow> do { s4 \<leftarrow> dput env (Some d) s3; Some (Inl e, s4) }
                               | Inr found \<Rightarrow> do {
                                   s4 \<leftarrow> (if found \<noteq> Some d then dput env (Some d) s3 else Some s3);
                                   Some (Inr found, s4) }) }) }) }) }) }
      | _ \<Rightarrow> Some (Inl EINVAL, s))"

text \<open>A component is cut after 63 bytes; what follows is read as a component of its own.\<close>

definition path_comp :: "cstr \<Rightarrow> cstr" where
  "path_comp p = take (NAME_FIELD - 1) (takeWhile (\<lambda>c. c \<noteq> 47) p)"

definition path_rest :: "cstr \<Rightarrow> cstr" where
  "path_rest p = dropWhile (\<lambda>c. c = 47) (drop (length (path_comp p)) p)"

lemma path_rest_shorter [simp]: "p \<noteq> [] \<Longrightarrow> length (path_rest p) < length p"
proof (cases p)
  case (Cons c q)
  show ?thesis
  proof (cases "c = 47")
    case True
    then show ?thesis using Cons length_dropWhile_le [of _ q]
      by (simp add: path_rest_def path_comp_def less_Suc_eq_le)
  next
    case False
    then have "0 < length (path_comp p)" "0 < length p" using Cons by (simp_all add: path_comp_def NAME_FIELD_def)
    moreover have "length (path_rest p) \<le> length p - length (path_comp p)"
      using length_dropWhile_le [of "\<lambda>c. c = 47" "drop (length (path_comp p)) p"] by (simp add: path_rest_def)
    ultimately show ?thesis by linarith
  qed
qed simp

text \<open>The step \<open>..\<close>: out of the root of a mount first, then to the parent.\<close>

definition leave_mount :: "'d vfs_env \<Rightarrow> u64 \<Rightarrow> u64 \<Rightarrow> ('d, u64 \<times> u64) op" where
  "leave_mount env dentry mnt s = do {
     m \<leftarrow> fs_mnt s mnt;
     (if mnt_root m = Some dentry \<and> mnt_parent m \<noteq> None
      then do {
        pm \<leftarrow> mnt_parent m;
        s1 \<leftarrow> dget (mnt_mountpoint m) s;
        s2 \<leftarrow> dput env (Some dentry) s1;
        m' \<leftarrow> fs_mnt s2 mnt;
        d \<leftarrow> mnt_mountpoint m';
        Some ((d, pm), s2) }
      else Some ((dentry, mnt), s)) }"

definition step_up :: "'d vfs_env \<Rightarrow> u64 \<Rightarrow> u64 \<Rightarrow> ('d, u64 \<times> u64) op" where
  "step_up env dentry mnt s = do {
     ((d1, m1), s1) \<leftarrow> leave_mount env dentry mnt s;
     d \<leftarrow> fs_dentry s1 d1;
     (if d_parent d = d1 then Some ((d1, m1), s1)
      else do {
        s2 \<leftarrow> dget (Some (d_parent d)) s1;
        s3 \<leftarrow> dput env (Some d1) s2;
        Some ((d_parent d, m1), s3) }) }"

text \<open>A component that is a name: the child, or the root of what is mounted on it.\<close>

definition step_down :: "'d vfs_env \<Rightarrow> cstr \<Rightarrow> u64 \<Rightarrow> u64 \<Rightarrow> ('d, errno + u64 \<times> u64) op" where
  "step_down env cname dentry mnt s = do {
     (r, s1) \<leftarrow> lookup_one_len env (Some cname) (Some dentry) (length cname) s;
     (case r of
        Inl e \<Rightarrow> do { s2 \<leftarrow> dput env (Some dentry) s1; Some (Inl e, s2) }
      | Inr None \<Rightarrow> do { s2 \<leftarrow> dput env (Some dentry) s1; Some (Inl ENOENT, s2) }
      | Inr (Some nxt) \<Rightarrow> do {
          n \<leftarrow> fs_dentry s1 nxt;
          (case d_mounted n of
             None \<Rightarrow> do { s2 \<leftarrow> dput env (Some dentry) s1; Some (Inr (nxt, mnt), s2) }
           | Some sub \<Rightarrow> do {
               m \<leftarrow> fs_mnt s1 sub;
               s2 \<leftarrow> dget (mnt_root m) s1;
               s3 \<leftarrow> dput env (Some nxt) s2;
               s4 \<leftarrow> dput env (Some dentry) s3;
               m' \<leftarrow> fs_mnt s4 sub;
               d' \<leftarrow> mnt_root m';
               Some (Inr (d', sub), s4) }) }) }"

function walk :: "'d vfs_env \<Rightarrow> cstr \<Rightarrow> u64 \<Rightarrow> u64 \<Rightarrow> ('d, errno + u64 \<times> u64) op" where
  "walk env p dentry mnt s =
     (if p = [] then Some (Inr (dentry, mnt), s)
      else if path_comp p = [] then walk env (path_rest p) dentry mnt s
      else do {
        (_, i) \<leftarrow> inode_of s dentry;
        (if \<not> S_ISDIR (en_mode i) then do { s1 \<leftarrow> dput env (Some dentry) s; Some (Inl ENOTDIR, s1) }
         else if path_comp p = cstr_of ''.'' then walk env (path_rest p) dentry mnt s
         else if path_comp p = cstr_of ''..''
         then do { ((d, m), s1) \<leftarrow> step_up env dentry mnt s; walk env (path_rest p) d m s1 }
         else do {
           (r, s1) \<leftarrow> step_down env (path_comp p) dentry mnt s;
           (case r of Inl e \<Rightarrow> Some (Inl e, s1) | Inr (d, m) \<Rightarrow> walk env (path_rest p) d m s1) }) })"
  by pat_completeness auto
termination
  by (relation "measure (\<lambda>(_, p, _). length p)") auto

declare walk.simps [simp del]

definition path_start :: "cstr \<Rightarrow> 'd fs_state \<Rightarrow> (u64 option \<times> u64 option) option" where
  "path_start path s =
     (if path \<noteq> [] \<and> hd path = 47 then Some (root_dentry s, root_mnt s)
      else
        (case cur_files s of
           None \<Rightarrow> Some (root_dentry s, root_mnt s)
         | Some fl \<Rightarrow> do {
             f \<leftarrow> fs_files s fl;
             (case fs_ctx f of
                None \<Rightarrow> Some (root_dentry s, root_mnt s)
              | Some c \<Rightarrow> do {
                  x \<leftarrow> fs_context_of s c;
                  Some (if cwd_dentry x \<noteq> None then (cwd_dentry x, cwd_mnt x) else (root_dentry s, root_mnt s)) }) }))"

definition follow_path :: "'d vfs_env \<Rightarrow> cstr option \<Rightarrow> ('d, errno + u64 \<times> u64) op" where
  "follow_path env path s =
     (case path of
        None \<Rightarrow> Some (Inl EINVAL, s)
      | Some p \<Rightarrow> do {
          st \<leftarrow> path_start p s;
          (case st of
             (Some d, Some m) \<Rightarrow> do {
               s1 \<leftarrow> dget (Some d) s;
               walk env (dropWhile (\<lambda>c. c = 47) p) d m s1 }
           | _ \<Rightarrow> Some (Inl ENOENT, s)) })"

definition vfs_path_lookup :: "'d vfs_env \<Rightarrow> cstr option \<Rightarrow> ('d, errno + u64 \<times> u64) op" where
  "vfs_path_lookup env path = follow_path env path"

text \<open>The last component and the path before its slash, cut to the buffers.\<close>

definition split_last_component :: "cstr \<Rightarrow> nat \<Rightarrow> nat \<Rightarrow> errno + cstr \<times> cstr" where
  "split_last_component pathname parent_size name_size =
     (if 47 \<notin> set pathname then Inl EINVAL
      else
        let name = rev (takeWhile (\<lambda>c. c \<noteq> 47) (rev pathname));
            len = length pathname - length name - 1;
            len' = (if parent_size \<le> len then parent_size - 1 else len)
        in Inr (if len' = 0 then [47] else take len' pathname,
                take (if name_size \<le> length name then name_size - 1 else length name) name))"

definition PATH_BUF :: nat where "PATH_BUF = 256"

text \<open>The prefix that creation and removal share: the directory, its mount, and the last name.\<close>

definition lookup_parent :: "'d vfs_env \<Rightarrow> cstr \<Rightarrow> ('d, errno + (u64 \<times> u64) \<times> cstr) op" where
  "lookup_parent env pathname s =
     (case split_last_component pathname PATH_BUF NAME_FIELD of
        Inl e \<Rightarrow> Some (Inl e, s)
      | Inr (parent_path, name) \<Rightarrow> do {
          (r, s1) \<leftarrow> vfs_path_lookup env (Some parent_path) s;
          (case r of
             Inl e \<Rightarrow> Some (Inl e, s1)
           | Inr (d, m) \<Rightarrow> do {
               (_, i) \<leftarrow> inode_of s1 d;
               (if S_ISDIR (en_mode i) then Some (Inr ((d, m), name), s1)
                else do { s2 \<leftarrow> dput env (Some d) s1; Some (Inl ENOTDIR, s2) }) }) })"

text \<open>Finding the entry to remove, the operation, and giving both references back.\<close>

definition remove_at ::
  "'d vfs_env \<Rightarrow> cstr \<Rightarrow> (inode \<Rightarrow> errno option) \<Rightarrow> ('d inode_operations \<Rightarrow> (u64 \<Rightarrow> u64 \<Rightarrow> ('d, errno + unit) op) option) \<Rightarrow>
     ('d, errno + unit) op" where
  "remove_at env pathname check sel s = do {
     (r, s1) \<leftarrow> lookup_parent env pathname s;
     (case r of
        Inl e \<Rightarrow> Some (Inl e, s1)
      | Inr ((pd, _), name) \<Rightarrow> do {
          (q, s2) \<leftarrow> lookup_one_len env (Some name) (Some pd) (length name) s1;
          (case q of
             Inl e \<Rightarrow> do { s3 \<leftarrow> dput env (Some pd) s2; Some (Inl e, s3) }
           | Inr None \<Rightarrow> do { s3 \<leftarrow> dput env (Some pd) s2; Some (Inl ENOENT, s3) }
           | Inr (Some dentry) \<Rightarrow> do {
               d \<leftarrow> fs_dentry s2 dentry;
               (ret, s3) \<leftarrow>
                 (case d_inode d of
                    None \<Rightarrow> Some (Inl ENOENT, s2)
                  | Some ia \<Rightarrow> do {
                      i \<leftarrow> fs_inode s2 ia;
                      (case check i of
                         Some e \<Rightarrow> Some (Inl e, s2)
                       | None \<Rightarrow> do {
                           (pa, pi') \<leftarrow> inode_of s2 pd;
                           (case Option.bind (i_op pi') (\<lambda>o'. sel (ve_iop env o')) of
                              None \<Rightarrow> Some (Inl EPERM, s2)
                            | Some f \<Rightarrow> f pa dentry s2) }) });
               s4 \<leftarrow> dput env (Some dentry) s3;
               s5 \<leftarrow> dput env (Some pd) s4;
               Some (ret, s5) }) }) }"

definition vfs_do_unlink :: "'d vfs_env \<Rightarrow> cstr \<Rightarrow> ('d, errno + unit) op" where
  "vfs_do_unlink env pathname =
     remove_at env pathname (\<lambda>i. if S_ISDIR (en_mode i) then Some EISDIR else None) io_unlink"

definition vfs_do_rmdir :: "'d vfs_env \<Rightarrow> cstr \<Rightarrow> ('d, errno + unit) op" where
  "vfs_do_rmdir env pathname =
     remove_at env pathname (\<lambda>i. if \<not> S_ISDIR (en_mode i) then Some ENOTDIR else None) io_rmdir"

definition vfs_do_mkdir :: "'d vfs_env \<Rightarrow> cstr \<Rightarrow> u16 \<Rightarrow> ('d, errno + unit) op" where
  "vfs_do_mkdir env pathname mode s = do {
     (r, s1) \<leftarrow> lookup_parent env pathname s;
     (case r of
        Inl e \<Rightarrow> Some (Inl e, s1)
      | Inr ((pd, _), name) \<Rightarrow> do {
          (q, s2) \<leftarrow> d_alloc (Some pd) (Some name) s1;
          (case q of
             None \<Rightarrow> do { s3 \<leftarrow> dput env (Some pd) s2; Some (Inl ENOMEM, s3) }
           | Some dentry \<Rightarrow> do {
               (pa, pi') \<leftarrow> inode_of s2 pd;
               (ret, s3) \<leftarrow>
                 (case Option.bind (i_op pi') (\<lambda>o'. io_mkdir (ve_iop env o')) of
                    None \<Rightarrow> Some (Inl EPERM, s2)
                  | Some f \<Rightarrow> f pa dentry (mode OR S_IFDIR) s2);
               s4 \<leftarrow> dput env (Some dentry) s3;
               s5 \<leftarrow> dput env (Some pd) s4;
               Some (ret, s5) }) }) }"

section \<open>Mounts\<close>

definition kern_mount :: "'d vfs_env \<Rightarrow> u64 option \<Rightarrow> cstr \<Rightarrow> ('d, errno + u64) op" where
  "kern_mount env fs dev_name s =
     (case fs of
        None \<Rightarrow> Some (Inl EINVAL, s)
      | Some f \<Rightarrow> do {
          mnt \<leftarrow> ft_mount (ve_fst env f);
          (r, s1) \<leftarrow> mnt f dev_name s;
          (case r of
             None \<Rightarrow> Some (Inl EIO, s1)
           | Some sb \<Rightarrow> do {
               (p, s2) \<leftarrow> fs_kmalloc sizeof_vfsmount s1;
               (case p of
                  None \<Rightarrow> do {
                    kill \<leftarrow> ft_kill_sb (ve_fst env f);
                    (_, s3) \<leftarrow> kill sb s2;
                    Some (Inl ENOMEM, s3) }
                | Some a \<Rightarrow> do {
                    b \<leftarrow> fs_sb s2 sb;
                    let m = \<lparr>mnt_root = s_root b, mnt_sb = sb, mnt_mountpoint = None, mnt_parent = None, mnt_devname = []\<rparr>;
                    s3 \<leftarrow> dget (s_root b) (s2\<lparr>fs_mnt := (fs_mnt s2)(a \<mapsto> m)\<rparr>);
                    Some (Inr a, s3\<lparr>g_mounts := a # g_mounts s3\<rparr>) }) }) })"

definition upd_mnt :: "u64 \<Rightarrow> (vfsmount \<Rightarrow> vfsmount) \<Rightarrow> 'd fs_state \<Rightarrow> 'd fs_state option" where
  "upd_mnt a f s = map_option (\<lambda>m. s\<lparr>fs_mnt := (fs_mnt s)(a \<mapsto> f m)\<rparr>) (fs_mnt s a)"

text \<open>Taking a mount off the list and giving it back.\<close>

definition drop_mount :: "'d vfs_env \<Rightarrow> u64 \<Rightarrow> 'd fs_state \<Rightarrow> 'd fs_state option" where
  "drop_mount env a s = do {
     let s0 = s\<lparr>g_mounts := remove1 a (g_mounts s)\<rparr>;
     m \<leftarrow> fs_mnt s0 a;
     b \<leftarrow> fs_sb s0 (mnt_sb m);
     s1 \<leftarrow> (case ft_kill_sb (ve_fst env (s_type b)) of
              Some f \<Rightarrow> map_option snd (f (mnt_sb m) s0)
            | None \<Rightarrow> Some s0);
     m1 \<leftarrow> fs_mnt s1 a;
     s2 \<leftarrow> dput env (mnt_root m1) s1;
     s3 \<leftarrow> fs_kfree a s2;
     Some (s3\<lparr>fs_mnt := (fs_mnt s3)(a := None)\<rparr>) }"

definition vfs_do_mount :: "'d vfs_env \<Rightarrow> cstr \<Rightarrow> cstr \<Rightarrow> cstr \<Rightarrow> ('d, errno + unit) op" where
  "vfs_do_mount env dev_name fs_name dir_name s =
     (case get_fs_type env s fs_name of
        None \<Rightarrow> Some (Inl ENODEV, s)
      | Some fs \<Rightarrow> do {
          (r, s1) \<leftarrow> kern_mount env (Some fs) dev_name s;
          (case r of
             Inl e \<Rightarrow> Some (Inl e, s1)
           | Inr a \<Rightarrow> do {
               s2 \<leftarrow> upd_mnt a (\<lambda>m. m\<lparr>mnt_devname := take (NAME_FIELD - 1) dev_name\<rparr>) s1;
               (if dir_name = cstr_of ''/''
                then do {
                  m \<leftarrow> fs_mnt s2 a;
                  s3 \<leftarrow> upd_mnt a (\<lambda>m. m\<lparr>mnt_mountpoint := mnt_root m, mnt_parent := None\<rparr>) s2;
                  s4 \<leftarrow> dget (mnt_root m) s3;
                  Some (Inr (), s4\<lparr>root_mnt := Some a, root_dentry := mnt_root m\<rparr>) }
                else do {
                  (q, s3) \<leftarrow> vfs_path_lookup env (Some dir_name) s2;
                  (case q of
                     Inl e \<Rightarrow> do { s4 \<leftarrow> drop_mount env a s3; Some (Inl e, s4) }
                   | Inr (d, pm) \<Rightarrow> do {
                       x \<leftarrow> fs_dentry s3 d;
                       dir \<leftarrow> (case d_inode x of
                                None \<Rightarrow> Some False
                              | Some ia \<Rightarrow> map_option (\<lambda>i. S_ISDIR (en_mode i)) (fs_inode s3 ia));
                       (if \<not> dir \<or> d_mounted x \<noteq> None
                        then do {
                          s4 \<leftarrow> dput env (Some d) s3;
                          s5 \<leftarrow> drop_mount env a s4;
                          Some (Inl (if \<not> dir then ENOTDIR else EBUSY), s5) }
                        else do {
                          s4 \<leftarrow> upd_mnt a (\<lambda>m. m\<lparr>mnt_mountpoint := Some d, mnt_parent := Some pm\<rparr>) s3;
                          s5 \<leftarrow> dget (Some d) s4;
                          s6 \<leftarrow> upd_dentry d (\<lambda>x. x\<lparr>d_mounted := Some a\<rparr>) s5;
                          s7 \<leftarrow> dput env (Some d) s6;
                          Some (Inr (), s7) }) }) }) }) })"

fun find_mount :: "'d fs_state \<Rightarrow> u64 list \<Rightarrow> cstr \<Rightarrow> u64 option option" where
  "find_mount s [] dir_name = Some None"
| "find_mount s (a # as) dir_name = do {
     m \<leftarrow> fs_mnt s a;
     (if (root_mnt s = Some a \<and> dir_name = cstr_of ''/'') \<or> mnt_devname m = dir_name
      then Some (Some a) else find_mount s as dir_name) }"

definition vfs_do_umount :: "'d vfs_env \<Rightarrow> cstr \<Rightarrow> ('d, errno + unit) op" where
  "vfs_do_umount env dir_name s = do {
     r \<leftarrow> find_mount s (g_mounts s) dir_name;
     (case r of
        None \<Rightarrow> Some (Inl EINVAL, s)
      | Some a \<Rightarrow> do {
          let s1 = (if root_mnt s = Some a then s\<lparr>root_mnt := None, root_dentry := None\<rparr> else s);
          s2 \<leftarrow> drop_mount env a s1;
          Some (Inr (), s2) }) }"

section \<open>Walking a cached path\<close>

text \<open>The components of a path: the non-empty words between slashes.\<close>

fun words :: "cstr \<Rightarrow> cstr \<Rightarrow> cstr list" where
  "words w [] = (if w = [] then [] else [w])"
| "words w (c # cs) = (if c = 47 then (if w = [] then [] else [w]) @ words [] cs else words (w @ [c]) cs)"

definition components :: "cstr \<Rightarrow> cstr list" where
  "components p = words [] p"

lemma words_rest: "w \<noteq> [] \<Longrightarrow> words w p = (w @ takeWhile (\<lambda>c. c \<noteq> 47) p) # words [] (dropWhile (\<lambda>c. c \<noteq> 47) p)"
  by (induction p arbitrary: w) auto

lemma words_slashes: "words [] (dropWhile (\<lambda>c. c = 47) p) = words [] p"
  by (induction p) auto

lemma drop_takeWhile: "drop (length (takeWhile P xs)) xs = dropWhile P xs"
  by (induction xs) auto

lemma first_component:
  assumes "takeWhile (\<lambda>c. c \<noteq> 47) p \<noteq> []"
  shows "takeWhile (\<lambda>c. c \<noteq> 47) p \<in> set (components p)"
proof (cases p)
  case (Cons c q)
  then have "c \<noteq> 47" using assms by (simp split: if_splits)
  then show ?thesis using Cons by (simp add: components_def words_rest)
qed (use assms in simp)

lemma components_step:
  assumes "p \<noteq> []" and "length (takeWhile (\<lambda>c. c \<noteq> 47) p) < NAME_FIELD"
  shows "components p = (if path_comp p = [] then [] else [path_comp p]) @ components (path_rest p)"
proof (cases p)
  case (Cons c q)
  have pc: "path_comp p = takeWhile (\<lambda>c. c \<noteq> 47) p"
    using assms(2) by (simp add: path_comp_def NAME_FIELD_def)
  then have "components (path_rest p) = words [] (dropWhile (\<lambda>c. c \<noteq> 47) p)"
    by (simp add: components_def path_rest_def words_slashes drop_takeWhile)
  with pc Cons show ?thesis by (simp add: components_def words_rest)
qed (use assms in simp)

text \<open>
  Resolution without reference counts: what a component names from a directory of a mount. \<open>None\<close>
  means that a name is not in the cache.
\<close>

definition resolve_up :: "'d fs_state \<Rightarrow> u64 \<times> u64 \<Rightarrow> (u64 \<times> u64) option" where
  "resolve_up s x = do {
     m \<leftarrow> fs_mnt s (snd x);
     (d, m') \<leftarrow> (if mnt_root m = Some (fst x) \<and> mnt_parent m \<noteq> None
                 then do { pm \<leftarrow> mnt_parent m; d' \<leftarrow> mnt_mountpoint m; Some (d', pm) } else Some x);
     e \<leftarrow> fs_dentry s d;
     _ \<leftarrow> fs_dentry s (d_parent e);
     Some (d_parent e, m') }"

definition resolve_down :: "'d fs_state \<Rightarrow> cstr \<Rightarrow> u64 \<times> u64 \<Rightarrow> (u64 \<times> u64) option" where
  "resolve_down s c x = do {
     e \<leftarrow> fs_dentry s (fst x);
     r \<leftarrow> find_child s (d_subdirs e) c;
     y \<leftarrow> r;
     n \<leftarrow> fs_dentry s y;
     (case d_mounted n of
        None \<Rightarrow> Some (y, snd x)
      | Some sub \<Rightarrow> do { m \<leftarrow> fs_mnt s sub; d \<leftarrow> mnt_root m; _ \<leftarrow> fs_dentry s d; Some (d, sub) }) }"

definition resolve_step :: "'d fs_state \<Rightarrow> cstr \<Rightarrow> u64 \<times> u64 \<Rightarrow> (u64 \<times> u64) option" where
  "resolve_step s c x =
     (if c = cstr_of ''.'' then Some x else if c = cstr_of ''..'' then resolve_up s x else resolve_down s c x)"

fun resolve :: "'d fs_state \<Rightarrow> cstr list \<Rightarrow> u64 \<times> u64 \<Rightarrow> (errno + u64 \<times> u64) option" where
  "resolve s [] x = Some (Inr x)"
| "resolve s (c # cs) x = do {
     (_, i) \<leftarrow> inode_of s (fst x);
     (if \<not> S_ISDIR (en_mode i) then Some (Inl ENOTDIR)
      else do {
        y \<leftarrow> resolve_step s c x;
        resolve s cs y }) }"

text \<open>Every entry in the cache is referenced: an entry whose count drops to zero is freed at once.\<close>

definition dcache_live :: "'d fs_state \<Rightarrow> bool" where
  "dcache_live s \<longleftrightarrow> (\<forall>a d. fs_dentry s a = Some d \<longrightarrow> 1 \<le> d_count d)"

definition inc :: "u64 \<Rightarrow> 'd fs_state \<Rightarrow> 'd fs_state" where
  "inc a s = s\<lparr>fs_dentry := (fs_dentry s)(a := map_option (\<lambda>d. d\<lparr>d_count := d_count d + 1\<rparr>) (fs_dentry s a))\<rparr>"

lemma inc_fields [simp]:
  "fs_inode (inc a s) = fs_inode s" "fs_mnt (inc a s) = fs_mnt s" "fs_blk (inc a s) = fs_blk s"
  by (simp_all add: inc_def)

lemma inc_dentry: "fs_dentry (inc a s) x = map_option (\<lambda>d. if x = a then d\<lparr>d_count := d_count d + 1\<rparr> else d) (fs_dentry s x)"
  by (cases "fs_dentry s x") (auto simp: inc_def)

lemma inc_commute: "inc a (inc b s) = inc b (inc a s)"
  by (cases "a = b") (simp_all add: inc_def fun_upd_twist)

lemma dget_inc: "fs_dentry s a = Some d \<Longrightarrow> dget (Some a) s = Some (inc a s)"
  by (simp add: dget_def upd_dentry_def inc_def)

lemma dput_inc:
  assumes "fs_dentry s a = Some d" and "1 \<le> d_count d"
  shows "dput env (Some a) (inc a s) = Some s"
proof -
  have "(inc a s)\<lparr>fs_dentry := (fs_dentry (inc a s))(a \<mapsto> d)\<rparr> = s"
    using assms(1) by (simp add: inc_def fun_upd_idem)
  then show ?thesis
    using assms by (simp add: dput_def upd_dentry_def inc_dentry)
qed

lemma inode_of_inc [simp]: "inode_of (inc a s) x = inode_of s x"
  by (auto simp: inode_of_def inc_dentry split: bind_splits)

lemma find_child_inc [simp]: "find_child (inc a s) cs n = find_child s cs n"
  by (induction cs) (auto simp: inc_dentry split: bind_splits)

lemma dcache_live_inc: "dcache_live s \<Longrightarrow> dcache_live (inc a s)"
  by (fastforce simp: dcache_live_def inc_dentry)

lemma dcache_liveD: "dcache_live s \<Longrightarrow> fs_dentry s a = Some d \<Longrightarrow> 1 \<le> d_count d"
  by (simp add: dcache_live_def)

text \<open>Passing the reference on: take the next entry, then give the current one back.\<close>

lemma dget_other: "fs_dentry s b = Some e \<Longrightarrow> dget (Some b) (inc a s) = Some (inc b (inc a s))"
  by (rule dget_inc) (simp add: inc_dentry)

lemma dput_other:
  assumes "dcache_live s" and "fs_dentry s a = Some d"
  shows "dput env (Some a) (inc b (inc a s)) = Some (inc b s)"
  unfolding inc_commute [of b]
proof (rule dput_inc)
  show "fs_dentry (inc b s) a = Some (if a = b then d\<lparr>d_count := d_count d + 1\<rparr> else d)"
    using assms(2) by (simp add: inc_dentry)
  show "1 \<le> d_count (if a = b then d\<lparr>d_count := d_count d + 1\<rparr> else d)"
    using dcache_liveD [OF assms] by simp
qed

lemma step_up_held:
  assumes live: "dcache_live s" and d: "fs_dentry s d = Some e" and r: "resolve_up s (d, m) = Some (d', m')"
  shows "step_up env d m (inc d s) = Some ((d', m'), inc d' s)"
proof -
  obtain mm where mm: "fs_mnt s m = Some mm" using r by (auto simp: resolve_up_def split: bind_splits)
  obtain d1 m1 e1 where x: "(if mnt_root mm = Some d \<and> mnt_parent mm \<noteq> None
      then do { pm \<leftarrow> mnt_parent mm; x \<leftarrow> mnt_mountpoint mm; Some (x, pm) } else Some (d, m)) = Some (d1, m1)"
    and e1: "fs_dentry s d1 = Some e1" "d' = d_parent e1" "m' = m1" "fs_dentry s d' \<noteq> None"
    using r mm by (auto simp: resolve_up_def split: bind_splits)
  have out: "leave_mount env d m (inc d s) = Some ((d1, m1), inc d1 s)"
    using x mm e1(1) by (auto simp: leave_mount_def dget_other dput_other [OF live d] split: bind_splits if_splits)
  obtain p where p: "fs_dentry s (d_parent e1) = Some p" using e1 by auto
  have "fs_dentry (inc d1 s) d1 = Some (e1\<lparr>d_count := d_count e1 + 1\<rparr>)"
    using e1(1) by (simp add: inc_dentry)
  then show ?thesis
    using e1(2,3) by (simp add: step_up_def out dget_other [OF p] dput_other [OF live e1(1)])
qed

lemma step_down_held:
  assumes live: "dcache_live s" and d: "fs_dentry s d = Some e" and r: "resolve_down s c (d, m) = Some (d', m')"
    and c: "length c < NAME_FIELD"
  shows "step_down env c d m (inc d s) = Some (Inr (d', m'), inc d' s)"
proof -
  obtain y n where y: "find_child s (d_subdirs e) c = Some (Some y)" and n: "fs_dentry s y = Some n"
    and rest: "(case d_mounted n of None \<Rightarrow> Some (y, m)
      | Some sub \<Rightarrow> do { mm \<leftarrow> fs_mnt s sub; d \<leftarrow> mnt_root mm; _ \<leftarrow> fs_dentry s d; Some (d, sub) }) = Some (d', m')"
    using r d unfolding resolve_down_def fst_conv snd_conv by (auto split: bind_splits)
  have "d_lookup (Some d) (Some c) (inc d s) = Some (Some y, inc y (inc d s))"
    using d n y by (simp add: d_lookup_def inc_dentry upd_dentry_def) (auto simp: inc_def)
  then have lk: "lookup_one_len env (Some c) (Some d) (length c) (inc d s) = Some (Inr (Some y), inc y (inc d s))"
    using c by (simp add: lookup_one_len_def)
  have ny: "fs_dentry (inc y (inc d s)) y = Some (n\<lparr>d_count := d_count n + 1 + (if y = d then 1 else 0)\<rparr>)"
    using n by (simp add: inc_dentry)
  show ?thesis
  proof (cases "d_mounted n")
    case None
    then show ?thesis using rest ny
      by (simp add: step_down_def lk dput_other [OF live d])
  next
    case (Some sub)
    then obtain mm q where mm: "fs_mnt s sub = Some mm" "mnt_root mm = Some d'" "fs_dentry s d' = Some q" "m' = sub"
      using rest by (auto split: bind_splits)
    have "fs_dentry (inc d s) y = Some (n\<lparr>d_count := d_count n + (if y = d then 1 else 0)\<rparr>)"
      using n by (simp add: inc_dentry)
    from dput_other [OF dcache_live_inc [OF live] this, of env d']
    have "dput env (Some y) (inc d' (inc y (inc d s))) = Some (inc d' (inc d s))" .
    moreover have "dget (Some d') (inc y (inc d s)) = Some (inc d' (inc y (inc d s)))"
      by (rule dget_inc [where d = "q\<lparr>d_count := d_count q + (if d' = d then 1 else 0) + (if d' = y then 1 else 0)\<rparr>"])
        (use mm in \<open>simp add: inc_dentry\<close>)
    ultimately show ?thesis
      using Some ny mm by (simp add: step_down_def lk dput_other [OF live d])
  qed
qed


lemma resolve_up_live: "resolve_up s x = Some y \<Longrightarrow> \<exists>e. fs_dentry s (fst y) = Some e"
  by (auto simp: resolve_up_def split: bind_splits)

lemma resolve_down_live: "resolve_down s c x = Some y \<Longrightarrow> \<exists>e. fs_dentry s (fst y) = Some e"
  by (auto simp: resolve_down_def split: bind_splits option.splits)

lemma resolve_step_live:
  assumes "resolve_step s c x = Some y" and "fs_dentry s (fst x) = Some e"
  shows "\<exists>e. fs_dentry s (fst y) = Some e"
  using assms resolve_up_live [of s x y] resolve_down_live [of s c x y] by (auto simp: resolve_step_def split: if_splits)

lemma walk_one:
  assumes live: "dcache_live s" and d: "fs_dentry s d = Some e" and p: "p \<noteq> []" "path_comp p \<noteq> []"
    and dir: "inode_of s d = Some (a, i)" "S_ISDIR (en_mode i)"
    and r: "resolve_step s (path_comp p) (d, m) = Some (d', m')"
  shows "walk env p d m (inc d s) = walk env (path_rest p) d' m' (inc d' s)"
proof -
  have lc: "length (path_comp p) < NAME_FIELD" by (simp add: path_comp_def NAME_FIELD_def)
  consider "path_comp p = cstr_of ''.''" "d' = d" "m' = m"
    | "path_comp p \<noteq> cstr_of ''.''" "path_comp p = cstr_of ''..''" "step_up env d m (inc d s) = Some ((d', m'), inc d' s)"
    | "path_comp p \<noteq> cstr_of ''.''" "path_comp p \<noteq> cstr_of ''..''"
      "step_down env (path_comp p) d m (inc d s) = Some (Inr (d', m'), inc d' s)"
    using r step_up_held [OF live d, of m d' m' env] step_down_held [OF live d _ lc, of m d' m' env]
    unfolding resolve_step_def by (cases "path_comp p = cstr_of ''.''"; cases "path_comp p = cstr_of ''..''") simp_all
  then show ?thesis
    by cases (subst walk.simps, use p dir in simp)+
qed

lemma walk_held:
  assumes "dcache_live s" and "fs_dentry s d = Some e" and "\<forall>c\<in>set (components p). length c < NAME_FIELD"
    and "resolve s (components p) (d, m) = Some r"
  shows "walk env p d m (inc d s) =
    Some (case r of Inl err \<Rightarrow> (Inl err, s) | Inr x \<Rightarrow> (Inr x, inc (fst x) s))"
  using assms(2-)
proof (induction "length p" arbitrary: p d m e rule: less_induct)
  case less
  note live = assms(1)
  show ?case
  proof (cases "p = []")
    case True
    then show ?thesis using less.prems(3) by (auto simp: walk.simps components_def)
  next
    case p: False
    have tk: "length (takeWhile (\<lambda>c. c \<noteq> 47) p) < NAME_FIELD"
      using first_component [of p] less.prems(2)
      by (cases "takeWhile (\<lambda>c. c \<noteq> 47) p = []") (simp add: NAME_FIELD_def, blast)
    note cs = components_step [OF p tk]
    have IH: "walk env (path_rest p) d' m' (inc d' s) =
        Some (case r of Inl err \<Rightarrow> (Inl err, s) | Inr x \<Rightarrow> (Inr x, inc (fst x) s))"
      if "fs_dentry s d' = Some e'" "resolve s (components (path_rest p)) (d', m') = Some r" for d' m' e'
      using that less.hyps [of "path_rest p" d' e' m'] less.prems(2) p cs by simp
    show ?thesis
    proof (cases "path_comp p = []")
      case True
      then show ?thesis using IH [OF less.prems(1)] less.prems(3) cs p by (subst walk.simps) simp
    next
      case pc: False
      then have res: "resolve s (path_comp p # components (path_rest p)) (d, m) = Some r"
        using less.prems(3) cs by simp
      then obtain a i where i: "inode_of s d = Some (a, i)" by (auto split: bind_splits)
      show ?thesis
      proof (cases "S_ISDIR (en_mode i)")
        case False
        have "dput env (Some d) (inc d s) = Some s"
          by (rule dput_inc [OF less.prems(1) dcache_liveD [OF live less.prems(1)]])
        then show ?thesis using False res p pc i by (subst walk.simps) auto
      next
        case dir: True
        then obtain y where y: "resolve_step s (path_comp p) (d, m) = Some y" "resolve s (components (path_rest p)) y = Some r"
          using res i by (auto split: bind_splits)
        obtain e' where "fs_dentry s (fst y) = Some e'"
          using resolve_step_live [OF y(1)] less.prems(1) by auto
        from IH [OF this, of "snd y"] y walk_one [OF live less.prems(1) p pc i dir, of m "fst y" "snd y" env] show ?thesis
          by simp
      qed
    qed
  qed
qed

text \<open>
  (C11) Looking up a path whose components are all in the directory cache gives what resolving the
  components one by one names: \<open>.\<close>, \<open>..\<close> (out of a mounted file system at its root), a child, or the
  root of the file system mounted on it; a component of something that is not a directory gives
  \<open>ENOTDIR\<close>. The lookup returns, uses no freed entry, and is balanced: on success exactly the entry
  it returns has one reference more, on failure nothing has changed. Components of 64 bytes and more
  are excluded, since the code cuts them in pieces.
\<close>

theorem vfs_path_lookup_correct:
  assumes "dcache_live s" and "path_start p s = Some (Some d, Some m)" and "fs_dentry s d = Some e"
    and "\<forall>c\<in>set (components p). length c < NAME_FIELD"
    and "resolve s (components p) (d, m) = Some r"
  shows "vfs_path_lookup env (Some p) s =
    Some (case r of Inl err \<Rightarrow> (Inl err, s) | Inr x \<Rightarrow> (Inr x, inc (fst x) s))"
proof -
  have "components (dropWhile (\<lambda>c. c = 47) p) = components p"
    by (simp add: components_def words_slashes)
  with assms walk_held [of s d e "dropWhile (\<lambda>c. c = 47) p" m r env] show ?thesis
    by (simp add: vfs_path_lookup_def follow_path_def dget_inc [OF assms(3)])
qed

definition no_env :: "'d vfs_env" where
  "no_env = \<lparr>ve_iop = (\<lambda>_. \<lparr>io_lookup = None, io_create = None, io_mkdir = None, io_unlink = None, io_rmdir = None\<rparr>),
     ve_fop = (\<lambda>_. \<lparr>fo_open = None, fo_release = None, fo_read = None, fo_write = None, fo_llseek = None,
       fo_iterate = None, fo_ioctl = None, fo_mmap = None\<rparr>),
     ve_sop = (\<lambda>_. \<lparr>so_alloc_inode = None, so_destroy_inode = None, so_write_inode = None\<rparr>),
     ve_fst = (\<lambda>_. \<lparr>ft_name = None, ft_mount = None, ft_kill_sb = None\<rparr>)\<rparr>"

definition plain_dentry :: "u64 \<Rightarrow> u64 list \<Rightarrow> u64 option \<Rightarrow> cstr \<Rightarrow> dentry" where
  "plain_dentry par kids mnt name = \<lparr>d_parent = par, d_subdirs = kids, d_inode = Some 1, d_sb = Some 1,
     d_mounted = mnt, d_name = name, d_count = 1\<rparr>"

text \<open>A root (entry 1) with the directory \<open>dev\<close> (2), on which a file system with root 3 is mounted.\<close>

definition small_fs :: "(bkey \<Rightarrow> bytes) fs_state" where
  "small_fs = \<lparr>fs_blk = table_cache, fs_inode = [1 \<mapsto> zero_inode\<lparr>en_mode := S_IFDIR, i_count := 3\<rparr>],
     fs_dentry = [1 \<mapsto> plain_dentry 1 [2] None [47], 2 \<mapsto> plain_dentry 1 [] (Some 20) (cstr_of ''dev''),
       3 \<mapsto> plain_dentry 3 [] None [47]],
     fs_sb = Map.empty,
     fs_mnt = [10 \<mapsto> \<lparr>mnt_root = Some 1, mnt_sb = 1, mnt_mountpoint = Some 1, mnt_parent = None, mnt_devname = []\<rparr>,
       20 \<mapsto> \<lparr>mnt_root = Some 3, mnt_sb = 1, mnt_mountpoint = Some 2, mnt_parent = Some 10, mnt_devname = []\<rparr>],
     fs_file = Map.empty, fs_files = Map.empty, fs_context_of = Map.empty,
     g_inode_cache = None, g_dentry_cache = None, g_ext4_inode_cache = None,
     g_inode_tree = \<lparr>rb_root = None, rb_nd = (\<lambda>_. zero_node)\<rparr>, g_dirty_inodes = [], g_superblocks = [], g_mounts = [],
     g_fs_types = [], root_dentry = Some 1, root_mnt = Some 10, cur_files = None\<rparr>"

theorem vfs_path_lookup_witness:
  "vfs_path_lookup no_env (Some (cstr_of ''//dev/./'')) small_fs = Some (Inr (3, 20), inc 3 small_fs) \<and>
   vfs_path_lookup no_env (Some (cstr_of ''/dev/..'')) small_fs = Some (Inr (1, 10), inc 1 small_fs)"
proof
  have live: "dcache_live small_fs"
    by (auto simp: dcache_live_def small_fs_def plain_dentry_def split: if_splits)
  have s1: "path_start (cstr_of ''//dev/./'') small_fs = Some (Some 1, Some 10)"
      "path_start (cstr_of ''/dev/..'') small_fs = Some (Some 1, Some 10)"
    by (simp_all add: path_start_def small_fs_def cstr_of_def)
  have d1: "fs_dentry small_fs 1 = Some (plain_dentry 1 [2] None [47])"
    by (simp add: small_fs_def)
  have c1: "components (cstr_of ''//dev/./'') = [cstr_of ''dev'', cstr_of ''.'']"
      "components (cstr_of ''/dev/..'') = [cstr_of ''dev'', cstr_of ''..'']"
    by (simp_all add: components_def cstr_of_def)
  have r1: "resolve small_fs [cstr_of ''dev'', cstr_of ''.''] (1, 10) = Some (Inr (3, 20))"
      "resolve small_fs [cstr_of ''dev'', cstr_of ''..''] (1, 10) = Some (Inr (1, 10))"
    by (simp_all add: resolve_step_def resolve_down_def resolve_up_def small_fs_def plain_dentry_def inode_of_def S_ISDIR_def mode_defs
        cstr_of_def zero_inode_def)
  have len: "\<forall>c\<in>set [cstr_of ''dev'', cstr_of ''.'']. length c < NAME_FIELD"
      "\<forall>c\<in>set [cstr_of ''dev'', cstr_of ''..'']. length c < NAME_FIELD"
    by (simp_all add: cstr_of_def NAME_FIELD_def)
  show "vfs_path_lookup no_env (Some (cstr_of ''//dev/./'')) small_fs = Some (Inr (3, 20), inc 3 small_fs)"
    using vfs_path_lookup_correct [OF live s1(1) d1, unfolded c1, OF len(1) r1(1), of no_env] by simp
  show "vfs_path_lookup no_env (Some (cstr_of ''/dev/..'')) small_fs = Some (Inr (1, 10), inc 1 small_fs)"
    using vfs_path_lookup_correct [OF live s1(2) d1, unfolded c1, OF len(2) r1(2), of no_env] by simp
qed

end
