(* ===== verification/Vfs_File.thy ===== *)
theory Vfs_File
  imports Namei Ext4_Dir
begin

text \<open>
  Open files and descriptors: \<open>kernel/fs/service/vfs.c\<close> and \<open>fdtable.c\<close>. A read returns the bytes it
  stores at the start of the buffer; a directory listing returns the bytes collected. A descriptor
  is an \<open>unsigned int\<close> that the table functions take as an \<open>int\<close>.
\<close>

section \<open>Files\<close>

definition O_CREAT :: u32 where "O_CREAT = 0x40"
definition O_TRUNC :: u32 where "O_TRUNC = 0x200"
definition O_DIRECTORY :: u32 where "O_DIRECTORY = 0x8000"
definition O_RDONLY :: u32 where "O_RDONLY = 0"
definition O_RDWR :: u32 where "O_RDWR = 2"

lemmas open_flags = O_CREAT_def O_TRUNC_def O_DIRECTORY_def O_RDONLY_def O_RDWR_def

definition upd_file :: "u64 \<Rightarrow> (vfs_file \<Rightarrow> vfs_file) \<Rightarrow> 'd fs_state \<Rightarrow> 'd fs_state option" where
  "upd_file a g s = map_option (\<lambda>f. s\<lparr>fs_file := (fs_file s)(a \<mapsto> g f)\<rparr>) (fs_file s a)"

definition drop_file :: "u64 \<Rightarrow> 'd fs_state \<Rightarrow> 'd fs_state option" where
  "drop_file a s = do { s1 \<leftarrow> fs_kfree a s; Some (s1\<lparr>fs_file := (fs_file s1)(a := None)\<rparr>) }"

definition dentry_open :: "'d vfs_env \<Rightarrow> u64 option \<Rightarrow> u64 option \<Rightarrow> u32 \<Rightarrow> ('d, errno + u64) op" where
  "dentry_open env dentry mnt flags s =
     (case dentry of
        None \<Rightarrow> Some (Inl EINVAL, s)
      | Some d \<Rightarrow> do {
          s1 \<leftarrow> dget (Some d) s;
          x \<leftarrow> fs_dentry s1 d;
          (case d_inode x of
             None \<Rightarrow> do { s2 \<leftarrow> dput env (Some d) s1; Some (Inl ENOENT, s2) }
           | Some ia \<Rightarrow> do {
               (p, s2) \<leftarrow> fs_kmalloc sizeof_file s1;
               (case p of
                  None \<Rightarrow> do { s3 \<leftarrow> dput env (Some d) s2; Some (Inl ENOMEM, s3) }
                | Some fa \<Rightarrow> do {
                    i \<leftarrow> fs_inode s2 ia;
                    let s3 = s2\<lparr>fs_file := (fs_file s2)(fa \<mapsto> \<lparr>f_dentry = d, f_vfsmnt = mnt, f_op = i_fop i, f_pos = 0,
                               f_flags = flags, f_count = 1, f_private = None\<rparr>)\<rparr>;
                    (case Option.bind (i_fop i) (\<lambda>o'. fo_open (ve_fop env o')) of
                       None \<Rightarrow> Some (Inr fa, s3)
                     | Some op \<Rightarrow> do {
                         (r, s4) \<leftarrow> op ia fa s3;
                         (case r of
                            Inr _ \<Rightarrow> Some (Inr fa, s4)
                          | Inl e \<Rightarrow> do {
                              s5 \<leftarrow> drop_file fa s4;
                              s6 \<leftarrow> dput env (Some d) s5;
                              Some (Inl e, s6) }) }) }) }) })"

definition vfs_create :: "'d vfs_env \<Rightarrow> cstr \<Rightarrow> u32 \<Rightarrow> u16 \<Rightarrow> ('d, errno + u64) op" where
  "vfs_create env pathname flags mode s = do {
     (r, s1) \<leftarrow> lookup_parent env pathname s;
     (case r of
        Inl e \<Rightarrow> Some (Inl e, s1)
      | Inr ((pd, pm), name) \<Rightarrow> do {
          (q, s2) \<leftarrow> d_alloc (Some pd) (Some name) s1;
          (case q of
             None \<Rightarrow> do { s3 \<leftarrow> dput env (Some pd) s2; Some (Inl ENOMEM, s3) }
           | Some dentry \<Rightarrow> do {
               d \<leftarrow> fs_dentry s2 dentry;
               (pa, pi') \<leftarrow> inode_of s2 pd;
               (ret, s3) \<leftarrow>
                 (if d_inode d \<noteq> None then Some (Inl EEXIST, s2)
                  else
                    (case Option.bind (i_op pi') (\<lambda>o'. io_create (ve_iop env o')) of
                       None \<Rightarrow> Some (Inl EPERM, s2)
                     | Some f \<Rightarrow> do {
                         (c, s') \<leftarrow> f pa dentry mode s2;
                         (case c of
                            Inl e \<Rightarrow> Some (Inl e, s')
                          | Inr _ \<Rightarrow> dentry_open env (Some dentry) (Some pm) flags s') }));
               s4 \<leftarrow> dput env (Some dentry) s3;
               s5 \<leftarrow> dput env (Some pd) s4;
               Some (ret, s5) }) }) }"

definition vfs_open :: "'d vfs_env \<Rightarrow> cstr \<Rightarrow> u32 \<Rightarrow> u16 \<Rightarrow> ('d, errno + u64) op" where
  "vfs_open env path flags mode s = do {
     (r, s1) \<leftarrow> vfs_path_lookup env (Some path) s;
     (case r of
        Inl e \<Rightarrow> if flags AND O_CREAT \<noteq> 0 \<and> e = ENOENT then vfs_create env path flags mode s1 else Some (Inl e, s1)
      | Inr (d, m) \<Rightarrow> do {
          notdir \<leftarrow> (if flags AND O_DIRECTORY \<noteq> 0
                     then map_option (\<lambda>(_, i). \<not> S_ISDIR (en_mode i)) (inode_of s1 d) else Some False);
          (if notdir then do { s2 \<leftarrow> dput env (Some d) s1; Some (Inl ENOTDIR, s2) }
           else do {
             s2 \<leftarrow> (if flags AND O_TRUNC \<noteq> 0
                    then do {
                      (a, i) \<leftarrow> inode_of s1 d;
                      (if S_ISREG (en_mode i)
                       then do { s' \<leftarrow> upd_inode a (\<lambda>i. i\<lparr>en_size := 0\<rparr>) s1; mark_dirty a s' }
                       else Some s1) }
                    else Some s1);
             (ret, s3) \<leftarrow> dentry_open env (Some d) (Some m) flags s2;
             s4 \<leftarrow> dput env (Some d) s3;
             Some (ret, s4) }) }) }"

definition vfs_close :: "'d vfs_env \<Rightarrow> u64 option \<Rightarrow> 'd fs_state \<Rightarrow> 'd fs_state option" where
  "vfs_close env filp s =
     (case filp of
        None \<Rightarrow> Some s
      | Some a \<Rightarrow> do {
          s1 \<leftarrow> upd_file a (\<lambda>f. f\<lparr>f_count := f_count f - 1\<rparr>) s;
          f \<leftarrow> fs_file s1 a;
          (if f_count f \<le> 0
           then do {
             s2 \<leftarrow> (case Option.bind (f_op f) (\<lambda>o'. fo_release (ve_fop env o')) of
                      None \<Rightarrow> Some s1
                    | Some rel \<Rightarrow> do { d \<leftarrow> fs_dentry s1 (f_dentry f); map_option snd (rel (d_inode d) a s1) });
             s3 \<leftarrow> dput env (Some (f_dentry f)) s2;
             drop_file a s3 }
           else Some s1) })"

text \<open>The operation of an open file, if it has one.\<close>

definition file_op :: "'d vfs_env \<Rightarrow> 'd fs_state \<Rightarrow> u64 option \<Rightarrow> ('d file_operations \<Rightarrow> 'o option) \<Rightarrow> (u64 \<times> 'o) option option" where
  "file_op env s file sel =
     (case file of
        None \<Rightarrow> Some None
      | Some a \<Rightarrow> do {
          f \<leftarrow> fs_file s a;
          Some (map_option (Pair a) (Option.bind (f_op f) (\<lambda>o'. sel (ve_fop env o')))) })"

text \<open>A null position pointer stands for the position of the file, which is updated.\<close>

definition at_pos :: "u64 \<Rightarrow> u64 option \<Rightarrow> (u64 \<Rightarrow> ('d, 'a \<times> u64) op) \<Rightarrow> ('d, 'a \<times> u64) op" where
  "at_pos a pos f s =
     (case pos of
        Some p \<Rightarrow> f p s
      | None \<Rightarrow> do {
          x \<leftarrow> fs_file s a;
          ((r, p), s1) \<leftarrow> f (f_pos x) s;
          s2 \<leftarrow> upd_file a (\<lambda>x. x\<lparr>f_pos := p\<rparr>) s1;
          Some ((r, p), s2) })"

definition vfs_read :: "'d vfs_env \<Rightarrow> u64 option \<Rightarrow> u32 \<Rightarrow> u64 option \<Rightarrow> ('d, int \<times> bytes) op" where
  "vfs_read env file n pos s = do {
     r \<leftarrow> file_op env s file fo_read;
     (case r of
        None \<Rightarrow> Some ((- errno_val EINVAL, []), s)
      | Some (a, f) \<Rightarrow> do {
          (((ret, bs), _), s1) \<leftarrow> at_pos a pos (\<lambda>p s. map_option (\<lambda>((ret, bs, p'), s'). (((ret, bs), p'), s')) (f a n p s)) s;
          Some ((ret, bs), s1) }) }"

definition vfs_write :: "'d vfs_env \<Rightarrow> u64 option \<Rightarrow> bytes \<Rightarrow> u32 \<Rightarrow> u64 option \<Rightarrow> ('d, int) op" where
  "vfs_write env file buf n pos s = do {
     r \<leftarrow> file_op env s file fo_write;
     (case r of
        None \<Rightarrow> Some (- errno_val EINVAL, s)
      | Some (a, f) \<Rightarrow> do { ((ret, _), s1) \<leftarrow> at_pos a pos (f a buf n) s; Some (ret, s1) }) }"

definition vfs_llseek :: "'d vfs_env \<Rightarrow> u64 option \<Rightarrow> u64 \<Rightarrow> int \<Rightarrow> ('d, int) op" where
  "vfs_llseek env file offset whence s =
     (case file of
        None \<Rightarrow> Some (- errno_val EINVAL, s)
      | Some a \<Rightarrow> do {
          f \<leftarrow> fs_file s a;
          (case Option.bind (f_op f) (\<lambda>o'. fo_llseek (ve_fop env o')) of
             Some op \<Rightarrow> op a offset whence s
           | None \<Rightarrow> do {
               np \<leftarrow> (if whence = 0 then Some (Some offset)
                      else if whence = 1 then Some (Some (f_pos f + offset))
                      else if whence = 2 then map_option (\<lambda>(_, i). Some (en_size i + offset)) (inode_of s (f_dentry f))
                      else Some None);
               (case np of
                  None \<Rightarrow> Some (- errno_val EINVAL, s)
                | Some p \<Rightarrow> do {
                    let p' = (if sint p < 0 then 0 else p);
                    s1 \<leftarrow> upd_file a (\<lambda>f. f\<lparr>f_pos := p'\<rparr>) s;
                    Some (sint p', s1) }) }) })"

definition vfs_readdir :: "'d vfs_env \<Rightarrow> u64 option \<Rightarrow> getdents_ctx \<Rightarrow> ('d, int \<times> getdents_ctx) op" where
  "vfs_readdir env file ctx s = do {
     r \<leftarrow> file_op env s file fo_iterate;
     (case r of
        None \<Rightarrow> Some ((- errno_val EINVAL, ctx), s)
      | Some (a, op) \<Rightarrow> do {
          f \<leftarrow> fs_file s a;
          ((ret, pos, ctx'), s1) \<leftarrow> op a (f_pos f) ctx s;
          s2 \<leftarrow> (if ret = 0 then upd_file a (\<lambda>f. f\<lparr>f_pos := pos\<rparr>) s1 else Some s1);
          Some ((ret, ctx'), s2) }) }"

definition vfs_file_mmap :: "'d vfs_env \<Rightarrow> u64 option \<Rightarrow> u32 \<Rightarrow> u64 \<Rightarrow> ('d, errno + u64) op" where
  "vfs_file_mmap env file n offset s = do {
     r \<leftarrow> file_op env s file fo_mmap;
     (case r of None \<Rightarrow> Some (Inl ENODEV, s) | Some (a, op) \<Rightarrow> op a n offset s) }"

record stat =
  st_dev :: u32
  st_ino :: u32
  st_mode :: u16
  st_nlink :: u16
  st_uid :: u16
  st_gid :: u16
  st_size :: u64
  st_blksize :: u32
  st_blocks :: u64

definition vfs_fill_stat :: "'d fs_state \<Rightarrow> inode \<Rightarrow> stat option" where
  "vfs_fill_stat s i = do {
     b \<leftarrow> fs_sb s (i_sb i);
     Some \<lparr>st_dev = s_dev b, st_ino = ucast (en_ino i), st_mode = en_mode i, st_nlink = ucast (en_nlink i),
       st_uid = ucast (en_uid i), st_gid = ucast (en_gid i), st_size = en_size i, st_blksize = ucast (s_blocksize b),
       st_blocks = en_blocks i\<rparr> }"

definition vfs_stat :: "'d vfs_env \<Rightarrow> cstr \<Rightarrow> ('d, errno + stat) op" where
  "vfs_stat env pathname s = do {
     (r, s1) \<leftarrow> vfs_path_lookup env (Some pathname) s;
     (case r of
        Inl e \<Rightarrow> Some (Inl e, s1)
      | Inr (d, m) \<Rightarrow> do {
          x \<leftarrow> fs_dentry s1 d;
          st \<leftarrow> (case d_inode x of
                   None \<Rightarrow> Some (Inl ENOENT)
                 | Some ia \<Rightarrow> do { i \<leftarrow> fs_inode s1 ia; map_option Inr (vfs_fill_stat s1 i) });
          s2 \<leftarrow> dput env (Some d) s1;
          Some (st, s2) }) }"

definition vfs_fstat :: "'d fs_state \<Rightarrow> u64 option \<Rightarrow> (errno + stat) option" where
  "vfs_fstat s filp =
     (case filp of
        None \<Rightarrow> Some (Inl EBADF)
      | Some a \<Rightarrow> do {
          f \<leftarrow> fs_file s a;
          d \<leftarrow> fs_dentry s (f_dentry f);
          (case d_inode d of
             None \<Rightarrow> Some (Inl EBADF)
           | Some ia \<Rightarrow> do { i \<leftarrow> fs_inode s ia; map_option Inr (vfs_fill_stat s i) }) })"

definition vfs_mount :: "'d vfs_env \<Rightarrow> cstr \<Rightarrow> cstr \<Rightarrow> cstr \<Rightarrow> ('d, errno + unit) op" where
  "vfs_mount = vfs_do_mount"

definition vfs_umount :: "'d vfs_env \<Rightarrow> cstr \<Rightarrow> ('d, errno + unit) op" where
  "vfs_umount = vfs_do_umount"

definition vfs_unlink :: "'d vfs_env \<Rightarrow> cstr \<Rightarrow> ('d, errno + unit) op" where
  "vfs_unlink = vfs_do_unlink"

definition vfs_mkdir :: "'d vfs_env \<Rightarrow> cstr \<Rightarrow> u16 \<Rightarrow> ('d, errno + unit) op" where
  "vfs_mkdir = vfs_do_mkdir"

definition vfs_rmdir :: "'d vfs_env \<Rightarrow> cstr \<Rightarrow> ('d, errno + unit) op" where
  "vfs_rmdir = vfs_do_rmdir"

section \<open>The descriptor table\<close>

definition NR_OPEN_DEFAULT :: nat where "NR_OPEN_DEFAULT = 16"

definition files_from_cap :: "'d fs_state \<Rightarrow> cap_t \<Rightarrow> u64 option" where
  "files_from_cap s c = cap_resolve (mm_caps (bk_mm (fs_blk s))) c CAP_R_CTL"

definition fdtable_switch_notify :: "switch_envelope option \<Rightarrow> switch_envelope option \<Rightarrow> 'd fs_state \<Rightarrow> 'd fs_state" where
  "fdtable_switch_notify prev nxt s =
     s\<lparr>cur_files := files_from_cap s (case nxt of Some e \<Rightarrow> env_files_cap e | None \<Rightarrow> CAP_NULL)\<rparr>"

definition fs_current_files :: "'d fs_state \<Rightarrow> u64 option" where
  "fs_current_files s = cur_files s"

definition alloc_files_struct :: "('d, u64 option) op" where
  "alloc_files_struct s = do {
     (p, s1) \<leftarrow> fs_kmalloc sizeof_files_struct s;
     (case p of
        None \<Rightarrow> Some (None, s1)
      | Some a \<Rightarrow> do {
          let s2 = s1\<lparr>fs_files := (fs_files s1)(a \<mapsto> \<lparr>fd_array = replicate NR_OPEN_DEFAULT None, fl_count = 1, fs_ctx = None\<rparr>)\<rparr>;
          (q, s3) \<leftarrow> fs_kmalloc sizeof_fs_context s2;
          (case q of
             None \<Rightarrow> do { s4 \<leftarrow> fs_kfree a s3; Some (None, s4\<lparr>fs_files := (fs_files s4)(a := None)\<rparr>) }
           | Some c \<Rightarrow>
               Some (Some a, s3\<lparr>fs_files := (fs_files s3)(a \<mapsto> \<lparr>fd_array = replicate NR_OPEN_DEFAULT None, fl_count = 1, fs_ctx = Some c\<rparr>),
                  fs_context_of := (fs_context_of s3)(c \<mapsto> \<lparr>cwd_dentry = None, cwd_mnt = None\<rparr>)\<rparr>)) }) }"

text \<open>The files that are still open are not closed.\<close>

definition free_files_struct :: "'d vfs_env \<Rightarrow> u64 option \<Rightarrow> 'd fs_state \<Rightarrow> 'd fs_state option" where
  "free_files_struct env files s =
     (case files of
        None \<Rightarrow> Some s
      | Some a \<Rightarrow> do {
          f \<leftarrow> fs_files s a;
          s1 \<leftarrow> (case fs_ctx f of
                   None \<Rightarrow> Some s
                 | Some c \<Rightarrow> do {
                     x \<leftarrow> fs_context_of s c;
                     s' \<leftarrow> dput env (cwd_dentry x) s;
                     s'' \<leftarrow> fs_kfree c s';
                     Some (s''\<lparr>fs_context_of := (fs_context_of s'')(c := None)\<rparr>) });
          s2 \<leftarrow> fs_kfree a s1;
          Some (s2\<lparr>fs_files := (fs_files s2)(a := None)\<rparr>) })"

fun first_free :: "u64 option list \<Rightarrow> nat option" where
  "first_free [] = None"
| "first_free (x # xs) = (if x = None then Some 0 else map_option Suc (first_free xs))"

definition get_unused_fd :: "'d fs_state \<Rightarrow> u64 option \<Rightarrow> (errno + int) option" where
  "get_unused_fd s files =
     (case files of
        None \<Rightarrow> Some (Inl EBADF)
      | Some a \<Rightarrow> do {
          f \<leftarrow> fs_files s a;
          Some (case first_free (fd_array f) of Some i \<Rightarrow> Inr (int i) | None \<Rightarrow> Inl EMFILE) })"

definition set_fd :: "u64 option \<Rightarrow> int \<Rightarrow> u64 option \<Rightarrow> 'd fs_state \<Rightarrow> 'd fs_state option" where
  "set_fd files fd v s =
     (case files of
        None \<Rightarrow> Some s
      | Some a \<Rightarrow>
          if fd < 0 \<or> int NR_OPEN_DEFAULT \<le> fd then Some s
          else do {
            f \<leftarrow> fs_files s a;
            Some (s\<lparr>fs_files := (fs_files s)(a \<mapsto> f\<lparr>fd_array := (fd_array f)[nat fd := v]\<rparr>)\<rparr>) })"

definition put_unused_fd :: "u64 option \<Rightarrow> int \<Rightarrow> 'd fs_state \<Rightarrow> 'd fs_state option" where
  "put_unused_fd files fd = set_fd files fd None"

definition fd_install :: "u64 option \<Rightarrow> int \<Rightarrow> u64 option \<Rightarrow> 'd fs_state \<Rightarrow> 'd fs_state option" where
  "fd_install files fd file = set_fd files fd file"

definition fget :: "'d fs_state \<Rightarrow> u64 option \<Rightarrow> int \<Rightarrow> u64 option option" where
  "fget s files fd =
     (case files of
        None \<Rightarrow> Some None
      | Some a \<Rightarrow>
          if fd < 0 \<or> int NR_OPEN_DEFAULT \<le> fd then Some None
          else do { f \<leftarrow> fs_files s a; rd (fd_array f) (nat fd) })"

section \<open>Operations on descriptors\<close>

definition fd_openat :: "'d vfs_env \<Rightarrow> cstr \<Rightarrow> u32 \<Rightarrow> u16 \<Rightarrow> ('d, errno + int) op" where
  "fd_openat env pathname flags mode s =
     (case cur_files s of
        None \<Rightarrow> Some (Inl EBADF, s)
      | Some files \<Rightarrow> do {
          (r, s1) \<leftarrow> vfs_open env pathname flags mode s;
          (case r of
             Inl e \<Rightarrow> Some (Inl e, s1)
           | Inr f \<Rightarrow> do {
               q \<leftarrow> get_unused_fd s1 (Some files);
               (case q of
                  Inl e \<Rightarrow> do { s2 \<leftarrow> vfs_close env (Some f) s1; Some (Inl e, s2) }
                | Inr fd \<Rightarrow> do { s2 \<leftarrow> fd_install (Some files) fd (Some f) s1; Some (Inr fd, s2) }) }) })"

text \<open>The file of a descriptor of the current table; no table and no file are both \<open>EBADF\<close>.\<close>

definition cur_file :: "'d fs_state \<Rightarrow> u32 \<Rightarrow> u64 option option" where
  "cur_file s fd = (case cur_files s of None \<Rightarrow> Some None | Some files \<Rightarrow> fget s (Some files) (sint fd))"

definition fd_close :: "'d vfs_env \<Rightarrow> u32 \<Rightarrow> ('d, errno + unit) op" where
  "fd_close env fd s = do {
     r \<leftarrow> cur_file s fd;
     (case r of
        None \<Rightarrow> Some (Inl EBADF, s)
      | Some f \<Rightarrow> do {
          s1 \<leftarrow> put_unused_fd (cur_files s) (sint fd) s;
          s2 \<leftarrow> vfs_close env (Some f) s1;
          Some (Inr (), s2) }) }"

definition fd_read :: "'d vfs_env \<Rightarrow> u32 \<Rightarrow> u32 \<Rightarrow> ('d, int \<times> bytes) op" where
  "fd_read env fd n s = do {
     r \<leftarrow> cur_file s fd;
     (case r of None \<Rightarrow> Some ((- errno_val EBADF, []), s) | Some f \<Rightarrow> vfs_read env (Some f) n None s) }"

definition fd_write :: "'d vfs_env \<Rightarrow> u32 \<Rightarrow> bytes \<Rightarrow> u32 \<Rightarrow> ('d, int) op" where
  "fd_write env fd buf n s = do {
     r \<leftarrow> cur_file s fd;
     (case r of None \<Rightarrow> Some (- errno_val EBADF, s) | Some f \<Rightarrow> vfs_write env (Some f) buf n None s) }"

definition fd_lseek :: "'d vfs_env \<Rightarrow> u32 \<Rightarrow> u64 \<Rightarrow> int \<Rightarrow> ('d, int) op" where
  "fd_lseek env fd offset whence s = do {
     r \<leftarrow> cur_file s fd;
     (case r of None \<Rightarrow> Some (- errno_val EBADF, s) | Some f \<Rightarrow> vfs_llseek env (Some f) offset whence s) }"

definition fd_fstat :: "'d fs_state \<Rightarrow> u32 \<Rightarrow> (errno + stat) option" where
  "fd_fstat s fd = do {
     r \<leftarrow> cur_file s fd;
     (case r of None \<Rightarrow> Some (Inl EBADF) | Some f \<Rightarrow> vfs_fstat s (Some f)) }"

text \<open>One record of a listing: inode number, offset, length, type, the name and zeros to a multiple of 8.\<close>

definition sizeof_dirent64 :: u32 where "sizeof_dirent64 = 19"

definition reclen :: "bytes \<Rightarrow> u32" where
  "reclen name = (sizeof_dirent64 + of_nat (length name) + 1 + 7) AND NOT 7"

definition dirent_bytes :: "bytes \<Rightarrow> u64 \<Rightarrow> u64 \<Rightarrow> u32 \<Rightarrow> bytes" where
  "dirent_bytes name off ino d_type =
     le_bytes 8 (unat ino) @ le_bytes 8 (unat off) @ le_bytes 2 (unat (ucast (reclen name) :: u16)) @ [ucast d_type] @
     name @ replicate (unat (reclen name) - unat sizeof_dirent64 - length name) 0"

definition filldir :: "getdents_ctx dir_actor" where
  "filldir g name off ino d_type =
     (if gd_count g < gd_pos g + reclen name then (1, g)
      else (0, g\<lparr>gd_buf := gd_buf g @ dirent_bytes name off (ucast ino) d_type, gd_pos := gd_pos g + reclen name\<rparr>))"

definition fd_getdents64 :: "'d vfs_env \<Rightarrow> u32 \<Rightarrow> u32 \<Rightarrow> ('d, int \<times> bytes) op" where
  "fd_getdents64 env fd cnt s = do {
     r \<leftarrow> cur_file s fd;
     (case r of
        None \<Rightarrow> Some ((- errno_val EBADF, []), s)
      | Some f \<Rightarrow> do {
          ((ret, g), s1) \<leftarrow> vfs_readdir env (Some f) \<lparr>gd_buf = [], gd_count = cnt, gd_pos = 0\<rparr> s;
          Some ((if ret = 0 then uint (gd_pos g) else ret, gd_buf g), s1) }) }"

definition fd_ioctl :: "'d vfs_env \<Rightarrow> u32 \<Rightarrow> u32 \<Rightarrow> u64 \<Rightarrow> ('d, int) op" where
  "fd_ioctl env fd cmd arg s = do {
     r \<leftarrow> cur_file s fd;
     (case r of
        None \<Rightarrow> Some (- errno_val EBADF, s)
      | Some f \<Rightarrow> do {
          q \<leftarrow> file_op env s (Some f) fo_ioctl;
          (case q of None \<Rightarrow> Some (- errno_val ENOTTY, s) | Some (a, op) \<Rightarrow> op a cmd arg s) }) }"

definition fd_chdir :: "'d vfs_env \<Rightarrow> cstr \<Rightarrow> ('d, errno + unit) op" where
  "fd_chdir env path s =
     (case cur_files s of
        None \<Rightarrow> Some (Inl EBADF, s)
      | Some files \<Rightarrow> do {
          (r, s1) \<leftarrow> vfs_path_lookup env (Some path) s;
          (case r of
             Inl e \<Rightarrow> Some (Inl e, s1)
           | Inr (d, m) \<Rightarrow> do {
               x \<leftarrow> fs_dentry s1 d;
               dir \<leftarrow> (case d_inode x of
                        None \<Rightarrow> Some False
                      | Some ia \<Rightarrow> map_option (\<lambda>i. S_ISDIR (en_mode i)) (fs_inode s1 ia));
               (if \<not> dir then do { s2 \<leftarrow> dput env (Some d) s1; Some (Inl ENOTDIR, s2) }
                else do {
                  f \<leftarrow> fs_files s1 files;
                  c \<leftarrow> fs_ctx f;
                  ctx \<leftarrow> fs_context_of s1 c;
                  s2 \<leftarrow> dput env (cwd_dentry ctx) s1;
                  Some (Inr (), s2\<lparr>fs_context_of := (fs_context_of s2)(c \<mapsto> \<lparr>cwd_dentry = Some d, cwd_mnt = Some m\<rparr>)\<rparr>) }) }) })"

definition fd_mmap :: "'d vfs_env \<Rightarrow> u32 \<Rightarrow> u32 \<Rightarrow> u64 \<Rightarrow> ('d, errno + u64) op" where
  "fd_mmap env fd n offset s = do {
     r \<leftarrow> cur_file s fd;
     (case r of None \<Rightarrow> Some (Inl EBADF, s) | Some f \<Rightarrow> vfs_file_mmap env (Some f) n offset s) }"

section \<open>Records of a listing\<close>

definition entry_bytes :: "nat \<times> dent \<Rightarrow> bytes" where
  "entry_bytes x = (case x of (p, e) \<Rightarrow> dirent_bytes (dn_name e) (of_nat p) (ucast (dn_ino e)) (ext4_file_type_to_dt (dn_type e)))"

lemma reclen_unat:
  assumes "length name < 256"
  shows "unat (reclen name) = (length name + 27) div 8 * 8"
proof -
  have m: "(7 :: u32) = mask 3" by (simp add: mask_eq_exp_minus_1)
  have a: "unat (sizeof_dirent64 + of_nat (length name) + 1 + 7) = length name + 27"
    using assms by (simp add: sizeof_dirent64_def unat_word_ariths unat_of_nat)
  have "unat (reclen name) = unat (sizeof_dirent64 + of_nat (length name) + 1 + 7) div 2 ^ 3 * 2 ^ 3"
    unfolding reclen_def using and_not_mask_unat [of _ 3] by (simp only: m)
  then show ?thesis by (simp only: a) simp
qed

lemma entry_bytes_length: "length (dn_name e) < 256 \<Longrightarrow> length (entry_bytes (p, e)) = (length (dn_name e) + 27) div 8 * 8"
  by (simp add: entry_bytes_def dirent_bytes_def reclen_unat sizeof_dirent64_def)

text \<open>The entry fits behind what has been collected.\<close>

definition fits :: "getdents_ctx \<Rightarrow> nat \<times> dent \<Rightarrow> bool" where
  "fits g x \<longleftrightarrow> length (gd_buf g) + length (entry_bytes x) \<le> unat (gd_count g)"

definition gd_ok :: "getdents_ctx \<Rightarrow> bool" where
  "gd_ok g \<longleftrightarrow> unat (gd_pos g) = length (gd_buf g) \<and> gd_pos g \<le> gd_count g \<and> unat (gd_count g) < 2 ^ 31"

definition collect :: "getdents_ctx \<Rightarrow> nat \<times> dent \<Rightarrow> getdents_ctx" where
  "collect g x = g\<lparr>gd_buf := gd_buf g @ entry_bytes x, gd_pos := gd_pos g + of_nat (length (entry_bytes x))\<rparr>"

lemma of_nat_unat_id: "of_nat (unat (w :: 'a::len word)) = w"
  by simp

lemma filldir_entry:
  assumes "gd_ok g" and "length (dn_name e) < 256"
  shows "filldir g (dn_name e) (of_nat p) (dn_ino e) (ext4_file_type_to_dt (dn_type e)) =
    (if fits g (p, e) then (0, collect g (p, e)) else (1, g))"
proof -
  have r: "reclen (dn_name e) = of_nat (length (entry_bytes (p, e)))"
    using reclen_unat [OF assms(2)] entry_bytes_length [OF assms(2), of p] by (metis of_nat_unat_id)
  have l: "length (entry_bytes (p, e)) < 512" using entry_bytes_length [OF assms(2), of p] assms(2) by simp
  then have "unat (gd_pos g + of_nat (length (entry_bytes (p, e)))) = length (gd_buf g) + length (entry_bytes (p, e))"
    using assms(1) by (simp add: gd_ok_def word_le_nat_alt unat_word_ariths unat_of_nat)
  then have "gd_count g < gd_pos g + of_nat (length (entry_bytes (p, e))) \<longleftrightarrow> \<not> fits g (p, e)"
    by (simp add: fits_def word_less_nat_alt not_le)
  then show ?thesis by (simp add: filldir_def r collect_def) (simp add: entry_bytes_def)
qed


lemma collect_ok: "gd_ok g \<Longrightarrow> fits g x \<Longrightarrow> gd_ok (collect g x) \<and> gd_count (collect g x) = gd_count g"
  by (simp add: gd_ok_def fits_def collect_def word_le_nat_alt unat_word_ariths unat_of_nat)

definition next_pos :: "u64 \<Rightarrow> (nat \<times> dent) list \<Rightarrow> u64" where
  "next_pos q xs = (if xs = [] then q else case last xs of (p, e) \<Rightarrow> of_nat (p + dn_rec e))"

lemma feed_filldir:
  assumes "gd_ok g" and "\<forall>(p, e) \<in> set xs. length (dn_name e) < 256"
  shows "\<exists>k g'. k \<le> length xs \<and> feed filldir q g xs = (if k = length xs then None else Some 0, next_pos q (take k xs), g') \<and>
    gd_ok g' \<and> gd_count g' = gd_count g \<and> gd_buf g' = gd_buf g @ concat (map entry_bytes (take k xs)) \<and>
    (k < length xs \<longrightarrow> \<not> fits g' (xs ! k))"
  using assms
proof (induction xs arbitrary: g q)
  case Nil
  then show ?case by (simp add: next_pos_def)
next
  case (Cons x xs)
  obtain p e where x: "x = (p, e)" by fastforce
  have n: "length (dn_name e) < 256" using Cons.prems(2) x by simp
  note f = filldir_entry [OF Cons.prems(1) n, of p]
  show ?case
  proof (cases "fits g x")
    case False
    then have "feed filldir q g (x # xs) = (Some 0, q, g)" using f x by simp
    then show ?thesis using False Cons.prems(1) by (intro exI [of _ 0] exI [of _ g]) (simp add: next_pos_def)
  next
    case True
    obtain k g' where h: "k \<le> length xs"
      "feed filldir (of_nat (p + dn_rec e)) (collect g x) xs =
         (if k = length xs then None else Some 0, next_pos (of_nat (p + dn_rec e)) (take k xs), g')"
      "gd_ok g'" "gd_count g' = gd_count g" "gd_buf g' = gd_buf g @ entry_bytes x @ concat (map entry_bytes (take k xs))"
      "k < length xs \<longrightarrow> \<not> fits g' (xs ! k)"
      using Cons.IH [of "collect g x" "of_nat (p + dn_rec e)"] collect_ok [OF Cons.prems(1) True] Cons.prems(2)
      by (auto simp: collect_def)
    moreover have "feed filldir q g (x # xs) = feed filldir (of_nat (p + dn_rec e)) (collect g x) xs"
      using f x True by simp
    moreover have "next_pos (of_nat (p + dn_rec e)) (take k xs) = next_pos q (take (Suc k) (x # xs))"
      by (auto simp: next_pos_def x)
    ultimately show ?thesis by (intro exI [of _ "Suc k"] exI [of _ g']) simp
  qed
qed

lemma listed_bounds:
  "dir_rep d off es \<Longrightarrow> (x, e) \<in> set (listed p es) \<Longrightarrow>
     x + dn_rec e \<le> p + (length d - off) \<and> 0 < dn_rec e \<and> length (dn_name e) < 256"
proof (induction es arbitrary: off p)
  case (Cons f es)
  have f: "off + dn_rec f \<le> length d" "0 < dn_rec f" "dn_ino f \<noteq> 0 \<longrightarrow> length (dn_name f) < 256"
    using Cons.prems(1) by (auto simp: dent_at_def sizeof_dirent_def)
  then show ?case
    using Cons.IH [of "off + dn_rec f" "p + dn_rec f"] Cons.prems by (auto split: if_splits)
qed simp

lemma listed_sorted:
  "sorted_wrt (\<lambda>(x, e) (y, _). x + dn_rec e \<le> y) (listed p es)"
  by (induction es arbitrary: p) (auto simp: sorted_wrt_append dest: listed_ge)

lemma not_before_next:
  assumes s: "sorted_wrt (\<lambda>(x, e) (y, _). x + dn_rec e \<le> y) (xs @ (x, e) # ys)" and r: "\<forall>(x, e) \<in> set (xs @ [(x, e)]). 0 < dn_rec e"
  shows "not_before (x + dn_rec e) (xs @ (x, e) # ys) = ys"
proof -
  have "filter (\<lambda>(p, _). x + dn_rec e \<le> p) ys = ys" using s by (auto simp: sorted_wrt_append intro!: filter_True)
  moreover have "filter (\<lambda>(p, _). x + dn_rec e \<le> p) xs = []"
    using s r by (fastforce simp: sorted_wrt_append filter_empty_conv)
  moreover have "\<not> x + dn_rec e \<le> x" using r by simp
  ultimately show ?thesis by (simp add: not_before_def)
qed


lemma next_pos_resumes:
  assumes rep: "dir_rep d 0 es" and todo: "todo = not_before q (listed 0 es)" and k: "k \<le> length todo"
  shows "\<exists>q'. q \<le> q' \<and> q' \<le> max q (length d) \<and> next_pos (of_nat q) (take k todo) = of_nat q' \<and>
    not_before q' (listed 0 es) = drop k todo"
proof (cases "k = 0")
  case True
  then show ?thesis using todo by (intro exI [of _ q]) (simp add: next_pos_def)
next
  case False
  obtain x e where x: "todo ! (k - 1) = (x, e)" by fastforce
  have ne: "take k todo \<noteq> []" using k False by auto
  have l: "todo ! (k - 1) = (x, e)" "take k todo \<noteq> []" "last (take k todo) = (x, e)"
    using k False x ne by (simp_all add: last_conv_nth [OF ne] min_def)
  have td: "todo = take (k - 1) todo @ (x, e) # drop k todo"
    using l(1) k False by (metis Suc_diff_1 Suc_le_lessD bot_nat_0.not_eq_extremum id_take_nth_drop)
  have "(x, e) \<in> set todo" using td by (metis in_set_conv_decomp)
  then have q: "q \<le> x + dn_rec e" by (auto simp: todo not_before_def)
  have sorted: "sorted_wrt (\<lambda>(x, e) (y, _). x + dn_rec e \<le> y) todo"
    unfolding todo not_before_def by (rule sorted_wrt_filter [OF listed_sorted])
  have "\<forall>(x, e) \<in> set todo. 0 < dn_rec e"
    using listed_bounds [OF rep, of _ _ 0] by (auto simp: todo not_before_def)
  then have r: "\<forall>(x, e) \<in> set (take (k - 1) todo @ [(x, e)]). 0 < dn_rec e"
    using \<open>(x, e) \<in> set todo\<close> by (auto dest: in_set_takeD)
  have "not_before (x + dn_rec e) (listed 0 es) = not_before (x + dn_rec e) todo"
    unfolding todo not_before_def filter_filter using q by (intro filter_cong) auto
  also have "\<dots> = drop k todo"
    using not_before_next [OF _ r, of "drop k todo"] sorted td by simp
  finally have "not_before (x + dn_rec e) (listed 0 es) = drop k todo" .
  moreover have "x + dn_rec e \<le> length d"
    using listed_bounds [OF rep, of x e 0] \<open>(x, e) \<in> set todo\<close> by (auto simp: todo not_before_def)
  ultimately show ?thesis using l(2,3) q by (intro exI [of _ "x + dn_rec e"]) (simp add: next_pos_def)
qed

text \<open>
  (C16) A directory is listed without loss and without repetition by successive calls of \<open>getdents64\<close>:
  of the used records from the position of the file on, a call delivers as many in order as fit into
  the buffer, in the format of the user interface and never past the end of the buffer, and leaves
  the position, which never moves backwards and stays inside the directory block, so that exactly
  the remaining ones are delivered by the next calls; after the last entry none is left.
\<close>

theorem getdents_exactly_once:
  assumes "dir_rep d 0 es" and "length d < 2 ^ 31" and "q < 2 ^ 63" and "gd_ok g"
    and todo: "todo = not_before q (listed 0 es)"
  shows "\<exists>k q' g'. k \<le> length todo \<and>
    iterate_block filldir d (length d) 0 (of_nat q) g 0 =
      Some (if k = length todo then Go (of_nat (length d)) (of_nat q') g' else Stop 0 (of_nat q') g') \<and>
    gd_buf g' = gd_buf g @ concat (map entry_bytes (take k todo)) \<and> gd_ok g' \<and> gd_count g' = gd_count g \<and>
    (k < length todo \<longrightarrow> \<not> fits g' (todo ! k)) \<and>
    q \<le> q' \<and> q' \<le> max q (length d) \<and> not_before q' (listed 0 es) = drop k todo"
proof -
  have n: "\<forall>(p, e) \<in> set todo. length (dn_name e) < 256"
    using listed_bounds [OF assms(1), of _ _ 0] by (auto simp: todo not_before_def)
  obtain k g' where k: "k \<le> length todo" and f: "feed filldir (of_nat q) g todo = (if k = length todo then None else Some 0, next_pos (of_nat q) (take k todo), g')"
    and g: "gd_ok g'" "gd_count g' = gd_count g" "gd_buf g' = gd_buf g @ concat (map entry_bytes (take k todo))"
      "k < length todo \<longrightarrow> \<not> fits g' (todo ! k)"
    using feed_filldir [OF assms(4) n] by blast
  obtain q' where q': "next_pos (of_nat q) (take k todo) = of_nat q'" "not_before q' (listed 0 es) = drop k todo"
    "q \<le> q'" "q' \<le> max q (length d)"
    using next_pos_resumes [OF assms(1) todo k] by blast
  have "iterate_block filldir d (length d) 0 (of_nat q) g 0 =
      Some (if k = length todo then Go (of_nat (length d)) (of_nat q') g' else Stop 0 (of_nat q') g')"
    using iterate_block_listed [OF assms(1), of 0 q filldir g] assms(2,3) f q' by (simp add: walk_of_def todo)
  with k g q' show ?thesis by blast
qed

theorem getdents_witness:
  "\<exists>k q' g'. k \<le> 2 \<and>
    iterate_block filldir small_dir 40 0 0 \<lparr>gd_buf = [], gd_count = 40, gd_pos = 0\<rparr> 0 =
      Some (if k = 2 then Go (of_nat 40) (of_nat q') g' else Stop 0 (of_nat q') g') \<and>
    gd_buf g' = concat (map entry_bytes (take k (listed 0 small_dents))) \<and> q' \<le> 40 \<and>
    not_before q' (listed 0 small_dents) = drop k (listed 0 small_dents)"
proof -
  have "gd_ok \<lparr>gd_buf = [], gd_count = 40, gd_pos = 0\<rparr>" by (simp add: gd_ok_def)
  moreover have "not_before 0 (listed 0 small_dents) = listed 0 small_dents" by (simp add: not_before_all)
  moreover have "length (listed 0 small_dents) = 2" by (simp add: small_dents_def)
  moreover note getdents_exactly_once [OF small_dir_rep(1) _ _ _ refl, of 0 "\<lparr>gd_buf = [], gd_count = 40, gd_pos = 0\<rparr>",
    unfolded small_dir_rep(2)]
  ultimately have "\<exists>k q' g'. k \<le> 2 \<and>
    iterate_block filldir small_dir 40 0 0 \<lparr>gd_buf = [], gd_count = 40, gd_pos = 0\<rparr> 0 =
      Some (if k = 2 then Go (of_nat 40) (of_nat q') g' else Stop 0 (of_nat q') g') \<and>
    gd_buf g' = concat (map entry_bytes (take k (listed 0 small_dents))) \<and> gd_ok g' \<and> gd_count g' = 40 \<and>
    (k < 2 \<longrightarrow> \<not> fits g' (listed 0 small_dents ! k)) \<and> q' \<le> 40 \<and>
    not_before q' (listed 0 small_dents) = drop k (listed 0 small_dents)"
    by (simp split del: if_split)
  then show ?thesis by blast
qed

end
