(* ===== verification/Fs_Service.thy ===== *)
theory Fs_Service
  imports Vfs_File
begin

text \<open>
  The service table of the file system (\<open>kernel/fs/service/fs_service.c\<close>) and its system calls
  (\<open>kernel/fs/sysif/sysif_fs.c\<close>). User memory is reached through the copy routines of \<open>Vspace\<close>, in
  pieces that pass through a small kernel buffer. The result of a system call is the number that the
  caller gets, a negative error number on failure.
\<close>

section \<open>The service table\<close>

definition fs_mm :: "'d fs_state \<Rightarrow> mm_state" where
  "fs_mm s = bk_mm (fs_blk s)"

definition fs_files_create :: "'d vfs_env \<Rightarrow> ('d, cap_t) op" where
  "fs_files_create env s = do {
     (p, s1) \<leftarrow> alloc_files_struct s;
     (case p of
        None \<Rightarrow> Some (CAP_NULL, s1)
      | Some files \<Rightarrow> do {
          let (c, cs) = cap_alloc (mm_caps (fs_mm s1)) (Some files) CAP_R_CTL;
          let s2 = set_mm s1 ((fs_mm s1)\<lparr>mm_caps := cs\<rparr>);
          (if c = CAP_NULL then do { s3 \<leftarrow> free_files_struct env (Some files) s2; Some (CAP_NULL, s3) }
           else Some (c, s2)) }) }"

definition fs_files_destroy :: "'d vfs_env \<Rightarrow> cap_t \<Rightarrow> 'd fs_state \<Rightarrow> 'd fs_state option" where
  "fs_files_destroy env c s =
     (case files_from_cap s c of
        None \<Rightarrow> Some s
      | Some files \<Rightarrow>
          free_files_struct env (Some files) (set_mm s ((fs_mm s)\<lparr>mm_caps := cap_free (mm_caps (fs_mm s)) c\<rparr>)))"

fun open_std :: "'d vfs_env \<Rightarrow> u64 \<Rightarrow> nat \<Rightarrow> ('d, errno + unit) op" where
  "open_std env files 0 s = Some (Inr (), s)"
| "open_std env files (Suc n) s = do {
     (r, s1) \<leftarrow> vfs_open env (cstr_of ''/dev/console'') O_RDWR 0 s;
     (case r of
        Inl e \<Rightarrow> Some (Inl e, s1)
      | Inr f \<Rightarrow> do {
          q \<leftarrow> get_unused_fd s1 (Some files);
          (case q of
             Inl e \<Rightarrow> do { s2 \<leftarrow> vfs_close env (Some f) s1; Some (Inl e, s2) }
           | Inr fd \<Rightarrow> do { s2 \<leftarrow> fd_install (Some files) fd (Some f) s1; open_std env files n s2 }) }) }"

fun close_std :: "'d vfs_env \<Rightarrow> u64 \<Rightarrow> int list \<Rightarrow> 'd fs_state \<Rightarrow> 'd fs_state option" where
  "close_std env files [] s = Some s"
| "close_std env files (i # is) s = do {
     r \<leftarrow> fget s (Some files) i;
     s1 \<leftarrow> (case r of
              None \<Rightarrow> Some s
            | Some f \<Rightarrow> do { s' \<leftarrow> put_unused_fd (Some files) i s; vfs_close env (Some f) s' });
     close_std env files is s1 }"

definition fs_setup_std_fds :: "'d vfs_env \<Rightarrow> cap_t \<Rightarrow> ('d, errno + unit) op" where
  "fs_setup_std_fds env c s =
     (case files_from_cap s c of
        None \<Rightarrow> Some (Inl EBADF, s)
      | Some files \<Rightarrow> do {
          (r, s1) \<leftarrow> open_std env files 3 s;
          (case r of
             Inr _ \<Rightarrow> Some (Inr (), s1)
           | Inl e \<Rightarrow> do { s2 \<leftarrow> close_std env files [0, 1, 2] s1; Some (Inl e, s2) }) })"

definition fs_mount_root :: "'d vfs_env \<Rightarrow> cstr \<Rightarrow> cstr \<Rightarrow> ('d, errno + unit) op" where
  "fs_mount_root env source fstype s = do {
     (r, s1) \<leftarrow> vfs_mount env source fstype (cstr_of ''/'') s;
     (case r of
        Inl e \<Rightarrow> Some (Inl e, s1)
      | Inr _ \<Rightarrow> do {
          (q, s2) \<leftarrow> vfs_mkdir env (cstr_of ''/dev'') 0x1ED s1;
          (case q of
             Inl _ \<Rightarrow> Some (Inr (), s2)
           | Inr _ \<Rightarrow> do {
               (_, s3) \<leftarrow> vfs_mount env (cstr_of ''none'') (cstr_of ''devfs'') (cstr_of ''/dev'') s2;
               Some (Inr (), s3) }) }) }"

definition FS_LOAD_MAX :: u64 where "FS_LOAD_MAX = 16 * 1024 * 1024"

text \<open>Reading until the size is reached; an operation that delivers more than was asked for writes past the buffer.\<close>

function load_loop :: "'d vfs_env \<Rightarrow> u64 \<Rightarrow> u64 \<Rightarrow> nat \<Rightarrow> nat \<Rightarrow> ('d, nat) op" where
  "load_loop env file buf sz tot s =
     (if sz \<le> tot then Some (tot, s)
      else do {
        ((n, bs), s1) \<leftarrow> vfs_read env (Some file) (of_nat (sz - tot)) None s;
        (if sz - tot < length bs then None
         else do {
           let s2 = set_mm s1 (write_bytes (fs_mm s1) (buf + of_nat tot) bs);
           (if n \<le> 0 then Some (tot, s2) else load_loop env file buf sz (tot + nat n) s2) }) })"
  by pat_completeness auto
termination
  by (relation "measure (\<lambda>(_, _, _, sz, tot, _). sz - tot)") auto

declare load_loop.simps [simp del]

definition fs_load_file :: "'d vfs_env \<Rightarrow> cstr \<Rightarrow> ('d, errno + u64 \<times> u32) op" where
  "fs_load_file env path s = do {
     (r, s1) \<leftarrow> vfs_open env path O_RDONLY 0 s;
     (case r of
        Inl _ \<Rightarrow> Some (Inl EIO, s1)
      | Inr f \<Rightarrow> do {
          q \<leftarrow> vfs_fstat s1 (Some f);
          (case q of
             Inl _ \<Rightarrow> do { s2 \<leftarrow> vfs_close env (Some f) s1; Some (Inl EIO, s2) }
           | Inr st \<Rightarrow>
               if st_size st = 0 \<or> FS_LOAD_MAX < st_size st
               then do { s2 \<leftarrow> vfs_close env (Some f) s1; Some (Inl ENOEXEC, s2) }
               else do {
                 (p, s2) \<leftarrow> fs_kmalloc (ucast (st_size st)) s1;
                 (case p of
                    None \<Rightarrow> do { s3 \<leftarrow> vfs_close env (Some f) s2; Some (Inl ENOMEM, s3) }
                  | Some buf \<Rightarrow> do {
                      (tot, s3) \<leftarrow> load_loop env f buf (unat (st_size st)) 0 s2;
                      s4 \<leftarrow> vfs_close env (Some f) s3;
                      (if tot \<noteq> unat (st_size st)
                       then do { s5 \<leftarrow> fs_kfree buf s4; Some (Inl EIO, s5) }
                       else Some (Inr (buf, ucast (st_size st)), s4)) }) }) }) }"

text \<open>Start-up: the core of the VFS, and the subscription of the descriptor table to context switches.\<close>

definition fdtable_init ::
  "(switch_envelope, 'd fs_state) switch_notify_fn list \<Rightarrow> 'd fs_state \<Rightarrow>
     (errno + unit) \<times> (switch_envelope, 'd fs_state) switch_notify_fn list \<times> 'd fs_state" where
  "fdtable_init fns s = switch_notifier_register fns (Some fdtable_switch_notify) s"

definition fs_subsys_init ::
  "'o \<Rightarrow> 'o svc_state \<Rightarrow> (switch_envelope, 'd fs_state) switch_notify_fn list \<Rightarrow> 'd fs_state \<Rightarrow>
     ((errno + unit) \<times> 'o svc_state \<times> (switch_envelope, 'd fs_state) switch_notify_fn list \<times> 'd fs_state) option" where
  "fs_subsys_init tbl svc fns s = do {
     s1 \<leftarrow> vfs_init s;
     (case fdtable_init fns s1 of
        (Inl e, fns', s2) \<Rightarrow> Some (Inl e, svc, fns', s2)
      | (Inr _, fns', s2) \<Rightarrow> Some (Inr (), svc_register svc (Some (cstr_of ''fs'')) (Some tbl), fns', s2)) }"

section \<open>System calls\<close>

definition SYS_PATH_LEN :: u32 where "SYS_PATH_LEN = 256"
definition SYS_IO_BOUNCE :: u32 where "SYS_IO_BOUNCE = 256"
definition SYS_DENTS_BOUNCE :: u32 where "SYS_DENTS_BOUNCE = 1024"

definition err_int :: "(errno + unit) \<Rightarrow> int" where
  "err_int r = (case r of Inl e \<Rightarrow> - errno_val e | Inr _ \<Rightarrow> 0)"

definition copy_path_from_user :: "'d fs_state \<Rightarrow> u64 \<Rightarrow> (errno + cstr) option" where
  "copy_path_from_user s src = do {
     (ret, path) \<leftarrow> strncpy_from_user (fs_mm s) src SYS_PATH_LEN;
     Some (if ret \<noteq> 0 then Inl EFAULT else Inr (takeWhile (\<lambda>c. c \<noteq> 0) path)) }"

text \<open>A call that takes a path: the copy, then the operation.\<close>

definition with_path :: "u64 \<Rightarrow> (cstr \<Rightarrow> ('d, int) op) \<Rightarrow> ('d, int) op" where
  "with_path src f s = do {
     r \<leftarrow> copy_path_from_user s src;
     (case r of Inl e \<Rightarrow> Some (- errno_val e, s) | Inr path \<Rightarrow> f path s) }"

definition fs_copy_to_user :: "u64 \<Rightarrow> bytes \<Rightarrow> u32 \<Rightarrow> ('d, u32) op" where
  "fs_copy_to_user to src n s = map_option (\<lambda>(r, m). (r, set_mm s m)) (copy_to_user (fs_mm s) to src n)"

definition sys_openat :: "'d vfs_env \<Rightarrow> u64 \<Rightarrow> u32 \<Rightarrow> u16 \<Rightarrow> ('d, int) op" where
  "sys_openat env pathname flags mode =
     with_path pathname (\<lambda>path s. map_option (\<lambda>(r, s1). (case r of Inl e \<Rightarrow> - errno_val e | Inr fd \<Rightarrow> fd, s1))
       (fd_openat env path flags mode s))"

definition sys_close :: "'d vfs_env \<Rightarrow> u32 \<Rightarrow> ('d, int) op" where
  "sys_close env fd s = map_option (\<lambda>(r, s1). (err_int r, s1)) (fd_close env fd s)"

definition chunk_of :: "u32 \<Rightarrow> u32 \<Rightarrow> u32" where
  "chunk_of total_len dn = (if SYS_IO_BOUNCE < total_len - dn then SYS_IO_BOUNCE else total_len - dn)"

definition or_done :: "u32 \<Rightarrow> int \<Rightarrow> int" where
  "or_done dn ret = (if dn \<noteq> 0 then uint dn else ret)"

partial_function (option) read_user_loop :: "'d vfs_env \<Rightarrow> u32 \<Rightarrow> u64 \<Rightarrow> u32 \<Rightarrow> u32 \<Rightarrow> 'd fs_state \<Rightarrow> (int \<times> 'd fs_state) option" where
  "read_user_loop env fd buf n dn s =
     (if n \<le> dn then Some (uint dn, s)
      else Option.bind (fd_read env fd (chunk_of n dn) s) (\<lambda>((ret, bs), s1).
        if ret < 0 then Some (or_done dn ret, s1)
        else if ret = 0 then Some (uint dn, s1)
        else Option.bind (fs_copy_to_user (buf + ucast dn) bs (word_of_int ret) s1) (\<lambda>(c, s2).
          if c \<noteq> 0 then Some (or_done dn (- errno_val EFAULT), s2)
          else if (word_of_int ret :: u32) < chunk_of n dn then Some (uint (dn + word_of_int ret), s2)
          else read_user_loop env fd buf n (dn + word_of_int ret) s2)))"

definition sys_read :: "'d vfs_env \<Rightarrow> u32 \<Rightarrow> u64 \<Rightarrow> u32 \<Rightarrow> ('d, int) op" where
  "sys_read env fd buf n s = (if n = 0 then Some (0, s) else read_user_loop env fd buf n 0 s)"

partial_function (option) write_user_loop :: "'d vfs_env \<Rightarrow> u32 \<Rightarrow> u64 \<Rightarrow> u32 \<Rightarrow> u32 \<Rightarrow> 'd fs_state \<Rightarrow> (int \<times> 'd fs_state) option" where
  "write_user_loop env fd buf n dn s =
     (if n \<le> dn then Some (uint dn, s)
      else Option.bind (copy_from_user (fs_mm s) (buf + ucast dn) (chunk_of n dn)) (\<lambda>(c, bs).
        if c \<noteq> 0 then Some (or_done dn (- errno_val EFAULT), s)
        else Option.bind (fd_write env fd bs (chunk_of n dn) s) (\<lambda>(ret, s1).
          if ret < 0 then Some (or_done dn ret, s1)
          else if (word_of_int ret :: u32) < chunk_of n dn then Some (uint (dn + word_of_int ret), s1)
          else write_user_loop env fd buf n (dn + word_of_int ret) s1)))"

definition sys_write :: "'d vfs_env \<Rightarrow> u32 \<Rightarrow> u64 \<Rightarrow> u32 \<Rightarrow> ('d, int) op" where
  "sys_write env fd buf n s = (if n = 0 then Some (0, s) else write_user_loop env fd buf n 0 s)"

definition sys_lseek :: "'d vfs_env \<Rightarrow> u32 \<Rightarrow> u64 \<Rightarrow> int \<Rightarrow> ('d, int) op" where
  "sys_lseek env fd offset whence = fd_lseek env fd offset whence"

text \<open>The bytes of \<open>struct stat\<close>, with its padding cleared.\<close>

definition sizeof_stat :: u32 where "sizeof_stat = 64"

definition stat_bytes :: "stat \<Rightarrow> bytes" where
  "stat_bytes st =
     le_bytes 4 (unat (st_dev st)) @ le_bytes 4 (unat (st_ino st)) @ le_bytes 2 (unat (st_mode st)) @
     le_bytes 2 (unat (st_nlink st)) @ le_bytes 2 (unat (st_uid st)) @ le_bytes 2 (unat (st_gid st)) @
     replicate 8 0 @ le_bytes 8 (unat (st_size st)) @ le_bytes 4 (unat (st_blksize st)) @ replicate 4 0 @
     le_bytes 8 (unat (st_blocks st)) @ replicate 16 0"

definition put_stat :: "u64 \<Rightarrow> errno + stat \<Rightarrow> ('d, int) op" where
  "put_stat statbuf r s =
     (case r of
        Inl e \<Rightarrow> Some (- errno_val e, s)
      | Inr st \<Rightarrow> do {
          (c, s1) \<leftarrow> fs_copy_to_user statbuf (stat_bytes st) sizeof_stat s;
          Some (if c \<noteq> 0 then - errno_val EFAULT else 0, s1) })"

definition sys_newfstatat :: "'d vfs_env \<Rightarrow> u64 \<Rightarrow> u64 \<Rightarrow> ('d, int) op" where
  "sys_newfstatat env pathname statbuf =
     with_path pathname (\<lambda>path s. do { (r, s1) \<leftarrow> vfs_stat env path s; put_stat statbuf r s1 })"

definition sys_fstat :: "u32 \<Rightarrow> u64 \<Rightarrow> ('d, int) op" where
  "sys_fstat fd statbuf s = do { r \<leftarrow> fd_fstat s fd; put_stat statbuf r s }"

definition sys_unlinkat :: "'d vfs_env \<Rightarrow> u64 \<Rightarrow> ('d, int) op" where
  "sys_unlinkat env pathname =
     with_path pathname (\<lambda>path s. map_option (\<lambda>(r, s1). (err_int r, s1)) (vfs_unlink env path s))"

definition sys_mkdirat :: "'d vfs_env \<Rightarrow> u64 \<Rightarrow> u16 \<Rightarrow> ('d, int) op" where
  "sys_mkdirat env pathname mode =
     with_path pathname (\<lambda>path s. map_option (\<lambda>(r, s1). (err_int r, s1)) (vfs_mkdir env path mode s))"

definition sys_getdents64 :: "'d vfs_env \<Rightarrow> u32 \<Rightarrow> u64 \<Rightarrow> u32 \<Rightarrow> ('d, int) op" where
  "sys_getdents64 env fd buf n s = do {
     ((ret, bs), s1) \<leftarrow> fd_getdents64 env fd (if SYS_DENTS_BOUNCE < n then SYS_DENTS_BOUNCE else n) s;
     (if ret \<le> 0 then Some (ret, s1)
      else do {
        (c, s2) \<leftarrow> fs_copy_to_user buf bs (word_of_int ret) s1;
        Some (if c \<noteq> 0 then - errno_val EFAULT else ret, s2) }) }"

definition sys_chdir :: "'d vfs_env \<Rightarrow> u64 \<Rightarrow> ('d, int) op" where
  "sys_chdir env pathname =
     with_path pathname (\<lambda>path s. map_option (\<lambda>(r, s1). (err_int r, s1)) (fd_chdir env path s))"

definition sys_ioctl :: "'d vfs_env \<Rightarrow> u32 \<Rightarrow> u32 \<Rightarrow> u64 \<Rightarrow> ('d, int) op" where
  "sys_ioctl env fd cmd arg = fd_ioctl env fd cmd arg"

definition sys_mmap :: "'d vfs_env \<Rightarrow> u32 \<Rightarrow> u32 \<Rightarrow> u64 \<Rightarrow> ('d, int) op" where
  "sys_mmap env len' fd offset s =
     map_option (\<lambda>(r, s1). (case r of Inl e \<Rightarrow> - errno_val e | Inr uva \<Rightarrow> sint uva, s1)) (fd_mmap env fd len' offset s)"

end
