(* ===== verification/Ext4_Fs.thy ===== *)
theory Ext4_Fs
  imports Vfs_File Ext4_File
begin

text \<open>
  The ext4 file system as a backend of the VFS: mounting (\<open>kernel/fs/backend/ext4fs/super.c\<close>),
  creation and removal of names (\<open>namei.c\<close>), and the parts of \<open>inode.c\<close>, \<open>dir.c\<close> and \<open>file.c\<close> that work
  on cached inodes. The operations on the contents of an inode are those of the other ext4 theories;
  here they are applied to the inode at an address. The addresses of the static operation tables
  are fixed numbers, all different.
\<close>

section \<open>Tables and cached inodes\<close>

definition ext4_sops_addr :: u64 where "ext4_sops_addr = 0x10"
definition ext4_type_addr :: u64 where "ext4_type_addr = 0x40"

text \<open>The inode and the file system data of its super block.\<close>

definition node_at :: "'d fs_state \<Rightarrow> u64 \<Rightarrow> (inode \<times> ext4_sb) option" where
  "node_at s a = do {
     i \<leftarrow> fs_inode s a;
     b \<leftarrow> fs_sb s (i_sb i);
     info \<leftarrow> s_fs_info b;
     Some (i, info) }"

text \<open>Storing a changed inode; one that became dirty enters the list of dirty inodes.\<close>

definition put_node :: "u64 \<Rightarrow> inode \<Rightarrow> 'd blk_state \<Rightarrow> 'd fs_state \<Rightarrow> 'd fs_state" where
  "put_node a n bk s =
     s\<lparr>fs_blk := bk, fs_inode := (fs_inode s)(a \<mapsto> n),
       g_dirty_inodes := (case fs_inode s a of
           Some i \<Rightarrow> if en_dirty n \<and> \<not> en_dirty i then a # g_dirty_inodes s else g_dirty_inodes s
         | None \<Rightarrow> g_dirty_inodes s)\<rparr>"

section \<open>Super block operations\<close>

definition sizeof_ext4_inode_info :: u32 where "sizeof_ext4_inode_info = 200"

definition ext4_alloc_inode_stub :: "u64 \<Rightarrow> ('d, u64 option) op" where
  "ext4_alloc_inode_stub sb s = do {
     (p, s1) \<leftarrow> fs_kmalloc sizeof_inode s;
     (case p of
        None \<Rightarrow> Some (None, s1)
      | Some a \<Rightarrow> do {
          (q, s2) \<leftarrow> fs_cache_alloc (g_ext4_inode_cache s1) s1;
          (case q of
             None \<Rightarrow> do { s3 \<leftarrow> fs_kfree a s2; Some (None, s3) }
           | Some e \<Rightarrow> Some (Some a, s2\<lparr>fs_inode := (fs_inode s2)(a \<mapsto> zero_inode\<lparr>i_private := Some e,
                         en_info := Some (replicate sizeof_i_data 0)\<rparr>)\<rparr>)) }) }"

definition ext4_destroy_inode :: "u64 \<Rightarrow> ('d, unit) op" where
  "ext4_destroy_inode a s = do {
     i \<leftarrow> fs_inode s a;
     s1 \<leftarrow> (case i_private i of None \<Rightarrow> Some s | Some e \<Rightarrow> fs_cache_free (g_ext4_inode_cache s) e s);
     s2 \<leftarrow> fs_kfree a s1;
     Some ((), forget_inode a s2) }"

definition ext4_sop_write :: "'d ops_table \<Rightarrow> u64 \<Rightarrow> ('d, errno + unit) op" where
  "ext4_sop_write ops a s = do {
     (i, info) \<leftarrow> node_at s a;
     (r, bk) \<leftarrow> ext4_write_inode ops (fs_blk s) info i;
     Some (r, s\<lparr>fs_blk := bk\<rparr>) }"

definition ext4_sops :: "'d ops_table \<Rightarrow> 'd super_operations" where
  "ext4_sops ops = \<lparr>so_alloc_inode = Some ext4_alloc_inode_stub, so_destroy_inode = Some ext4_destroy_inode,
     so_write_inode = Some (ext4_sop_write ops)\<rparr>"

text \<open>The inode cache needs the tables of super block operations only.\<close>

definition no_sops :: "'d super_operations" where
  "no_sops = \<lparr>so_alloc_inode = None, so_destroy_inode = None, so_write_inode = None\<rparr>"

definition sop_tables :: "'d ops_table \<Rightarrow> u64 \<Rightarrow> 'd super_operations" where
  "sop_tables ops a = (if a = ext4_sops_addr then ext4_sops ops else no_sops)"

definition sop_env :: "'d ops_table \<Rightarrow> 'd vfs_env" where
  "sop_env ops = no_env\<lparr>ve_sop := sop_tables ops\<rparr>"

section \<open>Inodes\<close>

definition ext4_iget :: "'d ops_table \<Rightarrow> u64 \<Rightarrow> u64 \<Rightarrow> ('d, u64 option) op" where
  "ext4_iget ops sb ino s = do {
     (p, s1) \<leftarrow> iget (sop_env ops) sb ino s;
     (case p of
        None \<Rightarrow> Some (None, s1)
      | Some a \<Rightarrow> do {
          i \<leftarrow> fs_inode s1 a;
          (if en_mode i \<noteq> 0 then Some (Some a, s1)
           else do {
             (ok, s2) \<leftarrow>
               (case i_private i of
                  Some _ \<Rightarrow> Some (True, s1)
                | None \<Rightarrow> do {
                    (q, s') \<leftarrow> fs_cache_alloc (g_ext4_inode_cache s1) s1;
                    (case q of
                       None \<Rightarrow> Some (False, s')
                     | Some e \<Rightarrow> map_option (Pair True)
                         (upd_inode a (\<lambda>i. i\<lparr>i_private := Some e, en_info := Some (replicate sizeof_i_data 0)\<rparr>) s')) });
             (if \<not> ok then do { s3 \<leftarrow> iput (sop_env ops) (Some a) s2; Some (None, s3) }
              else do {
                (n, info) \<leftarrow> node_at s2 a;
                (r, bk) \<leftarrow> ext4_iget_fill ops (fs_blk s2) info n;
                (case r of
                   None \<Rightarrow> do { s3 \<leftarrow> iput (sop_env ops) (Some a) (s2\<lparr>fs_blk := bk\<rparr>); Some (None, s3) }
                 | Some n' \<Rightarrow> Some (Some a, put_node a n' bk s2)) }) }) }) }"

definition ext4_alloc_inode :: "'d ops_table \<Rightarrow> u64 \<Rightarrow> ('d, errno + unit) op" where
  "ext4_alloc_inode ops a s = do {
     (i, info) \<leftarrow> node_at s a;
     (r, bk) \<leftarrow> ext4_find_free_inode ops (fs_blk s) info;
     (case r of
        Inl e \<Rightarrow> Some (Inl e, s\<lparr>fs_blk := bk\<rparr>)
      | Inr ino \<Rightarrow> do {
          s1 \<leftarrow> upd_inode a (\<lambda>i. i\<lparr>en_ino := ucast ino\<rparr>) (s\<lparr>fs_blk := bk\<rparr>);
          (q, s2) \<leftarrow> fs_cache_alloc (g_ext4_inode_cache s1) s1;
          (case q of
             None \<Rightarrow> Some (Inl ENOMEM, s2)
           | Some e \<Rightarrow> map_option (Pair (Inr ()))
               (upd_inode a (\<lambda>i. i\<lparr>i_private := Some e, en_info := Some (replicate sizeof_i_data 0)\<rparr>) s2)) }) }"

section \<open>Names\<close>

definition ext4_dir_lookup :: "'d ops_table \<Rightarrow> u64 \<Rightarrow> u64 \<Rightarrow> ('d, errno + u64 option) op" where
  "ext4_dir_lookup ops dir dentry s = do {
     (i, info) \<leftarrow> node_at s dir;
     d \<leftarrow> fs_dentry s dentry;
     (r, bk) \<leftarrow> ext4_lookup ops (fs_blk s) info i (d_name d);
     let s1 = s\<lparr>fs_blk := bk\<rparr>;
     (case r of
        Inl e \<Rightarrow> Some (Inl e, s1)
      | Inr None \<Rightarrow> Some (Inr None, s1)
      | Inr (Some ino) \<Rightarrow> do {
          (p, s2) \<leftarrow> ext4_iget ops (i_sb i) (ucast ino) s1;
          (case p of
             None \<Rightarrow> Some (Inl EIO, s2)
           | Some a \<Rightarrow> do { s3 \<leftarrow> d_instantiate (Some dentry) (Some a) s2; Some (Inr (Some dentry), s3) }) }) }"

text \<open>The extent header of a new file.\<close>

definition new_extent_header :: "bytes \<Rightarrow> bytes option" where
  "new_extent_header d = do {
     d1 \<leftarrow> put_le 2 d 0 EXT4_EXTENT_HEADER_MAGIC;
     d2 \<leftarrow> put_le 2 d1 2 (0 :: u16);
     d3 \<leftarrow> put_le 2 d2 4 (of_nat ((sizeof_i_data - 12) div 12) :: u16);
     put_le 2 d3 6 (0 :: u16) }"

text \<open>A new inode with its number, mode, links and tables, in the cache and with an empty extent map.\<close>

definition ext4_new_node :: "'d ops_table \<Rightarrow> u64 \<Rightarrow> u16 \<Rightarrow> u32 \<Rightarrow> ('d, errno + u64) op" where
  "ext4_new_node ops dir mode links s = do {
     di \<leftarrow> fs_inode s dir;
     (p, s1) \<leftarrow> new_inode (sop_env ops) (i_sb di) s;
     (case p of
        None \<Rightarrow> Some (Inl ENOMEM, s1)
      | Some a \<Rightarrow> do {
          (r, s2) \<leftarrow> ext4_alloc_inode ops a s1;
          (case r of
             Inl e \<Rightarrow> do { s3 \<leftarrow> iput (sop_env ops) (Some a) s2; Some (Inl e, s3) }
           | Inr _ \<Rightarrow> do {
               s3 \<leftarrow> upd_inode a (\<lambda>i. set_ext4_ops (i\<lparr>en_mode := mode, en_nlink := links, en_uid := 0, en_gid := 0,
                       en_size := 0, en_blocks := 0\<rparr>)) s2;
               s4 \<leftarrow> insert_inode_hash (Some a) s3;
               i \<leftarrow> fs_inode s4 a;
               d \<leftarrow> en_info i;
               d' \<leftarrow> new_extent_header d;
               map_option (Pair (Inr a)) (upd_inode a (\<lambda>i. i\<lparr>en_info := Some d'\<rparr>) s4) }) }) }"

text \<open>Entering a name into a directory, and giving the inode back when that fails.\<close>

definition enter_name :: "'d ops_table \<Rightarrow> u64 \<Rightarrow> u64 \<Rightarrow> u64 \<Rightarrow> u8 \<Rightarrow> ('d, errno + unit) op" where
  "enter_name ops dir dentry a ty s = do {
     (di, info) \<leftarrow> node_at s dir;
     d \<leftarrow> fs_dentry s dentry;
     i \<leftarrow> fs_inode s a;
     (r, bk, di') \<leftarrow> ext4_add_entry ops (fs_blk s) info di (d_name d) (ucast (en_ino i)) ty;
     let s1 = put_node dir di' bk s;
     (case r of
        Inl e \<Rightarrow> do { s2 \<leftarrow> iput (sop_env ops) (Some a) s1; Some (Inl e, s2) }
      | Inr _ \<Rightarrow> Some (Inr (), s1)) }"

definition ext4_create :: "'d ops_table \<Rightarrow> u64 \<Rightarrow> u64 \<Rightarrow> u16 \<Rightarrow> ('d, errno + unit) op" where
  "ext4_create ops dir dentry mode s = do {
     (p, s1) \<leftarrow> ext4_new_node ops dir ((mode AND NOT S_IFMT) OR S_IFREG) 1 s;
     (case p of
        Inl e \<Rightarrow> Some (Inl e, s1)
      | Inr a \<Rightarrow> do {
          (r, s2) \<leftarrow> enter_name ops dir dentry a EXT4_FT_REG_FILE s1;
          (case r of
             Inl e \<Rightarrow> Some (Inl e, s2)
           | Inr _ \<Rightarrow> do {
               s3 \<leftarrow> mark_dirty a s2;
               map_option (Pair (Inr ())) (d_instantiate (Some dentry) (Some a) s3) }) }) }"

definition ext4_mkdir :: "'d ops_table \<Rightarrow> u64 \<Rightarrow> u64 \<Rightarrow> u16 \<Rightarrow> ('d, errno + unit) op" where
  "ext4_mkdir ops dir dentry mode s = do {
     (p, s1) \<leftarrow> ext4_new_node ops dir ((mode AND NOT S_IFMT) OR S_IFDIR) 2 s;
     (case p of
        Inl e \<Rightarrow> Some (Inl e, s1)
      | Inr a \<Rightarrow> do {
          (n, info) \<leftarrow> node_at s1 a;
          di \<leftarrow> fs_inode s1 dir;
          (r, bk, n') \<leftarrow> ext4_make_empty ops (fs_blk s1) info n (en_ino di);
          let s2 = put_node a n' bk s1;
          (case r of
             Inl e \<Rightarrow> do { s3 \<leftarrow> iput (sop_env ops) (Some a) s2; Some (Inl e, s3) }
           | Inr _ \<Rightarrow> do {
               (q, s3) \<leftarrow> enter_name ops dir dentry a EXT4_FT_DIR s2;
               (case q of
                  Inl e \<Rightarrow> Some (Inl e, s3)
                | Inr _ \<Rightarrow> do {
                    s4 \<leftarrow> upd_inode dir (\<lambda>i. i\<lparr>en_nlink := en_nlink i + 1\<rparr>) s3;
                    s5 \<leftarrow> mark_dirty dir s4;
                    s6 \<leftarrow> mark_dirty a s5;
                    map_option (Pair (Inr ())) (d_instantiate (Some dentry) (Some a) s6) }) }) }) }"

definition remove_name :: "'d ops_table \<Rightarrow> u64 \<Rightarrow> u64 \<Rightarrow> ('d, errno + unit) op" where
  "remove_name ops dir dentry s = do {
     (di, info) \<leftarrow> node_at s dir;
     d \<leftarrow> fs_dentry s dentry;
     (r, bk) \<leftarrow> ext4_delete_entry ops (fs_blk s) info di (d_name d);
     Some (r, s\<lparr>fs_blk := bk\<rparr>) }"

definition truncate_at :: "u64 \<Rightarrow> 'd fs_state \<Rightarrow> 'd fs_state option" where
  "truncate_at a s = do { i \<leftarrow> fs_inode s a; Some (put_node a (snd (ext4_truncate_blocks i)) (fs_blk s) s) }"

definition ext4_unlink :: "'d ops_table \<Rightarrow> u64 \<Rightarrow> u64 \<Rightarrow> ('d, errno + unit) op" where
  "ext4_unlink ops dir dentry s = do {
     d \<leftarrow> fs_dentry s dentry;
     (case d_inode d of
        None \<Rightarrow> Some (Inl ENOENT, s)
      | Some a \<Rightarrow> do {
          (r, s1) \<leftarrow> remove_name ops dir dentry s;
          (case r of
             Inl e \<Rightarrow> Some (Inl e, s1)
           | Inr _ \<Rightarrow> do {
               s2 \<leftarrow> upd_inode a (\<lambda>i. i\<lparr>en_nlink := en_nlink i - 1\<rparr>) s1;
               i \<leftarrow> fs_inode s2 a;
               s3 \<leftarrow> (if en_nlink i = 0 then truncate_at a s2 else Some s2);
               map_option (Pair (Inr ())) (mark_dirty a s3) }) }) }"

definition ext4_rmdir :: "'d ops_table \<Rightarrow> u64 \<Rightarrow> u64 \<Rightarrow> ('d, errno + unit) op" where
  "ext4_rmdir ops dir dentry s = do {
     d \<leftarrow> fs_dentry s dentry;
     (case d_inode d of
        None \<Rightarrow> Some (Inl ENOENT, s)
      | Some a \<Rightarrow> do {
          (i, info) \<leftarrow> node_at s a;
          (if \<not> S_ISDIR (en_mode i) then Some (Inl ENOTDIR, s)
           else do {
             (e, bk) \<leftarrow> ext4_dir_is_empty ops (fs_blk s) info i;
             let s0 = s\<lparr>fs_blk := bk\<rparr>;
             (if e \<noteq> Inr True then Some (Inl ENOTEMPTY, s0)
              else do {
                (r, s1) \<leftarrow> remove_name ops dir dentry s0;
                (case r of
                   Inl e \<Rightarrow> Some (Inl e, s1)
                 | Inr _ \<Rightarrow> do {
                     s2 \<leftarrow> upd_inode a (\<lambda>i. i\<lparr>en_nlink := 0\<rparr>) s1;
                     s3 \<leftarrow> truncate_at a s2;
                     s4 \<leftarrow> mark_dirty a s3;
                     s5 \<leftarrow> upd_inode dir (\<lambda>i. i\<lparr>en_nlink := en_nlink i - 1\<rparr>) s4;
                     map_option (Pair (Inr ())) (mark_dirty dir s5) }) }) }) }) }"

definition ext4_dir_iops :: "'d ops_table \<Rightarrow> 'd inode_operations" where
  "ext4_dir_iops ops = \<lparr>io_lookup = Some (ext4_dir_lookup ops), io_create = Some (ext4_create ops),
     io_mkdir = Some (ext4_mkdir ops), io_unlink = Some (ext4_unlink ops), io_rmdir = Some (ext4_rmdir ops)\<rparr>"

section \<open>Files\<close>

definition ext4_fop_read :: "'d ops_table \<Rightarrow> u64 \<Rightarrow> u32 \<Rightarrow> u64 \<Rightarrow> ('d, int \<times> bytes \<times> u64) op" where
  "ext4_fop_read ops fa n pos s = do {
     f \<leftarrow> fs_file s fa;
     (a, _) \<leftarrow> inode_of s (f_dentry f);
     (i, info) \<leftarrow> node_at s a;
     (ret, bs, pos', bk) \<leftarrow> ext4_file_read ops (fs_blk s) info i pos n;
     Some ((ret, bs, pos'), s\<lparr>fs_blk := bk\<rparr>) }"

definition ext4_fop_write :: "'d ops_table \<Rightarrow> u64 \<Rightarrow> bytes \<Rightarrow> u32 \<Rightarrow> u64 \<Rightarrow> ('d, int \<times> u64) op" where
  "ext4_fop_write ops fa buf n pos s = do {
     f \<leftarrow> fs_file s fa;
     (a, _) \<leftarrow> inode_of s (f_dentry f);
     (i, info) \<leftarrow> node_at s a;
     (ret, pos', bk, i') \<leftarrow> ext4_file_write ops (fs_blk s) info i pos buf n;
     Some ((ret, pos'), put_node a i' bk s) }"

definition ext4_fop_iterate :: "'d ops_table \<Rightarrow> u64 \<Rightarrow> u64 \<Rightarrow> getdents_ctx \<Rightarrow> ('d, int \<times> u64 \<times> getdents_ctx) op" where
  "ext4_fop_iterate ops fa pos ctx s = do {
     f \<leftarrow> fs_file s fa;
     (a, _) \<leftarrow> inode_of s (f_dentry f);
     (i, info) \<leftarrow> node_at s a;
     (ret, pos', ctx', bk) \<leftarrow> ext4_iterate ops (fs_blk s) info i filldir pos ctx;
     Some ((ret, pos', ctx'), s\<lparr>fs_blk := bk\<rparr>) }"

definition no_fops :: "'d file_operations" where
  "no_fops = \<lparr>fo_open = None, fo_release = None, fo_read = None, fo_write = None, fo_llseek = None,
     fo_iterate = None, fo_ioctl = None, fo_mmap = None\<rparr>"

definition ext4_file_fops :: "'d ops_table \<Rightarrow> 'd file_operations" where
  "ext4_file_fops ops = no_fops\<lparr>fo_read := Some (ext4_fop_read ops), fo_write := Some (ext4_fop_write ops)\<rparr>"

definition ext4_dir_fops :: "'d ops_table \<Rightarrow> 'd file_operations" where
  "ext4_dir_fops ops = no_fops\<lparr>fo_iterate := Some (ext4_fop_iterate ops)\<rparr>"

section \<open>Mounting\<close>

definition EXT4_ROOT_INO :: u64 where "EXT4_ROOT_INO = 2"
definition EXT4_SUPER_MAGIC :: u16 where "EXT4_SUPER_MAGIC = 0xEF53"
definition EXT4_SUPERBLOCK_OFFSET :: u32 where "EXT4_SUPERBLOCK_OFFSET = 1024"
definition EXT4_SUPERBLOCK_SIZE :: u32 where "EXT4_SUPERBLOCK_SIZE = 1024"
definition EXT4_FEATURE_INCOMPAT_EXTENTS :: u32 where "EXT4_FEATURE_INCOMPAT_EXTENTS = 0x40"
definition EXT4_FEATURE_INCOMPAT_64BIT :: u32 where "EXT4_FEATURE_INCOMPAT_64BIT = 0x80"
definition sizeof_ext4_sb_info :: u32 where "sizeof_ext4_sb_info = 48"

text \<open>The super block is read at an offset of a buffer.\<close>

definition ext4_check_superblock :: "bytes \<Rightarrow> nat \<Rightarrow> (errno + unit) option" where
  "ext4_check_superblock d off = do {
     magic \<leftarrow> get_le 2 d (off + 56);
     inc \<leftarrow> get_le 4 d (off + 96);
     Some (if magic \<noteq> EXT4_SUPER_MAGIC then Inl EINVAL
           else if (inc :: u32) AND EXT4_FEATURE_INCOMPAT_64BIT \<noteq> 0 then Inl EINVAL
           else if inc AND EXT4_FEATURE_INCOMPAT_EXTENTS = 0 then Inl EINVAL
           else Inr ()) }"

text \<open>\<open>1024 << log\<close> leaves the range of \<open>int\<close> from 21 on, which is undefined.\<close>

definition block_size_of :: "u32 \<Rightarrow> u32 option" where
  "block_size_of log = (if 20 < log then None else Some (push_bit (unat log) 1024))"

definition ext4_sbi :: "bytes \<Rightarrow> nat \<Rightarrow> u64 option \<Rightarrow> u32 \<Rightarrow> ext4_sb option" where
  "ext4_sbi d off bdev bs = do {
     ipg \<leftarrow> get_le 4 d (off + 40);
     bpg \<leftarrow> get_le 4 d (off + 32);
     fdb \<leftarrow> get_le 4 d (off + 20);
     log \<leftarrow> get_le 4 d (off + 24);
     isz \<leftarrow> get_le 2 d (off + 88);
     blocks \<leftarrow> get_le 4 d (off + 4);
     (if bpg = 0 then None
      else Some \<lparr>es_bdev = bdev, es_blocksize = bs, es_group_desc = [], es_inodes_per_group = ipg, es_blocks_per_group = bpg,
        es_groups_count = (blocks - fdb + bpg - 1) div bpg, es_first_data_block = fdb, es_log_block_size = log,
        es_inode_size = ucast (isz :: u16)\<rparr>) }"

definition desc_per_block :: "u32 \<Rightarrow> u32" where
  "desc_per_block bs = (if bs div 32 = 0 then 1 else bs div 32)"

fun read_group_descs :: "'d ops_table \<Rightarrow> 'd blk_state \<Rightarrow> u64 option \<Rightarrow> u32 \<Rightarrow> nat list \<Rightarrow> bkey list \<Rightarrow> (bkey list option \<times> 'd blk_state) option" where
  "read_group_descs ops s bdev first [] acc = Some (Some acc, s)"
| "read_group_descs ops s bdev first (i # is) acc = do {
     (bh, s1) \<leftarrow> sb_bread ops s bdev (ucast (first + 1 + of_nat i));
     (case bh of
        None \<Rightarrow> Some (None, s1)
      | Some k \<Rightarrow> read_group_descs ops s1 bdev first is (acc @ [k])) }"

definition upd_sb :: "u64 \<Rightarrow> (super_block \<Rightarrow> super_block) \<Rightarrow> 'd fs_state \<Rightarrow> 'd fs_state option" where
  "upd_sb a f s = map_option (\<lambda>b. s\<lparr>fs_sb := (fs_sb s)(a \<mapsto> f b)\<rparr>) (fs_sb s a)"

text \<open>
  The block size of the device and of the super block is set from the first copy of the super block,
  which is read from the device in its own blocks.
\<close>

definition ext4_block_size :: "'d ops_table \<Rightarrow> u64 \<Rightarrow> u64 \<Rightarrow> ('d, errno + u32 \<times> u32) op" where
  "ext4_block_size ops sb bdev s = do {
     let dbs = bd_block_size (bk_bdev (fs_blk s) bdev);
     (if dbs = 0 then None
      else
        (case bdev_read_blocks ops (fs_blk s) (Some bdev) (ucast (EXT4_SUPERBLOCK_OFFSET div dbs)) (EXT4_SUPERBLOCK_SIZE div dbs) of
           (Inl e, bk) \<Rightarrow> Some (Inl e, s\<lparr>fs_blk := bk\<rparr>)
         | (Inr super_buf, bk) \<Rightarrow> do {
             log \<leftarrow> get_le 4 super_buf (unat (EXT4_SUPERBLOCK_OFFSET mod dbs) + 24);
             bs \<leftarrow> block_size_of log;
             let bk1 = upd_bdev bk bdev (\<lambda>d. d\<lparr>bd_block_size := bs, bd_block_size_bits := 10 + ucast log\<rparr>);
             s1 \<leftarrow> upd_sb sb (\<lambda>b. b\<lparr>s_blocksize := ucast bs, s_blocksize_bits := 10 + ucast log\<rparr>) (s\<lparr>fs_blk := bk1\<rparr>);
             Some (Inr (bs, log), s1) })) }"

definition ext4_make_root :: "'d ops_table \<Rightarrow> u64 \<Rightarrow> ('d, errno + unit) op" where
  "ext4_make_root ops sb s = do {
     (c, s1) \<leftarrow> fs_slab (\<lambda>m. kmem_cache_create m (cstr_of ''ext4_inode_info'') sizeof_ext4_inode_info 8) s;
     (p, s2) \<leftarrow> ext4_iget ops sb EXT4_ROOT_INO (s1\<lparr>g_ext4_inode_cache := c\<rparr>);
     (case p of
        None \<Rightarrow> Some (Inl EIO, s2)
      | Some a \<Rightarrow> do {
          (q, s3) \<leftarrow> d_alloc None (Some (cstr_of ''/'')) s2;
          (case q of
             None \<Rightarrow> Some (Inl ENOMEM, s3)
           | Some d \<Rightarrow> do {
               s4 \<leftarrow> d_instantiate (Some d) (Some a) s3;
               map_option (Pair (Inr ())) (upd_sb sb (\<lambda>b. b\<lparr>s_root := Some d\<rparr>) s4) }) }) }"

definition ext4_fill_super :: "'d ops_table \<Rightarrow> u64 \<Rightarrow> ('d, errno + unit) op" where
  "ext4_fill_super ops sb s = do {
     b \<leftarrow> fs_sb s sb;
     bdev \<leftarrow> s_bdev b;
     (r, s1) \<leftarrow> ext4_block_size ops sb bdev s;
     (case r of
        Inl e \<Rightarrow> Some (Inl e, s1)
      | Inr (bs, log) \<Rightarrow> do {
          (bh, bk) \<leftarrow> sb_bread ops (fs_blk s1) (Some bdev) (ucast (EXT4_SUPERBLOCK_OFFSET div bs));
          let s2 = s1\<lparr>fs_blk := bk\<rparr>;
          (case bh of
             None \<Rightarrow> Some (Inl EIO, s2)
           | Some k \<Rightarrow> do {
               d \<leftarrow> buf_data bk k;
               let off = unat (EXT4_SUPERBLOCK_OFFSET mod bs);
               c \<leftarrow> ext4_check_superblock d off;
               (case c of
                  Inl e \<Rightarrow> Some (Inl e, s2)
                | Inr _ \<Rightarrow> do {
                    (p, s3) \<leftarrow> fs_kmalloc sizeof_ext4_sb_info s2;
                    (case p of
                       None \<Rightarrow> Some (Inl ENOMEM, s3)
                     | Some _ \<Rightarrow> do {
                         sbi \<leftarrow> ext4_sbi d off (Some bdev) bs;
                         let gd = (es_groups_count sbi + desc_per_block bs - 1) div desc_per_block bs;
                         s4 \<leftarrow> upd_sb sb (\<lambda>b. b\<lparr>s_blocksize := ucast bs, s_blocksize_bits := 10 + ucast (es_log_block_size sbi),
                                 s_fs_info := Some sbi\<rparr>) s3;
                         (q, s5) \<leftarrow> fs_kmalloc (gd * 8) s4;
                         (case q of
                            None \<Rightarrow> Some (Inl ENOMEM, s5)
                          | Some _ \<Rightarrow> do {
                              (ks, bk5) \<leftarrow> read_group_descs ops (fs_blk s5) (Some bdev) (es_first_data_block sbi) [0 ..< unat gd] [];
                              (case ks of
                                 None \<Rightarrow> Some (Inl EIO, s5\<lparr>fs_blk := bk5\<rparr>)
                               | Some keys \<Rightarrow> do {
                                   s6 \<leftarrow> upd_sb sb (\<lambda>b. b\<lparr>s_fs_info := Some (sbi\<lparr>es_group_desc := keys\<rparr>)\<rparr>) (s5\<lparr>fs_blk := bk5\<rparr>);
                                   ext4_make_root ops sb s6 }) }) }) }) }) }) }"

definition ext4_mount :: "'d ops_table \<Rightarrow> u64 \<Rightarrow> cstr \<Rightarrow> ('d, u64 option) op" where
  "ext4_mount ops fs dev_name s = do {
     (p, bk) \<leftarrow> bdev_get_by_name ops (fs_blk s) dev_name;
     let s1 = s\<lparr>fs_blk := bk\<rparr>;
     (case p of
        None \<Rightarrow> Some (None, s1)
      | Some bdev \<Rightarrow> do {
          (q, s2) \<leftarrow> sb_alloc fs s1;
          (case q of
             None \<Rightarrow> do { bk' \<leftarrow> bdev_put ops (fs_blk s2) (Some bdev); Some (None, s2\<lparr>fs_blk := bk'\<rparr>) }
           | Some sb \<Rightarrow> do {
               s3 \<leftarrow> upd_sb sb (\<lambda>b. b\<lparr>s_bdev := Some bdev, s_dev := bd_dev (bk_bdev (fs_blk s2) bdev), s_op := Some ext4_sops_addr\<rparr>) s2;
               (r, s4) \<leftarrow> ext4_fill_super ops sb s3;
               (case r of
                  Inl _ \<Rightarrow> do {
                    bk' \<leftarrow> bdev_put ops (fs_blk s4) (Some bdev);
                    s5 \<leftarrow> fs_kfree sb (s4\<lparr>fs_blk := bk'\<rparr>);
                    Some (None, s5\<lparr>fs_sb := (fs_sb s5)(sb := None)\<rparr>) }
                | Inr _ \<Rightarrow> Some (Some sb, sb_add sb s4)) }) }) }"

definition ext4_kill_sb :: "'d ops_table \<Rightarrow> u64 \<Rightarrow> ('d, unit) op" where
  "ext4_kill_sb ops sb s = do {
     b \<leftarrow> fs_sb s sb;
     bk \<leftarrow> bdev_put ops (fs_blk s) (s_bdev b);
     Some ((), s\<lparr>fs_blk := bk\<rparr>) }"

definition ext4_fs_type :: "'d ops_table \<Rightarrow> 'd file_system_type" where
  "ext4_fs_type ops = \<lparr>ft_name = Some (cstr_of ''ext4''), ft_mount = Some (ext4_mount ops), ft_kill_sb = Some (ext4_kill_sb ops)\<rparr>"

end
