(* ===== verification/Devfs.thy ===== *)
theory Devfs
  imports Ext4_Fs
begin

text \<open>
  The file system of devices (\<open>kernel/fs/backend/devfs/devfs.c\<close> and \<open>fb0.c\<close>): a directory with the
  console and the frame buffer. The console driver and the frame buffer driver are arguments
  (\<open>dev_env\<close>): receiving and sending a character, the registered frame buffer and its flush operation.
  At the end stand the tables of all backends together.
\<close>

section \<open>The console\<close>

record 'd fb_info =
  fi_width :: u32
  fi_height :: u32
  fi_stride :: u32
  fi_format :: u32
  fi_screen_size :: u64
  fi_phys_base :: u64
  fi_flush :: "('d \<Rightarrow> int \<times> 'd) option"

record 'd dev_env =
  uart_getc :: "'d \<Rightarrow> u8 \<times> 'd"
  uart_putc :: "u8 \<Rightarrow> 'd \<Rightarrow> 'd"
  fb_get_info :: "u64 option"
  fb_info_at :: "u64 \<Rightarrow> 'd fb_info"

definition set_hw :: "'d \<Rightarrow> 'd fs_state \<Rightarrow> 'd fs_state" where
  "set_hw h s = s\<lparr>fs_blk := (fs_blk s)\<lparr>bk_hw := h\<rparr>\<rparr>"

fun getc_loop :: "'d dev_env \<Rightarrow> nat \<Rightarrow> 'd \<Rightarrow> bytes \<times> 'd" where
  "getc_loop dv 0 h = ([], h)"
| "getc_loop dv (Suc n) h = (let (c, h1) = uart_getc dv h; (cs, h2) = getc_loop dv n h1 in (c # cs, h2))"

definition console_read :: "'d dev_env \<Rightarrow> u64 \<Rightarrow> u32 \<Rightarrow> u64 \<Rightarrow> ('d, int \<times> bytes \<times> u64) op" where
  "console_read dv fa n pos s =
     (let (cs, h) = getc_loop dv (unat n) (bk_hw (fs_blk s)) in Some ((sint n, cs, pos), set_hw h s))"

definition console_write :: "'d dev_env \<Rightarrow> u64 \<Rightarrow> bytes \<Rightarrow> u32 \<Rightarrow> u64 \<Rightarrow> ('d, int \<times> u64) op" where
  "console_write dv fa buf n pos s =
     (if length buf < unat n then None
      else Some ((sint n, pos), set_hw (fold (uart_putc dv) (take (unat n) buf) (bk_hw (fs_blk s))) s))"

definition console_fops :: "'d dev_env \<Rightarrow> 'd file_operations" where
  "console_fops dv = no_fops\<lparr>fo_read := Some (console_read dv), fo_write := Some (console_write dv)\<rparr>"

definition console_fop_addr :: u64 where "console_fop_addr = 0x32"
definition fb0_fop_addr :: u64 where "fb0_fop_addr = 0x33"
definition devfs_dir_fop_addr :: u64 where "devfs_dir_fop_addr = 0x34"
definition devfs_dir_iop_addr :: u64 where "devfs_dir_iop_addr = 0x22"
definition devfs_type_addr :: u64 where "devfs_type_addr = 0x41"

lemmas table_addrs = ext4_sops_addr_def ext4_dir_iop_addr_def ext4_file_iop_addr_def ext4_dir_fop_addr_def
  ext4_file_fop_addr_def ext4_type_addr_def console_fop_addr_def fb0_fop_addr_def devfs_dir_fop_addr_def
  devfs_dir_iop_addr_def devfs_type_addr_def

text \<open>A new inode of a device: its number, mode, links and file operations.\<close>

definition dev_inode :: "'d ops_table \<Rightarrow> u64 \<Rightarrow> u64 \<Rightarrow> u16 \<Rightarrow> u32 \<Rightarrow> u64 option \<Rightarrow> u64 \<Rightarrow> ('d, u64 option) op" where
  "dev_inode ops sb ino mode links iop fop s = do {
     (p, s1) \<leftarrow> new_inode (sop_env ops) sb s;
     (case p of
        None \<Rightarrow> Some (None, s1)
      | Some a \<Rightarrow> map_option (Pair (Some a)) (upd_inode a (\<lambda>i. i\<lparr>en_ino := ino, en_mode := mode, en_nlink := links,
          en_uid := 0, en_gid := 0, en_size := 0, i_op := (if iop = None then i_op i else iop), i_fop := Some fop\<rparr>) s1)) }"

definition devfs_new_console_inode :: "'d ops_table \<Rightarrow> u64 \<Rightarrow> ('d, u64 option) op" where
  "devfs_new_console_inode ops sb = dev_inode ops sb 2 (S_IFCHR OR 0x1B6) 1 None console_fop_addr"

section \<open>The frame buffer\<close>

definition devfs_new_fb0_inode :: "'d ops_table \<Rightarrow> u64 \<Rightarrow> ('d, u64 option) op" where
  "devfs_new_fb0_inode ops sb = dev_inode ops sb 3 (S_IFCHR OR 0x1B6) 1 None fb0_fop_addr"

definition fb0_open :: "'d dev_env \<Rightarrow> u64 \<Rightarrow> u64 \<Rightarrow> ('d, errno + unit) op" where
  "fb0_open dv ia fa s =
     (case fb_get_info dv of
        None \<Rightarrow> Some (Inl ENODEV, s)
      | Some info \<Rightarrow> map_option (Pair (Inr ())) (upd_file fa (\<lambda>f. f\<lparr>f_private := Some info\<rparr>) s))"

definition fb0_release :: "u64 option \<Rightarrow> u64 \<Rightarrow> ('d, unit) op" where
  "fb0_release ia fa s = map_option (Pair ()) (upd_file fa (\<lambda>f. f\<lparr>f_private := None\<rparr>) s)"

definition FBIOGET_INFO :: u32 where "FBIOGET_INFO = 0x4600"
definition FBIO_FLUSH :: u32 where "FBIO_FLUSH = 0x4601"

definition fb_req_bytes :: "'d fb_info \<Rightarrow> bytes" where
  "fb_req_bytes info = le_bytes 4 (unat (fi_width info)) @ le_bytes 4 (unat (fi_height info)) @
     le_bytes 4 (unat (fi_stride info)) @ le_bytes 4 (unat (fi_format info)) @ le_bytes 8 (unat (fi_screen_size info))"

definition fb0_ioctl :: "'d dev_env \<Rightarrow> u64 \<Rightarrow> u32 \<Rightarrow> u64 \<Rightarrow> ('d, int) op" where
  "fb0_ioctl dv fa cmd arg s = do {
     f \<leftarrow> fs_file s fa;
     (case f_private f of
        None \<Rightarrow> Some (- errno_val ENODEV, s)
      | Some p \<Rightarrow>
          let info = fb_info_at dv p in
          if cmd = FBIOGET_INFO
          then do {
            (c, m) \<leftarrow> copy_to_user (bk_mm (fs_blk s)) arg (fb_req_bytes info) 24;
            Some (if c \<noteq> 0 then - errno_val EFAULT else 0, set_mm s m) }
          else if cmd = FBIO_FLUSH
          then (case fi_flush info of
                  None \<Rightarrow> Some (- errno_val ENODEV, s)
                | Some fl \<Rightarrow> (case fl (bk_hw (fs_blk s)) of (r, h) \<Rightarrow> Some (r, set_hw h s)))
          else Some (- errno_val ENOTTY, s)) }"

definition fb0_mmap :: "'d dev_env \<Rightarrow> u64 \<Rightarrow> u32 \<Rightarrow> u64 \<Rightarrow> ('d, errno + u64) op" where
  "fb0_mmap dv fa n offset s = do {
     f \<leftarrow> fs_file s fa;
     let vs_cap = cur_vspace_cap (bk_mm (fs_blk s));
     (case f_private f of
        None \<Rightarrow> Some (Inl EINVAL, s)
      | Some p \<Rightarrow>
          let info = fb_info_at dv p; sz = (ucast (ALIGN_UP (fi_screen_size info) PAGE_SIZE) :: u32) in
          if vs_cap = CAP_NULL then Some (Inl EINVAL, s)
          else if n < sz then Some (Inl EINVAL, s)
          else do {
            (r, m) \<leftarrow> mm_map_user_pages (bk_mm (fs_blk s)) vs_cap (fi_phys_base info) sz (VM_READ OR VM_WRITE OR VM_DEVICE);
            Some (r, set_mm s m) }) }"

definition fb0_fops :: "'d dev_env \<Rightarrow> 'd file_operations" where
  "fb0_fops dv = no_fops\<lparr>fo_open := Some (fb0_open dv), fo_release := Some fb0_release,
     fo_ioctl := Some (fb0_ioctl dv), fo_mmap := Some (fb0_mmap dv)\<rparr>"

section \<open>The directory\<close>

definition devfs_lookup :: "'d ops_table \<Rightarrow> u64 \<Rightarrow> u64 \<Rightarrow> ('d, errno + u64 option) op" where
  "devfs_lookup ops dir dentry s = do {
     d \<leftarrow> fs_dentry s dentry;
     i \<leftarrow> fs_inode s dir;
     (if d_name d = cstr_of ''console'' \<or> d_name d = cstr_of ''fb0''
      then do {
        (p, s1) \<leftarrow> (if d_name d = cstr_of ''console'' then devfs_new_console_inode ops (i_sb i) s
                    else devfs_new_fb0_inode ops (i_sb i) s);
        (case p of
           None \<Rightarrow> Some (Inl ENOMEM, s1)
         | Some a \<Rightarrow> do { s2 \<leftarrow> d_instantiate (Some dentry) (Some a) s1; Some (Inr (Some dentry), s2) }) }
      else Some (Inr None, s)) }"

definition devfs_entries :: "(cstr \<times> u32 \<times> u32) list" where
  "devfs_entries = [(cstr_of ''.'', 1, 4), (cstr_of ''..'', 1, 4), (cstr_of ''console'', 2, 2), (cstr_of ''fb0'', 3, 2)]"

fun devfs_loop :: "'c dir_actor \<Rightarrow> nat \<Rightarrow> (cstr \<times> u32 \<times> u32) list \<Rightarrow> u64 \<Rightarrow> 'c \<Rightarrow> u64 \<times> 'c" where
  "devfs_loop actor i [] pos c = (pos, c)"
| "devfs_loop actor i ((name, ino, ty) # es) pos c =
     (case actor c name (of_nat (i + 1)) ino ty of
        (r, c1) \<Rightarrow> if r \<noteq> 0 then (pos, c1) else devfs_loop actor (i + 1) es (of_nat (i + 1)) c1)"

text \<open>The start index is the position cut to 32 bits.\<close>

definition devfs_iterate :: "u64 \<Rightarrow> u64 \<Rightarrow> getdents_ctx \<Rightarrow> ('d, int \<times> u64 \<times> getdents_ctx) op" where
  "devfs_iterate fa pos ctx s =
     (if sint pos < 0 then Some ((- errno_val EINVAL, pos, ctx), s)
      else
        let i = unat (ucast pos :: u32) in
        (case devfs_loop filldir i (drop i devfs_entries) pos ctx of (pos', ctx') \<Rightarrow> Some ((0, pos', ctx'), s)))"

definition devfs_dir_iops :: "'d ops_table \<Rightarrow> 'd inode_operations" where
  "devfs_dir_iops ops = \<lparr>io_lookup = Some (devfs_lookup ops), io_create = None, io_mkdir = None, io_unlink = None, io_rmdir = None\<rparr>"

definition devfs_dir_fops :: "'d file_operations" where
  "devfs_dir_fops = no_fops\<lparr>fo_iterate := Some devfs_iterate\<rparr>"

definition devfs_mount :: "'d ops_table \<Rightarrow> u64 \<Rightarrow> cstr \<Rightarrow> ('d, u64 option) op" where
  "devfs_mount ops fs dev_name s = do {
     (p, s1) \<leftarrow> sb_alloc fs s;
     (case p of
        None \<Rightarrow> Some (None, s1)
      | Some sb \<Rightarrow> do {
          s2 \<leftarrow> upd_sb sb (\<lambda>b. b\<lparr>s_dev := 0, s_blocksize := 4096\<rparr>) s1;
          (q, s3) \<leftarrow> dev_inode ops sb 1 (S_IFDIR OR 0x1ED) 2 (Some devfs_dir_iop_addr) devfs_dir_fop_addr s2;
          (case q of
             None \<Rightarrow> do { s4 \<leftarrow> fs_kfree sb s3; Some (None, s4\<lparr>fs_sb := (fs_sb s4)(sb := None)\<rparr>) }
           | Some a \<Rightarrow> do {
               (d, s4) \<leftarrow> d_alloc None (Some (cstr_of ''/'')) s3;
               (case d of
                  None \<Rightarrow> do {
                    s5 \<leftarrow> iput (sop_env ops) (Some a) s4;
                    s6 \<leftarrow> fs_kfree sb s5;
                    Some (None, s6\<lparr>fs_sb := (fs_sb s6)(sb := None)\<rparr>) }
                | Some dr \<Rightarrow> do {
                    s5 \<leftarrow> d_instantiate (Some dr) (Some a) s4;
                    s6 \<leftarrow> upd_sb sb (\<lambda>b. b\<lparr>s_root := Some dr\<rparr>) s5;
                    Some (Some sb, sb_add sb s6) }) }) }) }"

definition devfs_kill_sb :: "u64 \<Rightarrow> ('d, unit) op" where
  "devfs_kill_sb sb s = Some ((), s)"

definition devfs_fs_type :: "'d ops_table \<Rightarrow> 'd file_system_type" where
  "devfs_fs_type ops = \<lparr>ft_name = Some (cstr_of ''devfs''), ft_mount = Some (devfs_mount ops), ft_kill_sb = Some devfs_kill_sb\<rparr>"

section \<open>All tables\<close>

definition no_iops :: "'d inode_operations" where
  "no_iops = \<lparr>io_lookup = None, io_create = None, io_mkdir = None, io_unlink = None, io_rmdir = None\<rparr>"

definition minus_env :: "'d ops_table \<Rightarrow> 'd dev_env \<Rightarrow> 'd vfs_env" where
  "minus_env ops dv = \<lparr>
     ve_iop = (\<lambda>a. if a = ext4_dir_iop_addr then ext4_dir_iops ops
                   else if a = devfs_dir_iop_addr then devfs_dir_iops ops else no_iops),
     ve_fop = (\<lambda>a. if a = ext4_dir_fop_addr then ext4_dir_fops ops
                   else if a = ext4_file_fop_addr then ext4_file_fops ops
                   else if a = console_fop_addr then console_fops dv
                   else if a = fb0_fop_addr then fb0_fops dv
                   else if a = devfs_dir_fop_addr then devfs_dir_fops else no_fops),
     ve_sop = sop_tables ops,
     ve_fst = (\<lambda>a. if a = ext4_type_addr then ext4_fs_type ops
                   else if a = devfs_type_addr then devfs_fs_type ops
                   else \<lparr>ft_name = None, ft_mount = None, ft_kill_sb = None\<rparr>)\<rparr>"

text \<open>The backends register themselves at start-up.\<close>

definition ext4fs_backend_init :: "'d vfs_env \<Rightarrow> 'd fs_state \<Rightarrow> 'd fs_state" where
  "ext4fs_backend_init env s = snd (register_filesystem env (Some ext4_type_addr) s)"

definition devfs_backend_init :: "'d vfs_env \<Rightarrow> 'd fs_state \<Rightarrow> 'd fs_state" where
  "devfs_backend_init env s = snd (register_filesystem env (Some devfs_type_addr) s)"

end
