(* ===== verification/Fd_Table.thy ===== *)
theory Fd_Table
  imports Devfs Fs_Service
begin

text \<open>
  The descriptor table across the whole file system: no operation below the table changes it, so
  opening takes the lowest free descriptor and closing gives exactly that one back. What the table
  relies on is the locale \<open>files_frame\<close>: the operations of a backend do not touch the tables. It is
  interpreted on the tables of all backends of the kernel.
\<close>

section \<open>The tables and the operations that keep them\<close>

definition tab :: "'d fs_state \<Rightarrow> (u64 \<Rightarrow> files_struct option) \<times> u64 option" where
  "tab s = (fs_files s, cur_files s)"

named_theorems keeps

lemma tab_upd [simp]:
  "tab (s\<lparr>fs_blk := x1\<rparr>) = tab s" "tab (s\<lparr>fs_inode := x2\<rparr>) = tab s" "tab (s\<lparr>fs_dentry := x3\<rparr>) = tab s"
  "tab (s\<lparr>fs_sb := x4\<rparr>) = tab s" "tab (s\<lparr>fs_mnt := x5\<rparr>) = tab s" "tab (s\<lparr>fs_file := x6\<rparr>) = tab s"
  "tab (s\<lparr>fs_context_of := x7\<rparr>) = tab s" "tab (s\<lparr>g_inode_tree := x8\<rparr>) = tab s" "tab (s\<lparr>g_dirty_inodes := x9\<rparr>) = tab s"
  "tab (set_mm s m) = tab s" "tab (forget_inode a s) = tab s" "tab (put_node a n bk s) = tab s"
  by (simp_all add: tab_def set_mm_def forget_inode_def put_node_def)

lemma alloc_keeps [keeps]:
  "fs_slab f s = Some (r, s') \<Longrightarrow> tab s' = tab s"
  "fs_kmalloc n s = Some (p, s') \<Longrightarrow> tab s' = tab s"
  "fs_cache_alloc c s = Some (p, s') \<Longrightarrow> tab s' = tab s"
  "fs_kfree a s = Some s' \<Longrightarrow> tab s' = tab s"
  by (auto simp: fs_slab_def fs_kmalloc_def fs_cache_alloc_def fs_kfree_def)

lemma cache_free_keeps [keeps]: "fs_cache_free c a s = Some s' \<Longrightarrow> tab s' = tab s"
  by (auto simp: fs_cache_free_def split: bind_splits dest!: keeps)

lemma upd_keeps [keeps]:
  "upd_inode a f s = Some s' \<Longrightarrow> tab s' = tab s" "upd_dentry a g s = Some s' \<Longrightarrow> tab s' = tab s"
  "upd_file a h s = Some s' \<Longrightarrow> tab s' = tab s"
  by (auto simp: upd_inode_def upd_dentry_def upd_file_def)

lemma plain_keeps [keeps]:
  "insert_inode_hash p s = Some s' \<Longrightarrow> tab s' = tab s" "mark_dirty a s = Some s' \<Longrightarrow> tab s' = tab s"
  "dget d s = Some s' \<Longrightarrow> tab s' = tab s" "d_unlink a q s = Some s' \<Longrightarrow> tab s' = tab s"
  "d_instantiate d i s = Some s' \<Longrightarrow> tab s' = tab s"
  by (auto simp: insert_inode_hash_def mark_dirty_def dget_def d_unlink_def d_instantiate_def
      split: option.splits if_splits bind_splits dest!: keeps)

lemma dcache_keeps [keeps]:
  "d_alloc q n s = Some (p, s') \<Longrightarrow> tab s' = tab s" "d_lookup q n s = Some (p, s') \<Longrightarrow> tab s' = tab s"
  by (auto simp: d_alloc_def d_lookup_def Let_def split: option.splits bind_splits dest!: keeps)

text \<open>What the super block operations of the backends promise.\<close>

locale super_frame =
  fixes env :: "'d vfs_env"
  assumes alloc_frame: "so_alloc_inode (ve_sop env o') = Some f1 \<Longrightarrow> f1 sb s = Some (p, s') \<Longrightarrow> tab s' = tab s"
    and destroy_frame: "so_destroy_inode (ve_sop env o') = Some f2 \<Longrightarrow> f2 a s = Some (u, s') \<Longrightarrow> tab s' = tab s"
    and write_frame: "so_write_inode (ve_sop env o') = Some f3 \<Longrightarrow> f3 a s = Some (r, s') \<Longrightarrow> tab s' = tab s"
begin

lemma new_inode_keeps [keeps]: "new_inode env sb s = Some (p, s') \<Longrightarrow> tab s' = tab s"
  by (auto simp: new_inode_def inode_memory_def split: bind_splits option.splits dest!: keeps) (drule (1) alloc_frame, simp)+

lemma iget_keeps [keeps]: "iget env sb ino s = Some (p, s') \<Longrightarrow> tab s' = tab s"
  by (auto simp: iget_def split: bind_splits option.splits dest!: keeps)

lemma write_inode_now_keeps [keeps]: "write_inode_now env p s = Some (r, s') \<Longrightarrow> tab s' = tab s"
  by (auto simp: write_inode_now_def split: bind_splits option.splits sum.splits dest!: keeps) (drule (1) write_frame, simp)+

lemma iput_keeps [keeps]: "iput env p s = Some s' \<Longrightarrow> tab s' = tab s"
  by (auto simp: iput_def Let_def split: bind_splits option.splits if_splits dest!: keeps) (drule (1) destroy_frame, simp)+

lemma dput_keeps [keeps]: "dput env d s = Some s' \<Longrightarrow> tab s' = tab s"
  by (auto simp: dput_def split: bind_splits option.splits if_splits dest!: keeps)

end

locale files_frame = super_frame +
  assumes lookup_frame: "io_lookup (ve_iop env o') = Some g1 \<Longrightarrow> g1 i d s = Some (q, s') \<Longrightarrow> tab s' = tab s"
    and create_frame: "io_create (ve_iop env o') = Some g2 \<Longrightarrow> g2 i d m s = Some (r, s') \<Longrightarrow> tab s' = tab s"
    and open_frame: "fo_open (ve_fop env o') = Some g3 \<Longrightarrow> g3 i f s = Some (r, s') \<Longrightarrow> tab s' = tab s"
    and release_frame: "fo_release (ve_fop env o') = Some g4 \<Longrightarrow> g4 j f s = Some (u, s') \<Longrightarrow> tab s' = tab s"
begin

lemma lookup_one_len_keeps [keeps]: "lookup_one_len env n b l s = Some (r, s') \<Longrightarrow> tab s' = tab s"
  by (auto simp: lookup_one_len_def Let_def split: bind_splits option.splits sum.splits if_splits
      dest!: keeps) (drule (1) lookup_frame, simp)+

lemma step_keeps [keeps]:
  "leave_mount env d m s = Some (r, s') \<Longrightarrow> tab s' = tab s"
  "step_down env n d m s = Some (q, s') \<Longrightarrow> tab s' = tab s"
  by (auto simp: leave_mount_def step_down_def split: bind_splits option.splits sum.splits if_splits dest!: keeps)

lemma step_up_keeps [keeps]: "step_up env d m s = Some (r, s') \<Longrightarrow> tab s' = tab s"
  by (auto simp: step_up_def split: bind_splits option.splits sum.splits if_splits dest!: keeps)

lemma walk_keeps [keeps]: "walk env p d m s = Some (r, s') \<Longrightarrow> tab s' = tab s"
proof (induction p arbitrary: d m s rule: length_induct)
  case (1 p)
  have IH: "walk env (path_rest p) d' m' t = Some (r, s') \<Longrightarrow> p \<noteq> [] \<Longrightarrow> tab s' = tab t" for d' m' t
    using 1(1) path_rest_shorter by blast
  show ?case
    using 1(2) unfolding Namei.walk.simps [of env p d m s]
    by (auto split: bind_splits option.splits sum.splits if_splits prod.splits dest!: keeps IH)
qed

lemma path_lookup_keeps [keeps]: "vfs_path_lookup env path s = Some (r, s') \<Longrightarrow> tab s' = tab s"
  by (auto simp: vfs_path_lookup_def follow_path_def split: bind_splits option.splits prod.splits dest!: keeps)

lemma lookup_parent_keeps [keeps]: "lookup_parent env path s = Some (r, s') \<Longrightarrow> tab s' = tab s"
  by (auto simp: lookup_parent_def split: bind_splits option.splits sum.splits prod.splits if_splits dest!: keeps)

lemma dentry_open_keeps [keeps]: "dentry_open env d m fl s = Some (r, s') \<Longrightarrow> tab s' = tab s"
  by (auto simp: dentry_open_def drop_file_def Let_def split: bind_splits option.splits sum.splits
      dest!: keeps) (drule (1) open_frame, simp)+

lemma vfs_create_keeps [keeps]: "vfs_create env path fl mode s = Some (r, s') \<Longrightarrow> tab s' = tab s"
  by (auto simp: vfs_create_def split: bind_splits option.splits sum.splits if_splits dest!: keeps) (drule (1) create_frame, simp)+

lemma vfs_open_keeps [keeps]: "vfs_open env path fl mode s = Some (r, s') \<Longrightarrow> tab s' = tab s"
  by (auto simp: vfs_open_def split: bind_splits option.splits sum.splits if_splits dest!: keeps)

lemma vfs_close_keeps [keeps]: "vfs_close env f s = Some s' \<Longrightarrow> tab s' = tab s"
  by (auto simp: vfs_close_def drop_file_def split: bind_splits option.splits if_splits dest!: keeps) (drule (1) release_frame, simp)+

end

section \<open>The backends keep the tables\<close>

lemmas sop_tables_defs = sop_env_def sop_tables_def ext4_sops_def no_sops_def

lemma ext4_super_keeps:
  "ext4_alloc_inode_stub sb s = Some (p, s') \<Longrightarrow> tab s' = tab s"
  "ext4_destroy_inode a s = Some (u, s') \<Longrightarrow> tab s' = tab s"
  "ext4_sop_write ops a s = Some (r, s') \<Longrightarrow> tab s' = tab s"
  by (auto simp: ext4_alloc_inode_stub_def ext4_destroy_inode_def ext4_sop_write_def
      split: bind_splits option.splits dest!: keeps)

interpretation sop: super_frame "sop_env ops" for ops
  by unfold_locales (auto simp: sop_tables_defs split: if_splits dest!: ext4_super_keeps)

lemma ext4_iget_keeps [keeps]: "ext4_iget ops sb ino s = Some (p, s') \<Longrightarrow> tab s' = tab s"
  by (auto simp: ext4_iget_def split: bind_splits option.splits if_splits dest!: keeps)

lemma ext4_lookup_keeps [keeps]: "ext4_dir_lookup ops i d s = Some (r, s') \<Longrightarrow> tab s' = tab s"
  by (auto simp: ext4_dir_lookup_def Let_def split: bind_splits option.splits sum.splits dest!: keeps)

lemma ext4_alloc_keeps [keeps]: "ext4_alloc_inode ops a s = Some (r, s') \<Longrightarrow> tab s' = tab s"
  by (auto simp: ext4_alloc_inode_def split: bind_splits option.splits sum.splits dest!: keeps)

lemma ext4_new_node_keeps [keeps]: "ext4_new_node ops i m l s = Some (r, s') \<Longrightarrow> tab s' = tab s"
  by (auto simp: ext4_new_node_def split: bind_splits option.splits sum.splits dest!: keeps)

lemma enter_name_keeps [keeps]: "enter_name ops i d a ty s = Some (r, s') \<Longrightarrow> tab s' = tab s"
  by (auto simp: enter_name_def Let_def split: bind_splits option.splits sum.splits dest!: keeps)

lemma ext4_create_keeps [keeps]: "ext4_create ops i d m s = Some (r, s') \<Longrightarrow> tab s' = tab s"
  by (auto simp: ext4_create_def split: bind_splits option.splits sum.splits dest!: keeps)

lemma dev_inode_keeps [keeps]: "dev_inode ops sb ino mode l iop fop s = Some (p, s') \<Longrightarrow> tab s' = tab s"
  by (auto simp: dev_inode_def split: bind_splits option.splits dest!: keeps)

lemma devfs_lookup_keeps [keeps]: "devfs_lookup ops i d s = Some (r, s') \<Longrightarrow> tab s' = tab s"
  by (auto simp: devfs_lookup_def devfs_new_console_inode_def devfs_new_fb0_inode_def
      split: bind_splits option.splits if_splits dest!: keeps)

lemma fb0_keeps [keeps]:
  "fb0_open dv i f s = Some (r, s') \<Longrightarrow> tab s' = tab s" "fb0_release j f s = Some (u, s') \<Longrightarrow> tab s' = tab s"
  by (auto simp: fb0_open_def fb0_release_def split: option.splits dest!: keeps)

lemmas op_tables_defs = ext4_dir_iops_def devfs_dir_iops_def no_iops_def ext4_dir_fops_def ext4_file_fops_def
  console_fops_def fb0_fops_def devfs_dir_fops_def no_fops_def

interpretation minus: files_frame "minus_env ops dv" for ops dv
  by unfold_locales (auto simp: minus_env_def sop_tables_def ext4_sops_def no_sops_def op_tables_defs
      split: if_splits dest!: keeps ext4_super_keeps)

section \<open>Opening and closing\<close>

lemma first_free_Some: "first_free xs = Some i \<Longrightarrow> i < length xs \<and> xs ! i = None \<and> (\<forall>j < i. xs ! j \<noteq> None)"
proof (induction xs arbitrary: i)
  case (Cons x xs)
  show ?case
  proof (cases "x = None")
    case False
    then obtain k where "first_free xs = Some k" "i = Suc k" using Cons.prems by auto
    then show ?thesis using Cons.IH [of k] False by (auto simp: less_Suc_eq_0_disj)
  qed (use Cons.prems in simp)
qed simp

lemma first_free_None: "first_free xs = None \<longleftrightarrow> None \<notin> set xs"
  by (induction xs) auto

text \<open>The current table of a task, with its descriptors.\<close>

definition table_of :: "'d fs_state \<Rightarrow> u64 \<Rightarrow> files_struct \<Rightarrow> bool" where
  "table_of s a t \<longleftrightarrow> cur_files s = Some a \<and> fs_files s a = Some t \<and> length (fd_array t) = NR_OPEN_DEFAULT"

definition with_fd :: "files_struct \<Rightarrow> nat \<Rightarrow> u64 option \<Rightarrow> files_struct" where
  "with_fd t i f = t\<lparr>fd_array := (fd_array t)[i := f]\<rparr>"

lemma with_fd_back: "fd_array t ! i = None \<Longrightarrow> with_fd (with_fd t i f) i None = t"
  unfolding with_fd_def by (cases t) (metis (no_types, lifting) files_struct.simps list_update_id list_update_overwrite)

lemma openat_table:
  assumes t: "table_of s a t" and r: "fd_openat (minus_env ops dv) path flags mode s = Some (r, s1)"
  shows "(\<exists>e. r = Inl e \<and> tab s1 = tab s) \<or>
    (\<exists>i f. r = Inr (int i) \<and> first_free (fd_array t) = Some i \<and> tab s1 = ((fs_files s)(a \<mapsto> with_fd t i (Some f)), Some a))"
proof -
  have c: "cur_files s = Some a" "fs_files s a = Some t" "length (fd_array t) = 16"
    using t by (simp_all add: table_of_def NR_OPEN_DEFAULT_def)
  from r c obtain q s0 where q: "vfs_open (minus_env ops dv) path flags mode s = Some (q, s0)"
    by (auto simp: fd_openat_def split: bind_splits)
  have tab0: "fs_files s0 = fs_files s" "cur_files s0 = cur_files s"
    using minus.vfs_open_keeps [OF q] by (simp_all add: tab_def)
  show ?thesis
  proof (cases q)
    case (Inl e)
    then show ?thesis using r c q tab0 by (auto simp: fd_openat_def tab_def)
  next
    case (Inr f)
    show ?thesis
    proof (cases "first_free (fd_array t)")
      case None
      then obtain s2 where "vfs_close (minus_env ops dv) (Some f) s0 = Some s2" "r = Inl EMFILE" "s1 = s2"
        using r c q tab0 Inr by (auto simp: fd_openat_def get_unused_fd_def split: bind_splits)
      then show ?thesis using minus.vfs_close_keeps tab0 by (fastforce simp: tab_def)
    next
      case (Some i)
      have "i < 16" using first_free_Some [OF Some] c by simp
      then show ?thesis
        using Some r c q tab0 Inr
        by (auto simp: fd_openat_def get_unused_fd_def fd_install_def set_fd_def NR_OPEN_DEFAULT_def tab_def with_fd_def)
    qed
  qed
qed

lemma close_table:
  assumes t: "table_of s a t" and i: "i < NR_OPEN_DEFAULT" "fd_array t ! i = Some f"
    and r: "fd_close (minus_env ops dv) (of_nat i) s = Some (r, s1)"
  shows "r = Inr () \<and> tab s1 = ((fs_files s)(a \<mapsto> with_fd t i None), Some a)"
proof -
  have c: "cur_files s = Some a" "fs_files s a = Some t" "length (fd_array t) = 16" "i < 16"
    using t i by (simp_all add: table_of_def NR_OPEN_DEFAULT_def)
  have n: "sint (of_nat i :: u32) = int i" using c(4) by (simp add: sint_of_nat_u32)
  have cf: "cur_file s (of_nat i) = Some (Some f)" using c i n by (simp add: cur_file_def fget_def NR_OPEN_DEFAULT_def rd_def)
  define s0 where "s0 = s\<lparr>fs_files := (fs_files s)(a \<mapsto> with_fd t i None)\<rparr>"
  have "put_unused_fd (cur_files s) (int i) s = Some s0"
    using c by (simp add: put_unused_fd_def set_fd_def NR_OPEN_DEFAULT_def with_fd_def s0_def)
  with r cf n obtain s2 where "vfs_close (minus_env ops dv) (Some f) s0 = Some s2" "r = Inr ()" "s1 = s2"
    by (auto simp: fd_close_def split: bind_splits)
  then show ?thesis using minus.vfs_close_keeps [of ops dv "Some f" s0 s2] c by (simp add: tab_def s0_def)
qed

text \<open>
  (C15) The descriptor table, with every backend of the kernel below it. Opening a file returns the lowest
  free descriptor and changes nothing else in any table, or fails and leaves all tables as they were,
  which it does when the table is full. The new descriptor names the opened file, and closing it
  succeeds and restores the tables.
\<close>

theorem fd_open_close:
  assumes "table_of s a t" and "fd_openat (minus_env ops dv) path flags mode s = Some (r, s1)"
  shows "case r of
      Inl e \<Rightarrow> tab s1 = tab s
    | Inr fd \<Rightarrow> None \<in> set (fd_array t) \<and>
        (\<exists>i f. fd = int i \<and> i < NR_OPEN_DEFAULT \<and> fd_array t ! i = None \<and> (\<forall>j < i. fd_array t ! j \<noteq> None) \<and>
           tab s1 = ((fs_files s)(a \<mapsto> with_fd t i (Some f)), Some a) \<and> cur_file s1 (of_nat i) = Some (Some f) \<and>
           (\<forall>r2 s2. fd_close (minus_env ops dv) (of_nat i) s1 = Some (r2, s2) \<longrightarrow> r2 = Inr () \<and> tab s2 = tab s))"
  using openat_table [OF assms]
proof (elim disjE exE conjE)
  fix i f
  assume r: "r = Inr (int i)" and i: "first_free (fd_array t) = Some i"
    and tab1: "tab s1 = ((fs_files s)(a \<mapsto> with_fd t i (Some f)), Some a)"
  have c: "cur_files s = Some a" "fs_files s a = Some t" "length (fd_array t) = NR_OPEN_DEFAULT"
    using assms(1) by (simp_all add: table_of_def)
  have fr: "i < NR_OPEN_DEFAULT" "fd_array t ! i = None" "\<forall>j < i. fd_array t ! j \<noteq> None"
    using first_free_Some [OF i] c by auto
  have t1: "table_of s1 a (with_fd t i (Some f))"
    using tab1 c by (simp add: table_of_def tab_def with_fd_def)
  have at: "fd_array (with_fd t i (Some f)) ! i = Some f" using fr c by (simp add: with_fd_def)
  have "sint (of_nat i :: u32) = int i" using fr(1) by (simp add: sint_of_nat_u32 NR_OPEN_DEFAULT_def)
  then have cf: "cur_file s1 (of_nat i) = Some (Some f)"
    using t1 fr(1) at by (simp add: table_of_def cur_file_def fget_def rd_def)
  have "r2 = Inr () \<and> tab s2 = tab s" if "fd_close (minus_env ops dv) (of_nat i) s1 = Some (r2, s2)" for r2 s2
    using close_table [OF t1 fr(1) at that] with_fd_back [OF fr(2)] tab1 c by (auto simp: tab_def)
  then show ?thesis
    using r fr tab1 cf c by (auto simp: in_set_conv_nth intro!: exI [of _ f])
qed simp

text \<open>A task with one descriptor in use, and memory for one more file.\<close>

definition demo_task :: "(bkey \<Rightarrow> bytes) fs_state" where
  "demo_task = small_fs\<lparr>cur_files := Some 64,
     fs_files := [64 \<mapsto> \<lparr>fd_array = Some 8 # replicate 15 None, fl_count = 1, fs_ctx = None\<rparr>],
     fs_blk := table_cache\<lparr>bk_mm := demo_mm\<lparr>mm_slab := (mm_slab demo_mm)\<lparr>
       sl_cache := (\<lambda>_. \<lparr>kc_name = [], kc_obj_size = 64, kc_align = 8, kc_num = 63\<rparr>),
       sl_slab := (\<lambda>_. \<lparr>sl_cachep = Kmalloc 3, sl_free = 2, sl_inuse = 2, sl_s_mem = 0x1028\<rparr>),
       sl_links := \<lparr>dprev = (\<lambda>n. SlabNode 1), dnext = (\<lambda>n. SlabNode 1)\<rparr>\<rparr>\<rparr>\<rparr>\<rparr>"

lemma demo_task_table: "table_of demo_task 64 \<lparr>fd_array = Some 8 # replicate 15 None, fl_count = 1, fs_ctx = None\<rparr>"
  by (simp add: table_of_def demo_task_def NR_OPEN_DEFAULT_def)

definition quiet_devices :: "(bkey \<Rightarrow> bytes) dev_env" where
  "quiet_devices = \<lparr>uart_getc = (\<lambda>h. (0, h)), uart_putc = (\<lambda>_ h. h), fb_get_info = None,
     fb_info_at = (\<lambda>_. \<lparr>fi_width = 0, fi_height = 0, fi_stride = 0, fi_format = 0, fi_screen_size = 0, fi_phys_base = 0, fi_flush = None\<rparr>)\<rparr>"

lemma demo_kmalloc: "kmalloc (mm_slab (bk_mm (fs_blk demo_task))) sizeof_file =
    Some (Some 0x10A8, (mm_slab (bk_mm (fs_blk demo_task)))\<lparr>sl_slab := (sl_slab (mm_slab (bk_mm (fs_blk demo_task))))(1 := \<lparr>sl_cachep = Kmalloc 3, sl_free = 0, sl_inuse = 3, sl_s_mem = 0x1028\<rparr>)\<rparr>)"
  by (simp add: kmalloc_def sizeof_file_def slab_consts kmalloc_index_def kmem_cache_alloc_def dlist_empty_def slab_of_node_def
     take_object_def obj_addr_def demo_task_def demo_mm_def Let_def)

lemma demo_open: "\<exists>s1. fd_openat (minus_env ops quiet_devices) (cstr_of ''/'') O_RDONLY 0 demo_task = Some (Inr 1, s1)"
proof -
  have k: "fs_kmalloc sizeof_file (inc 1 (inc 1 demo_task)) = Some (Some 0x10A8, set_mm (inc 1 (inc 1 demo_task)) m)"
    if "m = (bk_mm (fs_blk demo_task))\<lparr>mm_slab := snd (the (kmalloc (mm_slab (bk_mm (fs_blk demo_task))) sizeof_file))\<rparr>" for m
    using that by (simp add: fs_kmalloc_def fs_slab_def lift_slab_def demo_kmalloc)
  have l: "vfs_path_lookup (minus_env ops quiet_devices) (Some (cstr_of ''/'')) demo_task = Some (Inr (1, 10), inc 1 demo_task)"
    by (simp add: vfs_path_lookup_def follow_path_def path_start_def cstr_of_def demo_task_def small_fs_def Namei.walk.simps
       dget_def upd_dentry_def inc_def)
  have d: "dget (Some 1) (inc 1 demo_task) = Some (inc 1 (inc 1 demo_task))"
      "fs_dentry (inc 1 (inc 1 demo_task)) 1 = Some ((plain_dentry 1 [2] None [47])\<lparr>d_count := 3\<rparr>)"
      "fs_inode demo_task 1 = Some (zero_inode\<lparr>en_mode := S_IFDIR, i_count := 3\<rparr>)"
      "cur_files demo_task = Some 64" "fs_files demo_task 64 = Some \<lparr>fd_array = Some 8 # replicate 15 None, fl_count = 1, fs_ctx = None\<rparr>"
    by (simp_all add: dget_def upd_dentry_def inc_def demo_task_def small_fs_def plain_dentry_def)
  have f: "fs_files (inc 1 (inc 1 demo_task)) 64 = fs_files demo_task 64" by (simp add: inc_def)
  have ff: "map_option Suc (first_free (replicate 15 None)) = Some 1" by (simp add: numeral_eq_Suc)
  show ?thesis
    using d f ff by (simp add: fd_openat_def vfs_open_def l O_RDONLY_def dentry_open_def k [OF refl] plain_dentry_def zero_inode_def
      dput_def upd_dentry_def get_unused_fd_def fd_install_def set_fd_def set_mm_def NR_OPEN_DEFAULT_def)
qed

theorem fd_open_close_witness:
  "\<exists>s1 f. fd_openat (minus_env ram_ops quiet_devices) (cstr_of ''/'') O_RDONLY 0 demo_task = Some (Inr 1, s1) \<and>
     cur_file s1 1 = Some (Some f) \<and>
     (\<forall>r2 s2. fd_close (minus_env ram_ops quiet_devices) 1 s1 = Some (r2, s2) \<longrightarrow> r2 = Inr () \<and> tab s2 = tab demo_task)"
proof -
  obtain s1 where s1: "fd_openat (minus_env ram_ops quiet_devices) (cstr_of ''/'') O_RDONLY 0 demo_task = Some (Inr 1, s1)"
    using demo_open by blast
  show ?thesis using fd_open_close [OF demo_task_table s1] s1 by (auto simp: nat_eq_iff)
qed

end
