(* ===== verification/Gfx.thy ===== *)
theory Gfx
  imports Services Endian "HOL-Library.Monad_Syntax"
begin

text \<open>
  The drawing library of the user programs: \<open>uapps/libgfx/gfx.c\<close>, \<open>surface.c\<close>, \<open>font.c\<close>, and the
  picture that \<open>uapps/fb_test/fb_test.c\<close> draws with it. The pixels of a canvas are a byte array with
  checked accesses. A C \<open>int\<close> is an integer; where its arithmetic leaves 32 bits the behaviour is
  undefined and the result \<open>None\<close> (\<open>ck\<close>). The byte offset of a pixel is computed in 32 bits without sign,
  as the code does.
\<close>

section \<open>Canvases\<close>

record gfx_canvas =
  cv_width :: u32
  cv_height :: u32
  cv_stride :: u32
  cv_format :: u32

definition FB_FORMAT_XRGB8888 :: u32 where "FB_FORMAT_XRGB8888 = 0"
definition FB_FORMAT_RGB565 :: u32 where "FB_FORMAT_RGB565 = 1"

definition GFX_RGB :: "u32 \<Rightarrow> u32 \<Rightarrow> u32 \<Rightarrow> u32" where
  "GFX_RGB r g b = 0xFF000000 OR push_bit 16 r OR push_bit 8 g OR b"

definition clip :: "int \<Rightarrow> int \<Rightarrow> int \<Rightarrow> int" where
  "clip v mn mx = (if v < mn then mn else if mx < v then mx else v)"

definition bytes_per_pixel :: "u32 \<Rightarrow> nat" where
  "bytes_per_pixel format = (if format = FB_FORMAT_RGB565 then 2 else 4)"

definition color_to_rgb565 :: "u32 \<Rightarrow> u16" where
  "color_to_rgb565 color =
     (let r = (ucast (drop_bit 16 color AND 0xff) :: u8); g = (ucast (drop_bit 8 color AND 0xff) :: u8);
          b = (ucast (color AND 0xff) :: u8)
      in push_bit 8 (ucast (r AND 0xf8)) OR push_bit 3 (ucast (g AND 0xfc)) OR ucast (drop_bit 3 b))"

definition gfx_canvas_init :: "u32 \<Rightarrow> u32 \<Rightarrow> u32 \<Rightarrow> u32 \<Rightarrow> gfx_canvas" where
  "gfx_canvas_init width height stride format =
     \<lparr>cv_width = width, cv_height = height, cv_stride = stride, cv_format = format\<rparr>"

definition pixel_off :: "gfx_canvas \<Rightarrow> int \<Rightarrow> int \<Rightarrow> nat option" where
  "pixel_off cv x y = do {
     xb \<leftarrow> ck (x * int (bytes_per_pixel (cv_format cv)));
     Some (unat (of_int y * cv_stride cv + of_int xb)) }"

definition put_pixel :: "gfx_canvas \<Rightarrow> u32 \<Rightarrow> nat \<Rightarrow> bytes \<Rightarrow> bytes option" where
  "put_pixel cv color off px =
     (if cv_format cv = FB_FORMAT_RGB565 then put_le 2 px off (color_to_rgb565 color) else put_le 4 px off color)"

definition gfx_set_pixel :: "gfx_canvas \<Rightarrow> int \<Rightarrow> int \<Rightarrow> u32 \<Rightarrow> bytes \<Rightarrow> bytes option" where
  "gfx_set_pixel cv x y color px =
     (if x < 0 \<or> sint (cv_width cv) \<le> x \<or> y < 0 \<or> sint (cv_height cv) \<le> y then Some px
      else do { off \<leftarrow> pixel_off cv x y; put_pixel cv color off px })"

section \<open>Rectangles\<close>

fun fill_row :: "gfx_canvas \<Rightarrow> u32 \<Rightarrow> nat \<Rightarrow> nat \<Rightarrow> bytes \<Rightarrow> bytes option" where
  "fill_row cv color 0 off px = Some px"
| "fill_row cv color (Suc n) off px = do {
     px1 \<leftarrow> put_pixel cv color off px;
     fill_row cv color n (off + bytes_per_pixel (cv_format cv)) px1 }"

fun fill_rows :: "gfx_canvas \<Rightarrow> u32 \<Rightarrow> int \<Rightarrow> nat \<Rightarrow> int list \<Rightarrow> bytes \<Rightarrow> bytes option" where
  "fill_rows cv color x0 n [] px = Some px"
| "fill_rows cv color x0 n (row # rows) px = do {
     off \<leftarrow> pixel_off cv x0 row;
     px1 \<leftarrow> fill_row cv color n off px;
     fill_rows cv color x0 n rows px1 }"

definition gfx_fill_rect :: "gfx_canvas \<Rightarrow> int \<Rightarrow> int \<Rightarrow> int \<Rightarrow> int \<Rightarrow> u32 \<Rightarrow> bytes \<Rightarrow> bytes option" where
  "gfx_fill_rect cv x y w h color px = do {
     xw \<leftarrow> ck (x + w);
     yh \<leftarrow> ck (y + h);
     let x0 = clip x 0 (sint (cv_width cv)); y0 = clip y 0 (sint (cv_height cv));
         x1 = clip xw 0 (sint (cv_width cv)); y1 = clip yh 0 (sint (cv_height cv))
     in if x1 \<le> x0 \<or> y1 \<le> y0 then Some px
        else fill_rows cv color x0 (nat (x1 - x0)) [y0 .. y1 - 1] px }"

definition gfx_clear :: "gfx_canvas \<Rightarrow> u32 \<Rightarrow> bytes \<Rightarrow> bytes option" where
  "gfx_clear cv color = gfx_fill_rect cv 0 0 (sint (cv_width cv)) (sint (cv_height cv)) color"

section \<open>Lines and circles\<close>

text \<open>One round of the line: the error term decides whether to go on in each direction.\<close>

definition line_step :: "int \<Rightarrow> int \<Rightarrow> int \<Rightarrow> int \<Rightarrow> int \<times> int \<times> int \<Rightarrow> (int \<times> int \<times> int) option" where
  "line_step dx dy sx sy p = (case p of (x, y, err) \<Rightarrow> do {
     e2 \<leftarrow> ck (2 * err);
     (x', err1) \<leftarrow> (if dy \<le> e2 then do { e \<leftarrow> ck (err + dy); x' \<leftarrow> ck (x + sx); Some (x', e) } else Some (x, err));
     (y', err2) \<leftarrow> (if e2 \<le> dx then do { e \<leftarrow> ck (err1 + dx); y' \<leftarrow> ck (y + sy); Some (y', e) } else Some (y, err1));
     Some (x', y', err2) })"

partial_function (option) line_loop ::
  "gfx_canvas \<Rightarrow> u32 \<Rightarrow> int \<Rightarrow> int \<Rightarrow> int \<Rightarrow> int \<Rightarrow> int \<Rightarrow> int \<Rightarrow> int \<times> int \<times> int \<Rightarrow> bytes \<Rightarrow> bytes option" where
  "line_loop cv color x1 y1 dx dy sx sy p px =
     Option.bind (gfx_set_pixel cv (fst p) (fst (snd p)) color px) (\<lambda>px1.
       if fst p = x1 \<and> fst (snd p) = y1 then Some px1
       else Option.bind (line_step dx dy sx sy p) (\<lambda>p'. line_loop cv color x1 y1 dx dy sx sy p' px1))"

definition gfx_draw_line :: "gfx_canvas \<Rightarrow> int \<Rightarrow> int \<Rightarrow> int \<Rightarrow> int \<Rightarrow> u32 \<Rightarrow> bytes \<Rightarrow> bytes option" where
  "gfx_draw_line cv x0 y0 x1 y1 color px = do {
     dx \<leftarrow> ck (if x0 < x1 then x1 - x0 else x0 - x1);
     dy \<leftarrow> ck (if y0 < y1 then y0 - y1 else y1 - y0);
     err \<leftarrow> ck (dx + dy);
     line_loop cv color x1 y1 dx dy (if x0 < x1 then 1 else - 1) (if y0 < y1 then 1 else - 1) (x0, y0, err) px }"

definition gfx_draw_rect :: "gfx_canvas \<Rightarrow> int \<Rightarrow> int \<Rightarrow> int \<Rightarrow> int \<Rightarrow> u32 \<Rightarrow> bytes \<Rightarrow> bytes option" where
  "gfx_draw_rect cv x y w h color px = do {
     xw \<leftarrow> ck (x + w); xr \<leftarrow> ck (xw - 1);
     px1 \<leftarrow> gfx_draw_line cv x y xr y color px;
     yh \<leftarrow> ck (y + h); yb \<leftarrow> ck (yh - 1);
     px2 \<leftarrow> gfx_draw_line cv xr y xr yb color px1;
     px3 \<leftarrow> gfx_draw_line cv xr yb x yb color px2;
     gfx_draw_line cv x yb x y color px3 }"

text \<open>The eight mirror images of a point; the sums are those the code computes.\<close>

definition octants :: "int \<Rightarrow> int \<Rightarrow> int \<Rightarrow> int \<Rightarrow> (int \<times> int) list" where
  "octants cx cy x y = [(cx + x, cy + y), (cx - x, cy + y), (cx + x, cy - y), (cx - x, cy - y),
     (cx + y, cy + x), (cx - y, cy + x), (cx + y, cy - x), (cx - y, cy - x)]"

fun set_pixels :: "gfx_canvas \<Rightarrow> u32 \<Rightarrow> (int \<times> int) list \<Rightarrow> bytes \<Rightarrow> bytes option" where
  "set_pixels cv color [] px = Some px"
| "set_pixels cv color ((x, y) # ps) px = do {
     x' \<leftarrow> ck x; y' \<leftarrow> ck y;
     px1 \<leftarrow> gfx_set_pixel cv x' y' color px;
     set_pixels cv color ps px1 }"

definition circle_step :: "int \<Rightarrow> int \<Rightarrow> int \<Rightarrow> (int \<times> int) option" where
  "circle_step x y d =
     (if d < 0 then do { a \<leftarrow> ck (4 * x); b \<leftarrow> ck (d + a); d' \<leftarrow> ck (b + 6); Some (y, d') }
      else do { a \<leftarrow> ck (x - y); b \<leftarrow> ck (4 * a); c \<leftarrow> ck (d + b); d' \<leftarrow> ck (c + 10); y' \<leftarrow> ck (y - 1); Some (y', d') })"

lemma circle_step_le: "circle_step x y d = Some (y', d') \<Longrightarrow> y' \<le> y"
  by (auto simp: circle_step_def ck_def split: if_splits)

function circle_loop :: "gfx_canvas \<Rightarrow> u32 \<Rightarrow> int \<Rightarrow> int \<Rightarrow> int \<Rightarrow> int \<Rightarrow> int \<Rightarrow> bytes \<Rightarrow> bytes option" where
  "circle_loop cv color cx cy x y d px =
     (if y < x then Some px
      else do {
        px1 \<leftarrow> set_pixels cv color (octants cx cy x y) px;
        (case circle_step x y d of
           None \<Rightarrow> None
         | Some (y', d') \<Rightarrow> if 2 ^ 31 \<le> x + 1 then None else circle_loop cv color cx cy (x + 1) y' d' px1) })"
  by pat_completeness auto
termination
  by (relation "measure (\<lambda>(_, _, _, _, x, y, _, _). nat (y + 1 - x))") (auto dest!: circle_step_le)

definition gfx_draw_circle :: "gfx_canvas \<Rightarrow> int \<Rightarrow> int \<Rightarrow> int \<Rightarrow> u32 \<Rightarrow> bytes \<Rightarrow> bytes option" where
  "gfx_draw_circle cv cx cy r color px = do {
     a \<leftarrow> ck (2 * r);
     d \<leftarrow> ck (3 - a);
     circle_loop cv color cx cy 0 r d px }"

declare circle_loop.simps [simp del]

section \<open>Copying\<close>

text \<open>The part of the source that is visible, and where it goes: source corner, target corner, size.\<close>

definition blit_clip :: "gfx_canvas \<Rightarrow> int \<Rightarrow> int \<Rightarrow> gfx_canvas \<Rightarrow> ((int \<times> int) \<times> (int \<times> int) \<times> (int \<times> int)) option" where
  "blit_clip dst x y src = do {
     (sx, dx, w) \<leftarrow> (if x < 0 then do { n \<leftarrow> ck (- x); w \<leftarrow> ck (sint (cv_width src) + x); Some (n, 0, w) }
                    else Some (0, x, sint (cv_width src)));
     (sy, dy, h) \<leftarrow> (if y < 0 then do { n \<leftarrow> ck (- y); h \<leftarrow> ck (sint (cv_height src) + y); Some (n, 0, h) }
                    else Some (0, y, sint (cv_height src)));
     xe \<leftarrow> ck (dx + w);
     w' \<leftarrow> (if sint (cv_width dst) < xe then ck (sint (cv_width dst) - dx) else Some w);
     ye \<leftarrow> ck (dy + h);
     h' \<leftarrow> (if sint (cv_height dst) < ye then ck (sint (cv_height dst) - dy) else Some h);
     Some ((sx, sy), (dx, dy), (w', h')) }"

text \<open>Pixels are copied in the size of the target; the two canvases have memory of their own.\<close>

fun blit_row :: "nat \<Rightarrow> nat \<Rightarrow> nat \<Rightarrow> nat \<Rightarrow> bytes \<Rightarrow> bytes \<Rightarrow> bytes option" where
  "blit_row b 0 so do' spx px = Some px"
| "blit_row b (Suc n) so do' spx px =
     (if so + b \<le> length spx
      then do { px1 \<leftarrow> put_bytes px do' (take b (drop so spx)); blit_row b n (so + b) (do' + b) spx px1 }
      else None)"

fun blit_rows :: "gfx_canvas \<Rightarrow> gfx_canvas \<Rightarrow> int \<Rightarrow> int \<Rightarrow> int \<Rightarrow> int \<Rightarrow> nat \<Rightarrow> int list \<Rightarrow> bytes \<Rightarrow> bytes \<Rightarrow> bytes option" where
  "blit_rows dst src sx sy dx dy w [] spx px = Some px"
| "blit_rows dst src sx sy dx dy w (row # rows) spx px = do {
     so \<leftarrow> pixel_off (src\<lparr>cv_format := cv_format dst\<rparr>) sx (sy + row);
     do' \<leftarrow> pixel_off dst dx (dy + row);
     px1 \<leftarrow> blit_row (bytes_per_pixel (cv_format dst)) w so do' spx px;
     blit_rows dst src sx sy dx dy w rows spx px1 }"

definition gfx_blit :: "gfx_canvas \<Rightarrow> int \<Rightarrow> int \<Rightarrow> gfx_canvas \<Rightarrow> bytes \<Rightarrow> bytes \<Rightarrow> bytes option" where
  "gfx_blit dst x y src spx px = do {
     ((sx, sy), (dx, dy), (w, h)) \<leftarrow> blit_clip dst x y src;
     (if w \<le> 0 \<or> h \<le> 0 then Some px else blit_rows dst src sx sy dx dy (nat w) [0 .. h - 1] spx px) }"

definition gfx_surface_init :: "u32 \<Rightarrow> u32 \<Rightarrow> gfx_canvas" where
  "gfx_surface_init width height =
     \<lparr>cv_width = width, cv_height = height, cv_stride = width * 4, cv_format = FB_FORMAT_XRGB8888\<rparr>"

definition gfx_surface_blit :: "gfx_canvas \<Rightarrow> int \<Rightarrow> int \<Rightarrow> gfx_canvas \<Rightarrow> bytes \<Rightarrow> bytes \<Rightarrow> bytes option" where
  "gfx_surface_blit dst x y surf = gfx_blit dst x y surf"

section \<open>Text\<close>

record font =
  fn_width :: int
  fn_height :: int
  fn_first :: int
  fn_last :: int
  fn_data :: bytes

fun render_row :: "gfx_canvas \<Rightarrow> u8 \<Rightarrow> int \<Rightarrow> int \<Rightarrow> u32 \<Rightarrow> u32 \<Rightarrow> int list \<Rightarrow> bytes \<Rightarrow> bytes option" where
  "render_row cv bits x y fg bg [] px = Some px"
| "render_row cv bits x y fg bg (col # cols) px =
     (if 32 \<le> col then None
      else do {
        px1 \<leftarrow> (if uint bits AND drop_bit (nat col) 0x80 \<noteq> 0 then set_pixels cv fg [(x + col, y)] px
                else if bg \<noteq> fg then set_pixels cv bg [(x + col, y)] px
                else Some px);
        render_row cv bits x y fg bg cols px1 })"

fun render_rows :: "gfx_canvas \<Rightarrow> font \<Rightarrow> int \<Rightarrow> int \<Rightarrow> int \<Rightarrow> u32 \<Rightarrow> u32 \<Rightarrow> int list \<Rightarrow> bytes \<Rightarrow> bytes option" where
  "render_rows cv f glyph x y fg bg [] px = Some px"
| "render_rows cv f glyph x y fg bg (row # rows) px =
     (if glyph + row < 0 then None
      else do {
        bits \<leftarrow> rd (fn_data f) (nat (glyph + row));
        px1 \<leftarrow> render_row cv bits x (y + row) fg bg [0 .. fn_width f - 1] px;
        render_rows cv f glyph x y fg bg rows px1 })"

definition font_render_char :: "gfx_canvas \<Rightarrow> font \<Rightarrow> int \<Rightarrow> int \<Rightarrow> u8 \<Rightarrow> u32 \<Rightarrow> u32 \<Rightarrow> bytes \<Rightarrow> bytes option" where
  "font_render_char cv f x y c fg bg px =
     (if uint c < fn_first f \<or> fn_last f < uint c then Some px
      else do {
        i \<leftarrow> ck (uint c - fn_first f);
        glyph \<leftarrow> ck (i * fn_height f);
        render_rows cv f glyph x y fg bg [0 .. fn_height f - 1] px })"

fun font_render_string :: "gfx_canvas \<Rightarrow> font \<Rightarrow> int \<Rightarrow> int \<Rightarrow> cstr \<Rightarrow> u32 \<Rightarrow> u32 \<Rightarrow> bytes \<Rightarrow> bytes option" where
  "font_render_string cv f x y [] fg bg px = Some px"
| "font_render_string cv f x y (c # cs) fg bg px = do {
     px1 \<leftarrow> font_render_char cv f x y c fg bg px;
     x' \<leftarrow> ck (x + fn_width f);
     font_render_string cv f x' y cs fg bg px1 }"

text \<open>The font of 8 by 8 pixels (\<open>font_8x8.c\<close>), the characters from 32 to 126 in order.\<close>

definition font_8x8_data :: bytes where
  "font_8x8_data = [
     0, 0, 0, 0, 0, 0, 0, 0, 24, 24, 24, 24, 24, 0, 24, 0, 102, 102, 102, 0, 0, 0, 0, 0, 0, 0, 0, 0, 0, 0, 0, 0, 0, 0, 0, 0, 0, 0, 0, 0,
     0, 0, 0, 0, 0, 0, 0, 0, 0, 0, 0, 0, 0, 0, 0, 0, 24, 24, 24, 0, 0, 0, 0, 0, 0, 0, 0, 0, 0, 0, 0, 0, 0, 0, 0, 0, 0, 0, 0, 0,
     0, 0, 0, 0, 0, 0, 0, 0, 0, 0, 0, 0, 0, 0, 0, 0, 0, 0, 0, 0, 0, 24, 24, 48, 0, 0, 0, 254, 0, 0, 0, 0, 0, 0, 0, 0, 0, 0, 24, 24,
     0, 6, 12, 24, 48, 96, 192, 0, 60, 102, 195, 195, 195, 195, 102, 60, 24, 56, 24, 24, 24, 24, 24, 126, 124, 198, 6, 12, 24, 48, 96, 254, 124, 198, 6, 60, 6, 6, 198, 124,
     12, 28, 60, 108, 204, 254, 12, 12, 254, 192, 192, 252, 6, 6, 198, 124, 60, 102, 192, 252, 198, 198, 198, 124, 254, 6, 12, 24, 48, 48, 48, 48, 124, 198, 198, 124, 198, 198, 198, 124,
     124, 198, 198, 198, 126, 6, 12, 120, 0, 0, 24, 24, 0, 24, 24, 0, 0, 0, 0, 0, 0, 0, 0, 0, 0, 0, 0, 0, 0, 0, 0, 0, 0, 0, 0, 0, 0, 0, 0, 0,
     0, 0, 0, 0, 0, 0, 0, 0, 0, 0, 0, 0, 0, 0, 0, 0, 0, 0, 0, 0, 0, 0, 0, 0, 24, 60, 102, 195, 255, 195, 195, 195, 252, 195, 195, 252, 195, 195, 195, 252,
     60, 102, 192, 192, 192, 192, 102, 60, 248, 204, 198, 195, 195, 198, 204, 248, 255, 192, 192, 252, 192, 192, 192, 255, 255, 192, 192, 252, 192, 192, 192, 192, 60, 102, 192, 192, 207, 195, 99, 60,
     195, 195, 195, 255, 195, 195, 195, 195, 255, 24, 24, 24, 24, 24, 24, 255, 15, 6, 6, 6, 6, 198, 198, 124, 195, 198, 204, 248, 248, 204, 198, 195, 192, 192, 192, 192, 192, 192, 192, 255,
     195, 231, 255, 219, 195, 195, 195, 195, 195, 227, 243, 219, 207, 199, 195, 195, 60, 102, 195, 195, 195, 195, 102, 60, 252, 198, 195, 198, 252, 192, 192, 192, 60, 102, 195, 195, 219, 207, 102, 61,
     252, 198, 195, 198, 252, 204, 198, 195, 126, 192, 192, 124, 6, 6, 6, 252, 255, 24, 24, 24, 24, 24, 24, 24, 195, 195, 195, 195, 195, 195, 102, 60, 195, 195, 195, 195, 195, 102, 60, 24,
     195, 195, 195, 219, 255, 231, 195, 195, 195, 195, 102, 60, 60, 102, 195, 195, 195, 195, 195, 102, 60, 24, 24, 24, 255, 6, 12, 24, 48, 96, 192, 255, 0, 0, 0, 0, 0, 0, 0, 0,
     0, 0, 0, 0, 0, 0, 0, 0, 0, 0, 0, 0, 0, 0, 0, 0, 0, 0, 0, 0, 0, 0, 0, 0, 0, 0, 0, 0, 0, 0, 0, 255, 0, 0, 0, 0, 0, 0, 0, 0,
     0, 0, 124, 6, 126, 198, 198, 126, 192, 192, 252, 198, 198, 198, 198, 252, 0, 0, 124, 198, 192, 192, 198, 124, 6, 6, 126, 198, 198, 198, 198, 126, 0, 0, 124, 198, 254, 192, 198, 124,
     60, 102, 96, 248, 96, 96, 96, 96, 0, 0, 126, 198, 198, 126, 6, 124, 192, 192, 252, 198, 198, 198, 198, 198, 24, 0, 120, 24, 24, 24, 24, 126, 12, 0, 60, 12, 12, 12, 204, 120,
     192, 192, 198, 204, 248, 248, 204, 198, 120, 24, 24, 24, 24, 24, 24, 126, 0, 0, 230, 255, 219, 219, 219, 219, 0, 0, 220, 230, 198, 198, 198, 198, 0, 0, 124, 198, 198, 198, 198, 124,
     0, 0, 252, 198, 198, 252, 192, 192, 0, 0, 126, 198, 198, 126, 6, 6, 0, 0, 220, 230, 192, 192, 192, 192, 0, 0, 126, 192, 124, 6, 6, 252, 48, 48, 252, 48, 48, 48, 54, 28,
     0, 0, 198, 198, 198, 198, 198, 126, 0, 0, 198, 198, 198, 102, 60, 24, 0, 0, 195, 219, 255, 231, 195, 195, 0, 0, 198, 108, 56, 56, 108, 198, 0, 0, 198, 198, 198, 126, 6, 124,
     0, 0, 254, 12, 24, 48, 96, 254, 0, 0, 0, 0, 0, 0, 0, 0, 0, 0, 0, 0, 0, 0, 0, 0, 0, 0, 0, 0, 0, 0, 0, 0, 0, 0, 0, 0, 0, 0, 0, 0]"

definition font_8x8 :: font where
  "font_8x8 = \<lparr>fn_width = 8, fn_height = 8, fn_first = 32, fn_last = 126, fn_data = font_8x8_data\<rparr>"

section \<open>The test picture\<close>

definition lerp_channel :: "u32 \<Rightarrow> u32 \<Rightarrow> int \<Rightarrow> int \<Rightarrow> u32 option" where
  "lerp_channel c1 c2 num den =
     (if den \<le> 0 then Some c1
      else do { d \<leftarrow> ck (den - num); Some ((c1 * of_int d + c2 * of_int num) div of_int den) })"

definition lerp_color :: "u32 \<Rightarrow> u32 \<Rightarrow> int \<Rightarrow> int \<Rightarrow> u32 option" where
  "lerp_color c1 c2 num den = do {
     r \<leftarrow> lerp_channel (drop_bit 16 c1 AND 0xff) (drop_bit 16 c2 AND 0xff) num den;
     g \<leftarrow> lerp_channel (drop_bit 8 c1 AND 0xff) (drop_bit 8 c2 AND 0xff) num den;
     b \<leftarrow> lerp_channel (c1 AND 0xff) (c2 AND 0xff) num den;
     Some (GFX_RGB r g b) }"

fun gradient_rows :: "gfx_canvas \<Rightarrow> u32 \<Rightarrow> u32 \<Rightarrow> int \<Rightarrow> int list \<Rightarrow> bytes \<Rightarrow> bytes option" where
  "gradient_rows cv c1 c2 h [] px = Some px"
| "gradient_rows cv c1 c2 h (y # ys) px = do {
     c \<leftarrow> lerp_color c1 c2 y (h - 1);
     px1 \<leftarrow> gfx_fill_rect cv 0 y (sint (cv_width cv)) 1 c px;
     gradient_rows cv c1 c2 h ys px1 }"

definition draw_gradient_bg :: "gfx_canvas \<Rightarrow> u32 \<Rightarrow> u32 \<Rightarrow> bytes \<Rightarrow> bytes option" where
  "draw_gradient_bg cv c1 c2 =
     gradient_rows cv c1 c2 (sint (cv_height cv)) [0 .. sint (cv_height cv) - 1]"

fun disc_points :: "gfx_canvas \<Rightarrow> u32 \<Rightarrow> int \<Rightarrow> int \<Rightarrow> int \<Rightarrow> (int \<times> int) list \<Rightarrow> bytes \<Rightarrow> bytes option" where
  "disc_points cv color cx cy r2 [] px = Some px"
| "disc_points cv color cx cy r2 ((x, y) # ps) px = do {
     dx \<leftarrow> ck (x - cx); dy \<leftarrow> ck (y - cy);
     a \<leftarrow> ck (dx * dx); b \<leftarrow> ck (dy * dy); d \<leftarrow> ck (a + b);
     px1 \<leftarrow> (if d \<le> r2 then gfx_set_pixel cv x y color px else Some px);
     disc_points cv color cx cy r2 ps px1 }"

definition draw_filled_circle :: "gfx_canvas \<Rightarrow> int \<Rightarrow> int \<Rightarrow> int \<Rightarrow> u32 \<Rightarrow> bytes \<Rightarrow> bytes option" where
  "draw_filled_circle cv cx cy r color px = do {
     r2 \<leftarrow> ck (r * r);
     x0 \<leftarrow> ck (cx - r); x1 \<leftarrow> ck (cx + r); y0 \<leftarrow> ck (cy - r); y1 \<leftarrow> ck (cy + r);
     disc_points cv color cx cy r2 [(x, y). y \<leftarrow> [y0 .. y1], x \<leftarrow> [x0 .. x1]] px }"

definition palette :: "u32 list" where
  "palette = [GFX_RGB 0xe9 0x45 0x60, GFX_RGB 0xff 0xc3 0x00, GFX_RGB 0x00 0xd2 0xff, GFX_RGB 0x2e 0xcc 0x71,
     GFX_RGB 0x9b 0x59 0xb6, GFX_RGB 0xf3 0x9c 0x12, GFX_RGB 0x1a 0xbc 0x9c, GFX_RGB 0x34 0x49 0x5e]"

fun palette_boxes :: "gfx_canvas \<Rightarrow> int \<Rightarrow> int \<Rightarrow> int \<Rightarrow> int \<Rightarrow> int list \<Rightarrow> bytes \<Rightarrow> bytes option" where
  "palette_boxes cv x y sz gap [] px = Some px"
| "palette_boxes cv x y sz gap (i # is) px = do {
     s \<leftarrow> ck (sz + gap); m \<leftarrow> ck (i * s); bx \<leftarrow> ck (x + m);
     px1 \<leftarrow> gfx_fill_rect cv bx y sz sz (palette ! (nat i mod length palette)) px;
     px2 \<leftarrow> gfx_draw_rect cv bx y sz sz (GFX_RGB 0x22 0x22 0x33) px1;
     palette_boxes cv x y sz gap is px2 }"

definition draw_palette :: "gfx_canvas \<Rightarrow> int \<Rightarrow> int \<Rightarrow> int \<Rightarrow> int \<Rightarrow> int \<Rightarrow> bytes \<Rightarrow> bytes option" where
  "draw_palette cv x y n sz gap = palette_boxes cv x y sz gap [0 .. n - 1]"

text \<open>C division rounds towards zero.\<close>

definition c_div :: "int \<Rightarrow> int \<Rightarrow> int" where
  "c_div v k = (if v < 0 then - ((- v) div k) else v div k)"

definition GFX_COLOR_WHITE :: u32 where "GFX_COLOR_WHITE = 0xFFFFFFFF"

definition draw_title_bar :: "gfx_canvas \<Rightarrow> cstr \<Rightarrow> bytes \<Rightarrow> bytes option" where
  "draw_title_bar cv title px = do {
     tw \<leftarrow> ck (int (length title) * 8);
     d \<leftarrow> ck (sint (cv_width cv) - tw);
     px1 \<leftarrow> gfx_fill_rect cv 0 0 (sint (cv_width cv)) 40 (GFX_RGB 0x16 0x16 0x28) px;
     px2 \<leftarrow> gfx_draw_line cv 0 39 (sint (cv_width cv - 1)) 39 (GFX_RGB 0xe9 0x45 0x60) px1;
     font_render_string cv font_8x8 (c_div d 2) 16 title GFX_COLOR_WHITE (GFX_RGB 0x16 0x16 0x28) px2 }"

text \<open>The drawing part of \<open>_start\<close>: what stands on the screen when it flushes.\<close>

definition fb_test_draw :: "gfx_canvas \<Rightarrow> bytes \<Rightarrow> bytes option" where
  "fb_test_draw cv px = do {
     px1 \<leftarrow> draw_gradient_bg cv (GFX_RGB 0x1a 0x1a 0x2e) (GFX_RGB 0x0f 0x0f 0x23) px;
     px2 \<leftarrow> draw_title_bar cv (cstr_of ''Minus OS / virtio-gpu'') px1;
     w3 \<leftarrow> ck (sint (cv_width cv) * 3);
     h5 \<leftarrow> ck (sint (cv_height cv) * 5);
     let cx = c_div w3 4;
     let cy = c_div h5 12;
     px3 \<leftarrow> draw_filled_circle cv cx cy 120 (GFX_RGB 0xe9 0x45 0x60) px2;
     px4 \<leftarrow> gfx_draw_circle cv cx cy 120 (GFX_RGB 0xff 0xff 0xff) px3;
     px5 \<leftarrow> draw_filled_circle cv (cx - 40) (cy - 40) 30 (GFX_RGB 0xff 0x80 0x90) px4;
     px6 \<leftarrow> gfx_fill_rect cv 60 80 340 120 (GFX_RGB 0x16 0x16 0x28) px5;
     px7 \<leftarrow> gfx_draw_rect cv 60 80 340 120 (GFX_RGB 0xff 0xc3 0x00) px6;
     px8 \<leftarrow> font_render_string cv font_8x8 80 100 (cstr_of ''Resolution:'') (GFX_RGB 0xff 0xc3 0x00) (GFX_RGB 0x16 0x16 0x28) px7;
     px9 \<leftarrow> font_render_string cv font_8x8 80 120 (cstr_of ''1280 x 800'') GFX_COLOR_WHITE (GFX_RGB 0x16 0x16 0x28) px8;
     px10 \<leftarrow> font_render_string cv font_8x8 80 150 (cstr_of ''Format: XRGB8888'') GFX_COLOR_WHITE (GFX_RGB 0x16 0x16 0x28) px9;
     d \<leftarrow> ck (sint (cv_width cv) - (8 * 64 + 7 * 8));
     py \<leftarrow> ck (sint (cv_height cv) - 120);
     px11 \<leftarrow> draw_palette cv (c_div d 2) py 8 64 8 px10;
     gfx_draw_rect cv 8 8 (sint (cv_width cv - 16)) (sint (cv_height cv - 16)) (GFX_RGB 0x33 0x33 0x44) px11 }"

section \<open>Canvases that fit their memory\<close>

definition canvas_ok :: "gfx_canvas \<Rightarrow> bytes \<Rightarrow> bool" where
  "canvas_ok cv px \<longleftrightarrow>
     unat (cv_width cv) * bytes_per_pixel (cv_format cv) \<le> unat (cv_stride cv) \<and> unat (cv_width cv) < 2 ^ 29 \<and>
     unat (cv_height cv) < 2 ^ 31 \<and> unat (cv_height cv) * unat (cv_stride cv) \<le> length px \<and> length px < 2 ^ 32"

definition poff :: "gfx_canvas \<Rightarrow> nat \<Rightarrow> nat \<Rightarrow> nat" where
  "poff cv x y = y * unat (cv_stride cv) + x * bytes_per_pixel (cv_format cv)"

definition pix :: "gfx_canvas \<Rightarrow> bytes \<Rightarrow> nat \<Rightarrow> nat \<Rightarrow> bytes" where
  "pix cv px x y = take (bytes_per_pixel (cv_format cv)) (drop (poff cv x y) px)"

definition encode :: "gfx_canvas \<Rightarrow> u32 \<Rightarrow> bytes" where
  "encode cv color = (if cv_format cv = FB_FORMAT_RGB565 then le_bytes 2 (unat (color_to_rgb565 color)) else le_bytes 4 (unat color))"

definition on_canvas :: "gfx_canvas \<Rightarrow> nat \<Rightarrow> nat \<Rightarrow> bool" where
  "on_canvas cv x y \<longleftrightarrow> x < unat (cv_width cv) \<and> y < unat (cv_height cv)"

lemma put_pixel_bytes: "put_pixel cv color off px = put_bytes px off (encode cv color)"
  by (simp add: put_pixel_def encode_def put_le_def)

lemma length_encode [simp]: "length (encode cv color) = bytes_per_pixel (cv_format cv)"
  by (simp add: encode_def bytes_per_pixel_def)

lemma canvas_ok_length: "length px' = length px \<Longrightarrow> canvas_ok cv px \<Longrightarrow> canvas_ok cv px'"
  by (simp add: canvas_ok_def)

lemma poff_row:
  assumes "canvas_ok cv px" and "x < unat (cv_width cv)"
  shows "x * bytes_per_pixel (cv_format cv) + bytes_per_pixel (cv_format cv) \<le> unat (cv_stride cv)"
proof -
  have "(x + 1) * bytes_per_pixel (cv_format cv) \<le> unat (cv_width cv) * bytes_per_pixel (cv_format cv)"
    using assms(2) by (intro mult_le_mono1) simp
  then show ?thesis using assms(1) by (simp add: canvas_ok_def)
qed

lemma poff_before:
  assumes ok: "canvas_ok cv px" and "on_canvas cv x y" and lt: "y < y' \<or> y = y' \<and> x < x'"
  shows "poff cv x y + bytes_per_pixel (cv_format cv) \<le> poff cv x' y'"
  using lt
proof
  assume "y < y'"
  then have "(y + 1) * unat (cv_stride cv) \<le> y' * unat (cv_stride cv)" by (intro mult_le_mono1) simp
  then show ?thesis using poff_row [OF ok, of x] assms(2) by (simp add: on_canvas_def poff_def)
next
  assume h: "y = y' \<and> x < x'"
  then have "(x + 1) * bytes_per_pixel (cv_format cv) \<le> x' * bytes_per_pixel (cv_format cv)" by (intro mult_le_mono1) simp
  then show ?thesis using h by (simp add: poff_def)
qed

lemma poff_inside:
  assumes "canvas_ok cv px" and "on_canvas cv x y"
  shows "poff cv x y + bytes_per_pixel (cv_format cv) \<le> length px"
proof -
  have "poff cv x y + bytes_per_pixel (cv_format cv) \<le> poff cv 0 (unat (cv_height cv))"
    using poff_before [OF assms] assms(2) by (simp add: on_canvas_def)
  then show ?thesis using assms(1) by (simp add: poff_def canvas_ok_def)
qed

lemma canvas_sizes:
  assumes "canvas_ok cv px"
  shows "sint (cv_width cv) = int (unat (cv_width cv))" "sint (cv_height cv) = int (unat (cv_height cv))"
  using assms by (simp_all add: canvas_ok_def sint_small)

lemma pixel_off_poff:
  assumes ok: "canvas_ok cv px" and on: "on_canvas cv x y"
  shows "pixel_off cv (int x) (int y) = Some (poff cv x y)"
proof -
  let ?b = "bytes_per_pixel (cv_format cv)"
  have "x * ?b < 2 ^ 31" using ok on by (simp add: canvas_ok_def on_canvas_def bytes_per_pixel_def)
  moreover have "poff cv x y < 2 ^ 32" using poff_inside [OF assms] ok by (simp add: canvas_ok_def bytes_per_pixel_def split: if_splits)
  moreover have "of_int (int y) * cv_stride cv + of_int (int (x * ?b)) = (of_nat (poff cv x y) :: u32)"
    by (simp add: poff_def)
  ultimately show ?thesis
    unfolding pixel_off_def by (simp add: ck_def unat_of_nat flip: of_nat_mult)
qed

text \<open>Writing one pixel changes that pixel and no other.\<close>

lemma put_pixel_pix:
  assumes ok: "canvas_ok cv px" and on: "on_canvas cv x y"
  shows "\<exists>px'. put_pixel cv color (poff cv x y) px = Some px' \<and> length px' = length px \<and>
    (\<forall>x' y'. on_canvas cv x' y' \<longrightarrow> pix cv px' x' y' = (if x' = x \<and> y' = y then encode cv color else pix cv px x' y'))"
proof -
  obtain px' where p: "put_bytes px (poff cv x y) (encode cv color) = Some px'"
    using poff_inside [OF assms] by (simp add: put_bytes_def)
  have "pix cv px' x' y' = pix cv px x' y'" if on': "on_canvas cv x' y'" and ne: "\<not> (x' = x \<and> y' = y)" for x' y'
  proof -
    have "(y' < y \<or> y' = y \<and> x' < x) \<or> (y < y' \<or> y = y' \<and> x < x')" using ne by auto
    then have "poff cv x' y' + bytes_per_pixel (cv_format cv) \<le> poff cv x y \<or> poff cv x y + bytes_per_pixel (cv_format cv) \<le> poff cv x' y'"
      using poff_before [OF ok on'] poff_before [OF ok on] by blast
    then show ?thesis unfolding pix_def by (intro take_drop_put_other [OF p]) simp
  qed
  moreover have "pix cv px' x y = encode cv color"
    using take_drop_put_same [OF p] by (simp add: pix_def)
  ultimately show ?thesis using p length_put_bytes [OF p] by (auto simp: put_pixel_bytes)
qed

text \<open>Rows and rectangles.\<close>

lemma fill_row_pix:
  assumes "canvas_ok cv px" and "x + n \<le> unat (cv_width cv)" and "y < unat (cv_height cv)"
  shows "\<exists>px'. fill_row cv color n (poff cv x y) px = Some px' \<and> length px' = length px \<and>
    (\<forall>x' y'. on_canvas cv x' y' \<longrightarrow>
       pix cv px' x' y' = (if x \<le> x' \<and> x' < x + n \<and> y' = y then encode cv color else pix cv px x' y'))"
  using assms(1,2)
proof (induction n arbitrary: x px)
  case (Suc n)
  have "on_canvas cv x y" using Suc.prems assms(3) by (simp add: on_canvas_def)
  then obtain px1 where p1: "put_pixel cv color (poff cv x y) px = Some px1" "length px1 = length px"
    "\<forall>x' y'. on_canvas cv x' y' \<longrightarrow> pix cv px1 x' y' = (if x' = x \<and> y' = y then encode cv color else pix cv px x' y')"
    using put_pixel_pix [OF Suc.prems(1)] by metis
  have o: "poff cv x y + bytes_per_pixel (cv_format cv) = poff cv (Suc x) y" by (simp add: poff_def)
  obtain px2 where p2: "fill_row cv color n (poff cv (Suc x) y) px1 = Some px2" "length px2 = length px1"
    "\<forall>x' y'. on_canvas cv x' y' \<longrightarrow>
       pix cv px2 x' y' = (if Suc x \<le> x' \<and> x' < Suc x + n \<and> y' = y then encode cv color else pix cv px1 x' y')"
    using Suc.IH [OF canvas_ok_length [OF p1(2) Suc.prems(1)], of "Suc x"] Suc.prems(2) by auto
  then show ?case using p1 o by (auto simp: le_less)
qed auto

lemma fill_rows_pix:
  assumes "canvas_ok cv px" and "x + n \<le> unat (cv_width cv)" and "0 < n" and "set rows \<subseteq> {0 ..< unat (cv_height cv)}"
  shows "\<exists>px'. fill_rows cv color (int x) n (map int rows) px = Some px' \<and> length px' = length px \<and>
    (\<forall>x' y'. on_canvas cv x' y' \<longrightarrow>
       pix cv px' x' y' = (if x \<le> x' \<and> x' < x + n \<and> y' \<in> set rows then encode cv color else pix cv px x' y'))"
  using assms(1,4)
proof (induction rows arbitrary: px)
  case (Cons y rows)
  have y: "y < unat (cv_height cv)" using Cons.prems(2) by auto
  have o: "pixel_off cv (int x) (int y) = Some (poff cv x y)"
    using pixel_off_poff [OF Cons.prems(1), of x y] y assms(2,3) by (simp add: on_canvas_def)
  obtain px1 where p1: "fill_row cv color n (poff cv x y) px = Some px1" "length px1 = length px"
    "\<forall>x' y'. on_canvas cv x' y' \<longrightarrow>
       pix cv px1 x' y' = (if x \<le> x' \<and> x' < x + n \<and> y' = y then encode cv color else pix cv px x' y')"
    using fill_row_pix [OF Cons.prems(1) assms(2) y] by metis
  obtain px2 where p2: "fill_rows cv color (int x) n (map int rows) px1 = Some px2" "length px2 = length px1"
    "\<forall>x' y'. on_canvas cv x' y' \<longrightarrow>
       pix cv px2 x' y' = (if x \<le> x' \<and> x' < x + n \<and> y' \<in> set rows then encode cv color else pix cv px1 x' y')"
    using Cons.IH [OF canvas_ok_length [OF p1(2) Cons.prems(1)]] Cons.prems(2) by auto
  then show ?case using p1 o by auto
qed simp

lemma upto_nat: "0 \<le> a \<Longrightarrow> [a .. b - 1] = map int [nat a ..< nat b]"
proof (cases "a \<le> b")
  case True
  assume "0 \<le> a"
  then show ?thesis using True by (auto intro!: nth_equalityI)
qed simp

text \<open>
  (C18) \<open>gfx_fill_rect\<close> paints exactly the part of the rectangle that lies on the canvas, for every position
  and size of the rectangle, in either pixel format, and writes no byte outside the memory of the canvas.
\<close>

theorem gfx_fill_rect_correct:
  assumes ok: "canvas_ok cv px" and "ck (x + w) \<noteq> None" and "ck (y + h) \<noteq> None"
  shows "\<exists>px'. gfx_fill_rect cv x y w h color px = Some px' \<and> length px' = length px \<and>
    (\<forall>x' y'. on_canvas cv x' y' \<longrightarrow>
       pix cv px' x' y' = (if x \<le> int x' \<and> int x' < x + w \<and> y \<le> int y' \<and> int y' < y + h then encode cv color else pix cv px x' y'))"
proof -
  define W H where W: "W = unat (cv_width cv)" and H: "H = unat (cv_height cv)"
  have on: "on_canvas cv x' y' \<longleftrightarrow> x' < W \<and> y' < H" for x' y' by (simp add: on_canvas_def W H)
  have sz: "sint (cv_width cv) = int W" "sint (cv_height cv) = int H" using canvas_sizes [OF ok] by (simp_all add: W H)
  define x0 x1 y0 y1 where "x0 = clip x 0 (int W)" and "x1 = clip (x + w) 0 (int W)"
    and "y0 = clip y 0 (int H)" and "y1 = clip (y + h) 0 (int H)"
  note cl = x0_def x1_def y0_def y1_def clip_def
  have b: "0 \<le> x0" "0 \<le> y0" "x1 \<le> int W" "y1 \<le> int H" by (simp_all add: cl)
  have xw: "ck (x + w) = Some (x + w)" "ck (y + h) = Some (y + h)" using assms(2,3) by (auto simp: ck_def split: if_splits)
  have iff: "x \<le> int x' \<and> int x' < x + w \<longleftrightarrow> x0 \<le> int x' \<and> int x' < x1" "y \<le> int y' \<and> int y' < y + h \<longleftrightarrow> y0 \<le> int y' \<and> int y' < y1"
    if "on_canvas cv x' y'" for x' y'
    using that by (auto simp: cl on)
  show ?thesis
  proof (cases "x1 \<le> x0 \<or> y1 \<le> y0")
    case True
    then have "gfx_fill_rect cv x y w h color px = Some px"
      by (simp add: gfx_fill_rect_def xw sz flip: x0_def x1_def y0_def y1_def)
    then show ?thesis using iff True by fastforce
  next
    case False
    then have eq: "gfx_fill_rect cv x y w h color px = fill_rows cv color (int (nat x0)) (nat (x1 - x0)) (map int [nat y0 ..< nat y1]) px"
      using b by (simp add: gfx_fill_rect_def xw sz upto_nat flip: x0_def x1_def y0_def y1_def)
    have "nat x0 + nat (x1 - x0) \<le> unat (cv_width cv)" "0 < nat (x1 - x0)" "set [nat y0 ..< nat y1] \<subseteq> {0 ..< unat (cv_height cv)}"
      using b False unfolding W [symmetric] H [symmetric] by auto
    from fill_rows_pix [OF ok this, of color] obtain px' where p: "gfx_fill_rect cv x y w h color px = Some px'" "length px' = length px"
      "\<forall>x' y'. on_canvas cv x' y' \<longrightarrow> pix cv px' x' y' =
         (if nat x0 \<le> x' \<and> x' < nat x0 + nat (x1 - x0) \<and> y' \<in> set [nat y0 ..< nat y1] then encode cv color else pix cv px x' y')"
      unfolding eq by blast
    have r: "nat x0 \<le> x' \<and> x' < nat x0 + nat (x1 - x0) \<and> y' \<in> set [nat y0 ..< nat y1] \<longleftrightarrow>
        (x0 \<le> int x' \<and> int x' < x1) \<and> (y0 \<le> int y' \<and> int y' < y1)" for x' y'
      using b False by auto
    have "pix cv px' x' y' = (if x \<le> int x' \<and> int x' < x + w \<and> y \<le> int y' \<and> int y' < y + h then encode cv color else pix cv px x' y')"
      if "on_canvas cv x' y'" for x' y'
    proof -
      have q: "(x \<le> int x' \<and> int x' < x + w \<and> y \<le> int y' \<and> int y' < y + h) =
          ((x0 \<le> int x' \<and> int x' < x1) \<and> (y0 \<le> int y' \<and> int y' < y1))"
        using iff [OF that] by blast
      show ?thesis unfolding q r [symmetric] using p(3) that by blast
    qed
    with p(1,2) show ?thesis by blast
  qed
qed

section \<open>Lines\<close>

lemma set_pixel_pix:
  assumes ok: "canvas_ok cv px"
  shows "\<exists>px'. gfx_set_pixel cv x y color px = Some px' \<and> length px' = length px \<and>
    (\<forall>x' y'. on_canvas cv x' y' \<longrightarrow> pix cv px' x' y' = (if (int x', int y') = (x, y) then encode cv color else pix cv px x' y'))"
proof -
  define W H where W: "W = unat (cv_width cv)" and H: "H = unat (cv_height cv)"
  have on: "on_canvas cv x' y' \<longleftrightarrow> x' < W \<and> y' < H" for x' y' by (simp add: on_canvas_def W H)
  have sz: "sint (cv_width cv) = int W" "sint (cv_height cv) = int H" using canvas_sizes [OF ok] by (simp_all add: W H)
  show ?thesis
  proof (cases "x < 0 \<or> int W \<le> x \<or> y < 0 \<or> int H \<le> y")
    case True
    then have "gfx_set_pixel cv x y color px = Some px" by (simp add: gfx_set_pixel_def sz)
    then show ?thesis using True on by auto
  next
    case False
    then obtain a b where ab: "x = int a" "y = int b" "on_canvas cv a b" using on by (metis linorder_not_less nat_0_le of_nat_less_iff)
    then have "gfx_set_pixel cv x y color px = put_pixel cv color (poff cv a b) px"
      using False by (simp add: gfx_set_pixel_def sz pixel_off_poff [OF ok])
    then show ?thesis using put_pixel_pix [OF ok ab(3), of color] ab by auto
  qed
qed

text \<open>
  The error term of the line after \<open>i\<close> steps to the side and \<open>j\<close> steps up is \<open>(j + 1) D - (i + 1) E\<close>;
  therefore neither direction goes on past its end, and in every round at least one does.
\<close>

definition line_err :: "int \<Rightarrow> int \<Rightarrow> int \<Rightarrow> int \<Rightarrow> int" where
  "line_err D E i j = (j + 1) * D - (i + 1) * E"

lemma line_no_overshoot:
  assumes "0 \<le> i" "i \<le> D" "0 \<le> j" "j \<le> E" "\<not> (i = D \<and> j = E)"
  shows "- E \<le> 2 * line_err D E i j \<Longrightarrow> i < D" and "2 * line_err D E i j \<le> D \<Longrightarrow> j < E"
    and "- E \<le> 2 * line_err D E i j \<or> 2 * line_err D E i j \<le> D"
proof -
  show "i < D" if "- E \<le> 2 * line_err D E i j"
  proof (rule ccontr)
    assume "\<not> i < D"
    then have "i = D" "j + 1 \<le> E" using assms by auto
    moreover from this have "(j + 1) * D \<le> E * D" using assms by (intro mult_right_mono) auto
    ultimately show False using that assms by (simp add: line_err_def algebra_simps)
  qed
  show "j < E" if "2 * line_err D E i j \<le> D"
  proof (rule ccontr)
    assume "\<not> j < E"
    then have "j = E" "i + 1 \<le> D" using assms by auto
    moreover from this have "(i + 1) * E \<le> D * E" using assms by (intro mult_right_mono) auto
    ultimately show False using that assms by (simp add: line_err_def algebra_simps)
  qed
  show "- E \<le> 2 * line_err D E i j \<or> 2 * line_err D E i j \<le> D" using assms by linarith
qed

definition line_inv :: "int \<Rightarrow> int \<Rightarrow> int \<Rightarrow> int \<Rightarrow> bool" where
  "line_inv D E i j \<longleftrightarrow> 0 \<le> i \<and> i \<le> D \<and> 0 \<le> j \<and> j \<le> E \<and> - (3 * E) \<le> 2 * line_err D E i j \<and> 2 * line_err D E i j \<le> 3 * D"

lemma line_err_step: "line_err D E (i + p) (j + q) = line_err D E i j - p * E + q * D"
  by (simp add: line_err_def algebra_simps)

definition line_moves :: "int \<Rightarrow> int \<Rightarrow> int \<Rightarrow> int \<Rightarrow> int \<times> int" where
  "line_moves D E i j =
     (if - E \<le> 2 * line_err D E i j then 1 else 0, if 2 * line_err D E i j \<le> D then 1 else 0)"

lemma line_inv_step:
  assumes inv: "line_inv D E i j" and ne: "\<not> (i = D \<and> j = E)" and m: "line_moves D E i j = (p, q)"
  shows "line_inv D E (i + p) (j + q)" and "0 < p + q" and "0 \<le> p" "p \<le> 1" "0 \<le> q" "q \<le> 1"
proof -
  note b = inv [unfolded line_inv_def]
  note n = line_no_overshoot [of i D j E] 
  have pq: "p = (if - E \<le> 2 * line_err D E i j then 1 else 0)" "q = (if 2 * line_err D E i j \<le> D then 1 else 0)"
    using m by (simp_all add: line_moves_def)
  show "0 < p + q" using n(3) b ne pq by auto
  show "0 \<le> p" "p \<le> 1" "0 \<le> q" "q \<le> 1" using pq by auto
  have "i + p \<le> D" "j + q \<le> E" using n(1,2) b ne pq by auto
  moreover have "- (3 * E) \<le> 2 * line_err D E (i + p) (j + q)" "2 * line_err D E (i + p) (j + q) \<le> 3 * D"
    unfolding line_err_step using b pq by (auto split: if_splits)
  ultimately show "line_inv D E (i + p) (j + q)" using b pq by (auto simp: line_inv_def)
qed

lemma line_step_eq:
  assumes inv: "line_inv D E i j" and m: "line_moves D E i j = (p, q)" and D: "D \<le> 2 ^ 29" "E \<le> 2 ^ 29"
    and s: "sx = 1 \<or> sx = - 1" "sy = 1 \<or> sy = - 1"
    and x: "\<bar>x + sx * p\<bar> < 2 ^ 30" "\<bar>y + sy * q\<bar> < 2 ^ 30"
  shows "line_step D (- E) sx sy (x, y, line_err D E i j) = Some (x + sx * p, y + sy * q, line_err D E (i + p) (j + q))"
proof -
  have pq: "p = (if - E \<le> 2 * line_err D E i j then 1 else 0)" "q = (if 2 * line_err D E i j \<le> D then 1 else 0)"
    using m by (simp_all add: line_moves_def)
  have b: "- (3 * E) \<le> 2 * line_err D E i j" "2 * line_err D E i j \<le> 3 * D" "0 \<le> D" "0 \<le> E"
    using inv by (auto simp: line_inv_def)
  have c: "ck (2 * line_err D E i j) = Some (2 * line_err D E i j)" using b D by (simp add: ck_def)
  have ce: "ck (line_err D E i j - E) = Some (line_err D E i j - E)" "ck (line_err D E i j + D) = Some (line_err D E i j + D)"
    "ck (line_err D E i j - E + D) = Some (line_err D E i j - E + D)"
    using b D by (simp_all add: ck_def)
  have cx: "- E \<le> 2 * line_err D E i j \<longrightarrow> ck (x + sx) = Some (x + sx)" "2 * line_err D E i j \<le> D \<longrightarrow> ck (y + sy) = Some (y + sy)"
    using x pq by (auto simp: ck_def)
  show ?thesis
    unfolding line_err_step using c ce cx pq by (auto simp: line_step_def)
qed

text \<open>Consecutive points of a line touch, and the line stays inside its box.\<close>

definition touch :: "int \<times> int \<Rightarrow> int \<times> int \<Rightarrow> bool" where
  "touch a b \<longleftrightarrow> a \<noteq> b \<and> \<bar>fst b - fst a\<bar> \<le> 1 \<and> \<bar>snd b - snd a\<bar> \<le> 1"

definition in_box :: "int \<times> int \<Rightarrow> int \<times> int \<Rightarrow> int \<times> int \<Rightarrow> bool" where
  "in_box a b c \<longleftrightarrow> min (fst a) (fst b) \<le> fst c \<and> fst c \<le> max (fst a) (fst b) \<and>
     min (snd a) (snd b) \<le> snd c \<and> snd c \<le> max (snd a) (snd b)"

definition painted :: "gfx_canvas \<Rightarrow> u32 \<Rightarrow> (int \<times> int) set \<Rightarrow> bytes \<Rightarrow> bytes \<Rightarrow> bool" where
  "painted cv color A px px' \<longleftrightarrow> length px' = length px \<and>
     (\<forall>x y. on_canvas cv x y \<longrightarrow> pix cv px' x y = (if (int x, int y) \<in> A then encode cv color else pix cv px x y))"

lemma painted_insert: "painted cv color {a} px px1 \<Longrightarrow> painted cv color A px1 px2 \<Longrightarrow> painted cv color (insert a A) px px2"
  by (auto simp: painted_def)

lemma set_pixel_painted:
  "canvas_ok cv px \<Longrightarrow> \<exists>px'. gfx_set_pixel cv x y color px = Some px' \<and> painted cv color {(x, y)} px px'"
  using set_pixel_pix [of cv px x y color] by (auto simp: painted_def)

lemma between:
  assumes "sg = 1 \<or> sg = - 1" and "0 \<le> i" and "i \<le> D" and "e = s + sg * (D :: int)"
  shows "min s e \<le> s + sg * i" "s + sg * i \<le> max s e"
  using assms by auto

lemma line_loop_points:
  assumes s: "sx = 1 \<or> sx = - 1" "sy = 1 \<or> sy = - 1" and D: "D \<le> 2 ^ 29" "E \<le> 2 ^ 29"
    and e: "x1 = x0 + sx * D" "y1 = y0 + sy * E"
    and c: "\<bar>x0\<bar> < 2 ^ 30" "\<bar>y0\<bar> < 2 ^ 30" "\<bar>x1\<bar> < 2 ^ 30" "\<bar>y1\<bar> < 2 ^ 30"
    and "line_inv D E i j" and "canvas_ok cv px"
  shows "\<exists>ps px'. line_loop cv color x1 y1 D (- E) sx sy (x0 + sx * i, y0 + sy * j, line_err D E i j) px = Some px' \<and>
    ps \<noteq> [] \<and> hd ps = (x0 + sx * i, y0 + sy * j) \<and> last ps = (x1, y1) \<and> successively touch ps \<and>
    (\<forall>a \<in> set ps. in_box (x0, y0) (x1, y1) a) \<and> painted cv color (set ps) px px'"
  using assms(11,12)
proof (induction "nat (D - i + (E - j))" arbitrary: i j px rule: less_induct)
  case less
  note inv = less.prems(1) [unfolded line_inv_def]
  let ?x = "x0 + sx * i" and ?y = "y0 + sy * j"
  have here: "in_box (x0, y0) (x1, y1) (?x, ?y)"
    using between [OF s(1), of i D x1 x0] between [OF s(2), of j E y1 y0] inv e by (simp add: in_box_def)
  obtain px1 where p1: "gfx_set_pixel cv ?x ?y color px = Some px1" "painted cv color {(?x, ?y)} px px1"
    using set_pixel_painted [OF less.prems(2)] by blast
  have ok1: "canvas_ok cv px1" using canvas_ok_length less.prems(2) p1(2) by (auto simp: painted_def)
  have fin: "?x = x1 \<and> ?y = y1 \<longleftrightarrow> i = D \<and> j = E" using s e by auto
  show ?case
  proof (cases "i = D \<and> j = E")
    case True
    then have "line_loop cv color x1 y1 D (- E) sx sy (?x, ?y, line_err D E i j) px = Some px1"
      using p1(1) fin by (subst line_loop.simps) simp
    then show ?thesis using True fin here p1(2) by (intro exI [of _ "[(?x, ?y)]"] exI [of _ px1]) simp
  next
    case False
    obtain p q where m: "line_moves D E i j = (p, q)" by fastforce
    note st = line_inv_step [OF less.prems(1) False m]
    let ?x' = "x0 + sx * (i + p)" and ?y' = "y0 + sy * (j + q)"
    have eq: "?x + sx * p = ?x'" "?y + sy * q = ?y'" by (simp_all add: algebra_simps)
    have near: "\<bar>?x'\<bar> < 2 ^ 30" "\<bar>?y'\<bar> < 2 ^ 30"
      using between [OF s(1), of "i + p" D x1 x0] between [OF s(2), of "j + q" E y1 y0] st(1) e c by (auto simp: line_inv_def)
    have step: "line_step D (- E) sx sy (?x, ?y, line_err D E i j) = Some (?x', ?y', line_err D E (i + p) (j + q))"
      using line_step_eq [OF less.prems(1) m D s, of ?x ?y] near unfolding eq by simp
    have dec: "nat (D - (i + p) + (E - (j + q))) < nat (D - i + (E - j))"
      using st by (simp add: line_inv_def)
    obtain ps px2 where ps: "line_loop cv color x1 y1 D (- E) sx sy (?x', ?y', line_err D E (i + p) (j + q)) px1 = Some px2"
      "ps \<noteq> []" "hd ps = (?x', ?y')" "last ps = (x1, y1)" "successively touch ps"
      "\<forall>a \<in> set ps. in_box (x0, y0) (x1, y1) a" "painted cv color (set ps) px1 px2"
      using less.hyps [OF dec st(1) ok1] by blast
    have "line_loop cv color x1 y1 D (- E) sx sy (?x, ?y, line_err D E i j) px = Some px2"
      using p1(1) fin False step ps(1) by (subst line_loop.simps) auto
    moreover have "touch (?x, ?y) (?x', ?y')"
      using st s by (auto simp: touch_def algebra_simps)
    moreover have "painted cv color (set ((?x, ?y) # ps)) px px2" using painted_insert [OF p1(2) ps(7)] by simp
    ultimately show ?thesis
      using ps here by (intro exI [of _ "(?x, ?y) # ps"] exI [of _ px2]) (auto simp: successively_Cons)
  qed
qed

text \<open>
  (C17) \<open>gfx_draw_line\<close> ends for every pair of points (coordinates below \<open>2\<^sup>2\<^sup>8\<close>, so that no sum leaves an
  \<open>int\<close>), although its loop has no bound of its own: it paints a chain of touching points that starts
  at the first point, ends at the second and stays in the box between them. Of the canvas exactly the
  pixels of the chain change, and points outside are skipped.
\<close>

theorem gfx_draw_line_correct:
  assumes "canvas_ok cv px" and "\<bar>x0\<bar> < 2 ^ 28" and "\<bar>y0\<bar> < 2 ^ 28" and "\<bar>x1\<bar> < 2 ^ 28" and "\<bar>y1\<bar> < 2 ^ 28"
  shows "\<exists>ps px'. gfx_draw_line cv x0 y0 x1 y1 color px = Some px' \<and>
    ps \<noteq> [] \<and> hd ps = (x0, y0) \<and> last ps = (x1, y1) \<and> successively touch ps \<and>
    (\<forall>a \<in> set ps. in_box (x0, y0) (x1, y1) a) \<and> painted cv color (set ps) px px'"
proof -
  define D E where D: "D = \<bar>x1 - x0\<bar>" and E: "E = \<bar>y1 - y0\<bar>"
  define sx sy :: int where sx: "sx = (if x0 < x1 then 1 else - 1)" and sy: "sy = (if y0 < y1 then 1 else - 1)"
  have dx: "(if x0 < x1 then x1 - x0 else x0 - x1) = D" "(if y0 < y1 then y0 - y1 else y1 - y0) = - E"
    by (simp_all add: D E)
  have b: "0 \<le> D" "0 \<le> E" "D \<le> 2 ^ 29" "E \<le> 2 ^ 29" using assms by (simp_all add: D E)
  have k: "ck D = Some D" "ck (- E) = Some (- E)" "ck (D + - E) = Some (D - E)" using b by (simp_all add: ck_def)
  have inv: "line_inv D E 0 0" using b by (simp add: line_inv_def line_err_def)
  have e: "x1 = x0 + sx * D" "y1 = y0 + sy * E" by (simp_all add: D E sx sy)
  have s: "sx = 1 \<or> sx = - 1" "sy = 1 \<or> sy = - 1" by (simp_all add: sx sy)
  have c: "\<bar>x0\<bar> < 2 ^ 30" "\<bar>y0\<bar> < 2 ^ 30" "\<bar>x1\<bar> < 2 ^ 30" "\<bar>y1\<bar> < 2 ^ 30" using assms by simp_all
  have "gfx_draw_line cv x0 y0 x1 y1 color px = line_loop cv color x1 y1 D (- E) sx sy (x0, y0, line_err D E 0 0) px"
    unfolding gfx_draw_line_def dx sx sy using k by (simp add: line_err_def)
  then show ?thesis
    using line_loop_points [OF s b(3,4) e c inv assms(1), of color] by simp
qed

text \<open>A canvas of 4 by 2 pixels of 32 bits.\<close>

definition small_canvas :: gfx_canvas where
  "small_canvas = \<lparr>cv_width = 4, cv_height = 2, cv_stride = 16, cv_format = 0\<rparr>"

lemma small_canvas_ok: "canvas_ok small_canvas (replicate 32 0)"
  by (simp add: canvas_ok_def small_canvas_def bytes_per_pixel_def FB_FORMAT_RGB565_def)

theorem gfx_fill_rect_witness:
  "\<exists>px'. gfx_fill_rect small_canvas (- 1) 0 3 5 7 (replicate 32 0) = Some px' \<and>
     pix small_canvas px' 1 1 = encode small_canvas 7 \<and> pix small_canvas px' 2 1 = pix small_canvas (replicate 32 0) 2 1"
proof -
  have "ck (- 1 + 3) \<noteq> None" "ck (0 + 5) \<noteq> None" by (simp_all add: ck_def)
  note t = gfx_fill_rect_correct [OF small_canvas_ok this, of 7]
  have "on_canvas small_canvas 1 1" "on_canvas small_canvas 2 1" by (simp_all add: on_canvas_def small_canvas_def)
  with t show ?thesis by auto
qed

theorem gfx_draw_line_witness:
  "\<exists>ps px'. gfx_draw_line small_canvas 0 0 3 1 7 (replicate 32 0) = Some px' \<and> hd ps = (0, 0) \<and> last ps = (3, 1) \<and>
     successively touch ps \<and> painted small_canvas 7 (set ps) (replicate 32 0) px'"
  using gfx_draw_line_correct [OF small_canvas_ok, of 0 0 3 1 7] by auto

end
