(* ===== verification/Shell.thy ===== *)
theory Shell
  imports Vfs_File
begin

text \<open>
  The shell (\<open>uapps/shell/shell.c\<close>). The system calls it makes are an argument (\<open>syscalls\<close>) on a world of
  any type; the paths and lines in its buffers are strings, cut where the code cuts them. The bytes
  behind those that a call has delivered are not initialised: using them is \<open>None\<close>.
\<close>

section \<open>System calls\<close>

text \<open>\<open>execve\<close> returns only on failure; \<open>None\<close> says that the program has been replaced.\<close>

record 'w syscalls =
  us_read :: "int \<Rightarrow> nat \<Rightarrow> 'w \<Rightarrow> int \<times> bytes \<times> 'w"
  us_write :: "int \<Rightarrow> bytes \<Rightarrow> 'w \<Rightarrow> 'w"
  us_openat :: "cstr \<Rightarrow> u32 \<Rightarrow> u32 \<Rightarrow> 'w \<Rightarrow> int \<times> 'w"
  us_close :: "int \<Rightarrow> 'w \<Rightarrow> 'w"
  us_execve :: "cstr \<Rightarrow> 'w \<Rightarrow> (int \<times> 'w) option"
  us_mkdirat :: "cstr \<Rightarrow> u32 \<Rightarrow> 'w \<Rightarrow> int \<times> 'w"
  us_chdir :: "cstr \<Rightarrow> 'w \<Rightarrow> int \<times> 'w"
  us_getdents64 :: "int \<Rightarrow> nat \<Rightarrow> 'w \<Rightarrow> int \<times> bytes \<times> 'w"
  us_newfstatat :: "cstr \<Rightarrow> 'w \<Rightarrow> int \<times> u16 \<times> 'w"

definition PATH_MAX :: nat where "PATH_MAX = 256"
definition LINE_MAX :: nat where "LINE_MAX = 128"
definition O_WRONLY :: u32 where "O_WRONLY = 1"

definition print :: "'w syscalls \<Rightarrow> cstr \<Rightarrow> 'w \<Rightarrow> 'w" where
  "print sys s = us_write sys 1 s"

definition isspace :: "u8 \<Rightarrow> bool" where
  "isspace c \<longleftrightarrow> c = 32 \<or> c = 9"

section \<open>Paths\<close>

definition make_path :: "nat \<Rightarrow> cstr \<Rightarrow> cstr \<Rightarrow> cstr" where
  "make_path outsz cwd path =
     (if path \<noteq> [] \<and> hd path = 47 then take (outsz - 1) path
      else
        let out = take (if outsz \<le> length cwd then outsz - 1 else length cwd) cwd;
            out' = (if out \<noteq> [] \<and> last out \<noteq> 47 \<and> length out < outsz - 1 then out @ [47] else out)
        in if length out' < outsz - 1 then out' @ take (outsz - length out' - 1) path else out')"

definition set_cwd :: "cstr \<Rightarrow> cstr" where
  "set_cwd path = take (PATH_MAX - 1) path"

section \<open>Commands\<close>

text \<open>
  The names of a listing: the records are read where the code reads them, the name up to its null
  byte. A record of length zero would be read for ever.
\<close>

definition cstr_in :: "bytes \<Rightarrow> nat \<Rightarrow> cstr option" where
  "cstr_in buf off =
     (if 0 \<in> set (drop off buf) then Some (takeWhile (\<lambda>c. c \<noteq> 0) (drop off buf)) else None)"

lemma rec_pos: "(rl :: u16) \<noteq> 0 \<Longrightarrow> 0 < unat rl"
  by (simp add: unat_gt_0)

function ls_names :: "bytes \<Rightarrow> nat \<Rightarrow> nat \<Rightarrow> cstr list option" where
  "ls_names buf n pos =
     (if n \<le> pos then Some []
      else do {
        name \<leftarrow> cstr_in buf (pos + 19);
        (case get_le 2 buf (pos + 16) of
           None \<Rightarrow> None
         | Some rl \<Rightarrow>
             if (rl :: u16) = 0 then None
             else do {
               names \<leftarrow> ls_names buf n (pos + unat rl);
               Some (if name \<noteq> cstr_of ''.'' \<and> name \<noteq> cstr_of ''..'' \<and> name \<noteq> cstr_of ''lost+found'' then name # names else names) }) })"
  by pat_completeness auto
termination
  by (relation "measure (\<lambda>(_, n, pos). n - pos)") (auto dest!: rec_pos)

declare ls_names.simps [simp del]

definition print_names :: "'w syscalls \<Rightarrow> cstr list \<Rightarrow> 'w \<Rightarrow> 'w" where
  "print_names sys = fold (\<lambda>name w. print sys [10] (print sys name w))"

partial_function (option) ls_loop :: "'w syscalls \<Rightarrow> int \<Rightarrow> 'w \<Rightarrow> 'w option" where
  "ls_loop sys fd w =
     (case us_getdents64 sys fd 512 w of
        (n, buf, w1) \<Rightarrow>
          if n \<le> 0 then Some w1
          else Option.bind (ls_names buf (nat n) 0) (\<lambda>names. ls_loop sys fd (print_names sys names w1)))"

definition cmd_ls :: "'w syscalls \<Rightarrow> cstr \<Rightarrow> cstr \<Rightarrow> 'w \<Rightarrow> 'w option" where
  "cmd_ls sys cwd arg w =
     (case us_openat sys (if arg \<noteq> [] then make_path PATH_MAX cwd arg else take (PATH_MAX - 1) cwd) (O_DIRECTORY OR O_RDONLY) 0 w of
        (fd, w1) \<Rightarrow>
          if fd < 0 then Some (print sys (cstr_of ''ls: cannot open directory'' @ [10]) w1)
          else map_option (us_close sys fd) (ls_loop sys fd w1))"

definition cmd_cd :: "'w syscalls \<Rightarrow> cstr \<Rightarrow> cstr \<Rightarrow> 'w \<Rightarrow> cstr \<times> 'w" where
  "cmd_cd sys cwd arg w =
     (if arg = [] then (set_cwd (cstr_of ''/''), w)
      else
        let path = make_path PATH_MAX cwd arg in
        (case us_newfstatat sys path w of
           (r, mode, w1) \<Rightarrow>
             if r < 0 then (cwd, print sys (cstr_of ''cd: no such file or directory'' @ [10]) w1)
             else if \<not> S_ISDIR mode then (cwd, print sys (cstr_of ''cd: not a directory'' @ [10]) w1)
             else (set_cwd path, snd (us_chdir sys path w1))))"

definition cmd_mkdir :: "'w syscalls \<Rightarrow> cstr \<Rightarrow> cstr \<Rightarrow> 'w \<Rightarrow> 'w" where
  "cmd_mkdir sys cwd arg w =
     (if arg = [] then print sys (cstr_of ''mkdir: missing operand'' @ [10]) w
      else (case us_mkdirat sys (make_path PATH_MAX cwd arg) 0x1ED w of
              (r, w1) \<Rightarrow> if r < 0 then print sys (cstr_of ''mkdir: failed'' @ [10]) w1 else w1))"

partial_function (option) cat_loop :: "'w syscalls \<Rightarrow> int \<Rightarrow> 'w \<Rightarrow> 'w option" where
  "cat_loop sys fd w =
     (case us_read sys fd 256 w of
        (n, buf, w1) \<Rightarrow>
          if n \<le> 0 then Some w1
          else if length buf < nat n then None
          else cat_loop sys fd (us_write sys 1 (take (nat n) buf) w1))"

definition cmd_cat :: "'w syscalls \<Rightarrow> cstr \<Rightarrow> cstr \<Rightarrow> 'w \<Rightarrow> 'w option" where
  "cmd_cat sys cwd arg w =
     (if arg = [] then Some (print sys (cstr_of ''cat: missing operand'' @ [10]) w)
      else (case us_openat sys (make_path PATH_MAX cwd arg) O_RDONLY 0 w of
              (fd, w1) \<Rightarrow>
                if fd < 0 then Some (print sys (cstr_of ''cat: cannot open file'' @ [10]) w1)
                else map_option (us_close sys fd) (cat_loop sys fd w1)))"

definition cmd_touch :: "'w syscalls \<Rightarrow> cstr \<Rightarrow> cstr \<Rightarrow> 'w \<Rightarrow> 'w" where
  "cmd_touch sys cwd arg w =
     (if arg = [] then print sys (cstr_of ''touch: missing operand'' @ [10]) w
      else (case us_openat sys (make_path PATH_MAX cwd arg) (O_CREAT OR O_WRONLY) 0x1A4 w of
              (fd, w1) \<Rightarrow> if fd < 0 then print sys (cstr_of ''touch: cannot create file'' @ [10]) w1 else us_close sys fd w1))"

text \<open>The words before the first \<open>>\<close> without the blanks at their end, and what follows it.\<close>

definition echo_text :: "cstr \<Rightarrow> cstr" where
  "echo_text arg = take (LINE_MAX - 1) (rev (dropWhile isspace (rev (takeWhile (\<lambda>c. c \<noteq> 62) arg))))"

definition echo_target :: "cstr \<Rightarrow> cstr" where
  "echo_target arg = dropWhile isspace (drop 1 (dropWhile (\<lambda>c. c \<noteq> 62) arg))"

definition cmd_echo :: "'w syscalls \<Rightarrow> cstr \<Rightarrow> cstr \<Rightarrow> 'w \<Rightarrow> 'w" where
  "cmd_echo sys cwd arg w =
     (if arg = [] then print sys [10] w
      else if 62 \<notin> set arg then print sys [10] (print sys arg w)
      else if echo_target arg = [] then print sys (cstr_of ''echo: missing filename after >'' @ [10]) w
      else (case us_openat sys (make_path PATH_MAX cwd (echo_target arg)) (O_CREAT OR O_WRONLY OR O_TRUNC) 0x1A4 w of
              (fd, w1) \<Rightarrow>
                if fd < 0 then print sys (cstr_of ''echo: cannot open file'' @ [10]) w1
                else us_close sys fd (us_write sys fd [10] (us_write sys fd (echo_text arg) w1))))"

definition cmd_run :: "'w syscalls \<Rightarrow> cstr \<Rightarrow> cstr \<Rightarrow> 'w \<Rightarrow> 'w option" where
  "cmd_run sys cwd arg w =
     (if arg = [] then Some (print sys (cstr_of ''run: missing operand'' @ [10]) w)
      else (case us_execve sys (make_path PATH_MAX cwd arg) w of
              None \<Rightarrow> None
            | Some (r, w1) \<Rightarrow> Some (if r < 0 then print sys (cstr_of ''run: failed'' @ [10]) w1 else w1)))"

section \<open>Lines\<close>

definition tokenize :: "cstr \<Rightarrow> cstr \<times> cstr" where
  "tokenize line =
     (let p = dropWhile isspace line;
          cmd = take 31 (takeWhile (\<lambda>c. \<not> isspace c) p);
          q = dropWhile isspace (drop (length cmd) p)
      in (cmd, take (LINE_MAX - 1) (takeWhile (\<lambda>c. c \<noteq> 10 \<and> c \<noteq> 13) q)))"

partial_function (option) read_line :: "'w syscalls \<Rightarrow> nat \<Rightarrow> cstr \<Rightarrow> 'w \<Rightarrow> (cstr \<times> 'w) option" where
  "read_line sys mx line w =
     (if mx - 1 \<le> length line then Some (line, w)
      else
        (case us_read sys 0 1 w of
           (n, buf, w1) \<Rightarrow>
             if n \<noteq> 1 then Some (line, w1)
             else if buf = [] then None
             else if hd buf = 13 \<or> hd buf = 10 then Some (line, print sys [10] w1)
             else if hd buf = 8 \<or> hd buf = 0x7f
             then (if line \<noteq> [] then read_line sys mx (butlast line) (print sys [8, 32, 8] w1)
                   else read_line sys mx line w1)
             else if 32 \<le> hd buf \<and> hd buf \<le> 126 then read_line sys mx (line @ [hd buf]) (us_write sys 1 [hd buf] w1)
             else read_line sys mx line w1))"

datatype 'w sh_status = Running cstr 'w | Exited 'w | Replaced

text \<open>One round of the main loop.\<close>

definition run_command :: "'w syscalls \<Rightarrow> cstr \<Rightarrow> cstr \<Rightarrow> cstr \<Rightarrow> 'w \<Rightarrow> 'w sh_status option" where
  "run_command sys cwd cmd arg w =
     (if cmd = [] then Some (Running cwd w)
      else if cmd = cstr_of ''exit'' then Some (Exited w)
      else if cmd = cstr_of ''ls'' then map_option (Running cwd) (cmd_ls sys cwd arg w)
      else if cmd = cstr_of ''cd'' then (case cmd_cd sys cwd arg w of (cwd', w') \<Rightarrow> Some (Running cwd' w'))
      else if cmd = cstr_of ''mkdir'' then Some (Running cwd (cmd_mkdir sys cwd arg w))
      else if cmd = cstr_of ''cat'' then map_option (Running cwd) (cmd_cat sys cwd arg w)
      else if cmd = cstr_of ''touch'' then Some (Running cwd (cmd_touch sys cwd arg w))
      else if cmd = cstr_of ''echo'' then Some (Running cwd (cmd_echo sys cwd arg w))
      else if cmd = cstr_of ''run'' then Some (case cmd_run sys cwd arg w of None \<Rightarrow> Replaced | Some w' \<Rightarrow> Running cwd w')
      else Some (Running cwd (print sys [10] (print sys cmd (print sys (cstr_of ''unknown command: '') w)))))"

definition shell_round :: "'w syscalls \<Rightarrow> cstr \<Rightarrow> 'w \<Rightarrow> 'w sh_status option" where
  "shell_round sys cwd w = do {
     (line, w1) \<leftarrow> read_line sys LINE_MAX [] (print sys (cstr_of ''# '') w);
     let (cmd, arg) = tokenize line in run_command sys cwd cmd arg w1 }"

section \<open>Paths fit their buffer\<close>

lemma make_path_length: "0 < outsz \<Longrightarrow> length (make_path outsz cwd path) < outsz"
  by (auto simp: make_path_def Let_def)

lemma make_path_relative:
  assumes "cwd \<noteq> []" and "length cwd + length path + 2 < outsz" and "path = [] \<or> hd path \<noteq> 47"
  shows "make_path outsz cwd path = (if last cwd = 47 then cwd @ path else cwd @ [47] @ path)"
  using assms by (auto simp: make_path_def Let_def)

section \<open>The listing, from the kernel's bytes to the names printed\<close>

text \<open>One record as \<open>filldir\<close> writes it, at the end of what has been passed.\<close>

lemma reclen_u16:
  assumes "length name < 256"
  shows "unat (ucast (reclen name) :: u16) = (length name + 27) div 8 * 8"
proof -
  have "unat (reclen name) < 65536" using reclen_unat [OF assms] assms by simp
  then show ?thesis by (simp add: unsigned_ucast_eq take_bit_nat_eq_self reclen_unat [OF assms, symmetric])
qed

lemma record_length:
  assumes "length (dn_name e) < 256"
  shows "get_le 2 (pre @ entry_bytes (p, e) @ rest) (length pre + 16) = Some (ucast (reclen (dn_name e)) :: u16)"
proof -
  have "take 2 (drop (length pre + 16) (pre @ entry_bytes (p, e) @ rest)) =
      le_bytes 2 (unat (ucast (reclen (dn_name e)) :: u16))"
    by (simp add: entry_bytes_def dirent_bytes_def)
  moreover have "unat (ucast (reclen (dn_name e)) :: u16) < 256 ^ 2"
    using reclen_u16 [OF assms] assms by simp
  ultimately show ?thesis
    using entry_bytes_length [OF assms, of p] by (simp add: get_le_def le_nat_bytes)
qed

lemma record_name:
  assumes "length (dn_name e) < 256" and "0 \<notin> set (dn_name e)"
  shows "cstr_in (pre @ entry_bytes (p, e) @ rest) (length pre + 19) = Some (dn_name e)"
proof -
  define k where "k = unat (reclen (dn_name e)) - unat sizeof_dirent64 - length (dn_name e)"
  have "0 < k" using reclen_unat [OF assms(1)] by (simp add: k_def sizeof_dirent64_def)
  then obtain j where k: "k = Suc j" by (cases k) auto
  have "drop (length pre + 19) (pre @ entry_bytes (p, e) @ rest) = dn_name e @ 0 # replicate j 0 @ rest"
    by (simp add: entry_bytes_def dirent_bytes_def k_def [symmetric] k del: diff_diff_left)
  then show ?thesis using assms(2) by (simp only: cstr_in_def) (subst takeWhile_append2, auto)
qed

definition listed :: "cstr \<Rightarrow> bool" where
  "listed name \<longleftrightarrow> name \<noteq> cstr_of ''.'' \<and> name \<noteq> cstr_of ''..'' \<and> name \<noteq> cstr_of ''lost+found''"

lemma ls_names_step:
  assumes "length (dn_name e) < 256" and "0 \<notin> set (dn_name e)"
    and "ls_names (pre @ entry_bytes (p, e) @ rest) n (length (pre @ entry_bytes (p, e))) = Some names"
    and "length (pre @ entry_bytes (p, e)) \<le> n"
  shows "ls_names (pre @ entry_bytes (p, e) @ rest) n (length pre) = Some (filter listed [dn_name e] @ names)"
proof -
  have l: "unat (ucast (reclen (dn_name e)) :: u16) = length (entry_bytes (p, e))"
    using reclen_u16 [OF assms(1)] entry_bytes_length [OF assms(1)] by simp
  have pos: "0 < length (entry_bytes (p, e))" using entry_bytes_length [OF assms(1), of p] by simp
  then have z: "(ucast (reclen (dn_name e)) :: u16) \<noteq> 0" using l by (metis less_numeral_extra(3) unat_0)
  have "\<not> n \<le> length pre" using assms(4) pos by (simp only: length_append)
  then show ?thesis
    using assms(3) l z
    by (subst ls_names.simps) (simp add: record_name [OF assms(1, 2)] record_length [OF assms(1)] listed_def)
qed

lemma ls_names_records:
  assumes "\<forall>(p, e) \<in> set xs. length (dn_name e) < 256 \<and> 0 \<notin> set (dn_name e)"
    and "buf = pre @ concat (map entry_bytes xs)"
  shows "ls_names buf (length buf) (length pre) = Some (filter listed (map (\<lambda>x. dn_name (snd x)) xs))"
  using assms
proof (induction xs arbitrary: pre)
  case Nil
  then show ?case by (subst ls_names.simps) simp
next
  case (Cons x xs)
  obtain p e where x: "x = (p, e)" by fastforce
  have n: "length (dn_name e) < 256" "0 \<notin> set (dn_name e)" using Cons.prems(1) x by simp_all
  have "ls_names buf (length buf) (length (pre @ entry_bytes (p, e))) = Some (filter listed (map (\<lambda>x. dn_name (snd x)) xs))"
    using Cons.IH [of "pre @ entry_bytes (p, e)"] Cons.prems x by simp
  then have "ls_names buf (length buf) (length pre) = Some (filter listed [dn_name e] @ filter listed (map (\<lambda>x. dn_name (snd x)) xs))"
    using ls_names_step [OF n, of pre p "concat (map entry_bytes xs)" "length buf"] Cons.prems(2) x by simp
  then show ?case using x by simp
qed

text \<open>
  (C19) Round trip of a listing: from the bytes that \<open>filldir\<close> has collected for any entries whose names
  have fewer than 256 bytes and no null byte, \<open>ls\<close> prints exactly the names of these entries in
  their order, less the two entries of the directory itself and its parent and \<open>lost+found\<close>.
\<close>

theorem ls_reads_filldir:
  assumes "\<forall>(p, e) \<in> set xs. length (dn_name e) < 256 \<and> 0 \<notin> set (dn_name e)"
  shows "ls_names (concat (map entry_bytes xs)) (length (concat (map entry_bytes xs))) 0 =
    Some (filter listed (map (\<lambda>x. dn_name (snd x)) xs))"
  using ls_names_records [OF assms, of _ "[]"] by simp

theorem ls_reads_witness:
  "let xs = [(0, \<lparr>dn_ino = 2, dn_rec = 12, dn_name = cstr_of ''.'', dn_type = 2\<rparr>),
             (12, \<lparr>dn_ino = 12, dn_rec = 1012, dn_name = cstr_of ''init'', dn_type = 1\<rparr>)] in
   ls_names (concat (map entry_bytes xs)) (length (concat (map entry_bytes xs))) 0 = Some [cstr_of ''init'']"
  using ls_reads_filldir [of "[(0, \<lparr>dn_ino = 2, dn_rec = 12, dn_name = cstr_of ''.'', dn_type = 2\<rparr>),
             (12, \<lparr>dn_ino = 12, dn_rec = 1012, dn_name = cstr_of ''init'', dn_type = 1\<rparr>)]"]
  by (simp add: listed_def cstr_of_def)

end
