(* ===== verification/Fdt.thy ===== *)
theory Fdt
  imports CString Services Endian "HOL-Library.Monad_Syntax"
begin

text \<open>
  The read-only part of the device tree library: \<open>lib/libfdt/fdt.c\<close>, \<open>fdt_ro.c\<close> and
  \<open>fdt_addresses.c\<close>. A device tree is the memory from its first byte on. No function here writes it, so
  the ten words of its header are read once, into a record. A pointer into the tree is its position in
  that memory, \<open>None\<close> the null pointer. An \<open>int\<close> is an integer; unsigned arithmetic is that of 32-bit words
  (\<open>size_t\<close> has 32 bits). Results that are behind an outer \<open>None\<close> are undefined: reads outside the memory,
  signed overflow, and loops that do not end.
\<close>

section \<open>Constants\<close>

definition FDT_ERR_NOTFOUND :: int where "FDT_ERR_NOTFOUND = 1"
definition FDT_ERR_NOSPACE :: int where "FDT_ERR_NOSPACE = 3"
definition FDT_ERR_BADOFFSET :: int where "FDT_ERR_BADOFFSET = 4"
definition FDT_ERR_BADPATH :: int where "FDT_ERR_BADPATH = 5"
definition FDT_ERR_BADPHANDLE :: int where "FDT_ERR_BADPHANDLE = 6"
definition FDT_ERR_BADSTATE :: int where "FDT_ERR_BADSTATE = 7"
definition FDT_ERR_TRUNCATED :: int where "FDT_ERR_TRUNCATED = 8"
definition FDT_ERR_BADMAGIC :: int where "FDT_ERR_BADMAGIC = 9"
definition FDT_ERR_BADVERSION :: int where "FDT_ERR_BADVERSION = 10"
definition FDT_ERR_BADSTRUCTURE :: int where "FDT_ERR_BADSTRUCTURE = 11"
definition FDT_ERR_INTERNAL :: int where "FDT_ERR_INTERNAL = 13"
definition FDT_ERR_BADNCELLS :: int where "FDT_ERR_BADNCELLS = 14"
definition FDT_ERR_BADVALUE :: int where "FDT_ERR_BADVALUE = 15"
definition FDT_ERR_NOPHANDLES :: int where "FDT_ERR_NOPHANDLES = 17"

lemmas fdt_errs = FDT_ERR_NOTFOUND_def FDT_ERR_NOSPACE_def FDT_ERR_BADOFFSET_def FDT_ERR_BADPATH_def
  FDT_ERR_BADPHANDLE_def FDT_ERR_BADSTATE_def FDT_ERR_TRUNCATED_def FDT_ERR_BADMAGIC_def
  FDT_ERR_BADVERSION_def FDT_ERR_BADSTRUCTURE_def FDT_ERR_INTERNAL_def FDT_ERR_BADNCELLS_def
  FDT_ERR_BADVALUE_def FDT_ERR_NOPHANDLES_def

definition FDT_MAGIC :: u32 where "FDT_MAGIC = 0xd00dfeed"
definition FDT_SW_MAGIC :: u32 where "FDT_SW_MAGIC = NOT FDT_MAGIC"
definition FDT_BEGIN_NODE :: u32 where "FDT_BEGIN_NODE = 1"
definition FDT_END_NODE :: u32 where "FDT_END_NODE = 2"
definition FDT_PROP :: u32 where "FDT_PROP = 3"
definition FDT_NOP :: u32 where "FDT_NOP = 4"
definition FDT_END :: u32 where "FDT_END = 9"

lemmas fdt_tags = FDT_BEGIN_NODE_def FDT_END_NODE_def FDT_PROP_def FDT_NOP_def FDT_END_def

definition FDT_FIRST_SUPPORTED_VERSION :: u32 where "FDT_FIRST_SUPPORTED_VERSION = 0x02"
definition FDT_LAST_SUPPORTED_VERSION :: u32 where "FDT_LAST_SUPPORTED_VERSION = 0x11"
definition FDT_MAX_PHANDLE :: u32 where "FDT_MAX_PHANDLE = 0xfffffffe"
definition FDT_MAX_NCELLS :: u32 where "FDT_MAX_NCELLS = 4"

section \<open>Header and loads\<close>

definition fdt32_ld :: "bytes \<Rightarrow> nat \<Rightarrow> u32 option" where
  "fdt32_ld m p =
     (if p + 4 \<le> length m
      then Some (push_bit 24 (ucast (m ! p)) OR push_bit 16 (ucast (m ! (p + 1))) OR
                 push_bit 8 (ucast (m ! (p + 2))) OR ucast (m ! (p + 3)))
      else None)"

definition fdt64_ld :: "bytes \<Rightarrow> nat \<Rightarrow> u64 option" where
  "fdt64_ld m p =
     (if p + 8 \<le> length m
      then Some (push_bit 56 (ucast (m ! p)) OR push_bit 48 (ucast (m ! (p + 1))) OR
                 push_bit 40 (ucast (m ! (p + 2))) OR push_bit 32 (ucast (m ! (p + 3))) OR
                 push_bit 24 (ucast (m ! (p + 4))) OR push_bit 16 (ucast (m ! (p + 5))) OR
                 push_bit 8 (ucast (m ! (p + 6))) OR ucast (m ! (p + 7)))
      else None)"

record fdt_header =
  fh_magic :: u32
  fh_totalsize :: u32
  fh_off_dt_struct :: u32
  fh_off_dt_strings :: u32
  fh_off_mem_rsvmap :: u32
  fh_version :: u32
  fh_last_comp_version :: u32
  fh_size_dt_strings :: u32
  fh_size_dt_struct :: u32

record fdt = fdt_header +
  fd_mem :: bytes

definition fdt_get_header :: "bytes \<Rightarrow> fdt option" where
  "fdt_get_header m = do {
     magic \<leftarrow> fdt32_ld m 0;
     totalsize \<leftarrow> fdt32_ld m 4;
     off_struct \<leftarrow> fdt32_ld m 8;
     off_strings \<leftarrow> fdt32_ld m 12;
     off_rsv \<leftarrow> fdt32_ld m 16;
     version \<leftarrow> fdt32_ld m 20;
     last_comp \<leftarrow> fdt32_ld m 24;
     size_strings \<leftarrow> fdt32_ld m 32;
     size_struct \<leftarrow> fdt32_ld m 36;
     Some \<lparr>fh_magic = magic, fh_totalsize = totalsize, fh_off_dt_struct = off_struct,
       fh_off_dt_strings = off_strings, fh_off_mem_rsvmap = off_rsv, fh_version = version,
       fh_last_comp_version = last_comp, fh_size_dt_strings = size_strings,
       fh_size_dt_struct = size_struct, fd_mem = m\<rparr> }"

definition fdt_ro_probe :: "fdt \<Rightarrow> int" where
  "fdt_ro_probe d =
     (let ok = (if fh_totalsize d < 0x7fffffff then uint (fh_totalsize d) else - FDT_ERR_TRUNCATED) in
      if fh_magic d = FDT_MAGIC
      then (if fh_version d < FDT_FIRST_SUPPORTED_VERSION then - FDT_ERR_BADVERSION
            else if FDT_LAST_SUPPORTED_VERSION < fh_last_comp_version d then - FDT_ERR_BADVERSION
            else ok)
      else if fh_magic d = FDT_SW_MAGIC
      then (if fh_size_dt_struct d = 0 then - FDT_ERR_BADSTATE else ok)
      else - FDT_ERR_BADMAGIC)"

definition check_off :: "u32 \<Rightarrow> u32 \<Rightarrow> u32 \<Rightarrow> bool" where
  "check_off hdrsize totalsize off \<longleftrightarrow> hdrsize \<le> off \<and> off \<le> totalsize"

definition check_block :: "u32 \<Rightarrow> u32 \<Rightarrow> u32 \<Rightarrow> u32 \<Rightarrow> bool" where
  "check_block hdrsize totalsize base sz \<longleftrightarrow>
     check_off hdrsize totalsize base \<and> \<not> base + sz < base \<and> check_off hdrsize totalsize (base + sz)"

definition fdt_header_size :: "u32 \<Rightarrow> u32" where
  "fdt_header_size version =
     (if version \<le> 1 then 28 else if version \<le> 2 then 32 else if version \<le> 3 then 36
      else if version \<le> 16 then 36 else 40)"

definition fdt_check_header :: "fdt \<Rightarrow> int" where
  "fdt_check_header d =
     (let hdrsize = fdt_header_size (fh_version d) in
      if fh_magic d \<noteq> FDT_MAGIC then - FDT_ERR_BADMAGIC
      else if fh_version d < FDT_FIRST_SUPPORTED_VERSION \<or> FDT_LAST_SUPPORTED_VERSION < fh_last_comp_version d
      then - FDT_ERR_BADVERSION
      else if fh_version d < fh_last_comp_version d then - FDT_ERR_BADVERSION
      else if fh_totalsize d < hdrsize \<or> 0x7fffffff < fh_totalsize d then - FDT_ERR_TRUNCATED
      else if \<not> check_off hdrsize (fh_totalsize d) (fh_off_mem_rsvmap d) then - FDT_ERR_TRUNCATED
      else if fh_version d < 17 \<and> \<not> check_off hdrsize (fh_totalsize d) (fh_off_dt_struct d) then - FDT_ERR_TRUNCATED
      else if \<not> fh_version d < 17 \<and> \<not> check_block hdrsize (fh_totalsize d) (fh_off_dt_struct d) (fh_size_dt_struct d)
      then - FDT_ERR_TRUNCATED
      else if \<not> check_block hdrsize (fh_totalsize d) (fh_off_dt_strings d) (fh_size_dt_strings d)
      then - FDT_ERR_TRUNCATED
      else 0)"

section \<open>Tags\<close>

definition fdt_offset_ptr :: "fdt \<Rightarrow> int \<Rightarrow> u32 \<Rightarrow> nat option" where
  "fdt_offset_ptr d offset len =
     (let uoffset = of_int offset :: u32;
          absoffset = uoffset + fh_off_dt_struct d
      in if offset < 0 then None
         else if absoffset < uoffset \<or> absoffset + len < absoffset \<or> fh_totalsize d < absoffset + len then None
         else if 0x11 \<le> fh_version d \<and> (uoffset + len < uoffset \<or> fh_size_dt_struct d < uoffset + len) then None
         else Some (unat (fh_off_dt_struct d) + nat offset))"

text \<open>An \<open>int\<close> plus an unsigned number, assigned to an \<open>int\<close>.\<close>

definition i32_add :: "int \<Rightarrow> u32 \<Rightarrow> int" where
  "i32_add i w = sint (of_int i + w)"

definition FDT_TAGALIGN :: "int \<Rightarrow> int" where
  "FDT_TAGALIGN x = sint ((of_int x + 4 - 1) AND NOT (4 - 1) :: u32)"

text \<open>The loop over a name: the offset behind its null byte, or \<open>Some None\<close> for the null pointer.\<close>

partial_function (option) skip_name :: "fdt \<Rightarrow> int \<Rightarrow> int option option" where
  "skip_name d offset = do {
     next \<leftarrow> ck (offset + 1);
     (case fdt_offset_ptr d offset 1 of
        None \<Rightarrow> Some None
      | Some p \<Rightarrow> do {
          c \<leftarrow> rd (fd_mem d) p;
          if c = 0 then Some (Some next) else skip_name d next }) }"

text \<open>The offset behind the tag at \<open>offset - 4\<close> and what belongs to it; \<open>Some None\<close> for a malformed one.\<close>

definition tag_extent :: "fdt \<Rightarrow> u32 \<Rightarrow> int \<Rightarrow> int option option" where
  "tag_extent d tag offset =
     (if tag = FDT_BEGIN_NODE then skip_name d offset
      else if tag = FDT_PROP then
        (case fdt_offset_ptr d offset 4 of
           None \<Rightarrow> Some None
         | Some q \<Rightarrow> do {
             len \<leftarrow> fdt32_ld (fd_mem d) q;
             let offset' = i32_add offset (12 - 4 + len);
             if fh_version d < 0x10 \<and> 8 \<le> len \<and> (of_int offset' - len) mod 8 \<noteq> 0
             then map_option Some (ck (offset' + 4))
             else Some (Some offset') })
      else if tag = FDT_END \<or> tag = FDT_END_NODE \<or> tag = FDT_NOP then Some (Some offset)
      else Some None)"

definition fdt_next_tag :: "fdt \<Rightarrow> int \<Rightarrow> (u32 \<times> int) option" where
  "fdt_next_tag d startoffset =
     (case fdt_offset_ptr d startoffset 4 of
        None \<Rightarrow> Some (FDT_END, - FDT_ERR_TRUNCATED)
      | Some p \<Rightarrow> do {
          tag \<leftarrow> fdt32_ld (fd_mem d) p;
          e \<leftarrow> tag_extent d tag (i32_add startoffset 4);
          (case e of
             None \<Rightarrow> Some (FDT_END, - FDT_ERR_BADSTRUCTURE)
           | Some offset \<Rightarrow> do {
               len \<leftarrow> ck (offset - startoffset);
               Some (case fdt_offset_ptr d startoffset (of_int len) of
                       None \<Rightarrow> (FDT_END, - FDT_ERR_BADSTRUCTURE)
                     | Some _ \<Rightarrow> (tag, FDT_TAGALIGN offset)) }) })"

definition fdt_check_node_offset :: "fdt \<Rightarrow> int \<Rightarrow> int option" where
  "fdt_check_node_offset d offset =
     (if offset < 0 \<or> (of_int offset :: u32) mod 4 \<noteq> 0 then Some (- FDT_ERR_BADOFFSET)
      else do {
        (tag, nextoffset) \<leftarrow> fdt_next_tag d offset;
        Some (if tag \<noteq> FDT_BEGIN_NODE then - FDT_ERR_BADOFFSET else nextoffset) })"

definition fdt_check_prop_offset :: "fdt \<Rightarrow> int \<Rightarrow> int option" where
  "fdt_check_prop_offset d offset =
     (if offset < 0 \<or> (of_int offset :: u32) mod 4 \<noteq> 0 then Some (- FDT_ERR_BADOFFSET)
      else do {
        (tag, nextoffset) \<leftarrow> fdt_next_tag d offset;
        Some (if tag \<noteq> FDT_PROP then - FDT_ERR_BADOFFSET else nextoffset) })"

text \<open>
  The loop of \<open>fdt_next_node\<close>. The depth, where the caller asks for it, counts nested nodes, of which
  there are far fewer than an \<open>int\<close> can count.
\<close>

partial_function (option) next_node_loop :: "fdt \<Rightarrow> int \<Rightarrow> int option \<Rightarrow> (int \<times> int option) option" where
  "next_node_loop d offset depth = do {
     (tag, nextoffset) \<leftarrow> fdt_next_tag d offset;
     if tag = FDT_BEGIN_NODE then Some (offset, map_option (\<lambda>k. k + 1) depth)
     else if tag = FDT_END_NODE then
       (case depth of
          None \<Rightarrow> next_node_loop d nextoffset None
        | Some k \<Rightarrow> if k - 1 < 0 then Some (nextoffset, Some (k - 1)) else next_node_loop d nextoffset (Some (k - 1)))
     else if tag = FDT_END then
       Some (if 0 \<le> nextoffset \<or> nextoffset = - FDT_ERR_TRUNCATED \<and> depth = None then - FDT_ERR_NOTFOUND
             else nextoffset, depth)
     else next_node_loop d nextoffset depth }"

definition fdt_next_node :: "fdt \<Rightarrow> int \<Rightarrow> int option \<Rightarrow> (int \<times> int option) option" where
  "fdt_next_node d offset depth =
     (if 0 \<le> offset
      then do {
        nextoffset \<leftarrow> fdt_check_node_offset d offset;
        if nextoffset < 0 then Some (nextoffset, depth) else next_node_loop d nextoffset depth }
      else next_node_loop d 0 depth)"

text \<open>The macro \<open>fdt_for_each_node\<close>: the nodes it visits.\<close>

partial_function (option) fdt_for_each_node :: "fdt \<Rightarrow> int \<Rightarrow> int \<Rightarrow> int list option" where
  "fdt_for_each_node d node depth = do {
     (node', depth') \<leftarrow> fdt_next_node d node (Some depth);
     (case depth' of
        None \<Rightarrow> None
      | Some k \<Rightarrow>
          if 0 \<le> node' \<and> 0 \<le> k then do { rest \<leftarrow> fdt_for_each_node d node' k; Some (node' # rest) }
          else Some []) }"

definition fdt_first_subnode :: "fdt \<Rightarrow> int \<Rightarrow> int option" where
  "fdt_first_subnode d offset = do {
     (offset', depth) \<leftarrow> fdt_next_node d offset (Some 0);
     Some (if offset' < 0 \<or> depth \<noteq> Some 1 then - FDT_ERR_NOTFOUND else offset') }"

partial_function (option) next_subnode_loop :: "fdt \<Rightarrow> int \<Rightarrow> int \<Rightarrow> int option" where
  "next_subnode_loop d offset depth = do {
     (offset', depth') \<leftarrow> fdt_next_node d offset (Some depth);
     (case depth' of
        None \<Rightarrow> None
      | Some k \<Rightarrow>
          if offset' < 0 \<or> k < 1 then Some (- FDT_ERR_NOTFOUND)
          else if 1 < k then next_subnode_loop d offset' k
          else Some offset') }"

definition fdt_next_subnode :: "fdt \<Rightarrow> int \<Rightarrow> int option" where
  "fdt_next_subnode d offset = next_subnode_loop d offset 1"

section \<open>Strings\<close>

text \<open>\<open>memcmp\<close> of the memory at \<open>p\<close> with the bytes of another object: it stops at the first difference.\<close>

fun mem_eq :: "bytes \<Rightarrow> nat \<Rightarrow> bytes \<Rightarrow> bool option" where
  "mem_eq m p [] = Some True"
| "mem_eq m p (x # xs) = do { c \<leftarrow> rd m p; if c = x then mem_eq m (Suc p) xs else Some False }"

definition fdt_get_string :: "fdt \<Rightarrow> int \<Rightarrow> (nat option \<times> int) option" where
  "fdt_get_string d stroffset =
     (let totalsize = fdt_ro_probe d;
          absoffset = of_int stroffset + fh_off_dt_strings d :: u32;
          len0 = of_int totalsize - absoffset :: u32;
          found = (\<lambda>len. do {
            n \<leftarrow> memchr (fd_mem d) (unat absoffset) 0 len;
            Some (case n of None \<Rightarrow> (None, - FDT_ERR_TRUNCATED)
                          | Some q \<Rightarrow> (Some (unat absoffset), int q - int (unat absoffset))) });
          sw_stroffset = - of_int stroffset :: u32
      in if totalsize < 0 then Some (None, totalsize)
         else if of_int totalsize \<le> absoffset then Some (None, - FDT_ERR_BADOFFSET)
         else if fh_magic d = FDT_MAGIC then
           (if stroffset < 0 then Some (None, - FDT_ERR_BADOFFSET)
            else if 17 \<le> fh_version d then
              (if fh_size_dt_strings d \<le> of_int stroffset then Some (None, - FDT_ERR_BADOFFSET)
               else found (if fh_size_dt_strings d - of_int stroffset < len0
                           then fh_size_dt_strings d - of_int stroffset else len0))
            else found len0)
         else if fh_magic d = FDT_SW_MAGIC then
           (if 0 \<le> stroffset \<or> fh_size_dt_strings d < sw_stroffset then Some (None, - FDT_ERR_BADOFFSET)
            else found (if sw_stroffset < len0 then sw_stroffset else len0))
         else Some (None, - FDT_ERR_INTERNAL))"

definition fdt_string_eq :: "fdt \<Rightarrow> int \<Rightarrow> cstr \<Rightarrow> bool option" where
  "fdt_string_eq d stroffset s = do {
     (p, slen) \<leftarrow> fdt_get_string d stroffset;
     (case p of
        None \<Rightarrow> Some False
      | Some q \<Rightarrow> if slen = int (length s) then mem_eq (fd_mem d) q s else Some False) }"

definition fdt_get_name :: "fdt \<Rightarrow> int \<Rightarrow> (nat option \<times> int) option" where
  "fdt_get_name d nodeoffset =
     (if fdt_ro_probe d < 0 then Some (None, fdt_ro_probe d)
      else do {
        err \<leftarrow> fdt_check_node_offset d nodeoffset;
        if err < 0 then Some (None, err)
        else
          let nameptr = unat (fh_off_dt_struct d) + nat nodeoffset + 4 in
          if fh_version d < 0x10 then do {
            leaf \<leftarrow> strrchr (fd_mem d) nameptr 47;
            (case leaf of
               None \<Rightarrow> Some (None, - FDT_ERR_BADSTRUCTURE)
             | Some q \<Rightarrow> do {
                 len \<leftarrow> strlen (fd_mem d) (Some (q + 1));
                 Some (Some (q + 1), int len) }) }
          else do {
            len \<leftarrow> strlen (fd_mem d) (Some nameptr);
            Some (Some nameptr, int len) } })"

definition fdt_nodename_eq :: "fdt \<Rightarrow> int \<Rightarrow> cstr \<Rightarrow> bool option" where
  "fdt_nodename_eq d offset s = do {
     (p, olen) \<leftarrow> fdt_get_name d offset;
     (case p of
        None \<Rightarrow> Some False
      | Some q \<Rightarrow>
          if olen < int (length s) then Some False
          else do {
            eq \<leftarrow> mem_eq (fd_mem d) q s;
            if \<not> eq then Some False
            else do {
              c \<leftarrow> rd (fd_mem d) (q + length s);
              Some (c = 0 \<or> 64 \<notin> set s \<and> c = 64) } }) }"

section \<open>Memory reservations\<close>

definition fdt_mem_rsv :: "fdt \<Rightarrow> int \<Rightarrow> nat option" where
  "fdt_mem_rsv d n =
     (let offset = of_int n * 16 :: u32;
          absoffset = fh_off_mem_rsvmap d + offset
      in if absoffset < fh_off_mem_rsvmap d then None
         else if fh_totalsize d - 16 < absoffset then None
         else Some (nat (uint (fh_off_mem_rsvmap d) + n * 16)))"

definition fdt_get_mem_rsv :: "fdt \<Rightarrow> int \<Rightarrow> (int + u64 \<times> u64) option" where
  "fdt_get_mem_rsv d n =
     (if fdt_ro_probe d < 0 then Some (Inl (fdt_ro_probe d))
      else (case fdt_mem_rsv d n of
              None \<Rightarrow> Some (Inl (- FDT_ERR_BADOFFSET))
            | Some p \<Rightarrow> do {
                address \<leftarrow> fdt64_ld (fd_mem d) p;
                sz \<leftarrow> fdt64_ld (fd_mem d) (p + 8);
                Some (Inr (address, sz)) }))"

partial_function (option) num_mem_rsv_loop :: "fdt \<Rightarrow> int \<Rightarrow> int option" where
  "num_mem_rsv_loop d i =
     (case fdt_mem_rsv d i of
        None \<Rightarrow> Some (- FDT_ERR_TRUNCATED)
      | Some p \<Rightarrow> do {
          sz \<leftarrow> fdt64_ld (fd_mem d) (p + 8);
          if sz = 0 then Some i
          else do { j \<leftarrow> ck (i + 1); num_mem_rsv_loop d j } })"

definition fdt_num_mem_rsv :: "fdt \<Rightarrow> int option" where
  "fdt_num_mem_rsv d = num_mem_rsv_loop d 0"

section \<open>Properties\<close>

partial_function (option) nextprop :: "fdt \<Rightarrow> int \<Rightarrow> int option" where
  "nextprop d offset = do {
     (tag, nextoffset) \<leftarrow> fdt_next_tag d offset;
     if tag = FDT_END then Some (if 0 \<le> nextoffset then - FDT_ERR_BADSTRUCTURE else nextoffset)
     else if tag = FDT_PROP then Some offset
     else if tag = FDT_NOP then nextprop d nextoffset
     else Some (- FDT_ERR_NOTFOUND) }"

definition fdt_first_property_offset :: "fdt \<Rightarrow> int \<Rightarrow> int option" where
  "fdt_first_property_offset d nodeoffset = do {
     offset \<leftarrow> fdt_check_node_offset d nodeoffset;
     if offset < 0 then Some offset else nextprop d offset }"

definition fdt_next_property_offset :: "fdt \<Rightarrow> int \<Rightarrow> int option" where
  "fdt_next_property_offset d offset = do {
     offset' \<leftarrow> fdt_check_prop_offset d offset;
     if offset' < 0 then Some offset' else nextprop d offset' }"

text \<open>The property is the position of its tag; its length is behind the tag and its name offset behind that.\<close>

definition property_by_offset :: "fdt \<Rightarrow> int \<Rightarrow> (nat option \<times> int) option" where
  "property_by_offset d offset = do {
     err \<leftarrow> fdt_check_prop_offset d offset;
     if err < 0 then Some (None, err)
     else do {
       let prop = unat (fh_off_dt_struct d) + nat offset;
       len \<leftarrow> fdt32_ld (fd_mem d) (prop + 4);
       Some (Some prop, sint len) } }"

definition fdt_get_property_by_offset :: "fdt \<Rightarrow> int \<Rightarrow> (nat option \<times> int) option" where
  "fdt_get_property_by_offset d offset =
     (if fh_version d < 0x10 then Some (None, - FDT_ERR_BADVERSION) else property_by_offset d offset)"

text \<open>The result: the property, \<open>*lenp\<close> and \<open>*poffset\<close> (meaningful with a property only).\<close>

partial_function (option) property_loop :: "fdt \<Rightarrow> int \<Rightarrow> cstr \<Rightarrow> (nat option \<times> int \<times> int) option" where
  "property_loop d offset name =
     (if offset < 0 then Some (None, offset, 0)
      else do {
        (prop, len) \<leftarrow> property_by_offset d offset;
        (case prop of
           None \<Rightarrow> Some (None, - FDT_ERR_INTERNAL, 0)
         | Some p \<Rightarrow> do {
             nameoff \<leftarrow> fdt32_ld (fd_mem d) (p + 8);
             eq \<leftarrow> fdt_string_eq d (sint nameoff) name;
             if eq then Some (Some p, len, offset)
             else do {
               offset' \<leftarrow> fdt_next_property_offset d offset;
               property_loop d offset' name } }) })"

definition property_namelen :: "fdt \<Rightarrow> int \<Rightarrow> cstr \<Rightarrow> (nat option \<times> int \<times> int) option" where
  "property_namelen d offset name = do {
     offset' \<leftarrow> fdt_first_property_offset d offset;
     property_loop d offset' name }"

definition fdt_get_property :: "fdt \<Rightarrow> int \<Rightarrow> cstr \<Rightarrow> (nat option \<times> int) option" where
  "fdt_get_property d nodeoffset name =
     (if fh_version d < 0x10 then Some (None, - FDT_ERR_BADVERSION)
      else do {
        (prop, len, poffset) \<leftarrow> property_namelen d nodeoffset name;
        Some (prop, len) })"

definition realigned :: "fdt \<Rightarrow> int \<Rightarrow> nat \<Rightarrow> nat option" where
  "realigned d poffset p = do {
     len \<leftarrow> fdt32_ld (fd_mem d) (p + 4);
     Some (if fh_version d < 0x10 \<and> (of_int poffset + 12 :: u32) mod 8 \<noteq> 0 \<and> 8 \<le> len then p + 12 + 4 else p + 12) }"

definition fdt_getprop :: "fdt \<Rightarrow> int \<Rightarrow> cstr \<Rightarrow> (nat option \<times> int) option" where
  "fdt_getprop d nodeoffset name = do {
     (prop, len, poffset) \<leftarrow> property_namelen d nodeoffset name;
     (case prop of
        None \<Rightarrow> Some (None, len)
      | Some p \<Rightarrow> do { data \<leftarrow> realigned d poffset p; Some (Some data, len) }) }"

text \<open>The value, the position of the name and the length.\<close>

definition fdt_getprop_by_offset :: "fdt \<Rightarrow> int \<Rightarrow> (nat option \<times> nat option \<times> int) option" where
  "fdt_getprop_by_offset d offset = do {
     (prop, len) \<leftarrow> property_by_offset d offset;
     (case prop of
        None \<Rightarrow> Some (None, None, len)
      | Some p \<Rightarrow> do {
          nameoff \<leftarrow> fdt32_ld (fd_mem d) (p + 8);
          (name, namelen) \<leftarrow> fdt_get_string d (sint nameoff);
          (case name of
             None \<Rightarrow> Some (None, None, namelen)
           | Some nm \<Rightarrow> do { data \<leftarrow> realigned d offset p; Some (Some data, Some nm, len) }) }) }"

definition phandle_in :: "fdt \<Rightarrow> int \<Rightarrow> cstr \<Rightarrow> u32 option option" where
  "phandle_in d nodeoffset name = do {
     (php, len) \<leftarrow> fdt_getprop d nodeoffset name;
     (case php of
        None \<Rightarrow> Some None
      | Some p \<Rightarrow> if len \<noteq> 4 then Some None else map_option Some (fdt32_ld (fd_mem d) p)) }"

definition fdt_get_phandle :: "fdt \<Rightarrow> int \<Rightarrow> u32 option" where
  "fdt_get_phandle d nodeoffset = do {
     ph \<leftarrow> phandle_in d nodeoffset (cstr_of ''phandle'');
     (case ph of
        Some v \<Rightarrow> Some v
      | None \<Rightarrow> do {
          ph' \<leftarrow> phandle_in d nodeoffset (cstr_of ''linux,phandle'');
          Some (case ph' of None \<Rightarrow> 0 | Some v \<Rightarrow> v) }) }"

section \<open>Paths\<close>

partial_function (option) subnode_loop :: "fdt \<Rightarrow> int \<Rightarrow> int \<Rightarrow> cstr \<Rightarrow> int option" where
  "subnode_loop d offset depth name =
     (if offset < 0 \<or> depth < 0 then Some (if depth < 0 then - FDT_ERR_NOTFOUND else offset)
      else do {
        hit \<leftarrow> (if depth = 1 then fdt_nodename_eq d offset name else Some False);
        if hit then Some offset
        else do {
          (offset', depth') \<leftarrow> fdt_next_node d offset (Some depth);
          (case depth' of None \<Rightarrow> None | Some k \<Rightarrow> subnode_loop d offset' k name) } })"

definition fdt_subnode_offset :: "fdt \<Rightarrow> int \<Rightarrow> cstr \<Rightarrow> int option" where
  "fdt_subnode_offset d offset name =
     (if fdt_ro_probe d < 0 then Some (fdt_ro_probe d) else subnode_loop d offset 0 name)"

text \<open>The loop over the components of a path behind its first.\<close>

lemma component_shorter:
  assumes "dropWhile (\<lambda>c. c = a) p \<noteq> []"
  shows "length (dropWhile (\<lambda>c. c \<noteq> a) (dropWhile (\<lambda>c. c = a) p)) < length p"
proof -
  obtain x xs where x: "dropWhile (\<lambda>c. c = a) p = x # xs" using assms by (cases "dropWhile (\<lambda>c. c = a) p") auto
  then have "x \<noteq> a" using hd_dropWhile [of "\<lambda>c. c = a" p] by auto
  then show ?thesis
    using x length_dropWhile_le [of "\<lambda>c. c \<noteq> a" xs] length_dropWhile_le [of "\<lambda>c. c = a" p] by simp
qed

function path_steps :: "fdt \<Rightarrow> cstr \<Rightarrow> int \<Rightarrow> int option" where
  "path_steps d p offset =
     (let p' = dropWhile (\<lambda>c. c = 47) p in
      if p' = [] then Some offset
      else do {
        offset' \<leftarrow> fdt_subnode_offset d offset (takeWhile (\<lambda>c. c \<noteq> 47) p');
        if offset' < 0 then Some offset'
        else path_steps d (dropWhile (\<lambda>c. c \<noteq> 47) p') offset' })"
  by pat_completeness auto
termination
  by (relation "measure (\<lambda>(_, p, _). length p)") (auto intro!: component_shorter simp: dropWhile_eq_Nil_conv)

declare path_steps.simps [simp del]

text \<open>A path that starts with a slash.\<close>

definition abs_path_offset :: "fdt \<Rightarrow> cstr \<Rightarrow> int option" where
  "abs_path_offset d path = (if fdt_ro_probe d < 0 then Some (fdt_ro_probe d) else path_steps d path 0)"

definition fdt_get_alias :: "fdt \<Rightarrow> cstr \<Rightarrow> nat option option" where
  "fdt_get_alias d name = do {
     aliasoffset \<leftarrow> abs_path_offset d (cstr_of ''/aliases'');
     if aliasoffset < 0 then Some None else map_option fst (fdt_getprop d aliasoffset name) }"

definition string_at :: "bytes \<Rightarrow> nat \<Rightarrow> cstr option" where
  "string_at m p = do { n \<leftarrow> strlen m (Some p); Some (take n (drop p m)) }"

partial_function (option) fdt_path_offset :: "fdt \<Rightarrow> cstr \<Rightarrow> int option" where
  "fdt_path_offset d path =
     (if path \<noteq> [] \<and> hd path = 47 then abs_path_offset d path
      else if fdt_ro_probe d < 0 then Some (fdt_ro_probe d)
      else do {
        alias \<leftarrow> fdt_get_alias d (takeWhile (\<lambda>c. c \<noteq> 47) path);
        (case alias of
           None \<Rightarrow> Some (- FDT_ERR_BADPATH)
         | Some p \<Rightarrow> do {
             target \<leftarrow> string_at (fd_mem d) p;
             offset \<leftarrow> fdt_path_offset d target;
             path_steps d (dropWhile (\<lambda>c. c \<noteq> 47) path) offset }) })"

section \<open>Ancestors\<close>

text \<open>The result and the depth of the node, where it was reached.\<close>

partial_function (option) supernode_loop :: "fdt \<Rightarrow> int \<Rightarrow> int \<Rightarrow> int \<Rightarrow> int \<Rightarrow> int \<Rightarrow> (int \<times> int option) option" where
  "supernode_loop d nodeoffset supernodedepth offset depth supernodeoffset =
     (if 0 \<le> offset \<and> offset \<le> nodeoffset
      then
        let super = (if depth = supernodedepth then offset else supernodeoffset) in
        if offset = nodeoffset
        then Some (if depth < supernodedepth then - FDT_ERR_NOTFOUND else super, Some depth)
        else do {
          (offset', depth') \<leftarrow> fdt_next_node d offset (Some depth);
          (case depth' of None \<Rightarrow> None | Some k \<Rightarrow> supernode_loop d nodeoffset supernodedepth offset' k super) }
      else Some (if offset = - FDT_ERR_NOTFOUND \<or> 0 \<le> offset then - FDT_ERR_BADOFFSET
                 else if offset = - FDT_ERR_BADOFFSET then - FDT_ERR_BADSTRUCTURE
                 else offset, None))"

definition fdt_supernode_atdepth_offset :: "fdt \<Rightarrow> int \<Rightarrow> int \<Rightarrow> (int \<times> int option) option" where
  "fdt_supernode_atdepth_offset d nodeoffset supernodedepth =
     (if fdt_ro_probe d < 0 then Some (fdt_ro_probe d, None)
      else if supernodedepth < 0 then Some (- FDT_ERR_NOTFOUND, None)
      else supernode_loop d nodeoffset supernodedepth 0 0 (- FDT_ERR_INTERNAL))"

definition fdt_node_depth :: "fdt \<Rightarrow> int \<Rightarrow> int option" where
  "fdt_node_depth d nodeoffset = do {
     (err, nodedepth) \<leftarrow> fdt_supernode_atdepth_offset d nodeoffset 0;
     if err \<noteq> 0 then Some (if err < 0 then err else - FDT_ERR_INTERNAL) else nodedepth }"

definition fdt_parent_offset :: "fdt \<Rightarrow> int \<Rightarrow> int option" where
  "fdt_parent_offset d nodeoffset = do {
     nodedepth \<leftarrow> fdt_node_depth d nodeoffset;
     if nodedepth < 0 then Some nodedepth
     else map_option fst (fdt_supernode_atdepth_offset d nodeoffset (nodedepth - 1)) }"

section \<open>Searches over all nodes\<close>

partial_function (option) max_phandle_loop :: "fdt \<Rightarrow> int \<Rightarrow> u32 \<Rightarrow> (int + u32) option" where
  "max_phandle_loop d offset mx = do {
     (offset', _) \<leftarrow> fdt_next_node d offset None;
     if offset' < 0 then Some (if offset' = - FDT_ERR_NOTFOUND then Inr mx else Inl offset')
     else do {
       val \<leftarrow> fdt_get_phandle d offset';
       max_phandle_loop d offset' (if mx < val then val else mx) } }"

definition fdt_find_max_phandle :: "fdt \<Rightarrow> (int + u32) option" where
  "fdt_find_max_phandle d = max_phandle_loop d (- 1) 0"

definition fdt_generate_phandle :: "fdt \<Rightarrow> (int + u32) option" where
  "fdt_generate_phandle d = do {
     r \<leftarrow> fdt_find_max_phandle d;
     Some (case r of
             Inl err \<Rightarrow> Inl err
           | Inr mx \<Rightarrow> if mx = FDT_MAX_PHANDLE then Inl (- FDT_ERR_NOPHANDLES) else Inr (mx + 1)) }"

text \<open>
  The three searches share their loop: the next node until \<open>hit\<close> says that this is the one (\<open>Inr True\<close>),
  or ends the search with an error.
\<close>

partial_function (option) node_search :: "fdt \<Rightarrow> (int \<Rightarrow> (int + bool) option) \<Rightarrow> int \<Rightarrow> int option" where
  "node_search d hit offset = do {
     (offset', _) \<leftarrow> fdt_next_node d offset None;
     if offset' < 0 then Some offset'
     else do {
       r \<leftarrow> hit offset';
       (case r of Inl err \<Rightarrow> Some err | Inr h \<Rightarrow> if h then Some offset' else node_search d hit offset') } }"

definition prop_value_is :: "fdt \<Rightarrow> cstr \<Rightarrow> bytes \<Rightarrow> int \<Rightarrow> (int + bool) option" where
  "prop_value_is d propname propval offset = do {
     (val, len) \<leftarrow> fdt_getprop d offset propname;
     (case val of
        None \<Rightarrow> Some (Inr False)
      | Some p \<Rightarrow> if len = int (length propval) then map_option Inr (mem_eq (fd_mem d) p propval) else Some (Inr False)) }"

definition fdt_node_offset_by_prop_value :: "fdt \<Rightarrow> int \<Rightarrow> cstr \<Rightarrow> bytes \<Rightarrow> int option" where
  "fdt_node_offset_by_prop_value d startoffset propname propval =
     (if fdt_ro_probe d < 0 then Some (fdt_ro_probe d)
      else node_search d (prop_value_is d propname propval) startoffset)"

definition fdt_node_offset_by_phandle :: "fdt \<Rightarrow> u32 \<Rightarrow> int option" where
  "fdt_node_offset_by_phandle d phandle =
     (if phandle = 0 \<or> phandle = NOT 0 then Some (- FDT_ERR_BADPHANDLE)
      else if fdt_ro_probe d < 0 then Some (fdt_ro_probe d)
      else node_search d (\<lambda>offset. map_option (\<lambda>v. Inr (v = phandle)) (fdt_get_phandle d offset)) (- 1))"

section \<open>String lists\<close>

partial_function (option) fdt_stringlist_contains :: "bytes \<Rightarrow> nat \<Rightarrow> int \<Rightarrow> cstr \<Rightarrow> bool option" where
  "fdt_stringlist_contains m strlist listlen str =
     (if int (length str) \<le> listlen
      then do {
        eq \<leftarrow> mem_eq m strlist (str @ [0]);
        if eq then Some True
        else do {
          p \<leftarrow> memchr m strlist 0 (of_int listlen);
          (case p of
             None \<Rightarrow> Some False
           | Some q \<Rightarrow> fdt_stringlist_contains m (q + 1) (listlen - (int q - int strlist + 1)) str) } }
      else Some False)"

text \<open>
  The loop of the other three over the strings from \<open>list\<close> to \<open>fin\<close>: it hands each string's position and
  its length with the null byte to \<open>hit\<close> and counts the strings; \<open>Inl\<close> are errors.
\<close>

partial_function (option) stringlist_loop ::
    "bytes \<Rightarrow> (nat \<Rightarrow> int \<Rightarrow> int \<Rightarrow> bool option) \<Rightarrow> nat \<Rightarrow> nat \<Rightarrow> int \<Rightarrow> (int + (nat \<times> int) option \<times> int) option" where
  "stringlist_loop m hit list fin idx =
     (if list < fin
      then do {
        n \<leftarrow> strnlen m list (of_nat (fin - list));
        let len = n + 1;
        if fin < list + len then Some (Inl (- FDT_ERR_BADVALUE))
        else do {
          h \<leftarrow> hit list (int len) idx;
          if h then Some (Inr (Some (list, int len), idx))
          else stringlist_loop m hit (list + len) fin (idx + 1) } }
      else Some (Inr (None, idx)))"

definition fdt_stringlist_count :: "fdt \<Rightarrow> int \<Rightarrow> cstr \<Rightarrow> int option" where
  "fdt_stringlist_count d nodeoffset property = do {
     (list, len) \<leftarrow> fdt_getprop d nodeoffset property;
     (case list of
        None \<Rightarrow> Some len
      | Some p \<Rightarrow> do {
          r \<leftarrow> stringlist_loop (fd_mem d) (\<lambda>_ _ _. Some False) p (nat (int p + len)) 0;
          Some (case r of Inl err \<Rightarrow> err | Inr (_, n) \<Rightarrow> n) }) }"

definition fdt_stringlist_search :: "fdt \<Rightarrow> int \<Rightarrow> cstr \<Rightarrow> cstr \<Rightarrow> int option" where
  "fdt_stringlist_search d nodeoffset property string = do {
     (list, len) \<leftarrow> fdt_getprop d nodeoffset property;
     (case list of
        None \<Rightarrow> Some len
      | Some p \<Rightarrow> do {
          r \<leftarrow> stringlist_loop (fd_mem d)
            (\<lambda>q n _. if n = int (length string) + 1 then mem_eq (fd_mem d) q (string @ [0]) else Some False)
            p (nat (int p + len)) 0;
          Some (case r of Inl err \<Rightarrow> err | Inr (None, _) \<Rightarrow> - FDT_ERR_NOTFOUND | Inr (Some _, n) \<Rightarrow> n) }) }"

definition fdt_stringlist_get :: "fdt \<Rightarrow> int \<Rightarrow> cstr \<Rightarrow> int \<Rightarrow> (nat option \<times> int) option" where
  "fdt_stringlist_get d nodeoffset property idx = do {
     (list, len) \<leftarrow> fdt_getprop d nodeoffset property;
     (case list of
        None \<Rightarrow> Some (None, len)
      | Some p \<Rightarrow> do {
          r \<leftarrow> stringlist_loop (fd_mem d) (\<lambda>_ _ i. Some (i = idx)) p (nat (int p + len)) 0;
          Some (case r of
                  Inl err \<Rightarrow> (None, err)
                | Inr (None, _) \<Rightarrow> (None, - FDT_ERR_NOTFOUND)
                | Inr (Some (q, n), _) \<Rightarrow> (Some q, n - 1)) }) }"

definition fdt_node_check_compatible :: "fdt \<Rightarrow> int \<Rightarrow> cstr \<Rightarrow> int option" where
  "fdt_node_check_compatible d nodeoffset compatible = do {
     (prop, len) \<leftarrow> fdt_getprop d nodeoffset (cstr_of ''compatible'');
     (case prop of
        None \<Rightarrow> Some len
      | Some p \<Rightarrow> map_option (\<lambda>b. if b then 0 else 1) (fdt_stringlist_contains (fd_mem d) p len compatible)) }"

definition fdt_node_offset_by_compatible :: "fdt \<Rightarrow> int \<Rightarrow> cstr \<Rightarrow> int option" where
  "fdt_node_offset_by_compatible d startoffset compatible =
     (if fdt_ro_probe d < 0 then Some (fdt_ro_probe d)
      else node_search d
        (\<lambda>offset. map_option (\<lambda>err. if err < 0 \<and> err \<noteq> - FDT_ERR_NOTFOUND then Inl err else Inr (err = 0))
           (fdt_node_check_compatible d offset compatible)) startoffset)"

section \<open>Numbers of cells\<close>

definition fdt_cells :: "fdt \<Rightarrow> int \<Rightarrow> cstr \<Rightarrow> int option" where
  "fdt_cells d nodeoffset name = do {
     (c, len) \<leftarrow> fdt_getprop d nodeoffset name;
     (case c of
        None \<Rightarrow> Some len
      | Some p \<Rightarrow>
          if len \<noteq> 4 then Some (- FDT_ERR_BADNCELLS)
          else do {
            val \<leftarrow> fdt32_ld (fd_mem d) p;
            Some (if FDT_MAX_NCELLS < val then - FDT_ERR_BADNCELLS else uint val) }) }"

definition fdt_address_cells :: "fdt \<Rightarrow> int \<Rightarrow> int option" where
  "fdt_address_cells d nodeoffset = do {
     val \<leftarrow> fdt_cells d nodeoffset (cstr_of ''#address-cells'');
     Some (if val = 0 then - FDT_ERR_BADNCELLS else if val = - FDT_ERR_NOTFOUND then 2 else val) }"

definition fdt_size_cells :: "fdt \<Rightarrow> int \<Rightarrow> int option" where
  "fdt_size_cells d nodeoffset = do {
     val \<leftarrow> fdt_cells d nodeoffset (cstr_of ''#size-cells'');
     Some (if val = - FDT_ERR_NOTFOUND then 1 else val) }"

end
