(* ===== verification/Fdt_Tree.thy ===== *)
theory Fdt_Tree
  imports Fdt
begin

text \<open>
  Flattened trees and what the functions of \<open>Fdt\<close> find in them. The structure block is a sequence of
  tokens; the tokens of a tree are its nodes in the order of their opening tags. Offsets into the
  structure block are sums of the lengths of tokens.
\<close>

section \<open>Tokens\<close>

definition fdt32_st :: "u32 \<Rightarrow> bytes" where
  "fdt32_st v = [ucast (drop_bit 24 v), ucast (drop_bit 16 v AND 0xff), ucast (drop_bit 8 v AND 0xff), ucast (v AND 0xff)]"

datatype ftok = TBegin cstr | TEnd | TProp u32 bytes | TNop | TFin

definition pad4 :: "bytes \<Rightarrow> bytes" where
  "pad4 xs = xs @ replicate ((4 - length xs mod 4) mod 4) 0"

fun tok_tag :: "ftok \<Rightarrow> u32" where
  "tok_tag (TBegin nm) = FDT_BEGIN_NODE"
| "tok_tag TEnd = FDT_END_NODE"
| "tok_tag (TProp nameoff val) = FDT_PROP"
| "tok_tag TNop = FDT_NOP"
| "tok_tag TFin = FDT_END"

fun tok_body :: "ftok \<Rightarrow> bytes" where
  "tok_body (TBegin nm) = nm @ [0]"
| "tok_body (TProp nameoff val) = fdt32_st (of_nat (length val)) @ fdt32_st nameoff @ val"
| "tok_body _ = []"

definition tok_bytes :: "ftok \<Rightarrow> bytes" where
  "tok_bytes t = fdt32_st (tok_tag t) @ pad4 (tok_body t)"

fun tok_ok :: "ftok \<Rightarrow> bool" where
  "tok_ok (TBegin nm) \<longleftrightarrow> 0 \<notin> set nm"
| "tok_ok _ \<longleftrightarrow> True"

definition toks_bytes :: "ftok list \<Rightarrow> bytes" where
  "toks_bytes ts = concat (map tok_bytes ts)"

definition toks_len :: "ftok list \<Rightarrow> nat" where
  "toks_len ts = length (toks_bytes ts)"

text \<open>A tree of version 17 whose structure block holds the tokens.\<close>

definition dtb_ok :: "fdt \<Rightarrow> ftok list \<Rightarrow> bool" where
  "dtb_ok d ts \<longleftrightarrow>
     fh_magic d = FDT_MAGIC \<and> fh_version d = 17 \<and> fh_last_comp_version d \<le> 17 \<and> fh_totalsize d < 0x7fffffff \<and>
     unat (fh_totalsize d) \<le> length (fd_mem d) \<and>
     unat (fh_off_dt_struct d) + unat (fh_size_dt_struct d) \<le> unat (fh_totalsize d) \<and>
     unat (fh_off_dt_strings d) + unat (fh_size_dt_strings d) \<le> unat (fh_totalsize d) \<and>
     take (unat (fh_size_dt_struct d)) (drop (unat (fh_off_dt_struct d)) (fd_mem d)) = toks_bytes ts \<and>
     list_all tok_ok ts"

lemma length_fdt32_st [simp]: "length (fdt32_st v) = 4"
  by (simp add: fdt32_st_def)

lemma ucast_low_byte: "(ucast (x AND 0xff :: u32) :: u8) = ucast x"
proof -
  have m: "(0xff :: u32) = mask 8" by (simp add: mask_eq_exp_minus_1)
  show ?thesis unfolding m by (rule bit_word_eqI) (auto simp: bit_simps)
qed

lemma byte_bit:
  "bit (push_bit k (ucast (ucast (drop_bit k (v :: u32)) :: u8) :: u32)) n \<longleftrightarrow> k \<le> n \<and> n < k + 8 \<and> n < 32 \<and> bit v n"
  by (auto simp: bit_simps)

lemma byte_bit0: "bit (ucast (ucast (v :: u32) :: u8) :: u32) n \<longleftrightarrow> n < 8 \<and> bit v n"
  by (auto simp: bit_simps)

lemma fdt32_word: "push_bit 24 (ucast (ucast (drop_bit 24 v) :: u8)) OR push_bit 16 (ucast (ucast (drop_bit 16 v) :: u8)) OR
    push_bit 8 (ucast (ucast (drop_bit 8 v) :: u8)) OR ucast (ucast v :: u8) = (v :: u32)"
  by (rule bit_word_eqI) (simp only: bit_or_iff byte_bit byte_bit0, auto)

lemma fdt32_ld_st:
  assumes "take 4 (drop p m) = fdt32_st v"
  shows "fdt32_ld m p = Some v"
proof -
  have l: "p + 4 \<le> length m" using arg_cong [OF assms, of length] by simp
  have "m ! (p + i) = fdt32_st v ! i" if "i < 4" for i
    using arg_cong [OF assms, of "\<lambda>xs. xs ! i"] that l by simp
  from this [of 0] this [of 1] this [of 2] this [of 3] show ?thesis
    using l by (simp add: fdt32_ld_def fdt32_st_def ucast_low_byte fdt32_word)
qed

lemma pad4_round: "n + (4 - n mod 4) mod 4 = (n + 3) div 4 * (4 :: nat)"
proof -
  define q r where "q = n div 4" and "r = n mod 4"
  have n: "n = 4 * q + r" and "r < 4" by (simp_all add: q_def r_def)
  then consider "r = 0" | "r = 1" | "r = 2" | "r = 3" by linarith
  then have "r + (4 - r) mod 4 = (r + 3) div 4 * 4" by cases simp_all
  moreover have "(n + 3) div 4 = q + (r + 3) div 4" unfolding n by (simp add: add.assoc)
  ultimately show ?thesis using n unfolding r_def [symmetric] by (simp only: distrib_right)
qed

lemma tok_bytes_length: "length (tok_bytes t) = 4 + (length (tok_body t) + 3) div 4 * 4"
  by (simp add: tok_bytes_def pad4_def pad4_round)

lemma tok_bytes_pos: "0 < length (tok_bytes t)"
  by (simp add: tok_bytes_length)

lemma toks_len_simps [simp]:
  "toks_len [] = 0" "toks_len (t # ts) = length (tok_bytes t) + toks_len ts" "toks_len (xs @ ys) = toks_len xs + toks_len ys"
  by (simp_all add: toks_len_def toks_bytes_def)

lemma toks_len_mod: "toks_len ts mod 4 = 0"
  by (induction ts) (auto simp: tok_bytes_length mod_add_eq [symmetric])

section \<open>Access to the structure block\<close>

lemma dtb_sizes:
  assumes "dtb_ok d ts"
  shows "toks_len ts = unat (fh_size_dt_struct d)" "unat (fh_off_dt_struct d) + toks_len ts < 2 ^ 31 - 1"
    "unat (fh_off_dt_struct d) + toks_len ts \<le> length (fd_mem d)" "toks_len ts < 2 ^ 31 - 1"
    "unat (fh_off_dt_struct d) + toks_len ts \<le> unat (fh_totalsize d)"
proof -
  have t: "unat (fh_totalsize d) < 2 ^ 31 - 1" using assms by (simp add: dtb_ok_def word_less_nat_alt)
  have l: "toks_len ts = length (take (unat (fh_size_dt_struct d)) (drop (unat (fh_off_dt_struct d)) (fd_mem d)))"
    using assms by (simp add: dtb_ok_def toks_len_def)
  moreover have "unat (fh_off_dt_struct d) + unat (fh_size_dt_struct d) \<le> length (fd_mem d)"
    using assms by (auto simp: dtb_ok_def)
  ultimately show "toks_len ts = unat (fh_size_dt_struct d)" by simp
  then show "unat (fh_off_dt_struct d) + toks_len ts < 2 ^ 31 - 1"
    "unat (fh_off_dt_struct d) + toks_len ts \<le> length (fd_mem d)" "toks_len ts < 2 ^ 31 - 1"
    "unat (fh_off_dt_struct d) + toks_len ts \<le> unat (fh_totalsize d)"
    using assms t by (simp_all add: dtb_ok_def)
qed

lemma offset_ptr_inside:
  assumes "dtb_ok d ts" and "off + unat len \<le> toks_len ts"
  shows "fdt_offset_ptr d (int off) len = Some (unat (fh_off_dt_struct d) + off)"
proof -
  note z = dtb_sizes [OF assms(1)]
  define S where "S = unat (fh_off_dt_struct d)"
  have u: "unat (of_nat off :: u32) = off" using z(4) assms(2) by (simp add: unat_of_nat)
  have a: "unat (of_nat off + fh_off_dt_struct d) = off + S"
    using z(2) assms(2) u by (simp add: unat_word_ariths S_def)
  have b: "unat (of_nat off + fh_off_dt_struct d + len) = off + S + unat len"
    using z(2) assms(2) a by (simp add: unat_word_ariths(1) [of _ len] S_def)
  have c: "unat (of_nat off + len) = off + unat len"
    using z(4) assms(2) u by (simp add: unat_word_ariths)
  show ?thesis
    using z(1,5) assms(2) u a b c by (simp add: fdt_offset_ptr_def Let_def word_less_nat_alt S_def not_less)
qed

lemma struct_take:
  assumes "dtb_ok d (pre @ t # post)" and "i + n \<le> length (tok_bytes t)"
  shows "take n (drop (unat (fh_off_dt_struct d) + toks_len pre + i) (fd_mem d)) = take n (drop i (tok_bytes t))"
proof -
  define W where "W = unat (fh_size_dt_struct d)"
  define S where "S = unat (fh_off_dt_struct d)"
  have e: "take W (drop S (fd_mem d)) = toks_bytes pre @ tok_bytes t @ toks_bytes post"
    using assms(1) by (simp add: dtb_ok_def toks_bytes_def W_def S_def)
  have l: "toks_len pre + length (tok_bytes t) \<le> W" using dtb_sizes(1) [OF assms(1)] by (simp add: W_def)
  have "take n (drop (toks_len pre + i) (take W (drop S (fd_mem d)))) = take n (drop i (tok_bytes t))"
    using assms(2) unfolding e by (simp add: toks_len_def)
  moreover have "take n (drop (toks_len pre + i) (take W (drop S (fd_mem d)))) = take n (drop (S + toks_len pre + i) (fd_mem d))"
    using assms(2) l by (simp add: drop_take take_take add.commute add.left_commute min_def)
  ultimately show ?thesis by (simp add: S_def)
qed

lemma struct_rd:
  assumes "dtb_ok d (pre @ t # post)" and "i < length (tok_bytes t)"
  shows "rd (fd_mem d) (unat (fh_off_dt_struct d) + toks_len pre + i) = Some (tok_bytes t ! i)"
proof -
  have l: "unat (fh_off_dt_struct d) + toks_len pre + i < length (fd_mem d)"
    using dtb_sizes(3) [OF assms(1)] assms(2) by simp
  have "take 1 (drop (unat (fh_off_dt_struct d) + toks_len pre + i) (fd_mem d)) = take 1 (drop i (tok_bytes t))"
    using struct_take [OF assms(1), of i 1] assms(2) by simp
  from arg_cong [OF this, of "\<lambda>xs. xs ! 0"] show ?thesis using l assms(2) by (simp add: mem_simps)
qed

section \<open>The tag at an offset\<close>

lemma i32_add_small: "off + unat w < 2 ^ 31 \<Longrightarrow> i32_add (int off) w = int (off + unat w)"
proof -
  assume a: "off + unat w < 2 ^ 31"
  have "unat (of_nat off + w) = off + unat w"
    using a by (simp add: unat_word_ariths unat_of_nat)
  then show ?thesis using a sint_small [of "of_nat off + w"] by (simp add: i32_add_def)
qed

lemma tagalign_small:
  assumes "x + 3 < 2 ^ 31"
  shows "FDT_TAGALIGN (int x) = int ((x + 3) div 4 * 4)"
proof -
  have m: "(4 - 1 :: u32) = mask 2" by (simp add: mask_eq_exp_minus_1)
  have "unat (of_nat x + 4 - 1 :: u32) = x + 3" using assms by (simp add: unat_word_ariths unat_of_nat)
  then have u: "unat ((of_nat x + 4 - 1 :: u32) AND NOT (mask 2)) = (x + 3) div 4 * 4"
    using and_not_mask_unat [of "of_nat x + 4 - 1 :: u32" 2] by simp
  have "(x + 3) div 4 * 4 < 2 ^ 31" using assms by linarith
  then show ?thesis unfolding FDT_TAGALIGN_def m using u sint_small [of "(of_nat x + 4 - 1) AND NOT (mask 2)"] by simp
qed

lemma name_byte:
  assumes "i \<le> length nm"
  shows "tok_bytes (TBegin nm) ! (4 + i) = (nm @ [0]) ! i" "4 + i < length (tok_bytes (TBegin nm))"
proof -
  show "4 + i < length (tok_bytes (TBegin nm))" using assms by (simp add: tok_bytes_def pad4_def)
  show "tok_bytes (TBegin nm) ! (4 + i) = (nm @ [0]) ! i"
    using assms by (simp add: tok_bytes_def pad4_def nth_append)
qed

lemma skip_name_tok:
  assumes ok: "dtb_ok d (pre @ TBegin nm # post)" and "0 \<notin> set nm" and "i \<le> length nm"
  shows "skip_name d (int (toks_len pre + 4 + i)) = Some (Some (int (toks_len pre + 4 + length nm + 1)))"
  using assms(3)
proof (induction "length nm - i" arbitrary: i)
  case 0
  note n = name_byte [OF 0(2)]
  have p: "fdt_offset_ptr d (int (toks_len pre + 4 + i)) 1 = Some (unat (fh_off_dt_struct d) + (toks_len pre + 4 + i))"
    using n(2) by (intro offset_ptr_inside [OF ok]) simp
  have r: "rd (fd_mem d) (unat (fh_off_dt_struct d) + (toks_len pre + 4 + i)) = Some 0"
    using struct_rd [OF ok n(2)] n(1) 0 by (simp add: add.assoc nth_append)
  have "ck (int (toks_len pre + 4 + i) + 1) = Some (int (toks_len pre + 4 + i) + 1)"
    using dtb_sizes(4) [OF ok] n(2) by (simp add: ck_def)
  then show ?case using p r 0 by (subst skip_name.simps) simp
next
  case (Suc k)
  then have i: "i < length nm" by simp
  note n = name_byte [of i nm]
  have p: "fdt_offset_ptr d (int (toks_len pre + 4 + i)) 1 = Some (unat (fh_off_dt_struct d) + (toks_len pre + 4 + i))"
    using n(2) i by (intro offset_ptr_inside [OF ok]) simp
  have r: "rd (fd_mem d) (unat (fh_off_dt_struct d) + (toks_len pre + 4 + i)) = Some (nm ! i)"
    using struct_rd [OF ok n(2)] n(1) i by (simp add: add.assoc nth_append)
  have nz: "nm ! i \<noteq> 0" using nth_mem [OF i] assms(2) by auto
  have c: "ck (int (toks_len pre + 4 + i) + 1) = Some (int (toks_len pre + 4 + Suc i))"
    using dtb_sizes(4) [OF ok] n(2) i by (simp add: ck_def)
  have "skip_name d (int (toks_len pre + 4 + Suc i)) = Some (Some (int (toks_len pre + 4 + length nm + 1)))"
    using Suc by (intro Suc.hyps(1)) auto
  then show ?case using p r nz c by (subst skip_name.simps) simp
qed

lemma tok_tag_bytes: "take 4 (tok_bytes t) = fdt32_st (tok_tag t)"
  by (simp add: tok_bytes_def)

lemma struct_tag:
  assumes "dtb_ok d (pre @ t # post)"
  shows "fdt32_ld (fd_mem d) (unat (fh_off_dt_struct d) + toks_len pre) = Some (tok_tag t)"
  using struct_take [OF assms, of 0 4] by (intro fdt32_ld_st) (simp add: tok_bytes_length tok_tag_bytes)

lemma prop_body:
  "take 4 (drop 4 (tok_bytes (TProp nameoff val))) = fdt32_st (of_nat (length val))"
  "take 4 (drop 8 (tok_bytes (TProp nameoff val))) = fdt32_st nameoff"
  "take (length val) (drop 12 (tok_bytes (TProp nameoff val))) = val"
  "12 + length val \<le> length (tok_bytes (TProp nameoff val))"
  by (simp_all add: tok_bytes_def pad4_def)

lemma struct_prop_len:
  assumes "dtb_ok d (pre @ TProp nameoff val # post)"
  shows "fdt32_ld (fd_mem d) (unat (fh_off_dt_struct d) + (toks_len pre + 4)) = Some (of_nat (length val))"
    "fdt32_ld (fd_mem d) (unat (fh_off_dt_struct d) + (toks_len pre + 8)) = Some nameoff"
  using struct_take [OF assms, of 4 4] struct_take [OF assms, of 8 4] prop_body [where nameoff = nameoff and val = val]
  by (auto intro!: fdt32_ld_st simp: add.assoc)

lemma tag_extent_tok:
  assumes ok: "dtb_ok d (pre @ t # post)"
  shows "tag_extent d (tok_tag t) (int (toks_len pre + 4)) = Some (Some (int (toks_len pre + 4 + length (tok_body t))))"
proof (cases t)
  case (TBegin nm)
  moreover have "0 \<notin> set nm" using ok TBegin by (auto simp: dtb_ok_def)
  ultimately show ?thesis using skip_name_tok [of d pre nm post 0] ok by (simp add: tag_extent_def add.assoc)
next
  case (TProp nameoff val)
  note l = prop_body(4) [where nameoff = nameoff and val = val] dtb_sizes(4) [OF ok]
  have p: "fdt_offset_ptr d (int (toks_len pre + 4)) 4 = Some (unat (fh_off_dt_struct d) + (toks_len pre + 4))"
    using l TProp by (intro offset_ptr_inside [OF ok]) simp
  have u: "unat (8 + of_nat (length val) :: u32) = 8 + length val"
    using l TProp by (simp add: unat_word_ariths unat_of_nat)
  have a: "i32_add (int (toks_len pre + 4)) (8 + of_nat (length val)) = int (toks_len pre + 4 + (8 + length val))"
    using i32_add_small [of "toks_len pre + 4" "8 + of_nat (length val)"] l TProp u by simp
  have "fh_version d = 17" using ok by (simp add: dtb_ok_def)
  then show ?thesis
    using TProp p a struct_prop_len(1) [of d pre nameoff val post] ok
    by (simp add: tag_extent_def fdt_tags add.assoc)
qed (simp_all add: tag_extent_def fdt_tags)

lemma tok_bytes_aligned: "(toks_len pre + 4 + length (tok_body t) + 3) div 4 * 4 = toks_len pre + length (tok_bytes t)"
proof -
  define q where "q = toks_len pre div 4"
  have "toks_len pre = 4 * q" using toks_len_mod [of pre] by (auto simp: q_def)
  moreover have "(4 * q + 4 + length (tok_body t) + 3) div 4 = q + 1 + (length (tok_body t) + 3) div 4" by simp
  ultimately show ?thesis by (simp add: tok_bytes_length)
qed

lemma next_tag_tok:
  assumes ok: "dtb_ok d (pre @ t # post)"
  shows "fdt_next_tag d (int (toks_len pre)) = Some (tok_tag t, int (toks_len pre + length (tok_bytes t)))"
proof -
  note z = dtb_sizes(4) [OF ok]
  have l: "4 + length (tok_body t) \<le> length (tok_bytes t)" by (simp add: tok_bytes_def pad4_def)
  have p: "fdt_offset_ptr d (int (toks_len pre)) w = Some (unat (fh_off_dt_struct d) + toks_len pre)"
    if "unat w \<le> length (tok_bytes t)" for w
    using that by (intro offset_ptr_inside [OF ok]) simp
  have a: "i32_add (int (toks_len pre)) 4 = int (toks_len pre + 4)"
    using i32_add_small [of "toks_len pre" 4] z l by simp
  have c: "ck (int (toks_len pre + 4 + length (tok_body t)) - int (toks_len pre)) = Some (int (4 + length (tok_body t)))"
    using z l by (simp add: ck_def)
  have u: "unat (of_int (int (4 + length (tok_body t))) :: u32) = 4 + length (tok_body t)"
    using z l by (simp only: of_int_of_nat_eq unat_of_nat) simp
  obtain q where q: "toks_len pre + length (tok_bytes t) = 4 * q"
    using toks_len_mod [of "pre @ [t]"] by (auto simp: mod_eq_0_iff_dvd)
  then have "4 * q < 2 ^ 31 - 1" using z by simp
  then have "q \<le> 536870911" by simp
  then have "toks_len pre + 4 + length (tok_body t) + 3 < 2 ^ 31" using l q by simp
  from tagalign_small [OF this]
  have g: "FDT_TAGALIGN (int (toks_len pre + 4 + length (tok_body t))) = int (toks_len pre + length (tok_bytes t))"
    by (simp only: tok_bytes_aligned)
  show ?thesis
    using p [of 4] p [of "of_int (int (4 + length (tok_body t)))"] l u
    by (simp add: fdt_next_tag_def struct_tag [OF ok] a tag_extent_tok [OF ok] c g del: of_nat_add of_int_add of_int_of_nat_eq)
qed

section \<open>Trees\<close>

text \<open>A node with its name, its properties (the offset of the name and the value) and its children.\<close>

datatype dnode = DNode (dn_nm: cstr) (dn_props: "(u32 \<times> bytes) list") (dn_kids: "dnode list")

definition props_toks :: "(u32 \<times> bytes) list \<Rightarrow> ftok list" where
  "props_toks ps = map (\<lambda>(nameoff, val). TProp nameoff val) ps"

fun dnode_toks :: "dnode \<Rightarrow> ftok list" where
  "dnode_toks (DNode nm ps ks) = TBegin nm # props_toks ps @ concat (map dnode_toks ks) @ [TEnd]"

text \<open>The nodes of a tree in order: offset, depth, offset of the parent, node.\<close>

type_synonym placed = "nat \<times> nat \<times> nat option \<times> dnode"

fun placed_list :: "(nat \<Rightarrow> dnode \<Rightarrow> placed list) \<Rightarrow> nat \<Rightarrow> dnode list \<Rightarrow> placed list" where
  "placed_list f off [] = []"
| "placed_list f off (x # xs) = f off x @ placed_list f (off + toks_len (dnode_toks x)) xs"

lemma placed_list_cong [fundef_cong]:
  assumes "xs = xs'" and "off = off'" and "\<And>q x. x \<in> set xs' \<Longrightarrow> f q x = g q x"
  shows "placed_list f off xs = placed_list g off' xs'"
proof -
  have "placed_list f off xs = placed_list g off xs" if "\<And>q x. x \<in> set xs \<Longrightarrow> f q x = g q x" for off
    using that by (induction xs arbitrary: off) auto
  then show ?thesis using assms by simp
qed

fun placed :: "nat \<Rightarrow> nat option \<Rightarrow> nat \<Rightarrow> dnode \<Rightarrow> placed list" where
  "placed k par off (DNode nm ps ks) =
     (off, k, par, DNode nm ps ks) #
     placed_list (placed (Suc k) (Some off)) (off + toks_len (TBegin nm # props_toks ps)) ks"

definition dtb_tree :: "fdt \<Rightarrow> dnode \<Rightarrow> bool" where
  "dtb_tree d root \<longleftrightarrow> dtb_ok d (dnode_toks root @ [TFin])"

definition all_nodes :: "dnode \<Rightarrow> placed list" where
  "all_nodes root = placed 0 None 0 root"

section \<open>The next node\<close>

text \<open>The counter that the caller passes, at depth \<open>k\<close>; \<open>None\<close> is the null pointer.\<close>

definition depth_arg :: "nat option \<Rightarrow> nat \<Rightarrow> int option" where
  "depth_arg cnt k = map_option (\<lambda>c. int k + int c) cnt"

definition after_end :: "fdt \<Rightarrow> nat \<Rightarrow> int option \<Rightarrow> (int \<times> int option) option" where
  "after_end d pos dep =
     (case dep of
        None \<Rightarrow> next_node_loop d (int pos) None
      | Some k \<Rightarrow> if k - 1 < 0 then Some (int pos, Some (k - 1)) else next_node_loop d (int pos) (Some (k - 1)))"

fun succ_is :: "fdt \<Rightarrow> nat option \<Rightarrow> placed list \<Rightarrow> (int \<times> int option) option \<Rightarrow> (int \<times> int option) option" where
  "succ_is d cnt [] R = R"
| "succ_is d cnt ((off, k, _) # _) R = Some (int off, depth_arg cnt k)"

fun chain :: "fdt \<Rightarrow> nat option \<Rightarrow> placed list \<Rightarrow> (int \<times> int option) option \<Rightarrow> bool" where
  "chain d cnt [] R \<longleftrightarrow> True"
| "chain d cnt ((off, k, pn) # xs) R \<longleftrightarrow>
     fdt_next_node d (int off) (depth_arg cnt k) = succ_is d cnt xs R \<and> chain d cnt xs R"

lemma chain_append: "chain d cnt (xs @ ys) R \<longleftrightarrow> chain d cnt xs (succ_is d cnt ys R) \<and> chain d cnt ys R"
proof (induction xs)
  case (Cons x xs)
  obtain off k pn where x: "x = (off, k, pn)" by (cases x) auto
  have "succ_is d cnt (xs @ ys) R = succ_is d cnt xs (succ_is d cnt ys R)"
    by (cases xs) (auto split: prod.splits)
  then show ?case using Cons x by simp
qed simp

lemma loop_begin:
  "dtb_ok d (pre @ TBegin nm # post) \<Longrightarrow>
   next_node_loop d (int (toks_len pre)) dep = Some (int (toks_len pre), map_option (\<lambda>k. k + 1) dep)"
  by (subst next_node_loop.simps) (simp add: next_tag_tok)

lemma loop_end:
  "dtb_ok d (pre @ TEnd # post) \<Longrightarrow>
   next_node_loop d (int (toks_len pre)) dep = after_end d (toks_len (pre @ [TEnd])) dep"
  by (subst next_node_loop.simps) (simp add: next_tag_tok fdt_tags after_end_def split: option.split)

lemma loop_fin:
  "dtb_ok d (pre @ TFin # post) \<Longrightarrow>
   next_node_loop d (int (toks_len pre)) dep = Some (- FDT_ERR_NOTFOUND, dep)"
  by (subst next_node_loop.simps) (simp add: next_tag_tok fdt_tags)

lemma loop_props:
  assumes "dtb_ok d (pre @ props_toks ps @ post)"
  shows "next_node_loop d (int (toks_len pre)) dep = next_node_loop d (int (toks_len (pre @ props_toks ps))) dep"
  using assms
proof (induction ps arbitrary: pre)
  case (Cons p ps)
  obtain no v where p: "p = (no, v)" by fastforce
  have "next_node_loop d (int (toks_len pre)) dep = next_node_loop d (int (toks_len (pre @ [TProp no v]))) dep"
    using Cons.prems p
    by (subst next_node_loop.simps) (simp add: props_toks_def next_tag_tok fdt_tags)
  then show ?case using Cons.IH [of "pre @ [TProp no v]"] Cons.prems p by (simp add: props_toks_def)
qed (simp add: props_toks_def)

lemma toks_off_aligned: "(of_int (int (toks_len pre)) :: u32) mod 4 = 0"
proof -
  have "unat (of_nat (toks_len pre) :: u32) mod 4 = toks_len pre mod 4"
    by (simp only: unat_of_nat) (simp add: mod_mod_cancel)
  then have "unat ((of_nat (toks_len pre) :: u32) mod 4) = 0"
    by (simp add: unat_mod toks_len_mod)
  then show ?thesis by (simp add: unat_eq_0)
qed

lemma check_node_tok:
  "dtb_ok d (pre @ TBegin nm # post) \<Longrightarrow>
   fdt_check_node_offset d (int (toks_len pre)) = Some (int (toks_len (pre @ [TBegin nm])))"
  using toks_off_aligned [of pre] by (simp add: fdt_check_node_offset_def next_tag_tok)

lemma next_node_props:
  assumes "dtb_ok d (pre @ TBegin nm # props_toks ps @ post)"
  shows "fdt_next_node d (int (toks_len pre)) dep =
    next_node_loop d (int (toks_len (pre @ TBegin nm # props_toks ps))) dep"
  using check_node_tok [OF assms] loop_props [of d "pre @ [TBegin nm]" ps post dep] assms
  by (simp add: fdt_next_node_def)

lemma after_end_depth: "after_end d pos (depth_arg cnt (Suc k)) = next_node_loop d (int pos) (depth_arg cnt k)"
  by (simp add: after_end_def depth_arg_def split: option.split)

lemma map_depth_arg: "map_option (\<lambda>k. k + 1) (depth_arg cnt k) = depth_arg cnt (Suc k)"
  by (simp add: depth_arg_def option.map_comp comp_def add.commute add.left_commute)

lemma chain_list:
  assumes "\<forall>x \<in> set xs. \<forall>pre post k par. dtb_ok d (pre @ dnode_toks x @ post) \<longrightarrow>
      chain d cnt (placed k par (toks_len pre) x) (after_end d (toks_len (pre @ dnode_toks x)) (depth_arg cnt k))"
    and "dtb_ok d (pre @ concat (map dnode_toks xs) @ TEnd # post)"
  shows "next_node_loop d (int (toks_len pre)) (depth_arg cnt k) =
      succ_is d cnt (placed_list (placed (Suc k) par) (toks_len pre) xs)
        (after_end d (toks_len (pre @ concat (map dnode_toks xs) @ [TEnd])) (depth_arg cnt k)) \<and>
    chain d cnt (placed_list (placed (Suc k) par) (toks_len pre) xs)
      (after_end d (toks_len (pre @ concat (map dnode_toks xs) @ [TEnd])) (depth_arg cnt k))"
  using assms
proof (induction xs arbitrary: pre)
  case Nil
  then show ?case using loop_end [of d pre post] by simp
next
  case (Cons x xs)
  let ?R = "after_end d (toks_len (pre @ concat (map dnode_toks (x # xs)) @ [TEnd])) (depth_arg cnt k)"
  obtain nm ps ks where x: "x = DNode nm ps ks" by (cases x)
  have ok: "dtb_ok d (pre @ dnode_toks x @ (concat (map dnode_toks xs) @ TEnd # post))" using Cons.prems(2) by simp
  have first: "next_node_loop d (int (toks_len pre)) (depth_arg cnt k) = Some (int (toks_len pre), depth_arg cnt (Suc k))"
    using loop_begin [of d pre nm] ok x by (simp add: map_depth_arg)
  have rest: "next_node_loop d (int (toks_len (pre @ dnode_toks x))) (depth_arg cnt k) =
      succ_is d cnt (placed_list (placed (Suc k) par) (toks_len (pre @ dnode_toks x)) xs) ?R \<and>
    chain d cnt (placed_list (placed (Suc k) par) (toks_len (pre @ dnode_toks x)) xs) ?R"
    using Cons.IH [of "pre @ dnode_toks x"] Cons.prems by simp
  have "chain d cnt (placed (Suc k) par (toks_len pre) x)
      (after_end d (toks_len (pre @ dnode_toks x)) (depth_arg cnt (Suc k)))"
    using Cons.prems(1) ok by (meson list.set_intros(1))
  then have "chain d cnt (placed (Suc k) par (toks_len pre) x)
      (succ_is d cnt (placed_list (placed (Suc k) par) (toks_len (pre @ dnode_toks x)) xs) ?R)"
    using rest by (simp only: after_end_depth)
  then have "chain d cnt (placed_list (placed (Suc k) par) (toks_len pre) (x # xs)) ?R"
    using rest by (simp only: placed_list.simps chain_append toks_len_simps)
  moreover have "succ_is d cnt (placed_list (placed (Suc k) par) (toks_len pre) (x # xs)) ?R = Some (int (toks_len pre), depth_arg cnt (Suc k))"
    using x by simp
  ultimately show ?case using first by simp
qed

lemma chain_node:
  "dtb_ok d (pre @ dnode_toks x @ post) \<Longrightarrow>
   chain d cnt (placed k par (toks_len pre) x) (after_end d (toks_len (pre @ dnode_toks x)) (depth_arg cnt k))"
proof (induction x arbitrary: pre post k par)
  case (DNode nm ps ks)
  let ?pre = "pre @ TBegin nm # props_toks ps"
  have ok: "dtb_ok d (?pre @ concat (map dnode_toks ks) @ TEnd # post)" using DNode.prems by simp
  have "fdt_next_node d (int (toks_len pre)) (depth_arg cnt k) = next_node_loop d (int (toks_len ?pre)) (depth_arg cnt k)"
    by (rule next_node_props) (use DNode.prems in simp)
  moreover have ih: "\<forall>x \<in> set ks. \<forall>pre post k par. dtb_ok d (pre @ dnode_toks x @ post) \<longrightarrow>
      chain d cnt (placed k par (toks_len pre) x) (after_end d (toks_len (pre @ dnode_toks x)) (depth_arg cnt k))"
    using DNode.IH by blast
  ultimately show ?case
    using chain_list [OF ih ok, of k "Some (toks_len pre)"] by (simp add: add.assoc)
qed

section \<open>All nodes\<close>

lemma all_nodes_chain:
  assumes "dtb_tree d root"
  shows "chain d cnt (all_nodes root) (after_end d (toks_len (dnode_toks root)) (depth_arg cnt 0))"
  using chain_node [of d "[]" root "[TFin]" cnt 0 None] assms by (simp add: dtb_tree_def all_nodes_def)

lemma placed_Cons: "\<exists>xs. placed k par off x = (off, k, par, x) # xs"
  by (cases x) simp

lemma for_each_chain:
  "chain d (Some c) ((off, k, pn) # xs) (Some (node', Some k')) \<Longrightarrow> node' < 0 \<or> k' < 0 \<Longrightarrow>
   fdt_for_each_node d (int off) (int k + int c) = Some (map (int \<circ> fst) xs)"
proof (induction xs arbitrary: off k pn)
  case Nil
  then show ?case by (subst fdt_for_each_node.simps) (auto simp: depth_arg_def)
next
  case (Cons x xs)
  obtain off2 k2 pn2 where x: "x = (off2, k2, pn2)" by (cases x) auto
  have "fdt_for_each_node d (int off2) (int k2 + int c) = Some (map (int \<circ> fst) xs)"
    using Cons.IH [of off2 k2 pn2] Cons.prems x by simp
  then show ?case
    using Cons.prems x by (subst fdt_for_each_node.simps) (simp add: depth_arg_def)
qed

text \<open>
  (C22) The walk over all nodes (\<open>fdt_for_each_node\<close>) of a flattened tree ends and visits every node exactly once,
  parents before their children and children in order, for every tree and every size of names and values.
\<close>

theorem fdt_for_each_node_preorder:
  assumes "dtb_tree d root"
  shows "fdt_for_each_node d (- 1) 0 = Some (map (int \<circ> fst) (all_nodes root))"
proof -
  obtain nm ps ks where r: "root = DNode nm ps ks" by (cases root)
  have ok: "dtb_ok d ([] @ TBegin nm # props_toks ps @ concat (map dnode_toks ks) @ [TEnd, TFin])"
    using assms r by (simp add: dtb_tree_def)
  obtain xs where xs: "all_nodes root = (0, 0, None, root) # xs" using placed_Cons by (metis all_nodes_def)
  have fin: "after_end d (toks_len (dnode_toks root)) (depth_arg (Some 1) 0) = Some (- FDT_ERR_NOTFOUND, Some 0)"
    using loop_fin [of d "dnode_toks root" "[]"] assms by (simp add: after_end_def depth_arg_def dtb_tree_def)
  have "fdt_for_each_node d (int 0) (int 0 + int 1) = Some (map (int \<circ> fst) xs)"
    by (rule for_each_chain [where node' = "- FDT_ERR_NOTFOUND" and k' = 0 and pn = "(None, root)"])
      (use all_nodes_chain [OF assms, of "Some 1"] fin xs in \<open>auto simp: fdt_errs\<close>)
  moreover have "fdt_next_node d (- 1) (Some 0) = Some (0, Some 1)"
    using loop_begin [OF ok, of "Some 0"] by (simp add: fdt_next_node_def)
  ultimately show ?thesis using xs by (subst fdt_for_each_node.simps) simp
qed

section \<open>Parents\<close>

lemma placed_list_bound:
  assumes "\<forall>x \<in> set xs. \<forall>off. q \<in> set (f off x) \<longrightarrow> off \<le> fst q \<and> fst q < off + toks_len (dnode_toks x)"
    and "q \<in> set (placed_list f off xs)"
  shows "off \<le> fst q \<and> fst q < off + toks_len (concat (map dnode_toks xs))"
  using assms
proof (induction xs arbitrary: off)
  case (Cons x xs)
  show ?case
  proof (cases "q \<in> set (f off x)")
    case True
    then show ?thesis using Cons.prems(1) by (simp del: dnode_toks.simps) (metis trans_less_add1 add.assoc)
  next
    case False
    then show ?thesis using Cons.IH [of "off + toks_len (dnode_toks x)"] Cons.prems by auto
  qed
qed simp

lemma placed_bound: "q \<in> set (placed k par off x) \<Longrightarrow> off \<le> fst q \<and> fst q < off + toks_len (dnode_toks x)"
proof (induction x arbitrary: k par off)
  case (DNode nm ps ks)
  let ?off = "off + toks_len (TBegin nm # props_toks ps)"
  show ?case
  proof (cases "q = (off, k, par, DNode nm ps ks)")
    case True
    then show ?thesis using tok_bytes_pos [of TEnd] by simp
  next
    case False
    then have "q \<in> set (placed_list (placed (Suc k) (Some off)) ?off ks)" using DNode.prems by simp
    then have "?off \<le> fst q \<and> fst q < ?off + toks_len (concat (map dnode_toks ks))"
      using DNode.IH by (intro placed_list_bound) auto
    then show ?thesis by simp
  qed
qed

text \<open>What the loop over the nodes up to the wanted one keeps: the last offset at the wanted depth.\<close>

fun track :: "nat \<Rightarrow> nat \<Rightarrow> int \<Rightarrow> placed list \<Rightarrow> (int \<times> int option) option" where
  "track K tgt s [] = None"
| "track K tgt s ((off, k, pn) # xs) =
     (let s' = if k = K then int off else s in
      if off = tgt then Some (if k < K then - FDT_ERR_NOTFOUND else s', Some (int k)) else track K tgt s' xs)"

lemma supernode_track:
  assumes "chain d (Some 0) ((off, k, pn) # xs) R" and "off \<le> tgt" and "sorted_wrt (<) (off # map fst xs)"
    and "tgt \<in> set (off # map fst xs)"
  shows "supernode_loop d (int tgt) (int K) (int off) (int k) s = track K tgt s ((off, k, pn) # xs)"
  using assms
proof (induction xs arbitrary: off k pn s)
  case Nil
  then show ?case by (subst supernode_loop.simps) (simp add: Let_def)
next
  case (Cons x xs)
  obtain off2 k2 pn2 where x: "x = (off2, k2, pn2)" by (cases x) auto
  show ?case
  proof (cases "off = tgt")
    case True
    then show ?thesis by (subst supernode_loop.simps) (simp add: Let_def)
  next
    case False
    have "off2 \<le> tgt" using Cons.prems(3, 4) False x by (auto simp: less_imp_le)
    then have "supernode_loop d (int tgt) (int K) (int off2) (int k2) s' = track K tgt s' ((off2, k2, pn2) # xs)" for s'
      using Cons.IH [of off2 k2 pn2 s'] Cons.prems x False by simp
    then show ?thesis
      using Cons.prems False x by (subst supernode_loop.simps) (simp add: Let_def depth_arg_def)
  qed
qed

lemma track_skip:
  assumes "tgt \<notin> fst ` set xs" and "\<forall>q \<in> set xs. fst (snd q) \<noteq> K"
  shows "track K tgt s (xs @ ys) = track K tgt s ys"
  using assms by (induction xs) (auto simp: Let_def)

lemma track_pass:
  assumes "tgt \<notin> fst ` set xs"
  shows "\<exists>s'. track K tgt s (xs @ ys) = track K tgt s' ys"
  using assms by (induction xs arbitrary: s) (auto simp: Let_def)

lemma placed_depth: "q \<in> set (placed k par off x) \<Longrightarrow> k \<le> fst (snd q)"
proof (induction x arbitrary: k par off)
  case (DNode nm ps ks)
  have "k \<le> fst (snd q)" if "q \<in> set (placed_list (placed (Suc k) (Some off)) o2 xs)" "set xs \<subseteq> set ks" for o2 xs
    using that
  proof (induction xs arbitrary: o2)
    case (Cons y ys)
    then show ?case using DNode.IH [of y "Suc k" "Some off" o2] by (auto dest: Suc_leD)
  qed simp
  then show ?case using DNode.prems by auto
qed

lemma kids_bound:
  "q \<in> set (placed_list (placed k par) off xs) \<Longrightarrow> off \<le> fst q \<and> fst q < off + toks_len (concat (map dnode_toks xs))"
  using placed_list_bound placed_bound by blast

lemma kids_depth: "q \<in> set (placed_list (placed k par) off xs) \<Longrightarrow> k \<le> fst (snd q)"
  by (induction xs arbitrary: off) (auto dest: placed_depth)

lemma placed_root:
  assumes "q \<in> set (placed k par off x)" and "fst q = off"
  shows "q = (off, k, par, x)"
proof (cases x)
  case (DNode nm ps ks)
  let ?off = "off + toks_len (TBegin nm # props_toks ps)"
  have "?off \<le> fst q" if "q \<in> set (placed_list (placed (Suc k) (Some off)) ?off ks)"
    using kids_bound [OF that] by simp
  then show ?thesis using assms DNode tok_bytes_pos [of "TBegin nm"] by auto
qed

lemma placed_list_sorted:
  assumes "\<forall>x \<in> set xs. \<forall>off. sorted_wrt (<) (map fst (placed k par off x))"
  shows "sorted_wrt (<) (map fst (placed_list (placed k par) off xs))"
  using assms
proof (induction xs arbitrary: off)
  case (Cons x xs)
  have "fst p < fst q" if "p \<in> set (placed k par off x)" "q \<in> set (placed_list (placed k par) (off + toks_len (dnode_toks x)) xs)" for p q
    using placed_bound [OF that(1)] kids_bound [OF that(2)] by simp
  then show ?case using Cons by (simp add: sorted_wrt_append)
qed simp

lemma placed_sorted: "sorted_wrt (<) (map fst (placed k par off x))"
proof (induction x arbitrary: k par off)
  case (DNode nm ps ks)
  let ?off = "off + toks_len (TBegin nm # props_toks ps)"
  have "off < fst q" if "q \<in> set (placed_list (placed (Suc k) (Some off)) ?off ks)" for q
    using kids_bound [OF that] by (simp add: tok_bytes_length)
  moreover have "sorted_wrt (<) (map fst (placed_list (placed (Suc k) (Some off)) ?off ks))"
    using DNode.IH by (intro placed_list_sorted) blast
  ultimately show ?case by auto
qed

lemma parent_track_list:
  assumes "\<forall>x \<in> set xs. \<forall>k par off s rest. (tgt, kt, Some p, n) \<in> set (placed k par off x) \<longrightarrow>
      (tgt = off \<longrightarrow> s = int p) \<longrightarrow> track (kt - 1) tgt s (placed k par off x @ rest) = Some (int p, Some (int kt))"
    and "(tgt, kt, Some p, n) \<in> set (placed_list (placed (Suc k) (Some off)) o2 xs)" and "kt = Suc k \<longrightarrow> s = int off"
  shows "track (kt - 1) tgt s (placed_list (placed (Suc k) (Some off)) o2 xs @ rest) = Some (int p, Some (int kt))"
  using assms
proof (induction xs arbitrary: o2 s)
  case (Cons x xs)
  let ?f = "placed (Suc k) (Some off)"
  show ?case
  proof (cases "(tgt, kt, Some p, n) \<in> set (?f o2 x)")
    case True
    have "s = int p" if "tgt = o2" using placed_root [OF True] that Cons.prems(3) by simp
    then show ?thesis using Cons.prems(1) True by (simp del: placed.simps)
  next
    case False
    then have q: "(tgt, kt, Some p, n) \<in> set (placed_list ?f (o2 + toks_len (dnode_toks x)) xs)" using Cons.prems(2) by simp
    then have "o2 + toks_len (dnode_toks x) \<le> tgt" using kids_bound [OF q] by simp
    then have t: "tgt \<notin> fst ` set (?f o2 x)" using placed_bound [of _ "Suc k" "Some off" o2 x] by fastforce
    have IH: "track (kt - 1) tgt s' (placed_list ?f (o2 + toks_len (dnode_toks x)) xs @ rest) = Some (int p, Some (int kt))"
      if "kt = Suc k \<longrightarrow> s' = int off" for s'
      using Cons.IH [OF _ q that] Cons.prems(1) by simp
    show ?thesis
    proof (cases "kt = Suc k")
      case True
      then have "\<forall>q \<in> set (?f o2 x). fst (snd q) \<noteq> kt - 1" using placed_depth [of _ "Suc k" "Some off" o2 x] by fastforce
      then show ?thesis using track_skip [OF t] IH [of s] Cons.prems(3) by (simp del: placed.simps)
    next
      case False
      then show ?thesis using track_pass [OF t] IH by (metis append.assoc placed_list.simps(2))
    qed
  qed
qed simp

lemma parent_track:
  assumes "(tgt, kt, Some p, n) \<in> set (placed k par off x)" and "0 < kt" and "tgt = off \<longrightarrow> s = int p"
  shows "track (kt - 1) tgt s (placed k par off x @ rest) = Some (int p, Some (int kt))"
  using assms(1, 3)
proof (induction x arbitrary: k par off s rest)
  case (DNode nm ps ks)
  let ?off = "off + toks_len (TBegin nm # props_toks ps)"
  show ?case
  proof (cases "tgt = off")
    case True
    then show ?thesis using placed_root [OF DNode.prems(1)] DNode.prems(2) assms(2) by (cases k) (simp_all add: Let_def)
  next
    case False
    then have q: "(tgt, kt, Some p, n) \<in> set (placed_list (placed (Suc k) (Some off)) ?off ks)" using DNode.prems(1) by simp
    show ?thesis using False DNode.IH parent_track_list [OF _ q, of _ rest] by (simp add: Let_def)
  qed
qed

lemma track_reach:
  assumes "(tgt, kt, pn) \<in> set xs" and "sorted_wrt (<) (map fst xs)" and "\<forall>q \<in> set xs. K < fst (snd q)"
  shows "track K tgt s xs = Some (s, Some (int kt))"
  using assms by (induction xs) (auto simp: Let_def)

lemma root_track:
  assumes "(tgt, kt, pn) \<in> set (all_nodes root)"
  shows "track 0 tgt s (all_nodes root) = Some (0, Some (int kt))"
proof -
  obtain nm ps ks where r: "root = DNode nm ps ks" by (cases root)
  define xs where "xs = placed_list (placed 1 (Some 0)) (toks_len (TBegin nm # props_toks ps)) ks"
  have a: "all_nodes root = (0, 0, None, root) # xs" by (simp add: all_nodes_def r xs_def)
  have srt: "sorted_wrt (<) (map fst (all_nodes root))" by (simp add: all_nodes_def placed_sorted)
  show ?thesis
  proof (cases "tgt = 0")
    case True
    then have "kt = 0" using placed_root [of "(tgt, kt, pn)" 0 None 0 root] assms by (simp add: all_nodes_def)
    then show ?thesis using True a by simp
  next
    case False
    moreover have "\<forall>q \<in> set xs. 0 < fst (snd q)" using kids_depth unfolding xs_def by fastforce
    ultimately show ?thesis using track_reach [of tgt kt pn xs 0 0] assms srt by (simp add: a)
  qed
qed

lemma placed_par: "q \<in> set (placed k (Some p) off x) \<Longrightarrow> fst (snd (snd q)) \<noteq> None"
proof (induction x arbitrary: k p off)
  case (DNode nm ps ks)
  have "fst (snd (snd q)) \<noteq> None" if "q \<in> set (placed_list (placed (Suc k) (Some off)) o2 xs)" "set xs \<subseteq> set ks" for o2 xs
    using that by (induction xs arbitrary: o2) (auto dest: DNode.IH)
  then show ?case using DNode.prems by auto
qed

lemma kids_par: "q \<in> set (placed_list (placed k (Some p)) off xs) \<Longrightarrow> fst (snd (snd q)) \<noteq> None"
  by (induction xs arbitrary: off) (auto dest: placed_par)

lemma all_nodes_kid:
  assumes "(off, k, par, n) \<in> set (all_nodes root)"
  shows "if par = None then off = 0 \<and> k = 0 \<and> n = root else 0 < k \<and> 0 < off"
proof -
  obtain nm ps ks where r: "root = DNode nm ps ks" by (cases root)
  define xs where "xs = placed_list (placed 1 (Some 0)) (toks_len (TBegin nm # props_toks ps)) ks"
  have a: "all_nodes root = (0, 0, None, root) # xs" by (simp add: all_nodes_def r xs_def)
  have "0 < off \<and> 0 < k \<and> par \<noteq> None" if q: "(off, k, par, n) \<in> set xs"
  proof -
    have "par \<noteq> None" using kids_par q unfolding xs_def by fastforce
    then show ?thesis using kids_bound [OF q [unfolded xs_def]] kids_depth [OF q [unfolded xs_def]] by (simp add: tok_bytes_length)
  qed
  then show ?thesis using assms a by auto
qed

lemma probe_ok: "dtb_ok d ts \<Longrightarrow> 0 \<le> fdt_ro_probe d"
  by (auto simp: dtb_ok_def fdt_ro_probe_def FDT_FIRST_SUPPORTED_VERSION_def FDT_LAST_SUPPORTED_VERSION_def)

lemma probe_tree: "dtb_tree d root \<Longrightarrow> \<not> fdt_ro_probe d < 0"
  using probe_ok by (fastforce simp: dtb_tree_def)

lemma supernode_tree:
  assumes "dtb_tree d root" and "(tgt, kt, pn) \<in> set (all_nodes root)"
  shows "fdt_supernode_atdepth_offset d (int tgt) (int K) = track K tgt (- FDT_ERR_INTERNAL) (all_nodes root)"
proof -
  obtain xs where xs: "all_nodes root = (0, 0, None, root) # xs" using placed_Cons by (metis all_nodes_def)
  have srt: "sorted_wrt (<) (map fst (all_nodes root))" by (simp add: all_nodes_def placed_sorted)
  have "supernode_loop d (int tgt) (int K) (int 0) (int 0) (- FDT_ERR_INTERNAL) = track K tgt (- FDT_ERR_INTERNAL) ((0, 0, None, root) # xs)"
    using all_nodes_chain [OF assms(1), of "Some 0"] srt assms(2) unfolding xs
    by (intro supernode_track) force+
  then show ?thesis using probe_tree [OF assms(1)] by (simp only: xs) (simp add: fdt_supernode_atdepth_offset_def)
qed

lemma parent_tree:
  assumes "dtb_tree d root" and "(off, k, par, n) \<in> set (all_nodes root)"
  shows "fdt_parent_offset d (int off) = Some (case par of None \<Rightarrow> - FDT_ERR_NOTFOUND | Some p \<Rightarrow> int p)"
proof -
  note st = supernode_tree [OF assms]
  have dep: "fdt_node_depth d (int off) = Some (int k)"
    using st [of 0] root_track [OF assms(2)] by (simp add: fdt_node_depth_def)
  show ?thesis
  proof (cases par)
    case None
    then have "k = 0" using all_nodes_kid [OF assms(2)] by simp
    then show ?thesis using dep None probe_tree [OF assms(1)]
      by (simp add: fdt_parent_offset_def fdt_supernode_atdepth_offset_def)
  next
    case (Some p)
    then have k: "0 < k" "off \<noteq> 0" using all_nodes_kid [OF assms(2)] by simp_all
    then have "track (k - 1) off (- FDT_ERR_INTERNAL) (all_nodes root) = Some (int p, Some (int k))"
      using parent_track [of off k p n 0 None 0 root "- FDT_ERR_INTERNAL" "[]"] assms(2) Some by (simp add: all_nodes_def)
    then show ?thesis using dep Some st [of "k - 1"] k by (simp add: fdt_parent_offset_def of_nat_diff)
  qed
qed

text \<open>
  \<open>fdt_parent_offset\<close> of any node of a flattened tree is the offset of its parent, and \<open>FDT_ERR_NOTFOUND\<close> for
  the root. The function knows no parent links: it walks from the root and keeps the last node at
  each depth.
\<close>

theorem fdt_parent_offset_correct:
  assumes "dtb_tree d root" and "(off, k, par, n) \<in> set (all_nodes root)"
  shows "fdt_parent_offset d (int off) = Some (case par of None \<Rightarrow> - FDT_ERR_NOTFOUND | Some p \<Rightarrow> int p)"
  by (rule parent_tree [OF assms])

section \<open>Properties of a node\<close>

text \<open>The string table has \<open>s\<close> at \<open>nameoff\<close>.\<close>

definition name_at :: "fdt \<Rightarrow> u32 \<Rightarrow> cstr \<Rightarrow> bool" where
  "name_at d nameoff s \<longleftrightarrow>
     unat nameoff + length s < unat (fh_size_dt_strings d) \<and> 0 \<notin> set s \<and>
     take (length s + 1) (drop (unat (fh_off_dt_strings d) + unat nameoff) (fd_mem d)) = s @ [0]"

lemma memchr_loop_first:
  assumes "take (length s + 1) (drop p m) = s @ [0]" and "0 \<notin> set s" and "length s < n"
  shows "memchr_loop m p 0 n = Some (Some (p + length s))"
  using assms
proof (induction s arbitrary: p n)
  case Nil
  then have "p < length m" by (metis append_Nil drop_all linorder_not_less not_Cons_self2 take_Nil)
  then have "rd m p = Some 0" using Nil by (simp add: take_Suc hd_drop_conv_nth)
  then show ?case using Nil by (subst memchr_loop.simps) simp
next
  case (Cons c cs)
  then have "p < length m" by (metis append_is_Nil_conv drop_all linorder_not_less list.discI take_Nil)
  then have "drop p m = m ! p # drop (Suc p) m" by (simp add: Cons_nth_drop_Suc)
  then have "m ! p = c" "take (length cs + 1) (drop (Suc p) m) = cs @ [0]" using Cons.prems(1) by auto
  then have "memchr_loop m (Suc p) 0 (n - 1) = Some (Some (Suc p + length cs))" "rd m p = Some c" "c \<noteq> 0"
    using Cons \<open>p < length m\<close> by auto
  then show ?case using Cons.prems(3) by (subst memchr_loop.simps) simp
qed

lemma mem_eq_take:
  assumes "p + length xs \<le> length m"
  shows "mem_eq m p xs = Some (take (length xs) (drop p m) = xs)"
  using assms
proof (induction xs arbitrary: p)
  case (Cons x xs)
  then have "drop p m = m ! p # drop (Suc p) m" by (simp add: Cons_nth_drop_Suc)
  then show ?case using Cons by simp
qed simp

lemma strings_sizes:
  assumes "dtb_ok d ts"
  shows "unat (fh_off_dt_strings d) + unat (fh_size_dt_strings d) \<le> unat (fh_totalsize d)" "unat (fh_totalsize d) < 2 ^ 31 - 1"
    "unat (fh_totalsize d) \<le> length (fd_mem d)"
  using assms by (simp_all add: dtb_ok_def word_less_nat_alt)

lemma get_string_name:
  assumes ok: "dtb_ok d ts" and nm: "name_at d nameoff s"
  shows "fdt_get_string d (sint nameoff) = Some (Some (unat (fh_off_dt_strings d) + unat nameoff), int (length s))"
proof -
  note z = strings_sizes [OF ok]
  define Q T Z N where Q: "Q = unat (fh_off_dt_strings d)" and T: "T = unat (fh_totalsize d)"
    and Z: "Z = unat (fh_size_dt_strings d)" and N: "N = unat nameoff"
  have l: "N + length s < Z" "Q + Z \<le> T" "T < 2 ^ 31 - 1" using nm z by (simp_all add: name_at_def Q T Z N)
  have probe: "fdt_ro_probe d = int T"
    using ok by (auto simp: dtb_ok_def fdt_ro_probe_def T FDT_FIRST_SUPPORTED_VERSION_def FDT_LAST_SUPPORTED_VERSION_def)
  have si: "sint nameoff = int N" using l by (simp add: N sint_small)
  have on: "(of_int (int N) :: u32) = nameoff" by (simp add: N)
  have ot: "(of_int (int T) :: u32) = fh_totalsize d" by (simp add: T)
  have abs: "unat (nameoff + fh_off_dt_strings d) = N + Q"
    using l by (simp add: unat_word_ariths Q N)
  have len0: "unat (fh_totalsize d - (nameoff + fh_off_dt_strings d)) = T - (N + Q)"
    using l abs by (subst unat_sub) (simp_all add: word_le_nat_alt T Q [symmetric] N [symmetric] Z [symmetric])
  have len1: "unat (fh_size_dt_strings d - nameoff) = Z - N"
    using l by (subst unat_sub) (simp_all add: word_le_nat_alt Z N)
  have found: "memchr (fd_mem d) (N + Q) 0 len = Some (Some (N + Q + length s))" if "length s < unat len" for len
    using memchr_loop_first [of s "N + Q" "fd_mem d" "unat len"] nm that
    by (simp add: memchr_def name_at_def N Q add.commute)
  have "length s < unat (if fh_size_dt_strings d - nameoff < fh_totalsize d - (nameoff + fh_off_dt_strings d)
      then fh_size_dt_strings d - nameoff else fh_totalsize d - (nameoff + fh_off_dt_strings d))"
    using l len0 len1 less_diff_conv [of "length s" Z N] less_diff_conv [of "length s" T "N + Q"]
    by (simp add: word_less_nat_alt)
  note f = found [OF this]
  have "\<not> fh_totalsize d \<le> nameoff + fh_off_dt_strings d" "\<not> fh_size_dt_strings d \<le> nameoff"
    using l abs by (simp_all add: word_le_nat_alt T Q [symmetric] N [symmetric] Z [symmetric])
  then show ?thesis
    using ok f
    unfolding fdt_get_string_def Let_def probe si on ot abs Q [symmetric] N [symmetric]
    by (simp add: dtb_ok_def add.commute)
qed

lemma string_eq_name:
  assumes ok: "dtb_ok d ts" and nm: "name_at d nameoff s"
  shows "fdt_string_eq d (sint nameoff) name = Some (s = name)"
proof -
  define q where "q = unat (fh_off_dt_strings d) + unat nameoff"
  have l: "q + length s \<le> length (fd_mem d)" using strings_sizes [OF ok] nm by (simp add: name_at_def q_def)
  have "take (length s) (take (length s + 1) (drop q (fd_mem d))) = s"
    using nm by (simp only: name_at_def q_def [symmetric]) simp
  then have t: "take (length s) (drop q (fd_mem d)) = s" by (simp add: take_take)
  have g: "fdt_get_string d (sint nameoff) = Some (Some q, int (length s))"
    using get_string_name [OF assms] by (simp add: q_def)
  show ?thesis
  proof (cases "length s = length name")
    case True
    then have "mem_eq (fd_mem d) q name = Some (s = name)" using mem_eq_take [of q name "fd_mem d"] l t by simp
    then show ?thesis using True by (simp add: fdt_string_eq_def g)
  next
    case False
    then show ?thesis by (auto simp: fdt_string_eq_def g)
  qed
qed

section \<open>Looking up a property\<close>

lemma nextprop_prop:
  "dtb_ok d (pre @ TProp no v # post) \<Longrightarrow> nextprop d (int (toks_len pre)) = Some (int (toks_len pre))"
  by (subst nextprop.simps) (simp add: next_tag_tok fdt_tags)

lemma nextprop_none:
  "dtb_ok d (pre @ t # post) \<Longrightarrow> t = TEnd \<or> (\<exists>nm. t = TBegin nm) \<Longrightarrow> nextprop d (int (toks_len pre)) = Some (- FDT_ERR_NOTFOUND)"
  by (subst nextprop.simps) (auto simp: next_tag_tok fdt_tags)

lemma check_prop_tok:
  "dtb_ok d (pre @ TProp no v # post) \<Longrightarrow>
   fdt_check_prop_offset d (int (toks_len pre)) = Some (int (toks_len (pre @ [TProp no v])))"
  using toks_off_aligned [of pre] by (simp add: fdt_check_prop_offset_def next_tag_tok fdt_tags)

lemma property_at:
  assumes "dtb_ok d (pre @ TProp no v # post)"
  shows "property_by_offset d (int (toks_len pre)) = Some (Some (unat (fh_off_dt_struct d) + toks_len pre), int (length v))"
proof -
  have "unat (of_nat (length v) :: u32) = length v"
    using dtb_sizes(4) [OF assms] prop_body(4) [where val = v and nameoff = no] by (simp add: unat_of_nat)
  then have "sint (of_nat (length v) :: u32) = int (length v)"
    using sint_small [of "of_nat (length v)"] dtb_sizes(4) [OF assms] prop_body(4) [where val = v and nameoff = no] by simp
  then show ?thesis
    using check_prop_tok [OF assms] struct_prop_len(1) [OF assms]
    by (simp add: property_by_offset_def add.assoc)
qed

text \<open>The first property with the name, as the loop finds it from the offset \<open>pos\<close> on.\<close>

fun find_prop :: "(u32 \<Rightarrow> cstr) \<Rightarrow> cstr \<Rightarrow> nat \<Rightarrow> (u32 \<times> bytes) list \<Rightarrow> (nat \<times> bytes) option" where
  "find_prop nms name pos [] = None"
| "find_prop nms name pos ((no, v) # ps) =
     (if nms no = name then Some (pos, v) else find_prop nms name (pos + length (tok_bytes (TProp no v))) ps)"

definition prop_result :: "fdt \<Rightarrow> (nat \<times> bytes) option \<Rightarrow> (nat option \<times> int \<times> int) option" where
  "prop_result d r =
     (case r of None \<Rightarrow> Some (None, - FDT_ERR_NOTFOUND, 0)
              | Some (pos, v) \<Rightarrow> Some (Some (unat (fh_off_dt_struct d) + pos), int (length v), int pos))"

lemma property_loop_props:
  assumes "dtb_ok d (pre @ props_toks ps @ t # post)" and "t = TEnd \<or> (\<exists>nm. t = TBegin nm)"
    and "\<forall>(no, v) \<in> set ps. name_at d no (nms no)"
  shows "Option.bind (nextprop d (int (toks_len pre))) (\<lambda>offset. property_loop d offset name) =
    prop_result d (find_prop nms name (toks_len pre) ps)"
  using assms
proof (induction ps arbitrary: pre)
  case Nil
  then have "nextprop d (int (toks_len pre)) = Some (- FDT_ERR_NOTFOUND)"
    by (intro nextprop_none) (auto simp: props_toks_def)
  moreover have "property_loop d (- FDT_ERR_NOTFOUND) name = Some (None, - FDT_ERR_NOTFOUND, 0)"
    by (subst property_loop.simps) (simp add: fdt_errs)
  ultimately show ?case by (simp add: prop_result_def)
next
  case (Cons p ps)
  obtain no v where p: "p = (no, v)" by fastforce
  have ok: "dtb_ok d (pre @ TProp no v # (props_toks ps @ t # post))" using Cons.prems(1) p by (simp add: props_toks_def)
  have nm: "name_at d no (nms no)" using Cons.prems(3) p by simp
  have eq: "fdt_string_eq d (sint no) name = Some (nms no = name)" by (rule string_eq_name [OF ok nm])
  have off: "fdt32_ld (fd_mem d) (unat (fh_off_dt_struct d) + toks_len pre + 8) = Some no"
    using struct_prop_len(2) [OF ok] by (simp add: add.assoc)
  have nx: "fdt_next_property_offset d (int (toks_len pre)) = nextprop d (int (toks_len (pre @ [TProp no v])))"
    using check_prop_tok [OF ok] by (simp add: fdt_next_property_offset_def)
  have IH: "Option.bind (nextprop d (int (toks_len (pre @ [TProp no v])))) (\<lambda>offset. property_loop d offset name) =
      prop_result d (find_prop nms name (toks_len (pre @ [TProp no v])) ps)"
    using Cons.IH [of "pre @ [TProp no v]"] Cons.prems(2, 3) ok by simp
  have "property_loop d (int (toks_len pre)) name = prop_result d (find_prop nms name (toks_len pre) (p # ps))"
    using IH by (subst property_loop.simps)
      (simp add: p property_at [OF ok] off eq nx prop_result_def)
  then show ?case using nextprop_prop [OF ok] by simp
qed

lemma placed_list_split:
  assumes "\<forall>x \<in> set xs. \<forall>pre post. q \<in> set (f (toks_len pre) x) \<longrightarrow>
      (\<exists>pre' post'. pre @ dnode_toks x @ post = pre' @ dnode_toks n @ post' \<and> toks_len pre' = off)"
    and "q \<in> set (placed_list f (toks_len pre) xs)"
  shows "\<exists>pre' post'. pre @ concat (map dnode_toks xs) @ post = pre' @ dnode_toks n @ post' \<and> toks_len pre' = off"
  using assms
proof (induction xs arbitrary: pre)
  case (Cons x xs)
  show ?case
  proof (cases "q \<in> set (f (toks_len pre) x)")
    case True
    then show ?thesis using Cons.prems(1) by simp
  next
    case False
    then have "q \<in> set (placed_list f (toks_len (pre @ dnode_toks x)) xs)" using Cons.prems(2) by simp
    from Cons.IH [OF _ this] show ?thesis using Cons.prems(1) by simp
  qed
qed simp

lemma placed_split:
  assumes "(off, k, par, n) \<in> set (placed k0 par0 (toks_len pre) x)"
  shows "\<exists>pre' post'. pre @ dnode_toks x @ post = pre' @ dnode_toks n @ post' \<and> toks_len pre' = off"
  using assms
proof (induction x arbitrary: k0 par0 pre post)
  case (DNode nm ps ks)
  show ?case
  proof (cases "(off, k, par, n) = (toks_len pre, k0, par0, DNode nm ps ks)")
    case True
    then show ?thesis by blast
  next
    case False
    let ?pre = "pre @ TBegin nm # props_toks ps"
    have "(off, k, par, n) \<in> set (placed_list (placed (Suc k0) (Some (toks_len pre))) (toks_len ?pre) ks)"
      using DNode.prems False by (auto simp: add.assoc)
    from placed_list_split [OF _ this, of n off "TEnd # post"] show ?thesis using DNode.IH by simp
  qed
qed

lemma find_prop_split:
  "find_prop nms name pos ps = Some (pos', v) \<Longrightarrow>
   \<exists>ps1 no ps2. ps = ps1 @ (no, v) # ps2 \<and> pos' = pos + toks_len (props_toks ps1)"
proof (induction ps arbitrary: pos)
  case (Cons p ps)
  obtain no w where p: "p = (no, w)" by fastforce
  show ?case
  proof (cases "nms no = name")
    case True
    then show ?thesis using Cons.prems p by (intro exI [of _ "[]"]) (simp add: props_toks_def)
  next
    case False
    then obtain ps1 no' ps2 where "ps = ps1 @ (no', v) # ps2" "pos' = pos + length (tok_bytes (TProp no w)) + toks_len (props_toks ps1)"
      using Cons.IH [of "pos + length (tok_bytes (TProp no w))"] Cons.prems p by auto
    then show ?thesis using p by (intro exI [of _ "p # ps1"]) (auto simp: props_toks_def)
  qed
qed simp

definition node_prop :: "(u32 \<Rightarrow> cstr) \<Rightarrow> dnode \<Rightarrow> cstr \<Rightarrow> bytes option" where
  "node_prop nms n name = map_option snd (find (\<lambda>(no, v). nms no = name) (dn_props n))"

lemma node_prop_find: "node_prop nms (DNode nm ps ks) name = map_option snd (find_prop nms name pos ps)"
  by (induction ps arbitrary: pos) (auto simp: node_prop_def)

lemma first_after_props:
  "\<exists>t ts. concat (map dnode_toks ks) @ TEnd # post = t # ts \<and> (t = TEnd \<or> (\<exists>nm. t = TBegin nm))"
proof (cases ks)
  case (Cons x xs)
  then show ?thesis by (cases x) auto
qed simp

text \<open>The value that a pointer and a length stand for.\<close>

definition value_is :: "fdt \<Rightarrow> nat option \<Rightarrow> int \<Rightarrow> bytes option \<Rightarrow> bool" where
  "value_is d p len val \<longleftrightarrow>
     (case val of
        None \<Rightarrow> p = None \<and> len = - FDT_ERR_NOTFOUND
      | Some v \<Rightarrow> \<exists>q. p = Some q \<and> len = int (length v) \<and> q + length v \<le> length (fd_mem d) \<and> take (length v) (drop q (fd_mem d)) = v)"

lemma getprop_node:
  assumes ok: "dtb_ok d (pre @ dnode_toks n @ post)" and nms: "\<forall>(no, v) \<in> set (dn_props n). name_at d no (nms no)"
  shows "\<exists>p len. fdt_getprop d (int (toks_len pre)) name = Some (p, len) \<and> value_is d p len (node_prop nms n name)"
proof -
  obtain nm ps ks where n: "n = DNode nm ps ks" by (cases n)
  obtain t ts where t: "concat (map dnode_toks ks) @ TEnd # post = t # ts" "t = TEnd \<or> (\<exists>nm. t = TBegin nm)"
    using first_after_props by blast
  have ok1: "dtb_ok d (pre @ TBegin nm # (props_toks ps @ t # ts))" using ok n t by simp
  have ok2: "dtb_ok d ((pre @ [TBegin nm]) @ props_toks ps @ t # ts)" using ok1 by simp
  let ?pos = "toks_len (pre @ [TBegin nm])"
  have lookup: "property_namelen d (int (toks_len pre)) name = prop_result d (find_prop nms name ?pos ps)"
    using property_loop_props [OF ok2 t(2), of nms name] nms n check_node_tok [OF ok1]
    by (simp add: property_namelen_def fdt_first_property_offset_def)
  have np: "node_prop nms n name = map_option snd (find_prop nms name ?pos ps)" using node_prop_find n by blast
  show ?thesis
  proof (cases "find_prop nms name ?pos ps")
    case None
    then show ?thesis using lookup np by (simp add: fdt_getprop_def prop_result_def value_is_def)
  next
    case (Some r)
    then obtain pos v where r: "r = (pos, v)" by fastforce
    obtain ps1 no ps2 where s: "ps = ps1 @ (no, v) # ps2" "pos = ?pos + toks_len (props_toks ps1)"
      using find_prop_split Some r by blast
    let ?pre = "pre @ TBegin nm # props_toks ps1"
    have ok3: "dtb_ok d (?pre @ TProp no v # (props_toks ps2 @ t # ts))" using ok1 s(1) by (simp add: props_toks_def)
    have pos: "pos = toks_len ?pre" using s(2) by simp
    let ?q = "unat (fh_off_dt_struct d) + pos + 12"
    have "take (length v) (drop ?q (fd_mem d)) = v"
      using struct_take [OF ok3, of 12 "length v"] prop_body(3,4) [where val = v and nameoff = no] pos by simp
    moreover have "?q + length v \<le> length (fd_mem d)"
      using dtb_sizes(3) [OF ok3] prop_body(4) [where val = v and nameoff = no] pos by simp
    moreover have "realigned d (int pos) (unat (fh_off_dt_struct d) + pos) = Some ?q"
      using struct_prop_len(1) [OF ok3] pos ok by (simp add: realigned_def dtb_ok_def add.assoc)
    ultimately show ?thesis
      using lookup np Some r by (simp add: fdt_getprop_def prop_result_def value_is_def)
  qed
qed

lemma getprop_tree:
  assumes "dtb_tree d root" and "(off, k, par, n) \<in> set (all_nodes root)"
    and "\<forall>(no, v) \<in> set (dn_props n). name_at d no (nms no)"
  shows "\<exists>p len. fdt_getprop d (int off) name = Some (p, len) \<and> value_is d p len (node_prop nms n name)"
proof -
  obtain pre post where "dnode_toks root @ [TFin] = pre @ dnode_toks n @ post" "toks_len pre = off"
    using placed_split [of off k par n 0 None "[]" root "[TFin]"] assms(2) by (auto simp: all_nodes_def)
  then show ?thesis using getprop_node [of d pre n post nms name] assms(1, 3) by (simp add: dtb_tree_def)
qed

text \<open>
  (C23) \<open>fdt_getprop\<close> on a node of a flattened tree returns the value of the first property of this node with the
  given name (a pointer to exactly its bytes and their number), and \<open>FDT_ERR_NOTFOUND\<close> if the node has none; it
  never takes a property of another node.
\<close>

theorem fdt_getprop_correct:
  assumes "dtb_tree d root" and "(off, k, par, n) \<in> set (all_nodes root)"
    and "\<forall>(no, v) \<in> set (dn_props n). name_at d no (nms no)"
  shows "\<exists>p len. fdt_getprop d (int off) name = Some (p, len) \<and> value_is d p len (node_prop nms n name)"
  by (rule getprop_tree [OF assms])

section \<open>Witnesses\<close>

text \<open>A tree of two nodes, the root with one property named \<open>x\<close>.\<close>

definition small_tree :: dnode where
  "small_tree = DNode [] [(0, [0, 0, 0, 1])] [DNode [97] [] []]"

definition small_dtb :: fdt where
  "small_dtb = \<lparr>fh_magic = FDT_MAGIC, fh_totalsize = 86, fh_off_dt_struct = 40, fh_off_dt_strings = 84,
     fh_off_mem_rsvmap = 40, fh_version = 17, fh_last_comp_version = 16, fh_size_dt_strings = 2,
     fh_size_dt_struct = 44, fd_mem = replicate 40 0 @ toks_bytes (dnode_toks small_tree @ [TFin]) @ [120, 0]\<rparr>"

lemma small_dtb_tree: "dtb_tree small_dtb small_tree"
  by code_simp

lemma small_nodes: "all_nodes small_tree = [(0, 0, None, small_tree), (24, 1, Some 0, DNode [97] [] [])]"
  by code_simp

theorem fdt_for_each_node_witness: "fdt_for_each_node small_dtb (- 1) 0 = Some [0, 24]"
  using fdt_for_each_node_preorder [OF small_dtb_tree] by (simp add: small_nodes)

theorem fdt_parent_offset_witness: "fdt_parent_offset small_dtb 24 = Some 0"
  using fdt_parent_offset_correct [OF small_dtb_tree, of 24 1 "Some 0" "DNode [97] [] []"] by (simp add: small_nodes)

theorem fdt_getprop_witness:
  "\<exists>p len. fdt_getprop small_dtb 0 [120] = Some (p, len) \<and> value_is small_dtb p len (Some [0, 0, 0, 1])"
proof -
  have "name_at small_dtb 0 [120]" by code_simp
  then show ?thesis
    using fdt_getprop_correct [OF small_dtb_tree, of 0 0 None small_tree "\<lambda>_. [120]" "[120]"]
    by (simp add: small_nodes) (simp add: small_tree_def node_prop_def)
qed

section \<open>A malformed tree\<close>

text \<open>
  A property whose length makes the sum of its header and value wrap to zero is its own successor: the
  search for the next node does not end.
\<close>

lemma next_node_stuck:
  assumes "fdt_next_tag d offset = Some (FDT_PROP, offset)"
  shows "next_node_loop d offset depth = None"
proof -
  have "fdt_next_tag d offset \<noteq> Some (FDT_PROP, offset)" if "next_node_loop d offset depth = Some r" for r
    using that by (rule next_node_loop.raw_induct [where P = "\<lambda>d offset depth r. fdt_next_tag d offset \<noteq> Some (FDT_PROP, offset)", rotated])
      (auto simp: fdt_tags split: bind_splits if_splits option.splits)
  then show ?thesis using assms by (cases "next_node_loop d offset depth") auto
qed

lemma overlong_property:
  "fdt_next_tag (small_dtb\<lparr>fd_mem := replicate 40 0 @ fdt32_st FDT_PROP @ fdt32_st 0xfffffff4 @ replicate 42 0\<rparr>) 0 = Some (FDT_PROP, 0)"
  by code_simp

end
