(* ===== verification/Driver_Core.thy ===== *)
theory Driver_Core
  imports Fdt_Tree "HOL-Library.Multiset"
begin

text \<open>
  The driver model (\<open>kernel/driver/core\<close>): buses on which drivers meet devices, and the platform bus, which
  is filled from the device tree. The lists of a bus are Isabelle lists, the newest entry first, as
  \<open>dlist_add\<close> leaves them (\<open>Minus_Dlist\<close>). A driver's \<open>probe\<close> is an argument that acts on a world of any type.
  Functions that read the tree are \<open>None\<close> where the code's behaviour is undefined or it does not end;
  an error number is \<open>Inl\<close>.
\<close>

section \<open>Buses\<close>

record ('d, 'r, 'w) bus_type =
  bus_match :: "('d \<Rightarrow> 'r \<Rightarrow> bool) option"
  bus_probe :: "('d \<Rightarrow> 'r \<Rightarrow> 'w \<Rightarrow> 'w) option"

text \<open>A device with the driver it is bound to, if any.\<close>

record ('d, 'r) bus =
  bus_devices :: "('d \<times> 'r option) list"
  bus_drivers :: "'r list"

definition bus_register :: "('d, 'r) bus \<Rightarrow> ('d, 'r) bus" where
  "bus_register b = b\<lparr>bus_devices := [], bus_drivers := []\<rparr>"

definition matches :: "('d, 'r, 'w) bus_type \<Rightarrow> 'd \<Rightarrow> 'r \<Rightarrow> bool" where
  "matches bt dev drv \<longleftrightarrow> (case bus_match bt of None \<Rightarrow> False | Some m \<Rightarrow> m dev drv)"

definition run_probe :: "('d, 'r, 'w) bus_type \<Rightarrow> 'd \<Rightarrow> 'r \<Rightarrow> 'w \<Rightarrow> 'w" where
  "run_probe bt dev drv w = (case bus_probe bt of None \<Rightarrow> w | Some p \<Rightarrow> p dev drv w)"

text \<open>
  The device and its bus are pointers that may be \<open>NULL\<close>; the lists of the bus are the state \<open>b\<close>, which a call
  without a device or a bus leaves alone.
\<close>

definition device_register ::
    "('d, 'r, 'w) bus_type option \<Rightarrow> 'd option \<Rightarrow> ('d, 'r) bus \<Rightarrow> 'w \<Rightarrow> int \<times> ('d, 'r) bus \<times> 'w" where
  "device_register bus dev b w =
     (case (dev, bus) of
        (Some d, Some bt) \<Rightarrow>
          (case find (matches bt d) (bus_drivers b) of
             None \<Rightarrow> (0, b\<lparr>bus_devices := (d, None) # bus_devices b\<rparr>, w)
           | Some drv \<Rightarrow> (0, b\<lparr>bus_devices := (d, Some drv) # bus_devices b\<rparr>, run_probe bt d drv w))
      | _ \<Rightarrow> (- errno_val EINVAL, b, w))"

fun bind_devices :: "('d, 'r, 'w) bus_type \<Rightarrow> 'r \<Rightarrow> ('d \<times> 'r option) list \<Rightarrow> 'w \<Rightarrow> ('d \<times> 'r option) list \<times> 'w" where
  "bind_devices bt drv [] w = ([], w)"
| "bind_devices bt drv ((dev, bound) # ds) w =
     (if bound = None \<and> matches bt dev drv
      then (case bind_devices bt drv ds (run_probe bt dev drv w) of (ds', w') \<Rightarrow> ((dev, Some drv) # ds', w'))
      else (case bind_devices bt drv ds w of (ds', w') \<Rightarrow> ((dev, bound) # ds', w')))"

definition driver_register ::
    "('d, 'r, 'w) bus_type option \<Rightarrow> 'r option \<Rightarrow> ('d, 'r) bus \<Rightarrow> 'w \<Rightarrow> int \<times> ('d, 'r) bus \<times> 'w" where
  "driver_register bus drv b w =
     (case (drv, bus) of
        (Some r, Some bt) \<Rightarrow>
          (case bind_devices bt r (bus_devices b) w of
             (ds, w') \<Rightarrow> (0, b\<lparr>bus_devices := ds, bus_drivers := r # bus_drivers b\<rparr>, w'))
      | _ \<Rightarrow> (- errno_val EINVAL, b, w))"

text \<open>The initialisers in the order of the linker section.\<close>

definition module_init :: "('w \<Rightarrow> 'w) list \<Rightarrow> 'w \<Rightarrow> 'w" where
  "module_init calls w = fold (\<lambda>call. call) calls w"

section \<open>Platform devices\<close>

definition IORESOURCE_MEM :: u32 where "IORESOURCE_MEM = push_bit 9 1"
definition IORESOURCE_IRQ :: u32 where "IORESOURCE_IRQ = push_bit 10 1"
definition PLATFORM_MAX_RESOURCES :: nat where "PLATFORM_MAX_RESOURCES = 8"

record resource =
  rs_start :: u64
  rs_end :: u64
  rs_flags :: u32

text \<open>
  A device keeps its resources in an array of eight. Its name and its compatible string are pointers into
  the tree, which does not change: here the string the pointer leads to.
\<close>

record platform_device =
  pd_of_node :: int
  pd_name :: nat
  pd_resource :: "resource list"
  pd_num_resources :: nat
  pd_compatible :: "cstr option"

record 'w platform_driver =
  pr_of_match :: "cstr list option"
  pr_probe :: "(platform_device \<Rightarrow> 'w \<Rightarrow> int \<times> 'w) option"
  pr_remove :: "(platform_device \<Rightarrow> 'w \<Rightarrow> int \<times> 'w) option"

definition platform_match :: "platform_device \<Rightarrow> 'w platform_driver \<Rightarrow> bool" where
  "platform_match pdev pdrv \<longleftrightarrow>
     (case (pr_of_match pdrv, pd_compatible pdev) of
        (Some ids, Some c) \<Rightarrow> c \<in> set ids
      | _ \<Rightarrow> False)"

definition platform_probe :: "platform_device \<Rightarrow> 'w platform_driver \<Rightarrow> 'w \<Rightarrow> int \<times> 'w" where
  "platform_probe pdev pdrv w = (case pr_probe pdrv of None \<Rightarrow> (0, w) | Some p \<Rightarrow> p pdev w)"

definition platform_remove :: "platform_device \<Rightarrow> 'w platform_driver option \<Rightarrow> 'w \<Rightarrow> int \<times> 'w" where
  "platform_remove pdev drv w =
     (case Option.bind drv pr_remove of None \<Rightarrow> (0, w) | Some f \<Rightarrow> f pdev w)"

definition platform_bus_type :: "(platform_device, 'w platform_driver, 'w) bus_type" where
  "platform_bus_type = \<lparr>bus_match = Some platform_match, bus_probe = Some (\<lambda>dev drv w. snd (platform_probe dev drv w))\<rparr>"

type_synonym 'w platform_bus = "(platform_device, 'w platform_driver) bus"

definition platform_device_register :: "platform_device \<Rightarrow> 'w platform_bus \<Rightarrow> 'w \<Rightarrow> int \<times> 'w platform_bus \<times> 'w" where
  "platform_device_register pdev = device_register (Some platform_bus_type) (Some pdev)"

definition platform_driver_register :: "'w platform_driver \<Rightarrow> 'w platform_bus \<Rightarrow> 'w \<Rightarrow> int \<times> 'w platform_bus \<times> 'w" where
  "platform_driver_register pdrv = driver_register (Some platform_bus_type) (Some pdrv)"

definition platform_get_resource :: "platform_device \<Rightarrow> u32 \<Rightarrow> nat \<Rightarrow> resource option" where
  "platform_get_resource pdev ty index =
     (let rs = filter (\<lambda>r. rs_flags r AND ty = ty) (take (pd_num_resources pdev) (pd_resource pdev))
      in if index < length rs then Some (rs ! index) else None)"

definition platform_get_irq :: "platform_device \<Rightarrow> nat \<Rightarrow> int" where
  "platform_get_irq pdev index =
     (case platform_get_resource pdev IORESOURCE_IRQ index of None \<Rightarrow> 0 | Some r \<Rightarrow> sint (ucast (rs_start r) :: u32))"

definition resource_size :: "resource option \<Rightarrow> u64" where
  "resource_size res = (case res of None \<Rightarrow> 0 | Some r \<Rightarrow> rs_end r - rs_start r + 1)"

section \<open>Reading the device tree\<close>

function skip_string :: "bytes \<Rightarrow> nat \<Rightarrow> nat \<Rightarrow> nat option" where
  "skip_string m str fin =
     (if str < fin then do { c \<leftarrow> rd m str; if c \<noteq> 0 then skip_string m (str + 1) fin else Some str }
      else Some str)"
  by pat_completeness auto
termination
  by (relation "measure (\<lambda>(_, str, fin). fin - str)") auto

declare skip_string.simps [simp del]

fun compat_scan :: "bytes \<Rightarrow> nat \<Rightarrow> nat \<Rightarrow> nat \<Rightarrow> nat list option" where
  "compat_scan m str fin 0 = Some []"
| "compat_scan m str fin (Suc room) =
     (if str < fin
      then do { e \<leftarrow> skip_string m str fin; rest \<leftarrow> compat_scan m (e + 1) fin room; Some (str # rest) }
      else Some [])"

definition of_get_compatible :: "fdt \<Rightarrow> int \<Rightarrow> nat \<Rightarrow> nat list option" where
  "of_get_compatible d nodeoffset max_count = do {
     (prop, len) \<leftarrow> fdt_getprop d nodeoffset (cstr_of ''compatible'');
     (case prop of
        None \<Rightarrow> Some []
      | Some p \<Rightarrow> compat_scan (fd_mem d) p (nat (int p + len)) max_count) }"

text \<open>\<open>strcmp\<close> with zero as its result.\<close>

definition str_eq :: "bytes \<Rightarrow> nat \<Rightarrow> cstr \<Rightarrow> bool option" where
  "str_eq m p s = mem_eq m p (s @ [0])"

fun any_eq :: "bytes \<Rightarrow> nat list \<Rightarrow> cstr \<Rightarrow> bool option" where
  "any_eq m [] s = Some False"
| "any_eq m (p # ps) s = do { b \<leftarrow> str_eq m p s; if b then Some True else any_eq m ps s }"

definition of_device_is_compatible :: "fdt \<Rightarrow> int \<Rightarrow> cstr \<Rightarrow> bool option" where
  "of_device_is_compatible d nodeoffset want = do {
     cs \<leftarrow> of_get_compatible d nodeoffset 16;
     any_eq (fd_mem d) cs want }"

fun of_read_cells :: "bytes \<Rightarrow> nat \<Rightarrow> nat \<Rightarrow> u64 \<Rightarrow> u64 option" where
  "of_read_cells m p 0 val = Some val"
| "of_read_cells m p (Suc n) val = do {
     c \<leftarrow> fdt32_ld m p;
     of_read_cells m (p + 4) n (push_bit 32 val OR ucast c) }"

text \<open>The loop over the entries of \<open>ranges\<close>: the translated address, \<open>Some None\<close> if no entry holds the address.\<close>

fun ranges_loop :: "bytes \<Rightarrow> nat \<Rightarrow> nat \<Rightarrow> nat \<Rightarrow> nat \<Rightarrow> u64 \<Rightarrow> nat \<Rightarrow> u64 option option" where
  "ranges_loop m e ac pac sc addr 0 = Some None"
| "ranges_loop m e ac pac sc addr (Suc n) = do {
     child_base \<leftarrow> of_read_cells m e ac 0;
     parent_base \<leftarrow> of_read_cells m (e + 4 * ac) pac 0;
     sz \<leftarrow> of_read_cells m (e + 4 * (ac + pac)) sc 0;
     if child_base \<le> addr \<and> addr < child_base + sz then Some (Some (parent_base + (addr - child_base)))
     else ranges_loop m (e + 4 * (ac + pac + sc)) ac pac sc addr n }"

text \<open>One level: the address on the bus of \<open>parent\<close> as an address on the bus of its parent.\<close>

definition translate_step :: "fdt \<Rightarrow> int \<Rightarrow> int \<Rightarrow> u64 \<Rightarrow> (errno + u64) option" where
  "translate_step d parent grandparent addr = do {
     ac \<leftarrow> fdt_address_cells d parent;
     sc \<leftarrow> fdt_size_cells d parent;
     pac \<leftarrow> fdt_address_cells d grandparent;
     if ac < 0 \<or> sc < 0 \<or> pac < 0 then Some (Inl EINVAL)
     else do {
       (ranges, len) \<leftarrow> fdt_getprop d parent (cstr_of ''ranges'');
       (case ranges of
          None \<Rightarrow> Some (Inl ENOENT)
        | Some p \<Rightarrow>
            if len = 0 then Some (Inr addr)
            else if len < (ac + pac + sc) * 4 then Some (Inl EINVAL)
            else do {
              r \<leftarrow> ranges_loop (fd_mem d) p (nat ac) (nat pac) (nat sc) addr (nat len div nat ((ac + pac + sc) * 4));
              Some (case r of None \<Rightarrow> Inl EINVAL | Some a \<Rightarrow> Inr a) }) } }"

partial_function (option) of_translate_address :: "fdt \<Rightarrow> int \<Rightarrow> u64 \<Rightarrow> (errno + u64) option" where
  "of_translate_address d nodeoffset addr = do {
     parent \<leftarrow> fdt_parent_offset d nodeoffset;
     if parent < 0 then Some (Inl ENOENT)
     else do {
       grandparent \<leftarrow> fdt_parent_offset d parent;
       if grandparent < 0 then Some (Inr addr)
       else do {
         r \<leftarrow> translate_step d parent grandparent addr;
         (case r of Inl e \<Rightarrow> Some (Inl e) | Inr addr' \<Rightarrow> of_translate_address d parent addr') } } }"

definition of_get_address_resource :: "fdt \<Rightarrow> int \<Rightarrow> int \<Rightarrow> nat \<Rightarrow> (errno + resource) option" where
  "of_get_address_resource d nodeoffset parent index = do {
     ac \<leftarrow> fdt_address_cells d parent;
     sc \<leftarrow> fdt_size_cells d parent;
     if ac < 0 \<or> sc < 0 then Some (Inl EINVAL)
     else do {
       (prop, len) \<leftarrow> fdt_getprop d nodeoffset (cstr_of ''reg'');
       (case prop of
          None \<Rightarrow> Some (Inl ENOENT)
        | Some p \<Rightarrow>
            let offset = index * nat (ac + sc) in
            if len < (int index + 1) * (ac + sc) * 4 then Some (Inl EINVAL)
            else do {
              addr \<leftarrow> of_read_cells (fd_mem d) (p + 4 * offset) (nat ac) 0;
              sz \<leftarrow> of_read_cells (fd_mem d) (p + 4 * (offset + nat ac)) (nat sc) 0;
              r \<leftarrow> of_translate_address d nodeoffset addr;
              Some (case r of
                      Inl e \<Rightarrow> Inl e
                    | Inr a \<Rightarrow> Inr \<lparr>rs_start = a, rs_end = a + sz - 1, rs_flags = IORESOURCE_MEM\<rparr>) }) } }"

definition of_get_address_count :: "fdt \<Rightarrow> int \<Rightarrow> int \<Rightarrow> nat option" where
  "of_get_address_count d nodeoffset parent = do {
     ac \<leftarrow> fdt_address_cells d parent;
     sc \<leftarrow> fdt_size_cells d parent;
     if ac < 0 \<or> sc < 0 then Some 0
     else do {
       (prop, len) \<leftarrow> fdt_getprop d nodeoffset (cstr_of ''reg'');
       Some (case prop of
               None \<Rightarrow> 0
             | Some p \<Rightarrow> if len < (ac + sc) * 4 then 0 else nat len div nat ((ac + sc) * 4)) } }"

section \<open>Interrupts\<close>

partial_function (option) of_find_interrupt_parent :: "fdt \<Rightarrow> int \<Rightarrow> int option" where
  "of_find_interrupt_parent d nodeoffset = do {
     (prop, len) \<leftarrow> fdt_getprop d nodeoffset (cstr_of ''interrupt-parent'');
     (case (if 4 \<le> len then prop else None) of
        Some p \<Rightarrow> do { phandle \<leftarrow> fdt32_ld (fd_mem d) p; fdt_node_offset_by_phandle d phandle }
      | None \<Rightarrow> do {
          parent \<leftarrow> fdt_parent_offset d nodeoffset;
          if parent < 0 then Some parent
          else do {
            (ic, _) \<leftarrow> fdt_getprop d parent (cstr_of ''interrupt-controller'');
            if ic \<noteq> None then Some parent else of_find_interrupt_parent d parent } }) }"

definition of_get_interrupt_cells :: "fdt \<Rightarrow> int \<Rightarrow> int option" where
  "of_get_interrupt_cells d intc =
     (if intc < 0 then Some (- errno_val EINVAL)
      else do {
        (prop, len) \<leftarrow> fdt_getprop d intc (cstr_of ''#interrupt-cells'');
        (case (if len < 4 then None else prop) of
           None \<Rightarrow> Some (- errno_val EINVAL)
         | Some p \<Rightarrow> map_option sint (fdt32_ld (fd_mem d) p)) })"

definition of_irq_from_cells :: "bytes \<Rightarrow> nat \<Rightarrow> int \<Rightarrow> int option" where
  "of_irq_from_cells m p nr_cells =
     (if nr_cells \<le> 0 then Some (- errno_val EINVAL)
      else if nr_cells = 1 then map_option sint (fdt32_ld m p)
      else do {
        ty \<leftarrow> fdt32_ld m p;
        irq \<leftarrow> fdt32_ld m (p + 4);
        Some (if ty = 0 then sint (irq + 32) else if ty = 1 then sint (irq + 16) else if ty = 2 then sint irq
              else - errno_val EINVAL) })"

definition of_get_irq_resource :: "fdt \<Rightarrow> int \<Rightarrow> nat \<Rightarrow> (int + resource) option" where
  "of_get_irq_resource d nodeoffset index = do {
     intc \<leftarrow> of_find_interrupt_parent d nodeoffset;
     if intc < 0 then Some (Inl (- errno_val ENOENT))
     else do {
       icells \<leftarrow> of_get_interrupt_cells d intc;
       if icells < 0 then Some (Inl (- errno_val EINVAL))
       else do {
         (prop, len) \<leftarrow> fdt_getprop d nodeoffset (cstr_of ''interrupts'');
         (case prop of
            None \<Rightarrow> Some (Inl (- errno_val ENOENT))
          | Some p \<Rightarrow> do {
              n \<leftarrow> ck ((int index + 1) * icells);
              need \<leftarrow> ck (n * 4);
              if len < need then Some (Inl (- errno_val EINVAL))
              else do {
                irq \<leftarrow> of_irq_from_cells (fd_mem d) (p + 4 * (index * nat icells)) icells;
                Some (if irq < 0 then Inl irq
                      else Inr \<lparr>rs_start = of_int irq, rs_end = of_int irq, rs_flags = IORESOURCE_IRQ\<rparr>) } }) } } }"

definition of_get_irq_count :: "fdt \<Rightarrow> int \<Rightarrow> nat option" where
  "of_get_irq_count d nodeoffset = do {
     (prop, len) \<leftarrow> fdt_getprop d nodeoffset (cstr_of ''interrupts'');
     (case prop of
        None \<Rightarrow> Some 0
      | Some p \<Rightarrow> do {
          intc \<leftarrow> of_find_interrupt_parent d nodeoffset;
          if intc < 0 then Some 0
          else do {
            icells \<leftarrow> of_get_interrupt_cells d intc;
            if icells \<le> 0 then Some 0
            else do {
              need \<leftarrow> ck (icells * 4);
              Some (if len < need then 0 else nat len div nat need) } } }) }"

definition of_get_clock_frequency :: "fdt \<Rightarrow> int \<Rightarrow> u32 option" where
  "of_get_clock_frequency d nodeoffset = do {
     (prop, len) \<leftarrow> fdt_getprop d nodeoffset (cstr_of ''clocks'');
     (case (if len < 4 then None else prop) of
        None \<Rightarrow> Some 0
      | Some p \<Rightarrow> do {
          phandle \<leftarrow> fdt32_ld (fd_mem d) p;
          clk_node \<leftarrow> fdt_node_offset_by_phandle d phandle;
          if clk_node < 0 then Some 0
          else do {
            fixed \<leftarrow> of_device_is_compatible d clk_node (cstr_of ''fixed-clock'');
            if \<not> fixed then Some 0
            else do {
              (freq, freq_len) \<leftarrow> fdt_getprop d clk_node (cstr_of ''clock-frequency'');
              (case (if freq_len < 4 then None else freq) of
                 None \<Rightarrow> Some 0
               | Some q \<Rightarrow> fdt32_ld (fd_mem d) q) } } }) }"

section \<open>Populating the platform bus\<close>

definition of_skip_node :: "bytes \<Rightarrow> nat \<Rightarrow> bool option" where
  "of_skip_node m p = do {
     a \<leftarrow> str_eq m p (cstr_of ''cpus'');
     if a then Some True
     else do {
       b \<leftarrow> str_eq m p (cstr_of ''memory'');
       if b then Some True
       else do {
         c \<leftarrow> str_eq m p (cstr_of ''chosen'');
         if c then Some True else str_eq m p (cstr_of ''aliases'') } } }"

definition of_disabled :: "fdt \<Rightarrow> int \<Rightarrow> bool option" where
  "of_disabled d node = do {
     (status, _) \<leftarrow> fdt_getprop d node (cstr_of ''status'');
     (case status of None \<Rightarrow> Some False | Some p \<Rightarrow> str_eq (fd_mem d) p (cstr_of ''disabled'')) }"

definition no_resource :: resource where
  "no_resource = \<lparr>rs_start = 0, rs_end = 0, rs_flags = 0\<rparr>"

text \<open>The resources from the array position \<open>at\<close> on; one that cannot be read stays zero and counts.\<close>

fun fill_resources :: "(nat \<Rightarrow> ('e + resource) option) \<Rightarrow> nat \<Rightarrow> nat list \<Rightarrow> resource list \<Rightarrow> resource list option" where
  "fill_resources get at [] rs = Some rs"
| "fill_resources get at (i # is) rs = do {
     r \<leftarrow> get i;
     fill_resources get at is (case r of Inl _ \<Rightarrow> rs | Inr x \<Rightarrow> rs[at + i := x]) }"

definition reg_resources :: "fdt \<Rightarrow> int \<Rightarrow> (resource list \<times> nat) option" where
  "reg_resources d node = do {
     parent \<leftarrow> fdt_parent_offset d node;
     if 0 \<le> parent
     then do {
       n \<leftarrow> of_get_address_count d node parent;
       let cnt = min n PLATFORM_MAX_RESOURCES;
       rs \<leftarrow> fill_resources (of_get_address_resource d node parent) 0 [0..<cnt] (replicate PLATFORM_MAX_RESOURCES no_resource);
       Some (rs, cnt) }
     else Some (replicate PLATFORM_MAX_RESOURCES no_resource, 0) }"

definition irq_resources :: "fdt \<Rightarrow> int \<Rightarrow> resource list \<times> nat \<Rightarrow> (resource list \<times> nat) option" where
  "irq_resources d node r = (case r of (rs, num) \<Rightarrow> do {
     n \<leftarrow> of_get_irq_count d node;
     let cnt = min n (PLATFORM_MAX_RESOURCES - num);
     rs' \<leftarrow> fill_resources (of_get_irq_resource d node) num [0..<cnt] rs;
     Some (rs', num + cnt) })"

text \<open>The device of a node; \<open>Some None\<close> for a node that is skipped. \<open>mem_ok\<close> says whether \<open>kmalloc\<close> succeeds.\<close>

definition of_platform_device :: "fdt \<Rightarrow> (int \<Rightarrow> bool) \<Rightarrow> int \<Rightarrow> platform_device option option" where
  "of_platform_device d mem_ok node = do {
     (name, _) \<leftarrow> fdt_get_name d node;
     (case name of
        None \<Rightarrow> Some None
      | Some nm \<Rightarrow> do {
          skip \<leftarrow> of_skip_node (fd_mem d) nm;
          if skip then Some None
          else do {
            (prop, _) \<leftarrow> fdt_getprop d node (cstr_of ''compatible'');
            (case prop of
               None \<Rightarrow> Some None
             | Some c \<Rightarrow> do {
                 disabled \<leftarrow> of_disabled d node;
                 if disabled \<or> \<not> mem_ok node then Some None
                 else do {
                   r1 \<leftarrow> reg_resources d node;
                   (rs, num) \<leftarrow> irq_resources d node r1;
                   s \<leftarrow> string_at (fd_mem d) c;
                   Some (Some \<lparr>pd_of_node = node, pd_name = nm, pd_resource = rs, pd_num_resources = num,
                     pd_compatible = Some s\<rparr>) } }) } }) }"

fun populate_loop :: "fdt \<Rightarrow> (int \<Rightarrow> bool) \<Rightarrow> int list \<Rightarrow> 'w platform_bus \<Rightarrow> 'w \<Rightarrow> ('w platform_bus \<times> 'w) option" where
  "populate_loop d mem_ok [] b w = Some (b, w)"
| "populate_loop d mem_ok (node # nodes) b w = do {
     pdev \<leftarrow> of_platform_device d mem_ok node;
     (case pdev of
        None \<Rightarrow> populate_loop d mem_ok nodes b w
      | Some p \<Rightarrow> (case platform_device_register p b w of (_, b', w') \<Rightarrow> populate_loop d mem_ok nodes b' w')) }"

definition of_platform_populate :: "fdt \<Rightarrow> (int \<Rightarrow> bool) \<Rightarrow> 'w platform_bus \<Rightarrow> 'w \<Rightarrow> ('w platform_bus \<times> 'w) option" where
  "of_platform_populate d mem_ok b w = do {
     nodes \<leftarrow> fdt_for_each_node d (- 1) 0;
     populate_loop d mem_ok nodes b w }"

definition platform_bus_init :: "fdt \<Rightarrow> (int \<Rightarrow> bool) \<Rightarrow> 'w platform_bus \<Rightarrow> 'w \<Rightarrow> ('w platform_bus \<times> 'w) option" where
  "platform_bus_init d mem_ok b w = of_platform_populate d mem_ok (bus_register b) w"

section \<open>Binding\<close>

text \<open>
  The contract of a bus: no device is left unbound while a registered driver matches it, and a bound device
  has a registered driver that matches it.
\<close>

definition bound_ok :: "('d, 'r, 'w) bus_type \<Rightarrow> 'r set \<Rightarrow> 'd \<times> 'r option \<Rightarrow> bool" where
  "bound_ok bt drvs x \<longleftrightarrow>
     (case snd x of None \<Rightarrow> \<forall>drv \<in> drvs. \<not> matches bt (fst x) drv | Some drv \<Rightarrow> drv \<in> drvs \<and> matches bt (fst x) drv)"

definition bus_ok :: "('d, 'r, 'w) bus_type \<Rightarrow> ('d, 'r) bus \<Rightarrow> bool" where
  "bus_ok bt b \<longleftrightarrow> (\<forall>x \<in> set (bus_devices b). bound_ok bt (set (bus_drivers b)) x)"

fun bound_pairs :: "('d \<times> 'r option) list \<Rightarrow> ('d \<times> 'r) list" where
  "bound_pairs [] = []"
| "bound_pairs ((dev, None) # ds) = bound_pairs ds"
| "bound_pairs ((dev, Some drv) # ds) = (dev, drv) # bound_pairs ds"

definition probes :: "('d, 'r, 'w) bus_type \<Rightarrow> ('d \<times> 'r) list \<Rightarrow> 'w \<Rightarrow> 'w" where
  "probes bt calls w = fold (\<lambda>(dev, drv). run_probe bt dev drv) calls w"

lemma find_None: "find P xs = None \<longleftrightarrow> (\<forall>x \<in> set xs. \<not> P x)"
  by (induction xs) auto

lemma find_Some: "find P xs = Some x \<Longrightarrow> x \<in> set xs \<and> P x"
  by (induction xs) (auto split: if_splits)

lemma device_register_ok:
  assumes "bus_ok bt b" and "device_register (Some bt) (Some dev) b w = (r, b', w')"
  shows "bus_ok bt b' \<and> map fst (bus_devices b') = dev # map fst (bus_devices b) \<and> bus_drivers b' = bus_drivers b \<and>
    (\<exists>calls. w' = probes bt calls w \<and> mset (bound_pairs (bus_devices b')) = mset calls + mset (bound_pairs (bus_devices b)))"
proof (cases "find (matches bt dev) (bus_drivers b)")
  case None
  then have "b' = b\<lparr>bus_devices := (dev, None) # bus_devices b\<rparr>" "w' = probes bt [] w"
    using assms(2) by (simp_all add: device_register_def probes_def)
  then show ?thesis using None assms(1) by (auto simp: bus_ok_def bound_ok_def find_None intro: exI [of _ "[]"])
next
  case (Some drv)
  then have "b' = b\<lparr>bus_devices := (dev, Some drv) # bus_devices b\<rparr>" "w' = probes bt [(dev, drv)] w"
    using assms(2) by (simp_all add: device_register_def probes_def)
  then show ?thesis using find_Some [OF Some] assms(1) by (auto simp: bus_ok_def bound_ok_def intro: exI [of _ "[(dev, drv)]"])
qed

lemma bind_devices_ok:
  assumes "bind_devices bt drv ds w = (ds', w')" and "\<forall>x \<in> set ds. bound_ok bt drvs x"
  shows "(\<forall>x \<in> set ds'. bound_ok bt (insert drv drvs) x) \<and> map fst ds' = map fst ds \<and>
    (\<exists>calls. w' = probes bt calls w \<and> mset (bound_pairs ds') = mset calls + mset (bound_pairs ds))"
  using assms
proof (induction ds arbitrary: w ds')
  case Nil
  then show ?case by (auto simp: probes_def intro: exI [of _ "[]"])
next
  case (Cons x ds)
  obtain dev bound where x: "x = (dev, bound)" by fastforce
  show ?case
  proof (cases "bound = None \<and> matches bt dev drv")
    case True
    then obtain ds1 where r: "bind_devices bt drv ds (run_probe bt dev drv w) = (ds1, w')" "ds' = (dev, Some drv) # ds1"
      using Cons.prems x by (auto split: prod.splits)
    obtain calls where c: "w' = probes bt calls (run_probe bt dev drv w)" "mset (bound_pairs ds1) = mset calls + mset (bound_pairs ds)"
      "\<forall>x \<in> set ds1. bound_ok bt (insert drv drvs) x" "map fst ds1 = map fst ds"
      using Cons.IH [OF r(1)] Cons.prems(2) by auto
    have "w' = probes bt ((dev, drv) # calls) w" using c(1) by (simp add: probes_def)
    then show ?thesis using c(2-4) r(2) x True by (auto simp: bound_ok_def intro!: exI [of _ "(dev, drv) # calls"])
  next
    case False
    then obtain ds1 where r: "bind_devices bt drv ds w = (ds1, w')" "ds' = (dev, bound) # ds1"
      using Cons.prems x by (auto split: prod.splits)
    obtain calls where c: "w' = probes bt calls w" "mset (bound_pairs ds1) = mset calls + mset (bound_pairs ds)"
      "\<forall>x \<in> set ds1. bound_ok bt (insert drv drvs) x" "map fst ds1 = map fst ds"
      using Cons.IH [OF r(1)] Cons.prems(2) by auto
    have "bound_ok bt (insert drv drvs) (dev, bound)" using Cons.prems(2) x False by (auto simp: bound_ok_def split: option.splits)
    moreover have "mset (bound_pairs ds') = mset calls + mset (bound_pairs (x # ds))"
      using c(2) r(2) x by (cases bound) auto
    ultimately show ?thesis using c r(2) x by auto
  qed
qed

lemma driver_register_ok:
  assumes "bus_ok bt b" and "driver_register (Some bt) (Some drv) b w = (r, b', w')"
  shows "bus_ok bt b' \<and> map fst (bus_devices b') = map fst (bus_devices b) \<and> bus_drivers b' = drv # bus_drivers b \<and>
    (\<exists>calls. w' = probes bt calls w \<and> mset (bound_pairs (bus_devices b')) = mset calls + mset (bound_pairs (bus_devices b)))"
proof -
  obtain ds where r: "bind_devices bt drv (bus_devices b) w = (ds, w')" "b' = b\<lparr>bus_devices := ds, bus_drivers := drv # bus_drivers b\<rparr>"
    using assms(2) by (auto simp: driver_register_def split: prod.splits)
  show ?thesis using bind_devices_ok [OF r(1)] assms(1) r(2) by (simp add: bus_ok_def)
qed

lemma bound_ok_cases:
  assumes "bound_ok bt drvs (dev, bound)"
  shows "(bound = None \<longleftrightarrow> (\<forall>drv \<in> drvs. \<not> matches bt dev drv)) \<and>
    (\<forall>drv. bound = Some drv \<longrightarrow> drv \<in> drvs \<and> matches bt dev drv)"
  using assms by (cases bound) (auto simp: bound_ok_def)

text \<open>Registrations in any order.\<close>

datatype ('d, 'r) bus_event = AddDevice 'd | AddDriver 'r

fun bus_run :: "('d, 'r, 'w) bus_type \<Rightarrow> ('d, 'r) bus_event list \<Rightarrow> ('d, 'r) bus \<Rightarrow> 'w \<Rightarrow> ('d, 'r) bus \<times> 'w" where
  "bus_run bt [] b w = (b, w)"
| "bus_run bt (AddDevice dev # evs) b w = (case device_register (Some bt) (Some dev) b w of (_, b', w') \<Rightarrow> bus_run bt evs b' w')"
| "bus_run bt (AddDriver drv # evs) b w = (case driver_register (Some bt) (Some drv) b w of (_, b', w') \<Rightarrow> bus_run bt evs b' w')"

fun ev_devices :: "('d, 'r) bus_event list \<Rightarrow> 'd list" where
  "ev_devices [] = []"
| "ev_devices (AddDevice dev # evs) = dev # ev_devices evs"
| "ev_devices (AddDriver drv # evs) = ev_devices evs"

fun ev_drivers :: "('d, 'r) bus_event list \<Rightarrow> 'r list" where
  "ev_drivers [] = []"
| "ev_drivers (AddDevice dev # evs) = ev_drivers evs"
| "ev_drivers (AddDriver drv # evs) = drv # ev_drivers evs"

lemma bus_run_ok:
  assumes "bus_ok bt b" and "bus_run bt evs b w = (b', w')"
  shows "bus_ok bt b' \<and> map fst (bus_devices b') = rev (ev_devices evs) @ map fst (bus_devices b) \<and>
    bus_drivers b' = rev (ev_drivers evs) @ bus_drivers b \<and>
    (\<exists>calls. w' = probes bt calls w \<and> mset (bound_pairs (bus_devices b')) = mset calls + mset (bound_pairs (bus_devices b)))"
  using assms
proof (induction evs arbitrary: b w)
  case Nil
  then show ?case by (auto simp: probes_def intro: exI [of _ "[]"])
next
  case (Cons e evs)
  obtain b1 w1 calls where s: "bus_ok bt b1" "w1 = probes bt calls w"
      "mset (bound_pairs (bus_devices b1)) = mset calls + mset (bound_pairs (bus_devices b))"
      "map fst (bus_devices b1) = ev_devices [e] @ map fst (bus_devices b)" "bus_drivers b1 = ev_drivers [e] @ bus_drivers b"
      "bus_run bt evs b1 w1 = (b', w')"
  proof (cases e)
    case (AddDevice dev)
    then show ?thesis
      using that device_register_ok [OF Cons.prems(1), of dev w] Cons.prems(2)
      by (cases "device_register (Some bt) (Some dev) b w") (auto split: prod.splits)
  next
    case (AddDriver drv)
    then show ?thesis
      using that driver_register_ok [OF Cons.prems(1), of drv w] Cons.prems(2)
      by (cases "driver_register (Some bt) (Some drv) b w") (auto split: prod.splits)
  qed
  obtain calls2 where c: "w' = probes bt calls2 w1" "mset (bound_pairs (bus_devices b')) = mset calls2 + mset (bound_pairs (bus_devices b1))"
    and r: "bus_ok bt b'" "map fst (bus_devices b') = rev (ev_devices evs) @ map fst (bus_devices b1)"
      "bus_drivers b' = rev (ev_drivers evs) @ bus_drivers b1"
    using Cons.IH [OF s(1,6)] by auto
  have "w' = probes bt (calls @ calls2) w" using c(1) s(2) by (simp add: probes_def)
  moreover have "mset (bound_pairs (bus_devices b')) = mset (calls @ calls2) + mset (bound_pairs (bus_devices b))"
    using c(2) s(3) by simp
  moreover have "rev (ev_devices (e # evs)) = rev (ev_devices evs) @ ev_devices [e]" "rev (ev_drivers (e # evs)) = rev (ev_drivers evs) @ ev_drivers [e]"
    by (cases e; simp)+
  ultimately show ?case using r s(4,5) by (metis append.assoc)
qed

text \<open>
  (C21) Drivers and devices of a bus may be registered in any order: afterwards every device is bound if and only if
  a registered driver matches it, to such a driver, and \<open>probe\<close> has been called exactly once for every bound
  device, with the driver it is bound to, and for no other pair.
\<close>

theorem bus_binding_invariant:
  assumes "bus_run bt evs (bus_register b0) w0 = (b, w)"
  shows "map fst (bus_devices b) = rev (ev_devices evs) \<and>
    (\<forall>(dev, bound) \<in> set (bus_devices b).
       (bound = None \<longleftrightarrow> (\<forall>drv \<in> set (ev_drivers evs). \<not> matches bt dev drv)) \<and>
       (\<forall>drv. bound = Some drv \<longrightarrow> drv \<in> set (ev_drivers evs) \<and> matches bt dev drv)) \<and>
    (\<exists>calls. w = probes bt calls w0 \<and> mset calls = mset (bound_pairs (bus_devices b)))"
proof -
  have "bus_ok bt (bus_register b0)" by (simp add: bus_ok_def bus_register_def)
  note r = bus_run_ok [OF this assms]
  have "(bound = None \<longleftrightarrow> (\<forall>drv \<in> set (ev_drivers evs). \<not> matches bt dev drv)) \<and>
       (\<forall>drv. bound = Some drv \<longrightarrow> drv \<in> set (ev_drivers evs) \<and> matches bt dev drv)"
    if "(dev, bound) \<in> set (bus_devices b)" for dev bound
    using r that by (intro bound_ok_cases) (auto simp: bus_ok_def bus_register_def)
  then show ?thesis using r by (auto simp: bus_register_def)
qed

section \<open>Addresses of devices\<close>

text \<open>
  What the translation of addresses means, on the tree itself and without the functions of \<open>of.c\<close>: numbers are
  the big-endian numbers of the bytes of a property, modulo the width of the address, and \<open>ranges\<close> is a list of
  windows.
\<close>

primrec be_num :: "bytes \<Rightarrow> int" where
  "be_num [] = 0"
| "be_num (b # bs) = uint b * 256 ^ length bs + be_num bs"


definition tree_ok :: "fdt \<Rightarrow> dnode \<Rightarrow> (u32 \<Rightarrow> cstr) \<Rightarrow> bool" where
  "tree_ok d root nms \<longleftrightarrow>
     dtb_tree d root \<and> (\<forall>(off, k, par, n) \<in> set (all_nodes root). \<forall>(no, v) \<in> set (dn_props n). name_at d no (nms no))"

definition node_cells :: "(u32 \<Rightarrow> cstr) \<Rightarrow> dnode \<Rightarrow> cstr \<Rightarrow> int" where
  "node_cells nms n name =
     (case node_prop nms n name of
        None \<Rightarrow> - FDT_ERR_NOTFOUND
      | Some v \<Rightarrow>
          if length v = 4 \<and> be_num v \<le> 4 then be_num v else - FDT_ERR_BADNCELLS)"

definition addr_cells :: "(u32 \<Rightarrow> cstr) \<Rightarrow> dnode \<Rightarrow> int" where
  "addr_cells nms n =
     (let v = node_cells nms n (cstr_of ''#address-cells'')
      in if v = 0 then - FDT_ERR_BADNCELLS else if v = - FDT_ERR_NOTFOUND then 2 else v)"

definition size_cells :: "(u32 \<Rightarrow> cstr) \<Rightarrow> dnode \<Rightarrow> int" where
  "size_cells nms n =
     (let v = node_cells nms n (cstr_of ''#size-cells'') in if v = - FDT_ERR_NOTFOUND then 1 else v)"

text \<open>The number of \<open>n\<close> cells at byte \<open>i\<close>.\<close>

definition cells_value :: "bytes \<Rightarrow> nat \<Rightarrow> nat \<Rightarrow> u64" where
  "cells_value v i n = of_int (be_num (take (4 * n) (drop i v)))"

text \<open>The windows of \<open>ranges\<close>: base on the bus, base on the bus above, length.\<close>

definition window :: "bytes \<Rightarrow> nat \<Rightarrow> nat \<Rightarrow> nat \<Rightarrow> nat \<Rightarrow> u64 \<times> u64 \<times> u64" where
  "window v ac pac sc e = (cells_value v e ac, cells_value v (e + 4 * ac) pac, cells_value v (e + 4 * (ac + pac)) sc)"

definition windows :: "bytes \<Rightarrow> nat \<Rightarrow> nat \<Rightarrow> nat \<Rightarrow> (u64 \<times> u64 \<times> u64) list" where
  "windows v ac pac sc =
     (let w = 4 * (ac + pac + sc) in map (\<lambda>i. window v ac pac sc (i * w)) [0..<length v div w])"

definition in_window :: "u64 \<Rightarrow> u64 \<times> u64 \<times> u64 \<Rightarrow> bool" where
  "in_window addr = (\<lambda>(child, parent, sz). child \<le> addr \<and> addr < child + sz)"

text \<open>From the bus of \<open>p\<close> to the bus of its parent \<open>g\<close>.\<close>

definition through_ranges :: "(u32 \<Rightarrow> cstr) \<Rightarrow> dnode \<Rightarrow> dnode \<Rightarrow> u64 \<Rightarrow> errno + u64" where
  "through_ranges nms p g addr =
     (let ac = addr_cells nms p; sc = size_cells nms p; pac = addr_cells nms g in
      if ac < 0 \<or> sc < 0 \<or> pac < 0 then Inl EINVAL
      else (case node_prop nms p (cstr_of ''ranges'') of
              None \<Rightarrow> Inl ENOENT
            | Some v \<Rightarrow>
                if v = [] then Inr addr
                else if int (length v) < (ac + pac + sc) * 4 then Inl EINVAL
                else (case find (in_window addr) (windows v (nat ac) (nat pac) (nat sc)) of
                        Some (child, parent, sz) \<Rightarrow> Inr (parent + (addr - child))
                      | None \<Rightarrow> Inl EINVAL)))"

definition entry_of :: "dnode \<Rightarrow> nat \<Rightarrow> nat option \<times> dnode" where
  "entry_of root off = (case find (\<lambda>x. fst x = off) (all_nodes root) of Some (_, _, e) \<Rightarrow> e | None \<Rightarrow> (None, root))"

fun bus_to_cpu :: "(u32 \<Rightarrow> cstr) \<Rightarrow> dnode \<Rightarrow> nat \<Rightarrow> nat \<Rightarrow> u64 \<Rightarrow> errno + u64" where
  "bus_to_cpu nms root 0 off addr = Inl ENOENT"
| "bus_to_cpu nms root (Suc 0) off addr = Inr addr"
| "bus_to_cpu nms root (Suc (Suc k)) off addr =
     (case entry_of root off of
        (Some p, _) \<Rightarrow>
          (case entry_of root p of
             (Some g, pn) \<Rightarrow>
               (case through_ranges nms pn (snd (entry_of root g)) addr of
                  Inl e \<Rightarrow> Inl e
                | Inr addr' \<Rightarrow> bus_to_cpu nms root (Suc k) p addr')
           | (None, _) \<Rightarrow> Inr addr)
      | (None, _) \<Rightarrow> Inl ENOENT)"

lemma fdt32_ld_value:
  assumes "take (length v) (drop q m) = v" and "i + 4 \<le> length v"
  shows "fdt32_ld m (q + i) = fdt32_ld v i"
proof -
  have l: "length v \<le> length m - q" using arg_cong [OF assms(1), of length] by simp
  have n: "m ! (q + j) = v ! j" if "j < length v" for j
  proof -
    have "v ! j = take (length v) (drop q m) ! j" using assms(1) by simp
    also have "\<dots> = m ! (q + j)" using that l by (subst nth_take) (simp_all add: nth_drop)
    finally show ?thesis by simp
  qed
  show ?thesis using n [of i] n [of "i + 1"] n [of "i + 2"] n [of "i + 3"] assms(2) l
    by (simp add: fdt32_ld_def add.assoc)
qed

lemma read_cells_value:
  assumes "take (length v) (drop q m) = v" and "i + 4 * n \<le> length v"
  shows "of_read_cells m (q + i) n acc = of_read_cells v i n acc \<and> of_read_cells v i n acc \<noteq> None"
  using assms(2)
proof (induction n arbitrary: i acc)
  case (Suc n)
  have "fdt32_ld m (q + i) = fdt32_ld v i" using fdt32_ld_value [OF assms(1)] Suc.prems by simp
  moreover obtain c where "fdt32_ld v i = Some c" using Suc.prems by (simp add: fdt32_ld_def)
  ultimately show ?case using Suc.IH [of "i + 4"] Suc.prems by (simp add: add.assoc)
qed simp

lemma ranges_loop_value:
  assumes "take (length v) (drop q m) = v" and "e + 4 * (ac + pac + sc) * n \<le> length v"
  shows "ranges_loop m (q + e) ac pac sc addr n = ranges_loop v e ac pac sc addr n \<and> ranges_loop v e ac pac sc addr n \<noteq> None"
  using assms(2)
proof (induction n arbitrary: e)
  case (Suc n)
  have b: "e + 4 * (ac + pac + sc) + 4 * (ac + pac + sc) * n \<le> length v" using Suc.prems by simp
  note r = read_cells_value [OF assms(1)]
  have "of_read_cells m (q + e) ac 0 = of_read_cells v e ac 0" "of_read_cells v e ac 0 \<noteq> None"
    using r [of e ac 0] b by simp_all
  moreover have "of_read_cells m (q + e + 4 * ac) pac 0 = of_read_cells v (e + 4 * ac) pac 0" "of_read_cells v (e + 4 * ac) pac 0 \<noteq> None"
    using r [of "e + 4 * ac" pac 0] b by (simp_all add: add.assoc)
  moreover have "of_read_cells m (q + e + 4 * (ac + pac)) sc 0 = of_read_cells v (e + 4 * (ac + pac)) sc 0"
    "of_read_cells v (e + 4 * (ac + pac)) sc 0 \<noteq> None"
    using r [of "e + 4 * (ac + pac)" sc 0] b by (simp_all add: add.assoc)
  ultimately show ?case using Suc.IH [OF b] by (auto simp: add.assoc)
qed simp

lemma be_num_append: "be_num (xs @ ys) = be_num xs * 256 ^ length ys + be_num ys"
  by (induction xs) (simp_all add: power_add algebra_simps)

lemma byte_or: "push_bit 8 x OR (ucast (b :: u8)) = (256 * x + ucast b :: u32)"
proof -
  have "push_bit 8 x AND (ucast b :: u32) = 0"
    by (rule bit_eqI) (auto simp: bit_simps dest: bit_imp_le_length)
  then show ?thesis using disjunctive_add_eq_or [of "push_bit 8 x" "ucast b :: u32"] by (simp add: push_bit_eq_mult mult.commute)
qed

lemma cell_or: "push_bit 32 x OR (ucast (c :: u32)) = (2 ^ 32 * x + ucast c :: u64)"
proof -
  have "push_bit 32 x AND (ucast c :: u64) = 0"
    by (rule bit_eqI) (auto simp: bit_simps dest: bit_imp_le_length)
  then show ?thesis using disjunctive_add_eq_or [of "push_bit 32 x" "ucast c :: u64"] by (simp add: push_bit_eq_mult mult.commute)
qed

lemma take4: "i + 4 \<le> length v \<Longrightarrow> take 4 (drop i v) = [v ! i, v ! (i + 1), v ! (i + 2), v ! (i + 3)]"
  by (simp add: take_Suc_conv_app_nth numeral_eq_Suc)

lemma be_num_bound: "0 \<le> be_num xs \<and> be_num xs < 256 ^ length xs"
proof (induction xs)
  case (Cons x xs)
  have "uint x + 1 \<le> 256" using unsigned_less [of x, where 'a = int] by simp
  then have "(uint x + 1) * 256 ^ length xs \<le> 256 ^ length (x # xs)" by simp
  moreover have "be_num (x # xs) < (uint x + 1) * 256 ^ length xs" using Cons by (simp add: algebra_simps)
  ultimately have "be_num (x # xs) < 256 ^ length (x # xs)" by (rule less_le_trans [rotated])
  then show ?case using Cons by simp
qed simp

lemma fdt32_ld_be: 
  assumes "i + 4 \<le> length v"
  shows "\<exists>c. fdt32_ld v i = Some c \<and> uint c = be_num (take 4 (drop i v))"
proof -
  define a b c e where "a = v ! i" and "b = v ! (i + 1)" and "c = v ! (i + 2)" and "e = v ! (i + 3)"
  have "push_bit 24 (ucast a) OR push_bit 16 (ucast b) OR push_bit 8 (ucast c) OR ucast e =
      push_bit 8 (push_bit 8 (push_bit 8 (ucast a) OR ucast b) OR ucast c) OR (ucast e :: u32)"
    by (rule bit_eqI) (auto simp: bit_simps)
  also have "\<dots> = of_int (be_num [a, b, c, e])"
    unfolding byte_or by (simp add: algebra_simps)
  finally have "fdt32_ld v i = Some (of_int (be_num (take 4 (drop i v))))"
    using assms by (simp add: fdt32_ld_def take4 a_def b_def c_def e_def)
  moreover have "uint (of_int (be_num (take 4 (drop i v))) :: u32) = be_num (take 4 (drop i v))"
    using be_num_bound [of "take 4 (drop i v)"] assms by (simp add: unsigned_of_int take_bit_int_eq_self)
  ultimately show ?thesis by blast
qed

lemma read_cells_be:
  assumes "i + 4 * n \<le> length v"
  shows "of_read_cells v i n acc = Some (acc * (2 ^ 32) ^ n + cells_value v i n)"
  using assms
proof (induction n arbitrary: i acc)
  case (Suc n)
  obtain c where c: "fdt32_ld v i = Some c" "uint c = be_num (take 4 (drop i v))" using fdt32_ld_be [of i v] Suc.prems by auto
  have l: "length (take (4 * n) (drop (i + 4) v)) = 4 * n" using Suc.prems by simp
  have "take (4 * Suc n) (drop i v) = take 4 (drop i v) @ take (4 * n) (drop (i + 4) v)"
    by (simp add: take_add add.commute)
  moreover have "256 ^ (4 * n) = ((2 ^ 32) ^ n :: int)" by (simp add: power_mult)
  ultimately have "cells_value v i (Suc n) = of_int (uint c) * (2 ^ 32) ^ n + cells_value v (i + 4) n"
    using l by (simp add: cells_value_def be_num_append c(2))
  then show ?case using c(1) Suc.IH [of "i + 4"] Suc.prems
    by (simp add: cell_or algebra_simps)
qed (simp add: cells_value_def)

lemma ranges_loop_windows:
  assumes "(k + n) * (4 * (ac + pac + sc)) \<le> length v"
  shows "ranges_loop v (k * (4 * (ac + pac + sc))) ac pac sc addr n =
    Some (map_option (\<lambda>(child, parent, sz). parent + (addr - child))
      (find (in_window addr) (map (\<lambda>i. window v ac pac sc (i * (4 * (ac + pac + sc)))) [k..<k + n])))"
  using assms
proof (induction n arbitrary: k)
  case (Suc n)
  define w where "w = 4 * (ac + pac + sc)"
  have w: "4 * ac + 4 * pac + 4 * sc = w" by (simp add: w_def)
  have b: "k * w + w + n * w \<le> length v" using Suc.prems unfolding w_def [symmetric] by (simp add: algebra_simps)
  have r: "of_read_cells v (k * w) ac 0 = Some (cells_value v (k * w) ac)"
    "of_read_cells v (k * w + 4 * ac) pac 0 = Some (cells_value v (k * w + 4 * ac) pac)"
    "of_read_cells v (k * w + 4 * (ac + pac)) sc 0 = Some (cells_value v (k * w + 4 * (ac + pac)) sc)"
    using b by (subst read_cells_be; simp add: w_def)+
  have "ranges_loop v (k * w + w) ac pac sc addr n = Some (map_option (\<lambda>(child, parent, sz). parent + (addr - child))
      (find (in_window addr) (map (\<lambda>i. window v ac pac sc (i * w)) [Suc k..<Suc k + n])))"
    using Suc.IH [of "Suc k"] Suc.prems unfolding w_def [symmetric] by (simp add: add.commute)
  moreover have "[k..<k + Suc n] = k # [Suc k..<Suc k + n]" by (simp add: upt_conv_Cons)
  ultimately show ?case unfolding w_def [symmetric] using r w by (simp add: window_def in_window_def del: upt_Suc)
qed simp
lemma prop_tree:
  assumes "tree_ok d root nms" and "(off, k, par, n) \<in> set (all_nodes root)"
  shows "\<exists>p len. fdt_getprop d (int off) name = Some (p, len) \<and> value_is d p len (node_prop nms n name)"
  using assms by (intro getprop_tree [OF _ assms(2)]) (auto simp: tree_ok_def)

lemma cells_tree:
  assumes "tree_ok d root nms" and "(off, k, par, n) \<in> set (all_nodes root)"
  shows "fdt_cells d (int off) name = Some (node_cells nms n name)"
proof -
  obtain p len where g: "fdt_getprop d (int off) name = Some (p, len)" "value_is d p len (node_prop nms n name)"
    using prop_tree [OF assms] by blast
  show ?thesis
  proof (cases "node_prop nms n name")
    case None
    then show ?thesis using g by (simp add: fdt_cells_def node_cells_def value_is_def)
  next
    case (Some v)
    then obtain q where q: "p = Some q" "len = int (length v)" "take (length v) (drop q (fd_mem d)) = v"
      using g(2) by (auto simp: value_is_def)
    show ?thesis
    proof (cases "length v = 4")
      case True
      then obtain c where "fdt32_ld v 0 = Some c" and "uint c = be_num v" using fdt32_ld_be [of 0 v] by auto
      moreover from this have "fdt32_ld (fd_mem d) q = Some c" using fdt32_ld_value [OF q(3), of 0] True by simp
      ultimately show ?thesis using g(1) q Some True by (auto simp: fdt_cells_def node_cells_def FDT_MAX_NCELLS_def word_less_def)
    next
      case False
      then show ?thesis using g(1) q Some by (simp add: fdt_cells_def node_cells_def split: option.split)
    qed
  qed
qed

lemma address_cells_tree:
  "tree_ok d root nms \<Longrightarrow> (off, k, par, n) \<in> set (all_nodes root) \<Longrightarrow> fdt_address_cells d (int off) = Some (addr_cells nms n)"
  by (simp add: fdt_address_cells_def cells_tree addr_cells_def Let_def)

lemma size_cells_tree:
  "tree_ok d root nms \<Longrightarrow> (off, k, par, n) \<in> set (all_nodes root) \<Longrightarrow> fdt_size_cells d (int off) = Some (size_cells nms n)"
  by (simp add: fdt_size_cells_def cells_tree size_cells_def Let_def)

lemma translate_step_tree:
  assumes ok: "tree_ok d root nms" and pn: "(p, k, pp, pnode) \<in> set (all_nodes root)" and gn: "(g, k', gp, gnode) \<in> set (all_nodes root)"
  shows "translate_step d (int p) (int g) addr = Some (through_ranges nms pnode gnode addr)"
proof -
  define ac sc pac where "ac = addr_cells nms pnode" and "sc = size_cells nms pnode" and "pac = addr_cells nms gnode"
  note c = address_cells_tree [OF ok pn] size_cells_tree [OF ok pn] address_cells_tree [OF ok gn]
  obtain r len where g: "fdt_getprop d (int p) (cstr_of ''ranges'') = Some (r, len)" "value_is d r len (node_prop nms pnode (cstr_of ''ranges''))"
    using prop_tree [OF ok pn] by blast
  show ?thesis
  proof (cases "ac < 0 \<or> sc < 0 \<or> pac < 0 \<or> node_prop nms pnode (cstr_of ''ranges'') = None")
    case True
    then show ?thesis
      using g c by (auto simp: translate_step_def through_ranges_def Let_def value_is_def ac_def sc_def pac_def split: option.splits)
  next
    case False
    then obtain v where v: "node_prop nms pnode (cstr_of ''ranges'') = Some v" and s: "0 \<le> ac" "0 \<le> sc" "0 \<le> pac" by auto
    obtain q where q: "r = Some q" "len = int (length v)" "take (length v) (drop q (fd_mem d)) = v"
      using g(2) v by (auto simp: value_is_def)
    define n where "n = length v div nat ((ac + pac + sc) * 4)"
    have w: "nat ((ac + pac + sc) * 4) = 4 * (nat ac + nat pac + nat sc)" using s by (simp add: nat_add_distrib nat_mult_distrib)
    have "4 * (nat ac + nat pac + nat sc) * n \<le> length v" unfolding n_def w by simp
    note b = this
    then have l: "ranges_loop (fd_mem d) q (nat ac) (nat pac) (nat sc) addr n = ranges_loop v 0 (nat ac) (nat pac) (nat sc) addr n"
      "ranges_loop v 0 (nat ac) (nat pac) (nat sc) addr n \<noteq> None"
      using ranges_loop_value [OF q(3), of 0 "nat ac" "nat pac" "nat sc" n addr] by simp_all
    have "translate_step d (int p) (int g) addr =
        (if len = 0 then Some (Inr addr) else if len < (ac + pac + sc) * 4 then Some (Inl EINVAL)
         else do {
           r \<leftarrow> ranges_loop (fd_mem d) q (nat ac) (nat pac) (nat sc) addr n;
           Some (case r of None \<Rightarrow> Inl EINVAL | Some a \<Rightarrow> Inr a) })"
      using g(1) c q(1,2) False by (simp add: translate_step_def ac_def [symmetric] sc_def [symmetric] pac_def [symmetric] n_def)
    moreover have "through_ranges nms pnode gnode addr =
        (if v = [] then Inr addr else if int (length v) < (ac + pac + sc) * 4 then Inl EINVAL
         else (case find (in_window addr) (windows v (nat ac) (nat pac) (nat sc)) of
                 Some (child, parent, sz) \<Rightarrow> Inr (parent + (addr - child)) | None \<Rightarrow> Inl EINVAL))"
      using v False by (simp add: through_ranges_def Let_def ac_def [symmetric] sc_def [symmetric] pac_def [symmetric] n_def)
    moreover have "ranges_loop v 0 (nat ac) (nat pac) (nat sc) addr n =
        Some (map_option (\<lambda>(child, parent, sz). parent + (addr - child)) (find (in_window addr) (windows v (nat ac) (nat pac) (nat sc))))"
      using ranges_loop_windows [of 0 n "nat ac" "nat pac" "nat sc" v addr] b w
      by (simp add: windows_def Let_def n_def mult.commute)
    ultimately show ?thesis using l q(2) by (auto split: option.splits)
  qed
qed

lemma kids_parent:
  assumes "\<forall>x \<in> set xs. \<forall>o2. (off, k, Some p, n) \<in> set (placed k0 (Some o0) o2 x) \<longrightarrow>
      p = o0 \<and> k = k0 \<or> (\<exists>pp pn. (p, k - 1, pp, pn) \<in> set (placed k0 (Some o0) o2 x) \<and> 0 < k)"
    and "(off, k, Some p, n) \<in> set (placed_list (placed k0 (Some o0)) o2 xs)"
  shows "p = o0 \<and> k = k0 \<or> (\<exists>pp pn. (p, k - 1, pp, pn) \<in> set (placed_list (placed k0 (Some o0)) o2 xs) \<and> 0 < k)"
  using assms by (induction xs arbitrary: o2) fastforce+

lemma placed_parent:
  "(off, k, Some p, n) \<in> set (placed k0 par0 off0 x) \<Longrightarrow>
   par0 = Some p \<and> k = k0 \<or> (\<exists>pp pn. (p, k - 1, pp, pn) \<in> set (placed k0 par0 off0 x) \<and> 0 < k)"
proof (induction x arbitrary: k0 par0 off0)
  case (DNode nm ps ks)
  let ?kids = "placed_list (placed (Suc k0) (Some off0)) (off0 + toks_len (TBegin nm # props_toks ps)) ks"
  show ?case
  proof (cases "(off, k, Some p, n) \<in> set ?kids")
    case True
    have "p = off0 \<and> k = Suc k0 \<or> (\<exists>pp pn. (p, k - 1, pp, pn) \<in> set ?kids \<and> 0 < k)"
      using DNode.IH by (intro kids_parent [OF _ True]) blast
    then show ?thesis
    proof
      assume "p = off0 \<and> k = Suc k0"
      then have "(p, k - 1, par0, DNode nm ps ks) \<in> set (placed k0 par0 off0 (DNode nm ps ks)) \<and> 0 < k" by simp
      then show ?thesis by blast
    qed auto
  next
    case False
    then show ?thesis using DNode.prems by auto
  qed
qed

lemma parent_entry:
  assumes "(off, k, Some p, n) \<in> set (all_nodes root)"
  shows "\<exists>pp pn. (p, k - 1, pp, pn) \<in> set (all_nodes root) \<and> 0 < k"
  using placed_parent [of off k p n 0 None 0 root] assms by (simp add: all_nodes_def)

lemma find_sorted:
  "sorted_wrt (<) (map fst xs) \<Longrightarrow> (off, e) \<in> set xs \<Longrightarrow> find (\<lambda>x. fst x = off) xs = Some (off :: nat, e)"
  by (induction xs) auto

lemma entry_of_node:
  assumes "(off, k, par, n) \<in> set (all_nodes root)"
  shows "entry_of root off = (par, n)"
proof -
  have "sorted_wrt (<) (map fst (all_nodes root))" by (simp add: all_nodes_def placed_sorted)
  then have "find (\<lambda>x. fst x = off) (all_nodes root) = Some (off, k, par, n)"
    using find_sorted assms by fastforce
  then show ?thesis by (simp add: entry_of_def)
qed


section \<open>Witnesses\<close>

text \<open>A device on a bus whose window of 16 MiB at \<open>0x7e000000\<close> the processor sees at \<open>0xfe000000\<close>.\<close>

definition bus_tree :: dnode where
  "bus_tree = DNode [] [(0, fdt32_st 1)]
     [DNode (cstr_of ''soc'') [(0, fdt32_st 1), (15, fdt32_st 1), (27, fdt32_st 0x7e000000 @ fdt32_st 0xfe000000 @ fdt32_st 0x1000000)]
       [DNode (cstr_of ''u'') [] []]]"

definition bus_names :: "u32 \<Rightarrow> cstr" where
  "bus_names no = (if no = 0 then cstr_of ''#address-cells'' else if no = 15 then cstr_of ''#size-cells'' else cstr_of ''ranges'')"

definition bus_dtb :: fdt where
  "bus_dtb = \<lparr>fh_magic = FDT_MAGIC, fh_totalsize = 186, fh_off_dt_struct = 40, fh_off_dt_strings = 152,
     fh_off_mem_rsvmap = 40, fh_version = 17, fh_last_comp_version = 16, fh_size_dt_strings = 34,
     fh_size_dt_struct = 112, fd_mem = replicate 40 0 @ toks_bytes (dnode_toks bus_tree @ [TFin]) @
       cstr_of ''#address-cells'' @ [0] @ cstr_of ''#size-cells'' @ [0] @ cstr_of ''ranges'' @ [0]\<rparr>"

lemma bus_tree_ok: "tree_ok bus_dtb bus_tree bus_names"
  by code_simp

lemma bus_tree_node: "(88, 2, Some 24, DNode (cstr_of ''u'') [] []) \<in> set (all_nodes bus_tree)"
  by code_simp


theorem bus_binding_witness:
  "map fst (bus_devices (fst (bus_run \<lparr>bus_match = Some (=), bus_probe = Some (\<lambda>dev drv w. w + drv)\<rparr>
     [AddDevice 1, AddDriver 2, AddDevice 2, AddDriver (1 :: nat)] (bus_register \<lparr>bus_devices = [], bus_drivers = []\<rparr>) (0 :: nat)))) = [2, 1]"
  using bus_binding_invariant [of "\<lparr>bus_match = Some (=), bus_probe = Some (\<lambda>dev drv w. w + drv)\<rparr>"
     "[AddDevice 1, AddDriver 2, AddDevice 2, AddDriver (1 :: nat)]" "\<lparr>bus_devices = [], bus_drivers = []\<rparr>" "0 :: nat"]
  by (metis (no_types, lifting) prod.collapse ev_devices.simps rev.simps append.simps)

end
