(* ===== verification/Hw.thy ===== *)
theory Hw
  imports Minus_Prelude "HOL-Library.Monad_Syntax"
begin

text \<open>
  Devices. A driver reaches its device through volatile accesses to mapped addresses and through system
  registers. What these do is the device's affair: it is an argument, a record of access functions on a
  device state of any type. A read may change that state. Theorems say what they assume of the accesses.
\<close>

datatype sysreg =
    VBAR_EL1 | DAIFCLR | ICC_SRE_EL1 | ICC_PMR_EL1 | ICC_BPR1_EL1 | ICC_IGRPEN1_EL1 | ICC_IAR1_EL1 | ICC_EOIR1_EL1
  | CNTKCTL_EL1 | CNTP_CTL_EL0 | CNTP_TVAL_EL0 | CNTFRQ_EL0 | CNTPCT_EL0

record 'h hw =
  r8 :: "u64 \<Rightarrow> 'h \<Rightarrow> u8 \<times> 'h"
  r16 :: "u64 \<Rightarrow> 'h \<Rightarrow> u16 \<times> 'h"
  r32 :: "u64 \<Rightarrow> 'h \<Rightarrow> u32 \<times> 'h"
  r64 :: "u64 \<Rightarrow> 'h \<Rightarrow> u64 \<times> 'h"
  w8 :: "u64 \<Rightarrow> u8 \<Rightarrow> 'h \<Rightarrow> 'h"
  w16 :: "u64 \<Rightarrow> u16 \<Rightarrow> 'h \<Rightarrow> 'h"
  w32 :: "u64 \<Rightarrow> u32 \<Rightarrow> 'h \<Rightarrow> 'h"
  w64 :: "u64 \<Rightarrow> u64 \<Rightarrow> 'h \<Rightarrow> 'h"
  rsys :: "sysreg \<Rightarrow> 'h \<Rightarrow> u64 \<times> 'h"
  wsys :: "sysreg \<Rightarrow> u64 \<Rightarrow> 'h \<Rightarrow> 'h"

text \<open>Read, change, write back.\<close>

definition rmw32 :: "'h hw \<Rightarrow> u64 \<Rightarrow> (u32 \<Rightarrow> u32) \<Rightarrow> 'h \<Rightarrow> 'h" where
  "rmw32 hw a f h = (case r32 hw a h of (v, h') \<Rightarrow> w32 hw a (f v) h')"

text \<open>Reading a register until a condition holds; \<open>None\<close> if that never happens.\<close>

partial_function (option) poll32 :: "'h hw \<Rightarrow> u64 \<Rightarrow> (u32 \<Rightarrow> bool) \<Rightarrow> 'h \<Rightarrow> 'h option" where
  "poll32 hw a until h = (case r32 hw a h of (v, h') \<Rightarrow> if until v then Some h' else poll32 hw a until h')"

text \<open>
  What drivers use of the memory management, on the same state, since a device sees the memory: \<open>kmalloc\<close>,
  \<open>kfree\<close>, \<open>kzalloc_pages\<close>, \<open>kfree_pages\<close>, \<open>buddy_alloc_pages\<close> with the physical address of the pages,
  \<open>buddy_free_pages\<close>, \<open>mmu_ioremap\<close> and \<open>mmu_memremap\<close> (zero for a failure). \<open>km_offset\<close> is \<open>g_load_offset\<close>.
\<close>

record 'h kmem =
  km_alloc :: "u32 \<Rightarrow> 'h \<Rightarrow> u64 option \<times> 'h"
  km_free :: "u64 \<Rightarrow> 'h \<Rightarrow> 'h"
  km_alloc_pages :: "u32 \<Rightarrow> 'h \<Rightarrow> u64 option \<times> 'h"
  km_free_pages :: "u64 \<Rightarrow> 'h \<Rightarrow> 'h"
  km_alloc_phys :: "u64 \<Rightarrow> 'h \<Rightarrow> u64 option \<times> 'h"
  km_free_phys :: "u64 \<Rightarrow> 'h \<Rightarrow> 'h"
  km_ioremap :: "u64 \<Rightarrow> u64 \<Rightarrow> 'h \<Rightarrow> u64 \<times> 'h"
  km_memremap :: "u64 \<Rightarrow> u64 \<Rightarrow> 'h \<Rightarrow> u64 \<times> 'h"
  km_offset :: u64

definition VA_PA :: "'h kmem \<Rightarrow> u64 \<Rightarrow> u64" where
  "VA_PA km x = x + km_offset km"

end
