(* ===== verification/Gic.thy ===== *)
theory Gic
  imports Hw Driver_Core
begin

text \<open>
  Interrupts: \<open>kernel/core/arch/irq.c\<close> and the interrupt controllers \<open>kernel/driver/gic\<close> (\<open>gic.c\<close>, \<open>gic_v2.c\<close>,
  \<open>gic_v3.c\<close>), and the timer \<open>kernel/driver/timer/generic_timer.c\<close>. A handler is a function on the device state,
  which stands for everything a handler may change; the table of handlers is the controller's own. The
  functions of both controllers with the same name carry a suffix here.
\<close>

section \<open>The common interface\<close>

type_synonym 'h irq_handler = "u32 \<Rightarrow> u64 \<Rightarrow> 'h \<Rightarrow> 'h"

record ('s, 'h) gic_ops =
  go_irq_enable :: "(u32 \<Rightarrow> 's \<Rightarrow> int \<times> 's) option"
  go_irq_disable :: "(u32 \<Rightarrow> 's \<Rightarrow> int \<times> 's) option"
  go_irq_set_priority :: "(u32 \<Rightarrow> u8 \<Rightarrow> 's \<Rightarrow> int \<times> 's) option"
  go_irq_set_type :: "(u32 \<Rightarrow> u32 \<Rightarrow> 's \<Rightarrow> int \<times> 's) option"
  go_irq_set_group :: "(u32 \<Rightarrow> u32 \<Rightarrow> 's \<Rightarrow> int \<times> 's) option"
  go_request_irq :: "(u32 \<Rightarrow> 'h irq_handler option \<Rightarrow> u64 \<Rightarrow> 's \<Rightarrow> int \<times> 's) option"
  go_handle_irq :: "('s \<Rightarrow> 's) option"

definition gic_irq_enable :: "('s, 'h) gic_ops option \<Rightarrow> u32 \<Rightarrow> 's \<Rightarrow> int \<times> 's" where
  "gic_irq_enable ops irq s = (case Option.bind ops go_irq_enable of None \<Rightarrow> (- errno_val ENODEV, s) | Some f \<Rightarrow> f irq s)"

definition gic_irq_disable :: "('s, 'h) gic_ops option \<Rightarrow> u32 \<Rightarrow> 's \<Rightarrow> int \<times> 's" where
  "gic_irq_disable ops irq s = (case Option.bind ops go_irq_disable of None \<Rightarrow> (- errno_val ENODEV, s) | Some f \<Rightarrow> f irq s)"

definition gic_irq_set_priority :: "('s, 'h) gic_ops option \<Rightarrow> u32 \<Rightarrow> u8 \<Rightarrow> 's \<Rightarrow> int \<times> 's" where
  "gic_irq_set_priority ops irq prio s =
     (case Option.bind ops go_irq_set_priority of None \<Rightarrow> (- errno_val ENODEV, s) | Some f \<Rightarrow> f irq prio s)"

definition gic_irq_set_type :: "('s, 'h) gic_ops option \<Rightarrow> u32 \<Rightarrow> u32 \<Rightarrow> 's \<Rightarrow> int \<times> 's" where
  "gic_irq_set_type ops irq ty s =
     (case Option.bind ops go_irq_set_type of None \<Rightarrow> (- errno_val ENODEV, s) | Some f \<Rightarrow> f irq ty s)"

definition gic_irq_set_group :: "('s, 'h) gic_ops option \<Rightarrow> u32 \<Rightarrow> u32 \<Rightarrow> 's \<Rightarrow> int \<times> 's" where
  "gic_irq_set_group ops irq grp s =
     (case Option.bind ops go_irq_set_group of None \<Rightarrow> (- errno_val ENODEV, s) | Some f \<Rightarrow> f irq grp s)"

definition gic_request_irq :: "('s, 'h) gic_ops option \<Rightarrow> u32 \<Rightarrow> 'h irq_handler option \<Rightarrow> u64 \<Rightarrow> 's \<Rightarrow> int \<times> 's" where
  "gic_request_irq ops irq hdl dev_id s =
     (case Option.bind ops go_request_irq of None \<Rightarrow> (- errno_val ENODEV, s) | Some f \<Rightarrow> f irq hdl dev_id s)"

definition gic_handle_irq :: "('s, 'h) gic_ops option \<Rightarrow> 's \<Rightarrow> 's" where
  "gic_handle_irq ops s = (case Option.bind ops go_handle_irq of None \<Rightarrow> s | Some f \<Rightarrow> f s)"

definition request_irq :: "('s, 'h) gic_ops option \<Rightarrow> u32 \<Rightarrow> 'h irq_handler option \<Rightarrow> u64 \<Rightarrow> 's \<Rightarrow> int \<times> 's" where
  "request_irq = gic_request_irq"

definition enable_irq :: "('s, 'h) gic_ops option \<Rightarrow> u32 \<Rightarrow> 's \<Rightarrow> int \<times> 's" where
  "enable_irq = gic_irq_enable"

definition disable_irq :: "('s, 'h) gic_ops option \<Rightarrow> u32 \<Rightarrow> 's \<Rightarrow> int \<times> 's" where
  "disable_irq = gic_irq_disable"

definition irq_init :: "'h hw \<Rightarrow> u64 \<Rightarrow> 'h \<Rightarrow> 'h" where
  "irq_init hw vector_table = wsys hw VBAR_EL1 vector_table"

definition irq_unmask :: "'h hw \<Rightarrow> 'h \<Rightarrow> 'h" where
  "irq_unmask hw = wsys hw DAIFCLR 2"

section \<open>State and registers\<close>

definition GIC_NR_IRQS :: u32 where "GIC_NR_IRQS = 1020"
definition GIC_MIN_SGI :: u32 where "GIC_MIN_SGI = 0"
definition GIC_MIN_PPI :: u32 where "GIC_MIN_PPI = 16"
definition GIC_MAX_PPI :: u32 where "GIC_MAX_PPI = 31"
definition GIC_MIN_SPI :: u32 where "GIC_MIN_SPI = 32"
definition GIC_PRIO_DEFAULT :: u8 where "GIC_PRIO_DEFAULT = 0xa0"
definition GIC_PRIO_LOWEST :: u32 where "GIC_PRIO_LOWEST = 0xff"
definition GIC_IRQ_TYPE_LEVEL :: u32 where "GIC_IRQ_TYPE_LEVEL = 0"
definition GIC_GROUP_G1NS :: u32 where "GIC_GROUP_G1NS = 1"
definition GIC_GROUP_G1S :: u32 where "GIC_GROUP_G1S = 0"

definition GICD_CTLR :: u32 where "GICD_CTLR = 0x0000"
definition GICD_TYPER :: u32 where "GICD_TYPER = 0x0004"
definition GICD_IGROUPR :: u32 where "GICD_IGROUPR = 0x0080"
definition GICD_ISENABLER :: u32 where "GICD_ISENABLER = 0x0100"
definition GICD_ICENABLER :: u32 where "GICD_ICENABLER = 0x0180"
definition GICD_IPRIORITYR :: u32 where "GICD_IPRIORITYR = 0x0400"
definition GICD_ITARGETSR :: u32 where "GICD_ITARGETSR = 0x0800"
definition GICD_ICFGR :: u32 where "GICD_ICFGR = 0x0c00"
definition GICD_IGRPMODR :: u32 where "GICD_IGRPMODR = 0x0d00"
definition GICC_CTLR :: u32 where "GICC_CTLR = 0x0000"
definition GICC_PMR :: u32 where "GICC_PMR = 0x0004"
definition GICC_BPR :: u32 where "GICC_BPR = 0x0008"
definition GICC_IAR :: u32 where "GICC_IAR = 0x000c"
definition GICC_EOIR :: u32 where "GICC_EOIR = 0x0010"
definition GICR_WAKER :: u32 where "GICR_WAKER = 0x0014"
definition GICR_SGI_BASE_OFFSET :: u64 where "GICR_SGI_BASE_OFFSET = 0x10000"

text \<open>The bases are those of the distributor and of the processor interface or redistributor.\<close>

record 'h gic_state =
  g_gicd_base :: u64
  g_gicx_base :: u64
  g_nr_spis :: u32
  g_handlers :: "'h irq_handler option list"
  g_handler_data :: "u64 list"

definition reg :: "u64 \<Rightarrow> u32 \<Rightarrow> u64" where
  "reg base off = base + ucast off"

definition irq_word :: "u32 \<Rightarrow> u32 \<Rightarrow> u32" where
  "irq_word reg_off irq = reg_off + irq div 32 * 4"

definition irq_mask :: "u32 \<Rightarrow> u32" where
  "irq_mask irq = push_bit (unat (irq mod 32)) 1"

definition gic_irq_bit_op32 :: "'h hw \<Rightarrow> u64 \<Rightarrow> u32 \<Rightarrow> u32 \<Rightarrow> bool \<Rightarrow> 'h \<Rightarrow> 'h" where
  "gic_irq_bit_op32 hw base reg_off irq on =
     rmw32 hw (reg base (irq_word reg_off irq)) (\<lambda>val. if on then val OR irq_mask irq else val AND NOT (irq_mask irq))"

definition gic_irq_bit_read32 :: "'h hw \<Rightarrow> u64 \<Rightarrow> u32 \<Rightarrow> u32 \<Rightarrow> 'h \<Rightarrow> u32 \<times> 'h" where
  "gic_irq_bit_read32 hw base reg_off irq h =
     (case r32 hw (reg base (irq_word reg_off irq)) h of (v, h') \<Rightarrow> (v AND irq_mask irq, h'))"

definition gicd_enable_irq :: "'h hw \<Rightarrow> u64 \<Rightarrow> u32 \<Rightarrow> 'h \<Rightarrow> 'h" where
  "gicd_enable_irq hw base irq = gic_irq_bit_op32 hw base GICD_ISENABLER irq True"

definition gicd_disable_irq :: "'h hw \<Rightarrow> u64 \<Rightarrow> u32 \<Rightarrow> 'h \<Rightarrow> 'h" where
  "gicd_disable_irq hw base irq = gic_irq_bit_op32 hw base GICD_ICENABLER irq True"

text \<open>A field of a register with several fields: its bits replaced.\<close>

definition put_field :: "u32 \<Rightarrow> u32 \<Rightarrow> u32 \<Rightarrow> u32 \<Rightarrow> u32" where
  "put_field ones shift v val = (val AND NOT (push_bit (unat shift) ones)) OR push_bit (unat shift) (v AND ones)"

definition spi_count :: "u32 \<Rightarrow> u32" where
  "spi_count typer = (let n = ((typer AND 0x1f) + 1) * 32 in if GIC_NR_IRQS < n then GIC_NR_IRQS else n)"

definition irq_range :: "u32 \<Rightarrow> u32 \<Rightarrow> u32 list" where
  "irq_range a b = map of_nat [unat a ..< unat b]"

text \<open>A driver for a controller has a table of 1020 handlers.\<close>

definition gic_request :: "u32 \<Rightarrow> 'h irq_handler option \<Rightarrow> u64 \<Rightarrow> 'h gic_state \<times> 'h \<Rightarrow> int \<times> 'h gic_state \<times> 'h" where
  "gic_request irq hdl dev_id s =
     (if GIC_NR_IRQS \<le> irq then (- errno_val EINVAL, s)
      else (0, (fst s)\<lparr>g_handlers := (g_handlers (fst s))[unat irq := hdl],
                       g_handler_data := (g_handler_data (fst s))[unat irq := dev_id]\<rparr>, snd s))"

section \<open>GICv2\<close>

definition gic_irq_prio_write_v2 :: "'h hw \<Rightarrow> 'h gic_state \<Rightarrow> u32 \<Rightarrow> u8 \<Rightarrow> 'h \<Rightarrow> 'h" where
  "gic_irq_prio_write_v2 hw g irq prio = w8 hw (reg (g_gicd_base g) (GICD_IPRIORITYR + irq)) prio"

definition gic_irq_cfg_write_v2 :: "'h hw \<Rightarrow> 'h gic_state \<Rightarrow> u32 \<Rightarrow> u32 \<Rightarrow> 'h \<Rightarrow> 'h" where
  "gic_irq_cfg_write_v2 hw g irq ty =
     rmw32 hw (reg (g_gicd_base g) (GICD_ICFGR + irq div 16 * 4)) (put_field 3 (irq mod 16 * 2) ty)"

definition gic_irq_group_write_v2 :: "'h hw \<Rightarrow> 'h gic_state \<Rightarrow> u32 \<Rightarrow> u32 \<Rightarrow> 'h \<Rightarrow> 'h" where
  "gic_irq_group_write_v2 hw g irq grp =
     rmw32 hw (reg (g_gicd_base g) (irq_word GICD_IGROUPR irq))
       (\<lambda>val. if grp = GIC_GROUP_G1NS then val OR irq_mask irq else val AND NOT (irq_mask irq))"

definition gic_irq_target_write :: "'h hw \<Rightarrow> 'h gic_state \<Rightarrow> u32 \<Rightarrow> u8 \<Rightarrow> 'h \<Rightarrow> 'h" where
  "gic_irq_target_write hw g irq target =
     rmw32 hw (reg (g_gicd_base g) (GICD_ITARGETSR + irq div 4 * 4)) (put_field 0xff (irq mod 4 * 8) (ucast target))"

definition spi_setup_v2 :: "'h hw \<Rightarrow> 'h gic_state \<Rightarrow> u32 \<Rightarrow> 'h \<Rightarrow> 'h" where
  "spi_setup_v2 hw g i h =
     gicd_disable_irq hw (g_gicd_base g) i (gic_irq_target_write hw g i 1
       (gic_irq_cfg_write_v2 hw g i GIC_IRQ_TYPE_LEVEL (gic_irq_prio_write_v2 hw g i GIC_PRIO_DEFAULT
         (gic_irq_group_write_v2 hw g i GIC_GROUP_G1NS h))))"

definition gic_dist_init_v2 :: "'h hw \<Rightarrow> 'h gic_state \<Rightarrow> 'h \<Rightarrow> 'h gic_state \<times> 'h" where
  "gic_dist_init_v2 hw g h =
     (case r32 hw (reg (g_gicd_base g) GICD_TYPER) h of
        (typer, h1) \<Rightarrow>
          let g' = g\<lparr>g_nr_spis := spi_count typer\<rparr>;
              h2 = w32 hw (reg (g_gicd_base g) GICD_CTLR) 0 h1;
              h3 = fold (spi_setup_v2 hw g') (irq_range GIC_MIN_SPI (g_nr_spis g')) h2;
              h4 = fold (\<lambda>i h. gic_irq_prio_write_v2 hw g' i GIC_PRIO_DEFAULT (gic_irq_group_write_v2 hw g' i GIC_GROUP_G1NS h))
                     (irq_range GIC_MIN_SGI (GIC_MAX_PPI + 1)) h3;
              h5 = fold (\<lambda>i. gic_irq_cfg_write_v2 hw g' i GIC_IRQ_TYPE_LEVEL) (irq_range GIC_MIN_PPI (GIC_MAX_PPI + 1)) h4;
              h6 = fold (gicd_disable_irq hw (g_gicd_base g)) (irq_range GIC_MIN_PPI (GIC_MAX_PPI + 1)) h5
          in (g', w32 hw (reg (g_gicd_base g) GICD_CTLR) 1 h6))"

definition gic_cpu_init_v2 :: "'h hw \<Rightarrow> 'h gic_state \<Rightarrow> 'h \<Rightarrow> 'h" where
  "gic_cpu_init_v2 hw g h =
     w32 hw (reg (g_gicx_base g) GICC_CTLR) 1 (w32 hw (reg (g_gicx_base g) GICC_BPR) 0
       (w32 hw (reg (g_gicx_base g) GICC_PMR) GIC_PRIO_LOWEST h))"

text \<open>\<open>mmu_ioremap\<close> is an argument: the address and the new state.\<close>

definition gic_probe_v2 ::
    "'h hw \<Rightarrow> (u64 \<Rightarrow> u64 \<Rightarrow> 'h \<Rightarrow> u64 \<times> 'h) \<Rightarrow> platform_device \<Rightarrow> 'h gic_state \<times> 'h \<Rightarrow> int \<times> 'h gic_state \<times> 'h" where
  "gic_probe_v2 hw ioremap pdev s = (case s of (g, h) \<Rightarrow>
     (case (platform_get_resource pdev IORESOURCE_MEM 0, platform_get_resource pdev IORESOURCE_MEM 1) of
        (Some d, Some c) \<Rightarrow>
          (case ioremap (rs_start d) (resource_size (Some d)) h of
             (db, h1) \<Rightarrow>
               (case ioremap (rs_start c) (resource_size (Some c)) h1 of
                  (cb, h2) \<Rightarrow>
                    let g1 = g\<lparr>g_gicd_base := db, g_gicx_base := cb\<rparr> in
                    if db = 0 \<or> cb = 0 then (- errno_val ENOMEM, g1, h2)
                    else (case gic_dist_init_v2 hw g1 h2 of (g2, h3) \<Rightarrow> (0, g2, gic_cpu_init_v2 hw g2 h3))))
      | _ \<Rightarrow> (- errno_val ENOENT, s)))"

definition gic_v2_irq_enable :: "'h hw \<Rightarrow> u32 \<Rightarrow> 'h gic_state \<times> 'h \<Rightarrow> int \<times> 'h gic_state \<times> 'h" where
  "gic_v2_irq_enable hw irq s =
     (if GIC_NR_IRQS \<le> irq then (- errno_val EINVAL, s)
      else (0, fst s, gicd_enable_irq hw (g_gicd_base (fst s)) irq (snd s)))"

definition gic_v2_irq_disable :: "'h hw \<Rightarrow> u32 \<Rightarrow> 'h gic_state \<times> 'h \<Rightarrow> int \<times> 'h gic_state \<times> 'h" where
  "gic_v2_irq_disable hw irq s =
     (if GIC_NR_IRQS \<le> irq then (- errno_val EINVAL, s)
      else (0, fst s, gicd_disable_irq hw (g_gicd_base (fst s)) irq (snd s)))"

definition gic_v2_irq_set_priority :: "'h hw \<Rightarrow> u32 \<Rightarrow> u8 \<Rightarrow> 'h gic_state \<times> 'h \<Rightarrow> int \<times> 'h gic_state \<times> 'h" where
  "gic_v2_irq_set_priority hw irq prio s =
     (if GIC_NR_IRQS \<le> irq then (- errno_val EINVAL, s) else (0, fst s, gic_irq_prio_write_v2 hw (fst s) irq prio (snd s)))"

definition gic_v2_irq_set_type :: "'h hw \<Rightarrow> u32 \<Rightarrow> u32 \<Rightarrow> 'h gic_state \<times> 'h \<Rightarrow> int \<times> 'h gic_state \<times> 'h" where
  "gic_v2_irq_set_type hw irq ty s =
     (if GIC_NR_IRQS \<le> irq then (- errno_val EINVAL, s) else (0, fst s, gic_irq_cfg_write_v2 hw (fst s) irq ty (snd s)))"

definition gic_v2_irq_set_group :: "'h hw \<Rightarrow> u32 \<Rightarrow> u32 \<Rightarrow> 'h gic_state \<times> 'h \<Rightarrow> int \<times> 'h gic_state \<times> 'h" where
  "gic_v2_irq_set_group hw irq grp s =
     (if GIC_NR_IRQS \<le> irq then (- errno_val EINVAL, s) else (0, fst s, gic_irq_group_write_v2 hw (fst s) irq grp (snd s)))"

definition gic_v2_request_irq :: "u32 \<Rightarrow> 'h irq_handler option \<Rightarrow> u64 \<Rightarrow> 'h gic_state \<times> 'h \<Rightarrow> int \<times> 'h gic_state \<times> 'h" where
  "gic_v2_request_irq = gic_request"

text \<open>What both dispatchers do with the interrupt they have acknowledged.\<close>

definition run_handler :: "'h gic_state \<Rightarrow> u32 \<Rightarrow> 'h \<Rightarrow> 'h" where
  "run_handler g irq h =
     (case g_handlers g ! unat irq of None \<Rightarrow> h | Some hdl \<Rightarrow> hdl irq (g_handler_data g ! unat irq) h)"

definition gic_v2_handle_irq :: "'h hw \<Rightarrow> 'h gic_state \<times> 'h \<Rightarrow> 'h gic_state \<times> 'h" where
  "gic_v2_handle_irq hw s = (case s of (g, h) \<Rightarrow>
     (case r32 hw (reg (g_gicx_base g) GICC_IAR) h of
        (irq, h1) \<Rightarrow>
          if 1020 \<le> irq then (g, h1)
          else (g, w32 hw (reg (g_gicx_base g) GICC_EOIR) irq (run_handler g irq h1))))"

definition gic_v2_ops :: "'h hw \<Rightarrow> ('h gic_state \<times> 'h, 'h) gic_ops" where
  "gic_v2_ops hw = \<lparr>go_irq_enable = Some (gic_v2_irq_enable hw), go_irq_disable = Some (gic_v2_irq_disable hw),
     go_irq_set_priority = Some (gic_v2_irq_set_priority hw), go_irq_set_type = Some (gic_v2_irq_set_type hw),
     go_irq_set_group = Some (gic_v2_irq_set_group hw), go_request_irq = Some gic_v2_request_irq,
     go_handle_irq = Some (gic_v2_handle_irq hw)\<rparr>"

section \<open>GICv3\<close>

definition gicr_sgi_base :: "'h gic_state \<Rightarrow> u64" where
  "gicr_sgi_base g = g_gicx_base g + GICR_SGI_BASE_OFFSET"

definition gicd_wait_for_rwp :: "'h hw \<Rightarrow> 'h gic_state \<Rightarrow> 'h \<Rightarrow> 'h option" where
  "gicd_wait_for_rwp hw g = poll32 hw (reg (g_gicd_base g) GICD_CTLR) (\<lambda>v. v AND push_bit 31 1 = 0)"

definition gic_irq_prio_write_v3 :: "'h hw \<Rightarrow> 'h gic_state \<Rightarrow> u32 \<Rightarrow> u8 \<Rightarrow> 'h \<Rightarrow> 'h" where
  "gic_irq_prio_write_v3 hw g irq prio =
     w8 hw (if irq \<le> GIC_MAX_PPI then reg (gicr_sgi_base g) (0x0400 + irq) else reg (g_gicd_base g) (GICD_IPRIORITYR + irq)) prio"

definition gic_irq_cfg_write_v3 :: "'h hw \<Rightarrow> 'h gic_state \<Rightarrow> u32 \<Rightarrow> u32 \<Rightarrow> 'h \<Rightarrow> 'h" where
  "gic_irq_cfg_write_v3 hw g irq ty =
     rmw32 hw (if irq \<le> GIC_MAX_PPI then reg (gicr_sgi_base g) (0x0c00 + (irq - GIC_MIN_SGI) div 16 * 4)
               else reg (g_gicd_base g) (GICD_ICFGR + (irq - GIC_MIN_SPI) div 16 * 4))
       (put_field 3 (irq mod 16 * 2) ty)"

definition gic_irq_group_write_v3 :: "'h hw \<Rightarrow> 'h gic_state \<Rightarrow> u32 \<Rightarrow> u32 \<Rightarrow> 'h \<Rightarrow> 'h" where
  "gic_irq_group_write_v3 hw g irq grp h =
     (let base = (if irq \<le> GIC_MAX_PPI then gicr_sgi_base g else g_gicd_base g);
          off_group = (if irq \<le> GIC_MAX_PPI then 0x0080 else irq_word GICD_IGROUPR irq);
          off_mod = (if irq \<le> GIC_MAX_PPI then 0x0d00 else irq_word GICD_IGRPMODR irq);
          on = (\<lambda>val. val OR irq_mask irq);
          off = (\<lambda>val. val AND NOT (irq_mask irq))
      in if grp = GIC_GROUP_G1NS then rmw32 hw (reg base off_mod) off (rmw32 hw (reg base off_group) on h)
         else if grp = GIC_GROUP_G1S then rmw32 hw (reg base off_mod) on (rmw32 hw (reg base off_group) off h)
         else rmw32 hw (reg base off_mod) off (rmw32 hw (reg base off_group) off h))"

definition gicr_enable_irq :: "'h hw \<Rightarrow> 'h gic_state \<Rightarrow> u32 \<Rightarrow> 'h \<Rightarrow> 'h" where
  "gicr_enable_irq hw g irq = gic_irq_bit_op32 hw (gicr_sgi_base g) 0x0100 irq True"

definition gicr_disable_irq :: "'h hw \<Rightarrow> 'h gic_state \<Rightarrow> u32 \<Rightarrow> 'h \<Rightarrow> 'h" where
  "gicr_disable_irq hw g irq = gic_irq_bit_op32 hw (gicr_sgi_base g) 0x0180 irq True"

definition gic_redist_wake :: "'h hw \<Rightarrow> 'h gic_state \<Rightarrow> 'h \<Rightarrow> 'h option" where
  "gic_redist_wake hw g h =
     poll32 hw (reg (g_gicx_base g) GICR_WAKER) (\<lambda>v. v AND push_bit 2 1 = 0)
       (rmw32 hw (reg (g_gicx_base g) GICR_WAKER) (\<lambda>v. v AND NOT (push_bit 1 1)) h)"

definition spi_setup_v3 :: "'h hw \<Rightarrow> 'h gic_state \<Rightarrow> u32 \<Rightarrow> 'h \<Rightarrow> 'h" where
  "spi_setup_v3 hw g i h =
     gicd_disable_irq hw (g_gicd_base g) i (gic_irq_cfg_write_v3 hw g i GIC_IRQ_TYPE_LEVEL
       (gic_irq_prio_write_v3 hw g i GIC_PRIO_DEFAULT (gic_irq_group_write_v3 hw g i GIC_GROUP_G1NS h)))"

definition gic_dist_init_v3 :: "'h hw \<Rightarrow> 'h gic_state \<Rightarrow> 'h \<Rightarrow> ('h gic_state \<times> 'h) option" where
  "gic_dist_init_v3 hw g h =
     (case r32 hw (reg (g_gicd_base g) GICD_TYPER) h of
        (typer, h1) \<Rightarrow> do {
          let g' = g\<lparr>g_nr_spis := spi_count typer\<rparr>;
          h2 \<leftarrow> gicd_wait_for_rwp hw g' (w32 hw (reg (g_gicd_base g) GICD_CTLR) 0 h1);
          let h3 = fold (spi_setup_v3 hw g') (irq_range GIC_MIN_SPI (g_nr_spis g')) h2;
          h4 \<leftarrow> gicd_wait_for_rwp hw g' (w32 hw (reg (g_gicd_base g) GICD_CTLR) (1 OR 2) h3);
          Some (g', h4) })"

definition gic_redist_init :: "'h hw \<Rightarrow> 'h gic_state \<Rightarrow> 'h \<Rightarrow> 'h" where
  "gic_redist_init hw g h =
     (let h1 = fold (\<lambda>i h. gic_irq_prio_write_v3 hw g i GIC_PRIO_DEFAULT (gic_irq_group_write_v3 hw g i GIC_GROUP_G1NS h))
                 (irq_range GIC_MIN_SGI (GIC_MAX_PPI + 1)) h;
          h2 = fold (\<lambda>i. gic_irq_cfg_write_v3 hw g i GIC_IRQ_TYPE_LEVEL) (irq_range GIC_MIN_PPI (GIC_MAX_PPI + 1)) h1
      in fold (gicr_disable_irq hw g) (irq_range GIC_MIN_PPI (GIC_MAX_PPI + 1)) h2)"

definition gic_cpu_init_v3 :: "'h hw \<Rightarrow> 'h \<Rightarrow> 'h" where
  "gic_cpu_init_v3 hw h =
     (case rsys hw ICC_SRE_EL1 h of
        (sre, h1) \<Rightarrow>
          wsys hw ICC_IGRPEN1_EL1 1 (wsys hw ICC_BPR1_EL1 0 (wsys hw ICC_PMR_EL1 0xff (wsys hw ICC_SRE_EL1 (sre OR 1) h1))))"

definition gic_probe_v3 ::
    "'h hw \<Rightarrow> (u64 \<Rightarrow> u64 \<Rightarrow> 'h \<Rightarrow> u64 \<times> 'h) \<Rightarrow> platform_device \<Rightarrow> 'h gic_state \<times> 'h \<Rightarrow> (int \<times> 'h gic_state \<times> 'h) option" where
  "gic_probe_v3 hw ioremap pdev s = (case s of (g, h) \<Rightarrow>
     (case (platform_get_resource pdev IORESOURCE_MEM 0, platform_get_resource pdev IORESOURCE_MEM 1) of
        (Some d, Some r) \<Rightarrow>
          (case ioremap (rs_start d) (resource_size (Some d)) h of
             (db, h1) \<Rightarrow>
               (case ioremap (rs_start r) (resource_size (Some r)) h1 of
                  (rb, h2) \<Rightarrow>
                    let g1 = g\<lparr>g_gicd_base := db, g_gicx_base := rb\<rparr> in
                    if db = 0 \<or> rb = 0 then Some (- errno_val ENOMEM, g1, h2)
                    else do {
                      h3 \<leftarrow> gic_redist_wake hw g1 h2;
                      (g2, h4) \<leftarrow> gic_dist_init_v3 hw g1 h3;
                      Some (0, g2, gic_cpu_init_v3 hw (gic_redist_init hw g2 h4)) }))
      | _ \<Rightarrow> Some (- errno_val ENOENT, s)))"

definition gic_v3_irq_enable :: "'h hw \<Rightarrow> u32 \<Rightarrow> 'h gic_state \<times> 'h \<Rightarrow> int \<times> 'h gic_state \<times> 'h" where
  "gic_v3_irq_enable hw irq s =
     (if GIC_NR_IRQS \<le> irq then (- errno_val EINVAL, s)
      else (0, fst s, if irq \<le> GIC_MAX_PPI then gicr_enable_irq hw (fst s) irq (snd s)
                      else gicd_enable_irq hw (g_gicd_base (fst s)) irq (snd s)))"

definition gic_v3_irq_disable :: "'h hw \<Rightarrow> u32 \<Rightarrow> 'h gic_state \<times> 'h \<Rightarrow> int \<times> 'h gic_state \<times> 'h" where
  "gic_v3_irq_disable hw irq s =
     (if GIC_NR_IRQS \<le> irq then (- errno_val EINVAL, s)
      else (0, fst s, if irq \<le> GIC_MAX_PPI then gicr_disable_irq hw (fst s) irq (snd s)
                      else gicd_disable_irq hw (g_gicd_base (fst s)) irq (snd s)))"

definition gic_v3_irq_set_priority :: "'h hw \<Rightarrow> u32 \<Rightarrow> u8 \<Rightarrow> 'h gic_state \<times> 'h \<Rightarrow> int \<times> 'h gic_state \<times> 'h" where
  "gic_v3_irq_set_priority hw irq prio s =
     (if GIC_NR_IRQS \<le> irq then (- errno_val EINVAL, s) else (0, fst s, gic_irq_prio_write_v3 hw (fst s) irq prio (snd s)))"

definition gic_v3_irq_set_type :: "'h hw \<Rightarrow> u32 \<Rightarrow> u32 \<Rightarrow> 'h gic_state \<times> 'h \<Rightarrow> int \<times> 'h gic_state \<times> 'h" where
  "gic_v3_irq_set_type hw irq ty s =
     (if GIC_NR_IRQS \<le> irq then (- errno_val EINVAL, s) else (0, fst s, gic_irq_cfg_write_v3 hw (fst s) irq ty (snd s)))"

definition gic_v3_irq_set_group :: "'h hw \<Rightarrow> u32 \<Rightarrow> u32 \<Rightarrow> 'h gic_state \<times> 'h \<Rightarrow> int \<times> 'h gic_state \<times> 'h" where
  "gic_v3_irq_set_group hw irq grp s =
     (if GIC_NR_IRQS \<le> irq then (- errno_val EINVAL, s) else (0, fst s, gic_irq_group_write_v3 hw (fst s) irq grp (snd s)))"

definition gic_v3_request_irq :: "u32 \<Rightarrow> 'h irq_handler option \<Rightarrow> u64 \<Rightarrow> 'h gic_state \<times> 'h \<Rightarrow> int \<times> 'h gic_state \<times> 'h" where
  "gic_v3_request_irq = gic_request"

definition gic_v3_handle_irq :: "'h hw \<Rightarrow> 'h gic_state \<times> 'h \<Rightarrow> 'h gic_state \<times> 'h" where
  "gic_v3_handle_irq hw s = (case s of (g, h) \<Rightarrow>
     (case rsys hw ICC_IAR1_EL1 h of
        (iar, h1) \<Rightarrow>
          let irq = ucast iar :: u32 in
          if 1020 \<le> irq then (g, h1) else (g, wsys hw ICC_EOIR1_EL1 (ucast irq) (run_handler g irq h1))))"

definition gic_v3_ops :: "'h hw \<Rightarrow> ('h gic_state \<times> 'h, 'h) gic_ops" where
  "gic_v3_ops hw = \<lparr>go_irq_enable = Some (gic_v3_irq_enable hw), go_irq_disable = Some (gic_v3_irq_disable hw),
     go_irq_set_priority = Some (gic_v3_irq_set_priority hw), go_irq_set_type = Some (gic_v3_irq_set_type hw),
     go_irq_set_group = Some (gic_v3_irq_set_group hw), go_request_irq = Some gic_v3_request_irq,
     go_handle_irq = Some (gic_v3_handle_irq hw)\<rparr>"

section \<open>The timer\<close>

definition TICK_MS :: u64 where "TICK_MS = 10"

definition tick_interval :: "u64 \<Rightarrow> u64" where
  "tick_interval freq = freq div 1000 * TICK_MS"

definition generic_timer_tick_handler :: "'h hw \<Rightarrow> ('h \<Rightarrow> 'h) \<Rightarrow> 'h irq_handler" where
  "generic_timer_tick_handler hw thread_tick irq dev_id h =
     (case rsys hw CNTFRQ_EL0 h of (freq, h1) \<Rightarrow> thread_tick (wsys hw CNTP_TVAL_EL0 (tick_interval freq) h1))"

text \<open>The controller may be either one or missing.\<close>

definition on_hw :: "('h \<Rightarrow> 'h) \<Rightarrow> 'g \<times> 'h \<Rightarrow> 'g \<times> 'h" where
  "on_hw f s = (fst s, f (snd s))"

definition generic_timer_probe ::
    "'h hw \<Rightarrow> ('h \<Rightarrow> 'h) \<Rightarrow> ('g \<times> 'h, 'h) gic_ops option \<Rightarrow> platform_device \<Rightarrow> 'g \<times> 'h \<Rightarrow> int \<times> 'g \<times> 'h" where
  "generic_timer_probe hw thread_tick ops pdev s =
     (case rsys hw CNTFRQ_EL0 (wsys hw CNTKCTL_EL1 (1 OR 2) (snd s)) of
        (freq, h1) \<Rightarrow>
          let irq = of_int (platform_get_irq pdev 1) :: u32 in
          if freq = 0 then (- errno_val ENODEV, fst s, h1)
          else if irq = 0 then (- errno_val ENOENT, fst s, h1)
          else (case request_irq ops irq (Some (generic_timer_tick_handler hw thread_tick)) 0 (fst s, h1) of
                  (r, s1) \<Rightarrow>
                    if r \<noteq> 0 then (- errno_val EINVAL, s1)
                    else (case enable_irq ops irq
                            (on_hw (\<lambda>h. wsys hw CNTP_CTL_EL0 1 (wsys hw CNTP_TVAL_EL0 (tick_interval freq) h)) s1) of
                            (r2, s2) \<Rightarrow> (if r2 \<noteq> 0 then - errno_val EINVAL else 0, s2))))"

section \<open>Dispatch\<close>

text \<open>
  What the kernel relies on: a table of handlers, and a dispatcher that acknowledges one interrupt, runs its
  handler and signals the end of it. Both controllers provide it.
\<close>

definition set_handler :: "u32 \<Rightarrow> 'h irq_handler option \<Rightarrow> u64 \<Rightarrow> 'h gic_state \<Rightarrow> 'h gic_state" where
  "set_handler irq f x g = g\<lparr>g_handlers := (g_handlers g)[unat irq := f], g_handler_data := (g_handler_data g)[unat irq := x]\<rparr>"

definition tables_ok :: "'h gic_state \<Rightarrow> bool" where
  "tables_ok g \<longleftrightarrow> length (g_handlers g) = 1020 \<and> length (g_handler_data g) = 1020"

locale irq_chip =
  fixes request :: "u32 \<Rightarrow> 'h irq_handler option \<Rightarrow> u64 \<Rightarrow> 'h gic_state \<times> 'h \<Rightarrow> int \<times> 'h gic_state \<times> 'h"
    and dispatch :: "'h gic_state \<times> 'h \<Rightarrow> 'h gic_state \<times> 'h"
    and ack :: "'h gic_state \<Rightarrow> 'h \<Rightarrow> u32 \<times> 'h"
    and eoi :: "'h gic_state \<Rightarrow> u32 \<Rightarrow> 'h \<Rightarrow> 'h"
  assumes request_law: "request irq f x (g, h) =
      (if 1020 \<le> irq then (- errno_val EINVAL, g, h) else (0, set_handler irq f x g, h))"
    and dispatch_law: "dispatch (g, h) =
      (case ack g h of (irq, h1) \<Rightarrow> if 1020 \<le> irq then (g, h1) else (g, eoi g irq (run_handler g irq h1)))"
    and frame: "ack (set_handler irq f x g) = ack g" "eoi (set_handler irq f x g) = eoi g"
begin

definition requests :: "(u32 \<times> 'h irq_handler option \<times> u64) list \<Rightarrow> 'h gic_state \<times> 'h \<Rightarrow> 'h gic_state \<times> 'h" where
  "requests rs s = fold (\<lambda>(irq, f, x) s. snd (request irq f x s)) rs s"

lemma requests_state:
  "tables_ok g \<Longrightarrow> \<exists>g'. requests rs (g, h) = (g', h) \<and> tables_ok g' \<and> ack g' = ack g \<and> eoi g' = eoi g \<and>
    (\<forall>irq < 1020. (g_handlers g' ! unat irq, g_handler_data g' ! unat irq) =
      (case map_of (rev rs) irq of Some fx \<Rightarrow> fx | None \<Rightarrow> (g_handlers g ! unat irq, g_handler_data g ! unat irq)))"
proof (induction rs rule: rev_induct)
  case Nil
  then show ?case by (simp add: requests_def)
next
  case (snoc r rs)
  obtain irq f x where r: "r = (irq, f, x)" by (cases r) auto
  obtain g1 where g1: "requests rs (g, h) = (g1, h)" "tables_ok g1" "ack g1 = ack g" "eoi g1 = eoi g"
    "\<forall>irq < 1020. (g_handlers g1 ! unat irq, g_handler_data g1 ! unat irq) =
      (case map_of (rev rs) irq of Some fx \<Rightarrow> fx | None \<Rightarrow> (g_handlers g ! unat irq, g_handler_data g ! unat irq))"
    using snoc by blast
  have s: "requests (rs @ [r]) (g, h) = snd (request irq f x (g1, h))" using g1(1) r by (simp add: requests_def)
  show ?case
  proof (cases "1020 \<le> irq")
    case True
    then show ?thesis using g1 s r by (intro exI [of _ g1]) (auto simp: request_law)
  next
    case False
    then have l: "unat irq < 1020" by (simp add: word_le_nat_alt)
    have "(g_handlers (set_handler irq f x g1) ! unat i, g_handler_data (set_handler irq f x g1) ! unat i) =
      (case map_of (rev (rs @ [r])) i of Some fx \<Rightarrow> fx | None \<Rightarrow> (g_handlers g ! unat i, g_handler_data g ! unat i))"
      if "i < 1020" for i
    proof (cases "i = irq")
      case True
      then show ?thesis using g1(2) l r by (simp add: set_handler_def tables_ok_def)
    next
      case False
      then have "unat i \<noteq> unat irq" by (simp add: word_unat_eq_iff)
      then show ?thesis using g1(5) that r False by (simp add: set_handler_def)
    qed
    moreover have "tables_ok (set_handler irq f x g1)" using g1(2) by (simp add: tables_ok_def set_handler_def)
    ultimately show ?thesis using g1(3,4) s False by (intro exI [of _ "set_handler irq f x g1"]) (simp add: request_law frame)
  qed
qed

lemma dispatch_last_request:
  assumes "tables_ok g" and "ack g h = (irq, h1)" and "irq < 1020"
  shows "snd (dispatch (requests rs (g, h))) =
    eoi g irq (case map_of (rev rs) irq of
                 None \<Rightarrow> run_handler g irq h1
               | Some (None, x) \<Rightarrow> h1
               | Some (Some f, x) \<Rightarrow> f irq x h1)"
proof -
  obtain g' where g': "requests rs (g, h) = (g', h)" "ack g' = ack g" "eoi g' = eoi g"
    "(g_handlers g' ! unat irq, g_handler_data g' ! unat irq) =
      (case map_of (rev rs) irq of Some fx \<Rightarrow> fx | None \<Rightarrow> (g_handlers g ! unat irq, g_handler_data g ! unat irq))"
    using requests_state [OF assms(1), of rs h] assms(3) by blast
  have "run_handler g' irq h1 = (case map_of (rev rs) irq of
                 None \<Rightarrow> run_handler g irq h1 | Some (None, x) \<Rightarrow> h1 | Some (Some f, x) \<Rightarrow> f irq x h1)"
    using g'(4) by (auto simp: run_handler_def split: option.splits)
  moreover have "\<not> 1020 \<le> irq" using assms(3) by simp
  ultimately show ?thesis using g'(1-3) assms(2) by (simp only: dispatch_law split: if_split) simp
qed

lemma spurious_ignored:
  assumes "ack g h = (irq, h1)" and "1020 \<le> irq"
  shows "dispatch (g, h) = (g, h1)"
  using assms by (simp add: dispatch_law)

end

interpretation v2: irq_chip gic_v2_request_irq "gic_v2_handle_irq hw" "\<lambda>g. r32 hw (reg (g_gicx_base g) GICC_IAR)"
  "\<lambda>g. w32 hw (reg (g_gicx_base g) GICC_EOIR)" for hw :: "'h hw"
  by unfold_locales
    (auto simp: gic_v2_request_irq_def gic_request_def set_handler_def GIC_NR_IRQS_def gic_v2_handle_irq_def split: prod.splits)

interpretation v3: irq_chip gic_v3_request_irq "gic_v3_handle_irq hw"
  "\<lambda>g h. case rsys hw ICC_IAR1_EL1 h of (v, h1) \<Rightarrow> (ucast v, h1)" "\<lambda>g irq. wsys hw ICC_EOIR1_EL1 (ucast irq)" for hw :: "'h hw"
  by unfold_locales
    (auto simp: gic_v3_request_irq_def gic_request_def set_handler_def GIC_NR_IRQS_def gic_v3_handle_irq_def Let_def split: prod.splits)

text \<open>
  (C25) Whatever handlers have been requested before, in any order and also for invalid numbers, the dispatcher of
  either controller acknowledges one interrupt, runs exactly the handler requested last for its number with its
  argument, and then signals the end of that interrupt.
\<close>

theorem gic_handle_irq_correct:
  assumes "tables_ok g" and "irq < 1020"
  shows "(r32 hw (reg (g_gicx_base g) GICC_IAR) h = (irq, h1) \<longrightarrow>
      snd (gic_v2_handle_irq hw (fold (\<lambda>(i, f, x) s. snd (gic_v2_request_irq i f x s)) rs (g, h))) =
        w32 hw (reg (g_gicx_base g) GICC_EOIR) irq
          (case map_of (rev rs) irq of
             None \<Rightarrow> run_handler g irq h1 | Some (None, x) \<Rightarrow> h1 | Some (Some f, x) \<Rightarrow> f irq x h1)) \<and>
    (rsys hw ICC_IAR1_EL1 h = (ucast irq, h1) \<longrightarrow>
      snd (gic_v3_handle_irq hw (fold (\<lambda>(i, f, x) s. snd (gic_v3_request_irq i f x s)) rs (g, h))) =
        wsys hw ICC_EOIR1_EL1 (ucast irq)
          (case map_of (rev rs) irq of
             None \<Rightarrow> run_handler g irq h1 | Some (None, x) \<Rightarrow> h1 | Some (Some f, x) \<Rightarrow> f irq x h1))"
proof (intro conjI impI)
  assume "r32 hw (reg (g_gicx_base g) GICC_IAR) h = (irq, h1)"
  from v2.dispatch_last_request [of g hw h, OF assms(1) this assms(2), of rs] show
    "snd (gic_v2_handle_irq hw (fold (\<lambda>(i, f, x) s. snd (gic_v2_request_irq i f x s)) rs (g, h))) =
        w32 hw (reg (g_gicx_base g) GICC_EOIR) irq
          (case map_of (rev rs) irq of
             None \<Rightarrow> run_handler g irq h1 | Some (None, x) \<Rightarrow> h1 | Some (Some f, x) \<Rightarrow> f irq x h1)"
    by (simp add: v2.requests_def)
next
  assume "rsys hw ICC_IAR1_EL1 h = (ucast irq, h1)"
  then have "(case rsys hw ICC_IAR1_EL1 h of (v, h1) \<Rightarrow> (ucast v, h1)) = (irq, h1)" by (simp add: ucast_down_ucast_id is_down)
  from v3.dispatch_last_request [of g hw h, OF assms(1) this assms(2), of rs] show
    "snd (gic_v3_handle_irq hw (fold (\<lambda>(i, f, x) s. snd (gic_v3_request_irq i f x s)) rs (g, h))) =
        wsys hw ICC_EOIR1_EL1 (ucast irq)
          (case map_of (rev rs) irq of
             None \<Rightarrow> run_handler g irq h1 | Some (None, x) \<Rightarrow> h1 | Some (Some f, x) \<Rightarrow> f irq x h1)"
    by (simp add: v3.requests_def)
qed

text \<open>A controller whose state is a log: reads acknowledge interrupt 30, writes are recorded.\<close>

definition log_hw :: "(u64 \<times> u64) list hw" where
  "log_hw = \<lparr>r8 = (\<lambda>a h. (0, h)), r16 = (\<lambda>a h. (0, h)), r32 = (\<lambda>a h. (30, h)), r64 = (\<lambda>a h. (30, h)),
     w8 = (\<lambda>a v h. h), w16 = (\<lambda>a v h. h), w32 = (\<lambda>a v h. (a, ucast v) # h), w64 = (\<lambda>a v h. h),
     rsys = (\<lambda>r h. (30, h)), wsys = (\<lambda>r v h. (0, v) # h)\<rparr>"

definition gic_idle :: "(u64 \<times> u64) list gic_state" where
  "gic_idle = \<lparr>g_gicd_base = 0, g_gicx_base = 0x1000, g_nr_spis = 0, g_handlers = replicate 1020 None, g_handler_data = replicate 1020 0\<rparr>"

theorem gic_handle_irq_witness:
  "snd (gic_v2_handle_irq log_hw (fold (\<lambda>(i, f, x) s. snd (gic_v2_request_irq i f x s))
     [(30, Some (\<lambda>irq x h. (ucast irq, x) # h), 7)] (gic_idle, []))) = [(0x1010, 30), (30, 7)]"
  using gic_handle_irq_correct [of gic_idle 30 log_hw "[]" "[]" "[(30, Some (\<lambda>irq x h. (ucast irq, x) # h), 7)]"]
  by (simp add: tables_ok_def gic_idle_def log_hw_def reg_def GICC_EOIR_def)

section \<open>Enabling and disabling\<close>

text \<open>
  The enable registers as the architecture defines them: the set-enable and the clear-enable registers both
  read as the interrupts that are enabled, and a one written to them enables or disables.
\<close>

definition enable_regs :: "'h hw \<Rightarrow> u64 \<Rightarrow> ('h \<Rightarrow> u32 \<Rightarrow> u32) \<Rightarrow> bool" where
  "enable_regs hw base en \<longleftrightarrow>
     (\<forall>n h v. n < 32 \<longrightarrow>
        r32 hw (reg base (GICD_ISENABLER + n * 4)) h = (en h n, h) \<and>
        r32 hw (reg base (GICD_ICENABLER + n * 4)) h = (en h n, h) \<and>
        en (w32 hw (reg base (GICD_ISENABLER + n * 4)) v h) = (en h)(n := en h n OR v) \<and>
        en (w32 hw (reg base (GICD_ICENABLER + n * 4)) v h) = (en h)(n := en h n AND NOT v))"

lemma irq_word_index: "irq < 1020 \<Longrightarrow> irq div 32 < (32 :: u32)"
  by (simp add: word_less_nat_alt unat_div div_less_iff_less_mult)

lemma gicd_enable_exact:
  assumes "enable_regs hw base en" and "irq < 1020"
  shows "en (gicd_enable_irq hw base irq h) = (en h)(irq div 32 := en h (irq div 32) OR irq_mask irq)"
  using assms irq_word_index [OF assms(2)]
  by (simp add: gicd_enable_irq_def gic_irq_bit_op32_def rmw32_def irq_word_def enable_regs_def)

text \<open>
  Disabling reads the clear-enable register and writes it back with one more bit: that disables every
  interrupt that was enabled in this word.
\<close>

lemma gicd_disable_whole_word:
  assumes "enable_regs hw base en" and "irq < 1020"
  shows "en (gicd_disable_irq hw base irq h) = (en h)(irq div 32 := 0)"
proof -
  have "v AND NOT (v OR m) = 0" for v m :: u32
    by (rule bit_word_eqI) (auto simp: bit_simps)
  then show ?thesis
    using assms irq_word_index [OF assms(2)]
    by (simp add: gicd_disable_irq_def gic_irq_bit_op32_def rmw32_def irq_word_def enable_regs_def)
qed

end
