(* ===== verification/Uart.thy ===== *)
theory Uart
  imports Thread Gic CString
begin

text \<open>
  The serial line (\<open>kernel/driver/console/uart.c\<close>) and the kernel log (\<open>kernel/core/klog/printk.c\<close>). The
  state of the driver extends that of the threads, since a reader blocks on a wait queue. The registers of
  the PL011 are reached through \<open>Hw\<close>. \<open>None\<close> is a device that never becomes ready, or undefined behaviour.
\<close>

section \<open>Registers and state\<close>

definition UART_DR :: u64 where "UART_DR = 0x00"
definition UART_FR :: u64 where "UART_FR = 0x18"
definition UART_CR :: u64 where "UART_CR = 0x30"
definition UART_IMSC :: u64 where "UART_IMSC = 0x38"
definition UART_ICR :: u64 where "UART_ICR = 0x44"
definition UART_CR_UARTEN :: u32 where "UART_CR_UARTEN = push_bit 0 1"
definition UART_CR_TXE :: u32 where "UART_CR_TXE = push_bit 8 1"
definition UART_CR_RXE :: u32 where "UART_CR_RXE = push_bit 9 1"
definition UART_FR_RXFE :: u32 where "UART_FR_RXFE = push_bit 4 1"
definition UART_FR_TXFF :: u32 where "UART_FR_TXFF = push_bit 5 1"
definition UART_IMSC_RXIM :: u32 where "UART_IMSC_RXIM = push_bit 4 1"
definition UART_IMSC_RTIM :: u32 where "UART_IMSC_RTIM = push_bit 6 1"
definition UART_ICR_RXIC :: u32 where "UART_ICR_RXIC = push_bit 4 1"
definition UART_ICR_RTIC :: u32 where "UART_ICR_RTIC = push_bit 6 1"
definition UART_RX_BUF_SIZE :: u32 where "UART_RX_BUF_SIZE = 64"

record rx_ring =
  g_uart_rx_buf :: bytes
  g_uart_rx_head :: u32
  g_uart_rx_tail :: u32

record 'h uart_state = core_state +
  ut_hw :: 'h
  g_uart_base :: u64
  ut_ring :: rx_ring
  g_uart_rx_wq :: cap_t

section \<open>Output\<close>

definition uart_wait_tx :: "'h hw \<Rightarrow> u64 \<Rightarrow> 'h \<Rightarrow> 'h option" where
  "uart_wait_tx hw base = poll32 hw (base + UART_FR) (\<lambda>v. v AND UART_FR_TXFF = 0)"

definition uart_putc :: "'h hw \<Rightarrow> u64 \<Rightarrow> u8 \<Rightarrow> 'h \<Rightarrow> 'h option" where
  "uart_putc hw base c h =
     (if base = 0 then Some h
      else do {
        h1 \<leftarrow> uart_wait_tx hw base h;
        h2 \<leftarrow> (if c = 10 then uart_wait_tx hw base (w32 hw (base + UART_DR) 13 h1) else Some h1);
        Some (w32 hw (base + UART_DR) (ucast c) h2) })"

partial_function (option) uart_puts :: "'h hw \<Rightarrow> u64 \<Rightarrow> bytes \<Rightarrow> nat \<Rightarrow> 'h \<Rightarrow> 'h option" where
  "uart_puts hw base m str h = do {
     c \<leftarrow> rd m str;
     if c = 0 then Some h else do { h' \<leftarrow> uart_putc hw base c h; uart_puts hw base m (str + 1) h' } }"

text \<open>The format and the strings are in \<open>m\<close>; the buffer of 128 bytes on the stack follows it here.\<close>

definition MAX_BUF_LEN :: nat where "MAX_BUF_LEN = 128"

definition printk :: "'h hw \<Rightarrow> u64 \<Rightarrow> bytes \<Rightarrow> nat \<Rightarrow> vararg list \<Rightarrow> 'h \<Rightarrow> 'h option" where
  "printk hw base m fmt args h = do {
     m' \<leftarrow> vsprintf (m @ replicate MAX_BUF_LEN 0) (length m) (Some fmt) args;
     uart_puts hw base m' (length m) h }"

section \<open>Input\<close>

definition uart_rx_ready :: "'h hw \<Rightarrow> u64 \<Rightarrow> 'h \<Rightarrow> bool \<times> 'h" where
  "uart_rx_ready hw base h =
     (if base = 0 then (False, h)
      else (case r32 hw (base + UART_FR) h of (v, h') \<Rightarrow> (v AND UART_FR_RXFE = 0, h')))"

definition uart_rx_buf_empty :: "rx_ring \<Rightarrow> bool" where
  "uart_rx_buf_empty r \<longleftrightarrow> g_uart_rx_head r = g_uart_rx_tail r"

definition uart_rx_buf_full :: "rx_ring \<Rightarrow> bool" where
  "uart_rx_buf_full r \<longleftrightarrow> (g_uart_rx_tail r + 1) mod UART_RX_BUF_SIZE = g_uart_rx_head r"

definition uart_rx_buf_push :: "u8 \<Rightarrow> rx_ring \<Rightarrow> rx_ring" where
  "uart_rx_buf_push c r =
     (if uart_rx_buf_full r then r
      else r\<lparr>g_uart_rx_buf := (g_uart_rx_buf r)[unat (g_uart_rx_tail r) := c],
             g_uart_rx_tail := (g_uart_rx_tail r + 1) mod UART_RX_BUF_SIZE\<rparr>)"

definition uart_rx_buf_pop :: "rx_ring \<Rightarrow> int \<times> rx_ring" where
  "uart_rx_buf_pop r =
     (if uart_rx_buf_empty r then (- errno_val EAGAIN, r)
      else (uint (g_uart_rx_buf r ! unat (g_uart_rx_head r)),
            r\<lparr>g_uart_rx_head := (g_uart_rx_head r + 1) mod UART_RX_BUF_SIZE\<rparr>))"

partial_function (option) uart_drain :: "'h hw \<Rightarrow> u64 \<Rightarrow> rx_ring \<Rightarrow> 'h \<Rightarrow> (rx_ring \<times> 'h) option" where
  "uart_drain hw base r h =
     (case uart_rx_ready hw base h of
        (b, h1) \<Rightarrow>
          if b then (case r32 hw (base + UART_DR) h1 of (v, h2) \<Rightarrow> uart_drain hw base (uart_rx_buf_push (ucast v) r) h2)
          else Some (r, h1))"

definition uart_irq_handler :: "'h hw \<Rightarrow> ('h, 'x) uart_state_scheme \<Rightarrow> ('h, 'x) uart_state_scheme option" where
  "uart_irq_handler hw s = do {
     (r, h) \<leftarrow> uart_drain hw (g_uart_base s) (ut_ring s) (ut_hw s);
     let h' = w32 hw (g_uart_base s + UART_ICR) (UART_ICR_RXIC OR UART_ICR_RTIC) h;
     (c, s') \<leftarrow> wake_up (g_uart_rx_wq s) (s\<lparr>ut_ring := r, ut_hw := h'\<rparr>);
     Some (s'\<lparr>g_uart_rx_wq := c\<rparr>) }"

text \<open>
  One turn of the wait in \<open>uart_getc\<close>: the character, or \<open>None\<close> for a thread that has blocked itself and
  calls \<open>schedule\<close> next.
\<close>

definition uart_getc :: "('h, 'x) uart_state_scheme \<Rightarrow> (u8 option \<times> ('h, 'x) uart_state_scheme) option" where
  "uart_getc s =
     (if g_uart_base s = 0 then Some (Some 0, s)
      else do {
        (over, c, s1) \<leftarrow> wait_event_step (\<lambda>k. \<not> uart_rx_buf_empty (ut_ring k)) s;
        let s2 = s1\<lparr>g_uart_rx_wq := c\<rparr>;
        Some (if over then (case uart_rx_buf_pop (ut_ring s2) of (ch, r) \<Rightarrow> (Some (of_int ch), s2\<lparr>ut_ring := r\<rparr>))
              else (None, s2)) })"

section \<open>Probing\<close>

text \<open>Mapping of registers, requesting and enabling of the interrupt are arguments.\<close>

definition uart_probe ::
    "'h hw \<Rightarrow> (u64 \<Rightarrow> u64 \<Rightarrow> ('h, 'x) uart_state_scheme \<Rightarrow> u64 \<times> ('h, 'x) uart_state_scheme) \<Rightarrow>
     (u32 \<Rightarrow> ('h, 'x) uart_state_scheme \<Rightarrow> int \<times> ('h, 'x) uart_state_scheme) \<Rightarrow>
     (u32 \<Rightarrow> ('h, 'x) uart_state_scheme \<Rightarrow> int \<times> ('h, 'x) uart_state_scheme) \<Rightarrow>
     platform_device \<Rightarrow> ('h, 'x) uart_state_scheme \<Rightarrow> int \<times> ('h, 'x) uart_state_scheme" where
  "uart_probe hw ioremap request enable pdev s =
     (case platform_get_resource pdev IORESOURCE_MEM 0 of
        None \<Rightarrow> (- errno_val ENOENT, s)
      | Some res \<Rightarrow>
          (case ioremap (rs_start res) (resource_size (Some res)) s of
             (base, s1) \<Rightarrow>
               let s2 = s1\<lparr>g_uart_base := base\<rparr> in
               if base = 0 then (- errno_val ENOMEM, s2)
               else
                 let s3 = s2\<lparr>ut_hw := w32 hw (base + UART_CR) (UART_CR_UARTEN OR UART_CR_TXE OR UART_CR_RXE) (ut_hw s2)\<rparr>;
                     irq = platform_get_irq pdev 0
                 in
                 if irq \<le> 0 then (- errno_val ENOENT, s3)
                 else (case request (of_int irq) s3 of
                         (r1, s4) \<Rightarrow>
                           if r1 \<noteq> 0 then (- errno_val EINVAL, s4)
                           else (case enable (of_int irq) s4 of
                                   (r2, s5) \<Rightarrow>
                                     if r2 \<noteq> 0 then (- errno_val EINVAL, s5)
                                     else (0, s5\<lparr>ut_hw := w32 hw (g_uart_base s5 + UART_IMSC)
                                                 (UART_IMSC_RXIM OR UART_IMSC_RTIM) (ut_hw s5)\<rparr>)))))"

definition uart_remove :: "'h hw \<Rightarrow> ('h, 'x) uart_state_scheme \<Rightarrow> int \<times> ('h, 'x) uart_state_scheme" where
  "uart_remove hw s =
     (0, (if g_uart_base s \<noteq> 0 then s\<lparr>ut_hw := w32 hw (g_uart_base s + UART_CR) 0 (ut_hw s)\<rparr> else s)\<lparr>g_uart_base := 0\<rparr>)"

definition uart_of_match :: "cstr list" where
  "uart_of_match = [cstr_of ''arm,pl011'', cstr_of ''arm,pl011-axi'']"

definition uart_driver ::
    "'h hw \<Rightarrow> (u64 \<Rightarrow> u64 \<Rightarrow> ('h, 'x) uart_state_scheme \<Rightarrow> u64 \<times> ('h, 'x) uart_state_scheme) \<Rightarrow>
     (u32 \<Rightarrow> ('h, 'x) uart_state_scheme \<Rightarrow> int \<times> ('h, 'x) uart_state_scheme) \<Rightarrow>
     (u32 \<Rightarrow> ('h, 'x) uart_state_scheme \<Rightarrow> int \<times> ('h, 'x) uart_state_scheme) \<Rightarrow>
     ('h, 'x) uart_state_scheme platform_driver" where
  "uart_driver hw ioremap request enable =
     \<lparr>pr_of_match = Some uart_of_match, pr_probe = Some (uart_probe hw ioremap request enable),
      pr_remove = Some (\<lambda>_. uart_remove hw)\<rparr>"

section \<open>The receive buffer is a bounded queue\<close>

text \<open>
  A queue of at most \<open>room\<close> entries: a full one drops what is put, an empty one answers \<open>none\<close>. A client
  gives a sequence of operations, \<open>Some x\<close> to put \<open>x\<close> and \<open>None\<close> to get.
\<close>

fun queue_run :: "nat \<Rightarrow> 'b \<Rightarrow> ('a \<Rightarrow> 'b) \<Rightarrow> 'a option list \<Rightarrow> 'a list \<Rightarrow> 'b list \<times> 'a list" where
  "queue_run room none f [] q = ([], q)"
| "queue_run room none f (Some x # ops) q = queue_run room none f ops (if length q < room then q @ [x] else q)"
| "queue_run room none f (None # ops) q =
     (case queue_run room none f ops (tl q) of (ys, q') \<Rightarrow> ((case q of [] \<Rightarrow> none | x # _ \<Rightarrow> f x) # ys, q'))"

fun fifo_run :: "('a \<Rightarrow> 's \<Rightarrow> 's) \<Rightarrow> ('s \<Rightarrow> 'b \<times> 's) \<Rightarrow> 'a option list \<Rightarrow> 's \<Rightarrow> 'b list \<times> 's" where
  "fifo_run put get [] s = ([], s)"
| "fifo_run put get (Some x # ops) s = fifo_run put get ops (put x s)"
| "fifo_run put get (None # ops) s =
     (case fifo_run put get ops (snd (get s)) of (ys, s') \<Rightarrow> (fst (get s) # ys, s'))"

locale bounded_fifo =
  fixes ok :: "'s \<Rightarrow> bool" and items :: "'s \<Rightarrow> 'a list" and put :: "'a \<Rightarrow> 's \<Rightarrow> 's" and get :: "'s \<Rightarrow> 'b \<times> 's"
    and room :: nat and none :: 'b and out :: "'a \<Rightarrow> 'b"
  assumes put_ok: "ok s \<Longrightarrow> ok (put x s)"
    and put_items: "ok s \<Longrightarrow> items (put x s) = (if length (items s) < room then items s @ [x] else items s)"
    and get_ok: "ok s \<Longrightarrow> ok (snd (get s))"
    and get_items: "ok s \<Longrightarrow> items (snd (get s)) = tl (items s)"
    and get_out: "ok s \<Longrightarrow> fst (get s) = (case items s of [] \<Rightarrow> none | x # _ \<Rightarrow> out x)"
begin

lemma run_refines:
  assumes "ok s" and "fifo_run put get ops s = (ys, s')"
  shows "ok s' \<and> queue_run room none out ops (items s) = (ys, items s')"
  using assms
proof (induction ops arbitrary: s ys)
  case (Cons a ops)
  show ?case
  proof (cases a)
    case None
    then obtain zs where "fifo_run put get ops (snd (get s)) = (zs, s')" and "ys = fst (get s) # zs"
      using Cons.prems(2) by (auto split: prod.splits)
    then show ?thesis
      using Cons.IH [OF get_ok [OF Cons.prems(1)]] None by (simp add: get_items get_out Cons.prems(1))
  next
    case (Some x)
    then show ?thesis
      using Cons.IH [OF put_ok [OF Cons.prems(1)]] Cons.prems by (simp add: put_items)
  qed
qed simp

lemma puts_items: "ok s \<Longrightarrow> ok (fold put xs s) \<and> items (fold put xs s) = items s @ take (room - length (items s)) xs"
proof (induction xs arbitrary: s)
  case (Cons x xs)
  then show ?case
    using Cons.IH [OF put_ok [OF Cons.prems], of x]
    by (cases "length (items s) < room") (simp_all add: put_items take_Cons' Suc_diff_Suc not_less)
qed simp

end

definition rx_ok :: "rx_ring \<Rightarrow> bool" where
  "rx_ok r \<longleftrightarrow> length (g_uart_rx_buf r) = 64 \<and> g_uart_rx_head r < 64 \<and> g_uart_rx_tail r < 64"

definition rx_count :: "rx_ring \<Rightarrow> nat" where
  "rx_count r = (unat (g_uart_rx_tail r) + 64 - unat (g_uart_rx_head r)) mod 64"

definition rx_list :: "rx_ring \<Rightarrow> bytes" where
  "rx_list r = map (\<lambda>i. g_uart_rx_buf r ! ((unat (g_uart_rx_head r) + i) mod 64)) [0..<rx_count r]"

lemma rx_bounds: "rx_ok r \<Longrightarrow> unat (g_uart_rx_head r) < 64 \<and> unat (g_uart_rx_tail r) < 64 \<and> rx_count r < 64"
  by (simp add: rx_ok_def rx_count_def word_less_nat_alt)

lemma rx_next:
  fixes i :: u32
  assumes "i < 64"
  shows "unat ((i + 1) mod 64) = (unat i + 1) mod 64"
proof -
  have "unat i < 64" using assms by (simp add: word_less_nat_alt)
  then have "unat (i + 1) = unat i + 1" by (simp add: unat_word_ariths)
  then show ?thesis by (simp add: unat_mod)
qed

lemma ring_diff:
  fixes a b :: nat
  assumes "a < 64" and "b < 64"
  shows "(b + 64 - a) mod 64 = (if a \<le> b then b - a else b + 64 - a)"
proof (cases "a \<le> b")
  case True
  then have "b + 64 - a = b - a + 64" by simp
  then have "(b + 64 - a) mod 64 = (b - a) mod 64" by (metis mod_add_self2)
  then show ?thesis using True assms by simp
qed (use assms in simp)

lemma ring_plus:
  fixes a i :: nat
  assumes "a < 64" and "i < 64"
  shows "(a + i) mod 64 = (if a + i < 64 then a + i else a + i - 64)"
  using assms by (simp add: mod_if)

lemma ring_put:
  fixes x y :: nat
  assumes "x < 64" and "y < 64" and "(y + 64 - x) mod 64 < 63"
  shows "((y + 1) mod 64 + 64 - x) mod 64 = (y + 64 - x) mod 64 + 1"
proof (cases "y = 63")
  case True
  have "(y + 1) mod 64 = 0" using True by simp
  moreover have "x \<noteq> 0" using assms(3) True by (cases "x = 0") simp_all
  ultimately show ?thesis using assms True ring_diff [of x 0] ring_diff [of x 63] by auto
next
  case False
  then have y: "y + 1 < 64" and m: "(y + 1) mod 64 = y + 1" using assms by simp_all
  note f = ring_diff [OF assms(1,2)]
  have "x \<noteq> y + 1" using assms(3) y unfolding f by auto
  then show ?thesis unfolding m f ring_diff [OF assms(1) y] using assms(1) by (cases "x \<le> y") simp_all
qed

lemma ring_get:
  fixes x y :: nat
  assumes "x < 64" and "y < 64" and "(y + 64 - x) mod 64 = Suc m"
  shows "(y + 64 - (x + 1) mod 64) mod 64 = m"
proof (cases "x = 63")
  case True
  then show ?thesis using assms ring_diff [of 0 y] ring_diff [of 63 y] by (simp split: if_splits)
next
  case False
  then have "(x + 1) mod 64 = x + 1" using assms by simp
  then show ?thesis using assms False ring_diff [of "x + 1" y] ring_diff [of x y] by (auto split: if_splits)
qed

lemma ring_pos:
  fixes h t :: nat
  assumes "h < 64" and "t < 64" and "i \<le> (t + 64 - h) mod 64"
  shows "(h + i) mod 64 = t \<longleftrightarrow> i = (t + 64 - h) mod 64"
proof -
  have "i < 64" using assms(3) mod_less_divisor [of 64 "t + 64 - h"] by linarith
  then show ?thesis using assms ring_diff [of h t] ring_plus [of h i] by (auto split: if_splits)
qed

lemma rx_empty: "rx_ok r \<Longrightarrow> uart_rx_buf_empty r \<longleftrightarrow> rx_count r = 0"
proof -
  have "(b + 64 - a) mod 64 = 0 \<longleftrightarrow> a = b" if "a < 64" "b < 64" for a b :: nat
    using that ring_diff [of a b] by auto
  then show "rx_ok r \<Longrightarrow> uart_rx_buf_empty r \<longleftrightarrow> rx_count r = 0"
    using rx_bounds [of r] by (simp add: uart_rx_buf_empty_def rx_count_def word_unat_eq_iff)
qed

lemma rx_full: "rx_ok r \<Longrightarrow> uart_rx_buf_full r \<longleftrightarrow> rx_count r = 63"
proof -
  have "(b + 64 - a) mod 64 = 63 \<longleftrightarrow> (b + 1) mod 64 = a" if "a < 64" "b < 64" for a b :: nat
    using that ring_plus [of b 1] by (simp add: ring_diff) linarith
  then show "rx_ok r \<Longrightarrow> uart_rx_buf_full r \<longleftrightarrow> rx_count r = 63"
    using rx_bounds [of r]
    by (simp add: uart_rx_buf_full_def rx_count_def word_unat_eq_iff rx_next UART_RX_BUF_SIZE_def rx_ok_def)
qed

lemma rx_length [simp]: "length (rx_list r) = rx_count r"
  by (simp add: rx_list_def)

lemma rx_push:
  assumes "rx_ok r"
  shows "rx_ok (uart_rx_buf_push c r)"
    and "rx_list (uart_rx_buf_push c r) = (if length (rx_list r) < 63 then rx_list r @ [c] else rx_list r)"
proof -
  note b = rx_bounds [OF assms]
  show "rx_ok (uart_rx_buf_push c r)"
    using assms b by (auto simp: uart_rx_buf_push_def rx_ok_def UART_RX_BUF_SIZE_def word_less_nat_alt rx_next)
  show "rx_list (uart_rx_buf_push c r) = (if length (rx_list r) < 63 then rx_list r @ [c] else rx_list r)"
  proof (cases "uart_rx_buf_full r")
    case True
    then show ?thesis using rx_full [OF assms] by (simp add: uart_rx_buf_push_def)
  next
    case False
    let ?h = "unat (g_uart_rx_head r)" and ?t = "unat (g_uart_rx_tail r)" and ?n = "rx_count r"
    have n: "?n < 63" using False rx_full [OF assms] b by linarith
    have len: "length (g_uart_rx_buf r) = 64" and tl: "g_uart_rx_tail r < 64" using assms by (auto simp: rx_ok_def)
    have cnt: "rx_count (uart_rx_buf_push c r) = ?n + 1"
    proof -
      have "((?t + 1) mod 64 + 64 - ?h) mod 64 = ?n + 1" using ring_put [of ?h ?t] b n by (simp add: rx_count_def)
      then show ?thesis using n b False tl by (simp add: rx_count_def uart_rx_buf_push_def UART_RX_BUF_SIZE_def rx_next)
    qed
    have pos: "(?h + i) mod 64 = ?t \<longleftrightarrow> i = ?n" if "i \<le> ?n" for i
      using that b ring_pos [of ?h ?t i] by (simp add: rx_count_def)
    have "rx_list (uart_rx_buf_push c r) = map (\<lambda>i. (g_uart_rx_buf r)[?t := c] ! ((?h + i) mod 64)) [0..<?n + 1]"
      unfolding rx_list_def cnt using False by (simp add: uart_rx_buf_push_def)
    also have "\<dots> = rx_list r @ [c]"
    proof -
      have at: "(g_uart_rx_buf r)[?t := c] ! ((?h + i) mod 64) =
          (if i = ?n then c else g_uart_rx_buf r ! ((?h + i) mod 64))" if "i \<le> ?n" for i
        using pos [OF that] len b by (auto simp: nth_list_update)
      show ?thesis using at by (simp add: rx_list_def)
    qed
    finally show ?thesis using n by simp
  qed
qed

lemma rx_pop:
  assumes "rx_ok r"
  shows "rx_ok (snd (uart_rx_buf_pop r))" and "rx_list (snd (uart_rx_buf_pop r)) = tl (rx_list r)"
    and "fst (uart_rx_buf_pop r) = (case rx_list r of [] \<Rightarrow> - errno_val EAGAIN | x # _ \<Rightarrow> uint x)"
proof -
  note b = rx_bounds [OF assms]
  let ?h = "unat (g_uart_rx_head r)" and ?n = "rx_count r"
  have hd: "g_uart_rx_head r < 64" using assms by (simp add: rx_ok_def)
  show "rx_ok (snd (uart_rx_buf_pop r))"
    using assms b by (auto simp: uart_rx_buf_pop_def rx_ok_def UART_RX_BUF_SIZE_def word_less_nat_alt rx_next)
  have "rx_list (snd (uart_rx_buf_pop r)) = tl (rx_list r) \<and>
      fst (uart_rx_buf_pop r) = (case rx_list r of [] \<Rightarrow> - errno_val EAGAIN | x # _ \<Rightarrow> uint x)"
  proof (cases ?n)
    case 0
    then have "rx_list r = []" by (simp add: rx_list_def)
    then show ?thesis using rx_empty [OF assms] 0 by (simp add: uart_rx_buf_pop_def)
  next
    case (Suc m)
    then have ne: "\<not> uart_rx_buf_empty r" using rx_empty [OF assms] by simp
    have cnt: "rx_count (snd (uart_rx_buf_pop r)) = m"
    proof -
      have "(unat (g_uart_rx_tail r) + 64 - (?h + 1) mod 64) mod 64 = m"
        using ring_get [of ?h "unat (g_uart_rx_tail r)" m] b Suc by (simp add: rx_count_def)
      then show ?thesis using Suc b ne hd by (simp add: rx_count_def uart_rx_buf_pop_def UART_RX_BUF_SIZE_def rx_next)
    qed
    have "rx_list (snd (uart_rx_buf_pop r)) = map (\<lambda>i. g_uart_rx_buf r ! (((?h + 1) mod 64 + i) mod 64)) [0..<m]"
      unfolding rx_list_def cnt using ne hd by (simp add: uart_rx_buf_pop_def rx_next UART_RX_BUF_SIZE_def)
    also have "\<dots> = map (\<lambda>i. g_uart_rx_buf r ! ((?h + i) mod 64)) (map Suc [0..<m])"
      by (simp add: mod_add_left_eq add.assoc del: map_Suc_upt)
    finally have "rx_list (snd (uart_rx_buf_pop r)) = map (\<lambda>i. g_uart_rx_buf r ! ((?h + i) mod 64)) [Suc 0..<Suc m]"
      by (simp add: map_Suc_upt)
    moreover have "rx_list r = g_uart_rx_buf r ! ?h # map (\<lambda>i. g_uart_rx_buf r ! ((?h + i) mod 64)) [Suc 0..<Suc m]"
      unfolding rx_list_def Suc using b by (subst upt_conv_Cons) auto
    ultimately show ?thesis using ne by (simp add: uart_rx_buf_pop_def)
  qed
  then show "rx_list (snd (uart_rx_buf_pop r)) = tl (rx_list r)"
    and "fst (uart_rx_buf_pop r) = (case rx_list r of [] \<Rightarrow> - errno_val EAGAIN | x # _ \<Rightarrow> uint x)" by auto
qed

interpretation rx: bounded_fifo rx_ok rx_list uart_rx_buf_push uart_rx_buf_pop 63 "- errno_val EAGAIN" uint
  by unfold_locales (simp_all add: rx_push rx_pop)

text \<open>
  (C29) The receive ring of the serial line is a queue: for every sequence of arriving bytes and reads, wrap-around
  included, the reads return the bytes in the order of their arrival, the ring drops exactly the bytes that
  arrive while 63 are waiting, and a read of the empty ring returns \<open>-EAGAIN\<close>.
\<close>

theorem uart_rx_fifo:
  assumes "rx_ok r" and "fifo_run uart_rx_buf_push uart_rx_buf_pop ops r = (ys, r')"
  shows "rx_ok r' \<and> queue_run 63 (- errno_val EAGAIN) uint ops (rx_list r) = (ys, rx_list r')"
  by (rule rx.run_refines [OF assms])

section \<open>A sleeping reader is woken\<close>

text \<open>What the device delivers to one run of the handler: bytes until its receive buffer is empty.\<close>

fun delivers :: "'h hw \<Rightarrow> u64 \<Rightarrow> bytes \<Rightarrow> 'h \<Rightarrow> 'h \<Rightarrow> bool" where
  "delivers hw base [] h h' \<longleftrightarrow> uart_rx_ready hw base h = (False, h')"
| "delivers hw base (x # xs) h h' \<longleftrightarrow>
     (case uart_rx_ready hw base h of
        (b, h1) \<Rightarrow> b \<and> (case r32 hw (base + UART_DR) h1 of (v, h2) \<Rightarrow> ucast v = x \<and> delivers hw base xs h2 h'))"

lemma uart_drain_delivers:
  "delivers hw base xs h h' \<Longrightarrow> uart_drain hw base r h = Some (fold uart_rx_buf_push xs r, h')"
  by (induction xs arbitrary: h r) (subst uart_drain.simps, force split: prod.splits)+

definition blocked :: "tid \<Rightarrow> 'x core_state_scheme \<Rightarrow> bool" where
  "blocked t s \<longleftrightarrow> se_state (se_of (co_sched s) t) = SCHED_BLOCKED"

text \<open>
  What happens while the thread \<open>t\<close> with the token \<open>c\<close> sleeps in \<open>uart_getc\<close>: the interrupt handler of the
  serial line, or any other step of the kernel. The latter does not touch the ring and the wait queue, does
  not block \<open>t\<close>, and, as the scheduler, does not leave a blocked thread current with interrupts enabled.
\<close>

inductive uart_step :: "'h hw \<Rightarrow> tid set \<Rightarrow> tid \<Rightarrow> cap_t \<Rightarrow> ('h, 'x) uart_state_scheme \<Rightarrow> ('h, 'x) uart_state_scheme \<Rightarrow> bool"
  for hw T t c where
  irq: "co_irq_on s \<Longrightarrow> uart_irq_handler hw s = Some s' \<Longrightarrow> uart_step hw T t c s s'"
| other: "ut_ring s' = ut_ring s \<Longrightarrow> g_uart_rx_wq s' = g_uart_rx_wq s \<Longrightarrow>
    cap_resolve (co_caps s') c CAP_R_CTL = Some t \<Longrightarrow> \<exists>Q. sched_inv T (co_sched s') Q \<Longrightarrow>
    (blocked t s' \<Longrightarrow> blocked t s) \<Longrightarrow>
    (blocked t s' \<Longrightarrow> co_irq_on s' \<Longrightarrow> current_thread (co_sched s') \<noteq> Some t) \<Longrightarrow> uart_step hw T t c s s'"

inductive_cases uart_stepE: "uart_step hw T t c s s'"

definition sleeping :: "tid set \<Rightarrow> tid \<Rightarrow> cap_t \<Rightarrow> ('h, 'x) uart_state_scheme \<Rightarrow> bool" where
  "sleeping T t c s \<longleftrightarrow>
     t \<in> T \<and> c \<noteq> CAP_NULL \<and> (\<exists>Q. sched_inv T (co_sched s) Q) \<and> cap_resolve (co_caps s) c CAP_R_CTL = Some t \<and>
     g_uart_rx_wq s \<in> {c, CAP_NULL} \<and>
     (blocked t s \<longrightarrow> g_uart_rx_wq s = c \<and> uart_rx_buf_empty (ut_ring s) \<and>
        (co_irq_on s \<longrightarrow> current_thread (co_sched s) \<noteq> Some t))"

lemma uart_getc_sleeps:
  assumes "uart_getc s = Some (None, s')" and "current_thread (co_sched s) = Some t" and "kt_cap (co_thread s t) = c"
    and "c \<noteq> CAP_NULL" and "cap_resolve (co_caps s) c CAP_R_CTL = Some t" and "sched_inv T (co_sched s) Q"
    and "idle_thread (co_sched s) \<noteq> Some t"
  shows "sleeping T t c s'"
proof -
  have "\<not> \<not> uart_rx_buf_empty (ut_ring s)" "s' = (thread_block_current (local_irq_disable s))\<lparr>g_uart_rx_wq := c\<rparr>"
    using assms(1-3)
    by (auto simp: uart_getc_def wait_event_step_def local_irq_disable_def thread_current_cap_def Let_def
        split: if_splits prod.splits)
  then show ?thesis
    using assms(2-7) sched_block_inv [OF assms(6)] current_not_idle(1) [OF assms(6,2)]
    by (auto simp: sleeping_def thread_block_current_def local_irq_disable_def blocked_def)
qed

lemma wake_cases:
  assumes "sched_inv T (co_sched s) Q" and "t \<in> T" and "cap_resolve (co_caps s) c CAP_R_CTL = Some t" and "w \<in> {c, CAP_NULL}"
    and "wake_up w s = Some (d, s')" and "c \<noteq> CAP_NULL"
  shows "d = CAP_NULL" and "co_caps s' = co_caps s" and "\<exists>Q. sched_inv T (co_sched s') Q"
    and "blocked t s' \<Longrightarrow> blocked t s \<and> (w = CAP_NULL \<or> current_thread (co_sched s) = Some t)"
proof -
  obtain s2 Q2 where w: "sched_wake (co_sched s) t = Some s2" "sched_inv T s2 Q2" using sched_wake_inv [OF assms(1,2)] by blast
  have s': "s' = (if w = CAP_NULL then s else s\<lparr>co_sched := s2\<rparr>) \<and> d = CAP_NULL"
    using assms(3-6) w
    by (auto simp: wake_up_def local_irq_save_def local_irq_restore_def local_irq_disable_def thread_wake_def split: if_splits)
  then show "d = CAP_NULL" and "co_caps s' = co_caps s" and "\<exists>Q. sched_inv T (co_sched s') Q"
    using w assms(1) by auto
  assume b: "blocked t s'"
  show "blocked t s \<and> (w = CAP_NULL \<or> current_thread (co_sched s) = Some t)"
  proof (cases "w = CAP_NULL \<or> current_thread (co_sched s) = Some t \<or> se_state (se_of (co_sched s) t) \<noteq> SCHED_BLOCKED")
    case True
    then show ?thesis using s' b w(1) by (auto simp: blocked_def sched_wake_def split: if_splits)
  next
    case False
    then have "s2 = enqueued (co_sched s) t" using sched_wake_blocked(1) [OF assms(1,2)] w(1) by auto
    then show ?thesis using s' b False by (auto simp: blocked_def enqueued_def upd_se_def)
  qed
qed

lemma sleeping_step:
  assumes "uart_step hw T t c s s'" and "sleeping T t c s"
  shows "sleeping T t c s'"
  using assms(1)
proof cases
  case irq
  obtain r h d s1 where s': "s' = s1\<lparr>g_uart_rx_wq := d\<rparr>"
    and w: "wake_up (g_uart_rx_wq s) (s\<lparr>ut_ring := r, ut_hw := h\<rparr>) = Some (d, s1)"
    using irq(2) by (auto simp: uart_irq_handler_def Let_def split: bind_splits)
  obtain Q where Q: "sched_inv T (co_sched (s\<lparr>ut_ring := r, ut_hw := h\<rparr>)) Q" using assms(2) by (auto simp: sleeping_def)
  note wc = wake_cases [OF Q _ _ _ w, of t c]
  have "\<not> blocked t s1" using wc(4) assms(2) irq(1) by (auto simp: sleeping_def blocked_def)
  then show ?thesis using wc(1-3) assms(2) s' by (auto simp: sleeping_def blocked_def)
next
  case other
  then show ?thesis using assms(2) by (auto simp: sleeping_def)
qed


section \<open>Witnesses\<close>

definition small_ring :: rx_ring where
  "small_ring = \<lparr>g_uart_rx_buf = replicate 64 0, g_uart_rx_head = 63, g_uart_rx_tail = 63\<rparr>"

theorem uart_rx_fifo_witness:
  "fst (fifo_run uart_rx_buf_push uart_rx_buf_pop [Some 7, Some 8, None, None, None] small_ring) = [7, 8, - errno_val EAGAIN]"
proof -
  have "rx_ok small_ring" and "rx_list small_ring = []" by (code_simp, code_simp)
  then show ?thesis
    using uart_rx_fifo [of small_ring "[Some 7, Some 8, None, None, None]"]
    by (cases "fifo_run uart_rx_buf_push uart_rx_buf_pop [Some 7, Some 8, None, None, None] small_ring") auto
qed

text \<open>The demonstration scheduler with thread 2 running; its token is entry 1 of the capability table.\<close>

definition demo_reader :: "unit uart_state" where
  "demo_reader = \<lparr>co_mm = demo_mm\<lparr>mm_caps := \<lparr>cap_table = (\<lambda>_. \<lparr>ce_obj = Some 2, ce_rights = CAP_R_CTL, ce_generation = 0,
       ce_next_free = 0, ce_used = True\<rparr>), cap_next_generation = 1, cap_free_head = 0, cap_free_inited = True\<rparr>\<rparr>,
     co_sched = demo_sched, co_thread = (\<lambda>_. idle_kthread\<lparr>kt_cap := cap_make 1 0\<rparr>), co_frame = (\<lambda>_. \<lparr>pt_x = [], pt_elr = 0,
       pt_spsr = 0, pt_esr = 0, pt_sp_el0 = 0\<rparr>), co_last_switched = None, co_irq_on = True,
     ut_hw = (), g_uart_base = 0x1000, ut_ring = small_ring, g_uart_rx_wq = CAP_NULL\<rparr>"


end
