(* ===== verification/Virtio.thy ===== *)
theory Virtio
  imports Driver_Core Hw Block Endian
begin

text \<open>
  Virtio devices on the legacy memory-mapped transport: the transport and the queues
  (\<open>kernel/driver/virtio/virtio_mmio.c\<close>), the bus (\<open>virtio_bus.c\<close>) and the block device (\<open>virtio_blk.c\<close>). The
  descriptor table and the two rings are in memory that the device shares, so they are reached through \<open>Hw\<close>
  like the registers; the rest of a queue is a record. \<open>None\<close> is undefined behaviour (an index outside an
  array) or a device that never answers.
\<close>

section \<open>Queues\<close>

definition VRING_DESC_F_NEXT :: u16 where "VRING_DESC_F_NEXT = 1"
definition VRING_DESC_F_WRITE :: u16 where "VRING_DESC_F_WRITE = 2"
definition VIRTQUEUE_MAX_SIZE :: nat where "VIRTQUEUE_MAX_SIZE = 64"
definition VIRTIO_CONFIG_S_ACKNOWLEDGE :: u32 where "VIRTIO_CONFIG_S_ACKNOWLEDGE = 1"
definition VIRTIO_CONFIG_S_DRIVER :: u32 where "VIRTIO_CONFIG_S_DRIVER = 2"
definition VIRTIO_CONFIG_S_DRIVER_OK :: u32 where "VIRTIO_CONFIG_S_DRIVER_OK = 4"
definition VIRTIO_CONFIG_S_FEATURES_OK :: u32 where "VIRTIO_CONFIG_S_FEATURES_OK = 8"
definition VIRTIO_CONFIG_S_STARTED :: u32 where "VIRTIO_CONFIG_S_STARTED = 64"
definition VIRTIO_ID_BLOCK :: u32 where "VIRTIO_ID_BLOCK = 2"
definition VIRTIO_ID_GPU :: u32 where "VIRTIO_ID_GPU = 16"

definition VIRTIO_MMIO_MAGIC_VALUE :: u64 where "VIRTIO_MMIO_MAGIC_VALUE = 0x000"
definition VIRTIO_MMIO_VERSION :: u64 where "VIRTIO_MMIO_VERSION = 0x004"
definition VIRTIO_MMIO_DEVICE_ID :: u64 where "VIRTIO_MMIO_DEVICE_ID = 0x008"
definition VIRTIO_MMIO_HOST_FEATURES :: u64 where "VIRTIO_MMIO_HOST_FEATURES = 0x010"
definition VIRTIO_MMIO_HOST_FEATURES_SEL :: u64 where "VIRTIO_MMIO_HOST_FEATURES_SEL = 0x014"
definition VIRTIO_MMIO_GUEST_FEATURES :: u64 where "VIRTIO_MMIO_GUEST_FEATURES = 0x020"
definition VIRTIO_MMIO_GUEST_FEATURES_SEL :: u64 where "VIRTIO_MMIO_GUEST_FEATURES_SEL = 0x024"
definition VIRTIO_MMIO_GUEST_PAGE_SIZE :: u64 where "VIRTIO_MMIO_GUEST_PAGE_SIZE = 0x028"
definition VIRTIO_MMIO_QUEUE_SEL :: u64 where "VIRTIO_MMIO_QUEUE_SEL = 0x030"
definition VIRTIO_MMIO_QUEUE_NUM_MAX :: u64 where "VIRTIO_MMIO_QUEUE_NUM_MAX = 0x034"
definition VIRTIO_MMIO_QUEUE_NUM :: u64 where "VIRTIO_MMIO_QUEUE_NUM = 0x038"
definition VIRTIO_MMIO_QUEUE_ALIGN :: u64 where "VIRTIO_MMIO_QUEUE_ALIGN = 0x03c"
definition VIRTIO_MMIO_QUEUE_PFN :: u64 where "VIRTIO_MMIO_QUEUE_PFN = 0x040"
definition VIRTIO_MMIO_QUEUE_NOTIFY :: u64 where "VIRTIO_MMIO_QUEUE_NOTIFY = 0x050"
definition VIRTIO_MMIO_STATUS :: u64 where "VIRTIO_MMIO_STATUS = 0x070"
definition VIRTIO_MMIO_CONFIG_BASE :: u64 where "VIRTIO_MMIO_CONFIG_BASE = 0x100"
definition VIRTIO_MAGIC :: u32 where "VIRTIO_MAGIC = 0x74726976"
definition VIRTIO_VERSION_LEGACY :: u32 where "VIRTIO_VERSION_LEGACY = 1"

record vring_desc =
  vd_addr :: u64
  vd_len :: u32
  vd_flags :: u16
  vd_next :: u16

record virtqueue =
  vq_num :: u32
  vq_free_desc :: u32
  vq_last_used :: u16
  vq_desc :: u64
  vq_avail :: u64
  vq_used :: u64
  vq_data :: "u64 option list"

record virtio_device =
  vdv_base :: u64
  vdv_device_id :: u32
  vdv_irq :: u32
  vdv_vq :: virtqueue

definition vring_size :: "u32 \<Rightarrow> u32 \<Rightarrow> u32" where
  "vring_size num align =
     (let desc_size = num * 16; avail_size = 4 + num * 2; used_size = 4 + num * 8;
          used_offset = (desc_size + avail_size + align - 1) AND NOT (align - 1)
      in used_offset + used_size)"

text \<open>Descriptor \<open>i\<close> of a table at \<open>base\<close>, its parts, and storing a whole one.\<close>

definition desc_at :: "u64 \<Rightarrow> u16 \<Rightarrow> u64" where
  "desc_at base i = base + 16 * ucast i"

definition st_desc :: "'h hw \<Rightarrow> u64 \<Rightarrow> vring_desc \<Rightarrow> 'h \<Rightarrow> 'h" where
  "st_desc hw a d h =
     w16 hw (a + 14) (vd_next d) (w16 hw (a + 12) (vd_flags d) (w32 hw (a + 8) (vd_len d) (w64 hw a (vd_addr d) h)))"

definition rmw16 :: "'h hw \<Rightarrow> u64 \<Rightarrow> (u16 \<Rightarrow> u16) \<Rightarrow> 'h \<Rightarrow> 'h" where
  "rmw16 hw a f h = (case r16 hw a h of (v, h') \<Rightarrow> w16 hw a (f v) h')"

definition init_descs :: "'h hw \<Rightarrow> u64 \<Rightarrow> nat \<Rightarrow> 'h \<Rightarrow> 'h" where
  "init_descs hw base num =
     fold (\<lambda>i. w16 hw (desc_at base (of_nat i) + 14) (if i + 1 < num then of_nat (i + 1) else 0)) [0..<num]"

definition virtio_mmio_setup_queue ::
    "'h hw \<Rightarrow> 'h kmem \<Rightarrow> virtio_device \<Rightarrow> u32 \<Rightarrow> u32 \<Rightarrow> 'h \<Rightarrow> (int \<times> virtio_device \<times> 'h) option" where
  "virtio_mmio_setup_queue hw km vdev qid num h =
     (case km_alloc_pages km (vring_size num 4096) h of
        (None, h1) \<Rightarrow> Some (- errno_val ENOMEM, vdev, h1)
      | (Some mem, h1) \<Rightarrow>
          if VIRTQUEUE_MAX_SIZE < unat num then None
          else
            let avail = mem + 16 * ucast num;
                used = ALIGN_UP (avail + 4 + 2 * ucast num) 4096;
                vq = vdv_vq vdev;
                vdev' = vdev\<lparr>vdv_vq := vq\<lparr>vq_num := num, vq_free_desc := 0, vq_last_used := 0, vq_desc := mem, vq_avail := avail,
                  vq_used := used, vq_data := replicate (unat num) None @ drop (unat num) (vq_data vq)\<rparr>\<rparr>;
                h3 = w32 hw (vdv_base vdev + VIRTIO_MMIO_QUEUE_SEL) qid (init_descs hw mem (unat num) h1)
            in (case r32 hw (vdv_base vdev + VIRTIO_MMIO_QUEUE_NUM_MAX) h3 of
                  (num_max, h4) \<Rightarrow>
                    if num_max \<noteq> 0 \<and> num_max < num then Some (- errno_val ENOSPC, vdev', km_free_pages km mem h4)
                    else Some (0, vdev',
                      w32 hw (vdv_base vdev + VIRTIO_MMIO_QUEUE_PFN) (ucast (drop_bit 12 (VA_PA km mem)))
                        (w32 hw (vdv_base vdev + VIRTIO_MMIO_QUEUE_ALIGN) 4096
                          (w32 hw (vdv_base vdev + VIRTIO_MMIO_QUEUE_NUM) num h4)))))"

definition virtio_mmio_notify :: "'h hw \<Rightarrow> virtio_device \<Rightarrow> u32 \<Rightarrow> 'h \<Rightarrow> 'h" where
  "virtio_mmio_notify hw vdev qid = w32 hw (vdv_base vdev + VIRTIO_MMIO_QUEUE_NOTIFY) qid"

text \<open>The loop of \<open>virtio_add_buf\<close>, with the descriptor before the current one, if any.\<close>

fun add_descs :: "'h hw \<Rightarrow> u64 \<Rightarrow> u16 option \<Rightarrow> u32 \<Rightarrow> vring_desc list \<Rightarrow> 'h \<Rightarrow> u16 option \<times> u32 \<times> 'h" where
  "add_descs hw base prev free [] h = (prev, free, h)"
| "add_descs hw base prev free (d # ds) h =
     (let idx = ucast free;
          h1 = w16 hw (desc_at base idx + 12) (vd_flags d) (st_desc hw (desc_at base idx) d h);
          h2 = (case prev of
                  None \<Rightarrow> h1
                | Some p \<Rightarrow> w16 hw (desc_at base p + 14) idx (rmw16 hw (desc_at base p + 12) (\<lambda>f. f OR VRING_DESC_F_NEXT) h1))
      in (case r16 hw (desc_at base idx + 14) h2 of (nx, h3) \<Rightarrow> add_descs hw base (Some idx) (ucast nx) ds h3))"

definition publish :: "'h hw \<Rightarrow> virtqueue \<Rightarrow> u16 \<Rightarrow> 'h \<Rightarrow> 'h" where
  "publish hw vq head h =
     (case r16 hw (vq_avail vq + 2) h of
        (i, h1) \<Rightarrow>
          rmw16 hw (vq_avail vq + 2) (\<lambda>i. i + 1)
            (w16 hw (vq_avail vq + 4 + 2 * ucast (ucast (ucast i mod vq_num vq) :: u16)) head h1))"

definition virtio_add_buf ::
    "'h hw \<Rightarrow> virtqueue \<Rightarrow> vring_desc list \<Rightarrow> u64 \<Rightarrow> 'h \<Rightarrow> (int \<times> virtqueue \<times> 'h) option" where
  "virtio_add_buf hw vq descs cookie h =
     (if descs = [] then Some (- errno_val EINVAL, vq, h)
      else do {
        let head = (ucast (vq_free_desc vq) :: u16);
        cur \<leftarrow> rd (vq_data vq) (unat head);
        if cur \<noteq> None then Some (- errno_val EBUSY, vq, h)
        else (case add_descs hw (vq_desc vq) None (vq_free_desc vq) descs h of
                (prev, free, h1) \<Rightarrow>
                  if vq_num vq = 0 then None
                  else Some (0, vq\<lparr>vq_free_desc := free, vq_data := (vq_data vq)[unat head := Some cookie]\<rparr>,
                         publish hw vq head
                           (rmw16 hw (desc_at (vq_desc vq) (the prev) + 12) (\<lambda>f. f AND NOT VRING_DESC_F_NEXT) h1))) })"

definition used_elem :: "virtqueue \<Rightarrow> u64" where
  "used_elem vq = vq_used vq + 4 + 8 * ucast (ucast (ucast (vq_last_used vq) mod vq_num vq) :: u16)"

text \<open>The cookie and the length that the device reports; the outer \<open>None\<close> of the pair: nothing is finished.\<close>

definition virtio_get_buf ::
    "'h hw \<Rightarrow> virtqueue \<Rightarrow> 'h \<Rightarrow> ((u64 option \<times> u32) option \<times> virtqueue \<times> 'h) option" where
  "virtio_get_buf hw vq h =
     (case r16 hw (vq_used vq + 2) h of
        (i, h1) \<Rightarrow>
          if vq_last_used vq = i then Some (None, vq, h1)
          else if vq_num vq = 0 then None
          else
            (case r32 hw (used_elem vq) h1 of
               (eid, h2) \<Rightarrow> do {
                 let desc_id = (ucast eid :: u16);
                 cookie \<leftarrow> rd (vq_data vq) (unat desc_id);
                 let h3 = w16 hw (desc_at (vq_desc vq) desc_id + 14) (ucast (vq_free_desc vq)) h2;
                 (case r32 hw (used_elem vq + 4) h3 of
                    (len, h4) \<Rightarrow>
                      Some (Some (cookie, len),
                        vq\<lparr>vq_data := (vq_data vq)[unat desc_id := None], vq_free_desc := ucast desc_id,
                           vq_last_used := vq_last_used vq + 1\<rparr>, h4)) }))"

section \<open>The transport\<close>

definition virtio_mmio_negotiate_features :: "'h hw \<Rightarrow> virtio_device \<Rightarrow> 'h \<Rightarrow> int \<times> 'h" where
  "virtio_mmio_negotiate_features hw vdev h =
     (case r32 hw (vdv_base vdev + VIRTIO_MMIO_HOST_FEATURES) (w32 hw (vdv_base vdev + VIRTIO_MMIO_HOST_FEATURES_SEL) 0 h) of
        (features, h1) \<Rightarrow>
          (0, w32 hw (vdv_base vdev + VIRTIO_MMIO_GUEST_FEATURES) features
                (w32 hw (vdv_base vdev + VIRTIO_MMIO_GUEST_FEATURES_SEL) 0 h1)))"

definition virtio_mmio_set_status :: "'h hw \<Rightarrow> virtio_device \<Rightarrow> u32 \<Rightarrow> 'h \<Rightarrow> 'h" where
  "virtio_mmio_set_status hw vdev status = rmw32 hw (vdv_base vdev + VIRTIO_MMIO_STATUS) (\<lambda>old. old OR status)"

section \<open>The bus\<close>

text \<open>
  A device on the bus is the address of its structure and its device id, which does not change. The probe of
  a driver may fail to end; the world of the bus is optional for that reason.
\<close>

record 'w virtio_driver =
  vr_id_table :: "u32 list option"
  vr_probe :: "(u64 \<Rightarrow> 'w \<Rightarrow> (int \<times> 'w) option) option"
  vr_remove :: "(u64 \<Rightarrow> 'w \<Rightarrow> (int \<times> 'w) option) option"

type_synonym vref = "u64 \<times> u32"
type_synonym 'w virtio_bus = "(vref, 'w virtio_driver) bus"

definition virtio_bus_match :: "vref \<Rightarrow> 'w virtio_driver \<Rightarrow> bool" where
  "virtio_bus_match dev drv \<longleftrightarrow>
     (case vr_id_table drv of None \<Rightarrow> False | Some ids \<Rightarrow> snd dev \<in> set (takeWhile (\<lambda>i. i \<noteq> 0) ids))"

definition virtio_bus_probe :: "vref \<Rightarrow> 'w virtio_driver \<Rightarrow> 'w \<Rightarrow> (int \<times> 'w) option" where
  "virtio_bus_probe dev drv w = (case vr_probe drv of None \<Rightarrow> Some (0, w) | Some f \<Rightarrow> f (fst dev) w)"

definition virtio_bus_remove :: "vref \<Rightarrow> 'w virtio_driver option \<Rightarrow> 'w \<Rightarrow> (int \<times> 'w) option" where
  "virtio_bus_remove dev drv w = (case Option.bind drv vr_remove of None \<Rightarrow> Some (0, w) | Some f \<Rightarrow> f (fst dev) w)"

definition virtio_bus_type :: "(vref, 'w virtio_driver, 'w option) bus_type" where
  "virtio_bus_type = \<lparr>bus_match = Some virtio_bus_match,
     bus_probe = Some (\<lambda>dev drv w. Option.bind w (\<lambda>x. map_option snd (virtio_bus_probe dev drv x)))\<rparr>"

definition virtio_driver_register :: "'w virtio_driver \<Rightarrow> 'w virtio_bus \<Rightarrow> 'w option \<Rightarrow> int \<times> 'w virtio_bus \<times> 'w option" where
  "virtio_driver_register x = driver_register (Some virtio_bus_type) (Some x)"

definition virtio_device_register :: "vref \<Rightarrow> 'w virtio_bus \<Rightarrow> 'w option \<Rightarrow> int \<times> 'w virtio_bus \<times> 'w option" where
  "virtio_device_register x = device_register (Some virtio_bus_type) (Some x)"

definition virtio_bus_init :: "'w virtio_bus \<Rightarrow> 'w virtio_bus" where
  "virtio_bus_init = bus_register"

section \<open>Devices and block devices in memory\<close>

record virtio_blk =
  vb_vdev :: "u64 option"
  vb_capacity :: u64
  vb_block_size :: u32

record 'h vworld =
  vw_hw :: 'h
  vw_dev :: "u64 \<Rightarrow> virtio_device"
  vw_blk :: "u64 \<Rightarrow> virtio_blk"

type_synonym 'h vstate = "'h vworld blk_state"

definition vs_hw :: "'h vstate \<Rightarrow> 'h" where
  "vs_hw s = vw_hw (bk_hw s)"

definition upd_hw :: "('h \<Rightarrow> 'h) \<Rightarrow> 'h vstate \<Rightarrow> 'h vstate" where
  "upd_hw f s = s\<lparr>bk_hw := (bk_hw s)\<lparr>vw_hw := f (vw_hw (bk_hw s))\<rparr>\<rparr>"

definition upd_vdev :: "u64 \<Rightarrow> virtio_device \<Rightarrow> 'h vstate \<Rightarrow> 'h vstate" where
  "upd_vdev v d s = s\<lparr>bk_hw := (bk_hw s)\<lparr>vw_dev := (vw_dev (bk_hw s))(v := d)\<rparr>\<rparr>"

definition upd_vblk :: "u64 \<Rightarrow> virtio_blk \<Rightarrow> 'h vstate \<Rightarrow> 'h vstate" where
  "upd_vblk p d s = s\<lparr>bk_hw := (bk_hw s)\<lparr>vw_blk := (vw_blk (bk_hw s))(p := d)\<rparr>\<rparr>"

definition sizeof_virtio_device :: u32 where "sizeof_virtio_device = 640"

definition virtio_mmio_probe ::
    "'h hw \<Rightarrow> 'h kmem \<Rightarrow> platform_device \<Rightarrow> 'h vstate virtio_bus \<Rightarrow> 'h vstate \<Rightarrow>
     int \<times> 'h vstate virtio_bus \<times> 'h vstate option" where
  "virtio_mmio_probe hw km pdev b s =
     (case platform_get_resource pdev IORESOURCE_MEM 0 of
        None \<Rightarrow> (- errno_val ENOENT, b, Some s)
      | Some res \<Rightarrow>
          (case km_ioremap km (rs_start res) (resource_size (Some res)) (vs_hw s) of
             (base, h1) \<Rightarrow>
               if base = 0 then (- errno_val ENOMEM, b, Some (upd_hw (\<lambda>_. h1) s))
               else
                 let (magic, h2) = r32 hw (base + VIRTIO_MMIO_MAGIC_VALUE) h1;
                     (version, h3) = r32 hw (base + VIRTIO_MMIO_VERSION) h2;
                     (device_id, h4) = r32 hw (base + VIRTIO_MMIO_DEVICE_ID) h3
                 in
                 if magic \<noteq> VIRTIO_MAGIC \<or> version \<noteq> VIRTIO_VERSION_LEGACY then (- errno_val ENODEV, b, Some (upd_hw (\<lambda>_. h4) s))
                 else if device_id = 0 then (0, b, Some (upd_hw (\<lambda>_. h4) s))
                 else
                   (case km_alloc km sizeof_virtio_device h4 of
                      (None, h5) \<Rightarrow> (- errno_val ENOMEM, b, Some (upd_hw (\<lambda>_. h5) s))
                    | (Some v, h5) \<Rightarrow>
                        let vdev = \<lparr>vdv_base = base, vdv_device_id = device_id, vdv_irq = of_int (platform_get_irq pdev 0),
                                    vdv_vq = \<lparr>vq_num = 0, vq_free_desc = 0, vq_last_used = 0, vq_desc = 0, vq_avail = 0,
                                      vq_used = 0, vq_data = replicate VIRTQUEUE_MAX_SIZE None\<rparr>\<rparr>;
                            h6 = virtio_mmio_set_status hw vdev VIRTIO_CONFIG_S_DRIVER
                                   (virtio_mmio_set_status hw vdev VIRTIO_CONFIG_S_ACKNOWLEDGE h5);
                            h7 = virtio_mmio_set_status hw vdev VIRTIO_CONFIG_S_FEATURES_OK
                                   (snd (virtio_mmio_negotiate_features hw vdev h6));
                            h8 = w32 hw (base + VIRTIO_MMIO_GUEST_PAGE_SIZE) 4096 h7;
                            (_, b', s') = virtio_device_register (v, device_id) b (Some (upd_vdev v vdev (upd_hw (\<lambda>_. h8) s)))
                        in (0, b', s'))))"

definition virtio_mmio_of_match :: "cstr list" where
  "virtio_mmio_of_match = [cstr_of ''virtio,mmio'']"

section \<open>The block device\<close>

definition VIRTIO_BLK_QUEUE_SIZE :: u32 where "VIRTIO_BLK_QUEUE_SIZE = 16"
definition VIRTIO_BLK_T_IN :: u32 where "VIRTIO_BLK_T_IN = 0"
definition VIRTIO_BLK_T_OUT :: u32 where "VIRTIO_BLK_T_OUT = 1"
definition VIRTIO_BLK_S_OK :: u8 where "VIRTIO_BLK_S_OK = 0"
definition REQ_OP_READ :: int where "REQ_OP_READ = 0"
definition REQ_OP_WRITE :: int where "REQ_OP_WRITE = 1"
definition sizeof_virtio_blk_req :: u32 where "sizeof_virtio_blk_req = 40"
definition sizeof_virtio_blk :: u32 where "sizeof_virtio_blk = 96"

text \<open>The part of a request that the device reads: the header, and the status byte behind it.\<close>

definition st_req :: "'h hw \<Rightarrow> u64 \<Rightarrow> int \<Rightarrow> u64 \<Rightarrow> 'h \<Rightarrow> 'h" where
  "st_req hw req dir sector h =
     w8 hw (req + 16) 0xff (w64 hw (req + 8) sector (w32 hw (req + 4) 0
       (w32 hw req (if dir = REQ_OP_WRITE then VIRTIO_BLK_T_OUT else VIRTIO_BLK_T_IN) h)))"

definition blk_descs :: "'h kmem \<Rightarrow> u64 \<Rightarrow> u64 \<Rightarrow> u32 \<Rightarrow> int \<Rightarrow> vring_desc list" where
  "blk_descs km req buf len dir =
     [\<lparr>vd_addr = VA_PA km req, vd_len = 16, vd_flags = 0, vd_next = 1\<rparr>,
      \<lparr>vd_addr = VA_PA km buf, vd_len = len, vd_flags = (if dir = REQ_OP_READ then VRING_DESC_F_WRITE else 0), vd_next = 2\<rparr>,
      \<lparr>vd_addr = VA_PA km (req + 16), vd_len = 1, vd_flags = VRING_DESC_F_WRITE, vd_next = 0\<rparr>]"

partial_function (option) wait_cookie :: "'h hw \<Rightarrow> u64 \<Rightarrow> virtqueue \<Rightarrow> 'h \<Rightarrow> (virtqueue \<times> 'h) option" where
  "wait_cookie hw cookie vq h = do {
     (r, vq', h') \<leftarrow> virtio_get_buf hw vq h;
     if map_option fst r = Some (Some cookie) then Some (vq', h') else wait_cookie hw cookie vq' h' }"

definition virtio_blk_io ::
    "'h hw \<Rightarrow> 'h kmem \<Rightarrow> virtio_device \<Rightarrow> u32 \<Rightarrow> u64 \<Rightarrow> u32 \<Rightarrow> u64 \<Rightarrow> int \<Rightarrow> 'h \<Rightarrow> (int \<times> virtio_device \<times> 'h) option" where
  "virtio_blk_io hw km vdev block_size lba nr_blocks buf dir h =
     (case km_alloc km sizeof_virtio_blk_req h of
        (None, h1) \<Rightarrow> Some (- errno_val ENOMEM, vdev, h1)
      | (Some req, h1) \<Rightarrow> do {
          let h2 = st_req hw req dir (lba * ucast (block_size div 512)) h1;
          (ret, vq, h3) \<leftarrow> virtio_add_buf hw (vdv_vq vdev) (blk_descs km req buf (nr_blocks * block_size) dir) req h2;
          if ret < 0 then Some (ret, vdev\<lparr>vdv_vq := vq\<rparr>, km_free km req h3)
          else do {
            (vq', h4) \<leftarrow> wait_cookie hw req vq (virtio_mmio_notify hw vdev 0 h3);
            (case r8 hw (req + 16) h4 of
               (status, h5) \<Rightarrow>
                 Some (if status = VIRTIO_BLK_S_OK then 0 else - errno_val EIO, vdev\<lparr>vdv_vq := vq'\<rparr>, km_free km req h5)) } })"

definition virtio_blk_request ::
    "'h hw \<Rightarrow> 'h kmem \<Rightarrow> u64 \<Rightarrow> u64 \<Rightarrow> u32 \<Rightarrow> u64 \<Rightarrow> int \<Rightarrow> 'h vstate \<Rightarrow> (int \<times> 'h vstate) option" where
  "virtio_blk_request hw km bdev lba nr_blocks buf dir s = do {
     p \<leftarrow> bd_private (bk_bdev s bdev);
     (case vb_vdev (vw_blk (bk_hw s) p) of
        None \<Rightarrow> Some (- errno_val EINVAL, s)
      | Some v \<Rightarrow> do {
          (ret, vdev, h) \<leftarrow> virtio_blk_io hw km (vw_dev (bk_hw s) v) (bd_block_size (bk_bdev s bdev)) lba nr_blocks buf dir (vs_hw s);
          Some (ret, upd_vdev v vdev (upd_hw (\<lambda>_. h) s)) }) }"

text \<open>The block device is the second member of \<open>struct virtio_blk\<close>; \<open>tbl\<close> is the address of \<open>virtio_blk_ops\<close>.\<close>

definition virtio_blk_probe ::
    "'h hw \<Rightarrow> 'h kmem \<Rightarrow> 'h vworld ops_table \<Rightarrow> u64 \<Rightarrow> u64 \<Rightarrow> 'h vstate \<Rightarrow> (int \<times> 'h vstate) option" where
  "virtio_blk_probe hw km ops tbl v s = do {
     (ret, vdev, h1) \<leftarrow> virtio_mmio_setup_queue hw km (vw_dev (bk_hw s) v) 0 VIRTIO_BLK_QUEUE_SIZE (vs_hw s);
     let s1 = upd_vdev v vdev (upd_hw (\<lambda>_. h1) s);
     if ret < 0 then Some (ret, s1)
     else
       let h2 = virtio_mmio_set_status hw vdev VIRTIO_CONFIG_S_STARTED (virtio_mmio_set_status hw vdev VIRTIO_CONFIG_S_DRIVER_OK h1) in
       (case km_alloc km sizeof_virtio_blk h2 of
          (None, h3) \<Rightarrow> Some (- errno_val ENOMEM, upd_hw (\<lambda>_. h3) s1)
        | (Some p, h3) \<Rightarrow>
            let (capacity, h4) = r64 hw (vdv_base vdev + VIRTIO_MMIO_CONFIG_BASE) h3;
                s2 = upd_vblk p \<lparr>vb_vdev = Some v, vb_capacity = capacity, vb_block_size = 512\<rparr> (upd_hw (\<lambda>_. h4) s1);
                bdev = p + 8;
                s3 = upd_bdev s2 bdev (\<lambda>_. \<lparr>bd_dev = MKDEV VIRTBLK_MAJOR 0, bd_block_size = 512, bd_block_size_bits = 9,
                       bd_ops = None, bd_ref_count = 0, bd_private = Some p, bd_start_lba = 0, bd_nr_blocks = 0\<rparr>)
            in (case register_blkdev s3 VIRTBLK_MAJOR (Some tbl) of
                  (Inl _, s4) \<Rightarrow> Some (- errno_val EEXIST, upd_hw (km_free km p) s4)
                | (Inr _, s4) \<Rightarrow> do {
                    (r, s5) \<leftarrow> add_block_device ops s4 (Some bdev);
                    if r \<noteq> 0 then Some (r, upd_hw (km_free km p) (snd (unregister_blkdev s5 VIRTBLK_MAJOR)))
                    else Some (0, s5) })) }"

definition virtio_blk_driver :: "'h hw \<Rightarrow> 'h kmem \<Rightarrow> 'h vworld ops_table \<Rightarrow> u64 \<Rightarrow> 'h vstate virtio_driver" where
  "virtio_blk_driver hw km ops tbl =
     \<lparr>vr_id_table = Some [VIRTIO_ID_BLOCK], vr_probe = Some (virtio_blk_probe hw km ops tbl), vr_remove = None\<rparr>"

section \<open>The memory of a queue\<close>

text \<open>
  The descriptor table and the available ring are memory that only the driver writes: \<open>n\<close> bytes at \<open>b\<close>, whose
  contents in a state are \<open>mem\<close>.
\<close>

definition ram_area :: "'h hw \<Rightarrow> ('h \<Rightarrow> bytes) \<Rightarrow> u64 \<Rightarrow> nat \<Rightarrow> bool" where
  "ram_area hw mem b n \<longleftrightarrow>
     (\<forall>h. length (mem h) = n) \<and>
     (\<forall>h i v. i + 2 \<le> n \<longrightarrow> put_le 2 (mem h) i v = Some (mem (w16 hw (b + of_nat i) v h))) \<and>
     (\<forall>h i v. i + 4 \<le> n \<longrightarrow> put_le 4 (mem h) i v = Some (mem (w32 hw (b + of_nat i) v h))) \<and>
     (\<forall>h i v. i + 8 \<le> n \<longrightarrow> put_le 8 (mem h) i v = Some (mem (w64 hw (b + of_nat i) v h))) \<and>
     (\<forall>h i. i + 2 \<le> n \<longrightarrow> get_le 2 (mem h) i = Some (fst (r16 hw (b + of_nat i) h)) \<and>
        mem (snd (r16 hw (b + of_nat i) h)) = mem h)"

lemma ram_areaD:
  assumes "ram_area hw mem b n"
  shows "i + 2 \<le> n \<Longrightarrow> put_le 2 (mem h) i v = Some (mem (w16 hw (b + of_nat i) v h))"
    and "i + 4 \<le> n \<Longrightarrow> put_le 4 (mem h) i l = Some (mem (w32 hw (b + of_nat i) l h))"
    and "i + 8 \<le> n \<Longrightarrow> put_le 8 (mem h) i a = Some (mem (w64 hw (b + of_nat i) a h))"
    and "i + 2 \<le> n \<Longrightarrow> get_le 2 (mem h) i = Some (fst (r16 hw (b + of_nat i) h))"
    and "i + 2 \<le> n \<Longrightarrow> mem (snd (r16 hw (b + of_nat i) h)) = mem h"
  using assms unfolding ram_area_def by blast+

text \<open>Its parts: descriptor \<open>i\<close>, the index of the available ring and its entries, for a queue of \<open>num\<close> descriptors.\<close>

definition ld_desc :: "bytes \<Rightarrow> nat \<Rightarrow> vring_desc" where
  "ld_desc m i = \<lparr>vd_addr = the (get_le 8 m (16 * i)), vd_len = the (get_le 4 m (16 * i + 8)),
     vd_flags = the (get_le 2 m (16 * i + 12)), vd_next = the (get_le 2 m (16 * i + 14))\<rparr>"

definition av_idx :: "nat \<Rightarrow> bytes \<Rightarrow> u16" where
  "av_idx num m = the (get_le 2 m (16 * num + 2))"

definition av_ring :: "nat \<Rightarrow> bytes \<Rightarrow> nat \<Rightarrow> u16" where
  "av_ring num m k = the (get_le 2 m (16 * num + 4 + 2 * k))"

definition queue_ok :: "'h hw \<Rightarrow> ('h \<Rightarrow> bytes) \<Rightarrow> virtqueue \<Rightarrow> bool" where
  "queue_ok hw mem vq \<longleftrightarrow>
     0 < vq_num vq \<and> vq_num vq \<le> 64 \<and> vq_avail vq = vq_desc vq + 16 * ucast (vq_num vq) \<and>
     ram_area hw mem (vq_desc vq) (18 * unat (vq_num vq) + 4)"

lemma put_views:
  fixes v :: "'a::len word"
  assumes "put_le k m j v = Some m'" and "LENGTH('a) \<le> 8 * k"
  shows "get_le k m' j = Some v" and "o2 + n \<le> j \<or> j + k \<le> o2 \<Longrightarrow> get_le n m' o2 = get_le n m o2"
  using get_le_put_same [OF assms] get_le_put_other [OF put_le_bytes [OF assms(1)]] by auto

lemma desc_at_nat: "desc_at b i = b + of_nat (16 * unat i)"
  by (simp add: desc_at_def)

lemma desc_at_offs:
  "desc_at b i + 8 = b + of_nat (16 * unat i + 8)" "desc_at b i + 12 = b + of_nat (16 * unat i + 12)"
  "desc_at b i + 14 = b + of_nat (16 * unat i + 14)"
  by (simp_all add: desc_at_nat)

text \<open>The table as a function, with a fixed value outside.\<close>

definition dtab :: "nat \<Rightarrow> bytes \<Rightarrow> nat \<Rightarrow> vring_desc" where
  "dtab num m j = (if j < num then ld_desc m j else ld_desc [] 0)"

lemma desc_put_other:
  fixes v :: "'a::len word"
  assumes p: "put_le k m off v = Some m'" "LENGTH('a) \<le> 8 * k" and "16 * i \<le> off" "off + k \<le> 16 * i + 16" "i < num"
  shows "j \<noteq> i \<Longrightarrow> ld_desc m' j = ld_desc m j" and "av_idx num m' = av_idx num m" and "av_ring num m' = av_ring num m"
proof -
  note o = put_views(2) [OF p]
  show "ld_desc m' j = ld_desc m j" if "j \<noteq> i"
  proof -
    have "16 * j + 16 \<le> off \<or> off + k \<le> 16 * j" using assms(3,4) that by (cases "j < i") linarith+
    then have "get_le 8 m' (16 * j) = (get_le 8 m (16 * j) :: u64 option)"
      "get_le 4 m' (16 * j + 8) = (get_le 4 m (16 * j + 8) :: u32 option)"
      "get_le 2 m' (16 * j + 12) = (get_le 2 m (16 * j + 12) :: u16 option)"
      "get_le 2 m' (16 * j + 14) = (get_le 2 m (16 * j + 14) :: u16 option)"
      by (auto intro!: o)
    then show ?thesis by (simp add: ld_desc_def)
  qed
  show "av_idx num m' = av_idx num m"
    unfolding av_idx_def using assms(4,5) by (intro arg_cong [where f = the] o) linarith
  show "av_ring num m' = av_ring num m"
    unfolding av_ring_def using assms(4,5) by (intro ext arg_cong [where f = the] o) linarith
qed

lemma desc_put_same:
  fixes a :: u64 and l :: u32 and w :: u16
  shows "put_le 2 m (16 * i + 12) w = Some m' \<Longrightarrow> ld_desc m' i = (ld_desc m i)\<lparr>vd_flags := w\<rparr>"
    and "put_le 2 m (16 * i + 14) w = Some m' \<Longrightarrow> ld_desc m' i = (ld_desc m i)\<lparr>vd_next := w\<rparr>"
    and "put_le 4 m (16 * i + 8) l = Some m' \<Longrightarrow> ld_desc m' i = (ld_desc m i)\<lparr>vd_len := l\<rparr>"
    and "put_le 8 m (16 * i) a = Some m' \<Longrightarrow> ld_desc m' i = (ld_desc m i)\<lparr>vd_addr := a\<rparr>"
  by (simp_all add: ld_desc_def put_views)

lemma queue_writes:
  assumes q: "queue_ok hw mem vq" and i: "unat i < unat (vq_num vq)"
  defines "num \<equiv> unat (vq_num vq)" and "b \<equiv> vq_desc vq"
  shows "put_le 2 (mem h) (16 * unat i + 12) w = Some (mem (w16 hw (desc_at b i + 12) w h))"
    and "put_le 2 (mem h) (16 * unat i + 14) w = Some (mem (w16 hw (desc_at b i + 14) w h))"
    and "put_le 4 (mem h) (16 * unat i + 8) l = Some (mem (w32 hw (desc_at b i + 8) l h))"
    and "put_le 8 (mem h) (16 * unat i) a = Some (mem (w64 hw (desc_at b i) a h))"
    and "get_le 2 (mem h) (16 * unat i + 12) = Some (fst (r16 hw (desc_at b i + 12) h))"
    and "mem (snd (r16 hw (desc_at b i + 12) h)) = mem h"
    and "get_le 2 (mem h) (16 * unat i + 14) = Some (fst (r16 hw (desc_at b i + 14) h))"
    and "mem (snd (r16 hw (desc_at b i + 14) h)) = mem h"
proof -
  have ra: "ram_area hw mem b (18 * num + 4)" and bnd: "16 * unat i + 16 \<le> 18 * num"
    using q i by (auto simp: queue_ok_def num_def b_def)
  show "put_le 2 (mem h) (16 * unat i + 12) w = Some (mem (w16 hw (desc_at b i + 12) w h))"
    and "put_le 2 (mem h) (16 * unat i + 14) w = Some (mem (w16 hw (desc_at b i + 14) w h))"
    and "put_le 4 (mem h) (16 * unat i + 8) l = Some (mem (w32 hw (desc_at b i + 8) l h))"
    unfolding desc_at_offs by (rule ram_areaD [OF ra], use bnd in linarith)+
  show "put_le 8 (mem h) (16 * unat i) a = Some (mem (w64 hw (desc_at b i) a h))"
    unfolding desc_at_nat by (rule ram_areaD [OF ra]) (use bnd in linarith)
  show "get_le 2 (mem h) (16 * unat i + 12) = Some (fst (r16 hw (desc_at b i + 12) h))"
    and "mem (snd (r16 hw (desc_at b i + 12) h)) = mem h"
    and "get_le 2 (mem h) (16 * unat i + 14) = Some (fst (r16 hw (desc_at b i + 14) h))"
    and "mem (snd (r16 hw (desc_at b i + 14) h)) = mem h"
    unfolding desc_at_offs by (rule ram_areaD [OF ra], use bnd in linarith)+
qed

text \<open>The effect of the accesses to a descriptor on the table and the available ring.\<close>

definition ring_same :: "nat \<Rightarrow> bytes \<Rightarrow> bytes \<Rightarrow> bool" where
  "ring_same num m m' \<longleftrightarrow> av_idx num m' = av_idx num m \<and> av_ring num m' = av_ring num m"

lemma table_put:
  fixes v :: "'a::len word"
  assumes "put_le k m off v = Some m'" "LENGTH('a) \<le> 8 * k" "16 * i \<le> off" "off + k \<le> 16 * i + 16" "i < num"
  shows "dtab num m' = (dtab num m)(i := ld_desc m' i) \<and> ring_same num m m'"
  using desc_put_other [OF assms] assms(5) by (auto simp: dtab_def ring_same_def fun_eq_iff)

lemma ring_same_trans: "ring_same num a b \<Longrightarrow> ring_same num b c \<Longrightarrow> ring_same num a c"
  by (simp add: ring_same_def)

lemma desc_ops:
  assumes q: "queue_ok hw mem vq" and i: "unat i < unat (vq_num vq)"
  defines "num \<equiv> unat (vq_num vq)" and "b \<equiv> vq_desc vq"
  shows "dtab num (mem (w16 hw (desc_at b i + 12) w h)) = (dtab num (mem h))(unat i := (dtab num (mem h) (unat i))\<lparr>vd_flags := w\<rparr>)"
    and "dtab num (mem (w16 hw (desc_at b i + 14) w h)) = (dtab num (mem h))(unat i := (dtab num (mem h) (unat i))\<lparr>vd_next := w\<rparr>)"
    and "dtab num (mem (w32 hw (desc_at b i + 8) l h)) = (dtab num (mem h))(unat i := (dtab num (mem h) (unat i))\<lparr>vd_len := l\<rparr>)"
    and "dtab num (mem (w64 hw (desc_at b i) a h)) = (dtab num (mem h))(unat i := (dtab num (mem h) (unat i))\<lparr>vd_addr := a\<rparr>)"
    and "ring_same num (mem h) (mem (w16 hw (desc_at b i + 12) w h))"
    and "ring_same num (mem h) (mem (w16 hw (desc_at b i + 14) w h))"
    and "ring_same num (mem h) (mem (w32 hw (desc_at b i + 8) l h))"
    and "ring_same num (mem h) (mem (w64 hw (desc_at b i) a h))"
    and "fst (r16 hw (desc_at b i + 12) h) = vd_flags (dtab num (mem h) (unat i))"
    and "mem (snd (r16 hw (desc_at b i + 12) h)) = mem h"
    and "fst (r16 hw (desc_at b i + 14) h) = vd_next (dtab num (mem h) (unat i))"
    and "mem (snd (r16 hw (desc_at b i + 14) h)) = mem h"
proof -
  note w = queue_writes [OF q i, of h, folded num_def b_def]
  have n: "unat i < num" using i by (simp add: num_def)
  have d: "dtab num (mem h) (unat i) = ld_desc (mem h) (unat i)" using n by (simp add: dtab_def)
  show "dtab num (mem (w16 hw (desc_at b i + 12) w h)) = (dtab num (mem h))(unat i := (dtab num (mem h) (unat i))\<lparr>vd_flags := w\<rparr>)"
    and "ring_same num (mem h) (mem (w16 hw (desc_at b i + 12) w h))"
    using table_put [OF w(1) _ _ _ n] desc_put_same(1) [OF w(1)] by (simp_all add: d)
  show "dtab num (mem (w16 hw (desc_at b i + 14) w h)) = (dtab num (mem h))(unat i := (dtab num (mem h) (unat i))\<lparr>vd_next := w\<rparr>)"
    and "ring_same num (mem h) (mem (w16 hw (desc_at b i + 14) w h))"
    using table_put [OF w(2) _ _ _ n] desc_put_same(2) [OF w(2)] by (simp_all add: d)
  show "dtab num (mem (w32 hw (desc_at b i + 8) l h)) = (dtab num (mem h))(unat i := (dtab num (mem h) (unat i))\<lparr>vd_len := l\<rparr>)"
    and "ring_same num (mem h) (mem (w32 hw (desc_at b i + 8) l h))"
    using table_put [OF w(3) _ _ _ n] desc_put_same(3) [OF w(3)] by (simp_all add: d)
  show "dtab num (mem (w64 hw (desc_at b i) a h)) = (dtab num (mem h))(unat i := (dtab num (mem h) (unat i))\<lparr>vd_addr := a\<rparr>)"
    and "ring_same num (mem h) (mem (w64 hw (desc_at b i) a h))"
    using table_put [OF w(4) _ _ _ n] desc_put_same(4) [OF w(4)] by (simp_all add: d)
  show "fst (r16 hw (desc_at b i + 12) h) = vd_flags (dtab num (mem h) (unat i))"
    and "fst (r16 hw (desc_at b i + 14) h) = vd_next (dtab num (mem h) (unat i))"
    using w(5,7) by (simp_all add: d ld_desc_def)
  show "mem (snd (r16 hw (desc_at b i + 12) h)) = mem h" and "mem (snd (r16 hw (desc_at b i + 14) h)) = mem h"
    using w(6,8) by simp_all
qed

lemma st_desc_op:
  assumes q: "queue_ok hw mem vq" and i: "unat i < unat (vq_num vq)"
  defines "num \<equiv> unat (vq_num vq)" and "b \<equiv> vq_desc vq"
  shows "dtab num (mem (st_desc hw (desc_at b i) d h)) = (dtab num (mem h))(unat i := d)"
    and "ring_same num (mem h) (mem (st_desc hw (desc_at b i) d h))"
proof -
  note o = desc_ops [OF q i, folded num_def b_def]
  show "dtab num (mem (st_desc hw (desc_at b i) d h)) = (dtab num (mem h))(unat i := d)"
    by (cases d, cases "dtab num (mem h) (unat i)") (simp add: st_desc_def o)
  show "ring_same num (mem h) (mem (st_desc hw (desc_at b i) d h))"
    unfolding st_desc_def by (rule ring_same_trans, rule o, rule ring_same_trans, rule o, rule ring_same_trans, rule o, rule o)
qed

lemma rmw_flags:
  assumes q: "queue_ok hw mem vq" and i: "unat i < unat (vq_num vq)"
  defines "num \<equiv> unat (vq_num vq)" and "b \<equiv> vq_desc vq"
  shows "dtab num (mem (rmw16 hw (desc_at b i + 12) f h)) =
      (dtab num (mem h))(unat i := (dtab num (mem h) (unat i))\<lparr>vd_flags := f (vd_flags (dtab num (mem h) (unat i)))\<rparr>)"
    and "ring_same num (mem h) (mem (rmw16 hw (desc_at b i + 12) f h))"
proof -
  note o = desc_ops [OF q i, folded num_def b_def]
  obtain v h' where r: "r16 hw (desc_at b i + 12) h = (v, h')" by fastforce
  have "v = vd_flags (dtab num (mem h) (unat i))" "mem h' = mem h" using o(9,10) [of h] r by auto
  then show "dtab num (mem (rmw16 hw (desc_at b i + 12) f h)) =
      (dtab num (mem h))(unat i := (dtab num (mem h) (unat i))\<lparr>vd_flags := f (vd_flags (dtab num (mem h) (unat i)))\<rparr>)"
    and "ring_same num (mem h) (mem (rmw16 hw (desc_at b i + 12) f h))"
    using o(1,5) [where w = "f v" and h = h'] by (simp_all add: rmw16_def r)
qed

section \<open>What a device reads\<close>

text \<open>
  The buffers of a chain as the virtio specification has a device read them: address, length and whether the
  device may write, following the next descriptor while the flag says so, over at most \<open>n\<close> descriptors.
\<close>

fun vring_walk :: "nat \<Rightarrow> (nat \<Rightarrow> vring_desc) \<Rightarrow> nat \<Rightarrow> (u64 \<times> u32 \<times> bool) list" where
  "vring_walk 0 f i = []"
| "vring_walk (Suc n) f i =
     (vd_addr (f i), vd_len (f i), vd_flags (f i) AND VRING_DESC_F_WRITE \<noteq> 0) #
     (if vd_flags (f i) AND VRING_DESC_F_NEXT \<noteq> 0 then vring_walk n f (unat (vd_next (f i))) else [])"

definition buffer_of :: "vring_desc \<Rightarrow> u64 \<times> u32 \<times> bool" where
  "buffer_of d = (vd_addr d, vd_len d, vd_flags d AND VRING_DESC_F_WRITE \<noteq> 0)"

text \<open>The descriptors that \<open>virtio_add_buf\<close> takes: the caller's \<open>next\<close> says which one is free next.\<close>

fun taken :: "u16 \<Rightarrow> vring_desc list \<Rightarrow> nat list" where
  "taken i [] = []"
| "taken i (d # ds) = unat i # taken (vd_next d) ds"

text \<open>The loop of \<open>virtio_add_buf\<close> on the table.\<close>

fun table_add :: "u16 option \<Rightarrow> u16 \<Rightarrow> vring_desc list \<Rightarrow> (nat \<Rightarrow> vring_desc) \<Rightarrow> u16 option \<times> u16 \<times> (nat \<Rightarrow> vring_desc)" where
  "table_add prev i [] f = (prev, i, f)"
| "table_add prev i (d # ds) f =
     (let f1 = f(unat i := d);
          f2 = (case prev of
                  None \<Rightarrow> f1
                | Some p \<Rightarrow> f1(unat p := (f1 (unat p))\<lparr>vd_flags := vd_flags (f1 (unat p)) OR VRING_DESC_F_NEXT, vd_next := i\<rparr>))
      in table_add (Some i) (vd_next (f2 (unat i))) ds f2)"

text \<open>Memory elsewhere, observed by \<open>rq\<close>, that accesses to the queue leave alone.\<close>

definition quiet :: "'h hw \<Rightarrow> ('h \<Rightarrow> 'r) \<Rightarrow> virtqueue \<Rightarrow> bool" where
  "quiet hw rq vq \<longleftrightarrow> (\<forall>i h.
     (i + 2 \<le> 18 * unat (vq_num vq) + 4 \<longrightarrow>
        (\<forall>v. rq (w16 hw (vq_desc vq + of_nat i) v h) = rq h) \<and> rq (snd (r16 hw (vq_desc vq + of_nat i) h)) = rq h) \<and>
     (i + 4 \<le> 18 * unat (vq_num vq) + 4 \<longrightarrow> (\<forall>v. rq (w32 hw (vq_desc vq + of_nat i) v h) = rq h)) \<and>
     (i + 8 \<le> 18 * unat (vq_num vq) + 4 \<longrightarrow> (\<forall>v. rq (w64 hw (vq_desc vq + of_nat i) v h) = rq h)))"

lemma quietD:
  assumes "quiet hw rq vq"
  shows "i + 2 \<le> 18 * unat (vq_num vq) + 4 \<Longrightarrow> rq (w16 hw (vq_desc vq + of_nat i) v h) = rq h"
    and "i + 2 \<le> 18 * unat (vq_num vq) + 4 \<Longrightarrow> rq (snd (r16 hw (vq_desc vq + of_nat i) h)) = rq h"
    and "i + 4 \<le> 18 * unat (vq_num vq) + 4 \<Longrightarrow> rq (w32 hw (vq_desc vq + of_nat i) l h) = rq h"
    and "i + 8 \<le> 18 * unat (vq_num vq) + 4 \<Longrightarrow> rq (w64 hw (vq_desc vq + of_nat i) a h) = rq h"
  using assms unfolding quiet_def by blast+

lemma quiet_desc:
  assumes z: "quiet hw rq vq" and i: "unat i < unat (vq_num vq)"
  shows "rq (st_desc hw (desc_at (vq_desc vq) i) d h) = rq h"
    and "rq (w16 hw (desc_at (vq_desc vq) i + 12) v h) = rq h" and "rq (w16 hw (desc_at (vq_desc vq) i + 14) v h) = rq h"
    and "rq (snd (r16 hw (desc_at (vq_desc vq) i + 14) h)) = rq h" and "rq (rmw16 hw (desc_at (vq_desc vq) i + 12) f h) = rq h"
proof -
  have o: "16 * unat i + 16 \<le> 18 * unat (vq_num vq) + 4" using i by simp
  have w: "rq (w16 hw (desc_at (vq_desc vq) i + 12) v h) = rq h" "rq (w16 hw (desc_at (vq_desc vq) i + 14) v h) = rq h"
    "rq (snd (r16 hw (desc_at (vq_desc vq) i + 12) h)) = rq h" "rq (snd (r16 hw (desc_at (vq_desc vq) i + 14) h)) = rq h"
    "rq (w32 hw (desc_at (vq_desc vq) i + 8) v' h) = rq h" "rq (w64 hw (desc_at (vq_desc vq) i) v'' h) = rq h" for v v' v'' h
    unfolding desc_at_offs unfolding desc_at_nat by (rule quietD [OF z], use o in linarith)+
  then show "rq (w16 hw (desc_at (vq_desc vq) i + 12) v h) = rq h" "rq (w16 hw (desc_at (vq_desc vq) i + 14) v h) = rq h"
    "rq (snd (r16 hw (desc_at (vq_desc vq) i + 14) h)) = rq h" "rq (st_desc hw (desc_at (vq_desc vq) i) d h) = rq h"
    by (simp_all add: st_desc_def)
  show "rq (rmw16 hw (desc_at (vq_desc vq) i + 12) f h) = rq h"
    using w(1,3) by (simp add: rmw16_def split: prod.split) (metis snd_conv)
qed

lemma add_descs_table:
  assumes q: "queue_ok hw mem vq" and z: "quiet hw rq vq" and "\<forall>j \<in> set (taken i ds). j < unat (vq_num vq)"
    and "\<And>p. prev = Some p \<Longrightarrow> unat p < unat (vq_num vq) \<and> unat p \<notin> set (taken i ds)" and "distinct (taken i ds)"
  defines "num \<equiv> unat (vq_num vq)"
  shows "\<exists>h'. add_descs hw (vq_desc vq) prev (ucast i) ds h =
      (fst (table_add prev i ds (dtab num (mem h))), ucast (fst (snd (table_add prev i ds (dtab num (mem h))))), h') \<and>
    dtab num (mem h') = snd (snd (table_add prev i ds (dtab num (mem h)))) \<and> ring_same num (mem h) (mem h') \<and> rq h' = rq h"
  using assms(3-5)
proof (induction ds arbitrary: prev i h)
  case Nil
  then show ?case by (simp add: ring_same_def)
next
  case (Cons d ds)
  have i: "unat i < unat (vq_num vq)" using Cons.prems(1) by simp
  note o = desc_ops [OF q i, folded num_def] and st = st_desc_op [OF q i, folded num_def]
  have u: "(ucast (ucast i :: u32) :: u16) = i" by (rule bit_word_eqI) (simp add: bit_simps)
  define h1 where "h1 = w16 hw (desc_at (vq_desc vq) i + 12) (vd_flags d) (st_desc hw (desc_at (vq_desc vq) i) d h)"
  have h1: "dtab num (mem h1) = (dtab num (mem h))(unat i := d)" "ring_same num (mem h) (mem h1)"
    using st(1) st(2) o(1,5) unfolding h1_def by (simp, metis ring_same_trans)
  define h2 where "h2 = (case prev of None \<Rightarrow> h1
    | Some p \<Rightarrow> w16 hw (desc_at (vq_desc vq) p + 14) i (rmw16 hw (desc_at (vq_desc vq) p + 12) (\<lambda>f. f OR VRING_DESC_F_NEXT) h1))"
  define f2 where "f2 = (let f1 = (dtab num (mem h))(unat i := d) in case prev of None \<Rightarrow> f1
    | Some p \<Rightarrow> f1(unat p := (f1 (unat p))\<lparr>vd_flags := vd_flags (f1 (unat p)) OR VRING_DESC_F_NEXT, vd_next := i\<rparr>))"
  have h2: "dtab num (mem h2) = f2 \<and> ring_same num (mem h) (mem h2)"
  proof (cases prev)
    case None
    then show ?thesis using h1 by (simp add: h2_def f2_def)
  next
    case (Some p)
    have p: "unat p < unat (vq_num vq)" using Cons.prems(2) Some by simp
    have "ring_same num (mem h1) (mem h2)"
      using rmw_flags(2) [OF q p, folded num_def] desc_ops(6) [OF q p, folded num_def] ring_same_trans
      unfolding h2_def Some by fastforce
    then show ?thesis
      using h1 ring_same_trans rmw_flags(1) [OF q p, folded num_def] desc_ops(2) [OF q p, folded num_def]
      by (auto simp: h2_def f2_def Some)
  qed
  note zi = quiet_desc [OF z i]
  have rq2: "rq h2 = rq h"
  proof (cases prev)
    case (Some p)
    have "unat p < unat (vq_num vq)" using Cons.prems(2) Some by simp
    from quiet_desc [OF z this] show ?thesis by (simp add: h2_def h1_def Some zi)
  qed (simp add: h2_def h1_def zi)
  obtain nx h3 where r: "r16 hw (desc_at (vq_desc vq) i + 14) h2 = (nx, h3)" by fastforce
  have rq3: "rq h3 = rq h" using zi(4) [of h2] r rq2 by simp
  have nx: "nx = vd_next (f2 (unat i))" "mem h3 = mem h2" using o(11,12) [of h2] r h2 by auto
  have step: "add_descs hw (vq_desc vq) prev (ucast i) (d # ds) h = add_descs hw (vq_desc vq) (Some i) (ucast nx) ds h3"
    using r unfolding h2_def h1_def by (simp add: u Let_def split: option.splits)
  have ts: "table_add prev i (d # ds) (dtab num (mem h)) = table_add (Some i) nx ds f2"
    by (simp add: nx f2_def Let_def)
  have "f2 (unat i) = d" using Cons.prems(2) by (auto simp: f2_def Let_def split: option.splits)
  then have n: "nx = vd_next d" by (simp add: nx)
  have "\<exists>h'. add_descs hw (vq_desc vq) (Some i) (ucast nx) ds h3 =
      (fst (table_add (Some i) nx ds (dtab num (mem h3))), ucast (fst (snd (table_add (Some i) nx ds (dtab num (mem h3))))), h') \<and>
    dtab num (mem h') = snd (snd (table_add (Some i) nx ds (dtab num (mem h3)))) \<and> ring_same num (mem h3) (mem h') \<and> rq h' = rq h3"
    using Cons.prems i by (intro Cons.IH) (auto simp: n)
  then show ?case
    unfolding step ts nx(2) rq3 using h2 ring_same_trans by fastforce
qed

lemma flag_facts:
  fixes x :: u16
  shows "(x OR VRING_DESC_F_NEXT) AND VRING_DESC_F_NEXT \<noteq> 0" "(x AND NOT VRING_DESC_F_NEXT) AND VRING_DESC_F_NEXT = 0"
    "(x OR VRING_DESC_F_NEXT) AND VRING_DESC_F_WRITE = x AND VRING_DESC_F_WRITE"
    "(x AND NOT VRING_DESC_F_NEXT) AND VRING_DESC_F_WRITE = x AND VRING_DESC_F_WRITE" "VRING_DESC_F_NEXT \<noteq> 0"
proof -
  have n: "bit VRING_DESC_F_NEXT k \<longleftrightarrow> k = 0" and w: "bit VRING_DESC_F_WRITE k \<longleftrightarrow> k = 1" for k
    using bit_push_bit_iff [of 1 "1 :: u16" k]
    by (auto simp: VRING_DESC_F_NEXT_def VRING_DESC_F_WRITE_def bit_1_iff push_bit_eq_mult)
  show "VRING_DESC_F_NEXT \<noteq> 0" by (simp add: VRING_DESC_F_NEXT_def)
  show "(x OR VRING_DESC_F_NEXT) AND VRING_DESC_F_NEXT \<noteq> 0"
  proof
    assume "(x OR VRING_DESC_F_NEXT) AND VRING_DESC_F_NEXT = 0"
    then have "bit ((x OR VRING_DESC_F_NEXT) AND VRING_DESC_F_NEXT) 0 = bit (0 :: u16) 0" by simp
    then show False by (simp add: bit_simps n)
  qed
  show "(x AND NOT VRING_DESC_F_NEXT) AND VRING_DESC_F_NEXT = 0"
    and "(x OR VRING_DESC_F_NEXT) AND VRING_DESC_F_WRITE = x AND VRING_DESC_F_WRITE"
    and "(x AND NOT VRING_DESC_F_NEXT) AND VRING_DESC_F_WRITE = x AND VRING_DESC_F_WRITE"
    by (rule bit_word_eqI, auto simp: bit_simps n w)+
qed

lemma table_add_keeps:
  "j \<notin> set (taken i ds) \<Longrightarrow> (\<And>p. prev = Some p \<Longrightarrow> unat p \<noteq> j) \<Longrightarrow>
   distinct (taken i ds) \<Longrightarrow> (\<And>p. prev = Some p \<Longrightarrow> unat p \<notin> set (taken i ds)) \<Longrightarrow>
   snd (snd (table_add prev i ds f)) j = f j"
proof (induction ds arbitrary: prev i f)
  case (Cons d ds)
  have d: "vd_next ((case prev of None \<Rightarrow> f(unat i := d) | Some p \<Rightarrow> (f(unat i := d))(unat p :=
     ((f(unat i := d)) (unat p))\<lparr>vd_flags := vd_flags ((f(unat i := d)) (unat p)) OR VRING_DESC_F_NEXT, vd_next := i\<rparr>)) (unat i)) = vd_next d"
    using Cons.prems(4) by (auto split: option.splits)
  show ?case
    using Cons.prems Cons.IH [of "vd_next d" "Some i"] by (auto simp: Let_def d split: option.splits)
qed simp

definition end_chain :: "u16 \<Rightarrow> (nat \<Rightarrow> vring_desc) \<Rightarrow> nat \<Rightarrow> vring_desc" where
  "end_chain l f = f(unat l := (f (unat l))\<lparr>vd_flags := vd_flags (f (unat l)) AND NOT VRING_DESC_F_NEXT\<rparr>)"

lemma table_add_walk:
  assumes "ds \<noteq> []" and "distinct (taken i ds)" and "\<And>p. prev = Some p \<Longrightarrow> unat p \<notin> set (taken i ds)" and "length ds \<le> n"
  shows "\<exists>l f'. table_add prev i ds f = (Some l, vd_next (last ds), f') \<and> unat l \<in> set (taken i ds) \<and>
    (\<forall>p. prev = Some p \<longrightarrow> f' (unat p) = (f (unat p))\<lparr>vd_flags := vd_flags (f (unat p)) OR VRING_DESC_F_NEXT, vd_next := i\<rparr>) \<and>
    vring_walk n (end_chain l f') (unat i) = map buffer_of ds"
  using assms
proof (induction ds arbitrary: prev i f n)
  case (Cons d ds)
  define f2 where "f2 = (let f1 = f(unat i := d) in case prev of None \<Rightarrow> f1
    | Some p \<Rightarrow> f1(unat p := (f1 (unat p))\<lparr>vd_flags := vd_flags (f1 (unat p)) OR VRING_DESC_F_NEXT, vd_next := i\<rparr>))"
  have f2i: "f2 (unat i) = d" using Cons.prems(3) by (auto simp: f2_def Let_def split: option.splits)
  have f2p: "f2 (unat p) = (f (unat p))\<lparr>vd_flags := vd_flags (f (unat p)) OR VRING_DESC_F_NEXT, vd_next := i\<rparr>" if "prev = Some p" for p
    using Cons.prems(3) [OF that] that by (auto simp: f2_def Let_def)
  have ts: "table_add prev i (d # ds) f = table_add (Some i) (vd_next d) ds f2"
    using f2i by (simp add: f2_def Let_def)
  obtain n' where n: "n = Suc n'" using Cons.prems(4) by (cases n) auto
  show ?case
  proof (cases "ds = []")
    case True
    have "vring_walk n (end_chain i f2) (unat i) = map buffer_of (d # ds)"
      using f2i by (simp add: True n end_chain_def buffer_of_def flag_facts)
    moreover have "table_add prev i (d # ds) f = (Some i, vd_next (last (d # ds)), f2)"
      unfolding ts by (simp add: True)
    ultimately show ?thesis using f2p by (intro exI [of _ i] exI [of _ f2]) simp
  next
    case False
    obtain l f' where l: "table_add (Some i) (vd_next d) ds f2 = (Some l, vd_next (last ds), f')" "unat l \<in> set (taken (vd_next d) ds)"
      "f' (unat i) = d\<lparr>vd_flags := vd_flags d OR VRING_DESC_F_NEXT\<rparr>"
      "vring_walk n' (end_chain l f') (unat (vd_next d)) = map buffer_of ds"
      using Cons.IH [OF False, of "vd_next d" "Some i" n' f2] Cons.prems n f2i by auto
    have keep: "f' j = f2 j" if "j \<notin> set (taken i (d # ds))" for j
      using table_add_keeps [of j "vd_next d" ds "Some i" f2] l(1) that Cons.prems(2) by auto
    have li: "unat l \<noteq> unat i" using l(2) Cons.prems(2) by auto
    have "vring_walk n (end_chain l f') (unat i) = map buffer_of (d # ds)"
      using l(3,4) li by (simp add: n end_chain_def buffer_of_def flag_facts)
    moreover have "f' (unat p) = (f (unat p))\<lparr>vd_flags := vd_flags (f (unat p)) OR VRING_DESC_F_NEXT, vd_next := i\<rparr>" if "prev = Some p" for p
      using keep f2p that Cons.prems(3) by auto
    moreover have "table_add prev i (d # ds) f = (Some l, vd_next (last (d # ds)), f')"
      unfolding ts l(1) using False by simp
    ultimately show ?thesis using l(2) by (intro exI [of _ l] exI [of _ f']) simp
  qed
qed simp

text \<open>The accesses to the available ring.\<close>

lemma avail_ops:
  assumes q: "queue_ok hw mem vq" and k: "unat k < unat (vq_num vq)"
  defines "num \<equiv> unat (vq_num vq)" and "a \<equiv> vq_avail vq"
  shows "dtab num (mem (w16 hw (a + 2) w h)) = dtab num (mem h)" and "av_idx num (mem (w16 hw (a + 2) w h)) = w"
    and "av_ring num (mem (w16 hw (a + 2) w h)) = av_ring num (mem h)"
    and "dtab num (mem (w16 hw (a + 4 + 2 * ucast (k :: u16)) w h)) = dtab num (mem h)"
    and "av_idx num (mem (w16 hw (a + 4 + 2 * ucast k) w h)) = av_idx num (mem h)"
    and "av_ring num (mem (w16 hw (a + 4 + 2 * ucast k) w h)) = (av_ring num (mem h))(unat k := w)"
    and "fst (r16 hw (a + 2) h) = av_idx num (mem h)" and "mem (snd (r16 hw (a + 2) h)) = mem h"
proof -
  have ra: "ram_area hw mem (vq_desc vq) (18 * num + 4)" using q by (simp add: queue_ok_def num_def)
  have a2: "a + 2 = vq_desc vq + of_nat (16 * num + 2)" and ak: "a + 4 + 2 * ucast k = vq_desc vq + of_nat (16 * num + 4 + 2 * unat k)"
    using q by (simp_all add: queue_ok_def a_def num_def)
  have kn: "unat k < num" using k by (simp add: num_def)
  have p2: "put_le 2 (mem h) (16 * num + 2) w = Some (mem (w16 hw (a + 2) w h))"
    unfolding a2 by (rule ram_areaD [OF ra]) simp
  have pk: "put_le 2 (mem h) (16 * num + 4 + 2 * unat k) w = Some (mem (w16 hw (a + 4 + 2 * ucast k) w h))"
    unfolding ak by (rule ram_areaD [OF ra]) (use kn in linarith)
  note o2 = put_views [OF p2] and ok = put_views [OF pk]
  have low: "ld_desc m' j = ld_desc m j"
    if p: "put_le 2 m off w = Some m'" and "16 * num \<le> off" and "j < num" for m m' off j
  proof -
    note o = put_views(2) [OF p]
    have "get_le 8 m' (16 * j) = (get_le 8 m (16 * j) :: u64 option)"
      "get_le 4 m' (16 * j + 8) = (get_le 4 m (16 * j + 8) :: u32 option)"
      "get_le 2 m' (16 * j + 12) = (get_le 2 m (16 * j + 12) :: u16 option)"
      "get_le 2 m' (16 * j + 14) = (get_le 2 m (16 * j + 14) :: u16 option)"
      using that(2,3) by (auto intro!: o)
    then show ?thesis by (simp add: ld_desc_def)
  qed
  show "dtab num (mem (w16 hw (a + 2) w h)) = dtab num (mem h)"
    and "dtab num (mem (w16 hw (a + 4 + 2 * ucast k) w h)) = dtab num (mem h)"
    using low [OF p2] low [OF pk] by (auto simp: dtab_def fun_eq_iff)
  show "av_idx num (mem (w16 hw (a + 2) w h)) = w" unfolding av_idx_def using o2(1) by simp
  show "av_ring num (mem (w16 hw (a + 2) w h)) = av_ring num (mem h)"
    unfolding av_ring_def by (intro ext arg_cong [where f = the] o2(2)) simp_all
  show "av_idx num (mem (w16 hw (a + 4 + 2 * ucast k) w h)) = av_idx num (mem h)"
    unfolding av_idx_def by (intro arg_cong [where f = the] ok(2)) simp_all
  show "av_ring num (mem (w16 hw (a + 4 + 2 * ucast k) w h)) = (av_ring num (mem h))(unat k := w)"
  proof
    fix j
    show "av_ring num (mem (w16 hw (a + 4 + 2 * ucast k) w h)) j = ((av_ring num (mem h))(unat k := w)) j"
    proof (cases "j = unat k")
      case True
      then show ?thesis unfolding av_ring_def using ok(1) by simp
    next
      case False
      then show ?thesis unfolding av_ring_def by (auto intro!: arg_cong [where f = the] ok(2))
    qed
  qed
  show "fst (r16 hw (a + 2) h) = av_idx num (mem h)" and "mem (snd (r16 hw (a + 2) h)) = mem h"
    unfolding a2 av_idx_def using ram_areaD(4,5) [OF ra, of "16 * num + 2" h] by simp_all
qed

lemma slot:
  fixes i :: u16 and n :: u32
  assumes "0 < n" and "n \<le> 64"
  shows "unat (ucast (ucast i mod n) :: u16) = unat i mod unat n"
proof -
  have "unat n \<le> 64" "0 < unat n" using assms by (auto simp: word_le_nat_alt word_less_nat_alt)
  moreover have "unat (ucast i :: u32) = unat i"
    using unsigned_less [of i, where ?'a = nat] by (simp add: unsigned_ucast_eq take_bit_eq_mod)
  ultimately have "unat ((ucast i :: u32) mod n) = unat i mod unat n" and "unat i mod unat n < 64"
    using mod_less_divisor [of "unat n" "unat i"] by (simp_all add: unat_mod del: mod_less_divisor)
  then show ?thesis by (simp add: unsigned_ucast_eq take_bit_eq_mod)
qed

lemma publish_ops:
  assumes q: "queue_ok hw mem vq"
  defines "num \<equiv> unat (vq_num vq)"
  shows "dtab num (mem (publish hw vq head h)) = dtab num (mem h)"
    and "av_idx num (mem (publish hw vq head h)) = av_idx num (mem h) + 1"
    and "av_ring num (mem (publish hw vq head h)) = (av_ring num (mem h))(unat (av_idx num (mem h)) mod num := head)"
proof -
  have n: "0 < vq_num vq" "vq_num vq \<le> 64" using q by (auto simp: queue_ok_def)
  let ?a = "vq_avail vq"
  obtain i h1 where r: "r16 hw (?a + 2) h = (i, h1)" by fastforce
  define k :: u16 where "k = ucast (ucast i mod vq_num vq)"
  have k: "unat k = unat i mod num" "unat k < unat (vq_num vq)"
    using slot [OF n, of i] n by (auto simp: k_def num_def word_less_nat_alt)
  note o = avail_ops [OF q k(2), folded num_def]
  have i: "i = av_idx num (mem h)" "mem h1 = mem h" using o(7,8) [of h] r by auto
  define h2 where "h2 = w16 hw (?a + 4 + 2 * ucast k) head h1"
  obtain j h3 where r3: "r16 hw (?a + 2) h2 = (j, h3)" by fastforce
  have j: "j = av_idx num (mem h2)" "mem h3 = mem h2" using o(7,8) [of h2] r3 by auto
  have p: "publish hw vq head h = w16 hw (?a + 2) (j + 1) h3"
    using r3 by (simp add: publish_def r rmw16_def k_def h2_def)
  show "dtab num (mem (publish hw vq head h)) = dtab num (mem h)"
    and "av_idx num (mem (publish hw vq head h)) = av_idx num (mem h) + 1"
    and "av_ring num (mem (publish hw vq head h)) = (av_ring num (mem h))(unat (av_idx num (mem h)) mod num := head)"
    using o(1-6) i j k(1) by (simp_all add: p h2_def)
qed

text \<open>
  A request on offer: the index of the available ring has passed \<open>a\<close>, the entry for \<open>a\<close> names the first
  descriptor of a chain, and a device that follows the chain finds these buffers.
\<close>

definition offered :: "nat \<Rightarrow> bytes \<Rightarrow> u16 \<Rightarrow> u16 \<Rightarrow> (u64 \<times> u32 \<times> bool) list \<Rightarrow> bool" where
  "offered num m a head bufs \<longleftrightarrow>
     av_idx num m = a + 1 \<and> av_ring num m (unat a mod num) = head \<and> vring_walk num (dtab num m) (unat head) = bufs"

lemma quiet_publish:
  assumes q: "queue_ok hw mem vq" and z: "quiet hw rq vq"
  shows "rq (publish hw vq head h) = rq h"
proof -
  have n: "0 < vq_num vq" "vq_num vq \<le> 64" and a: "vq_avail vq = vq_desc vq + 16 * ucast (vq_num vq)" using q by (auto simp: queue_ok_def)
  let ?a = "vq_avail vq"
  have a2: "?a + 2 = vq_desc vq + of_nat (16 * unat (vq_num vq) + 2)" by (simp add: a)
  have w2: "rq (w16 hw (?a + 2) v h) = rq h" "rq (snd (r16 hw (?a + 2) h)) = rq h" for v h
    unfolding a2 by (rule quietD [OF z], linarith)+
  have wk: "rq (w16 hw (?a + 4 + 2 * ucast k) v h) = rq h" if "unat (k :: u16) < unat (vq_num vq)" for k v h
  proof -
    have "?a + 4 + 2 * ucast k = vq_desc vq + of_nat (16 * unat (vq_num vq) + 4 + 2 * unat k)" by (simp add: a)
    then show ?thesis by (simp only:) (rule quietD(1) [OF z], use that in linarith)
  qed
  obtain i h1 where r: "r16 hw (?a + 2) h = (i, h1)" by fastforce
  define k :: u16 where "k = ucast (ucast i mod vq_num vq)"
  have k: "unat k < unat (vq_num vq)" using slot [OF n, of i] n by (auto simp: k_def word_less_nat_alt)
  obtain j h3 where r3: "r16 hw (?a + 2) (w16 hw (?a + 4 + 2 * ucast k) head h1) = (j, h3)" by fastforce
  have "rq h1 = rq h" "rq h3 = rq h1" using w2(2) [of h] r w2(2) r3 wk [OF k] by (metis snd_conv)+
  then show ?thesis using r3 by (simp add: publish_def r rmw16_def w2 flip: k_def)
qed

lemma add_buf_offers:
  assumes q: "queue_ok hw mem vq" and z: "quiet hw rq vq" and "ds \<noteq> []" and "length ds \<le> unat (vq_num vq)" and "distinct (taken head ds)"
    and "\<forall>j \<in> set (taken head ds). j < unat (vq_num vq)" and "vq_free_desc vq = ucast head" and "rd (vq_data vq) (unat head) = Some None"
  defines "num \<equiv> unat (vq_num vq)"
  shows "\<exists>h'. virtio_add_buf hw vq ds c h =
      Some (0, vq\<lparr>vq_free_desc := ucast (vd_next (last ds)), vq_data := (vq_data vq)[unat head := Some c]\<rparr>, h') \<and>
    offered num (mem h') (av_idx num (mem h)) head (map buffer_of ds) \<and> rq h' = rq h"
proof -
  have u: "(ucast (ucast head :: u32) :: u16) = head" by (rule bit_word_eqI) (simp add: bit_simps)
  have n0: "vq_num vq \<noteq> 0" using q by (auto simp: queue_ok_def)
  obtain l f' where t: "table_add None head ds (dtab num (mem h)) = (Some l, vd_next (last ds), f')" "unat l \<in> set (taken head ds)"
    "vring_walk num (end_chain l f') (unat head) = map buffer_of ds"
    using table_add_walk [OF assms(3,5), of None num "dtab num (mem h)"] assms(4) by (auto simp: num_def)
  obtain h1 where h1: "add_descs hw (vq_desc vq) None (ucast head) ds h = (Some l, ucast (vd_next (last ds)), h1)"
    "dtab num (mem h1) = f'" "ring_same num (mem h) (mem h1)" "rq h1 = rq h"
    using add_descs_table [OF q z assms(6) _ assms(5), of None h] t(1) by (auto simp: num_def)
  have l: "unat l < unat (vq_num vq)" using t(2) assms(6) by blast
  define h2 where "h2 = rmw16 hw (desc_at (vq_desc vq) l + 12) (\<lambda>f. f AND NOT VRING_DESC_F_NEXT) h1"
  have h2: "dtab num (mem h2) = end_chain l f'" "ring_same num (mem h) (mem h2)"
    using rmw_flags [OF q l, folded num_def, where h = h1] h1(2,3) ring_same_trans by (auto simp: h2_def end_chain_def)
  have "virtio_add_buf hw vq ds c h = Some (0, vq\<lparr>vq_free_desc := ucast (vd_next (last ds)),
      vq_data := (vq_data vq)[unat head := Some c]\<rparr>, publish hw vq head h2)"
    using assms(3,7,8) n0 h1(1) by (simp add: virtio_add_buf_def u h2_def)
  moreover have "offered num (mem (publish hw vq head h2)) (av_idx num (mem h)) head (map buffer_of ds)"
    using publish_ops [OF q, folded num_def, of head h2] h2 t(3) by (simp add: offered_def ring_same_def)
  moreover have "rq (publish hw vq head h2) = rq h"
    using quiet_publish [OF q z, of head h2] quiet_desc(5) [OF z l] h1(4) by (simp add: h2_def)
  ultimately show ?thesis by blast
qed

section \<open>A block request\<close>

text \<open>
  A device that finishes the chain at \<open>head\<close> after \<open>n\<close> looks at the used ring which show nothing new: then the
  index has moved and the next entry names \<open>head\<close>.
\<close>

fun completes :: "'h hw \<Rightarrow> virtqueue \<Rightarrow> u16 \<Rightarrow> nat \<Rightarrow> 'h \<Rightarrow> 'h \<Rightarrow> bool" where
  "completes hw vq head 0 h h' \<longleftrightarrow>
     (case r16 hw (vq_used vq + 2) h of
        (i, h1) \<Rightarrow> i \<noteq> vq_last_used vq \<and> (case r32 hw (used_elem vq) h1 of (e, h2) \<Rightarrow> ucast e = head \<and> h' = h2))"
| "completes hw vq head (Suc n) h h' \<longleftrightarrow>
     (case r16 hw (vq_used vq + 2) h of (i, h1) \<Rightarrow> i = vq_last_used vq \<and> completes hw vq head n h1 h')"

definition retired :: "u16 \<Rightarrow> virtqueue \<Rightarrow> virtqueue" where
  "retired head vq =
     vq\<lparr>vq_data := (vq_data vq)[unat head := None], vq_free_desc := ucast head, vq_last_used := vq_last_used vq + 1\<rparr>"

text \<open>The state after the driver has given the descriptor back and read the length.\<close>

definition taken_back :: "'h hw \<Rightarrow> virtqueue \<Rightarrow> u16 \<Rightarrow> 'h \<Rightarrow> 'h" where
  "taken_back hw vq head h =
     snd (r32 hw (used_elem vq + 4) (w16 hw (desc_at (vq_desc vq) head + 14) (ucast (vq_free_desc vq)) h))"

lemma wait_cookie_completes:
  assumes "completes hw vq head n h h'" and "rd (vq_data vq) (unat head) = Some (Some c)" and "vq_num vq \<noteq> 0"
  shows "wait_cookie hw c vq h = Some (retired head vq, taken_back hw vq head h')"
  using assms(1)
proof (induction n arbitrary: h)
  case 0
  then show ?case
    using assms(2,3)
    by (subst wait_cookie.simps)
      (auto simp: virtio_get_buf_def retired_def taken_back_def Let_def split: prod.splits)
next
  case (Suc n)
  then obtain h1 where "r16 hw (vq_used vq + 2) h = (vq_last_used vq, h1)" and "completes hw vq head n h1 h'"
    by (auto split: prod.splits)
  then show ?case using Suc.IH [of h1] by (subst wait_cookie.simps) (simp add: virtio_get_buf_def)
qed

text \<open>A queue with no request under way, large enough for the three descriptors of a block request.\<close>

definition queue_idle :: "virtqueue \<Rightarrow> bool" where
  "queue_idle vq \<longleftrightarrow> vq_free_desc vq = 0 \<and> rd (vq_data vq) 0 = Some None \<and> 3 \<le> unat (vq_num vq)"

text \<open>The memory of a request is not part of the queue.\<close>

definition apart :: "'h hw \<Rightarrow> 'h kmem \<Rightarrow> ('h \<Rightarrow> bytes) \<Rightarrow> u64 \<Rightarrow> bool" where
  "apart hw km mem req \<longleftrightarrow>
     (\<forall>n h. mem (snd (km_alloc km n h)) = mem h) \<and> (\<forall>v h. mem (w8 hw (req + 16) v h) = mem h) \<and>
     (\<forall>v h. mem (w64 hw (req + 8) v h) = mem h) \<and> (\<forall>v h. mem (w32 hw (req + 4) v h) = mem h) \<and>
     (\<forall>v h. mem (w32 hw req v h) = mem h)"

text \<open>The memory of the request itself: 17 bytes \<open>rq\<close> that the stores of the driver fill.\<close>

definition req_area :: "'h hw \<Rightarrow> ('h \<Rightarrow> bytes) \<Rightarrow> u64 \<Rightarrow> bool" where
  "req_area hw rq req \<longleftrightarrow> (\<forall>h. length (rq h) = 17) \<and>
     (\<forall>v h. put_le 4 (rq h) 0 v = Some (rq (w32 hw req v h))) \<and> (\<forall>v h. put_le 4 (rq h) 4 v = Some (rq (w32 hw (req + 4) v h))) \<and>
     (\<forall>v h. put_le 8 (rq h) 8 v = Some (rq (w64 hw (req + 8) v h))) \<and> (\<forall>v h. put_le 1 (rq h) 16 v = Some (rq (w8 hw (req + 16) v h)))"

text \<open>A header as the virtio specification has the device read it: type 1 to write and 0 to read, a
  reserved word, the number of the first 512-byte sector, and behind it the status byte, 255 until
  the device sets it.\<close>

definition blk_header :: "bytes \<Rightarrow> bool \<Rightarrow> u64 \<Rightarrow> bool" where
  "blk_header m write sector \<longleftrightarrow> get_le 4 m 0 = Some (if write then 1 else 0 :: u32) \<and> get_le 4 m 4 = Some (0 :: u32) \<and>
     get_le 8 m 8 = Some sector \<and> get_le 1 m 16 = Some (255 :: u8)"

lemma st_req_header:
  assumes "req_area hw rq req"
  shows "blk_header (rq (st_req hw req dir sector h)) (dir = REQ_OP_WRITE) sector"
proof -
  define t :: u32 where "t = (if dir = REQ_OP_WRITE then VIRTIO_BLK_T_OUT else VIRTIO_BLK_T_IN)"
  define h1 h2 h3 where "h1 = w32 hw req t h" and "h2 = w32 hw (req + 4) 0 h1" and "h3 = w64 hw (req + 8) sector h2"
  have p: "put_le 4 (rq h) 0 t = Some (rq h1)" "put_le 4 (rq h1) 4 (0 :: u32) = Some (rq h2)"
    "put_le 8 (rq h2) 8 sector = Some (rq h3)" "put_le 1 (rq h3) 16 (255 :: u8) = Some (rq (w8 hw (req + 16) 255 h3))"
    using assms by (simp_all add: req_area_def h1_def h2_def h3_def)
  note v = put_views(1) [OF p(1)] put_views(1) [OF p(2)] put_views(1) [OF p(3)] put_views(1) [OF p(4)]
  have "rq (st_req hw req dir sector h) = rq (w8 hw (req + 16) 255 h3)" by (simp add: st_req_def h3_def h2_def h1_def t_def)
  moreover have "t = (if dir = REQ_OP_WRITE then 1 else 0)" by (simp add: t_def VIRTIO_BLK_T_OUT_def VIRTIO_BLK_T_IN_def)
  ultimately show ?thesis unfolding blk_header_def
    using v by (simp add: put_views(2) [OF p(2)] put_views(2) [OF p(3)] put_views(2) [OF p(4)])
qed

definition blk_buffers :: "'h kmem \<Rightarrow> u64 \<Rightarrow> u64 \<Rightarrow> u32 \<Rightarrow> int \<Rightarrow> (u64 \<times> u32 \<times> bool) list" where
  "blk_buffers km req buf len dir =
     [(VA_PA km req, 16, False), (VA_PA km buf, len, dir = REQ_OP_READ), (VA_PA km (req + 16), 1, True)]"

lemma blk_descs_facts:
  "map buffer_of (blk_descs km req buf len dir) = blk_buffers km req buf len dir"
  "taken 0 (blk_descs km req buf len dir) = [0, 1, 2]" "blk_descs km req buf len dir \<noteq> []"
  "vd_next (last (blk_descs km req buf len dir)) = 0" "length (blk_descs km req buf len dir) = 3"
  by (simp_all add: blk_descs_def buffer_of_def blk_buffers_def VRING_DESC_F_WRITE_def)

text \<open>
  (C26) A block request on an idle queue, with any device that answers the requests offered to it: the driver offers
  exactly the header, the buffer (writable for a read only) and the status byte, in the next entry of the
  available ring, for every position of the ring; the header says whether to read or to write and names
  the sector \<open>lba * (block size / 512)\<close>, the buffer has \<open>nr\<close> blocks, and the status byte is 255. It waits for
  the answer, however long that takes, returns \<open>0\<close> if the status is zero and \<open>-EIO\<close> otherwise, and leaves the
  queue idle again.
\<close>

theorem virtio_blk_io_correct:
  assumes q: "queue_ok hw mem (vdv_vq vdev)" and i: "queue_idle (vdv_vq vdev)"
    and al: "km_alloc km sizeof_virtio_blk_req h = (Some req, h1)" and ap: "apart hw km mem req"
    and ra: "req_area hw rq req" and z: "quiet hw rq (vdv_vq vdev)"
    and dev: "\<And>h. offered (unat (vq_num (vdv_vq vdev))) (mem h) a 0 (blk_buffers km req buf (nr * bs) dir) \<Longrightarrow>
       blk_header (rq h) (dir = REQ_OP_WRITE) (lba * ucast (bs div 512)) \<Longrightarrow>
       \<exists>n h'. completes hw (vdv_vq vdev) 0 n (virtio_mmio_notify hw vdev 0 h) h'"
    and a: "a = av_idx (unat (vq_num (vdv_vq vdev))) (mem h)"
  shows "\<exists>h2 n h3 vq st h5.
    offered (unat (vq_num (vdv_vq vdev))) (mem h2) a 0 (blk_buffers km req buf (nr * bs) dir) \<and>
    blk_header (rq h2) (dir = REQ_OP_WRITE) (lba * ucast (bs div 512)) \<and>
    completes hw (vdv_vq vdev) 0 n (virtio_mmio_notify hw vdev 0 h2) h3 \<and>
    r8 hw (req + 16) (taken_back hw (vdv_vq vdev) 0 h3) = (st, h5) \<and>
    virtio_blk_io hw km vdev bs lba nr buf dir h =
      Some (if st = VIRTIO_BLK_S_OK then 0 else - errno_val EIO, vdev\<lparr>vdv_vq := vq\<rparr>, km_free km req h5) \<and>
    queue_ok hw mem vq \<and> queue_idle vq \<and> vq_last_used vq = vq_last_used (vdv_vq vdev) + 1"
proof -
  define vq where "vq = vdv_vq vdev"
  let ?num = "unat (vq_num vq)" and ?ds = "blk_descs km req buf (nr * bs) dir" and ?sector = "lba * ucast (bs div 512)"
  have free: "vq_free_desc vq = 0" and r: "rd (vq_data vq) 0 = Some None" and n3: "3 \<le> ?num" and n0: "vq_num vq \<noteq> 0"
    using i q by (auto simp: queue_idle_def queue_ok_def vq_def)
  define h2 where "h2 = st_req hw req dir ?sector h1"
  have "mem h1 = mem h" using ap al by (metis apart_def snd_conv)
  then have m2: "mem h2 = mem h" using ap by (simp add: h2_def st_req_def apart_def)
  obtain h3 where h3: "virtio_add_buf hw vq ?ds req h2 = Some (0, vq\<lparr>vq_data := (vq_data vq)[0 := Some req]\<rparr>, h3)"
    "offered ?num (mem h3) a 0 (blk_buffers km req buf (nr * bs) dir)" "rq h3 = rq h2"
    using add_buf_offers [of hw mem vq rq ?ds 0 req h2] q z n3 r free m2 a by (auto simp: blk_descs_facts vq_def)
  have hd: "blk_header (rq h3) (dir = REQ_OP_WRITE) ?sector" unfolding h3(3) h2_def by (rule st_req_header [OF ra])
  let ?vq1 = "vq\<lparr>vq_data := (vq_data vq)[0 := Some req]\<rparr>"
  obtain n h4 where c: "completes hw vq 0 n (virtio_mmio_notify hw vdev 0 h3) h4"
    using dev [OF h3(2) [unfolded vq_def] hd] unfolding vq_def by blast
  have same: "completes hw ?vq1 0 k x y = completes hw vq 0 k x y" for k x y
    by (induction k arbitrary: x) (simp_all add: used_elem_def)
  have d: "rd (vq_data ?vq1) (unat (0 :: u16)) = Some (Some req)" using r by (auto simp: rd_def split: if_splits)
  have w: "wait_cookie hw req ?vq1 (virtio_mmio_notify hw vdev 0 h3) = Some (retired 0 ?vq1, taken_back hw vq 0 h4)"
    using wait_cookie_completes [OF _ d, of hw n] c n0 same by (simp add: taken_back_def used_elem_def)
  have re: "retired 0 ?vq1 = vq\<lparr>vq_last_used := vq_last_used vq + 1\<rparr>"
    using r free by (auto simp: retired_def rd_def list_update_same_conv split: if_splits)
  obtain st h5 where st: "r8 hw (req + 16) (taken_back hw vq 0 h4) = (st, h5)" by fastforce
  have "virtio_blk_io hw km vdev bs lba nr buf dir h =
      Some (if st = VIRTIO_BLK_S_OK then 0 else - errno_val EIO, vdev\<lparr>vdv_vq := vq\<lparr>vq_last_used := vq_last_used vq + 1\<rparr>\<rparr>, km_free km req h5)"
    using h3(1) w st by (simp add: virtio_blk_io_def al h2_def [symmetric] vq_def [symmetric] re)
  moreover have "queue_ok hw mem (vq\<lparr>vq_last_used := vq_last_used vq + 1\<rparr>)" and "queue_idle (vq\<lparr>vq_last_used := vq_last_used vq + 1\<rparr>)"
    using q i by (simp_all add: queue_ok_def queue_idle_def vq_def)
  ultimately show ?thesis using h3(2) hd c st unfolding vq_def by (intro exI conjI) (assumption | simp)+
qed

section \<open>Witness\<close>

text \<open>A queue of three descriptors at address 0, a request behind it, and a device that answers at once.\<close>

definition demo_ram :: "bytes \<Rightarrow> bytes" where
  "demo_ram h = take 75 (h @ replicate 75 0)"

definition demo_area :: "bytes \<Rightarrow> bytes" where
  "demo_area h = take 58 (demo_ram h)"

definition demo_req :: "bytes \<Rightarrow> bytes" where
  "demo_req h = drop 58 (demo_ram h)"

definition demo_put :: "nat \<Rightarrow> u64 \<Rightarrow> 'a::len word \<Rightarrow> bytes \<Rightarrow> bytes" where
  "demo_put k a v h = (case put_le k (demo_ram h) (unat a) v of None \<Rightarrow> h | Some m \<Rightarrow> m)"

definition demo_get :: "nat \<Rightarrow> 'a::len word \<Rightarrow> u64 \<Rightarrow> bytes \<Rightarrow> 'a word \<times> bytes" where
  "demo_get k other a h = (case get_le k (demo_ram h) (unat a) of None \<Rightarrow> (other, h) | Some v \<Rightarrow> (v, h))"

definition demo_disk :: "bytes hw" where
  "demo_disk = \<lparr>r8 = demo_get 1 0, r16 = demo_get 2 1, r32 = demo_get 4 0, r64 = demo_get 8 0,
     w8 = demo_put 1, w16 = demo_put 2, w32 = demo_put 4, w64 = demo_put 8,
     rsys = (\<lambda>_ h. (0, h)), wsys = (\<lambda>_ _ h. h)\<rparr>"

definition demo_kmem :: "bytes kmem" where
  "demo_kmem = \<lparr>km_alloc = (\<lambda>_ h. (Some 58, h)), km_free = (\<lambda>_ h. h), km_alloc_pages = (\<lambda>_ h. (None, h)),
     km_free_pages = (\<lambda>_ h. h), km_alloc_phys = (\<lambda>_ h. (None, h)), km_free_phys = (\<lambda>_ h. h),
     km_ioremap = (\<lambda>_ _ h. (0, h)), km_memremap = (\<lambda>_ _ h. (0, h)), km_offset = 0\<rparr>"

definition demo_vdev :: virtio_device where
  "demo_vdev = \<lparr>vdv_base = 0x3000, vdv_device_id = 2, vdv_irq = 0, vdv_vq = \<lparr>vq_num = 3, vq_free_desc = 0, vq_last_used = 0,
     vq_desc = 0, vq_avail = 48, vq_used = 0x2000, vq_data = replicate 64 None\<rparr>\<rparr>"

lemma demo_lengths [simp]: "length (demo_ram h) = 75" "length (demo_area h) = 58" "length (demo_req h) = 17"
  by (simp_all add: demo_ram_def demo_area_def demo_req_def)

text \<open>A store into the queue and one into the request.\<close>

lemma demo_put_ram:
  assumes "i + k \<le> 75"
  shows "demo_ram (demo_put k (of_nat i) v h) = take i (demo_ram h) @ le_bytes k (unat v) @ drop (i + k) (demo_ram h)"
proof -
  have "unat (of_nat i :: u64) = i" using assms by (simp add: unat_of_nat)
  then have "demo_put k (of_nat i) v h = take i (demo_ram h) @ le_bytes k (unat v) @ drop (i + k) (demo_ram h)"
    using assms by (simp add: demo_put_def put_le_def put_bytes_def)
  moreover have "demo_ram m = m" if "length m = 75" for m using that by (simp add: demo_ram_def)
  ultimately show ?thesis using assms by simp
qed

lemma demo_put_area:
  assumes "i + k \<le> 58"
  shows "put_le k (demo_area h) i v = Some (demo_area (demo_put k (of_nat i) v h))" and "demo_req (demo_put k (of_nat i) v h) = demo_req h"
proof -
  have "i + k \<le> 75" using assms by simp
  note e = demo_put_ram [OF this, of v h]
  show "put_le k (demo_area h) i v = Some (demo_area (demo_put k (of_nat i) v h))"
    unfolding demo_area_def e put_le_def put_bytes_def using assms by (cases "58 \<le> i") (auto simp: min_def drop_take dest: antisym)
  show "demo_req (demo_put k (of_nat i) v h) = demo_req h"
    using assms by (simp add: demo_req_def e drop_take)
qed

lemma demo_put_req:
  assumes "i + k \<le> 17"
  shows "put_le k (demo_req h) i v = Some (demo_req (demo_put k (58 + of_nat i) v h))" and "demo_area (demo_put k (58 + of_nat i) v h) = demo_area h"
proof -
  have "58 + i + k \<le> 75" using assms by simp
  note e = demo_put_ram [OF this, of v h, simplified]
  show "put_le k (demo_req h) i v = Some (demo_req (demo_put k (58 + of_nat i) v h))"
    unfolding demo_req_def e put_le_def put_bytes_def using assms by (simp add: drop_take) (simp add: add_ac)
  show "demo_area (demo_put k (58 + of_nat i) v h) = demo_area h"
    using assms by (simp add: demo_area_def e)
qed

lemma demo_get_state: "snd (demo_get k v a h) = h"
  by (simp add: demo_get_def split: option.split)

lemma demo_queue_ok: "queue_ok demo_disk demo_area (vdv_vq demo_vdev)"
proof -
  have g: "get_le 2 (demo_area h) i = Some (fst (demo_get 2 (1 :: u16) (of_nat i) h))" if "i + 2 \<le> 58" for h i
    using that by (auto simp: demo_get_def unat_of_nat get_le_def demo_area_def drop_take min_def)
  show ?thesis
    using g by (simp add: queue_ok_def ram_area_def demo_vdev_def demo_disk_def demo_put_area demo_get_state)
qed

theorem virtio_blk_io_witness:
  "\<exists>h2 ret vq h. blk_header (demo_req h2) False 56 \<and>
     virtio_blk_io demo_disk demo_kmem demo_vdev 4096 7 1 0x4000 REQ_OP_READ [] = Some (ret, demo_vdev\<lparr>vdv_vq := vq\<rparr>, h) \<and>
     queue_idle vq"
proof -
  have i: "queue_idle (vdv_vq demo_vdev)" by (simp add: queue_idle_def demo_vdev_def rd_def)
  have rw: "req_area demo_disk demo_req 58"
    using demo_put_req(1) [of 0 4, where 'a = 32] demo_put_req(1) [of 4 4, where 'a = 32]
      demo_put_req(1) [of 8 8, where 'a = 64] demo_put_req(1) [of 16 1, where 'a = 8]
    by (simp add: req_area_def demo_disk_def)
  have ap: "apart demo_disk demo_kmem demo_area 58"
    using demo_put_req(2) [of 0 4, where 'a = 32] demo_put_req(2) [of 4 4, where 'a = 32]
      demo_put_req(2) [of 8 8, where 'a = 64] demo_put_req(2) [of 16 1, where 'a = 8]
    by (simp add: apart_def demo_disk_def demo_kmem_def)
  have z: "quiet demo_disk demo_req (vdv_vq demo_vdev)"
    by (simp add: quiet_def demo_disk_def demo_vdev_def demo_put_area demo_get_state)
  have al: "km_alloc demo_kmem sizeof_virtio_blk_req [] = (Some 58, [])" by (simp add: demo_kmem_def)
  have "completes demo_disk (vdv_vq demo_vdev) 0 0 h h" for h
    by (simp add: demo_disk_def demo_vdev_def demo_get_def get_le_def used_elem_def)
  then have dev: "\<exists>n h'. completes demo_disk (vdv_vq demo_vdev) 0 n (virtio_mmio_notify demo_disk demo_vdev 0 h) h'" for h by blast
  have w: "REQ_OP_READ \<noteq> REQ_OP_WRITE" "(7 :: u64) * ucast ((4096 :: u32) div 512) = 56" by (simp_all add: REQ_OP_READ_def REQ_OP_WRITE_def)
  show ?thesis
    using virtio_blk_io_correct [OF demo_queue_ok i al ap rw z dev refl, of "0x4000" 1 4096 REQ_OP_READ 7] w by auto
qed

end
