(* ===== verification/Sdhci.thy ===== *)
theory Sdhci
  imports Driver_Core Hw Gic Block Endian
begin

text \<open>
  The SD host controller: the standard part (\<open>kernel/driver/sdhci/sdhci-core.c\<close>, \<open>sdhci_host.h\<close>) and the card
  protocol (\<open>sd.c\<close>). Registers and the time counter are reached through \<open>Hw\<close>; \<open>None\<close> is a wait that never
  ends. Messages of the log are left out, except that a register which is read for a message is read.
\<close>

section \<open>Registers\<close>

definition SDHCI_BLOCK_SIZE :: u64 where "SDHCI_BLOCK_SIZE = 0x04"
definition SDHCI_BLOCK_COUNT :: u64 where "SDHCI_BLOCK_COUNT = 0x06"
definition SDHCI_ARGUMENT :: u64 where "SDHCI_ARGUMENT = 0x08"
definition SDHCI_TRANSFER_MODE :: u64 where "SDHCI_TRANSFER_MODE = 0x0c"
definition SDHCI_RESPONSE :: u64 where "SDHCI_RESPONSE = 0x10"
definition SDHCI_BUFFER :: u64 where "SDHCI_BUFFER = 0x20"
definition SDHCI_PRESENT_STATE :: u64 where "SDHCI_PRESENT_STATE = 0x24"
definition SDHCI_HOST_CONTROL :: u64 where "SDHCI_HOST_CONTROL = 0x28"
definition SDHCI_POWER_CONTROL :: u64 where "SDHCI_POWER_CONTROL = 0x29"
definition SDHCI_CLOCK_CONTROL :: u64 where "SDHCI_CLOCK_CONTROL = 0x2c"
definition SDHCI_SOFTWARE_RESET :: u64 where "SDHCI_SOFTWARE_RESET = 0x2f"
definition SDHCI_INT_STATUS :: u64 where "SDHCI_INT_STATUS = 0x30"
definition SDHCI_INT_ENABLE :: u64 where "SDHCI_INT_ENABLE = 0x34"
definition SDHCI_SIGNAL_ENABLE :: u64 where "SDHCI_SIGNAL_ENABLE = 0x38"
definition SDHCI_CAPS :: u64 where "SDHCI_CAPS = 0x40"

definition SDHCI_CMD_RESP_MASK :: u32 where "SDHCI_CMD_RESP_MASK = 0x03"
definition SDHCI_CMD_CRC :: u16 where "SDHCI_CMD_CRC = 0x08"
definition SDHCI_CMD_INDEX :: u16 where "SDHCI_CMD_INDEX = 0x10"
definition SDHCI_CMD_DATA :: u32 where "SDHCI_CMD_DATA = 0x20"
definition SDHCI_CMD_RESP_NONE :: u32 where "SDHCI_CMD_RESP_NONE = 0x00"
definition SDHCI_CMD_RESP_LONG :: u32 where "SDHCI_CMD_RESP_LONG = 0x01"
definition SDHCI_CMD_RESP_SHORT :: u32 where "SDHCI_CMD_RESP_SHORT = 0x02"
definition SDHCI_CMD_RESP_SHORT_BUSY :: u32 where "SDHCI_CMD_RESP_SHORT_BUSY = 0x03"
definition SDHCI_TRNS_BLK_CNT_EN :: u16 where "SDHCI_TRNS_BLK_CNT_EN = 0x02"
definition SDHCI_TRNS_MULTI :: u16 where "SDHCI_TRNS_MULTI = 0x20"
definition SDHCI_TRNS_READ :: u16 where "SDHCI_TRNS_READ = 0x10"
definition SDHCI_CMD_INHIBIT :: u32 where "SDHCI_CMD_INHIBIT = 0x00000001"
definition SDHCI_DAT_INHIBIT :: u32 where "SDHCI_DAT_INHIBIT = 0x00000002"
definition SDHCI_SPACE_AVAILABLE :: u32 where "SDHCI_SPACE_AVAILABLE = 0x00000400"
definition SDHCI_DATA_AVAILABLE :: u32 where "SDHCI_DATA_AVAILABLE = 0x00000800"
definition SDHCI_CARD_PRESENT :: u32 where "SDHCI_CARD_PRESENT = 0x00010000"
definition SDHCI_CARD_STATE_STABLE :: u32 where "SDHCI_CARD_STATE_STABLE = 0x00020000"
definition SDHCI_CTRL_4BITBUS :: u8 where "SDHCI_CTRL_4BITBUS = 0x02"
definition SDHCI_CTRL_HISPD :: u8 where "SDHCI_CTRL_HISPD = 0x04"
definition SDHCI_POWER_ON :: u8 where "SDHCI_POWER_ON = 0x01"
definition SDHCI_POWER_330 :: u8 where "SDHCI_POWER_330 = 0x0e"
definition SDHCI_DIVIDER_SHIFT :: nat where "SDHCI_DIVIDER_SHIFT = 8"
definition SDHCI_CLOCK_CARD_EN :: u16 where "SDHCI_CLOCK_CARD_EN = 0x0004"
definition SDHCI_CLOCK_INT_STABLE :: u16 where "SDHCI_CLOCK_INT_STABLE = 0x0002"
definition SDHCI_CLOCK_INT_EN :: u16 where "SDHCI_CLOCK_INT_EN = 0x0001"
definition SDHCI_RESET_ALL :: u8 where "SDHCI_RESET_ALL = 0x01"
definition SDHCI_INT_RESPONSE :: u32 where "SDHCI_INT_RESPONSE = 0x00000001"
definition SDHCI_INT_CARD_INSERT :: u32 where "SDHCI_INT_CARD_INSERT = 0x00000040"
definition SDHCI_INT_CARD_REMOVE :: u32 where "SDHCI_INT_CARD_REMOVE = 0x00000080"
definition SDHCI_INT_ERROR :: u32 where "SDHCI_INT_ERROR = 0x00008000"
definition SDHCI_INT_ERROR_MASK :: u32 where "SDHCI_INT_ERROR_MASK = 0xffff8000"
definition SDHCI_INT_CMD_MASK :: u32 where "SDHCI_INT_CMD_MASK = 0x1 OR 0x10000 OR 0x20000 OR 0x40000 OR 0x80000"
definition SDHCI_INT_DATA_MASK :: u32 where
  "SDHCI_INT_DATA_MASK = 0x2 OR 0x8 OR 0x20 OR 0x10 OR 0x100000 OR 0x200000 OR 0x400000 OR 0x2000000"
definition SDHCI_INT_ALL_MASK :: u32 where "SDHCI_INT_ALL_MASK = 0xffffffff"
definition SDHCI_TIMEOUT_US :: u32 where "SDHCI_TIMEOUT_US = 1000000"

record sdhci_host =
  sh_ioaddr :: u64
  sh_cfg_regs :: u64
  sh_irq :: u32
  sh_base_clock :: u32
  sh_clock :: u32
  sh_bus_width :: u8
  sh_caps :: u32
  sh_rca :: u32
  sh_capacity :: u64
  sh_ocr :: u32
  sh_high_capacity :: u8
  sh_transfer_mode :: u32

text \<open>The bus supports 32-bit accesses only; narrower ones work on the word around the register.\<close>

definition sdhci_readl_unaligned :: "'h hw \<Rightarrow> sdhci_host \<Rightarrow> u64 \<Rightarrow> 'h \<Rightarrow> u32 \<times> 'h" where
  "sdhci_readl_unaligned hw host r = r32 hw (sh_ioaddr host + (r AND NOT 3))"

definition sdhci_writel_unaligned :: "'h hw \<Rightarrow> sdhci_host \<Rightarrow> u32 \<Rightarrow> u64 \<Rightarrow> 'h \<Rightarrow> 'h" where
  "sdhci_writel_unaligned hw host val r = w32 hw (sh_ioaddr host + (r AND NOT 3)) val"

definition sdhci_readb :: "'h hw \<Rightarrow> sdhci_host \<Rightarrow> u64 \<Rightarrow> 'h \<Rightarrow> u8 \<times> 'h" where
  "sdhci_readb hw host r h =
     (case sdhci_readl_unaligned hw host r h of (v, h') \<Rightarrow> (ucast (drop_bit (unat (r AND 3) * 8) v), h'))"

definition sdhci_readw :: "'h hw \<Rightarrow> sdhci_host \<Rightarrow> u64 \<Rightarrow> 'h \<Rightarrow> u16 \<times> 'h" where
  "sdhci_readw hw host r h =
     (case sdhci_readl_unaligned hw host r h of (v, h') \<Rightarrow> (ucast (drop_bit (unat (r AND 2) * 8) v), h'))"

definition sdhci_readl :: "'h hw \<Rightarrow> sdhci_host \<Rightarrow> u64 \<Rightarrow> 'h \<Rightarrow> u32 \<times> 'h" where
  "sdhci_readl hw host r = r32 hw (sh_ioaddr host + r)"

definition sdhci_writeb :: "'h hw \<Rightarrow> sdhci_host \<Rightarrow> u8 \<Rightarrow> u64 \<Rightarrow> 'h \<Rightarrow> 'h" where
  "sdhci_writeb hw host val r h =
     (let shift = unat (r AND 3) * 8; msk = push_bit shift 0xff in
      case sdhci_readl_unaligned hw host r h of
        (tmp, h') \<Rightarrow> sdhci_writel_unaligned hw host ((tmp AND NOT msk) OR (push_bit shift (ucast val) AND msk)) r h')"

definition sdhci_writew :: "'h hw \<Rightarrow> sdhci_host \<Rightarrow> u16 \<Rightarrow> u64 \<Rightarrow> 'h \<Rightarrow> 'h" where
  "sdhci_writew hw host val r h =
     (let shift = unat (r AND 2) * 8; msk = push_bit shift 0xffff in
      case sdhci_readl_unaligned hw host r h of
        (tmp, h') \<Rightarrow> sdhci_writel_unaligned hw host ((tmp AND NOT msk) OR (push_bit shift (ucast val) AND msk)) r h')"

definition sdhci_writel :: "'h hw \<Rightarrow> sdhci_host \<Rightarrow> u32 \<Rightarrow> u64 \<Rightarrow> 'h \<Rightarrow> 'h" where
  "sdhci_writel hw host val r = w32 hw (sh_ioaddr host + r) val"

section \<open>Time\<close>

definition us_ticks :: "u32 \<Rightarrow> u64 \<Rightarrow> u64" where
  "us_ticks us freq = ucast us * freq div 1000000"

partial_function (option) delay_loop :: "'h hw \<Rightarrow> u64 \<Rightarrow> u64 \<Rightarrow> 'h \<Rightarrow> 'h option" where
  "delay_loop hw start ticks h =
     (case rsys hw CNTPCT_EL0 h of (now, h') \<Rightarrow> if now - start < ticks then delay_loop hw start ticks h' else Some h')"

definition sdhci_udelay :: "'h hw \<Rightarrow> u32 \<Rightarrow> 'h \<Rightarrow> 'h option" where
  "sdhci_udelay hw us h =
     (let (freq, h1) = rsys hw CNTFRQ_EL0 h; (start, h2) = rsys hw CNTPCT_EL0 h1 in
      if freq = 0 then Some h2 else delay_loop hw start (us_ticks us freq) h2)"

section \<open>The controller\<close>

fun reset_loop :: "'h hw \<Rightarrow> sdhci_host \<Rightarrow> u8 \<Rightarrow> nat \<Rightarrow> 'h \<Rightarrow> (int \<times> 'h) option" where
  "reset_loop hw host msk 0 h = Some (- errno_val ETIMEDOUT, h)"
| "reset_loop hw host msk (Suc n) h = do {
     h1 \<leftarrow> sdhci_udelay hw 10 h;
     (case sdhci_readb hw host SDHCI_SOFTWARE_RESET h1 of
        (val, h2) \<Rightarrow> if val AND msk = 0 then Some (0, h2) else reset_loop hw host msk n h2) }"

definition sdhci_reset :: "'h hw \<Rightarrow> sdhci_host \<Rightarrow> u8 \<Rightarrow> 'h \<Rightarrow> (int \<times> 'h) option" where
  "sdhci_reset hw host msk h =
     (if sh_ioaddr host = 0 then Some (- errno_val EINVAL, h)
      else reset_loop hw host msk 100 (sdhci_writeb hw host msk SDHCI_SOFTWARE_RESET h))"

text \<open>The divider loop: the divider and the frequency where it stops.\<close>

fun div_loop :: "u32 \<Rightarrow> u32 \<Rightarrow> nat \<Rightarrow> u16 \<Rightarrow> u32 \<Rightarrow> u16 \<times> u32" where
  "div_loop base clock 0 dv freq = (dv, freq)"
| "div_loop base clock (Suc n) dv freq =
     (let freq' = base div (2 * ucast dv) in
      if freq' \<le> clock then (dv, freq') else div_loop base clock n (dv + 1) freq')"

text \<open>The value of the clock register and the frequency; no frequency is stored for a zero clock or base.\<close>

definition sdhci_calc_clock :: "sdhci_host \<Rightarrow> u32 \<Rightarrow> u16 \<times> u32 option" where
  "sdhci_calc_clock host clock =
     (let base = sh_base_clock host in
      if clock = 0 \<or> base = 0 then (0, None)
      else if base \<le> clock then (0, Some base)
      else (case div_loop base clock 255 1 0 of (dv, freq) \<Rightarrow> (push_bit SDHCI_DIVIDER_SHIFT dv, Some freq)))"

fun stable_loop :: "'h hw \<Rightarrow> sdhci_host \<Rightarrow> nat \<Rightarrow> 'h \<Rightarrow> (bool \<times> 'h) option" where
  "stable_loop hw host n h =
     (case sdhci_readw hw host SDHCI_CLOCK_CONTROL h of
        (v, h1) \<Rightarrow>
          if v AND SDHCI_CLOCK_INT_STABLE \<noteq> 0 then Some (True, h1)
          else (case n of
                  0 \<Rightarrow> Some (False, h1)
                | Suc m \<Rightarrow> do { h2 \<leftarrow> sdhci_udelay hw 1 h1; stable_loop hw host m h2 }))"

definition sdhci_set_clock :: "'h hw \<Rightarrow> sdhci_host \<Rightarrow> u32 \<Rightarrow> 'h \<Rightarrow> (int \<times> sdhci_host \<times> 'h) option" where
  "sdhci_set_clock hw host hz h =
     (if sh_ioaddr host = 0 then Some (- errno_val EINVAL, host, h)
      else
        let (clk0, h1) = sdhci_readw hw host SDHCI_CLOCK_CONTROL h;
            h2 = sdhci_writew hw host (clk0 AND NOT SDHCI_CLOCK_CARD_EN) SDHCI_CLOCK_CONTROL h1
        in
        if hz = 0 then Some (0, host\<lparr>sh_clock := 0\<rparr>, h2)
        else (case sdhci_calc_clock host hz of
                (clk, actual) \<Rightarrow>
                  if clk = 0 then Some (- errno_val EINVAL, host, h2)
                  else
                    let clk1 = clk OR SDHCI_CLOCK_INT_EN in do {
                      (ok, h4) \<leftarrow> stable_loop hw host 9999 (sdhci_writew hw host clk1 SDHCI_CLOCK_CONTROL h2);
                      if \<not> ok then Some (- errno_val ETIMEDOUT, host, h4)
                      else Some (0, host\<lparr>sh_clock := the actual\<rparr>,
                             sdhci_writew hw host (clk1 OR SDHCI_CLOCK_CARD_EN) SDHCI_CLOCK_CONTROL h4) }))"

definition sdhci_set_power :: "'h hw \<Rightarrow> sdhci_host \<Rightarrow> 'h \<Rightarrow> 'h option" where
  "sdhci_set_power hw host h = do {
     h1 \<leftarrow> sdhci_udelay hw 10 (sdhci_writeb hw host 0 SDHCI_POWER_CONTROL h);
     sdhci_udelay hw 10 (sdhci_writeb hw host (SDHCI_POWER_330 OR SDHCI_POWER_ON) SDHCI_POWER_CONTROL h1) }"

partial_function (option) wait_irq_loop :: "'h hw \<Rightarrow> sdhci_host \<Rightarrow> u32 \<Rightarrow> u64 \<Rightarrow> u64 \<Rightarrow> 'h \<Rightarrow> (int \<times> 'h) option" where
  "wait_irq_loop hw host msk start ticks h =
     (case rsys hw CNTPCT_EL0 h of
        (now, h1) \<Rightarrow>
          if now - start < ticks
          then (case sdhci_readl hw host SDHCI_INT_STATUS h1 of
                  (intmask, h2) \<Rightarrow>
                    if intmask AND SDHCI_INT_ERROR \<noteq> 0
                    then Some (- errno_val EIO, sdhci_writel hw host (intmask AND SDHCI_INT_ERROR_MASK) SDHCI_INT_STATUS h2)
                    else if intmask AND msk \<noteq> 0
                    then Some (0, sdhci_writel hw host (intmask AND msk) SDHCI_INT_STATUS h2)
                    else wait_irq_loop hw host msk start ticks h2)
          else Some (- errno_val ETIMEDOUT, snd (sdhci_readl hw host SDHCI_INT_STATUS h1)))"

definition sdhci_wait_irq :: "'h hw \<Rightarrow> sdhci_host \<Rightarrow> u32 \<Rightarrow> u32 \<Rightarrow> 'h \<Rightarrow> (int \<times> 'h) option" where
  "sdhci_wait_irq hw host msk timeout_us h =
     (let (freq, h1) = rsys hw CNTFRQ_EL0 h; (start, h2) = rsys hw CNTPCT_EL0 h1 in
      if freq = 0 then Some (- errno_val EINVAL, h2) else wait_irq_loop hw host msk start (us_ticks timeout_us freq) h2)"

partial_function (option) wait_inhibit_loop :: "'h hw \<Rightarrow> sdhci_host \<Rightarrow> u32 \<Rightarrow> u64 \<Rightarrow> u64 \<Rightarrow> 'h \<Rightarrow> (int \<times> 'h) option" where
  "wait_inhibit_loop hw host msk start ticks h =
     (case rsys hw CNTPCT_EL0 h of
        (now, h1) \<Rightarrow>
          if now - start < ticks
          then (case sdhci_readl hw host SDHCI_PRESENT_STATE h1 of
                  (v, h2) \<Rightarrow> if v AND msk = 0 then Some (0, h2) else wait_inhibit_loop hw host msk start ticks h2)
          else Some (- errno_val ETIMEDOUT, h1))"

definition sdhci_wait_inhibit :: "'h hw \<Rightarrow> sdhci_host \<Rightarrow> u32 \<Rightarrow> u32 \<Rightarrow> 'h \<Rightarrow> (int \<times> 'h) option" where
  "sdhci_wait_inhibit hw host msk timeout_us h =
     (let (freq, h1) = rsys hw CNTFRQ_EL0 h; (start, h2) = rsys hw CNTPCT_EL0 h1 in
      if freq = 0 then Some (- errno_val EINVAL, h2) else wait_inhibit_loop hw host msk start (us_ticks timeout_us freq) h2)"

definition command_flags :: "u8 \<Rightarrow> u32 \<Rightarrow> u16" where
  "command_flags cmd flags =
     (let resp_type = flags AND SDHCI_CMD_RESP_MASK; cmd_flags = ucast (flags AND 0xff) in
      if resp_type = SDHCI_CMD_RESP_SHORT \<or> resp_type = SDHCI_CMD_RESP_SHORT_BUSY
      then (if cmd \<noteq> 41 then cmd_flags OR SDHCI_CMD_CRC OR SDHCI_CMD_INDEX else cmd_flags)
      else if resp_type = SDHCI_CMD_RESP_LONG then cmd_flags OR SDHCI_CMD_CRC
      else cmd_flags)"

definition command_word :: "sdhci_host \<Rightarrow> u8 \<Rightarrow> u32 \<Rightarrow> u32" where
  "command_word host cmd flags =
     push_bit 16 (push_bit 8 (ucast (cmd AND 0x3f)) OR ucast (command_flags cmd flags)) OR (sh_transfer_mode host AND 0xffff)"

text \<open>The words of the response, if the caller has a place for it; for a long one the last word comes first.\<close>

definition read_response :: "'h hw \<Rightarrow> sdhci_host \<Rightarrow> u32 \<Rightarrow> 'h \<Rightarrow> u32 list \<times> 'h" where
  "read_response hw host flags h =
     (let resp_type = flags AND SDHCI_CMD_RESP_MASK in
      if resp_type = SDHCI_CMD_RESP_LONG
      then let (a, h1) = sdhci_readl hw host (SDHCI_RESPONSE + 12) h; (b, h2) = sdhci_readl hw host (SDHCI_RESPONSE + 8) h1;
               (c, h3) = sdhci_readl hw host (SDHCI_RESPONSE + 4) h2; (d, h4) = sdhci_readl hw host SDHCI_RESPONSE h3
           in ([a, b, c, d], h4)
      else if resp_type = SDHCI_CMD_RESP_SHORT \<or> resp_type = SDHCI_CMD_RESP_SHORT_BUSY
      then let (a, h1) = sdhci_readl hw host SDHCI_RESPONSE h in ([a], h1)
      else ([], h))"

definition sdhci_send_command ::
    "'h hw \<Rightarrow> sdhci_host \<Rightarrow> u8 \<Rightarrow> u32 \<Rightarrow> u32 \<Rightarrow> bool \<Rightarrow> 'h \<Rightarrow> (int \<times> u32 list \<times> 'h) option" where
  "sdhci_send_command hw host cmd arg flags want h =
     (if sh_ioaddr host = 0 then Some (- errno_val EINVAL, [], h)
      else do {
        (r, h1) \<leftarrow> sdhci_wait_inhibit hw host SDHCI_CMD_INHIBIT 100000 h;
        if r < 0 then Some (- errno_val ETIMEDOUT, [], h1)
        else do {
          let h2 = sdhci_writel hw host (command_word host cmd flags) SDHCI_TRANSFER_MODE
                     (sdhci_writel hw host arg SDHCI_ARGUMENT (sdhci_writel hw host SDHCI_INT_CMD_MASK SDHCI_INT_STATUS h1));
          (ret, h3) \<leftarrow> sdhci_wait_irq hw host SDHCI_INT_RESPONSE SDHCI_TIMEOUT_US h2;
          if ret < 0 then Some (ret, [], h3)
          else if want then (case read_response hw host flags h3 of (ws, h4) \<Rightarrow> Some (0, ws, h4))
          else Some (0, [], h3) } })"

text \<open>Waiting for the buffer or the data lines; without a counter frequency there is no timeout.\<close>

partial_function (option) pio_wait :: "'h hw \<Rightarrow> sdhci_host \<Rightarrow> (u32 \<Rightarrow> bool) \<Rightarrow> u64 \<Rightarrow> u64 \<Rightarrow> u64 \<Rightarrow> 'h \<Rightarrow> (bool \<times> 'h) option" where
  "pio_wait hw host ready freq ticks start h =
     (case sdhci_readl hw host SDHCI_PRESENT_STATE h of
        (state, h1) \<Rightarrow>
          if ready state then Some (True, h1)
          else if freq \<noteq> 0
          then (case rsys hw CNTPCT_EL0 h1 of
                  (now, h2) \<Rightarrow> if ticks \<le> now - start then Some (False, h2) else pio_wait hw host ready freq ticks start h2)
          else pio_wait hw host ready freq ticks start h1)"

text \<open>
  The words of the transfer: those to write, or \<open>None\<close> for a read of \<open>n\<close> words; the words that have been read,
  also when the transfer stops.
\<close>

fun pio_words :: "'h hw \<Rightarrow> sdhci_host \<Rightarrow> u64 \<Rightarrow> u64 \<Rightarrow> u32 option list \<Rightarrow> 'h \<Rightarrow> (bool \<times> u32 list \<times> 'h) option" where
  "pio_words hw host freq ticks [] h = Some (True, [], h)"
| "pio_words hw host freq ticks (w # ws) h =
     (case rsys hw CNTPCT_EL0 h of
        (start, h1) \<Rightarrow> do {
          (ok, h2) \<leftarrow> pio_wait hw host
             (\<lambda>s. s AND (if w = None then SDHCI_DATA_AVAILABLE else SDHCI_SPACE_AVAILABLE) \<noteq> 0) freq ticks start h1;
          if \<not> ok then Some (False, [], h2)
          else (case w of
                  Some v \<Rightarrow> pio_words hw host freq ticks ws (sdhci_writel hw host v SDHCI_BUFFER h2)
                | None \<Rightarrow>
                    (case sdhci_readl hw host SDHCI_BUFFER h2 of
                       (v, h3) \<Rightarrow> do { (ok', vs, h4) \<leftarrow> pio_words hw host freq ticks ws h3; Some (ok', v # vs, h4) })) })"

definition sdhci_transfer_pio :: "'h hw \<Rightarrow> sdhci_host \<Rightarrow> u32 option list \<Rightarrow> 'h \<Rightarrow> (int \<times> u32 list \<times> 'h) option" where
  "sdhci_transfer_pio hw host ws h =
     (if sh_ioaddr host = 0 then Some (- errno_val EINVAL, [], h)
      else (case rsys hw CNTFRQ_EL0 h of
              (freq, h1) \<Rightarrow> do {
                let ticks = us_ticks SDHCI_TIMEOUT_US freq;
                (ok, vs, h2) \<leftarrow> pio_words hw host freq ticks ws h1;
                if \<not> ok then Some (- errno_val ETIMEDOUT, vs, h2)
                else (case rsys hw CNTPCT_EL0 h2 of
                        (start, h3) \<Rightarrow> do {
                          (ok', h4) \<leftarrow> pio_wait hw host (\<lambda>s. s AND SDHCI_DAT_INHIBIT = 0) freq ticks start h3;
                          if \<not> ok' then Some (- errno_val ETIMEDOUT, vs, h4)
                          else (case sdhci_readl hw host SDHCI_INT_STATUS h4 of
                                  (intmask, h5) \<Rightarrow>
                                    Some (0, vs, sdhci_writel hw host (intmask AND SDHCI_INT_DATA_MASK) SDHCI_INT_STATUS h5)) }) }))"

definition sdhci_host_init :: "'h hw \<Rightarrow> sdhci_host \<Rightarrow> 'h \<Rightarrow> (int \<times> sdhci_host \<times> 'h) option" where
  "sdhci_host_init hw host h =
     (if sh_ioaddr host = 0 then Some (- errno_val EINVAL, host, h)
      else do {
        (ret, h1) \<leftarrow> sdhci_reset hw host SDHCI_RESET_ALL
           (sdhci_writel hw host 0 SDHCI_SIGNAL_ENABLE (sdhci_writel hw host 0 SDHCI_INT_ENABLE
             (sdhci_writel hw host SDHCI_INT_ALL_MASK SDHCI_INT_STATUS h)));
        if ret < 0 then Some (ret, host, h1)
        else do {
          h2 \<leftarrow> sdhci_set_power hw host h1;
          let (caps, h3) = sdhci_readl hw host SDHCI_CAPS h2;
          (ret', host', h4) \<leftarrow> sdhci_set_clock hw (host\<lparr>sh_caps := caps\<rparr>) 400000 (sdhci_writeb hw host 0 SDHCI_HOST_CONTROL h3);
          if ret' < 0 then Some (ret', host', h4)
          else Some (0, host', sdhci_writel hw host' 0 SDHCI_SIGNAL_ENABLE
                 (sdhci_writel hw host' (SDHCI_INT_CMD_MASK OR SDHCI_INT_DATA_MASK OR SDHCI_INT_CARD_INSERT OR SDHCI_INT_CARD_REMOVE)
                    SDHCI_INT_ENABLE h4)) } })"

section \<open>The card protocol\<close>

definition CMD8_ARG :: u32 where "CMD8_ARG = 0x000001aa"
definition ACMD41_ARG :: u32 where "ACMD41_ARG = 0x40ff8000"
definition SD_OCR_CCS :: u32 where "SD_OCR_CCS = push_bit 30 1"
definition SD_OCR_BUSY :: u32 where "SD_OCR_BUSY = push_bit 31 1"

definition sdhci_cmd :: "'h hw \<Rightarrow> sdhci_host \<Rightarrow> u8 \<Rightarrow> u32 \<Rightarrow> u32 \<Rightarrow> bool \<Rightarrow> 'h \<Rightarrow> (int \<times> u32 list \<times> 'h) option" where
  "sdhci_cmd = sdhci_send_command"

definition sd_app_cmd :: "'h hw \<Rightarrow> sdhci_host \<Rightarrow> u32 \<Rightarrow> 'h \<Rightarrow> (int \<times> 'h) option" where
  "sd_app_cmd hw host rca h = do {
     (ret, ws, h1) \<leftarrow> sdhci_cmd hw host 55 (push_bit 16 rca) SDHCI_CMD_RESP_SHORT True h;
     Some (if ret < 0 then ret else if hd ws AND 0x20 = 0 then - errno_val EIO else 0, h1) }"

definition sd_cmd8 :: "'h hw \<Rightarrow> sdhci_host \<Rightarrow> 'h \<Rightarrow> (int \<times> 'h) option" where
  "sd_cmd8 hw host h = do {
     (ret, ws, h1) \<leftarrow> sdhci_cmd hw host 8 CMD8_ARG SDHCI_CMD_RESP_SHORT True h;
     Some (if ret < 0 then ret else if hd ws AND 0xff \<noteq> CMD8_ARG AND 0xff then - errno_val EIO else 0, h1) }"

fun acmd41_loop :: "'h hw \<Rightarrow> sdhci_host \<Rightarrow> nat \<Rightarrow> 'h \<Rightarrow> (int \<times> sdhci_host \<times> 'h) option" where
  "acmd41_loop hw host 0 h = Some (- errno_val ETIMEDOUT, host, h)"
| "acmd41_loop hw host (Suc n) h = do {
     (ret, h1) \<leftarrow> sd_app_cmd hw host 0 h;
     if ret < 0 then Some (ret, host, h1)
     else do {
       (ret', ws, h2) \<leftarrow> sdhci_cmd hw host 41 ACMD41_ARG SDHCI_CMD_RESP_SHORT True h1;
       if ret' < 0 then Some (ret', host, h2)
       else if hd ws AND SD_OCR_BUSY \<noteq> 0 then Some (0, host\<lparr>sh_ocr := hd ws\<rparr>, h2)
       else do { h3 \<leftarrow> sdhci_udelay hw 1000 h2; acmd41_loop hw host n h3 } } }"

definition sd_acmd41 :: "'h hw \<Rightarrow> sdhci_host \<Rightarrow> 'h \<Rightarrow> (int \<times> sdhci_host \<times> 'h) option" where
  "sd_acmd41 hw host = acmd41_loop hw host 1000"

definition sd_cmd2 :: "'h hw \<Rightarrow> sdhci_host \<Rightarrow> 'h \<Rightarrow> (int \<times> u32 list \<times> 'h) option" where
  "sd_cmd2 hw host = sdhci_cmd hw host 2 0 SDHCI_CMD_RESP_LONG True"

definition sd_cmd3 :: "'h hw \<Rightarrow> sdhci_host \<Rightarrow> 'h \<Rightarrow> (int \<times> u32 \<times> 'h) option" where
  "sd_cmd3 hw host h = do {
     (ret, ws, h1) \<leftarrow> sdhci_cmd hw host 3 0 SDHCI_CMD_RESP_SHORT True h;
     Some (if ret < 0 then (ret, 0, h1) else (0, drop_bit 16 (hd ws) AND 0xffff, h1)) }"

definition sd_cmd9 :: "'h hw \<Rightarrow> sdhci_host \<Rightarrow> u32 \<Rightarrow> 'h \<Rightarrow> (int \<times> u32 list \<times> 'h) option" where
  "sd_cmd9 hw host rca = sdhci_cmd hw host 9 (push_bit 16 rca) SDHCI_CMD_RESP_LONG True"

definition sd_select_card :: "'h hw \<Rightarrow> sdhci_host \<Rightarrow> u32 \<Rightarrow> 'h \<Rightarrow> (int \<times> 'h) option" where
  "sd_select_card hw host rca h =
     map_option (\<lambda>(ret, _, h1). (ret, h1)) (sdhci_cmd hw host 7 (push_bit 16 rca) SDHCI_CMD_RESP_SHORT_BUSY False h)"

definition sd_set_bus_width :: "'h hw \<Rightarrow> sdhci_host \<Rightarrow> u32 \<Rightarrow> int \<Rightarrow> 'h \<Rightarrow> (int \<times> 'h) option" where
  "sd_set_bus_width hw host rca width h = do {
     (ret, h1) \<leftarrow> sd_app_cmd hw host rca h;
     if ret < 0 then Some (ret, h1)
     else map_option (\<lambda>(r, _, h2). (r, h2)) (sdhci_cmd hw host 6 (if width = 4 then 2 else 0) SDHCI_CMD_RESP_SHORT False h1) }"

definition sd_set_blocklen :: "'h hw \<Rightarrow> sdhci_host \<Rightarrow> u32 \<Rightarrow> 'h \<Rightarrow> (int \<times> 'h) option" where
  "sd_set_blocklen hw host len h =
     map_option (\<lambda>(ret, _, h1). (ret, h1)) (sdhci_cmd hw host 16 len SDHCI_CMD_RESP_SHORT False h)"

definition sd_parse_csd_v2_capacity :: "u32 list \<Rightarrow> u64" where
  "sd_parse_csd_v2_capacity csd = ucast ((drop_bit 8 (csd ! 2) AND 0x3fffff) + 1) * 1024"

text \<open>One command 6 with its block of 64 bytes.\<close>

definition switch_function :: "'h hw \<Rightarrow> sdhci_host \<Rightarrow> u32 \<Rightarrow> 'h \<Rightarrow> (int \<times> u32 list \<times> 'h) option" where
  "switch_function hw host arg h = do {
     (ret, _, h1) \<leftarrow> sdhci_send_command hw host 6 arg (SDHCI_CMD_RESP_SHORT OR SDHCI_CMD_DATA) True h;
     if ret < 0 then Some (ret, [], h1) else sdhci_transfer_pio hw host (replicate 16 None) h1 }"

definition sd_switch_hs :: "'h hw \<Rightarrow> sdhci_host \<Rightarrow> 'h \<Rightarrow> (int \<times> sdhci_host \<times> 'h) option" where
  "sd_switch_hs hw host h = do {
     let host' = host\<lparr>sh_transfer_mode := ucast (SDHCI_TRNS_BLK_CNT_EN OR SDHCI_TRNS_READ)\<rparr>;
     let out = host\<lparr>sh_transfer_mode := 0\<rparr>;
     (ret, st, h1) \<leftarrow> switch_function hw host' 0x00fffff1
        (sdhci_writew hw host 1 SDHCI_BLOCK_COUNT (sdhci_writew hw host 64 SDHCI_BLOCK_SIZE h));
     if ret < 0 then Some (ret, out, h1)
     else if drop_bit 24 (st ! 4) AND 0xf \<noteq> 1 then Some (- errno_val ENOTSUP, out, h1)
     else do {
       (ret', st', h2) \<leftarrow> switch_function hw host' 0x80fffff1 h1;
       Some (if ret' < 0 then ret'
             else if drop_bit 24 (st' ! 4) AND 0xf \<noteq> 1 then - errno_val EIO
             else if \<exists>i \<in> {0..<4}. drop_bit (i * 4) (st' ! 3) AND 0xf \<noteq> 1 then - errno_val EIO
             else ret', out, h2) } }"

fun card_stable_loop :: "'h hw \<Rightarrow> sdhci_host \<Rightarrow> nat \<Rightarrow> 'h \<Rightarrow> 'h option" where
  "card_stable_loop hw host 0 h = Some h"
| "card_stable_loop hw host (Suc n) h =
     (case sdhci_readl hw host SDHCI_PRESENT_STATE h of
        (v, h1) \<Rightarrow>
          if v AND SDHCI_CARD_STATE_STABLE \<noteq> 0 then Some h1
          else do { h2 \<leftarrow> sdhci_udelay hw 1000 h1; card_stable_loop hw host n h2 })"

definition rmw_control :: "'h hw \<Rightarrow> sdhci_host \<Rightarrow> u8 \<Rightarrow> 'h \<Rightarrow> 'h" where
  "rmw_control hw host b h =
     (case sdhci_readb hw host SDHCI_HOST_CONTROL h of (ctrl, h') \<Rightarrow> sdhci_writeb hw host (ctrl OR b) SDHCI_HOST_CONTROL h')"

text \<open>The last steps, which may fail: the four-bit bus and the high-speed mode.\<close>

definition sd_tune :: "'h hw \<Rightarrow> sdhci_host \<Rightarrow> u32 \<Rightarrow> 'h \<Rightarrow> (int \<times> sdhci_host \<times> 'h) option" where
  "sd_tune hw host rca h = do {
     (r, h1) \<leftarrow> sd_set_bus_width hw host rca 4 h;
     let host1 = host\<lparr>sh_bus_width := (if r = 0 then 4 else 1)\<rparr>;
     let h2 = (if r = 0 then rmw_control hw host SDHCI_CTRL_4BITBUS h1 else h1);
     (ret, host2, h3) \<leftarrow> sd_switch_hs hw host1 h2;
     if ret = 0
     then do {
       (c, host3, h4) \<leftarrow> sdhci_set_clock hw host2 50000000 h3;
       (host4, h5) \<leftarrow> (if c < 0 then map_option snd (sdhci_set_clock hw host3 25000000 h4) else Some (host3, h4));
       Some (0, host4, rmw_control hw host4 SDHCI_CTRL_HISPD h5) }
     else map_option (\<lambda>(_, x). (0, x)) (sdhci_set_clock hw host2 25000000 h3) }"

text \<open>Identification after the card has reported its operating conditions.\<close>

definition sd_identify :: "'h hw \<Rightarrow> sdhci_host \<Rightarrow> 'h \<Rightarrow> (int \<times> sdhci_host \<times> 'h) option" where
  "sd_identify hw host h = do {
     (r2, _, h1) \<leftarrow> sd_cmd2 hw host h;
     if r2 < 0 then Some (r2, host, h1)
     else do {
       (r3, rca, h2) \<leftarrow> sd_cmd3 hw host h1;
       if r3 < 0 then Some (r3, host, h2)
       else do {
         let host1 = host\<lparr>sh_rca := rca\<rparr>;
         (r9, csd, h3) \<leftarrow> sd_cmd9 hw host1 rca h2;
         if r9 < 0 then Some (r9, host1, h3)
         else do {
           let host2 = host1\<lparr>sh_capacity := sd_parse_csd_v2_capacity csd\<rparr>;
           (r7, h4) \<leftarrow> sd_select_card hw host2 rca h3;
           if r7 < 0 then Some (r7, host2, h4)
           else do {
             (r16, h5) \<leftarrow> sd_set_blocklen hw host2 512 h4;
             if r16 < 0 then Some (r16, host2, h5) else sd_tune hw host2 rca h5 } } } } }"

definition sd_card_init :: "'h hw \<Rightarrow> sdhci_host \<Rightarrow> 'h \<Rightarrow> (int \<times> sdhci_host \<times> 'h) option" where
  "sd_card_init hw host h =
     (case sdhci_readl hw host SDHCI_PRESENT_STATE h of
        (state, h1) \<Rightarrow>
          if state AND SDHCI_CARD_PRESENT = 0 then Some (- errno_val ENODEV, host, h1)
          else do {
            h2 \<leftarrow> card_stable_loop hw host 100 h1;
            (r0, _, h3) \<leftarrow> sdhci_cmd hw host 0 0 SDHCI_CMD_RESP_NONE False h2;
            if r0 < 0 then Some (r0, host, h3)
            else do {
              h4 \<leftarrow> sdhci_udelay hw 2000 h3;
              (r8, h5) \<leftarrow> sd_cmd8 hw host h4;
              if r8 < 0 then Some (r8, host, h5)
              else do {
                (r41, host1, h6) \<leftarrow> sd_acmd41 hw host h5;
                if r41 < 0 then Some (r41, host1, h6)
                else sd_identify hw (host1\<lparr>sh_high_capacity := (if sh_ocr host1 AND SD_OCR_CCS \<noteq> 0 then 1 else 0)\<rparr>) h6 } } })"

text \<open>A data command: the words to write, or \<open>None\<close> for a read; the words that were read.\<close>

definition sd_send_data_cmd ::
    "'h hw \<Rightarrow> sdhci_host \<Rightarrow> u8 \<Rightarrow> u32 \<Rightarrow> u32 list option \<Rightarrow> u32 \<Rightarrow> 'h \<Rightarrow> (int \<times> u32 list \<times> sdhci_host \<times> 'h) option" where
  "sd_send_data_cmd hw host cmd arg data nr_blocks h =
     (if nr_blocks = 0 then Some (- errno_val EINVAL, [], host, h)
      else do {
        (r, h1) \<leftarrow> sdhci_wait_inhibit hw host SDHCI_DAT_INHIBIT 100000 h;
        if r < 0 then Some (- errno_val ETIMEDOUT, [], host, h1)
        else do {
          let mode = SDHCI_TRNS_BLK_CNT_EN OR (if 1 < nr_blocks then SDHCI_TRNS_MULTI else 0) OR
            (if data = None then SDHCI_TRNS_READ else 0);
          let h2 = sdhci_writew hw host (ucast nr_blocks) SDHCI_BLOCK_COUNT (sdhci_writew hw host 512 SDHCI_BLOCK_SIZE h1);
          (ret, _, h3) \<leftarrow> sdhci_send_command hw (host\<lparr>sh_transfer_mode := ucast mode\<rparr>) cmd arg
             (SDHCI_CMD_RESP_SHORT OR SDHCI_CMD_DATA) True h2;
          let host' = host\<lparr>sh_transfer_mode := 0\<rparr>;
          let words = unat (nr_blocks * 512) div 4;
          if ret < 0 then Some (ret, [], host', h3)
          else if length (case data of None \<Rightarrow> replicate words 0 | Some ds \<Rightarrow> ds) < words then None
          else do {
            (ret', vs, h4) \<leftarrow> sdhci_transfer_pio hw host'
               (case data of None \<Rightarrow> replicate words None | Some ds \<Rightarrow> map Some (take words ds)) h3;
            if ret' < 0 then Some (ret', vs, host', h4)
            else if 1 < nr_blocks
            then do {
              (ret'', _, h5) \<leftarrow> sdhci_cmd hw host' 12 0 SDHCI_CMD_RESP_SHORT_BUSY False h4;
              Some (if ret'' < 0 then ret'' else 0, vs, host', h5) }
            else Some (0, vs, host', h4) } } })"

definition sd_arg :: "sdhci_host \<Rightarrow> u64 \<Rightarrow> u32" where
  "sd_arg host lba = (if sh_high_capacity host \<noteq> 0 then ucast lba else ucast (lba * 512))"

definition sd_read_blocks :: "'h hw \<Rightarrow> sdhci_host \<Rightarrow> u64 \<Rightarrow> u32 \<Rightarrow> 'h \<Rightarrow> (int \<times> u32 list \<times> sdhci_host \<times> 'h) option" where
  "sd_read_blocks hw host lba nr_blocks h =
     (if sh_ioaddr host = 0 then Some (- errno_val EINVAL, [], host, h)
      else sd_send_data_cmd hw host (if 1 < nr_blocks then 18 else 17) (sd_arg host lba) None nr_blocks h)"

definition sd_write_blocks ::
    "'h hw \<Rightarrow> sdhci_host \<Rightarrow> u64 \<Rightarrow> u32 \<Rightarrow> u32 list \<Rightarrow> 'h \<Rightarrow> (int \<times> u32 list \<times> sdhci_host \<times> 'h) option" where
  "sd_write_blocks hw host lba nr_blocks data h =
     (if sh_ioaddr host = 0 then Some (- errno_val EINVAL, [], host, h)
      else sd_send_data_cmd hw host (if 1 < nr_blocks then 25 else 24) (sd_arg host lba) (Some data) nr_blocks h)"

section \<open>Every wait ends\<close>

text \<open>
  A machine whose time counter runs: \<open>ctr\<close> is its value, every look at it finds a larger one, no access takes
  longer than \<open>2^32\<close> ticks, and the frequency register has the value \<open>f\<close>. Nothing is said of the controller and
  the card.
\<close>

definition later :: "('h \<Rightarrow> nat) \<Rightarrow> 'h \<Rightarrow> 'h \<Rightarrow> bool" where
  "later ctr h h' \<longleftrightarrow> ctr h \<le> ctr h' \<and> ctr h' \<le> ctr h + 2 ^ 32"

definition ticking :: "'h hw \<Rightarrow> ('h \<Rightarrow> nat) \<Rightarrow> u64 \<Rightarrow> bool" where
  "ticking hw ctr f \<longleftrightarrow>
     (\<forall>h. fst (rsys hw CNTPCT_EL0 h) = of_nat (ctr h) \<and> later ctr h (snd (rsys hw CNTPCT_EL0 h)) \<and>
        ctr h < ctr (snd (rsys hw CNTPCT_EL0 h))) \<and>
     (\<forall>h. fst (rsys hw CNTFRQ_EL0 h) = f) \<and>
     (\<forall>a h. later ctr h (snd (r32 hw a h)))"

lemma us_ticks_bound: "unat (us_ticks us freq) < 2 ^ 45"
proof -
  have "unat (ucast us * freq) < 2 ^ 64" using unsigned_less [of "ucast us * freq", where ?'a = nat] by simp
  then show ?thesis by (simp add: us_ticks_def unat_div)
qed

lemma elapsed:
  assumes "c \<le> ctr h" and "ctr h \<le> c + 2 ^ 60"
  shows "of_nat (ctr h) - of_nat c < (ticks :: u64) \<longleftrightarrow> ctr h < c + unat ticks"
proof -
  have "(of_nat (ctr h) - of_nat c :: u64) = of_nat (ctr h - c)" using assms(1) by (simp add: of_nat_diff)
  moreover have "unat (of_nat (ctr h - c) :: u64) = ctr h - c" using assms(2) by (simp add: unat_of_nat)
  ultimately show ?thesis using assms(1) by (auto simp: word_less_nat_alt)
qed

text \<open>The window in which a loop that started at \<open>c\<close> looks at the counter.\<close>

definition in_window :: "('h \<Rightarrow> nat) \<Rightarrow> nat \<Rightarrow> 'h \<Rightarrow> bool" where
  "in_window ctr c h \<longleftrightarrow> c \<le> ctr h \<and> ctr h \<le> c + 2 ^ 60"

lemma loop_ends:
  assumes "in_window ctr c h"
    and step: "\<And>h. in_window ctr c h \<Longrightarrow>
      (\<And>h'. ctr h < c + n \<Longrightarrow> ctr h < ctr h' \<Longrightarrow> in_window ctr c h' \<Longrightarrow> P h') \<Longrightarrow> P h"
  shows "P h"
  using assms(1)
proof (induction "c + n - ctr h" arbitrary: h rule: less_induct)
  case less
  show ?case by (rule step [OF less.prems]) (rule less.hyps, linarith)
qed

lemma window_later:
  "in_window ctr c h \<Longrightarrow> ctr h < c + n \<Longrightarrow> n < 2 ^ 45 \<Longrightarrow> later ctr h h1 \<Longrightarrow> in_window ctr c h1"
  "in_window ctr c h \<Longrightarrow> ctr h < c + n \<Longrightarrow> n < 2 ^ 45 \<Longrightarrow> later ctr h h1 \<Longrightarrow> later ctr h1 h2 \<Longrightarrow> in_window ctr c h2"
  by (auto simp: later_def in_window_def)

lemma ticking_look:
  assumes "ticking hw ctr f" and "rsys hw CNTPCT_EL0 h = (now, h')"
  shows "now = of_nat (ctr h)" and "later ctr h h'" and "ctr h < ctr h'"
  using assms unfolding ticking_def by (metis fst_conv, metis snd_conv, metis snd_conv)

lemma ticking_read: "ticking hw ctr f \<Longrightarrow> sdhci_readl hw host r h = (v, h') \<Longrightarrow> later ctr h h'"
  by (metis ticking_def sdhci_readl_def snd_conv)

lemma ticking_freq: "ticking hw ctr f \<Longrightarrow> rsys hw CNTFRQ_EL0 h = (v, h') \<Longrightarrow> v = f"
  by (metis ticking_def fst_conv)

lemma look_in_window:
  assumes "ticking hw ctr f" and "rsys hw CNTPCT_EL0 h = (now, h1)" and "in_window ctr c h" and "now - of_nat c < ticks"
  shows "ctr h < c + unat ticks"
  using assms(3,4) elapsed [of c ctr h ticks] ticking_look(1) [OF assms(1,2)] by (auto simp: in_window_def)

lemma delay_loop_ends:
  assumes t: "ticking hw ctr f" and b: "unat ticks < 2 ^ 45" and "in_window ctr c h"
  shows "delay_loop hw (of_nat c) ticks h \<noteq> None"
  using assms(3)
proof (rule loop_ends [where n = "unat ticks"])
  fix h assume w: "in_window ctr c h"
    and IH: "\<And>h'. ctr h < c + unat ticks \<Longrightarrow> ctr h < ctr h' \<Longrightarrow> in_window ctr c h' \<Longrightarrow> delay_loop hw (of_nat c) ticks h' \<noteq> None"
  obtain now h1 where r: "rsys hw CNTPCT_EL0 h = (now, h1)" by fastforce
  note l = ticking_look [OF t r]
  have "delay_loop hw (of_nat c) ticks h1 \<noteq> None" if "now - of_nat c < ticks"
    using IH look_in_window [OF t r w that] window_later(1) [OF w _ b l(2)] l(3) by blast
  then show "delay_loop hw (of_nat c) ticks h \<noteq> None" by (subst delay_loop.simps) (simp add: r)
qed

lemma wait_irq_loop_ends:
  assumes t: "ticking hw ctr f" and b: "unat ticks < 2 ^ 45" and "in_window ctr c h"
  shows "wait_irq_loop hw host msk (of_nat c) ticks h \<noteq> None"
  using assms(3)
proof (rule loop_ends [where n = "unat ticks"])
  fix h assume w: "in_window ctr c h"
    and IH: "\<And>h'. ctr h < c + unat ticks \<Longrightarrow> ctr h < ctr h' \<Longrightarrow> in_window ctr c h' \<Longrightarrow>
      wait_irq_loop hw host msk (of_nat c) ticks h' \<noteq> None"
  obtain now h1 where r: "rsys hw CNTPCT_EL0 h = (now, h1)" by fastforce
  obtain v h2 where r2: "sdhci_readl hw host SDHCI_INT_STATUS h1 = (v, h2)" by fastforce
  note l = ticking_look [OF t r] and l2 = ticking_read [OF t r2]
  have "wait_irq_loop hw host msk (of_nat c) ticks h2 \<noteq> None" if "now - of_nat c < ticks"
    using IH look_in_window [OF t r w that] window_later(2) [OF w _ b l(2) l2] l(3) l2 by (fastforce simp: later_def)
  then show "wait_irq_loop hw host msk (of_nat c) ticks h \<noteq> None" by (subst wait_irq_loop.simps) (simp add: r r2)
qed

lemma wait_inhibit_loop_ends:
  assumes t: "ticking hw ctr f" and b: "unat ticks < 2 ^ 45" and "in_window ctr c h"
  shows "wait_inhibit_loop hw host msk (of_nat c) ticks h \<noteq> None"
  using assms(3)
proof (rule loop_ends [where n = "unat ticks"])
  fix h assume w: "in_window ctr c h"
    and IH: "\<And>h'. ctr h < c + unat ticks \<Longrightarrow> ctr h < ctr h' \<Longrightarrow> in_window ctr c h' \<Longrightarrow>
      wait_inhibit_loop hw host msk (of_nat c) ticks h' \<noteq> None"
  obtain now h1 where r: "rsys hw CNTPCT_EL0 h = (now, h1)" by fastforce
  obtain v h2 where r2: "sdhci_readl hw host SDHCI_PRESENT_STATE h1 = (v, h2)" by fastforce
  note l = ticking_look [OF t r] and l2 = ticking_read [OF t r2]
  have "wait_inhibit_loop hw host msk (of_nat c) ticks h2 \<noteq> None" if "now - of_nat c < ticks"
    using IH look_in_window [OF t r w that] window_later(2) [OF w _ b l(2) l2] l(3) l2 by (fastforce simp: later_def)
  then show "wait_inhibit_loop hw host msk (of_nat c) ticks h \<noteq> None" by (subst wait_inhibit_loop.simps) (simp add: r r2)
qed

text \<open>The waits of a transfer look at the register first; the first look may be the full access time later.\<close>

lemma pio_wait_ends:
  assumes t: "ticking hw ctr f" and b: "unat ticks < 2 ^ 45" and f: "freq \<noteq> 0" and "c \<le> ctr h" "ctr h \<le> c + 2 ^ 59"
  shows "pio_wait hw host ready freq ticks (of_nat c) h \<noteq> None"
proof -
  have "ctr h \<le> c + 2 ^ 59 \<longrightarrow> pio_wait hw host ready freq ticks (of_nat c) h \<noteq> None"
  proof (rule loop_ends [where n = "unat ticks" and ctr = ctr and c = c])
    show "in_window ctr c h" using assms(4,5) by (simp add: in_window_def)
    fix h assume w: "in_window ctr c h"
      and IH: "\<And>h'. ctr h < c + unat ticks \<Longrightarrow> ctr h < ctr h' \<Longrightarrow> in_window ctr c h' \<Longrightarrow>
        ctr h' \<le> c + 2 ^ 59 \<longrightarrow> pio_wait hw host ready freq ticks (of_nat c) h' \<noteq> None"
    obtain v h1 where r1: "sdhci_readl hw host SDHCI_PRESENT_STATE h = (v, h1)" by fastforce
    obtain now h2 where r: "rsys hw CNTPCT_EL0 h1 = (now, h2)" by fastforce
    note l = ticking_look [OF t r] and l1 = ticking_read [OF t r1]
    show "ctr h \<le> c + 2 ^ 59 \<longrightarrow> pio_wait hw host ready freq ticks (of_nat c) h \<noteq> None"
    proof
      assume "ctr h \<le> c + 2 ^ 59"
      then have w1: "in_window ctr c h1" using w l1 by (auto simp: in_window_def later_def)
      have "pio_wait hw host ready freq ticks (of_nat c) h2 \<noteq> None" if "\<not> ticks \<le> now - of_nat c"
      proof -
        have "now - of_nat c < ticks" using that by simp
        from look_in_window [OF t r w1 this] have c1: "ctr h1 < c + unat ticks" .
        have a: "ctr h \<le> ctr h1" "ctr h1 < ctr h2" "ctr h2 \<le> ctr h1 + 2 ^ 32" "c \<le> ctr h"
          using l l1 w by (auto simp: later_def in_window_def)
        have "in_window ctr c h2" using a c1 b by (simp add: in_window_def)
        moreover have "ctr h2 \<le> c + 2 ^ 59" using a c1 b by simp
        ultimately show ?thesis using IH a c1 by simp
      qed
      then show "pio_wait hw host ready freq ticks (of_nat c) h \<noteq> None"
        using f by (subst pio_wait.simps) (auto simp: r r1)
    qed
  qed
  then show ?thesis using assms(5) by blast
qed

text \<open>A step ends if all of its parts do.\<close>

lemma bind_ends: "m \<noteq> None \<Longrightarrow> (\<And>x. m = Some x \<Longrightarrow> k x \<noteq> None) \<Longrightarrow> m \<bind> k \<noteq> None"
  by auto

lemma prod_ends: "(\<And>a b. p = (a, b) \<Longrightarrow> f a b \<noteq> None) \<Longrightarrow> (case p of (a, b) \<Rightarrow> f a b) \<noteq> None"
  by (cases p) simp

lemma if_ends: "(b \<Longrightarrow> x \<noteq> None) \<Longrightarrow> (\<not> b \<Longrightarrow> y \<noteq> None) \<Longrightarrow> (if b then x else y) \<noteq> None"
  by simp

lemma map_ends: "m \<noteq> None \<Longrightarrow> map_option g m \<noteq> None"
  by simp

lemmas ends_rules = option.distinct(2) if_ends prod_ends bind_ends map_ends

lemma started:
  assumes "ticking hw ctr f" and "rsys hw CNTPCT_EL0 h = (start, h')"
  obtains c where "start = of_nat c" and "in_window ctr c h'" and "c \<le> ctr h'" and "ctr h' \<le> c + 2 ^ 59"
proof
  show "start = of_nat (ctr h)" by (rule ticking_look(1) [OF assms])
qed (use ticking_look(2) [OF assms] in \<open>auto simp: later_def in_window_def\<close>)

lemma sdhci_udelay_ends:
  assumes t: "ticking hw ctr f"
  shows "sdhci_udelay hw us h \<noteq> None"
proof -
  have "delay_loop hw start (us_ticks us freq) h2 \<noteq> None" if "rsys hw CNTPCT_EL0 h1 = (start, h2)" for start h1 h2 freq
    using started [OF t that] delay_loop_ends [OF t us_ticks_bound] by metis
  then show ?thesis by (auto simp: sdhci_udelay_def split: prod.split)
qed

lemma sdhci_wait_irq_ends:
  assumes t: "ticking hw ctr f"
  shows "sdhci_wait_irq hw host msk us h \<noteq> None"
proof -
  have "wait_irq_loop hw host msk start (us_ticks us freq) h2 \<noteq> None"
    if "rsys hw CNTPCT_EL0 h1 = (start, h2)" for start h1 h2 freq
    using started [OF t that] wait_irq_loop_ends [OF t us_ticks_bound] by metis
  then show ?thesis by (auto simp: sdhci_wait_irq_def split: prod.split)
qed

lemma sdhci_wait_inhibit_ends:
  assumes t: "ticking hw ctr f"
  shows "sdhci_wait_inhibit hw host msk us h \<noteq> None"
proof -
  have "wait_inhibit_loop hw host msk start (us_ticks us freq) h2 \<noteq> None"
    if "rsys hw CNTPCT_EL0 h1 = (start, h2)" for start h1 h2 freq
    using started [OF t that] wait_inhibit_loop_ends [OF t us_ticks_bound] by metis
  then show ?thesis by (auto simp: sdhci_wait_inhibit_def split: prod.split)
qed

text \<open>Without a frequency no command is sent, so that no transfer waits without a limit.\<close>

lemma wait_inhibit_no_freq:
  "ticking hw ctr 0 \<Longrightarrow> sdhci_wait_inhibit hw host msk us h = Some (r, h') \<Longrightarrow> r < 0"
  by (auto simp: sdhci_wait_inhibit_def dest: ticking_freq split: prod.splits if_splits)

lemma send_command_no_freq:
  "ticking hw ctr 0 \<Longrightarrow> sdhci_send_command hw host cmd arg flags want h = Some (r, ws, h') \<Longrightarrow> r < 0"
  by (auto simp: sdhci_send_command_def bind_eq_Some_conv dest: wait_inhibit_no_freq split: if_splits)

lemma reset_loop_ends: "ticking hw ctr f \<Longrightarrow> reset_loop hw host msk n h \<noteq> None"
proof (induction n arbitrary: h)
  case (Suc n)
  show ?case unfolding reset_loop.simps
    by (rule ends_rules sdhci_udelay_ends [OF Suc.prems] Suc.IH [OF Suc.prems])+
qed simp

lemma stable_loop_ends: "ticking hw ctr f \<Longrightarrow> stable_loop hw host n h \<noteq> None"
proof (induction n arbitrary: h)
  case 0
  show ?case by (subst stable_loop.simps) (auto split: prod.split)
next
  case (Suc n)
  show ?case by (subst stable_loop.simps, unfold nat.case)
    (rule ends_rules sdhci_udelay_ends [OF Suc.prems] Suc.IH [OF Suc.prems])+
qed

lemma card_stable_loop_ends: "ticking hw ctr f \<Longrightarrow> card_stable_loop hw host n h \<noteq> None"
proof (induction n arbitrary: h)
  case (Suc n)
  show ?case unfolding card_stable_loop.simps
    by (rule ends_rules sdhci_udelay_ends [OF Suc.prems] Suc.IH [OF Suc.prems])+
qed simp

lemma sdhci_reset_ends: "ticking hw ctr f \<Longrightarrow> sdhci_reset hw host msk h \<noteq> None"
  by (simp add: sdhci_reset_def reset_loop_ends del: not_None_eq)

lemma sdhci_set_clock_ends:
  assumes t: "ticking hw ctr f"
  shows "sdhci_set_clock hw host hz h \<noteq> None"
  unfolding sdhci_set_clock_def Let_def by (rule ends_rules stable_loop_ends [OF t])+

lemma sdhci_set_power_ends:
  assumes t: "ticking hw ctr f"
  shows "sdhci_set_power hw host h \<noteq> None"
  unfolding sdhci_set_power_def by (rule ends_rules sdhci_udelay_ends [OF t])+

lemma sdhci_host_init_ends:
  assumes t: "ticking hw ctr f"
  shows "sdhci_host_init hw host h \<noteq> None"
  unfolding sdhci_host_init_def Let_def
  by (rule ends_rules sdhci_reset_ends [OF t] sdhci_set_power_ends [OF t] sdhci_set_clock_ends [OF t])+

lemma sdhci_send_command_ends:
  assumes t: "ticking hw ctr f"
  shows "sdhci_send_command hw host cmd arg flags want h \<noteq> None"
  unfolding sdhci_send_command_def Let_def
  by (rule ends_rules sdhci_wait_inhibit_ends [OF t] sdhci_wait_irq_ends [OF t])+

lemma pio_started_ends:
  assumes t: "ticking hw ctr f" and "freq \<noteq> 0" and "rsys hw CNTPCT_EL0 h = (start, h')"
  shows "pio_wait hw host ready freq (us_ticks us freq') start h' \<noteq> None"
  using started [OF t assms(3)] pio_wait_ends [OF t us_ticks_bound assms(2)] by metis

lemma pio_words_ends: "ticking hw ctr f \<Longrightarrow> freq \<noteq> 0 \<Longrightarrow> pio_words hw host freq (us_ticks us freq') ws h \<noteq> None"
proof (induction ws arbitrary: h)
  case (Cons w ws)
  show ?case
    by (cases w; simp only: pio_words.simps option.case;
        (rule ends_rules pio_started_ends [OF Cons.prems] Cons.IH [OF Cons.prems], assumption?)+)
qed simp

lemma sdhci_transfer_pio_ends:
  assumes t: "ticking hw ctr f" and "f \<noteq> 0"
  shows "sdhci_transfer_pio hw host ws h \<noteq> None"
proof -
  have z: "freq \<noteq> 0" if "rsys hw CNTFRQ_EL0 h = (freq, h')" for freq h'
    using ticking_freq [OF t that] assms(2) by simp
  show ?thesis unfolding sdhci_transfer_pio_def Let_def
    by (rule ends_rules pio_words_ends [OF t] pio_started_ends [OF t] | erule z | assumption)+
qed

lemmas command_ends = sdhci_send_command_ends sdhci_send_command_ends [folded sdhci_cmd_def]

lemma sd_app_cmd_ends:
  assumes t: "ticking hw ctr f"
  shows "sd_app_cmd hw host rca h \<noteq> None"
  unfolding sd_app_cmd_def by (rule ends_rules command_ends [OF t])+

lemma acmd41_loop_ends: "ticking hw ctr f \<Longrightarrow> acmd41_loop hw host n h \<noteq> None"
proof (induction n arbitrary: h)
  case (Suc n)
  note t = Suc.prems
  show ?case unfolding acmd41_loop.simps
    by (rule ends_rules sd_app_cmd_ends [OF t] command_ends [OF t] sdhci_udelay_ends [OF t] Suc.IH [OF t])+
qed simp

lemma switch_function_ends:
  assumes t: "ticking hw ctr f"
  shows "switch_function hw host arg h \<noteq> None"
proof -
  have "sdhci_transfer_pio hw host ws h1 \<noteq> None"
    if "sdhci_send_command hw host cmd arg flags want h = Some (r, vs, h1)" and "\<not> r < 0" for cmd arg flags want r vs h1 ws
    using send_command_no_freq [OF _ that(1)] that(2) sdhci_transfer_pio_ends [OF t] t by metis
  then show ?thesis unfolding switch_function_def
    by (intro ends_rules command_ends [OF t]) auto
qed

lemma sd_switch_hs_ends:
  assumes t: "ticking hw ctr f"
  shows "sd_switch_hs hw host h \<noteq> None"
  unfolding sd_switch_hs_def Let_def by (rule ends_rules switch_function_ends [OF t])+

lemma sd_tune_ends:
  assumes t: "ticking hw ctr f"
  shows "sd_tune hw host rca h \<noteq> None"
  unfolding sd_tune_def sd_set_bus_width_def Let_def
  by (rule ends_rules sd_app_cmd_ends [OF t] command_ends [OF t] sd_switch_hs_ends [OF t] sdhci_set_clock_ends [OF t])+

lemma sd_identify_ends:
  assumes t: "ticking hw ctr f"
  shows "sd_identify hw host h \<noteq> None"
  unfolding sd_identify_def sd_cmd2_def sd_cmd3_def sd_cmd9_def sd_select_card_def sd_set_blocklen_def Let_def
  by (rule ends_rules command_ends [OF t] sd_tune_ends [OF t])+

lemma sd_card_init_ends:
  assumes t: "ticking hw ctr f"
  shows "sd_card_init hw host h \<noteq> None"
  unfolding sd_card_init_def sd_cmd8_def sd_acmd41_def
  by (rule ends_rules card_stable_loop_ends [OF t] command_ends [OF t] sdhci_udelay_ends [OF t]
        acmd41_loop_ends [OF t] sd_identify_ends [OF t])+

lemma sd_send_data_cmd_ends:
  assumes t: "ticking hw ctr f" and d: "\<And>ds. data = Some ds \<Longrightarrow> unat (nr_blocks * 512) div 4 \<le> length ds"
  shows "sd_send_data_cmd hw host cmd arg data nr_blocks h \<noteq> None"
proof -
  have p: "sdhci_transfer_pio hw host' ws h2 \<noteq> None"
    if "sdhci_wait_inhibit hw host msk us h = Some x" and "x = (r, h1)" and "\<not> r < 0" for msk us x r h1 host' ws h2
    using wait_inhibit_no_freq [OF _ that(1) [unfolded that(2)]] that(3) sdhci_transfer_pio_ends [OF t] t by metis
  have l: "\<not> length (case data of None \<Rightarrow> replicate (unat (nr_blocks * 512) div 4) 0 | Some ds \<Rightarrow> ds) < unat (nr_blocks * 512) div 4"
    using d by (auto split: option.split)
  show ?thesis unfolding sd_send_data_cmd_def Let_def
    by (simp only: l if_False)
      (rule ends_rules sdhci_wait_inhibit_ends [OF t] command_ends [OF t] | (rule p, assumption, assumption, assumption))+
qed

text \<open>
  (C28) Every request to the card returns, whatever the controller and the card answer: initialising the host and the card, reading
  blocks and writing blocks all come back with a result as long as the time counter runs, also when its frequency register
  is zero.
\<close>

theorem sd_requests_return:
  assumes "ticking hw ctr f"
  shows "(\<exists>r. sdhci_host_init hw host h = Some r) \<and> (\<exists>r. sd_card_init hw host h = Some r) \<and>
    (\<exists>r. sd_read_blocks hw host lba n h = Some r) \<and>
    (unat (n * 512) div 4 \<le> length ds \<longrightarrow> (\<exists>r. sd_write_blocks hw host lba n ds h = Some r))"
proof (intro conjI impI)
  show "\<exists>r. sdhci_host_init hw host h = Some r" using sdhci_host_init_ends [OF assms, of host h] by blast
  show "\<exists>r. sd_card_init hw host h = Some r" using sd_card_init_ends [OF assms, of host h] by blast
  show "\<exists>r. sd_read_blocks hw host lba n h = Some r"
    unfolding sd_read_blocks_def using sd_send_data_cmd_ends [OF assms, of None] by auto
  assume "unat (n * 512) div 4 \<le> length ds"
  then show "\<exists>r. sd_write_blocks hw host lba n ds h = Some r"
    unfolding sd_write_blocks_def using sd_send_data_cmd_ends [OF assms, of "Some ds"] by auto
qed

text \<open>A machine whose controller never answers: the state is the counter, and the card is never ready.\<close>

definition dead_hw :: "nat hw" where
  "dead_hw = \<lparr>r8 = (\<lambda>a h. (0, h)), r16 = (\<lambda>a h. (0, h)), r32 = (\<lambda>a h. (0x10002, h + 3)), r64 = (\<lambda>a h. (0, h)),
     w8 = (\<lambda>a v h. h), w16 = (\<lambda>a v h. h), w32 = (\<lambda>a v h. h), w64 = (\<lambda>a v h. h),
     rsys = (\<lambda>r h. if r = CNTPCT_EL0 then (of_nat h, h + 1) else (54000000, h)), wsys = (\<lambda>r v h. h)\<rparr>"

definition dead_host :: sdhci_host where
  "dead_host = \<lparr>sh_ioaddr = 0x1000, sh_cfg_regs = 0, sh_irq = 0, sh_base_clock = 200000000, sh_clock = 0, sh_bus_width = 1,
     sh_caps = 0, sh_rca = 0, sh_capacity = 0, sh_ocr = 0, sh_high_capacity = 1, sh_transfer_mode = 0\<rparr>"

theorem sd_requests_return_witness:
  "ticking dead_hw id 54000000 \<and> (\<exists>r. sd_card_init dead_hw dead_host 7 = Some r) \<and>
   (\<exists>r. sd_write_blocks dead_hw dead_host 5 1 (replicate 128 9) 7 = Some r)"
proof -
  have "ticking dead_hw id 54000000" by (simp add: ticking_def later_def dead_hw_def)
  from this sd_requests_return [OF this, of dead_host 7 5 1 "replicate 128 9"] show ?thesis by simp
qed

section \<open>The clock divider\<close>

text \<open>A clock of the base frequency or more is refused.\<close>

lemma set_clock_full_speed:
  assumes "sh_ioaddr host \<noteq> 0" and "sh_base_clock host \<le> hz" and "hz \<noteq> 0"
  shows "\<exists>h'. sdhci_set_clock hw host hz h = Some (- errno_val EINVAL, host, h')"
  using assms by (auto simp: sdhci_set_clock_def sdhci_calc_clock_def Let_def split: prod.split)

text \<open>
  Below it, the divider is the least one that does not exceed the clock, unless even 255 does; the frequency is that
  of the divider.
\<close>

lemma div_loop_least:
  assumes "div_loop base clock n dv fr = (d, f)" and "unat dv + n \<le> 256"
  shows "unat dv \<le> unat d \<and> unat d \<le> unat dv + n \<and> (\<forall>e. dv \<le> e \<and> e < d \<longrightarrow> clock < base div (2 * ucast e)) \<and>
    (unat d < unat dv + n \<longrightarrow> f = base div (2 * ucast d) \<and> f \<le> clock)"
  using assms
proof (induction n arbitrary: dv fr)
  case 0
  then show ?case by auto
next
  case (Suc n)
  define g where "g = base div (2 * ucast dv)"
  show ?case
  proof (cases "g \<le> clock")
    case True
    then have "d = dv" "f = g" using Suc.prems(1) by (auto simp: g_def Let_def)
    then show ?thesis using True by (auto simp: g_def)
  next
    case False
    have u: "unat (dv + 1) = Suc (unat dv)" using Suc.prems(2) by (subst unat_add_lem [THEN iffD1]) auto
    have r: "div_loop base clock n (dv + 1) g = (d, f)" using Suc.prems(1) False by (simp add: g_def Let_def)
    have "e = dv \<or> dv + 1 \<le> e" if "dv \<le> e" for e using that u by (auto simp: word_le_nat_alt word_unat_eq_iff)
    then show ?thesis using Suc.IH [OF r] Suc.prems(2) u False unfolding g_def by (auto simp: not_le)
  qed
qed

end
