(* ===== verification/Mmc.thy ===== *)
theory Mmc
  imports Sdhci
begin

text \<open>
  The block devices on an SD card (\<open>kernel/driver/sdhci/mmcblk.c\<close>): the device of the card and one device per
  partition of its table; and the controller of the BCM2712 (\<open>sdhci-brcm.c\<close>), which probes the host, the card and
  the block devices. The hosts are in \<open>mw_host\<close>, by address; the block device of a host is part of it. As in
  \<open>Block\<close>, the tables of operations are an argument, so that the read of the partition table goes through it.
\<close>

section \<open>Block devices of a card\<close>

record 'h mmc_world =
  mw_hw :: 'h
  mw_host :: "u64 \<Rightarrow> sdhci_host"
  mw_driver_data :: "int \<Rightarrow> u64 option"
  mmcblk_registered :: bool
  mmcblk_next_devno :: u32

type_synonym 'h mmc_state = "'h mmc_world blk_state"

definition ms_hw :: "'h mmc_state \<Rightarrow> 'h" where
  "ms_hw s = mw_hw (bk_hw s)"

definition upd_ms :: "('h mmc_world \<Rightarrow> 'h mmc_world) \<Rightarrow> 'h mmc_state \<Rightarrow> 'h mmc_state" where
  "upd_ms f s = s\<lparr>bk_hw := f (bk_hw s)\<rparr>"

definition set_mhw :: "'h \<Rightarrow> 'h mmc_state \<Rightarrow> 'h mmc_state" where
  "set_mhw h = upd_ms (\<lambda>w. w\<lparr>mw_hw := h\<rparr>)"

definition set_host :: "u64 \<Rightarrow> sdhci_host \<Rightarrow> 'h mmc_state \<Rightarrow> 'h mmc_state" where
  "set_host p host = upd_ms (\<lambda>w. w\<lparr>mw_host := (mw_host w)(p := host)\<rparr>)"

definition host_bdev :: "u64 \<Rightarrow> u64" where
  "host_bdev p = p + 72"

definition le16 :: "bytes \<Rightarrow> u16" where
  "le16 p = ucast (p ! 0) OR push_bit 8 (ucast (p ! 1))"

definition le32 :: "bytes \<Rightarrow> u32" where
  "le32 p = ucast (p ! 0) OR push_bit 8 (ucast (p ! 1)) OR push_bit 16 (ucast (p ! 2)) OR push_bit 24 (ucast (p ! 3))"

text \<open>The sectors of a request, or \<open>None\<close> if it is refused.\<close>

definition mmcblk_sectors :: "block_device \<Rightarrow> u64 \<Rightarrow> u32 \<Rightarrow> (u64 \<times> u32) option" where
  "mmcblk_sectors bd lba nr_blocks =
     (let sector_lba = lba * ucast (bd_block_size bd div 512); nr_sectors = ucast (nr_blocks * (bd_block_size bd div 512)) in
      if bd_nr_blocks bd \<noteq> 0 \<and> (sector_lba + nr_sectors < sector_lba \<or> bd_nr_blocks bd < sector_lba + nr_sectors) then None
      else Some (bd_start_lba bd + sector_lba, ucast nr_sectors))"

text \<open>A request: \<open>data\<close> are the words to write, or \<open>None\<close> for a read.\<close>

definition mmcblk_request ::
    "'h hw \<Rightarrow> u64 \<Rightarrow> u64 \<Rightarrow> u32 \<Rightarrow> u32 list option \<Rightarrow> 'h mmc_state \<Rightarrow> (int \<times> u32 list \<times> 'h mmc_state) option" where
  "mmcblk_request hw bdev lba nr_blocks data s =
     (case bd_private (bk_bdev s bdev) of
        None \<Rightarrow> Some (- errno_val EINVAL, [], s)
      | Some p \<Rightarrow>
          (case mmcblk_sectors (bk_bdev s bdev) lba nr_blocks of
             None \<Rightarrow> Some (- errno_val EINVAL, [], s)
           | Some (abs_lba, nr_sectors) \<Rightarrow> do {
               (ret, vs, host, h) \<leftarrow>
                 (case data of
                    None \<Rightarrow> sd_read_blocks hw (mw_host (bk_hw s) p) abs_lba nr_sectors (ms_hw s)
                  | Some ds \<Rightarrow> sd_write_blocks hw (mw_host (bk_hw s) p) abs_lba nr_sectors ds (ms_hw s));
               Some (ret, vs, set_mhw h (set_host p host s)) }))"

definition mmcblk_open :: "u64 \<Rightarrow> 'h mmc_state \<Rightarrow> (int \<times> 'h mmc_state) option" where
  "mmcblk_open bdev s =
     Some (case bd_private (bk_bdev s bdev) of
             None \<Rightarrow> - errno_val EINVAL
           | Some p \<Rightarrow> if sh_ioaddr (mw_host (bk_hw s) p) = 0 then - errno_val EINVAL else 0, s)"

definition mmcblk_release :: "u64 \<Rightarrow> 'h mmc_state \<Rightarrow> 'h mmc_state option" where
  "mmcblk_release bdev s = Some s"

text \<open>An entry of the partition table: type, first sector and number of sectors.\<close>

definition mbr_partition :: "bytes \<Rightarrow> nat \<Rightarrow> u8 \<times> u32 \<times> u32" where
  "mbr_partition mbr i =
     (let p = drop (446 + 16 * i) mbr in (p ! 4, le32 (drop 8 p), le32 (drop 12 p)))"

definition partition_bdev :: "u64 \<Rightarrow> u32 \<Rightarrow> nat \<Rightarrow> u32 \<Rightarrow> u32 \<Rightarrow> block_device" where
  "partition_bdev p host_idx i start sz =
     \<lparr>bd_dev = MKDEV MMCBLK_MAJOR (MMC_PART_MINOR host_idx (of_nat i + 1)), bd_block_size = 512, bd_block_size_bits = 9,
      bd_ops = None, bd_ref_count = 0, bd_private = Some p, bd_start_lba = ucast start, bd_nr_blocks = ucast sz\<rparr>"

definition mmcblk_add_partition ::
    "'h mmc_world ops_table \<Rightarrow> u64 \<Rightarrow> u32 \<Rightarrow> bytes \<Rightarrow> nat \<Rightarrow> 'h mmc_state \<Rightarrow> 'h mmc_state option" where
  "mmcblk_add_partition ops p host_idx mbr i s =
     (case mbr_partition mbr i of
        (type, start, sz) \<Rightarrow>
          if type = 0 \<or> sz = 0 then Some s
          else do {
            (r, m) \<leftarrow> lift_slab (bk_mm s) (\<lambda>x. kmalloc x sizeof_block_device);
            let s1 = s\<lparr>bk_mm := m\<rparr>;
            (case r of
               None \<Rightarrow> Some s1
             | Some part \<Rightarrow> do {
                 (ret, s2) \<leftarrow> add_block_device ops (upd_bdev s1 part (\<lambda>_. partition_bdev p host_idx i start sz)) (Some part);
                 if ret \<noteq> 0 then do { m' \<leftarrow> mm_kfree (bk_mm s2) (Some part); Some (s2\<lparr>bk_mm := m'\<rparr>) }
                 else Some s2 }) })"

fun add_partitions ::
    "'h mmc_world ops_table \<Rightarrow> u64 \<Rightarrow> u32 \<Rightarrow> bytes \<Rightarrow> nat list \<Rightarrow> 'h mmc_state \<Rightarrow> 'h mmc_state option" where
  "add_partitions ops p host_idx mbr [] s = Some s"
| "add_partitions ops p host_idx mbr (i # is) s = do {
     s' \<leftarrow> mmcblk_add_partition ops p host_idx mbr i s; add_partitions ops p host_idx mbr is s' }"

definition mmcblk_scan_partitions :: "'h mmc_world ops_table \<Rightarrow> u64 \<Rightarrow> u32 \<Rightarrow> 'h mmc_state \<Rightarrow> 'h mmc_state option" where
  "mmcblk_scan_partitions ops p host_idx s =
     (case bdev_read_blocks ops s (Some (host_bdev p)) 0 1 of
        (Inl _, s1) \<Rightarrow> Some s1
      | (Inr mbr, s1) \<Rightarrow>
          if length mbr < 512 then None
          else if le16 (drop 510 mbr) \<noteq> 0xAA55 then Some s1
          else add_partitions ops p host_idx mbr [0..<4] s1)"

text \<open>The address of \<open>mmcblk_ops\<close> is \<open>tbl\<close>.\<close>

definition mmcblk_probe :: "'h mmc_world ops_table \<Rightarrow> u64 \<Rightarrow> u64 \<Rightarrow> 'h mmc_state \<Rightarrow> 'h mmc_state option" where
  "mmcblk_probe ops tbl p s =
     (case (if mmcblk_registered (bk_hw s) then (Inr (), s)
            else (case register_blkdev s MMCBLK_MAJOR (Some tbl) of
                    (r, s1) \<Rightarrow> (r, if r = Inr () then upd_ms (\<lambda>w. w\<lparr>mmcblk_registered := True\<rparr>) s1 else s1))) of
        (Inl _, s1) \<Rightarrow> Some s1
      | (Inr _, s1) \<Rightarrow> do {
          let host_idx = mmcblk_next_devno (bk_hw s1);
          let s2 = upd_ms (\<lambda>w. w\<lparr>mmcblk_next_devno := host_idx + 1\<rparr>) s1;
          let s3 = upd_bdev s2 (host_bdev p) (\<lambda>d. d\<lparr>bd_dev := MKDEV MMCBLK_MAJOR (host_idx * MMC_PARTS_PER_DEV), bd_block_size := 512,
             bd_block_size_bits := 9, bd_private := Some p, bd_start_lba := 0, bd_nr_blocks := sh_capacity (mw_host (bk_hw s2) p)\<rparr>);
          (ret, s4) \<leftarrow> add_block_device ops s3 (Some (host_bdev p));
          if ret \<noteq> 0 then Some s4 else mmcblk_scan_partitions ops p host_idx s4 })"

section \<open>The controller of the BCM2712\<close>

definition SDIO_CFG_CTRL_SDCD_N_TEST_EN :: u32 where "SDIO_CFG_CTRL_SDCD_N_TEST_EN = push_bit 31 1"
definition SDIO_CFG_CTRL_SDCD_N_TEST_LEV :: u32 where "SDIO_CFG_CTRL_SDCD_N_TEST_LEV = push_bit 30 1"
definition SDIO_CFG_CQ_CAPABILITY :: u64 where "SDIO_CFG_CQ_CAPABILITY = 0x4c"
definition SDIO_CFG_CQ_CAPABILITY_FMUL :: u32 where "SDIO_CFG_CQ_CAPABILITY_FMUL = push_bit 12 3"
definition SDIO_CFG_MAX_50MHZ_MODE :: u64 where "SDIO_CFG_MAX_50MHZ_MODE = 0x1ac"
definition SDIO_CFG_MAX_50MHZ_MODE_ENABLE :: u32 where "SDIO_CFG_MAX_50MHZ_MODE_ENABLE = 1"
definition SDIO_CFG_MAX_50MHZ_MODE_STRAP_OVERRIDE :: u32 where "SDIO_CFG_MAX_50MHZ_MODE_STRAP_OVERRIDE = push_bit 31 1"

definition brcm_sdhci_cfginit_2712 :: "'h hw \<Rightarrow> sdhci_host \<Rightarrow> 'h \<Rightarrow> 'h" where
  "brcm_sdhci_cfginit_2712 hw host h =
     (if sh_cfg_regs host = 0 then h
      else
        let cfg = sh_cfg_regs host;
            h1 = rmw32 hw (cfg + SDIO_CFG_MAX_50MHZ_MODE)
                   (\<lambda>v. v AND NOT SDIO_CFG_MAX_50MHZ_MODE_ENABLE OR SDIO_CFG_MAX_50MHZ_MODE_STRAP_OVERRIDE) h;
            mhz = sh_base_clock host div 1000000
        in w32 hw (cfg + SDIO_CFG_CQ_CAPABILITY)
             (SDIO_CFG_CQ_CAPABILITY_FMUL OR ((if mhz = 0 then 100 else mhz) AND 0xfff)) h1)"

definition brcm_sdhci_irq_handler :: "'h hw \<Rightarrow> u64 option \<Rightarrow> 'h mmc_state \<Rightarrow> 'h mmc_state" where
  "brcm_sdhci_irq_handler hw dev_id s =
     (case dev_id of
        None \<Rightarrow> s
      | Some p \<Rightarrow>
          let host = mw_host (bk_hw s) p in
          if sh_ioaddr host = 0 then s
          else (case sdhci_readl hw host SDHCI_INT_STATUS (ms_hw s) of
                  (intmask, h) \<Rightarrow> set_mhw (if intmask \<noteq> 0 then sdhci_writel hw host intmask SDHCI_INT_STATUS h else h) s))"

definition brcm_sdhci_force_card_present :: "'h hw \<Rightarrow> sdhci_host \<Rightarrow> 'h \<Rightarrow> 'h" where
  "brcm_sdhci_force_card_present hw host h =
     (if sh_cfg_regs host = 0 then h
      else rmw32 hw (sh_cfg_regs host) (\<lambda>v. v AND NOT SDIO_CFG_CTRL_SDCD_N_TEST_LEV OR SDIO_CFG_CTRL_SDCD_N_TEST_EN) h)"

definition brcm_sdhci_is_sdio_controller :: "fdt \<Rightarrow> int \<Rightarrow> bool option" where
  "brcm_sdhci_is_sdio_controller d nodeoffset = do {
     (prop, _) \<leftarrow> fdt_getprop d nodeoffset (cstr_of ''non-removable'');
     if prop = None then Some False
     else do { sub \<leftarrow> fdt_first_subnode d nodeoffset; Some (0 \<le> sub) } }"

definition sizeof_sdhci_host :: u32 where "sizeof_sdhci_host = 144"

definition zero_host :: sdhci_host where
  "zero_host = \<lparr>sh_ioaddr = 0, sh_cfg_regs = 0, sh_irq = 0, sh_base_clock = 0, sh_clock = 0, sh_bus_width = 0, sh_caps = 0,
     sh_rca = 0, sh_capacity = 0, sh_ocr = 0, sh_high_capacity = 0, sh_transfer_mode = 0\<rparr>"

definition zero_bdev :: block_device where
  "zero_bdev = \<lparr>bd_dev = 0, bd_block_size = 0, bd_block_size_bits = 0, bd_ops = None, bd_ref_count = 0, bd_private = None,
     bd_start_lba = 0, bd_nr_blocks = 0\<rparr>"

text \<open>Giving up a host: \<open>kfree(host)\<close> and the error.\<close>

definition drop_host :: "u64 \<Rightarrow> int \<Rightarrow> 'h mmc_state \<Rightarrow> (int \<times> 'h mmc_state) option" where
  "drop_host p ret s = do { m \<leftarrow> mm_kfree (bk_mm s) (Some p); Some (ret, s\<lparr>bk_mm := m\<rparr>) }"

text \<open>The part of the probe behind the interrupt: the controller, the card and the block devices.\<close>

definition brcm_sdhci_bringup ::
    "'h hw \<Rightarrow> 'h mmc_world ops_table \<Rightarrow> u64 \<Rightarrow> fdt \<Rightarrow> platform_device \<Rightarrow> u64 \<Rightarrow> 'h mmc_state \<Rightarrow> (int \<times> 'h mmc_state) option" where
  "brcm_sdhci_bringup hw ops tbl d pdev p s = do {
     let host = mw_host (bk_hw s) p;
     (ret, host1, h1) \<leftarrow> sdhci_host_init hw host (brcm_sdhci_cfginit_2712 hw host (ms_hw s));
     let s1 = set_mhw h1 (set_host p host1 s);
     if ret < 0 then drop_host p ret s1
     else do {
       let (_, h2) = sdhci_readl hw host1 SDHCI_PRESENT_STATE h1;
       sdio \<leftarrow> brcm_sdhci_is_sdio_controller d (pd_of_node pdev);
       if sdio then Some (0, set_mhw h2 s1)
       else do {
         let (state, h3) = sdhci_readl hw host1 SDHCI_PRESENT_STATE h2;
         let h4 = (if state AND SDHCI_CARD_PRESENT = 0 then brcm_sdhci_force_card_present hw host1 h3 else h3);
         (ret', host2, h5) \<leftarrow> sd_card_init hw host1 h4;
         let s2 = set_mhw h5 (set_host p host2 s1);
         if ret' < 0 then drop_host p ret' s2
         else do { s3 \<leftarrow> mmcblk_probe ops tbl p s2; Some (0, s3) } } } }"

definition brcm_sdhci_probe ::
    "'h hw \<Rightarrow> 'h kmem \<Rightarrow> (u32 \<Rightarrow> u64 \<Rightarrow> 'h mmc_state \<Rightarrow> int \<times> 'h mmc_state) \<Rightarrow> (u32 \<Rightarrow> 'h mmc_state \<Rightarrow> int \<times> 'h mmc_state) \<Rightarrow>
     'h mmc_world ops_table \<Rightarrow> u64 \<Rightarrow> fdt \<Rightarrow> platform_device \<Rightarrow> 'h mmc_state \<Rightarrow> (int \<times> 'h mmc_state) option" where
  "brcm_sdhci_probe hw km request enable ops tbl d pdev s =
     (case (platform_get_resource pdev IORESOURCE_MEM 0, platform_get_resource pdev IORESOURCE_IRQ 0) of
        (Some mem, Some irq_res) \<Rightarrow> do {
          (r, m) \<leftarrow> lift_slab (bk_mm s) (\<lambda>x. kzalloc x sizeof_sdhci_host);
          let s0 = s\<lparr>bk_mm := m\<rparr>;
          (case r of
             None \<Rightarrow> Some (- errno_val ENOMEM, s0)
           | Some p \<Rightarrow> do {
               let s1 = upd_ms (\<lambda>w. w\<lparr>mw_driver_data := (mw_driver_data w)(pd_of_node pdev := Some p)\<rparr>)
                          (upd_bdev s0 (host_bdev p) (\<lambda>_. zero_bdev));
               let (io, h1) = km_ioremap km (rs_start mem) (resource_size (Some mem)) (ms_hw s1);
               let host1 = zero_host\<lparr>sh_ioaddr := io\<rparr>;
               let s2 = set_mhw h1 (set_host p host1 s1);
               if io = 0 then drop_host p (- errno_val ENOMEM) s2
               else do {
                 let cfg = platform_get_resource pdev IORESOURCE_MEM 1;
                 let (cf, h2) = (case cfg of
                       None \<Rightarrow> (0, h1)
                     | Some c \<Rightarrow> km_ioremap km (rs_start c) (resource_size cfg) h1);
                 let host2 = host1\<lparr>sh_cfg_regs := cf\<rparr>;
                 if cfg \<noteq> None \<and> cf = 0 then drop_host p (- errno_val ENOMEM) (set_mhw h2 (set_host p host2 s2))
                 else do {
                   let irq = (ucast (rs_start irq_res) :: u32);
                   clk \<leftarrow> of_get_clock_frequency d (pd_of_node pdev);
                   let host3 = host2\<lparr>sh_irq := irq, sh_base_clock := (if clk = 0 then 100000000 else clk)\<rparr>;
                   let (r1, s3) = request irq p (set_mhw h2 (set_host p host3 s2));
                   if r1 \<noteq> 0 then drop_host p (- errno_val EINVAL) s3
                   else do {
                     let (r2, s4) = enable irq s3;
                     if r2 \<noteq> 0 then drop_host p (- errno_val EINVAL) s4
                     else brcm_sdhci_bringup hw ops tbl d pdev p s4 } } } }) }
      | _ \<Rightarrow> Some (- errno_val EINVAL, s))"

definition brcm_sdhci_remove :: "'h hw \<Rightarrow> platform_device \<Rightarrow> 'h mmc_state \<Rightarrow> (int \<times> 'h mmc_state) option" where
  "brcm_sdhci_remove hw pdev s =
     (case mw_driver_data (bk_hw s) (pd_of_node pdev) of
        None \<Rightarrow> Some (0, s)
      | Some p \<Rightarrow>
          let host = mw_host (bk_hw s) p in
          drop_host p 0 (set_mhw (sdhci_writel hw host 0 SDHCI_SIGNAL_ENABLE (sdhci_writel hw host 0 SDHCI_INT_ENABLE (ms_hw s))) s))"

definition brcm_sdhci_match :: "cstr list" where
  "brcm_sdhci_match = [cstr_of ''brcm,bcm2712-sdhci'']"

section \<open>Requests stay inside their partition\<close>

lemma unat_widen [simp]: "unat (ucast (x :: u32) :: u64) = unat x"
  using unsigned_less [of x, where ?'a = nat] by (simp add: unsigned_ucast_eq take_bit_eq_mod)

text \<open>
  The sectors of a request, at the widths of the code: the first modulo \<open>2 ^ 64\<close> and their number
  modulo \<open>2 ^ 32\<close>. The request is accepted exactly if these lie in the partition.
\<close>

lemma mmcblk_sectors_exact:
  defines "k bd \<equiv> unat (bd_block_size bd) div 512"
  assumes a: "a = unat lba * k bd mod 2 ^ 64" and m: "m = unat n * k bd mod 2 ^ 32"
    and small: "unat (bd_nr_blocks bd) < 2 ^ 32"
  shows "mmcblk_sectors bd lba n =
    (if bd_nr_blocks bd \<noteq> 0 \<and> unat (bd_nr_blocks bd) < a + m then None
     else Some (bd_start_lba bd + of_nat a, of_nat m))"
proof -
  define sl where "sl = (lba * ucast (bd_block_size bd div 512) :: u64)"
  define ns where "ns = (ucast (n * (bd_block_size bd div 512)) :: u64)"
  have k: "unat (bd_block_size bd div 512) = k bd" by (simp add: k_def unat_div)
  have sl: "unat sl = a" by (simp add: sl_def unat_word_ariths(2) k a)
  have nm: "unat (n * (bd_block_size bd div 512)) = m" by (simp add: unat_word_ariths(2) k m)
  have ns: "unat ns = m" using nm by (simp add: ns_def)
  have lt: "a < 2 ^ 64" "m < 2 ^ 32" by (simp_all add: a m)
  have c: "sl + ns < sl \<or> bd_nr_blocks bd < sl + ns \<longleftrightarrow> unat (bd_nr_blocks bd) < a + m"
  proof (cases "a + m < 2 ^ 64")
    case True
    then show ?thesis by (simp add: word_less_nat_alt unat_word_ariths(1) sl ns)
  next
    case False
    then have "unat (sl + ns) = a + m - 2 ^ 64"
      using lt by (simp add: unat_word_ariths(1) sl ns mod_if [of "a + m"])
    moreover have "a + m - 2 ^ 64 < a" "unat (bd_nr_blocks bd) < a + m" using lt small False by simp_all
    ultimately show ?thesis by (simp add: word_less_nat_alt sl)
  qed
  have "of_nat a = sl" "of_nat m = (ucast ns :: u32)"
    using sl nm by (simp_all add: ns_def flip: nm sl)
  then show ?thesis by (simp add: mmcblk_sectors_def c flip: sl_def ns_def)
qed



text \<open>A card with a partition of eight sectors at sector 2048.\<close>

definition card_state :: "mm_state \<Rightarrow> nat mmc_state" where
  "card_state m = \<lparr>bk_mm = m, g_blkdevs = (\<lambda>_. None), g_bdev_list = [],
     bk_bdev = (\<lambda>_. partition_bdev 0x5000 0 0 2048 8), bk_bufs = (\<lambda>_. None), g_bcache_tree = \<lparr>rb_root = None, rb_nd = (\<lambda>_. zero_node)\<rparr>, g_bcache_lru = [],
     bk_hw = \<lparr>mw_hw = 0, mw_host = (\<lambda>_. dead_host), mw_driver_data = (\<lambda>_. None), mmcblk_registered = True, mmcblk_next_devno = 1\<rparr>\<rparr>"


end
