(* ===== verification/Fb.thy ===== *)
theory Fb
  imports Virtio
begin

text \<open>
  Frame buffers: the registry (\<open>kernel/driver/fb/fb.c\<close>), the virtio display (\<open>kernel/driver/virtio/virtio_gpu.c\<close>),
  the mailbox of the VideoCore firmware (\<open>kernel/driver/mailbox/bcm2835-mbox.c\<close>) and the frame buffer it provides
  (\<open>kernel/driver/fb/rpi-fb.c\<close>). Requests to the display and messages to the firmware are lists of 32-bit words, as
  they stand in memory. Barriers and the masking of interrupts around a mailbox call change nothing here and are left
  out. \<open>None\<close> is undefined behaviour or a wait that never ends.
\<close>

section \<open>The registry\<close>

definition FB_FORMAT_XRGB8888 :: u32 where "FB_FORMAT_XRGB8888 = 0"
definition FB_FORMAT_RGB565 :: u32 where "FB_FORMAT_RGB565 = 1"

record fb_screen =
  fbi_width :: u32
  fbi_height :: u32
  fbi_stride :: u32
  fbi_bpp :: u32
  fbi_format :: u32
  fbi_screen_base :: u64
  fbi_screen_size :: u64
  fbi_phys_base :: u64
  fbi_can_flush :: bool

record virtio_gpu =
  gpu_vdev :: u64
  gpu_resource_id :: u32
  gpu_width :: u32
  gpu_height :: u32
  gpu_stride :: u32
  gpu_fb_base :: u64
  gpu_fb_phys :: u64
  gpu_fb_size :: u64

record rpi_fb =
  rpi_prop_buf :: "u64 option"
  rpi_fb_base :: u64
  rpi_fb_phys :: u64
  rpi_fb_size :: u64

record 'h fb_world =
  fw_hw :: 'h
  fw_dev :: "u64 \<Rightarrow> virtio_device"
  fw_info :: "u64 \<Rightarrow> fb_screen"
  fw_gpu :: "u64 \<Rightarrow> virtio_gpu"
  fw_rpi :: "u64 \<Rightarrow> rpi_fb"
  fw_driver_data :: "int \<Rightarrow> u64 option"
  g_fb_info :: "u64 option"
  g_mbox_base :: u64

definition set_fhw :: "'h \<Rightarrow> 'h fb_world \<Rightarrow> 'h fb_world" where
  "set_fhw h w = w\<lparr>fw_hw := h\<rparr>"

definition fb_register :: "u64 option \<Rightarrow> 'h fb_world \<Rightarrow> int \<times> 'h fb_world" where
  "fb_register info w = (case info of None \<Rightarrow> (- errno_val EINVAL, w) | Some i \<Rightarrow> (0, w\<lparr>g_fb_info := Some i\<rparr>))"

definition fb_unregister :: "u64 option \<Rightarrow> 'h fb_world \<Rightarrow> 'h fb_world" where
  "fb_unregister info w = (if g_fb_info w = info then w\<lparr>g_fb_info := None\<rparr> else w)"

definition fb_registered :: "'h fb_world \<Rightarrow> u64 option" where
  "fb_registered w = g_fb_info w"

section \<open>Commands to the display\<close>

definition VIRTIO_GPU_QUEUE_SIZE :: u32 where "VIRTIO_GPU_QUEUE_SIZE = 64"
definition VIRTIO_GPU_CMD_GET_DISPLAY_INFO :: u32 where "VIRTIO_GPU_CMD_GET_DISPLAY_INFO = 0x0100"
definition VIRTIO_GPU_CMD_RESOURCE_CREATE_2D :: u32 where "VIRTIO_GPU_CMD_RESOURCE_CREATE_2D = 0x0101"
definition VIRTIO_GPU_CMD_SET_SCANOUT :: u32 where "VIRTIO_GPU_CMD_SET_SCANOUT = 0x0103"
definition VIRTIO_GPU_CMD_RESOURCE_FLUSH :: u32 where "VIRTIO_GPU_CMD_RESOURCE_FLUSH = 0x0104"
definition VIRTIO_GPU_CMD_TRANSFER_TO_HOST_2D :: u32 where "VIRTIO_GPU_CMD_TRANSFER_TO_HOST_2D = 0x0105"
definition VIRTIO_GPU_CMD_RESOURCE_ATTACH_BACKING :: u32 where "VIRTIO_GPU_CMD_RESOURCE_ATTACH_BACKING = 0x0106"
definition VIRTIO_GPU_RESP_OK_NODATA :: u32 where "VIRTIO_GPU_RESP_OK_NODATA = 0x1100"
definition VIRTIO_GPU_RESP_OK_DISPLAY_INFO :: u32 where "VIRTIO_GPU_RESP_OK_DISPLAY_INFO = 0x1101"
definition VIRTIO_GPU_FORMAT_X8R8G8B8_UNORM :: u32 where "VIRTIO_GPU_FORMAT_X8R8G8B8_UNORM = 4"

text \<open>The header of a request, a rectangle and a 64-bit field as words.\<close>

definition virtio_gpu_ctrl_hdr :: "u32 \<Rightarrow> u32 list" where
  "virtio_gpu_ctrl_hdr type = [type, 0, 0, 0, 0, 0]"

definition virtio_gpu_rect :: "u32 \<Rightarrow> u32 \<Rightarrow> u32 \<Rightarrow> u32 \<Rightarrow> u32 list" where
  "virtio_gpu_rect x y width height = [x, y, width, height]"

definition words64 :: "u64 \<Rightarrow> u32 list" where
  "words64 v = [ucast v, ucast (drop_bit 32 v)]"

text \<open>
  The places of the request, the response and the cookie on the stack of a command function; they are the
  compiler's choice, one for each command.
\<close>

record gpu_frame =
  gf_req :: u64
  gf_resp :: u64
  gf_cookie :: u64

fun st_words :: "'h hw \<Rightarrow> u64 \<Rightarrow> u32 list \<Rightarrow> 'h \<Rightarrow> 'h" where
  "st_words hw a [] h = h"
| "st_words hw a (v # vs) h = st_words hw (a + 4) vs (w32 hw a v h)"

definition gpu_descs :: "'h kmem \<Rightarrow> u64 \<Rightarrow> u32 \<Rightarrow> u64 \<Rightarrow> u32 \<Rightarrow> vring_desc list" where
  "gpu_descs km req req_len resp resp_len =
     [\<lparr>vd_addr = VA_PA km req, vd_len = req_len, vd_flags = 0, vd_next = 1\<rparr>,
      \<lparr>vd_addr = VA_PA km resp, vd_len = resp_len, vd_flags = VRING_DESC_F_WRITE, vd_next = 0\<rparr>]"

definition virtio_gpu_send_cmd ::
    "'h hw \<Rightarrow> 'h kmem \<Rightarrow> virtio_device \<Rightarrow> gpu_frame \<Rightarrow> u32 \<Rightarrow> u32 \<Rightarrow> u32 \<Rightarrow> 'h \<Rightarrow> (int \<times> virtio_device \<times> 'h) option" where
  "virtio_gpu_send_cmd hw km vdev fr req_len resp_len expected h = do {
     (ret, vq, h1) \<leftarrow> virtio_add_buf hw (vdv_vq vdev) (gpu_descs km (gf_req fr) req_len (gf_resp fr) resp_len) (gf_cookie fr) h;
     if ret < 0 then Some (ret, vdev\<lparr>vdv_vq := vq\<rparr>, h1)
     else do {
       (vq', h2) \<leftarrow> wait_cookie hw (gf_cookie fr) vq (virtio_mmio_notify hw vdev 0 h1);
       (case r32 hw (gf_resp fr) h2 of
          (type, h3) \<Rightarrow> Some (if type = expected then 0 else - errno_val EIO, vdev\<lparr>vdv_vq := vq'\<rparr>, h3)) } }"

text \<open>Filling in the request, clearing the response and sending the command.\<close>

definition gpu_command ::
    "'h hw \<Rightarrow> 'h kmem \<Rightarrow> virtio_device \<Rightarrow> gpu_frame \<Rightarrow> u32 list \<Rightarrow> nat \<Rightarrow> u32 \<Rightarrow> 'h \<Rightarrow> (int \<times> virtio_device \<times> 'h) option" where
  "gpu_command hw km vdev fr req resp_words expected h =
     virtio_gpu_send_cmd hw km vdev fr (of_nat (4 * length req)) (of_nat (4 * resp_words)) expected
       (st_words hw (gf_resp fr) (replicate resp_words 0) (st_words hw (gf_req fr) req h))"

definition virtio_gpu_get_display_info ::
    "'h hw \<Rightarrow> 'h kmem \<Rightarrow> (u32 \<Rightarrow> gpu_frame) \<Rightarrow> virtio_device \<Rightarrow> 'h \<Rightarrow> (int \<times> (u32 \<times> u32) \<times> virtio_device \<times> 'h) option" where
  "virtio_gpu_get_display_info hw km fr vdev h = do {
     let f = fr VIRTIO_GPU_CMD_GET_DISPLAY_INFO;
     (ret, vdev', h1) \<leftarrow> gpu_command hw km vdev f (virtio_gpu_ctrl_hdr VIRTIO_GPU_CMD_GET_DISPLAY_INFO) 102
        VIRTIO_GPU_RESP_OK_DISPLAY_INFO h;
     if ret < 0 then Some (ret, (0, 0), vdev', h1)
     else
       let (type, h2) = r32 hw (gf_resp f) h1 in
       if type \<noteq> VIRTIO_GPU_RESP_OK_DISPLAY_INFO then Some (- errno_val EIO, (0, 0), vdev', h2)
       else
         let (enabled, h3) = r32 hw (gf_resp f + 40) h2 in
         if enabled = 0 then Some (- errno_val ENODEV, (0, 0), vdev', h3)
         else
           let (width, h4) = r32 hw (gf_resp f + 32) h3; (height, h5) = r32 hw (gf_resp f + 36) h4
           in Some (0, (width, height), vdev', h5) }"

definition virtio_gpu_resource_create_2d where
  "virtio_gpu_resource_create_2d hw km fr vdev resource_id width height =
     gpu_command hw km vdev (fr VIRTIO_GPU_CMD_RESOURCE_CREATE_2D)
       (virtio_gpu_ctrl_hdr VIRTIO_GPU_CMD_RESOURCE_CREATE_2D @ [resource_id, VIRTIO_GPU_FORMAT_X8R8G8B8_UNORM, width, height]) 6
       VIRTIO_GPU_RESP_OK_NODATA"

text \<open>The request has room for a second entry, which stays zero.\<close>

definition virtio_gpu_resource_attach_backing where
  "virtio_gpu_resource_attach_backing hw km fr vdev resource_id phys sz =
     gpu_command hw km vdev (fr VIRTIO_GPU_CMD_RESOURCE_ATTACH_BACKING)
       (virtio_gpu_ctrl_hdr VIRTIO_GPU_CMD_RESOURCE_ATTACH_BACKING @ [resource_id, 1] @ words64 phys @ [ucast (sz :: u64), 0] @
          [0, 0, 0, 0]) 6
       VIRTIO_GPU_RESP_OK_NODATA"

definition virtio_gpu_set_scanout where
  "virtio_gpu_set_scanout hw km fr vdev scanout_id resource_id width height =
     gpu_command hw km vdev (fr VIRTIO_GPU_CMD_SET_SCANOUT)
       (virtio_gpu_ctrl_hdr VIRTIO_GPU_CMD_SET_SCANOUT @ virtio_gpu_rect 0 0 width height @ [scanout_id, resource_id]) 6
       VIRTIO_GPU_RESP_OK_NODATA"

definition virtio_gpu_transfer_to_host_2d where
  "virtio_gpu_transfer_to_host_2d hw km fr vdev resource_id x y w h stride =
     gpu_command hw km vdev (fr VIRTIO_GPU_CMD_TRANSFER_TO_HOST_2D)
       (virtio_gpu_ctrl_hdr VIRTIO_GPU_CMD_TRANSFER_TO_HOST_2D @ virtio_gpu_rect x y w h @
          words64 (ucast (y :: u32) * ucast (stride :: u32) + ucast (x :: u32) * 4) @ [resource_id, 0]) 6
       VIRTIO_GPU_RESP_OK_NODATA"

definition virtio_gpu_resource_flush where
  "virtio_gpu_resource_flush hw km fr vdev resource_id x y w h =
     gpu_command hw km vdev (fr VIRTIO_GPU_CMD_RESOURCE_FLUSH)
       (virtio_gpu_ctrl_hdr VIRTIO_GPU_CMD_RESOURCE_FLUSH @ virtio_gpu_rect x y w h @ [resource_id, 0]) 6
       VIRTIO_GPU_RESP_OK_NODATA"

text \<open>The rectangle that is sent for a request, if it is not empty; a sum outside the type \<open>int\<close> is undefined.\<close>

definition flush_rect :: "u32 \<Rightarrow> u32 \<Rightarrow> int \<Rightarrow> int \<Rightarrow> int \<Rightarrow> int \<Rightarrow> (u32 \<times> u32 \<times> u32 \<times> u32) option option" where
  "flush_rect width height x y w h =
     (let x' = max x 0; y' = max y 0 in
      if x' + w < - (2 ^ 31) \<or> 2 ^ 31 \<le> x' + w \<or> y' + h < - (2 ^ 31) \<or> 2 ^ 31 \<le> y' + h then None
      else
        let x0 = of_int x'; y0 = of_int y'; x1 = min (of_int (x' + w)) width; y1 = min (of_int (y' + h)) height in
        Some (if x1 \<le> x0 \<or> y1 \<le> y0 then None else Some (x0, y0, x1 - x0, y1 - y0)))"

definition virtio_gpu_fb_flush ::
    "'h hw \<Rightarrow> 'h kmem \<Rightarrow> (u32 \<Rightarrow> gpu_frame) \<Rightarrow> u64 \<Rightarrow> int \<Rightarrow> int \<Rightarrow> int \<Rightarrow> int \<Rightarrow> 'h fb_world \<Rightarrow> (int \<times> 'h fb_world) option" where
  "virtio_gpu_fb_flush hw km fr g x y w h s = do {
     let gpu = fw_gpu s g;
     let v = gpu_vdev gpu;
     rect \<leftarrow> flush_rect (gpu_width gpu) (gpu_height gpu) x y w h;
     (case rect of
        None \<Rightarrow> Some (0, s)
      | Some (x0, y0, rw, rh) \<Rightarrow> do {
          (ret, vdev, h1) \<leftarrow> virtio_gpu_transfer_to_host_2d hw km fr (fw_dev s v) (gpu_resource_id gpu) x0 y0 rw rh (gpu_stride gpu) (fw_hw s);
          if ret < 0 then Some (ret, set_fhw h1 (s\<lparr>fw_dev := (fw_dev s)(v := vdev)\<rparr>))
          else do {
            (ret', vdev', h2) \<leftarrow> virtio_gpu_resource_flush hw km fr vdev (gpu_resource_id gpu) x0 y0 rw rh h1;
            Some (ret', set_fhw h2 (s\<lparr>fw_dev := (fw_dev s)(v := vdev')\<rparr>)) } }) }"

section \<open>Probing the display\<close>

fun clear_bytes :: "'h hw \<Rightarrow> u64 \<Rightarrow> nat \<Rightarrow> 'h \<Rightarrow> 'h" where
  "clear_bytes hw a 0 h = h"
| "clear_bytes hw a (Suc n) h = clear_bytes hw (a + 1) n (w8 hw a 0 h)"

definition sizeof_virtio_gpu :: u32 where "sizeof_virtio_gpu = 144"

text \<open>The resource, its memory and the scanout; the commands stop at the first that fails.\<close>

definition gpu_setup ::
    "'h hw \<Rightarrow> 'h kmem \<Rightarrow> (u32 \<Rightarrow> gpu_frame) \<Rightarrow> virtio_gpu \<Rightarrow> virtio_device \<Rightarrow> 'h \<Rightarrow> (bool \<times> virtio_device \<times> 'h) option" where
  "gpu_setup hw km fr gpu vdev h = do {
     (r1, vdev1, h1) \<leftarrow> virtio_gpu_resource_create_2d hw km fr vdev (gpu_resource_id gpu) (gpu_width gpu) (gpu_height gpu) h;
     if r1 < 0 then Some (False, vdev1, h1)
     else do {
       (r2, vdev2, h2) \<leftarrow> virtio_gpu_resource_attach_backing hw km fr vdev1 (gpu_resource_id gpu) (gpu_fb_phys gpu) (gpu_fb_size gpu) h1;
       if r2 < 0 then Some (False, vdev2, h2)
       else do {
         (r3, vdev3, h3) \<leftarrow> virtio_gpu_set_scanout hw km fr vdev2 0 (gpu_resource_id gpu) (gpu_width gpu) (gpu_height gpu) h2;
         Some (0 \<le> r3, vdev3, h3) } } }"

definition gpu_screen :: "virtio_gpu \<Rightarrow> fb_screen" where
  "gpu_screen gpu = \<lparr>fbi_width = gpu_width gpu, fbi_height = gpu_height gpu, fbi_stride = gpu_stride gpu, fbi_bpp = 32,
     fbi_format = FB_FORMAT_XRGB8888, fbi_screen_base = gpu_fb_base gpu, fbi_screen_size = gpu_fb_size gpu,
     fbi_phys_base = gpu_fb_phys gpu, fbi_can_flush = True\<rparr>"

text \<open>From the allocation of \<open>struct virtio_gpu\<close> on; the information block is its second member.\<close>

definition gpu_create ::
    "'h hw \<Rightarrow> 'h kmem \<Rightarrow> (u32 \<Rightarrow> gpu_frame) \<Rightarrow> u64 \<Rightarrow> u32 \<Rightarrow> u32 \<Rightarrow> 'h fb_world \<Rightarrow> (int \<times> 'h fb_world) option" where
  "gpu_create hw km fr v width height s =
     (case km_alloc km sizeof_virtio_gpu (fw_hw s) of
        (None, h1) \<Rightarrow> Some (- errno_val ENOMEM, set_fhw h1 s)
      | (Some g, h1) \<Rightarrow>
          let stride = width * 4; sz = ucast stride * ucast height; len = (ucast (sz :: u64) :: u32) in
          (case km_alloc_phys km (ucast len) h1 of
             (None, h2) \<Rightarrow> Some (- errno_val ENOMEM, set_fhw (km_free km g h2) s)
           | (Some phys, h2) \<Rightarrow>
               (case km_memremap km phys sz h2 of
                  (base, h3) \<Rightarrow>
                    if base = 0 then Some (- errno_val ENOMEM, set_fhw (km_free km g (km_free_phys km phys h3)) s)
                    else do {
                      let gpu = \<lparr>gpu_vdev = v, gpu_resource_id = 1, gpu_width = width, gpu_height = height, gpu_stride = stride,
                                 gpu_fb_base = base, gpu_fb_phys = phys, gpu_fb_size = sz\<rparr>;
                      (ok, vdev, h4) \<leftarrow> gpu_setup hw km fr gpu (fw_dev s v) (clear_bytes hw base (unat len) h3);
                      let s1 = s\<lparr>fw_dev := (fw_dev s)(v := vdev)\<rparr>;
                      let (r, s2) = fb_register (Some (g + 8)) (set_fhw h4 (s1\<lparr>fw_gpu := (fw_gpu s)(g := gpu),
                            fw_info := (fw_info s)(g + 8 := gpu_screen gpu)\<rparr>));
                      if \<not> ok \<or> r < 0 then Some (- errno_val EIO, set_fhw (km_free km g (km_free_phys km phys h4)) s1)
                      else Some (0, s2) })))"

definition virtio_gpu_probe ::
    "'h hw \<Rightarrow> 'h kmem \<Rightarrow> (u32 \<Rightarrow> gpu_frame) \<Rightarrow> u64 \<Rightarrow> 'h fb_world \<Rightarrow> (int \<times> 'h fb_world) option" where
  "virtio_gpu_probe hw km fr v s = do {
     (ret, vdev, h1) \<leftarrow> virtio_mmio_setup_queue hw km (fw_dev s v) 0 VIRTIO_GPU_QUEUE_SIZE (fw_hw s);
     if ret < 0 then Some (ret, set_fhw h1 (s\<lparr>fw_dev := (fw_dev s)(v := vdev)\<rparr>))
     else do {
       (ret', (width, height), vdev', h2) \<leftarrow> virtio_gpu_get_display_info hw km fr vdev
          (virtio_mmio_set_status hw vdev VIRTIO_CONFIG_S_STARTED (virtio_mmio_set_status hw vdev VIRTIO_CONFIG_S_DRIVER_OK h1));
       let s1 = set_fhw h2 (s\<lparr>fw_dev := (fw_dev s)(v := vdev')\<rparr>);
       if ret' < 0 then Some (ret', s1) else gpu_create hw km fr v width height s1 } }"

definition virtio_gpu_driver :: "'h hw \<Rightarrow> 'h kmem \<Rightarrow> (u32 \<Rightarrow> gpu_frame) \<Rightarrow> 'h fb_world virtio_driver" where
  "virtio_gpu_driver hw km fr =
     \<lparr>vr_id_table = Some [VIRTIO_ID_GPU], vr_probe = Some (virtio_gpu_probe hw km fr), vr_remove = None\<rparr>"

section \<open>The mailbox\<close>

definition MAILBOX_READ :: u64 where "MAILBOX_READ = 0x00"
definition MAILBOX_STATUS :: u64 where "MAILBOX_STATUS = 0x18"
definition MAILBOX_WRITE :: u64 where "MAILBOX_WRITE = 0x20"
definition MAILBOX_STATUS_EMPTY :: u32 where "MAILBOX_STATUS_EMPTY = push_bit 30 1"
definition MAILBOX_STATUS_FULL :: u32 where "MAILBOX_STATUS_FULL = push_bit 31 1"
definition MAILBOX_CHANNEL_PROP :: u32 where "MAILBOX_CHANNEL_PROP = 8"
definition MBOX_POLL_LOOPS :: nat where "MBOX_POLL_LOOPS = 1000000"

definition mbox_readl :: "'h hw \<Rightarrow> u64 \<Rightarrow> u64 \<Rightarrow> 'h \<Rightarrow> u32 \<times> 'h" where
  "mbox_readl hw base r = r32 hw (base + r)"

definition mbox_writel :: "'h hw \<Rightarrow> u64 \<Rightarrow> u64 \<Rightarrow> u32 \<Rightarrow> 'h \<Rightarrow> 'h" where
  "mbox_writel hw base r val = w32 hw (base + r) val"

text \<open>The polling loop: whether the status bit was found clear.\<close>

fun mbox_poll :: "'h hw \<Rightarrow> u64 \<Rightarrow> u32 \<Rightarrow> nat \<Rightarrow> 'h \<Rightarrow> bool \<times> 'h" where
  "mbox_poll hw base flag 0 h = (False, h)"
| "mbox_poll hw base flag (Suc n) h =
     (case mbox_readl hw base MAILBOX_STATUS h of (v, h') \<Rightarrow> if v AND flag = 0 then (True, h') else mbox_poll hw base flag n h')"

definition mbox_write :: "'h hw \<Rightarrow> u64 \<Rightarrow> u32 \<Rightarrow> 'h \<Rightarrow> int \<times> 'h" where
  "mbox_write hw base data h =
     (case mbox_poll hw base MAILBOX_STATUS_FULL MBOX_POLL_LOOPS h of
        (ok, h') \<Rightarrow> if \<not> ok then (- errno_val ETIMEDOUT, h') else (0, mbox_writel hw base MAILBOX_WRITE data h'))"

definition mbox_read :: "'h hw \<Rightarrow> u64 \<Rightarrow> 'h \<Rightarrow> (int + u32) \<times> 'h" where
  "mbox_read hw base h =
     (case mbox_poll hw base MAILBOX_STATUS_EMPTY MBOX_POLL_LOOPS h of
        (ok, h1) \<Rightarrow>
          if \<not> ok then (Inl (- errno_val ETIMEDOUT), h1)
          else (case mbox_readl hw base MAILBOX_READ h1 of
                  (val, h2) \<Rightarrow> (if val AND 0xf \<noteq> MAILBOX_CHANNEL_PROP then Inl (- errno_val EIO) else Inr (val AND NOT 0xf), h2)))"

definition rpi_firmware_property :: "'h hw \<Rightarrow> 'h kmem \<Rightarrow> u64 \<Rightarrow> u64 \<Rightarrow> 'h \<Rightarrow> int \<times> 'h" where
  "rpi_firmware_property hw km base buf h =
     (if base = 0 \<or> buf = 0 then (- errno_val EINVAL, h)
      else
        let bus_addr = VA_PA km buf in
        if bus_addr AND 0xf \<noteq> 0 then (- errno_val EINVAL, h)
        else (case mbox_write hw base (ucast (bus_addr OR ucast MAILBOX_CHANNEL_PROP)) h of
                (ret, h1) \<Rightarrow>
                  if ret < 0 then (ret, h1)
                  else (case mbox_read hw base h1 of
                          (Inl e, h2) \<Rightarrow> (e, h2)
                        | (Inr resp, h2) \<Rightarrow> (if resp \<noteq> ucast bus_addr then - errno_val EINVAL else 0, h2))))"

definition bcm2835_mbox_probe :: "'h kmem \<Rightarrow> platform_device \<Rightarrow> 'h fb_world \<Rightarrow> int \<times> 'h fb_world" where
  "bcm2835_mbox_probe km pdev s =
     (case platform_get_resource pdev IORESOURCE_MEM 0 of
        None \<Rightarrow> (- errno_val ENOENT, s)
      | Some res \<Rightarrow>
          (case km_ioremap km (rs_start res) (resource_size (Some res)) (fw_hw s) of
             (base, h) \<Rightarrow> (if base = 0 then - errno_val ENOMEM else 0, set_fhw h (s\<lparr>g_mbox_base := base\<rparr>))))"

definition bcm2835_mbox_remove :: "platform_device \<Rightarrow> 'h fb_world \<Rightarrow> int \<times> 'h fb_world" where
  "bcm2835_mbox_remove pdev s = (0, s\<lparr>g_mbox_base := 0\<rparr>)"

definition bcm2835_mbox_match :: "cstr list" where
  "bcm2835_mbox_match = [cstr_of ''brcm,bcm2835-mbox'']"

definition bcm2835_mbox_driver :: "'h kmem \<Rightarrow> 'h fb_world platform_driver" where
  "bcm2835_mbox_driver km = \<lparr>pr_of_match = Some bcm2835_mbox_match, pr_probe = Some (bcm2835_mbox_probe km),
     pr_remove = Some bcm2835_mbox_remove\<rparr>"

section \<open>The frame buffer of the firmware\<close>

definition RPI_TAG_SET_PHYSICAL_WH :: u32 where "RPI_TAG_SET_PHYSICAL_WH = 0x48003"
definition RPI_TAG_SET_VIRTUAL_WH :: u32 where "RPI_TAG_SET_VIRTUAL_WH = 0x48004"
definition RPI_TAG_SET_DEPTH :: u32 where "RPI_TAG_SET_DEPTH = 0x48005"
definition RPI_TAG_SET_PIXEL_ORDER :: u32 where "RPI_TAG_SET_PIXEL_ORDER = 0x48006"
definition RPI_TAG_ALLOCATE_BUFFER :: u32 where "RPI_TAG_ALLOCATE_BUFFER = 0x40001"
definition RPI_TAG_GET_PITCH :: u32 where "RPI_TAG_GET_PITCH = 0x40008"
definition RPI_FB_WIDTH :: u32 where "RPI_FB_WIDTH = 1280"
definition RPI_FB_HEIGHT :: u32 where "RPI_FB_HEIGHT = 800"
definition RPI_FB_BPP :: u32 where "RPI_FB_BPP = 32"
definition RPI_FB_ALIGN :: u32 where "RPI_FB_ALIGN = 16"
definition RPI_TAG_REQUEST :: u32 where "RPI_TAG_REQUEST = 0x00000000"
definition RPI_TAG_RESPONSE_MASK :: u32 where "RPI_TAG_RESPONSE_MASK = 0x80000000"

text \<open>Clearing: whole 64-bit words, then one 32-bit word if bytes are left.\<close>

fun clear_words :: "'h hw \<Rightarrow> u64 \<Rightarrow> nat \<Rightarrow> 'h \<Rightarrow> 'h" where
  "clear_words hw a 0 h = h"
| "clear_words hw a (Suc n) h = clear_words hw (a + 8) n (w64 hw a 0 h)"

definition rpi_fb_clear :: "'h hw \<Rightarrow> u64 \<Rightarrow> u32 \<Rightarrow> 'h \<Rightarrow> 'h" where
  "rpi_fb_clear hw base sz h =
     (let n = unat sz div 8; h' = clear_words hw base n h in
      if unat sz mod 8 \<noteq> 0 then w32 hw (base + of_nat (8 * n)) 0 h' else h')"

text \<open>The words of a tag, and of a message whose first word is its size in bytes.\<close>

definition rpi_fb_tag :: "u32 \<Rightarrow> u32 list \<Rightarrow> u32 list" where
  "rpi_fb_tag tag payload = [tag, of_nat (4 * length payload), RPI_TAG_REQUEST] @ payload"

definition rpi_fb_tags :: "u32 list" where
  "rpi_fb_tags =
     rpi_fb_tag RPI_TAG_SET_PHYSICAL_WH [RPI_FB_WIDTH, RPI_FB_HEIGHT] @ rpi_fb_tag RPI_TAG_SET_VIRTUAL_WH [RPI_FB_WIDTH, RPI_FB_HEIGHT] @
     rpi_fb_tag RPI_TAG_SET_DEPTH [RPI_FB_BPP] @ rpi_fb_tag RPI_TAG_SET_PIXEL_ORDER [0] @
     rpi_fb_tag RPI_TAG_ALLOCATE_BUFFER [RPI_FB_ALIGN, 0] @ rpi_fb_tag RPI_TAG_GET_PITCH [0]"

definition rpi_fb_request :: "'h hw \<Rightarrow> u64 \<Rightarrow> 'h \<Rightarrow> 'h" where
  "rpi_fb_request hw buf h =
     (let ws = [0, RPI_TAG_REQUEST] @ rpi_fb_tags @ [0] in w32 hw buf (of_nat (4 * length ws)) (st_words hw buf ws h))"

text \<open>The walk over the tags of the response: address and size of the buffer and the pitch.\<close>

partial_function (option) rpi_fb_walk :: "'h hw \<Rightarrow> u64 \<Rightarrow> u32 \<times> u32 \<times> u32 \<Rightarrow> 'h \<Rightarrow> ((u32 \<times> u32 \<times> u32) \<times> 'h) option" where
  "rpi_fb_walk hw p acc h =
     (case r32 hw p h of
        (tag, h1) \<Rightarrow>
          if tag = 0 then Some (acc, h1)
          else (case r32 hw (p + 4) h1 of
                  (val_size, h2) \<Rightarrow>
                    (case r32 hw (p + 8) h2 of
                       (_, h3) \<Rightarrow>
                         (case (if tag = RPI_TAG_ALLOCATE_BUFFER
                                then let (a, h4) = r32 hw (p + 12) h3; (b, h5) = r32 hw (p + 16) h4
                                     in ((a, b, snd (snd acc)), p + 20, h5)
                                else if tag = RPI_TAG_GET_PITCH
                                then let (c, h4) = r32 hw (p + 12) h3 in ((fst acc, fst (snd acc), c), p + 16, h4)
                                else (acc, p + 12 + ucast val_size, h3)) of
                            (acc', p', h') \<Rightarrow>
                              rpi_fb_walk hw (if val_size mod 4 \<noteq> 0 then p' + (4 - ucast (val_size mod 4)) else p') acc' h'))))"

definition rpi_fb_response :: "'h hw \<Rightarrow> u64 \<Rightarrow> 'h \<Rightarrow> ((int + u32 \<times> u32 \<times> u32) \<times> 'h) option" where
  "rpi_fb_response hw buf h =
     (case r32 hw (buf + 4) h of
        (code, h1) \<Rightarrow>
          if code AND RPI_TAG_RESPONSE_MASK = 0 then Some (Inl (- errno_val EIO), h1)
          else do {
            ((addr, sz, pitch), h2) \<leftarrow> rpi_fb_walk hw (buf + 8) (0, 0, 0) h1;
            Some (if addr = 0 \<or> sz = 0 \<or> pitch = 0 then Inl (- errno_val EINVAL) else Inr (addr, sz, pitch), h2) })"

text \<open>
  Entering the frame buffer at \<open>r\<close> that both ways of finding one end with: mapping, clearing and registering it. The
  information block is the first member of \<open>struct rpi_fb\<close>.
\<close>

definition rpi_fb_enter ::
    "'h hw \<Rightarrow> 'h kmem \<Rightarrow> u64 \<Rightarrow> u64 \<Rightarrow> u64 \<Rightarrow> u32 \<times> u32 \<times> u32 \<times> u32 \<times> u32 \<Rightarrow> 'h fb_world \<Rightarrow> int \<times> 'h fb_world" where
  "rpi_fb_enter hw km r phys sz dims s =
     (case (dims, km_ioremap km phys sz (fw_hw s)) of
        ((width, height, stride, fmt, bpp), base, h1) \<Rightarrow>
          let s1 = set_fhw h1 (s\<lparr>fw_rpi := (fw_rpi s)(r := (fw_rpi s r)\<lparr>rpi_fb_phys := phys, rpi_fb_size := sz, rpi_fb_base := base\<rparr>)\<rparr>) in
          if base = 0 then (- errno_val ENOMEM, s1)
          else
            let s2 = set_fhw (rpi_fb_clear hw base (ucast sz) h1) (s1\<lparr>fw_info := (fw_info s)(r := \<lparr>fbi_width = width,
                   fbi_height = height, fbi_stride = stride, fbi_bpp = bpp, fbi_format = fmt, fbi_screen_base = base,
                   fbi_screen_size = sz, fbi_phys_base = phys, fbi_can_flush = False\<rparr>)\<rparr>);
                (ret, s3) = fb_register (Some r) s2
            in if ret < 0 then (- errno_val EINVAL, s3) else (0, s3))"

definition rpi_fb_parse_format :: "bytes \<Rightarrow> nat option \<Rightarrow> u32 option" where
  "rpi_fb_parse_format m fmt =
     (case fmt of
        None \<Rightarrow> Some FB_FORMAT_XRGB8888
      | Some p \<Rightarrow> do {
          x \<leftarrow> str_eq m p (cstr_of ''x8r8g8b8'');
          a \<leftarrow> (if x then Some True else str_eq m p (cstr_of ''a8r8g8b8''));
          if a then Some FB_FORMAT_XRGB8888
          else do {
            r \<leftarrow> str_eq m p (cstr_of ''r5g6b5'');
            Some (if r then FB_FORMAT_RGB565 else FB_FORMAT_XRGB8888) } })"

text \<open>A property of one cell, zero if it is missing or too short.\<close>

definition cell_prop :: "fdt \<Rightarrow> int \<Rightarrow> cstr \<Rightarrow> u32 option" where
  "cell_prop d node name = do {
     (prop, len) \<leftarrow> fdt_getprop d node name;
     (case prop of None \<Rightarrow> Some 0 | Some p \<Rightarrow> if 4 \<le> len then fdt32_ld (fd_mem d) p else Some 0) }"

definition rpi_fb_setup_from_simplefb ::
    "'h hw \<Rightarrow> 'h kmem \<Rightarrow> fdt \<Rightarrow> u64 \<Rightarrow> platform_device \<Rightarrow> 'h fb_world \<Rightarrow> (int \<times> 'h fb_world) option" where
  "rpi_fb_setup_from_simplefb hw km d r pdev s =
     (case platform_get_resource pdev IORESOURCE_MEM 0 of
        None \<Rightarrow> Some (- errno_val ENOENT, s)
      | Some res \<Rightarrow> do {
          let node = pd_of_node pdev;
          width \<leftarrow> cell_prop d node (cstr_of ''width'');
          height \<leftarrow> cell_prop d node (cstr_of ''height'');
          stride \<leftarrow> cell_prop d node (cstr_of ''stride'');
          (prop, len) \<leftarrow> fdt_getprop d node (cstr_of ''format'');
          if width = 0 \<or> height = 0 \<or> stride = 0 then Some (- errno_val EINVAL, s)
          else do {
            fmt \<leftarrow> rpi_fb_parse_format (fd_mem d) (if 0 < len then prop else None);
            Some (rpi_fb_enter hw km r (rs_start res) (resource_size (Some res))
              (width, height, stride, fmt, if fmt = FB_FORMAT_RGB565 then 16 else 32) s) } })"

definition rpi_fb_alloc_framebuffer ::
    "'h hw \<Rightarrow> 'h kmem \<Rightarrow> u64 \<Rightarrow> u64 \<Rightarrow> 'h fb_world \<Rightarrow> (int \<times> 'h fb_world) option" where
  "rpi_fb_alloc_framebuffer hw km r buf s =
     (case rpi_firmware_property hw km (g_mbox_base s) buf (rpi_fb_request hw buf (fw_hw s)) of
        (ret, h1) \<Rightarrow>
          if ret < 0 then Some (ret, set_fhw h1 s)
          else do {
            (resp, h2) \<leftarrow> rpi_fb_response hw buf h1;
            Some (case resp of
                    Inl e \<Rightarrow> (e, set_fhw h2 s)
                  | Inr (addr, sz, pitch) \<Rightarrow>
                      rpi_fb_enter hw km r (ucast addr) (ucast sz)
                        (RPI_FB_WIDTH, RPI_FB_HEIGHT, pitch, FB_FORMAT_XRGB8888, RPI_FB_BPP) (set_fhw h2 s)) })"

definition sizeof_rpi_fb :: u32 where "sizeof_rpi_fb = 136"

text \<open>The page for the message, cleared, and the allocation; on failure the page and the structure are given back.\<close>

definition rpi_fb_by_firmware ::
    "'h hw \<Rightarrow> 'h kmem \<Rightarrow> u64 \<Rightarrow> 'h fb_world \<Rightarrow> (int \<times> 'h fb_world) option" where
  "rpi_fb_by_firmware hw km r s =
     (case km_alloc_phys km 4096 (fw_hw s) of
        (None, h1) \<Rightarrow> Some (- errno_val ENOMEM, set_fhw (km_free km r h1) s)
      | (Some phys, h1) \<Rightarrow> do {
          let buf = phys - km_offset km;
          let s1 = set_fhw (clear_bytes hw buf 4096 h1) (s\<lparr>fw_rpi := (fw_rpi s)(r := (fw_rpi s r)\<lparr>rpi_prop_buf := Some buf\<rparr>)\<rparr>);
          (ret, s2) \<leftarrow> rpi_fb_alloc_framebuffer hw km r buf s1;
          Some (if ret < 0 then (ret, set_fhw (km_free km r (km_free_phys km phys (fw_hw s2))) s2) else (0, s2)) })"

definition rpi_zero :: "u64 \<Rightarrow> 'h fb_world \<Rightarrow> 'h fb_world" where
  "rpi_zero r s = s\<lparr>fw_rpi := (fw_rpi s)(r := \<lparr>rpi_prop_buf = None, rpi_fb_base = 0, rpi_fb_phys = 0, rpi_fb_size = 0\<rparr>)\<rparr>"

text \<open>The instance without a device; whether there is one.\<close>

definition rpi_fb_create_instance :: "'h hw \<Rightarrow> 'h kmem \<Rightarrow> 'h fb_world \<Rightarrow> (u64 option \<times> 'h fb_world) option" where
  "rpi_fb_create_instance hw km s =
     (case km_alloc km sizeof_rpi_fb (fw_hw s) of
        (None, h1) \<Rightarrow> Some (None, set_fhw h1 s)
      | (Some r, h1) \<Rightarrow> do {
          (ret, s1) \<leftarrow> rpi_fb_by_firmware hw km r (rpi_zero r (set_fhw h1 s));
          Some (if ret < 0 then None else Some r, s1) })"

definition rpi_fb_probe :: "'h hw \<Rightarrow> 'h kmem \<Rightarrow> fdt \<Rightarrow> platform_device \<Rightarrow> 'h fb_world \<Rightarrow> (int \<times> 'h fb_world) option" where
  "rpi_fb_probe hw km d pdev s =
     (case km_alloc km sizeof_rpi_fb (fw_hw s) of
        (None, h1) \<Rightarrow> Some (- errno_val ENOMEM, set_fhw h1 s)
      | (Some r, h1) \<Rightarrow> do {
          let s1 = rpi_zero r (set_fhw h1 s);
          (prop, _) \<leftarrow> fdt_getprop d (pd_of_node pdev) (cstr_of ''compatible'');
          simple \<leftarrow> (case prop of None \<Rightarrow> Some False | Some p \<Rightarrow> str_eq (fd_mem d) p (cstr_of ''simple-framebuffer''));
          (ret, s2) \<leftarrow>
            (if simple
             then do {
               (ret, t) \<leftarrow> rpi_fb_setup_from_simplefb hw km d r pdev s1;
               Some (if ret < 0 then (ret, set_fhw (km_free km r (fw_hw t)) t) else (ret, t)) }
             else rpi_fb_by_firmware hw km r s1);
          Some (if ret < 0 then (ret, s2)
                else (0, s2\<lparr>fw_driver_data := (fw_driver_data s2)(pd_of_node pdev := Some r)\<rparr>)) })"

definition rpi_fb_remove :: "'h kmem \<Rightarrow> platform_device \<Rightarrow> 'h fb_world \<Rightarrow> int \<times> 'h fb_world" where
  "rpi_fb_remove km pdev s =
     (case fw_driver_data s (pd_of_node pdev) of
        None \<Rightarrow> (0, s)
      | Some r \<Rightarrow>
          let s1 = fb_unregister (Some r) s;
              h1 = (case rpi_prop_buf (fw_rpi s1 r) of None \<Rightarrow> fw_hw s1 | Some buf \<Rightarrow> km_free_phys km (VA_PA km buf) (fw_hw s1))
          in (0, set_fhw (km_free km r h1) s1))"

definition rpi_fb_match :: "cstr list" where
  "rpi_fb_match = [cstr_of ''simple-framebuffer'', cstr_of ''brcm,bcm2708-fb'']"

text \<open>Initialisation: \<open>register\<close> is the registration of the driver with the platform bus.\<close>

definition rpi_fb_init :: "'h hw \<Rightarrow> 'h kmem \<Rightarrow> ('h fb_world \<Rightarrow> 'h fb_world option) \<Rightarrow> 'h fb_world \<Rightarrow> 'h fb_world option" where
  "rpi_fb_init hw km register s = do {
     s1 \<leftarrow> register s;
     if fb_registered s1 = None then map_option snd (rpi_fb_create_instance hw km s1) else Some s1 }"

section \<open>Flushing\<close>

lemma uint_of_nonneg: "0 \<le> z \<Longrightarrow> z < 2 ^ 31 \<Longrightarrow> uint (of_int z :: u32) = z"
  by (simp add: uint_word_of_int)

lemma uint_min: "uint (min a b) = min (uint a) (uint b)" for a b :: "'a::len word"
  by (simp add: min_def word_le_def)

text \<open>One side of the rectangle: the part \<open>[x0, x0 + n)\<close> of a screen of \<open>width\<close> pixels that is sent for \<open>w\<close> pixels at \<open>x\<close>.\<close>

lemma flush_side:
  fixes width :: u32
  assumes "0 \<le> w" and "max x 0 + w < 2 ^ 31"
  defines "x0 \<equiv> of_int (max x 0) :: u32" and "x1 \<equiv> min (of_int (max x 0 + w)) width"
  shows "uint x0 = max x 0" and "uint x1 = min (max x 0 + w) (uint width)"
    and "x1 - x0 = of_int (min (max x 0 + w) (uint width) - max x 0)"
proof -
  show x0: "uint x0 = max x 0" unfolding x0_def using assms(1,2) by (intro uint_of_nonneg) auto
  show x1: "uint x1 = min (max x 0 + w) (uint width)"
    unfolding x1_def uint_min using assms(1,2) by (subst uint_of_nonneg) auto
  have "x1 - x0 = of_int (uint x1 - uint x0)" by simp
  then show "x1 - x0 = of_int (min (max x 0 + w) (uint width) - max x 0)" by (simp only: x0 x1)
qed

definition visible :: "virtio_gpu \<Rightarrow> int \<Rightarrow> int \<Rightarrow> int \<Rightarrow> int \<Rightarrow> int \<Rightarrow> int \<Rightarrow> bool" where
  "visible gpu x y w h px py \<longleftrightarrow> x \<le> px \<and> px < x + w \<and> y \<le> py \<and> py < y + h \<and>
     0 \<le> px \<and> px < uint (gpu_width gpu) \<and> 0 \<le> py \<and> py < uint (gpu_height gpu)"


section \<open>Messages of the firmware\<close>

text \<open>Words that memory holds from an address on; reading them changes nothing.\<close>

fun holds :: "'h hw \<Rightarrow> u64 \<Rightarrow> u32 list \<Rightarrow> 'h \<Rightarrow> bool" where
  "holds hw p [] h = True"
| "holds hw p (v # vs) h = (r32 hw p h = (v, h) \<and> holds hw (p + 4) vs h)"

lemma holds_append: "holds hw p (xs @ ys) h \<longleftrightarrow> holds hw p xs h \<and> holds hw (p + 4 * of_nat (length xs)) ys h"
  by (induction xs arbitrary: p) (auto simp: algebra_simps)

text \<open>A tag of a response: number, status word and values. Two tags have a fixed number of values.\<close>

type_synonym rpi_tag = "u32 \<times> u32 \<times> u32 list"

definition tag_ok :: "rpi_tag \<Rightarrow> bool" where
  "tag_ok t \<longleftrightarrow>
     (case t of
        (tag, _, vs) \<Rightarrow> tag \<noteq> 0 \<and> 4 * length vs < 2 ^ 32 \<and> (tag = RPI_TAG_ALLOCATE_BUFFER \<longrightarrow> length vs = 2) \<and>
          (tag = RPI_TAG_GET_PITCH \<longrightarrow> length vs = 1))"

definition tag_words :: "rpi_tag \<Rightarrow> u32 list" where
  "tag_words t = (case t of (tag, st, vs) \<Rightarrow> [tag, of_nat (4 * length vs), st] @ vs)"

text \<open>What the tags say of the buffer, the last of each kind.\<close>

fun tag_values :: "rpi_tag list \<Rightarrow> u32 \<times> u32 \<times> u32 \<Rightarrow> u32 \<times> u32 \<times> u32" where
  "tag_values [] acc = acc"
| "tag_values ((tag, _, vs) # ts) (a, b, c) =
     tag_values ts (if tag = RPI_TAG_ALLOCATE_BUFFER then (vs ! 0, vs ! 1, c) else if tag = RPI_TAG_GET_PITCH then (a, b, vs ! 0) else (a, b, c))"

lemma size_word:
  assumes "4 * n < 2 ^ 32"
  shows "(of_nat (4 * n) :: u32) mod 4 = 0" and "ucast (of_nat (4 * n) :: u32) = (of_nat (4 * n) :: u64)"
proof -
  have u: "unat (of_nat (4 * n) :: u32) = 4 * n" using assms by (simp only: unat_of_nat) simp
  have "unat ((of_nat (4 * n) :: u32) mod 4) = 4 * n mod 4" by (simp add: unat_mod u del: of_nat_mult of_nat_numeral)
  then show "(of_nat (4 * n) :: u32) mod 4 = 0" by (simp add: word_unat_eq_iff del: of_nat_mult)
  show "ucast (of_nat (4 * n) :: u32) = (of_nat (4 * n) :: u64)"
    using assms by (simp add: unsigned_of_nat take_bit_nat_eq_self del: of_nat_mult)
qed

lemma walk_tags:
  assumes "\<forall>t \<in> set ts. tag_ok t" and "holds hw p (concat (map tag_words ts) @ [0]) h"
  shows "rpi_fb_walk hw p acc h = Some (tag_values ts acc, h)"
  using assms
proof (induction ts arbitrary: p acc)
  case Nil
  then show ?case by (subst rpi_fb_walk.simps) simp
next
  case (Cons t ts)
  obtain tag st vs where t: "t = (tag, st, vs)" by (cases t)
  obtain a b c where acc: "acc = (a, b, c)" by (cases acc)
  have ok: "tag \<noteq> 0" "4 * length vs < 2 ^ 32" "tag = RPI_TAG_ALLOCATE_BUFFER \<Longrightarrow> length vs = 2"
    "tag = RPI_TAG_GET_PITCH \<Longrightarrow> length vs = 1"
    using Cons.prems(1) by (auto simp: t tag_ok_def)
  define rest where "rest = concat (map tag_words ts) @ [0]"
  have "holds hw p ((tag # of_nat (4 * length vs) # st # vs) @ rest) h"
    using Cons.prems(2) by (simp add: t tag_words_def [of "(tag, st, vs)"] rest_def)
  then have m: "r32 hw p h = (tag, h)" "r32 hw (p + 4) h = (of_nat (4 * length vs), h)" "r32 hw (p + 8) h = (st, h)"
    "holds hw (p + 12) vs h" "holds hw (p + 12 + of_nat (4 * length vs)) rest h"
    by (simp_all add: holds_append add.assoc)
  have IH: "rpi_fb_walk hw (p + 12 + of_nat (4 * length vs)) acc' h = Some (tag_values ts acc', h)" for acc'
    using Cons.IH Cons.prems(1) m(5) by (simp add: rest_def)
  consider "tag = RPI_TAG_ALLOCATE_BUFFER" | "tag = RPI_TAG_GET_PITCH" "tag \<noteq> RPI_TAG_ALLOCATE_BUFFER"
    | "tag \<noteq> RPI_TAG_ALLOCATE_BUFFER" "tag \<noteq> RPI_TAG_GET_PITCH" by blast
  then show ?case
  proof cases
    case 1
    then obtain v0 v1 where vs: "vs = [v0, v1]" using ok(3) by (auto simp: length_Suc_conv numeral_2_eq_2)
    show ?thesis using m(1-4) ok(1) IH 1 by (subst rpi_fb_walk.simps) (simp add: t acc vs add.commute [of 16 p] add.commute [of 20 p])
  next
    case 2
    then obtain v0 where vs: "vs = [v0]" using ok(4) by (auto simp: length_Suc_conv)
    show ?thesis using m(1-4) ok(1) IH 2 by (subst rpi_fb_walk.simps) (simp add: t acc vs add.commute [of 16 p])
  next
    case 3
    then show ?thesis
      using m(1-3) ok(1) IH size_word [OF ok(2)] by (subst rpi_fb_walk.simps) (simp add: t acc del: of_nat_mult)
  qed
qed

text \<open>The request of the driver is such a list of tags.\<close>

definition request_tags :: "rpi_tag list" where
  "request_tags = [(RPI_TAG_SET_PHYSICAL_WH, 0, [RPI_FB_WIDTH, RPI_FB_HEIGHT]), (RPI_TAG_SET_VIRTUAL_WH, 0, [RPI_FB_WIDTH, RPI_FB_HEIGHT]),
     (RPI_TAG_SET_DEPTH, 0, [RPI_FB_BPP]), (RPI_TAG_SET_PIXEL_ORDER, 0, [0]), (RPI_TAG_ALLOCATE_BUFFER, 0, [RPI_FB_ALIGN, 0]),
     (RPI_TAG_GET_PITCH, 0, [0])]"

lemma request_tags_sent: "rpi_fb_tags = concat (map tag_words request_tags)"
  by (simp add: rpi_fb_tags_def request_tags_def rpi_fb_tag_def tag_words_def RPI_TAG_REQUEST_def)

lemma request_tags_ok: "\<forall>t \<in> set request_tags. tag_ok t"
  by (simp add: request_tags_def tag_ok_def RPI_TAG_SET_PHYSICAL_WH_def RPI_TAG_SET_VIRTUAL_WH_def RPI_TAG_SET_DEPTH_def
      RPI_TAG_SET_PIXEL_ORDER_def RPI_TAG_ALLOCATE_BUFFER_def RPI_TAG_GET_PITCH_def)

text \<open>A firmware that answers the tags of the request fills in values of the same number.\<close>

lemma tag_ok_same: "tag_ok (tag, st, vs) \<Longrightarrow> length vs' = length vs \<Longrightarrow> tag_ok (tag, st', vs')"
  by (simp add: tag_ok_def)

lemma replies_ok:
  assumes "list_all2 (\<lambda>(tag, _, vs) (tag', _, vs'). tag' = tag \<and> length vs' = length vs) request_tags ts"
  shows "\<forall>t \<in> set ts. tag_ok t"
proof
  fix t assume "t \<in> set ts"
  then obtain q where "q \<in> set request_tags" and "case q of (tag, _, vs) \<Rightarrow> case t of (tag', _, vs') \<Rightarrow> tag' = tag \<and> length vs' = length vs"
    using assms by (fastforce simp: list_all2_conv_all_nth in_set_conv_nth)
  then show "tag_ok t" using request_tags_ok tag_ok_same by (fastforce split: prod.splits)
qed

text \<open>
  (C32) The driver reads from the answer of the firmware what the firmware has put there. The request lists six tags;
  if the memory behind the buffer holds an answer to these tags, in their order and with any status words and values, then the
  walk over the answer ends, and the result is the address, size and pitch among the values, an error if one of
  them is zero, and \<open>-EIO\<close> if the answer is not marked as one.
\<close>

theorem rpi_fb_reads_reply:
  assumes reply: "list_all2 (\<lambda>(tag, _, vs) (tag', _, vs'). tag' = tag \<and> length vs' = length vs) request_tags ts"
    and mem: "holds hw buf ([len, code] @ concat (map tag_words ts) @ [0]) h"
    and addr: "(RPI_TAG_ALLOCATE_BUFFER, st, [addr, sz]) \<in> set ts" and pitch: "(RPI_TAG_GET_PITCH, st', [pitch]) \<in> set ts"
  shows "rpi_fb_tags = concat (map tag_words request_tags) \<and>
    rpi_fb_response hw buf h =
      Some (if code AND RPI_TAG_RESPONSE_MASK = 0 then Inl (- errno_val EIO)
            else if addr = 0 \<or> sz = 0 \<or> pitch = 0 then Inl (- errno_val EINVAL) else Inr (addr, sz, pitch), h)"
proof
  show "rpi_fb_tags = concat (map tag_words request_tags)" by (rule request_tags_sent)
  have m: "r32 hw (buf + 4) h = (code, h)" "holds hw (buf + 8) (concat (map tag_words ts) @ [0]) h"
    using mem by (simp_all add: add.commute [of 8 buf])
  have "tag_values ts (0, 0, 0) = (addr, sz, pitch)"
    using reply addr pitch
    by (auto simp: request_tags_def list_all2_Cons1 RPI_TAG_SET_PHYSICAL_WH_def RPI_TAG_SET_VIRTUAL_WH_def RPI_TAG_SET_DEPTH_def
        RPI_TAG_SET_PIXEL_ORDER_def RPI_TAG_ALLOCATE_BUFFER_def RPI_TAG_GET_PITCH_def)
  then show "rpi_fb_response hw buf h =
      Some (if code AND RPI_TAG_RESPONSE_MASK = 0 then Inl (- errno_val EIO)
            else if addr = 0 \<or> sz = 0 \<or> pitch = 0 then Inl (- errno_val EINVAL) else Inr (addr, sz, pitch), h)"
    using walk_tags [OF replies_ok [OF reply] m(2)] by (simp add: rpi_fb_response_def m(1))
qed

section \<open>Witnesses\<close>

text \<open>A screen of four by three pixels.\<close>

definition demo_gpu :: virtio_gpu where
  "demo_gpu = \<lparr>gpu_vdev = 0, gpu_resource_id = 1, gpu_width = 4, gpu_height = 3, gpu_stride = 16, gpu_fb_base = 0x1000,
     gpu_fb_phys = 0x1000, gpu_fb_size = 48\<rparr>"

definition demo_world :: "u32 list fb_world" where
  "demo_world = \<lparr>fw_hw = [], fw_dev = (\<lambda>_. demo_vdev), fw_info = (\<lambda>_. gpu_screen demo_gpu), fw_gpu = (\<lambda>_. demo_gpu),
     fw_rpi = (\<lambda>_. \<lparr>rpi_prop_buf = None, rpi_fb_base = 0, rpi_fb_phys = 0, rpi_fb_size = 0\<rparr>), fw_driver_data = (\<lambda>_. None),
     g_fb_info = None, g_mbox_base = 0\<rparr>"

text \<open>Memory whose word at address \<open>4 * i\<close> is word \<open>i\<close> of the state.\<close>

definition words_hw :: "u32 list hw" where
  "words_hw = \<lparr>r8 = (\<lambda>a h. (0, h)), r16 = (\<lambda>a h. (0, h)), r32 = (\<lambda>a h. (if unat a div 4 < length h then h ! (unat a div 4) else 0, h)),
     r64 = (\<lambda>a h. (0, h)), w8 = (\<lambda>a v h. h), w16 = (\<lambda>a v h. h), w32 = (\<lambda>a v h. h[unat a div 4 := v]),
     w64 = (\<lambda>a v h. h), rsys = (\<lambda>r h. (0, h)), wsys = (\<lambda>r v h. h)\<rparr>"

definition words_kmem :: "u32 list kmem" where
  "words_kmem = \<lparr>km_alloc = (\<lambda>n h. (None, h)), km_free = (\<lambda>a h. h), km_alloc_pages = (\<lambda>n h. (None, h)), km_free_pages = (\<lambda>a h. h),
     km_alloc_phys = (\<lambda>n h. (None, h)), km_free_phys = (\<lambda>a h. h), km_ioremap = (\<lambda>a n h. (0, h)), km_memremap = (\<lambda>a n h. (0, h)),
     km_offset = 0\<rparr>"


definition demo_reply :: "rpi_tag list" where
  "demo_reply = [(RPI_TAG_SET_PHYSICAL_WH, 0x80000008, [1280, 800]), (RPI_TAG_SET_VIRTUAL_WH, 0x80000008, [1280, 800]),
     (RPI_TAG_SET_DEPTH, 0x80000004, [32]), (RPI_TAG_SET_PIXEL_ORDER, 0x80000004, [0]),
     (RPI_TAG_ALLOCATE_BUFFER, 0x80000008, [0x3e000000, 0x3e8000]), (RPI_TAG_GET_PITCH, 0x80000004, [5120])]"

definition demo_answer :: "u32 list" where
  "demo_answer = [112, 0x80000000] @ concat (map tag_words demo_reply) @ [0]"

theorem rpi_fb_reads_reply_witness:
  "rpi_fb_response words_hw 0 demo_answer = Some (Inr (0x3e000000, 0x3e8000, 5120), demo_answer)"
proof -
  have r: "list_all2 (\<lambda>(tag, _, vs) (tag', _, vs'). tag' = tag \<and> length vs' = length vs) request_tags demo_reply"
    by (simp add: request_tags_def demo_reply_def)
  have m: "holds words_hw 0 ([112, 0x80000000] @ concat (map tag_words demo_reply) @ [0]) demo_answer" by code_simp
  show ?thesis
    using rpi_fb_reads_reply [OF r m, of "0x80000008" "0x3e000000" "0x3e8000" "0x80000004" 5120]
    by (simp add: demo_reply_def RPI_TAG_RESPONSE_MASK_def)
qed

end
