(* ===== verification/Init.thy ===== *)
theory Init
  imports Services Driver_Core
begin

text \<open>
  The entry of the kernel (\<open>kernel/core/init.c\<close>): subsystems, modules, the root file system, the shell, and then the
  idle loop. The services it calls are an argument; the file system and the process server are modelled in their own
  theories.
\<close>

record 's boot_calls =
  bc_subsys :: "'s subsys_ops list"
  bc_modules :: "('s \<Rightarrow> 's) list"
  bc_clear_ttbr0 :: "'s \<Rightarrow> 's"
  bc_mount_root :: "cstr \<Rightarrow> cstr \<Rightarrow> 's \<Rightarrow> int \<times> 's"
  bc_spawn :: "cstr \<Rightarrow> 's \<Rightarrow> int \<times> 's"
  bc_irq_unmask :: "'s \<Rightarrow> 's"

text \<open>Trying devices with their file system types in order, until one can be mounted.\<close>

fun try_mounts :: "'s boot_calls \<Rightarrow> (cstr \<times> cstr) list \<Rightarrow> 's \<Rightarrow> 's" where
  "try_mounts c [] s = s"
| "try_mounts c ((dev, fstype) # ds) s =
     (case bc_mount_root c dev fstype s of (ret, s') \<Rightarrow> if ret = 0 then s' else try_mounts c ds s')"

text \<open>The devices that are tried: the one of the boot arguments only, or the known block devices.\<close>

definition root_candidates :: "(errno + unit) \<times> bootargs option \<Rightarrow> (cstr \<times> cstr) list" where
  "root_candidates r =
     (case r of
        (Inr _, Some args) \<Rightarrow>
          if root_device args \<noteq> []
          then [(root_device args, if root_fstype args \<noteq> [] then root_fstype args else cstr_of ''ext4'')]
          else [(cstr_of ''/dev/vda'', cstr_of ''ext4''), (cstr_of ''/dev/mmcblk0p2'', cstr_of ''ext4''),
                (cstr_of ''/dev/mmcblk0'', cstr_of ''ext4'')]
      | _ \<Rightarrow> [(cstr_of ''/dev/vda'', cstr_of ''ext4''), (cstr_of ''/dev/mmcblk0p2'', cstr_of ''ext4''),
              (cstr_of ''/dev/mmcblk0'', cstr_of ''ext4'')])"

text \<open>
  The state in which the idle loop starts; \<open>None\<close> if the kernel stops because a subsystem failed. \<open>chosen\<close> and \<open>prop\<close> are
  what the device tree says of the boot arguments.
\<close>

definition start_kernel :: "'s boot_calls \<Rightarrow> int \<Rightarrow> bytes option \<Rightarrow> 's \<Rightarrow> 's option" where
  "start_kernel c chosen prop s =
     (case subsys_init_all (bc_subsys c) s of
        (ret, _, s1) \<Rightarrow>
          if ret < 0 then None
          else
            let s2 = bc_clear_ttbr0 c (module_init (bc_modules c) s1);
                s3 = try_mounts c (root_candidates (parse_bootargs (Some bootargs0) chosen prop)) s2;
                (_, s4) = bc_spawn c (cstr_of ''/bin/shell'') s3
            in Some (bc_irq_unmask c s4))"

text \<open>
  Mounting goes through the candidates in order up to the first that succeeds: the calls made are those of a prefix of the
  list, all of them failures but the last one, and a failure at the end only if every candidate has been tried.
\<close>

lemma try_mounts_prefix:
  "\<exists>tried rest. ds = tried @ rest \<and>
     try_mounts c ds s = fold (\<lambda>(dev, fstype) t. snd (bc_mount_root c dev fstype t)) tried s \<and>
     (\<forall>k < length tried. fst (bc_mount_root c (fst (tried ! k)) (snd (tried ! k))
        (fold (\<lambda>(dev, fstype) t. snd (bc_mount_root c dev fstype t)) (take k tried) s)) = 0 \<longrightarrow> Suc k = length tried) \<and>
     (rest \<noteq> [] \<longrightarrow> tried \<noteq> [] \<and> fst (bc_mount_root c (fst (last tried)) (snd (last tried))
        (fold (\<lambda>(dev, fstype) t. snd (bc_mount_root c dev fstype t)) (butlast tried) s)) = 0)"
proof (induction ds arbitrary: s)
  case Nil
  then show ?case by (intro exI [of _ "[]"]) simp
next
  case (Cons d ds)
  obtain dev fstype where d: "d = (dev, fstype)" by (cases d)
  obtain ret s' where m: "bc_mount_root c dev fstype s = (ret, s')" by fastforce
  show ?case
  proof (cases "ret = 0")
    case True
    then show ?thesis by (intro exI [of _ "[d]"] exI [of _ ds]) (simp add: d m)
  next
    case False
    obtain tried rest where t: "ds = tried @ rest"
      "try_mounts c ds s' = fold (\<lambda>(dev, fstype) t. snd (bc_mount_root c dev fstype t)) tried s'"
      "\<forall>k < length tried. fst (bc_mount_root c (fst (tried ! k)) (snd (tried ! k))
        (fold (\<lambda>(dev, fstype) t. snd (bc_mount_root c dev fstype t)) (take k tried) s')) = 0 \<longrightarrow> Suc k = length tried"
      "rest \<noteq> [] \<longrightarrow> tried \<noteq> [] \<and> fst (bc_mount_root c (fst (last tried)) (snd (last tried))
        (fold (\<lambda>(dev, fstype) t. snd (bc_mount_root c dev fstype t)) (butlast tried) s')) = 0"
      using Cons.IH [of s'] by blast
    show ?thesis
    proof (rule exI [of _ "d # tried"], rule exI [of _ rest], intro conjI)
      show "\<forall>k < length (d # tried). fst (bc_mount_root c (fst ((d # tried) ! k)) (snd ((d # tried) ! k))
          (fold (\<lambda>(dev, fstype) t. snd (bc_mount_root c dev fstype t)) (take k (d # tried)) s)) = 0 \<longrightarrow> Suc k = length (d # tried)"
        using t(3) False by (auto simp: d m less_Suc_eq_0_disj)
    qed (use t False in \<open>auto simp: d m\<close>)
  qed
qed

end
