(* ===== verification/Spec2Isabelle.thy ===== *)
theory Spec2Isabelle
  imports Minus_Prelude CString Minus_Dlist Rbtree Memblock Cap Buddy Slab Mmu Vspace Sched
    Services Thread Endian Process Block Ext4 Ext4_File Ext4_Inode
    Ext4_Dir Vfs Namei Vfs_File Fs_Service Ext4_Fs Devfs Fd_Table Gfx Shell
    Fdt Fdt_Tree Driver_Core Hw Gic Uart Virtio Sdhci Mmc Fb Init
begin

text \<open>
  Minus: a minimal ARM64 operating system.

  This development models the kernel under \<open>src/kernel\<close>, its library under \<open>src/lib\<close> and the
  programs under \<open>src/uapps\<close>, and proves what makes its parts correct. Definitions follow the C functions one by one and keep their
  names; the theory \<open>Minus_Prelude\<close> fixes the conventions (machine words at their width, \<open>None\<close> for
  undefined behaviour and for loops that do not end, \<open>Inl\<close> for a negative \<open>errno\<close>).

  The parts of the kernel and how they meet:

  The library \<open>src/lib\<close> has strings, bitmaps and circular lists. Everything below uses it.
  At boot, \<open>memblock.c\<close> keeps the physical memory that the device tree names and carves reserved
  ranges out of it; \<open>buddy.c\<close> takes over the remaining ranges as pages, \<open>slab.c\<close> cuts pages into
  objects, \<open>mmu.c\<close> and \<open>vspace.c\<close> map pages into kernel and user address spaces and \<open>uaccess.c\<close>
  copies between the two. The core keeps capabilities (\<open>cap.c\<close>) by which the servers name each
  other's objects, threads and run queues (\<open>thread.c\<close>, \<open>sched.c\<close>), and registries for services,
  switch notifications, subsystems and system calls. The process server loads programs. The file
  system resolves paths over mounted file systems (\<open>namei.c\<close>, \<open>mount.c\<close>) with caches of inodes and
  directory entries (\<open>inode.c\<close>, \<open>dcache.c\<close>), keeps open files and descriptor tables (\<open>vfs.c\<close>,
  \<open>fdtable.c\<close>), and calls its backends through operation tables: ext4 on a buffer cache on block
  devices, and the file system of devices with the console and the frame buffer.

  Theories and the sources they model:

  \<^item> \<open>Minus_Prelude\<close>: \<open>include/base/types.h\<close>, \<open>bitops.h\<close>, \<open>lib/bitops.c\<close>, error numbers.
  \<^item> \<open>CString\<close>: \<open>lib/string.c\<close> on a byte array with checked accesses.
  \<^item> \<open>Minus_Dlist\<close>: \<open>lib/dlist.c\<close>; the locale \<open>dlist_iface\<close> says that lists in one store behave
    as Isabelle lists. The scheduler, the page allocator and the object allocator use the store
    itself; components with lists of their own keep the list view.
  \<^item> \<open>Rbtree\<close>: \<open>lib/rbtree.c\<close> on a store of nodes; locale \<open>rb_order\<close>, interpreted on the order of inodes.
  \<^item> \<open>Memblock\<close>: \<open>kernel/mm/memblock.c\<close>.
  \<^item> \<open>Cap\<close>: \<open>kernel/core/service/cap.c\<close>; locale \<open>cap_space\<close>.
  \<^item> \<open>Buddy\<close>: \<open>kernel/mm/buddy.c\<close> and the descriptors of \<open>include/mm/page.h\<close>.
  \<^item> \<open>Slab\<close>: \<open>kernel/mm/slab.c\<close>.
  \<^item> \<open>Mmu\<close>: \<open>kernel/core/arch/mmu.c\<close>, \<open>early_mmu.c\<close>.
  \<^item> \<open>Vspace\<close>: \<open>kernel/mm/vspace.c\<close>, \<open>uaccess.c\<close>, \<open>mm.c\<close>.
  \<^item> \<open>Sched\<close>: \<open>kernel/core/thread/sched.c\<close>; locale \<open>run_queues\<close>.
  \<^item> \<open>Services\<close>: \<open>svc.c\<close>, \<open>switch_notify.c\<close>, \<open>ipc_local.c\<close>, \<open>subsys.c\<close>, \<open>syscall_dispatch.c\<close>,
    \<open>cmdline.c\<close>.
  \<^item> \<open>Thread\<close>: \<open>kernel/core/thread/thread.c\<close>, \<open>include/core/wait.h\<close>, \<open>kernel/core/arch/entry.c\<close>.
  \<^item> \<open>Process\<close>: \<open>kernel/proc\<close>.
  \<^item> \<open>Endian\<close>: \<open>include/base/endian.h\<close> and little-endian fields of byte arrays.
  \<^item> \<open>Block\<close>: \<open>kernel/driver/block/blk-core.c\<close> and \<open>kernel/fs/backend/bcache\<close>; locale
    \<open>block_store\<close>.
  \<^item> \<open>Ext4\<close>, \<open>Ext4_File\<close>, \<open>Ext4_Inode\<close>, \<open>Ext4_Dir\<close>: \<open>kernel/fs/backend/ext4fs\<close>, the extent map and
    bitmaps, file data, inodes on disk, and directories.
  \<^item> \<open>Vfs\<close>: \<open>inode.c\<close>, \<open>dcache.c\<close>, \<open>fs_type.c\<close> of \<open>kernel/fs/service\<close>, the records of the headers there, and
    the state \<open>fs_state\<close> that all of the file system works on. An object is a record at its address; a
    table of function pointers is named by its address and looked up in \<open>vfs_env\<close>.
  \<^item> \<open>Namei\<close>: \<open>namei.c\<close>, \<open>mount.c\<close>. \<open>Vfs_File\<close>: \<open>vfs.c\<close>, \<open>fdtable.c\<close>. \<open>Fs_Service\<close>: \<open>fs_service.c\<close> and
    \<open>kernel/fs/sysif/sysif_fs.c\<close>.
  \<^item> \<open>Ext4_Fs\<close>: \<open>super.c\<close> and \<open>namei.c\<close> of ext4, and its operations on cached inodes. \<open>Devfs\<close>:
    \<open>kernel/fs/backend/devfs\<close>, with the tables of all backends together (\<open>minus_env\<close>); the drivers of the
    serial line and the frame buffer are arguments.
  \<^item> \<open>Fd_Table\<close>: the descriptor table over all backends; locales \<open>super_frame\<close> and \<open>files_frame\<close>.
  \<^item> \<open>Gfx\<close>: the drawing library \<open>uapps/libgfx\<close> and what \<open>uapps/fb_test\<close> draws. \<open>Shell\<close>: \<open>uapps/shell\<close>,
    over the system calls as an argument.
  \<^item> \<open>Fdt\<close>: the read-only part of the device tree library (\<open>lib/libfdt/fdt.c\<close>, \<open>fdt_ro.c\<close>,
    \<open>fdt_addresses.c\<close>) on the bytes of the blob; \<open>Fdt_Tree\<close>: trees, their flattened form and what the library
    reads from it.
  \<^item> \<open>Driver_Core\<close>: \<open>kernel/driver/core\<close>, the binding of drivers and devices and the platform bus that is
    filled from the device tree.
  \<^item> \<open>Hw\<close>: the accesses to devices and system registers, an argument of the drivers. \<open>Gic\<close>:
    \<open>kernel/driver/gic\<close>, \<open>kernel/core/arch/irq.c\<close> and \<open>kernel/driver/timer\<close>; locale \<open>irq_chip\<close>, interpreted
    on both versions of the controller.
  \<^item> \<open>Uart\<close>: \<open>kernel/driver/console/uart.c\<close> and \<open>kernel/core/klog/printk.c\<close>; locale \<open>bounded_fifo\<close>.
    \<open>Virtio\<close>: the bus, the transport and the block device of \<open>kernel/driver/virtio\<close>. \<open>Sdhci\<close>: the SD
    controller and the card protocol (\<open>sdhci-core.c\<close>, \<open>sd.c\<close>); \<open>Mmc\<close>: block devices and partitions of a card
    (\<open>mmcblk.c\<close>) and the controller of the BCM2712 (\<open>sdhci-brcm.c\<close>). \<open>Fb\<close>: frame buffers, \<open>kernel/driver/fb\<close>,
    \<open>virtio_gpu.c\<close> and \<open>kernel/driver/mailbox\<close>.
  \<^item> \<open>Init\<close>: \<open>kernel/core/init.c\<close>, over the services as an argument.

  What the lemmas show. The allocators hand out only free memory, aligned and disjoint, and take it
  back without loss (\<open>Memblock\<close>, \<open>Buddy\<close>); copies to and from user memory touch exactly the mapped
  prefix (\<open>Vspace\<close>); the capability table is a finite map whose freed tokens stay dead (\<open>Cap\<close>). The
  run queues hold exactly the ready threads in every reachable state, the scheduler picks the
  longest waiting thread of the highest priority, and each ready thread of that priority runs
  (\<open>Sched\<close>). The buffer cache is transparent (\<open>Block\<close>), the extents of an inode are a finite map
  (\<open>Ext4\<close>), reads and writes of a file are reads and writes of its bytes (\<open>Ext4_File\<close>), inodes
  survive the way to the disk and back (\<open>Ext4_Inode\<close>), and directory blocks keep their entries
  (\<open>Ext4_Dir\<close>), can always be listed, and are listed by successive calls without loss or repetition
  (\<open>Vfs_File\<close>). The inode cache is a finite map (\<open>Vfs\<close>, over the red-black tree of \<open>Rbtree\<close>), a path is
  resolved to the entry that its components lead to over all mounts, with the reference counts
  balanced (\<open>Namei\<close>), and descriptors are taken and given back without touching others (\<open>Fd_Table\<close>).
  At the end of this theory the layers meet: a \<open>write\<close> to the console sends the bytes of the user's
  buffer. The shell reads from the bytes of a listing the names that the kernel put there (\<open>Shell\<close>); the
  drawing routines end and change exactly the pixels they should (\<open>Gfx\<close>). 
  The device tree library visits the nodes of a tree in preorder and reads the values of its properties
  (\<open>Fdt_Tree\<close>), bus addresses are translated through the ranges of all buses above a device, and devices
  and drivers are bound whatever the order of their registration (\<open>Driver_Core\<close>); an interrupt runs the
  handler requested for it (\<open>Gic\<close>). The receive ring of the serial line is a queue and its readers are
  woken (\<open>Uart\<close>); a block request reaches the virtio device as one chain and comes back with its status
  (\<open>Virtio\<close>); every request to the SD card returns as long as time passes (\<open>Sdhci\<close>), and a request to a
  partition stays inside it (\<open>Mmc\<close>). Flushing the display sends all visible pixels and stays inside the frame
  buffer, and the answers of the firmware are read as they were written (\<open>Fb\<close>). Start-up runs the subsystems in order, and a system call runs the handler registered
  for its number (\<open>Services\<close>).

  Bounds. Loops that the code bounds by a counter or a list are recursion on it. Loops that may
  leave their object or run for ever return \<open>None\<close> there; a theorem with the result \<open>Some\<close> says
  that they return and stay inside. Waits for a device return \<open>None\<close> if the device never answers; those of
  the SD host are shown to end by their timeout. The only fuel is the number of slabs in \<open>Slab.free_slabs_loop\<close>.

  Not modelled: the functions of \<open>libfdt\<close> that write trees (the kernel only reads), assembly (\<open>start.S\<close>, \<open>switch.S\<close>, \<open>vectors.S\<close>) beyond the place where a thread resumes,
  cache and TLB maintenance, the exception entries that print and spin, messages
  of the log inside other functions, and the system call instructions of the programs (\<open>fb.c\<close>, the stubs of \<open>shell.c\<close>).
\<close>

section \<open>Writing to the console\<close>

definition fs_hw :: "'d fs_state \<Rightarrow> 'd" where
  "fs_hw s = bk_hw (fs_blk s)"

definition sent :: "'d dev_env \<Rightarrow> bytes \<Rightarrow> 'd fs_state \<Rightarrow> 'd fs_state" where
  "sent dv bs s = set_hw (fold (dev_env.uart_putc dv) bs (fs_hw s)) s"

definition console_fd :: "'d fs_state \<Rightarrow> u32 \<Rightarrow> bool" where
  "console_fd s fd \<longleftrightarrow> (\<exists>a f. cur_file s fd = Some (Some a) \<and> fs_file s a = Some f \<and> f_op f = Some console_fop_addr)"

lemma sent_append: "sent dv (bs @ cs) s = sent dv cs (sent dv bs s)"
  by (simp add: sent_def set_hw_def fs_hw_def)

lemma cur_file_hw: "cur_file (s\<lparr>fs_blk := b\<rparr>) fd = cur_file s fd"
  by (simp add: cur_file_def fget_def split: option.split)

lemma sent_frame [simp]: "fs_mm (sent dv bs s) = fs_mm s" "console_fd (sent dv bs s) fd \<longleftrightarrow> console_fd s fd"
  by (simp_all add: sent_def set_hw_def fs_mm_def console_fd_def cur_file_hw)

lemma set_pos_same: "fs_file s a = Some f \<Longrightarrow> upd_file a (\<lambda>x. x\<lparr>f_pos := f_pos f\<rparr>) s = Some s"
  by (cases f) (auto simp: upd_file_def fun_upd_idem)

lemma console_fd_write:
  assumes "console_fd s fd" and "length bs = unat c" and "unat c < 2 ^ 31"
  shows "fd_write (minus_env ops dv) fd bs c s = Some (int (unat c), sent dv bs s)"
proof -
  obtain a f where f: "cur_file s fd = Some (Some a)" "fs_file s a = Some f" "f_op f = Some console_fop_addr"
    using assms(1) by (auto simp: console_fd_def)
  have op: "fo_write (ve_fop (minus_env ops dv) console_fop_addr) = Some (console_write dv)"
    by (simp add: minus_env_def table_addrs console_fops_def)
  have i: "sint c = int (unat c)" using assms(3) sint_of_nat_u32 [of "unat c"] by simp
  have w: "console_write dv a bs c p s = Some ((int (unat c), p), sent dv bs s)" for p
    using assms(2) i by (simp add: console_write_def sent_def fs_hw_def)
  have "fs_file (sent dv bs s) a = Some f" using f(2) by (simp add: sent_def set_hw_def)
  then show ?thesis
    using f op w set_pos_same [of "sent dv bs s" a f]
    by (simp add: fd_write_def vfs_write_def file_op_def at_pos_def)
qed

lemma unat_bounce:
  assumes "dn < n"
  shows "unat (chunk_of n dn) = min 256 (unat n - unat dn)" "0 < unat (chunk_of n dn)"
proof -
  have d: "unat (n - dn) = unat n - unat dn" using assms by (simp add: unat_sub less_imp_le)
  then show u: "unat (chunk_of n dn) = min 256 (unat n - unat dn)"
    by (simp add: chunk_of_def SYS_IO_BOUNCE_def word_less_nat_alt min_def)
  show "0 < unat (chunk_of n dn)" using u assms by (simp add: word_less_nat_alt)
qed

text \<open>The bytes written up to some point: they are those of the user, and the next piece is not all there.\<close>

definition user_run :: "'d fs_state \<Rightarrow> u64 \<Rightarrow> nat \<Rightarrow> bytes \<Rightarrow> bool" where
  "user_run s buf k bs \<longleftrightarrow>
     (\<forall>i < length bs. user_byte (fs_mm s) (cur_vspace (fs_mm s)) (buf + of_nat (k + i)) = Some (bs ! i))"

lemma user_run_append:
  assumes "user_run s buf k bs" and "user_run s buf (k + length bs) cs"
  shows "user_run s buf k (bs @ cs)"
  unfolding user_run_def
proof (intro allI impI)
  fix i
  assume i: "i < length (bs @ cs)"
  show "user_byte (fs_mm s) (cur_vspace (fs_mm s)) (buf + of_nat (k + i)) = Some ((bs @ cs) ! i)"
  proof (cases "i < length bs")
    case True
    then show ?thesis using assms(1) by (simp add: user_run_def nth_append)
  next
    case False
    then have "k + i = k + length bs + (i - length bs)" "i - length bs < length cs" using i by simp_all
    then show ?thesis using assms(2) False unfolding user_run_def nth_append by metis
  qed
qed

definition hole :: "'d fs_state \<Rightarrow> u64 \<Rightarrow> nat \<Rightarrow> nat \<Rightarrow> bool" where
  "hole s buf k n \<longleftrightarrow> (\<exists>j. k \<le> j \<and> j < min n (k + 256) \<and> user_byte (fs_mm s) (cur_vspace (fs_mm s)) (buf + of_nat j) = None)"

definition write_result :: "nat \<Rightarrow> nat \<Rightarrow> int" where
  "write_result n k = (if k = 0 \<and> 0 < n then - errno_val EFAULT else int k)"

lemma write_loop_console:
  assumes ok: "regions_ok (fs_mm s) (cur_vspace (fs_mm s))" and c: "console_fd s fd" and n: "unat n < 2 ^ 31" and le: "dn \<le> n"
  shows "\<exists>bs. unat dn + length bs \<le> unat n \<and> user_run s buf (unat dn) bs \<and>
    (unat dn + length bs < unat n \<longrightarrow> hole s buf (unat dn + length bs) (unat n)) \<and>
    write_user_loop (minus_env ops dv) fd buf n dn s = Some (write_result (unat n) (unat dn + length bs), sent dv bs s)"
  using ok c le
proof (induction "unat n - unat dn" arbitrary: dn s rule: less_induct)
  case less
  show ?case
  proof (cases "n \<le> dn")
    case True
    then have "dn = n" using less.prems(3) by simp
    moreover have "write_user_loop (minus_env ops dv) fd buf n n s = Some (uint n, s)"
      by (subst write_user_loop.simps) simp
    ultimately show ?thesis
      by (intro exI [of _ "[]"]) (simp add: user_run_def write_result_def sent_def set_hw_def fs_hw_def)
  next
    case False
    then have lt: "dn < n" by simp
    let ?c = "chunk_of n dn"
    note ch = unat_bounce [OF lt]
    obtain l bs where cp: "copy_from_user (fs_mm s) (buf + ucast dn) ?c = Some (l, bs)" "unat l + length bs = unat ?c"
      "\<forall>i < length bs. user_byte (fs_mm s) (cur_vspace (fs_mm s)) (buf + ucast dn + of_nat i) = Some (bs ! i)"
      "l \<noteq> 0 \<longrightarrow> user_byte (fs_mm s) (cur_vspace (fs_mm s)) (buf + ucast dn + of_nat (length bs)) = None"
      using copy_from_user_spec [OF less.prems(1)] by blast
    show ?thesis
    proof (cases "l = 0")
      case l: False
      then have "0 < unat l" by (simp add: unat_gt_0)
      then have "length bs < 256" "unat dn + length bs < unat n" using cp(2) ch(1) by (auto simp: min_def split: if_splits)
      then have "hole s buf (unat dn) (unat n)"
        using cp(4) l by (auto simp: hole_def add.assoc intro!: exI [of _ "unat dn + length bs"])
      moreover have "write_user_loop (minus_env ops dv) fd buf n dn s = Some (write_result (unat n) (unat dn), s)"
        using False cp(1) l ch lt by (subst write_user_loop.simps) (auto simp: or_done_def write_result_def word_less_nat_alt unat_eq_zero)
      ultimately show ?thesis using lt
        by (intro exI [of _ "[]"]) (auto simp: user_run_def sent_def set_hw_def fs_hw_def word_less_nat_alt)
    next
      case l: True
      then have len: "length bs = unat ?c" using cp(2) by simp
      have c31: "unat ?c < 2 ^ 31" using ch(1) by simp
      have un: "unat (dn + ?c) = unat dn + unat ?c" using ch n lt by (simp add: unat_word_ariths word_less_nat_alt)
      have sum_le: "dn + ?c \<le> n" using un ch lt by (simp add: word_le_nat_alt word_less_nat_alt)
      have dec: "unat n - unat (dn + ?c) < unat n - unat dn" using un ch lt by (simp add: word_less_nat_alt)
      let ?s = "sent dv bs s"
      obtain cs where cs: "unat (dn + ?c) + length cs \<le> unat n" "user_run ?s buf (unat (dn + ?c)) cs"
        "unat (dn + ?c) + length cs < unat n \<longrightarrow> hole ?s buf (unat (dn + ?c) + length cs) (unat n)"
        "write_user_loop (minus_env ops dv) fd buf n (dn + ?c) ?s = Some (write_result (unat n) (unat (dn + ?c) + length cs), sent dv cs ?s)"
        using less.hyps [OF dec _ _ sum_le, of ?s] less.prems(1,2) by auto
      have "write_user_loop (minus_env ops dv) fd buf n dn s = write_user_loop (minus_env ops dv) fd buf n (dn + ?c) ?s"
        using False cp(1) l console_fd_write [OF less.prems(2) len c31, of ops dv]
        by (subst write_user_loop.simps) simp
      moreover have run: "user_run s buf (unat dn) bs" using cp(3) by (simp add: user_run_def add.assoc)
      moreover have "user_run s buf (unat dn) (bs @ cs)"
        using user_run_append [of s buf "unat dn" bs cs] run cs(2) un len by (simp add: user_run_def)
      ultimately show ?thesis
        using cs un len by (intro exI [of _ "bs @ cs"]) (simp add: sent_append hole_def add.assoc)
    qed
  qed
qed

text \<open>
  (C14) The system call \<open>write\<close> on a descriptor of the console, with all layers in between (the bounce
  buffer, the descriptor table, the file operations, the driver): the bytes that reach the serial line
  are those of the user's buffer, in order and without a gap, and nothing else of the file system
  state changes. All of them are sent and counted unless the buffer is not wholly mapped; then the
  call stops before the piece of 256 bytes with the hole, and reports \<open>EFAULT\<close> if nothing was sent.
\<close>

theorem sys_write_console:
  assumes "regions_ok (fs_mm s) (cur_vspace (fs_mm s))" and "console_fd s fd" and "unat n < 2 ^ 31"
  shows "\<exists>bs. length bs \<le> unat n \<and> user_run s buf 0 bs \<and> (length bs < unat n \<longrightarrow> hole s buf (length bs) (unat n)) \<and>
    sys_write (minus_env ops dv) fd buf n s = Some (write_result (unat n) (length bs), sent dv bs s)"
proof (cases "n = 0")
  case True
  then show ?thesis
    by (intro exI [of _ "[]"]) (simp add: sys_write_def user_run_def write_result_def sent_def set_hw_def fs_hw_def)
next
  case False
  then show ?thesis using write_loop_console [OF assms, of 0 buf ops dv] by (simp add: sys_write_def)
qed

text \<open>A task whose descriptor 0 is the console; the driver appends what it sends to a record.\<close>

definition tty_devices :: "(bkey \<Rightarrow> bytes) dev_env" where
  "tty_devices = quiet_devices\<lparr>uart_putc := (\<lambda>c h. h((0, 0) := h (0, 0) @ [c]))\<rparr>"

definition tty_task :: "(bkey \<Rightarrow> bytes) fs_state" where
  "tty_task = demo_task\<lparr>fs_file := [8 \<mapsto> \<lparr>f_dentry = 1, f_vfsmnt = None, f_op = Some console_fop_addr, f_pos = 0,
     f_flags = 2, f_count = 1, f_private = None\<rparr>], fs_blk := table_cache\<lparr>bk_mm := demo_mm\<rparr>\<rparr>"

theorem sys_write_console_witness:
  "\<exists>bs. length bs \<le> 2 \<and> user_run tty_task 0x40fff 0 bs \<and> (length bs < 2 \<longrightarrow> hole tty_task 0x40fff (length bs) 2) \<and>
     sys_write (minus_env ram_ops tty_devices) 0 0x40fff 2 tty_task = Some (write_result 2 (length bs), sent tty_devices bs tty_task)"
proof -
  have "fs_mm tty_task = demo_mm" by (simp add: fs_mm_def tty_task_def)
  then have ok: "regions_ok (fs_mm tty_task) (cur_vspace (fs_mm tty_task))" using demo_mm_ok(1) by simp
  have "console_fd tty_task 0"
    by (simp add: console_fd_def cur_file_def fget_def tty_task_def demo_task_def small_fs_def NR_OPEN_DEFAULT_def rd_def)
  then show ?thesis
    using sys_write_console [OF ok, of 0 2 "0x40fff" ram_ops tty_devices] by simp
qed

end
